(* ===== verification/Prelude.thy ===== *)
theory Prelude
  imports Main "HOL-Library.Word"
begin

text \<open>
  Shared vocabulary of the development: the machine-integer synonyms, the faults of the
  firmware as values, checked array access, wrapping counters, and the view of a byte
  buffer as a sequence of bits (least significant bit first), in which the codecs are
  proved correct.
\<close>

unbundle bit_operations_syntax

section \<open>Machine integers\<close>

type_synonym u8 = "8 word"
type_synonym u16 = "16 word"
type_synonym u32 = "32 word"
type_synonym u64 = "64 word"

text \<open>
  Counters (array sizes, numbers of bits) are naturals whose increments wrap at the width
  of the C type; \<open>inc8\<close>, \<open>inc16\<close> and \<open>inc32\<close> are \<open>++x\<close> on \<^verbatim>\<open>uint8_t\<close>,
  \<^verbatim>\<open>uint16_t\<close> and \<^verbatim>\<open>uint32_t\<close>.
\<close>

definition inc8 :: "nat \<Rightarrow> nat" where "inc8 n = (n + 1) mod 2 ^ 8"
definition inc16 :: "nat \<Rightarrow> nat" where "inc16 n = (n + 1) mod 2 ^ 16"
definition inc32 :: "nat \<Rightarrow> nat" where "inc32 n = (n + 1) mod 2 ^ 32"

named_theorems fault_simps \<open>evaluation of checked operations\<close>

lemma inc8_small [simp]: "n < 255 \<Longrightarrow> inc8 n = Suc n"
  by (simp add: inc8_def)

lemma inc16_small [simp]: "n < 65535 \<Longrightarrow> inc16 n = Suc n"
  by (simp add: inc16_def)

lemma inc32_small [simp]: "n < 4294967295 \<Longrightarrow> inc32 n = Suc n"
  by (simp add: inc32_def)

section \<open>Faults as values\<close>

text \<open>
  \<^verbatim>\<open>furi_check\<close> and \<^verbatim>\<open>furi_crash\<close> halt the device, \<^verbatim>\<open>furi_assert\<close> halts a
  debug build, an access outside an array is undefined behaviour, and a call through a null
  function pointer is a hard fault; a shift by the width of its operand or more and a division
  by zero are undefined arithmetic. All of them are values, so that ``no fault'' is a
  theorem and not an assumption. \<open>OutOfFuel\<close> is the value of a loop that ran out of the
  steps it was given; the theorems show that it is never returned.
\<close>

datatype furi_fault = FuriCheck | FuriAssert | FuriCrash | OutOfBounds | NullPointer | UndefinedArith | OutOfFuel

type_synonym 'a res = "furi_fault + 'a"

definition bindr :: "'a res \<Rightarrow> ('a \<Rightarrow> 'b res) \<Rightarrow> 'b res" where
  "bindr m f = (case m of Inl e \<Rightarrow> Inl e | Inr x \<Rightarrow> f x)"

definition furi_check :: "bool \<Rightarrow> unit res" where
  "furi_check b = (if b then Inr () else Inl FuriCheck)"

definition furi_assert :: "bool \<Rightarrow> unit res" where
  "furi_assert b = (if b then Inr () else Inl FuriAssert)"

definition list_get :: "'a list \<Rightarrow> nat \<Rightarrow> 'a res" where
  "list_get xs i = (if i < length xs then Inr (xs ! i) else Inl OutOfBounds)"

definition list_set :: "'a list \<Rightarrow> nat \<Rightarrow> 'a \<Rightarrow> 'a list res" where
  "list_set xs i x = (if i < length xs then Inr (xs[i := x]) else Inl OutOfBounds)"

lemma bindr_Inr [simp]: "bindr (Inr x) f = f x"
  and bindr_Inl [simp]: "bindr (Inl e) f = Inl e"
  by (simp_all add: bindr_def)

lemma bindr_eq_Inr: "bindr m f = Inr y \<longleftrightarrow> (\<exists>x. m = Inr x \<and> f x = Inr y)"
  by (cases m) simp_all

lemma bindr_assoc: "bindr (bindr m f) g = bindr m (\<lambda>x. bindr (f x) g)"
  by (cases m) simp_all

lemma bindr_cong [fundef_cong]:
  "m = m' \<Longrightarrow> (\<And>x. m' = Inr x \<Longrightarrow> f x = g x) \<Longrightarrow> bindr m f = bindr m' g"
  by (cases m') simp_all

lemma furi_check_True [simp]: "furi_check True = Inr ()"
  and furi_check_False [simp]: "furi_check False = Inl FuriCheck"
  and furi_assert_True [simp]: "furi_assert True = Inr ()"
  and furi_assert_False [simp]: "furi_assert False = Inl FuriAssert"
  by (simp_all add: furi_check_def furi_assert_def)

lemma furi_check_eq_Inr [simp]: "furi_check b = Inr u \<longleftrightarrow> b"
  and furi_assert_eq_Inr [simp]: "furi_assert b = Inr u \<longleftrightarrow> b"
  by (simp_all add: furi_check_def furi_assert_def)

lemma list_get_ok [fault_simps]: "i < length xs \<Longrightarrow> list_get xs i = Inr (xs ! i)"
  by (simp add: list_get_def)

lemma list_set_ok [fault_simps]: "i < length xs \<Longrightarrow> list_set xs i x = Inr (xs[i := x])"
  by (simp add: list_set_def)

lemma list_get_eq_Inr: "list_get xs i = Inr x \<longleftrightarrow> i < length xs \<and> x = xs ! i"
  by (auto simp: list_get_def)

lemma list_set_eq_Inr: "list_set xs i x = Inr ys \<longleftrightarrow> i < length xs \<and> ys = xs[i := x]"
  by (auto simp: list_set_def)

section \<open>Byte buffers as bit sequences\<close>

text \<open>
  Bit \<open>i\<close> of a byte buffer, least significant bit of byte 0 first: the order in which the
  infrared codecs fill and read their payload, and the order of the bits of a
  little-endian word that overlays the buffer.
\<close>

definition byte_bit :: "u8 list \<Rightarrow> nat \<Rightarrow> bool" where
  "byte_bit xs i = bit (xs ! (i div 8)) (i mod 8)"

definition data_bits :: "u8 list \<Rightarrow> nat \<Rightarrow> bool list" where
  "data_bits xs n = map (byte_bit xs) [0..<n]"

lemma length_data_bits [simp]: "length (data_bits xs n) = n"
  by (simp add: data_bits_def)

lemma data_bits_0 [simp]: "data_bits xs 0 = []"
  by (simp add: data_bits_def)

lemma data_bits_Suc: "data_bits xs (Suc n) = data_bits xs n @ [byte_bit xs n]"
  by (simp add: data_bits_def)

lemma data_bits_eq_iff: "data_bits xs n = data_bits ys n \<longleftrightarrow> (\<forall>i<n. byte_bit xs i = byte_bit ys i)"
  by (auto simp: data_bits_def)

lemma data_bits_cong: "(\<And>i. i < n \<Longrightarrow> byte_bit xs i = byte_bit ys i) \<Longrightarrow> data_bits xs n = data_bits ys n"
  by (simp add: data_bits_eq_iff)

lemma byte_bit_offset: "j < 8 \<Longrightarrow> byte_bit xs (8 * k + j) = bit (xs ! k) j"
  by (simp add: byte_bit_def)

lemma data_bits_byte_eq:
  assumes "data_bits xs n = data_bits ys n" and "8 * k + 8 \<le> n"
  shows "xs ! k = ys ! k"
proof (rule bit_word_eqI)
  fix j assume "j < LENGTH(8)"
  then have j: "j < 8" by simp
  with assms have "byte_bit xs (8 * k + j) = byte_bit ys (8 * k + j)"
    by (simp add: data_bits_eq_iff)
  with j show "bit (xs ! k) j = bit (ys ! k) j"
    by (simp add: byte_bit_offset)
qed

lemma data_bits_bit_eq:
  assumes "data_bits xs n = data_bits ys n" and "8 * k + j < n" and "j < 8"
  shows "bit (xs ! k) j = bit (ys ! k) j"
  using assms by (metis byte_bit_offset data_bits_eq_iff)

text \<open>A test of one bit by a shifted mask, as the C code writes it.\<close>

lemma and_mask_bit: "(x AND push_bit n 1 \<noteq> 0) = bit x n" for x :: "'a::len word"
  by (simp add: bit_iff_and_push_bit_not_eq_0)

section \<open>Little-endian words over a byte buffer\<close>

definition word_of_bytes :: "u8 \<Rightarrow> u8 \<Rightarrow> u8 \<Rightarrow> u8 \<Rightarrow> u32" where
  "word_of_bytes b0 b1 b2 b3 =
     ucast b0 OR push_bit 8 (ucast b1) OR push_bit 16 (ucast b2) OR push_bit 24 (ucast b3)"

definition read_u32 :: "u8 list \<Rightarrow> nat \<Rightarrow> u32 res" where
  "read_u32 xs k =
     (if k + 4 \<le> length xs
      then Inr (word_of_bytes (xs ! k) (xs ! (k + 1)) (xs ! (k + 2)) (xs ! (k + 3)))
      else Inl OutOfBounds)"

definition read_u16 :: "u8 list \<Rightarrow> nat \<Rightarrow> u16 res" where
  "read_u16 xs k =
     (if k + 2 \<le> length xs
      then Inr (ucast (xs ! k) OR push_bit 8 (ucast (xs ! (k + 1))))
      else Inl OutOfBounds)"

definition write_u32 :: "u8 list \<Rightarrow> nat \<Rightarrow> u32 \<Rightarrow> u8 list res" where
  "write_u32 xs k v =
     (if k + 4 \<le> length xs
      then Inr (xs[k := ucast v, k + 1 := ucast (drop_bit 8 v),
                   k + 2 := ucast (drop_bit 16 v), k + 3 := ucast (drop_bit 24 v)])
      else Inl OutOfBounds)"

text \<open>The bytes of a word, and the bits of a word that is read or written.\<close>

lemma bit_word_of_bytes:
  "bit (word_of_bytes b0 b1 b2 b3) j \<longleftrightarrow>
     (if j < 8 then bit b0 j else if j < 16 then bit b1 (j - 8)
      else if j < 24 then bit b2 (j - 16) else bit b3 (j - 24))"
proof -
  have "\<not> bit b k" if "8 \<le> k" for b :: u8 and k
    using that bit_imp_le_length [of b k] by auto
  moreover from this have "bit b3 (j - 24) \<Longrightarrow> j < 32 \<and> j - 24 < 32"
    using linorder_not_less [of "j - 24" 8] by fastforce
  ultimately show ?thesis by (auto simp: word_of_bytes_def bit_simps)
qed

lemma bytes_of_word_of_bytes [simp]:
  "ucast (word_of_bytes b0 b1 b2 b3) = b0"
  "ucast (drop_bit 8 (word_of_bytes b0 b1 b2 b3)) = b1"
  "ucast (drop_bit 16 (word_of_bytes b0 b1 b2 b3)) = b2"
  "ucast (drop_bit 24 (word_of_bytes b0 b1 b2 b3)) = b3"
  by (rule bit_word_eqI; simp add: bit_simps bit_word_of_bytes)+

lemma bit_read_u32:
  assumes "read_u32 xs k = Inr w" and "j < 32"
  shows "bit w j = byte_bit xs (8 * k + j)"
proof -
  from assms have w: "w = word_of_bytes (xs ! k) (xs ! (k + 1)) (xs ! (k + 2)) (xs ! (k + 3))"
    by (simp add: read_u32_def split: if_splits)
  have eqs: "j div 8 = 0 \<Longrightarrow> j < 8" "j div 8 = 1 \<Longrightarrow> j - 8 = j mod 8 \<and> 8 \<le> j"
    "j div 8 = 2 \<Longrightarrow> j - 16 = j mod 8 \<and> 16 \<le> j" "j div 8 = 3 \<Longrightarrow> j - 24 = j mod 8 \<and> 24 \<le> j"
    by presburger+
  have "j div 8 < 4" using assms(2) by simp
  then consider "j div 8 = 0" | "j div 8 = 1" | "j div 8 = 2" | "j div 8 = 3" by linarith
  then show ?thesis
    using eqs by cases (auto simp: w bit_word_of_bytes byte_bit_def)
qed

lemma write_u32_ok:
  "k + 4 \<le> length xs \<Longrightarrow> \<exists>ys. write_u32 xs k v = Inr ys \<and> length ys = length xs"
  by (simp add: write_u32_def)

lemma bit_read_u16:
  assumes "read_u16 xs k = Inr w" and "j < 16"
  shows "bit w j = byte_bit xs (8 * k + j)"
proof -
  from assms have w: "w = ucast (xs ! k) OR push_bit 8 (ucast (xs ! (k + 1)))"
    by (simp add: read_u16_def split: if_splits)
  have eqs: "j div 8 = 0 \<Longrightarrow> j < 8" "j div 8 = 1 \<Longrightarrow> j - 8 = j mod 8 \<and> 8 \<le> j"
    by presburger+
  have "j div 8 < 2" using assms(2) by simp
  then consider "j div 8 = 0" | "j div 8 = 1" by linarith
  then show ?thesis
    using eqs assms(2) bit_imp_le_length [of "xs ! k" j]
    by cases (auto simp: w byte_bit_def bit_simps)
qed

lemma byte_bit_write_u32:
  assumes "write_u32 xs k v = Inr ys"
  shows "byte_bit ys i = (if 8 * k \<le> i \<and> i < 8 * k + 32 then bit v (i - 8 * k) else byte_bit xs i)"
proof -
  from assms have len: "k + 4 \<le> length xs"
    and ys: "ys = xs[k := ucast v, k + 1 := ucast (drop_bit 8 v),
                   k + 2 := ucast (drop_bit 16 v), k + 3 := ucast (drop_bit 24 v)]"
    by (auto simp: write_u32_def split: if_splits)
  show ?thesis
  proof (cases "8 * k \<le> i \<and> i < 8 * k + 32")
    case False
    then have "i div 8 < k \<or> k + 3 < i div 8" by auto
    then show ?thesis using False by (auto simp: ys byte_bit_def)
  next
    case True
    define j where "j = i - 8 * k"
    with True have "i = 8 * k + j" and j: "j < 32" by auto
    then have i: "i div 8 = k + j div 8" "i mod 8 = j mod 8" by simp_all
    have eqs: "j div 8 = 0 \<Longrightarrow> j mod 8 = j" "j div 8 = 1 \<Longrightarrow> 8 + j mod 8 = j"
      "j div 8 = 2 \<Longrightarrow> 16 + j mod 8 = j" "j div 8 = 3 \<Longrightarrow> 24 + j mod 8 = j"
      by presburger+
    have "j div 8 < 4" using j by simp
    then consider "j div 8 = 0" | "j div 8 = 1" | "j div 8 = 2" | "j div 8 = 3" by linarith
    then have "bit (ys ! (i div 8)) (i mod 8) = bit v j"
      using eqs len by cases (auto simp: ys i bit_simps)
    with True show ?thesis by (simp add: byte_bit_def j_def)
  qed
qed

lemma length_write_u32: "write_u32 xs k v = Inr ys \<Longrightarrow> length ys = length xs"
  by (auto simp: write_u32_def split: if_splits)

lemma received_bytes:
  assumes "write_u32 xs 0 v = Inr ys" and "data_bits zs n = data_bits ys n" and "32 \<le> n"
  shows "zs ! 0 = ucast v" and "zs ! Suc 0 = ucast (drop_bit 8 v)"
    and "zs ! 2 = ucast (drop_bit 16 v)" and "zs ! 3 = ucast (drop_bit 24 v)"
proof -
  have "4 \<le> length xs" and ys: "ys = xs[0 := ucast v, 1 := ucast (drop_bit 8 v),
      2 := ucast (drop_bit 16 v), 3 := ucast (drop_bit 24 v)]"
    using assms(1) by (simp_all add: write_u32_def numeral_2_eq_2 split: if_splits)
  moreover from this have "0 < length xs" by linarith
  ultimately have "ys ! 0 = ucast v" "ys ! 1 = ucast (drop_bit 8 v)" "ys ! 2 = ucast (drop_bit 16 v)"
    "ys ! 3 = ucast (drop_bit 24 v)" by (simp_all add: nth_list_update)
  moreover have "zs ! k = ys ! k" if "k < 4" for k
    using data_bits_byte_eq [OF assms(2), of k] assms(3) that by simp
  ultimately show "zs ! 0 = ucast v" "zs ! Suc 0 = ucast (drop_bit 8 v)"
    "zs ! 2 = ucast (drop_bit 16 v)" "zs ! 3 = ucast (drop_bit 24 v)" by simp_all
qed

section \<open>Fields of a word\<close>

definition fits :: "nat \<Rightarrow> 'a::len word \<Rightarrow> bool" where
  "fits n x \<longleftrightarrow> take_bit n x = x"

lemma fits_bit: "fits n x \<Longrightarrow> bit x j \<Longrightarrow> j < n"
  by (metis bit_take_bit_iff fits_def)

lemma fitsI: "(\<And>j. bit x j \<Longrightarrow> j < n) \<Longrightarrow> fits n x"
  by (auto simp: fits_def bit_simps intro!: bit_word_eqI)

section \<open>Set bits of a list\<close>

definition ones :: "bool list \<Rightarrow> nat" where
  "ones bs = length (filter id bs)"

lemma ones_simps [simp]: "ones [] = 0" "ones (xs @ ys) = ones xs + ones ys" "ones (b # bs) = of_bool b + ones bs"
  by (simp_all add: ones_def)

lemma ones_le: "ones bs \<le> length bs"
  by (simp add: ones_def)

end
