(* ===== verification/Infrared_Common.thy ===== *)
theory Infrared_Common
  imports Prelude
begin

text \<open>
  The protocol-independent part of the infrared library: the types of
  \<^verbatim>\<open>lib/infrared/encoder_decoder/infrared.h\<close>, \<^verbatim>\<open>infrared_i.h\<close> and
  \<^verbatim>\<open>common/infrared_common_i.h\<close>, the decoder of
  \<^verbatim>\<open>common/infrared_common_decoder.c\<close> and the encoder of
  \<^verbatim>\<open>common/infrared_common_encoder.c\<close>.

  The protocol's function pointers are fields of the record
  \<open>infrared_common_protocol_spec\<close>; its constants are the record \<open>ir_params\<close>, which the
  functions receive in place of \<^verbatim>\<open>decoder->protocol\<close>.
\<close>

section \<open>Types\<close>

datatype infrared_protocol =
    InfraredProtocolUnknown
  | InfraredProtocolNEC
  | InfraredProtocolNECext
  | InfraredProtocolNEC42
  | InfraredProtocolNEC42ext
  | InfraredProtocolSamsung32
  | InfraredProtocolRC6
  | InfraredProtocolRC5
  | InfraredProtocolRC5X
  | InfraredProtocolSIRC
  | InfraredProtocolSIRC15
  | InfraredProtocolSIRC20
  | InfraredProtocolKaseikyo
  | InfraredProtocolRCA
  | InfraredProtocolPioneer
  | InfraredProtocolMAX

record infrared_message =
  m_protocol :: infrared_protocol
  m_address :: u32
  m_command :: u32
  m_repeat :: bool

datatype infrared_status =
    InfraredStatusError
  | InfraredStatusOk
  | InfraredStatusDone
  | InfraredStatusReady

record infrared_timings =
  min_split_time :: u32
  silence_time :: u32
  preamble_mark :: u16
  preamble_space :: u16
  bit1_mark :: u16
  bit1_space :: u16
  bit0_mark :: u16
  bit0_space :: u16
  preamble_tolerance :: u32
  bit_tolerance :: u32

datatype ir_decoder_state =
    InfraredCommonDecoderStateWaitPreamble
  | InfraredCommonDecoderStateDecode
  | InfraredCommonDecoderStateProcessRepeat

datatype ir_encoder_state =
    InfraredCommonEncoderStateSilence
  | InfraredCommonEncoderStatePreamble
  | InfraredCommonEncoderStateEncode
  | InfraredCommonEncoderStateEncodeRepeat

text \<open>
  \<^verbatim>\<open>struct InfraredCommonDecoder\<close>. The one field that the protocols reach through
  \<^verbatim>\<open>void* context\<close> is the toggle bit of RC5 and RC6, \<open>d_toggle\<close> here;
  \<open>d_data\<close> is the flexible array at the end of the structure.
\<close>

record infrared_common_decoder =
  d_timings :: "u32 list"
  d_message :: infrared_message
  d_state :: ir_decoder_state
  d_timings_cnt :: nat
  d_switch_detect :: bool
  d_level :: bool
  d_databit_cnt :: nat
  d_toggle :: bool
  d_data :: "u8 list"

text \<open>\<^verbatim>\<open>struct InfraredCommonEncoder\<close>.\<close>

record infrared_common_encoder =
  e_state :: ir_encoder_state
  e_switch_detect :: bool
  e_bits_to_encode :: nat
  e_bits_encoded :: nat
  e_timings_sum :: u32
  e_timings_encoded :: nat
  e_data :: "u8 list"

text \<open>
  \<^verbatim>\<open>InfraredCommonProtocolSpec\<close>: its constants, and the function pointers, each taking
  the constants first. The encoders return through \<^verbatim>\<open>uint32_t* out\<close> and
  \<^verbatim>\<open>bool* polarity\<close>; here the result holds the status, the duration, the level and
  the updated encoder.
\<close>

record ir_params =
  p_timings :: infrared_timings
  p_manchester_start_from_space :: bool
  p_databit_len :: "nat list"

type_synonym ir_decode = "ir_params \<Rightarrow> infrared_common_decoder \<Rightarrow> bool \<Rightarrow> u32
    \<Rightarrow> (infrared_status \<times> infrared_common_decoder) res"
type_synonym ir_decode_repeat = "ir_params \<Rightarrow> infrared_common_decoder
    \<Rightarrow> (infrared_status \<times> infrared_common_decoder) res"
type_synonym ir_interpret = "ir_params \<Rightarrow> infrared_common_decoder
    \<Rightarrow> (bool \<times> infrared_common_decoder) res"
type_synonym ir_encode_result = "(infrared_status \<times> u32 \<times> bool \<times> infrared_common_encoder) res"
type_synonym ir_encode = "ir_params \<Rightarrow> infrared_common_encoder \<Rightarrow> ir_encode_result"

record infrared_common_protocol_spec =
  s_params :: ir_params
  s_decode :: ir_decode
  s_decode_repeat :: "ir_decode_repeat option"
  s_interpret :: ir_interpret
  s_encode :: ir_encode
  s_encode_repeat :: "ir_encode option"

text \<open>
  \<^verbatim>\<open>InfraredProtocolVariant\<close>; the duty cycle, a \<^verbatim>\<open>float\<close> literal with two decimals in
  every table, is kept in percent.
\<close>

record infrared_protocol_variant =
  v_name :: string
  v_address_length :: nat
  v_command_length :: nat
  v_frequency :: u32
  v_duty_cycle :: nat
  v_repeat_count :: nat

definition infrared_common_carrier_frequency :: u32 where "infrared_common_carrier_frequency = 38000"
definition infrared_common_duty_cycle :: nat where "infrared_common_duty_cycle = 33"

section \<open>Timing comparison\<close>

text \<open>
  \<^verbatim>\<open>MATCH_TIMING(x, v, delta)\<close> with a \<^verbatim>\<open>uint32_t\<close> tolerance computes in
  \<^verbatim>\<open>uint32_t\<close>. With a \<^verbatim>\<open>float\<close> tolerance (the preambles) both sides are
  \<^verbatim>\<open>float\<close>; every threshold \<open>v + delta\<close>, \<open>v - delta\<close> is an integer below
  \<open>2 ^ 24\<close> in the tables of the library, hence exact, and rounding \<open>x\<close> to
  \<^verbatim>\<open>float\<close> is monotone, so the comparison is the one of the integers.
\<close>

definition MATCH_TIMING :: "u32 \<Rightarrow> u32 \<Rightarrow> u32 \<Rightarrow> bool" where
  "MATCH_TIMING x v delta \<longleftrightarrow> x < v + delta \<and> x > v - delta"

definition MATCH_TIMING_F :: "u32 \<Rightarrow> u32 \<Rightarrow> u32 \<Rightarrow> bool" where
  "MATCH_TIMING_F x v delta \<longleftrightarrow> uint x < uint v + uint delta \<and> uint x > uint v - uint delta"

section \<open>Decoder\<close>

subsection \<open>Buffer of timings\<close>

text \<open>The copy loop of \<^verbatim>\<open>consume_samples\<close>: \<open>k\<close> elements from index \<open>i\<close> on.\<close>

fun consume_loop :: "'a list \<Rightarrow> nat \<Rightarrow> nat \<Rightarrow> nat \<Rightarrow> 'a list res" where
  "consume_loop a i shift 0 = Inr a"
| "consume_loop a i shift (Suc k) =
     bindr (list_get a (i + shift)) (\<lambda>x.
     bindr (list_set a i x) (\<lambda>a'. consume_loop a' (Suc i) shift k))"

definition consume_samples :: "'a list \<Rightarrow> nat \<Rightarrow> nat \<Rightarrow> ('a list \<times> nat) res" where
  "consume_samples a len shift =
     bindr (furi_assert (len \<ge> shift)) (\<lambda>_.
     bindr (consume_loop a 0 shift (len - shift)) (\<lambda>a'. Inr (a', len - shift)))"

text \<open>\<^verbatim>\<open>decoder->timings_cnt = consume_samples(decoder->timings, decoder->timings_cnt, n)\<close>.\<close>

definition consume_timings :: "nat \<Rightarrow> infrared_common_decoder \<Rightarrow> infrared_common_decoder res" where
  "consume_timings n d =
     bindr (consume_samples (d_timings d) (d_timings_cnt d) n) (\<lambda>(a, cnt).
       Inr (d\<lparr>d_timings := a, d_timings_cnt := cnt\<rparr>))"

text \<open>The level of the oldest stored timing, \<^verbatim>\<open>(level + timings_cnt + 1) % 2\<close>.\<close>

definition oldest_level :: "infrared_common_decoder \<Rightarrow> bool" where
  "oldest_level d \<longleftrightarrow> (of_bool (d_level d) + d_timings_cnt d + 1) mod 2 = (1::nat)"

subsection \<open>Payload\<close>

definition accumulate_lsb :: "infrared_common_decoder \<Rightarrow> bool \<Rightarrow> infrared_common_decoder res" where
  "accumulate_lsb d b =
     (let index = d_databit_cnt d div 8; shift = d_databit_cnt d mod 8 in
      bindr (if shift = 0 then list_set (d_data d) index 0 else Inr (d_data d)) (\<lambda>data0.
      bindr (list_get data0 index) (\<lambda>old.
      bindr (if b then list_set data0 index (old OR push_bit shift 1) else Inr data0) (\<lambda>data1.
        Inr (d\<lparr>d_data := data1, d_databit_cnt := inc16 (d_databit_cnt d)\<rparr>)))))"

text \<open>
  The loop over \<^verbatim>\<open>databit_len\<close> that both \<^verbatim>\<open>infrared_common_decode_bits\<close> and
  \<^verbatim>\<open>infrared_common_decoder_check_ready\<close> run: it stops at the first zero.
\<close>

fun databit_len_found :: "nat list \<Rightarrow> nat \<Rightarrow> bool" where
  "databit_len_found [] cnt = False"
| "databit_len_found (l # ls) cnt = (l \<noteq> 0 \<and> (l = cnt \<or> databit_len_found ls cnt))"

definition databit_len0 :: "ir_params \<Rightarrow> nat" where
  "databit_len0 p = p_databit_len p ! 0"

subsection \<open>Preamble\<close>

function check_preamble_loop :: "infrared_timings \<Rightarrow> infrared_common_decoder
    \<Rightarrow> (bool \<times> infrared_common_decoder) res" where
  "check_preamble_loop t d =
     (if d_timings_cnt d \<ge> 2
      then bindr (list_get (d_timings d) 0) (\<lambda>t0.
           bindr (list_get (d_timings d) 1) (\<lambda>t1.
           let result = MATCH_TIMING_F t0 (ucast (preamble_mark t)) (preamble_tolerance t) \<and>
                        MATCH_TIMING_F t1 (ucast (preamble_space t)) (preamble_tolerance t) in
           bindr (consume_timings 2 d) (\<lambda>d'.
             if result then Inr (True, d') else check_preamble_loop t d')))
      else Inr (False, d))"
  by pat_completeness auto
termination
  by (relation "measure (\<lambda>(t, d). d_timings_cnt d)")
     (auto simp: consume_timings_def consume_samples_def bindr_eq_Inr)

declare check_preamble_loop.simps [simp del]

definition infrared_check_preamble :: "ir_params \<Rightarrow> infrared_common_decoder
    \<Rightarrow> (bool \<times> infrared_common_decoder) res" where
  "infrared_check_preamble p d =
     (if d_timings_cnt d = 0 then Inr (False, d)
      else bindr (if oldest_level d then Inr d else consume_timings 1 d) (\<lambda>d1.
           if preamble_mark (p_timings p) = 0 then Inr (True, d1)
           else check_preamble_loop (p_timings p) d1))"

subsection \<open>Bits\<close>

text \<open>
  The part of \<^verbatim>\<open>infrared_common_decode_bits\<close> before the call of the protocol's
  \<^verbatim>\<open>decode\<close>: \<open>Some\<close> is an early return with that status.
\<close>

definition decode_bits_early :: "ir_params \<Rightarrow> infrared_common_decoder \<Rightarrow> bool \<Rightarrow> u32
    \<Rightarrow> infrared_status option" where
  "decode_bits_early p d lvl timing =
     (if min_split_time (p_timings p) \<noteq> 0 \<and> \<not> lvl
      then if timing > min_split_time (p_timings p)
           then if databit_len_found (p_databit_len p) (d_databit_cnt d)
                then Some InfraredStatusReady else None
           else if databit_len0 p = d_databit_cnt d
                then Some InfraredStatusError else None
      else None)"

text \<open>
  \<^verbatim>\<open>infrared_common_decode_bits\<close>; the first argument bounds the number of rounds of
  the loop, each of which consumes a timing or returns.
\<close>

fun infrared_common_decode_bits :: "nat \<Rightarrow> infrared_common_protocol_spec
    \<Rightarrow> infrared_common_decoder \<Rightarrow> (infrared_status \<times> infrared_common_decoder) res" where
  "infrared_common_decode_bits 0 P d = Inl OutOfFuel"
| "infrared_common_decode_bits (Suc fuel) P d =
     (if d_timings_cnt d = 0 then Inr (InfraredStatusOk, d)
      else let p = s_params P; lvl = oldest_level d in
        bindr (list_get (d_timings d) 0) (\<lambda>timing.
        case decode_bits_early p d lvl timing of
          Some status \<Rightarrow> Inr (status, d)
        | None \<Rightarrow>
            bindr (s_decode P p d lvl timing) (\<lambda>(status, d1).
            bindr (furi_check (d_databit_cnt d1 \<le> databit_len0 p)) (\<lambda>_.
            bindr (furi_assert (status = InfraredStatusError \<or> status = InfraredStatusOk)) (\<lambda>_.
            if status = InfraredStatusError then Inr (InfraredStatusError, d1)
            else bindr (consume_timings 1 d1) (\<lambda>d2.
              if lvl \<and> databit_len0 p = d_databit_cnt d2 \<and> min_split_time (p_timings p) = 0
              then Inr (InfraredStatusReady, d2)
              else infrared_common_decode_bits fuel P d2))))))"

text \<open>Pulse distance/width modulation.\<close>

definition infrared_common_decode_pdwm :: ir_decode where
  "infrared_common_decode_pdwm p d lvl timing =
     (let t = p_timings p;
          tol = bit_tolerance t;
          analyze_timing = (lvl \<noteq> (bit1_mark t = bit0_mark t));
          bit1 = (if lvl then bit1_mark t else bit1_space t);
          bit0 = (if lvl then bit0_mark t else bit0_space t);
          no_info_timing = (if bit1_mark t = bit0_mark t then bit1_mark t else bit1_space t)
      in if analyze_timing
         then if MATCH_TIMING timing (ucast bit1) tol
              then bindr (accumulate_lsb d True) (\<lambda>d'. Inr (InfraredStatusOk, d'))
              else if MATCH_TIMING timing (ucast bit0) tol
              then bindr (accumulate_lsb d False) (\<lambda>d'. Inr (InfraredStatusOk, d'))
              else Inr (InfraredStatusError, d)
         else if \<not> MATCH_TIMING timing (ucast no_info_timing) tol
              then Inr (InfraredStatusError, d)
              else Inr (InfraredStatusOk, d))"

text \<open>Manchester: \<open>d_switch_detect\<close> says that the last edge was in the middle of a bit.\<close>

definition infrared_common_decode_manchester :: ir_decode where
  "infrared_common_decode_manchester p d lvl timing =
     (let b = ucast (bit1_mark (p_timings p));
          tol = bit_tolerance (p_timings p);
          single_timing = MATCH_TIMING timing b tol;
          double_timing = MATCH_TIMING timing (2 * b) tol
      in if \<not> single_timing \<and> \<not> double_timing then Inr (InfraredStatusError, d)
         else
           bindr (if p_manchester_start_from_space p \<and> d_databit_cnt d = 0
                  then accumulate_lsb (d\<lparr>d_switch_detect := True\<rparr>) False
                  else Inr d) (\<lambda>d1.
           if \<not> d_switch_detect d1 \<and> double_timing then Inr (InfraredStatusError, d1)
           else
             let d2 = (if \<not> d_switch_detect d1 then d1\<lparr>d_switch_detect := True\<rparr>
                       else if single_timing then d1\<lparr>d_switch_detect := False\<rparr> else d1)
             in if d_switch_detect d2
                then if databit_len0 p = d_databit_cnt d2 then Inr (InfraredStatusError, d2)
                     else bindr (accumulate_lsb d2 lvl) (\<lambda>d3. Inr (InfraredStatusOk, d3))
                else Inr (InfraredStatusOk, d2)))"

subsection \<open>Reset, readiness, decoding\<close>

definition infrared_common_decoder_reset_state :: "ir_params \<Rightarrow> infrared_common_decoder
    \<Rightarrow> infrared_common_decoder res" where
  "infrared_common_decoder_reset_state p d =
     (let d1 = d\<lparr>d_state := InfraredCommonDecoderStateWaitPreamble, d_databit_cnt := 0,
                 d_switch_detect := False,
                 d_message := (d_message d)\<lparr>m_protocol := InfraredProtocolUnknown\<rparr>\<rparr>
      in if preamble_mark (p_timings p) = 0 \<and> d_timings_cnt d1 > 0
         then consume_timings 1 d1 else Inr d1)"

definition infrared_common_decoder_reset :: "infrared_common_protocol_spec
    \<Rightarrow> infrared_common_decoder \<Rightarrow> infrared_common_decoder res" where
  "infrared_common_decoder_reset P d =
     bindr (infrared_common_decoder_reset_state (s_params P) d) (\<lambda>d1.
       Inr (d1\<lparr>d_timings_cnt := 0\<rparr>))"

text \<open>
  \<^verbatim>\<open>infrared_common_decoder_check_ready\<close>: the boolean says that the returned pointer
  is not null; the message it points to is \<open>d_message\<close> of the new decoder.
\<close>

definition infrared_common_decoder_check_ready :: "infrared_common_protocol_spec
    \<Rightarrow> infrared_common_decoder \<Rightarrow> (bool \<times> infrared_common_decoder) res" where
  "infrared_common_decoder_check_ready P d =
     (if databit_len_found (p_databit_len (s_params P)) (d_databit_cnt d)
      then bindr (s_interpret P (s_params P) d) (\<lambda>(ok, d1).
             if ok
             then Inr (True, d1\<lparr>d_databit_cnt := 0,
                    d_state := (if s_decode_repeat P \<noteq> None
                                then InfraredCommonDecoderStateProcessRepeat
                                else InfraredCommonDecoderStateWaitPreamble)\<rparr>)
             else Inr (False, d1))
      else Inr (False, d))"

text \<open>
  The \<^verbatim>\<open>while(1)\<close> of \<^verbatim>\<open>infrared_common_decode\<close>. The first argument bounds the
  rounds, \<open>msg\<close> is the local \<^verbatim>\<open>message\<close> (set or null): the result says whether a
  message is returned.
\<close>

fun infrared_common_decode_loop :: "nat \<Rightarrow> infrared_common_protocol_spec \<Rightarrow> bool
    \<Rightarrow> infrared_common_decoder \<Rightarrow> (bool \<times> infrared_common_decoder) res" where
  "infrared_common_decode_loop 0 P msg d = Inl OutOfFuel"
| "infrared_common_decode_loop (Suc fuel) P msg d =
     (case d_state d of
        InfraredCommonDecoderStateWaitPreamble \<Rightarrow>
          bindr (infrared_check_preamble (s_params P) d) (\<lambda>(found, d1).
          if found
          then infrared_common_decode_loop fuel P msg
                 (d1\<lparr>d_state := InfraredCommonDecoderStateDecode, d_databit_cnt := 0,
                     d_switch_detect := False\<rparr>)
          else Inr (msg, d1))
      | InfraredCommonDecoderStateDecode \<Rightarrow>
          bindr (infrared_common_decode_bits (Suc (d_timings_cnt d)) P d) (\<lambda>(status, d1).
          if status = InfraredStatusReady
          then bindr (infrared_common_decoder_check_ready P d1) (\<lambda>(ok, d2).
               if ok then infrared_common_decode_loop fuel P True d2
               else Inr (False,
                 if databit_len0 (s_params P) = d_databit_cnt d2
                 then d2\<lparr>d_state := InfraredCommonDecoderStateWaitPreamble\<rparr> else d2))
          else if status = InfraredStatusError
          then bindr (infrared_common_decoder_reset_state (s_params P) d1)
                 (infrared_common_decode_loop fuel P msg)
          else Inr (msg, d1))
      | InfraredCommonDecoderStateProcessRepeat \<Rightarrow>
          (case s_decode_repeat P of
             None \<Rightarrow> Inl NullPointer
           | Some decode_repeat \<Rightarrow>
               bindr (decode_repeat (s_params P) d) (\<lambda>(status, d1).
               if status = InfraredStatusError
               then bindr (infrared_common_decoder_reset_state (s_params P) d1)
                      (infrared_common_decode_loop fuel P msg)
               else if status = InfraredStatusReady
               then Inr (True, d1\<lparr>d_message := (d_message d1)\<lparr>m_repeat := True\<rparr>\<rparr>)
               else Inr (msg, d1))))"

text \<open>\<^verbatim>\<open>sizeof(decoder->timings)\<close>, the bound of the check: 6 elements of 4 bytes.\<close>

definition sizeof_timings :: nat where "sizeof_timings = 24"

text \<open>
  Rounds given to the loop: between two calls at most 5 timings are stored, and each round
  lowers \<open>2 * timings_cnt\<close> plus a rank of the state (at most 2), so 16 rounds suffice; see
  \<open>decode_loop_ok\<close>.
\<close>

definition decode_loop_fuel :: nat where "decode_loop_fuel = 16"

definition infrared_common_decode :: "infrared_common_protocol_spec \<Rightarrow> infrared_common_decoder
    \<Rightarrow> bool \<Rightarrow> u32 \<Rightarrow> (infrared_message option \<times> infrared_common_decoder) res" where
  "infrared_common_decode P d lvl duration =
     bindr (if d_level d = lvl then infrared_common_decoder_reset P d else Inr d) (\<lambda>d1.
     let d2 = d1\<lparr>d_level := lvl\<rparr> in
     bindr (list_set (d_timings d2) (d_timings_cnt d2) duration) (\<lambda>ts.
     let d3 = d2\<lparr>d_timings := ts, d_timings_cnt := inc8 (d_timings_cnt d2)\<rparr> in
     bindr (furi_check (d_timings_cnt d3 \<le> sizeof_timings)) (\<lambda>_.
     bindr (infrared_common_decode_loop decode_loop_fuel P False d3) (\<lambda>(msg, d4).
       Inr (if msg then Some (d_message d4) else None, d4)))))"

subsection \<open>Allocation\<close>

text \<open>Bytes needed for a number of bits, \<^verbatim>\<open>n / 8 + !!(n % 8)\<close>.\<close>

definition bytes_for_bits :: "nat \<Rightarrow> nat" where
  "bytes_for_bits n = n div 8 + of_bool (n mod 8 \<noteq> 0)"

text \<open>
  The flexible array starts 2 bytes before the end of \<^verbatim>\<open>struct InfraredCommonDecoder\<close>
  (its last fixed member is a \<^verbatim>\<open>uint16_t\<close> in a structure aligned to 4 bytes), so these
  2 bytes of padding belong to the allocated payload as well. \<^verbatim>\<open>malloc\<close> of the
  firmware returns zeroed memory.
\<close>

definition decoder_tail_padding :: nat where "decoder_tail_padding = 2"

definition databit_lens_ok :: "ir_params \<Rightarrow> bool" where
  "databit_lens_ok p \<longleftrightarrow> (\<forall>l \<in> set (tl (p_databit_len p)). l \<le> databit_len0 p)"

definition infrared_common_decoder_alloc :: "infrared_common_protocol_spec
    \<Rightarrow> infrared_common_decoder res" where
  "infrared_common_decoder_alloc P =
     bindr (furi_assert (databit_lens_ok (s_params P))) (\<lambda>_.
       Inr \<lparr>d_timings = replicate 6 0,
            d_message = \<lparr>m_protocol = InfraredProtocolNEC, m_address = 0, m_command = 0,
                         m_repeat = False\<rparr>,
            d_state = InfraredCommonDecoderStateWaitPreamble,
            d_timings_cnt = 0, d_switch_detect = False, d_level = True, d_databit_cnt = 0,
            d_toggle = False,
            d_data = replicate (bytes_for_bits (databit_len0 (s_params P)) + decoder_tail_padding) 0\<rparr>)"

section \<open>Encoder\<close>

text \<open>\<^verbatim>\<open>!!(encoder->data[bits_encoded / 8] & (0x01 << (bits_encoded % 8)))\<close>.\<close>

definition encoder_logic_value :: "infrared_common_encoder \<Rightarrow> bool res" where
  "encoder_logic_value e =
     bindr (list_get (e_data e) (e_bits_encoded e div 8)) (\<lambda>b.
       Inr (b AND push_bit (e_bits_encoded e mod 8) 1 \<noteq> 0))"

definition infrared_common_encode_manchester :: ir_encode where
  "infrared_common_encode_manchester p e =
     bindr (encoder_logic_value e) (\<lambda>logic_value.
     let even_timing = (e_timings_encoded e mod 2 = 0);
         lvl = (even_timing \<noteq> logic_value);
         duration = ucast (bit1_mark (p_timings p));
         e1 = (if even_timing then e\<lparr>e_bits_encoded := inc8 (e_bits_encoded e)\<rparr>
               else if lvl \<and> e_bits_encoded e + 1 = e_bits_to_encode e
               then e\<lparr>e_bits_encoded := inc8 (e_bits_encoded e)\<rparr> else e)
     in Inr (InfraredStatusOk, duration, lvl, e1))"

definition infrared_common_encode_pdwm :: ir_encode where
  "infrared_common_encode_pdwm p e =
     bindr (encoder_logic_value e) (\<lambda>logic_value.
     let t = p_timings p;
         pwm = (bit1_space t = bit0_space t)
     in if e_timings_encoded e mod 2 \<noteq> 0
        then Inr (InfraredStatusOk, ucast (if logic_value then bit1_mark t else bit0_mark t), True,
                  if pwm then e\<lparr>e_bits_encoded := inc8 (e_bits_encoded e)\<rparr> else e)
        else Inr (InfraredStatusOk, ucast (if logic_value then bit1_space t else bit0_space t), False,
                  if \<not> pwm then e\<lparr>e_bits_encoded := inc8 (e_bits_encoded e)\<rparr> else e))"

definition infrared_common_encode_bits :: "infrared_common_protocol_spec
    \<Rightarrow> infrared_common_encoder \<Rightarrow> ir_encode_result" where
  "infrared_common_encode_bits P e =
     bindr (s_encode P (s_params P) e) (\<lambda>(status, duration, lvl, e1).
     bindr (furi_assert (status = InfraredStatusOk)) (\<lambda>_.
     let e2 = e1\<lparr>e_timings_encoded := inc32 (e_timings_encoded e1),
                 e_timings_sum := e_timings_sum e1 + duration\<rparr> in
     Inr (if e_bits_encoded e2 = e_bits_to_encode e2 \<and> lvl then InfraredStatusDone else status,
          duration, lvl, e2)))"

text \<open>
  The case \<^verbatim>\<open>InfraredCommonEncoderStateEncode\<close> of \<^verbatim>\<open>infrared_common_encode\<close>, which
  the preamble case falls through to when the protocol has no preamble.
\<close>

definition encode_case_encode :: "infrared_common_protocol_spec \<Rightarrow> infrared_common_encoder
    \<Rightarrow> ir_encode_result" where
  "encode_case_encode P e =
     bindr (infrared_common_encode_bits P e) (\<lambda>(status, duration, lvl, e1).
     Inr (status, duration, lvl,
       if status = InfraredStatusDone
       then if s_encode_repeat P \<noteq> None
            then e1\<lparr>e_state := InfraredCommonEncoderStateEncodeRepeat\<rparr>
            else e1\<lparr>e_timings_encoded := 0, e_timings_sum := 0, e_bits_encoded := 0,
                    e_switch_detect := False, e_state := InfraredCommonEncoderStateSilence\<rparr>
       else e1))"

definition infrared_common_encode :: "infrared_common_protocol_spec \<Rightarrow> infrared_common_encoder
    \<Rightarrow> ir_encode_result" where
  "infrared_common_encode P e =
     (let t = p_timings (s_params P) in
      case e_state e of
        InfraredCommonEncoderStateSilence \<Rightarrow>
          Inr (InfraredStatusOk, silence_time t, False,
               e\<lparr>e_state := InfraredCommonEncoderStatePreamble,
                 e_timings_encoded := inc32 (e_timings_encoded e), e_timings_sum := 0\<rparr>)
      | InfraredCommonEncoderStatePreamble \<Rightarrow>
          if preamble_mark t \<noteq> 0
          then if e_timings_encoded e = 1
               then Inr (InfraredStatusOk, ucast (preamble_mark t), True,
                         e\<lparr>e_timings_encoded := inc32 (e_timings_encoded e),
                           e_timings_sum := e_timings_sum e + ucast (preamble_mark t)\<rparr>)
               else Inr (InfraredStatusOk, ucast (preamble_space t), False,
                         e\<lparr>e_state := InfraredCommonEncoderStateEncode,
                           e_timings_encoded := inc32 (e_timings_encoded e),
                           e_timings_sum := e_timings_sum e + ucast (preamble_space t)\<rparr>)
          else encode_case_encode P (e\<lparr>e_state := InfraredCommonEncoderStateEncode\<rparr>)
      | InfraredCommonEncoderStateEncode \<Rightarrow> encode_case_encode P e
      | InfraredCommonEncoderStateEncodeRepeat \<Rightarrow>
          (case s_encode_repeat P of
             None \<Rightarrow> Inl NullPointer
           | Some encode_repeat \<Rightarrow> encode_repeat (s_params P) e))"

text \<open>
  \<^verbatim>\<open>infrared_common_encoder_alloc\<close> allocates \<^verbatim>\<open>sizeof(InfraredCommonDecoder)\<close>, not
  the size of the encoder, before its payload: 36 bytes more than the payload needs. The
  flag \<open>pdwm\<close> is the comparison \<^verbatim>\<open>protocol->decode == infrared_common_decode_pdwm\<close>.
\<close>

definition encoder_extra_bytes :: nat where "encoder_extra_bytes = 36"

definition infrared_common_encoder_alloc :: "bool \<Rightarrow> infrared_common_protocol_spec
    \<Rightarrow> infrared_common_encoder res" where
  "infrared_common_encoder_alloc pdwm P =
     (let t = p_timings (s_params P) in
      bindr (furi_assert (pdwm \<longrightarrow> (bit1_mark t = bit0_mark t) \<noteq> (bit1_space t = bit0_space t))) (\<lambda>_.
      bindr (furi_assert (databit_lens_ok (s_params P))) (\<lambda>_.
        Inr \<lparr>e_state = InfraredCommonEncoderStateSilence, e_switch_detect = False,
             e_bits_to_encode = 0, e_bits_encoded = 0, e_timings_sum = 0, e_timings_encoded = 0,
             e_data = replicate (bytes_for_bits (databit_len0 (s_params P)) + encoder_extra_bytes) 0\<rparr>)))"

definition infrared_common_encoder_reset :: "infrared_common_protocol_spec
    \<Rightarrow> infrared_common_encoder \<Rightarrow> infrared_common_encoder res" where
  "infrared_common_encoder_reset P e =
     (let max_databit_len = foldl max 0 (p_databit_len (s_params P));
          bytes_to_clear = bytes_for_bits max_databit_len
      in if bytes_to_clear \<le> length (e_data e)
         then Inr (e\<lparr>e_timings_encoded := 0, e_timings_sum := 0, e_bits_encoded := 0,
                     e_state := InfraredCommonEncoderStateSilence, e_switch_detect := False,
                     e_data := replicate bytes_to_clear 0 @ drop bytes_to_clear (e_data e)\<rparr>)
         else Inl OutOfBounds)"

end
