(* ===== verification/Infrared_Safety.thy ===== *)
theory Infrared_Safety
  imports Infrared_Common
begin

text \<open>
  Safety of the common infrared decoder. The locale \<open>infrared_protocol_ops\<close> is the contract
  between \<^verbatim>\<open>infrared_common_decoder.c\<close> and the function pointers of a protocol; inside
  it, \<^verbatim>\<open>infrared_common_decode_bits\<close> never faults. With the further law of
  \<open>infrared_protocol\<close> (a payload of a length that the protocol accepts is refused only if it
  has the longest length) the whole decoder is free of faults, its loop terminates within its
  fuel, and the 6 stored timings are never overrun.
\<close>

section \<open>The buffer of timings\<close>

lemma consume_loop_ok:
  "i + shift + k \<le> length a \<Longrightarrow> \<exists>a'. consume_loop a i shift k = Inr a' \<and> length a' = length a"
proof (induction k arbitrary: a i)
  case 0
  then show ?case by simp
next
  case (Suc k)
  then show ?case
    using Suc.IH [of "Suc i" "a[i := a ! (i + shift)]"] by (simp add: fault_simps)
qed

lemma consume_loop_prefix:
  "consume_loop a i shift k = Inr a' \<Longrightarrow> j < i \<Longrightarrow> a' ! j = a ! j"
  by (induction k arbitrary: a i) (auto simp: bindr_eq_Inr list_get_eq_Inr list_set_eq_Inr)

lemma consume_loop_nth:
  "consume_loop a i shift k = Inr a' \<Longrightarrow> 0 < shift \<Longrightarrow> j < k \<Longrightarrow> a' ! (i + j) = a ! (i + shift + j)"
proof (induction k arbitrary: a i j)
  case 0
  then show ?case by simp
next
  case (Suc k)
  then have len: "i + shift < length a"
    and rest: "consume_loop (a[i := a ! (i + shift)]) (Suc i) shift k = Inr a'"
    by (auto simp: bindr_eq_Inr list_get_eq_Inr list_set_eq_Inr)
  show ?case
  proof (cases j)
    case 0
    with len show ?thesis using consume_loop_prefix [OF rest, of i] by simp
  next
    case (Suc j')
    with Suc.prems have "j' < k" by simp
    with Suc Suc.prems(2) show ?thesis using Suc.IH [OF rest, of j'] by simp
  qed
qed

lemma consume_samples_ok:
  assumes "shift \<le> len" and "len \<le> length a"
  obtains a' where "consume_samples a len shift = Inr (a', len - shift)" and "length a' = length a"
  using consume_loop_ok [of 0 shift "len - shift" a] assms
  by (auto simp: consume_samples_def)

text \<open>The samples that remain are the old ones, moved to the front.\<close>

lemma consume_samples_drop:
  assumes "consume_samples a len shift = Inr (a', n)" and "0 < shift" and "len \<le> length a"
  shows "n = len - shift" and "take n a' = drop shift (take len a)"
proof -
  from assms(1) have le: "shift \<le> len" and n: "n = len - shift"
    and loop: "consume_loop a 0 shift (len - shift) = Inr a'"
    by (auto simp: consume_samples_def bindr_eq_Inr)
  from consume_loop_ok [of 0 shift "len - shift" a] le assms(3) loop
  have len: "length a' = length a" by auto
  show "n = len - shift" by (rule n)
  show "take n a' = drop shift (take len a)"
  proof (rule nth_equalityI)
    show "length (take n a') = length (drop shift (take len a))"
      using n le len assms(3) by simp
  next
    fix j assume "j < length (take n a')"
    then have "j < len - shift" using n by simp
    then show "take n a' ! j = drop shift (take len a) ! j"
      using consume_loop_nth [OF loop assms(2), of j] n assms(3) by simp
  qed
qed

lemma consume_timings_ok:
  assumes "n \<le> d_timings_cnt d" and "d_timings_cnt d \<le> length (d_timings d)"
  obtains ts where
    "consume_timings n d = Inr (d\<lparr>d_timings := ts, d_timings_cnt := d_timings_cnt d - n\<rparr>)"
    and "length ts = length (d_timings d)"
proof -
  from assms obtain a' where
    "consume_samples (d_timings d) (d_timings_cnt d) n = Inr (a', d_timings_cnt d - n)"
    and "length a' = length (d_timings d)"
    by (rule consume_samples_ok)
  then show thesis by (auto simp: consume_timings_def intro: that)
qed

text \<open>Consuming everything leaves the array as it is.\<close>

lemma consume_timings_all:
  "d_timings_cnt d = n \<Longrightarrow> consume_timings n d = Inr (d\<lparr>d_timings_cnt := 0\<rparr>)"
  by (simp add: consume_timings_def consume_samples_def)

lemma oldest_level_consume:
  "0 < d_timings_cnt d \<Longrightarrow>
   oldest_level (d\<lparr>d_timings := ts, d_timings_cnt := d_timings_cnt d - Suc 0\<rparr>) = (\<not> oldest_level d)"
  by (cases "d_level d"; cases "d_timings_cnt d") (simp_all add: oldest_level_def, presburger+)

lemma oldest_level_empty: "d_timings_cnt d = 0 \<Longrightarrow> oldest_level d = (\<not> d_level d)"
  by (simp add: oldest_level_def)

lemma oldest_level_one: "d_timings_cnt d = Suc 0 \<Longrightarrow> oldest_level d = d_level d"
  by (simp add: oldest_level_def)

section \<open>Accumulating bits\<close>

text \<open>
  \<^verbatim>\<open>accumulate_lsb\<close> clears a byte when it starts it and only sets bits afterwards, so
  the bits of the current byte that are not yet received are 0 (\<open>data_clean\<close>): this is what
  makes a received 0 a 0.
\<close>

definition data_clean :: "u8 list \<Rightarrow> nat \<Rightarrow> bool" where
  "data_clean xs n \<longleftrightarrow> (n mod 8 \<noteq> 0 \<longrightarrow> (\<forall>j \<ge> n mod 8. \<not> bit (xs ! (n div 8)) j))"

lemma data_clean_0 [simp]: "data_clean xs 0"
  by (simp add: data_clean_def)

definition accumulated :: "u8 list \<Rightarrow> nat \<Rightarrow> bool \<Rightarrow> u8 list" where
  "accumulated xs n b =
     (let base = (if n mod 8 = 0 then xs[n div 8 := 0] else xs)
      in if b then base[n div 8 := (base ! (n div 8)) OR push_bit (n mod 8) 1] else base)"

lemma length_accumulated [simp]: "length (accumulated xs n b) = length xs"
  by (simp add: accumulated_def Let_def)

lemma accumulate_lsb_ok:
  "d_databit_cnt d div 8 < length (d_data d) \<Longrightarrow>
   accumulate_lsb d b = Inr (d\<lparr>d_data := accumulated (d_data d) (d_databit_cnt d) b,
                               d_databit_cnt := inc16 (d_databit_cnt d)\<rparr>)"
  by (cases "d_databit_cnt d mod 8 = 0"; cases b)
     (simp_all add: accumulate_lsb_def accumulated_def Let_def fault_simps)

lemma accumulated_other:
  "k \<noteq> n div 8 \<Longrightarrow> accumulated xs n b ! k = xs ! k"
  by (simp add: accumulated_def Let_def)

lemma accumulated_byte:
  assumes "n div 8 < length xs" and "data_clean xs n"
  shows "bit (accumulated xs n b ! (n div 8)) j \<longleftrightarrow>
         (if j < n mod 8 then bit (xs ! (n div 8)) j else j = n mod 8 \<and> b)"
proof -
  have "n mod 8 < 8" by simp
  then show ?thesis
    using assms by (auto simp: accumulated_def data_clean_def Let_def bit_simps)
qed

lemma data_bits_accumulated:
  assumes "n div 8 < length xs" and "data_clean xs n"
  shows "data_bits (accumulated xs n b) (Suc n) = data_bits xs n @ [b]"
proof -
  have "byte_bit (accumulated xs n b) i = byte_bit xs i" if "i < n" for i
  proof (cases "i div 8 = n div 8")
    case True
    with that have "i mod 8 < n mod 8"
      by (metis div_mult_mod_eq nat_add_left_cancel_less)
    with True show ?thesis
      using accumulated_byte [OF assms, of b "i mod 8"] by (simp add: byte_bit_def)
  next
    case False
    then show ?thesis by (simp add: byte_bit_def accumulated_other)
  qed
  moreover have "byte_bit (accumulated xs n b) n = b"
    using accumulated_byte [OF assms, of b "n mod 8"] by (simp add: byte_bit_def)
  ultimately show ?thesis by (simp add: data_bits_Suc data_bits_eq_iff)
qed

lemma data_clean_accumulated:
  assumes "n div 8 < length xs" and "data_clean xs n"
  shows "data_clean (accumulated xs n b) (Suc n)"
proof (cases "Suc n mod 8 = 0")
  case False
  then have "Suc n mod 8 = Suc (n mod 8)" and "Suc n div 8 = n div 8"
    by (simp_all add: mod_Suc div_Suc split: if_splits)
  then show ?thesis
    by (simp add: data_clean_def accumulated_byte [OF assms])
qed (simp add: data_clean_def)

section \<open>The contract of a protocol\<close>

text \<open>
  The allocated payload: the bytes of the longest message and the padding of the structure.
\<close>

definition payload_ok :: "ir_params \<Rightarrow> infrared_common_decoder \<Rightarrow> bool" where
  "payload_ok p d \<longleftrightarrow>
     length (d_data d) = bytes_for_bits (databit_len0 p) + decoder_tail_padding"

text \<open>What no function of a protocol touches: the timings, the level, the state.\<close>

definition same_frame :: "infrared_common_decoder \<Rightarrow> infrared_common_decoder \<Rightarrow> bool" where
  "same_frame d d' \<longleftrightarrow> d_timings d' = d_timings d \<and> d_timings_cnt d' = d_timings_cnt d \<and>
     d_level d' = d_level d \<and> d_state d' = d_state d \<and> length (d_data d') = length (d_data d)"

lemma same_frame_refl [simp]: "same_frame d d"
  by (simp add: same_frame_def)

lemma same_frame_payload: "same_frame d d' \<Longrightarrow> payload_ok p d' = payload_ok p d"
  by (simp add: same_frame_def payload_ok_def)

lemma same_frame_oldest: "same_frame d d' \<Longrightarrow> oldest_level d' = oldest_level d"
  by (simp add: same_frame_def oldest_level_def)

lemma databit_len_found_pos: "databit_len_found ls cnt \<Longrightarrow> 0 < cnt"
  by (induction ls cnt rule: databit_len_found.induct) auto

lemma bytes_for_bits_index:
  assumes "n < m"
  shows "n div 8 < bytes_for_bits m"
proof (cases "m mod 8 = 0")
  case True
  then have "m = m div 8 * 8" by auto
  with assms have "n div 8 < m div 8" by (metis less_mult_imp_div_less)
  then show ?thesis by (simp add: bytes_for_bits_def)
next
  case False
  from assms have "n div 8 \<le> m div 8" by (intro div_le_mono) simp
  with False show ?thesis by (simp add: bytes_for_bits_def)
qed

text \<open>
  The contract. \<open>fed cnt sw lvl\<close> is what the protocol needs of the number of received bits and
  of \<open>switch_detect\<close> before it is fed a timing of level \<open>lvl\<close>.
\<close>

locale infrared_protocol_ops =
  fixes P :: infrared_common_protocol_spec
    and fed :: "nat \<Rightarrow> bool \<Rightarrow> bool \<Rightarrow> bool"
  assumes split_time: "min_split_time (p_timings (s_params P)) \<noteq> 0"
    and longest_found: "databit_len_found (p_databit_len (s_params P)) (databit_len0 (s_params P))"
    and fed_start: "fed 0 False lvl"
    and decode_ok: "payload_ok (s_params P) d \<Longrightarrow> d_databit_cnt d \<le> databit_len0 (s_params P) \<Longrightarrow>
          fed (d_databit_cnt d) (d_switch_detect d) lvl \<Longrightarrow>
          (\<not> lvl \<Longrightarrow> d_databit_cnt d \<noteq> databit_len0 (s_params P)) \<Longrightarrow>
          \<exists>st d'. s_decode P (s_params P) d lvl timing = Inr (st, d') \<and>
            (st = InfraredStatusOk \<or> st = InfraredStatusError) \<and> same_frame d d' \<and>
            d_databit_cnt d' \<le> databit_len0 (s_params P) \<and>
            (st = InfraredStatusOk \<longrightarrow> fed (d_databit_cnt d') (d_switch_detect d') (\<not> lvl))"
    and interpret_ok: "payload_ok (s_params P) d \<Longrightarrow>
          databit_len_found (p_databit_len (s_params P)) (d_databit_cnt d) \<Longrightarrow>
          \<exists>ok d'. s_interpret P (s_params P) d = Inr (ok, d') \<and> same_frame d d' \<and>
            d_databit_cnt d' = d_databit_cnt d"
    and repeat_ok: "s_decode_repeat P = Some f \<Longrightarrow> length (d_timings d) = 6 \<Longrightarrow>
          d_timings_cnt d \<le> 6 \<Longrightarrow>
          \<exists>st d'. f (s_params P) d = Inr (st, d') \<and>
            (st = InfraredStatusOk \<and> d' = d \<and> d_timings_cnt d \<le> 5 \<or>
             st = InfraredStatusError \<and> d' = d \<or>
             st = InfraredStatusReady \<and> d' = d\<lparr>d_timings_cnt := 0\<rparr>)"
    and repeat_preamble: "s_decode_repeat P \<noteq> None \<Longrightarrow> preamble_mark (p_timings (s_params P)) \<noteq> 0"

text \<open>
  What holds while the loop of the decoder is in the state \<open>Decode\<close>, and what one run of
  \<^verbatim>\<open>infrared_common_decode_bits\<close> promises: it consumes everything, or stops at a timing
  that is an error, or stops at the pause that ends a message.
\<close>

definition bits_inv :: "ir_params \<Rightarrow> (nat \<Rightarrow> bool \<Rightarrow> bool \<Rightarrow> bool) \<Rightarrow> infrared_common_decoder \<Rightarrow> bool" where
  "bits_inv p fed d \<longleftrightarrow> length (d_timings d) = 6 \<and> d_timings_cnt d \<le> 6 \<and> payload_ok p d \<and>
     d_databit_cnt d \<le> databit_len0 p \<and>
     (d_timings_cnt d = 0 \<or> fed (d_databit_cnt d) (d_switch_detect d) (oldest_level d)) \<and>
     (d_timings_cnt d = 0 \<longrightarrow> fed (d_databit_cnt d) (d_switch_detect d) (\<not> d_level d))"

definition bits_post :: "ir_params \<Rightarrow> (nat \<Rightarrow> bool \<Rightarrow> bool \<Rightarrow> bool) \<Rightarrow> infrared_common_decoder
    \<Rightarrow> infrared_status \<Rightarrow> infrared_common_decoder \<Rightarrow> bool" where
  "bits_post p fed d st d' \<longleftrightarrow>
     length (d_timings d') = 6 \<and> payload_ok p d' \<and> d_level d' = d_level d \<and>
     d_state d' = d_state d \<and> d_timings_cnt d' \<le> d_timings_cnt d \<and>
     d_databit_cnt d' \<le> databit_len0 p \<and>
     (st = InfraredStatusOk \<and> d_timings_cnt d' = 0 \<and>
        fed (d_databit_cnt d') (d_switch_detect d') (\<not> d_level d') \<or>
      st = InfraredStatusError \<and> 0 < d_timings_cnt d' \<or>
      st = InfraredStatusReady \<and> 0 < d_timings_cnt d' \<and> \<not> oldest_level d' \<and>
        databit_len_found (p_databit_len p) (d_databit_cnt d') \<and>
        (d_databit_cnt d = 0 \<longrightarrow> d_timings_cnt d' < d_timings_cnt d))"

lemma bits_post_step:
  assumes "bits_post p fed d2 st d'" and "d_level d2 = d_level d" and "d_state d2 = d_state d"
    and "d_timings_cnt d2 = d_timings_cnt d - Suc 0" and "0 < d_timings_cnt d"
  shows "bits_post p fed d st d'"
  using assms by (auto simp: bits_post_def)

context infrared_protocol_ops
begin

lemma decode_bits_ok:
  "bits_inv (s_params P) fed d \<Longrightarrow> d_timings_cnt d < fuel \<Longrightarrow>
   \<exists>st d'. infrared_common_decode_bits fuel P d = Inr (st, d') \<and> bits_post (s_params P) fed d st d'"
proof (induction fuel arbitrary: d)
  case 0
  then show ?case by simp
next
  case (Suc fuel)
  let ?p = "s_params P"
  show ?case
  proof (cases "d_timings_cnt d = 0")
    case True
    with Suc.prems show ?thesis by (simp add: bits_inv_def bits_post_def)
  next
    case False
    let ?t = "d_timings d ! 0"
    from Suc.prems False have inv: "length (d_timings d) = 6" "d_timings_cnt d \<le> 6" "payload_ok ?p d"
        "d_databit_cnt d \<le> databit_len0 ?p" "fed (d_databit_cnt d) (d_switch_detect d) (oldest_level d)"
      by (auto simp: bits_inv_def)
    show ?thesis
    proof (cases "decode_bits_early ?p d (oldest_level d) ?t")
      case (Some st)
      then have "st = InfraredStatusReady \<and> \<not> oldest_level d \<and>
          databit_len_found (p_databit_len ?p) (d_databit_cnt d) \<or> st = InfraredStatusError"
        by (auto simp: decode_bits_early_def split: if_splits)
      then have "bits_post ?p fed d st d"
        using inv False by (auto simp: bits_post_def dest: databit_len_found_pos)
      with Some False inv show ?thesis by (simp add: fault_simps)
    next
      case None
      then have full: "d_databit_cnt d \<noteq> databit_len0 ?p" if "\<not> oldest_level d"
        using that split_time longest_found by (auto simp: decode_bits_early_def split: if_splits)
      from decode_ok [OF inv(3,4,5) full, of ?t] obtain st d1 where
        dec: "s_decode P ?p d (oldest_level d) ?t = Inr (st, d1)"
        and st: "st = InfraredStatusOk \<or> st = InfraredStatusError"
        and frame: "same_frame d d1" and cnt1: "d_databit_cnt d1 \<le> databit_len0 ?p"
        and fed1: "st = InfraredStatusOk \<longrightarrow> fed (d_databit_cnt d1) (d_switch_detect d1) (\<not> oldest_level d)"
        by blast
      show ?thesis
      proof (cases "st = InfraredStatusError")
        case True
        then have "bits_post ?p fed d st d1"
          using inv False frame cnt1 by (auto simp: bits_post_def same_frame_def payload_ok_def)
        with True None False inv dec cnt1 show ?thesis by (simp add: fault_simps)
      next
        case notErr: False
        from frame inv False obtain ts where
          cons: "consume_timings 1 d1 = Inr (d1\<lparr>d_timings := ts, d_timings_cnt := d_timings_cnt d - Suc 0\<rparr>)"
          and ts: "length ts = 6"
          using consume_timings_ok [of 1 d1] by (auto simp: same_frame_def)
        let ?d2 = "d1\<lparr>d_timings := ts, d_timings_cnt := d_timings_cnt d - Suc 0\<rparr>"
        have old2: "oldest_level ?d2 = (\<not> oldest_level d)"
          using oldest_level_consume [of d1 ts] frame False same_frame_oldest [OF frame]
          by (simp add: same_frame_def)
        have "bits_inv ?p fed ?d2"
          using inv frame cnt1 fed1 ts notErr st old2 oldest_level_empty [of ?d2]
          by (auto simp: bits_inv_def same_frame_def payload_ok_def)
        moreover have "d_timings_cnt ?d2 < fuel"
          using Suc.prems(2) False by simp
        ultimately obtain st' d' where
          rec: "infrared_common_decode_bits fuel P ?d2 = Inr (st', d')"
          and post: "bits_post ?p fed ?d2 st' d'"
          using Suc.IH by blast
        from post have "bits_post ?p fed d st' d'"
          by (rule bits_post_step) (use frame False in \<open>auto simp: same_frame_def\<close>)
        moreover have "infrared_common_decode_bits (Suc fuel) P d = Inr (st', d')"
          using None False inv dec cnt1 st notErr cons rec split_time by (simp add: fault_simps Let_def)
        ultimately show ?thesis by blast
      qed
    qed
  qed
qed

end

section \<open>The preamble search\<close>

text \<open>Only the timings changed, and none was added.\<close>

definition shrunk :: "infrared_common_decoder \<Rightarrow> infrared_common_decoder \<Rightarrow> bool" where
  "shrunk d d' \<longleftrightarrow> d' = d\<lparr>d_timings := d_timings d', d_timings_cnt := d_timings_cnt d'\<rparr> \<and>
     length (d_timings d') = length (d_timings d) \<and> d_timings_cnt d' \<le> d_timings_cnt d"

lemma shrunk_refl [simp]: "shrunk d d"
  by (simp add: shrunk_def)

lemma shrunk_trans: "shrunk d d1 \<Longrightarrow> shrunk d1 d2 \<Longrightarrow> shrunk d d2"
  unfolding shrunk_def
  by (cases d; cases d1; cases d2) simp

lemma shrunkD:
  assumes "shrunk d d'"
  shows "length (d_timings d') = length (d_timings d)" "d_timings_cnt d' \<le> d_timings_cnt d"
    "d_state d' = d_state d" "d_switch_detect d' = d_switch_detect d" "d_level d' = d_level d"
    "d_databit_cnt d' = d_databit_cnt d" "d_data d' = d_data d" "d_toggle d' = d_toggle d"
    "d_message d' = d_message d"
  using assms unfolding shrunk_def by (cases d; cases d'; simp)+

lemma consume_shrunk:
  assumes "n \<le> d_timings_cnt d" and "d_timings_cnt d \<le> length (d_timings d)"
  obtains d' where "consume_timings n d = Inr d'" and "shrunk d d'"
    and "d_timings_cnt d' = d_timings_cnt d - n"
proof -
  from assms obtain ts where
    "consume_timings n d = Inr (d\<lparr>d_timings := ts, d_timings_cnt := d_timings_cnt d - n\<rparr>)"
    and "length ts = length (d_timings d)" by (rule consume_timings_ok)
  then show thesis by (auto simp: shrunk_def intro: that)
qed

text \<open>
  The search leaves at most one timing when it fails, and has consumed the two timings of the
  preamble when it succeeds.
\<close>

lemma check_preamble_loop_ok:
  "d_timings_cnt d \<le> length (d_timings d) \<Longrightarrow>
   \<exists>r d'. check_preamble_loop t d = Inr (r, d') \<and> shrunk d d' \<and>
     (if r then d_timings_cnt d' + 2 \<le> d_timings_cnt d else d_timings_cnt d' \<le> 1)"
proof (induction t d rule: check_preamble_loop.induct)
  case (1 t d)
  show ?case
  proof (cases "d_timings_cnt d \<ge> 2")
    case False
    then have "check_preamble_loop t d = Inr (False, d)"
      by (subst check_preamble_loop.simps) simp
    with False show ?thesis by (intro exI conjI) auto
  next
    case True
    from True "1.prems" obtain d2 where cons: "consume_timings 2 d = Inr d2"
      and d2: "shrunk d d2" "d_timings_cnt d2 = d_timings_cnt d - 2" by (rule consume_shrunk)
    let ?m = "MATCH_TIMING_F (d_timings d ! 0) (ucast (preamble_mark t)) (preamble_tolerance t) \<and>
              MATCH_TIMING_F (d_timings d ! 1) (ucast (preamble_space t)) (preamble_tolerance t)"
    have gets: "list_get (d_timings d) 0 = Inr (d_timings d ! 0)"
      "list_get (d_timings d) 1 = Inr (d_timings d ! 1)"
      using True "1.prems" by (auto intro!: list_get_ok)
    have step: "check_preamble_loop t d = (if ?m then Inr (True, d2) else check_preamble_loop t d2)"
      using True cons gets by (subst check_preamble_loop.simps) auto
    show ?thesis
    proof (cases ?m)
      case found: True
      with step d2 True show ?thesis by (intro exI conjI) auto
    next
      case False
      from "1.prems" d2 shrunkD(1) [OF d2(1)] have "d_timings_cnt d2 \<le> length (d_timings d2)" by simp
      with "1.IH" [OF True gets refl cons False]
      obtain r d' where rec: "check_preamble_loop t d2 = Inr (r, d')" and sh: "shrunk d2 d'"
        and cnt: "if r then d_timings_cnt d' + 2 \<le> d_timings_cnt d2 else d_timings_cnt d' \<le> 1" by blast
      from step False have "check_preamble_loop t d = check_preamble_loop t d2"
        by (simp only: if_False)
      with rec have "check_preamble_loop t d = Inr (r, d')" by (simp only:)
      moreover have "if r then d_timings_cnt d' + 2 \<le> d_timings_cnt d else d_timings_cnt d' \<le> 1"
        using cnt d2(2) True by (cases r) simp_all
      ultimately show ?thesis using shrunk_trans [OF d2(1) sh] by blast
    qed
  qed
qed

lemma infrared_check_preamble_ok:
  assumes len: "d_timings_cnt d \<le> length (d_timings d)"
  shows "\<exists>r d'. infrared_check_preamble p d = Inr (r, d') \<and> shrunk d d' \<and>
     (if \<not> r then d_timings_cnt d' \<le> 1
      else if preamble_mark (p_timings p) \<noteq> 0 then d_timings_cnt d' + 2 \<le> d_timings_cnt d
      else 0 < d_timings_cnt d \<and>
           d_timings_cnt d' = (if oldest_level d then d_timings_cnt d else d_timings_cnt d - 1))"
proof (cases "d_timings_cnt d = 0")
  case True
  then show ?thesis by (auto simp: infrared_check_preamble_def)
next
  case False
  with len obtain d0 where cons: "consume_timings 1 d = Inr d0"
    and d0: "shrunk d d0" "d_timings_cnt d0 = d_timings_cnt d - 1"
    using consume_shrunk [of 1 d] by auto
  define d1 where "d1 = (if oldest_level d then d else d0)"
  have d1: "(if oldest_level d then Inr d else consume_timings 1 d) = Inr d1" "shrunk d d1"
    "d_timings_cnt d1 = (if oldest_level d then d_timings_cnt d else d_timings_cnt d - 1)"
    using cons d0 by (simp_all add: d1_def)
  show ?thesis
  proof (cases "preamble_mark (p_timings p) = 0")
    case True
    then have "infrared_check_preamble p d = Inr (True, d1)"
      using False d1(1) by (simp add: infrared_check_preamble_def)
    with True False d1 show ?thesis by auto
  next
    case nz: False
    then have eq: "infrared_check_preamble p d = check_preamble_loop (p_timings p) d1"
      using False d1(1) by (simp add: infrared_check_preamble_def)
    have "d_timings_cnt d1 \<le> length (d_timings d1)"
      using len shrunkD(1,2) [OF d1(2)] by simp
    then obtain r d' where "check_preamble_loop (p_timings p) d1 = Inr (r, d')" and sh: "shrunk d1 d'"
      and "if r then d_timings_cnt d' + 2 \<le> d_timings_cnt d1 else d_timings_cnt d' \<le> 1"
      using check_preamble_loop_ok by blast
    with eq nz shrunkD(2) [OF d1(2)] shrunk_trans [OF d1(2) sh] show ?thesis
      by (cases r) auto
  qed
qed

section \<open>The decoder loop\<close>

text \<open>
  \<open>call_inv\<close> holds between two calls of \<^verbatim>\<open>infrared_common_decode\<close>: at most 5 of the 6
  places of \<^verbatim>\<open>timings\<close> are in use. \<open>loop_inv\<close> holds at the head of its loop, and
  \<open>loop_rank\<close> decreases in each of its rounds.
\<close>

definition call_inv :: "infrared_common_protocol_spec \<Rightarrow> (nat \<Rightarrow> bool \<Rightarrow> bool \<Rightarrow> bool)
    \<Rightarrow> infrared_common_decoder \<Rightarrow> bool" where
  "call_inv P fed d \<longleftrightarrow> length (d_timings d) = 6 \<and> payload_ok (s_params P) d \<and>
     (case d_state d of
        InfraredCommonDecoderStateWaitPreamble \<Rightarrow> d_timings_cnt d \<le> 4
      | InfraredCommonDecoderStateDecode \<Rightarrow> d_timings_cnt d = 0 \<and>
          d_databit_cnt d \<le> databit_len0 (s_params P) \<and>
          fed (d_databit_cnt d) (d_switch_detect d) (\<not> d_level d)
      | InfraredCommonDecoderStateProcessRepeat \<Rightarrow> d_timings_cnt d \<le> 5 \<and> s_decode_repeat P \<noteq> None)"

definition loop_inv :: "infrared_common_protocol_spec \<Rightarrow> (nat \<Rightarrow> bool \<Rightarrow> bool \<Rightarrow> bool)
    \<Rightarrow> infrared_common_decoder \<Rightarrow> bool" where
  "loop_inv P fed d \<longleftrightarrow> length (d_timings d) = 6 \<and> payload_ok (s_params P) d \<and> d_timings_cnt d \<le> 6 \<and>
     (case d_state d of
        InfraredCommonDecoderStateWaitPreamble \<Rightarrow>
          preamble_mark (p_timings (s_params P)) = 0 \<longrightarrow> d_timings_cnt d \<le> 5
      | InfraredCommonDecoderStateDecode \<Rightarrow> bits_inv (s_params P) fed d \<and>
          (d_timings_cnt d \<le> 1 \<or> d_databit_cnt d = 0 \<and> d_timings_cnt d \<le> 5)
      | InfraredCommonDecoderStateProcessRepeat \<Rightarrow> s_decode_repeat P \<noteq> None)"

definition loop_rank :: "infrared_common_protocol_spec \<Rightarrow> infrared_common_decoder \<Rightarrow> nat" where
  "loop_rank P d = 2 * d_timings_cnt d +
     (if preamble_mark (p_timings (s_params P)) \<noteq> 0
      then (case d_state d of
              InfraredCommonDecoderStateWaitPreamble \<Rightarrow> 0
            | InfraredCommonDecoderStateProcessRepeat \<Rightarrow> 1
            | InfraredCommonDecoderStateDecode \<Rightarrow> 2)
      else (case d_state d of
              InfraredCommonDecoderStateDecode \<Rightarrow> 1
            | _ \<Rightarrow> if oldest_level d then 2 else 0))"

lemma loop_rank_le: "loop_inv P fed d \<Longrightarrow> loop_rank P d \<le> 14"
  by (auto simp: loop_inv_def loop_rank_def split: ir_decoder_state.splits)

lemma reset_state_ok:
  assumes "d_timings_cnt d \<le> length (d_timings d)"
  shows "\<exists>d'. infrared_common_decoder_reset_state p d = Inr d' \<and>
     d_state d' = InfraredCommonDecoderStateWaitPreamble \<and> d_databit_cnt d' = 0 \<and>
     \<not> d_switch_detect d' \<and> length (d_timings d') = length (d_timings d) \<and>
     length (d_data d') = length (d_data d) \<and> d_level d' = d_level d \<and>
     d_timings_cnt d' = (if preamble_mark (p_timings p) = 0 then d_timings_cnt d - 1 else d_timings_cnt d)"
proof -
  let ?d1 = "d\<lparr>d_state := InfraredCommonDecoderStateWaitPreamble, d_databit_cnt := 0,
               d_switch_detect := False,
               d_message := (d_message d)\<lparr>m_protocol := InfraredProtocolUnknown\<rparr>\<rparr>"
  show ?thesis
  proof (cases "preamble_mark (p_timings p) = 0 \<and> d_timings_cnt d > 0")
    case True
    with assms obtain d' where cons: "consume_timings 1 ?d1 = Inr d'" and sh: "shrunk ?d1 d'"
      and cnt: "d_timings_cnt d' = d_timings_cnt ?d1 - 1"
      using consume_shrunk [of 1 ?d1] by auto
    have "infrared_common_decoder_reset_state p d = Inr d'"
      using True cons by (simp add: infrared_common_decoder_reset_state_def Let_def)
    then show ?thesis using shrunkD [OF sh] cnt True by auto
  next
    case False
    then have "infrared_common_decoder_reset_state p d = Inr ?d1"
      by (auto simp: infrared_common_decoder_reset_state_def Let_def)
    with False show ?thesis by auto
  qed
qed

text \<open>
  The outcome of one round: a result that satisfies \<open>call_inv\<close>, or another round from a state
  of lower rank.
\<close>

definition round_outcome :: "infrared_common_protocol_spec \<Rightarrow> (nat \<Rightarrow> bool \<Rightarrow> bool \<Rightarrow> bool) \<Rightarrow> nat
    \<Rightarrow> infrared_common_decoder \<Rightarrow> (bool \<times> infrared_common_decoder) res \<Rightarrow> bool" where
  "round_outcome P fed fuel d r \<longleftrightarrow>
     (\<exists>msg d'. r = Inr (msg, d') \<and> call_inv P fed d') \<or>
     (\<exists>msg d'. r = infrared_common_decode_loop fuel P msg d' \<and> loop_inv P fed d' \<and>
        loop_rank P d' < loop_rank P d)"

lemma round_result: "call_inv P fed d' \<Longrightarrow> round_outcome P fed fuel d (Inr (msg, d'))"
  by (auto simp: round_outcome_def)

lemma round_again:
  "loop_inv P fed d' \<Longrightarrow> loop_rank P d' < loop_rank P d \<Longrightarrow>
   round_outcome P fed fuel d (infrared_common_decode_loop fuel P msg d')"
  by (auto simp: round_outcome_def)

locale infrared_protocol_safe = infrared_protocol_ops +
  assumes interpret_longest: "payload_ok (s_params P) d \<Longrightarrow>
      databit_len_found (p_databit_len (s_params P)) (d_databit_cnt d) \<Longrightarrow>
      s_interpret P (s_params P) d = Inr (False, d') \<Longrightarrow>
      d_databit_cnt d = databit_len0 (s_params P)"
begin

lemma wait_round:
  assumes inv: "loop_inv P fed d" and st: "d_state d = InfraredCommonDecoderStateWaitPreamble"
  shows "round_outcome P fed fuel d (infrared_common_decode_loop (Suc fuel) P msg d)"
proof -
  let ?p = "s_params P"
  from inv st have len: "length (d_timings d) = 6" and cnt: "d_timings_cnt d \<le> 6"
    and pay: "payload_ok ?p d" and pre0: "preamble_mark (p_timings ?p) = 0 \<longrightarrow> d_timings_cnt d \<le> 5"
    by (auto simp: loop_inv_def)
  then obtain r d1 where chk: "infrared_check_preamble ?p d = Inr (r, d1)" and sh: "shrunk d d1"
    and out: "if \<not> r then d_timings_cnt d1 \<le> 1
      else if preamble_mark (p_timings ?p) \<noteq> 0 then d_timings_cnt d1 + 2 \<le> d_timings_cnt d
      else 0 < d_timings_cnt d \<and>
           d_timings_cnt d1 = (if oldest_level d then d_timings_cnt d else d_timings_cnt d - 1)"
    using infrared_check_preamble_ok [of d ?p] by auto
  note sh = shrunkD [OF sh]
  from sh pay have pay1: "payload_ok ?p d1" by (simp add: payload_ok_def)
  show ?thesis
  proof (cases r)
    case False
    with out sh len pay1 st have "call_inv P fed d1" by (simp add: call_inv_def)
    with False chk st show ?thesis by (simp add: round_result)
  next
    case True
    let ?d2 = "d1\<lparr>d_state := InfraredCommonDecoderStateDecode, d_databit_cnt := 0,
                   d_switch_detect := False\<rparr>"
    from True out sh pre0 cnt have "d_timings_cnt d1 \<le> 5" by (auto split: if_splits)
    then have "loop_inv P fed ?d2"
      using sh len pay1 by (simp add: loop_inv_def bits_inv_def payload_ok_def fed_start)
    moreover have "loop_rank P ?d2 < loop_rank P d"
      using True out st by (auto simp: loop_rank_def split: if_splits)
    ultimately show ?thesis using True chk st by (simp add: round_again)
  qed
qed

lemma reset_round:
  assumes len: "length (d_timings d1) = 6" and cnt: "d_timings_cnt d1 \<le> d_timings_cnt d"
    and pay: "payload_ok (s_params P) d1" and inv: "loop_inv P fed d"
    and pos: "preamble_mark (p_timings (s_params P)) = 0 \<Longrightarrow> 0 < d_timings_cnt d1"
    and st: "d_state d = InfraredCommonDecoderStateDecode \<or>
             d_state d = InfraredCommonDecoderStateProcessRepeat"
  shows "round_outcome P fed fuel d
     (bindr (infrared_common_decoder_reset_state (s_params P) d1) (infrared_common_decode_loop fuel P msg))"
proof -
  let ?p = "s_params P"
  from inv cnt have six: "d_timings_cnt d1 \<le> 6" by (simp add: loop_inv_def)
  with len obtain d2 where res: "infrared_common_decoder_reset_state ?p d1 = Inr d2"
    and d2: "d_state d2 = InfraredCommonDecoderStateWaitPreamble" "length (d_timings d2) = 6"
      "length (d_data d2) = length (d_data d1)"
      "d_timings_cnt d2 = (if preamble_mark (p_timings ?p) = 0 then d_timings_cnt d1 - 1 else d_timings_cnt d1)"
    using reset_state_ok [of d1 ?p] by auto
  have "loop_inv P fed d2"
    using d2 six pay by (auto simp: loop_inv_def payload_ok_def)
  moreover have "loop_rank P d2 < loop_rank P d"
    using d2 st inv cnt pos repeat_preamble by (auto simp: loop_rank_def loop_inv_def split: if_splits)
  ultimately show ?thesis using res by (simp add: round_again)
qed

end

context infrared_protocol_safe
begin

lemma check_ready_ok:
  assumes "payload_ok (s_params P) d"
    and "databit_len_found (p_databit_len (s_params P)) (d_databit_cnt d)"
  shows "\<exists>ok d'. infrared_common_decoder_check_ready P d = Inr (ok, d') \<and>
     d_timings d' = d_timings d \<and> d_timings_cnt d' = d_timings_cnt d \<and> d_level d' = d_level d \<and>
     payload_ok (s_params P) d' \<and>
     (if ok then d_state d' = (if s_decode_repeat P \<noteq> None then InfraredCommonDecoderStateProcessRepeat
                               else InfraredCommonDecoderStateWaitPreamble)
      else d_databit_cnt d' = databit_len0 (s_params P))"
proof -
  from interpret_ok [OF assms] obtain ok d1 where int: "s_interpret P (s_params P) d = Inr (ok, d1)"
    and fr: "same_frame d d1" and cnt: "d_databit_cnt d1 = d_databit_cnt d" by blast
  note fr = fr [unfolded same_frame_def]
  show ?thesis
  proof (cases ok)
    case True
    with assms int fr show ?thesis
      by (auto simp: infrared_common_decoder_check_ready_def payload_ok_def)
  next
    case False
    with int interpret_longest [OF assms] have "d_databit_cnt d = databit_len0 (s_params P)" by simp
    with False assms int fr cnt show ?thesis
      by (auto simp: infrared_common_decoder_check_ready_def payload_ok_def)
  qed
qed

lemma decode_round:
  assumes inv: "loop_inv P fed d" and st: "d_state d = InfraredCommonDecoderStateDecode"
  shows "round_outcome P fed fuel d (infrared_common_decode_loop (Suc fuel) P msg d)"
proof -
  let ?p = "s_params P"
  from inv st have binv: "bits_inv ?p fed d"
    and few: "d_timings_cnt d \<le> 1 \<or> d_databit_cnt d = 0 \<and> d_timings_cnt d \<le> 5"
    by (auto simp: loop_inv_def)
  from decode_bits_ok [OF binv lessI] obtain stat d1 where
    dec: "infrared_common_decode_bits (Suc (d_timings_cnt d)) P d = Inr (stat, d1)"
    and post: "bits_post ?p fed d stat d1" by blast
  from post have d1: "length (d_timings d1) = 6" "payload_ok ?p d1" "d_state d1 = d_state d"
      "d_timings_cnt d1 \<le> d_timings_cnt d" "d_databit_cnt d1 \<le> databit_len0 ?p"
    by (auto simp: bits_post_def)
  consider (ok) "stat = InfraredStatusOk" "d_timings_cnt d1 = 0"
      "fed (d_databit_cnt d1) (d_switch_detect d1) (\<not> d_level d1)"
    | (error) "stat = InfraredStatusError" "0 < d_timings_cnt d1"
    | (ready) "stat = InfraredStatusReady" "0 < d_timings_cnt d1" "\<not> oldest_level d1"
      "databit_len_found (p_databit_len ?p) (d_databit_cnt d1)" "d_timings_cnt d1 \<le> 4"
    using post few by (auto simp: bits_post_def)
  then show ?thesis
  proof cases
    case ok
    with d1 st have "call_inv P fed d1" by (simp add: call_inv_def)
    with ok dec st show ?thesis by (simp add: round_result)
  next
    case error
    with dec st show ?thesis
      using reset_round [OF d1(1,4,2) inv error(2), of fuel msg] by simp
  next
    case ready
    from check_ready_ok [OF d1(2) ready(4)] obtain ok d2 where
      chk: "infrared_common_decoder_check_ready P d1 = Inr (ok, d2)"
      and d2: "d_timings d2 = d_timings d1" "d_timings_cnt d2 = d_timings_cnt d1"
        "d_level d2 = d_level d1" "payload_ok ?p d2"
        "if ok then d_state d2 = (if s_decode_repeat P \<noteq> None then InfraredCommonDecoderStateProcessRepeat
                                  else InfraredCommonDecoderStateWaitPreamble)
         else d_databit_cnt d2 = databit_len0 ?p" by blast
    have old: "\<not> oldest_level d2" using ready(3) d2(2,3) by (simp add: oldest_level_def)
    show ?thesis
    proof (cases ok)
      case True
      with d2 d1 ready have "loop_inv P fed d2" by (auto simp: loop_inv_def)
      moreover have "loop_rank P d2 < loop_rank P d"
        using True d2 d1 st old repeat_preamble by (auto simp: loop_rank_def)
      ultimately show ?thesis using True chk dec ready st by (simp add: round_again)
    next
      case False
      with d2 d1 ready have "call_inv P fed (d2\<lparr>d_state := InfraredCommonDecoderStateWaitPreamble\<rparr>)"
        by (simp add: call_inv_def payload_ok_def)
      with False d2 chk dec ready st show ?thesis by (simp add: round_result)
    qed
  qed
qed

lemma repeat_round:
  assumes inv: "loop_inv P fed d" and st: "d_state d = InfraredCommonDecoderStateProcessRepeat"
  shows "round_outcome P fed fuel d (infrared_common_decode_loop (Suc fuel) P msg d)"
proof -
  from inv st obtain f where f: "s_decode_repeat P = Some f" by (auto simp: loop_inv_def)
  from inv have len: "length (d_timings d) = 6" and cnt: "d_timings_cnt d \<le> 6"
    and pay: "payload_ok (s_params P) d" by (auto simp: loop_inv_def)
  from repeat_ok [OF f len cnt] obtain stat d1 where rep: "f (s_params P) d = Inr (stat, d1)"
    and out: "stat = InfraredStatusOk \<and> d1 = d \<and> d_timings_cnt d \<le> 5 \<or>
      stat = InfraredStatusError \<and> d1 = d \<or>
      stat = InfraredStatusReady \<and> d1 = d\<lparr>d_timings_cnt := 0\<rparr>" by blast
  show ?thesis
  proof (cases "stat = InfraredStatusError")
    case True
    with out rep f st repeat_preamble show ?thesis
      using reset_round [OF len order_refl pay inv, of fuel msg] by auto
  next
    case False
    then show ?thesis
      using out rep f st len cnt pay
      by (auto simp: call_inv_def payload_ok_def intro!: round_result)
  qed
qed

end

section \<open>Calls and sequences of calls\<close>

text \<open>
  A receiver feeds the edges of a signal one by one, \<^verbatim>\<open>infrared_common_decode\<close> for each
  pair of a level and a duration; \<open>ir_feed\<close> collects the messages.
\<close>

fun ir_feed :: "('d \<Rightarrow> bool \<Rightarrow> u32 \<Rightarrow> (infrared_message option \<times> 'd) res) \<Rightarrow> 'd
    \<Rightarrow> (bool \<times> u32) list \<Rightarrow> (infrared_message list \<times> 'd) res" where
  "ir_feed f d [] = Inr ([], d)"
| "ir_feed f d ((lvl, dur) # xs) =
     bindr (f d lvl dur) (\<lambda>(m, d1).
     bindr (ir_feed f d1 xs) (\<lambda>(ms, d2).
       Inr ((case m of None \<Rightarrow> ms | Some x \<Rightarrow> x # ms), d2)))"

lemma ir_feed_append:
  "ir_feed f d (xs @ ys) =
     bindr (ir_feed f d xs) (\<lambda>(ms, d1). bindr (ir_feed f d1 ys) (\<lambda>(ms', d2). Inr (ms @ ms', d2)))"
  by (induction xs arbitrary: d)
     (auto simp: bindr_def split: sum.splits option.splits prod.splits)

lemma decoder_alloc_inv:
  assumes "infrared_common_decoder_alloc P = Inr d"
  shows "call_inv P fed d"
  using assms
  by (auto simp: infrared_common_decoder_alloc_def call_inv_def payload_ok_def bindr_eq_Inr)

context infrared_protocol_safe
begin

lemma decode_loop_ok:
  "loop_inv P fed d \<Longrightarrow> loop_rank P d < fuel \<Longrightarrow>
   \<exists>msg' d'. infrared_common_decode_loop fuel P msg d = Inr (msg', d') \<and> call_inv P fed d'"
proof (induction fuel arbitrary: d msg)
  case 0
  then show ?case by simp
next
  case (Suc fuel)
  from Suc.prems(1) have "round_outcome P fed fuel d (infrared_common_decode_loop (Suc fuel) P msg d)"
    by (cases "d_state d") (blast intro: wait_round decode_round repeat_round)+
  then show ?case
  proof (unfold round_outcome_def, elim disjE exE conjE)
    fix msg' d' assume "infrared_common_decode_loop (Suc fuel) P msg d = infrared_common_decode_loop fuel P msg' d'"
      and "loop_inv P fed d'" and "loop_rank P d' < loop_rank P d"
    with Suc.IH [of d' msg'] Suc.prems(2) show ?thesis by simp
  qed blast
qed

lemma decoder_reset_ok:
  assumes "call_inv P fed d"
  shows "\<exists>d'. infrared_common_decoder_reset P d = Inr d' \<and> call_inv P fed d' \<and>
     d_timings_cnt d' = 0 \<and> d_state d' = InfraredCommonDecoderStateWaitPreamble"
proof -
  from assms have "d_timings_cnt d \<le> length (d_timings d)"
    by (auto simp: call_inv_def split: ir_decoder_state.splits)
  from reset_state_ok [OF this, of "s_params P"] assms show ?thesis
    by (auto simp: infrared_common_decoder_reset_def call_inv_def payload_ok_def)
qed

lemma common_decode_ok:
  assumes "call_inv P fed d"
  shows "\<exists>m d'. infrared_common_decode P d lvl dur = Inr (m, d') \<and> call_inv P fed d'"
proof -
  obtain d1 where res: "(if d_level d = lvl then infrared_common_decoder_reset P d else Inr d) = Inr d1"
    and inv1: "call_inv P fed d1"
    and lvl: "d_state d1 = InfraredCommonDecoderStateDecode \<Longrightarrow> d_level d1 \<noteq> lvl"
    using decoder_reset_ok [OF assms] assms by (cases "d_level d = lvl") auto
  have cnt: "d_timings_cnt d1 \<le> 5" and len: "length (d_timings d1) = 6"
    using inv1 by (auto simp: call_inv_def split: ir_decoder_state.splits)
  let ?d3 = "d1\<lparr>d_level := lvl, d_timings := (d_timings d1)[d_timings_cnt d1 := dur],
                d_timings_cnt := Suc (d_timings_cnt d1)\<rparr>"
  have inv3: "loop_inv P fed ?d3"
    using inv1 cnt lvl
    by (auto simp: call_inv_def loop_inv_def bits_inv_def payload_ok_def oldest_level_def
        split: ir_decoder_state.splits)
  have "loop_rank P ?d3 < decode_loop_fuel"
    using loop_rank_le [OF inv3] by (simp add: decode_loop_fuel_def)
  from decode_loop_ok [OF inv3 this, of False] obtain msg d4 where
    "infrared_common_decode_loop decode_loop_fuel P False ?d3 = Inr (msg, d4)"
    and "call_inv P fed d4" by blast
  with res cnt len show ?thesis
    by (simp add: infrared_common_decode_def fault_simps sizeof_timings_def Let_def)
qed

lemma feed_ok:
  "call_inv P fed d \<Longrightarrow> \<exists>ms d'. ir_feed (infrared_common_decode P) d xs = Inr (ms, d') \<and> call_inv P fed d'"
proof (induction xs arbitrary: d)
  case Nil
  then show ?case by simp
next
  case (Cons x xs)
  obtain lvl dur where x: "x = (lvl, dur)" by (cases x)
  from common_decode_ok [OF Cons.prems] obtain m d1 where
    "infrared_common_decode P d lvl dur = Inr (m, d1)" and "call_inv P fed d1" by blast
  with Cons.IH [of d1] x show ?case by auto
qed

lemma timings_bound: "call_inv P fed d \<Longrightarrow> d_timings_cnt d < length (d_timings d)"
  by (auto simp: call_inv_def split: ir_decoder_state.splits)

end

end
