(* ===== verification/Infrared_Codec.thy ===== *)
theory Infrared_Codec
  imports Infrared_Safety
begin

text \<open>
  What the modulations share: driving the encoder until a frame is out, the line between
  encoder and decoder, single steps of the common decoder, and the contract between a
  protocol's encoder, which packs a message into a payload, and its \<^verbatim>\<open>interpret\<close>, which
  reads it back (locale \<open>infrared_codec\<close>).
\<close>


section \<open>Driving the encoder and the line\<close>

text \<open>Calls the encoder until it returns \<open>InfraredStatusDone\<close> and collects what it emits.\<close>

fun ir_encode_frame :: "('e \<Rightarrow> (infrared_status \<times> u32 \<times> bool \<times> 'e) res) \<Rightarrow> nat \<Rightarrow> 'e
    \<Rightarrow> ((bool \<times> u32) list \<times> 'e) res" where
  "ir_encode_frame f 0 e = Inl OutOfFuel"
| "ir_encode_frame f (Suc n) e =
     bindr (f e) (\<lambda>(st, dur, lvl, e1).
       if st = InfraredStatusDone then Inr ([(lvl, dur)], e1)
       else bindr (ir_encode_frame f n e1) (\<lambda>(xs, e2). Inr ((lvl, dur) # xs, e2)))"

text \<open>On the line two adjacent intervals of the same level are one interval.\<close>

fun ir_line :: "(bool \<times> u32) list \<Rightarrow> (bool \<times> u32) list" where
  "ir_line ((l1, d1) # (l2, d2) # xs) =
     (if l1 = l2 then ir_line ((l1, d1 + d2) # xs) else (l1, d1) # ir_line ((l2, d2) # xs))"
| "ir_line xs = xs"

definition ir_frame_fuel :: nat where "ir_frame_fuel = 128"

text \<open>
  A message through the encoder, the line and the decoder, as the loop-back test of the
  repository does it: reset the encoder with the message, emit a frame, feed it, ask the
  decoder whether it is ready.
\<close>

definition ir_transfer :: "('e \<Rightarrow> infrared_message \<Rightarrow> 'e res)
    \<Rightarrow> ('e \<Rightarrow> (infrared_status \<times> u32 \<times> bool \<times> 'e) res)
    \<Rightarrow> ('d \<Rightarrow> bool \<Rightarrow> u32 \<Rightarrow> (infrared_message option \<times> 'd) res)
    \<Rightarrow> ('d \<Rightarrow> (infrared_message option \<times> 'd) res)
    \<Rightarrow> 'e \<Rightarrow> 'd \<Rightarrow> infrared_message \<Rightarrow> (infrared_message list \<times> infrared_message option) res" where
  "ir_transfer enc_reset enc dec ready e d m =
     bindr (enc_reset e m) (\<lambda>e1.
     bindr (ir_encode_frame enc ir_frame_fuel e1) (\<lambda>(frame, e2).
     bindr (ir_feed dec d (ir_line frame)) (\<lambda>(ms, d1).
     bindr (ready d1) (\<lambda>(r, d2). Inr (ms, r)))))"

lemma ir_encode_frame_more_fuel:
  "ir_encode_frame f n e = Inr r \<Longrightarrow> n \<le> n' \<Longrightarrow> ir_encode_frame f n' e = Inr r"
proof (induction n arbitrary: e r n')
  case 0
  then show ?case by simp
next
  case (Suc n)
  then obtain n'' where n': "n' = Suc n''" and le: "n \<le> n''" by (cases n') auto
  from Suc.prems(1) obtain st dur lvl e1 where f: "f e = Inr (st, dur, lvl, e1)"
    by (auto simp: bindr_eq_Inr)
  show ?case
  proof (cases "st = InfraredStatusDone")
    case True
    with Suc.prems n' f show ?thesis by simp
  next
    case False
    with Suc.prems f obtain xs e2 where rec: "ir_encode_frame f n e1 = Inr (xs, e2)"
      and r: "r = ((lvl, dur) # xs, e2)" by (auto simp: bindr_eq_Inr)
    from Suc.IH [OF rec le] show ?thesis using n' f r False by simp
  qed
qed

text \<open>Two encoders that agree on the states of a run emit the same frame.\<close>

lemma ir_encode_frame_agree:
  assumes "\<And>e. I e \<Longrightarrow> g e = f e"
    and "\<And>e st dur lvl e1. I e \<Longrightarrow> f e = Inr (st, dur, lvl, e1) \<Longrightarrow> st \<noteq> InfraredStatusDone \<Longrightarrow> I e1"
  shows "I e \<Longrightarrow> ir_encode_frame g n e = ir_encode_frame f n e"
proof (induction n arbitrary: e)
  case 0
  then show ?case by simp
next
  case (Suc n)
  show ?case
  proof (cases "f e")
    case (Inr r)
    obtain st dur lvl e1 where r: "r = (st, dur, lvl, e1)" by (cases r)
    show ?thesis
    proof (cases "st = InfraredStatusDone")
      case False
      then have "I e1" using assms(2) [OF Suc.prems] Inr r by simp
      from Suc.IH [OF this] show ?thesis using assms(1) [OF Suc.prems] Inr r by simp
    qed (use assms(1) [OF Suc.prems] Inr r in simp)
  qed (use assms(1) [OF Suc.prems] in simp)
qed

text \<open>Intervals of alternating levels are not merged.\<close>

fun alternating :: "(bool \<times> u32) list \<Rightarrow> bool" where
  "alternating ((l1, d1) # (l2, d2) # xs) = (l1 \<noteq> l2 \<and> alternating ((l2, d2) # xs))"
| "alternating xs = True"

lemma alternating_Cons: "alternating (x # ys) \<longleftrightarrow> (ys \<noteq> [] \<longrightarrow> fst x \<noteq> fst (hd ys)) \<and> alternating ys"
  by (cases x; cases ys) auto

lemma ir_line_alternating: "alternating xs \<Longrightarrow> ir_line xs = xs"
  by (induction xs rule: alternating.induct) auto

section \<open>Feeding the common decoder\<close>

definition decoder_idle :: "infrared_common_protocol_spec \<Rightarrow> infrared_common_decoder \<Rightarrow> bool" where
  "decoder_idle P d \<longleftrightarrow> d_state d = InfraredCommonDecoderStateWaitPreamble \<and> d_timings_cnt d = 0 \<and>
     length (d_timings d) = 6 \<and> payload_ok (s_params P) d"

text \<open>The decoder has received the bits \<open>bs\<close> and nothing is pending.\<close>

definition receiving :: "infrared_common_protocol_spec \<Rightarrow> bool list \<Rightarrow> bool \<Rightarrow> infrared_common_decoder \<Rightarrow> bool" where
  "receiving P bs lvl d \<longleftrightarrow> d_state d = InfraredCommonDecoderStateDecode \<and> d_timings_cnt d = 0 \<and>
     length (d_timings d) = 6 \<and> payload_ok (s_params P) d \<and> d_level d = lvl \<and>
     d_databit_cnt d = length bs \<and> data_bits (d_data d) (length bs) = bs \<and>
     data_clean (d_data d) (length bs)"

definition stored :: "infrared_common_decoder \<Rightarrow> bool \<Rightarrow> u32 \<Rightarrow> infrared_common_decoder" where
  "stored d lvl dur = d\<lparr>d_level := lvl, d_timings := (d_timings d)[0 := dur], d_timings_cnt := 1\<rparr>"

lemma stored_simps [simp]:
  "d_level (stored d lvl dur) = lvl" "d_timings (stored d lvl dur) = (d_timings d)[0 := dur]"
  "d_timings_cnt (stored d lvl dur) = Suc 0" "d_state (stored d lvl dur) = d_state d"
  "d_message (stored d lvl dur) = d_message d" "d_switch_detect (stored d lvl dur) = d_switch_detect d"
  "d_databit_cnt (stored d lvl dur) = d_databit_cnt d" "d_toggle (stored d lvl dur) = d_toggle d"
  "d_data (stored d lvl dur) = d_data d" "oldest_level (stored d lvl dur) = lvl"
  by (simp_all add: stored_def oldest_level_def)

lemma common_decode_stored:
  assumes "d_level d \<noteq> lvl" and "d_timings_cnt d = 0" and "length (d_timings d) = 6"
  shows "infrared_common_decode P d lvl dur =
     bindr (infrared_common_decode_loop decode_loop_fuel P False (stored d lvl dur)) (\<lambda>(msg, d4).
       Inr (if msg then Some (d_message d4) else None, d4))"
  using assms
  by (simp add: infrared_common_decode_def Let_def list_set_def sizeof_timings_def stored_def)

text \<open>One timing that the protocol accepts without completing a message.\<close>

lemma common_decode_ok_step:
  assumes st: "d_state d = InfraredCommonDecoderStateDecode"
    and d: "d_level d \<noteq> lvl" "d_timings_cnt d = 0" "length (d_timings d) = 6"
    and split: "min_split_time (p_timings (s_params P)) \<noteq> 0"
    and early: "decode_bits_early (s_params P) (stored d lvl dur) lvl dur = None"
    and dec: "s_decode P (s_params P) (stored d lvl dur) lvl dur = Inr (InfraredStatusOk, d1)"
    and d1: "d_timings_cnt d1 = Suc 0" "d_databit_cnt d1 \<le> databit_len0 (s_params P)"
      "d_state d1 = InfraredCommonDecoderStateDecode"
  shows "infrared_common_decode P d lvl dur = Inr (None, d1\<lparr>d_timings_cnt := 0\<rparr>)"
proof -
  let ?d = "stored d lvl dur"
  have "list_get (d_timings ?d) 0 = Inr dur" using d by (simp add: list_get_def)
  then have bits: "infrared_common_decode_bits (Suc (Suc 0)) P ?d =
      Inr (InfraredStatusOk, d1\<lparr>d_timings_cnt := 0\<rparr>)"
    using early dec d1 split consume_timings_all [of d1 1] by (simp add: Let_def)
  have "infrared_common_decode_loop decode_loop_fuel P False ?d =
      Inr (False, d1\<lparr>d_timings_cnt := 0\<rparr>)"
    using st bits by (simp add: decode_loop_fuel_def eval_nat_numeral del: infrared_common_decode_bits.simps)
  then show ?thesis by (simp add: common_decode_stored [OF d])
qed

lemma loop_wait_not_found:
  "d_state d = InfraredCommonDecoderStateWaitPreamble \<Longrightarrow>
   infrared_check_preamble (s_params P) d = Inr (False, d1) \<Longrightarrow>
   infrared_common_decode_loop decode_loop_fuel P msg d = Inr (msg, d1)"
  by (simp add: decode_loop_fuel_def eval_nat_numeral)

lemma loop_wait_found:
  "d_state d = InfraredCommonDecoderStateWaitPreamble \<Longrightarrow>
   infrared_check_preamble (s_params P) d = Inr (True, d1) \<Longrightarrow> d_timings_cnt d1 = 0 \<Longrightarrow>
   infrared_common_decode_loop decode_loop_fuel P msg d =
     Inr (msg, d1\<lparr>d_state := InfraredCommonDecoderStateDecode, d_databit_cnt := 0,
                 d_switch_detect := False\<rparr>)"
  by (simp add: decode_loop_fuel_def eval_nat_numeral)

section \<open>The state of the encoder\<close>

definition line_time :: "(bool \<times> u32) list \<Rightarrow> u32" where
  "line_time xs = sum_list (map snd xs)"

lemma line_time_simps [simp]:
  "line_time [] = 0" "line_time (x # xs) = snd x + line_time xs"
  "line_time (xs @ ys) = line_time xs + line_time ys"
  by (simp_all add: line_time_def)

text \<open>
  \<open>encoding n data k s e\<close>: of \<open>n\<close> bits of \<open>data\<close>, \<open>k\<close> are emitted, in \<open>3 + 2 * k\<close> timings
  (pause, preamble, bits) that last \<open>s\<close> without the pause.
\<close>

definition encoding :: "nat \<Rightarrow> u8 list \<Rightarrow> nat \<Rightarrow> u32 \<Rightarrow> infrared_common_encoder \<Rightarrow> bool" where
  "encoding n data k s e \<longleftrightarrow> e_state e = InfraredCommonEncoderStateEncode \<and> e_bits_to_encode e = n \<and>
     e_bits_encoded e = k \<and> e_timings_encoded e = 3 + 2 * k \<and> e_timings_sum e = s \<and> e_data e = data"

text \<open>The frame is out: the repeat follows, or the encoder is back at the start.\<close>

definition frame_sent :: "infrared_common_protocol_spec \<Rightarrow> nat \<Rightarrow> u8 list \<Rightarrow> nat \<Rightarrow> u32
    \<Rightarrow> infrared_common_encoder \<Rightarrow> bool" where
  "frame_sent P n data cnt s e \<longleftrightarrow> e_bits_to_encode e = n \<and> e_data e = data \<and>
     (if s_encode_repeat P \<noteq> None
      then e_state e = InfraredCommonEncoderStateEncodeRepeat \<and> e_bits_encoded e = n \<and>
           e_timings_encoded e = cnt \<and> e_timings_sum e = s
      else e_state e = InfraredCommonEncoderStateSilence \<and> e_bits_encoded e = 0 \<and>
           e_timings_encoded e = 0 \<and> e_timings_sum e = 0)"

definition encoder_ready :: "nat \<Rightarrow> u8 list \<Rightarrow> infrared_common_encoder \<Rightarrow> bool" where
  "encoder_ready n data e \<longleftrightarrow> e_state e = InfraredCommonEncoderStateSilence \<and> e_timings_encoded e = 0 \<and>
     e_bits_encoded e = 0 \<and> e_bits_to_encode e = n \<and> e_data e = data"

text \<open>After the pause of a frame; a repeated frame starts here with a pause of its own.\<close>

definition after_pause :: "nat \<Rightarrow> u8 list \<Rightarrow> infrared_common_encoder \<Rightarrow> bool" where
  "after_pause n data e \<longleftrightarrow> e_state e = InfraredCommonEncoderStatePreamble \<and> e_timings_encoded e = 1 \<and>
     e_timings_sum e = 0 \<and> e_bits_encoded e = 0 \<and> e_bits_to_encode e = n \<and> e_data e = data"

lemma encoder_logic_value_bit:
  "e_bits_encoded e div 8 < length (e_data e) \<Longrightarrow>
   encoder_logic_value e = Inr (byte_bit (e_data e) (e_bits_encoded e))"
  by (simp add: encoder_logic_value_def fault_simps byte_bit_def flip: and_mask_bit)

lemma drop_data_bits:
  "k < n \<Longrightarrow> drop k (data_bits data n) = byte_bit data k # drop (Suc k) (data_bits data n)"
  by (subst Cons_nth_drop_Suc [symmetric]) (simp_all add: data_bits_def)

section \<open>The contract of a message codec\<close>

text \<open>
  \<open>understood P n data m\<close>: a decoder that has received the first \<open>n\<close> bits of \<open>data\<close> reports
  the message \<open>m\<close>.
\<close>

definition understood :: "infrared_common_protocol_spec \<Rightarrow> nat \<Rightarrow> u8 list \<Rightarrow> infrared_message \<Rightarrow> bool" where
  "understood P n data m \<longleftrightarrow>
     (\<forall>d. payload_ok (s_params P) d \<longrightarrow> d_databit_cnt d = n \<longrightarrow>
          data_bits (d_data d) n = data_bits data n \<longrightarrow>
          (\<exists>d'. s_interpret P (s_params P) d = Inr (True, d') \<and> d_message d' = m))"

definition encoder_alloc_ok :: "infrared_common_protocol_spec \<Rightarrow> infrared_common_encoder \<Rightarrow> bool" where
  "encoder_alloc_ok P e \<longleftrightarrow> length (e_data e) = bytes_for_bits (databit_len0 (s_params P)) + encoder_extra_bytes"

definition packs :: "infrared_common_protocol_spec \<Rightarrow> infrared_message \<Rightarrow> nat \<Rightarrow> infrared_common_encoder \<Rightarrow> bool" where
  "packs P m n e \<longleftrightarrow> encoder_ready n (e_data e) e \<and> encoder_alloc_ok P e \<and>
     understood P n (e_data e) m"

text \<open>\<^verbatim>\<open>infrared_decoder_*_check_ready\<close>: the message, or null.\<close>

definition common_ready :: "infrared_common_protocol_spec \<Rightarrow> infrared_common_decoder
    \<Rightarrow> (infrared_message option \<times> infrared_common_decoder) res" where
  "common_ready P d = bindr (infrared_common_decoder_check_ready P d) (\<lambda>(ok, d').
     Inr (if ok then Some (d_message d') else None, d'))"

locale infrared_codec =
  fixes P :: infrared_common_protocol_spec
    and canon :: "infrared_message \<Rightarrow> bool"
    and reset :: "infrared_common_encoder \<Rightarrow> infrared_message \<Rightarrow> infrared_common_encoder res"
    and len_of :: "infrared_message \<Rightarrow> nat"
  assumes packed: "canon m \<Longrightarrow> encoder_alloc_ok P e \<Longrightarrow> \<exists>e'. reset e m = Inr e' \<and> packs P m (len_of m) e'"
    and len_found: "canon m \<Longrightarrow> databit_len_found (p_databit_len (s_params P)) (len_of m)"
    and len_le: "canon m \<Longrightarrow> len_of m \<le> databit_len0 (s_params P)"
    and len0_le: "databit_len0 (s_params P) \<le> 62"
begin

lemma payload_index: "canon m \<Longrightarrow> encoder_alloc_ok P e \<Longrightarrow> len_of m div 8 < length (e_data e)"
  using len_le [of m] div_le_mono [of "len_of m" "databit_len0 (s_params P)" 8]
  by (simp add: encoder_alloc_ok_def bytes_for_bits_def encoder_extra_bytes_def)

lemma ready_message:
  assumes "canon m" and "encoder_alloc_ok P e" and "reset e m = Inr e'"
    and d: "receiving P (data_bits (e_data e') (len_of m)) lvl d"
  shows "\<exists>d'. common_ready P d = Inr (Some m, d')"
proof -
  from packed [OF assms(1,2)] assms(3) have "understood P (len_of m) (e_data e') m"
    by (auto simp: packs_def)
  moreover have "payload_ok (s_params P) d" "d_databit_cnt d = len_of m"
    "data_bits (d_data d) (len_of m) = data_bits (e_data e') (len_of m)"
    using d by (auto simp: receiving_def)
  ultimately obtain d' where "s_interpret P (s_params P) d = Inr (True, d')" "d_message d' = m"
    by (auto simp: understood_def)
  with len_found [OF assms(1)] \<open>d_databit_cnt d = len_of m\<close> show ?thesis
    by (simp add: common_ready_def infrared_common_decoder_check_ready_def)
qed

end

lemma decoder_alloc_idle: "infrared_common_decoder_alloc P = Inr d \<Longrightarrow> decoder_idle P d"
  by (auto simp: infrared_common_decoder_alloc_def decoder_idle_def payload_ok_def bindr_eq_Inr)

lemma encoder_alloc_alloc_ok: "infrared_common_encoder_alloc b P = Inr e \<Longrightarrow> encoder_alloc_ok P e"
  by (auto simp: infrared_common_encoder_alloc_def encoder_alloc_ok_def bindr_eq_Inr Let_def)

section \<open>Repeat codes\<close>

text \<open>
  After a message a protocol may accept a code of \<open>K\<close> timings that says that the button is
  still pressed: \<open>repeat_state\<close> describes a decoder that has stored the timings \<open>ys\<close> of one.
\<close>

definition repeat_state :: "u32 list \<Rightarrow> bool \<Rightarrow> infrared_message \<Rightarrow> infrared_common_decoder \<Rightarrow> bool" where
  "repeat_state ys lvl m d \<longleftrightarrow> d_state d = InfraredCommonDecoderStateProcessRepeat \<and>
     length (d_timings d) = 6 \<and> d_timings_cnt d = length ys \<and> take (length ys) (d_timings d) = ys \<and>
     d_level d = lvl \<and> d_message d = m"

locale infrared_repeat_code =
  fixes P :: infrared_common_protocol_spec and f :: ir_decode_repeat and K :: nat
    and repeat_accepts :: "u32 list \<Rightarrow> bool"
  assumes repeat_fun: "s_decode_repeat P = Some f"
    and repeat_size: "0 < K" "K \<le> 6"
    and repeat_waits: "d_timings_cnt d < K \<Longrightarrow> f (s_params P) d = Inr (InfraredStatusOk, d)"
    and repeat_ready: "d_timings_cnt d = K \<Longrightarrow> length (d_timings d) = 6 \<Longrightarrow>
          repeat_accepts (take K (d_timings d)) \<Longrightarrow>
          f (s_params P) d = Inr (InfraredStatusReady, d\<lparr>d_timings_cnt := 0\<rparr>)"
begin

lemma repeat_step:
  assumes d: "repeat_state ys (\<not> lvl) m d" and len: "length ys < K"
  shows "Suc (length ys) < K \<Longrightarrow>
      \<exists>d'. infrared_common_decode P d lvl x = Inr (None, d') \<and> repeat_state (ys @ [x]) lvl m d'"
    and "Suc (length ys) = K \<Longrightarrow> repeat_accepts (ys @ [x]) \<Longrightarrow>
      \<exists>d'. infrared_common_decode P d lvl x = Inr (Some (m\<lparr>m_repeat := True\<rparr>), d') \<and>
        repeat_state [] lvl (m\<lparr>m_repeat := True\<rparr>) d'"
proof -
  let ?d = "d\<lparr>d_level := lvl, d_timings := (d_timings d)[length ys := x], d_timings_cnt := Suc (length ys)\<rparr>"
  note r = d [unfolded repeat_state_def]
  have six: "length ys < 6" using len repeat_size by simp
  have take: "take (Suc (length ys)) (d_timings ?d) = ys @ [x]"
    using r six by (simp add: take_Suc_conv_app_nth)
  have eq: "infrared_common_decode P d lvl x =
      bindr (infrared_common_decode_loop decode_loop_fuel P False ?d) (\<lambda>(msg, d4).
       Inr (if msg then Some (d_message d4) else None, d4))"
    using r six by (simp add: infrared_common_decode_def Let_def list_set_def sizeof_timings_def)
  have fuel: "decode_loop_fuel = Suc 15" by (simp add: decode_loop_fuel_def)
  show "\<exists>d'. infrared_common_decode P d lvl x = Inr (None, d') \<and> repeat_state (ys @ [x]) lvl m d'"
    if "Suc (length ys) < K"
  proof -
    have "f (s_params P) ?d = Inr (InfraredStatusOk, ?d)" using that by (intro repeat_waits) simp
    then have "infrared_common_decode_loop decode_loop_fuel P False ?d = Inr (False, ?d)"
      unfolding fuel infrared_common_decode_loop.simps using r
      by (simp add: repeat_fun del: infrared_common_decode_loop.simps)
    with eq take r show ?thesis by (simp add: repeat_state_def)
  qed
  show "\<exists>d'. infrared_common_decode P d lvl x = Inr (Some (m\<lparr>m_repeat := True\<rparr>), d') \<and>
      repeat_state [] lvl (m\<lparr>m_repeat := True\<rparr>) d'"
    if "Suc (length ys) = K" and "repeat_accepts (ys @ [x])"
  proof -
    have "f (s_params P) ?d = Inr (InfraredStatusReady, ?d\<lparr>d_timings_cnt := 0\<rparr>)"
      using that take r by (intro repeat_ready) simp_all
    then have "infrared_common_decode_loop decode_loop_fuel P False ?d =
        Inr (True, ?d\<lparr>d_timings_cnt := 0, d_message := m\<lparr>m_repeat := True\<rparr>\<rparr>)"
      unfolding fuel infrared_common_decode_loop.simps using r
      by (simp add: repeat_fun del: infrared_common_decode_loop.simps)
    with eq r show ?thesis by (simp add: repeat_state_def)
  qed
qed

lemma repeat_received:
  "repeat_state ys (\<not> fst (hd xs)) m d \<Longrightarrow> alternating xs \<Longrightarrow> xs \<noteq> [] \<Longrightarrow> length ys + length xs = K \<Longrightarrow>
   repeat_accepts (ys @ map snd xs) \<Longrightarrow>
   \<exists>d'. ir_feed (infrared_common_decode P) d xs = Inr ([m\<lparr>m_repeat := True\<rparr>], d') \<and>
     repeat_state [] (fst (last xs)) (m\<lparr>m_repeat := True\<rparr>) d'"
proof (induction xs arbitrary: ys d)
  case Nil
  then show ?case by simp
next
  case (Cons a xs)
  obtain lvl x where a: "a = (lvl, x)" by (cases a)
  show ?case
  proof (cases "xs = []")
    case True
    with Cons.prems a show ?thesis using repeat_step(2) [of ys lvl m d x] by auto
  next
    case False
    with Cons.prems a obtain d1 where 1: "infrared_common_decode P d lvl x = Inr (None, d1)"
      and d1: "repeat_state (ys @ [x]) lvl m d1"
      using repeat_step(1) [of ys lvl m d x] by (cases xs) auto
    have "alternating xs" "lvl = (\<not> fst (hd xs))"
      using Cons.prems(2) False a by (cases xs; cases "hd xs"; simp)+
    with Cons.IH [of "ys @ [x]" d1] d1 False Cons.prems a 1 show ?thesis by auto
  qed
qed

end

text \<open>Several frames in a row, the first with the message and the others repeats.\<close>

fun ir_encode_frames :: "('e \<Rightarrow> (infrared_status \<times> u32 \<times> bool \<times> 'e) res) \<Rightarrow> nat \<Rightarrow> 'e
    \<Rightarrow> ((bool \<times> u32) list \<times> 'e) res" where
  "ir_encode_frames f 0 e = Inr ([], e)"
| "ir_encode_frames f (Suc n) e =
     bindr (ir_encode_frame f ir_frame_fuel e) (\<lambda>(xs, e1).
     bindr (ir_encode_frames f n e1) (\<lambda>(ys, e2). Inr (xs @ ys, e2)))"

definition ir_transfer_repeated :: "('e \<Rightarrow> infrared_message \<Rightarrow> 'e res)
    \<Rightarrow> ('e \<Rightarrow> (infrared_status \<times> u32 \<times> bool \<times> 'e) res)
    \<Rightarrow> ('d \<Rightarrow> bool \<Rightarrow> u32 \<Rightarrow> (infrared_message option \<times> 'd) res)
    \<Rightarrow> nat \<Rightarrow> 'e \<Rightarrow> 'd \<Rightarrow> infrared_message \<Rightarrow> infrared_message list res" where
  "ir_transfer_repeated enc_reset enc dec n e d m =
     bindr (enc_reset e m) (\<lambda>e1.
     bindr (ir_encode_frames enc n e1) (\<lambda>(xs, e2).
     bindr (ir_feed dec d (ir_line xs)) (\<lambda>(ms, d1). Inr ms)))"

lemma alternating_append:
  "alternating xs \<Longrightarrow> alternating ys \<Longrightarrow> xs = [] \<or> ys = [] \<or> fst (last xs) \<noteq> fst (hd ys) \<Longrightarrow>
   alternating (xs @ ys)"
proof (induction xs)
  case (Cons x xs)
  then show ?case by (cases xs; cases ys) (auto simp: alternating_Cons split: if_splits)
qed auto

end
