(* ===== verification/Infrared_Pdwm.thy ===== *)
theory Infrared_Pdwm
  imports Infrared_Codec
begin

text \<open>
  Frames of the pulse-distance and pulse-width protocols. The frame of a bit sequence is a
  specification (\<open>pdwm_frame\<close>); the encoder of \<^verbatim>\<open>infrared_common_encoder.c\<close> emits exactly
  this frame for the bits of its payload, and the decoder of
  \<^verbatim>\<open>infrared_common_decoder.c\<close>, fed any signal within the tolerances (\<open>pdwm_frame_ok\<close>), has
  received exactly these bits. The two meet in the locale \<open>pdwm_codec\<close>, which the protocols
  interpret.
\<close>

section \<open>Pulse signals\<close>

text \<open>
  The nominal duration of one half of a bit, and what the decoder accepts for it: anything
  within the tolerance, for a space no longer than the pause that splits messages.
\<close>

definition pdwm_nominal :: "infrared_timings \<Rightarrow> bool \<Rightarrow> bool \<Rightarrow> u16" where
  "pdwm_nominal t lvl b =
     (if lvl then if b then bit1_mark t else bit0_mark t
      else if b then bit1_space t else bit0_space t)"

definition pdwm_accepts :: "infrared_timings \<Rightarrow> bool \<Rightarrow> bool \<Rightarrow> u32 \<Rightarrow> bool" where
  "pdwm_accepts t lvl b x \<longleftrightarrow> MATCH_TIMING x (ucast (pdwm_nominal t lvl b)) (bit_tolerance t) \<and>
     (lvl \<or> x \<le> min_split_time t)"

definition pdm :: "infrared_timings \<Rightarrow> bool" where
  "pdm t \<longleftrightarrow> bit1_mark t = bit0_mark t"

text \<open>
  A signal of the bits \<open>bs\<close>, up to the mark that ends it: the stop mark of a pulse-distance
  protocol, the mark of the last bit of a pulse-width protocol.
\<close>

fun pdwm_body_ok :: "infrared_timings \<Rightarrow> bool list \<Rightarrow> (bool \<times> u32) list \<Rightarrow> bool" where
  "pdwm_body_ok t bs [(l, x)] \<longleftrightarrow> l \<and>
     (if pdm t then bs = [] \<and> pdwm_accepts t True False x
      else length bs = 1 \<and> pdwm_accepts t True (hd bs) x)"
| "pdwm_body_ok t (b # bs) ((l1, x1) # (l2, x2) # xs) \<longleftrightarrow> l1 \<and> \<not> l2 \<and>
     pdwm_accepts t True b x1 \<and> pdwm_accepts t False b x2 \<and> pdwm_body_ok t bs xs"
| "pdwm_body_ok t bs xs \<longleftrightarrow> False"

fun pdwm_frame_ok :: "infrared_timings \<Rightarrow> bool list \<Rightarrow> (bool \<times> u32) list \<Rightarrow> bool" where
  "pdwm_frame_ok t bs ((l1, x1) # (l2, x2) # (l3, x3) # xs) \<longleftrightarrow> \<not> l1 \<and> l2 \<and> \<not> l3 \<and>
     MATCH_TIMING_F x2 (ucast (preamble_mark t)) (preamble_tolerance t) \<and>
     MATCH_TIMING_F x3 (ucast (preamble_space t)) (preamble_tolerance t) \<and> pdwm_body_ok t bs xs"
| "pdwm_frame_ok t bs xs \<longleftrightarrow> False"

text \<open>The ideal signal, which the encoder emits.\<close>

definition pdwm_dur :: "infrared_timings \<Rightarrow> bool \<Rightarrow> bool \<Rightarrow> u32" where
  "pdwm_dur t lvl b = ucast (pdwm_nominal t lvl b)"

fun pdwm_body :: "infrared_timings \<Rightarrow> bool list \<Rightarrow> (bool \<times> u32) list" where
  "pdwm_body t [] = (if pdm t then [(True, pdwm_dur t True False)] else [])"
| "pdwm_body t (b # bs) =
     (if \<not> pdm t \<and> bs = [] then [(True, pdwm_dur t True b)]
      else (True, pdwm_dur t True b) # (False, pdwm_dur t False b) # pdwm_body t bs)"

definition pdwm_preamble :: "infrared_timings \<Rightarrow> (bool \<times> u32) list" where
  "pdwm_preamble t = [(True, ucast (preamble_mark t)), (False, ucast (preamble_space t))]"

definition pdwm_frame :: "infrared_timings \<Rightarrow> bool list \<Rightarrow> (bool \<times> u32) list" where
  "pdwm_frame t bs = (False, silence_time t) # pdwm_preamble t @ pdwm_body t bs"

text \<open>
  Consistency of a table of timings: exactly one of mark and space carries the bit, every
  nominal duration is accepted, a bit is never mistaken for its opposite.
\<close>

definition windows_disjoint :: "u16 \<Rightarrow> u16 \<Rightarrow> u32 \<Rightarrow> bool" where
  "windows_disjoint v w tol \<longleftrightarrow> uint v + uint tol \<le> uint w - uint tol \<or> uint w + uint tol \<le> uint v - uint tol"

definition pdwm_timings_ok :: "infrared_timings \<Rightarrow> bool" where
  "pdwm_timings_ok t \<longleftrightarrow> min_split_time t \<noteq> 0 \<and> preamble_mark t \<noteq> 0 \<and> 0 < preamble_tolerance t \<and>
     0 < bit_tolerance t \<and>
     (\<forall>v \<in> {bit1_mark t, bit0_mark t, bit1_space t, bit0_space t}.
        bit_tolerance t \<le> ucast v \<and> uint v + uint (bit_tolerance t) < 2 ^ 32) \<and>
     ucast (bit1_space t) \<le> min_split_time t \<and> ucast (bit0_space t) \<le> min_split_time t \<and>
     (if pdm t then bit1_space t \<noteq> bit0_space t \<and> windows_disjoint (bit1_space t) (bit0_space t) (bit_tolerance t)
      else bit1_space t = bit0_space t \<and> windows_disjoint (bit1_mark t) (bit0_mark t) (bit_tolerance t))"

lemma match_timing_uint:
  assumes "tol \<le> ucast (v::u16)" and "uint v + uint tol < 2 ^ 32"
  shows "MATCH_TIMING x (ucast v) tol \<longleftrightarrow> uint x < uint v + uint tol \<and> uint v - uint tol < uint x"
proof -
  have v: "uint (ucast v :: u32) = uint v"
    by (simp add: uint_up_ucast is_up)
  from assms have "uint (ucast v + tol) = uint v + uint tol"
    using v uint_add_lem [of "ucast v :: u32" tol] by simp
  moreover from assms(1) have "uint (ucast v - tol) = uint v - uint tol"
    using v by (metis uint_sub_lem word_le_def)
  ultimately show ?thesis by (simp add: MATCH_TIMING_def word_less_def)
qed

lemma windows_disjointD:
  assumes "windows_disjoint v w tol" and "tol \<le> ucast v" "uint v + uint tol < 2 ^ 32"
    and "tol \<le> ucast w" "uint w + uint tol < 2 ^ 32"
  shows "\<not> (MATCH_TIMING x (ucast v) tol \<and> MATCH_TIMING x (ucast w) tol)"
  using assms by (auto simp: windows_disjoint_def match_timing_uint)

lemma match_timing_exact:
  "tol \<le> ucast (v::u16) \<Longrightarrow> uint v + uint tol < 2 ^ 32 \<Longrightarrow> 0 < tol \<Longrightarrow> MATCH_TIMING (ucast v) (ucast v) tol"
  by (simp add: match_timing_uint uint_up_ucast is_up word_less_def)

lemma match_timing_f_exact: "0 < tol \<Longrightarrow> MATCH_TIMING_F v v tol"
  by (simp add: MATCH_TIMING_F_def word_less_def)

section \<open>Receiving a signal\<close>

text \<open>
  A pulse-width protocol takes a bit at each mark, so it must not be fed a mark when it is
  full; a pulse-distance protocol takes a bit at each space, and the decoder refuses a
  space when the payload is full.
\<close>

definition pdwm_fed :: "infrared_common_protocol_spec \<Rightarrow> nat \<Rightarrow> bool \<Rightarrow> bool \<Rightarrow> bool" where
  "pdwm_fed P cnt sw lvl \<longleftrightarrow>
     pdm (p_timings (s_params P)) \<or> \<not> lvl \<or> cnt \<noteq> databit_len0 (s_params P)"

locale pdwm_protocol =
  fixes P :: infrared_common_protocol_spec
  assumes decode_pdwm: "s_decode P = infrared_common_decode_pdwm"
    and timings_ok: "pdwm_timings_ok (p_timings (s_params P))"
    and longest: "databit_len_found (p_databit_len (s_params P)) (databit_len0 (s_params P))"
    and short: "databit_len0 (s_params P) < 256"
    and interpret_ops: "payload_ok (s_params P) d \<Longrightarrow>
          databit_len_found (p_databit_len (s_params P)) (d_databit_cnt d) \<Longrightarrow>
          \<exists>ok d'. s_interpret P (s_params P) d = Inr (ok, d') \<and> same_frame d d' \<and>
            d_databit_cnt d' = d_databit_cnt d"
    and repeat_ops: "s_decode_repeat P = Some f \<Longrightarrow> length (d_timings d) = 6 \<Longrightarrow>
          d_timings_cnt d \<le> 6 \<Longrightarrow>
          \<exists>st d'. f (s_params P) d = Inr (st, d') \<and>
            (st = InfraredStatusOk \<and> d' = d \<and> d_timings_cnt d \<le> 5 \<or>
             st = InfraredStatusError \<and> d' = d \<or>
             st = InfraredStatusReady \<and> d' = d\<lparr>d_timings_cnt := 0\<rparr>)"
begin

abbreviation T :: infrared_timings where "T \<equiv> p_timings (s_params P)"
abbreviation len0 :: nat where "len0 \<equiv> databit_len0 (s_params P)"

lemma accumulate_step:
  assumes "payload_ok (s_params P) d" and "d_databit_cnt d < len0"
  shows "accumulate_lsb d b = Inr (d\<lparr>d_data := accumulated (d_data d) (d_databit_cnt d) b,
           d_databit_cnt := Suc (d_databit_cnt d)\<rparr>)"
  using assms bytes_for_bits_index [OF assms(2)] short
  by (simp add: accumulate_lsb_ok payload_ok_def)

lemma pdwm_decode_ok:
  assumes "payload_ok (s_params P) d" and "d_databit_cnt d \<le> len0"
    and "pdwm_fed P (d_databit_cnt d) (d_switch_detect d) lvl"
    and "\<not> lvl \<Longrightarrow> d_databit_cnt d \<noteq> len0"
  shows "\<exists>st d'. infrared_common_decode_pdwm (s_params P) d lvl timing = Inr (st, d') \<and>
     (st = InfraredStatusOk \<or> st = InfraredStatusError) \<and> same_frame d d' \<and>
     d_databit_cnt d' \<le> len0 \<and>
     (st = InfraredStatusOk \<longrightarrow> pdwm_fed P (d_databit_cnt d') (d_switch_detect d') (\<not> lvl))"
proof (cases "lvl = pdm T")
  case True
  with assms show ?thesis
    by (auto simp: infrared_common_decode_pdwm_def Let_def pdm_def pdwm_fed_def)
next
  case False
  with assms have less: "d_databit_cnt d < len0" by (auto simp: pdwm_fed_def)
  with False assms(2-) show ?thesis
    by (auto simp: infrared_common_decode_pdwm_def Let_def pdm_def pdwm_fed_def same_frame_def
        accumulate_step [OF assms(1) less])
qed

end

sublocale pdwm_protocol \<subseteq> infrared_protocol_ops P "pdwm_fed P"
proof unfold_locales
  show "min_split_time T \<noteq> 0" using timings_ok by (simp add: pdwm_timings_ok_def)
  show "databit_len_found (p_databit_len (s_params P)) len0" by (rule longest)
  show "pdwm_fed P 0 False lvl" for lvl
    using databit_len_found_pos [OF longest] by (simp add: pdwm_fed_def)
  show "s_decode_repeat P \<noteq> None \<Longrightarrow> preamble_mark T \<noteq> 0"
    using timings_ok by (simp add: pdwm_timings_ok_def)
qed (use pdwm_decode_ok interpret_ops repeat_ops in \<open>simp_all add: decode_pdwm\<close>)

context pdwm_protocol
begin

lemma nominal_bounds:
  "bit_tolerance T \<le> ucast (pdwm_nominal T lvl b)"
  "uint (pdwm_nominal T lvl b) + uint (bit_tolerance T) < 2 ^ 32"
  "pdwm_nominal T False b \<in> {bit1_space T, bit0_space T}"
  using timings_ok by (auto simp: pdwm_timings_ok_def pdwm_nominal_def)

lemma informative_disjoint:
  assumes "lvl \<noteq> pdm T" and "MATCH_TIMING x (ucast (pdwm_nominal T lvl b)) (bit_tolerance T)"
  shows "MATCH_TIMING x (ucast (pdwm_nominal T lvl True)) (bit_tolerance T) = b"
proof -
  have "windows_disjoint (pdwm_nominal T lvl True) (pdwm_nominal T lvl False) (bit_tolerance T)"
    using assms(1) timings_ok by (auto simp: pdwm_timings_ok_def pdwm_nominal_def)
  from windows_disjointD [OF this nominal_bounds(1,2) nominal_bounds(1,2), of x] assms(2)
  show ?thesis by (cases b) auto
qed

lemma early_mark: "decode_bits_early (s_params P) d True x = None"
  by (simp add: decode_bits_early_def)

lemma early_space:
  "pdwm_accepts T False b x \<Longrightarrow> d_databit_cnt d \<noteq> len0 \<Longrightarrow> decode_bits_early (s_params P) d False x = None"
  by (auto simp: decode_bits_early_def pdwm_accepts_def)

lemma informative_step:
  assumes "receiving P bs (\<not> lvl) d" and info: "lvl \<noteq> pdm T" and less: "length bs < len0"
    and x: "pdwm_accepts T lvl b x"
  shows "\<exists>d'. infrared_common_decode P d lvl x = Inr (None, d') \<and> receiving P (bs @ [b]) lvl d'"
proof -
  let ?s = "stored d lvl x" and ?n = "length bs"
  let ?d1 = "?s\<lparr>d_data := accumulated (d_data d) ?n b, d_databit_cnt := Suc ?n\<rparr>"
  note d = assms(1) [unfolded receiving_def]
  have idx: "?n div 8 < length (d_data d)"
    using d less bytes_for_bits_index [of ?n len0] by (simp add: payload_ok_def)
  have early: "decode_bits_early (s_params P) ?s lvl x = None"
    using x d less by (cases lvl) (simp_all add: early_mark early_space)
  have m: "MATCH_TIMING x (ucast (pdwm_nominal T lvl b)) (bit_tolerance T)"
    using x by (simp add: pdwm_accepts_def)
  have "accumulate_lsb ?s b = Inr ?d1"
    using accumulate_step [of ?s b] d less by (simp add: payload_ok_def)
  then have "infrared_common_decode_pdwm (s_params P) ?s lvl x = Inr (InfraredStatusOk, ?d1)"
    using info informative_disjoint [OF info m] m
    by (cases b; cases lvl) (auto simp: infrared_common_decode_pdwm_def Let_def pdm_def pdwm_nominal_def)
  then have "infrared_common_decode P d lvl x = Inr (None, ?d1\<lparr>d_timings_cnt := 0\<rparr>)"
    using d early split_time less by (intro common_decode_ok_step) (auto simp: decode_pdwm)
  moreover have "receiving P (bs @ [b]) lvl (?d1\<lparr>d_timings_cnt := 0\<rparr>)"
    using d data_bits_accumulated [OF idx] data_clean_accumulated [OF idx]
    by (simp add: receiving_def payload_ok_def)
  ultimately show ?thesis by blast
qed

lemma blank_step:
  assumes "receiving P bs (\<not> lvl) d" and info: "lvl = pdm T" and le: "length bs \<le> len0"
    and space: "\<not> lvl \<Longrightarrow> length bs < len0" and x: "pdwm_accepts T lvl b x"
  shows "\<exists>d'. infrared_common_decode P d lvl x = Inr (None, d') \<and> receiving P bs lvl d'"
proof -
  let ?s = "stored d lvl x"
  note d = assms(1) [unfolded receiving_def]
  have early: "decode_bits_early (s_params P) ?s lvl x = None"
    using x d space by (cases lvl) (simp_all add: early_mark early_space)
  have "infrared_common_decode_pdwm (s_params P) ?s lvl x = Inr (InfraredStatusOk, ?s)"
    using info x timings_ok by (cases b) (auto simp: infrared_common_decode_pdwm_def Let_def pdm_def
        pdwm_nominal_def pdwm_accepts_def pdwm_timings_ok_def)
  then have "infrared_common_decode P d lvl x = Inr (None, ?s\<lparr>d_timings_cnt := 0\<rparr>)"
    using d early split_time le by (intro common_decode_ok_step) (auto simp: decode_pdwm)
  moreover have "receiving P bs lvl (?s\<lparr>d_timings_cnt := 0\<rparr>)"
    using d by (simp add: receiving_def payload_ok_def)
  ultimately show ?thesis by blast
qed

lemma bit_step:
  assumes "receiving P bs False d" and "length bs < len0" and "\<not> pdm T \<Longrightarrow> Suc (length bs) < len0"
    and "pdwm_accepts T True b x1" and "pdwm_accepts T False b x2"
  shows "\<exists>d'. ir_feed (infrared_common_decode P) d [(True, x1), (False, x2)] = Inr ([], d') \<and>
     receiving P (bs @ [b]) False d'"
proof (cases "pdm T")
  case True
  with assms obtain d1 where 1: "infrared_common_decode P d True x1 = Inr (None, d1)" "receiving P bs True d1"
    using blank_step [of bs True d b x1] by auto
  with True assms obtain d2 where "infrared_common_decode P d1 False x2 = Inr (None, d2)"
    "receiving P (bs @ [b]) False d2"
    using informative_step [of bs False d1 b x2] by auto
  with 1 show ?thesis by simp
next
  case False
  with assms obtain d1 where 1: "infrared_common_decode P d True x1 = Inr (None, d1)"
    "receiving P (bs @ [b]) True d1"
    using informative_step [of bs True d b x1] by auto
  with False assms obtain d2 where "infrared_common_decode P d1 False x2 = Inr (None, d2)"
    "receiving P (bs @ [b]) False d2"
    using blank_step [of "bs @ [b]" False d1 b x2] by auto
  with 1 show ?thesis by simp
qed

lemma body_received:
  "pdwm_body_ok t bs xs \<Longrightarrow> t = T \<Longrightarrow> receiving P as False d \<Longrightarrow> length as + length bs \<le> len0 \<Longrightarrow>
   \<exists>d'. ir_feed (infrared_common_decode P) d xs = Inr ([], d') \<and> receiving P (as @ bs) True d'"
proof (induction t bs xs arbitrary: as d rule: pdwm_body_ok.induct)
  case (1 t bs l x)
  show ?case
  proof (cases "pdm T")
    case True
    with 1 show ?thesis using blank_step [of as True d False x] by auto
  next
    case False
    with 1 obtain b where "bs = [b]" by (auto simp: length_Suc_conv)
    with False 1 show ?thesis using informative_step [of as True d b x] by auto
  qed
next
  case (2 t b bs l1 x1 l2 x2 xs)
  then have l: "l1" "\<not> l2" and acc: "pdwm_accepts T True b x1" "pdwm_accepts T False b x2"
    and rest: "pdwm_body_ok T bs xs" by auto
  have "\<not> pdm T \<Longrightarrow> bs \<noteq> []"
    using rest by (cases "(T, bs, xs)" rule: pdwm_body_ok.cases) auto
  with 2(4,5) acc obtain d1 where
    1: "ir_feed (infrared_common_decode P) d [(True, x1), (False, x2)] = Inr ([], d1)"
    and d1: "receiving P (as @ [b]) False d1"
    using bit_step [of as d b x1 x2] by (cases bs) auto
  from "2.IH" [OF _ _ d1] rest "2.prems" obtain d2 where
    "ir_feed (infrared_common_decode P) d1 xs = Inr ([], d2)" "receiving P (as @ b # bs) True d2" by auto
  with 1 l show ?case
    using ir_feed_append [of "infrared_common_decode P" d "[(True, x1), (False, x2)]" xs] by auto
qed simp_all

text \<open>The pause before a frame is dropped, whatever came before it.\<close>

lemma pause_dropped:
  assumes "decoder_idle P d"
  shows "\<exists>d'. infrared_common_decode P d False x = Inr (None, d') \<and> decoder_idle P d' \<and> \<not> d_level d'"
proof -
  have nz: "preamble_mark T \<noteq> 0" using timings_ok by (simp add: pdwm_timings_ok_def)
  have loop: "\<exists>d'. infrared_common_decode_loop decode_loop_fuel P False (stored d0 False x) = Inr (False, d') \<and>
      decoder_idle P d' \<and> \<not> d_level d'" if "decoder_idle P d0" for d0
  proof -
    let ?s = "stored d0 False x"
    have "infrared_check_preamble (s_params P) ?s = Inr (False, ?s\<lparr>d_timings_cnt := 0\<rparr>)"
      using nz consume_timings_all [of ?s 1]
      by (simp add: infrared_check_preamble_def check_preamble_loop.simps)
    from loop_wait_not_found [OF _ this] that show ?thesis
      by (simp add: decoder_idle_def payload_ok_def)
  qed
  define d0 where "d0 = (if d_level d then d else d\<lparr>d_state := InfraredCommonDecoderStateWaitPreamble,
      d_databit_cnt := 0, d_switch_detect := False,
      d_message := (d_message d)\<lparr>m_protocol := InfraredProtocolUnknown\<rparr>, d_timings_cnt := 0\<rparr>)"
  have d0: "decoder_idle P d0" using assms by (simp add: d0_def decoder_idle_def payload_ok_def)
  have "(if d_level d = False then infrared_common_decoder_reset P d else Inr d) = Inr d0"
    using nz by (simp add: d0_def infrared_common_decoder_reset_def infrared_common_decoder_reset_state_def Let_def)
  then have "infrared_common_decode P d False x =
      bindr (infrared_common_decode_loop decode_loop_fuel P False (stored d0 False x)) (\<lambda>(msg, d4).
        Inr (if msg then Some (d_message d4) else None, d4))"
    using d0 by (simp add: infrared_common_decode_def Let_def list_set_def sizeof_timings_def stored_def decoder_idle_def)
  with loop [OF d0] show ?thesis by auto
qed

lemma preamble_received:
  assumes idle: "decoder_idle P d" and lvl: "\<not> d_level d"
    and m: "MATCH_TIMING_F x2 (ucast (preamble_mark T)) (preamble_tolerance T)"
    and s: "MATCH_TIMING_F x3 (ucast (preamble_space T)) (preamble_tolerance T)"
  shows "\<exists>d'. ir_feed (infrared_common_decode P) d [(True, x2), (False, x3)] = Inr ([], d') \<and>
     receiving P [] False d'"
proof -
  have nz: "preamble_mark T \<noteq> 0" using timings_ok by (simp add: pdwm_timings_ok_def)
  note d = idle [unfolded decoder_idle_def]
  let ?d1 = "stored d True x2"
  have 1: "infrared_common_decode P d True x2 = Inr (None, ?d1)"
    using d nz lvl common_decode_stored [of d True P x2] loop_wait_not_found [of ?d1 P ?d1 False]
    by (simp add: infrared_check_preamble_def check_preamble_loop.simps)
  let ?d2 = "?d1\<lparr>d_level := False, d_timings := (d_timings d)[0 := x2, 1 := x3], d_timings_cnt := 2\<rparr>"
  have cons: "consume_timings 2 ?d2 = Inr (?d2\<lparr>d_timings_cnt := 0\<rparr>)"
    by (rule consume_timings_all) simp
  let ?d3 = "?d2\<lparr>d_timings_cnt := 0, d_state := InfraredCommonDecoderStateDecode, d_databit_cnt := 0,
      d_switch_detect := False\<rparr>"
  have pre: "infrared_check_preamble (s_params P) ?d2 = Inr (True, ?d2\<lparr>d_timings_cnt := 0\<rparr>)"
    using d nz m s cons
    by (subst infrared_check_preamble_def, subst check_preamble_loop.simps)
       (simp add: oldest_level_def list_get_def)
  have "infrared_common_decode_loop decode_loop_fuel P False ?d2 = Inr (False, ?d3)"
    using d loop_wait_found [OF _ pre] by simp
  then have "infrared_common_decode P ?d1 False x3 = Inr (None, ?d3)"
    using d by (simp add: infrared_common_decode_def Let_def list_set_def sizeof_timings_def eval_nat_numeral)
  moreover have "receiving P [] False ?d3"
    using d by (simp add: receiving_def payload_ok_def)
  ultimately show ?thesis using 1 by simp
qed

text \<open>A mark and a space that are no preamble leave the decoder waiting, and report nothing.\<close>

lemma mark_kept:
  assumes d: "decoder_idle P d" "\<not> d_level d"
  shows "infrared_common_decode P d True x = Inr (None, stored d True x)"
proof -
  have "preamble_mark T \<noteq> 0" using timings_ok by (simp add: pdwm_timings_ok_def)
  then show ?thesis
    using d common_decode_stored [of d True P x] loop_wait_not_found [of "stored d True x" P "stored d True x" False]
    by (simp add: decoder_idle_def infrared_check_preamble_def check_preamble_loop.simps)
qed

lemma pair_missed:
  assumes d: "decoder_idle P d" "\<not> d_level d"
    and no: "\<not> (MATCH_TIMING_F x (ucast (preamble_mark T)) (preamble_tolerance T) \<and>
      MATCH_TIMING_F y (ucast (preamble_space T)) (preamble_tolerance T))"
  shows "\<exists>d'. ir_feed (infrared_common_decode P) d [(True, x), (False, y)] = Inr ([], d') \<and>
     decoder_idle P d' \<and> \<not> d_level d'"
proof -
  have nz: "preamble_mark T \<noteq> 0" using timings_ok by (simp add: pdwm_timings_ok_def)
  note r = d(1) [unfolded decoder_idle_def]
  let ?d1 = "stored d True x"
  let ?d2 = "?d1\<lparr>d_level := False, d_timings := (d_timings d)[0 := x, 1 := y], d_timings_cnt := 2\<rparr>"
  let ?d3 = "?d2\<lparr>d_timings_cnt := 0\<rparr>"
  have cons: "consume_timings 2 ?d2 = Inr ?d3" by (rule consume_timings_all) simp
  have "check_preamble_loop T ?d3 = Inr (False, ?d3)" by (subst check_preamble_loop.simps) simp
  then have "infrared_check_preamble (s_params P) ?d2 = Inr (False, ?d3)"
    using r nz no cons
    by (subst infrared_check_preamble_def, subst check_preamble_loop.simps)
       (simp add: oldest_level_def list_get_def)
  then have "infrared_common_decode_loop decode_loop_fuel P False ?d2 = Inr (False, ?d3)"
    using r by (intro loop_wait_not_found) simp_all
  then have "infrared_common_decode P ?d1 False y = Inr (None, ?d3)"
    using r by (simp add: infrared_common_decode_def Let_def list_set_def sizeof_timings_def eval_nat_numeral)
  moreover have "decoder_idle P ?d3" using r by (simp add: decoder_idle_def payload_ok_def)
  ultimately show ?thesis using mark_kept [OF d, of x] by simp
qed

text \<open>A frame of the largest length that is followed by too short a pause is dropped.\<close>

lemma short_pause_drops:
  assumes d: "receiving P bs True d" and len: "length bs = len0" and x: "x \<le> min_split_time T"
    and split: "min_split_time T \<noteq> 0"
  shows "\<exists>d'. infrared_common_decode P d False x = Inr (None, d') \<and> decoder_idle P d' \<and> \<not> d_level d'"
proof -
  have nz: "preamble_mark T \<noteq> 0" using timings_ok by (simp add: pdwm_timings_ok_def)
  note r = d [unfolded receiving_def]
  let ?s = "stored d False x"
  let ?w = "?s\<lparr>d_state := InfraredCommonDecoderStateWaitPreamble, d_databit_cnt := 0, d_switch_detect := False,
     d_message := (d_message ?s)\<lparr>m_protocol := InfraredProtocolUnknown\<rparr>\<rparr>"
  have bits: "infrared_common_decode_bits (Suc (Suc 0)) P ?s = Inr (InfraredStatusError, ?s)"
    using r leD [OF x] split len by (simp add: Let_def decode_bits_early_def list_get_def)
  have pre: "infrared_check_preamble (s_params P) ?w = Inr (False, ?w\<lparr>d_timings_cnt := 0\<rparr>)"
    using r nz consume_timings_all [of ?w 1]
    by (simp add: infrared_check_preamble_def check_preamble_loop.simps oldest_level_def)
  have fuel: "decode_loop_fuel = Suc (Suc 14)" by (simp add: decode_loop_fuel_def)
  have "infrared_common_decode_loop decode_loop_fuel P False ?s = Inr (False, ?w\<lparr>d_timings_cnt := 0\<rparr>)"
    unfolding fuel infrared_common_decode_loop.simps
    using r nz bits pre
    by (simp add: infrared_common_decoder_reset_state_def Let_def
        del: infrared_common_decode_bits.simps infrared_common_decode_loop.simps)
  then show ?thesis
    using r common_decode_stored [of d False P x] by (simp add: decoder_idle_def payload_ok_def)
qed

text \<open>A signal within the tolerances is received as its bits, and no message is reported early.\<close>

lemma frame_received_idle:
  assumes d: "decoder_idle P d" "\<not> d_level d" and "pdwm_frame_ok T bs xs" and "length bs \<le> len0"
  shows "\<exists>d'. ir_feed (infrared_common_decode P) d (tl xs) = Inr ([], d') \<and> receiving P bs True d'"
proof -
  from assms(3) obtain x1 x2 x3 ys where xs: "xs = (False, x1) # (True, x2) # (False, x3) # ys"
    and m: "MATCH_TIMING_F x2 (ucast (preamble_mark T)) (preamble_tolerance T)"
      "MATCH_TIMING_F x3 (ucast (preamble_space T)) (preamble_tolerance T)"
    and body: "pdwm_body_ok T bs ys"
    by (cases "(T, bs, xs)" rule: pdwm_frame_ok.cases) auto
  from preamble_received [OF d m] obtain d2 where
    2: "ir_feed (infrared_common_decode P) d [(True, x2), (False, x3)] = Inr ([], d2)"
    and d2: "receiving P [] False d2" by blast
  from body_received [OF body refl d2] assms(4) obtain d3 where
    3: "ir_feed (infrared_common_decode P) d2 ys = Inr ([], d3)" and d3: "receiving P bs True d3" by auto
  from 2 3 d3 show ?thesis
    using ir_feed_append [of "infrared_common_decode P" d "[(True, x2), (False, x3)]" ys]
    by (auto simp: xs)
qed

lemma frame_received:
  assumes "decoder_idle P d" and "pdwm_frame_ok T bs xs" and "length bs \<le> len0"
  shows "\<exists>d'. ir_feed (infrared_common_decode P) d xs = Inr ([], d') \<and> receiving P bs True d'"
proof -
  from assms(2) obtain x1 where xs: "xs = (False, x1) # tl xs"
    by (cases "(T, bs, xs)" rule: pdwm_frame_ok.cases) auto
  from pause_dropped [OF assms(1), of x1] obtain d1 where
    1: "infrared_common_decode P d False x1 = Inr (None, d1)" and d1: "decoder_idle P d1" "\<not> d_level d1" by blast
  with frame_received_idle [OF d1 assms(2,3)] show ?thesis by (subst xs) auto
qed

end

section \<open>Emitting a frame\<close>

locale pdwm_encoder = pdwm_protocol +
  assumes encode_pdwm: "s_encode P = infrared_common_encode_pdwm"
begin

lemma encode_in_state:
  "e_state e = InfraredCommonEncoderStateEncode \<Longrightarrow> infrared_common_encode P e = encode_case_encode P e"
  by (simp add: infrared_common_encode_def Let_def)

lemma pwm_iff: "(bit1_space T = bit0_space T) = (\<not> pdm T)"
  using timings_ok by (auto simp: pdwm_timings_ok_def split: if_splits)

lemma encode_mark:
  assumes e: "encoding n data k s e" and n: "n < 128" "n div 8 < length data" "k \<le> n"
    and more: "if pdm T then k < n else Suc k < n"
  shows "infrared_common_encode P e = Inr (InfraredStatusOk, pdwm_dur T True (byte_bit data k), True,
     e\<lparr>e_bits_encoded := (if pdm T then k else Suc k), e_timings_encoded := 4 + 2 * k,
       e_timings_sum := s + pdwm_dur T True (byte_bit data k)\<rparr>)"
proof -
  have "k div 8 < length data" using n by (meson div_le_mono le_less_trans)
  with e n more show ?thesis
    by (auto simp: encode_in_state encoding_def encode_case_encode_def infrared_common_encode_bits_def
        encode_pdwm infrared_common_encode_pdwm_def encoder_logic_value_bit pwm_iff Let_def
        pdwm_dur_def pdwm_nominal_def)
qed

lemma encode_space:
  assumes e: "encoding n data k s e" and n: "n < 128" "n div 8 < length data" "k < n" "\<not> pdm T \<Longrightarrow> Suc k < n"
  shows "infrared_common_encode P (e\<lparr>e_bits_encoded := (if pdm T then k else Suc k),
       e_timings_encoded := 4 + 2 * k, e_timings_sum := s'\<rparr>) =
     Inr (InfraredStatusOk, pdwm_dur T False (byte_bit data k), False,
     e\<lparr>e_bits_encoded := Suc k, e_timings_encoded := 5 + 2 * k,
       e_timings_sum := s' + pdwm_dur T False (byte_bit data k)\<rparr>)"
proof -
  have "k div 8 < length data" "Suc k div 8 < length data"
    using n by (meson Suc_leI div_le_mono le_less_trans less_imp_le)+
  with e n show ?thesis
    using pwm_iff
    by (auto simp: encode_in_state encoding_def encode_case_encode_def infrared_common_encode_bits_def
        encode_pdwm infrared_common_encode_pdwm_def encoder_logic_value_bit Let_def
        pdwm_dur_def pdwm_nominal_def)
qed

lemma encode_last:
  assumes e: "encoding n data k s e" and n: "n < 128" "n div 8 < length data"
    and last: "if pdm T then k = n else Suc k = n"
    and b: "pdm T \<or> b = byte_bit data k"
  shows "\<exists>e'. infrared_common_encode P e = Inr (InfraredStatusDone, pdwm_dur T True b, True, e') \<and>
     frame_sent P n data (4 + 2 * k) (s + pdwm_dur T True b) e'"
proof -
  have "k \<le> n" using last by (auto split: if_splits)
  then have "k div 8 < length data" using n by (meson div_le_mono le_less_trans)
  with e n last b show ?thesis
    using pwm_iff
    by (cases "pdm T")
       (auto simp: encode_in_state encoding_def encode_case_encode_def infrared_common_encode_bits_def
        encode_pdwm infrared_common_encode_pdwm_def encoder_logic_value_bit Let_def
        pdwm_dur_def pdwm_nominal_def frame_sent_def pdm_def)
qed

lemma body_sent:
  assumes "n < 128" and "n div 8 < length data"
  shows "encoding n data k s e \<Longrightarrow> k \<le> n \<Longrightarrow> bs = drop k (data_bits data n) \<Longrightarrow> pdm T \<or> bs \<noteq> [] \<Longrightarrow>
    \<exists>e'. ir_encode_frame (infrared_common_encode P) (Suc (2 * length bs)) e = Inr (pdwm_body T bs, e') \<and>
      frame_sent P n data (2 * n + (if pdm T then 4 else 2)) (s + line_time (pdwm_body T bs)) e'"
proof (induction bs arbitrary: k s e)
  case Nil
  then have "k = n" and "pdm T" by auto
  with encode_last [OF Nil.prems(1) assms, of False] show ?case by (auto simp: add.commute)
next
  case (Cons b bs)
  from Cons.prems(3) have "k < n" by (metis drop_all length_data_bits linorder_not_less list.distinct(1))
  then have "b # bs = byte_bit data k # drop (Suc k) (data_bits data n)"
    using Cons.prems(3) by (simp add: drop_data_bits)
  then have b: "b = byte_bit data k" and bs: "bs = drop (Suc k) (data_bits data n)" by simp_all
  show ?case
  proof (cases "\<not> pdm T \<and> bs = []")
    case True
    with bs \<open>k < n\<close> have last: "Suc k = n" by simp
    then have cnt: "4 + 2 * k = 2 * n + 2" by simp
    from True last encode_last [OF Cons.prems(1) assms, of b] b obtain e' where
      "infrared_common_encode P e = Inr (InfraredStatusDone, pdwm_dur T True b, True, e')"
      "frame_sent P n data (2 * n + 2) (s + pdwm_dur T True b) e'"
      unfolding cnt by auto
    with True show ?thesis by (simp add: eval_nat_numeral)
  next
    case False
    have more: "\<not> pdm T \<Longrightarrow> Suc k < n" using False bs by (metis drop_all length_data_bits linorder_not_less)
    let ?m = "pdwm_dur T True b" and ?s = "pdwm_dur T False b"
    let ?e = "e\<lparr>e_bits_encoded := Suc k, e_timings_encoded := 5 + 2 * k, e_timings_sum := s + ?m + ?s\<rparr>"
    have "encoding n data (Suc k) (s + ?m + ?s) ?e" using Cons.prems(1) by (simp add: encoding_def)
    from Cons.IH [OF this _ bs] False \<open>k < n\<close> obtain e' where
      rec: "ir_encode_frame (infrared_common_encode P) (Suc (2 * length bs)) ?e = Inr (pdwm_body T bs, e')"
      and sent: "frame_sent P n data (2 * n + (if pdm T then 4 else 2)) (s + ?m + ?s + line_time (pdwm_body T bs)) e'"
      by auto
    have "Suc (2 * length (b # bs)) = Suc (Suc (Suc (2 * length bs)))" by simp
    with False rec show ?thesis
      using encode_mark [OF Cons.prems(1) assms Cons.prems(2)] \<open>k < n\<close> more b
        encode_space [OF Cons.prems(1) assms \<open>k < n\<close> more, of "s + ?m"] sent
      by (auto simp: add.assoc simp del: ir_encode_frame.simps(1))
  qed
qed

lemma preamble_sent:
  assumes e: "after_pause n data e"
  obtains e1 e2 where
    "infrared_common_encode P e = Inr (InfraredStatusOk, ucast (preamble_mark T), True, e1)"
    and "infrared_common_encode P e1 = Inr (InfraredStatusOk, ucast (preamble_space T), False, e2)"
    and "encoding n data 0 (line_time (pdwm_preamble T)) e2"
proof -
  have nz: "preamble_mark T \<noteq> 0" using timings_ok by (simp add: pdwm_timings_ok_def)
  let ?m = "ucast (preamble_mark T) :: u32" and ?s = "ucast (preamble_space T) :: u32"
  let ?e1 = "e\<lparr>e_timings_encoded := 2, e_timings_sum := ?m\<rparr>"
  let ?e2 = "?e1\<lparr>e_state := InfraredCommonEncoderStateEncode, e_timings_encoded := 3, e_timings_sum := ?m + ?s\<rparr>"
  have "infrared_common_encode P e = Inr (InfraredStatusOk, ?m, True, ?e1)"
    using nz e by (simp add: infrared_common_encode_def after_pause_def Let_def inc32_def del: inc32_small)
  moreover have "infrared_common_encode P ?e1 = Inr (InfraredStatusOk, ?s, False, ?e2)"
    using nz e by (simp add: infrared_common_encode_def after_pause_def Let_def inc32_def del: inc32_small)
  moreover have "encoding n data 0 (line_time (pdwm_preamble T)) ?e2"
    using e by (simp add: encoding_def after_pause_def pdwm_preamble_def)
  ultimately show thesis by (rule that)
qed

lemma frame_after_pause:
  assumes e: "after_pause n data e" and n: "n < 128" "n div 8 < length data" and pos: "pdm T \<or> 0 < n"
  shows "\<exists>e'. ir_encode_frame (infrared_common_encode P) (3 + 2 * n) e =
       Inr (tl (pdwm_frame T (data_bits data n)), e') \<and>
     frame_sent P n data (2 * n + (if pdm T then 4 else 2))
       (line_time (tl (pdwm_frame T (data_bits data n)))) e'"
proof -
  from preamble_sent [OF e] obtain e1 e2 where
    1: "infrared_common_encode P e = Inr (InfraredStatusOk, ucast (preamble_mark T), True, e1)"
    and 2: "infrared_common_encode P e1 = Inr (InfraredStatusOk, ucast (preamble_space T), False, e2)"
    and e2: "encoding n data 0 (line_time (pdwm_preamble T)) e2" .
  have "pdm T \<or> data_bits data n \<noteq> []"
    using pos by (metis length_data_bits length_greater_0_conv)
  then obtain e' where
    body: "ir_encode_frame (infrared_common_encode P) (Suc (2 * n)) e2 = Inr (pdwm_body T (data_bits data n), e')"
    and sent: "frame_sent P n data (2 * n + (if pdm T then 4 else 2))
       (line_time (pdwm_preamble T) + line_time (pdwm_body T (data_bits data n))) e'"
    using body_sent [OF n e2, of "data_bits data n"] by auto
  have three: "3 + 2 * n = Suc (Suc (Suc (2 * n)))" by simp
  have "ir_encode_frame (infrared_common_encode P) (3 + 2 * n) e =
      Inr (tl (pdwm_frame T (data_bits data n)), e')"
    unfolding three using 1 2 body by (simp add: pdwm_frame_def pdwm_preamble_def)
  with sent show ?thesis by (auto simp: pdwm_frame_def)
qed

lemma frame_emitted:
  assumes e: "encoder_ready n data e" and n: "n < 128" "n div 8 < length data" and pos: "pdm T \<or> 0 < n"
  shows "\<exists>e'. ir_encode_frame (infrared_common_encode P) (4 + 2 * n) e =
       Inr (pdwm_frame T (data_bits data n), e') \<and>
     frame_sent P n data (2 * n + (if pdm T then 4 else 2))
       (line_time (tl (pdwm_frame T (data_bits data n)))) e'"
proof -
  let ?e1 = "e\<lparr>e_state := InfraredCommonEncoderStatePreamble, e_timings_encoded := 1, e_timings_sum := 0\<rparr>"
  have 1: "infrared_common_encode P e = Inr (InfraredStatusOk, silence_time T, False, ?e1)"
    using e by (simp add: infrared_common_encode_def encoder_ready_def Let_def inc32_def del: inc32_small)
  have "after_pause n data ?e1" using e by (simp add: after_pause_def encoder_ready_def)
  from frame_after_pause [OF this n pos] obtain e' where
    rest: "ir_encode_frame (infrared_common_encode P) (3 + 2 * n) ?e1 = Inr (tl (pdwm_frame T (data_bits data n)), e')"
    and sent: "frame_sent P n data (2 * n + (if pdm T then 4 else 2))
       (line_time (tl (pdwm_frame T (data_bits data n)))) e'" by blast
  have four: "4 + 2 * n = Suc (3 + 2 * n)" by simp
  have "ir_encode_frame (infrared_common_encode P) (4 + 2 * n) e =
      Inr (pdwm_frame T (data_bits data n), e')"
    unfolding four ir_encode_frame.simps(2) 1 using rest by (simp add: pdwm_frame_def)
  with sent show ?thesis by blast
qed

lemma accepts_nominal: "pdwm_accepts T lvl b (pdwm_dur T lvl b)"
proof -
  have "0 < bit_tolerance T" "ucast (bit1_space T) \<le> min_split_time T" "ucast (bit0_space T) \<le> min_split_time T"
    using timings_ok by (auto simp: pdwm_timings_ok_def)
  then show ?thesis
    using nominal_bounds match_timing_exact [OF nominal_bounds(1,2)]
    by (auto simp: pdwm_accepts_def pdwm_dur_def pdwm_nominal_def)
qed

lemma body_ok: "pdm T \<or> bs \<noteq> [] \<Longrightarrow> pdwm_body_ok T bs (pdwm_body T bs)"
  by (induction bs) (auto simp: accepts_nominal)

lemma frame_ok: "pdm T \<or> bs \<noteq> [] \<Longrightarrow> pdwm_frame_ok T bs (pdwm_frame T bs)"
  using body_ok timings_ok
  by (simp add: pdwm_frame_def pdwm_preamble_def match_timing_f_exact pdwm_timings_ok_def)

end

lemma pdwm_body_alternating:
  "alternating (pdwm_body t bs) \<and> (pdwm_body t bs \<noteq> [] \<longrightarrow> fst (hd (pdwm_body t bs)))"
proof (induction bs)
  case (Cons b bs)
  then show ?case by (cases "pdwm_body t bs") auto
qed simp

lemma pdwm_frame_alternating: "alternating (pdwm_frame t bs)"
  using pdwm_body_alternating [of t bs]
  by (cases "pdwm_body t bs") (auto simp: pdwm_frame_def pdwm_preamble_def)

section \<open>A message through encoder, line and decoder\<close>

locale pdwm_codec = pdwm_encoder + infrared_codec +
  assumes repeat_first: "s_decode_repeat P = Some f \<Longrightarrow> d_timings_cnt d = 1 \<Longrightarrow>
      f (s_params P) d = Inr (InfraredStatusOk, d)"
begin

text \<open>Any signal of the encoded bits within the tolerances is read back as the message.\<close>

lemma signal_understood:
  assumes m: "canon m" "encoder_alloc_ok P e" "reset e m = Inr e'" and d: "decoder_idle P d"
    and sig: "pdwm_frame_ok T (data_bits (e_data e') (len_of m)) xs"
  shows "\<exists>d1 d2. ir_feed (infrared_common_decode P) d xs = Inr ([], d1) \<and> common_ready P d1 = Inr (Some m, d2)"
proof -
  from frame_received [OF d sig] len_le [OF m(1)] obtain d1 where
    "ir_feed (infrared_common_decode P) d xs = Inr ([], d1)"
    and "receiving P (data_bits (e_data e') (len_of m)) True d1" by auto
  with ready_message [OF m] show ?thesis by blast
qed

lemma message_emitted:
  assumes m: "canon m" "encoder_alloc_ok P e" "reset e m = Inr e'"
  shows "\<exists>e''. ir_encode_frame (infrared_common_encode P) ir_frame_fuel e' =
       Inr (pdwm_frame T (data_bits (e_data e') (len_of m)), e'') \<and>
     frame_sent P (len_of m) (e_data e') (2 * len_of m + (if pdm T then 4 else 2))
       (line_time (tl (pdwm_frame T (data_bits (e_data e') (len_of m))))) e''"
proof -
  from packed [OF m(1,2)] m(3) have ready: "encoder_ready (len_of m) (e_data e') e'"
    and alloc: "encoder_alloc_ok P e'" by (auto simp: packs_def)
  have le: "len_of m \<le> 62" using len_le [OF m(1)] len0_le by simp
  have "0 < len_of m" using len_found [OF m(1)] by (rule databit_len_found_pos)
  with frame_emitted [OF ready] le payload_index [OF m(1) alloc]
  obtain e'' where "ir_encode_frame (infrared_common_encode P) (4 + 2 * len_of m) e' =
       Inr (pdwm_frame T (data_bits (e_data e') (len_of m)), e'')"
    and sent: "frame_sent P (len_of m) (e_data e') (2 * len_of m + (if pdm T then 4 else 2))
       (line_time (tl (pdwm_frame T (data_bits (e_data e') (len_of m))))) e''" by auto
  with ir_encode_frame_more_fuel [of _ "4 + 2 * len_of m" e' _ ir_frame_fuel] le sent
  show ?thesis by (auto simp: ir_frame_fuel_def)
qed

lemma transfer_ok:
  assumes m: "canon m" "encoder_alloc_ok P e" and d: "decoder_idle P d"
  shows "ir_transfer reset (infrared_common_encode P) (infrared_common_decode P) (common_ready P) e d m =
     Inr ([], Some m)"
proof -
  from packed [OF m] obtain e' where r: "reset e m = Inr e'" by blast
  from message_emitted [OF m r] obtain e'' where
    enc: "ir_encode_frame (infrared_common_encode P) ir_frame_fuel e' =
       Inr (pdwm_frame T (data_bits (e_data e') (len_of m)), e'')" by blast
  have "data_bits (e_data e') (len_of m) \<noteq> []"
    using databit_len_found_pos [OF len_found [OF m(1)]] by (metis length_data_bits length_greater_0_conv)
  then have "pdwm_frame_ok T (data_bits (e_data e') (len_of m)) (pdwm_frame T (data_bits (e_data e') (len_of m)))"
    by (simp add: frame_ok)
  from signal_understood [OF m r d this] obtain d1 d2 where
    "ir_feed (infrared_common_decode P) d (pdwm_frame T (data_bits (e_data e') (len_of m))) = Inr ([], d1)"
    "common_ready P d1 = Inr (Some m, d2)" by blast
  with r enc show ?thesis
    by (simp add: ir_transfer_def ir_line_alternating pdwm_frame_alternating)
qed

text \<open>
  A pause that is long enough ends the message: it is reported, and the pause is kept as the
  first timing of a repeat, or dropped when the protocol has no repeats.
\<close>

lemma pause_reports:
  assumes m: "canon m" "encoder_alloc_ok P e" "reset e m = Inr e'"
    and d: "receiving P (data_bits (e_data e') (len_of m)) True d"
    and x: "min_split_time T < x"
  shows "\<exists>d'. infrared_common_decode P d False x = Inr (Some m, d') \<and>
     (if s_decode_repeat P \<noteq> None
      then d_state d' = InfraredCommonDecoderStateProcessRepeat \<and> d_message d' = m \<and>
           d_timings d' = (d_timings d)[0 := x] \<and> d_timings_cnt d' = 1 \<and> \<not> d_level d'
      else decoder_idle P d' \<and> \<not> d_level d')"
proof -
  note r = d [unfolded receiving_def]
  let ?s = "stored d False x"
  have found: "databit_len_found (p_databit_len (s_params P)) (d_databit_cnt ?s)"
    using len_found [OF m(1)] r by simp
  have pay: "payload_ok (s_params P) ?s" using r by (simp add: payload_ok_def)
  have nz: "preamble_mark T \<noteq> 0" using timings_ok by (simp add: pdwm_timings_ok_def)
  from packed [OF m(1,2)] m(3) have "understood P (len_of m) (e_data e') m" by (auto simp: packs_def)
  with pay r obtain d1 where int: "s_interpret P (s_params P) ?s = Inr (True, d1)" and d1: "d_message d1 = m"
    by (auto simp: understood_def)
  from interpret_ops [OF pay found] int have fr: "same_frame ?s d1" by auto
  let ?d2 = "d1\<lparr>d_databit_cnt := 0, d_state := (if s_decode_repeat P \<noteq> None
      then InfraredCommonDecoderStateProcessRepeat else InfraredCommonDecoderStateWaitPreamble)\<rparr>"
  have bits: "infrared_common_decode_bits (Suc (Suc 0)) P ?s = Inr (InfraredStatusReady, ?s)"
    using r x found split_time by (simp add: Let_def decode_bits_early_def list_get_def)
  have ready: "infrared_common_decoder_check_ready P ?s = Inr (True, ?d2)"
    using found int by (simp add: infrared_common_decoder_check_ready_def)
  have fuel: "decode_loop_fuel = Suc 15" by (simp add: decode_loop_fuel_def)
  have step: "infrared_common_decode_loop decode_loop_fuel P False ?s = infrared_common_decode_loop 15 P True ?d2"
    unfolding fuel infrared_common_decode_loop.simps
    using r bits ready by (simp del: infrared_common_decode_bits.simps infrared_common_decode_loop.simps)
  have final: "\<exists>d'. infrared_common_decode_loop 15 P True ?d2 = Inr (True, d') \<and> d_message d' = m \<and>
     (if s_decode_repeat P \<noteq> None
      then d_state d' = InfraredCommonDecoderStateProcessRepeat \<and>
           d_timings d' = (d_timings d)[0 := x] \<and> d_timings_cnt d' = 1 \<and> \<not> d_level d'
      else decoder_idle P d' \<and> \<not> d_level d')"
  proof (cases "s_decode_repeat P")
    case None
    have "infrared_check_preamble (s_params P) ?d2 = Inr (False, ?d2\<lparr>d_timings_cnt := 0\<rparr>)"
      using nz fr consume_timings_all [of ?d2 1]
      by (simp add: infrared_check_preamble_def check_preamble_loop.simps oldest_level_def same_frame_def)
    with None show ?thesis
      using fr d1 r by (simp add: eval_nat_numeral decoder_idle_def same_frame_def payload_ok_def)
  next
    case (Some f)
    have "length (d_timings ?d2) = 6" "d_timings_cnt ?d2 = 1"
      using fr r by (simp_all add: same_frame_def)
    then have "f (s_params P) ?d2 = Inr (InfraredStatusOk, ?d2)"
      using repeat_first [OF Some] by simp
    with Some fr d1 show ?thesis by (simp add: eval_nat_numeral same_frame_def)
  qed
  have "\<not> d_level ?s" by simp
  with step final show ?thesis
    using common_decode_stored [of d False P x] r by auto
qed

end

context pdwm_codec
begin

text \<open>
  A protocol without a repeat code repeats the frame: each further frame reports the message
  of the frame before it.
\<close>

lemma next_frame:
  assumes m: "canon m" "encoder_alloc_ok P e" "reset e m = Inr e'"
    and d: "receiving P (data_bits (e_data e') (len_of m)) True d" and rep: "s_decode_repeat P = None"
    and x: "min_split_time T < x"
  shows "\<exists>d'. ir_feed (infrared_common_decode P) d
       ((False, x) # tl (pdwm_frame T (data_bits (e_data e') (len_of m)))) = Inr ([m], d') \<and>
     receiving P (data_bits (e_data e') (len_of m)) True d'"
proof -
  let ?bs = "data_bits (e_data e') (len_of m)"
  from pause_reports [OF m d x] rep obtain d1 where
    1: "infrared_common_decode P d False x = Inr (Some m, d1)" and d1: "decoder_idle P d1" "\<not> d_level d1" by auto
  have "?bs \<noteq> []"
    using databit_len_found_pos [OF len_found [OF m(1)]] by (metis length_data_bits length_greater_0_conv)
  with frame_received_idle [OF d1 frame_ok, of ?bs] len_le [OF m(1)] 1 show ?thesis by auto
qed

end

lemma pdwm_frame_last: "pdm t \<or> bs \<noteq> [] \<Longrightarrow> fst (last (pdwm_frame t bs))"
proof -
  assume "pdm t \<or> bs \<noteq> []"
  then have "pdwm_body t bs \<noteq> [] \<and> fst (last (pdwm_body t bs))"
    by (induction bs) auto
  then show ?thesis by (simp add: pdwm_frame_def)
qed

lemma pdwm_frame_hd: "pdwm_frame t bs \<noteq> [] \<and> \<not> fst (hd (pdwm_frame t bs))"
  by (simp add: pdwm_frame_def)

end
