(* ===== verification/Infrared_Nec.thy ===== *)
theory Infrared_Nec
  imports Infrared_Pdwm
begin

text \<open>
  The NEC family (\<^verbatim>\<open>lib/infrared/encoder_decoder/nec\<close>): NEC, NECext (32 bits), NEC42 and
  NEC42ext (42 bits), with the repeat code.
\<close>

section \<open>Decoder\<close>

definition infrared_decoder_nec_interpret :: ir_interpret where
  "infrared_decoder_nec_interpret p d =
     (if d_databit_cnt d = 32
      then bindr (list_get (d_data d) 0) (\<lambda>address.
           bindr (list_get (d_data d) 1) (\<lambda>address_inverse.
           bindr (list_get (d_data d) 2) (\<lambda>command.
           bindr (list_get (d_data d) 3) (\<lambda>command_inverse.
             if command = NOT command_inverse \<and> address = NOT address_inverse
             then Inr (True, d\<lparr>d_message := \<lparr>m_protocol = InfraredProtocolNEC,
                    m_address = ucast address, m_command = ucast command, m_repeat = False\<rparr>\<rparr>)
             else Inr (True, d\<lparr>d_message := \<lparr>m_protocol = InfraredProtocolNECext,
                    m_address = ucast address OR push_bit 8 (ucast address_inverse),
                    m_command = ucast command OR push_bit 8 (ucast command_inverse),
                    m_repeat = False\<rparr>\<rparr>)))))
      else if d_databit_cnt d = 42
      then bindr (read_u32 (d_data d) 0) (\<lambda>data1.
           bindr (read_u16 (d_data d) 4) (\<lambda>data2.
             let address = (ucast (data1 AND 0x1FFF) :: u16);
                 address_inverse = (ucast (drop_bit 13 data1 AND 0x1FFF) :: u16);
                 command = (ucast ((drop_bit 26 data1 AND 0x3F) OR push_bit 6 (ucast data2 AND 0x3)) :: u16);
                 command_inverse = drop_bit 2 data2 AND 0xFF
             in if address = (NOT address_inverse AND 0x1FFF) \<and> command = (NOT command_inverse AND 0xFF)
                then Inr (True, d\<lparr>d_message := \<lparr>m_protocol = InfraredProtocolNEC42,
                       m_address = ucast address, m_command = ucast command, m_repeat = False\<rparr>\<rparr>)
                else Inr (True, d\<lparr>d_message := \<lparr>m_protocol = InfraredProtocolNEC42ext,
                       m_address = ucast address OR push_bit 13 (ucast address_inverse),
                       m_command = ucast command OR push_bit 8 (ucast command_inverse),
                       m_repeat = False\<rparr>\<rparr>)))
      else Inr (False, d))"

definition nec_repeat_pause_min :: u32 where "nec_repeat_pause_min = 4000"
definition nec_repeat_pause_max :: u32 where "nec_repeat_pause_max = 150000"
definition nec_repeat_period :: u32 where "nec_repeat_period = 110000"
definition nec_repeat_mark :: u32 where "nec_repeat_mark = 9000"
definition nec_repeat_space :: u32 where "nec_repeat_space = 2250"
definition nec_bit1_mark :: u16 where "nec_bit1_mark = 560"

definition infrared_decoder_nec_decode_repeat :: ir_decode_repeat where
  "infrared_decoder_nec_decode_repeat p d =
     (let preamble_tol = preamble_tolerance (p_timings p);
          bit_tol = bit_tolerance (p_timings p);
          ts = d_timings d
      in if d_timings_cnt d < 4 then Inr (InfraredStatusOk, d)
         else bindr (list_get ts 0) (\<lambda>t0. bindr (list_get ts 1) (\<lambda>t1.
              bindr (list_get ts 2) (\<lambda>t2. bindr (list_get ts 3) (\<lambda>t3.
                if t0 > nec_repeat_pause_min \<and> t0 < nec_repeat_pause_max \<and>
                   MATCH_TIMING_F t1 nec_repeat_mark preamble_tol \<and>
                   MATCH_TIMING_F t2 nec_repeat_space preamble_tol \<and>
                   MATCH_TIMING t3 (ucast (bit1_mark (p_timings p))) bit_tol
                then Inr (InfraredStatusReady, d\<lparr>d_timings_cnt := 0\<rparr>)
                else Inr (InfraredStatusError, d))))))"

section \<open>Encoder\<close>

definition nec_repeat_timings :: "u32 list" where
  "nec_repeat_timings =
     [nec_repeat_period - nec_repeat_mark - nec_repeat_space - ucast nec_bit1_mark,
      nec_repeat_mark, nec_repeat_space, ucast nec_bit1_mark]"

text \<open>
  The counters of the encoder are \<^verbatim>\<open>uint32_t\<close>; the subtraction is guarded by the assertion
  of the source, which the source makes right after it.
\<close>

definition infrared_encoder_nec_encode_repeat :: ir_encode where
  "infrared_encoder_nec_encode_repeat p e =
     (let timings_encoded_up_to_repeat = 1 + 2 + e_bits_to_encode e * 2 + 1;
          repeat_cnt = e_timings_encoded e - timings_encoded_up_to_repeat
      in bindr (furi_assert (e_timings_encoded e \<ge> timings_encoded_up_to_repeat)) (\<lambda>_.
         bindr (if repeat_cnt > 0
                then list_get nec_repeat_timings (repeat_cnt mod length nec_repeat_timings)
                else Inr (nec_repeat_period - e_timings_sum e)) (\<lambda>duration.
         Inr (if (repeat_cnt + 1) mod length nec_repeat_timings = 0
              then InfraredStatusDone else InfraredStatusOk,
              duration, repeat_cnt mod 2 = 1,
              e\<lparr>e_timings_encoded := inc32 (e_timings_encoded e)\<rparr>))))"

definition infrared_protocol_nec :: infrared_common_protocol_spec where
  "infrared_protocol_nec =
     \<lparr>s_params = \<lparr>p_timings = \<lparr>min_split_time = nec_repeat_pause_min, silence_time = nec_repeat_period,
          preamble_mark = 9000, preamble_space = 4500,
          bit1_mark = nec_bit1_mark, bit1_space = 1690, bit0_mark = 560, bit0_space = 560,
          preamble_tolerance = 200, bit_tolerance = 120\<rparr>,
        p_manchester_start_from_space = False, p_databit_len = [42, 32, 0, 0]\<rparr>,
      s_decode = infrared_common_decode_pdwm,
      s_decode_repeat = Some infrared_decoder_nec_decode_repeat,
      s_interpret = infrared_decoder_nec_interpret,
      s_encode = infrared_common_encode_pdwm,
      s_encode_repeat = Some infrared_encoder_nec_encode_repeat\<rparr>"

definition infrared_encoder_nec_reset :: "infrared_common_encoder \<Rightarrow> infrared_message
    \<Rightarrow> infrared_common_encoder res" where
  "infrared_encoder_nec_reset e0 m =
     bindr (infrared_common_encoder_reset infrared_protocol_nec e0) (\<lambda>e.
     case m_protocol m of
       InfraredProtocolNEC \<Rightarrow>
         let address = (ucast (m_address m) :: u8); command = (ucast (m_command m) :: u8) in
         bindr (write_u32 (e_data e) 0
                  (word_of_bytes address (NOT address) command (NOT command))) (\<lambda>data.
           Inr (e\<lparr>e_data := data, e_bits_to_encode := 32\<rparr>))
     | InfraredProtocolNECext \<Rightarrow>
         bindr (write_u32 (e_data e) 0
                  (ucast (ucast (m_address m) :: u16) OR push_bit 16 (m_command m AND 0xFFFF))) (\<lambda>data.
           Inr (e\<lparr>e_data := data, e_bits_to_encode := 32\<rparr>))
     | InfraredProtocolNEC42 \<Rightarrow>
         bindr (write_u32 (e_data e) 0
                  ((m_address m AND 0x1FFF) OR push_bit 13 (NOT (m_address m) AND 0x1FFF) OR
                   push_bit 26 (m_command m AND 0x3F))) (\<lambda>data1.
         bindr (write_u32 data1 4
                  (drop_bit 6 (m_command m AND 0xC0) OR push_bit 2 (NOT (m_command m) AND 0xFF))) (\<lambda>data2.
           Inr (e\<lparr>e_data := data2, e_bits_to_encode := 42\<rparr>)))
     | InfraredProtocolNEC42ext \<Rightarrow>
         bindr (write_u32 (e_data e) 0
                  ((m_address m AND 0x3FFFFFF) OR push_bit 26 (m_command m AND 0x3F))) (\<lambda>data1.
         bindr (write_u32 data1 4 (drop_bit 6 (m_command m AND 0xFFC0))) (\<lambda>data2.
           Inr (e\<lparr>e_data := data2, e_bits_to_encode := 42\<rparr>)))
     | _ \<Rightarrow> Inl FuriCrash)"

section \<open>Wrappers and variants\<close>

definition infrared_decoder_nec_alloc :: "infrared_common_decoder res" where
  "infrared_decoder_nec_alloc = infrared_common_decoder_alloc infrared_protocol_nec"

definition infrared_decoder_nec_decode :: "infrared_common_decoder \<Rightarrow> bool \<Rightarrow> u32
    \<Rightarrow> (infrared_message option \<times> infrared_common_decoder) res" where
  "infrared_decoder_nec_decode = infrared_common_decode infrared_protocol_nec"

definition infrared_decoder_nec_check_ready :: "infrared_common_decoder
    \<Rightarrow> (infrared_message option \<times> infrared_common_decoder) res" where
  "infrared_decoder_nec_check_ready = common_ready infrared_protocol_nec"

definition infrared_decoder_nec_reset :: "infrared_common_decoder \<Rightarrow> infrared_common_decoder res" where
  "infrared_decoder_nec_reset = infrared_common_decoder_reset infrared_protocol_nec"

definition infrared_encoder_nec_alloc :: "infrared_common_encoder res" where
  "infrared_encoder_nec_alloc = infrared_common_encoder_alloc True infrared_protocol_nec"

definition infrared_encoder_nec_encode :: "infrared_common_encoder \<Rightarrow> ir_encode_result" where
  "infrared_encoder_nec_encode = infrared_common_encode infrared_protocol_nec"

definition infrared_protocol_nec_get_variant :: "infrared_protocol \<Rightarrow> infrared_protocol_variant option" where
  "infrared_protocol_nec_get_variant protocol =
     (case protocol of
        InfraredProtocolNEC \<Rightarrow> Some \<lparr>v_name = ''NEC'', v_address_length = 8, v_command_length = 8,
          v_frequency = infrared_common_carrier_frequency, v_duty_cycle = infrared_common_duty_cycle,
          v_repeat_count = 1\<rparr>
      | InfraredProtocolNECext \<Rightarrow> Some \<lparr>v_name = ''NECext'', v_address_length = 16, v_command_length = 16,
          v_frequency = infrared_common_carrier_frequency, v_duty_cycle = infrared_common_duty_cycle,
          v_repeat_count = 1\<rparr>
      | InfraredProtocolNEC42 \<Rightarrow> Some \<lparr>v_name = ''NEC42'', v_address_length = 13, v_command_length = 8,
          v_frequency = infrared_common_carrier_frequency, v_duty_cycle = infrared_common_duty_cycle,
          v_repeat_count = 1\<rparr>
      | InfraredProtocolNEC42ext \<Rightarrow> Some \<lparr>v_name = ''NEC42ext'', v_address_length = 26, v_command_length = 16,
          v_frequency = infrared_common_carrier_frequency, v_duty_cycle = infrared_common_duty_cycle,
          v_repeat_count = 1\<rparr>
      | _ \<Rightarrow> None)"

section \<open>Messages and their payload\<close>

text \<open>
  The messages that survive a transfer: fields within their widths, and for the extended
  variants not the pattern of the plain ones, which the decoder would report instead.
\<close>

definition nec_plain :: "u32 \<Rightarrow> u32 \<Rightarrow> bool" where
  "nec_plain address command \<longleftrightarrow>
     (ucast command :: u8) = NOT (ucast (drop_bit 8 command)) \<and>
     (ucast address :: u8) = NOT (ucast (drop_bit 8 address))"

definition nec42_plain :: "u32 \<Rightarrow> u32 \<Rightarrow> bool" where
  "nec42_plain address command \<longleftrightarrow>
     address AND 0x1FFF = NOT (drop_bit 13 address) AND 0x1FFF \<and>
     command AND 0xFF = NOT (drop_bit 8 command) AND 0xFF"

definition nec_canon :: "infrared_message \<Rightarrow> bool" where
  "nec_canon m \<longleftrightarrow> \<not> m_repeat m \<and>
     (case m_protocol m of
        InfraredProtocolNEC \<Rightarrow> fits 8 (m_address m) \<and> fits 8 (m_command m)
      | InfraredProtocolNECext \<Rightarrow> fits 16 (m_address m) \<and> fits 16 (m_command m) \<and>
          \<not> nec_plain (m_address m) (m_command m)
      | InfraredProtocolNEC42 \<Rightarrow> fits 13 (m_address m) \<and> fits 8 (m_command m)
      | InfraredProtocolNEC42ext \<Rightarrow> fits 26 (m_address m) \<and> fits 16 (m_command m) \<and>
          \<not> nec42_plain (m_address m) (m_command m)
      | _ \<Rightarrow> False)"

definition nec_len :: "infrared_message \<Rightarrow> nat" where
  "nec_len m = (if m_protocol m = InfraredProtocolNEC \<or> m_protocol m = InfraredProtocolNECext then 32 else 42)"

lemma nec_params [simp]:
  "p_databit_len (s_params infrared_protocol_nec) = [42, 32, 0, 0]"
  "databit_len0 (s_params infrared_protocol_nec) = 42"
  "s_interpret infrared_protocol_nec = infrared_decoder_nec_interpret"
  by (simp_all add: infrared_protocol_nec_def databit_len0_def)

lemma nec_payload [simp]: "payload_ok (s_params infrared_protocol_nec) d = (length (d_data d) = 8)"
  by (simp add: payload_ok_def bytes_for_bits_def decoder_tail_padding_def)

lemma nec_encoder_alloc [simp]: "encoder_alloc_ok infrared_protocol_nec e = (length (e_data e) = 42)"
  by (simp add: encoder_alloc_ok_def bytes_for_bits_def encoder_extra_bytes_def)

lemma nec_encoder_reset:
  "length (e_data e) = 42 \<Longrightarrow> infrared_common_encoder_reset infrared_protocol_nec e =
     Inr (e\<lparr>e_timings_encoded := 0, e_timings_sum := 0, e_bits_encoded := 0,
            e_state := InfraredCommonEncoderStateSilence, e_switch_detect := False,
            e_data := replicate 6 0 @ drop 6 (e_data e)\<rparr>)"
  by (simp add: infrared_common_encoder_reset_def bytes_for_bits_def Let_def)

lemma nec_understood_32:
  assumes "write_u32 xs 0 v = Inr ys"
    and m: "m = (if ucast (drop_bit 16 v) = NOT (ucast (drop_bit 24 v) :: u8) \<and>
                    ucast v = NOT (ucast (drop_bit 8 v) :: u8)
      then \<lparr>m_protocol = InfraredProtocolNEC, m_address = ucast (ucast v :: u8),
            m_command = ucast (ucast (drop_bit 16 v) :: u8), m_repeat = False\<rparr>
      else \<lparr>m_protocol = InfraredProtocolNECext,
            m_address = ucast (ucast v :: u8) OR push_bit 8 (ucast (ucast (drop_bit 8 v) :: u8)),
            m_command = ucast (ucast (drop_bit 16 v) :: u8) OR push_bit 8 (ucast (ucast (drop_bit 24 v) :: u8)),
            m_repeat = False\<rparr>)"
  shows "understood infrared_protocol_nec 32 ys m"
  unfolding understood_def
proof (intro allI impI)
  fix d assume "payload_ok (s_params infrared_protocol_nec) d" "d_databit_cnt d = 32"
    and bits: "data_bits (d_data d) 32 = data_bits ys 32"
  with received_bytes [OF assms(1) bits] m
  show "\<exists>d'. s_interpret infrared_protocol_nec (s_params infrared_protocol_nec) d = Inr (True, d') \<and> d_message d' = m"
    by (simp add: infrared_decoder_nec_interpret_def fault_simps)
qed

lemma nec_packed_NEC:
  assumes "m_protocol m = InfraredProtocolNEC" and "nec_canon m" and "length (e_data e) = 42"
  shows "\<exists>e'. infrared_encoder_nec_reset e m = Inr e' \<and> packs infrared_protocol_nec m 32 e'"
proof -
  let ?e = "e\<lparr>e_timings_encoded := 0, e_timings_sum := 0, e_bits_encoded := 0,
            e_state := InfraredCommonEncoderStateSilence, e_switch_detect := False,
            e_data := replicate 6 0 @ drop 6 (e_data e)\<rparr>"
  let ?a = "ucast (m_address m) :: u8" and ?c = "ucast (m_command m) :: u8"
  let ?v = "word_of_bytes ?a (NOT ?a) ?c (NOT ?c)"
  obtain ys where ys: "write_u32 (e_data ?e) 0 ?v = Inr ys" "length ys = 42"
    using write_u32_ok [of 0 "e_data ?e" ?v] assms(3) by auto
  have f: "fits 8 (m_address m)" "fits 8 (m_command m)" "\<not> m_repeat m"
    using assms by (auto simp: nec_canon_def)
  then have "ucast ?a = m_address m" "ucast ?c = m_command m"
    by (auto intro!: bit_word_eqI simp: bit_simps dest: fits_bit)
  with assms(1) f(3) have "m = \<lparr>m_protocol = InfraredProtocolNEC, m_address = ucast ?a, m_command = ucast ?c, m_repeat = False\<rparr>"
    by (cases m) simp
  with nec_understood_32 [OF ys(1)] have "understood infrared_protocol_nec 32 ys m" by simp
  with ys assms(1) show ?thesis
    by (auto simp: infrared_encoder_nec_reset_def nec_encoder_reset assms(3) Let_def packs_def encoder_ready_def)
qed

lemma mask_numerals:
  "(0x3 :: 'a::len word) = mask 2" "(0x3F :: 'a word) = mask 6" "(0xFF :: 'a word) = mask 8"
  "(0x1FFF :: 'a word) = mask 13" "(0xFFFF :: 'a word) = mask 16" "(0x3FFFFFF :: 'a word) = mask 26"
  "(0xC0 :: 'a word) = push_bit 6 (mask 2)" "(0xFFC0 :: 'a word) = push_bit 6 (mask 10)"
  by (simp_all add: mask_eq_exp_minus_1 push_bit_eq_mult)

lemma nec_packed_NECext:
  assumes "m_protocol m = InfraredProtocolNECext" and "nec_canon m" and "length (e_data e) = 42"
  shows "\<exists>e'. infrared_encoder_nec_reset e m = Inr e' \<and> packs infrared_protocol_nec m 32 e'"
proof -
  let ?xs = "replicate 6 0 @ drop 6 (e_data e)"
  let ?v = "ucast (ucast (m_address m) :: u16) OR push_bit 16 (m_command m AND 0xFFFF)"
  obtain ys where ys: "write_u32 ?xs 0 ?v = Inr ys" "length ys = 42"
    using write_u32_ok [of 0 ?xs ?v] assms(3) by auto
  have f: "fits 16 (m_address m)" "fits 16 (m_command m)" "\<not> m_repeat m" "\<not> nec_plain (m_address m) (m_command m)"
    using assms by (auto simp: nec_canon_def)
  have bytes: "(ucast ?v :: u8) = ucast (m_address m)" "(ucast (drop_bit 8 ?v) :: u8) = ucast (drop_bit 8 (m_address m))"
    "(ucast (drop_bit 16 ?v) :: u8) = ucast (m_command m)" "(ucast (drop_bit 24 ?v) :: u8) = ucast (drop_bit 8 (m_command m))"
    by (rule bit_word_eqI; simp add: bit_simps mask_numerals)+
  have words: "ucast (ucast a :: u8) OR push_bit 8 (ucast (ucast (drop_bit 8 a) :: u8)) = a" if "fits 16 a" for a :: u32
    by (rule bit_word_eqI) (use that in \<open>auto simp: bit_simps dest: fits_bit\<close>)
  have "m = \<lparr>m_protocol = InfraredProtocolNECext, m_address = m_address m, m_command = m_command m, m_repeat = False\<rparr>"
    using assms(1) f(3) by (cases m) simp
  with f(4) have "understood infrared_protocol_nec 32 ys m"
    by (intro nec_understood_32 [OF ys(1)]) (simp only: bytes words [OF f(1)] words [OF f(2)] nec_plain_def if_False)
  with ys assms(1) show ?thesis
    by (auto simp: infrared_encoder_nec_reset_def nec_encoder_reset assms(3) Let_def packs_def encoder_ready_def)
qed

definition nec_message_42 :: "u32 \<Rightarrow> u16 \<Rightarrow> infrared_message" where
  "nec_message_42 w1 w2 =
     (let address = (ucast (w1 AND 0x1FFF) :: u16);
          address_inverse = (ucast (drop_bit 13 w1 AND 0x1FFF) :: u16);
          command = (ucast ((drop_bit 26 w1 AND 0x3F) OR push_bit 6 (ucast w2 AND 0x3)) :: u16);
          command_inverse = drop_bit 2 w2 AND 0xFF
      in if address = (NOT address_inverse AND 0x1FFF) \<and> command = (NOT command_inverse AND 0xFF)
         then \<lparr>m_protocol = InfraredProtocolNEC42,
                m_address = ucast address, m_command = ucast command, m_repeat = False\<rparr>
         else \<lparr>m_protocol = InfraredProtocolNEC42ext,
                m_address = ucast address OR push_bit 13 (ucast address_inverse),
                m_command = ucast command OR push_bit 8 (ucast command_inverse), m_repeat = False\<rparr>)"

lemma nec_message_42_low:
  assumes "\<And>j. j < 10 \<Longrightarrow> bit w2 j = bit w2' j"
  shows "nec_message_42 w1 w2 = nec_message_42 w1 w2'"
proof -
  have "push_bit 6 (ucast w2 AND 0x3) = (push_bit 6 (ucast w2' AND 0x3) :: u32)"
    "drop_bit 2 w2 AND 0xFF = drop_bit 2 w2' AND 0xFF"
    using assms by (auto intro!: bit_word_eqI simp: bit_simps mask_numerals)
  then show ?thesis by (simp only: nec_message_42_def)
qed

lemma nec_understood_42:
  assumes w1: "write_u32 xs 0 v1 = Inr ys1" and w2: "write_u32 ys1 4 v2 = Inr ys"
  shows "understood infrared_protocol_nec 42 ys (nec_message_42 v1 (ucast v2))"
  unfolding understood_def
proof (intro allI impI)
  fix d assume d: "payload_ok (s_params infrared_protocol_nec) d" "d_databit_cnt d = 42"
    and "data_bits (d_data d) 42 = data_bits ys 42"
  then have bits: "byte_bit (d_data d) i = (if i < 32 then bit v1 i else bit v2 (i - 32))" if "i < 42" for i
    using that byte_bit_write_u32 [OF w1, of i] byte_bit_write_u32 [OF w2, of i]
    by (simp add: data_bits_eq_iff)
  obtain r1 r2 where r: "read_u32 (d_data d) 0 = Inr r1" "read_u16 (d_data d) 4 = Inr r2"
    using d by (simp add: read_u32_def read_u16_def)
  have interp: "infrared_decoder_nec_interpret p d = Inr (True, d\<lparr>d_message := nec_message_42 r1 r2\<rparr>)" for p
    using d r by (simp add: infrared_decoder_nec_interpret_def nec_message_42_def Let_def)
  have "r1 = v1"
    using bit_read_u32 [OF r(1)] bits by (intro bit_word_eqI) simp
  moreover have "nec_message_42 v1 r2 = nec_message_42 v1 (ucast v2)"
    using bit_read_u16 [OF r(2)] bits by (intro nec_message_42_low) (simp add: bit_simps)
  ultimately show "\<exists>d'. s_interpret infrared_protocol_nec (s_params infrared_protocol_nec) d = Inr (True, d') \<and>
      d_message d' = nec_message_42 v1 (ucast v2)"
    using interp by simp
qed

lemma nec_packed_42:
  assumes p: "m_protocol m = InfraredProtocolNEC42 \<or> m_protocol m = InfraredProtocolNEC42ext"
    and len: "length (e_data e) = 42"
    and v1: "v1 = (if m_protocol m = InfraredProtocolNEC42
         then (m_address m AND 0x1FFF) OR push_bit 13 (NOT (m_address m) AND 0x1FFF) OR
              push_bit 26 (m_command m AND 0x3F)
         else (m_address m AND 0x3FFFFFF) OR push_bit 26 (m_command m AND 0x3F))"
    and v2: "v2 = (if m_protocol m = InfraredProtocolNEC42
         then drop_bit 6 (m_command m AND 0xC0) OR push_bit 2 (NOT (m_command m) AND 0xFF)
         else drop_bit 6 (m_command m AND 0xFFC0))"
    and m: "nec_message_42 v1 (ucast v2) = m"
  shows "\<exists>e'. infrared_encoder_nec_reset e m = Inr e' \<and> packs infrared_protocol_nec m 42 e'"
proof -
  let ?xs = "replicate 6 0 @ drop 6 (e_data e)"
  obtain ys1 where ys1: "write_u32 ?xs 0 v1 = Inr ys1" "length ys1 = 42"
    using write_u32_ok [of 0 ?xs v1] len by auto
  obtain ys where ys: "write_u32 ys1 4 v2 = Inr ys" "length ys = 42"
    using write_u32_ok [of 4 ys1 v2] ys1 by auto
  have "understood infrared_protocol_nec 42 ys m"
    using nec_understood_42 [OF ys1(1) ys(1)] m by simp
  with ys ys1 p v1 v2 show ?thesis
    by (auto simp: infrared_encoder_nec_reset_def nec_encoder_reset len Let_def packs_def encoder_ready_def
        simp del: and.assoc split: if_splits)
qed

lemma nec_packed_NEC42:
  assumes "m_protocol m = InfraredProtocolNEC42" and "nec_canon m" and "length (e_data e) = 42"
  shows "\<exists>e'. infrared_encoder_nec_reset e m = Inr e' \<and> packs infrared_protocol_nec m 42 e'"
proof -
  let ?a = "m_address m" and ?c = "m_command m"
  have f: "fits 13 ?a" "fits 8 ?c" "\<not> m_repeat m" using assms by (auto simp: nec_canon_def)
  let ?v1 = "(?a AND 0x1FFF) OR push_bit 13 (NOT ?a AND 0x1FFF) OR push_bit 26 (?c AND 0x3F)"
  let ?v2 = "drop_bit 6 (?c AND 0xC0) OR push_bit 2 (NOT ?c AND 0xFF)"
  have a: "(ucast (?v1 AND 0x1FFF) :: u16) = ucast ?a"
    and ai: "(ucast (drop_bit 13 ?v1 AND 0x1FFF) :: u16) = NOT (ucast ?a) AND 0x1FFF"
    and c: "(ucast ((drop_bit 26 ?v1 AND 0x3F) OR push_bit 6 (ucast (ucast ?v2 :: u16) AND 0x3)) :: u16) = ucast ?c"
    and ci: "(drop_bit 2 (ucast ?v2 :: u16) AND 0xFF) = NOT (ucast ?c) AND 0xFF"
    by (rule bit_word_eqI; use f in \<open>auto simp: bit_simps mask_numerals dest: fits_bit\<close>)+
  have inv: "(ucast ?a :: u16) = NOT (NOT (ucast ?a) AND 0x1FFF) AND 0x1FFF"
    "(ucast ?c :: u16) = NOT (NOT (ucast ?c) AND 0xFF) AND 0xFF"
    by (rule bit_word_eqI; use f in \<open>auto simp: bit_simps mask_numerals dest: fits_bit\<close>)+
  have up: "ucast (ucast ?a :: u16) = ?a" "ucast (ucast ?c :: u16) = ?c"
    by (rule bit_word_eqI; use f in \<open>auto simp: bit_simps dest: fits_bit\<close>)+
  have "nec_message_42 ?v1 (ucast ?v2) = m"
    unfolding nec_message_42_def Let_def a ai c ci inv [symmetric] up
    using assms(1) f(3) by (cases m) simp
  with nec_packed_42 [OF _ assms(3) refl refl] assms(1) show ?thesis by simp
qed

lemma nec_packed_NEC42ext:
  assumes "m_protocol m = InfraredProtocolNEC42ext" and "nec_canon m" and "length (e_data e) = 42"
  shows "\<exists>e'. infrared_encoder_nec_reset e m = Inr e' \<and> packs infrared_protocol_nec m 42 e'"
proof -
  let ?a = "m_address m" and ?c = "m_command m"
  have f: "fits 26 ?a" "fits 16 ?c" "\<not> m_repeat m" "\<not> nec42_plain ?a ?c"
    using assms by (auto simp: nec_canon_def)
  let ?v1 = "(?a AND 0x3FFFFFF) OR push_bit 26 (?c AND 0x3F)"
  let ?v2 = "drop_bit 6 (?c AND 0xFFC0)"
  have a: "(ucast (?v1 AND 0x1FFF) :: u16) = ucast (?a AND 0x1FFF)"
    and ai: "(ucast (drop_bit 13 ?v1 AND 0x1FFF) :: u16) = ucast (drop_bit 13 ?a AND 0x1FFF)"
    and c: "(ucast ((drop_bit 26 ?v1 AND 0x3F) OR push_bit 6 (ucast (ucast ?v2 :: u16) AND 0x3)) :: u16)
              = ucast (?c AND 0xFF)"
    and ci: "(drop_bit 2 (ucast ?v2 :: u16) AND 0xFF) = ucast (drop_bit 8 ?c AND 0xFF)"
    by (rule bit_word_eqI; use f in \<open>auto simp: bit_simps mask_numerals dest: fits_bit\<close>)+
  have up: "ucast (ucast (?a AND 0x1FFF) :: u16) OR push_bit 13 (ucast (ucast (drop_bit 13 ?a AND 0x1FFF) :: u16)) = ?a"
    "ucast (ucast (?c AND 0xFF) :: u16) OR push_bit 8 (ucast (ucast (drop_bit 8 ?c AND 0xFF) :: u16)) = ?c"
    by (rule bit_word_eqI; use f in \<open>auto simp: bit_simps mask_numerals dest: fits_bit\<close>)+
  have nots: "NOT (ucast (drop_bit 13 ?a AND 0x1FFF)) AND 0x1FFF = (ucast (NOT (drop_bit 13 ?a) AND 0x1FFF) :: u16)"
    "NOT (ucast (drop_bit 8 ?c AND 0xFF)) AND 0xFF = (ucast (NOT (drop_bit 8 ?c) AND 0xFF) :: u16)"
    by (rule bit_word_eqI; auto simp: bit_simps mask_numerals)+
  have back1: "ucast (ucast (x AND 0x1FFF) :: u16) = x AND 0x1FFF" for x :: u32
    by (rule bit_word_eqI; auto simp: bit_simps mask_numerals)
  have back2: "ucast (ucast (x AND 0xFF) :: u16) = x AND 0xFF" for x :: u32
    by (rule bit_word_eqI; auto simp: bit_simps mask_numerals)
  have plain: "(ucast (?a AND 0x1FFF) :: u16) = NOT (ucast (drop_bit 13 ?a AND 0x1FFF)) AND 0x1FFF \<longleftrightarrow>
      ?a AND 0x1FFF = NOT (drop_bit 13 ?a) AND 0x1FFF"
    "(ucast (?c AND 0xFF) :: u16) = NOT (ucast (drop_bit 8 ?c AND 0xFF)) AND 0xFF \<longleftrightarrow>
      ?c AND 0xFF = NOT (drop_bit 8 ?c) AND 0xFF"
    unfolding nots by (metis back1, metis back2)
  have "nec_message_42 ?v1 (ucast ?v2) = m"
    unfolding nec_message_42_def Let_def a ai c ci up plain
    using assms(1) f(3,4) unfolding nec42_plain_def by (cases m) simp
  with nec_packed_42 [OF _ assms(3) refl refl] assms(1) show ?thesis by simp
qed

section \<open>The protocol meets its contracts\<close>

lemma nec_timings_ok: "pdwm_timings_ok (p_timings (s_params infrared_protocol_nec))"
  by (simp add: pdwm_timings_ok_def windows_disjoint_def pdm_def infrared_protocol_nec_def
      nec_bit1_mark_def nec_repeat_pause_min_def)

lemma nec_decode_repeat_ops:
  assumes "length (d_timings d) = 6" and "d_timings_cnt d \<le> 6"
  shows "\<exists>st d'. infrared_decoder_nec_decode_repeat p d = Inr (st, d') \<and>
    (st = InfraredStatusOk \<and> d' = d \<and> d_timings_cnt d \<le> 5 \<or> st = InfraredStatusError \<and> d' = d \<or>
     st = InfraredStatusReady \<and> d' = d\<lparr>d_timings_cnt := 0\<rparr>)"
  using assms by (simp add: infrared_decoder_nec_decode_repeat_def Let_def fault_simps)

lemma nec_interpret_ops:
  assumes "length (d_data d) = 8" and "d_databit_cnt d = 42 \<or> d_databit_cnt d = 32"
  shows "\<exists>d'. infrared_decoder_nec_interpret p d = Inr (True, d') \<and> same_frame d d' \<and>
    d_databit_cnt d' = d_databit_cnt d"
  using assms
  by (auto simp: infrared_decoder_nec_interpret_def Let_def fault_simps same_frame_def read_u32_def read_u16_def)

lemma nec_packed:
  "nec_canon m \<Longrightarrow> length (e_data e) = 42 \<Longrightarrow>
   \<exists>e'. infrared_encoder_nec_reset e m = Inr e' \<and> packs infrared_protocol_nec m (nec_len m) e'"
  using nec_packed_NEC [of m e] nec_packed_NECext [of m e] nec_packed_NEC42 [of m e] nec_packed_NEC42ext [of m e]
  by (cases "m_protocol m") (auto simp: nec_canon_def nec_len_def)

interpretation nec: pdwm_codec infrared_protocol_nec nec_canon infrared_encoder_nec_reset nec_len
proof unfold_locales
  show "s_decode infrared_protocol_nec = infrared_common_decode_pdwm"
    and "s_encode infrared_protocol_nec = infrared_common_encode_pdwm"
    by (simp_all add: infrared_protocol_nec_def)
  show "pdwm_timings_ok (p_timings (s_params infrared_protocol_nec))" by (rule nec_timings_ok)
  fix d assume "payload_ok (s_params infrared_protocol_nec) d"
    and "databit_len_found (p_databit_len (s_params infrared_protocol_nec)) (d_databit_cnt d)"
  then show "\<exists>ok d'. s_interpret infrared_protocol_nec (s_params infrared_protocol_nec) d = Inr (ok, d') \<and>
      same_frame d d' \<and> d_databit_cnt d' = d_databit_cnt d"
    using nec_interpret_ops [of d "s_params infrared_protocol_nec"] by auto
next
  fix f and d :: infrared_common_decoder
  assume f: "s_decode_repeat infrared_protocol_nec = Some f"
  then have "f = infrared_decoder_nec_decode_repeat" by (simp add: infrared_protocol_nec_def)
  then show "length (d_timings d) = 6 \<Longrightarrow> d_timings_cnt d \<le> 6 \<Longrightarrow>
      \<exists>st d'. f (s_params infrared_protocol_nec) d = Inr (st, d') \<and>
            (st = InfraredStatusOk \<and> d' = d \<and> d_timings_cnt d \<le> 5 \<or>
             st = InfraredStatusError \<and> d' = d \<or>
             st = InfraredStatusReady \<and> d' = d\<lparr>d_timings_cnt := 0\<rparr>)"
    and "d_timings_cnt d = 1 \<Longrightarrow> f (s_params infrared_protocol_nec) d = Inr (InfraredStatusOk, d)"
    using nec_decode_repeat_ops by (auto simp: infrared_decoder_nec_decode_repeat_def Let_def)
qed (use nec_packed in \<open>auto simp: nec_len_def nec_canon_def split: infrared_protocol.splits\<close>)

interpretation nec_safe: infrared_protocol_safe infrared_protocol_nec "pdwm_fed infrared_protocol_nec"
proof unfold_locales
  fix d d' assume "payload_ok (s_params infrared_protocol_nec) d"
    and "databit_len_found (p_databit_len (s_params infrared_protocol_nec)) (d_databit_cnt d)"
    and "s_interpret infrared_protocol_nec (s_params infrared_protocol_nec) d = Inr (False, d')"
  then show "d_databit_cnt d = databit_len0 (s_params infrared_protocol_nec)"
    using nec_interpret_ops [of d "s_params infrared_protocol_nec"] by auto
qed

section \<open>The repeat code\<close>

definition nec_repeat_ok :: "u32 list \<Rightarrow> bool" where
  "nec_repeat_ok ts \<longleftrightarrow> nec_repeat_pause_min < ts ! 0 \<and> ts ! 0 < nec_repeat_pause_max \<and>
     tl ts = [nec_repeat_mark, nec_repeat_space, ucast nec_bit1_mark]"

interpretation nec_rep: infrared_repeat_code infrared_protocol_nec infrared_decoder_nec_decode_repeat 4 nec_repeat_ok
proof unfold_locales
  fix d :: infrared_common_decoder
  assume "d_timings_cnt d = 4" "length (d_timings d) = 6" "nec_repeat_ok (take 4 (d_timings d))"
  then obtain a ts where ts: "d_timings d = a # ts" "nec_repeat_pause_min < a" "a < nec_repeat_pause_max"
      and "take 3 ts = [nec_repeat_mark, nec_repeat_space, ucast nec_bit1_mark]"
    by (cases "d_timings d") (auto simp: nec_repeat_ok_def)
  then have "ts = [nec_repeat_mark, nec_repeat_space, ucast nec_bit1_mark] @ drop 3 ts"
    by (metis append_take_drop_id)
  then obtain r where "ts = nec_repeat_mark # nec_repeat_space # ucast nec_bit1_mark # r" by auto
  with ts show "infrared_decoder_nec_decode_repeat (s_params infrared_protocol_nec) d =
      Inr (InfraredStatusReady, d\<lparr>d_timings_cnt := 0\<rparr>)"
    using \<open>d_timings_cnt d = 4\<close>
    by (simp add: infrared_decoder_nec_decode_repeat_def Let_def list_get_def nth_append nth_Cons' infrared_protocol_nec_def
        match_timing_f_exact MATCH_TIMING_def nec_bit1_mark_def)
qed (simp_all add: infrared_protocol_nec_def infrared_decoder_nec_decode_repeat_def Let_def)

text \<open>
  An encoder that has sent a frame of \<open>len\<close> bits lasting \<open>s\<close>, and \<open>k\<close> repeat codes. Its counter
  of timings is a \<^verbatim>\<open>uint32_t\<close>: it must not wrap.
\<close>

definition nec_repeating :: "nat \<Rightarrow> u32 \<Rightarrow> nat \<Rightarrow> infrared_common_encoder \<Rightarrow> bool" where
  "nec_repeating len s k e \<longleftrightarrow> e_state e = InfraredCommonEncoderStateEncodeRepeat \<and> e_bits_to_encode e = len \<and>
     e_timings_encoded e = 4 + 2 * len + 4 * k \<and> e_timings_sum e = s"

definition nec_repeat_code :: "u32 \<Rightarrow> (bool \<times> u32) list" where
  "nec_repeat_code pause = [(False, pause), (True, 9000), (False, 2250), (True, 560)]"

lemma nec_repeat_step:
  assumes e: "nec_repeating len s k e" and k: "4 + 2 * len + 4 * Suc k < 2 ^ 32" and j: "j < 4"
  shows "infrared_common_encode infrared_protocol_nec (e\<lparr>e_timings_encoded := 4 + 2 * len + 4 * k + j\<rparr>) =
    Inr (if j = 3 then InfraredStatusDone else InfraredStatusOk,
      snd (nec_repeat_code (if k = 0 then nec_repeat_period - s else 98190) ! j), odd j,
      e\<lparr>e_timings_encoded := 4 + 2 * len + 4 * k + Suc j\<rparr>)"
proof -
  have "(3 + 4 * k) mod 2 = Suc 0" by presburger
  moreover have "j = 0 \<or> j = 1 \<or> j = 2 \<or> j = 3" using j by auto
  moreover have "inc32 (4 + 2 * len + 4 * k + j) = 4 + 2 * len + 4 * k + Suc j"
    using k j by (simp add: inc32_def)
  ultimately show ?thesis
    using e
    by (elim disjE)
       (simp_all add: nec_repeating_def infrared_common_encode_def infrared_protocol_nec_def Let_def
        infrared_encoder_nec_encode_repeat_def nec_repeat_code_def nec_repeat_timings_def list_get_def
        nec_repeat_mark_def nec_repeat_space_def nec_bit1_mark_def nec_repeat_period_def mod_Suc
        numeral_2_eq_2 [symmetric] numeral_3_eq_3 [symmetric] mult.commute)
qed

lemma nec_repeat_sent:
  assumes e: "nec_repeating len s k e" and k: "4 + 2 * len + 4 * Suc k < 2 ^ 32"
  shows "\<exists>e'. ir_encode_frame (infrared_common_encode infrared_protocol_nec) ir_frame_fuel e =
      Inr (nec_repeat_code (if k = 0 then nec_repeat_period - s else 98190), e') \<and> nec_repeating len s (Suc k) e'"
proof -
  let ?e = "e\<lparr>e_timings_encoded := 4 + 2 * len + 4 * k + 4\<rparr>"
  have "e = e\<lparr>e_timings_encoded := 4 + 2 * len + 4 * k + 0\<rparr>" using e by (cases e) (simp add: nec_repeating_def)
  then have 0: "infrared_common_encode infrared_protocol_nec e =
      Inr (InfraredStatusOk, (if k = 0 then nec_repeat_period - s else 98190), False,
        e\<lparr>e_timings_encoded := 4 + 2 * len + 4 * k + 1\<rparr>)"
    using nec_repeat_step [OF e k, of 0] by (simp add: nec_repeat_code_def)
  have "ir_encode_frame (infrared_common_encode infrared_protocol_nec) (Suc (Suc (Suc (Suc 0)))) e =
      Inr (nec_repeat_code (if k = 0 then nec_repeat_period - s else 98190), ?e)"
    using 0 nec_repeat_step [OF e k, of 1] nec_repeat_step [OF e k, of 2] nec_repeat_step [OF e k, of 3]
    by (simp add: nec_repeat_code_def)
  then have "ir_encode_frame (infrared_common_encode infrared_protocol_nec) ir_frame_fuel e =
      Inr (nec_repeat_code (if k = 0 then nec_repeat_period - s else 98190), ?e)"
    by (rule ir_encode_frame_more_fuel) (simp add: ir_frame_fuel_def)
  moreover have "nec_repeating len s (Suc k) ?e" using e by (simp add: nec_repeating_def)
  ultimately show ?thesis by blast
qed

fun nec_bursts :: "u32 \<Rightarrow> nat \<Rightarrow> nat \<Rightarrow> (bool \<times> u32) list" where
  "nec_bursts s k 0 = []"
| "nec_bursts s k (Suc n) =
     nec_repeat_code (if k = 0 then nec_repeat_period - s else 98190) @ nec_bursts s (Suc k) n"

lemma nec_bursts_alternating:
  "alternating (nec_bursts s k n) \<and> (nec_bursts s k n \<noteq> [] \<longrightarrow> \<not> fst (hd (nec_bursts s k n)))"
proof (induction n arbitrary: k)
  case (Suc n)
  show ?case
    using Suc.IH [of "Suc k"]
    by (cases "nec_bursts s (Suc k) n") (auto simp: nec_repeat_code_def)
qed simp

lemma nec_bursts_sent:
  "nec_repeating len s k e \<Longrightarrow> 4 + 2 * len + 4 * (k + n) < 2 ^ 32 \<Longrightarrow>
   \<exists>e'. ir_encode_frames (infrared_common_encode infrared_protocol_nec) n e = Inr (nec_bursts s k n, e')"
proof (induction n arbitrary: k e)
  case (Suc n)
  then obtain e1 where "ir_encode_frame (infrared_common_encode infrared_protocol_nec) ir_frame_fuel e =
      Inr (nec_repeat_code (if k = 0 then nec_repeat_period - s else 98190), e1)" "nec_repeating len s (Suc k) e1"
    using nec_repeat_sent [of len s k e] by auto
  with Suc.IH [of "Suc k" e1] Suc.prems show ?case by auto
qed simp

lemma nec_bursts_received:
  "repeat_state [] True m d \<Longrightarrow> 0 < k \<Longrightarrow>
   \<exists>d'. ir_feed (infrared_common_decode infrared_protocol_nec) d (nec_bursts s k n) =
     Inr (replicate n (m\<lparr>m_repeat := True\<rparr>), d')"
proof (induction n arbitrary: k m d)
  case (Suc n)
  have "repeat_state [] (\<not> fst (hd (nec_repeat_code 98190))) m d"
    using Suc.prems by (simp add: nec_repeat_code_def)
  from nec_rep.repeat_received [OF this] obtain d1 where
    1: "ir_feed (infrared_common_decode infrared_protocol_nec) d (nec_repeat_code 98190) =
        Inr ([m\<lparr>m_repeat := True\<rparr>], d1)"
    and d1: "repeat_state [] True (m\<lparr>m_repeat := True\<rparr>) d1"
    by (auto simp: nec_repeat_code_def nec_repeat_ok_def nec_repeat_pause_min_def nec_repeat_pause_max_def
        nec_repeat_mark_def nec_repeat_space_def nec_bit1_mark_def)
  from Suc.IH [OF d1, of "Suc k"] Suc.prems(2) 1 show ?case
    by (auto simp: ir_feed_append)
qed simp

text \<open>A decoder that waits for a preamble reports nothing of any number of repeat codes.\<close>

lemma nec_tail_missed:
  assumes d: "decoder_idle infrared_protocol_nec d" "\<not> d_level d"
  shows "\<exists>d'. ir_feed (infrared_common_decode infrared_protocol_nec) d
      ((True, 9000) # (False, 2250) # (True, 560) # nec_bursts s (Suc k) n) = Inr ([], d')"
  using d
proof (induction n arbitrary: k d)
  case 0
  have "\<not> (MATCH_TIMING_F 9000 (ucast (preamble_mark (p_timings (s_params infrared_protocol_nec))))
      (preamble_tolerance (p_timings (s_params infrared_protocol_nec))) \<and>
    MATCH_TIMING_F 2250 (ucast (preamble_space (p_timings (s_params infrared_protocol_nec))))
      (preamble_tolerance (p_timings (s_params infrared_protocol_nec))))"
    by code_simp
  from nec.pair_missed [OF 0 this] obtain d1 where
    1: "ir_feed (infrared_common_decode infrared_protocol_nec) d [(True, 9000), (False, 2250)] = Inr ([], d1)"
    and d1: "decoder_idle infrared_protocol_nec d1" "\<not> d_level d1" by blast
  with nec.mark_kept [OF d1, of 560] show ?case
    using ir_feed_append [of "infrared_common_decode infrared_protocol_nec" d "[(True, 9000), (False, 2250)]" "[(True, 560)]"]
    by simp
next
  case (Suc n)
  let ?D = "infrared_common_decode infrared_protocol_nec" and ?T = "p_timings (s_params infrared_protocol_nec)"
  have "\<not> (MATCH_TIMING_F 9000 (ucast (preamble_mark ?T)) (preamble_tolerance ?T) \<and>
    MATCH_TIMING_F 2250 (ucast (preamble_space ?T)) (preamble_tolerance ?T))" by code_simp
  from nec.pair_missed [OF Suc.prems this] obtain d1 where
    1: "ir_feed ?D d [(True, 9000), (False, 2250)] = Inr ([], d1)"
    and d1: "decoder_idle infrared_protocol_nec d1" "\<not> d_level d1" by blast
  have "\<not> (MATCH_TIMING_F 560 (ucast (preamble_mark ?T)) (preamble_tolerance ?T) \<and>
    MATCH_TIMING_F 98190 (ucast (preamble_space ?T)) (preamble_tolerance ?T))" by code_simp
  from nec.pair_missed [OF d1 this] obtain d2 where
    2: "ir_feed ?D d1 [(True, 560), (False, 98190)] = Inr ([], d2)"
    and d2: "decoder_idle infrared_protocol_nec d2" "\<not> d_level d2" by blast
  from Suc.IH [OF d2, of "Suc k"] 1 2 show ?case
    using ir_feed_append [of ?D d "[(True, 9000), (False, 2250)]"
        "(True, 560) # (False, 98190) # (True, 9000) # (False, 2250) # (True, 560) # nec_bursts s (Suc (Suc k)) n"]
      ir_feed_append [of ?D d1 "[(True, 560), (False, 98190)]"
        "(True, 9000) # (False, 2250) # (True, 560) # nec_bursts s (Suc (Suc k)) n"]
    by (auto simp: nec_repeat_code_def)
qed

text \<open>
  The duration of a frame, and with it the pause before the first repeat code: 110 ms less 13.5 ms
  of preamble, 560 us of the last mark, 1120 us for each bit and 1130 us more for each set bit.
\<close>

lemma nec_body_time:
  "line_time (pdwm_body (p_timings (s_params infrared_protocol_nec)) bs) =
     word_of_nat (560 + 1120 * length bs + 1130 * ones bs)"
proof (induction bs)
  case Nil
  show ?case
    by (simp add: infrared_protocol_nec_def pdm_def nec_bit1_mark_def pdwm_dur_def pdwm_nominal_def)
next
  case (Cons b bs)
  obtain k where k: "560 + 1120 * length bs + 1130 * ones bs = k" by simp
  have "line_time (pdwm_body (p_timings (s_params infrared_protocol_nec)) (b # bs)) =
      word_of_nat (560 + (if b then 1690 else 560) + k)"
    using Cons.IH unfolding k
    by (simp add: infrared_protocol_nec_def pdm_def nec_bit1_mark_def pdwm_dur_def pdwm_nominal_def)
  moreover have "560 + (if b then 1690 else 560) + k = 560 + 1120 * length (b # bs) + 1130 * ones (b # bs)"
    by (simp flip: k)
  ultimately show ?case by (simp only:)
qed

definition nec_pause :: "bool list \<Rightarrow> nat" where
  "nec_pause bs = 95940 - 1120 * length bs - 1130 * ones bs"

lemma nec_pause_word:
  assumes "length bs \<le> 42"
  shows "unat (nec_repeat_period - line_time (tl (pdwm_frame (p_timings (s_params infrared_protocol_nec)) bs))) = nec_pause bs"
proof -
  let ?T = "p_timings (s_params infrared_protocol_nec)"
  let ?k = "560 + 1120 * length bs + 1130 * ones bs"
  have k: "?k \<le> 96500" using assms ones_le [of bs] by simp
  have pre: "line_time (pdwm_preamble ?T) = 13500"
    by (simp add: pdwm_preamble_def infrared_protocol_nec_def)
  have "nec_repeat_period - line_time (tl (pdwm_frame ?T bs)) = 96500 - word_of_nat ?k"
    using pre unfolding pdwm_frame_def list.sel line_time_simps nec_body_time
    by (simp add: nec_repeat_period_def)
  also have "\<dots> = word_of_nat (96500 - ?k)" using k by (simp only: of_nat_diff) simp
  finally have "nec_repeat_period - line_time (tl (pdwm_frame ?T bs)) = word_of_nat (96500 - ?k)" .
  then show ?thesis by (simp only: unat_of_nat) (simp add: nec_pause_def)
qed

lemma nec_pause_ok:
  "length bs \<le> 42 \<Longrightarrow> nec_repeat_pause_min <
     nec_repeat_period - line_time (tl (pdwm_frame (p_timings (s_params infrared_protocol_nec)) bs)) \<longleftrightarrow> 4000 < nec_pause bs"
  "length bs \<le> 42 \<Longrightarrow> nec_repeat_period - line_time (tl (pdwm_frame (p_timings (s_params infrared_protocol_nec)) bs)) <
     nec_repeat_pause_max"
proof -
  have c: "unat nec_repeat_pause_min = 4000" "unat nec_repeat_pause_max = 150000"
    by (simp_all add: nec_repeat_pause_min_def nec_repeat_pause_max_def)
  show "length bs \<le> 42 \<Longrightarrow> nec_repeat_pause_min <
     nec_repeat_period - line_time (tl (pdwm_frame (p_timings (s_params infrared_protocol_nec)) bs)) \<longleftrightarrow> 4000 < nec_pause bs"
    and "length bs \<le> 42 \<Longrightarrow> nec_repeat_period - line_time (tl (pdwm_frame (p_timings (s_params infrared_protocol_nec)) bs)) <
     nec_repeat_pause_max"
    using nec_pause_word [of bs] c by (simp_all add: word_less_nat_alt nec_pause_def)
qed

lemma nec_pause_long:
  "length bs = 32 \<or> length bs = 42 \<Longrightarrow> 4000 < nec_pause bs \<longleftrightarrow> length bs = 32 \<or> ones bs \<le> 39"
  using ones_le [of bs] by (auto simp: nec_pause_def)

lemma nec_first_burst:
  assumes m: "nec_canon m" "encoder_alloc_ok infrared_protocol_nec e" "infrared_encoder_nec_reset e m = Inr e'"
    and d: "receiving infrared_protocol_nec (data_bits (e_data e') (nec_len m)) True d"
    and p: "nec_repeat_pause_min < pause" "pause < nec_repeat_pause_max"
  shows "\<exists>d'. ir_feed (infrared_common_decode infrared_protocol_nec) d (nec_repeat_code pause) =
      Inr ([m, m\<lparr>m_repeat := True\<rparr>], d') \<and> repeat_state [] True (m\<lparr>m_repeat := True\<rparr>) d'"
proof -
  have split: "min_split_time (p_timings (s_params infrared_protocol_nec)) = nec_repeat_pause_min"
    and rep: "s_decode_repeat infrared_protocol_nec \<noteq> None"
    by (simp_all add: infrared_protocol_nec_def)
  from nec.pause_reports [OF m d, unfolded split, OF p(1)] rep d obtain d1 where
    1: "infrared_common_decode infrared_protocol_nec d False pause = Inr (Some m, d1)"
    and d1: "repeat_state [pause] False m d1"
    by (auto simp: repeat_state_def receiving_def take_Suc_conv_app_nth)
  have "repeat_state [pause] (\<not> fst (hd (tl (nec_repeat_code pause)))) m d1"
    using d1 by (simp add: nec_repeat_code_def)
  from nec_rep.repeat_received [OF this] p obtain d2 where
    "ir_feed (infrared_common_decode infrared_protocol_nec) d1 (tl (nec_repeat_code pause)) =
       Inr ([m\<lparr>m_repeat := True\<rparr>], d2)" and "repeat_state [] True (m\<lparr>m_repeat := True\<rparr>) d2"
    by (auto simp: nec_repeat_code_def nec_repeat_ok_def nec_repeat_mark_def nec_repeat_space_def nec_bit1_mark_def)
  with 1 show ?thesis by (auto simp: nec_repeat_code_def)
qed

lemma nec_held_received:
  assumes m: "nec_canon m" "encoder_alloc_ok infrared_protocol_nec e" "infrared_encoder_nec_reset e m = Inr e'"
    and d: "receiving infrared_protocol_nec (data_bits (e_data e') (nec_len m)) True d"
    and p: "p = nec_repeat_period - s" "p < nec_repeat_pause_max"
    and full: "\<not> nec_repeat_pause_min < p \<Longrightarrow> nec_len m = 42"
  shows "\<exists>d'. ir_feed (infrared_common_decode infrared_protocol_nec) d (nec_bursts s 0 (Suc n)) =
      Inr (if nec_repeat_pause_min < p then m # replicate (Suc n) (m\<lparr>m_repeat := True\<rparr>) else [], d')"
proof (cases "nec_repeat_pause_min < p")
  case True
  from nec_first_burst [OF m d True p(2)] obtain d2 where
    2: "ir_feed (infrared_common_decode infrared_protocol_nec) d (nec_repeat_code p) =
        Inr ([m, m\<lparr>m_repeat := True\<rparr>], d2)"
    and d2: "repeat_state [] True (m\<lparr>m_repeat := True\<rparr>) d2" by auto
  from nec_bursts_received [OF d2, of "Suc 0" s n] True 2 p(1) show ?thesis by (auto simp: ir_feed_append)
next
  case False
  have t: "min_split_time (p_timings (s_params infrared_protocol_nec)) = nec_repeat_pause_min"
    "nec_repeat_pause_min \<noteq> 0" "databit_len0 (s_params infrared_protocol_nec) = 42"
    by (simp_all add: infrared_protocol_nec_def nec_repeat_pause_min_def databit_len0_def)
  from False have "p \<le> nec_repeat_pause_min" by (simp add: linorder_not_less)
  with nec.short_pause_drops [OF d, of p] False full t obtain d1 where
    1: "infrared_common_decode infrared_protocol_nec d False p = Inr (None, d1)"
    and d1: "decoder_idle infrared_protocol_nec d1" "\<not> d_level d1" by auto
  from nec_tail_missed [OF d1, of s 0 n] 1 False p(1) show ?thesis by (auto simp: nec_repeat_code_def)
qed

lemma nec_wrappers:
  "infrared_encoder_nec_encode = infrared_common_encode infrared_protocol_nec"
  "infrared_decoder_nec_decode = infrared_common_decode infrared_protocol_nec"
  "infrared_decoder_nec_check_ready = common_ready infrared_protocol_nec"
  by (simp_all add: infrared_encoder_nec_encode_def infrared_decoder_nec_decode_def infrared_decoder_nec_check_ready_def)

lemma nec_sequence:
  assumes m: "nec_canon m" and e: "encoder_alloc_ok infrared_protocol_nec e"
    and d: "decoder_idle infrared_protocol_nec d" and r: "infrared_encoder_nec_reset e m = Inr e1"
    and n: "4 + 2 * nec_len m + 4 * Suc n < 2 ^ 32"
  shows "ir_transfer_repeated infrared_encoder_nec_reset (infrared_common_encode infrared_protocol_nec)
      (infrared_common_decode infrared_protocol_nec) (Suc (Suc n)) e d m =
    Inr (if nec_len m = 32 \<or> ones (data_bits (e_data e1) (nec_len m)) \<le> 39
         then m # replicate (Suc n) (m\<lparr>m_repeat := True\<rparr>) else [])"
proof -
  let ?P = infrared_protocol_nec and ?T = "p_timings (s_params infrared_protocol_nec)"
  let ?bs = "data_bits (e_data e1) (nec_len m)"
  let ?s = "line_time (tl (pdwm_frame ?T ?bs))"
  have pdm: "pdm ?T" and rep: "s_decode_repeat ?P \<noteq> None" "s_encode_repeat ?P \<noteq> None"
    by (simp_all add: infrared_protocol_nec_def pdm_def nec_bit1_mark_def)
  have len: "nec_len m = 32 \<or> nec_len m = 42" by (simp add: nec_len_def)
  from nec.message_emitted [OF m e r] pdm rep obtain e2 where
    enc: "ir_encode_frame (infrared_common_encode ?P) ir_frame_fuel e1 = Inr (pdwm_frame ?T ?bs, e2)"
    and e2: "nec_repeating (nec_len m) ?s 0 e2"
    by (auto simp: frame_sent_def nec_repeating_def)
  from nec_bursts_sent [OF e2, of "Suc n"] n obtain e3 where
    bursts: "ir_encode_frames (infrared_common_encode ?P) (Suc n) e2 = Inr (nec_bursts ?s 0 (Suc n), e3)" by auto
  have alt: "alternating (pdwm_frame ?T ?bs @ nec_bursts ?s 0 (Suc n))"
    using nec_bursts_alternating [of ?s 0 "Suc n"] pdwm_frame_last [of ?T ?bs] pdm
    by (intro alternating_append) (auto simp: pdwm_frame_alternating)
  from nec.frame_received [OF d nec.frame_ok, of ?bs] pdm len obtain d1 where
    1: "ir_feed (infrared_common_decode ?P) d (pdwm_frame ?T ?bs) = Inr ([], d1)"
    and d1: "receiving ?P ?bs True d1" by auto
  have pause: "nec_repeat_pause_min < nec_repeat_period - ?s \<longleftrightarrow> nec_len m = 32 \<or> ones ?bs \<le> 39"
    using nec_pause_ok(1) [of ?bs] nec_pause_long [of ?bs] len by auto
  have "nec_repeat_period - ?s < nec_repeat_pause_max" using nec_pause_ok(2) [of ?bs] len by auto
  from nec_held_received [OF m e r d1 refl this, of n] pause len obtain d2 where
    2: "ir_feed (infrared_common_decode ?P) d1 (nec_bursts ?s 0 (Suc n)) =
        Inr (if nec_len m = 32 \<or> ones ?bs \<le> 39 then m # replicate (Suc n) (m\<lparr>m_repeat := True\<rparr>) else [], d2)"
    by auto
  have "ir_encode_frames (infrared_common_encode ?P) (Suc (Suc n)) e1 =
      Inr (pdwm_frame ?T ?bs @ nec_bursts ?s 0 (Suc n), e3)"
    unfolding ir_encode_frames.simps(2) [of _ "Suc n"] enc bursts bindr_Inr prod.case ..
  with r 1 2 alt show ?thesis
    by (simp add: ir_transfer_repeated_def ir_line_alternating ir_feed_append del: ir_encode_frames.simps nec_bursts.simps)
qed

lemma nec_allocs:
  "\<exists>e. infrared_encoder_nec_alloc = Inr e \<and> encoder_alloc_ok infrared_protocol_nec e"
  "\<exists>d. infrared_decoder_nec_alloc = Inr d \<and> decoder_idle infrared_protocol_nec d"
proof -
  obtain e where "infrared_common_encoder_alloc True infrared_protocol_nec = Inr e"
    by (simp add: infrared_common_encoder_alloc_def databit_lens_ok_def Let_def
        infrared_protocol_nec_def databit_len0_def nec_bit1_mark_def)
  then show "\<exists>e. infrared_encoder_nec_alloc = Inr e \<and> encoder_alloc_ok infrared_protocol_nec e"
    using encoder_alloc_alloc_ok unfolding infrared_encoder_nec_alloc_def by blast
  obtain d where "infrared_common_decoder_alloc infrared_protocol_nec = Inr d"
    by (simp add: infrared_common_decoder_alloc_def databit_lens_ok_def infrared_protocol_nec_def databit_len0_def)
  then show "\<exists>d. infrared_decoder_nec_alloc = Inr d \<and> decoder_idle infrared_protocol_nec d"
    using decoder_alloc_idle unfolding infrared_decoder_nec_alloc_def by blast
qed

lemma replicate_numeral: "replicate 6 (0::u8) = [0, 0, 0, 0, 0, 0]"
  by (simp add: eval_nat_numeral)

lemma data_bits_take: "data_bits (take k xs) (8 * k) = data_bits xs (8 * k)"
  by (rule data_bits_cong) (simp add: byte_bit_def less_mult_imp_div_less mult.commute)

section \<open>Properties\<close>

text \<open>
  a NEC, NECext, NEC42 or NEC42ext message in canonical form, sent by the encoder and fed
  to a decoder that waits for a frame, is reported by \<^verbatim>\<open>check_ready\<close> as the same message,
  and nothing is reported before the frame is complete.
\<close>

theorem nec_transfer:
  assumes "nec_canon m" and "encoder_alloc_ok infrared_protocol_nec e" and "decoder_idle infrared_protocol_nec d"
  shows "ir_transfer infrared_encoder_nec_reset infrared_encoder_nec_encode infrared_decoder_nec_decode
     infrared_decoder_nec_check_ready e d m = Inr ([], Some m)"
  using nec.transfer_ok [OF assms] by (simp add: nec_wrappers)

definition nec_example :: infrared_message where
  "nec_example = \<lparr>m_protocol = InfraredProtocolNEC42ext, m_address = 0x2345678, m_command = 0xABCD, m_repeat = False\<rparr>"

theorem nec_transfer_witness:
  "bindr infrared_encoder_nec_alloc (\<lambda>e. bindr infrared_decoder_nec_alloc (\<lambda>d.
     ir_transfer infrared_encoder_nec_reset infrared_encoder_nec_encode infrared_decoder_nec_decode
       infrared_decoder_nec_check_ready e d nec_example)) = Inr ([], Some nec_example)"
proof -
  obtain e where e: "infrared_encoder_nec_alloc = Inr e" "encoder_alloc_ok infrared_protocol_nec e"
    using nec_allocs(1) by blast
  obtain d where d: "infrared_decoder_nec_alloc = Inr d" "decoder_idle infrared_protocol_nec d"
    using nec_allocs(2) by blast
  have "nec_canon nec_example"
    by (simp add: nec_canon_def nec_example_def fits_def nec42_plain_def)
  with nec_transfer [OF this e(2) d(2)] show ?thesis by (simp add: e d)
qed

text \<open>
  C27: the decoder tolerates jitter. Any signal whose marks and spaces stay within the
  tolerances of the table, for the bits that the encoder packs, is read back as the message.
\<close>

theorem nec_jitter:
  assumes "nec_canon m" and "encoder_alloc_ok infrared_protocol_nec e" and "decoder_idle infrared_protocol_nec d"
    and "infrared_encoder_nec_reset e m = Inr e'"
    and "pdwm_frame_ok (p_timings (s_params infrared_protocol_nec)) (data_bits (e_data e') (nec_len m)) xs"
  shows "\<exists>d1 d2. ir_feed infrared_decoder_nec_decode d xs = Inr ([], d1) \<and>
     infrared_decoder_nec_check_ready d1 = Inr (Some m, d2)"
  using nec.signal_understood [OF assms(1,2,4,3,5)] by (simp add: nec_wrappers)

definition nec_noisy :: "(bool \<times> u32) list" where
  "nec_noisy = map (\<lambda>(l, x). (l, if l then x + 90 else x - 90))
     (pdwm_frame (p_timings (s_params infrared_protocol_nec)) (data_bits [0x12, 0xED, 0x34, 0xCB] 32))"

definition nec_message :: infrared_message where
  "nec_message = \<lparr>m_protocol = InfraredProtocolNEC, m_address = 0x12, m_command = 0x34, m_repeat = False\<rparr>"

theorem nec_jitter_witness:
  "\<exists>d d1 d2. infrared_decoder_nec_alloc = Inr d \<and> ir_feed infrared_decoder_nec_decode d nec_noisy = Inr ([], d1) \<and>
     infrared_decoder_nec_check_ready d1 = Inr (Some nec_message, d2)"
proof -
  obtain e where e: "infrared_encoder_nec_alloc = Inr e" "encoder_alloc_ok infrared_protocol_nec e"
    using nec_allocs(1) by blast
  obtain d where d: "infrared_decoder_nec_alloc = Inr d" "decoder_idle infrared_protocol_nec d"
    using nec_allocs(2) by blast
  have m: "nec_canon nec_message" by (simp add: nec_canon_def nec_message_def fits_def)
  obtain e' where r: "infrared_encoder_nec_reset e nec_message = Inr e'" using nec.packed [OF m e(2)] by blast
  have "take 4 (e_data e') = [0x12, 0xED, 0x34, 0xCB]"
    using r e(2)
    by (auto simp: infrared_encoder_nec_reset_def nec_encoder_reset nec_message_def bindr_eq_Inr write_u32_def
        replicate_numeral)
  then have "data_bits (e_data e') 32 = data_bits [0x12, 0xED, 0x34, 0xCB] 32"
    using data_bits_take [of 4 "e_data e'"] by simp
  moreover have "pdwm_frame_ok (p_timings (s_params infrared_protocol_nec)) (data_bits [0x12, 0xED, 0x34, 0xCB] 32) nec_noisy"
    by code_simp
  ultimately show ?thesis
    using nec_jitter [OF m e(2) d(2) r, of nec_noisy] by (simp add: d nec_len_def nec_message_def)
qed

text \<open>
  C28: a held button. A NEC, NECext, NEC42 or NEC42ext message followed by \<open>n + 1\<close> repeat codes
  (as many as the encoder's 32-bit counter of timings can count) is reported once as the message
  and \<open>n + 1\<close> times as the message with its repeat flag set, unless it has 42 bits of which 40 or
  more are set: the encoder then shortens the pause after the frame to at most 4000 us, the decoder
  takes the frame for one that is too long, and nothing at all is reported.
\<close>

theorem nec_repeats:
  assumes "nec_canon m" and "encoder_alloc_ok infrared_protocol_nec e" and "decoder_idle infrared_protocol_nec d"
    and "infrared_encoder_nec_reset e m = Inr e'" and "4 + 2 * nec_len m + 4 * (n + 1) < 2 ^ 32"
  shows "ir_transfer_repeated infrared_encoder_nec_reset infrared_encoder_nec_encode infrared_decoder_nec_decode
      (n + 2) e d m =
    Inr (if nec_len m = 32 \<or> length (filter id (data_bits (e_data e') (nec_len m))) \<le> 39
         then m # replicate (n + 1) (m\<lparr>m_repeat := True\<rparr>) else [])"
  using nec_sequence [OF assms(1-4), of n] assms(5) by (simp add: nec_wrappers ones_def)

definition nec_dense :: infrared_message where
  "nec_dense = \<lparr>m_protocol = InfraredProtocolNEC42ext, m_address = 0x3FFFFFF, m_command = 0xFFFF, m_repeat = False\<rparr>"

theorem nec_repeats_witness:
  "bindr infrared_encoder_nec_alloc (\<lambda>e. bindr infrared_decoder_nec_alloc (\<lambda>d.
     ir_transfer_repeated infrared_encoder_nec_reset infrared_encoder_nec_encode infrared_decoder_nec_decode
       4 e d nec_message)) =
     Inr (nec_message # replicate 3 (nec_message\<lparr>m_repeat := True\<rparr>)) \<and>
   bindr infrared_encoder_nec_alloc (\<lambda>e. bindr infrared_decoder_nec_alloc (\<lambda>d.
     ir_transfer_repeated infrared_encoder_nec_reset infrared_encoder_nec_encode infrared_decoder_nec_decode
       4 e d nec_dense)) = Inr []"
proof -
  obtain e where e: "infrared_encoder_nec_alloc = Inr e" "encoder_alloc_ok infrared_protocol_nec e"
    using nec_allocs(1) by blast
  obtain d where d: "infrared_decoder_nec_alloc = Inr d" "decoder_idle infrared_protocol_nec d"
    using nec_allocs(2) by blast
  have m: "nec_canon nec_message" "nec_len nec_message = 32"
    by (simp_all add: nec_canon_def nec_message_def fits_def nec_len_def)
  obtain e1 where r1: "infrared_encoder_nec_reset e nec_message = Inr e1" using nec.packed [OF m(1) e(2)] by blast
  have c: "nec_canon nec_dense" "nec_len nec_dense = 42"
    by (simp_all add: nec_canon_def nec_dense_def fits_def nec42_plain_def nec_len_def)
  obtain e2 where r2: "infrared_encoder_nec_reset e nec_dense = Inr e2" using nec.packed [OF c(1) e(2)] by blast
  have "take 6 (e_data e2) = [0xFF, 0xFF, 0xFF, 0xFF, 0xFF, 0x03]"
    using r2 e(2)
    by (auto simp: infrared_encoder_nec_reset_def nec_encoder_reset nec_dense_def bindr_eq_Inr write_u32_def
        replicate_numeral)
  moreover have "data_bits (e_data e2) 42 = take 42 (data_bits (e_data e2) 48)"
    by (simp add: data_bits_def take_map)
  ultimately have "data_bits (e_data e2) 42 = take 42 (data_bits [0xFF, 0xFF, 0xFF, 0xFF, 0xFF, 0x03] 48)"
    using data_bits_take [of 6 "e_data e2"] by simp
  moreover have "length (filter id (take 42 (data_bits [0xFF, 0xFF, 0xFF, 0xFF, 0xFF, 0x03] 48))) = 42" by code_simp
  ultimately have "length (filter id (data_bits (e_data e2) 42)) = 42" by simp
  with nec_repeats [OF m(1) e(2) d(2) r1, of 2] nec_repeats [OF c(1) e(2) d(2) r2, of 2] m(2) c(2)
  show ?thesis by (simp add: e d)
qed

end
