(* ===== verification/Infrared_Samsung.thy ===== *)
theory Infrared_Samsung
  imports Infrared_Pdwm
begin

text \<open>
  Samsung32 (\<^verbatim>\<open>lib/infrared/encoder_decoder/samsung\<close>): an address sent twice, a command and its
  complement, and a repeat code of 6 timings.
\<close>

section \<open>Decoder\<close>

definition infrared_decoder_samsung32_interpret :: ir_interpret where
  "infrared_decoder_samsung32_interpret p d =
     bindr (list_get (d_data d) 0) (\<lambda>address1.
     bindr (list_get (d_data d) 1) (\<lambda>address2.
     bindr (list_get (d_data d) 2) (\<lambda>command.
     bindr (list_get (d_data d) 3) (\<lambda>command_inverse.
       if address1 = address2 \<and> command = NOT command_inverse
       then Inr (True, d\<lparr>d_message := \<lparr>m_protocol = InfraredProtocolSamsung32,
              m_address = ucast address1, m_command = ucast command, m_repeat = False\<rparr>\<rparr>)
       else Inr (False, d)))))"

definition samsung_repeat_pause_min :: u32 where "samsung_repeat_pause_min = 30000"
definition samsung_repeat_pause_max :: u32 where "samsung_repeat_pause_max = 140000"
definition samsung_repeat_pause1 :: u32 where "samsung_repeat_pause1 = 46000"
definition samsung_repeat_pause2 :: u32 where "samsung_repeat_pause2 = 97000"
definition samsung_repeat_mark :: u32 where "samsung_repeat_mark = 4500"
definition samsung_repeat_space :: u32 where "samsung_repeat_space = 4500"
definition samsung_bit1_mark :: u16 where "samsung_bit1_mark = 550"
definition samsung_bit1_space :: u16 where "samsung_bit1_space = 1650"

definition infrared_decoder_samsung32_decode_repeat :: ir_decode_repeat where
  "infrared_decoder_samsung32_decode_repeat p d =
     (let t = p_timings p; ts = d_timings d
      in if d_timings_cnt d < 6 then Inr (InfraredStatusOk, d)
         else bindr (list_get ts 0) (\<lambda>t0. bindr (list_get ts 1) (\<lambda>t1. bindr (list_get ts 2) (\<lambda>t2.
              bindr (list_get ts 3) (\<lambda>t3. bindr (list_get ts 4) (\<lambda>t4. bindr (list_get ts 5) (\<lambda>t5.
                if t0 > samsung_repeat_pause_min \<and> t0 < samsung_repeat_pause_max \<and>
                   MATCH_TIMING_F t1 samsung_repeat_mark (preamble_tolerance t) \<and>
                   MATCH_TIMING_F t2 samsung_repeat_space (preamble_tolerance t) \<and>
                   MATCH_TIMING t3 (ucast (bit1_mark t)) (bit_tolerance t) \<and>
                   MATCH_TIMING t4 (ucast (bit1_space t)) (bit_tolerance t) \<and>
                   MATCH_TIMING t5 (ucast (bit1_mark t)) (bit_tolerance t)
                then Inr (InfraredStatusReady, d\<lparr>d_timings_cnt := 0\<rparr>)
                else Inr (InfraredStatusError, d))))))))"

section \<open>Encoder\<close>

definition samsung_repeat_timings :: "u32 list" where
  "samsung_repeat_timings =
     [samsung_repeat_pause2, samsung_repeat_mark, samsung_repeat_space,
      ucast samsung_bit1_mark, ucast samsung_bit1_space, ucast samsung_bit1_mark]"

definition infrared_encoder_samsung32_encode_repeat :: ir_encode where
  "infrared_encoder_samsung32_encode_repeat p e =
     (let timings_encoded_up_to_repeat = 1 + 2 + e_bits_encoded e * 2 + 1;
          repeat_cnt = e_timings_encoded e - timings_encoded_up_to_repeat
      in bindr (furi_assert (e_timings_encoded e \<ge> timings_encoded_up_to_repeat)) (\<lambda>_.
         bindr (if repeat_cnt > 0
                then list_get samsung_repeat_timings (repeat_cnt mod length samsung_repeat_timings)
                else Inr samsung_repeat_pause1) (\<lambda>duration.
         Inr (if (repeat_cnt + 1) mod length samsung_repeat_timings = 0
              then InfraredStatusDone else InfraredStatusOk,
              duration, repeat_cnt mod 2 = 1,
              e\<lparr>e_timings_encoded := inc32 (e_timings_encoded e)\<rparr>))))"

definition infrared_protocol_samsung32 :: infrared_common_protocol_spec where
  "infrared_protocol_samsung32 =
     \<lparr>s_params = \<lparr>p_timings = \<lparr>min_split_time = 5000, silence_time = 145000,
          preamble_mark = 4500, preamble_space = 4500,
          bit1_mark = samsung_bit1_mark, bit1_space = samsung_bit1_space,
          bit0_mark = 550, bit0_space = 550,
          preamble_tolerance = 200, bit_tolerance = 120\<rparr>,
        p_manchester_start_from_space = False, p_databit_len = [32, 0, 0, 0]\<rparr>,
      s_decode = infrared_common_decode_pdwm,
      s_decode_repeat = Some infrared_decoder_samsung32_decode_repeat,
      s_interpret = infrared_decoder_samsung32_interpret,
      s_encode = infrared_common_encode_pdwm,
      s_encode_repeat = Some infrared_encoder_samsung32_encode_repeat\<rparr>"

definition infrared_encoder_samsung32_reset :: "infrared_common_encoder \<Rightarrow> infrared_message
    \<Rightarrow> infrared_common_encoder res" where
  "infrared_encoder_samsung32_reset e0 m =
     bindr (infrared_common_encoder_reset infrared_protocol_samsung32 e0) (\<lambda>e.
     let address = (ucast (m_address m) :: u8); command = (ucast (m_command m) :: u8) in
     bindr (read_u32 (e_data e) 0) (\<lambda>data0.
     bindr (write_u32 (e_data e) 0
              (data0 OR word_of_bytes address address command (NOT command))) (\<lambda>data.
       Inr (e\<lparr>e_data := data,
              e_bits_to_encode := databit_len0 (s_params infrared_protocol_samsung32)\<rparr>))))"

section \<open>Wrappers and variants\<close>

definition infrared_decoder_samsung32_alloc :: "infrared_common_decoder res" where
  "infrared_decoder_samsung32_alloc = infrared_common_decoder_alloc infrared_protocol_samsung32"

definition infrared_decoder_samsung32_decode :: "infrared_common_decoder \<Rightarrow> bool \<Rightarrow> u32
    \<Rightarrow> (infrared_message option \<times> infrared_common_decoder) res" where
  "infrared_decoder_samsung32_decode = infrared_common_decode infrared_protocol_samsung32"

definition infrared_decoder_samsung32_check_ready :: "infrared_common_decoder
    \<Rightarrow> (infrared_message option \<times> infrared_common_decoder) res" where
  "infrared_decoder_samsung32_check_ready = common_ready infrared_protocol_samsung32"

definition infrared_decoder_samsung32_reset :: "infrared_common_decoder \<Rightarrow> infrared_common_decoder res" where
  "infrared_decoder_samsung32_reset = infrared_common_decoder_reset infrared_protocol_samsung32"

definition infrared_encoder_samsung32_alloc :: "infrared_common_encoder res" where
  "infrared_encoder_samsung32_alloc = infrared_common_encoder_alloc True infrared_protocol_samsung32"

definition infrared_encoder_samsung32_encode :: "infrared_common_encoder \<Rightarrow> ir_encode_result" where
  "infrared_encoder_samsung32_encode = infrared_common_encode infrared_protocol_samsung32"

definition infrared_protocol_samsung32_get_variant :: "infrared_protocol \<Rightarrow> infrared_protocol_variant option" where
  "infrared_protocol_samsung32_get_variant protocol =
     (if protocol = InfraredProtocolSamsung32
      then Some \<lparr>v_name = ''Samsung32'', v_address_length = 8, v_command_length = 8,
          v_frequency = infrared_common_carrier_frequency, v_duty_cycle = infrared_common_duty_cycle,
          v_repeat_count = 1\<rparr>
      else None)"

section \<open>Messages and their payload\<close>

definition samsung_canon :: "infrared_message \<Rightarrow> bool" where
  "samsung_canon m \<longleftrightarrow> \<not> m_repeat m \<and> m_protocol m = InfraredProtocolSamsung32 \<and>
     fits 8 (m_address m) \<and> fits 8 (m_command m)"

lemma samsung_params [simp]:
  "p_databit_len (s_params infrared_protocol_samsung32) = [32, 0, 0, 0]"
  "databit_len0 (s_params infrared_protocol_samsung32) = 32"
  "s_interpret infrared_protocol_samsung32 = infrared_decoder_samsung32_interpret"
  by (simp_all add: infrared_protocol_samsung32_def databit_len0_def)

lemma samsung_payload [simp]: "payload_ok (s_params infrared_protocol_samsung32) d = (length (d_data d) = 6)"
  by (simp add: payload_ok_def bytes_for_bits_def decoder_tail_padding_def)

lemma samsung_understood:
  assumes "write_u32 xs 0 (word_of_bytes a a c (NOT c)) = Inr ys"
  shows "understood infrared_protocol_samsung32 32 ys \<lparr>m_protocol = InfraredProtocolSamsung32,
     m_address = ucast a, m_command = ucast c, m_repeat = False\<rparr>"
  unfolding understood_def
proof (intro allI impI)
  fix d assume "payload_ok (s_params infrared_protocol_samsung32) d" "d_databit_cnt d = 32"
    and bits: "data_bits (d_data d) 32 = data_bits ys 32"
  with received_bytes [OF assms bits]
  show "\<exists>d'. s_interpret infrared_protocol_samsung32 (s_params infrared_protocol_samsung32) d = Inr (True, d') \<and>
      d_message d' = \<lparr>m_protocol = InfraredProtocolSamsung32,
        m_address = ucast a, m_command = ucast c, m_repeat = False\<rparr>"
    by (simp add: infrared_decoder_samsung32_interpret_def fault_simps)
qed

lemma samsung_packed:
  assumes m: "samsung_canon m" and e: "encoder_alloc_ok infrared_protocol_samsung32 e"
  shows "\<exists>e'. infrared_encoder_samsung32_reset e m = Inr e' \<and> packs infrared_protocol_samsung32 m 32 e'"
proof -
  let ?a = "ucast (m_address m) :: u8" and ?c = "ucast (m_command m) :: u8"
  let ?xs = "replicate 4 0 @ drop 4 (e_data e)" and ?v = "word_of_bytes ?a ?a ?c (NOT ?c)"
  have len: "length (e_data e) = 40"
    using e by (simp add: encoder_alloc_ok_def bytes_for_bits_def encoder_extra_bytes_def)
  then have zero: "read_u32 ?xs 0 = Inr 0"
    by (simp add: read_u32_def word_of_bytes_def nth_append eval_nat_numeral)
  obtain ys where ys: "write_u32 ?xs 0 ?v = Inr ys" "length ys = 40"
    using write_u32_ok [of 0 ?xs ?v] len by auto
  have "ucast ?a = m_address m" "ucast ?c = m_command m"
    using m by (auto intro!: bit_word_eqI simp: bit_simps samsung_canon_def dest: fits_bit)
  with m have "m = \<lparr>m_protocol = InfraredProtocolSamsung32, m_address = ucast ?a, m_command = ucast ?c, m_repeat = False\<rparr>"
    by (cases m) (simp add: samsung_canon_def)
  with samsung_understood [OF ys(1)] have "understood infrared_protocol_samsung32 32 ys m" by simp
  with ys len zero show ?thesis
    by (auto simp: infrared_encoder_samsung32_reset_def infrared_common_encoder_reset_def bytes_for_bits_def
        Let_def packs_def encoder_ready_def encoder_alloc_ok_def encoder_extra_bytes_def)
qed

section \<open>The protocol meets its contracts\<close>

lemma samsung_timings_ok: "pdwm_timings_ok (p_timings (s_params infrared_protocol_samsung32))"
  by (simp add: pdwm_timings_ok_def windows_disjoint_def pdm_def infrared_protocol_samsung32_def
      samsung_bit1_mark_def samsung_bit1_space_def)

lemma samsung_decode_repeat_ops:
  assumes "length (d_timings d) = 6" and "d_timings_cnt d \<le> 6"
  shows "\<exists>st d'. infrared_decoder_samsung32_decode_repeat p d = Inr (st, d') \<and>
    (st = InfraredStatusOk \<and> d' = d \<and> d_timings_cnt d \<le> 5 \<or> st = InfraredStatusError \<and> d' = d \<or>
     st = InfraredStatusReady \<and> d' = d\<lparr>d_timings_cnt := 0\<rparr>)"
  using assms by (simp add: infrared_decoder_samsung32_decode_repeat_def Let_def fault_simps)

lemma samsung_interpret_ops:
  assumes "length (d_data d) = 6"
  shows "\<exists>ok d'. infrared_decoder_samsung32_interpret p d = Inr (ok, d') \<and> same_frame d d' \<and>
    d_databit_cnt d' = d_databit_cnt d"
  using assms by (auto simp: infrared_decoder_samsung32_interpret_def fault_simps same_frame_def)

interpretation samsung: pdwm_codec infrared_protocol_samsung32 samsung_canon infrared_encoder_samsung32_reset "\<lambda>_. 32"
proof unfold_locales
  show "s_decode infrared_protocol_samsung32 = infrared_common_decode_pdwm"
    and "s_encode infrared_protocol_samsung32 = infrared_common_encode_pdwm"
    by (simp_all add: infrared_protocol_samsung32_def)
  show "pdwm_timings_ok (p_timings (s_params infrared_protocol_samsung32))" by (rule samsung_timings_ok)
  show "\<exists>ok d'. s_interpret infrared_protocol_samsung32 (s_params infrared_protocol_samsung32) d = Inr (ok, d') \<and>
      same_frame d d' \<and> d_databit_cnt d' = d_databit_cnt d"
    if "payload_ok (s_params infrared_protocol_samsung32) d" for d
    using that samsung_interpret_ops [of d "s_params infrared_protocol_samsung32"] by simp
next
  fix f and d :: infrared_common_decoder
  assume f: "s_decode_repeat infrared_protocol_samsung32 = Some f"
  then have "f = infrared_decoder_samsung32_decode_repeat" by (simp add: infrared_protocol_samsung32_def)
  then show "length (d_timings d) = 6 \<Longrightarrow> d_timings_cnt d \<le> 6 \<Longrightarrow>
      \<exists>st d'. f (s_params infrared_protocol_samsung32) d = Inr (st, d') \<and>
            (st = InfraredStatusOk \<and> d' = d \<and> d_timings_cnt d \<le> 5 \<or>
             st = InfraredStatusError \<and> d' = d \<or>
             st = InfraredStatusReady \<and> d' = d\<lparr>d_timings_cnt := 0\<rparr>)"
    and "d_timings_cnt d = 1 \<Longrightarrow> f (s_params infrared_protocol_samsung32) d = Inr (InfraredStatusOk, d)"
    using samsung_decode_repeat_ops by (auto simp: infrared_decoder_samsung32_decode_repeat_def Let_def)
qed (use samsung_packed in simp_all)

interpretation samsung_safe: infrared_protocol_safe infrared_protocol_samsung32 "pdwm_fed infrared_protocol_samsung32"
  by unfold_locales (simp split: if_splits)

definition samsung_repeat_ok :: "u32 list \<Rightarrow> bool" where
  "samsung_repeat_ok ts \<longleftrightarrow> samsung_repeat_pause_min < ts ! 0 \<and> ts ! 0 < samsung_repeat_pause_max \<and>
     tl ts = tl samsung_repeat_timings"

interpretation samsung_rep: infrared_repeat_code infrared_protocol_samsung32
  infrared_decoder_samsung32_decode_repeat 6 samsung_repeat_ok
proof unfold_locales
  fix d :: infrared_common_decoder
  assume six: "d_timings_cnt d = 6" "length (d_timings d) = 6" and "samsung_repeat_ok (take 6 (d_timings d))"
  then obtain a where "d_timings d = a # tl samsung_repeat_timings"
      "samsung_repeat_pause_min < a" "a < samsung_repeat_pause_max"
    by (cases "d_timings d") (auto simp: samsung_repeat_ok_def)
  with six(1) show "infrared_decoder_samsung32_decode_repeat (s_params infrared_protocol_samsung32) d =
      Inr (InfraredStatusReady, d\<lparr>d_timings_cnt := 0\<rparr>)"
    by (simp add: infrared_decoder_samsung32_decode_repeat_def Let_def list_get_def nth_Cons'
        infrared_protocol_samsung32_def samsung_repeat_timings_def match_timing_f_exact MATCH_TIMING_def
        samsung_bit1_mark_def samsung_bit1_space_def)
qed (simp_all add: infrared_protocol_samsung32_def infrared_decoder_samsung32_decode_repeat_def Let_def)

section \<open>Properties\<close>

lemma samsung_wrappers:
  "infrared_encoder_samsung32_encode = infrared_common_encode infrared_protocol_samsung32"
  "infrared_decoder_samsung32_decode = infrared_common_decode infrared_protocol_samsung32"
  "infrared_decoder_samsung32_check_ready = common_ready infrared_protocol_samsung32"
  by (simp_all add: infrared_encoder_samsung32_encode_def infrared_decoder_samsung32_decode_def infrared_decoder_samsung32_check_ready_def)

lemma samsung_allocs:
  "\<exists>e. infrared_encoder_samsung32_alloc = Inr e \<and> encoder_alloc_ok infrared_protocol_samsung32 e"
  "\<exists>d. infrared_decoder_samsung32_alloc = Inr d \<and> decoder_idle infrared_protocol_samsung32 d"
proof -
  obtain e where "infrared_common_encoder_alloc True infrared_protocol_samsung32 = Inr e"
    by (simp add: infrared_common_encoder_alloc_def databit_lens_ok_def Let_def
        infrared_protocol_samsung32_def databit_len0_def samsung_bit1_mark_def samsung_bit1_space_def)
  then show "\<exists>e. infrared_encoder_samsung32_alloc = Inr e \<and> encoder_alloc_ok infrared_protocol_samsung32 e"
    using encoder_alloc_alloc_ok unfolding infrared_encoder_samsung32_alloc_def by blast
  obtain d where "infrared_common_decoder_alloc infrared_protocol_samsung32 = Inr d"
    by (simp add: infrared_common_decoder_alloc_def databit_lens_ok_def infrared_protocol_samsung32_def databit_len0_def)
  then show "\<exists>d. infrared_decoder_samsung32_alloc = Inr d \<and> decoder_idle infrared_protocol_samsung32 d"
    using decoder_alloc_idle unfolding infrared_decoder_samsung32_alloc_def by blast
qed

text \<open>
  a Samsung32 message with an 8-bit address and an 8-bit command survives a transfer, and nothing is
  reported before the frame is complete.
\<close>

theorem samsung_transfer:
  assumes "samsung_canon m" and "encoder_alloc_ok infrared_protocol_samsung32 e" and "decoder_idle infrared_protocol_samsung32 d"
  shows "ir_transfer infrared_encoder_samsung32_reset infrared_encoder_samsung32_encode infrared_decoder_samsung32_decode
     infrared_decoder_samsung32_check_ready e d m = Inr ([], Some m)"
  using samsung.transfer_ok [OF assms] by (simp add: samsung_wrappers)

definition samsung_example :: infrared_message where
  "samsung_example = \<lparr>m_protocol = InfraredProtocolSamsung32, m_address = 0xE0, m_command = 0x19, m_repeat = False\<rparr>"

theorem samsung_transfer_witness:
  "bindr infrared_encoder_samsung32_alloc (\<lambda>e. bindr infrared_decoder_samsung32_alloc (\<lambda>d.
     ir_transfer infrared_encoder_samsung32_reset infrared_encoder_samsung32_encode infrared_decoder_samsung32_decode
       infrared_decoder_samsung32_check_ready e d samsung_example)) = Inr ([], Some samsung_example)"
proof -
  obtain e where e: "infrared_encoder_samsung32_alloc = Inr e" "encoder_alloc_ok infrared_protocol_samsung32 e"
    using samsung_allocs(1) by blast
  obtain d where d: "infrared_decoder_samsung32_alloc = Inr d" "decoder_idle infrared_protocol_samsung32 d"
    using samsung_allocs(2) by blast
  have "samsung_canon samsung_example" by (simp add: samsung_canon_def samsung_example_def fits_def)
  with samsung_transfer [OF this e(2) d(2)] show ?thesis by (simp add: e d)
qed

end
