(* ===== verification/Infrared_Manchester.thy ===== *)
theory Infrared_Manchester
  imports Infrared_Codec
begin

text \<open>
  Manchester modulation. The encoder emits two halves per bit, the bit's level and its
  complement; on the line halves of the same level merge. The decoder of
  \<^verbatim>\<open>infrared_common_decode_manchester\<close> takes a bit when the first half of the bit ends.
  The lemmas are stated for one timing (\<open>half_single\<close>, \<open>bit_single\<close>, \<open>bit_double\<close>) and then
  for the merged signal of a sequence of bits (\<open>runs_received\<close>).
\<close>

section \<open>The signal\<close>

text \<open>
  Bits with the duration of their halves. \<open>man_tail b u bs\<close> is what follows the first half of
  the bit \<open>b\<close>: its second half and the remaining bits; a final low half is not sent.
\<close>

fun man_tail :: "bool \<Rightarrow> u32 \<Rightarrow> (bool \<times> u32) list \<Rightarrow> (bool \<times> u32) list" where
  "man_tail b u [] = (if b then [] else [(True, u)])"
| "man_tail b u ((b', u') # bs) = (\<not> b, u) # (b', u') # man_tail b' u' bs"

text \<open>The same on the line, where equal levels merge.\<close>

fun man_runs :: "bool \<Rightarrow> u32 \<Rightarrow> (bool \<times> u32) list \<Rightarrow> (bool \<times> u32) list" where
  "man_runs b u [] = (if b then [] else [(True, u)])"
| "man_runs b u ((b', u') # bs) =
     (if b' = b then (\<not> b, u) # (b', u') # man_runs b' u' bs
      else (\<not> b, u + u') # man_runs b' u' bs)"

lemma ir_line_man_tail: "ir_line ((b, a) # man_tail b u bs) = (b, a) # man_runs b u bs"
proof (induction bs arbitrary: b a u)
  case Nil
  then show ?case by simp
next
  case (Cons x bs)
  obtain b' u' where x: "x = (b', u')" by (cases x)
  show ?case
  proof (cases "b' = b")
    case True
    with x Cons.IH [of b' u' u'] show ?thesis by simp
  next
    case False
    with x Cons.IH [of b' "u + u'" u'] show ?thesis by simp
  qed
qed

section \<open>Decoding one timing\<close>

definition man_single :: "ir_params \<Rightarrow> u32 \<Rightarrow> bool" where
  "man_single p x \<longleftrightarrow> MATCH_TIMING x (ucast (bit1_mark (p_timings p))) (bit_tolerance (p_timings p))"

definition man_double :: "ir_params \<Rightarrow> u32 \<Rightarrow> bool" where
  "man_double p x \<longleftrightarrow> MATCH_TIMING x (2 * ucast (bit1_mark (p_timings p))) (bit_tolerance (p_timings p))"

lemma manchester_unfold:
  "infrared_common_decode_manchester p d lvl timing =
     (if \<not> man_single p timing \<and> \<not> man_double p timing then Inr (InfraredStatusError, d)
      else bindr (if p_manchester_start_from_space p \<and> d_databit_cnt d = 0
                  then accumulate_lsb (d\<lparr>d_switch_detect := True\<rparr>) False else Inr d) (\<lambda>d1.
           if \<not> d_switch_detect d1 \<and> man_double p timing then Inr (InfraredStatusError, d1)
           else
             let d2 = (if \<not> d_switch_detect d1 then d1\<lparr>d_switch_detect := True\<rparr>
                       else if man_single p timing then d1\<lparr>d_switch_detect := False\<rparr> else d1)
             in if d_switch_detect d2
                then if databit_len0 p = d_databit_cnt d2 then Inr (InfraredStatusError, d2)
                     else bindr (accumulate_lsb d2 lvl) (\<lambda>d3. Inr (InfraredStatusOk, d3))
                else Inr (InfraredStatusOk, d2)))"
  unfolding infrared_common_decode_manchester_def man_single_def man_double_def Let_def ..

lemma accumulate_within:
  assumes "payload_ok p d" and "d_databit_cnt d < databit_len0 p" and "databit_len0 p < 256"
  shows "accumulate_lsb d b = Inr (d\<lparr>d_data := accumulated (d_data d) (d_databit_cnt d) b,
           d_databit_cnt := Suc (d_databit_cnt d)\<rparr>)"
  using assms bytes_for_bits_index [OF assms(2)] by (simp add: accumulate_lsb_ok payload_ok_def)

text \<open>
  Whatever the timing, the decoder does not fault and never exceeds the payload; a bit is only
  taken with \<open>d_switch_detect\<close> set.
\<close>

lemma manchester_decode_ok:
  assumes pay: "payload_ok p d" and cnt: "d_databit_cnt d \<le> databit_len0 p"
    and len: "1 < databit_len0 p" "databit_len0 p < 256"
  shows "\<exists>st d'. infrared_common_decode_manchester p d lvl timing = Inr (st, d') \<and>
     (st = InfraredStatusOk \<or> st = InfraredStatusError) \<and> same_frame d d' \<and>
     d_databit_cnt d' \<le> databit_len0 p \<and> d_databit_cnt d \<le> d_databit_cnt d' \<and>
     d_databit_cnt d' \<le> d_databit_cnt d + (if d_databit_cnt d = 0 then 2 else 1) \<and>
     (st = InfraredStatusOk \<longrightarrow> d_databit_cnt d' \<le> 2 \<or> d_databit_cnt d' = d_databit_cnt d \<or> d_switch_detect d')"
proof (cases "\<not> man_single p timing \<and> \<not> man_double p timing")
  case True
  with cnt show ?thesis by (simp add: manchester_unfold)
next
  case False
  define d1 where "d1 = (if p_manchester_start_from_space p \<and> d_databit_cnt d = 0
      then d\<lparr>d_switch_detect := True, d_data := accumulated (d_data d) 0 False, d_databit_cnt := Suc 0\<rparr> else d)"
  have acc1: "(if p_manchester_start_from_space p \<and> d_databit_cnt d = 0
      then accumulate_lsb (d\<lparr>d_switch_detect := True\<rparr>) False else Inr d) = Inr d1"
    using accumulate_within [of p "d\<lparr>d_switch_detect := True\<rparr>" False] pay len
    by (simp add: d1_def payload_ok_def)
  have d1: "payload_ok p d1" "same_frame d d1" "d_databit_cnt d1 \<le> databit_len0 p"
    "d_databit_cnt d \<le> d_databit_cnt d1" "d_databit_cnt d1 \<le> d_databit_cnt d + (if d_databit_cnt d = 0 then 1 else 0)"
    using pay cnt len by (auto simp: d1_def payload_ok_def same_frame_def)
  define d2 where "d2 = (if \<not> d_switch_detect d1 then d1\<lparr>d_switch_detect := True\<rparr>
                       else if man_single p timing then d1\<lparr>d_switch_detect := False\<rparr> else d1)"
  have d2: "payload_ok p d2" "same_frame d d2" "d_databit_cnt d2 = d_databit_cnt d1"
    using d1 by (auto simp: d2_def payload_ok_def same_frame_def)
  have eq: "infrared_common_decode_manchester p d lvl timing =
      (if \<not> d_switch_detect d1 \<and> man_double p timing then Inr (InfraredStatusError, d1)
       else if d_switch_detect d2
       then if databit_len0 p = d_databit_cnt d2 then Inr (InfraredStatusError, d2)
            else bindr (accumulate_lsb d2 lvl) (\<lambda>d3. Inr (InfraredStatusOk, d3))
       else Inr (InfraredStatusOk, d2))"
    using False unfolding manchester_unfold acc1 bindr_Inr Let_def d2_def by auto
  show ?thesis
  proof (cases "\<not> (\<not> d_switch_detect d1 \<and> man_double p timing) \<and> d_switch_detect d2 \<and> databit_len0 p \<noteq> d_databit_cnt d2")
    case True
    let ?d3 = "d2\<lparr>d_data := accumulated (d_data d2) (d_databit_cnt d2) lvl, d_databit_cnt := Suc (d_databit_cnt d2)\<rparr>"
    have "accumulate_lsb d2 lvl = Inr ?d3"
      using True d1 d2 len by (intro accumulate_within) auto
    then have "infrared_common_decode_manchester p d lvl timing = Inr (InfraredStatusOk, ?d3)"
      using True eq by simp
    then show ?thesis using True d1 d2 by (auto simp: same_frame_def)
  next
    case False
    then show ?thesis using eq d1 d2 by (auto simp: d2_def)
  qed
qed

section \<open>Receiving a signal\<close>

text \<open>
  \<open>half P k b bs d\<close>: the bits \<open>bs\<close> are received, the last of them is \<open>b\<close>, and its second half is
  still to come. \<open>boundary P k lvl bs d\<close>: the second half is over as well. The pair \<open>k\<close> is the last
  message and its toggle bit, which the protocols compare the next message with.
\<close>

definition half :: "infrared_common_protocol_spec \<Rightarrow> infrared_message \<times> bool \<Rightarrow> bool \<Rightarrow> bool list \<Rightarrow> infrared_common_decoder \<Rightarrow> bool" where
  "half P k lvl bs d \<longleftrightarrow> receiving P bs lvl d \<and> d_switch_detect d \<and> (d_message d, d_toggle d) = k"

definition boundary :: "infrared_common_protocol_spec \<Rightarrow> infrared_message \<times> bool \<Rightarrow> bool \<Rightarrow> bool list \<Rightarrow> infrared_common_decoder \<Rightarrow> bool" where
  "boundary P k lvl bs d \<longleftrightarrow> receiving P bs lvl d \<and> \<not> d_switch_detect d \<and> (d_message d, d_toggle d) = k"

definition plain :: "infrared_common_protocol_spec \<Rightarrow> nat \<Rightarrow> bool" where
  "plain P cnt \<longleftrightarrow> (\<forall>d lvl x. d_databit_cnt d = cnt \<longrightarrow>
     s_decode P (s_params P) d lvl x = infrared_common_decode_manchester (s_params P) d lvl x)"

locale manchester_protocol =
  fixes P :: infrared_common_protocol_spec
  assumes split_nz: "min_split_time (p_timings (s_params P)) \<noteq> 0"
    and single_half: "man_single (s_params P) (ucast (bit1_mark (p_timings (s_params P))))"
    and single_not_double: "\<not> man_double (s_params P) (ucast (bit1_mark (p_timings (s_params P))))"
    and double_half: "man_double (s_params P) (2 * ucast (bit1_mark (p_timings (s_params P))))"
    and double_not_single: "\<not> man_single (s_params P) (2 * ucast (bit1_mark (p_timings (s_params P))))"
    and halves_short: "ucast (bit1_mark (p_timings (s_params P))) \<le> min_split_time (p_timings (s_params P))"
      "2 * ucast (bit1_mark (p_timings (s_params P))) \<le> min_split_time (p_timings (s_params P))"
    and sizes: "1 < databit_len0 (s_params P)" "databit_len0 (s_params P) < 256"
begin

abbreviation B :: u32 where "B \<equiv> ucast (bit1_mark (p_timings (s_params P)))"
abbreviation len0 :: nat where "len0 \<equiv> databit_len0 (s_params P)"

text \<open>One accepted timing, from the result of the protocol's decoding function.\<close>

lemma man_step:
  assumes r: "receiving P bs (\<not> lvl) d" and x: "x \<le> min_split_time (p_timings (s_params P))"
    and room: "lvl \<or> length bs \<noteq> len0"
    and dec: "s_decode P (s_params P) (stored d lvl x) lvl x = Inr (InfraredStatusOk, d1)"
    and d1: "d_timings_cnt d1 = Suc 0" "d_databit_cnt d1 \<le> len0" "d_state d1 = d_state d"
  shows "infrared_common_decode P d lvl x = Inr (None, d1\<lparr>d_timings_cnt := 0\<rparr>)"
proof -
  note d = r [unfolded receiving_def]
  have "decode_bits_early (s_params P) (stored d lvl x) lvl x = None"
    using x room d by (auto simp: decode_bits_early_def)
  then show ?thesis
    using d dec d1 split_nz by (intro common_decode_ok_step) auto
qed

lemma stored_payload: "receiving P bs l d \<Longrightarrow> payload_ok (s_params P) (stored d lvl x)"
  by (simp add: receiving_def payload_ok_def)

lemma half_single:
  assumes h: "half P k (\<not> lvl) bs d" and pl: "plain P (length bs)" and bs: "bs \<noteq> []"
    and le: "length bs \<le> len0" and room: "lvl \<or> length bs \<noteq> len0"
  shows "\<exists>d'. infrared_common_decode P d lvl B = Inr (None, d') \<and> boundary P k lvl bs d'"
proof -
  let ?d = "stored d lvl B" and ?d1 = "(stored d lvl B)\<lparr>d_switch_detect := False\<rparr>"
  from h have r: "receiving P bs (\<not> lvl) d" and sw: "d_switch_detect d" and k: "(d_message d, d_toggle d) = k" by (auto simp: half_def)
  note d = r [unfolded receiving_def]
  have "s_decode P (s_params P) ?d lvl B = Inr (InfraredStatusOk, ?d1)"
    using pl sw d bs single_half single_not_double by (simp add: plain_def manchester_unfold)
  from man_step [OF r halves_short(1) room this] d le
  have "infrared_common_decode P d lvl B = Inr (None, ?d1\<lparr>d_timings_cnt := 0\<rparr>)" by simp
  moreover have "boundary P k lvl bs (?d1\<lparr>d_timings_cnt := 0\<rparr>)"
    using d k by (simp add: boundary_def receiving_def payload_ok_def)
  ultimately show ?thesis by blast
qed

lemma bit_received:
  assumes r: "receiving P bs (\<not> lvl) d" and k: "(d_message d, d_toggle d) = k" and less: "length bs < len0"
    and x: "x \<le> min_split_time (p_timings (s_params P))"
    and dec: "s_decode P (s_params P) (stored d lvl x) lvl x = Inr (InfraredStatusOk,
      (stored d lvl x)\<lparr>d_switch_detect := True, d_data := accumulated (d_data d) (length bs) lvl,
         d_databit_cnt := Suc (length bs)\<rparr>)"
  shows "\<exists>d'. infrared_common_decode P d lvl x = Inr (None, d') \<and> half P k lvl (bs @ [lvl]) d'"
proof -
  let ?d1 = "(stored d lvl x)\<lparr>d_switch_detect := True, d_data := accumulated (d_data d) (length bs) lvl,
         d_databit_cnt := Suc (length bs)\<rparr>"
  note d = r [unfolded receiving_def]
  have idx: "length bs div 8 < length (d_data d)"
    using d less bytes_for_bits_index [of "length bs" len0] by (simp add: payload_ok_def)
  have "infrared_common_decode P d lvl x = Inr (None, ?d1\<lparr>d_timings_cnt := 0\<rparr>)"
    using man_step [OF r x _ dec] less by simp
  moreover have "half P k lvl (bs @ [lvl]) (?d1\<lparr>d_timings_cnt := 0\<rparr>)"
    using d k data_bits_accumulated [OF idx] data_clean_accumulated [OF idx]
    by (simp add: half_def receiving_def payload_ok_def)
  ultimately show ?thesis by blast
qed

lemma bit_single:
  assumes b: "boundary P k (\<not> lvl) bs d" and pl: "plain P (length bs)" and less: "length bs < len0"
    and start: "p_manchester_start_from_space (s_params P) \<Longrightarrow> bs \<noteq> []"
  shows "\<exists>d'. infrared_common_decode P d lvl B = Inr (None, d') \<and> half P k lvl (bs @ [lvl]) d'"
proof -
  from b have r: "receiving P bs (\<not> lvl) d" and sw: "\<not> d_switch_detect d" and k: "(d_message d, d_toggle d) = k" by (auto simp: boundary_def)
  note d = r [unfolded receiving_def]
  let ?d = "(stored d lvl B)\<lparr>d_switch_detect := True\<rparr>"
  have "accumulate_lsb ?d lvl = Inr (?d\<lparr>d_data := accumulated (d_data d) (length bs) lvl, d_databit_cnt := Suc (length bs)\<rparr>)"
    using accumulate_within [of "s_params P" ?d lvl] d less sizes by (simp add: payload_ok_def)
  then have "s_decode P (s_params P) (stored d lvl B) lvl B = Inr (InfraredStatusOk,
      ?d\<lparr>d_data := accumulated (d_data d) (length bs) lvl, d_databit_cnt := Suc (length bs)\<rparr>)"
    using pl sw d less start single_half single_not_double by (auto simp: plain_def manchester_unfold Let_def)
  then show ?thesis by (rule bit_received [OF r k less halves_short(1)])
qed

lemma bit_double:
  assumes h: "half P k (\<not> lvl) bs d" and pl: "plain P (length bs)" and bs: "bs \<noteq> []" and less: "length bs < len0"
  shows "\<exists>d'. infrared_common_decode P d lvl (2 * B) = Inr (None, d') \<and> half P k lvl (bs @ [lvl]) d'"
proof -
  from h have r: "receiving P bs (\<not> lvl) d" and sw: "d_switch_detect d" and k: "(d_message d, d_toggle d) = k" by (auto simp: half_def)
  note d = r [unfolded receiving_def]
  let ?d = "stored d lvl (2 * B)"
  let ?d1 = "?d\<lparr>d_switch_detect := True, d_data := accumulated (d_data d) (length bs) lvl, d_databit_cnt := Suc (length bs)\<rparr>"
  have "?d\<lparr>d_data := accumulated (d_data d) (length bs) lvl, d_databit_cnt := Suc (length bs)\<rparr> = ?d1"
    using sw by (cases d) (simp add: stored_def)
  then have "accumulate_lsb ?d lvl = Inr ?d1"
    using accumulate_within [of "s_params P" ?d lvl] d less sizes by (simp add: payload_ok_def)
  then have "s_decode P (s_params P) ?d lvl (2 * B) = Inr (InfraredStatusOk, ?d1)"
    using pl sw d less bs double_half double_not_single by (simp add: plain_def manchester_unfold)
  then show ?thesis by (rule bit_received [OF r k less halves_short(2)])
qed

lemma runs_received:
  "half P k b as d \<Longrightarrow> as \<noteq> [] \<Longrightarrow> length as + length bs \<le> len0 \<Longrightarrow>
   (\<And>j. length as \<le> j \<Longrightarrow> j \<le> length as + length bs \<Longrightarrow> plain P j) \<Longrightarrow>
   \<exists>d'. ir_feed (infrared_common_decode P) d (man_runs b B (map (\<lambda>b. (b, B)) bs)) = Inr ([], d') \<and>
     receiving P (as @ bs) True d' \<and> (d_message d', d_toggle d') = k"
proof (induction bs arbitrary: b as d)
  case Nil
  then show ?case
    using half_single [of k True as d] by (cases b) (auto simp: half_def boundary_def)
next
  case (Cons b' bs)
  have pl: "plain P (length as)" "\<And>j. length (as @ [b']) \<le> j \<Longrightarrow> j \<le> length (as @ [b']) + length bs \<Longrightarrow> plain P j"
    using Cons.prems(4) by auto
  show ?case
  proof (cases "b' = b")
    case True
    with Cons.prems pl(1) obtain d1 where 1: "infrared_common_decode P d (\<not> b) B = Inr (None, d1)"
      and d1: "boundary P k (\<not> b) as d1" using half_single [of k "\<not> b" as d] by auto
    with Cons.prems pl(1) obtain d2 where 2: "infrared_common_decode P d1 b B = Inr (None, d2)"
      and d2: "half P k b (as @ [b]) d2" using bit_single [of k b as d1] by auto
    from Cons.IH [of b "as @ [b]" d2] d2 pl(2) Cons.prems True 1 2 show ?thesis by auto
  next
    case False
    then have b': "b' = (\<not> b)" by auto
    with Cons.prems pl(1) obtain d1 where 1: "infrared_common_decode P d (\<not> b) (2 * B) = Inr (None, d1)"
      and d1: "half P k (\<not> b) (as @ [\<not> b]) d1" using bit_double [of k "\<not> b" as d] by auto
    have two: "B + B = 2 * B" by simp
    from Cons.IH [of "\<not> b" "as @ [\<not> b]" d1] d1 pl(2) Cons.prems b' 1 show ?thesis
      by (auto simp only: b' man_runs.simps list.map two ir_feed.simps) auto
  qed
qed

end

context manchester_protocol
begin

text \<open>
  A protocol that starts from a space takes a first bit 0 on its first timing: it decodes
  that timing as a decoder that has already received the first half of the 0.
\<close>

definition started :: "infrared_common_decoder \<Rightarrow> infrared_common_decoder" where
  "started d = d\<lparr>d_switch_detect := True, d_data := accumulated (d_data d) 0 False, d_databit_cnt := 1\<rparr>"

lemma half_started:
  assumes "boundary P k lvl [] d"
  shows "half P k lvl [False] (started d)"
proof -
  note d = assms [unfolded boundary_def receiving_def]
  have idx: "0 div 8 < length (d_data d)"
    using d sizes bytes_for_bits_index [of 0 len0] by (simp add: payload_ok_def)
  show ?thesis
    using d data_bits_accumulated [OF idx] data_clean_accumulated [OF idx]
    by (simp add: half_def receiving_def payload_ok_def started_def)
qed

lemma decode_started:
  assumes b: "boundary P k False [] d" and start: "p_manchester_start_from_space (s_params P)"
    and pl: "plain P 0" "plain P 1" and x: "man_single (s_params P) x \<or> man_double (s_params P) x"
  shows "infrared_common_decode P d True x = infrared_common_decode P (started d) True x"
proof -
  note d = b [unfolded boundary_def receiving_def]
  let ?s = "stored d True x" and ?t = "stored (started d) True x"
  have cnts: "d_databit_cnt ?s = 0" "d_databit_cnt ?t = 1" using d by (simp_all add: started_def)
  have acc: "accumulate_lsb (?s\<lparr>d_switch_detect := True\<rparr>) False = Inr ?t"
    using accumulate_within [of "s_params P" "?s\<lparr>d_switch_detect := True\<rparr>" False] d sizes
    by (simp add: payload_ok_def started_def stored_def)
  have "s_decode P (s_params P) ?s True x = infrared_common_decode_manchester (s_params P) ?s True x"
    "s_decode P (s_params P) ?t True x = infrared_common_decode_manchester (s_params P) ?t True x"
    using pl cnts unfolding plain_def by blast+
  moreover have "infrared_common_decode_manchester (s_params P) ?s True x =
      infrared_common_decode_manchester (s_params P) ?t True x"
    unfolding manchester_unfold using acc start cnts x by auto
  ultimately have dec: "s_decode P (s_params P) ?s True x = s_decode P (s_params P) ?t True x" by simp
  have bits: "infrared_common_decode_bits (Suc (Suc 0)) P ?s = infrared_common_decode_bits (Suc (Suc 0)) P ?t"
    unfolding infrared_common_decode_bits.simps(2) [of "Suc 0"]
    using dec d by (simp add: decode_bits_early_def Let_def started_def list_get_def
        del: infrared_common_decode_bits.simps)
  have fuel: "decode_loop_fuel = Suc 15" by (simp add: decode_loop_fuel_def)
  have "infrared_common_decode_loop decode_loop_fuel P False ?s = infrared_common_decode_loop decode_loop_fuel P False ?t"
    unfolding fuel infrared_common_decode_loop.simps(2) [of 15] using bits d
    by (simp add: started_def del: infrared_common_decode_bits.simps infrared_common_decode_loop.simps)
  then show ?thesis
    using common_decode_stored [of d True P x] common_decode_stored [of "started d" True P x] d
    by (simp add: started_def)
qed

lemma runs_received_from_space:
  assumes b: "boundary P k False [] d" and start: "p_manchester_start_from_space (s_params P)"
    and bs: "bs \<noteq> []" "Suc (length bs) \<le> len0" and pl: "\<And>j. plain P j"
  shows "\<exists>d'. ir_feed (infrared_common_decode P) d (man_runs False B (map (\<lambda>b. (b, B)) bs)) = Inr ([], d') \<and>
     receiving P (False # bs) True d' \<and> (d_message d', d_toggle d') = k"
proof -
  have "\<exists>x xs. man_runs False B (map (\<lambda>b. (b, B)) bs) = (True, x) # xs \<and>
      (man_single (s_params P) x \<or> man_double (s_params P) x)"
    using bs(1) single_half double_half by (cases bs) (auto simp flip: mult_2)
  then obtain x xs where runs: "man_runs False B (map (\<lambda>b. (b, B)) bs) = (True, x) # xs"
    and x: "man_single (s_params P) x \<or> man_double (s_params P) x" by blast
  have "ir_feed (infrared_common_decode P) d ((True, x) # xs) = ir_feed (infrared_common_decode P) (started d) ((True, x) # xs)"
    by (simp add: decode_started [OF b start pl pl x])
  with runs_received [OF half_started [OF b], of bs] bs(2) pl runs show ?thesis by auto
qed

text \<open>Without a preamble the pause itself opens the payload.\<close>

lemma pause_opens:
  assumes d: "decoder_idle P d" "d_level d" and pre: "preamble_mark (p_timings (s_params P)) = 0"
  shows "\<exists>d'. infrared_common_decode P d False x = Inr (None, d') \<and>
     boundary P (d_message d, d_toggle d) False [] d'"
proof -
  note r = d [unfolded decoder_idle_def]
  let ?d1 = "(stored d False x)\<lparr>d_timings_cnt := 0\<rparr>"
  have "infrared_check_preamble (s_params P) (stored d False x) = Inr (True, ?d1)"
    using r pre consume_timings_all [of "stored d False x" 1]
    by (simp add: infrared_check_preamble_def Let_def oldest_level_def)
  then have "infrared_common_decode P d False x = Inr (None, ?d1\<lparr>d_state := InfraredCommonDecoderStateDecode,
      d_databit_cnt := 0, d_switch_detect := False\<rparr>)"
    using r common_decode_stored [of d False P x] loop_wait_found [of "stored d False x" P ?d1 False] by simp
  then show ?thesis
    using r by (simp add: boundary_def receiving_def payload_ok_def)
qed

end

text \<open>With a preamble, the pause before it is dropped and the preamble opens the payload.\<close>

lemma preamble_opens:
  assumes d: "decoder_idle P d" "d_level d" and nz: "preamble_mark (p_timings (s_params P)) \<noteq> 0"
    and m: "MATCH_TIMING_F x2 (ucast (preamble_mark (p_timings (s_params P)))) (preamble_tolerance (p_timings (s_params P)))"
    and s: "MATCH_TIMING_F x3 (ucast (preamble_space (p_timings (s_params P)))) (preamble_tolerance (p_timings (s_params P)))"
  shows "\<exists>d'. ir_feed (infrared_common_decode P) d [(False, x1), (True, x2), (False, x3)] = Inr ([], d') \<and>
     boundary P (d_message d, d_toggle d) False [] d'"
proof -
  note r = d [unfolded decoder_idle_def]
  let ?d1 = "(stored d False x1)\<lparr>d_timings_cnt := 0\<rparr>"
  have "infrared_check_preamble (s_params P) (stored d False x1) = Inr (False, ?d1)"
    using nz consume_timings_all [of "stored d False x1" 1]
    by (simp add: infrared_check_preamble_def check_preamble_loop.simps)
  then have 1: "infrared_common_decode P d False x1 = Inr (None, ?d1)"
    using r common_decode_stored [of d False P x1] loop_wait_not_found [of "stored d False x1" P ?d1 False] by simp
  let ?d2 = "stored ?d1 True x2"
  have 2: "infrared_common_decode P ?d1 True x2 = Inr (None, ?d2)"
    using r nz common_decode_stored [of ?d1 True P x2] loop_wait_not_found [of ?d2 P ?d2 False]
    by (simp add: infrared_check_preamble_def check_preamble_loop.simps)
  let ?d3 = "?d2\<lparr>d_level := False, d_timings := (d_timings d)[0 := x2, 1 := x3], d_timings_cnt := 2\<rparr>"
  have cons: "consume_timings 2 ?d3 = Inr (?d3\<lparr>d_timings_cnt := 0\<rparr>)"
    by (rule consume_timings_all) simp
  let ?d4 = "?d3\<lparr>d_timings_cnt := 0, d_state := InfraredCommonDecoderStateDecode, d_databit_cnt := 0,
      d_switch_detect := False\<rparr>"
  have pre: "infrared_check_preamble (s_params P) ?d3 = Inr (True, ?d3\<lparr>d_timings_cnt := 0\<rparr>)"
    using r nz m s cons
    by (subst infrared_check_preamble_def, subst check_preamble_loop.simps)
       (simp add: oldest_level_def list_get_def)
  have "infrared_common_decode_loop decode_loop_fuel P False ?d3 = Inr (False, ?d4)"
    using r loop_wait_found [OF _ pre] by simp
  then have "infrared_common_decode P ?d2 False x3 = Inr (None, ?d4)"
    using r by (simp add: infrared_common_decode_def Let_def list_set_def sizeof_timings_def eval_nat_numeral)
  moreover have "boundary P (d_message d, d_toggle d) False [] ?d4"
    using r by (simp add: boundary_def receiving_def payload_ok_def)
  ultimately show ?thesis using 1 2 by simp
qed

section \<open>Emitting a signal\<close>

text \<open>
  \<open>sending n data k first e\<close>: the encoder is about to emit the first (or the second) half of
  bit \<open>k\<close>. The duration of the halves of a bit may depend on its position (RC6).
\<close>

definition sending :: "nat \<Rightarrow> u8 list \<Rightarrow> nat \<Rightarrow> bool \<Rightarrow> infrared_common_encoder \<Rightarrow> bool" where
  "sending n data k first e \<longleftrightarrow> e_state e = InfraredCommonEncoderStateEncode \<and> e_bits_to_encode e = n \<and>
     e_bits_encoded e = k \<and> odd (e_timings_encoded e) = first \<and> e_data e = data"

definition timed_bits :: "(nat \<Rightarrow> u32) \<Rightarrow> u8 list \<Rightarrow> nat \<Rightarrow> nat \<Rightarrow> (bool \<times> u32) list" where
  "timed_bits u data k n = map (\<lambda>i. (byte_bit data i, u i)) [k..<n]"

lemma timed_bits_Cons: "k < n \<Longrightarrow> timed_bits u data k n = (byte_bit data k, u k) # timed_bits u data (Suc k) n"
  by (simp add: timed_bits_def upt_conv_Cons)

lemma even_inc32 [simp]: "even (inc32 t) \<longleftrightarrow> odd t"
  by (simp add: inc32_def dvd_mod_iff)

locale manchester_encoder = manchester_protocol +
  fixes u :: "nat \<Rightarrow> u32"
  assumes encode_man: "s_encode P (s_params P) e =
      bindr (infrared_common_encode_manchester (s_params P) e) (\<lambda>(st, dur, lvl, e1).
        Inr (st, u (e_bits_encoded e), lvl, e1))"
    and no_repeat: "s_encode_repeat P = None"
begin

lemma send_first:
  assumes e: "sending n data k True e" and n: "k < n" "n < 255" "k div 8 < length data"
  shows "\<exists>e'. infrared_common_encode P e =
      Inr (if byte_bit data k \<and> Suc k = n then InfraredStatusDone else InfraredStatusOk, u k, byte_bit data k, e') \<and>
     (if byte_bit data k \<and> Suc k = n then encoder_ready n data e' else sending n data k False e')"
  using e n odd_iff_mod_2_eq_one [of "e_timings_encoded e"]
  by (auto simp: sending_def encoder_ready_def infrared_common_encode_def Let_def encode_case_encode_def infrared_common_encode_bits_def
      encode_man infrared_common_encode_manchester_def encoder_logic_value_bit no_repeat)

lemma send_second:
  assumes e: "sending n data k False e" and n: "k < n" "n < 255" "k div 8 < length data"
    and b: "\<not> (byte_bit data k \<and> Suc k = n)"
  shows "\<exists>e'. infrared_common_encode P e =
      Inr (if Suc k = n then InfraredStatusDone else InfraredStatusOk, u k, \<not> byte_bit data k, e') \<and>
     (if Suc k = n then encoder_ready n data e' else sending n data (Suc k) True e')"
  using e n b
  by (auto simp: sending_def encoder_ready_def infrared_common_encode_def Let_def encode_case_encode_def infrared_common_encode_bits_def
      encode_man infrared_common_encode_manchester_def encoder_logic_value_bit no_repeat)

lemma man_body_sent:
  "sending n data k True e \<Longrightarrow> k < n \<Longrightarrow> n < 255 \<Longrightarrow> n div 8 < length data \<Longrightarrow> m = n - Suc k \<Longrightarrow>
   \<exists>e'. ir_encode_frame (infrared_common_encode P) (2 * Suc m) e =
     Inr ((byte_bit data k, u k) # man_tail (byte_bit data k) (u k) (timed_bits u data (Suc k) n), e') \<and>
     encoder_ready n data e'"
proof (induction m arbitrary: k e)
  case 0
  then have last: "Suc k = n" by simp
  have idx: "k div 8 < length data" using 0 by (meson div_le_mono le_less_trans less_imp_le)
  have empty: "timed_bits u data (Suc k) n = []" using last by (simp add: timed_bits_def)
  from send_first [OF 0(1,2,3) idx] obtain e1 where
    1: "infrared_common_encode P e =
      Inr (if byte_bit data k then InfraredStatusDone else InfraredStatusOk, u k, byte_bit data k, e1)"
    and e1: "if byte_bit data k then encoder_ready n data e1 else sending n data k False e1" using last by auto
  have two: "2 * Suc 0 = Suc (Suc 0)" by simp
  show ?case
  proof (cases "byte_bit data k")
    case True
    with 1 e1 empty show ?thesis unfolding two ir_encode_frame.simps(2) by simp
  next
    case False
    with e1 have "sending n data k False e1" by simp
    from send_second [OF this 0(2,3) idx] False last obtain e2 where
      "infrared_common_encode P e1 = Inr (InfraredStatusDone, u k, True, e2)" "encoder_ready n data e2" by auto
    with 1 False empty show ?thesis unfolding two ir_encode_frame.simps(2) by simp
  qed
next
  case (Suc m)
  then have more: "Suc k < n" "m = n - Suc (Suc k)" by simp_all
  have idx: "k div 8 < length data" using Suc.prems by (meson div_le_mono le_less_trans less_imp_le)
  have two: "2 * Suc (Suc m) = Suc (Suc (2 * Suc m))" by simp
  from send_first [OF Suc.prems(1,2,3) idx] more obtain e1 where
    1: "infrared_common_encode P e = Inr (InfraredStatusOk, u k, byte_bit data k, e1)"
    and "sending n data k False e1" by (auto split: if_splits)
  from send_second [OF this(2) Suc.prems(2,3) idx] more obtain e2 where
    2: "infrared_common_encode P e1 = Inr (InfraredStatusOk, u k, \<not> byte_bit data k, e2)"
    and e2: "sending n data (Suc k) True e2" by (auto split: if_splits)
  from Suc.IH [OF e2 more(1) Suc.prems(3,4) more(2)] obtain e' where
    "ir_encode_frame (infrared_common_encode P) (2 * Suc m) e2 =
      Inr ((byte_bit data (Suc k), u (Suc k)) # man_tail (byte_bit data (Suc k)) (u (Suc k))
        (timed_bits u data (Suc (Suc k)) n), e')" and "encoder_ready n data e'" by blast
  with 1 2 more(1) show ?case
    unfolding two ir_encode_frame.simps(2) by (simp add: timed_bits_Cons)
qed

lemma frame_sent_from_pause:
  assumes e: "encoder_ready n data e" and n: "0 < n" "n < 60" "n div 8 < length data"
    and pre: "preamble_mark (p_timings (s_params P)) = 0"
  shows "\<exists>e'. ir_encode_frame (infrared_common_encode P) ir_frame_fuel e =
     Inr ((False, silence_time (p_timings (s_params P))) # (byte_bit data 0, u 0) #
       man_tail (byte_bit data 0) (u 0) (timed_bits u data 1 n), e') \<and> encoder_ready n data e'"
proof -
  note r = e [unfolded encoder_ready_def]
  let ?e1 = "e\<lparr>e_state := InfraredCommonEncoderStatePreamble, e_timings_encoded := 1, e_timings_sum := 0\<rparr>"
  let ?e2 = "?e1\<lparr>e_state := InfraredCommonEncoderStateEncode\<rparr>"
  have 1: "infrared_common_encode P e = Inr (InfraredStatusOk, silence_time (p_timings (s_params P)), False, ?e1)"
    using r by (simp add: infrared_common_encode_def Let_def)
  have 2: "infrared_common_encode P ?e1 = infrared_common_encode P ?e2"
    using pre by (simp add: infrared_common_encode_def Let_def)
  have "sending n data 0 True ?e2" using r by (simp add: sending_def)
  from man_body_sent [OF this n(1) _ n(3) refl] n(2) obtain e' where
    body: "ir_encode_frame (infrared_common_encode P) (2 * Suc (n - Suc 0)) ?e2 =
      Inr ((byte_bit data 0, u 0) # man_tail (byte_bit data 0) (u 0) (timed_bits u data 1 n), e')"
    and e': "encoder_ready n data e'" by auto
  have fuel: "2 * Suc (n - Suc 0) = Suc (Suc (2 * (n - Suc 0)))" by simp
  have same: "ir_encode_frame (infrared_common_encode P) (2 * Suc (n - Suc 0)) ?e1 =
      ir_encode_frame (infrared_common_encode P) (2 * Suc (n - Suc 0)) ?e2"
    unfolding fuel ir_encode_frame.simps(2) [of _ "Suc _"] 2 ..
  have "ir_encode_frame (infrared_common_encode P) (Suc (2 * Suc (n - Suc 0))) e =
     Inr ((False, silence_time (p_timings (s_params P))) # (byte_bit data 0, u 0) #
       man_tail (byte_bit data 0) (u 0) (timed_bits u data 1 n), e')"
    unfolding ir_encode_frame.simps(2) [of _ "2 * Suc (n - Suc 0)"] 1 bindr_Inr prod.case same body by simp
  from ir_encode_frame_more_fuel [OF this, of ir_frame_fuel] n e' show ?thesis
    by (auto simp: ir_frame_fuel_def)
qed

lemma frame_sent_from_preamble:
  assumes e: "encoder_ready n data e" and n: "0 < n" "n < 60" "n div 8 < length data"
    and pre: "preamble_mark (p_timings (s_params P)) \<noteq> 0"
  shows "\<exists>e'. ir_encode_frame (infrared_common_encode P) ir_frame_fuel e =
     Inr ((False, silence_time (p_timings (s_params P))) #
       (True, ucast (preamble_mark (p_timings (s_params P)))) #
       (False, ucast (preamble_space (p_timings (s_params P)))) # (byte_bit data 0, u 0) #
       man_tail (byte_bit data 0) (u 0) (timed_bits u data 1 n), e') \<and> encoder_ready n data e'"
proof -
  note r = e [unfolded encoder_ready_def]
  let ?t = "p_timings (s_params P)"
  let ?e1 = "e\<lparr>e_state := InfraredCommonEncoderStatePreamble, e_timings_encoded := 1, e_timings_sum := 0\<rparr>"
  let ?e2 = "?e1\<lparr>e_timings_encoded := 2, e_timings_sum := ucast (preamble_mark ?t)\<rparr>"
  let ?e3 = "?e2\<lparr>e_state := InfraredCommonEncoderStateEncode, e_timings_encoded := 3,
               e_timings_sum := ucast (preamble_mark ?t) + ucast (preamble_space ?t)\<rparr>"
  have 1: "infrared_common_encode P e = Inr (InfraredStatusOk, silence_time ?t, False, ?e1)"
    "infrared_common_encode P ?e1 = Inr (InfraredStatusOk, ucast (preamble_mark ?t), True, ?e2)"
    "infrared_common_encode P ?e2 = Inr (InfraredStatusOk, ucast (preamble_space ?t), False, ?e3)"
    using r pre by (simp_all add: infrared_common_encode_def Let_def)
  have "sending n data 0 True ?e3" using r by (simp add: sending_def)
  from man_body_sent [OF this n(1) _ n(3) refl] n(2) obtain e' where
    body: "ir_encode_frame (infrared_common_encode P) (2 * Suc (n - Suc 0)) ?e3 =
      Inr ((byte_bit data 0, u 0) # man_tail (byte_bit data 0) (u 0) (timed_bits u data 1 n), e')"
    and e': "encoder_ready n data e'" by auto
  have "ir_encode_frame (infrared_common_encode P) (Suc (Suc (Suc (2 * Suc (n - Suc 0))))) e =
     Inr ((False, silence_time ?t) # (True, ucast (preamble_mark ?t)) # (False, ucast (preamble_space ?t)) #
       (byte_bit data 0, u 0) # man_tail (byte_bit data 0) (u 0) (timed_bits u data 1 n), e')"
    unfolding ir_encode_frame.simps(2) [of _ "Suc (Suc (2 * Suc (n - Suc 0)))"]
      ir_encode_frame.simps(2) [of _ "Suc (2 * Suc (n - Suc 0))"]
      ir_encode_frame.simps(2) [of _ "2 * Suc (n - Suc 0)"] 1 bindr_Inr prod.case body by simp
  from ir_encode_frame_more_fuel [OF this, of ir_frame_fuel] n e' show ?thesis
    by (auto simp: ir_frame_fuel_def)
qed

end

text \<open>An encoder that wraps the common encoder emits the frames of the common encoder.\<close>

lemma ir_encode_frame_wrapped:
  assumes enc: "\<And>e. enc' e = bindr (enc (get e)) (\<lambda>(st, dur, lvl, c). Inr (st, dur, lvl, put c e))"
    and get: "\<And>c e. get (put c e) = c" and put: "\<And>c c' e. put c' (put c e) = put c' e"
  shows "ir_encode_frame enc n (get e) = Inr (xs, c) \<Longrightarrow> ir_encode_frame enc' n e = Inr (xs, put c e)"
proof (induction n arbitrary: e xs)
  case (Suc n)
  then obtain st dur lvl c1 where 1: "enc (get e) = Inr (st, dur, lvl, c1)"
    by (auto simp: bindr_eq_Inr)
  have "enc' e = Inr (st, dur, lvl, put c1 e)" using 1 by (simp add: enc)
  with 1 Suc.prems Suc.IH [of "put c1 e"] show ?case
    by (auto simp: bindr_eq_Inr get put split: if_splits)
qed simp

section \<open>Reversing a byte\<close>

text \<open>\<^verbatim>\<open>reverse\<close> of \<^verbatim>\<open>infrared_i.h\<close>.\<close>

definition ir_reverse :: "u8 \<Rightarrow> u8" where
  "ir_reverse value = foldl (\<lambda>r i. r OR (if value AND push_bit i 1 \<noteq> 0 then push_bit (7 - i) 1 else 0)) 0 [0..<8]"

lemma bit_ir_reverse: "bit (ir_reverse v) j \<longleftrightarrow> j < 8 \<and> bit v (7 - j)"
proof -
  have *: "bit (foldl (\<lambda>r i. r OR (if v AND push_bit i 1 \<noteq> 0 then push_bit (7 - i) 1 else 0)) (0::u8) [0..<n]) j
      \<longleftrightarrow> j < 8 \<and> (\<exists>i<n. j = 7 - i \<and> bit v i)" if "n \<le> 8" for n
    using that
  proof (induction n)
    case (Suc n)
    then show ?case
      by (auto simp: bit_simps and_mask_bit [unfolded push_bit_of_1] less_Suc_eq)
  qed simp
  have "(\<exists>i<8. j = 7 - i \<and> bit v i) \<longleftrightarrow> bit v (7 - j)" if "j < 8"
    using that by (auto intro!: exI [of _ "7 - j"])
  with * [of 8] show ?thesis unfolding ir_reverse_def by auto
qed

lemma ir_reverse_involution [simp]: "ir_reverse (ir_reverse v) = v"
  by (rule bit_word_eqI) (auto simp: bit_ir_reverse)

section \<open>Presses of a button\<close>

text \<open>
  Protocols with a toggle bit have no repeat code: while the button is held the same frame is
  sent again, and the next press sends the other toggle bit. \<open>ir_frames\<close> sends \<open>n\<close> frames,
  asking the decoder for a message after each; \<open>ir_session\<close> is a sequence of presses, each with
  its message and the number of frames sent while it is held.
\<close>

fun ir_frames :: "('e \<Rightarrow> (infrared_status \<times> u32 \<times> bool \<times> 'e) res)
    \<Rightarrow> ('d \<Rightarrow> bool \<Rightarrow> u32 \<Rightarrow> (infrared_message option \<times> 'd) res)
    \<Rightarrow> ('d \<Rightarrow> (infrared_message option \<times> 'd) res) \<Rightarrow> nat \<Rightarrow> 'e \<Rightarrow> 'd
    \<Rightarrow> (infrared_message list \<times> 'e \<times> 'd) res" where
  "ir_frames enc dec ready 0 e d = Inr ([], e, d)"
| "ir_frames enc dec ready (Suc n) e d =
     bindr (ir_encode_frame enc ir_frame_fuel e) (\<lambda>(frame, e1).
     bindr (ir_feed dec d (ir_line frame)) (\<lambda>(ms, d1).
     bindr (ready d1) (\<lambda>(r, d2).
     bindr (ir_frames enc dec ready n e1 d2) (\<lambda>(rs, e3, d3).
       Inr (ms @ (case r of None \<Rightarrow> [] | Some m \<Rightarrow> [m]) @ rs, e3, d3)))))"

fun ir_session :: "('e \<Rightarrow> infrared_message \<Rightarrow> 'e res)
    \<Rightarrow> ('e \<Rightarrow> (infrared_status \<times> u32 \<times> bool \<times> 'e) res)
    \<Rightarrow> ('d \<Rightarrow> bool \<Rightarrow> u32 \<Rightarrow> (infrared_message option \<times> 'd) res)
    \<Rightarrow> ('d \<Rightarrow> (infrared_message option \<times> 'd) res) \<Rightarrow> (infrared_message \<times> nat) list \<Rightarrow> 'e \<Rightarrow> 'd
    \<Rightarrow> infrared_message list res" where
  "ir_session reset enc dec ready [] e d = Inr []"
| "ir_session reset enc dec ready ((m, n) # ps) e d =
     bindr (reset e m) (\<lambda>e1.
     bindr (ir_frames enc dec ready n e1 d) (\<lambda>(rs, e2, d2).
     bindr (ir_session reset enc dec ready ps e2 d2) (\<lambda>rest. Inr (rs @ rest))))"

definition remembers :: "infrared_common_decoder \<Rightarrow> infrared_message \<Rightarrow> bool \<Rightarrow> bool" where
  "remembers d m tg \<longleftrightarrow> m_address (d_message d) = m_address m \<and> m_command (d_message d) = m_command m \<and>
     m_protocol (d_message d) = m_protocol m \<and> d_toggle d = tg"

definition listening :: "infrared_common_protocol_spec \<Rightarrow> infrared_common_decoder \<Rightarrow> bool" where
  "listening P d \<longleftrightarrow> decoder_idle P d \<and> d_level d"

locale toggle_codec =
  fixes P :: infrared_common_protocol_spec
    and canon :: "infrared_message \<Rightarrow> bool"
    and reset :: "'e \<Rightarrow> infrared_message \<Rightarrow> 'e res"
    and enc :: "'e \<Rightarrow> (infrared_status \<times> u32 \<times> bool \<times> 'e) res"
    and alloc_ok :: "'e \<Rightarrow> bool"
    and next_toggle :: "'e \<Rightarrow> bool"
    and loaded :: "infrared_message \<Rightarrow> bool \<Rightarrow> 'e \<Rightarrow> bool"
  assumes canon_repeat: "canon m \<Longrightarrow> \<not> m_repeat m"
    and reset_ok: "canon m \<Longrightarrow> alloc_ok e \<Longrightarrow>
      \<exists>e'. reset e m = Inr e' \<and> loaded m (next_toggle e) e' \<and> next_toggle e' = (\<not> next_toggle e)"
    and loaded_alloc: "loaded m tg e \<Longrightarrow> alloc_ok e"
    and frame_ok: "canon m \<Longrightarrow> loaded m tg e \<Longrightarrow> listening P d \<Longrightarrow>
      \<exists>xs e' d1 d'. ir_encode_frame enc ir_frame_fuel e = Inr (xs, e') \<and>
        loaded m tg e' \<and> next_toggle e' = next_toggle e \<and>
        ir_feed (infrared_common_decode P) d (ir_line xs) = Inr ([], d1) \<and>
        common_ready P d1 = Inr (Some (m\<lparr>m_repeat := remembers d m tg\<rparr>), d') \<and>
        listening P d' \<and> remembers d' m tg"
begin

lemma held:
  "canon m \<Longrightarrow> loaded m tg e \<Longrightarrow> listening P d \<Longrightarrow> remembers d m tg \<Longrightarrow>
   \<exists>e' d'. ir_frames enc (infrared_common_decode P) (common_ready P) n e d =
       Inr (replicate n (m\<lparr>m_repeat := True\<rparr>), e', d') \<and>
     loaded m tg e' \<and> next_toggle e' = next_toggle e \<and> listening P d' \<and> remembers d' m tg"
proof (induction n arbitrary: e d)
  case 0
  then show ?case by simp
next
  case (Suc n)
  from frame_ok [OF Suc.prems(1-3)] Suc.prems(4) obtain xs e1 d1 d2 where
    step: "ir_encode_frame enc ir_frame_fuel e = Inr (xs, e1)"
      "ir_feed (infrared_common_decode P) d (ir_line xs) = Inr ([], d1)"
      "common_ready P d1 = Inr (Some (m\<lparr>m_repeat := True\<rparr>), d2)"
    and after: "loaded m tg e1" "next_toggle e1 = next_toggle e" "listening P d2" "remembers d2 m tg"
    by auto
  from Suc.IH [OF Suc.prems(1) after(1,3,4)] after(2) step show ?case by auto
qed

lemma press:
  assumes m: "canon m" and e: "alloc_ok e" and d: "listening P d" "\<not> remembers d m (next_toggle e)"
  shows "\<exists>e1 e' d'. reset e m = Inr e1 \<and>
     ir_frames enc (infrared_common_decode P) (common_ready P) (Suc n) e1 d =
       Inr (m # replicate n (m\<lparr>m_repeat := True\<rparr>), e', d') \<and>
     alloc_ok e' \<and> listening P d' \<and> d_toggle d' = (\<not> next_toggle e')"
proof -
  from reset_ok [OF m e] obtain e1 where 1: "reset e m = Inr e1" "loaded m (next_toggle e) e1"
    "next_toggle e1 = (\<not> next_toggle e)" by blast
  have same: "m\<lparr>m_repeat := False\<rparr> = m" using canon_repeat [OF m] by (cases m) simp
  from frame_ok [OF m 1(2) d(1)] d(2) same obtain xs e2 d1 d2 where
    step: "ir_encode_frame enc ir_frame_fuel e1 = Inr (xs, e2)"
      "ir_feed (infrared_common_decode P) d (ir_line xs) = Inr ([], d1)"
      "common_ready P d1 = Inr (Some m, d2)"
    and after: "loaded m (next_toggle e) e2" "next_toggle e2 = next_toggle e1" "listening P d2"
      "remembers d2 m (next_toggle e)"
    by auto
  from held [OF m after(1,3,4), of n] after(2) step 1 show ?thesis
    by (auto simp: remembers_def intro: loaded_alloc)
qed

text \<open>The first report of every press is the message itself, the further ones are repeats.\<close>

lemma session:
  "(\<And>m n. (m, n) \<in> set ps \<Longrightarrow> canon m \<and> 0 < n) \<Longrightarrow> alloc_ok e \<Longrightarrow> listening P d \<Longrightarrow>
   (\<And>m. canon m \<Longrightarrow> \<not> remembers d m (next_toggle e)) \<Longrightarrow>
   ir_session reset enc (infrared_common_decode P) (common_ready P) ps e d =
     Inr (concat (map (\<lambda>(m, n). m # replicate (n - 1) (m\<lparr>m_repeat := True\<rparr>)) ps))"
proof (induction ps arbitrary: e d)
  case Nil
  then show ?case by simp
next
  case (Cons p ps)
  obtain m n where p: "p = (m, Suc n)" and m: "canon m"
    using Cons.prems(1) [of "fst p" "snd p"] by (cases p; cases "snd p") auto
  from press [OF m Cons.prems(2,3) Cons.prems(4) [OF m], of n] obtain e1 e' d' where
    step: "reset e m = Inr e1" "ir_frames enc (infrared_common_decode P) (common_ready P) (Suc n) e1 d =
       Inr (m # replicate n (m\<lparr>m_repeat := True\<rparr>), e', d')"
    and after: "alloc_ok e'" "listening P d'" "d_toggle d' = (\<not> next_toggle e')" by blast
  have "ir_session reset enc (infrared_common_decode P) (common_ready P) ps e' d' =
     Inr (concat (map (\<lambda>(m, n). m # replicate (n - 1) (m\<lparr>m_repeat := True\<rparr>)) ps))"
    using Cons.IH [of e' d'] Cons.prems(1) after by (auto simp: remembers_def)
  with step p show ?case by (simp del: ir_frames.simps)
qed

end

end
