(* ===== verification/Infrared_Rc5.thy ===== *)
theory Infrared_Rc5
  imports Infrared_Manchester
begin

text \<open>
  RC5 and RC5X (\<^verbatim>\<open>lib/infrared/encoder_decoder/rc5\<close>): 14 bits in inverse Manchester code, a
  toggle bit that tells a repeated frame from a new press of the button.
\<close>

section \<open>Decoder\<close>

text \<open>
  \<^verbatim>\<open>infrared_decoder_rc5_interpret\<close> inverts the payload in place, whatever it answers. The
  wrapper \<^verbatim>\<open>InfraredRc5Decoder\<close> holds the common decoder and the toggle bit of the last
  message, the field \<open>d_toggle\<close> here.
\<close>

definition infrared_decoder_rc5_interpret :: ir_interpret where
  "infrared_decoder_rc5_interpret p d =
     bindr (list_get (d_data d) 0) (\<lambda>b0. bindr (list_set (d_data d) 0 (NOT b0)) (\<lambda>x0.
     bindr (list_get x0 1) (\<lambda>b1. bindr (list_set x0 1 (NOT b1)) (\<lambda>x1.
     bindr (list_get x1 0) (\<lambda>c0. bindr (list_get x1 1) (\<lambda>c1. bindr (read_u32 x1 0) (\<lambda>data.
     let d1 = d\<lparr>d_data := x1\<rparr>;
         address = ir_reverse c0 AND 0x1F;
         command = drop_bit 2 (ir_reverse c1) AND 0x3F;
         start_bit1 = (data AND 0x01 \<noteq> 0);
         start_bit2 = (data AND 0x02 \<noteq> 0);
         toggle = (data AND 0x04 \<noteq> 0)
     in if start_bit1
        then let protocol = (if start_bit2 then InfraredProtocolRC5 else InfraredProtocolRC5X);
                 message = d_message d1;
                 repeat = (m_address message = ucast address \<and> m_command message = ucast command \<and>
                           m_protocol message = protocol \<and> toggle = d_toggle d1)
             in Inr (True, d1\<lparr>d_toggle := toggle, d_message := \<lparr>m_protocol = protocol,
                       m_address = ucast address, m_command = ucast command, m_repeat = repeat\<rparr>\<rparr>)
        else Inr (False, d1))))))))"

definition infrared_protocol_rc5 :: infrared_common_protocol_spec where
  "infrared_protocol_rc5 =
     \<lparr>s_params = \<lparr>p_timings = \<lparr>min_split_time = 2700, silence_time = 2700 * 10,
          preamble_mark = 0, preamble_space = 0,
          bit1_mark = 888, bit1_space = 0, bit0_mark = 0, bit0_space = 0,
          preamble_tolerance = 0, bit_tolerance = 120\<rparr>,
        p_manchester_start_from_space = True, p_databit_len = [1 + 1 + 1 + 5 + 6, 0, 0, 0]\<rparr>,
      s_decode = infrared_common_decode_manchester,
      s_decode_repeat = None,
      s_interpret = infrared_decoder_rc5_interpret,
      s_encode = infrared_common_encode_manchester,
      s_encode_repeat = None\<rparr>"

section \<open>Encoder\<close>

record infrared_encoder_rc5 =
  rc5_common_encoder :: infrared_common_encoder
  rc5_toggle_bit :: bool

definition infrared_encoder_rc5_reset :: "infrared_encoder_rc5 \<Rightarrow> infrared_message
    \<Rightarrow> infrared_encoder_rc5 res" where
  "infrared_encoder_rc5_reset encoder m =
     bindr (infrared_common_encoder_reset infrared_protocol_rc5 (rc5_common_encoder encoder)) (\<lambda>e.
     bindr (read_u32 (e_data e) 0) (\<lambda>data.
     let data1 = data OR 0x01;
         data2 = (if m_protocol m = InfraredProtocolRC5 then data1 OR 0x02 else data1);
         data3 = data2 OR (if rc5_toggle_bit encoder then 0x04 else 0);
         data4 = data3 OR push_bit 3 (ucast (drop_bit 3 (ir_reverse (ucast (m_address m)))));
         data5 = data4 OR push_bit 8 (ucast (drop_bit 2 (ir_reverse (ucast (m_command m)))))
     in bindr (write_u32 (e_data e) 0 data5) (\<lambda>xs.
        bindr (list_get xs 0) (\<lambda>b0. bindr (list_set xs 0 (NOT b0)) (\<lambda>x0.
        bindr (list_get x0 1) (\<lambda>b1. bindr (list_set x0 1 (NOT b1)) (\<lambda>x1.
          Inr (encoder\<lparr>rc5_common_encoder := e\<lparr>e_data := x1,
                 e_bits_to_encode := databit_len0 (s_params infrared_protocol_rc5)\<rparr>,
               rc5_toggle_bit := \<not> rc5_toggle_bit encoder\<rparr>))))))))"

definition infrared_encoder_rc5_encode :: "infrared_encoder_rc5
    \<Rightarrow> (infrared_status \<times> u32 \<times> bool \<times> infrared_encoder_rc5) res" where
  "infrared_encoder_rc5_encode encoder =
     bindr (infrared_common_encode infrared_protocol_rc5 (rc5_common_encoder encoder)) (\<lambda>(st, dur, lvl, e).
       Inr (st, dur, lvl, encoder\<lparr>rc5_common_encoder := e\<rparr>))"

section \<open>Wrappers and variants\<close>

definition infrared_encoder_rc5_alloc :: "infrared_encoder_rc5 res" where
  "infrared_encoder_rc5_alloc =
     bindr (infrared_common_encoder_alloc False infrared_protocol_rc5) (\<lambda>e.
       Inr \<lparr>rc5_common_encoder = e, rc5_toggle_bit = False\<rparr>)"

definition infrared_decoder_rc5_alloc :: "infrared_common_decoder res" where
  "infrared_decoder_rc5_alloc =
     bindr (infrared_common_decoder_alloc infrared_protocol_rc5) (\<lambda>d. Inr (d\<lparr>d_toggle := False\<rparr>))"

definition infrared_decoder_rc5_decode :: "infrared_common_decoder \<Rightarrow> bool \<Rightarrow> u32
    \<Rightarrow> (infrared_message option \<times> infrared_common_decoder) res" where
  "infrared_decoder_rc5_decode = infrared_common_decode infrared_protocol_rc5"

definition infrared_decoder_rc5_check_ready :: "infrared_common_decoder
    \<Rightarrow> (infrared_message option \<times> infrared_common_decoder) res" where
  "infrared_decoder_rc5_check_ready = common_ready infrared_protocol_rc5"

definition infrared_decoder_rc5_reset :: "infrared_common_decoder \<Rightarrow> infrared_common_decoder res" where
  "infrared_decoder_rc5_reset = infrared_common_decoder_reset infrared_protocol_rc5"

definition infrared_protocol_rc5_get_variant :: "infrared_protocol \<Rightarrow> infrared_protocol_variant option" where
  "infrared_protocol_rc5_get_variant protocol =
     (case protocol of
        InfraredProtocolRC5 \<Rightarrow> Some \<lparr>v_name = ''RC5'', v_address_length = 5, v_command_length = 6,
          v_frequency = 36000, v_duty_cycle = 33, v_repeat_count = 1\<rparr>
      | InfraredProtocolRC5X \<Rightarrow> Some \<lparr>v_name = ''RC5X'', v_address_length = 5, v_command_length = 7,
          v_frequency = 36000, v_duty_cycle = 33, v_repeat_count = 1\<rparr>
      | _ \<Rightarrow> None)"

section \<open>Messages and their payload\<close>

definition rc5_canon :: "infrared_message \<Rightarrow> bool" where
  "rc5_canon m \<longleftrightarrow> (m_protocol m = InfraredProtocolRC5 \<or> m_protocol m = InfraredProtocolRC5X) \<and>
     fits 5 (m_address m) \<and> fits 6 (m_command m)"

lemma rc5_params [simp]:
  "p_databit_len (s_params infrared_protocol_rc5) = [14, 0, 0, 0]"
  "databit_len0 (s_params infrared_protocol_rc5) = 14"
  "s_interpret infrared_protocol_rc5 = infrared_decoder_rc5_interpret"
  "s_decode infrared_protocol_rc5 = infrared_common_decode_manchester"
  "s_encode infrared_protocol_rc5 = infrared_common_encode_manchester"
  "s_decode_repeat infrared_protocol_rc5 = None"
  "s_encode_repeat infrared_protocol_rc5 = None"
  "p_manchester_start_from_space (s_params infrared_protocol_rc5)"
  by (simp_all add: infrared_protocol_rc5_def databit_len0_def)

lemma rc5_payload [simp]: "payload_ok (s_params infrared_protocol_rc5) d = (length (d_data d) = 4)"
  by (auto simp: payload_ok_def bytes_for_bits_def decoder_tail_padding_def)

text \<open>The bits of a frame as the encoder stores them, inverted: start, start or field, toggle, address, command.\<close>

definition rc5_bits :: "infrared_message \<Rightarrow> bool \<Rightarrow> nat \<Rightarrow> bool" where
  "rc5_bits m tg i = (\<not> (if i = 0 then True else if i = 1 then m_protocol m = InfraredProtocolRC5
     else if i = 2 then tg else if i < 8 then bit (m_address m) (7 - i) else bit (m_command m) (13 - i)))"

lemma rc5_masks: "(0x1F :: 'a::len word) = mask 5" "(0x3F :: 'a word) = mask 6"
  by (simp_all add: mask_eq_exp_minus_1)

lemma bit_of_power: "(w AND 1 \<noteq> 0) = bit w 0" "(w AND 2 \<noteq> 0) = bit w 1" "(w AND 4 \<noteq> 0) = bit w 2" for w :: u32
  using and_mask_bit [of w 0] and_mask_bit [of w 1] and_mask_bit [of w 2] by simp_all

lemma rc5_interpret_bits:
  assumes m: "rc5_canon m" and d: "length (d_data d) = 4"
    and bits: "\<And>i. i < 14 \<Longrightarrow> byte_bit (d_data d) i = rc5_bits m tg i"
  shows "\<exists>d'. infrared_decoder_rc5_interpret p d = Inr (True, d') \<and>
     d_message d' = m\<lparr>m_repeat := remembers d m tg\<rparr> \<and> d_toggle d' = tg \<and> same_frame d d' \<and>
     d_level d' = d_level d \<and> d_databit_cnt d' = d_databit_cnt d"
proof -
  obtain b0 b1 b2 b3 where data: "d_data d = [b0, b1, b2, b3]"
    using d by (auto simp: numeral_eq_Suc length_Suc_conv)
  have b0: "bit b0 i = rc5_bits m tg i" if "i < 8" for i
    using bits [of i] that by (simp add: data byte_bit_def)
  have b1: "bit b1 i = rc5_bits m tg (i + 8)" if "i < 6" for i
    using bits [of "i + 8"] that by (simp add: data byte_bit_def)
  have a: "bit b0 (7 - j) \<longleftrightarrow> \<not> bit (m_address m) j" if "j < 5" for j
  proof -
    have "7 - j \<noteq> 0" "7 - j \<noteq> 1" "7 - j \<noteq> 2" "7 - j < 8" "7 - (7 - j) = j" using that by simp_all
    with b0 [of "7 - j"] show ?thesis unfolding rc5_bits_def by (simp only: if_False if_True)
  qed
  have c: "bit b1 (5 - j) \<longleftrightarrow> \<not> bit (m_command m) j" if "j < 6" for j
  proof -
    have "5 - j + 8 \<noteq> 0" "5 - j + 8 \<noteq> 1" "5 - j + 8 \<noteq> 2" "\<not> 5 - j + 8 < 8" "13 - (5 - j + 8) = j" "5 - j < 6"
      using that by simp_all
    with b1 [of "5 - j"] show ?thesis unfolding rc5_bits_def by (simp only: if_False if_True)
  qed
  have short: "bit (m_address m) j \<Longrightarrow> j < 5 \<and> j < 8" "bit (m_command m) j \<Longrightarrow> j < 6 \<and> j < 8" for j
    using m fits_bit [of 5 "m_address m" j] fits_bit [of 6 "m_command m" j] by (auto simp: rc5_canon_def)
  have word: "read_u32 [NOT b0, NOT b1, b2, b3] 0 = Inr (word_of_bytes (NOT b0) (NOT b1) b2 b3)"
    by (simp add: read_u32_def)
  have fields: "ucast (ir_reverse (NOT b0) AND 0x1F) = m_address m"
    "ucast (drop_bit 2 (ir_reverse (NOT b1)) AND 0x3F) = m_command m"
    by (rule bit_word_eqI; use short a c in
        \<open>auto simp: bit_simps rc5_masks bit_ir_reverse rc5_canon_def\<close>)+
  have flags: "bit (word_of_bytes (NOT b0) (NOT b1) b2 b3) 0"
    "bit (word_of_bytes (NOT b0) (NOT b1) b2 b3) (Suc 0) \<longleftrightarrow> m_protocol m = InfraredProtocolRC5"
    "bit (word_of_bytes (NOT b0) (NOT b1) b2 b3) 2 \<longleftrightarrow> tg"
    using b0 [of 0] b0 [of 1] b0 [of 2] by (simp_all add: bit_word_of_bytes bit_simps rc5_bits_def)
  have proto: "(if m_protocol m = InfraredProtocolRC5 then InfraredProtocolRC5 else InfraredProtocolRC5X) = m_protocol m"
    using m by (auto simp: rc5_canon_def)
  show ?thesis
    unfolding infrared_decoder_rc5_interpret_def
    using data word fields flags proto
    by (cases m) (auto simp: Let_def bit_of_power remembers_def same_frame_def list_get_def list_set_def)
qed

definition rc5_loaded :: "infrared_message \<Rightarrow> bool \<Rightarrow> infrared_encoder_rc5 \<Rightarrow> bool" where
  "rc5_loaded m tg e \<longleftrightarrow> (\<exists>data. encoder_ready 14 data (rc5_common_encoder e) \<and> length data = 38 \<and>
     (\<forall>i<14. byte_bit data i = rc5_bits m tg i))"

definition rc5_alloc_ok :: "infrared_encoder_rc5 \<Rightarrow> bool" where
  "rc5_alloc_ok e \<longleftrightarrow> length (e_data (rc5_common_encoder e)) = 38"

lemma rc5_packed:
  assumes m: "rc5_canon m" and e: "rc5_alloc_ok e"
  shows "\<exists>e'. infrared_encoder_rc5_reset e m = Inr e' \<and> rc5_loaded m (rc5_toggle_bit e) e' \<and>
     rc5_toggle_bit e' = (\<not> rc5_toggle_bit e)"
proof -
  let ?tg = "rc5_toggle_bit e"
  obtain e1 where e1: "infrared_common_encoder_reset infrared_protocol_rc5 (rc5_common_encoder e) = Inr e1"
    and idle: "encoder_ready (e_bits_to_encode e1) (e_data e1) e1" and len: "length (e_data e1) = 38"
    and clear: "\<And>i. i < 16 \<Longrightarrow> \<not> byte_bit (e_data e1) i"
  proof
    let ?c = "rc5_common_encoder e"
    let ?e1 = "?c\<lparr>e_timings_encoded := 0, e_timings_sum := 0, e_bits_encoded := 0,
       e_state := InfraredCommonEncoderStateSilence, e_switch_detect := False,
       e_data := replicate 2 0 @ drop 2 (e_data ?c)\<rparr>"
    show "infrared_common_encoder_reset infrared_protocol_rc5 ?c = Inr ?e1"
      using e by (simp add: infrared_common_encoder_reset_def bytes_for_bits_def rc5_alloc_ok_def Let_def numeral_2_eq_2)
    show "\<not> byte_bit (e_data ?e1) i" if "i < 16" for i
      using that by (auto simp: byte_bit_def nth_append div_less_iff_less_mult nth_Cons split: nat.split)
  qed (use e in \<open>simp_all add: encoder_ready_def rc5_alloc_ok_def\<close>)
  let ?xs = "e_data e1"
  obtain v0 where v0: "read_u32 ?xs 0 = Inr v0"
    using len by (auto simp: read_u32_def)
  have zero: "\<not> bit v0 i" if "i < 16" for i
    using bit_read_u32 [OF v0, of i] clear that by auto
  let ?v = "(((if m_protocol m = InfraredProtocolRC5 then (v0 OR 0x01) OR 0x02 else v0 OR 0x01) OR
      (if ?tg then 0x04 else 0)) OR push_bit 3 (ucast (drop_bit 3 (ir_reverse (ucast (m_address m)))))) OR
      push_bit 8 (ucast (drop_bit 2 (ir_reverse (ucast (m_command m)))))"
  obtain ys where ys: "write_u32 ?xs 0 ?v = Inr ys" "length ys = 38"
    using write_u32_ok [of 0 ?xs ?v] len by auto
  have four: "bit (4::int) i \<longleftrightarrow> i = 2" for i
    using bit_exp_iff [where 'a = int, of 2 i] by auto
  have v: "bit ?v i = (\<not> rc5_bits m ?tg i)" if "i < 14" for i
    using that zero [of i]
    by (auto simp: bit_simps rc5_bits_def bit_ir_reverse)
     (auto simp: four)
  let ?zs = "ys[0 := NOT (ys ! 0), 1 := NOT (ys ! 1)]"
  have "byte_bit ?zs i = rc5_bits m ?tg i" if "i < 14" for i
  proof -
    have "byte_bit ys i = bit ?v i" using byte_bit_write_u32 [OF ys(1), of i] that by simp
    moreover have "byte_bit ?zs i = (\<not> byte_bit ys i)"
      using that ys(2) by (cases "i < 8") (auto simp: byte_bit_def bit_simps nth_list_update div_eq_0_iff
          div_nat_eqI)
    ultimately show ?thesis using v [OF that] by simp
  qed
  moreover have "ys \<noteq> []" "Suc 0 < length ys" using ys(2) by auto
  ultimately show ?thesis
    using ys idle
    by (auto simp: infrared_encoder_rc5_reset_def e1 v0 Let_def rc5_loaded_def encoder_ready_def list_get_def
        list_set_def split del: if_split)
qed


section \<open>The protocol meets its contracts\<close>

lemma rc5_plain: "plain infrared_protocol_rc5 j"
  by (simp add: plain_def)

interpretation rc5: manchester_encoder infrared_protocol_rc5 "\<lambda>_. 888"
proof unfold_locales
  show "s_encode infrared_protocol_rc5 (s_params infrared_protocol_rc5) e =
      bindr (infrared_common_encode_manchester (s_params infrared_protocol_rc5) e) (\<lambda>(st, dur, lvl, e1).
        Inr (st, 888, lvl, e1))" for e
    by (simp add: infrared_common_encode_manchester_def bindr_assoc Let_def infrared_protocol_rc5_def)
qed (simp_all add: man_single_def man_double_def MATCH_TIMING_def infrared_protocol_rc5_def databit_len0_def)

interpretation rc5_safe: infrared_protocol_safe infrared_protocol_rc5 "\<lambda>_ _ _. True"
proof unfold_locales
  show "\<exists>st d'. s_decode infrared_protocol_rc5 (s_params infrared_protocol_rc5) d lvl timing = Inr (st, d') \<and>
            (st = InfraredStatusOk \<or> st = InfraredStatusError) \<and> same_frame d d' \<and>
            d_databit_cnt d' \<le> databit_len0 (s_params infrared_protocol_rc5) \<and> (st = InfraredStatusOk \<longrightarrow> True)"
    if "payload_ok (s_params infrared_protocol_rc5) d"
      "d_databit_cnt d \<le> databit_len0 (s_params infrared_protocol_rc5)" for d lvl timing
    using manchester_decode_ok [OF that, of lvl timing] by auto
  show "\<exists>ok d'. s_interpret infrared_protocol_rc5 (s_params infrared_protocol_rc5) d = Inr (ok, d') \<and>
      same_frame d d' \<and> d_databit_cnt d' = d_databit_cnt d"
    if "payload_ok (s_params infrared_protocol_rc5) d" for d
    using that
    by (auto simp: infrared_decoder_rc5_interpret_def read_u32_def same_frame_def Let_def list_get_def list_set_def)
qed (simp_all add: infrared_protocol_rc5_def databit_len0_def split: if_splits)

lemma rc5_timed_bits:
  assumes "\<forall>i<14. byte_bit data i = rc5_bits m tg i"
  shows "timed_bits (\<lambda>_. 888) data 1 14 = map (\<lambda>b. (b, 888)) (map (rc5_bits m tg) [1..<14])"
  using assms by (simp add: timed_bits_def)

lemma rc5_received:
  assumes d: "listening infrared_protocol_rc5 d"
  shows "\<exists>d1. ir_feed (infrared_common_decode infrared_protocol_rc5) d
       ((False, x) # man_runs False 888 (map (\<lambda>b. (b, 888)) (map (rc5_bits m tg) [1..<14]))) = Inr ([], d1) \<and>
     receiving infrared_protocol_rc5 (map (rc5_bits m tg) [0..<14]) True d1 \<and>
     (d_message d1, d_toggle d1) = (d_message d, d_toggle d)"
proof -
  have pre: "preamble_mark (p_timings (s_params infrared_protocol_rc5)) = 0"
    and B: "ucast (bit1_mark (p_timings (s_params infrared_protocol_rc5))) = (888 :: u32)"
    by (simp_all add: infrared_protocol_rc5_def)
  have bits: "map (rc5_bits m tg) [0..<14] = False # map (rc5_bits m tg) [1..<14]"
    by (simp add: upt_conv_Cons rc5_bits_def)
  from rc5.pause_opens [OF _ _ pre, of d x] d obtain d0 where
    0: "infrared_common_decode infrared_protocol_rc5 d False x = Inr (None, d0)"
    and d0: "boundary infrared_protocol_rc5 (d_message d, d_toggle d) False [] d0"
    by (auto simp: listening_def)
  from rc5.runs_received_from_space [OF d0 _ _ _ rc5_plain, of "map (rc5_bits m tg) [1..<14]"] obtain d1 where
    "ir_feed (infrared_common_decode infrared_protocol_rc5) d0
       (man_runs False 888 (map (\<lambda>b. (b, 888)) (map (rc5_bits m tg) [1..<14]))) = Inr ([], d1)"
    "receiving infrared_protocol_rc5 (False # map (rc5_bits m tg) [1..<14]) True d1"
    "(d_message d1, d_toggle d1) = (d_message d, d_toggle d)"
    unfolding B by (auto simp del: map_map)
  with 0 show ?thesis unfolding bits by auto
qed

interpretation rc5_toggle: toggle_codec infrared_protocol_rc5 "\<lambda>m. rc5_canon m \<and> \<not> m_repeat m"
  infrared_encoder_rc5_reset infrared_encoder_rc5_encode rc5_alloc_ok rc5_toggle_bit rc5_loaded
proof unfold_locales
  show "rc5_alloc_ok e" if "rc5_loaded m tg e" for m tg e
    using that by (auto simp: rc5_loaded_def rc5_alloc_ok_def encoder_ready_def)
  fix m tg e d assume m: "rc5_canon m \<and> \<not> m_repeat m" and e: "rc5_loaded m tg e"
    and d: "listening infrared_protocol_rc5 d"
  from e obtain data where c: "encoder_ready 14 data (rc5_common_encoder e)" and len: "length data = 38"
    and bits: "\<forall>i<14. byte_bit data i = rc5_bits m tg i" by (auto simp: rc5_loaded_def)
  have pre: "preamble_mark (p_timings (s_params infrared_protocol_rc5)) = 0"
    and sil: "silence_time (p_timings (s_params infrared_protocol_rc5)) = 27000"
    by (simp_all add: infrared_protocol_rc5_def)
  have b0: "byte_bit data 0 = False" using bits by (simp add: rc5_bits_def)
  let ?xs = "(False, 27000) # (False, 888) # man_tail False 888 (map (\<lambda>b. (b, 888)) (map (rc5_bits m tg) [1..<14]))"
  from rc5.frame_sent_from_pause [OF c _ _ _ pre] len obtain c' where
    sent: "ir_encode_frame (infrared_common_encode infrared_protocol_rc5) ir_frame_fuel (rc5_common_encoder e) = Inr (?xs, c')"
    and c': "encoder_ready 14 data c'"
    unfolding b0 sil rc5_timed_bits [OF bits] by auto
  have enc: "ir_encode_frame infrared_encoder_rc5_encode ir_frame_fuel e = Inr (?xs, e\<lparr>rc5_common_encoder := c'\<rparr>)"
    by (rule ir_encode_frame_wrapped [where get = rc5_common_encoder and put = "\<lambda>c e. e\<lparr>rc5_common_encoder := c\<rparr>"
          and enc = "infrared_common_encode infrared_protocol_rc5", OF _ _ _ sent])
       (simp_all add: infrared_encoder_rc5_encode_def)
  from rc5_received [OF d, of 27888 m tg] obtain d1 where
    feed: "ir_feed (infrared_common_decode infrared_protocol_rc5) d
       ((False, 27888) # man_runs False 888 (map (\<lambda>b. (b, 888)) (map (rc5_bits m tg) [1..<14]))) = Inr ([], d1)"
    and r: "receiving infrared_protocol_rc5 (map (rc5_bits m tg) [0..<14]) True d1"
    and k: "d_message d1 = d_message d" "d_toggle d1 = d_toggle d" by auto
  have line: "ir_line ?xs = (False, 27888) # man_runs False 888 (map (\<lambda>b. (b, 888)) (map (rc5_bits m tg) [1..<14]))"
    using ir_line_man_tail [of False 27888 888] by simp
  note r = r [unfolded receiving_def]
  have "byte_bit (d_data d1) i = rc5_bits m tg i" if "i < 14" for i
    using r that by (auto simp: data_bits_def dest: fun_cong)
  with rc5_interpret_bits [of m d1 tg "s_params infrared_protocol_rc5"] m r obtain d2 where
    "infrared_decoder_rc5_interpret (s_params infrared_protocol_rc5) d1 = Inr (True, d2)"
    "d_message d2 = m\<lparr>m_repeat := remembers d1 m tg\<rparr>" "d_toggle d2 = tg" "same_frame d1 d2"
    "d_level d2 = d_level d1" "d_databit_cnt d2 = d_databit_cnt d1" by auto
  moreover have "remembers d1 m tg = remembers d m tg" using k by (simp add: remembers_def)
  ultimately have "\<exists>d'. common_ready infrared_protocol_rc5 d1 = Inr (Some (m\<lparr>m_repeat := remembers d m tg\<rparr>), d') \<and>
      listening infrared_protocol_rc5 d' \<and> remembers d' m tg"
    using r by (auto simp: common_ready_def infrared_common_decoder_check_ready_def listening_def
        decoder_idle_def same_frame_def remembers_def payload_ok_def)
  moreover have "rc5_loaded m tg (e\<lparr>rc5_common_encoder := c'\<rparr>)"
    using c' len bits by (auto simp: rc5_loaded_def)
  ultimately show "\<exists>xs e' d1 d'. ir_encode_frame infrared_encoder_rc5_encode ir_frame_fuel e = Inr (xs, e') \<and>
        rc5_loaded m tg e' \<and> rc5_toggle_bit e' = rc5_toggle_bit e \<and>
        ir_feed (infrared_common_decode infrared_protocol_rc5) d (ir_line xs) = Inr ([], d1) \<and>
        common_ready infrared_protocol_rc5 d1 = Inr (Some (m\<lparr>m_repeat := remembers d m tg\<rparr>), d') \<and>
        listening infrared_protocol_rc5 d' \<and> remembers d' m tg"
    using enc feed line by auto
qed (use rc5_packed in auto)

section \<open>Properties\<close>

lemma rc5_wrappers:
  "infrared_decoder_rc5_decode = infrared_common_decode infrared_protocol_rc5"
  "infrared_decoder_rc5_check_ready = common_ready infrared_protocol_rc5"
  by (simp_all add: infrared_decoder_rc5_decode_def infrared_decoder_rc5_check_ready_def)

lemma rc5_allocs:
  "\<exists>e. infrared_encoder_rc5_alloc = Inr e \<and> rc5_alloc_ok e"
  "\<exists>d. infrared_decoder_rc5_alloc = Inr d \<and> listening infrared_protocol_rc5 d \<and>
     (\<forall>m tg. rc5_canon m \<longrightarrow> \<not> remembers d m tg)"
proof -
  have lens: "databit_lens_ok (s_params infrared_protocol_rc5)"
    by (simp add: databit_lens_ok_def)
  show "\<exists>e. infrared_encoder_rc5_alloc = Inr e \<and> rc5_alloc_ok e"
    using lens by (simp add: infrared_encoder_rc5_alloc_def infrared_common_encoder_alloc_def Let_def rc5_alloc_ok_def
        bytes_for_bits_def encoder_extra_bytes_def)
  show "\<exists>d. infrared_decoder_rc5_alloc = Inr d \<and> listening infrared_protocol_rc5 d \<and>
     (\<forall>m tg. rc5_canon m \<longrightarrow> \<not> remembers d m tg)"
    using lens by (auto simp: infrared_decoder_rc5_alloc_def infrared_common_decoder_alloc_def listening_def
        decoder_idle_def remembers_def rc5_canon_def bytes_for_bits_def decoder_tail_padding_def)
qed

text \<open>
  C30: presses of buttons. From freshly allocated encoder and decoder, each press reports its
  RC5 or RC5X message once as new and then, for every further frame sent while the button is held, as a
  repeat: also when the same button is pressed twice, because the toggle bit differs.
\<close>

theorem rc5_session:
  assumes "\<And>m n. (m, n) \<in> set ps \<Longrightarrow> rc5_canon m \<and> \<not> m_repeat m \<and> 0 < n"
  shows "bindr infrared_encoder_rc5_alloc (\<lambda>e. bindr infrared_decoder_rc5_alloc (\<lambda>d.
     ir_session infrared_encoder_rc5_reset infrared_encoder_rc5_encode infrared_decoder_rc5_decode
       infrared_decoder_rc5_check_ready ps e d)) =
     Inr (concat (map (\<lambda>(m, n). m # replicate (n - 1) (m\<lparr>m_repeat := True\<rparr>)) ps))"
proof -
  obtain e where e: "infrared_encoder_rc5_alloc = Inr e" "rc5_alloc_ok e"
    using rc5_allocs(1) by blast
  obtain d where d: "infrared_decoder_rc5_alloc = Inr d" "listening infrared_protocol_rc5 d"
    "\<And>m tg. rc5_canon m \<Longrightarrow> \<not> remembers d m tg"
    using rc5_allocs(2) by blast
  have "ir_session infrared_encoder_rc5_reset infrared_encoder_rc5_encode (infrared_common_decode infrared_protocol_rc5)
      (common_ready infrared_protocol_rc5) ps e d =
     Inr (concat (map (\<lambda>(m, n). m # replicate (n - 1) (m\<lparr>m_repeat := True\<rparr>)) ps))"
    by (rule rc5_toggle.session) (use assms e d in auto)
  then show ?thesis by (simp add: rc5_wrappers e(1) d(1))
qed

definition rc5_volume_up :: infrared_message where
  "rc5_volume_up = \<lparr>m_protocol = InfraredProtocolRC5, m_address = 0x05, m_command = 0x10, m_repeat = False\<rparr>"

theorem rc5_session_witness:
  "bindr infrared_encoder_rc5_alloc (\<lambda>e. bindr infrared_decoder_rc5_alloc (\<lambda>d.
     ir_session infrared_encoder_rc5_reset infrared_encoder_rc5_encode infrared_decoder_rc5_decode
       infrared_decoder_rc5_check_ready [(rc5_volume_up, 2), (rc5_volume_up, 1)] e d)) =
   Inr [rc5_volume_up, rc5_volume_up\<lparr>m_repeat := True\<rparr>, rc5_volume_up]"
proof -
  have "rc5_canon rc5_volume_up" "\<not> m_repeat rc5_volume_up"
    by (simp_all add: rc5_canon_def rc5_volume_up_def fits_def)
  then have "rc5_canon m \<and> \<not> m_repeat m \<and> 0 < n" if "(m, n) \<in> set [(rc5_volume_up, 2), (rc5_volume_up, 1)]" for m and n :: nat
    using that by auto
  from rc5_session [of "[(rc5_volume_up, 2), (rc5_volume_up, 1)]", OF this] show ?thesis by (simp del: ir_session.simps ir_frames.simps)
qed

text \<open>
  The seventh bit of an RC5X command is lost. The variant announces commands of 7 bits,
  but the encoder sends the same frame for a command with and without its bit 6.
\<close>

theorem rc5x_command_truncated:
  "map_option v_command_length (infrared_protocol_rc5_get_variant InfraredProtocolRC5X) = Some 7 \<and>
   infrared_encoder_rc5_reset e (m\<lparr>m_command := c\<rparr>) = infrared_encoder_rc5_reset e (m\<lparr>m_command := c OR 0x40\<rparr>)"
proof -
  have six: "bit (0x40 :: int) i \<longleftrightarrow> i = 6" for i
    using bit_exp_iff [where 'a = int, of 6 i] by auto
  have "drop_bit 2 (ir_reverse (ucast (c OR 0x40))) = drop_bit 2 (ir_reverse (ucast c))"
    by (rule bit_word_eqI) (auto simp: bit_simps bit_ir_reverse six)
  then show ?thesis
    by (simp add: infrared_encoder_rc5_reset_def infrared_protocol_rc5_get_variant_def)
qed

end
