(* ===== verification/Infrared_Rc6.thy ===== *)
theory Infrared_Rc6
  imports Infrared_Manchester
begin

text \<open>
  RC6 (\<^verbatim>\<open>lib/infrared/encoder_decoder/rc6\<close>): a preamble and 21 bits in Manchester code, of
  which the fifth, the toggle bit, lasts twice as long; the protocol decodes that bit and the first
  half of the next one itself and leaves the others to the common decoder.
\<close>

section \<open>Decoder\<close>

definition infrared_decoder_rc6_interpret :: ir_interpret where
  "infrared_decoder_rc6_interpret p d =
     bindr (read_u32 (d_data d) 0) (\<lambda>data.
     let address = ir_reverse (ucast (drop_bit 5 data));
         command = ir_reverse (ucast (drop_bit 13 data));
         start_bit = (data AND 0x01 \<noteq> 0);
         toggle = (data AND 0x10 \<noteq> 0);
         mode = (ucast (drop_bit 1 data AND 0x7) :: u8)
     in if start_bit \<and> mode = 0
        then let message = d_message d;
                 repeat = (m_address message = ucast address \<and> m_command message = ucast command \<and>
                           m_protocol message = InfraredProtocolRC6 \<and> toggle = d_toggle d)
             in Inr (True, d\<lparr>d_toggle := toggle, d_message := \<lparr>m_protocol = InfraredProtocolRC6,
                       m_address = ucast address, m_command = ucast command, m_repeat = repeat\<rparr>\<rparr>)
        else Inr (False, d))"

definition infrared_decoder_rc6_decode_manchester :: ir_decode where
  "infrared_decoder_rc6_decode_manchester p d lvl timing =
     (let b = ucast (bit1_mark (p_timings p)); tolerance = bit_tolerance (p_timings p);
          single_timing = MATCH_TIMING timing b tolerance;
          double_timing = MATCH_TIMING timing (2 * b) tolerance;
          triple_timing = MATCH_TIMING timing (3 * b) tolerance
      in if d_databit_cnt d = 4
         then bindr (furi_assert (d_switch_detect d)) (\<lambda>_.
              if single_timing \<noteq> triple_timing
              then bindr (list_get (d_data d) 0) (\<lambda>b0.
                   bindr (list_set (d_data d) 0
                            (b0 OR push_bit 4 (of_bool (if single_timing then \<not> lvl else lvl)))) (\<lambda>data.
                     Inr (InfraredStatusOk, d\<lparr>d_databit_cnt := inc16 (d_databit_cnt d), d_data := data\<rparr>)))
              else Inr (InfraredStatusError, d))
         else if d_databit_cnt d = 5
         then if single_timing \<or> triple_timing
              then infrared_common_decode_manchester p (d\<lparr>d_switch_detect := False\<rparr>) lvl
                     (if triple_timing then b else timing)
              else if double_timing then Inr (InfraredStatusOk, d)
              else Inr (InfraredStatusError, d)
         else infrared_common_decode_manchester p d lvl timing)"

section \<open>Encoder\<close>

definition infrared_encoder_rc6_encode_manchester :: ir_encode where
  "infrared_encoder_rc6_encode_manchester p e =
     (let toggle_bit = (e_bits_encoded e = 4) in
      bindr (infrared_common_encode_manchester p e) (\<lambda>(status, duration, polarity, e1).
        Inr (status, if toggle_bit then duration * 2 else duration, polarity, e1)))"

definition infrared_protocol_rc6 :: infrared_common_protocol_spec where
  "infrared_protocol_rc6 =
     \<lparr>s_params = \<lparr>p_timings = \<lparr>min_split_time = 2700, silence_time = 2700 * 10,
          preamble_mark = 2666, preamble_space = 889,
          bit1_mark = 444, bit1_space = 0, bit0_mark = 0, bit0_space = 0,
          preamble_tolerance = 200, bit_tolerance = 120\<rparr>,
        p_manchester_start_from_space = False, p_databit_len = [1 + 3 + 1 + 8 + 8, 0, 0, 0]\<rparr>,
      s_decode = infrared_decoder_rc6_decode_manchester,
      s_decode_repeat = None,
      s_interpret = infrared_decoder_rc6_interpret,
      s_encode = infrared_encoder_rc6_encode_manchester,
      s_encode_repeat = None\<rparr>"

record infrared_encoder_rc6 =
  rc6_common_encoder :: infrared_common_encoder
  rc6_toggle_bit :: bool

definition infrared_encoder_rc6_reset :: "infrared_encoder_rc6 \<Rightarrow> infrared_message
    \<Rightarrow> infrared_encoder_rc6 res" where
  "infrared_encoder_rc6_reset encoder m =
     bindr (infrared_common_encoder_reset infrared_protocol_rc6 (rc6_common_encoder encoder)) (\<lambda>e.
     bindr (read_u32 (e_data e) 0) (\<lambda>data.
     let data1 = data OR 0x01;
         data2 = data1 OR (if rc6_toggle_bit encoder then 0x10 else 0);
         data3 = data2 OR push_bit 5 (ucast (ir_reverse (ucast (m_address m))));
         data4 = data3 OR push_bit 13 (ucast (ir_reverse (ucast (m_command m))))
     in bindr (write_u32 (e_data e) 0 data4) (\<lambda>xs.
          Inr (encoder\<lparr>rc6_common_encoder := e\<lparr>e_data := xs,
                 e_bits_to_encode := databit_len0 (s_params infrared_protocol_rc6)\<rparr>,
               rc6_toggle_bit := \<not> rc6_toggle_bit encoder\<rparr>))))"

definition infrared_encoder_rc6_encode :: "infrared_encoder_rc6
    \<Rightarrow> (infrared_status \<times> u32 \<times> bool \<times> infrared_encoder_rc6) res" where
  "infrared_encoder_rc6_encode encoder =
     bindr (infrared_common_encode infrared_protocol_rc6 (rc6_common_encoder encoder)) (\<lambda>(st, dur, lvl, e).
       Inr (st, dur, lvl, encoder\<lparr>rc6_common_encoder := e\<rparr>))"

section \<open>Wrappers and variants\<close>

definition infrared_encoder_rc6_alloc :: "infrared_encoder_rc6 res" where
  "infrared_encoder_rc6_alloc =
     bindr (infrared_common_encoder_alloc False infrared_protocol_rc6) (\<lambda>e.
       Inr \<lparr>rc6_common_encoder = e, rc6_toggle_bit = False\<rparr>)"

definition infrared_decoder_rc6_alloc :: "infrared_common_decoder res" where
  "infrared_decoder_rc6_alloc =
     bindr (infrared_common_decoder_alloc infrared_protocol_rc6) (\<lambda>d. Inr (d\<lparr>d_toggle := False\<rparr>))"

definition infrared_decoder_rc6_decode :: "infrared_common_decoder \<Rightarrow> bool \<Rightarrow> u32
    \<Rightarrow> (infrared_message option \<times> infrared_common_decoder) res" where
  "infrared_decoder_rc6_decode = infrared_common_decode infrared_protocol_rc6"

definition infrared_decoder_rc6_check_ready :: "infrared_common_decoder
    \<Rightarrow> (infrared_message option \<times> infrared_common_decoder) res" where
  "infrared_decoder_rc6_check_ready = common_ready infrared_protocol_rc6"

definition infrared_decoder_rc6_reset :: "infrared_common_decoder \<Rightarrow> infrared_common_decoder res" where
  "infrared_decoder_rc6_reset = infrared_common_decoder_reset infrared_protocol_rc6"

definition infrared_protocol_rc6_get_variant :: "infrared_protocol \<Rightarrow> infrared_protocol_variant option" where
  "infrared_protocol_rc6_get_variant protocol =
     (if protocol = InfraredProtocolRC6
      then Some \<lparr>v_name = ''RC6'', v_address_length = 8, v_command_length = 8,
          v_frequency = 36000, v_duty_cycle = 33, v_repeat_count = 1\<rparr>
      else None)"

section \<open>Messages and their payload\<close>

definition rc6_canon :: "infrared_message \<Rightarrow> bool" where
  "rc6_canon m \<longleftrightarrow> m_protocol m = InfraredProtocolRC6 \<and> fits 8 (m_address m) \<and> fits 8 (m_command m)"

lemma rc6_params [simp]:
  "p_databit_len (s_params infrared_protocol_rc6) = [21, 0, 0, 0]"
  "databit_len0 (s_params infrared_protocol_rc6) = 21"
  "s_interpret infrared_protocol_rc6 = infrared_decoder_rc6_interpret"
  "s_decode infrared_protocol_rc6 = infrared_decoder_rc6_decode_manchester"
  "s_encode infrared_protocol_rc6 = infrared_encoder_rc6_encode_manchester"
  "s_decode_repeat infrared_protocol_rc6 = None"
  "s_encode_repeat infrared_protocol_rc6 = None"
  "\<not> p_manchester_start_from_space (s_params infrared_protocol_rc6)"
  by (simp_all add: infrared_protocol_rc6_def databit_len0_def)

lemma rc6_payload [simp]: "payload_ok (s_params infrared_protocol_rc6) d = (length (d_data d) = 5)"
  by (auto simp: payload_ok_def bytes_for_bits_def decoder_tail_padding_def)

text \<open>The bits of a frame: start, three mode bits, toggle, address and command with their high bits first.\<close>

definition rc6_bits :: "infrared_message \<Rightarrow> bool \<Rightarrow> nat \<Rightarrow> bool" where
  "rc6_bits m tg i = (if i = 0 then True else if i < 4 then False else if i = 4 then tg
     else if i < 13 then bit (m_address m) (12 - i) else bit (m_command m) (20 - i))"

lemma rc6_mask: "(0x7 :: 'a::len word) = mask 3"
  by (simp add: mask_eq_exp_minus_1)

lemma bit_of_flag: "(w AND 1 \<noteq> 0) = bit w 0" "(w AND 16 \<noteq> 0) = bit w 4" for w :: u32
  using and_mask_bit [of w 0] and_mask_bit [of w 4] by simp_all

lemma rc6_interpret_bits:
  assumes m: "rc6_canon m" and d: "length (d_data d) = 5"
    and bits: "\<And>i. i < 21 \<Longrightarrow> byte_bit (d_data d) i = rc6_bits m tg i"
  shows "\<exists>d'. infrared_decoder_rc6_interpret p d = Inr (True, d') \<and>
     d_message d' = m\<lparr>m_repeat := remembers d m tg\<rparr> \<and> d_toggle d' = tg \<and> same_frame d d' \<and>
     d_level d' = d_level d \<and> d_databit_cnt d' = d_databit_cnt d"
proof -
  obtain r where r: "read_u32 (d_data d) 0 = Inr r" using d by (auto simp: read_u32_def)
  have bit: "bit r i = rc6_bits m tg i" if "i < 21" for i
    using bit_read_u32 [OF r, of i] bits that by simp
  have short: "bit (m_address m) j \<Longrightarrow> j < 8" "bit (m_command m) j \<Longrightarrow> j < 8" for j
    using m fits_bit [of 8 "m_address m" j] fits_bit [of 8 "m_command m" j] by (auto simp: rc6_canon_def)
  have a: "bit r (5 + (7 - j)) \<longleftrightarrow> bit (m_address m) j" if "j < 8" for j
  proof -
    have "5 + (7 - j) \<noteq> 0" "\<not> 5 + (7 - j) < 4" "5 + (7 - j) \<noteq> 4" "5 + (7 - j) < 13" "12 - (5 + (7 - j)) = j" "5 + (7 - j) < 21"
      using that by simp_all
    with bit [of "5 + (7 - j)"] show ?thesis unfolding rc6_bits_def by (simp only: if_False if_True)
  qed
  have c: "bit r (13 + (7 - j)) \<longleftrightarrow> bit (m_command m) j" if "j < 8" for j
  proof -
    have "13 + (7 - j) \<noteq> 0" "\<not> 13 + (7 - j) < 4" "13 + (7 - j) \<noteq> 4" "\<not> 13 + (7 - j) < 13" "20 - (13 + (7 - j)) = j" "13 + (7 - j) < 21"
      using that by simp_all
    with bit [of "13 + (7 - j)"] show ?thesis unfolding rc6_bits_def by (simp only: if_False if_True)
  qed
  have fields: "ucast (ir_reverse (ucast (drop_bit 5 r))) = m_address m"
    "ucast (ir_reverse (ucast (drop_bit 13 r))) = m_command m"
    by (rule bit_word_eqI, rename_tac n, case_tac "n < 8";
        use short a c in \<open>force simp: bit_simps bit_ir_reverse\<close>)+
  have "(ucast (drop_bit 1 r AND 0x7) :: u8) = 0"
    using bit by (intro bit_word_eqI) (auto simp: bit_simps rc6_bits_def rc6_mask)
  moreover have "bit r 0" "bit r 4 = tg" using bit [of 0] bit [of 4] by (simp_all add: rc6_bits_def)
  ultimately show ?thesis
    using r fields m
    by (cases m) (auto simp: infrared_decoder_rc6_interpret_def Let_def bit_of_flag remembers_def same_frame_def rc6_canon_def)
qed

definition rc6_loaded :: "infrared_message \<Rightarrow> bool \<Rightarrow> infrared_encoder_rc6 \<Rightarrow> bool" where
  "rc6_loaded m tg e \<longleftrightarrow> (\<exists>data. encoder_ready 21 data (rc6_common_encoder e) \<and> length data = 39 \<and>
     (\<forall>i<21. byte_bit data i = rc6_bits m tg i))"

definition rc6_alloc_ok :: "infrared_encoder_rc6 \<Rightarrow> bool" where
  "rc6_alloc_ok e \<longleftrightarrow> length (e_data (rc6_common_encoder e)) = 39"

lemma rc6_packed:
  assumes m: "rc6_canon m" and e: "rc6_alloc_ok e"
  shows "\<exists>e'. infrared_encoder_rc6_reset e m = Inr e' \<and> rc6_loaded m (rc6_toggle_bit e) e' \<and>
     rc6_toggle_bit e' = (\<not> rc6_toggle_bit e)"
proof -
  let ?tg = "rc6_toggle_bit e"
  obtain e1 where e1: "infrared_common_encoder_reset infrared_protocol_rc6 (rc6_common_encoder e) = Inr e1"
    and idle: "encoder_ready (e_bits_to_encode e1) (e_data e1) e1" and len: "length (e_data e1) = 39"
    and clear: "\<And>i. i < 24 \<Longrightarrow> \<not> byte_bit (e_data e1) i"
  proof
    let ?c = "rc6_common_encoder e"
    let ?e1 = "?c\<lparr>e_timings_encoded := 0, e_timings_sum := 0, e_bits_encoded := 0,
       e_state := InfraredCommonEncoderStateSilence, e_switch_detect := False,
       e_data := replicate 3 0 @ drop 3 (e_data ?c)\<rparr>"
    show "infrared_common_encoder_reset infrared_protocol_rc6 ?c = Inr ?e1"
      using e by (simp add: infrared_common_encoder_reset_def bytes_for_bits_def rc6_alloc_ok_def Let_def numeral_3_eq_3)
    show "\<not> byte_bit (e_data ?e1) i" if "i < 24" for i
      using that by (auto simp: byte_bit_def nth_append div_less_iff_less_mult nth_Cons split: nat.split)
  qed (use e in \<open>simp_all add: encoder_ready_def rc6_alloc_ok_def\<close>)
  obtain v0 where v0: "read_u32 (e_data e1) 0 = Inr v0"
    using len by (auto simp: read_u32_def)
  have zero: "\<not> bit v0 i" if "i < 24" for i
    using bit_read_u32 [OF v0, of i] clear that by auto
  let ?v = "(((v0 OR 0x01) OR (if ?tg then 0x10 else 0)) OR push_bit 5 (ucast (ir_reverse (ucast (m_address m))))) OR
      push_bit 13 (ucast (ir_reverse (ucast (m_command m))))"
  obtain ys where ys: "write_u32 (e_data e1) 0 ?v = Inr ys" "length ys = 39"
    using write_u32_ok [of 0 "e_data e1" ?v] len by auto
  have sixteen: "bit (16::int) i \<longleftrightarrow> i = 4" for i
    using bit_exp_iff [where 'a = int, of 4 i] by auto
  have short: "bit (m_address m) j \<Longrightarrow> j < 8" for j
    using m fits_bit [of 8 "m_address m" j] by (auto simp: rc6_canon_def)
  have v: "bit ?v i = rc6_bits m ?tg i" if "i < 21" for i
    using that zero [of i] by (auto simp: bit_simps rc6_bits_def bit_ir_reverse sixteen)
  have "byte_bit ys i = rc6_bits m ?tg i" if "i < 21" for i
    using byte_bit_write_u32 [OF ys(1), of i] v [OF that] that by simp
  then show ?thesis
    using ys idle
    by (auto simp: infrared_encoder_rc6_reset_def e1 v0 Let_def rc6_loaded_def encoder_ready_def split del: if_split)
qed

section \<open>The protocol meets its contracts\<close>

lemma rc6_plain: "j \<noteq> 4 \<Longrightarrow> j \<noteq> 5 \<Longrightarrow> plain infrared_protocol_rc6 j"
  by (simp add: plain_def infrared_decoder_rc6_decode_manchester_def Let_def)

interpretation rc6: manchester_encoder infrared_protocol_rc6 "\<lambda>i. if i = 4 then 888 else 444"
proof unfold_locales
  show "s_encode infrared_protocol_rc6 (s_params infrared_protocol_rc6) e =
      bindr (infrared_common_encode_manchester (s_params infrared_protocol_rc6) e) (\<lambda>(st, dur, lvl, e1).
        Inr (st, if e_bits_encoded e = 4 then 888 else 444, lvl, e1))" for e
    by (simp add: infrared_encoder_rc6_encode_manchester_def infrared_common_encode_manchester_def bindr_assoc Let_def
        infrared_protocol_rc6_def)
qed (simp_all add: man_single_def man_double_def MATCH_TIMING_def infrared_protocol_rc6_def databit_len0_def)

text \<open>
  The assertion of the decoder that a switch was detected before the toggle bit: the fourth bit
  is only taken in the middle of its time.
\<close>

definition rc6_fed :: "nat \<Rightarrow> bool \<Rightarrow> bool \<Rightarrow> bool" where
  "rc6_fed cnt sw lvl \<longleftrightarrow> (cnt = 4 \<longrightarrow> sw)"

lemma rc6_decode_ops:
  assumes pay: "payload_ok (s_params infrared_protocol_rc6) d" and cnt: "d_databit_cnt d \<le> 21"
    and fed: "rc6_fed (d_databit_cnt d) (d_switch_detect d) lvl"
  shows "\<exists>st d'. infrared_decoder_rc6_decode_manchester (s_params infrared_protocol_rc6) d lvl timing = Inr (st, d') \<and>
     (st = InfraredStatusOk \<or> st = InfraredStatusError) \<and> same_frame d d' \<and> d_databit_cnt d' \<le> 21 \<and>
     (st = InfraredStatusOk \<longrightarrow> rc6_fed (d_databit_cnt d') (d_switch_detect d') (\<not> lvl))"
proof -
  let ?p = "s_params infrared_protocol_rc6"
  have man: "\<exists>st d'. infrared_common_decode_manchester ?p d0 lvl x = Inr (st, d') \<and>
     (st = InfraredStatusOk \<or> st = InfraredStatusError) \<and> same_frame d0 d' \<and> d_databit_cnt d' \<le> 21 \<and>
     (st = InfraredStatusOk \<longrightarrow> rc6_fed (d_databit_cnt d') (d_switch_detect d') (\<not> lvl))"
    if "payload_ok ?p d0" "d_databit_cnt d0 \<le> 21" "d_databit_cnt d0 \<noteq> 4" for d0 x
    using manchester_decode_ok [of ?p d0 lvl x] that by (auto simp: rc6_fed_def)
  consider "d_databit_cnt d = 4" | "d_databit_cnt d = 5" | "d_databit_cnt d \<noteq> 4" "d_databit_cnt d \<noteq> 5" by blast
  then show ?thesis
  proof cases
    case 1
    with fed pay have sw: "d_switch_detect d" "length (d_data d) = 5" by (simp_all add: rc6_fed_def)
    then have "d_data d \<noteq> []" by auto
    with 1 sw show ?thesis
      by (auto simp: infrared_decoder_rc6_decode_manchester_def Let_def list_get_def list_set_def same_frame_def
          rc6_fed_def)
  next
    case 2
    then have d: "payload_ok ?p (d\<lparr>d_switch_detect := False\<rparr>)"
      "d_databit_cnt (d\<lparr>d_switch_detect := False\<rparr>) \<le> 21" "d_databit_cnt (d\<lparr>d_switch_detect := False\<rparr>) \<noteq> 4"
      using pay cnt by simp_all
    have "same_frame (d\<lparr>d_switch_detect := False\<rparr>) d' = same_frame d d'" for d'
      by (simp add: same_frame_def)
    with man [OF d] 2 show ?thesis
      by (auto simp: infrared_decoder_rc6_decode_manchester_def Let_def rc6_fed_def)
  next
    case 3
    with man [OF pay cnt] show ?thesis
      by (auto simp: infrared_decoder_rc6_decode_manchester_def Let_def)
  qed
qed

interpretation rc6_safe: infrared_protocol_safe infrared_protocol_rc6 rc6_fed
proof unfold_locales
  show "\<exists>ok d'. s_interpret infrared_protocol_rc6 (s_params infrared_protocol_rc6) d = Inr (ok, d') \<and>
      same_frame d d' \<and> d_databit_cnt d' = d_databit_cnt d"
    if "payload_ok (s_params infrared_protocol_rc6) d" for d
    using that by (auto simp: infrared_decoder_rc6_interpret_def read_u32_def same_frame_def Let_def)
qed (use rc6_decode_ops in \<open>auto simp: rc6_fed_def infrared_protocol_rc6_def databit_len0_def split: if_splits\<close>)

section \<open>The toggle bit on the line\<close>

abbreviation rc6_T :: infrared_timings where "rc6_T \<equiv> p_timings (s_params infrared_protocol_rc6)"

lemma rc6_timings [simp]:
  "ucast (bit1_mark rc6_T) = (444 :: u32)" "bit_tolerance rc6_T = 120" "min_split_time rc6_T = 2700"
  by (simp_all add: infrared_protocol_rc6_def)

text \<open>The toggle bit is taken; what is left of it and the first half of the next bit are to come.\<close>

definition after_toggle :: "infrared_message \<times> bool \<Rightarrow> bool \<Rightarrow> bool list \<Rightarrow> infrared_common_decoder \<Rightarrow> bool" where
  "after_toggle k lvl bs d \<longleftrightarrow> receiving infrared_protocol_rc6 bs lvl d \<and> length bs = 5 \<and>
     (d_message d, d_toggle d) = k"

lemma toggle_taken:
  assumes h: "half infrared_protocol_rc6 k (\<not> lvl) bs d" and len: "length bs = 4"
    and x: "x = 444 \<and> v = (\<not> lvl) \<or> x = 1332 \<and> v = lvl"
  shows "\<exists>d'. infrared_common_decode infrared_protocol_rc6 d lvl x = Inr (None, d') \<and>
     after_toggle k lvl (bs @ [v]) d'"
proof -
  from h have r: "receiving infrared_protocol_rc6 bs (\<not> lvl) d" and sw: "d_switch_detect d"
    and k: "(d_message d, d_toggle d) = k" by (auto simp: half_def)
  note d = r [unfolded receiving_def]
  have timings: "MATCH_TIMING x 444 120 \<noteq> MATCH_TIMING x 1332 120" "(if MATCH_TIMING x 444 120 then \<not> lvl else lvl) = v"
    using x by (elim disjE conjE; simp add: MATCH_TIMING_def)+
  have idx: "4 div 8 < length (d_data d)" and ne: "d_data d \<noteq> []" and cnt: "d_databit_cnt d = 4"
    using d len by auto
  let ?d1 = "(stored d lvl x)\<lparr>d_databit_cnt := 5, d_data := accumulated (d_data d) 4 v\<rparr>"
  have acc: "(d_data d)[0 := (d_data d ! 0) OR push_bit 4 (of_bool v)] = accumulated (d_data d) 4 v"
    by (cases v) (simp_all add: accumulated_def Let_def)
  have "s_decode infrared_protocol_rc6 (s_params infrared_protocol_rc6) (stored d lvl x) lvl x = Inr (InfraredStatusOk,
      (stored d lvl x)\<lparr>d_databit_cnt := 5, d_data := (d_data d)[0 := (d_data d ! 0) OR push_bit 4 (of_bool v)]\<rparr>)"
    using sw ne cnt timings
    by (simp add: infrared_decoder_rc6_decode_manchester_def Let_def list_get_def list_set_def)
  note this [unfolded acc]
  from rc6.man_step [OF r _ _ this] x d len
  have "infrared_common_decode infrared_protocol_rc6 d lvl x = Inr (None, ?d1\<lparr>d_timings_cnt := 0\<rparr>)" by auto
  moreover have "after_toggle k lvl (bs @ [v]) (?d1\<lparr>d_timings_cnt := 0\<rparr>)"
    using d k len data_bits_accumulated [OF idx, of v] data_clean_accumulated [OF idx, of v]
    by (simp add: after_toggle_def receiving_def)
  ultimately show ?thesis by blast
qed

lemma toggle_skipped:
  assumes h: "after_toggle k (\<not> lvl) bs d"
  shows "\<exists>d'. infrared_common_decode infrared_protocol_rc6 d lvl 888 = Inr (None, d') \<and> after_toggle k lvl bs d'"
proof -
  from h have r: "receiving infrared_protocol_rc6 bs (\<not> lvl) d" and len: "length bs = 5"
    and k: "(d_message d, d_toggle d) = k" by (auto simp: after_toggle_def)
  note d = r [unfolded receiving_def]
  have "s_decode infrared_protocol_rc6 (s_params infrared_protocol_rc6) (stored d lvl 888) lvl 888 =
      Inr (InfraredStatusOk, stored d lvl 888)"
    using d len by (simp add: infrared_decoder_rc6_decode_manchester_def Let_def MATCH_TIMING_def)
  from rc6.man_step [OF r _ _ this] d len
  have "infrared_common_decode infrared_protocol_rc6 d lvl 888 = Inr (None, (stored d lvl 888)\<lparr>d_timings_cnt := 0\<rparr>)" by auto
  moreover have "after_toggle k lvl bs ((stored d lvl 888)\<lparr>d_timings_cnt := 0\<rparr>)"
    using d k len by (simp add: after_toggle_def receiving_def)
  ultimately show ?thesis by blast
qed

lemma toggle_over:
  assumes h: "after_toggle k (\<not> lvl) bs d" and x: "x = 444 \<or> x = 1332"
  shows "\<exists>d'. infrared_common_decode infrared_protocol_rc6 d lvl x = Inr (None, d') \<and>
     half infrared_protocol_rc6 k lvl (bs @ [lvl]) d'"
proof -
  from h have r: "receiving infrared_protocol_rc6 bs (\<not> lvl) d" and len: "length bs = 5"
    and k: "(d_message d, d_toggle d) = k" by (auto simp: after_toggle_def)
  note d = r [unfolded receiving_def]
  let ?d = "(stored d lvl x)\<lparr>d_switch_detect := True\<rparr>"
  have acc: "accumulate_lsb ?d lvl = Inr (?d\<lparr>d_data := accumulated (d_data d) 5 lvl, d_databit_cnt := 6\<rparr>)"
    using accumulate_within [of "s_params infrared_protocol_rc6" ?d lvl] d len by simp
  have single: "man_single (s_params infrared_protocol_rc6) 444" "\<not> man_double (s_params infrared_protocol_rc6) 444"
    by (simp_all add: man_single_def man_double_def MATCH_TIMING_def)
  have "infrared_common_decode_manchester (s_params infrared_protocol_rc6) ((stored d lvl x)\<lparr>d_switch_detect := False\<rparr>) lvl 444 =
      Inr (InfraredStatusOk, ?d\<lparr>d_data := accumulated (d_data d) 5 lvl, d_databit_cnt := 6\<rparr>)"
    using acc single d len by (simp add: manchester_unfold)
  then have dec: "s_decode infrared_protocol_rc6 (s_params infrared_protocol_rc6) (stored d lvl x) lvl x =
      Inr (InfraredStatusOk, ?d\<lparr>d_data := accumulated (d_data d) (length bs) lvl, d_databit_cnt := Suc (length bs)\<rparr>)"
    using d len x
    by (auto simp: infrared_decoder_rc6_decode_manchester_def Let_def MATCH_TIMING_def)
  show ?thesis
    by (rule rc6.bit_received [OF r k _ _ dec]) (use x len in auto)
qed

text \<open>The toggle bit \<open>tg\<close> and the bit \<open>b\<close> after it, as the line merges their halves with the bit 0 before.\<close>

lemma toggle_received:
  assumes h: "half infrared_protocol_rc6 k False bs d" and len: "length bs = 4"
  shows "\<exists>xs d'. man_runs False 444 ((tg, 888) # (b, 444) # ys) = xs @ man_runs b 444 ys \<and>
     ir_feed (infrared_common_decode infrared_protocol_rc6) d xs = Inr ([], d') \<and>
     half infrared_protocol_rc6 k b (bs @ [tg, b]) d'"
proof -
  let ?dec = "infrared_common_decode infrared_protocol_rc6"
  have taken: "\<exists>d1. ?dec d True (if tg then 1332 else 444) = Inr (None, d1) \<and> after_toggle k True (bs @ [tg]) d1"
    using toggle_taken [of k True bs d "if tg then 1332 else 444" tg] h len by auto
  then obtain d1 where 1: "?dec d True (if tg then 1332 else 444) = Inr (None, d1)"
    and d1: "after_toggle k True (bs @ [tg]) d1" by blast
  show ?thesis
  proof (cases tg)
    case True
    show ?thesis
    proof (cases b)
      case True
      from toggle_skipped [of k False "bs @ [tg]" d1] d1 obtain d2 where
        2: "?dec d1 False 888 = Inr (None, d2)" and d2: "after_toggle k False (bs @ [tg]) d2" by auto
      from toggle_over [of k True "bs @ [tg]" d2 444] d2 obtain d3 where
        3: "?dec d2 True 444 = Inr (None, d3)" "half infrared_protocol_rc6 k True ((bs @ [tg]) @ [True]) d3" by auto
      show ?thesis
        by (rule exI [of _ "[(True, 1332), (False, 888), (True, 444)]"])
           (use 1 2 3 \<open>tg\<close> \<open>b\<close> in auto)
    next
      case False
      from toggle_over [of k False "bs @ [tg]" d1 1332] d1 obtain d2 where
        2: "?dec d1 False 1332 = Inr (None, d2)" "half infrared_protocol_rc6 k False ((bs @ [tg]) @ [False]) d2" by auto
      show ?thesis
        by (rule exI [of _ "[(True, 1332), (False, 1332)]"])
           (use 1 2 \<open>tg\<close> \<open>\<not> b\<close> in auto)
    qed
  next
    case False
    from toggle_skipped [of k False "bs @ [tg]" d1] d1 obtain d2 where
      2: "?dec d1 False 888 = Inr (None, d2)" and d2: "after_toggle k False (bs @ [tg]) d2" by auto
    show ?thesis
    proof (cases b)
      case True
      from toggle_over [of k True "bs @ [tg]" d2 1332] d2 obtain d3 where
        3: "?dec d2 True 1332 = Inr (None, d3)" "half infrared_protocol_rc6 k True ((bs @ [tg]) @ [True]) d3" by auto
      show ?thesis
        by (rule exI [of _ "[(True, 444), (False, 888), (True, 1332)]"])
           (use 1 2 3 \<open>\<not> tg\<close> \<open>b\<close> in auto)
    next
      case False
      from toggle_skipped [of k True "bs @ [tg]" d2] d2 obtain d3 where
        3: "?dec d2 True 888 = Inr (None, d3)" and d3: "after_toggle k True (bs @ [tg]) d3" by auto
      from toggle_over [of k False "bs @ [tg]" d3 444] d3 obtain d4 where
        4: "?dec d3 False 444 = Inr (None, d4)" "half infrared_protocol_rc6 k False ((bs @ [tg]) @ [False]) d4" by auto
      show ?thesis
        by (rule exI [of _ "[(True, 444), (False, 888), (True, 888), (False, 444)]"])
           (use 1 2 3 4 \<open>\<not> tg\<close> \<open>\<not> b\<close> in auto)
    qed
  qed
qed

text \<open>The first four bits, then the toggle bit, then the rest through the common decoder.\<close>

lemma rc6_body_received:
  assumes d: "boundary infrared_protocol_rc6 k False [] d" and len: "length bs = 15"
  shows "\<exists>d'. ir_feed (infrared_common_decode infrared_protocol_rc6) d
      ((True, 444) # man_runs True 444 ((False, 444) # (False, 444) # (False, 444) # (tg, 888) # (b, 444) #
         map (\<lambda>b. (b, 444)) bs)) = Inr ([], d') \<and>
     receiving infrared_protocol_rc6 ([True, False, False, False, tg, b] @ bs) True d' \<and>
     (d_message d', d_toggle d') = k"
proof -
  let ?dec = "infrared_common_decode infrared_protocol_rc6" and ?P = infrared_protocol_rc6
  from rc6.bit_single [of k True "[]" d] d obtain d1 where
    1: "?dec d True 444 = Inr (None, d1)" "half ?P k True [True] d1" by (auto simp: rc6_plain)
  from rc6.bit_double [of k False "[True]" d1] 1(2) obtain d2 where
    2: "?dec d1 False 888 = Inr (None, d2)" "half ?P k False [True, False] d2" by (auto simp: rc6_plain)
  from rc6.half_single [of k True "[True, False]" d2] 2(2) obtain d3 where
    3: "?dec d2 True 444 = Inr (None, d3)" "boundary ?P k True [True, False] d3" by (auto simp: rc6_plain)
  from rc6.bit_single [of k False "[True, False]" d3] 3(2) obtain d4 where
    4: "?dec d3 False 444 = Inr (None, d4)" "half ?P k False [True, False, False] d4" by (auto simp: rc6_plain)
  from rc6.half_single [of k True "[True, False, False]" d4] 4(2) obtain d5 where
    5: "?dec d4 True 444 = Inr (None, d5)" "boundary ?P k True [True, False, False] d5" by (auto simp: rc6_plain)
  from rc6.bit_single [of k False "[True, False, False]" d5] 5(2) obtain d6 where
    6: "?dec d5 False 444 = Inr (None, d6)" "half ?P k False [True, False, False, False] d6" by (auto simp: rc6_plain)
  from toggle_received [OF 6(2), of tg b "map (\<lambda>b. (b, 444)) bs"] obtain xs d7 where
    runs: "man_runs False 444 ((tg, 888) # (b, 444) # map (\<lambda>b. (b, 444)) bs) = xs @ man_runs b 444 (map (\<lambda>b. (b, 444)) bs)"
    and 7: "ir_feed ?dec d6 xs = Inr ([], d7)" "half ?P k b ([True, False, False, False] @ [tg, b]) d7" by auto
  from rc6.runs_received [OF 7(2), of bs] len obtain d8 where
    8: "ir_feed ?dec d7 (man_runs b 444 (map (\<lambda>b. (b, 444)) bs)) = Inr ([], d8)"
    "receiving ?P (([True, False, False, False] @ [tg, b]) @ bs) True d8" "(d_message d8, d_toggle d8) = k"
    by (auto simp: rc6_plain)
  have "(True, 444) # man_runs True 444 ((False, 444) # (False, 444) # (False, 444) # (tg, 888) # (b, 444) #
      map (\<lambda>b. (b, 444)) bs) =
    [(True, 444), (False, 888), (True, 444), (False, 444), (True, 444), (False, 444)] @
      xs @ man_runs b 444 (map (\<lambda>b. (b, 444)) bs)"
    using runs by simp
  moreover have first: "ir_feed ?dec d [(True, 444), (False, 888), (True, 444), (False, 444), (True, 444), (False, 444)] = Inr ([], d6)"
    using 1 2 3 4 5 6 by simp
  moreover have "ir_feed ?dec d ([(True, 444), (False, 888), (True, 444), (False, 444), (True, 444), (False, 444)] @
      xs @ man_runs b 444 (map (\<lambda>b. (b, 444)) bs)) = Inr ([], d8)"
    unfolding ir_feed_append first 7(1) 8(1) bindr_Inr prod.case by simp
  ultimately show ?thesis using 8 by simp
qed

lemma rc6_bit_list:
  "map (rc6_bits m tg) [0..<21] =
     [True, False, False, False, tg, rc6_bits m tg 5] @ map (rc6_bits m tg) [6..<21]"
  by (simp add: upt_conv_Cons rc6_bits_def)

lemma rc6_timed_bits:
  assumes "\<forall>i<21. byte_bit data i = rc6_bits m tg i"
  shows "byte_bit data 0"
    and "timed_bits (\<lambda>i. if i = 4 then 888 else 444) data 1 21 =
      (False, 444) # (False, 444) # (False, 444) # (tg, 888) # (rc6_bits m tg 5, 444) #
        map (\<lambda>b. (b, 444)) (map (rc6_bits m tg) [6..<21])"
  using assms by (simp_all add: timed_bits_def upt_conv_Cons rc6_bits_def)

interpretation rc6_toggle: toggle_codec infrared_protocol_rc6 "\<lambda>m. rc6_canon m \<and> \<not> m_repeat m"
  infrared_encoder_rc6_reset infrared_encoder_rc6_encode rc6_alloc_ok rc6_toggle_bit rc6_loaded
proof unfold_locales
  show "rc6_alloc_ok e" if "rc6_loaded m tg e" for m tg e
    using that by (auto simp: rc6_loaded_def rc6_alloc_ok_def encoder_ready_def)
  fix m tg e d assume m: "rc6_canon m \<and> \<not> m_repeat m" and e: "rc6_loaded m tg e"
    and d: "listening infrared_protocol_rc6 d"
  let ?dec = "infrared_common_decode infrared_protocol_rc6" and ?P = infrared_protocol_rc6
  from e obtain data where c: "encoder_ready 21 data (rc6_common_encoder e)" and len: "length data = 39"
    and bits: "\<forall>i<21. byte_bit data i = rc6_bits m tg i" by (auto simp: rc6_loaded_def)
  have pre: "preamble_mark rc6_T \<noteq> 0"
    and t: "silence_time rc6_T = 27000" "ucast (preamble_mark rc6_T) = (2666 :: u32)"
      "ucast (preamble_space rc6_T) = (889 :: u32)" "preamble_tolerance rc6_T = 200"
    by (simp_all add: infrared_protocol_rc6_def)
  let ?ts = "(False, 444) # (False, 444) # (False, 444) # (tg, 888) # (rc6_bits m tg 5, 444) #
        map (\<lambda>b. (b, 444)) (map (rc6_bits m tg) [6..<21])"
  let ?pre = "[(False, 27000), (True, 2666), (False, 889)]"
  from rc6.frame_sent_from_preamble [OF c _ _ _ pre] len obtain c' where
    sent: "ir_encode_frame (infrared_common_encode ?P) ir_frame_fuel (rc6_common_encoder e) =
      Inr (?pre @ (True, 444) # man_tail True 444 ?ts, c')"
    and c': "encoder_ready 21 data c'"
    using rc6_timed_bits [OF bits] t by auto
  have enc: "ir_encode_frame infrared_encoder_rc6_encode ir_frame_fuel e =
      Inr (?pre @ (True, 444) # man_tail True 444 ?ts, e\<lparr>rc6_common_encoder := c'\<rparr>)"
    by (rule ir_encode_frame_wrapped [where get = rc6_common_encoder and put = "\<lambda>c e. e\<lparr>rc6_common_encoder := c\<rparr>"
          and enc = "infrared_common_encode ?P", OF _ _ _ sent])
       (simp_all add: infrared_encoder_rc6_encode_def)
  have line: "ir_line (?pre @ (True, 444) # man_tail True 444 ?ts) = ?pre @ (True, 444) # man_runs True 444 ?ts"
    using ir_line_man_tail [of True 444 444 ?ts] by (simp del: man_tail.simps man_runs.simps)
  have "\<exists>d0. ir_feed ?dec d ?pre = Inr ([], d0) \<and> boundary ?P (d_message d, d_toggle d) False [] d0"
    using d t by (intro preamble_opens) (simp_all add: listening_def pre MATCH_TIMING_F_def)
  then obtain d0 where 0: "ir_feed ?dec d ?pre = Inr ([], d0)"
    "boundary ?P (d_message d, d_toggle d) False [] d0" by blast
  have fifteen: "length (map (rc6_bits m tg) [6..<21]) = 15" by simp
  from rc6_body_received [OF 0(2) fifteen, of tg "rc6_bits m tg 5"] obtain d1 where
    1: "ir_feed ?dec d0 ((True, 444) # man_runs True 444 ?ts) = Inr ([], d1)"
    and r: "receiving ?P (map (rc6_bits m tg) [0..<21]) True d1"
    and k: "d_message d1 = d_message d" "d_toggle d1 = d_toggle d"
    unfolding rc6_bit_list prod.inject by blast
  have feed: "ir_feed ?dec d (?pre @ (True, 444) # man_runs True 444 ?ts) = Inr ([], d1)"
    unfolding ir_feed_append 0(1) 1 bindr_Inr prod.case by simp
  note r = r [unfolded receiving_def]
  have "byte_bit (d_data d1) i = rc6_bits m tg i" if "i < 21" for i
    using r that by (auto simp: data_bits_def dest: fun_cong)
  with rc6_interpret_bits [of m d1 tg "s_params ?P"] m r obtain d2 where
    "infrared_decoder_rc6_interpret (s_params ?P) d1 = Inr (True, d2)"
    "d_message d2 = m\<lparr>m_repeat := remembers d1 m tg\<rparr>" "d_toggle d2 = tg" "same_frame d1 d2"
    "d_level d2 = d_level d1" "d_databit_cnt d2 = d_databit_cnt d1" by auto
  moreover have "remembers d1 m tg = remembers d m tg" using k by (simp add: remembers_def)
  ultimately obtain d' where d': "common_ready ?P d1 = Inr (Some (m\<lparr>m_repeat := remembers d m tg\<rparr>), d')"
      "listening ?P d'" "remembers d' m tg"
    using r by (auto simp: common_ready_def infrared_common_decoder_check_ready_def listening_def
        decoder_idle_def same_frame_def remembers_def payload_ok_def)
  have loaded: "rc6_loaded m tg (e\<lparr>rc6_common_encoder := c'\<rparr>)"
    "rc6_toggle_bit (e\<lparr>rc6_common_encoder := c'\<rparr>) = rc6_toggle_bit e"
    using c' len bits by (auto simp: rc6_loaded_def)
  show "\<exists>xs e' d1 d'. ir_encode_frame infrared_encoder_rc6_encode ir_frame_fuel e = Inr (xs, e') \<and>
        rc6_loaded m tg e' \<and> rc6_toggle_bit e' = rc6_toggle_bit e \<and>
        ir_feed ?dec d (ir_line xs) = Inr ([], d1) \<and>
        common_ready ?P d1 = Inr (Some (m\<lparr>m_repeat := remembers d m tg\<rparr>), d') \<and>
        listening ?P d' \<and> remembers d' m tg"
    using enc loaded feed [folded line] d' by blast
qed (use rc6_packed in auto)

section \<open>Properties\<close>

lemma rc6_wrappers:
  "infrared_decoder_rc6_decode = infrared_common_decode infrared_protocol_rc6"
  "infrared_decoder_rc6_check_ready = common_ready infrared_protocol_rc6"
  by (simp_all add: infrared_decoder_rc6_decode_def infrared_decoder_rc6_check_ready_def)

lemma rc6_allocs:
  "\<exists>e. infrared_encoder_rc6_alloc = Inr e \<and> rc6_alloc_ok e"
  "\<exists>d. infrared_decoder_rc6_alloc = Inr d \<and> listening infrared_protocol_rc6 d \<and>
     (\<forall>m tg. rc6_canon m \<longrightarrow> \<not> remembers d m tg)"
proof -
  have lens: "databit_lens_ok (s_params infrared_protocol_rc6)"
    by (simp add: databit_lens_ok_def)
  show "\<exists>e. infrared_encoder_rc6_alloc = Inr e \<and> rc6_alloc_ok e"
    using lens by (simp add: infrared_encoder_rc6_alloc_def infrared_common_encoder_alloc_def Let_def rc6_alloc_ok_def
        bytes_for_bits_def encoder_extra_bytes_def)
  show "\<exists>d. infrared_decoder_rc6_alloc = Inr d \<and> listening infrared_protocol_rc6 d \<and>
     (\<forall>m tg. rc6_canon m \<longrightarrow> \<not> remembers d m tg)"
    using lens by (auto simp: infrared_decoder_rc6_alloc_def infrared_common_decoder_alloc_def listening_def
        decoder_idle_def remembers_def rc6_canon_def bytes_for_bits_def decoder_tail_padding_def)
qed

text \<open>
  C29: presses of buttons. From freshly allocated encoder and decoder, each press reports its
  RC6 message once as new and then, for every further frame sent while the button is held, as a
  repeat; the toggle bit is recovered although its halves merge with those of its neighbours.
\<close>

theorem rc6_session:
  assumes "\<And>m n. (m, n) \<in> set ps \<Longrightarrow> rc6_canon m \<and> \<not> m_repeat m \<and> 0 < n"
  shows "bindr infrared_encoder_rc6_alloc (\<lambda>e. bindr infrared_decoder_rc6_alloc (\<lambda>d.
     ir_session infrared_encoder_rc6_reset infrared_encoder_rc6_encode infrared_decoder_rc6_decode
       infrared_decoder_rc6_check_ready ps e d)) =
     Inr (concat (map (\<lambda>(m, n). m # replicate (n - 1) (m\<lparr>m_repeat := True\<rparr>)) ps))"
proof -
  obtain e where e: "infrared_encoder_rc6_alloc = Inr e" "rc6_alloc_ok e"
    using rc6_allocs(1) by blast
  obtain d where d: "infrared_decoder_rc6_alloc = Inr d" "listening infrared_protocol_rc6 d"
    "\<And>m tg. rc6_canon m \<Longrightarrow> \<not> remembers d m tg"
    using rc6_allocs(2) by blast
  have "ir_session infrared_encoder_rc6_reset infrared_encoder_rc6_encode (infrared_common_decode infrared_protocol_rc6)
      (common_ready infrared_protocol_rc6) ps e d =
     Inr (concat (map (\<lambda>(m, n). m # replicate (n - 1) (m\<lparr>m_repeat := True\<rparr>)) ps))"
    by (rule rc6_toggle.session) (use assms e d in auto)
  then show ?thesis by (simp add: rc6_wrappers e(1) d(1))
qed

definition rc6_button :: infrared_message where
  "rc6_button = \<lparr>m_protocol = InfraredProtocolRC6, m_address = 0x93, m_command = 0x5E, m_repeat = False\<rparr>"

theorem rc6_session_witness:
  "bindr infrared_encoder_rc6_alloc (\<lambda>e. bindr infrared_decoder_rc6_alloc (\<lambda>d.
     ir_session infrared_encoder_rc6_reset infrared_encoder_rc6_encode infrared_decoder_rc6_decode
       infrared_decoder_rc6_check_ready [(rc6_button, 2), (rc6_button, 1)] e d)) =
   Inr [rc6_button, rc6_button\<lparr>m_repeat := True\<rparr>, rc6_button]"
proof -
  have "rc6_canon rc6_button" "\<not> m_repeat rc6_button"
    by (simp_all add: rc6_canon_def rc6_button_def fits_def)
  then have "rc6_canon m \<and> \<not> m_repeat m \<and> 0 < n" if "(m, n) \<in> set [(rc6_button, 2), (rc6_button, 1)]" for m and n :: nat
    using that by auto
  from rc6_session [of "[(rc6_button, 2), (rc6_button, 1)]", OF this] show ?thesis
    by (simp del: ir_session.simps ir_frames.simps)
qed

end
