(* ===== verification/Infrared_Sirc.thy ===== *)
theory Infrared_Sirc
  imports Infrared_Pdwm
begin

text \<open>
  Sony SIRC, SIRC15 and SIRC20 (\<^verbatim>\<open>lib/infrared/encoder_decoder/sirc\<close>): a pulse-width protocol
  of 12, 15 or 20 bits whose repeat is the frame itself, every 45 ms.
\<close>

section \<open>Decoder\<close>

definition infrared_decoder_sirc_interpret :: ir_interpret where
  "infrared_decoder_sirc_interpret p d =
     bindr (read_u32 (d_data d) 0) (\<lambda>data.
     case (if d_databit_cnt d = 12 then Some (InfraredProtocolSIRC, drop_bit 7 data AND 0x1F)
           else if d_databit_cnt d = 15 then Some (InfraredProtocolSIRC15, drop_bit 7 data AND 0xFF)
           else if d_databit_cnt d = 20 then Some (InfraredProtocolSIRC20, drop_bit 7 data AND 0x1FFF)
           else None) of
       None \<Rightarrow> Inr (False, d)
     | Some (protocol, address32) \<Rightarrow>
         let address = (ucast address32 :: u16); command = (ucast (data AND 0x7F) :: u8) in
         Inr (True, d\<lparr>d_message := \<lparr>m_protocol = protocol, m_address = ucast address,
                       m_command = ucast command, m_repeat = False\<rparr>\<rparr>))"

section \<open>Encoder\<close>

definition sirc_repeat_period :: u32 where "sirc_repeat_period = 45000"

definition infrared_encoder_sirc_encode_repeat :: ir_encode where
  "infrared_encoder_sirc_encode_repeat p e =
     bindr (furi_assert (e_timings_encoded e = 1 + 2 + e_bits_to_encode e * 2 - 1)) (\<lambda>_.
     bindr (furi_assert (e_timings_sum e < sirc_repeat_period)) (\<lambda>_.
       Inr (InfraredStatusOk, sirc_repeat_period - e_timings_sum e, False,
            e\<lparr>e_timings_sum := 0, e_timings_encoded := 1, e_bits_encoded := 0,
              e_state := InfraredCommonEncoderStatePreamble\<rparr>)))"

definition infrared_protocol_sirc :: infrared_common_protocol_spec where
  "infrared_protocol_sirc =
     \<lparr>s_params = \<lparr>p_timings = \<lparr>min_split_time = 10000 - 1000, silence_time = 10000,
          preamble_mark = 2400, preamble_space = 600,
          bit1_mark = 1200, bit1_space = 600, bit0_mark = 600, bit0_space = 600,
          preamble_tolerance = 200, bit_tolerance = 120\<rparr>,
        p_manchester_start_from_space = False, p_databit_len = [20, 15, 12, 0]\<rparr>,
      s_decode = infrared_common_decode_pdwm,
      s_decode_repeat = None,
      s_interpret = infrared_decoder_sirc_interpret,
      s_encode = infrared_common_encode_pdwm,
      s_encode_repeat = Some infrared_encoder_sirc_encode_repeat\<rparr>"

definition infrared_encoder_sirc_reset :: "infrared_common_encoder \<Rightarrow> infrared_message
    \<Rightarrow> infrared_common_encoder res" where
  "infrared_encoder_sirc_reset e0 m =
     bindr (infrared_common_encoder_reset infrared_protocol_sirc e0) (\<lambda>e.
     case m_protocol m of
       InfraredProtocolSIRC \<Rightarrow>
         bindr (write_u32 (e_data e) 0 ((m_command m AND 0x7F) OR push_bit 7 (m_address m AND 0x1F))) (\<lambda>data.
           Inr (e\<lparr>e_data := data, e_bits_to_encode := 12\<rparr>))
     | InfraredProtocolSIRC15 \<Rightarrow>
         bindr (write_u32 (e_data e) 0 ((m_command m AND 0x7F) OR push_bit 7 (m_address m AND 0xFF))) (\<lambda>data.
           Inr (e\<lparr>e_data := data, e_bits_to_encode := 15\<rparr>))
     | InfraredProtocolSIRC20 \<Rightarrow>
         bindr (write_u32 (e_data e) 0 ((m_command m AND 0x7F) OR push_bit 7 (m_address m AND 0x1FFF))) (\<lambda>data.
           Inr (e\<lparr>e_data := data, e_bits_to_encode := 20\<rparr>))
     | _ \<Rightarrow> Inl FuriCrash)"

definition infrared_encoder_sirc_encode :: "infrared_common_encoder \<Rightarrow> ir_encode_result" where
  "infrared_encoder_sirc_encode e =
     bindr (infrared_common_encode infrared_protocol_sirc e) (\<lambda>(status, duration, lvl, e1).
     if status = InfraredStatusOk \<and> e_bits_encoded e1 = e_bits_to_encode e1
     then bindr (furi_assert (\<not> lvl)) (\<lambda>_.
            Inr (InfraredStatusDone, duration, lvl,
                 e1\<lparr>e_state := InfraredCommonEncoderStateEncodeRepeat\<rparr>))
     else Inr (status, duration, lvl, e1))"

section \<open>Wrappers and variants\<close>

definition infrared_decoder_sirc_alloc :: "infrared_common_decoder res" where
  "infrared_decoder_sirc_alloc = infrared_common_decoder_alloc infrared_protocol_sirc"

definition infrared_decoder_sirc_decode :: "infrared_common_decoder \<Rightarrow> bool \<Rightarrow> u32
    \<Rightarrow> (infrared_message option \<times> infrared_common_decoder) res" where
  "infrared_decoder_sirc_decode = infrared_common_decode infrared_protocol_sirc"

definition infrared_decoder_sirc_check_ready :: "infrared_common_decoder
    \<Rightarrow> (infrared_message option \<times> infrared_common_decoder) res" where
  "infrared_decoder_sirc_check_ready = common_ready infrared_protocol_sirc"

definition infrared_decoder_sirc_reset :: "infrared_common_decoder \<Rightarrow> infrared_common_decoder res" where
  "infrared_decoder_sirc_reset = infrared_common_decoder_reset infrared_protocol_sirc"

definition infrared_encoder_sirc_alloc :: "infrared_common_encoder res" where
  "infrared_encoder_sirc_alloc = infrared_common_encoder_alloc True infrared_protocol_sirc"

definition infrared_protocol_sirc_get_variant :: "infrared_protocol \<Rightarrow> infrared_protocol_variant option" where
  "infrared_protocol_sirc_get_variant protocol =
     (case protocol of
        InfraredProtocolSIRC \<Rightarrow> Some \<lparr>v_name = ''SIRC'', v_address_length = 5, v_command_length = 7,
          v_frequency = 40000, v_duty_cycle = 33, v_repeat_count = 3\<rparr>
      | InfraredProtocolSIRC15 \<Rightarrow> Some \<lparr>v_name = ''SIRC15'', v_address_length = 8, v_command_length = 7,
          v_frequency = 40000, v_duty_cycle = 33, v_repeat_count = 3\<rparr>
      | InfraredProtocolSIRC20 \<Rightarrow> Some \<lparr>v_name = ''SIRC20'', v_address_length = 13, v_command_length = 7,
          v_frequency = 40000, v_duty_cycle = 33, v_repeat_count = 3\<rparr>
      | _ \<Rightarrow> None)"

section \<open>Messages and their payload\<close>

definition sirc_len :: "infrared_message \<Rightarrow> nat" where
  "sirc_len m = (case m_protocol m of InfraredProtocolSIRC \<Rightarrow> 12 | InfraredProtocolSIRC15 \<Rightarrow> 15 | _ \<Rightarrow> 20)"

definition sirc_canon :: "infrared_message \<Rightarrow> bool" where
  "sirc_canon m \<longleftrightarrow> \<not> m_repeat m \<and>
     m_protocol m \<in> {InfraredProtocolSIRC, InfraredProtocolSIRC15, InfraredProtocolSIRC20} \<and>
     fits (sirc_len m - 7) (m_address m) \<and> fits 7 (m_command m)"

lemma sirc_params [simp]:
  "p_databit_len (s_params infrared_protocol_sirc) = [20, 15, 12, 0]"
  "databit_len0 (s_params infrared_protocol_sirc) = 20"
  "s_interpret infrared_protocol_sirc = infrared_decoder_sirc_interpret"
  "s_decode_repeat infrared_protocol_sirc = None"
  by (simp_all add: infrared_protocol_sirc_def databit_len0_def)

lemma sirc_payload [simp]: "payload_ok (s_params infrared_protocol_sirc) d = (length (d_data d) = 5)"
  by (simp add: payload_ok_def bytes_for_bits_def decoder_tail_padding_def)

lemma sirc_masks: "(0x7F :: 'a::len word) = mask 7" "(0x1F :: 'a word) = mask 5" "(0xFF :: 'a word) = mask 8"
  "(0x1FFF :: 'a word) = mask 13"
  by (simp_all add: mask_eq_exp_minus_1)

lemma sirc_fields:
  assumes "fits 7 c" and "fits k a" and "k \<le> 13"
    and bits: "\<And>j. j < k + 7 \<Longrightarrow> bit (r::u32) j = (if j < 7 then bit c j else bit a (j - 7))"
  shows "ucast (ucast (drop_bit 7 r AND mask k) :: u16) = (a :: u32)"
    and "ucast (ucast (r AND mask 7) :: u8) = (c :: u32)"
proof -
  have a: "bit a j \<Longrightarrow> j < k \<and> j < 16 \<and> j < 32" and c: "bit c j \<Longrightarrow> j < 7 \<and> j < 8" for j
    using fits_bit [OF assms(1), of j] fits_bit [OF assms(2), of j] assms(3) by auto
  have r: "j < 7 \<Longrightarrow> bit r j = bit c j" "j < k \<Longrightarrow> bit r (7 + j) = bit a j" for j
    using bits [of j] bits [of "7 + j"] by simp_all
  show "ucast (ucast (drop_bit 7 r AND mask k) :: u16) = a" "ucast (ucast (r AND mask 7) :: u8) = c"
    by (rule bit_word_eqI; use r a c in \<open>auto simp: bit_simps\<close>)+
qed

lemma sirc_interpret_bits:
  assumes m: "sirc_canon m" and cnt: "d_databit_cnt d = sirc_len m" and r: "read_u32 (d_data d) 0 = Inr r"
    and bits: "\<And>j. j < sirc_len m \<Longrightarrow> bit r j = (if j < 7 then bit (m_command m) j else bit (m_address m) (j - 7))"
  shows "infrared_decoder_sirc_interpret p d = Inr (True, d\<lparr>d_message := m\<rparr>)"
proof -
  have k: "sirc_len m - 7 \<le> 13" "sirc_len m - 7 + 7 = sirc_len m"
    by (auto simp: sirc_len_def split: infrared_protocol.splits)
  have f: "fits 7 (m_command m)" "fits (sirc_len m - 7) (m_address m)" using m by (auto simp: sirc_canon_def)
  note fields = sirc_fields [OF f k(1), of r, unfolded k(2), OF bits]
  have "m = \<lparr>m_protocol = m_protocol m, m_address = m_address m, m_command = m_command m, m_repeat = False\<rparr>"
    using m by (cases m) (simp add: sirc_canon_def)
  then show ?thesis
    using m r cnt fields
    by (auto simp: infrared_decoder_sirc_interpret_def sirc_canon_def sirc_len_def sirc_masks Let_def)
qed

lemma sirc_packed:
  assumes m: "sirc_canon m" and e: "encoder_alloc_ok infrared_protocol_sirc e"
  shows "\<exists>e'. infrared_encoder_sirc_reset e m = Inr e' \<and> packs infrared_protocol_sirc m (sirc_len m) e'"
proof -
  let ?xs = "replicate 3 0 @ drop 3 (e_data e)"
  let ?v = "(m_command m AND mask 7) OR push_bit 7 (m_address m AND mask (sirc_len m - 7))"
  have len: "length (e_data e) = 39"
    using e by (simp add: encoder_alloc_ok_def bytes_for_bits_def encoder_extra_bytes_def)
  obtain ys where ys: "write_u32 ?xs 0 ?v = Inr ys" "length ys = 39"
    using write_u32_ok [of 0 ?xs ?v] len by auto
  have v: "bit ?v j = (if j < 7 then bit (m_command m) j else bit (m_address m) (j - 7))" if "j < sirc_len m" for j
  proof -
    have "sirc_len m \<le> 20" by (simp add: sirc_len_def split: infrared_protocol.splits)
    with that show ?thesis by (auto simp: bit_simps)
  qed
  have "understood infrared_protocol_sirc (sirc_len m) ys m"
    unfolding understood_def
  proof (intro allI impI)
    fix d assume d: "payload_ok (s_params infrared_protocol_sirc) d" "d_databit_cnt d = sirc_len m"
      and bits: "data_bits (d_data d) (sirc_len m) = data_bits ys (sirc_len m)"
    then obtain r where r: "read_u32 (d_data d) 0 = Inr r" by (simp add: read_u32_def)
    have "bit r j = bit ?v j" if "j < sirc_len m" for j
    proof -
      have "j < 32" using that by (auto simp: sirc_len_def split: infrared_protocol.splits)
      with that show ?thesis
        using bit_read_u32 [OF r, of j] byte_bit_write_u32 [OF ys(1), of j] bits by (simp add: data_bits_eq_iff)
    qed
    with sirc_interpret_bits [OF m d(2) r] v
    show "\<exists>d'. s_interpret infrared_protocol_sirc (s_params infrared_protocol_sirc) d = Inr (True, d') \<and> d_message d' = m"
      by simp
  qed
  with ys len m show ?thesis
    by (auto simp: infrared_encoder_sirc_reset_def infrared_common_encoder_reset_def bytes_for_bits_def sirc_canon_def
        sirc_masks sirc_len_def Let_def packs_def encoder_ready_def encoder_alloc_ok_def encoder_extra_bytes_def)
qed

section \<open>The protocol meets its contracts\<close>

interpretation sirc: pdwm_codec infrared_protocol_sirc sirc_canon infrared_encoder_sirc_reset sirc_len
proof unfold_locales
  show "pdwm_timings_ok (p_timings (s_params infrared_protocol_sirc))"
    by (simp add: pdwm_timings_ok_def windows_disjoint_def pdm_def infrared_protocol_sirc_def)
  show "\<exists>ok d'. s_interpret infrared_protocol_sirc (s_params infrared_protocol_sirc) d = Inr (ok, d') \<and>
      same_frame d d' \<and> d_databit_cnt d' = d_databit_cnt d"
    if "payload_ok (s_params infrared_protocol_sirc) d" for d
    using that by (auto simp: infrared_decoder_sirc_interpret_def read_u32_def same_frame_def Let_def)
  show "s_decode infrared_protocol_sirc = infrared_common_decode_pdwm"
    and "s_encode infrared_protocol_sirc = infrared_common_encode_pdwm"
    by (simp_all add: infrared_protocol_sirc_def)
qed (use sirc_packed in \<open>auto simp: sirc_canon_def sirc_len_def\<close>)

interpretation sirc_safe: infrared_protocol_safe infrared_protocol_sirc "pdwm_fed infrared_protocol_sirc"
proof unfold_locales
  fix d d' assume "payload_ok (s_params infrared_protocol_sirc) d"
    and "databit_len_found (p_databit_len (s_params infrared_protocol_sirc)) (d_databit_cnt d)"
    and "s_interpret infrared_protocol_sirc (s_params infrared_protocol_sirc) d = Inr (False, d')"
  then show "d_databit_cnt d = databit_len0 (s_params infrared_protocol_sirc)"
    by (auto simp: infrared_decoder_sirc_interpret_def read_u32_def Let_def)
qed

text \<open>
  While a frame is being sent the wrapper \<^verbatim>\<open>infrared_encoder_sirc_encode\<close> adds nothing: a
  pulse-width frame ends at a mark, where the common encoder reports the end itself.
\<close>

definition sirc_sending :: "infrared_common_encoder \<Rightarrow> bool" where
  "sirc_sending e \<longleftrightarrow> e_state e \<noteq> InfraredCommonEncoderStateEncodeRepeat \<and>
     e_bits_encoded e < e_bits_to_encode e \<and> e_bits_to_encode e < 128"

lemma sirc_sending_step:
  assumes "sirc_sending e" and "infrared_common_encode infrared_protocol_sirc e = Inr (st, dur, lvl, e1)"
    and "st \<noteq> InfraredStatusDone"
  shows "sirc_sending e1"
  using assms
  by (cases "e_state e")
     (auto simp: sirc_sending_def infrared_common_encode_def infrared_protocol_sirc_def Let_def encode_case_encode_def
      infrared_common_encode_bits_def infrared_common_encode_pdwm_def encoder_logic_value_def bindr_eq_Inr
      split: if_splits)

lemma sirc_encode_agrees:
  assumes "sirc_sending e"
  shows "infrared_encoder_sirc_encode e = infrared_common_encode infrared_protocol_sirc e"
proof (cases "infrared_common_encode infrared_protocol_sirc e")
  case (Inr r)
  obtain st dur lvl e1 where r: "r = (st, dur, lvl, e1)" by (cases r)
  have "sirc_sending e1" if "st = InfraredStatusOk"
    using sirc_sending_step [OF assms] Inr r that by auto
  with Inr r show ?thesis by (auto simp: infrared_encoder_sirc_encode_def sirc_sending_def)
qed (simp add: infrared_encoder_sirc_encode_def)

lemma sirc_frame_agrees:
  "sirc_sending e \<Longrightarrow> ir_encode_frame infrared_encoder_sirc_encode n e =
     ir_encode_frame (infrared_common_encode infrared_protocol_sirc) n e"
  by (rule ir_encode_frame_agree [where I = sirc_sending])
     (auto intro: sirc_encode_agrees sirc_sending_step)

lemma sirc_ready_sending:
  assumes "sirc_canon m" and "packs infrared_protocol_sirc m (sirc_len m) e"
  shows "sirc_sending e"
proof -
  have "0 < sirc_len m" "sirc_len m < 128" by (auto simp: sirc_len_def split: infrared_protocol.splits)
  with assms(2) show ?thesis by (auto simp: packs_def encoder_ready_def sirc_sending_def)
qed

text \<open>The repeat: the same frame, after a pause that makes the period 45 ms.\<close>

lemma sirc_body_time:
  "\<exists>k \<le> 1800 * length bs. line_time (pdwm_body (p_timings (s_params infrared_protocol_sirc)) bs) = word_of_nat k"
proof (induction bs)
  case Nil
  show ?case by (intro exI [of _ 0]) (simp add: infrared_protocol_sirc_def pdm_def)
next
  case (Cons b bs)
  then obtain k where "k \<le> 1800 * length bs"
    and "line_time (pdwm_body (p_timings (s_params infrared_protocol_sirc)) bs) = word_of_nat k" by blast
  then show ?case
    by (cases "bs = []"; intro exI [of _ "(if b then 1200 else 600) + (if bs = [] then 0 else 600 + k)"])
       (simp_all add: infrared_protocol_sirc_def pdm_def pdwm_dur_def pdwm_nominal_def)
qed

lemma sirc_frame_time:
  obtains k where "k \<le> 3000 + 1800 * length bs"
    and "line_time (tl (pdwm_frame (p_timings (s_params infrared_protocol_sirc)) bs)) = word_of_nat k"
proof -
  obtain k where "k \<le> 1800 * length bs"
    and "line_time (pdwm_body (p_timings (s_params infrared_protocol_sirc)) bs) = word_of_nat k"
    using sirc_body_time [of bs] by blast
  then show thesis
    by (intro that [of "3000 + k"]) (simp_all add: pdwm_frame_def pdwm_preamble_def infrared_protocol_sirc_def)
qed

lemma sirc_frame_short:
  assumes "length bs \<le> 20"
  shows "line_time (tl (pdwm_frame (p_timings (s_params infrared_protocol_sirc)) bs)) < sirc_repeat_period"
proof -
  obtain k where k: "k \<le> 3000 + 1800 * length bs"
    and eq: "line_time (tl (pdwm_frame (p_timings (s_params infrared_protocol_sirc)) bs)) = word_of_nat k"
    by (rule sirc_frame_time)
  have "unat (word_of_nat k :: u32) = k"
    using k assms by (simp only: unat_of_nat) simp
  then show ?thesis
    unfolding eq using k assms by (simp only: word_less_nat_alt) (simp add: sirc_repeat_period_def)
qed

abbreviation sirc_T :: infrared_timings where "sirc_T \<equiv> p_timings (s_params infrared_protocol_sirc)"

definition sirc_repeat_frame :: "bool list \<Rightarrow> (bool \<times> u32) list" where
  "sirc_repeat_frame bs =
     (False, sirc_repeat_period - line_time (tl (pdwm_frame sirc_T bs))) # tl (pdwm_frame sirc_T bs)"

definition sirc_sent :: "nat \<Rightarrow> u8 list \<Rightarrow> infrared_common_encoder \<Rightarrow> bool" where
  "sirc_sent n data e \<longleftrightarrow> frame_sent infrared_protocol_sirc n data (2 * n + 2)
     (line_time (tl (pdwm_frame sirc_T (data_bits data n)))) e"

lemma sirc_not_pdm: "\<not> pdm sirc_T"
  by (simp add: infrared_protocol_sirc_def pdm_def)

lemma sirc_repeat_sent:
  assumes e: "sirc_sent n data e" and n: "0 < n" "n \<le> 20" "n div 8 < length data"
  shows "\<exists>e'. ir_encode_frame infrared_encoder_sirc_encode ir_frame_fuel e =
      Inr (sirc_repeat_frame (data_bits data n), e') \<and> sirc_sent n data e'"
proof -
  let ?s = "line_time (tl (pdwm_frame sirc_T (data_bits data n)))"
  let ?e = "e\<lparr>e_timings_sum := 0, e_timings_encoded := 1, e_bits_encoded := 0,
              e_state := InfraredCommonEncoderStatePreamble\<rparr>"
  have s: "?s < sirc_repeat_period" using sirc_frame_short [of "data_bits data n"] n by simp
  have rep: "s_encode_repeat infrared_protocol_sirc = Some infrared_encoder_sirc_encode_repeat"
    by (simp add: infrared_protocol_sirc_def)
  have "infrared_common_encode infrared_protocol_sirc e = Inr (InfraredStatusOk, sirc_repeat_period - ?s, False, ?e)"
    using e s n rep by (simp add: sirc_sent_def frame_sent_def infrared_common_encode_def Let_def
        infrared_encoder_sirc_encode_repeat_def)
  then have 1: "infrared_encoder_sirc_encode e = Inr (InfraredStatusOk, sirc_repeat_period - ?s, False, ?e)"
    using e n by (simp add: infrared_encoder_sirc_encode_def sirc_sent_def frame_sent_def)
  have ap: "after_pause n data ?e" using e by (simp add: after_pause_def sirc_sent_def frame_sent_def)
  with sirc.frame_after_pause [OF this _ n(3)] n(2) sirc_not_pdm n(1) obtain e' where
    rest: "ir_encode_frame (infrared_common_encode infrared_protocol_sirc) (3 + 2 * n) ?e =
      Inr (tl (pdwm_frame sirc_T (data_bits data n)), e')" and sent: "sirc_sent n data e'"
    by (auto simp: sirc_sent_def)
  have "sirc_sending ?e" using ap n by (simp add: sirc_sending_def after_pause_def)
  then have "ir_encode_frame infrared_encoder_sirc_encode 127 ?e =
      Inr (tl (pdwm_frame sirc_T (data_bits data n)), e')"
    using ir_encode_frame_more_fuel [OF rest, of 127] n by (simp add: sirc_frame_agrees)
  moreover have fuel: "ir_frame_fuel = Suc 127" by (simp add: ir_frame_fuel_def)
  ultimately show ?thesis
    unfolding fuel ir_encode_frame.simps(2) 1 using sent by (simp add: sirc_repeat_frame_def)
qed

lemma sirc_repeats_sent:
  "sirc_sent n data e \<Longrightarrow> 0 < n \<Longrightarrow> n \<le> 20 \<Longrightarrow> n div 8 < length data \<Longrightarrow>
   \<exists>e'. ir_encode_frames infrared_encoder_sirc_encode k e =
      Inr (concat (replicate k (sirc_repeat_frame (data_bits data n))), e')"
proof (induction k arbitrary: e)
  case (Suc k)
  then obtain e1 where "ir_encode_frame infrared_encoder_sirc_encode ir_frame_fuel e =
      Inr (sirc_repeat_frame (data_bits data n), e1)" "sirc_sent n data e1"
    using sirc_repeat_sent by blast
  with Suc.IH [of e1] Suc.prems show ?case by auto
qed simp

lemma sirc_short_pause:
  assumes "length bs \<le> 15"
  shows "min_split_time sirc_T < sirc_repeat_period - line_time (tl (pdwm_frame sirc_T bs))"
proof -
  obtain k where k: "k \<le> 3000 + 1800 * length bs" and t: "line_time (tl (pdwm_frame sirc_T bs)) = word_of_nat k"
    by (rule sirc_frame_time)
  from k assms have le: "k \<le> 30000" by simp
  have eq: "sirc_repeat_period - line_time (tl (pdwm_frame sirc_T bs)) = word_of_nat (45000 - k)"
    unfolding t using le by (simp add: sirc_repeat_period_def of_nat_diff)
  have u: "unat (word_of_nat (45000 - k) :: u32) = 45000 - k"
    by (simp only: unat_of_nat) simp
  have c: "unat (min_split_time sirc_T) = 9000" by (simp add: infrared_protocol_sirc_def)
  show ?thesis unfolding word_less_nat_alt eq u c using le by simp
qed

lemma sirc_repeats_received:
  assumes m: "sirc_canon m" "encoder_alloc_ok infrared_protocol_sirc e" "infrared_encoder_sirc_reset e m = Inr e'"
    and short: "sirc_len m \<le> 15"
  shows "receiving infrared_protocol_sirc (data_bits (e_data e') (sirc_len m)) True d \<Longrightarrow>
    \<exists>d'. ir_feed (infrared_common_decode infrared_protocol_sirc) d
        (concat (replicate k (sirc_repeat_frame (data_bits (e_data e') (sirc_len m))))) = Inr (replicate k m, d')"
proof (induction k arbitrary: d)
  case (Suc k)
  let ?bs = "data_bits (e_data e') (sirc_len m)"
  from sirc.next_frame [OF m Suc.prems _ sirc_short_pause [of ?bs]] short obtain d1 where
    "ir_feed (infrared_common_decode infrared_protocol_sirc) d (sirc_repeat_frame (data_bits (e_data e') (sirc_len m))) = Inr ([m], d1)"
    and "receiving infrared_protocol_sirc (data_bits (e_data e') (sirc_len m)) True d1"
    by (auto simp only: sirc_repeat_frame_def sirc_params length_data_bits)
  with Suc.IH [of d1] show ?case by (auto simp: ir_feed_append)
qed simp

section \<open>Properties\<close>

lemma sirc_wrappers:
  "infrared_decoder_sirc_decode = infrared_common_decode infrared_protocol_sirc"
  "infrared_decoder_sirc_check_ready = common_ready infrared_protocol_sirc"
  by (simp_all add: infrared_decoder_sirc_decode_def infrared_decoder_sirc_check_ready_def)

lemma sirc_allocs:
  "\<exists>e. infrared_encoder_sirc_alloc = Inr e \<and> encoder_alloc_ok infrared_protocol_sirc e"
  "\<exists>d. infrared_decoder_sirc_alloc = Inr d \<and> decoder_idle infrared_protocol_sirc d"
proof -
  obtain e where "infrared_common_encoder_alloc True infrared_protocol_sirc = Inr e"
    by (simp add: infrared_common_encoder_alloc_def databit_lens_ok_def Let_def
        infrared_protocol_sirc_def databit_len0_def)
  then show "\<exists>e. infrared_encoder_sirc_alloc = Inr e \<and> encoder_alloc_ok infrared_protocol_sirc e"
    using encoder_alloc_alloc_ok unfolding infrared_encoder_sirc_alloc_def by blast
  obtain d where "infrared_common_decoder_alloc infrared_protocol_sirc = Inr d"
    by (simp add: infrared_common_decoder_alloc_def databit_lens_ok_def infrared_protocol_sirc_def databit_len0_def)
  then show "\<exists>d. infrared_decoder_sirc_alloc = Inr d \<and> decoder_idle infrared_protocol_sirc d"
    using decoder_alloc_idle unfolding infrared_decoder_sirc_alloc_def by blast
qed

lemma sirc_first_frame:
  assumes m: "sirc_canon m" and e: "encoder_alloc_ok infrared_protocol_sirc e"
  obtains e1 e2 where "infrared_encoder_sirc_reset e m = Inr e1"
    and "ir_encode_frame infrared_encoder_sirc_encode ir_frame_fuel e1 =
      Inr (pdwm_frame sirc_T (data_bits (e_data e1) (sirc_len m)), e2)"
    and "sirc_sent (sirc_len m) (e_data e1) e2" and "sirc_len m div 8 < length (e_data e1)"
proof -
  from sirc.packed [OF m e] obtain e1 where r: "infrared_encoder_sirc_reset e m = Inr e1"
    and pk: "packs infrared_protocol_sirc m (sirc_len m) e1" by blast
  from sirc.message_emitted [OF m e r] obtain e2 where
    enc: "ir_encode_frame (infrared_common_encode infrared_protocol_sirc) ir_frame_fuel e1 =
      Inr (pdwm_frame sirc_T (data_bits (e_data e1) (sirc_len m)), e2)"
    and sent: "sirc_sent (sirc_len m) (e_data e1) e2"
    by (auto simp: sirc_not_pdm sirc_sent_def)
  have "sirc_len m div 8 < length (e_data e1)"
    using sirc.payload_index [OF m, of e1] pk by (simp add: packs_def)
  with that r sent enc sirc_frame_agrees [OF sirc_ready_sending [OF m pk]] show thesis by simp
qed

lemma sirc_line_alternating:
  assumes "bs \<noteq> []"
  shows "alternating (pdwm_frame sirc_T bs @ concat (replicate k (sirc_repeat_frame bs)))"
proof -
  have tail: "tl (pdwm_frame sirc_T bs) \<noteq> []" by (simp add: pdwm_frame_def pdwm_preamble_def)
  have rep: "alternating (sirc_repeat_frame bs)" "fst (last (sirc_repeat_frame bs))"
    using pdwm_frame_alternating [of sirc_T bs] pdwm_frame_last [of sirc_T bs] assms tail
    by (simp_all add: sirc_repeat_frame_def pdwm_frame_def pdwm_preamble_def)
  have hd: "sirc_repeat_frame bs \<noteq> []" "\<not> fst (hd (sirc_repeat_frame bs))"
    by (simp_all add: sirc_repeat_frame_def)
  have all: "alternating (concat (replicate k (sirc_repeat_frame bs))) \<and>
      (concat (replicate k (sirc_repeat_frame bs)) \<noteq> [] \<longrightarrow> \<not> fst (hd (concat (replicate k (sirc_repeat_frame bs)))))"
    using rep hd by (induction k) (auto intro!: alternating_append)
  then show ?thesis
    using pdwm_frame_alternating [of sirc_T bs] pdwm_frame_last [of sirc_T bs] assms
    by (intro alternating_append) auto
qed

text \<open>
  a SIRC, SIRC15 or SIRC20 message in canonical form survives a transfer; the payload is
  complete at the mark of its last bit.
\<close>

theorem sirc_transfer:
  assumes "sirc_canon m" and "encoder_alloc_ok infrared_protocol_sirc e" and "decoder_idle infrared_protocol_sirc d"
  shows "ir_transfer infrared_encoder_sirc_reset infrared_encoder_sirc_encode infrared_decoder_sirc_decode
     infrared_decoder_sirc_check_ready e d m = Inr ([], Some m)"
proof -
  obtain e1 e2 where r: "infrared_encoder_sirc_reset e m = Inr e1"
    and enc: "ir_encode_frame infrared_encoder_sirc_encode ir_frame_fuel e1 =
      Inr (pdwm_frame sirc_T (data_bits (e_data e1) (sirc_len m)), e2)"
    using sirc_first_frame [OF assms(1,2)] by metis
  have "data_bits (e_data e1) (sirc_len m) \<noteq> []"
    using databit_len_found_pos [OF sirc.len_found [OF assms(1)]] by (metis length_data_bits length_greater_0_conv)
  then obtain d1 d2 where
    "ir_feed (infrared_common_decode infrared_protocol_sirc) d (pdwm_frame sirc_T (data_bits (e_data e1) (sirc_len m))) =
       Inr ([], d1)" and "common_ready infrared_protocol_sirc d1 = Inr (Some m, d2)"
    using sirc.signal_understood [OF assms(1,2) r assms(3) sirc.frame_ok] by blast
  with r enc show ?thesis
    by (simp add: ir_transfer_def sirc_wrappers ir_line_alternating pdwm_frame_alternating)
qed

definition sirc_example :: infrared_message where
  "sirc_example = \<lparr>m_protocol = InfraredProtocolSIRC20, m_address = 0x1FFF, m_command = 0x7F, m_repeat = False\<rparr>"

theorem sirc_transfer_witness:
  "bindr infrared_encoder_sirc_alloc (\<lambda>e. bindr infrared_decoder_sirc_alloc (\<lambda>d.
     ir_transfer infrared_encoder_sirc_reset infrared_encoder_sirc_encode infrared_decoder_sirc_decode
       infrared_decoder_sirc_check_ready e d sirc_example)) = Inr ([], Some sirc_example)"
proof -
  obtain e where e: "infrared_encoder_sirc_alloc = Inr e" "encoder_alloc_ok infrared_protocol_sirc e"
    using sirc_allocs(1) by blast
  obtain d where d: "infrared_decoder_sirc_alloc = Inr d" "decoder_idle infrared_protocol_sirc d"
    using sirc_allocs(2) by blast
  have "sirc_canon sirc_example" by (simp add: sirc_canon_def sirc_example_def sirc_len_def fits_def)
  with sirc_transfer [OF this e(2) d(2)] show ?thesis by (simp add: e d)
qed

text \<open>
  a held button. A SIRC or SIRC15 message sent \<open>k + 1\<close> times has been reported \<open>k\<close> times when
  the last frame ends (each repeat reports the frame before it), because the pause that fills
  the period of 45 ms is always longer than the time that splits messages.
\<close>

theorem sirc_repeats:
  assumes "sirc_canon m" and "m_protocol m \<noteq> InfraredProtocolSIRC20"
    and "encoder_alloc_ok infrared_protocol_sirc e" and "decoder_idle infrared_protocol_sirc d"
  shows "ir_transfer_repeated infrared_encoder_sirc_reset infrared_encoder_sirc_encode
     infrared_decoder_sirc_decode (Suc k) e d m = Inr (replicate k m)"
proof -
  have short: "sirc_len m \<le> 15" using assms(1,2) by (auto simp: sirc_canon_def sirc_len_def)
  obtain e1 e2 where r: "infrared_encoder_sirc_reset e m = Inr e1"
    and enc: "ir_encode_frame infrared_encoder_sirc_encode ir_frame_fuel e1 =
      Inr (pdwm_frame sirc_T (data_bits (e_data e1) (sirc_len m)), e2)"
    and sent: "sirc_sent (sirc_len m) (e_data e1) e2" and idx: "sirc_len m div 8 < length (e_data e1)"
    using sirc_first_frame [OF assms(1,3)] by metis
  let ?bs = "data_bits (e_data e1) (sirc_len m)"
  have pos: "0 < sirc_len m" using databit_len_found_pos [OF sirc.len_found [OF assms(1)]] .
  then have ne: "?bs \<noteq> []" by (metis length_data_bits length_greater_0_conv)
  from sirc_repeats_sent [OF sent pos _ idx] short obtain e3 where
    encs: "ir_encode_frames infrared_encoder_sirc_encode k e2 = Inr (concat (replicate k (sirc_repeat_frame ?bs)), e3)"
    by auto
  from sirc.frame_received [OF assms(4) sirc.frame_ok, of ?bs] ne short obtain d1 where
    1: "ir_feed (infrared_common_decode infrared_protocol_sirc) d (pdwm_frame sirc_T ?bs) = Inr ([], d1)"
    and d1: "receiving infrared_protocol_sirc ?bs True d1" by auto
  from sirc_repeats_received [OF assms(1,3) r short d1, of k] obtain d2 where
    2: "ir_feed (infrared_common_decode infrared_protocol_sirc) d1 (concat (replicate k (sirc_repeat_frame ?bs))) =
      Inr (replicate k m, d2)" by blast
  have "alternating (pdwm_frame sirc_T ?bs @ concat (replicate k (sirc_repeat_frame ?bs)))"
    using ne by (intro sirc_line_alternating)
  with r enc encs 1 2 show ?thesis
    by (simp add: ir_transfer_repeated_def sirc_wrappers ir_line_alternating ir_feed_append)
qed

theorem sirc_repeats_witness:
  "bindr infrared_encoder_sirc_alloc (\<lambda>e. bindr infrared_decoder_sirc_alloc (\<lambda>d.
     ir_transfer_repeated infrared_encoder_sirc_reset infrared_encoder_sirc_encode infrared_decoder_sirc_decode
       (Suc 2) e d \<lparr>m_protocol = InfraredProtocolSIRC, m_address = 3, m_command = 0x15, m_repeat = False\<rparr>)) =
   Inr (replicate 2 \<lparr>m_protocol = InfraredProtocolSIRC, m_address = 3, m_command = 0x15, m_repeat = False\<rparr>)"
proof -
  let ?m = "\<lparr>m_protocol = InfraredProtocolSIRC, m_address = 3, m_command = 0x15, m_repeat = False\<rparr>"
  obtain e where e: "infrared_encoder_sirc_alloc = Inr e" "encoder_alloc_ok infrared_protocol_sirc e"
    using sirc_allocs(1) by blast
  obtain d where d: "infrared_decoder_sirc_alloc = Inr d" "decoder_idle infrared_protocol_sirc d"
    using sirc_allocs(2) by blast
  have "sirc_canon ?m" "m_protocol ?m \<noteq> InfraredProtocolSIRC20" by (simp_all add: sirc_canon_def sirc_len_def fits_def)
  from sirc_repeats [OF this e(2) d(2), of 2] show ?thesis unfolding e(1) d(1) bindr_Inr .
qed

end
