(* ===== verification/Infrared_Pioneer.thy ===== *)
theory Infrared_Pioneer
  imports Infrared_Pdwm
begin

text \<open>
  Pioneer (\<^verbatim>\<open>lib/infrared/encoder_decoder/pioneer\<close>): 32 bits of address, command and their
  complements, followed by a 33rd bit 0 in place of a stop mark; the decoder accepts both
  lengths. A payload of 32 bits with a wrong checksum is the one case of the library in which
  \<^verbatim>\<open>interpret\<close> refuses a payload that is not the longest: see \<open>pioneer_overflow\<close>.
\<close>

section \<open>Decoder\<close>

definition infrared_decoder_pioneer_interpret :: ir_interpret where
  "infrared_decoder_pioneer_interpret p d =
     bindr (list_get (p_databit_len p) 0) (\<lambda>l0. bindr (list_get (p_databit_len p) 1) (\<lambda>l1.
     if d_databit_cnt d = l0 \<or> d_databit_cnt d = l1
     then bindr (read_u32 (d_data d) 0) (\<lambda>data.
       let address = (ucast (data AND 0xFF) :: u8);
           real_address_checksum = NOT address;
           address_checksum = (ucast (drop_bit 8 data AND 0xFF) :: u8);
           command = (ucast (drop_bit 16 data AND 0xFF) :: u8);
           real_command_checksum = NOT command;
           command_checksum = (ucast (drop_bit 24 data AND 0xFF) :: u8)
       in if address_checksum \<noteq> real_address_checksum then Inr (False, d)
          else if command_checksum \<noteq> real_command_checksum then Inr (False, d)
          else Inr (True, d\<lparr>d_message := \<lparr>m_protocol = InfraredProtocolPioneer,
                 m_address = ucast address, m_command = ucast command, m_repeat = False\<rparr>\<rparr>))
     else Inr (False, d)))"

section \<open>Encoder\<close>

definition pioneer_silence :: u32 where "pioneer_silence = 26000"

definition infrared_encoder_pioneer_encode_repeat :: ir_encode where
  "infrared_encoder_pioneer_encode_repeat p e =
     Inr (InfraredStatusOk, pioneer_silence, False,
          e\<lparr>e_timings_sum := 0, e_timings_encoded := 1, e_bits_encoded := 0,
            e_state := InfraredCommonEncoderStatePreamble\<rparr>)"

definition infrared_protocol_pioneer :: infrared_common_protocol_spec where
  "infrared_protocol_pioneer =
     \<lparr>s_params = \<lparr>p_timings = \<lparr>min_split_time = pioneer_silence, silence_time = pioneer_silence,
          preamble_mark = 8500, preamble_space = 4225,
          bit1_mark = 500, bit1_space = 1500, bit0_mark = 500, bit0_space = 500,
          preamble_tolerance = 200, bit_tolerance = 120\<rparr>,
        p_manchester_start_from_space = False, p_databit_len = [33, 32, 0, 0]\<rparr>,
      s_decode = infrared_common_decode_pdwm,
      s_decode_repeat = None,
      s_interpret = infrared_decoder_pioneer_interpret,
      s_encode = infrared_common_encode_pdwm,
      s_encode_repeat = Some infrared_encoder_pioneer_encode_repeat\<rparr>"

definition infrared_encoder_pioneer_reset :: "infrared_common_encoder \<Rightarrow> infrared_message
    \<Rightarrow> infrared_common_encoder res" where
  "infrared_encoder_pioneer_reset e0 m =
     bindr (infrared_common_encoder_reset infrared_protocol_pioneer e0) (\<lambda>e.
     if m_protocol m = InfraredProtocolPioneer
     then bindr (list_set (e_data e) 0 (ucast (m_address m AND 0xFF))) (\<lambda>x0.
          bindr (list_set x0 1 (ucast (NOT (m_address m AND 0xFF)))) (\<lambda>x1.
          bindr (list_set x1 2 (ucast (m_command m AND 0xFF))) (\<lambda>x2.
          bindr (list_set x2 3 (ucast (NOT (m_command m AND 0xFF)))) (\<lambda>x3.
          bindr (list_set x3 4 0) (\<lambda>x4.
            Inr (e\<lparr>e_data := x4,
                   e_bits_to_encode := databit_len0 (s_params infrared_protocol_pioneer)\<rparr>))))))
     else Inl FuriCrash)"

definition infrared_encoder_pioneer_encode :: "infrared_common_encoder \<Rightarrow> ir_encode_result" where
  "infrared_encoder_pioneer_encode e =
     bindr (infrared_common_encode infrared_protocol_pioneer e) (\<lambda>(status, duration, lvl, e1).
     if status = InfraredStatusOk \<and> e_bits_encoded e1 = e_bits_to_encode e1
     then bindr (furi_assert (\<not> lvl)) (\<lambda>_.
            Inr (InfraredStatusDone, duration, lvl,
                 e1\<lparr>e_state := InfraredCommonEncoderStateEncodeRepeat\<rparr>))
     else Inr (status, duration, lvl, e1))"

section \<open>Wrappers and variants\<close>

definition infrared_decoder_pioneer_alloc :: "infrared_common_decoder res" where
  "infrared_decoder_pioneer_alloc = infrared_common_decoder_alloc infrared_protocol_pioneer"

definition infrared_decoder_pioneer_decode :: "infrared_common_decoder \<Rightarrow> bool \<Rightarrow> u32
    \<Rightarrow> (infrared_message option \<times> infrared_common_decoder) res" where
  "infrared_decoder_pioneer_decode = infrared_common_decode infrared_protocol_pioneer"

definition infrared_decoder_pioneer_check_ready :: "infrared_common_decoder
    \<Rightarrow> (infrared_message option \<times> infrared_common_decoder) res" where
  "infrared_decoder_pioneer_check_ready = common_ready infrared_protocol_pioneer"

definition infrared_decoder_pioneer_reset :: "infrared_common_decoder \<Rightarrow> infrared_common_decoder res" where
  "infrared_decoder_pioneer_reset = infrared_common_decoder_reset infrared_protocol_pioneer"

definition infrared_encoder_pioneer_alloc :: "infrared_common_encoder res" where
  "infrared_encoder_pioneer_alloc = infrared_common_encoder_alloc True infrared_protocol_pioneer"

definition infrared_protocol_pioneer_get_variant :: "infrared_protocol \<Rightarrow> infrared_protocol_variant option" where
  "infrared_protocol_pioneer_get_variant protocol =
     (if protocol = InfraredProtocolPioneer
      then Some \<lparr>v_name = ''Pioneer'', v_address_length = 8, v_command_length = 8,
          v_frequency = 40000, v_duty_cycle = 33, v_repeat_count = 2\<rparr>
      else None)"

section \<open>Messages and their payload\<close>

definition pioneer_canon :: "infrared_message \<Rightarrow> bool" where
  "pioneer_canon m \<longleftrightarrow> \<not> m_repeat m \<and> m_protocol m = InfraredProtocolPioneer \<and>
     fits 8 (m_address m) \<and> fits 8 (m_command m)"

lemma pioneer_params [simp]:
  "p_databit_len (s_params infrared_protocol_pioneer) = [33, 32, 0, 0]"
  "databit_len0 (s_params infrared_protocol_pioneer) = 33"
  "s_interpret infrared_protocol_pioneer = infrared_decoder_pioneer_interpret"
  "s_decode_repeat infrared_protocol_pioneer = None"
  by (simp_all add: infrared_protocol_pioneer_def databit_len0_def)

lemma pioneer_payload [simp]: "payload_ok (s_params infrared_protocol_pioneer) d = (length (d_data d) = 7)"
  by (simp add: payload_ok_def bytes_for_bits_def decoder_tail_padding_def)

lemma pioneer_mask: "(0xFF :: 'a::len word) = mask 8"
  by (simp add: mask_eq_exp_minus_1)

lemma pioneer_interpret_bytes:
  assumes "p_databit_len p = [33, 32, 0, 0]" and "d_databit_cnt d = 33 \<or> d_databit_cnt d = 32"
    and len: "4 \<le> length (d_data d)"
    and bytes: "d_data d ! 0 = b0" "d_data d ! Suc 0 = b1" "d_data d ! 2 = b2" "d_data d ! 3 = b3"
  shows "infrared_decoder_pioneer_interpret p d =
    (if b1 = NOT b0 \<and> b3 = NOT b2
     then Inr (True, d\<lparr>d_message := \<lparr>m_protocol = InfraredProtocolPioneer,
            m_address = ucast b0, m_command = ucast b2, m_repeat = False\<rparr>\<rparr>)
     else Inr (False, d))"
proof -
  let ?w = "word_of_bytes b0 b1 b2 b3"
  have r: "read_u32 (d_data d) 0 = Inr ?w"
    using len bytes by (simp add: read_u32_def numeral_2_eq_2 numeral_3_eq_3)
  have fields: "(ucast (?w AND 0xFF) :: u8) = b0" "(ucast (drop_bit 8 ?w AND 0xFF) :: u8) = b1"
    "(ucast (drop_bit 16 ?w AND 0xFF) :: u8) = b2" "(ucast (drop_bit 24 ?w AND 0xFF) :: u8) = b3"
    by (rule bit_word_eqI; simp add: bit_simps bit_word_of_bytes pioneer_mask)+
  show ?thesis
    unfolding infrared_decoder_pioneer_interpret_def r bindr_Inr Let_def fields
    using assms(1,2) by (auto simp: list_get_def)
qed

lemma pioneer_packed:
  assumes m: "pioneer_canon m" and e: "encoder_alloc_ok infrared_protocol_pioneer e"
  shows "\<exists>e'. infrared_encoder_pioneer_reset e m = Inr e' \<and> packs infrared_protocol_pioneer m 33 e'"
proof -
  let ?a = "ucast (m_address m) :: u8" and ?c = "ucast (m_command m) :: u8"
  let ?ys = "(replicate 5 0 @ drop 5 (e_data e))[0 := ?a, 1 := NOT ?a, 2 := ?c, 3 := NOT ?c, 4 := 0]"
  have len: "length (e_data e) = 41"
    using e by (simp add: encoder_alloc_ok_def bytes_for_bits_def encoder_extra_bytes_def)
  have bytes: "(ucast (x AND 0xFF) :: u8) = ucast x" "(ucast (NOT (x AND 0xFF)) :: u8) = NOT (ucast x)" for x :: u32
    by (rule bit_word_eqI; simp add: bit_simps pioneer_mask)+
  have up: "ucast ?a = m_address m" "ucast ?c = m_command m"
    using m by (auto intro!: bit_word_eqI simp: bit_simps pioneer_canon_def dest: fits_bit)
  have y: "?ys ! 0 = ?a" "?ys ! 1 = NOT ?a" "?ys ! 2 = ?c" "?ys ! 3 = NOT ?c" and leny: "length ?ys = 41"
    using len by (simp_all add: nth_list_update)
  have "understood infrared_protocol_pioneer 33 ?ys m"
    unfolding understood_def
  proof (intro allI impI)
    fix d assume d: "payload_ok (s_params infrared_protocol_pioneer) d" "d_databit_cnt d = 33"
      and bits: "data_bits (d_data d) 33 = data_bits ?ys 33"
    have "d_data d ! k = ?ys ! k" if "k < 4" for k
      using data_bits_byte_eq [OF bits, of k] that by simp
    then have "d_data d ! 0 = ?a" "d_data d ! Suc 0 = NOT ?a" "d_data d ! 2 = ?c" "d_data d ! 3 = NOT ?c"
      using y by simp_all
    from pioneer_interpret_bytes [OF pioneer_params(1) _ _ this] d up m
    show "\<exists>d'. s_interpret infrared_protocol_pioneer (s_params infrared_protocol_pioneer) d = Inr (True, d') \<and> d_message d' = m"
      by (cases m) (simp add: pioneer_canon_def)
  qed
  with leny len m bytes show ?thesis
    by (auto simp: infrared_encoder_pioneer_reset_def infrared_common_encoder_reset_def bytes_for_bits_def fault_simps
        pioneer_canon_def Let_def packs_def encoder_ready_def encoder_alloc_ok_def encoder_extra_bytes_def)
qed

section \<open>The protocol meets its contracts\<close>

interpretation pioneer: pdwm_codec infrared_protocol_pioneer pioneer_canon infrared_encoder_pioneer_reset "\<lambda>_. 33"
proof unfold_locales
  show "pdwm_timings_ok (p_timings (s_params infrared_protocol_pioneer))"
    by (simp add: pdwm_timings_ok_def windows_disjoint_def pdm_def infrared_protocol_pioneer_def pioneer_silence_def)
  show "\<exists>ok d'. s_interpret infrared_protocol_pioneer (s_params infrared_protocol_pioneer) d = Inr (ok, d') \<and>
      same_frame d d' \<and> d_databit_cnt d' = d_databit_cnt d"
    if "payload_ok (s_params infrared_protocol_pioneer) d" for d
    using that by (auto simp: infrared_decoder_pioneer_interpret_def read_u32_def same_frame_def Let_def list_get_def)
  show "s_decode infrared_protocol_pioneer = infrared_common_decode_pdwm"
    and "s_encode infrared_protocol_pioneer = infrared_common_encode_pdwm"
    by (simp_all add: infrared_protocol_pioneer_def)
qed (use pioneer_packed in simp_all)

section \<open>The frame\<close>

abbreviation pioneer_T :: infrared_timings where "pioneer_T \<equiv> p_timings (s_params infrared_protocol_pioneer)"

definition pioneer_body :: "bool list \<Rightarrow> (bool \<times> u32) list" where
  "pioneer_body bs = concat (map (\<lambda>b. [(True, pdwm_dur pioneer_T True b), (False, pdwm_dur pioneer_T False b)]) bs)"

definition pioneer_frame :: "bool list \<Rightarrow> (bool \<times> u32) list" where
  "pioneer_frame bs = (False, pioneer_silence) # pdwm_preamble pioneer_T @ pioneer_body bs"

lemma pioneer_pdm: "pdm pioneer_T"
  by (simp add: infrared_protocol_pioneer_def pdm_def)

lemma pioneer_body_received:
  "receiving infrared_protocol_pioneer as False d \<Longrightarrow> length as + length bs \<le> 33 \<Longrightarrow>
   \<exists>d'. ir_feed (infrared_common_decode infrared_protocol_pioneer) d (pioneer_body bs) = Inr ([], d') \<and>
     receiving infrared_protocol_pioneer (as @ bs) False d'"
proof (induction bs arbitrary: as d)
  case Nil
  then show ?case by (simp add: pioneer_body_def)
next
  case (Cons b bs)
  from pioneer.bit_step [OF Cons.prems(1) _ _ pioneer.accepts_nominal pioneer.accepts_nominal]
  obtain d1 where 1: "ir_feed (infrared_common_decode infrared_protocol_pioneer) d
      [(True, pdwm_dur pioneer_T True b), (False, pdwm_dur pioneer_T False b)] = Inr ([], d1)"
    and d1: "receiving infrared_protocol_pioneer (as @ [b]) False d1"
    using Cons.prems(2) pioneer_pdm by fastforce
  have split: "pioneer_body (b # bs) =
      [(True, pdwm_dur pioneer_T True b), (False, pdwm_dur pioneer_T False b)] @ pioneer_body bs"
    by (simp add: pioneer_body_def)
  from Cons.IH [OF d1] Cons.prems(2) 1 show ?case
    unfolding split ir_feed_append 1 by auto
qed

lemma pioneer_frame_received:
  assumes "decoder_idle infrared_protocol_pioneer d" and "length bs \<le> 33"
  shows "\<exists>d'. ir_feed (infrared_common_decode infrared_protocol_pioneer) d (pioneer_frame bs) = Inr ([], d') \<and>
     receiving infrared_protocol_pioneer bs False d'"
proof -
  have tol: "0 < preamble_tolerance pioneer_T" by (simp add: infrared_protocol_pioneer_def)
  from pioneer.pause_dropped [OF assms(1), of pioneer_silence] obtain d1 where
    1: "infrared_common_decode infrared_protocol_pioneer d False pioneer_silence = Inr (None, d1)"
    and d1: "decoder_idle infrared_protocol_pioneer d1" "\<not> d_level d1" by blast
  from pioneer.preamble_received [OF d1 match_timing_f_exact [OF tol] match_timing_f_exact [OF tol]]
  obtain d2 where 2: "ir_feed (infrared_common_decode infrared_protocol_pioneer) d1 (pdwm_preamble pioneer_T) = Inr ([], d2)"
    and d2: "receiving infrared_protocol_pioneer [] False d2"
    by (auto simp: pdwm_preamble_def)
  from pioneer_body_received [OF d2, of bs] assms(2) 1 2 show ?thesis
    by (auto simp: pioneer_frame_def ir_feed_append)
qed

text \<open>
  \<^verbatim>\<open>infrared_encoder_pioneer_encode\<close> ends the frame at the space of the 33rd bit, before the
  common encoder would emit a stop mark.
\<close>

lemma pioneer_encode_bit:
  assumes e: "encoding 33 data k s e" and data: "length data = 41" and k: "k < 33"
  obtains e1 e2 where
    "infrared_encoder_pioneer_encode e = Inr (InfraredStatusOk, pdwm_dur pioneer_T True (byte_bit data k), True, e1)"
    and "infrared_encoder_pioneer_encode e1 =
      Inr (if Suc k = 33 then InfraredStatusDone else InfraredStatusOk, pdwm_dur pioneer_T False (byte_bit data k), False, e2)"
    and "Suc k < 33 \<longrightarrow> (\<exists>s'. encoding 33 data (Suc k) s' e2)"
proof -
  have idx: "33 div 8 < length data" using data by simp
  have k': "k \<le> 33" "if pdm pioneer_T then k < 33 else Suc k < 33" and k'': "\<not> pdm pioneer_T \<Longrightarrow> Suc k < 33"
    using k pioneer_pdm by simp_all
  let ?m = "pdwm_dur pioneer_T True (byte_bit data k)" and ?s = "pdwm_dur pioneer_T False (byte_bit data k)"
  let ?e1 = "e\<lparr>e_bits_encoded := k, e_timings_encoded := 4 + 2 * k, e_timings_sum := s + ?m\<rparr>"
  let ?e2 = "e\<lparr>e_bits_encoded := Suc k, e_timings_encoded := 5 + 2 * k, e_timings_sum := s + ?m + ?s\<rparr>"
  have mark: "infrared_common_encode infrared_protocol_pioneer e = Inr (InfraredStatusOk, ?m, True, ?e1)"
    using pioneer.encode_mark [OF e _ idx k'] pioneer_pdm by simp
  have space: "infrared_common_encode infrared_protocol_pioneer ?e1 = Inr (InfraredStatusOk, ?s, False, ?e2)"
    using pioneer.encode_space [OF e _ idx k k'', of "s + ?m"] pioneer_pdm by simp
  show thesis
  proof (rule that)
    show "infrared_encoder_pioneer_encode e = Inr (InfraredStatusOk, ?m, True, ?e1)"
      using mark e k by (simp add: infrared_encoder_pioneer_encode_def encoding_def)
    show "infrared_encoder_pioneer_encode ?e1 =
      Inr (if Suc k = 33 then InfraredStatusDone else InfraredStatusOk, ?s, False,
        if Suc k = 33 then ?e2\<lparr>e_state := InfraredCommonEncoderStateEncodeRepeat\<rparr> else ?e2)"
      using space e by (auto simp: infrared_encoder_pioneer_encode_def encoding_def)
    show "Suc k < 33 \<longrightarrow> (\<exists>s'. encoding 33 data (Suc k) s'
        (if Suc k = 33 then ?e2\<lparr>e_state := InfraredCommonEncoderStateEncodeRepeat\<rparr> else ?e2))"
      using e by (auto simp: encoding_def)
  qed
qed

lemma pioneer_body_sent:
  assumes data: "length data = 41"
  shows "encoding 33 data k s e \<Longrightarrow> k < 33 \<Longrightarrow> bs = drop k (data_bits data 33) \<Longrightarrow>
    \<exists>e'. ir_encode_frame infrared_encoder_pioneer_encode (2 * length bs) e = Inr (pioneer_body bs, e')"
proof (induction bs arbitrary: k s e)
  case Nil
  then show ?case by simp
next
  case (Cons b bs)
  then have "b # bs = byte_bit data k # drop (Suc k) (data_bits data 33)"
    by (simp add: drop_data_bits)
  then have b: "b = byte_bit data k" and bs: "bs = drop (Suc k) (data_bits data 33)" by simp_all
  obtain e1 e2 where
    1: "infrared_encoder_pioneer_encode e = Inr (InfraredStatusOk, pdwm_dur pioneer_T True b, True, e1)"
    and 2: "infrared_encoder_pioneer_encode e1 =
      Inr (if Suc k = 33 then InfraredStatusDone else InfraredStatusOk, pdwm_dur pioneer_T False b, False, e2)"
    and e2: "Suc k < 33 \<longrightarrow> (\<exists>s'. encoding 33 data (Suc k) s' e2)"
    unfolding b by (rule pioneer_encode_bit [OF Cons.prems(1) data Cons.prems(2)])
  have two: "2 * length (b # bs) = Suc (Suc (2 * length bs))" by simp
  show ?case
  proof (cases "Suc k = 33")
    case True
    then have "bs = []" using bs by simp
    with True 2 show ?thesis
      unfolding two ir_encode_frame.simps(2) 1 by (simp add: pioneer_body_def)
  next
    case False
    with Cons.prems(2) have less: "Suc k < 33" by simp
    with e2 obtain s' where "encoding 33 data (Suc k) s' e2" by blast
    from Cons.IH [OF this less bs] obtain e' where
      "ir_encode_frame infrared_encoder_pioneer_encode (2 * length bs) e2 = Inr (pioneer_body bs, e')" by blast
    with False 2 show ?thesis
      unfolding two ir_encode_frame.simps(2) 1 by (simp add: pioneer_body_def)
  qed
qed

lemma pioneer_frame_sent:
  assumes e: "encoder_ready 33 data e" and data: "length data = 41"
  shows "\<exists>e'. ir_encode_frame infrared_encoder_pioneer_encode ir_frame_fuel e =
    Inr (pioneer_frame (data_bits data 33), e')"
proof -
  let ?e1 = "e\<lparr>e_state := InfraredCommonEncoderStatePreamble, e_timings_encoded := 1, e_timings_sum := 0\<rparr>"
  have "infrared_common_encode infrared_protocol_pioneer e = Inr (InfraredStatusOk, pioneer_silence, False, ?e1)"
    using e by (simp add: infrared_common_encode_def encoder_ready_def Let_def inc32_def infrared_protocol_pioneer_def
        del: inc32_small)
  then have 1: "infrared_encoder_pioneer_encode e = Inr (InfraredStatusOk, pioneer_silence, False, ?e1)"
    using e by (simp add: infrared_encoder_pioneer_encode_def encoder_ready_def)
  have ap: "after_pause 33 data ?e1" using e by (simp add: after_pause_def encoder_ready_def)
  from pioneer.preamble_sent [OF this] obtain e2 e3 where
    2: "infrared_common_encode infrared_protocol_pioneer ?e1 = Inr (InfraredStatusOk, ucast (preamble_mark pioneer_T), True, e2)"
    and 3: "infrared_common_encode infrared_protocol_pioneer e2 = Inr (InfraredStatusOk, ucast (preamble_space pioneer_T), False, e3)"
    and e3: "encoding 33 data 0 (line_time (pdwm_preamble pioneer_T)) e3" .
  have "e_bits_encoded e2 = 0" "e_bits_to_encode e2 = 33"
    using 2 ap by (auto simp: infrared_common_encode_def after_pause_def infrared_protocol_pioneer_def Let_def)
  with 2 3 e3 have 2: "infrared_encoder_pioneer_encode ?e1 = Inr (InfraredStatusOk, ucast (preamble_mark pioneer_T), True, e2)"
    and 3: "infrared_encoder_pioneer_encode e2 = Inr (InfraredStatusOk, ucast (preamble_space pioneer_T), False, e3)"
    by (simp_all add: infrared_encoder_pioneer_encode_def encoding_def)
  from pioneer_body_sent [OF data e3, of "data_bits data 33"] obtain e' where
    body: "ir_encode_frame infrared_encoder_pioneer_encode 66 e3 = Inr (pioneer_body (data_bits data 33), e')" by auto
  have fuel: "69 = Suc (Suc (Suc 66))" by simp
  have "ir_encode_frame infrared_encoder_pioneer_encode 69 e = Inr (pioneer_frame (data_bits data 33), e')"
    unfolding fuel ir_encode_frame.simps(2) 1 bindr_Inr prod.case 2 3 body
    by (simp add: pioneer_frame_def pdwm_preamble_def)
  from ir_encode_frame_more_fuel [OF this, of ir_frame_fuel] show ?thesis
    by (auto simp: ir_frame_fuel_def)
qed

lemma pioneer_frame_alternating: "alternating (pioneer_frame bs)"
proof -
  have "alternating (pioneer_body bs) \<and> (pioneer_body bs \<noteq> [] \<longrightarrow> fst (hd (pioneer_body bs)))"
    by (induction bs) (auto simp: pioneer_body_def alternating_Cons)
  then show ?thesis
    by (cases "pioneer_body bs") (auto simp: pioneer_frame_def pdwm_preamble_def)
qed

section \<open>A refused payload of 32 bits\<close>

text \<open>
  After a payload of 32 bits with a wrong checksum the pause that ends it is never consumed:
  \<open>interpret\<close> refuses the payload, and as 32 is not the longest length the decoder stays in
  \<open>Decode\<close> with the pause as its oldest timing. Every further timing is stored behind it.
\<close>

definition checksum_wrong :: "bool list \<Rightarrow> bool" where
  "checksum_wrong bs \<longleftrightarrow> (\<exists>i<8. bs ! i = bs ! (8 + i) \<or> bs ! (16 + i) = bs ! (24 + i))"

definition pioneer_stuck :: "bool list \<Rightarrow> nat \<Rightarrow> infrared_common_decoder \<Rightarrow> bool" where
  "pioneer_stuck bs k d \<longleftrightarrow> d_state d = InfraredCommonDecoderStateDecode \<and> length (d_timings d) = 6 \<and>
     pioneer_silence < d_timings d ! 0 \<and> d_timings_cnt d = k \<and> d_databit_cnt d = 32 \<and>
     length (d_data d) = 7 \<and> data_bits (d_data d) 32 = bs \<and> d_level d = even k"

fun pulses :: "bool \<Rightarrow> u32 list \<Rightarrow> (bool \<times> u32) list" where
  "pulses lvl [] = []"
| "pulses lvl (x # xs) = (lvl, x) # pulses (\<not> lvl) xs"

lemma pioneer_refused:
  assumes bits: "data_bits (d_data d) 32 = bs" and bad: "checksum_wrong bs"
    and len: "length (d_data d) = 7" and cnt: "d_databit_cnt d = 32"
  shows "infrared_decoder_pioneer_interpret (s_params infrared_protocol_pioneer) d = Inr (False, d)"
proof -
  have at: "bs ! (8 * k + j) = bit (d_data d ! k) j" if "8 * k + j < 32" "j < 8" for k j
    using that bits by (auto simp: data_bits_def byte_bit_offset)
  from bad obtain i where i: "i < 8" and eq: "bs ! i = bs ! (8 + i) \<or> bs ! (16 + i) = bs ! (24 + i)"
    by (auto simp: checksum_wrong_def)
  from eq have "bit (d_data d ! 0) i = bit (d_data d ! 1) i \<or> bit (d_data d ! 2) i = bit (d_data d ! 3) i"
    using at [of 0 i] at [of 1 i] at [of 2 i] at [of 3 i] i by simp
  then have "\<not> (d_data d ! Suc 0 = NOT (d_data d ! 0) \<and> d_data d ! 3 = NOT (d_data d ! 2))"
    using i by (auto simp: bit_simps)
  then show ?thesis
    using pioneer_interpret_bytes [OF pioneer_params(1) _ _ refl refl refl refl, of d] len cnt by simp
qed

lemma pioneer_stuck_step:
  assumes d: "pioneer_stuck bs k d" and bad: "checksum_wrong bs" and k: "0 < k"
  shows "k < 6 \<Longrightarrow> \<exists>d'. infrared_common_decode infrared_protocol_pioneer d (odd k) y = Inr (None, d') \<and>
      pioneer_stuck bs (Suc k) d'"
    and "k = 6 \<Longrightarrow> infrared_common_decode infrared_protocol_pioneer d (odd k) y = Inl OutOfBounds"
proof -
  note r = d [unfolded pioneer_stuck_def]
  show "infrared_common_decode infrared_protocol_pioneer d (odd k) y = Inl OutOfBounds" if "k = 6"
    using r that by (simp add: infrared_common_decode_def Let_def list_set_def)
  assume less: "k < 6"
  let ?d = "d\<lparr>d_level := odd k, d_timings := (d_timings d)[k := y], d_timings_cnt := Suc k\<rparr>"
  have stuck: "pioneer_stuck bs (Suc k) ?d"
    using r k by (simp add: pioneer_stuck_def)
  have old: "\<not> oldest_level ?d" by (auto simp: oldest_level_def of_bool_def mod_Suc)
  have split: "min_split_time pioneer_T = pioneer_silence" by (simp add: infrared_protocol_pioneer_def)
  have "decode_bits_early (s_params infrared_protocol_pioneer) ?d False (d_timings ?d ! 0) = Some InfraredStatusReady"
    using r k by (simp add: decode_bits_early_def split) (simp add: pioneer_silence_def)
  then have bits: "infrared_common_decode_bits (Suc (Suc k)) infrared_protocol_pioneer ?d = Inr (InfraredStatusReady, ?d)"
    using old r by (simp add: Let_def list_get_def)
  have "infrared_decoder_pioneer_interpret (s_params infrared_protocol_pioneer) ?d = Inr (False, ?d)"
    using r bad by (intro pioneer_refused) simp_all
  then have ready: "infrared_common_decoder_check_ready infrared_protocol_pioneer ?d = Inr (False, ?d)"
    using r by (simp add: infrared_common_decoder_check_ready_def)
  have fuel: "decode_loop_fuel = Suc 15" by (simp add: decode_loop_fuel_def)
  have "infrared_common_decode_loop decode_loop_fuel infrared_protocol_pioneer False ?d = Inr (False, ?d)"
    unfolding fuel infrared_common_decode_loop.simps using r bits ready
    by (simp del: infrared_common_decode_bits.simps infrared_common_decode_loop.simps)
  then have "infrared_common_decode infrared_protocol_pioneer d (odd k) y = Inr (None, ?d)"
    using r k less by (simp add: infrared_common_decode_def Let_def list_set_def sizeof_timings_def)
  with stuck show "\<exists>d'. infrared_common_decode infrared_protocol_pioneer d (odd k) y = Inr (None, d') \<and>
      pioneer_stuck bs (Suc k) d'" by blast
qed

lemma pioneer_stuck_overflow:
  assumes "checksum_wrong bs"
  shows "pioneer_stuck bs k d \<Longrightarrow> 0 < k \<Longrightarrow> k \<le> 6 \<Longrightarrow> 6 < k + length ys \<Longrightarrow>
    ir_feed (infrared_common_decode infrared_protocol_pioneer) d (pulses (odd k) ys) = Inl OutOfBounds"
proof (induction ys arbitrary: k d)
  case Nil
  then show ?case by simp
next
  case (Cons y ys)
  show ?case
  proof (cases "k = 6")
    case True
    with pioneer_stuck_step(2) [OF Cons.prems(1) assms Cons.prems(2), of y] show ?thesis by simp
  next
    case False
    with pioneer_stuck_step(1) [OF Cons.prems(1) assms Cons.prems(2), of y] Cons.prems(3) obtain d1 where
      1: "infrared_common_decode infrared_protocol_pioneer d (odd k) y = Inr (None, d1)"
      and d1: "pioneer_stuck bs (Suc k) d1" by auto
    have "pulses (\<not> odd k) ys = pulses (odd (Suc k)) ys" by simp
    with 1 Cons.IH [OF d1] Cons.prems False show ?thesis by simp
  qed
qed

lemma pioneer_gets_stuck:
  assumes d: "receiving infrared_protocol_pioneer bs True d" and bs: "length bs = 32" "checksum_wrong bs"
    and x: "pioneer_silence < x"
  shows "\<exists>d'. infrared_common_decode infrared_protocol_pioneer d False x = Inr (None, d') \<and> pioneer_stuck bs 1 d'"
proof -
  note r = d [unfolded receiving_def]
  let ?s = "stored d False x"
  have split: "min_split_time pioneer_T = pioneer_silence" by (simp add: infrared_protocol_pioneer_def)
  have "decode_bits_early (s_params infrared_protocol_pioneer) ?s False x = Some InfraredStatusReady"
    using r x bs by (simp add: decode_bits_early_def split) (simp add: pioneer_silence_def)
  then have bits: "infrared_common_decode_bits (Suc (Suc 0)) infrared_protocol_pioneer ?s = Inr (InfraredStatusReady, ?s)"
    using r by (simp add: Let_def list_get_def)
  have "infrared_decoder_pioneer_interpret (s_params infrared_protocol_pioneer) ?s = Inr (False, ?s)"
    using r bs by (intro pioneer_refused) simp_all
  then have ready: "infrared_common_decoder_check_ready infrared_protocol_pioneer ?s = Inr (False, ?s)"
    using r bs by (simp add: infrared_common_decoder_check_ready_def)
  have fuel: "decode_loop_fuel = Suc 15" by (simp add: decode_loop_fuel_def)
  have "infrared_common_decode_loop decode_loop_fuel infrared_protocol_pioneer False ?s = Inr (False, ?s)"
    unfolding fuel infrared_common_decode_loop.simps using r bs bits ready
    by (simp del: infrared_common_decode_bits.simps infrared_common_decode_loop.simps)
  then have "infrared_common_decode infrared_protocol_pioneer d False x = Inr (None, ?s)"
    using r common_decode_stored [of d False infrared_protocol_pioneer x] by simp
  moreover have "pioneer_stuck bs 1 ?s"
    using r bs x by (simp add: pioneer_stuck_def)
  ultimately show ?thesis by blast
qed

section \<open>Properties\<close>

lemma pioneer_wrappers:
  "infrared_decoder_pioneer_decode = infrared_common_decode infrared_protocol_pioneer"
  "infrared_decoder_pioneer_check_ready = common_ready infrared_protocol_pioneer"
  by (simp_all add: infrared_decoder_pioneer_decode_def infrared_decoder_pioneer_check_ready_def)

lemma pioneer_allocs:
  "\<exists>e. infrared_encoder_pioneer_alloc = Inr e \<and> encoder_alloc_ok infrared_protocol_pioneer e"
  "\<exists>d. infrared_decoder_pioneer_alloc = Inr d \<and> decoder_idle infrared_protocol_pioneer d"
proof -
  obtain e where "infrared_common_encoder_alloc True infrared_protocol_pioneer = Inr e"
    by (simp add: infrared_common_encoder_alloc_def databit_lens_ok_def Let_def
        infrared_protocol_pioneer_def databit_len0_def)
  then show "\<exists>e. infrared_encoder_pioneer_alloc = Inr e \<and> encoder_alloc_ok infrared_protocol_pioneer e"
    using encoder_alloc_alloc_ok unfolding infrared_encoder_pioneer_alloc_def by blast
  obtain d where "infrared_common_decoder_alloc infrared_protocol_pioneer = Inr d"
    by (simp add: infrared_common_decoder_alloc_def databit_lens_ok_def infrared_protocol_pioneer_def databit_len0_def)
  then show "\<exists>d. infrared_decoder_pioneer_alloc = Inr d \<and> decoder_idle infrared_protocol_pioneer d"
    using decoder_alloc_idle unfolding infrared_decoder_pioneer_alloc_def by blast
qed

text \<open>
  a Pioneer message with an 8-bit address and an 8-bit command survives a transfer, though
  its frame ends with a space and not with a stop mark.
\<close>

theorem pioneer_transfer:
  assumes "pioneer_canon m" and "encoder_alloc_ok infrared_protocol_pioneer e"
    and "decoder_idle infrared_protocol_pioneer d"
  shows "ir_transfer infrared_encoder_pioneer_reset infrared_encoder_pioneer_encode
     infrared_decoder_pioneer_decode infrared_decoder_pioneer_check_ready e d m = Inr ([], Some m)"
proof -
  from pioneer.packed [OF assms(1,2)] obtain e1 where r: "infrared_encoder_pioneer_reset e m = Inr e1"
    and ready: "encoder_ready 33 (e_data e1) e1" and "encoder_alloc_ok infrared_protocol_pioneer e1"
    by (auto simp: packs_def)
  then have "length (e_data e1) = 41"
    by (simp add: encoder_alloc_ok_def bytes_for_bits_def encoder_extra_bytes_def)
  from pioneer_frame_sent [OF ready this] obtain e2 where
    enc: "ir_encode_frame infrared_encoder_pioneer_encode ir_frame_fuel e1 =
      Inr (pioneer_frame (data_bits (e_data e1) 33), e2)" by blast
  from pioneer_frame_received [OF assms(3), of "data_bits (e_data e1) 33"] obtain d1 where
    "ir_feed (infrared_common_decode infrared_protocol_pioneer) d (pioneer_frame (data_bits (e_data e1) 33)) = Inr ([], d1)"
    and d1: "receiving infrared_protocol_pioneer (data_bits (e_data e1) 33) False d1" by auto
  with pioneer.ready_message [OF assms(1,2) r d1] r enc show ?thesis
    by (auto simp: ir_transfer_def pioneer_wrappers ir_line_alternating pioneer_frame_alternating)
qed

definition pioneer_example :: infrared_message where
  "pioneer_example = \<lparr>m_protocol = InfraredProtocolPioneer, m_address = 0xA5, m_command = 0x1C, m_repeat = False\<rparr>"

theorem pioneer_transfer_witness:
  "bindr infrared_encoder_pioneer_alloc (\<lambda>e. bindr infrared_decoder_pioneer_alloc (\<lambda>d.
     ir_transfer infrared_encoder_pioneer_reset infrared_encoder_pioneer_encode infrared_decoder_pioneer_decode
       infrared_decoder_pioneer_check_ready e d pioneer_example)) = Inr ([], Some pioneer_example)"
proof -
  obtain e where e: "infrared_encoder_pioneer_alloc = Inr e" "encoder_alloc_ok infrared_protocol_pioneer e"
    using pioneer_allocs(1) by blast
  obtain d where d: "infrared_decoder_pioneer_alloc = Inr d" "decoder_idle infrared_protocol_pioneer d"
    using pioneer_allocs(2) by blast
  have "pioneer_canon pioneer_example" by (simp add: pioneer_canon_def pioneer_example_def fits_def)
  with pioneer_transfer [OF this e(2) d(2)] show ?thesis by (simp add: e d)
qed

text \<open>
  C31: the buffer of timings overflows. After any well-formed frame of 32 bits whose checksum is
  wrong, a pause longer than 26 ms and six more edges of any duration, the decoder writes
  behind the end of its array of 6 timings: the check in \<^verbatim>\<open>infrared_common_decode\<close> compares
  the number of timings with the size of the array in bytes.
\<close>

theorem pioneer_overflow:
  assumes "decoder_idle infrared_protocol_pioneer d" and "length bs = 32" and "checksum_wrong bs"
    and "pdwm_frame_ok (p_timings (s_params infrared_protocol_pioneer)) bs xs"
    and "pioneer_silence < pause" and "length ys = 6"
  shows "ir_feed infrared_decoder_pioneer_decode d (xs @ (False, pause) # pulses True ys) = Inl OutOfBounds"
proof -
  from pioneer.frame_received [OF assms(1,4)] assms(2) obtain d1 where
    1: "ir_feed (infrared_common_decode infrared_protocol_pioneer) d xs = Inr ([], d1)"
    and d1: "receiving infrared_protocol_pioneer bs True d1" by auto
  from pioneer_gets_stuck [OF d1 assms(2,3,5)] obtain d2 where
    2: "infrared_common_decode infrared_protocol_pioneer d1 False pause = Inr (None, d2)"
    and d2: "pioneer_stuck bs 1 d2" by blast
  have "ir_feed (infrared_common_decode infrared_protocol_pioneer) d2 (pulses True ys) = Inl OutOfBounds"
    using pioneer_stuck_overflow [OF assms(3) d2, of ys] assms(6) by simp
  with 1 2 show ?thesis by (simp add: pioneer_wrappers ir_feed_append)
qed

theorem pioneer_overflow_witness:
  "bindr infrared_decoder_pioneer_alloc (\<lambda>d. ir_feed infrared_decoder_pioneer_decode d
     (pdwm_frame pioneer_T (replicate 32 False) @ (False, 27000) # pulses True [1, 2, 3, 4, 5, 6])) = Inl OutOfBounds"
proof -
  obtain d where d: "infrared_decoder_pioneer_alloc = Inr d" "decoder_idle infrared_protocol_pioneer d"
    using pioneer_allocs(2) by blast
  have "checksum_wrong (replicate 32 False)" by (auto simp: checksum_wrong_def intro!: exI [of _ 0])
  from pioneer_overflow [OF d(2) _ this pioneer.frame_ok, of 27000 "[1, 2, 3, 4, 5, 6]"] pioneer_pdm
  show ?thesis unfolding d(1) bindr_Inr by (simp add: pioneer_silence_def)
qed

end
