(* ===== verification/Infrared_Kaseikyo.thy ===== *)
theory Infrared_Kaseikyo
  imports Infrared_Pdwm
begin

text \<open>
  Kaseikyo (\<^verbatim>\<open>lib/infrared/encoder_decoder/kaseikyo\<close>): 48 bits, a vendor with a 4-bit parity,
  two genres, 10 bits of data, a 2-bit id and a parity byte. The address of a message packs
  id, vendor and genres.
\<close>

section \<open>Decoder\<close>

definition infrared_decoder_kaseikyo_interpret :: ir_interpret where
  "infrared_decoder_kaseikyo_interpret p d =
     bindr (list_get (d_data d) 0) (\<lambda>b0. bindr (list_get (d_data d) 1) (\<lambda>b1.
     bindr (list_get (d_data d) 2) (\<lambda>b2. bindr (list_get (d_data d) 3) (\<lambda>b3.
     bindr (list_get (d_data d) 4) (\<lambda>b4. bindr (list_get (d_data d) 5) (\<lambda>parity.
     let vendor_id = (push_bit 8 (ucast b1) OR ucast b0 :: u16);
         vendor_parity = b2 AND 0x0F;
         genre1 = drop_bit 4 b2;
         genre2 = b3 AND 0x0F;
         data = (ucast (drop_bit 4 b3) OR push_bit 4 (ucast (b4 AND 0x3F)) :: u16);
         id = drop_bit 6 b4;
         vendor_parity_check0 = b0 XOR b1;
         vendor_parity_check = (vendor_parity_check0 AND 0xF) XOR drop_bit 4 vendor_parity_check0;
         parity_check = b2 XOR b3 XOR b4
     in if vendor_parity = vendor_parity_check \<and> parity = parity_check
        then Inr (True, d\<lparr>d_message := \<lparr>m_protocol = InfraredProtocolKaseikyo,
               m_address = push_bit 24 (ucast id) OR push_bit 8 (ucast vendor_id) OR
                           push_bit 4 (ucast genre1) OR ucast genre2,
               m_command = ucast data, m_repeat = False\<rparr>\<rparr>)
        else Inr (False, d)))))))"

section \<open>Encoder\<close>

definition infrared_protocol_kaseikyo :: infrared_common_protocol_spec where
  "infrared_protocol_kaseikyo =
     \<lparr>s_params = \<lparr>p_timings = \<lparr>min_split_time = 4000, silence_time = 130000,
          preamble_mark = 8 * 432, preamble_space = 4 * 432,
          bit1_mark = 432, bit1_space = 3 * 432, bit0_mark = 432, bit0_space = 432,
          preamble_tolerance = 200, bit_tolerance = 120\<rparr>,
        p_manchester_start_from_space = False, p_databit_len = [48, 0, 0, 0]\<rparr>,
      s_decode = infrared_common_decode_pdwm,
      s_decode_repeat = None,
      s_interpret = infrared_decoder_kaseikyo_interpret,
      s_encode = infrared_common_encode_pdwm,
      s_encode_repeat = None\<rparr>"

text \<open>The six bytes that the encoder stores, in the order of the source.\<close>

definition kaseikyo_bytes :: "u32 \<Rightarrow> u32 \<Rightarrow> u8 list" where
  "kaseikyo_bytes address command0 =
     (let command = (ucast command0 :: u16);
          id = (ucast (drop_bit 24 address AND 3) :: u8);
          vendor_id = (ucast (drop_bit 8 address AND 0xFFFF) :: u16);
          genre1 = (ucast (drop_bit 4 address AND 0xF) :: u8);
          genre2 = (ucast (address AND 0xF) :: u8);
          d0 = (ucast (vendor_id AND 0xFF) :: u8);
          d1 = (ucast (drop_bit 8 vendor_id) :: u8);
          vendor_parity0 = d0 XOR d1;
          vendor_parity = (vendor_parity0 AND 0xF) XOR drop_bit 4 vendor_parity0;
          d2 = (vendor_parity AND 0xF) OR push_bit 4 genre1;
          d3 = (genre2 AND 0xF) OR push_bit 4 (ucast (command AND 0xF));
          d4 = push_bit 6 id OR ucast (drop_bit 4 command)
      in [d0, d1, d2, d3, d4, d2 XOR d3 XOR d4])"

definition infrared_encoder_kaseikyo_reset :: "infrared_common_encoder \<Rightarrow> infrared_message
    \<Rightarrow> infrared_common_encoder res" where
  "infrared_encoder_kaseikyo_reset e0 m =
     bindr (infrared_common_encoder_reset infrared_protocol_kaseikyo e0) (\<lambda>e.
     let bs = kaseikyo_bytes (m_address m) (m_command m) in
     bindr (list_set (e_data e) 0 (bs ! 0)) (\<lambda>x0. bindr (list_set x0 1 (bs ! 1)) (\<lambda>x1.
     bindr (list_set x1 2 (bs ! 2)) (\<lambda>x2. bindr (list_set x2 3 (bs ! 3)) (\<lambda>x3.
     bindr (list_set x3 4 (bs ! 4)) (\<lambda>x4. bindr (list_set x4 5 (bs ! 5)) (\<lambda>x5.
       Inr (e\<lparr>e_data := x5,
              e_bits_to_encode := databit_len0 (s_params infrared_protocol_kaseikyo)\<rparr>))))))))"

section \<open>Wrappers and variants\<close>

definition infrared_decoder_kaseikyo_alloc :: "infrared_common_decoder res" where
  "infrared_decoder_kaseikyo_alloc = infrared_common_decoder_alloc infrared_protocol_kaseikyo"

definition infrared_decoder_kaseikyo_decode :: "infrared_common_decoder \<Rightarrow> bool \<Rightarrow> u32
    \<Rightarrow> (infrared_message option \<times> infrared_common_decoder) res" where
  "infrared_decoder_kaseikyo_decode = infrared_common_decode infrared_protocol_kaseikyo"

definition infrared_decoder_kaseikyo_check_ready :: "infrared_common_decoder
    \<Rightarrow> (infrared_message option \<times> infrared_common_decoder) res" where
  "infrared_decoder_kaseikyo_check_ready = common_ready infrared_protocol_kaseikyo"

definition infrared_decoder_kaseikyo_reset :: "infrared_common_decoder \<Rightarrow> infrared_common_decoder res" where
  "infrared_decoder_kaseikyo_reset = infrared_common_decoder_reset infrared_protocol_kaseikyo"

definition infrared_encoder_kaseikyo_alloc :: "infrared_common_encoder res" where
  "infrared_encoder_kaseikyo_alloc = infrared_common_encoder_alloc True infrared_protocol_kaseikyo"

definition infrared_encoder_kaseikyo_encode :: "infrared_common_encoder \<Rightarrow> ir_encode_result" where
  "infrared_encoder_kaseikyo_encode = infrared_common_encode infrared_protocol_kaseikyo"

definition infrared_protocol_kaseikyo_get_variant :: "infrared_protocol \<Rightarrow> infrared_protocol_variant option" where
  "infrared_protocol_kaseikyo_get_variant protocol =
     (if protocol = InfraredProtocolKaseikyo
      then Some \<lparr>v_name = ''Kaseikyo'', v_address_length = 26, v_command_length = 10,
          v_frequency = infrared_common_carrier_frequency, v_duty_cycle = infrared_common_duty_cycle,
          v_repeat_count = 1\<rparr>
      else None)"

section \<open>Messages and their payload\<close>

definition kaseikyo_canon :: "infrared_message \<Rightarrow> bool" where
  "kaseikyo_canon m \<longleftrightarrow> \<not> m_repeat m \<and> m_protocol m = InfraredProtocolKaseikyo \<and>
     fits 26 (m_address m) \<and> fits 10 (m_command m)"

lemma kaseikyo_params [simp]:
  "p_databit_len (s_params infrared_protocol_kaseikyo) = [48, 0, 0, 0]"
  "databit_len0 (s_params infrared_protocol_kaseikyo) = 48"
  "s_interpret infrared_protocol_kaseikyo = infrared_decoder_kaseikyo_interpret"
  "s_decode_repeat infrared_protocol_kaseikyo = None"
  by (simp_all add: infrared_protocol_kaseikyo_def databit_len0_def)

lemma kaseikyo_payload [simp]: "payload_ok (s_params infrared_protocol_kaseikyo) d = (length (d_data d) = 8)"
  by (simp add: payload_ok_def bytes_for_bits_def decoder_tail_padding_def)

lemma kaseikyo_masks: "(0xF :: 'a::len word) = mask 4" "(0x3F :: 'a word) = mask 6" "(3 :: 'a word) = mask 2"
  "(0xFF :: 'a word) = mask 8" "(0xFFFF :: 'a word) = mask 16"
  by (simp_all add: mask_eq_exp_minus_1)

lemma kaseikyo_address:
  assumes "fits 26 a"
    and "\<And>j. bit (i::u8) j \<longleftrightarrow> j < 2 \<and> bit (a::u32) (24 + j)"
    and "\<And>j. bit (b1::u8) j \<longleftrightarrow> j < 8 \<and> bit a (16 + j)" and "\<And>j. bit (b0::u8) j \<longleftrightarrow> j < 8 \<and> bit a (8 + j)"
    and "\<And>j. bit (g1::u8) j \<longleftrightarrow> j < 4 \<and> bit a (4 + j)" and "\<And>j. bit (g2::u8) j \<longleftrightarrow> j < 4 \<and> bit a j"
  shows "push_bit 24 (ucast i) OR push_bit 8 (ucast (push_bit 8 (ucast b1) OR ucast b0 :: u16)) OR
    push_bit 4 (ucast g1) OR ucast g2 = (a :: u32)"
proof (rule bit_word_eqI)
  fix j assume "j < LENGTH(32)"
  then have "j < 32" by simp
  then consider "j < 4" | r where "j = 4 + r" "r < 4" | r where "j = 8 + r" "r < 8"
    | r where "j = 16 + r" "r < 8" | r where "j = 24 + r" "r < 2" | r where "j = 26 + r" "r < 6"
    by atomize_elim presburger
  then show "bit (push_bit 24 (ucast i) OR push_bit 8 (ucast (push_bit 8 (ucast b1) OR ucast b0 :: u16)) OR
    push_bit 4 (ucast g1) OR ucast g2 :: u32) j = bit a j"
    by cases (use fits_bit [OF assms(1), of j] in \<open>auto simp: bit_simps assms(2-)\<close>)
qed

lemma kaseikyo_command:
  assumes "fits 10 c" and "\<And>j. bit (h::u8) j \<longleftrightarrow> j < 4 \<and> bit (c::u32) j"
    and "\<And>j. bit (l::u8) j \<longleftrightarrow> j < 6 \<and> bit c (4 + j)"
  shows "ucast (ucast h OR push_bit 4 (ucast l) :: u16) = c"
proof (rule bit_word_eqI)
  fix j assume "j < LENGTH(32)"
  then have "j < 32" by simp
  then consider "j < 4" | r where "j = 4 + r" "r < 6" | r where "j = 10 + r" "r < 22"
    by atomize_elim presburger
  then show "bit (ucast (ucast h OR push_bit 4 (ucast l) :: u16) :: u32) j = bit c j"
    by cases (use fits_bit [OF assms(1), of j] in \<open>auto simp: bit_simps assms(2-)\<close>)
qed

text \<open>The decoder reads back the bytes that the encoder stores.\<close>

lemma kaseikyo_round_trip:
  assumes m: "kaseikyo_canon m" and len: "length (d_data d) = 8"
    and bytes: "\<And>k. k < 6 \<Longrightarrow> d_data d ! k = kaseikyo_bytes (m_address m) (m_command m) ! k"
  shows "infrared_decoder_kaseikyo_interpret p d = Inr (True, d\<lparr>d_message := m\<rparr>)"
proof -
  let ?a = "m_address m" and ?c = "m_command m"
  let ?b = "\<lambda>k. kaseikyo_bytes ?a ?c ! k"
  have f: "fits 26 ?a" "fits 10 ?c" using m by (auto simp: kaseikyo_canon_def)
  note b = kaseikyo_bytes_def Let_def nth_Cons' bit_simps kaseikyo_masks
  have par: "?b 2 AND 0xF = ((?b 0 XOR ?b 1) AND 0xF) XOR drop_bit 4 (?b 0 XOR ?b 1)"
    "?b 5 = ?b 2 XOR ?b 3 XOR ?b 4"
    by (rule bit_word_eqI; auto simp: b)+
  have bits: "bit (?b 0) j \<longleftrightarrow> j < 8 \<and> bit ?a (8 + j)" "bit (?b 1) j \<longleftrightarrow> j < 8 \<and> bit ?a (16 + j)"
    "bit (drop_bit 4 (?b 2)) j \<longleftrightarrow> j < 4 \<and> bit ?a (4 + j)" "bit (?b 3 AND 0xF) j \<longleftrightarrow> j < 4 \<and> bit ?a j"
    "bit (drop_bit 4 (?b 3)) j \<longleftrightarrow> j < 4 \<and> bit ?c j" for j
    by (auto simp: b)
  have bits4: "bit (drop_bit 6 (?b 4)) j \<longleftrightarrow> j < 2 \<and> bit ?a (24 + j)"
    "bit (?b 4 AND 0x3F) j \<longleftrightarrow> j < 6 \<and> bit ?c (4 + j)" for j
    using fits_bit [OF f(1)] fits_bit [OF f(2), of "10 + j"] by (auto simp: b)
  have addr: "push_bit 24 (ucast (drop_bit 6 (?b 4))) OR push_bit 8 (ucast (push_bit 8 (ucast (?b 1)) OR ucast (?b 0) :: u16)) OR
      push_bit 4 (ucast (drop_bit 4 (?b 2))) OR ucast (?b 3 AND 0xF) = ?a"
    by (rule kaseikyo_address [OF f(1) bits4(1) bits(2,1,3,4)])
  have cmd: "ucast (ucast (drop_bit 4 (?b 3)) OR push_bit 4 (ucast (?b 4 AND 0x3F)) :: u16) = ?c"
    by (rule kaseikyo_command [OF f(2) bits(5) bits4(2)])
  have get: "list_get (d_data d) k = Inr (?b k)" if "k < 6" for k
    using that len bytes [OF that] by (simp add: list_get_def)
  have "infrared_decoder_kaseikyo_interpret p d = Inr (True, d\<lparr>d_message := \<lparr>m_protocol = InfraredProtocolKaseikyo,
      m_address = ?a, m_command = ?c, m_repeat = False\<rparr>\<rparr>)"
    unfolding infrared_decoder_kaseikyo_interpret_def Let_def
    using get [of 0] get [of 1] get [of 2] get [of 3] get [of 4] get [of 5]
    by (simp only: bindr_Inr par addr cmd) simp
  with m show ?thesis by (cases m) (simp add: kaseikyo_canon_def)
qed

lemma length_kaseikyo_bytes [simp]: "length (kaseikyo_bytes a c) = 6"
  by (simp add: kaseikyo_bytes_def Let_def)

lemma kaseikyo_stored:
  assumes "length xs = 42"
  shows "\<exists>ys. bindr (list_set xs 0 (bs ! 0)) (\<lambda>x0. bindr (list_set x0 1 (bs ! 1)) (\<lambda>x1.
     bindr (list_set x1 2 (bs ! 2)) (\<lambda>x2. bindr (list_set x2 3 (bs ! 3)) (\<lambda>x3.
     bindr (list_set x3 4 (bs ! 4)) (\<lambda>x4. bindr (list_set x4 5 (bs ! 5)) f))))) = f ys \<and>
     length ys = 42 \<and> (\<forall>k<6. ys ! k = bs ! k)"
proof -
  let ?ys = "xs[0 := bs ! 0, 1 := bs ! 1, 2 := bs ! 2, 3 := bs ! 3, 4 := bs ! 4, 5 := bs ! 5]"
  have "?ys ! k = bs ! k" if "k < 6" for k
  proof -
    have "k = 0 \<or> k = 1 \<or> k = 2 \<or> k = 3 \<or> k = 4 \<or> k = 5" using that by auto
    then show ?thesis using assms by (elim disjE) (simp_all add: nth_list_update)
  qed
  then show ?thesis using assms by (intro exI [of _ ?ys]) (simp add: fault_simps)
qed

lemma kaseikyo_packed:
  assumes m: "kaseikyo_canon m" and e: "encoder_alloc_ok infrared_protocol_kaseikyo e"
  shows "\<exists>e'. infrared_encoder_kaseikyo_reset e m = Inr e' \<and> packs infrared_protocol_kaseikyo m 48 e'"
proof -
  let ?bs = "kaseikyo_bytes (m_address m) (m_command m)"
  let ?xs = "replicate 6 0 @ drop 6 (e_data e)"
  let ?e = "\<lambda>ys. e\<lparr>e_timings_encoded := 0, e_timings_sum := 0, e_bits_encoded := 0,
            e_state := InfraredCommonEncoderStateSilence, e_switch_detect := False,
            e_data := ys, e_bits_to_encode := 48\<rparr>"
  have len: "length (e_data e) = 42"
    using e by (simp add: encoder_alloc_ok_def bytes_for_bits_def encoder_extra_bytes_def)
  then have "length ?xs = 42" by simp
  from kaseikyo_stored [OF this, of ?bs "\<lambda>ys. Inr (?e ys)"]
  obtain ys where reset: "infrared_encoder_kaseikyo_reset e m = Inr (?e ys)"
    and ys: "length ys = 42" "\<forall>k<6. ys ! k = ?bs ! k"
    using len by (auto simp: infrared_encoder_kaseikyo_reset_def infrared_common_encoder_reset_def
        bytes_for_bits_def Let_def)
  have "understood infrared_protocol_kaseikyo 48 ys m"
    unfolding understood_def
  proof (intro allI impI)
    fix d assume "payload_ok (s_params infrared_protocol_kaseikyo) d"
      and bits: "data_bits (d_data d) 48 = data_bits ys 48"
    moreover have "d_data d ! k = ?bs ! k" if "k < 6" for k
      using data_bits_byte_eq [OF bits, of k] ys(2) that by simp
    ultimately show "\<exists>d'. s_interpret infrared_protocol_kaseikyo (s_params infrared_protocol_kaseikyo) d = Inr (True, d') \<and>
        d_message d' = m"
      using kaseikyo_round_trip [OF m, of d] by simp
  qed
  with reset ys show ?thesis
    by (auto simp: packs_def encoder_ready_def encoder_alloc_ok_def bytes_for_bits_def encoder_extra_bytes_def)
qed

section \<open>The protocol meets its contracts\<close>

interpretation kaseikyo: pdwm_codec infrared_protocol_kaseikyo kaseikyo_canon infrared_encoder_kaseikyo_reset "\<lambda>_. 48"
proof unfold_locales
  show "pdwm_timings_ok (p_timings (s_params infrared_protocol_kaseikyo))"
    by (simp add: pdwm_timings_ok_def windows_disjoint_def pdm_def infrared_protocol_kaseikyo_def)
  show "\<exists>ok d'. s_interpret infrared_protocol_kaseikyo (s_params infrared_protocol_kaseikyo) d = Inr (ok, d') \<and>
      same_frame d d' \<and> d_databit_cnt d' = d_databit_cnt d"
    if "payload_ok (s_params infrared_protocol_kaseikyo) d" for d
    using that by (auto simp: infrared_decoder_kaseikyo_interpret_def fault_simps same_frame_def Let_def)
  show "s_decode infrared_protocol_kaseikyo = infrared_common_decode_pdwm"
    and "s_encode infrared_protocol_kaseikyo = infrared_common_encode_pdwm"
    by (simp_all add: infrared_protocol_kaseikyo_def)
qed (use kaseikyo_packed in simp_all)

interpretation kaseikyo_safe: infrared_protocol_safe infrared_protocol_kaseikyo "pdwm_fed infrared_protocol_kaseikyo"
  by unfold_locales (simp split: if_splits)

section \<open>Properties\<close>

lemma kaseikyo_wrappers:
  "infrared_encoder_kaseikyo_encode = infrared_common_encode infrared_protocol_kaseikyo"
  "infrared_decoder_kaseikyo_decode = infrared_common_decode infrared_protocol_kaseikyo"
  "infrared_decoder_kaseikyo_check_ready = common_ready infrared_protocol_kaseikyo"
  by (simp_all add: infrared_encoder_kaseikyo_encode_def infrared_decoder_kaseikyo_decode_def infrared_decoder_kaseikyo_check_ready_def)

lemma kaseikyo_allocs:
  "\<exists>e. infrared_encoder_kaseikyo_alloc = Inr e \<and> encoder_alloc_ok infrared_protocol_kaseikyo e"
  "\<exists>d. infrared_decoder_kaseikyo_alloc = Inr d \<and> decoder_idle infrared_protocol_kaseikyo d"
proof -
  obtain e where "infrared_common_encoder_alloc True infrared_protocol_kaseikyo = Inr e"
    by (simp add: infrared_common_encoder_alloc_def databit_lens_ok_def Let_def
        infrared_protocol_kaseikyo_def databit_len0_def)
  then show "\<exists>e. infrared_encoder_kaseikyo_alloc = Inr e \<and> encoder_alloc_ok infrared_protocol_kaseikyo e"
    using encoder_alloc_alloc_ok unfolding infrared_encoder_kaseikyo_alloc_def by blast
  obtain d where "infrared_common_decoder_alloc infrared_protocol_kaseikyo = Inr d"
    by (simp add: infrared_common_decoder_alloc_def databit_lens_ok_def infrared_protocol_kaseikyo_def databit_len0_def)
  then show "\<exists>d. infrared_decoder_kaseikyo_alloc = Inr d \<and> decoder_idle infrared_protocol_kaseikyo d"
    using decoder_alloc_idle unfolding infrared_decoder_kaseikyo_alloc_def by blast
qed

text \<open>
  a Kaseikyo message (26 bits of address, 10 bits of command) survives a transfer: the vendor
  parity and the parity byte that the encoder computes are the ones the decoder checks.
\<close>

theorem kaseikyo_transfer:
  assumes "kaseikyo_canon m" and "encoder_alloc_ok infrared_protocol_kaseikyo e" and "decoder_idle infrared_protocol_kaseikyo d"
  shows "ir_transfer infrared_encoder_kaseikyo_reset infrared_encoder_kaseikyo_encode infrared_decoder_kaseikyo_decode
     infrared_decoder_kaseikyo_check_ready e d m = Inr ([], Some m)"
  using kaseikyo.transfer_ok [OF assms] by (simp add: kaseikyo_wrappers)

definition kaseikyo_example :: infrared_message where
  "kaseikyo_example = \<lparr>m_protocol = InfraredProtocolKaseikyo, m_address = 0x2ABCDEF, m_command = 0x2A5, m_repeat = False\<rparr>"

theorem kaseikyo_transfer_witness:
  "bindr infrared_encoder_kaseikyo_alloc (\<lambda>e. bindr infrared_decoder_kaseikyo_alloc (\<lambda>d.
     ir_transfer infrared_encoder_kaseikyo_reset infrared_encoder_kaseikyo_encode infrared_decoder_kaseikyo_decode
       infrared_decoder_kaseikyo_check_ready e d kaseikyo_example)) = Inr ([], Some kaseikyo_example)"
proof -
  obtain e where e: "infrared_encoder_kaseikyo_alloc = Inr e" "encoder_alloc_ok infrared_protocol_kaseikyo e"
    using kaseikyo_allocs(1) by blast
  obtain d where d: "infrared_decoder_kaseikyo_alloc = Inr d" "decoder_idle infrared_protocol_kaseikyo d"
    using kaseikyo_allocs(2) by blast
  have "kaseikyo_canon kaseikyo_example" by (simp add: kaseikyo_canon_def kaseikyo_example_def fits_def)
  with kaseikyo_transfer [OF this e(2) d(2)] show ?thesis by (simp add: e d)
qed

end
