(* ===== verification/Infrared_Rca.thy ===== *)
theory Infrared_Rca
  imports Infrared_Pdwm
begin

text \<open>
  RCA (\<^verbatim>\<open>lib/infrared/encoder_decoder/rca\<close>): a 4-bit address, an 8-bit command and the
  complements of both.
\<close>

section \<open>Decoder\<close>

definition infrared_decoder_rca_interpret :: ir_interpret where
  "infrared_decoder_rca_interpret p d =
     bindr (read_u32 (d_data d) 0) (\<lambda>data.
     let address = (ucast (data AND 0xF) :: u8);
         command = (ucast (drop_bit 4 data AND 0xFF) :: u8);
         address_inverse = (ucast (drop_bit 12 data AND 0xF) :: u8);
         command_inverse = (ucast (drop_bit 16 data AND 0xFF) :: u8);
         inverse_address_inverse = NOT address_inverse AND 0xF;
         inverse_command_inverse = NOT command_inverse
     in if command = inverse_command_inverse \<and> address = inverse_address_inverse
        then Inr (True, d\<lparr>d_message := \<lparr>m_protocol = InfraredProtocolRCA,
               m_address = ucast address, m_command = ucast command, m_repeat = False\<rparr>\<rparr>)
        else Inr (False, d))"

section \<open>Encoder\<close>

definition infrared_protocol_rca :: infrared_common_protocol_spec where
  "infrared_protocol_rca =
     \<lparr>s_params = \<lparr>p_timings = \<lparr>min_split_time = 4000, silence_time = 8000,
          preamble_mark = 4000, preamble_space = 4000,
          bit1_mark = 500, bit1_space = 2000, bit0_mark = 500, bit0_space = 1000,
          preamble_tolerance = 200, bit_tolerance = 120\<rparr>,
        p_manchester_start_from_space = False, p_databit_len = [24, 0, 0, 0]\<rparr>,
      s_decode = infrared_common_decode_pdwm,
      s_decode_repeat = None,
      s_interpret = infrared_decoder_rca_interpret,
      s_encode = infrared_common_encode_pdwm,
      s_encode_repeat = None\<rparr>"

definition infrared_encoder_rca_reset :: "infrared_common_encoder \<Rightarrow> infrared_message
    \<Rightarrow> infrared_common_encoder res" where
  "infrared_encoder_rca_reset e0 m =
     bindr (infrared_common_encoder_reset infrared_protocol_rca e0) (\<lambda>e.
     let address = (ucast (m_address m) :: u8); address_inverse = NOT address;
         command = (ucast (m_command m) :: u8); command_inverse = NOT command in
     bindr (write_u32 (e_data e) 0
              (ucast (address AND 0xF) OR push_bit 4 (ucast command) OR
               push_bit 12 (ucast (address_inverse AND 0xF)) OR push_bit 16 (ucast command_inverse))) (\<lambda>data.
       Inr (e\<lparr>e_data := data, e_bits_to_encode := databit_len0 (s_params infrared_protocol_rca)\<rparr>)))"

section \<open>Wrappers and variants\<close>

definition infrared_decoder_rca_alloc :: "infrared_common_decoder res" where
  "infrared_decoder_rca_alloc = infrared_common_decoder_alloc infrared_protocol_rca"

definition infrared_decoder_rca_decode :: "infrared_common_decoder \<Rightarrow> bool \<Rightarrow> u32
    \<Rightarrow> (infrared_message option \<times> infrared_common_decoder) res" where
  "infrared_decoder_rca_decode = infrared_common_decode infrared_protocol_rca"

definition infrared_decoder_rca_check_ready :: "infrared_common_decoder
    \<Rightarrow> (infrared_message option \<times> infrared_common_decoder) res" where
  "infrared_decoder_rca_check_ready = common_ready infrared_protocol_rca"

definition infrared_decoder_rca_reset :: "infrared_common_decoder \<Rightarrow> infrared_common_decoder res" where
  "infrared_decoder_rca_reset = infrared_common_decoder_reset infrared_protocol_rca"

definition infrared_encoder_rca_alloc :: "infrared_common_encoder res" where
  "infrared_encoder_rca_alloc = infrared_common_encoder_alloc True infrared_protocol_rca"

definition infrared_encoder_rca_encode :: "infrared_common_encoder \<Rightarrow> ir_encode_result" where
  "infrared_encoder_rca_encode = infrared_common_encode infrared_protocol_rca"

definition infrared_protocol_rca_get_variant :: "infrared_protocol \<Rightarrow> infrared_protocol_variant option" where
  "infrared_protocol_rca_get_variant protocol =
     (if protocol = InfraredProtocolRCA
      then Some \<lparr>v_name = ''RCA'', v_address_length = 4, v_command_length = 8,
          v_frequency = infrared_common_carrier_frequency, v_duty_cycle = infrared_common_duty_cycle,
          v_repeat_count = 1\<rparr>
      else None)"

section \<open>Messages and their payload\<close>

definition rca_canon :: "infrared_message \<Rightarrow> bool" where
  "rca_canon m \<longleftrightarrow> \<not> m_repeat m \<and> m_protocol m = InfraredProtocolRCA \<and>
     fits 4 (m_address m) \<and> fits 8 (m_command m)"

lemma rca_params [simp]:
  "p_databit_len (s_params infrared_protocol_rca) = [24, 0, 0, 0]"
  "databit_len0 (s_params infrared_protocol_rca) = 24"
  "s_interpret infrared_protocol_rca = infrared_decoder_rca_interpret"
  "s_decode_repeat infrared_protocol_rca = None"
  by (simp_all add: infrared_protocol_rca_def databit_len0_def)

lemma rca_payload [simp]: "payload_ok (s_params infrared_protocol_rca) d = (length (d_data d) = 5)"
  by (simp add: payload_ok_def bytes_for_bits_def decoder_tail_padding_def)

lemma rca_masks: "(0xF :: 'a::len word) = mask 4" "(0xFF :: 'a word) = mask 8"
  by (simp_all add: mask_eq_exp_minus_1)

lemma rca_interpret_bits:
  assumes "read_u32 (d_data d) 0 = Inr r" and a: "fits 4 a"
    and bits: "\<And>j. j < 24 \<Longrightarrow> bit r j = (if j < 4 then bit a j else if j < 12 then bit c (j - 4)
                 else if j < 16 then \<not> bit a (j - 12) else \<not> bit c (j - 16))"
  shows "infrared_decoder_rca_interpret p d = Inr (True, d\<lparr>d_message := \<lparr>m_protocol = InfraredProtocolRCA,
     m_address = ucast (a::u8), m_command = ucast (c::u8), m_repeat = False\<rparr>\<rparr>)"
proof -
  have "(ucast (r AND 0xF) :: u8) = a" "(ucast (drop_bit 4 r AND 0xFF) :: u8) = c"
    "(ucast (drop_bit 12 r AND 0xF) :: u8) = NOT a AND 0xF" "(ucast (drop_bit 16 r AND 0xFF) :: u8) = NOT c"
    by (rule bit_word_eqI; use bits fits_bit [OF a] in \<open>auto simp: bit_simps rca_masks\<close>)+
  moreover have "NOT (NOT a AND 0xF) AND 0xF = a"
    by (rule bit_word_eqI) (use fits_bit [OF a] in \<open>auto simp: bit_simps rca_masks\<close>)
  ultimately show ?thesis
    using assms(1) by (simp only: infrared_decoder_rca_interpret_def bindr_Inr Let_def) simp
qed

lemma rca_packed:
  assumes m: "rca_canon m" and e: "encoder_alloc_ok infrared_protocol_rca e"
  shows "\<exists>e'. infrared_encoder_rca_reset e m = Inr e' \<and> packs infrared_protocol_rca m 24 e'"
proof -
  let ?a = "ucast (m_address m) :: u8" and ?c = "ucast (m_command m) :: u8"
  let ?xs = "replicate 3 0 @ drop 3 (e_data e)"
  let ?v = "ucast (?a AND 0xF) OR push_bit 4 (ucast ?c) OR push_bit 12 (ucast (NOT ?a AND 0xF)) OR
            push_bit 16 (ucast (NOT ?c)) :: u32"
  have len: "length (e_data e) = 39"
    using e by (simp add: encoder_alloc_ok_def bytes_for_bits_def encoder_extra_bytes_def)
  obtain ys where ys: "write_u32 ?xs 0 ?v = Inr ys" "length ys = 39"
    using write_u32_ok [of 0 ?xs ?v] len by auto
  have a: "fits 4 ?a" using m by (intro fitsI) (auto simp: rca_canon_def bit_simps dest: fits_bit)
  have up: "ucast ?a = m_address m" "ucast ?c = m_command m"
    using m by (auto intro!: bit_word_eqI simp: bit_simps rca_canon_def dest: fits_bit)
  have v: "bit ?v j = (if j < 4 then bit ?a j else if j < 12 then bit ?c (j - 4)
                 else if j < 16 then \<not> bit ?a (j - 12) else \<not> bit ?c (j - 16))" if "j < 24" for j
    using that bit_imp_le_length [of ?c "j - 4"] fits_bit [OF a, of j] by (auto simp: bit_simps rca_masks)
  have "understood infrared_protocol_rca 24 ys m"
    unfolding understood_def
  proof (intro allI impI)
    fix d assume d: "payload_ok (s_params infrared_protocol_rca) d"
      and bits: "data_bits (d_data d) 24 = data_bits ys 24"
    then obtain r where r: "read_u32 (d_data d) 0 = Inr r" by (simp add: read_u32_def)
    have "bit r j = bit ?v j" if "j < 24" for j
      using that bit_read_u32 [OF r, of j] byte_bit_write_u32 [OF ys(1), of j] bits
      by (simp add: data_bits_eq_iff)
    with rca_interpret_bits [OF r a, of ?c] v up m
    show "\<exists>d'. s_interpret infrared_protocol_rca (s_params infrared_protocol_rca) d = Inr (True, d') \<and> d_message d' = m"
      by (cases m) (simp add: rca_canon_def)
  qed
  with ys len show ?thesis
    by (auto simp: infrared_encoder_rca_reset_def infrared_common_encoder_reset_def bytes_for_bits_def
        Let_def packs_def encoder_ready_def encoder_alloc_ok_def encoder_extra_bytes_def)
qed

section \<open>The protocol meets its contracts\<close>

interpretation rca: pdwm_codec infrared_protocol_rca rca_canon infrared_encoder_rca_reset "\<lambda>_. 24"
proof unfold_locales
  show "pdwm_timings_ok (p_timings (s_params infrared_protocol_rca))"
    by (simp add: pdwm_timings_ok_def windows_disjoint_def pdm_def infrared_protocol_rca_def)
  show "\<exists>ok d'. s_interpret infrared_protocol_rca (s_params infrared_protocol_rca) d = Inr (ok, d') \<and>
      same_frame d d' \<and> d_databit_cnt d' = d_databit_cnt d"
    if "payload_ok (s_params infrared_protocol_rca) d" for d
    using that by (auto simp: infrared_decoder_rca_interpret_def read_u32_def same_frame_def Let_def)
  show "s_decode infrared_protocol_rca = infrared_common_decode_pdwm"
    and "s_encode infrared_protocol_rca = infrared_common_encode_pdwm"
    by (simp_all add: infrared_protocol_rca_def)
qed (use rca_packed in simp_all)

interpretation rca_safe: infrared_protocol_safe infrared_protocol_rca "pdwm_fed infrared_protocol_rca"
  by unfold_locales (simp split: if_splits)

section \<open>Properties\<close>

lemma rca_wrappers:
  "infrared_encoder_rca_encode = infrared_common_encode infrared_protocol_rca"
  "infrared_decoder_rca_decode = infrared_common_decode infrared_protocol_rca"
  "infrared_decoder_rca_check_ready = common_ready infrared_protocol_rca"
  by (simp_all add: infrared_encoder_rca_encode_def infrared_decoder_rca_decode_def infrared_decoder_rca_check_ready_def)

lemma rca_allocs:
  "\<exists>e. infrared_encoder_rca_alloc = Inr e \<and> encoder_alloc_ok infrared_protocol_rca e"
  "\<exists>d. infrared_decoder_rca_alloc = Inr d \<and> decoder_idle infrared_protocol_rca d"
proof -
  obtain e where "infrared_common_encoder_alloc True infrared_protocol_rca = Inr e"
    by (simp add: infrared_common_encoder_alloc_def databit_lens_ok_def Let_def
        infrared_protocol_rca_def databit_len0_def)
  then show "\<exists>e. infrared_encoder_rca_alloc = Inr e \<and> encoder_alloc_ok infrared_protocol_rca e"
    using encoder_alloc_alloc_ok unfolding infrared_encoder_rca_alloc_def by blast
  obtain d where "infrared_common_decoder_alloc infrared_protocol_rca = Inr d"
    by (simp add: infrared_common_decoder_alloc_def databit_lens_ok_def infrared_protocol_rca_def databit_len0_def)
  then show "\<exists>d. infrared_decoder_rca_alloc = Inr d \<and> decoder_idle infrared_protocol_rca d"
    using decoder_alloc_idle unfolding infrared_decoder_rca_alloc_def by blast
qed

text \<open>
  An RCA message with a 4-bit address and an 8-bit command survives a transfer.
\<close>

theorem rca_transfer:
  assumes "rca_canon m" and "encoder_alloc_ok infrared_protocol_rca e" and "decoder_idle infrared_protocol_rca d"
  shows "ir_transfer infrared_encoder_rca_reset infrared_encoder_rca_encode infrared_decoder_rca_decode
     infrared_decoder_rca_check_ready e d m = Inr ([], Some m)"
  using rca.transfer_ok [OF assms] by (simp add: rca_wrappers)

definition rca_example :: infrared_message where
  "rca_example = \<lparr>m_protocol = InfraredProtocolRCA, m_address = 0xA, m_command = 0x5C, m_repeat = False\<rparr>"

theorem rca_transfer_witness:
  "bindr infrared_encoder_rca_alloc (\<lambda>e. bindr infrared_decoder_rca_alloc (\<lambda>d.
     ir_transfer infrared_encoder_rca_reset infrared_encoder_rca_encode infrared_decoder_rca_decode
       infrared_decoder_rca_check_ready e d rca_example)) = Inr ([], Some rca_example)"
proof -
  obtain e where e: "infrared_encoder_rca_alloc = Inr e" "encoder_alloc_ok infrared_protocol_rca e"
    using rca_allocs(1) by blast
  obtain d where d: "infrared_decoder_rca_alloc = Inr d" "decoder_idle infrared_protocol_rca d"
    using rca_allocs(2) by blast
  have "rca_canon rca_example" by (simp add: rca_canon_def rca_example_def fits_def)
  with rca_transfer [OF this e(2) d(2)] show ?thesis by (simp add: e d)
qed

end
