(* ===== verification/Infrared.thy ===== *)
theory Infrared
  imports Infrared_Nec Infrared_Samsung Infrared_Rc5 Infrared_Rc6 Infrared_Sirc Infrared_Pioneer
    Infrared_Kaseikyo Infrared_Rca
begin

text \<open>
  The facade of the library (\<^verbatim>\<open>lib/infrared/encoder_decoder/infrared.c\<close>): a table of
  the eight protocols, a decoder handler that feeds every timing to all of them, and an
  encoder handler that holds the encoder of one protocol at a time.
\<close>

section \<open>Protocols as numbers\<close>

text \<open>The values of the enumeration, which the loop over all protocols counts through.\<close>

fun protocol_code :: "infrared_protocol \<Rightarrow> int" where
  "protocol_code InfraredProtocolUnknown = -1"
| "protocol_code InfraredProtocolNEC = 0"
| "protocol_code InfraredProtocolNECext = 1"
| "protocol_code InfraredProtocolNEC42 = 2"
| "protocol_code InfraredProtocolNEC42ext = 3"
| "protocol_code InfraredProtocolSamsung32 = 4"
| "protocol_code InfraredProtocolRC6 = 5"
| "protocol_code InfraredProtocolRC5 = 6"
| "protocol_code InfraredProtocolRC5X = 7"
| "protocol_code InfraredProtocolSIRC = 8"
| "protocol_code InfraredProtocolSIRC15 = 9"
| "protocol_code InfraredProtocolSIRC20 = 10"
| "protocol_code InfraredProtocolKaseikyo = 11"
| "protocol_code InfraredProtocolRCA = 12"
| "protocol_code InfraredProtocolPioneer = 13"
| "protocol_code InfraredProtocolMAX = 14"

lemma protocol_code_inject: "protocol_code p = protocol_code q \<Longrightarrow> p = q"
  by (cases p; cases q) simp_all

instantiation infrared_protocol :: linorder
begin

definition less_eq_infrared_protocol :: "infrared_protocol \<Rightarrow> infrared_protocol \<Rightarrow> bool" where
  "less_eq_infrared_protocol p q \<longleftrightarrow> protocol_code p \<le> protocol_code q"

definition less_infrared_protocol :: "infrared_protocol \<Rightarrow> infrared_protocol \<Rightarrow> bool" where
  "less_infrared_protocol p q \<longleftrightarrow> protocol_code p < protocol_code q"

instance
  by standard (auto simp: less_eq_infrared_protocol_def less_infrared_protocol_def intro: protocol_code_inject)

end

text \<open>From 0 to \<^verbatim>\<open>InfraredProtocolMAX\<close> exclusive.\<close>

definition infrared_protocols :: "infrared_protocol list" where
  "infrared_protocols =
     [InfraredProtocolNEC, InfraredProtocolNECext, InfraredProtocolNEC42, InfraredProtocolNEC42ext,
      InfraredProtocolSamsung32, InfraredProtocolRC6, InfraredProtocolRC5, InfraredProtocolRC5X,
      InfraredProtocolSIRC, InfraredProtocolSIRC15, InfraredProtocolSIRC20, InfraredProtocolKaseikyo,
      InfraredProtocolRCA, InfraredProtocolPioneer]"

lemma infrared_protocols_sorted: "map protocol_code infrared_protocols = [0..13]"
  by (simp add: infrared_protocols_def upto_rec1)

section \<open>The table\<close>

text \<open>
  A \<^verbatim>\<open>void*\<close> to an encoder: the common encoder, or the structures of RC5 and RC6 with
  their toggle bit. An operation of the table applied to an encoder of another kind would read a
  wrong structure; the model has it as a fault.
\<close>

datatype infrared_encoder_ptr =
    CommonEncoder infrared_common_encoder
  | Rc5Encoder infrared_encoder_rc5
  | Rc6Encoder infrared_encoder_rc6

fun as_common :: "infrared_encoder_ptr \<Rightarrow> infrared_common_encoder res" where
  "as_common (CommonEncoder e) = Inr e"
| "as_common _ = Inl OutOfBounds"

fun as_rc5 :: "infrared_encoder_ptr \<Rightarrow> infrared_encoder_rc5 res" where
  "as_rc5 (Rc5Encoder e) = Inr e"
| "as_rc5 _ = Inl OutOfBounds"

fun as_rc6 :: "infrared_encoder_ptr \<Rightarrow> infrared_encoder_rc6 res" where
  "as_rc6 (Rc6Encoder e) = Inr e"
| "as_rc6 _ = Inl OutOfBounds"

record infrared_encoder_decoder =
  decoder_alloc :: "infrared_common_decoder res"
  decoder_decode :: "infrared_common_decoder \<Rightarrow> bool \<Rightarrow> u32 \<Rightarrow> (infrared_message option \<times> infrared_common_decoder) res"
  decoder_reset :: "infrared_common_decoder \<Rightarrow> infrared_common_decoder res"
  decoder_check_ready :: "infrared_common_decoder \<Rightarrow> (infrared_message option \<times> infrared_common_decoder) res"
  encoder_alloc :: "infrared_encoder_ptr res"
  encoder_encode :: "infrared_encoder_ptr \<Rightarrow> (infrared_status \<times> u32 \<times> bool \<times> infrared_encoder_ptr) res"
  encoder_reset :: "infrared_encoder_ptr \<Rightarrow> infrared_message \<Rightarrow> infrared_encoder_ptr res"
  get_protocol_variant :: "infrared_protocol \<Rightarrow> infrared_protocol_variant option"

definition through_ptr :: "(infrared_encoder_ptr \<Rightarrow> 'e res) \<Rightarrow> ('e \<Rightarrow> infrared_encoder_ptr)
    \<Rightarrow> ('e \<Rightarrow> (infrared_status \<times> u32 \<times> bool \<times> 'e) res)
    \<Rightarrow> infrared_encoder_ptr \<Rightarrow> (infrared_status \<times> u32 \<times> bool \<times> infrared_encoder_ptr) res" where
  "through_ptr as mk f p = bindr (as p) (\<lambda>e. bindr (f e) (\<lambda>(st, dur, lvl, e'). Inr (st, dur, lvl, mk e')))"

definition infrared_encoder_decoder_table :: "infrared_encoder_decoder list" where
  "infrared_encoder_decoder_table =
    (let common_reset = (\<lambda>r p m. bindr (as_common p) (\<lambda>e. bindr (r e m) (\<lambda>e'. Inr (CommonEncoder e'))));
         common_alloc = (\<lambda>a. bindr a (\<lambda>e. Inr (CommonEncoder e)));
         common_encode = through_ptr as_common CommonEncoder
     in
    [\<lparr>decoder_alloc = infrared_decoder_nec_alloc, decoder_decode = infrared_decoder_nec_decode,
       decoder_reset = infrared_decoder_nec_reset, decoder_check_ready = infrared_decoder_nec_check_ready,
       encoder_alloc = common_alloc infrared_encoder_nec_alloc,
       encoder_encode = common_encode infrared_encoder_nec_encode,
       encoder_reset = common_reset infrared_encoder_nec_reset,
       get_protocol_variant = infrared_protocol_nec_get_variant\<rparr>,
     \<lparr>decoder_alloc = infrared_decoder_samsung32_alloc, decoder_decode = infrared_decoder_samsung32_decode,
       decoder_reset = infrared_decoder_samsung32_reset, decoder_check_ready = infrared_decoder_samsung32_check_ready,
       encoder_alloc = common_alloc infrared_encoder_samsung32_alloc,
       encoder_encode = common_encode infrared_encoder_samsung32_encode,
       encoder_reset = common_reset infrared_encoder_samsung32_reset,
       get_protocol_variant = infrared_protocol_samsung32_get_variant\<rparr>,
     \<lparr>decoder_alloc = infrared_decoder_rc5_alloc, decoder_decode = infrared_decoder_rc5_decode,
       decoder_reset = infrared_decoder_rc5_reset, decoder_check_ready = infrared_decoder_rc5_check_ready,
       encoder_alloc = bindr infrared_encoder_rc5_alloc (\<lambda>e. Inr (Rc5Encoder e)),
       encoder_encode = through_ptr as_rc5 Rc5Encoder infrared_encoder_rc5_encode,
       encoder_reset = (\<lambda>p m. bindr (as_rc5 p) (\<lambda>e. bindr (infrared_encoder_rc5_reset e m) (\<lambda>e'. Inr (Rc5Encoder e')))),
       get_protocol_variant = infrared_protocol_rc5_get_variant\<rparr>,
     \<lparr>decoder_alloc = infrared_decoder_rc6_alloc, decoder_decode = infrared_decoder_rc6_decode,
       decoder_reset = infrared_decoder_rc6_reset, decoder_check_ready = infrared_decoder_rc6_check_ready,
       encoder_alloc = bindr infrared_encoder_rc6_alloc (\<lambda>e. Inr (Rc6Encoder e)),
       encoder_encode = through_ptr as_rc6 Rc6Encoder infrared_encoder_rc6_encode,
       encoder_reset = (\<lambda>p m. bindr (as_rc6 p) (\<lambda>e. bindr (infrared_encoder_rc6_reset e m) (\<lambda>e'. Inr (Rc6Encoder e')))),
       get_protocol_variant = infrared_protocol_rc6_get_variant\<rparr>,
     \<lparr>decoder_alloc = infrared_decoder_sirc_alloc, decoder_decode = infrared_decoder_sirc_decode,
       decoder_reset = infrared_decoder_sirc_reset, decoder_check_ready = infrared_decoder_sirc_check_ready,
       encoder_alloc = common_alloc infrared_encoder_sirc_alloc,
       encoder_encode = common_encode infrared_encoder_sirc_encode,
       encoder_reset = common_reset infrared_encoder_sirc_reset,
       get_protocol_variant = infrared_protocol_sirc_get_variant\<rparr>,
     \<lparr>decoder_alloc = infrared_decoder_pioneer_alloc, decoder_decode = infrared_decoder_pioneer_decode,
       decoder_reset = infrared_decoder_pioneer_reset, decoder_check_ready = infrared_decoder_pioneer_check_ready,
       encoder_alloc = common_alloc infrared_encoder_pioneer_alloc,
       encoder_encode = common_encode infrared_encoder_pioneer_encode,
       encoder_reset = common_reset infrared_encoder_pioneer_reset,
       get_protocol_variant = infrared_protocol_pioneer_get_variant\<rparr>,
     \<lparr>decoder_alloc = infrared_decoder_kaseikyo_alloc, decoder_decode = infrared_decoder_kaseikyo_decode,
       decoder_reset = infrared_decoder_kaseikyo_reset, decoder_check_ready = infrared_decoder_kaseikyo_check_ready,
       encoder_alloc = common_alloc infrared_encoder_kaseikyo_alloc,
       encoder_encode = common_encode infrared_encoder_kaseikyo_encode,
       encoder_reset = common_reset infrared_encoder_kaseikyo_reset,
       get_protocol_variant = infrared_protocol_kaseikyo_get_variant\<rparr>,
     \<lparr>decoder_alloc = infrared_decoder_rca_alloc, decoder_decode = infrared_decoder_rca_decode,
       decoder_reset = infrared_decoder_rca_reset, decoder_check_ready = infrared_decoder_rca_check_ready,
       encoder_alloc = common_alloc infrared_encoder_rca_alloc,
       encoder_encode = common_encode infrared_encoder_rca_encode,
       encoder_reset = common_reset infrared_encoder_rca_reset,
       get_protocol_variant = infrared_protocol_rca_get_variant\<rparr>])"

section \<open>Decoder handler\<close>

record infrared_decoder_handler =
  h_ctx :: "infrared_common_decoder list"

text \<open>The loops over the table: all decoders are fed, and the first message wins.\<close>

fun decode_entries :: "infrared_encoder_decoder list \<Rightarrow> infrared_common_decoder list \<Rightarrow> bool \<Rightarrow> u32
    \<Rightarrow> (infrared_message option \<times> infrared_common_decoder list) res" where
  "decode_entries (t # ts) (c # cs) lvl dur =
     bindr (decoder_decode t c lvl dur) (\<lambda>(m, c').
     bindr (decode_entries ts cs lvl dur) (\<lambda>(r, cs').
       Inr (case m of Some x \<Rightarrow> Some x | None \<Rightarrow> r, c' # cs')))"
| "decode_entries [] cs lvl dur = Inr (None, cs)"
| "decode_entries ts [] lvl dur = Inl OutOfBounds"

definition infrared_decode :: "infrared_decoder_handler \<Rightarrow> bool \<Rightarrow> u32
    \<Rightarrow> (infrared_message option \<times> infrared_decoder_handler) res" where
  "infrared_decode handler lvl duration =
     bindr (decode_entries infrared_encoder_decoder_table (h_ctx handler) lvl duration) (\<lambda>(r, cs).
       Inr (r, handler\<lparr>h_ctx := cs\<rparr>))"

fun reset_entries :: "infrared_encoder_decoder list \<Rightarrow> infrared_common_decoder list
    \<Rightarrow> infrared_common_decoder list res" where
  "reset_entries (t # ts) (c # cs) =
     bindr (decoder_reset t c) (\<lambda>c'. bindr (reset_entries ts cs) (\<lambda>cs'. Inr (c' # cs')))"
| "reset_entries [] cs = Inr cs"
| "reset_entries ts [] = Inl OutOfBounds"

definition infrared_reset_decoder :: "infrared_decoder_handler \<Rightarrow> infrared_decoder_handler res" where
  "infrared_reset_decoder handler =
     bindr (reset_entries infrared_encoder_decoder_table (h_ctx handler)) (\<lambda>cs. Inr (handler\<lparr>h_ctx := cs\<rparr>))"

fun alloc_entries :: "infrared_encoder_decoder list \<Rightarrow> infrared_common_decoder list res" where
  "alloc_entries [] = Inr []"
| "alloc_entries (t # ts) = bindr (decoder_alloc t) (\<lambda>c. bindr (alloc_entries ts) (\<lambda>cs. Inr (c # cs)))"

definition infrared_alloc_decoder :: "infrared_decoder_handler res" where
  "infrared_alloc_decoder =
     bindr (alloc_entries infrared_encoder_decoder_table) (\<lambda>cs. infrared_reset_decoder \<lparr>h_ctx = cs\<rparr>)"

fun ready_entries :: "infrared_encoder_decoder list \<Rightarrow> infrared_common_decoder list
    \<Rightarrow> (infrared_message option \<times> infrared_common_decoder list) res" where
  "ready_entries (t # ts) (c # cs) =
     bindr (decoder_check_ready t c) (\<lambda>(m, c').
     bindr (ready_entries ts cs) (\<lambda>(r, cs').
       Inr (case m of Some x \<Rightarrow> Some x | None \<Rightarrow> r, c' # cs')))"
| "ready_entries [] cs = Inr (None, cs)"
| "ready_entries ts [] = Inl OutOfBounds"

definition infrared_check_decoder_ready :: "infrared_decoder_handler
    \<Rightarrow> (infrared_message option \<times> infrared_decoder_handler) res" where
  "infrared_check_decoder_ready handler =
     bindr (ready_entries infrared_encoder_decoder_table (h_ctx handler)) (\<lambda>(r, cs).
       Inr (r, handler\<lparr>h_ctx := cs\<rparr>))"

section \<open>Protocol lookup\<close>

fun find_entry :: "infrared_encoder_decoder list \<Rightarrow> infrared_protocol \<Rightarrow> nat \<Rightarrow> int" where
  "find_entry [] protocol i = -1"
| "find_entry (t # ts) protocol i =
     (if get_protocol_variant t protocol \<noteq> None then int i else find_entry ts protocol (Suc i))"

definition infrared_find_index_by_protocol :: "infrared_protocol \<Rightarrow> int" where
  "infrared_find_index_by_protocol protocol = find_entry infrared_encoder_decoder_table protocol 0"

definition infrared_is_protocol_valid :: "infrared_protocol \<Rightarrow> bool" where
  "infrared_is_protocol_valid protocol \<longleftrightarrow> infrared_find_index_by_protocol protocol \<ge> 0"

definition infrared_get_variant_by_protocol :: "infrared_protocol \<Rightarrow> infrared_protocol_variant res" where
  "infrared_get_variant_by_protocol protocol =
     (let index = infrared_find_index_by_protocol protocol;
          variant = (if index \<ge> 0
                     then get_protocol_variant (infrared_encoder_decoder_table ! nat index) protocol else None)
      in case variant of None \<Rightarrow> Inl FuriCheck | Some v \<Rightarrow> Inr v)"

definition infrared_get_protocol_name :: "infrared_protocol \<Rightarrow> string res" where
  "infrared_get_protocol_name protocol = bindr (infrared_get_variant_by_protocol protocol) (\<lambda>v. Inr (v_name v))"

definition infrared_get_protocol_address_length :: "infrared_protocol \<Rightarrow> nat res" where
  "infrared_get_protocol_address_length protocol =
     bindr (infrared_get_variant_by_protocol protocol) (\<lambda>v. Inr (v_address_length v))"

definition infrared_get_protocol_command_length :: "infrared_protocol \<Rightarrow> nat res" where
  "infrared_get_protocol_command_length protocol =
     bindr (infrared_get_variant_by_protocol protocol) (\<lambda>v. Inr (v_command_length v))"

definition infrared_get_protocol_frequency :: "infrared_protocol \<Rightarrow> u32 res" where
  "infrared_get_protocol_frequency protocol =
     bindr (infrared_get_variant_by_protocol protocol) (\<lambda>v. Inr (v_frequency v))"

definition infrared_get_protocol_duty_cycle :: "infrared_protocol \<Rightarrow> nat res" where
  "infrared_get_protocol_duty_cycle protocol =
     bindr (infrared_get_variant_by_protocol protocol) (\<lambda>v. Inr (v_duty_cycle v))"

definition infrared_get_protocol_min_repeat_count :: "infrared_protocol \<Rightarrow> nat res" where
  "infrared_get_protocol_min_repeat_count protocol =
     bindr (infrared_get_variant_by_protocol protocol) (\<lambda>v. Inr (v_repeat_count v))"

fun protocol_named :: "infrared_protocol list \<Rightarrow> string \<Rightarrow> infrared_protocol res" where
  "protocol_named [] name = Inr InfraredProtocolUnknown"
| "protocol_named (p # ps) name =
     bindr (infrared_get_protocol_name p) (\<lambda>n. if n = name then Inr p else protocol_named ps name)"

definition infrared_get_protocol_by_name :: "string \<Rightarrow> infrared_protocol res" where
  "infrared_get_protocol_by_name protocol_name = protocol_named infrared_protocols protocol_name"

section \<open>Encoder handler\<close>

text \<open>The pointer to a row of the table is its index.\<close>

record infrared_encoder_handler =
  h_handler :: "infrared_encoder_ptr option"
  h_encoder :: "nat option"

definition infrared_alloc_encoder :: infrared_encoder_handler where
  "infrared_alloc_encoder = \<lparr>h_handler = None, h_encoder = None\<rparr>"

definition infrared_reset_encoder :: "infrared_encoder_handler \<Rightarrow> infrared_message
    \<Rightarrow> infrared_encoder_handler res" where
  "infrared_reset_encoder handler message =
     (let index = infrared_find_index_by_protocol (m_protocol message) in
      bindr (furi_check (index \<ge> 0)) (\<lambda>_.
      let required_encoder = nat index; entry = infrared_encoder_decoder_table ! required_encoder in
      bindr (if h_encoder handler \<noteq> Some required_encoder
             then bindr (encoder_alloc entry) (\<lambda>p.
                    Inr (handler\<lparr>h_encoder := Some required_encoder, h_handler := Some p\<rparr>))
             else Inr handler) (\<lambda>handler1.
      case h_handler handler1 of
        None \<Rightarrow> Inl NullPointer
      | Some p \<Rightarrow> bindr (encoder_reset entry p message) (\<lambda>p'. Inr (handler1\<lparr>h_handler := Some p'\<rparr>)))))"

definition infrared_encode :: "infrared_encoder_handler
    \<Rightarrow> (infrared_status \<times> u32 \<times> bool \<times> infrared_encoder_handler) res" where
  "infrared_encode handler =
     (case h_encoder handler of
        None \<Rightarrow> Inl FuriCheck
      | Some i \<Rightarrow> (case h_handler handler of
          None \<Rightarrow> Inl NullPointer
        | Some p \<Rightarrow>
            bindr (encoder_encode (infrared_encoder_decoder_table ! i) p) (\<lambda>(status, duration, lvl, p').
            bindr (furi_check (status \<noteq> InfraredStatusError)) (\<lambda>_.
              Inr (status, duration, lvl, handler\<lparr>h_handler := Some p'\<rparr>)))))"

text \<open>\<^verbatim>\<open>infrared_free_encoder\<close>: its checks that an encoder is there when a handler is.\<close>

definition infrared_free_encoder :: "infrared_encoder_handler \<Rightarrow> unit res" where
  "infrared_free_encoder handler =
     (if h_encoder handler \<noteq> None \<or> h_handler handler \<noteq> None
      then bindr (furi_check (h_encoder handler \<noteq> None)) (\<lambda>_. furi_check (h_handler handler \<noteq> None))
      else Inr ())"

section \<open>Lookup of a protocol\<close>

lemmas table_variants =
  infrared_protocol_nec_get_variant_def infrared_protocol_samsung32_get_variant_def
  infrared_protocol_rc5_get_variant_def infrared_protocol_rc6_get_variant_def
  infrared_protocol_sirc_get_variant_def infrared_protocol_pioneer_get_variant_def
  infrared_protocol_kaseikyo_get_variant_def infrared_protocol_rca_get_variant_def

definition protocol_row :: "infrared_protocol \<Rightarrow> nat" where
  "protocol_row p =
     (if p \<in> {InfraredProtocolNEC, InfraredProtocolNECext, InfraredProtocolNEC42, InfraredProtocolNEC42ext} then 0
      else if p = InfraredProtocolSamsung32 then 1
      else if p \<in> {InfraredProtocolRC5, InfraredProtocolRC5X} then 2
      else if p = InfraredProtocolRC6 then 3
      else if p \<in> {InfraredProtocolSIRC, InfraredProtocolSIRC15, InfraredProtocolSIRC20} then 4
      else if p = InfraredProtocolPioneer then 5
      else if p = InfraredProtocolKaseikyo then 6 else 7)"

lemma find_index:
  "infrared_find_index_by_protocol p =
     (if p = InfraredProtocolUnknown \<or> p = InfraredProtocolMAX then -1 else int (protocol_row p))"
  by (cases p) (simp_all add: infrared_find_index_by_protocol_def infrared_encoder_decoder_table_def Let_def
      table_variants protocol_row_def)

lemma valid_protocols: "p \<in> set infrared_protocols \<longleftrightarrow> p \<noteq> InfraredProtocolUnknown \<and> p \<noteq> InfraredProtocolMAX"
  by (cases p) (simp_all add: infrared_protocols_def)

definition protocol_name :: "infrared_protocol \<Rightarrow> string" where
  "protocol_name p = (case p of
      InfraredProtocolNEC \<Rightarrow> ''NEC'' | InfraredProtocolNECext \<Rightarrow> ''NECext'' | InfraredProtocolNEC42 \<Rightarrow> ''NEC42''
    | InfraredProtocolNEC42ext \<Rightarrow> ''NEC42ext'' | InfraredProtocolSamsung32 \<Rightarrow> ''Samsung32'' | InfraredProtocolRC6 \<Rightarrow> ''RC6''
    | InfraredProtocolRC5 \<Rightarrow> ''RC5'' | InfraredProtocolRC5X \<Rightarrow> ''RC5X'' | InfraredProtocolSIRC \<Rightarrow> ''SIRC''
    | InfraredProtocolSIRC15 \<Rightarrow> ''SIRC15'' | InfraredProtocolSIRC20 \<Rightarrow> ''SIRC20'' | InfraredProtocolKaseikyo \<Rightarrow> ''Kaseikyo''
    | InfraredProtocolRCA \<Rightarrow> ''RCA'' | InfraredProtocolPioneer \<Rightarrow> ''Pioneer'' | _ \<Rightarrow> '''')"

lemma get_name: "p \<in> set infrared_protocols \<Longrightarrow> infrared_get_protocol_name p = Inr (protocol_name p)"
  by (cases p) (simp_all add: infrared_get_protocol_name_def infrared_get_variant_by_protocol_def find_index Let_def
      valid_protocols protocol_row_def infrared_encoder_decoder_table_def table_variants protocol_name_def)

lemma protocol_named_names:
  "set ps \<subseteq> set infrared_protocols \<Longrightarrow>
   protocol_named ps name =
     Inr (case find (\<lambda>p. protocol_name p = name) ps of Some p \<Rightarrow> p | None \<Rightarrow> InfraredProtocolUnknown)"
  by (induction ps) (auto simp: get_name)

lemma protocol_name_inject:
  "p \<in> set infrared_protocols \<Longrightarrow> q \<in> set infrared_protocols \<Longrightarrow> protocol_name p = protocol_name q \<Longrightarrow> p = q"
  by (cases p; cases q) (simp_all add: valid_protocols protocol_name_def)

lemma find_unique:
  "p \<in> set ps \<Longrightarrow> (\<And>q. q \<in> set ps \<Longrightarrow> P q \<longleftrightarrow> q = p) \<Longrightarrow> find P ps = Some p"
  by (induction ps) auto

text \<open>
  The lookups agree. A protocol is valid when it is between 0 and \<^verbatim>\<open>InfraredProtocolMAX\<close>;
  the name of a valid protocol leads back to that protocol, so no two rows share a name, and
  asking for the name of any other protocol stops at a check.
\<close>

theorem infrared_protocol_names:
  "infrared_is_protocol_valid p = (p \<in> set infrared_protocols) \<and>
   bindr (infrared_get_protocol_name p) infrared_get_protocol_by_name =
     (if p \<in> set infrared_protocols then Inr p else Inl FuriCheck)"
proof (cases "p \<in> set infrared_protocols")
  case True
  then have "find (\<lambda>q. protocol_name q = protocol_name p) infrared_protocols = Some p"
    using protocol_name_inject by (intro find_unique) auto
  with True show ?thesis
    using protocol_named_names [of infrared_protocols]
    by (auto simp: get_name infrared_get_protocol_by_name_def infrared_is_protocol_valid_def find_index valid_protocols)
next
  case False
  then have "infrared_find_index_by_protocol p = -1" by (auto simp: find_index valid_protocols)
  then show ?thesis
    using False by (simp add: infrared_get_protocol_name_def infrared_get_variant_by_protocol_def
        infrared_is_protocol_valid_def Let_def fault_simps)
qed

section \<open>Which decoder can fault\<close>

context infrared_protocol_safe
begin

lemma ready_ok:
  assumes "call_inv P fed d"
  shows "\<exists>m d'. common_ready P d = Inr (m, d')"
proof -
  have "payload_ok (s_params P) d" using assms by (simp add: call_inv_def)
  then show ?thesis
    using interpret_ok [of d]
    by (cases "databit_len_found (p_databit_len (s_params P)) (d_databit_cnt d)")
       (fastforce simp: common_ready_def infrared_common_decoder_check_ready_def)+
qed

end

text \<open>
  The seven decoders other than Pioneer's keep the invariant of \<open>infrared_protocol_safe\<close>, under which
  no input makes them fault; nothing is said of the sixth.
\<close>

definition others_inv :: "infrared_common_decoder list \<Rightarrow> bool" where
  "others_inv cs \<longleftrightarrow> (\<exists>n s r5 r6 si pi ka rc. cs = [n, s, r5, r6, si, pi, ka, rc] \<and>
     call_inv infrared_protocol_nec (pdwm_fed infrared_protocol_nec) n \<and>
     call_inv infrared_protocol_samsung32 (pdwm_fed infrared_protocol_samsung32) s \<and>
     call_inv infrared_protocol_rc5 (\<lambda>_ _ _. True) r5 \<and> call_inv infrared_protocol_rc6 rc6_fed r6 \<and>
     call_inv infrared_protocol_sirc (pdwm_fed infrared_protocol_sirc) si \<and>
     call_inv infrared_protocol_kaseikyo (pdwm_fed infrared_protocol_kaseikyo) ka \<and>
     call_inv infrared_protocol_rca (pdwm_fed infrared_protocol_rca) rc)"

lemmas decode_defs =
  infrared_decoder_nec_decode_def infrared_decoder_samsung32_decode_def infrared_decoder_rc5_decode_def
  infrared_decoder_rc6_decode_def infrared_decoder_sirc_decode_def infrared_decoder_pioneer_decode_def
  infrared_decoder_kaseikyo_decode_def infrared_decoder_rca_decode_def

fun first_some :: "'a option list \<Rightarrow> 'a option" where
  "first_some [] = None"
| "first_some (Some x # xs) = Some x"
| "first_some (None # xs) = first_some xs"

lemma first_some_Cons: "first_some (m # ms) = (case m of Some x \<Rightarrow> Some x | None \<Rightarrow> first_some ms)"
  by (cases m) simp_all

lemma decode_row:
  assumes "infrared_decoder_nec_decode n lvl x = Inr (m0, n')" "infrared_decoder_samsung32_decode s lvl x = Inr (m1, s')"
    "infrared_decoder_rc5_decode r5 lvl x = Inr (m2, r5')" "infrared_decoder_rc6_decode r6 lvl x = Inr (m3, r6')"
    "infrared_decoder_sirc_decode si lvl x = Inr (m4, si')" "infrared_decoder_kaseikyo_decode ka lvl x = Inr (m6, ka')"
    "infrared_decoder_rca_decode rc lvl x = Inr (m7, rc')"
  shows "infrared_decode \<lparr>h_ctx = [n, s, r5, r6, si, pi, ka, rc]\<rparr> lvl x =
     bindr (infrared_decoder_pioneer_decode pi lvl x) (\<lambda>(m5, pi').
       Inr (first_some [m0, m1, m2, m3, m4, m5, m6, m7],
            \<lparr>h_ctx = [n', s', r5', r6', si', pi', ka', rc']\<rparr>))"
  unfolding infrared_decode_def infrared_encoder_decoder_table_def Let_def first_some_Cons first_some.simps(1)
  using assms
  by (cases "infrared_decoder_pioneer_decode pi lvl x")
     (auto simp: bindr_def)

lemma decode_outcome:
  assumes "others_inv cs"
  shows "case infrared_decoder_pioneer_decode (cs ! 5) lvl x of
      Inl f \<Rightarrow> infrared_decode \<lparr>h_ctx = cs\<rparr> lvl x = Inl f
    | Inr (m, p) \<Rightarrow> \<exists>r cs'. infrared_decode \<lparr>h_ctx = cs\<rparr> lvl x = Inr (r, \<lparr>h_ctx = cs'\<rparr>) \<and>
        others_inv cs' \<and> cs' ! 5 = p"
proof -
  from assms obtain n s r5 r6 si pi ka rc where cs: "cs = [n, s, r5, r6, si, pi, ka, rc]"
    and inv: "call_inv infrared_protocol_nec (pdwm_fed infrared_protocol_nec) n"
     "call_inv infrared_protocol_samsung32 (pdwm_fed infrared_protocol_samsung32) s"
     "call_inv infrared_protocol_rc5 (\<lambda>_ _ _. True) r5" "call_inv infrared_protocol_rc6 rc6_fed r6"
     "call_inv infrared_protocol_sirc (pdwm_fed infrared_protocol_sirc) si"
     "call_inv infrared_protocol_kaseikyo (pdwm_fed infrared_protocol_kaseikyo) ka"
     "call_inv infrared_protocol_rca (pdwm_fed infrared_protocol_rca) rc"
    by (auto simp: others_inv_def)
  from nec_safe.common_decode_ok [OF inv(1), of lvl x] obtain m0 n' where
    0: "infrared_decoder_nec_decode n lvl x = Inr (m0, n')" "call_inv infrared_protocol_nec (pdwm_fed infrared_protocol_nec) n'"
    by (auto simp: decode_defs)
  from samsung_safe.common_decode_ok [OF inv(2), of lvl x] obtain m1 s' where
    1: "infrared_decoder_samsung32_decode s lvl x = Inr (m1, s')"
      "call_inv infrared_protocol_samsung32 (pdwm_fed infrared_protocol_samsung32) s'"
    by (auto simp: decode_defs)
  from rc5_safe.common_decode_ok [OF inv(3), of lvl x] obtain m2 r5' where
    2: "infrared_decoder_rc5_decode r5 lvl x = Inr (m2, r5')" "call_inv infrared_protocol_rc5 (\<lambda>_ _ _. True) r5'"
    by (auto simp: decode_defs)
  from rc6_safe.common_decode_ok [OF inv(4), of lvl x] obtain m3 r6' where
    3: "infrared_decoder_rc6_decode r6 lvl x = Inr (m3, r6')" "call_inv infrared_protocol_rc6 rc6_fed r6'"
    by (auto simp: decode_defs)
  from sirc_safe.common_decode_ok [OF inv(5), of lvl x] obtain m4 si' where
    4: "infrared_decoder_sirc_decode si lvl x = Inr (m4, si')"
      "call_inv infrared_protocol_sirc (pdwm_fed infrared_protocol_sirc) si'"
    by (auto simp: decode_defs)
  from kaseikyo_safe.common_decode_ok [OF inv(6), of lvl x] obtain m6 ka' where
    6: "infrared_decoder_kaseikyo_decode ka lvl x = Inr (m6, ka')"
      "call_inv infrared_protocol_kaseikyo (pdwm_fed infrared_protocol_kaseikyo) ka'"
    by (auto simp: decode_defs)
  from rca_safe.common_decode_ok [OF inv(7), of lvl x] obtain m7 rc' where
    7: "infrared_decoder_rca_decode rc lvl x = Inr (m7, rc')"
      "call_inv infrared_protocol_rca (pdwm_fed infrared_protocol_rca) rc'"
    by (auto simp: decode_defs)
  note row = decode_row [OF 0(1) 1(1) 2(1) 3(1) 4(1) 6(1) 7(1), of pi]
  show ?thesis
  proof (cases "infrared_decoder_pioneer_decode pi lvl x")
    case (Inl f)
    then show ?thesis using row by (simp add: cs bindr_def)
  next
    case (Inr r)
    obtain m5 pi' where r: "r = (m5, pi')" by (cases r)
    have "others_inv [n', s', r5', r6', si', pi', ka', rc']"
      using 0(2) 1(2) 2(2) 3(2) 4(2) 6(2) 7(2) by (simp add: others_inv_def)
    then show ?thesis using row Inr r by (auto simp: cs)
  qed
qed

lemma feed_fault:
  "others_inv cs \<Longrightarrow> ir_feed infrared_decode \<lparr>h_ctx = cs\<rparr> xs = Inl f \<longleftrightarrow>
     ir_feed infrared_decoder_pioneer_decode (cs ! 5) xs = Inl f"
proof (induction xs arbitrary: cs)
  case Nil
  then show ?case by simp
next
  case (Cons y xs)
  obtain lvl x where y: "y = (lvl, x)" by (cases y)
  show ?case
  proof (cases "infrared_decoder_pioneer_decode (cs ! 5) lvl x")
    case (Inl f')
    then show ?thesis using decode_outcome [OF Cons.prems, of lvl x] y by (simp add: bindr_def)
  next
    case (Inr r)
    obtain m p where r: "r = (m, p)" by (cases r)
    from decode_outcome [OF Cons.prems, of lvl x] Inr r obtain q cs' where
      1: "infrared_decode \<lparr>h_ctx = cs\<rparr> lvl x = Inr (q, \<lparr>h_ctx = cs'\<rparr>)" and cs': "others_inv cs'" "cs' ! 5 = p" by auto
    have "bindr a (\<lambda>(ms, d). Inr (g ms, d)) = Inl f \<longleftrightarrow> a = Inl f" for a and g :: "infrared_message list \<Rightarrow> 'a" and f
      by (cases a) (auto simp: bindr_def)
    with 1 Inr r y Cons.IH [OF cs'(1)] cs'(2) show ?thesis
      by (auto simp: bindr_def split: sum.splits)
  qed
qed

text \<open>A decoder as \<^verbatim>\<open>infrared_alloc_decoder\<close> leaves it.\<close>

definition fresh :: "infrared_common_protocol_spec \<Rightarrow> infrared_common_decoder \<Rightarrow> bool" where
  "fresh P d \<longleftrightarrow> listening P d \<and> d_databit_cnt d = 0"

lemma fresh_reset:
  "fresh P d \<Longrightarrow> \<exists>d'. infrared_common_decoder_reset P d = Inr d' \<and> fresh P d'"
  by (auto simp: fresh_def listening_def decoder_idle_def infrared_common_decoder_reset_def
      infrared_common_decoder_reset_state_def Let_def payload_ok_def)

lemma fresh_call_inv: "fresh P d \<Longrightarrow> call_inv P fed d"
  by (simp add: fresh_def listening_def decoder_idle_def call_inv_def)

lemma fresh_alloc: "infrared_common_decoder_alloc P = Inr d \<Longrightarrow> fresh P d"
  by (auto simp: infrared_common_decoder_alloc_def fresh_def listening_def decoder_idle_def payload_ok_def bindr_eq_Inr)

lemma fresh_toggle: "fresh P (d\<lparr>d_toggle := b\<rparr>) = fresh P d"
  by (simp add: fresh_def listening_def decoder_idle_def payload_ok_def)

lemmas alloc_defs =
  infrared_decoder_nec_alloc_def infrared_decoder_samsung32_alloc_def infrared_decoder_rc5_alloc_def
  infrared_decoder_rc6_alloc_def infrared_decoder_sirc_alloc_def infrared_decoder_pioneer_alloc_def
  infrared_decoder_kaseikyo_alloc_def infrared_decoder_rca_alloc_def

lemmas reset_defs =
  infrared_decoder_nec_reset_def infrared_decoder_samsung32_reset_def infrared_decoder_rc5_reset_def
  infrared_decoder_rc6_reset_def infrared_decoder_sirc_reset_def infrared_decoder_pioneer_reset_def
  infrared_decoder_kaseikyo_reset_def infrared_decoder_rca_reset_def

lemma fresh_allocs:
  "\<exists>d. infrared_decoder_nec_alloc = Inr d \<and> fresh infrared_protocol_nec d"
  "\<exists>d. infrared_decoder_samsung32_alloc = Inr d \<and> fresh infrared_protocol_samsung32 d"
  "\<exists>d. infrared_decoder_rc5_alloc = Inr d \<and> fresh infrared_protocol_rc5 d"
  "\<exists>d. infrared_decoder_rc6_alloc = Inr d \<and> fresh infrared_protocol_rc6 d"
  "\<exists>d. infrared_decoder_sirc_alloc = Inr d \<and> fresh infrared_protocol_sirc d"
  "\<exists>d. infrared_decoder_pioneer_alloc = Inr d \<and> fresh infrared_protocol_pioneer d"
  "\<exists>d. infrared_decoder_kaseikyo_alloc = Inr d \<and> fresh infrared_protocol_kaseikyo d"
  "\<exists>d. infrared_decoder_rca_alloc = Inr d \<and> fresh infrared_protocol_rca d"
  using nec_allocs(2) samsung_allocs(2) rc5_allocs(2) rc6_allocs(2) sirc_allocs(2) pioneer_allocs(2)
    kaseikyo_allocs(2) rca_allocs(2)
  by (auto simp: alloc_defs bindr_eq_Inr fresh_toggle dest: fresh_alloc)

text \<open>The eight decoders after allocation and reset, in the order of the table.\<close>

lemma alloc_decoder_fresh:
  obtains n s r5 r6 si pi ka rc p0 where
    "infrared_alloc_decoder = Inr \<lparr>h_ctx = [n, s, r5, r6, si, pi, ka, rc]\<rparr>"
    and "fresh infrared_protocol_nec n" "fresh infrared_protocol_samsung32 s" "fresh infrared_protocol_rc5 r5"
      "fresh infrared_protocol_rc6 r6" "fresh infrared_protocol_sirc si" "fresh infrared_protocol_pioneer pi"
      "fresh infrared_protocol_kaseikyo ka" "fresh infrared_protocol_rca rc"
    and "infrared_decoder_pioneer_alloc = Inr p0" "infrared_decoder_pioneer_reset p0 = Inr pi"
proof -
  from fresh_allocs obtain n0 s0 r50 r60 si0 p0 ka0 rc0 where
    a: "infrared_decoder_nec_alloc = Inr n0" "infrared_decoder_samsung32_alloc = Inr s0"
      "infrared_decoder_rc5_alloc = Inr r50" "infrared_decoder_rc6_alloc = Inr r60"
      "infrared_decoder_sirc_alloc = Inr si0" "infrared_decoder_pioneer_alloc = Inr p0"
      "infrared_decoder_kaseikyo_alloc = Inr ka0" "infrared_decoder_rca_alloc = Inr rc0"
    and f: "fresh infrared_protocol_nec n0" "fresh infrared_protocol_samsung32 s0" "fresh infrared_protocol_rc5 r50"
      "fresh infrared_protocol_rc6 r60" "fresh infrared_protocol_sirc si0" "fresh infrared_protocol_pioneer p0"
      "fresh infrared_protocol_kaseikyo ka0" "fresh infrared_protocol_rca rc0" by metis
  from fresh_reset [OF f(1)] fresh_reset [OF f(2)] fresh_reset [OF f(3)] fresh_reset [OF f(4)]
    fresh_reset [OF f(5)] fresh_reset [OF f(6)] fresh_reset [OF f(7)] fresh_reset [OF f(8)]
  obtain n s r5 r6 si pi ka rc where
    r: "infrared_decoder_nec_reset n0 = Inr n" "infrared_decoder_samsung32_reset s0 = Inr s"
      "infrared_decoder_rc5_reset r50 = Inr r5" "infrared_decoder_rc6_reset r60 = Inr r6"
      "infrared_decoder_sirc_reset si0 = Inr si" "infrared_decoder_pioneer_reset p0 = Inr pi"
      "infrared_decoder_kaseikyo_reset ka0 = Inr ka" "infrared_decoder_rca_reset rc0 = Inr rc"
    and g: "fresh infrared_protocol_nec n" "fresh infrared_protocol_samsung32 s" "fresh infrared_protocol_rc5 r5"
      "fresh infrared_protocol_rc6 r6" "fresh infrared_protocol_sirc si" "fresh infrared_protocol_pioneer pi"
      "fresh infrared_protocol_kaseikyo ka" "fresh infrared_protocol_rca rc"
    unfolding reset_defs by metis
  have "infrared_alloc_decoder = Inr \<lparr>h_ctx = [n, s, r5, r6, si, pi, ka, rc]\<rparr>"
    by (simp add: infrared_alloc_decoder_def infrared_reset_decoder_def infrared_encoder_decoder_table_def Let_def a r)
  from that [OF this g a(6) r(6)] show thesis .
qed

text \<open>
  C2: the only fault. Whatever edges a receiver feeds to the facade, it stops at a fault exactly when
  the Pioneer decoder alone would, and with the same fault: no other decoder can be made to assert,
  to overrun its six timings or its payload, or to loop.
\<close>

theorem infrared_faults_only_in_pioneer:
  "bindr infrared_alloc_decoder (\<lambda>h. ir_feed infrared_decode h xs) = Inl f \<longleftrightarrow>
   bindr infrared_decoder_pioneer_alloc (\<lambda>d. bindr (infrared_decoder_pioneer_reset d) (\<lambda>d.
     ir_feed infrared_decoder_pioneer_decode d xs)) = Inl f"
proof -
  obtain n s r5 r6 si pi ka rc p0 where
    a: "infrared_alloc_decoder = Inr \<lparr>h_ctx = [n, s, r5, r6, si, pi, ka, rc]\<rparr>"
    and f: "fresh infrared_protocol_nec n" "fresh infrared_protocol_samsung32 s" "fresh infrared_protocol_rc5 r5"
      "fresh infrared_protocol_rc6 r6" "fresh infrared_protocol_sirc si" "fresh infrared_protocol_pioneer pi"
      "fresh infrared_protocol_kaseikyo ka" "fresh infrared_protocol_rca rc"
    and p: "infrared_decoder_pioneer_alloc = Inr p0" "infrared_decoder_pioneer_reset p0 = Inr pi"
    by (rule alloc_decoder_fresh)
  have "others_inv [n, s, r5, r6, si, pi, ka, rc]"
    using f by (simp add: others_inv_def fresh_call_inv)
  from feed_fault [OF this, of xs f] show ?thesis by (simp add: a p)
qed

end
