(* ===== verification/Infrared_Quiet.thy ===== *)
theory Infrared_Quiet
  imports Infrared
begin

text \<open>
  A message through the facade: the encoder handler picks the protocol's encoder, all eight
  decoders see the signal, and only the protocol's own decoder understands it. The others stay
  \<open>quiet\<close>: no mark of the signal is in the window of their preamble, and RC5, which has no
  preamble, rejects every mark as no half of a bit.
\<close>

section \<open>Decoders that do not understand a signal\<close>

text \<open>Levels alternate, a space comes first, and every mark satisfies \<open>good\<close>.\<close>

definition on_line :: "(u32 \<Rightarrow> bool) \<Rightarrow> bool \<Rightarrow> (bool \<times> u32) list \<Rightarrow> bool" where
  "on_line good lvl xs \<longleftrightarrow> alternating xs \<and> (xs \<noteq> [] \<longrightarrow> fst (hd xs) = lvl) \<and>
     (\<forall>x. (True, x) \<in> set xs \<longrightarrow> good x)"

lemma on_line_Cons: "on_line good lvl ((l, x) # xs) \<longleftrightarrow> l = lvl \<and> (l \<longrightarrow> good x) \<and> on_line good (\<not> lvl) xs"
  by (auto simp: on_line_def alternating_Cons)

definition preamble_hit :: "infrared_timings \<Rightarrow> u32 \<Rightarrow> bool" where
  "preamble_hit t x \<longleftrightarrow> MATCH_TIMING_F x (ucast (preamble_mark t)) (preamble_tolerance t)"

definition quiet :: "infrared_common_protocol_spec \<Rightarrow> infrared_common_decoder \<Rightarrow> bool" where
  "quiet P d \<longleftrightarrow> d_state d = InfraredCommonDecoderStateWaitPreamble \<and> d_databit_cnt d = 0 \<and>
     length (d_timings d) = 6 \<and>
     (d_timings_cnt d = 0 \<or> d_timings_cnt d = 1 \<and> d_level d \<and>
        \<not> preamble_hit (p_timings (s_params P)) (d_timings d ! 0))"

lemma fresh_quiet: "fresh P d \<Longrightarrow> quiet P d"
  by (simp add: fresh_def listening_def decoder_idle_def quiet_def)

lemma quiet_mark:
  assumes d: "quiet P d" "\<not> d_level d" and nz: "preamble_mark (p_timings (s_params P)) \<noteq> 0"
    and x: "\<not> preamble_hit (p_timings (s_params P)) x"
  shows "\<exists>d'. infrared_common_decode P d True x = Inr (None, d') \<and> quiet P d' \<and> d_level d'"
proof -
  from d have r: "d_state d = InfraredCommonDecoderStateWaitPreamble" "d_databit_cnt d = 0"
    "length (d_timings d) = 6" "d_timings_cnt d = 0" by (auto simp: quiet_def)
  let ?s = "stored d True x"
  have "infrared_check_preamble (s_params P) ?s = Inr (False, ?s)"
    using nz by (simp add: infrared_check_preamble_def check_preamble_loop.simps)
  then have "infrared_common_decode P d True x = Inr (None, ?s)"
    using r d common_decode_stored [of d True P x] loop_wait_not_found [of ?s P ?s False] by simp
  then show ?thesis using r x by (simp add: quiet_def)
qed

lemma quiet_space:
  assumes d: "quiet P d" "d_level d" and nz: "preamble_mark (p_timings (s_params P)) \<noteq> 0"
  shows "\<exists>d'. infrared_common_decode P d False x = Inr (None, d') \<and> quiet P d' \<and> \<not> d_level d'"
proof (cases "d_timings_cnt d = 0")
  case True
  let ?s = "(stored d False x)\<lparr>d_timings_cnt := 0\<rparr>"
  from d have r: "d_state d = InfraredCommonDecoderStateWaitPreamble" "d_databit_cnt d = 0"
    "length (d_timings d) = 6" by (auto simp: quiet_def)
  have "infrared_check_preamble (s_params P) (stored d False x) = Inr (False, ?s)"
    using nz consume_timings_all [of "stored d False x" 1]
    by (simp add: infrared_check_preamble_def check_preamble_loop.simps)
  then have "infrared_common_decode P d False x = Inr (None, ?s)"
    using r d True common_decode_stored [of d False P x] loop_wait_not_found [of "stored d False x" P ?s False] by simp
  then show ?thesis using r by (simp add: quiet_def)
next
  case False
  with d have r: "d_state d = InfraredCommonDecoderStateWaitPreamble" "d_databit_cnt d = 0"
    "length (d_timings d) = 6" "d_timings_cnt d = 1" "\<not> preamble_hit (p_timings (s_params P)) (d_timings d ! 0)"
    by (auto simp: quiet_def)
  let ?d2 = "d\<lparr>d_level := False, d_timings := (d_timings d)[1 := x], d_timings_cnt := 2\<rparr>"
  let ?d3 = "?d2\<lparr>d_timings_cnt := 0\<rparr>"
  have cons: "consume_timings 2 ?d2 = Inr ?d3" by (rule consume_timings_all) simp
  have "check_preamble_loop (p_timings (s_params P)) ?d3 = Inr (False, ?d3)"
    by (subst check_preamble_loop.simps) simp
  moreover have "\<not> MATCH_TIMING_F (d_timings d ! 0) (ucast (preamble_mark (p_timings (s_params P))))
      (preamble_tolerance (p_timings (s_params P)))"
    using r by (simp add: preamble_hit_def)
  ultimately have "infrared_check_preamble (s_params P) ?d2 = Inr (False, ?d3)"
    using r nz cons
    by (subst infrared_check_preamble_def, subst check_preamble_loop.simps)
       (simp add: oldest_level_def list_get_def)
  then have "infrared_common_decode_loop decode_loop_fuel P False ?d2 = Inr (False, ?d3)"
    using r by (intro loop_wait_not_found) simp_all
  then have "infrared_common_decode P d False x = Inr (None, ?d3)"
    using r d by (simp add: infrared_common_decode_def Let_def list_set_def sizeof_timings_def eval_nat_numeral)
  then show ?thesis using r by (simp add: quiet_def)
qed

lemma quiet_feed:
  assumes nz: "preamble_mark (p_timings (s_params P)) \<noteq> 0"
  shows "quiet P d \<Longrightarrow> on_line (\<lambda>x. \<not> preamble_hit (p_timings (s_params P)) x) (\<not> d_level d) xs \<Longrightarrow>
    \<exists>d'. ir_feed (infrared_common_decode P) d xs = Inr ([], d') \<and> quiet P d'"
proof (induction xs arbitrary: d)
  case Nil
  then show ?case by simp
next
  case (Cons y xs)
  obtain l x where y: "y = (l, x)" by (cases y)
  with Cons.prems have l: "l = (\<not> d_level d)" and rest: "on_line (\<lambda>x. \<not> preamble_hit (p_timings (s_params P)) x) (d_level d) xs"
    and x: "l \<Longrightarrow> \<not> preamble_hit (p_timings (s_params P)) x" by (auto simp: on_line_Cons)
  have "\<exists>d1. infrared_common_decode P d l x = Inr (None, d1) \<and> quiet P d1 \<and> d_level d1 = l"
    using quiet_mark [OF Cons.prems(1) _ nz, of x] quiet_space [OF Cons.prems(1) _ nz, of x] l x by (cases l) auto
  then obtain d1 where 1: "infrared_common_decode P d l x = Inr (None, d1)" "quiet P d1" "d_level d1 = l" by blast
  with Cons.IH [of d1] rest l y show ?case by auto
qed

text \<open>RC5: a space opens a payload, and a mark that is no half of a bit closes it again.\<close>

definition rc5_miss :: "u32 \<Rightarrow> bool" where
  "rc5_miss x \<longleftrightarrow> \<not> man_single (s_params infrared_protocol_rc5) x \<and> \<not> man_double (s_params infrared_protocol_rc5) x"

definition rc5_quiet :: "infrared_common_decoder \<Rightarrow> bool" where
  "rc5_quiet d \<longleftrightarrow> d_databit_cnt d = 0 \<and> d_timings_cnt d = 0 \<and> length (d_timings d) = 6 \<and>
     payload_ok (s_params infrared_protocol_rc5) d \<and>
     d_state d = (if d_level d then InfraredCommonDecoderStateWaitPreamble else InfraredCommonDecoderStateDecode)"

lemma fresh_rc5_quiet: "fresh infrared_protocol_rc5 d \<Longrightarrow> rc5_quiet d"
  by (simp add: fresh_def listening_def decoder_idle_def rc5_quiet_def)

lemma rc5_quiet_mark:
  assumes d: "rc5_quiet d" "\<not> d_level d" and x: "rc5_miss x"
  shows "\<exists>d'. infrared_common_decode infrared_protocol_rc5 d True x = Inr (None, d') \<and> rc5_quiet d' \<and> d_level d'"
proof -
  let ?P = infrared_protocol_rc5
  from d have r: "d_state d = InfraredCommonDecoderStateDecode" "d_databit_cnt d = 0" "d_timings_cnt d = 0"
    "length (d_timings d) = 6" "length (d_data d) = 4" by (simp_all add: rc5_quiet_def)
  let ?s = "stored d True x"
  let ?w = "?s\<lparr>d_state := InfraredCommonDecoderStateWaitPreamble, d_databit_cnt := 0, d_switch_detect := False,
     d_message := (d_message ?s)\<lparr>m_protocol := InfraredProtocolUnknown\<rparr>, d_timings_cnt := 0\<rparr>"
  have "infrared_common_decode_bits (Suc (Suc 0)) ?P ?s = Inr (InfraredStatusError, ?s)"
    using r x by (simp add: Let_def decode_bits_early_def list_get_def manchester_unfold rc5_miss_def)
  moreover have "infrared_common_decoder_reset_state (s_params ?P) ?s = Inr ?w"
    using consume_timings_all [of "?s\<lparr>d_state := InfraredCommonDecoderStateWaitPreamble, d_databit_cnt := 0,
        d_switch_detect := False, d_message := (d_message ?s)\<lparr>m_protocol := InfraredProtocolUnknown\<rparr>\<rparr>" 1]
    by (simp add: infrared_common_decoder_reset_state_def Let_def infrared_protocol_rc5_def)
  moreover have "infrared_check_preamble (s_params ?P) ?w = Inr (False, ?w)"
    by (simp add: infrared_check_preamble_def)
  moreover have fuel: "decode_loop_fuel = Suc (Suc 14)" by (simp add: decode_loop_fuel_def)
  ultimately have "infrared_common_decode_loop decode_loop_fuel ?P False ?s = Inr (False, ?w)"
    unfolding fuel infrared_common_decode_loop.simps(2) [of "Suc 14"] infrared_common_decode_loop.simps(2) [of 14]
    using r by (simp del: infrared_common_decode_bits.simps infrared_common_decode_loop.simps)
  then have "infrared_common_decode ?P d True x = Inr (None, ?w)"
    using r d common_decode_stored [of d True ?P x] by simp
  then show ?thesis using r by (simp add: rc5_quiet_def)
qed

lemma rc5_quiet_space:
  assumes d: "rc5_quiet d" "d_level d"
  shows "\<exists>d'. infrared_common_decode infrared_protocol_rc5 d False x = Inr (None, d') \<and> rc5_quiet d' \<and> \<not> d_level d'"
proof -
  have pre: "preamble_mark (p_timings (s_params infrared_protocol_rc5)) = 0"
    by (simp add: infrared_protocol_rc5_def)
  have "decoder_idle infrared_protocol_rc5 d"
    using d by (simp add: decoder_idle_def rc5_quiet_def)
  from rc5.pause_opens [OF this d(2) pre, of x] show ?thesis
    by (auto simp: boundary_def receiving_def rc5_quiet_def)
qed

lemma rc5_quiet_feed:
  "rc5_quiet d \<Longrightarrow> on_line rc5_miss (\<not> d_level d) xs \<Longrightarrow>
   \<exists>d'. ir_feed (infrared_common_decode infrared_protocol_rc5) d xs = Inr ([], d') \<and> rc5_quiet d'"
proof (induction xs arbitrary: d)
  case Nil
  then show ?case by simp
next
  case (Cons y xs)
  obtain l x where y: "y = (l, x)" by (cases y)
  with Cons.prems have l: "l = (\<not> d_level d)" and rest: "on_line rc5_miss (d_level d) xs"
    and x: "l \<Longrightarrow> rc5_miss x" by (auto simp: on_line_Cons)
  have "\<exists>d1. infrared_common_decode infrared_protocol_rc5 d l x = Inr (None, d1) \<and> rc5_quiet d1 \<and> d_level d1 = l"
    using rc5_quiet_mark [OF Cons.prems(1)] rc5_quiet_space [OF Cons.prems(1)] l x by (cases l) auto
  then obtain d1 where 1: "infrared_common_decode infrared_protocol_rc5 d l x = Inr (None, d1)" "rc5_quiet d1" "d_level d1 = l"
    by blast
  with Cons.IH [of d1] rest l y show ?case by auto
qed

section \<open>All eight decoders\<close>

definition row_protocols :: "infrared_common_protocol_spec list" where
  "row_protocols = [infrared_protocol_nec, infrared_protocol_samsung32, infrared_protocol_rc5, infrared_protocol_rc6,
     infrared_protocol_sirc, infrared_protocol_pioneer, infrared_protocol_kaseikyo, infrared_protocol_rca]"

lemmas ready_defs =
  infrared_decoder_nec_check_ready_def infrared_decoder_samsung32_check_ready_def
  infrared_decoder_rc5_check_ready_def infrared_decoder_rc6_check_ready_def
  infrared_decoder_sirc_check_ready_def infrared_decoder_pioneer_check_ready_def
  infrared_decoder_kaseikyo_check_ready_def infrared_decoder_rca_check_ready_def

lemma table_length [simp]: "length infrared_encoder_decoder_table = 8" "length row_protocols = 8"
  by (simp_all add: infrared_encoder_decoder_table_def row_protocols_def Let_def)

lemma less_8: "(i::nat) < 8 \<longleftrightarrow> i = 0 \<or> i = 1 \<or> i = 2 \<or> i = 3 \<or> i = 4 \<or> i = 5 \<or> i = 6 \<or> i = 7"
  by auto

lemma table_row:
  assumes "i < 8"
  shows "decoder_decode (infrared_encoder_decoder_table ! i) = infrared_common_decode (row_protocols ! i)"
    and "decoder_check_ready (infrared_encoder_decoder_table ! i) = common_ready (row_protocols ! i)"
  using assms unfolding less_8
  by (auto simp: infrared_encoder_decoder_table_def row_protocols_def Let_def decode_defs ready_defs)

lemma decode_entries_silent:
  "length cs = length ts \<Longrightarrow> length cs' = length ts \<Longrightarrow>
   (\<And>i. i < length ts \<Longrightarrow> decoder_decode (ts ! i) (cs ! i) lvl x = Inr (None, cs' ! i)) \<Longrightarrow>
   decode_entries ts cs lvl x = Inr (None, cs')"
proof (induction ts arbitrary: cs cs')
  case Nil
  then show ?case by simp
next
  case (Cons t ts)
  then obtain c cs1 c' cs1' where cs: "cs = c # cs1" "cs' = c' # cs1'"
    by (metis length_Suc_conv length_Cons)
  have "decoder_decode t c lvl x = Inr (None, c')" using Cons.prems(3) [of 0] cs by simp
  moreover have "decode_entries ts cs1 lvl x = Inr (None, cs1')"
  proof (rule Cons.IH)
    show "decoder_decode (ts ! i) (cs1 ! i) lvl x = Inr (None, cs1' ! i)" if "i < length ts" for i
      using Cons.prems(3) [of "Suc i"] that cs by simp
  qed (use Cons.prems cs in simp_all)
  ultimately show ?case using cs by simp
qed

lemma feed_entries:
  "length cs = 8 \<Longrightarrow> length cs' = 8 \<Longrightarrow>
   (\<And>i. i < 8 \<Longrightarrow> ir_feed (infrared_common_decode (row_protocols ! i)) (cs ! i) xs = Inr ([], cs' ! i)) \<Longrightarrow>
   ir_feed infrared_decode \<lparr>h_ctx = cs\<rparr> xs = Inr ([], \<lparr>h_ctx = cs'\<rparr>)"
proof (induction xs arbitrary: cs)
  case Nil
  then have "cs = cs'" by (intro nth_equalityI) auto
  then show ?case by simp
next
  case (Cons y xs)
  obtain l x where y: "y = (l, x)" by (cases y)
  let ?next = "\<lambda>i. case infrared_common_decode (row_protocols ! i) (cs ! i) l x of Inr (m, c) \<Rightarrow> c | Inl f \<Rightarrow> cs ! i"
  let ?cs1 = "map ?next [0..<8]"
  have step: "infrared_common_decode (row_protocols ! i) (cs ! i) l x = Inr (None, ?cs1 ! i) \<and>
      ir_feed (infrared_common_decode (row_protocols ! i)) (?cs1 ! i) xs = Inr ([], cs' ! i)" if "i < 8" for i
    using Cons.prems(3) [OF that] that
    by (auto simp: y bindr_eq_Inr nth_map_upt split: option.splits)
  have entries: "decode_entries infrared_encoder_decoder_table cs l x = Inr (None, ?cs1)"
    using Cons.prems(1) step by (intro decode_entries_silent) (simp_all only: table_length length_map length_upt diff_zero table_row)
  have "infrared_decode \<lparr>h_ctx = cs\<rparr> l x = Inr (None, \<lparr>h_ctx = ?cs1\<rparr>)"
    by (simp only: infrared_decode_def entries infrared_decoder_handler.simps bindr_Inr prod.case)
  moreover have "ir_feed infrared_decode \<lparr>h_ctx = ?cs1\<rparr> xs = Inr ([], \<lparr>h_ctx = cs'\<rparr>)"
    using step Cons.prems(2) by (intro Cons.IH) (simp_all only: length_map length_upt diff_zero)
  ultimately show ?case by (simp add: y del: upt_Suc)
qed

lemma ready_entries_all:
  "length cs = length ts \<Longrightarrow> length cs' = length ts \<Longrightarrow> length rs = length ts \<Longrightarrow>
   (\<And>i. i < length ts \<Longrightarrow> decoder_check_ready (ts ! i) (cs ! i) = Inr (rs ! i, cs' ! i)) \<Longrightarrow>
   ready_entries ts cs = Inr (first_some rs, cs')"
proof (induction ts arbitrary: cs cs' rs)
  case Nil
  then show ?case by simp
next
  case (Cons t ts)
  then obtain c cs1 c' cs1' r rs1 where cs: "cs = c # cs1" "cs' = c' # cs1'" "rs = r # rs1"
    by (metis length_Suc_conv length_Cons)
  have "decoder_check_ready t c = Inr (r, c')" using Cons.prems(4) [of 0] cs by simp
  moreover have "ready_entries ts cs1 = Inr (first_some rs1, cs1')"
  proof (rule Cons.IH)
    show "decoder_check_ready (ts ! i) (cs1 ! i) = Inr (rs1 ! i, cs1' ! i)" if "i < length ts" for i
      using Cons.prems(4) [of "Suc i"] that cs by simp
  qed (use Cons.prems cs in simp_all)
  ultimately show ?case using cs by (simp add: first_some_Cons)
qed

lemma first_some_only:
  "k < length rs \<Longrightarrow> rs ! k = Some m \<Longrightarrow> (\<And>i. i < length rs \<Longrightarrow> i \<noteq> k \<Longrightarrow> rs ! i = None) \<Longrightarrow> first_some rs = Some m"
proof (induction rs arbitrary: k)
  case Nil
  then show ?case by simp
next
  case (Cons r rs)
  show ?case
  proof (cases k)
    case 0
    with Cons.prems show ?thesis by (simp add: first_some_Cons)
  next
    case (Suc j)
    have "r = None" using Cons.prems(3) [of 0] Suc by simp
    moreover have "first_some rs = Some m"
    proof (rule Cons.IH [of j])
      show "rs ! i = None" if "i < length rs" "i \<noteq> j" for i
        using Cons.prems(3) [of "Suc i"] that Suc by simp
    qed (use Cons.prems Suc in simp_all)
    ultimately show ?thesis by (simp add: first_some_Cons)
  qed
qed

section \<open>The encoder behind the facade\<close>

lemma facade_frame:
  assumes row: "encoder_encode (infrared_encoder_decoder_table ! k) = through_ptr as_common CommonEncoder enc"
    and ok: "\<And>e x. enc e = Inr x \<Longrightarrow> fst x \<noteq> InfraredStatusError"
  shows "ir_encode_frame enc n e = Inr (xs, e') \<Longrightarrow>
    ir_encode_frame infrared_encode n \<lparr>h_handler = Some (CommonEncoder e), h_encoder = Some k\<rparr> =
      Inr (xs, \<lparr>h_handler = Some (CommonEncoder e'), h_encoder = Some k\<rparr>)"
proof (induction n arbitrary: e xs)
  case 0
  then show ?case by simp
next
  case (Suc n)
  then obtain st dur lvl e1 where 1: "enc e = Inr (st, dur, lvl, e1)" by (auto simp: bindr_eq_Inr)
  have "infrared_encode \<lparr>h_handler = Some (CommonEncoder e), h_encoder = Some k\<rparr> =
      Inr (st, dur, lvl, \<lparr>h_handler = Some (CommonEncoder e1), h_encoder = Some k\<rparr>)"
    using row 1 ok [OF 1] by (simp add: infrared_encode_def through_ptr_def)
  with 1 Suc show ?case by (auto simp: bindr_eq_Inr split: if_splits)
qed

lemma common_encode_no_error:
  assumes rep: "\<And>f p e x. s_encode_repeat P = Some f \<Longrightarrow> f p e = Inr x \<Longrightarrow> fst x \<noteq> InfraredStatusError"
    and enc: "infrared_common_encode P e = Inr x"
  shows "fst x \<noteq> InfraredStatusError"
proof (cases "e_state e = InfraredCommonEncoderStateEncodeRepeat")
  case True
  then show ?thesis
    using enc rep by (auto simp: infrared_common_encode_def split: option.splits)
next
  case False
  with enc show ?thesis
    by (auto simp: infrared_common_encode_def encode_case_encode_def infrared_common_encode_bits_def Let_def
        bindr_eq_Inr furi_assert_def split: ir_encoder_state.splits if_splits)
qed

lemma repeats_no_error:
  "infrared_encoder_nec_encode_repeat p e = Inr x \<Longrightarrow> fst x \<noteq> InfraredStatusError"
  "infrared_encoder_samsung32_encode_repeat p e = Inr x \<Longrightarrow> fst x \<noteq> InfraredStatusError"
  "infrared_encoder_sirc_encode_repeat p e = Inr x \<Longrightarrow> fst x \<noteq> InfraredStatusError"
  "infrared_encoder_pioneer_encode_repeat p e = Inr x \<Longrightarrow> fst x \<noteq> InfraredStatusError"
  by (auto simp: infrared_encoder_nec_encode_repeat_def infrared_encoder_samsung32_encode_repeat_def
    infrared_encoder_sirc_encode_repeat_def infrared_encoder_pioneer_encode_repeat_def Let_def bindr_eq_Inr
    split: if_splits)

lemma commons_no_error:
  "infrared_common_encode infrared_protocol_nec e = Inr x \<Longrightarrow> fst x \<noteq> InfraredStatusError"
  "infrared_common_encode infrared_protocol_samsung32 e = Inr x \<Longrightarrow> fst x \<noteq> InfraredStatusError"
  "infrared_common_encode infrared_protocol_sirc e = Inr x \<Longrightarrow> fst x \<noteq> InfraredStatusError"
  "infrared_common_encode infrared_protocol_pioneer e = Inr x \<Longrightarrow> fst x \<noteq> InfraredStatusError"
  "infrared_common_encode infrared_protocol_kaseikyo e = Inr x \<Longrightarrow> fst x \<noteq> InfraredStatusError"
  "infrared_common_encode infrared_protocol_rca e = Inr x \<Longrightarrow> fst x \<noteq> InfraredStatusError"
  by (erule common_encode_no_error [rotated];
      auto simp: infrared_protocol_nec_def infrared_protocol_samsung32_def infrared_protocol_sirc_def
        infrared_protocol_pioneer_def infrared_protocol_kaseikyo_def infrared_protocol_rca_def
        dest: repeats_no_error)+

lemma encodes_no_error:
  "infrared_encoder_nec_encode e = Inr x \<Longrightarrow> fst x \<noteq> InfraredStatusError"
  "infrared_encoder_samsung32_encode e = Inr x \<Longrightarrow> fst x \<noteq> InfraredStatusError"
  "infrared_encoder_sirc_encode e = Inr x \<Longrightarrow> fst x \<noteq> InfraredStatusError"
  "infrared_encoder_pioneer_encode e = Inr x \<Longrightarrow> fst x \<noteq> InfraredStatusError"
  "infrared_encoder_kaseikyo_encode e = Inr x \<Longrightarrow> fst x \<noteq> InfraredStatusError"
  "infrared_encoder_rca_encode e = Inr x \<Longrightarrow> fst x \<noteq> InfraredStatusError"
  by (auto simp: infrared_encoder_nec_encode_def infrared_encoder_samsung32_encode_def
        infrared_encoder_kaseikyo_encode_def infrared_encoder_rca_encode_def
        infrared_encoder_sirc_encode_def infrared_encoder_pioneer_encode_def
        bindr_eq_Inr dest: commons_no_error split: if_splits)

section \<open>A message through the facade\<close>

text \<open>A mark that no row but \<open>k\<close> reacts to.\<close>

definition only_for :: "nat \<Rightarrow> u32 \<Rightarrow> bool" where
  "only_for k x \<longleftrightarrow> rc5_miss x \<and>
     (\<forall>i \<in> {0, 1, 3, 4, 5, 6, 7} - {k}. \<not> preamble_hit (p_timings (s_params (row_protocols ! i))) x)"

text \<open>
  \<open>carried k\<close>: the encoder of row \<open>k\<close> emits the message as a signal that the decoder of the row
  understands and whose marks mean nothing to the others.
\<close>

definition carried :: "nat \<Rightarrow> (infrared_common_encoder \<Rightarrow> infrared_message \<Rightarrow> infrared_common_encoder res)
    \<Rightarrow> (infrared_common_encoder \<Rightarrow> ir_encode_result) \<Rightarrow> infrared_message \<Rightarrow> bool" where
  "carried k reset enc m \<longleftrightarrow> (\<exists>e e1 e2 xs.
     encoder_alloc (infrared_encoder_decoder_table ! k) = Inr (CommonEncoder e) \<and> reset e m = Inr e1 \<and>
     ir_encode_frame enc ir_frame_fuel e1 = Inr (xs, e2) \<and> on_line (only_for k) False xs \<and>
     (\<forall>d. decoder_idle (row_protocols ! k) d \<longrightarrow> (\<exists>d1 d2.
        ir_feed (infrared_common_decode (row_protocols ! k)) d xs = Inr ([], d1) \<and>
        common_ready (row_protocols ! k) d1 = Inr (Some m, d2))))"

lemma on_line_mono: "on_line g lvl xs \<Longrightarrow> (\<And>x. g x \<Longrightarrow> h x) \<Longrightarrow> on_line h lvl xs"
  by (auto simp: on_line_def)

lemma ready_unset: "d_databit_cnt d = 0 \<Longrightarrow> common_ready P d = Inr (None, d)"
  using databit_len_found_pos [of "p_databit_len (s_params P)" 0]
  by (auto simp: common_ready_def infrared_common_decoder_check_ready_def)

lemma others_silent:
  assumes line: "on_line (only_for k) False xs" and i: "i < 8" "i \<noteq> k" and d: "fresh (row_protocols ! i) d"
  shows "\<exists>d'. ir_feed (infrared_common_decode (row_protocols ! i)) d xs = Inr ([], d') \<and> d_databit_cnt d' = 0"
proof (cases "i = 2")
  case True
  with d have q: "rc5_quiet d" and lvl: "d_level d"
    by (auto simp: row_protocols_def fresh_rc5_quiet) (simp add: fresh_def listening_def)
  have "on_line rc5_miss (\<not> d_level d) xs"
    using on_line_mono [OF line] lvl by (auto simp: only_for_def)
  from rc5_quiet_feed [OF q this] True show ?thesis by (auto simp: row_protocols_def rc5_quiet_def)
next
  case False
  let ?P = "row_protocols ! i"
  have nz: "preamble_mark (p_timings (s_params ?P)) \<noteq> 0"
    using i(1) False unfolding less_8
    by (auto simp: row_protocols_def infrared_protocol_nec_def infrared_protocol_samsung32_def infrared_protocol_rc6_def
        infrared_protocol_sirc_def infrared_protocol_pioneer_def infrared_protocol_kaseikyo_def infrared_protocol_rca_def)
  have "d_level d" using d by (simp add: fresh_def listening_def)
  moreover have "on_line (\<lambda>x. \<not> preamble_hit (p_timings (s_params ?P)) x) False xs"
    using on_line_mono [OF line] i False unfolding less_8 by (auto simp: only_for_def)
  ultimately show ?thesis
    using quiet_feed [OF nz fresh_quiet [OF d], of xs] by (auto simp: quiet_def)
qed

lemma facade_carries:
  assumes car: "carried k reset enc m" and k: "k < 8" "infrared_find_index_by_protocol (m_protocol m) = int k"
    and row: "encoder_encode (infrared_encoder_decoder_table ! k) = through_ptr as_common CommonEncoder enc"
      "encoder_reset (infrared_encoder_decoder_table ! k) =
        (\<lambda>p m. bindr (as_common p) (\<lambda>e. bindr (reset e m) (\<lambda>e'. Inr (CommonEncoder e'))))"
    and ok: "\<And>e x. enc e = Inr x \<Longrightarrow> fst x \<noteq> InfraredStatusError"
  shows "bindr infrared_alloc_decoder (\<lambda>h. ir_transfer infrared_reset_encoder infrared_encode infrared_decode
     infrared_check_decoder_ready infrared_alloc_encoder h m) = Inr ([], Some m)"
proof -
  from car obtain e e1 e2 xs where alloc: "encoder_alloc (infrared_encoder_decoder_table ! k) = Inr (CommonEncoder e)"
    and reset: "reset e m = Inr e1" and frame: "ir_encode_frame enc ir_frame_fuel e1 = Inr (xs, e2)"
    and line: "on_line (only_for k) False xs"
    and own: "\<And>d. decoder_idle (row_protocols ! k) d \<Longrightarrow> \<exists>d1 d2.
        ir_feed (infrared_common_decode (row_protocols ! k)) d xs = Inr ([], d1) \<and>
        common_ready (row_protocols ! k) d1 = Inr (Some m, d2)"
    by (auto simp: carried_def)
  obtain cs where h: "infrared_alloc_decoder = Inr \<lparr>h_ctx = cs\<rparr>" and len: "length cs = 8"
    and fresh: "\<And>i. i < 8 \<Longrightarrow> fresh (row_protocols ! i) (cs ! i)"
  proof (rule alloc_decoder_fresh)
    fix n s r5 r6 si pi ka rc assume "infrared_alloc_decoder = Inr \<lparr>h_ctx = [n, s, r5, r6, si, pi, ka, rc]\<rparr>"
      and f: "fresh infrared_protocol_nec n" "fresh infrared_protocol_samsung32 s" "fresh infrared_protocol_rc5 r5"
      "fresh infrared_protocol_rc6 r6" "fresh infrared_protocol_sirc si" "fresh infrared_protocol_pioneer pi"
      "fresh infrared_protocol_kaseikyo ka" "fresh infrared_protocol_rca rc"
    moreover have "fresh (row_protocols ! i) ([n, s, r5, r6, si, pi, ka, rc] ! i)" if "i < 8" for i
      using that f unfolding less_8 by (auto simp: row_protocols_def)
    ultimately show thesis using that by simp
  qed
  have each: "\<exists>d'. ir_feed (infrared_common_decode (row_protocols ! i)) (cs ! i) xs = Inr ([], d') \<and>
      (\<exists>d2. common_ready (row_protocols ! i) d' = Inr (if i = k then Some m else None, d2))" if "i < 8" for i
    using others_silent [OF line that _ fresh [OF that]] own [of "cs ! k"] fresh [OF that] ready_unset
    by (cases "i = k") (fastforce simp: fresh_def listening_def)+
  then obtain f where f: "\<And>i. i < 8 \<Longrightarrow> ir_feed (infrared_common_decode (row_protocols ! i)) (cs ! i) xs = Inr ([], f i) \<and>
      (\<exists>d2. common_ready (row_protocols ! i) (f i) = Inr (if i = k then Some m else None, d2))" by metis
  then obtain g where g: "\<And>i. i < 8 \<Longrightarrow> common_ready (row_protocols ! i) (f i) = Inr (if i = k then Some m else None, g i)"
    by metis
  have feed: "ir_feed infrared_decode \<lparr>h_ctx = cs\<rparr> xs = Inr ([], \<lparr>h_ctx = map f [0..<8]\<rparr>)"
    using len f by (intro feed_entries) (simp_all del: upt_Suc)
  have "ready_entries infrared_encoder_decoder_table (map f [0..<8]) =
      Inr (first_some (map (\<lambda>i. if i = k then Some m else None) [0..<8]), map g [0..<8])"
    using g by (intro ready_entries_all) (simp_all del: upt_Suc add: table_row)
  moreover have "first_some (map (\<lambda>i. if i = k then Some m else None) [0..<8]) = Some m"
    using k(1) by (intro first_some_only [of k]) (simp_all del: upt_Suc)
  ultimately have ready: "infrared_check_decoder_ready \<lparr>h_ctx = map f [0..<8]\<rparr> = Inr (Some m, \<lparr>h_ctx = map g [0..<8]\<rparr>)"
    by (simp add: infrared_check_decoder_ready_def del: upt_Suc)
  have "infrared_reset_encoder infrared_alloc_encoder m =
      Inr \<lparr>h_handler = Some (CommonEncoder e1), h_encoder = Some k\<rparr>"
    using k(2) alloc reset
    by (simp add: infrared_reset_encoder_def infrared_alloc_encoder_def Let_def row)
  moreover have "ir_line xs = xs" using line by (simp add: on_line_def ir_line_alternating)
  ultimately show ?thesis
    using facade_frame [OF row(1) ok frame] feed ready by (simp add: h ir_transfer_def del: upt_Suc)
qed

section \<open>The six pulse distance and width protocols are carried\<close>

lemma pdwm_body_on_line:
  "good (pdwm_dur t True True) \<Longrightarrow> good (pdwm_dur t True False) \<Longrightarrow> (True, x) \<in> set (pdwm_body t bs) \<Longrightarrow> good x"
proof (induction bs)
  case Nil
  then show ?case by (auto split: if_splits)
next
  case (Cons b bs)
  then show ?case by (cases b) (auto split: if_splits)
qed

lemma pdwm_frame_on_line:
  assumes "good (ucast (preamble_mark t))" and "good (pdwm_dur t True True)" and "good (pdwm_dur t True False)"
  shows "on_line good False (pdwm_frame t bs)"
  using pdwm_frame_alternating [of t bs] pdwm_frame_hd [of t bs] assms pdwm_body_on_line [OF assms(2,3)]
  by (auto simp: on_line_def pdwm_frame_def pdwm_preamble_def)

lemma pioneer_frame_on_line:
  assumes "good (ucast (preamble_mark pioneer_T))" and "good (pdwm_dur pioneer_T True True)"
    and "good (pdwm_dur pioneer_T True False)"
  shows "on_line good False (pioneer_frame bs)"
proof -
  have "good x" if "(True, x) \<in> set (pioneer_body bs)" for x
    using that assms(2,3) by (auto simp: pioneer_body_def)
      (metis (full_types))
  then show ?thesis
    using pioneer_frame_alternating [of bs] assms(1)
    by (auto simp: on_line_def pioneer_frame_def pdwm_preamble_def)
qed

context pdwm_codec
begin

lemma frame_understood:
  assumes m: "canon m" and e: "encoder_alloc_ok P e"
  shows "\<exists>bs e1 e2. reset e m = Inr e1 \<and> ir_encode_frame (infrared_common_encode P) ir_frame_fuel e1 = Inr (pdwm_frame T bs, e2) \<and>
     (\<forall>d. decoder_idle P d \<longrightarrow> (\<exists>d1 d2. ir_feed (infrared_common_decode P) d (pdwm_frame T bs) = Inr ([], d1) \<and>
        common_ready P d1 = Inr (Some m, d2)))"
proof -
  from packed [OF m e] obtain e1 where r: "reset e m = Inr e1" by blast
  from message_emitted [OF m e r] obtain e2 where
    enc: "ir_encode_frame (infrared_common_encode P) ir_frame_fuel e1 =
       Inr (pdwm_frame T (data_bits (e_data e1) (len_of m)), e2)" by blast
  have "data_bits (e_data e1) (len_of m) \<noteq> []"
    using databit_len_found_pos [OF len_found [OF m]] by (metis length_data_bits length_greater_0_conv)
  with r enc signal_understood [OF m e r _ frame_ok] show ?thesis by blast
qed

end

end
