(* ===== verification/Infrared_Facade.thy ===== *)
theory Infrared_Facade
  imports Infrared_Quiet
begin

text \<open>
  A canonical message of any of the six pulse distance and width protocols, sent through the
  facade's encoder handler and received by its decoder handler with all eight decoders
  listening, is reported unchanged.
\<close>

section \<open>Windows of the preambles\<close>

lemma hit_windows:
  "preamble_hit (p_timings (s_params infrared_protocol_nec)) x \<longleftrightarrow> uint x < 9200 \<and> 8800 < uint x"
  "preamble_hit (p_timings (s_params infrared_protocol_samsung32)) x \<longleftrightarrow> uint x < 4700 \<and> 4300 < uint x"
  "preamble_hit (p_timings (s_params infrared_protocol_rc6)) x \<longleftrightarrow> uint x < 2866 \<and> 2466 < uint x"
  "preamble_hit (p_timings (s_params infrared_protocol_sirc)) x \<longleftrightarrow> uint x < 2600 \<and> 2200 < uint x"
  "preamble_hit (p_timings (s_params infrared_protocol_pioneer)) x \<longleftrightarrow> uint x < 8700 \<and> 8300 < uint x"
  "preamble_hit (p_timings (s_params infrared_protocol_kaseikyo)) x \<longleftrightarrow> uint x < 3656 \<and> 3256 < uint x"
  "preamble_hit (p_timings (s_params infrared_protocol_rca)) x \<longleftrightarrow> uint x < 4200 \<and> 3800 < uint x"
  by (simp_all add: preamble_hit_def MATCH_TIMING_F_def MATCH_TIMING_def infrared_protocol_nec_def
    infrared_protocol_samsung32_def infrared_protocol_rc6_def infrared_protocol_sirc_def
    infrared_protocol_pioneer_def infrared_protocol_kaseikyo_def infrared_protocol_rca_def)

lemma rc5_miss_window:
  "rc5_miss x \<longleftrightarrow> \<not> (x < 1008 \<and> 768 < x) \<and> \<not> (x < 1896 \<and> 1656 < x)"
  by (simp add: rc5_miss_def man_single_def man_double_def MATCH_TIMING_def infrared_protocol_rc5_def)

lemma row_nth:
  "row_protocols ! 0 = infrared_protocol_nec" "row_protocols ! 1 = infrared_protocol_samsung32"
  "row_protocols ! 3 = infrared_protocol_rc6" "row_protocols ! 4 = infrared_protocol_sirc"
  "row_protocols ! 5 = infrared_protocol_pioneer" "row_protocols ! 6 = infrared_protocol_kaseikyo"
  "row_protocols ! 7 = infrared_protocol_rca"
  by (simp_all add: row_protocols_def)

lemma only_for_window:
  "only_for k x \<longleftrightarrow> rc5_miss x \<and>
     (k \<noteq> 0 \<longrightarrow> \<not> (uint x < 9200 \<and> 8800 < uint x)) \<and> (k \<noteq> 1 \<longrightarrow> \<not> (uint x < 4700 \<and> 4300 < uint x)) \<and>
     (k \<noteq> 3 \<longrightarrow> \<not> (uint x < 2866 \<and> 2466 < uint x)) \<and> (k \<noteq> 4 \<longrightarrow> \<not> (uint x < 2600 \<and> 2200 < uint x)) \<and>
     (k \<noteq> 5 \<longrightarrow> \<not> (uint x < 8700 \<and> 8300 < uint x)) \<and> (k \<noteq> 6 \<longrightarrow> \<not> (uint x < 3656 \<and> 3256 < uint x)) \<and>
     (k \<noteq> 7 \<longrightarrow> \<not> (uint x < 4200 \<and> 3800 < uint x))"
  unfolding only_for_def hit_windows [symmetric] row_nth [symmetric] by auto

text \<open>The marks of a protocol: the one of its preamble and those of its bits.\<close>

definition own_marks :: "nat \<Rightarrow> infrared_timings \<Rightarrow> bool" where
  "own_marks k t \<longleftrightarrow> only_for k (ucast (preamble_mark t)) \<and>
     only_for k (pdwm_dur t True True) \<and> only_for k (pdwm_dur t True False)"

lemma own_marks_rows:
  "own_marks 0 (p_timings (s_params infrared_protocol_nec))"
  "own_marks 1 (p_timings (s_params infrared_protocol_samsung32))"
  "own_marks 4 (p_timings (s_params infrared_protocol_sirc))"
  "own_marks 5 (p_timings (s_params infrared_protocol_pioneer))"
  "own_marks 6 (p_timings (s_params infrared_protocol_kaseikyo))"
  "own_marks 7 (p_timings (s_params infrared_protocol_rca))"
  unfolding own_marks_def only_for_window rc5_miss_window
  by (simp_all add: pdwm_dur_def pdwm_nominal_def pdm_def nec_bit1_mark_def samsung_bit1_mark_def infrared_protocol_nec_def infrared_protocol_samsung32_def
    infrared_protocol_sirc_def infrared_protocol_pioneer_def infrared_protocol_kaseikyo_def infrared_protocol_rca_def)

text \<open>What \<open>carried\<close> asks, from the frame of a protocol.\<close>

lemma carriedI:
  assumes "row_protocols ! k = P" and "encoder_alloc (infrared_encoder_decoder_table ! k) = Inr (CommonEncoder e)"
    and "\<exists>e1 e2 xs. reset e m = Inr e1 \<and> ir_encode_frame enc ir_frame_fuel e1 = Inr (xs, e2) \<and>
      on_line (only_for k) False xs \<and> (\<forall>d. decoder_idle P d \<longrightarrow> (\<exists>d1 d2.
        ir_feed (infrared_common_decode P) d xs = Inr ([], d1) \<and> common_ready P d1 = Inr (Some m, d2)))"
  shows "carried k reset enc m"
  using assms unfolding carried_def by blast

lemma row_allocs:
  "encoder_alloc (infrared_encoder_decoder_table ! 0) = bindr infrared_encoder_nec_alloc (\<lambda>e. Inr (CommonEncoder e))"
  "encoder_alloc (infrared_encoder_decoder_table ! 1) = bindr infrared_encoder_samsung32_alloc (\<lambda>e. Inr (CommonEncoder e))"
  "encoder_alloc (infrared_encoder_decoder_table ! 4) = bindr infrared_encoder_sirc_alloc (\<lambda>e. Inr (CommonEncoder e))"
  "encoder_alloc (infrared_encoder_decoder_table ! 5) = bindr infrared_encoder_pioneer_alloc (\<lambda>e. Inr (CommonEncoder e))"
  "encoder_alloc (infrared_encoder_decoder_table ! 6) = bindr infrared_encoder_kaseikyo_alloc (\<lambda>e. Inr (CommonEncoder e))"
  "encoder_alloc (infrared_encoder_decoder_table ! 7) = bindr infrared_encoder_rca_alloc (\<lambda>e. Inr (CommonEncoder e))"
  by (simp_all add: infrared_encoder_decoder_table_def Let_def)

lemma row_encodes:
  "encoder_encode (infrared_encoder_decoder_table ! 0) = through_ptr as_common CommonEncoder infrared_encoder_nec_encode"
  "encoder_encode (infrared_encoder_decoder_table ! 1) = through_ptr as_common CommonEncoder infrared_encoder_samsung32_encode"
  "encoder_encode (infrared_encoder_decoder_table ! 4) = through_ptr as_common CommonEncoder infrared_encoder_sirc_encode"
  "encoder_encode (infrared_encoder_decoder_table ! 5) = through_ptr as_common CommonEncoder infrared_encoder_pioneer_encode"
  "encoder_encode (infrared_encoder_decoder_table ! 6) = through_ptr as_common CommonEncoder infrared_encoder_kaseikyo_encode"
  "encoder_encode (infrared_encoder_decoder_table ! 7) = through_ptr as_common CommonEncoder infrared_encoder_rca_encode"
  by (simp_all add: infrared_encoder_decoder_table_def Let_def)

abbreviation through_reset :: "(infrared_common_encoder \<Rightarrow> infrared_message \<Rightarrow> infrared_common_encoder res)
    \<Rightarrow> infrared_encoder_ptr \<Rightarrow> infrared_message \<Rightarrow> infrared_encoder_ptr res" where
  "through_reset r \<equiv> (\<lambda>p m. bindr (as_common p) (\<lambda>e. bindr (r e m) (\<lambda>e'. Inr (CommonEncoder e'))))"

lemma row_resets:
  "encoder_reset (infrared_encoder_decoder_table ! 0) = through_reset infrared_encoder_nec_reset"
  "encoder_reset (infrared_encoder_decoder_table ! 1) = through_reset infrared_encoder_samsung32_reset"
  "encoder_reset (infrared_encoder_decoder_table ! 4) = through_reset infrared_encoder_sirc_reset"
  "encoder_reset (infrared_encoder_decoder_table ! 5) = through_reset infrared_encoder_pioneer_reset"
  "encoder_reset (infrared_encoder_decoder_table ! 6) = through_reset infrared_encoder_kaseikyo_reset"
  "encoder_reset (infrared_encoder_decoder_table ! 7) = through_reset infrared_encoder_rca_reset"
  by (simp_all add: infrared_encoder_decoder_table_def Let_def)

lemma row_alloc:
  "encoder_alloc (infrared_encoder_decoder_table ! k) = bindr a (\<lambda>e. Inr (CommonEncoder e)) \<Longrightarrow> a = Inr e \<Longrightarrow>
   encoder_alloc (infrared_encoder_decoder_table ! k) = Inr (CommonEncoder e)"
  by simp

lemma carried_frame:
  assumes "row_protocols ! k = P" and "encoder_alloc (infrared_encoder_decoder_table ! k) = Inr (CommonEncoder e)"
    and "own_marks k (p_timings (s_params P))"
    and "\<exists>bs e1 e2. reset e m = Inr e1 \<and>
      ir_encode_frame enc ir_frame_fuel e1 = Inr (pdwm_frame (p_timings (s_params P)) bs, e2) \<and>
      (\<forall>d. decoder_idle P d \<longrightarrow> (\<exists>d1 d2.
        ir_feed (infrared_common_decode P) d (pdwm_frame (p_timings (s_params P)) bs) = Inr ([], d1) \<and>
        common_ready P d1 = Inr (Some m, d2)))"
  shows "carried k reset enc m"
  using assms(4) pdwm_frame_on_line [of "only_for k" "p_timings (s_params P)"] assms(3)
  by (intro carriedI [OF assms(1,2)]) (auto simp: own_marks_def)


lemma carried_nec: "nec_canon m \<Longrightarrow> carried 0 infrared_encoder_nec_reset infrared_encoder_nec_encode m"
proof -
  assume m: "nec_canon m"
  obtain e where e: "infrared_encoder_nec_alloc = Inr e" "encoder_alloc_ok infrared_protocol_nec e"
    using nec_allocs(1) by blast
  show ?thesis
    by (rule carried_frame [OF row_nth(1) row_alloc [OF row_allocs(1) e(1)] own_marks_rows(1)])
       (use nec.frame_understood [OF m e(2)] in \<open>simp only: nec_wrappers\<close>)
qed

lemma carried_samsung:
  "samsung_canon m \<Longrightarrow> carried 1 infrared_encoder_samsung32_reset infrared_encoder_samsung32_encode m"
proof -
  assume m: "samsung_canon m"
  obtain e where e: "infrared_encoder_samsung32_alloc = Inr e" "encoder_alloc_ok infrared_protocol_samsung32 e"
    using samsung_allocs(1) by blast
  show ?thesis
    by (rule carried_frame [OF row_nth(2) row_alloc [OF row_allocs(2) e(1)] own_marks_rows(2)])
       (use samsung.frame_understood [OF m e(2)] in \<open>simp only: samsung_wrappers\<close>)
qed

lemma carried_kaseikyo:
  "kaseikyo_canon m \<Longrightarrow> carried 6 infrared_encoder_kaseikyo_reset infrared_encoder_kaseikyo_encode m"
proof -
  assume m: "kaseikyo_canon m"
  obtain e where e: "infrared_encoder_kaseikyo_alloc = Inr e" "encoder_alloc_ok infrared_protocol_kaseikyo e"
    using kaseikyo_allocs(1) by blast
  show ?thesis
    by (rule carried_frame [OF row_nth(6) row_alloc [OF row_allocs(5) e(1)] own_marks_rows(5)])
       (use kaseikyo.frame_understood [OF m e(2)] in \<open>simp only: kaseikyo_wrappers\<close>)
qed

lemma carried_rca: "rca_canon m \<Longrightarrow> carried 7 infrared_encoder_rca_reset infrared_encoder_rca_encode m"
proof -
  assume m: "rca_canon m"
  obtain e where e: "infrared_encoder_rca_alloc = Inr e" "encoder_alloc_ok infrared_protocol_rca e"
    using rca_allocs(1) by blast
  show ?thesis
    by (rule carried_frame [OF row_nth(7) row_alloc [OF row_allocs(6) e(1)] own_marks_rows(6)])
       (use rca.frame_understood [OF m e(2)] in \<open>simp only: rca_wrappers\<close>)
qed

lemma carried_sirc: "sirc_canon m \<Longrightarrow> carried 4 infrared_encoder_sirc_reset infrared_encoder_sirc_encode m"
proof -
  assume m: "sirc_canon m"
  obtain e where e: "infrared_encoder_sirc_alloc = Inr e" "encoder_alloc_ok infrared_protocol_sirc e"
    using sirc_allocs(1) by blast
  obtain e1 e2 where r: "infrared_encoder_sirc_reset e m = Inr e1"
    and enc: "ir_encode_frame infrared_encoder_sirc_encode ir_frame_fuel e1 =
      Inr (pdwm_frame sirc_T (data_bits (e_data e1) (sirc_len m)), e2)"
    using sirc_first_frame [OF m e(2)] by metis
  have "data_bits (e_data e1) (sirc_len m) \<noteq> []"
    using databit_len_found_pos [OF sirc.len_found [OF m]] by (metis length_data_bits length_greater_0_conv)
  then have "\<forall>d. decoder_idle infrared_protocol_sirc d \<longrightarrow> (\<exists>d1 d2.
    ir_feed (infrared_common_decode infrared_protocol_sirc) d (pdwm_frame sirc_T (data_bits (e_data e1) (sirc_len m))) =
       Inr ([], d1) \<and> common_ready infrared_protocol_sirc d1 = Inr (Some m, d2))"
    using sirc.signal_understood [OF m e(2) r _ sirc.frame_ok] by blast
  with r enc show ?thesis
    by (intro carried_frame [OF row_nth(4) row_alloc [OF row_allocs(3) e(1)] own_marks_rows(3)]) blast
qed

lemma carried_pioneer:
  "pioneer_canon m \<Longrightarrow> carried 5 infrared_encoder_pioneer_reset infrared_encoder_pioneer_encode m"
proof -
  assume m: "pioneer_canon m"
  obtain e where e: "infrared_encoder_pioneer_alloc = Inr e" "encoder_alloc_ok infrared_protocol_pioneer e"
    using pioneer_allocs(1) by blast
  from pioneer.packed [OF m e(2)] obtain e1 where r: "infrared_encoder_pioneer_reset e m = Inr e1"
    and ready: "encoder_ready 33 (e_data e1) e1" and "encoder_alloc_ok infrared_protocol_pioneer e1"
    by (auto simp: packs_def)
  then have "length (e_data e1) = 41"
    by (simp add: encoder_alloc_ok_def bytes_for_bits_def encoder_extra_bytes_def)
  from pioneer_frame_sent [OF ready this] obtain e2 where
    enc: "ir_encode_frame infrared_encoder_pioneer_encode ir_frame_fuel e1 =
      Inr (pioneer_frame (data_bits (e_data e1) 33), e2)" by blast
  have own: "\<exists>d1 d2. ir_feed (infrared_common_decode infrared_protocol_pioneer) d (pioneer_frame (data_bits (e_data e1) 33)) = Inr ([], d1) \<and>
      common_ready infrared_protocol_pioneer d1 = Inr (Some m, d2)"
    if d: "decoder_idle infrared_protocol_pioneer d" for d
  proof -
    from pioneer_frame_received [OF d, of "data_bits (e_data e1) 33"] obtain d1 where
      "ir_feed (infrared_common_decode infrared_protocol_pioneer) d (pioneer_frame (data_bits (e_data e1) 33)) = Inr ([], d1)"
      and d1: "receiving infrared_protocol_pioneer (data_bits (e_data e1) 33) False d1" by auto
    with pioneer.ready_message [OF m e(2) r d1] show ?thesis by blast
  qed
  have "on_line (only_for 5) False (pioneer_frame (data_bits (e_data e1) 33))"
    using own_marks_rows(4) by (intro pioneer_frame_on_line) (simp_all only: own_marks_def)
  with r enc own show ?thesis
    by (intro carriedI [OF row_nth(5) row_alloc [OF row_allocs(4) e(1)]]) blast
qed

section \<open>A message through the facade\<close>

definition facade_canon :: "infrared_message \<Rightarrow> bool" where
  "facade_canon m \<longleftrightarrow> nec_canon m \<or> samsung_canon m \<or> sirc_canon m \<or> pioneer_canon m \<or> kaseikyo_canon m \<or> rca_canon m"

text \<open>
  C1: whichever of the six protocols a canonical message belongs to, the facade sends it with the
  right encoder, and the freshly allocated decoder handler, all eight decoders listening to the
  same signal, reports nothing while the signal lasts and then exactly this message: no other
  protocol mistakes it for one of its own.
\<close>

theorem facade_transfer:
  assumes "facade_canon m"
  shows "bindr infrared_alloc_decoder (\<lambda>h. ir_transfer infrared_reset_encoder infrared_encode infrared_decode
     infrared_check_decoder_ready infrared_alloc_encoder h m) = Inr ([], Some m)"
proof -
  consider "nec_canon m" | "samsung_canon m" | "sirc_canon m" | "pioneer_canon m" | "kaseikyo_canon m" | "rca_canon m"
    using assms by (auto simp: facade_canon_def)
  then show ?thesis
  proof cases
    case 1
    then have "infrared_find_index_by_protocol (m_protocol m) = int 0"
      by (cases "m_protocol m") (simp_all add: nec_canon_def find_index protocol_row_def)
    from facade_carries [OF carried_nec [OF 1] _ this row_encodes(1) row_resets(1) encodes_no_error(1)] show ?thesis by simp
  next
    case 2
    then have "infrared_find_index_by_protocol (m_protocol m) = int 1"
      by (cases "m_protocol m") (simp_all add: samsung_canon_def find_index protocol_row_def)
    from facade_carries [OF carried_samsung [OF 2] _ this row_encodes(2) row_resets(2) encodes_no_error(2)] show ?thesis by simp
  next
    case 3
    then have "infrared_find_index_by_protocol (m_protocol m) = int 4"
      by (cases "m_protocol m") (simp_all add: sirc_canon_def find_index protocol_row_def)
    from facade_carries [OF carried_sirc [OF 3] _ this row_encodes(3) row_resets(3) encodes_no_error(3)] show ?thesis by simp
  next
    case 4
    then have "infrared_find_index_by_protocol (m_protocol m) = int 5"
      by (cases "m_protocol m") (simp_all add: pioneer_canon_def find_index protocol_row_def)
    from facade_carries [OF carried_pioneer [OF 4] _ this row_encodes(4) row_resets(4) encodes_no_error(4)] show ?thesis by simp
  next
    case 5
    then have "infrared_find_index_by_protocol (m_protocol m) = int 6"
      by (cases "m_protocol m") (simp_all add: kaseikyo_canon_def find_index protocol_row_def)
    from facade_carries [OF carried_kaseikyo [OF 5] _ this row_encodes(5) row_resets(5) encodes_no_error(5)] show ?thesis by simp
  next
    case 6
    then have "infrared_find_index_by_protocol (m_protocol m) = int 7"
      by (cases "m_protocol m") (simp_all add: rca_canon_def find_index protocol_row_def)
    from facade_carries [OF carried_rca [OF 6] _ this row_encodes(6) row_resets(6) encodes_no_error(6)] show ?thesis by simp
  qed
qed

theorem facade_transfer_witness:
  "bindr infrared_alloc_decoder (\<lambda>h. ir_transfer infrared_reset_encoder infrared_encode infrared_decode
     infrared_check_decoder_ready infrared_alloc_encoder h sirc_example) = Inr ([], Some sirc_example)"
  by (rule facade_transfer) (simp add: facade_canon_def sirc_canon_def sirc_example_def sirc_len_def fits_def)

end
