(* ===== verification/Bytes.thy ===== *)
theory Bytes
  imports Prelude
begin

text \<open>
  What the byte-level libraries share: counted loops with faults, the view of a byte buffer as a
  sequence of bits with the most significant bit of byte 0 first, and words read from such a
  sequence. The contract of a bit store, which both the bit library and the radio's block encoder
  provide, is stated as a locale.
\<close>

lemma bindr_eq_Inl: "bindr m f = Inl e \<longleftrightarrow> m = Inl e \<or> (\<exists>x. m = Inr x \<and> f x = Inl e)"
  by (cases m) auto

section \<open>Counted loops\<close>

text \<open>\<open>for_each f [a..<b]\<close> is the loop over \<open>i = a, ..., b - 1\<close> whose body is \<open>f i\<close>; the first fault ends it.\<close>

fun for_each :: "('a \<Rightarrow> 's \<Rightarrow> 's res) \<Rightarrow> 'a list \<Rightarrow> 's \<Rightarrow> 's res" where
  "for_each f [] s = Inr s"
| "for_each f (x # xs) s = bindr (f x s) (for_each f xs)"

lemma for_each_append: "for_each f (xs @ ys) s = bindr (for_each f xs s) (for_each f ys)"
  by (induction xs arbitrary: s) (simp_all add: bindr_def split: sum.split)

lemma for_each_Suc: "for_each f [0..<Suc n] s = bindr (for_each f [0..<n] s) (f n)"
proof -
  have "for_each f [n] = f n" by (auto simp: bindr_def split: sum.split)
  then show ?thesis by (simp add: for_each_append)
qed

lemma for_each_cong [fundef_cong]:
  "xs = ys \<Longrightarrow> s = t \<Longrightarrow> (\<And>x u. x \<in> set ys \<Longrightarrow> f x u = g x u) \<Longrightarrow> for_each f xs s = for_each g ys t"
  by (induction xs arbitrary: ys s t) (auto cong: bindr_cong)

lemma for_each_pure: "for_each (\<lambda>x s. Inr (f x s)) xs s = Inr (foldl (\<lambda>s x. f x s) s xs)"
  by (induction xs arbitrary: s) simp_all

lemma for_each_Inl: "for_each f xs s = Inl e \<Longrightarrow> \<exists>x t. f x t = Inl e"
  by (induction xs arbitrary: s) (auto simp: bindr_def split: sum.splits)

lemma for_each_post:
  "for_each f xs s = Inr t \<Longrightarrow> P s \<Longrightarrow> (\<And>x u v. x \<in> set xs \<Longrightarrow> f x u = Inr v \<Longrightarrow> P u \<Longrightarrow> P v) \<Longrightarrow> P t"
proof (induction xs arbitrary: s)
  case (Cons x xs)
  then obtain u where u: "f x s = Inr u" "for_each f xs u = Inr t" by (auto simp: bindr_eq_Inr)
  show ?case by (rule Cons.IH [OF u(2)]) (use Cons.prems u(1) in auto)
qed simp

text \<open>An invariant indexed by the number of turns.\<close>

lemma for_each_inv:
  assumes "I 0 s" and "\<And>i s. i < n \<Longrightarrow> I i s \<Longrightarrow> \<exists>t. f i s = Inr t \<and> I (Suc i) t"
  shows "\<exists>t. for_each f [0..<n] s = Inr t \<and> I n t"
  using assms(2)
proof (induction n)
  case 0
  then show ?case using assms(1) by simp
next
  case (Suc n)
  then obtain t where "for_each f [0..<n] s = Inr t" "I n t" by (metis less_SucI)
  with Suc.prems [of n t] show ?case by (simp add: for_each_Suc del: upt_Suc)
qed

section \<open>Most significant bit first\<close>

definition msb_bit :: "u8 list \<Rightarrow> nat \<Rightarrow> bool" where
  "msb_bit xs i = bit (xs ! (i div 8)) (7 - i mod 8)"

definition msb_bits :: "u8 list \<Rightarrow> nat \<Rightarrow> nat \<Rightarrow> bool list" where
  "msb_bits xs pos n = map (\<lambda>i. msb_bit xs (pos + i)) [0..<n]"

lemma length_msb_bits [simp]: "length (msb_bits xs pos n) = n"
  by (simp add: msb_bits_def)

lemma nth_msb_bits [simp]: "i < n \<Longrightarrow> msb_bits xs pos n ! i = msb_bit xs (pos + i)"
  by (simp add: msb_bits_def)

lemma msb_bits_add: "msb_bits xs pos (m + n) = msb_bits xs pos m @ msb_bits xs (pos + m) n"
  by (rule nth_equalityI) (auto simp: nth_append ac_simps)

lemma msb_bits_eq_iff: "msb_bits xs pos n = msb_bits ys pos' n \<longleftrightarrow> (\<forall>i<n. msb_bit xs (pos + i) = msb_bit ys (pos' + i))"
  by (auto simp: list_eq_iff_nth_eq)

text \<open>A buffer is determined by its bits.\<close>

lemma msb_bit_ext:
  assumes "length xs = length ys" and "\<And>i. i < 8 * length xs \<Longrightarrow> msb_bit xs i = msb_bit ys i"
  shows "xs = ys"
proof (rule nth_equalityI)
  fix k assume k: "k < length xs"
  show "xs ! k = ys ! k"
  proof (rule bit_word_eqI)
    fix j assume "j < LENGTH(8)"
    then obtain r where r: "r < 8" "j = 7 - r" by (intro that [of "7 - j"]) simp_all
    then have "8 * k + r < 8 * length xs" "(8 * k + r) div 8 = k" "(8 * k + r) mod 8 = r"
      using k by simp_all
    with assms(2) [of "8 * k + r"] r show "bit (xs ! k) j = bit (ys ! k) j" by (simp add: msb_bit_def)
  qed
qed (rule assms(1))

text \<open>The word whose bits are those of a list, the first one most significant.\<close>

definition word_of_bits :: "bool list \<Rightarrow> 'a::len word" where
  "word_of_bits bs = foldl (\<lambda>w b. push_bit 1 w OR of_bool b) 0 bs"

lemma word_of_bits_snoc: "word_of_bits (bs @ [b]) = push_bit 1 (word_of_bits bs) OR of_bool b"
  by (simp add: word_of_bits_def)

lemma word_of_bits_Nil [simp]: "word_of_bits [] = 0"
  by (simp add: word_of_bits_def)

lemma bit_shift_in:
  "bit (push_bit 1 w OR of_bool b) j \<longleftrightarrow> j < LENGTH('a) \<and> (if j = 0 then b else bit w (j - 1))" for w :: "'a::len word"
  unfolding bit_or_iff bit_push_bit_iff bit_of_bool_iff by (cases j) (auto simp: possible_bit_def)

lemma bit_word_of_bits:
  "bit (word_of_bits bs :: 'a::len word) j \<longleftrightarrow> j < LENGTH('a) \<and> j < length bs \<and> bs ! (length bs - 1 - j)"
proof (induction bs arbitrary: j rule: rev_induct)
  case Nil
  then show ?case by simp
next
  case (snoc b bs)
  show ?case
    unfolding word_of_bits_snoc bit_shift_in using snoc [of "j - 1"] by (cases j) (auto simp: nth_append)
qed

lemma word_of_bits_append:
  "word_of_bits (xs @ ys) = (push_bit (length ys) (word_of_bits xs) OR word_of_bits ys :: 'a::len word)"
  by (rule bit_word_eqI) (auto simp: bit_simps bit_word_of_bits nth_append possible_bit_def)

lemma ucast_word_of_bits:
  "length bs \<le> LENGTH('b) \<Longrightarrow> ucast (word_of_bits bs :: 'b::len word) = (word_of_bits bs :: 'a::len word)"
  by (rule bit_word_eqI) (auto simp: bit_simps bit_word_of_bits)

section \<open>Single bits and parities\<close>

lemma drop_and_one: "drop_bit i w AND 1 = of_bool (bit w i)" for w :: "'a::len word"
  by (simp add: bit_iff_odd_drop_bit and_one_eq odd_iff_mod_2_eq_one)

lemma odd_word_add: "odd (v + w) \<longleftrightarrow> odd v \<noteq> odd w" for v w :: "'a::len word"
  by (simp add: even_add)

definition parity_of :: "bool list \<Rightarrow> bool" where
  "parity_of bs = odd (count_list bs True)"

lemma parity_of_append: "parity_of (xs @ ys) = (parity_of xs \<noteq> parity_of ys)"
  by (simp add: parity_of_def)

lemma parity_of_simps [simp]: "parity_of [] = False" "parity_of (b # bs) = (b \<noteq> parity_of bs)"
  by (simp_all add: parity_of_def)

lemma parity_of_rev: "parity_of (rev bs) = parity_of bs"
  by (induction bs) (auto simp: parity_of_append)

text \<open>A counter of bits in a word: its lowest bit is their parity.\<close>

lemma parity_sum:
  "odd (foldl (\<lambda>s j. s + ucast (drop_bit (f j) w AND 1)) s js) \<longleftrightarrow> odd s \<noteq> parity_of (map (\<lambda>j. bit w (f j)) js)"
  for w :: "'a::len word" and s :: "'b::len word"
proof (induction js arbitrary: s)
  case (Cons j js)
  have "odd (ucast (drop_bit (f j) w AND 1) :: 'b word) = bit w (f j)" unfolding drop_and_one by (cases "bit w (f j)") simp_all
  then show ?case using Cons.IH [of "s + ucast (drop_bit (f j) w AND 1)"] by (auto simp: odd_word_add)
qed simp

section \<open>The contract of a bit store\<close>

text \<open>
  A store of \<open>size s\<close> bits with \<open>get\<close> and \<open>put\<close>: what a client may rely on. A run of consecutive
  writes of values that are known beforehand changes exactly the bits of its range.
\<close>

locale bit_store =
  fixes get :: "'s \<Rightarrow> nat \<Rightarrow> bool res"
    and put :: "'s \<Rightarrow> nat \<Rightarrow> bool \<Rightarrow> 's res"
    and size_of :: "'s \<Rightarrow> nat"
    and val :: "'s \<Rightarrow> nat \<Rightarrow> bool"
  assumes get_inside: "i < size_of s \<Longrightarrow> get s i = Inr (val s i)"
    and put_inside: "i < size_of s \<Longrightarrow>
      \<exists>t. put s i b = Inr t \<and> size_of t = size_of s \<and> (\<forall>j < size_of s. val t j = (if j = i then b else val s j))"
begin

lemma put_get:
  assumes "i < size_of s" and "j < size_of s"
  shows "bindr (put s i b) (\<lambda>t. get t j) = Inr (if j = i then b else val s j)"
  using put_inside [OF assms(1), of b] assms by (auto simp: get_inside)

lemma write_run:
  assumes "pos + n \<le> size_of s"
  shows "\<exists>t. for_each (\<lambda>i s. put s (pos + i) (g i)) [0..<n] s = Inr t \<and> size_of t = size_of s \<and>
     (\<forall>j < size_of s. val t j = (if pos \<le> j \<and> j < pos + n then g (j - pos) else val s j))"
proof -
  have "\<exists>t. for_each (\<lambda>i s. put s (pos + i) (g i)) [0..<n] s = Inr t \<and> (size_of t = size_of s \<and>
     (\<forall>j < size_of s. val t j = (if pos \<le> j \<and> j < pos + n then g (j - pos) else val s j)))"
  proof (rule for_each_inv)
    fix i u assume i: "i < n" and u: "size_of u = size_of s \<and>
      (\<forall>j < size_of s. val u j = (if pos \<le> j \<and> j < pos + i then g (j - pos) else val s j))"
    then obtain t where t: "put u (pos + i) (g i) = Inr t" "size_of t = size_of u"
      "\<forall>j < size_of u. val t j = (if j = pos + i then g i else val u j)"
      using assms put_inside [of "pos + i" u "g i"] by auto
    moreover have "\<forall>j < size_of s. val t j = (if pos \<le> j \<and> j < pos + Suc i then g (j - pos) else val s j)"
      using t(3) u by auto
    ultimately show "\<exists>t. put u (pos + i) (g i) = Inr t \<and> size_of t = size_of s \<and>
      (\<forall>j < size_of s. val t j = (if pos \<le> j \<and> j < pos + Suc i then g (j - pos) else val s j))"
      using u by auto
  qed auto
  then show ?thesis by blast
qed

lemma read_run:
  assumes "pos + n \<le> size_of s"
  shows "for_each (\<lambda>i bs. bindr (get s (pos + i)) (\<lambda>b. Inr (bs @ [b]))) [0..<n] [] = Inr (map (\<lambda>i. val s (pos + i)) [0..<n])"
  using assms by (induction n) (simp_all add: for_each_Suc get_inside del: upt_Suc, simp)

end

end
