(* ===== verification/Bit_Lib.thy ===== *)
theory Bit_Lib
  imports Bytes
begin

text \<open>
  The bit library (\<^verbatim>\<open>lib/bit_lib/bit_lib.c\<close>): bits of a byte array, most significant bit
  first, with parity, reversal, checksums and conversions. Arrays are lists, positions and sizes
  (\<^verbatim>\<open>size_t\<close>) are naturals: a position that wrapped at \<open>2 ^ 32\<close> would lie behind the end of any
  array that fits the memory, so an access out of bounds comes first. The lengths in \<^verbatim>\<open>uint8_t\<close>
  are words of 8 bits; where a check refuses a length above 8 or 9, or shifting by it is undefined,
  they are naturals too.
\<close>

section \<open>Single bits\<close>

text \<open>\<open>n - 1\<close> on \<^verbatim>\<open>size_t\<close>.\<close>

definition size_pred :: "nat \<Rightarrow> nat" where
  "size_pred n = (if n = 0 then 2 ^ 32 - 1 else n - 1)"

definition bit_lib_push_bit :: "u8 list \<Rightarrow> nat \<Rightarrow> bool \<Rightarrow> u8 list res" where
  "bit_lib_push_bit data data_size b =
     (let last_index = size_pred data_size in
      bindr (for_each (\<lambda>i d. bindr (list_get d i) (\<lambda>x. bindr (list_get d (i + 1)) (\<lambda>y.
               list_set d i (push_bit 1 x OR (drop_bit 7 y AND 1))))) [0..<last_index] data) (\<lambda>d.
      bindr (list_get d last_index) (\<lambda>x. list_set d last_index (push_bit 1 x OR of_bool b))))"

definition bit_lib_set_bit :: "u8 list \<Rightarrow> nat \<Rightarrow> bool \<Rightarrow> u8 list res" where
  "bit_lib_set_bit data position b =
     bindr (list_get data (position div 8)) (\<lambda>x.
       list_set data (position div 8)
         (if b then x OR push_bit (7 - position mod 8) 1 else x AND NOT (push_bit (7 - position mod 8) 1)))"

definition bit_lib_set_bits :: "u8 list \<Rightarrow> nat \<Rightarrow> u8 \<Rightarrow> nat \<Rightarrow> u8 list res" where
  "bit_lib_set_bits data position byte len =
     bindr (furi_check (len \<le> 8)) (\<lambda>_. bindr (furi_check (len > 0)) (\<lambda>_.
       for_each (\<lambda>i d. bit_lib_set_bit d (position + i) (drop_bit (len - 1 - i) byte AND 1 \<noteq> 0)) [0..<len] data))"

definition bit_lib_get_bit :: "u8 list \<Rightarrow> nat \<Rightarrow> bool res" where
  "bit_lib_get_bit data position =
     bindr (list_get data (position div 8)) (\<lambda>x. Inr (drop_bit (7 - position mod 8) x AND 1 \<noteq> 0))"

section \<open>Groups of bits\<close>

text \<open>A shift by a negative amount (\<open>len > 8\<close>) is undefined.\<close>

definition bit_lib_get_bits :: "u8 list \<Rightarrow> nat \<Rightarrow> nat \<Rightarrow> u8 res" where
  "bit_lib_get_bits data position len =
     (let shift = position mod 8 in
      if shift = 0
      then bindr (list_get data (position div 8)) (\<lambda>x.
             if len \<le> 8 then Inr (drop_bit (8 - len) x) else Inl UndefinedArith)
      else bindr (list_get data (position div 8)) (\<lambda>x.
           bindr (list_get data (position div 8 + 1)) (\<lambda>y.
           let val = push_bit shift x OR drop_bit (8 - shift) y in
           if len \<le> 8 then Inr (drop_bit (8 - len) val) else Inl UndefinedArith)))"

text \<open>\<open>value |= bit_lib_get_bits(data, position + offset, n) << shift\<close> for a sequence of \<open>(offset, n, shift)\<close>.\<close>

fun or_bits :: "u8 list \<Rightarrow> nat \<Rightarrow> (nat \<times> nat \<times> nat) list \<Rightarrow> 'a::len word res" where
  "or_bits data position [] = Inr 0"
| "or_bits data position ((offset, n, shift) # cs) =
     bindr (bit_lib_get_bits data (position + offset) n) (\<lambda>x.
     bindr (or_bits data position cs) (\<lambda>v. Inr (push_bit shift (ucast x) OR v)))"

definition bit_lib_get_bits_16 :: "u8 list \<Rightarrow> nat \<Rightarrow> nat \<Rightarrow> u16 res" where
  "bit_lib_get_bits_16 data position len =
     (if len \<le> 8 then or_bits data position [(0, len, 0)]
      else or_bits data position [(0, 8, len - 8), (8, len - 8, 0)])"

definition bit_lib_get_bits_32 :: "u8 list \<Rightarrow> nat \<Rightarrow> nat \<Rightarrow> u32 res" where
  "bit_lib_get_bits_32 data position len =
     (if len \<le> 8 then or_bits data position [(0, len, 0)]
      else if len \<le> 16 then or_bits data position [(0, 8, len - 8), (8, len - 8, 0)]
      else if len \<le> 24 then or_bits data position [(0, 8, len - 8), (8, 8, len - 16), (16, len - 16, 0)]
      else or_bits data position [(0, 8, len - 8), (8, 8, len - 16), (16, 8, len - 24), (24, len - 24, 0)])"

definition bit_lib_get_bits_64 :: "u8 list \<Rightarrow> nat \<Rightarrow> nat \<Rightarrow> u64 res" where
  "bit_lib_get_bits_64 data position len =
     (if len \<le> 8 then or_bits data position [(0, len, 0)]
      else if len \<le> 16 then or_bits data position [(0, 8, len - 8), (8, len - 8, 0)]
      else if len \<le> 24 then or_bits data position [(0, 8, len - 8), (8, 8, len - 16), (16, len - 16, 0)]
      else if len \<le> 32 then or_bits data position
        [(0, 8, len - 8), (8, 8, len - 16), (16, 8, len - 24), (24, len - 24, 0)]
      else if len \<le> 40 then or_bits data position
        [(0, 8, len - 8), (8, 8, len - 16), (16, 8, len - 24), (24, 8, len - 32), (32, len - 32, 0)]
      else if len \<le> 48 then or_bits data position
        [(0, 8, len - 8), (8, 8, len - 16), (16, 8, len - 24), (24, 8, len - 32), (32, 8, len - 40),
         (40, len - 40, 0)]
      else if len \<le> 56 then or_bits data position
        [(0, 8, len - 8), (8, 8, len - 16), (16, 8, len - 24), (24, 8, len - 32), (32, 8, len - 40),
         (40, 8, len - 48), (48, len - 48, 0)]
      else or_bits data position
        [(0, 8, len - 8), (8, 8, len - 16), (16, 8, len - 24), (24, 8, len - 32), (32, 8, len - 40),
         (40, 8, len - 48), (48, 8, len - 56), (56, len - 56, 0)])"

section \<open>Parity\<close>

datatype bit_lib_parity = BitLibParityEven | BitLibParityOdd | BitLibParityAlways0 | BitLibParityAlways1

text \<open>\<^verbatim>\<open>__builtin_popcountl\<close>, and \<^verbatim>\<open>__builtin_parity\<close>, its lowest bit.\<close>

definition popcount :: "'a::len word \<Rightarrow> nat" where
  "popcount w = length (filter (bit w) [0..<LENGTH('a)])"

definition bit_lib_get_bit_count :: "u32 \<Rightarrow> nat" where
  "bit_lib_get_bit_count data = popcount data"

fun bit_lib_test_parity_32 :: "u32 \<Rightarrow> bit_lib_parity \<Rightarrow> bool res" where
  "bit_lib_test_parity_32 bits BitLibParityEven = Inr (odd (popcount bits))"
| "bit_lib_test_parity_32 bits BitLibParityOdd = Inr (\<not> odd (popcount bits))"
| "bit_lib_test_parity_32 bits _ = Inl FuriCrash"

definition test_parity_block :: "u8 list \<Rightarrow> nat \<Rightarrow> bit_lib_parity \<Rightarrow> nat \<Rightarrow> bool res" where
  "test_parity_block bits pos parity parity_length =
     (case parity of
        BitLibParityAlways0 \<Rightarrow> bindr (bit_lib_get_bit bits (pos + parity_length - 1)) (\<lambda>b. Inr (\<not> b))
      | BitLibParityAlways1 \<Rightarrow> bit_lib_get_bit bits (pos + parity_length - 1)
      | _ \<Rightarrow> bindr (bit_lib_get_bits_32 bits pos parity_length) (\<lambda>block. bit_lib_test_parity_32 block parity))"

definition bit_lib_test_parity :: "u8 list \<Rightarrow> nat \<Rightarrow> u8 \<Rightarrow> bit_lib_parity \<Rightarrow> u8 \<Rightarrow> bool res" where
  "bit_lib_test_parity bits position len parity parity_length =
     (if parity_length = 0 then Inl UndefinedArith
      else for_each (\<lambda>i result.
             if result then test_parity_block bits (position + i * unat parity_length) parity (unat parity_length)
             else Inr result) [0..<unat len div unat parity_length] True)"

text \<open>
  \<^verbatim>\<open>bit_lib_add_parity\<close>: \<open>word\<close> is an \<^verbatim>\<open>int\<close> that advances by \<open>parity_length - 1\<close>, the lengths
  are promoted to \<^verbatim>\<open>int\<close>. With a \<open>parity_length\<close> of 0 or 1 the outer loop of the source does not
  end by its condition; each turn writes one more bit, so that here the first write behind the
  destination ends it. The fuel, the bits of the destination, is always enough.
\<close>

definition parity_bit :: "u32 \<Rightarrow> bit_lib_parity \<Rightarrow> bool res" where
  "parity_bit parity_word parity =
     (case parity of
        BitLibParityAlways0 \<Rightarrow> Inr False
      | BitLibParityAlways1 \<Rightarrow> Inr True
      | _ \<Rightarrow> bindr (bit_lib_test_parity_32 parity_word BitLibParityOdd) (\<lambda>t.
               Inr ((t \<noteq> (parity = BitLibParityOdd)) \<noteq> True)))"

definition copy_parity_bits :: "u8 list \<Rightarrow> nat \<Rightarrow> int \<Rightarrow> nat \<Rightarrow> u8 list \<times> nat \<Rightarrow> nat \<Rightarrow> (u32 \<times> u8 list \<times> nat) res" where
  "copy_parity_bits data position word dest_position dj parity_length =
     for_each (\<lambda>b (w, dest, j).
         bindr (bit_lib_get_bit data (nat (int position + word + int b))) (\<lambda>x.
         bindr (bit_lib_set_bit dest (dest_position + j) x) (\<lambda>dest.
           Inr (push_bit 1 w OR of_bool x, dest, j + 1)))) [0..<parity_length - 1] (0, dj)"

fun add_parity_loop :: "nat \<Rightarrow> u8 list \<Rightarrow> nat \<Rightarrow> u8 list \<Rightarrow> nat \<Rightarrow> nat \<Rightarrow> nat \<Rightarrow> bit_lib_parity \<Rightarrow> int \<Rightarrow> nat \<Rightarrow> nat
    \<Rightarrow> (nat \<times> u8 list) res" where
  "add_parity_loop 0 data position dest dest_position source_length parity_length parity word j bit_count = Inl OutOfFuel"
| "add_parity_loop (Suc fuel) data position dest dest_position source_length parity_length parity word j bit_count =
     (if word < int source_length
      then bindr (copy_parity_bits data position word dest_position (dest, j) parity_length) (\<lambda>(parity_word, dest, j).
           bindr (parity_bit parity_word parity) (\<lambda>p.
           bindr (bit_lib_set_bit dest (dest_position + j) p) (\<lambda>dest.
             add_parity_loop fuel data position dest dest_position source_length parity_length parity
               (word + int parity_length - 1) (j + 1) (bit_count + parity_length))))
      else Inr (bit_count, dest))"

definition bit_lib_add_parity :: "u8 list \<Rightarrow> nat \<Rightarrow> u8 list \<Rightarrow> nat \<Rightarrow> u8 \<Rightarrow> u8 \<Rightarrow> bit_lib_parity \<Rightarrow> (nat \<times> u8 list) res" where
  "bit_lib_add_parity data position dest dest_position source_length parity_length parity =
     add_parity_loop (8 * length dest + 2) data position dest dest_position (unat source_length) (unat parity_length) parity 0 0 0"

section \<open>Moving bits\<close>

text \<open>The state of the loop: the array, the bits already written, the bits collected and their number.\<close>

definition remove_step :: "nat \<Rightarrow> nat \<Rightarrow> nat \<Rightarrow> u8 list \<times> nat \<times> u8 \<times> nat \<Rightarrow> (u8 list \<times> nat \<times> u8 \<times> nat) res" where
  "remove_step position n counter s =
     (let (data, result_counter, bit_buffer, bit_counter) = s in
      bindr (if (counter + 1) mod n \<noteq> 0
             then bindr (bit_lib_get_bit data (position + counter)) (\<lambda>b.
                    Inr (push_bit 1 bit_buffer OR of_bool b, bit_counter + 1))
             else Inr (bit_buffer, bit_counter)) (\<lambda>(bit_buffer, bit_counter).
      if bit_counter = 8
      then bindr (bit_lib_set_bits data (position + result_counter) bit_buffer 8) (\<lambda>data.
             Inr (data, result_counter + 8, 0, 0))
      else Inr (data, result_counter, bit_buffer, bit_counter)))"

definition bit_lib_remove_bit_every_nth :: "u8 list \<Rightarrow> nat \<Rightarrow> u8 \<Rightarrow> u8 \<Rightarrow> (nat \<times> u8 list) res" where
  "bit_lib_remove_bit_every_nth data position len n =
     (if n = 0 \<and> len > 0 then Inl UndefinedArith
      else bindr (for_each (remove_step position (unat n)) [0..<unat len] (data, 0, 0, 0))
        (\<lambda>(data, result_counter, bit_buffer, bit_counter).
           if bit_counter \<noteq> 0
           then bindr (bit_lib_set_bits data (position + result_counter) bit_buffer bit_counter) (\<lambda>data.
                  Inr (result_counter + bit_counter, data))
           else Inr (result_counter, data)))"

definition bit_lib_copy_bits :: "u8 list \<Rightarrow> nat \<Rightarrow> nat \<Rightarrow> u8 list \<Rightarrow> nat \<Rightarrow> u8 list res" where
  "bit_lib_copy_bits data position len source source_position =
     for_each (\<lambda>i d. bindr (bit_lib_get_bit source (source_position + i)) (\<lambda>b.
       bit_lib_set_bit d (position + i) b)) [0..<len] data"

text \<open>
  For a length of 0 the second index starts at \<^verbatim>\<open>SIZE_MAX\<close> and the loop leaves the array.
\<close>

function reverse_bits_loop :: "u8 list \<Rightarrow> nat \<Rightarrow> nat \<Rightarrow> nat \<Rightarrow> u8 list res" where
  "reverse_bits_loop data position i j =
     (if i < j
      then bindr (bit_lib_get_bit data (position + i)) (\<lambda>tmp.
           bindr (bit_lib_get_bit data (position + j)) (\<lambda>b.
           bindr (bit_lib_set_bit data (position + i) b) (\<lambda>data.
           bindr (bit_lib_set_bit data (position + j) tmp) (\<lambda>data.
             reverse_bits_loop data position (i + 1) (j - 1)))))
      else Inr data)"
  by pat_completeness auto
termination by (relation "measure (\<lambda>(_, _, i, j). j - i)") auto

declare reverse_bits_loop.simps [simp del]

definition bit_lib_reverse_bits :: "u8 list \<Rightarrow> nat \<Rightarrow> u8 \<Rightarrow> u8 list res" where
  "bit_lib_reverse_bits data position len = reverse_bits_loop data position 0 (size_pred (unat len))"

section \<open>Output\<close>

text \<open>What the printing functions send to the console.\<close>

definition bit_lib_print_bits :: "u8 list \<Rightarrow> nat \<Rightarrow> string res" where
  "bit_lib_print_bits data len =
     for_each (\<lambda>i out. bindr (bit_lib_get_bit data i) (\<lambda>b. Inr (out @ (if b then ''1'' else ''0'')))) [0..<len] []"

record bit_lib_region =
  r_mark :: char
  r_start :: nat
  r_length :: nat

definition in_region :: "nat \<Rightarrow> bit_lib_region \<Rightarrow> bool" where
  "in_region c r \<longleftrightarrow> r_start r \<le> c \<and> c < r_start r + r_length r"

definition newline :: string where
  "newline = [CHR 0x0D, CHR 0x0A]"

definition bit_lib_print_regions :: "bit_lib_region list \<Rightarrow> u8 list \<Rightarrow> nat \<Rightarrow> string res" where
  "bit_lib_print_regions regions data len =
     bindr (bit_lib_print_bits data len) (\<lambda>bits.
     let marks = map (\<lambda>c. case find (in_region c) regions of Some r \<Rightarrow> r_mark r | None \<Rightarrow> CHR '' '') [0..<len] in
     bindr (for_each (\<lambda>c out. case find (in_region c) regions of
              Some r \<Rightarrow> bindr (bit_lib_get_bit data c) (\<lambda>b. Inr (out @ (if b then ''1'' else ''0'')))
            | None \<Rightarrow> Inr (out @ '' '')) [0..<len] []) (\<lambda>region_data.
       Inr (bits @ newline @ marks @ newline @ region_data @ newline)))"

section \<open>Reversal of words, checksums\<close>

definition bit_lib_reverse_16_fast :: "u16 \<Rightarrow> u16" where
  "bit_lib_reverse_16_fast data =
     drop_bit 15 (data AND 0x8000) OR drop_bit 13 (data AND 0x4000) OR
     drop_bit 11 (data AND 0x2000) OR drop_bit 9 (data AND 0x1000) OR
     drop_bit 7 (data AND 0x0800) OR drop_bit 5 (data AND 0x0400) OR
     drop_bit 3 (data AND 0x0200) OR drop_bit 1 (data AND 0x0100) OR
     push_bit 1 (data AND 0x0080) OR push_bit 3 (data AND 0x0040) OR
     push_bit 5 (data AND 0x0020) OR push_bit 7 (data AND 0x0010) OR
     push_bit 9 (data AND 0x0008) OR push_bit 11 (data AND 0x0004) OR
     push_bit 13 (data AND 0x0002) OR push_bit 15 (data AND 0x0001)"

definition bit_lib_reverse_8_fast :: "u8 \<Rightarrow> u8" where
  "bit_lib_reverse_8_fast byte =
     (let byte = drop_bit 4 (byte AND 0xF0) OR push_bit 4 (byte AND 0x0F);
          byte = drop_bit 2 (byte AND 0xCC) OR push_bit 2 (byte AND 0x33)
      in drop_bit 1 (byte AND 0xAA) OR push_bit 1 (byte AND 0x55))"

definition crc8_shift :: "u8 \<Rightarrow> u8 \<Rightarrow> u8" where
  "crc8_shift polynom crc =
     (if crc AND 0x80 \<noteq> 0 then push_bit 1 crc XOR polynom else push_bit 1 crc)"

definition bit_lib_crc8 :: "u8 list \<Rightarrow> nat \<Rightarrow> u8 \<Rightarrow> u8 \<Rightarrow> bool \<Rightarrow> bool \<Rightarrow> u8 \<Rightarrow> u16 res" where
  "bit_lib_crc8 data data_size polynom init ref_in ref_out xor_out =
     bindr (for_each (\<lambda>i crc.
         bindr (list_get data i) (\<lambda>byte.
         bindr (if ref_in then bindr (bit_lib_reverse_bits [byte] 0 8) (\<lambda>d. list_get d 0) else Inr byte) (\<lambda>byte.
           Inr ((crc8_shift polynom ^^ 8) (crc XOR byte))))) [0..<data_size] init) (\<lambda>crc.
     bindr (if ref_out then bindr (bit_lib_reverse_bits [crc] 0 8) (\<lambda>d. list_get d 0) else Inr crc) (\<lambda>crc.
       Inr (ucast (crc XOR xor_out))))"

definition crc16_shift :: "u16 \<Rightarrow> u8 \<Rightarrow> nat \<Rightarrow> u16 \<Rightarrow> u16" where
  "crc16_shift polynom byte j crc =
     (let c15 = (drop_bit 15 crc AND 1 \<noteq> 0); b = (drop_bit (7 - j) byte AND 1 \<noteq> 0); crc = push_bit 1 crc in
      if c15 \<noteq> b then crc XOR polynom else crc)"

definition bit_lib_crc16 :: "u8 list \<Rightarrow> nat \<Rightarrow> u16 \<Rightarrow> u16 \<Rightarrow> bool \<Rightarrow> bool \<Rightarrow> u16 \<Rightarrow> u16 res" where
  "bit_lib_crc16 data data_size polynom init ref_in ref_out xor_out =
     bindr (for_each (\<lambda>i crc.
         bindr (list_get data i) (\<lambda>byte.
         let byte = (if ref_in then ucast (drop_bit 8 (bit_lib_reverse_16_fast (ucast byte))) else byte) in
           Inr (foldl (\<lambda>crc j. crc16_shift polynom byte j crc) crc [0..<8]))) [0..<data_size] init) (\<lambda>crc.
     let crc = (if ref_out then bit_lib_reverse_16_fast crc else crc) in Inr (crc XOR xor_out))"

section \<open>Numbers and bytes\<close>

fun num_to_bytes_be_loop :: "u64 \<Rightarrow> nat \<Rightarrow> u8 list \<Rightarrow> u8 list res" where
  "num_to_bytes_be_loop src 0 dest = Inr dest"
| "num_to_bytes_be_loop src (Suc len) dest =
     bindr (list_set dest len (ucast src)) (num_to_bytes_be_loop (drop_bit 8 src) len)"

definition bit_lib_num_to_bytes_be :: "u64 \<Rightarrow> nat \<Rightarrow> u8 list \<Rightarrow> u8 list res" where
  "bit_lib_num_to_bytes_be src len dest =
     bindr (furi_check (len \<le> 8)) (\<lambda>_. num_to_bytes_be_loop src len dest)"

definition bit_lib_num_to_bytes_le :: "u64 \<Rightarrow> nat \<Rightarrow> u8 list \<Rightarrow> u8 list res" where
  "bit_lib_num_to_bytes_le src len dest =
     bindr (furi_check (len \<le> 8)) (\<lambda>_.
       for_each (\<lambda>i d. list_set d i (ucast (drop_bit (8 * i) src))) [0..<len] dest)"

definition bit_lib_bytes_to_num_be :: "u8 list \<Rightarrow> nat \<Rightarrow> u64 res" where
  "bit_lib_bytes_to_num_be src len =
     bindr (furi_check (len \<le> 8)) (\<lambda>_.
       for_each (\<lambda>i r. bindr (list_get src i) (\<lambda>b. Inr (push_bit 8 r OR ucast b))) [0..<len] 0)"

definition bit_lib_bytes_to_num_le :: "u8 list \<Rightarrow> nat \<Rightarrow> u64 res" where
  "bit_lib_bytes_to_num_le src len =
     bindr (furi_check (len \<le> 8)) (\<lambda>_.
       for_each (\<lambda>i r. bindr (list_get src i) (\<lambda>b. Inr (r OR push_bit (8 * i) (ucast b)))) [0..<len] 0)"

definition bit_lib_bytes_to_num_bcd :: "u8 list \<Rightarrow> nat \<Rightarrow> (u64 \<times> bool) res" where
  "bit_lib_bytes_to_num_bcd src len =
     bindr (furi_check (len \<le> 9)) (\<lambda>_.
       for_each (\<lambda>i (r, is_bcd). bindr (list_get src i) (\<lambda>b.
         let nibble_1 = b div 16; nibble_2 = b mod 16 in
         Inr ((r * 10 + ucast nibble_1) * 10 + ucast nibble_2,
              is_bcd \<and> \<not> (nibble_1 > 9 \<or> nibble_2 > 9)))) [0..<len] (0, True))"

end
