(* ===== verification/Bit_Lib_Facts.thy ===== *)
theory Bit_Lib_Facts
  imports Bit_Lib
begin

text \<open>
  What the bit library does, in terms of the sequence of bits of a buffer: reads and writes of
  groups of bits, copies, reversal, conversions between numbers and bytes.
\<close>

section \<open>Single bits\<close>

lemma drop_bit_and_1: "(drop_bit n x AND 1 \<noteq> 0) = bit x n" for x :: "'a::len word"
  by (simp add: bit_iff_odd_drop_bit odd_iff_mod_2_eq_one and_one_eq)

lemma byte_index: "i < 8 * n \<Longrightarrow> i div 8 < n" for n :: nat
  by (simp add: less_mult_imp_div_less mult.commute)

lemma get_bit_eq: "bit_lib_get_bit data i = (if i < 8 * length data then Inr (msb_bit data i) else Inl OutOfBounds)"
proof (cases "i < 8 * length data")
  case True
  then show ?thesis using byte_index [of i "length data"]
    by (simp add: bit_lib_get_bit_def list_get_ok drop_bit_and_1 msb_bit_def)
next
  case False
  then have "\<not> i div 8 < length data" by presburger
  with False show ?thesis by (simp add: bit_lib_get_bit_def list_get_def)
qed

lemma get_bit_eq': "i < 8 * length data \<Longrightarrow> bit_lib_get_bit data i = Inr (msb_bit data i)"
  by (simp add: get_bit_eq)

lemma set_bit_outside: "8 * length data \<le> i \<Longrightarrow> bit_lib_set_bit data i b = Inl OutOfBounds"
  by (auto simp: bit_lib_set_bit_def list_get_def)

lemma bit_set_byte:
  "j < 8 \<Longrightarrow> k < 8 \<Longrightarrow>
   bit (if b then x OR push_bit j 1 else x AND NOT (push_bit j 1)) k = (if k = j then b else bit x k)" for x :: u8
  by (auto simp: bit_or_iff bit_and_iff bit_not_iff bit_push_bit_iff bit_1_iff bit_exp_iff possible_bit_def)

lemma same_byte:
  assumes "j div 8 = i div 8"
  shows "j = i \<longleftrightarrow> 7 - j mod 8 = 7 - i mod (8::nat)"
proof -
  have "j = i \<longleftrightarrow> j mod 8 = i mod 8" using assms by (metis div_mult_mod_eq)
  moreover have "j mod 8 < 8" "i mod 8 < 8" by simp_all
  ultimately show ?thesis by linarith
qed

lemma set_bit_inside:
  assumes "i < 8 * length data"
  shows "\<exists>d. bit_lib_set_bit data i b = Inr d \<and> length d = length data \<and> (\<forall>j. msb_bit d j = (if j = i then b else msb_bit data j))"
proof -
  let ?x = "data ! (i div 8)"
  let ?d = "data[i div 8 := if b then ?x OR push_bit (7 - i mod 8) 1 else ?x AND NOT (push_bit (7 - i mod 8) 1)]"
  have i: "i div 8 < length data" by (rule byte_index [OF assms])
  have "msb_bit ?d j = (if j = i then b else msb_bit data j)" for j
  proof (cases "j div 8 = i div 8")
    case True
    then have "msb_bit ?d j = bit (if b then ?x OR push_bit (7 - i mod 8) 1 else ?x AND NOT (push_bit (7 - i mod 8) 1)) (7 - j mod 8)"
      using i by (simp add: msb_bit_def)
    also have "\<dots> = (if 7 - j mod 8 = 7 - i mod 8 then b else bit ?x (7 - j mod 8))"
      by (rule bit_set_byte) simp_all
    finally show ?thesis unfolding same_byte [OF True] by (simp only: True msb_bit_def)
  next
    case False
    then show ?thesis by (auto simp: msb_bit_def)
  qed
  moreover have "bit_lib_set_bit data i b = Inr ?d"
    using i by (simp add: bit_lib_set_bit_def fault_simps)
  ultimately show ?thesis by (intro exI [of _ ?d]) simp
qed

lemma set_bit_obtain:
  assumes "i < 8 * length data"
  obtains d where "bit_lib_set_bit data i b = Inr d" and "length d = length data"
    and "\<And>j. msb_bit d j = (if j = i then b else msb_bit data j)"
  using set_bit_inside [OF assms, of b] by blast

interpretation bits: bit_store bit_lib_get_bit bit_lib_set_bit "\<lambda>d. 8 * length d" msb_bit
  by unfold_locales (use set_bit_inside in \<open>fastforce simp: get_bit_eq\<close>)+

text \<open>Bits written from a position on, and nothing else touched.\<close>

definition written :: "u8 list \<Rightarrow> nat \<Rightarrow> bool list \<Rightarrow> u8 list \<Rightarrow> bool" where
  "written data pos bs d \<longleftrightarrow> length d = length data \<and> msb_bits d pos (length bs) = bs \<and>
     (\<forall>j < 8 * length data. j < pos \<or> pos + length bs \<le> j \<longrightarrow> msb_bit d j = msb_bit data j)"

lemma write_run_written:
  assumes "pos + n \<le> 8 * length data"
  shows "\<exists>d. for_each (\<lambda>i s. bit_lib_set_bit s (pos + i) (g i)) [0..<n] data = Inr d \<and> written data pos (map g [0..<n]) d"
proof -
  from bits.write_run [OF assms, of g] obtain d where
    d: "for_each (\<lambda>i s. bit_lib_set_bit s (pos + i) (g i)) [0..<n] data = Inr d" "8 * length d = 8 * length data"
    "\<forall>j < 8 * length data. msb_bit d j = (if pos \<le> j \<and> j < pos + n then g (j - pos) else msb_bit data j)" by blast
  have "msb_bits d pos n = map g [0..<n]"
    using d(3) assms by (intro nth_equalityI) auto
  with d show ?thesis by (auto simp: written_def)
qed

lemma written_Nil [simp]: "written data pos [] d \<longleftrightarrow> length d = length data \<and> (\<forall>j < 8 * length data. msb_bit d j = msb_bit data j)"
  by (auto simp: written_def msb_bits_def)

lemma written_trans:
  assumes "written data pos xs d" and "written d (pos + length xs) ys e" and "pos + length xs + length ys \<le> 8 * length data"
  shows "written data pos (xs @ ys) e"
proof -
  have "msb_bits e pos (length xs) = msb_bits d pos (length xs)"
    unfolding msb_bits_eq_iff using assms by (simp add: written_def)
  also have "\<dots> = xs" using assms(1) by (simp add: written_def)
  finally show ?thesis
    using assms by (simp add: written_def msb_bits_add)
qed

lemma written_outside:
  "written data pos bs d \<Longrightarrow> p + n \<le> 8 * length data \<Longrightarrow> p + n \<le> pos \<or> pos + length bs \<le> p \<Longrightarrow>
   msb_bits d p n = msb_bits data p n"
  by (auto simp: written_def msb_bits_eq_iff)

section \<open>Groups of bits\<close>

definition word_bits :: "nat \<Rightarrow> 'a::len word \<Rightarrow> bool list" where
  "word_bits n w = map (\<lambda>i. bit w (n - 1 - i)) [0..<n]"

lemma length_word_bits [simp]: "length (word_bits n w) = n"
  by (simp add: word_bits_def)

lemma word_bits_of_bits: "length bs = n \<Longrightarrow> n \<le> LENGTH('a) \<Longrightarrow> word_bits n (word_of_bits bs :: 'a::len word) = bs"
  by (rule nth_equalityI) (auto simp: word_bits_def bit_word_of_bits)

lemma set_bits_written:
  assumes "0 < n" "n \<le> 8" and "pos + n \<le> 8 * length data"
  shows "\<exists>d. bit_lib_set_bits data pos byte n = Inr d \<and> written data pos (word_bits n byte) d"
  using write_run_written [OF assms(3), of "\<lambda>i. bit byte (n - 1 - i)"] assms(1,2)
  by (simp add: bit_lib_set_bits_def drop_bit_and_1 word_bits_def)

lemma copy_bits_written:
  assumes "pos + n \<le> 8 * length data" and "src_pos + n \<le> 8 * length source"
  shows "\<exists>d. bit_lib_copy_bits data pos n source src_pos = Inr d \<and> written data pos (msb_bits source src_pos n) d"
proof -
  have "bit_lib_copy_bits data pos n source src_pos =
      for_each (\<lambda>i d. bit_lib_set_bit d (pos + i) (msb_bit source (src_pos + i))) [0..<n] data"
    unfolding bit_lib_copy_bits_def using assms(2) by (intro for_each_cong) (simp_all add: get_bit_eq)
  with write_run_written [OF assms(1)] show ?thesis by (simp add: msb_bits_def)
qed

text \<open>The bytes a read of \<open>n\<close> bits at \<open>pos\<close> touches: one more for an unaligned position, even when no bit of it is used.\<close>

definition readable :: "u8 list \<Rightarrow> nat \<Rightarrow> nat \<Rightarrow> bool" where
  "readable data pos n \<longleftrightarrow> pos div 8 + (n - 1) div 8 + (if pos mod 8 = 0 then 0 else 1) < length data"

lemma msb_bit_split: "r < 8 \<Longrightarrow> msb_bit data (8 * q + r) = bit (data ! q) (7 - r)"
  by (simp add: msb_bit_def)

lemma split_pos: "8 \<le> pos mod 8 + i \<Longrightarrow> 8 * (pos div 8 + 1) + (pos mod 8 + i - 8) = pos + (i::nat)"
  using mult_div_mod_eq [of 8 pos] by (simp add: algebra_simps)

lemma get_bits_eq:
  assumes "n \<le> 8"
  shows "bit_lib_get_bits data pos n =
    (if readable data pos n then Inr (word_of_bits (msb_bits data pos n)) else Inl OutOfBounds)"
proof (cases "readable data pos n")
  case False
  with assms show ?thesis
    by (auto simp: readable_def bit_lib_get_bits_def Let_def list_get_def split: if_splits)
next
  case True
  let ?q = "pos div 8" and ?s = "pos mod 8"
  have n: "(n - 1) div 8 = 0" using assms by simp
  have bits: "bit (word_of_bits (msb_bits data pos n) :: u8) j \<longleftrightarrow> j < n \<and> msb_bit data (pos + (n - 1 - j))" for j
    using assms by (auto simp: bit_word_of_bits)
  have here: "msb_bit data (pos + i) \<longleftrightarrow> bit (data ! ?q) (7 - (?s + i))" if "?s + i < 8" for i
    using msb_bit_split [of "?s + i" data ?q] that by (simp add: add.assoc [symmetric])
  have there: "msb_bit data (pos + i) \<longleftrightarrow> bit (data ! (?q + 1)) (15 - (?s + i))" if "8 \<le> ?s + i" "?s + i < 16" for i
    using msb_bit_split [of "?s + i - 8" data "?q + 1"] that split_pos [of pos i] by simp
  show ?thesis
  proof (cases "?s = 0")
    case 0: True
    have "drop_bit (8 - n) (data ! ?q) = word_of_bits (msb_bits data pos n)"
    proof (rule bit_word_eqI)
      fix j assume "j < LENGTH(8)"
      then have "bit (drop_bit (8 - n) (data ! ?q)) j \<longleftrightarrow> j < n \<and> bit (data ! ?q) (8 - n + j)"
        using assms bit_imp_le_length [of "data ! ?q" "8 - n + j"] by (auto simp: bit_drop_bit_eq)
      also have "\<dots> \<longleftrightarrow> j < n \<and> msb_bit data (pos + (n - 1 - j))"
        using here [of "n - 1 - j"] 0 assms by (auto simp: algebra_simps)
      finally show "bit (drop_bit (8 - n) (data ! ?q)) j = bit (word_of_bits (msb_bits data pos n) :: u8) j"
        by (simp add: bits)
    qed
    with True 0 n assms show ?thesis by (simp add: readable_def bit_lib_get_bits_def list_get_def)
  next
    case False
    let ?v = "push_bit ?s (data ! ?q) OR drop_bit (8 - ?s) (data ! (?q + 1))"
    have s: "?s < 8" by simp
    have v: "bit ?v j \<longleftrightarrow> (if ?s \<le> j then bit (data ! ?q) (j - ?s) else bit (data ! (?q + 1)) (8 - ?s + j))" if "j < 8" for j
      using that s bit_imp_le_length [of "data ! (?q + 1)" "8 - ?s + j"]
      by (auto simp: bit_or_iff bit_push_bit_iff bit_drop_bit_eq possible_bit_def)
    have "drop_bit (8 - n) ?v = word_of_bits (msb_bits data pos n)"
    proof (rule bit_word_eqI)
      fix j assume "j < LENGTH(8)"
      then have "bit (drop_bit (8 - n) ?v) j \<longleftrightarrow> j < n \<and> bit ?v (8 - n + j)"
        using assms bit_imp_le_length [of ?v "8 - n + j"] by (auto simp only: bit_drop_bit_eq comp_def) simp_all
      also have "\<dots> \<longleftrightarrow> j < n \<and> msb_bit data (pos + (n - 1 - j))"
      proof (cases "j < n \<and> ?s + (n - 1 - j) < 8")
        case True
        then have "?s \<le> 8 - n + j" "7 - (?s + (n - 1 - j)) = 8 - n + j - ?s" "8 - n + j < 8" using assms by linarith+
        with True here [of "n - 1 - j"] v [of "8 - n + j"] assms show ?thesis by simp
      next
        case F: False
        show ?thesis
        proof (cases "j < n")
          case True
          with F s assms have "\<not> ?s \<le> 8 - n + j" "15 - (?s + (n - 1 - j)) = 8 - ?s + (8 - n + j)"
            "8 \<le> ?s + (n - 1 - j)" "?s + (n - 1 - j) < 16" "8 - n + j < 8" by linarith+
          with True there [of "n - 1 - j"] v [of "8 - n + j"] assms show ?thesis by simp
        qed simp
      qed
      finally show "bit (drop_bit (8 - n) ?v) j = bit (word_of_bits (msb_bits data pos n) :: u8) j" by (simp add: bits)
    qed
    with True False n assms show ?thesis by (simp add: readable_def bit_lib_get_bits_def Let_def list_get_def)
  qed
qed

text \<open>A sequence of reads that covers \<open>n\<close> consecutive bits, all but the last of 8 bits.\<close>

fun covers :: "(nat \<times> nat \<times> nat) list \<Rightarrow> nat \<Rightarrow> nat \<Rightarrow> bool" where
  "covers [] offset n \<longleftrightarrow> False"
| "covers [(o1, m, sh)] offset n \<longleftrightarrow> o1 = offset \<and> m = n \<and> n \<le> 8 \<and> sh = 0"
| "covers ((o1, m, sh) # c # cs) offset n \<longleftrightarrow> o1 = offset \<and> m = 8 \<and> 8 < n \<and> sh = n - 8 \<and> covers (c # cs) (offset + 8) (n - 8)"

lemma readable_more: "8 < n \<Longrightarrow> readable data pos n \<longleftrightarrow> readable data (pos + 8) (n - 8)"
proof -
  assume "8 < n"
  then have "(n - 1) div 8 = Suc ((n - 8 - 1) div 8)" by (simp add: div_if)
  moreover have "(pos + 8) div 8 = Suc (pos div 8)" by simp
  ultimately show ?thesis unfolding readable_def by (simp only: mod_add_self2 add_Suc add_Suc_right)
qed

lemma readable_first: "readable data pos n \<Longrightarrow> m \<le> n \<Longrightarrow> readable data pos m"
proof -
  assume r: "readable data pos n" and "m \<le> n"
  then have "(m - 1) div 8 \<le> (n - 1) div 8" by (intro div_le_mono) simp
  with r show ?thesis unfolding readable_def by linarith
qed

lemma or_bits_eq:
  "covers cs offset n \<Longrightarrow> n \<le> LENGTH('a) \<Longrightarrow>
   (or_bits data pos cs :: 'a::len word res) =
     (if readable data (pos + offset) n then Inr (word_of_bits (msb_bits data (pos + offset) n)) else Inl OutOfBounds)"
proof (induction cs offset n rule: covers.induct)
  case (2 o1 m sh offset n)
  show ?case
  proof (cases "8 \<le> LENGTH('a)")
    case True
    with 2 show ?thesis by (auto simp: get_bits_eq ucast_word_of_bits)
  next
    case False
    have "ucast (word_of_bits bs :: u8) = (word_of_bits bs :: 'a word)" if "length bs \<le> 8" for bs
      by (rule ucast_word_of_bits) (use that in simp)
    with 2 show ?thesis by (auto simp: get_bits_eq)
  qed
next
  case (3 o1 m sh c cs offset n)
  then have n: "8 < n" "sh = n - 8" "o1 = offset" "m = 8" and cs: "covers (c # cs) (offset + 8) (n - 8)" by auto
  have eq: "pos + (offset + 8) = pos + offset + 8" by simp
  have "(or_bits data pos (c # cs) :: 'a word res) =
     (if readable data (pos + offset) n then Inr (word_of_bits (msb_bits data (pos + offset + 8) (n - 8))) else Inl OutOfBounds)"
    using "3.IH" [OF cs] "3.prems"(2) readable_more [OF n(1), of data "pos + offset"] unfolding eq by simp
  moreover have "word_of_bits (msb_bits data (pos + offset) n) =
      (push_bit sh (ucast (word_of_bits (msb_bits data (pos + offset) 8) :: u8))
        OR word_of_bits (msb_bits data (pos + offset + 8) (n - 8)) :: 'a word)"
  proof -
    have "msb_bits data (pos + offset) n = msb_bits data (pos + offset) 8 @ msb_bits data (pos + offset + 8) (n - 8)"
      using msb_bits_add [of data "pos + offset" 8 "n - 8"] n(1) by simp
    then show ?thesis using n by (simp add: word_of_bits_append ucast_word_of_bits)
  qed
  moreover have "readable data (pos + offset) 8" if "readable data (pos + offset) n"
    using readable_first [OF that] n(1) by simp
  ultimately show ?case
    using n by (cases "readable data (pos + offset) n"; cases "readable data (pos + offset) 8") (simp_all add: get_bits_eq)
qed simp

lemma get_bits_64_eq:
  assumes "n \<le> 64"
  shows "bit_lib_get_bits_64 data pos n =
    (if readable data pos n then Inr (word_of_bits (msb_bits data pos n)) else Inl OutOfBounds)"
  using assms by (simp add: bit_lib_get_bits_64_def or_bits_eq [of _ 0 n, where 'a=64] less_diff_conv le_diff_conv del: or_bits.simps)

lemma get_bits_32_eq:
  assumes "n \<le> 32"
  shows "bit_lib_get_bits_32 data pos n =
    (if readable data pos n then Inr (word_of_bits (msb_bits data pos n)) else Inl OutOfBounds)"
  using assms by (simp add: bit_lib_get_bits_32_def or_bits_eq [of _ 0 n, where 'a=32] less_diff_conv le_diff_conv del: or_bits.simps)

lemma get_bits_16_eq:
  assumes "n \<le> 16"
  shows "bit_lib_get_bits_16 data pos n =
    (if readable data pos n then Inr (word_of_bits (msb_bits data pos n)) else Inl OutOfBounds)"
  using assms by (simp add: bit_lib_get_bits_16_def or_bits_eq [of _ 0 n, where 'a=16] less_diff_conv le_diff_conv del: or_bits.simps)

section \<open>Reversal\<close>

lemma reverse_bits_loop_eq:
  "pos + j < 8 * length data \<Longrightarrow> \<exists>d. reverse_bits_loop data pos i j = Inr d \<and> length d = length data \<and>
    (\<forall>p. msb_bit d p = (if pos + i \<le> p \<and> p \<le> pos + j then msb_bit data (pos + i + (pos + j) - p) else msb_bit data p))"
proof (induction data pos i j rule: reverse_bits_loop.induct)
  case (1 data pos i j)
  show ?case
  proof (cases "i < j")
    case False
    have "reverse_bits_loop data pos i j = Inr data" using False by (simp add: reverse_bits_loop.simps [of data])
    moreover have "\<forall>p. msb_bit data p =
        (if pos + i \<le> p \<and> p \<le> pos + j then msb_bit data (pos + i + (pos + j) - p) else msb_bit data p)"
    proof (intro allI)
      fix p
      show "msb_bit data p = (if pos + i \<le> p \<and> p \<le> pos + j then msb_bit data (pos + i + (pos + j) - p) else msb_bit data p)"
      proof (cases "pos + i \<le> p \<and> p \<le> pos + j")
        case True
        with False have "pos + i + (pos + j) - p = p" by linarith
        then show ?thesis by simp
      next
        case out: False
        then show ?thesis by (simp only: if_False)
      qed
    qed
    ultimately show ?thesis by blast
  next
    case True
    have inside: "pos + i < 8 * length data" using True "1.prems" by simp
    obtain d1 where d1: "bit_lib_set_bit data (pos + i) (msb_bit data (pos + j)) = Inr d1"
      "length d1 = length data" "\<And>p. msb_bit d1 p = (if p = pos + i then msb_bit data (pos + j) else msb_bit data p)"
      by (rule set_bit_obtain [OF inside]) blast
    have inside1: "pos + j < 8 * length d1" using "1.prems" d1(2) by simp
    obtain d2 where d2: "bit_lib_set_bit d1 (pos + j) (msb_bit data (pos + i)) = Inr d2"
      "length d2 = length d1" "\<And>p. msb_bit d2 p = (if p = pos + j then msb_bit data (pos + i) else msb_bit d1 p)"
      by (rule set_bit_obtain [OF inside1]) blast
    have "pos + (j - 1) < 8 * length d2" using "1.prems" d1(2) d2(2) by simp
    with "1.IH" [OF True get_bit_eq' get_bit_eq' d1(1) d2(1)] inside "1.prems" obtain d where
      d: "reverse_bits_loop d2 pos (i + 1) (j - 1) = Inr d" "length d = length d2"
      "\<And>p. msb_bit d p = (if pos + (i + 1) \<le> p \<and> p \<le> pos + (j - 1)
         then msb_bit d2 (pos + (i + 1) + (pos + (j - 1)) - p) else msb_bit d2 p)" by blast
    have "reverse_bits_loop data pos i j = Inr d"
      using True "1.prems" inside d1(1) d2(1) d(1) by (simp add: reverse_bits_loop.simps [of data] get_bit_eq)
    moreover have "msb_bit d p = (if pos + i \<le> p \<and> p \<le> pos + j then msb_bit data (pos + i + (pos + j) - p) else msb_bit data p)" for p
    proof -
      have sum: "pos + (i + 1) + (pos + (j - 1)) - p = pos + i + (pos + j) - p" using True by simp
      consider "p = pos + i" | "p = pos + j" | "pos + i < p" "p < pos + j" | "p < pos + i \<or> pos + j < p" by linarith
      then show ?thesis
      proof cases
        case 3
        then have "pos + i + (pos + j) - p \<noteq> pos + i" "pos + i + (pos + j) - p \<noteq> pos + j"
          "pos + (i + 1) \<le> p" "p \<le> pos + (j - 1)" by linarith+
        with 3 show ?thesis unfolding d(3) sum d2(3) d1(3) by simp
      qed (use True in \<open>auto simp: d(3) d2(3) d1(3)\<close>)
    qed
    ultimately show ?thesis using d(2) d2(2) d1(2) by auto
  qed
qed

lemma reverse_bits_written:
  assumes "0 < n" and "pos + n \<le> 8 * length data" and "unat len = n"
  shows "\<exists>d. bit_lib_reverse_bits data pos len = Inr d \<and> written data pos (rev (msb_bits data pos n)) d"
proof -
  have "pos + (n - 1) < 8 * length data" using assms by simp
  from reverse_bits_loop_eq [OF this, of 0] obtain d where
    d: "reverse_bits_loop data pos 0 (n - 1) = Inr d" "length d = length data"
      "\<And>p. msb_bit d p = (if pos \<le> p \<and> p \<le> pos + (n - 1) then msb_bit data (pos + (pos + (n - 1)) - p) else msb_bit data p)"
    by (simp only: add_0_right) blast
  have r: "bit_lib_reverse_bits data pos len = Inr d"
    using d(1) assms(1,3) by (simp add: bit_lib_reverse_bits_def size_pred_def)
  have "msb_bits d pos n = rev (msb_bits data pos n)"
  proof (rule nth_equalityI)
    fix i assume "i < length (msb_bits d pos n)"
    then have i: "i < n" by simp
    then have "pos + (pos + (n - 1)) - (pos + i) = pos + (n - Suc i)" "pos + i \<le> pos + (n - 1)" by simp_all
    then show "msb_bits d pos n ! i = rev (msb_bits data pos n) ! i"
      using i d(3) [of "pos + i"] by (simp add: rev_nth)
  qed simp
  moreover have "msb_bit d p = msb_bit data p" if "p < pos \<or> pos + n \<le> p" for p
    using that assms(1) by (auto simp: d(3))
  ultimately show ?thesis using r d(2) by (auto simp: written_def)
qed

text \<open>Reversing the only byte of an array, as the checksum does.\<close>

lemma msb_bits_byte: "msb_bits [b] 0 8 = word_bits 8 b"
  by (rule nth_equalityI) (simp_all add: word_bits_def msb_bit_def)

lemma reverse_bits_byte: "bit_lib_reverse_bits [b] 0 8 = Inr [word_reverse b]"
proof -
  from reverse_bits_written [of 8 0 "[b]" 8] obtain d where
    d: "bit_lib_reverse_bits [b] 0 8 = Inr d" "length d = 1" "msb_bits d 0 8 = rev (word_bits 8 b)"
    by (auto simp: written_def msb_bits_byte)
  then obtain c where c: "d = [c]" by (auto simp: length_Suc_conv)
  have "c = word_reverse b"
  proof (rule bit_word_eqI)
    fix j assume "j < LENGTH(8)"
    then have j: "7 - j < 8" "7 - (7 - j) = j" "j < 8" by auto
    then have "msb_bits [c] 0 8 ! (7 - j) = rev (word_bits 8 b) ! (7 - j)" using d(3) c by simp
    with j show "bit c j = bit (word_reverse b) j"
      by (simp add: bit_word_reverse_iff word_bits_def rev_nth msb_bit_def)
  qed
  with d c show ?thesis by simp
qed

lemma bit_moved_down: "bit (drop_bit k (x AND push_bit i 1)) j \<longleftrightarrow> k + j = i \<and> bit x i" for x :: "'a::len word"
  using bit_imp_le_length [of x i] by (auto simp: bit_drop_bit_eq bit_and_iff bit_exp_iff possible_bit_def)

lemma bit_moved_up: "bit (push_bit k (x AND push_bit i 1)) j \<longleftrightarrow> j = k + i \<and> j < LENGTH('a) \<and> bit x i" for x :: "'a::len word"
  by (auto simp: bit_push_bit_iff bit_and_iff bit_exp_iff bit_1_iff possible_bit_def)

lemma bit_moved_lowest: "bit (push_bit k (x AND 1)) j \<longleftrightarrow> j = k \<and> j < LENGTH('a) \<and> bit x 0" for x :: "'a::len word"
  using bit_moved_up [of k x 0 j] by simp

lemma reverse_16_fast_eq: "bit_lib_reverse_16_fast w = word_reverse w"
proof (rule bit_word_eqI)
  fix j assume "j < LENGTH(16)"
  then have j: "j < 16" by simp
  have masks: "0x8000 = (push_bit 15 1 :: u16)" "0x4000 = (push_bit 14 1 :: u16)" "0x2000 = (push_bit 13 1 :: u16)" "0x1000 = (push_bit 12 1 :: u16)"
    "0x0800 = (push_bit 11 1 :: u16)" "0x0400 = (push_bit 10 1 :: u16)" "0x0200 = (push_bit 9 1 :: u16)" "0x0100 = (push_bit 8 1 :: u16)"
    "0x0080 = (push_bit 7 1 :: u16)" "0x0040 = (push_bit 6 1 :: u16)" "0x0020 = (push_bit 5 1 :: u16)" "0x0010 = (push_bit 4 1 :: u16)"
    "0x0008 = (push_bit 3 1 :: u16)" "0x0004 = (push_bit 2 1 :: u16)" "0x0002 = (push_bit 1 1 :: u16)"
    by (simp_all add: push_bit_of_1)
  have "j = 0 \<or> j = 1 \<or> j = 2 \<or> j = 3 \<or> j = 4 \<or> j = 5 \<or> j = 6 \<or> j = 7 \<or>
    j = 8 \<or> j = 9 \<or> j = 10 \<or> j = 11 \<or> j = 12 \<or> j = 13 \<or> j = 14 \<or> j = 15" using j by presburger
  then show "bit (bit_lib_reverse_16_fast w) j = bit (word_reverse w) j"
    unfolding bit_lib_reverse_16_fast_def masks bit_or_iff bit_moved_down bit_moved_up bit_moved_lowest bit_word_reverse_iff
    by (elim disjE) simp_all
qed

end
