(* ===== verification/Bit_Lib_Parity.thy ===== *)
theory Bit_Lib_Parity
  imports Bit_Lib_Facts
begin

text \<open>
  Parity bits: what \<^verbatim>\<open>bit_lib_add_parity\<close> inserts, \<^verbatim>\<open>bit_lib_test_parity\<close> accepts and
  \<^verbatim>\<open>bit_lib_remove_bit_every_nth\<close> removes.
\<close>

section \<open>Counting ones\<close>

lemma popcount_0 [simp]: "popcount 0 = 0"
  by (simp add: popcount_def)



section \<open>Adding\<close>

text \<open>The bit that follows a group, and the groups of a buffer with theirs.\<close>

fun parity_of :: "bit_lib_parity \<Rightarrow> bool list \<Rightarrow> bool" where
  "parity_of BitLibParityEven bs = odd (ones bs)"
| "parity_of BitLibParityOdd bs = even (ones bs)"
| "parity_of BitLibParityAlways0 bs = False"
| "parity_of BitLibParityAlways1 bs = True"

fun parity_blocks :: "bit_lib_parity \<Rightarrow> u8 list \<Rightarrow> nat \<Rightarrow> nat \<Rightarrow> nat \<Rightarrow> bool list" where
  "parity_blocks parity data pos q 0 = []"
| "parity_blocks parity data pos q (Suc m) =
     msb_bits data pos q @ parity_of parity (msb_bits data pos q) # parity_blocks parity data (pos + q) q m"

lemma length_parity_blocks [simp]: "length (parity_blocks parity data pos q m) = m * Suc q"
  by (induction m arbitrary: pos) simp_all


lemma copy_parity_bits_written:
  assumes "pos + w + (p - 1) \<le> 8 * length data" and "dpos + j + (p - 1) \<le> 8 * length dest"
  shows "\<exists>d. copy_parity_bits data pos (int w) dpos (dest, j) p =
       Inr (word_of_bits (msb_bits data (pos + w) (p - 1)), d, j + (p - 1)) \<and>
     written dest (dpos + j) (msb_bits data (pos + w) (p - 1)) d"
proof -
  let ?I = "\<lambda>i (v, d, j'). v = (word_of_bits (msb_bits data (pos + w) i) :: u32) \<and> j' = j + i \<and>
      written dest (dpos + j) (msb_bits data (pos + w) i) d"
  have "\<exists>t. copy_parity_bits data pos (int w) dpos (dest, j) p = Inr t \<and> ?I (p - 1) t"
    unfolding copy_parity_bits_def
  proof (rule for_each_inv)
    show "?I 0 (0, dest, j)" by (simp add: msb_bits_def)
  next
    fix i s assume i: "i < p - 1" and I: "?I i s"
    obtain v d where s: "s = (v, d, j + i)" and v: "v = word_of_bits (msb_bits data (pos + w) i)"
      and d: "written dest (dpos + j) (msb_bits data (pos + w) i) d" using I by (cases s) auto
    let ?b = "msb_bit data (pos + w + i)"
    have next_bits: "msb_bits data (pos + w) (Suc i) = msb_bits data (pos + w) i @ [?b]"
      using msb_bits_add [of data "pos + w" i 1] by (simp add: msb_bits_def)
    have inside: "dpos + (j + i) < 8 * length d" using assms(2) i d by (simp add: written_def)
    obtain e where e: "bit_lib_set_bit d (dpos + (j + i)) ?b = Inr e" "length e = length d"
      "\<And>k. msb_bit e k = (if k = dpos + (j + i) then ?b else msb_bit d k)"
      by (rule set_bit_obtain [OF inside]) blast
    have "written d (dpos + j + i) [?b] e" using e by (simp add: written_def msb_bits_def ac_simps)
    with d have "written dest (dpos + j) (msb_bits data (pos + w) (Suc i)) e"
      unfolding next_bits using assms(2) i by (intro written_trans) simp_all
    moreover have "bit_lib_get_bit data (nat (int pos + int w + int i)) = Inr ?b"
      using assms(1) i by (simp add: get_bit_eq nat_int_add flip: of_nat_add)
    ultimately show "\<exists>t. (case s of (w', dest, j) \<Rightarrow>
         bindr (bit_lib_get_bit data (nat (int pos + int w + int i))) (\<lambda>x.
         bindr (bit_lib_set_bit dest (dpos + j) x) (\<lambda>dest. Inr (push_bit 1 w' OR of_bool x, dest, j + 1)))) = Inr t \<and> ?I (Suc i) t"
      using e(1) by (simp add: s v next_bits word_of_bits_snoc)
  qed
  then show ?thesis by auto
qed

text \<open>The number of groups of \<open>q\<close> bits that cover \<open>n\<close> bits.\<close>

definition groups :: "nat \<Rightarrow> nat \<Rightarrow> nat" where
  "groups q n = (n + q - 1) div q"

lemma groups_0 [simp]: "0 < q \<Longrightarrow> groups q 0 = 0"
  by (simp add: groups_def)

lemma groups_Suc: "0 < q \<Longrightarrow> 0 < n \<Longrightarrow> groups q n = Suc (groups q (n - q))"
proof -
  assume "0 < q" "0 < n"
  have "groups q n = (n - 1 + q) div q" using \<open>0 < n\<close> by (simp add: groups_def)
  also have "\<dots> = Suc ((n - 1) div q)" using \<open>0 < q\<close> div_add_self2 [of q "n - 1"] by linarith
  also have "(n - 1) div q = groups q (n - q)"
  proof (cases "q \<le> n")
    case True
    then show ?thesis by (simp add: groups_def)
  next
    case False
    then have "(n - 1) div q = 0" "(n - q + q - 1) div q = 0" by simp_all
    then show ?thesis by (simp add: groups_def)
  qed
  finally show ?thesis .
qed



section \<open>Removing\<close>

text \<open>The bits of a sequence without every \<open>n\<close>-th one.\<close>

definition kept :: "nat \<Rightarrow> bool list \<Rightarrow> bool list" where
  "kept n bs = map (\<lambda>i. bs ! i) (filter (\<lambda>i. (i + 1) mod n \<noteq> 0) [0..<length bs])"

lemma kept_Nil [simp]: "kept n [] = []"
  by (simp add: kept_def)








section \<open>Testing\<close>








section \<open>The outcome of \<open>bit_lib_add_parity\<close>\<close>

lemma get_bit_fault: "bit_lib_get_bit d i = Inl f \<Longrightarrow> f = OutOfBounds"
  by (simp add: get_bit_eq split: if_splits)

lemma set_bit_fault: "bit_lib_set_bit d i b = Inl f \<Longrightarrow> f = OutOfBounds"
  using set_bit_outside [of d i b] set_bit_inside [of i d b] by (cases "i < 8 * length d") auto

lemma set_bit_done: "bit_lib_set_bit d i b = Inr e \<Longrightarrow> length e = length d \<and> i < 8 * length d"
  using set_bit_outside [of d i b] set_bit_inside [of i d b] by (cases "i < 8 * length d") auto

lemma copy_parity_bits_fault: "copy_parity_bits data pos word dpos (dest, j) p = Inl f \<Longrightarrow> f = OutOfBounds"
  unfolding copy_parity_bits_def
  by (drule for_each_Inl) (auto simp: bindr_eq_Inl dest: get_bit_fault set_bit_fault)

lemma copy_parity_bits_length:
  assumes "copy_parity_bits data pos word dpos (dest, j) p = Inr (w, d, j')"
  shows "length d = length dest \<and> j \<le> j'"
proof -
  have "case (w, d, j') of (_, d, j') \<Rightarrow> length d = length dest \<and> j \<le> j'"
    using assms unfolding copy_parity_bits_def
    by (rule for_each_post) (auto simp: bindr_eq_Inr dest!: set_bit_done)
  then show ?thesis by simp
qed

lemma parity_bit_no_fault: "\<exists>b. parity_bit w parity = Inr b"
  by (cases parity) (simp_all add: parity_bit_def ex_bool_eq)

text \<open>Copying \<open>q\<close> bits succeeds exactly inside both arrays.\<close>

lemma copy_parity_bits_inside:
  assumes "copy_parity_bits data pos (int w) dpos (dest, j) (Suc q) = Inr (v, d, j')" and "0 < q"
  shows "pos + w + q \<le> 8 * length data \<and> dpos + j + q \<le> 8 * length dest"
proof -
  let ?f = "\<lambda>b (w', dest, j). bindr (bit_lib_get_bit data (nat (int pos + int w + int b))) (\<lambda>x.
      bindr (bit_lib_set_bit dest (dpos + j) x) (\<lambda>dest. Inr (push_bit 1 w' OR of_bool x, dest, j + 1)))"
  have "for_each ?f [0..<k] (0 :: u32, dest, j) = Inr (v, d, j') \<Longrightarrow> length d = length dest \<and> j' = j + k \<and>
      (0 < k \<longrightarrow> pos + w + k \<le> 8 * length data \<and> dpos + j + k \<le> 8 * length dest)" for k v d j'
  proof (induction k arbitrary: v d j')
    case (Suc k)
    then obtain v1 d1 j1 x where 1: "for_each ?f [0..<k] (0 :: u32, dest, j) = Inr (v1, d1, j1)"
      and x: "bit_lib_get_bit data (nat (int pos + int w + int k)) = Inr x"
      and d: "bit_lib_set_bit d1 (dpos + j1) x = Inr d" "j' = j1 + 1"
      by (auto simp: for_each_Suc bindr_eq_Inr simp del: upt_Suc)
    have "pos + w + k < 8 * length data"
      using x by (simp add: get_bit_eq nat_int_add flip: of_nat_add split: if_splits)
    with Suc.IH [OF 1] set_bit_done [OF d(1)] d(2) show ?case by auto
  qed simp
  from this [of q v d j'] assms show ?thesis by (simp add: copy_parity_bits_def)
qed

lemma copy_parity_bits_outcome:
  assumes "0 < q"
  obtains (inside) v d where "copy_parity_bits data pos (int w) dpos (dest, j) (Suc q) = Inr (v, d, j + q)"
      "length d = length dest" "pos + w + q \<le> 8 * length data" "dpos + j + q \<le> 8 * length dest"
    | (outside) "copy_parity_bits data pos (int w) dpos (dest, j) (Suc q) = Inl OutOfBounds"
      "\<not> (pos + w + q \<le> 8 * length data \<and> dpos + j + q \<le> 8 * length dest)"
proof (cases "pos + w + q \<le> 8 * length data \<and> dpos + j + q \<le> 8 * length dest")
  case True
  then obtain d where "copy_parity_bits data pos (int w) dpos (dest, j) (Suc q) = Inr (word_of_bits (msb_bits data (pos + w) q), d, j + q)"
    "length d = length dest"
    using copy_parity_bits_written [of pos w "Suc q" data dpos j dest] by (auto simp: written_def)
  with True inside show ?thesis by blast
next
  case False
  show ?thesis
  proof (cases "copy_parity_bits data pos (int w) dpos (dest, j) (Suc q)")
    case (Inl f)
    with copy_parity_bits_fault [OF Inl] False outside show ?thesis by simp
  next
    case (Inr r)
    then show ?thesis using copy_parity_bits_inside [OF _ assms] False by (cases r) blast
  qed
qed

lemma add_parity_loop_outcome:
  assumes q: "0 < q"
  shows "w < len \<Longrightarrow> j \<le> 8 * length dest \<Longrightarrow> 8 * length dest < fuel + j \<Longrightarrow>
    map_sum id fst (add_parity_loop fuel data pos dest dpos len (Suc q) parity (int w) j c) =
      (if pos + w + groups q (len - w) * q \<le> 8 * length data \<and> dpos + j + groups q (len - w) * Suc q \<le> 8 * length dest
       then Inr (c + groups q (len - w) * Suc q) else Inl OutOfBounds)"
proof (induction fuel arbitrary: dest w j c)
  case 0
  then show ?case by simp
next
  case (Suc fuel)
  let ?m = "groups q (len - (w + q))"
  have m: "groups q (len - w) = Suc ?m" using groups_Suc [OF q, of "len - w"] Suc.prems(1) by simp
  have step: "int w + int (Suc q) - 1 = int (w + q)" by simp
  show ?case
  proof (rule copy_parity_bits_outcome [OF q, of data pos w dpos dest j])
    assume "copy_parity_bits data pos (int w) dpos (dest, j) (Suc q) = Inl OutOfBounds"
      "\<not> (pos + w + q \<le> 8 * length data \<and> dpos + j + q \<le> 8 * length dest)"
    then show ?thesis using Suc.prems(1) unfolding m by auto
  next
    fix v d
    assume c: "copy_parity_bits data pos (int w) dpos (dest, j) (Suc q) = Inr (v, d, j + q)" "length d = length dest"
      and inside: "pos + w + q \<le> 8 * length data" "dpos + j + q \<le> 8 * length dest"
    obtain b where b: "parity_bit v parity = Inr b" using parity_bit_no_fault by blast
    show ?thesis
    proof (cases "bit_lib_set_bit d (dpos + (j + q)) b")
      case (Inl f)
      then have "\<not> dpos + (j + q) < 8 * length dest" using set_bit_inside [of "dpos + (j + q)" d b] c(2) by auto
      then show ?thesis using Inl set_bit_fault [OF Inl] c b Suc.prems(1) unfolding m by simp
    next
      case (Inr e)
      from set_bit_done [OF Inr] c(2) have e: "length e = length dest" "dpos + (j + q) < 8 * length dest" by simp_all
      have loop: "add_parity_loop (Suc fuel) data pos dest dpos len (Suc q) parity (int w) j c =
          add_parity_loop fuel data pos e dpos len (Suc q) parity (int (w + q)) (j + q + 1) (c + Suc q)"
        using Suc.prems(1) c(1) b Inr unfolding add_parity_loop.simps step by simp
      show ?thesis
      proof (cases "w + q < len")
        case True
        show ?thesis
          unfolding loop m using Suc.IH [OF True, of "j + q + 1" e "c + Suc q"] Suc.prems(3) e by (simp add: ac_simps)
      next
        case False
        moreover obtain fuel' where "fuel = Suc fuel'" using Suc.prems(3) e(2) by (cases fuel) auto
        ultimately show ?thesis unfolding loop m using inside e(2) q by simp
      qed
    qed
  qed
qed

text \<open>A \<open>parity_length\<close> that does not advance.\<close>

lemma add_parity_loop_stuck:
  "p \<le> 1 \<Longrightarrow> word < int len \<Longrightarrow> j \<le> 8 * length dest \<Longrightarrow> 8 * length dest < fuel + j \<Longrightarrow>
   add_parity_loop fuel data pos dest dpos len p parity word j c = Inl OutOfBounds"
proof (induction fuel arbitrary: dest word j c)
  case (Suc fuel)
  show ?case
  proof (cases "copy_parity_bits data pos word dpos (dest, j) p")
    case (Inl f)
    with copy_parity_bits_fault [OF Inl] Suc.prems(2) show ?thesis by simp
  next
    case copy: (Inr r)
    obtain w d j' where r: "r = (w, d, j')" by (cases r)
    from copy_parity_bits_length [OF copy [unfolded r]] have d: "length d = length dest" "j \<le> j'" by auto
    obtain b where b: "parity_bit w parity = Inr b" using parity_bit_no_fault by blast
    show ?thesis
    proof (cases "bit_lib_set_bit d (dpos + j') b")
      case (Inl f)
      then show ?thesis using copy r b set_bit_fault [OF Inl] Suc.prems(2) by simp
    next
      case e: (Inr e)
      from set_bit_done [OF e] d have "length e = length dest" "j' + 1 \<le> 8 * length dest" by auto
      with Suc.IH [of "word + int p - 1" "j' + 1" e] Suc.prems d copy r b e show ?thesis by auto
    qed
  qed
qed simp

text \<open>
  C36: the outcome of adding parity, for all lengths. No source bits give no bits; otherwise the
  number of bits is the number of groups times \<open>parity_length\<close>, provided that the groups lie inside
  the source and the result inside the destination. A \<open>parity_length\<close> of 0 or 1 does not advance in
  the source: whatever the size of the destination, the routine writes behind its end.
\<close>

theorem add_parity_outcome:
  "map_sum id fst (bit_lib_add_parity data pos dest dpos len p parity) =
     (if len = 0 then Inr 0
      else if 2 \<le> unat p \<and> pos + groups (unat p - 1) (unat len) * (unat p - 1) \<le> 8 * length data \<and>
        dpos + groups (unat p - 1) (unat len) * unat p \<le> 8 * length dest
      then Inr (groups (unat p - 1) (unat len) * unat p) else Inl OutOfBounds)"
proof (cases "len = 0")
  case False
  then have len: "0 < unat len" by (simp add: unat_gt_0)
  show ?thesis
  proof (cases "2 \<le> unat p")
    case True
    then obtain q where q: "unat p = Suc q" "0 < q" by (intro that [of "unat p - 1"]) auto
    from add_parity_loop_outcome [OF q(2) len, of 0 dest "8 * length dest + 2" data pos dpos parity 0] q False True show ?thesis
      by (simp add: bit_lib_add_parity_def)
  next
    case p: False
    have "0 < int (unat len)" using len by (simp only: of_nat_0_less_iff)
    then have "bit_lib_add_parity data pos dest dpos len p parity = Inl OutOfBounds"
      unfolding bit_lib_add_parity_def using p by (intro add_parity_loop_stuck) simp_all
    then show ?thesis using p False by simp
  qed
qed (simp add: bit_lib_add_parity_def)

end
