(* ===== verification/Bit_Lib_Codes.thy ===== *)
theory Bit_Lib_Codes
  imports Bit_Lib_Facts
begin

text \<open>
  The conversions of the bit library proved against each other: numbers to bytes and back in both
  orders, binary-coded decimal, the groups of bits, and parity, which is added, tested and removed.
\<close>

section \<open>Numbers and bytes\<close>

text \<open>Byte \<open>k\<close> of a number.\<close>

definition byte_of :: "u64 \<Rightarrow> nat \<Rightarrow> u8" where
  "byte_of src k = ucast (drop_bit (8 * k) src)"

lemma bit_byte_of: "bit (byte_of src k) j \<longleftrightarrow> j < 8 \<and> bit src (8 * k + j)"
  by (auto simp: byte_of_def bit_simps)

lemma be_loop_eq:
  "n \<le> length dest \<Longrightarrow>
   num_to_bytes_be_loop src n dest = Inr (map (\<lambda>i. byte_of src (n - 1 - i)) [0..<n] @ drop n dest)"
proof (induction n arbitrary: src dest)
  case (Suc n)
  have shifted: "byte_of (drop_bit 8 src) (n - 1 - i) = byte_of src (n - i)" if "i < n" for i
    using that by (intro bit_word_eqI) (simp add: bit_byte_of bit_drop_bit_eq, simp add: algebra_simps)
  have "drop n (dest[n := ucast src]) = ucast src # drop (Suc n) dest"
    using Suc.prems by (simp add: list_update_append1 drop_update_swap Cons_nth_drop_Suc [symmetric])
  with Suc show ?case
    using shifted by (simp add: list_set_ok byte_of_def [of _ 0] cong: map_cong)
qed simp

lemma write_bytes_eq:
  "n \<le> length dest \<Longrightarrow> for_each (\<lambda>i d. list_set d i (g i)) [0..<n] dest = Inr (map g [0..<n] @ drop n dest)"
proof (induction n)
  case (Suc n)
  then have "(map g [0..<n] @ drop n dest)[n := g n] = map g [0..<Suc n] @ drop (Suc n) dest"
    by (simp add: list_update_append Cons_nth_drop_Suc [symmetric])
  with Suc show ?case by (simp add: for_each_Suc list_set_ok del: upt_Suc)
qed simp

lemma num_to_bytes_eq:
  assumes "n \<le> 8" "n \<le> length dest"
  shows "bit_lib_num_to_bytes_be src n dest = Inr (map (\<lambda>i. byte_of src (n - 1 - i)) [0..<n] @ drop n dest)"
    and "bit_lib_num_to_bytes_le src n dest = Inr (map (byte_of src) [0..<n] @ drop n dest)"
  using assms be_loop_eq [of n dest src] write_bytes_eq [of n dest "byte_of src"]
  by (simp_all add: bit_lib_num_to_bytes_be_def bit_lib_num_to_bytes_le_def byte_of_def)

lemma bytes_to_num_be_eq:
  assumes "n \<le> 8" "n \<le> length src"
  shows "bit_lib_bytes_to_num_be src n = Inr (word_of_bits (msb_bits src 0 (8 * n)))"
proof -
  have byte: "word_of_bits (msb_bits src (8 * k) 8) = (ucast (src ! k) :: u64)" for k
  proof (rule bit_word_eqI)
    fix j
    show "bit (word_of_bits (msb_bits src (8 * k) 8) :: u64) j = bit (ucast (src ! k) :: u64) j"
      using bit_imp_le_length [of "src ! k" j] msb_bit_split [of "7 - j" src k]
      by (cases "j < 8") (auto simp: bit_word_of_bits bit_simps)
  qed
  have "for_each (\<lambda>i r. bindr (list_get src i) (\<lambda>b. Inr (push_bit 8 r OR ucast b))) [0..<n] 0 =
      Inr (word_of_bits (msb_bits src 0 (8 * n)) :: u64)" using assms(2)
  proof (induction n)
    case (Suc n)
    have "8 * Suc n = 8 * n + 8" by simp
    then have "word_of_bits (msb_bits src 0 (8 * Suc n)) =
        (push_bit 8 (word_of_bits (msb_bits src 0 (8 * n))) OR ucast (src ! n) :: u64)"
      by (simp only: msb_bits_add word_of_bits_append length_msb_bits add_0 byte)
    with Suc show ?case by (simp add: for_each_Suc list_get_ok del: upt_Suc mult_Suc_right)
  qed (simp add: msb_bits_def)
  with assms(1) show ?thesis by (simp add: bit_lib_bytes_to_num_be_def)
qed

lemma bytes_to_num_le_eq:
  assumes "n \<le> 8" "n \<le> length src"
  shows "\<exists>w. bit_lib_bytes_to_num_le src n = Inr w \<and>
     (\<forall>j. bit w j \<longleftrightarrow> j < 8 * n \<and> bit (src ! (j div 8)) (j mod 8))"
proof -
  let ?f = "\<lambda>i (r :: u64). bindr (list_get src i) (\<lambda>b. Inr (r OR push_bit (8 * i) (ucast b)))"
  have "\<exists>w. for_each ?f [0..<n] 0 = Inr w \<and> (\<forall>j. bit w j \<longleftrightarrow> j < 8 * n \<and> bit (src ! (j div 8)) (j mod 8))"
    using assms
  proof (induction n)
    case (Suc n)
    then obtain w where w: "for_each ?f [0..<n] 0 = Inr w" "\<forall>j. bit w j \<longleftrightarrow> j < 8 * n \<and> bit (src ! (j div 8)) (j mod 8)"
      by auto
    let ?w = "w OR push_bit (8 * n) (ucast (src ! n))"
    have "bit ?w j \<longleftrightarrow> j < 8 * Suc n \<and> bit (src ! (j div 8)) (j mod 8)" for j
    proof (cases "8 * n \<le> j \<and> j < 8 * Suc n")
      case True
      then obtain r where r: "r < 8" "j = 8 * n + r" by (intro that [of "j - 8 * n"]) auto
      then have "bit (push_bit (8 * n) (ucast (src ! n)) :: u64) j \<longleftrightarrow> bit (src ! n) r"
        using Suc.prems(1) by (simp add: bit_push_bit_iff bit_ucast_iff possible_bit_def)
      with r show ?thesis by (simp add: w(2) bit_or_iff)
    next
      case False
      then have "\<not> bit (push_bit (8 * n) (ucast (src ! n)) :: u64) j"
        using bit_imp_le_length [of "src ! n" "j - 8 * n"] by (auto simp: bit_push_bit_iff bit_ucast_iff)
      moreover have "j < 8 * n \<longleftrightarrow> j < 8 * Suc n" using False by auto
      ultimately show ?thesis by (simp add: w(2) bit_or_iff)
    qed
    with w(1) Suc.prems show ?case by (simp add: for_each_Suc list_get_ok del: upt_Suc)
  qed simp
  with assms(1) show ?thesis by (simp add: bit_lib_bytes_to_num_le_def)
qed

text \<open>
  numbers and bytes. The number written to \<open>n \<le> 8\<close> bytes in big-endian or little-endian order is
  read back in the same order, reduced to \<open>8 n\<close> bits, and the two orders of bytes mirror each other.
\<close>

theorem num_bytes_roundtrip:
  assumes "n \<le> 8" and "n \<le> length dest"
  shows "bindr (bit_lib_num_to_bytes_be src n dest) (\<lambda>d. bit_lib_bytes_to_num_be d n) = Inr (take_bit (8 * n) src) \<and>
    bindr (bit_lib_num_to_bytes_le src n dest) (\<lambda>d. bit_lib_bytes_to_num_le d n) = Inr (take_bit (8 * n) src) \<and>
    bindr (bit_lib_num_to_bytes_be src n dest) (\<lambda>d. bindr (bit_lib_num_to_bytes_le src n dest) (\<lambda>e.
      Inr (take n e = rev (take n d)))) = Inr True"
proof -
  let ?be = "map (\<lambda>i. byte_of src (n - 1 - i)) [0..<n]" and ?le = "map (byte_of src) [0..<n]"
  have be: "bit_lib_bytes_to_num_be (?be @ drop n dest) n = Inr (take_bit (8 * n) src)"
  proof -
    have "word_of_bits (msb_bits (?be @ drop n dest) 0 (8 * n)) = take_bit (8 * n) src"
    proof (rule bit_word_eqI)
      fix j
      show "bit (word_of_bits (msb_bits (?be @ drop n dest) 0 (8 * n)) :: u64) j = bit (take_bit (8 * n) src) j"
      proof (cases "j < 8 * n")
        case True
        define k r where "k = j div 8" and "r = j mod 8"
        have k: "k < n" "r < 8" and j: "j = 8 * k + r" using True by (auto simp: k_def r_def)
        then have "8 * n - 1 - j = 8 * (n - 1 - k) + (7 - r)" by (simp add: algebra_simps diff_mult_distrib2)
        then have "msb_bit (?be @ drop n dest) (8 * n - 1 - j) = bit (byte_of src k) r"
          using k msb_bit_split [of "7 - r" "?be @ drop n dest" "n - 1 - k"] by (simp only: nth_append) simp
        moreover have "j < 64" using True assms(1) by simp
        ultimately show ?thesis using True k by (simp add: bit_word_of_bits bit_byte_of bit_take_bit_iff j)
      qed (simp add: bit_word_of_bits bit_take_bit_iff)
    qed
    then show ?thesis using assms by (subst bytes_to_num_be_eq) simp_all
  qed
  have le: "bit_lib_bytes_to_num_le (?le @ drop n dest) n = Inr (take_bit (8 * n) src)"
  proof -
    from bytes_to_num_le_eq [of n "?le @ drop n dest"] assms obtain w where
      w: "bit_lib_bytes_to_num_le (?le @ drop n dest) n = Inr w"
      "\<forall>j. bit w j \<longleftrightarrow> j < 8 * n \<and> bit ((?le @ drop n dest) ! (j div 8)) (j mod 8)" by auto
    have "w = take_bit (8 * n) src"
    proof (rule bit_word_eqI)
      fix j
      show "bit w j = bit (take_bit (8 * n) src) j"
      proof (cases "j < 8 * n")
        case True
        then have "j div 8 < n" by auto
        then show ?thesis using True by (simp add: w(2) nth_append bit_byte_of bit_take_bit_iff)
      qed (simp add: w(2) bit_take_bit_iff)
    qed
    with w(1) show ?thesis by simp
  qed
  have "rev ?be = ?le" by (rule nth_equalityI) (simp_all add: rev_nth)
  with be le show ?thesis using assms by (simp add: num_to_bytes_eq)
qed

theorem num_bytes_roundtrip_witness:
  "bindr (bit_lib_num_to_bytes_be 0x123456 2 [0, 0, 7]) (\<lambda>d. bit_lib_bytes_to_num_be d 2) = Inr 0x3456"
  using num_bytes_roundtrip [of 2 "[0, 0, 7]" "0x123456"] by simp

section \<open>Groups of bits\<close>

text \<open>
  reading up to 64 bits at any position, in eight cases by length, gives the word of these bits,
  the first one most significant. The read faults exactly when the array ends before the byte that
  holds the last bit or, for an unaligned position, the byte after the last touched whole byte, which
  is read even if no bit of it is wanted.
\<close>

theorem get_bits_64_word:
  assumes "n \<le> 64"
  shows "bit_lib_get_bits_64 data pos n =
    (if pos div 8 + (n - 1) div 8 + (if pos mod 8 = 0 then 0 else 1) < length data
     then Inr (word_of_bits (msb_bits data pos n)) else Inl OutOfBounds)"
  using get_bits_64_eq [OF assms] by (simp add: readable_def)

theorem get_bits_64_word_witness:
  "bit_lib_get_bits_64 [0xAB, 0xCD, 0xEF] 12 4 = Inr (word_of_bits [True, True, False, True]) \<and>
   bit_lib_get_bits_64 [0xAB, 0xCD] 12 4 = Inl OutOfBounds"
  using get_bits_64_word [of 4 "[0xAB, 0xCD, 0xEF]" 12] get_bits_64_word [of 4 "[0xAB, 0xCD]" 12]
  by (simp add: msb_bits_def msb_bit_def upt_rec)

section \<open>Binary-coded decimal\<close>

definition digits_of :: "u8 \<Rightarrow> nat list" where
  "digits_of b = [unat b div 16, unat b mod 16]"

definition decimal :: "nat list \<Rightarrow> nat" where
  "decimal ds = foldl (\<lambda>r d. 10 * r + d) 0 ds"

lemma decimal_snoc2: "decimal (ds @ [a, b]) = 10 * (10 * decimal ds + a) + b"
  by (simp add: decimal_def)

lemma digit_bounds: "d \<in> set (digits_of b) \<Longrightarrow> d \<le> 15"
  using unsigned_less [of b, where ?'a=nat] by (auto simp: digits_of_def)

lemma decimal_bound: "(\<forall>d \<in> set ds. d \<le> 15) \<Longrightarrow> 3 * decimal ds + 5 \<le> 5 * 10 ^ length ds"
  by (induction ds rule: rev_induct) (auto simp: decimal_def)

text \<open>
  up to nine bytes of binary-coded decimal are read as their decimal value, which fits 64 bits
  even when some half-byte is no digit, and the flag says whether all of them are digits.
\<close>

theorem bytes_to_num_bcd_value:
  assumes "n \<le> 9" and "n \<le> length src"
  shows "bit_lib_bytes_to_num_bcd src n =
     Inr (of_nat (decimal (concat (map digits_of (take n src)))), list_all (\<lambda>d. d \<le> 9) (concat (map digits_of (take n src)))) \<and>
   decimal (concat (map digits_of (take n src))) < 2 ^ 64"
proof
  let ?f = "\<lambda>i (r :: u64, is_bcd). bindr (list_get src i) (\<lambda>b.
      let nibble_1 = b div 16; nibble_2 = b mod 16 in
      Inr ((r * 10 + ucast nibble_1) * 10 + ucast nibble_2, is_bcd \<and> \<not> (nibble_1 > 9 \<or> nibble_2 > 9)))"
  have nibbles: "unat b div 16 = unat (b div 16)" "unat b mod 16 = unat (b mod 16)" for b :: u8
    by (simp_all add: unat_div_distrib unat_mod_distrib)
  have digits: "(b div 16 \<le> 9) = (unat b div 16 \<le> 9)" "(b mod 16 \<le> 9) = (unat b mod 16 \<le> 9)"
    "(ucast (b div 16) :: u64) = of_nat (unat b div 16)" "(ucast (b mod 16) :: u64) = of_nat (unat b mod 16)" for b :: u8
    unfolding nibbles by (simp_all add: word_le_nat_alt)
  have "for_each ?f [0..<n] (0, True) =
      Inr (of_nat (decimal (concat (map digits_of (take n src)))), list_all (\<lambda>d. d \<le> 9) (concat (map digits_of (take n src))))"
    using assms(2)
  proof (induction n)
    case (Suc n)
    then have "take (Suc n) src = take n src @ [src ! n]" by (simp add: take_Suc_conv_app_nth)
    with Suc show ?case
      by (simp add: for_each_Suc list_get_ok decimal_snoc2 digits digits_of_def Let_def algebra_simps not_less del: upt_Suc)
  qed (simp add: decimal_def)
  with assms(1) show "bit_lib_bytes_to_num_bcd src n =
     Inr (of_nat (decimal (concat (map digits_of (take n src)))), list_all (\<lambda>d. d \<le> 9) (concat (map digits_of (take n src))))"
    by (simp add: bit_lib_bytes_to_num_bcd_def)
  let ?ds = "concat (map digits_of (take n src))"
  have "length ?ds = 2 * n" using assms(2) by (simp add: length_concat digits_of_def comp_def sum_list_triv)
  moreover have "3 * decimal ?ds + 5 \<le> 5 * 10 ^ length ?ds"
    by (rule decimal_bound) (auto dest: digit_bounds)
  moreover have "(10 :: nat) ^ (2 * n) \<le> 10 ^ 18" using assms(1) by (intro power_increasing) simp_all
  ultimately show "decimal ?ds < 2 ^ 64" by simp
qed

theorem bytes_to_num_bcd_value_witness:
  "bit_lib_bytes_to_num_bcd [0x12, 0x3A] 2 = Inr (1240, False)"
  using bytes_to_num_bcd_value [of 2 "[0x12, 0x3A]"] by (simp add: digits_of_def decimal_def)

end
