(* ===== verification/Bit_Buffer.thy ===== *)
theory Bit_Buffer
  imports Bytes
begin

text \<open>
  The bit buffer (\<^verbatim>\<open>lib/toolbox/bit_buffer.c\<close>): a byte array of a fixed capacity with a length
  in bits, least significant bit first, and one parity bit per byte beside it. Sizes are
  \<^verbatim>\<open>size_t\<close>: sums and products are taken modulo \<open>2 ^ 32\<close> and differences wrap. The pointers
  checked against null are not modelled: a buffer is a value.
\<close>

section \<open>Sizes and memory\<close>

definition sz :: "nat \<Rightarrow> nat" where
  "sz n = n mod 2 ^ 32"

definition size_sub :: "nat \<Rightarrow> nat \<Rightarrow> nat" where
  "size_sub a b = (if b \<le> a then a - b else 2 ^ 32 + a - b)"

lemma sz_small [simp]: "n < 4294967296 \<Longrightarrow> sz n = n"
  by (simp add: sz_def)

lemma size_sub_le [simp]: "b \<le> a \<Longrightarrow> size_sub a b = a - b"
  by (simp add: size_sub_def)

text \<open>\<^verbatim>\<open>memcpy(dst + off, src + src_off, n)\<close> for arrays that do not overlap.\<close>

definition mem_copy :: "'a list \<Rightarrow> nat \<Rightarrow> 'a list \<Rightarrow> nat \<Rightarrow> nat \<Rightarrow> 'a list res" where
  "mem_copy dst off src src_off n =
     (if off + n \<le> length dst \<and> src_off + n \<le> length src
      then Inr (take off dst @ take n (drop src_off src) @ drop (off + n) dst) else Inl OutOfBounds)"

section \<open>The buffer\<close>

record bit_buffer =
  bb_data :: "u8 list"
  bb_parity :: "u8 list"
  bb_capacity_bytes :: nat
  bb_size_bits :: nat

definition parity_buf_size :: "nat \<Rightarrow> nat" where
  "parity_buf_size capacity_bytes = sz (capacity_bytes + 7) div 8"

text \<open>The allocator returns zeroed memory.\<close>

definition bit_buffer_alloc :: "nat \<Rightarrow> bit_buffer res" where
  "bit_buffer_alloc capacity_bytes =
     bindr (furi_check (capacity_bytes \<noteq> 0)) (\<lambda>_.
       Inr \<lparr>bb_data = replicate capacity_bytes 0, bb_parity = replicate (parity_buf_size capacity_bytes) 0,
            bb_capacity_bytes = capacity_bytes, bb_size_bits = 0\<rparr>)"

definition bit_buffer_get_size_bytes :: "bit_buffer \<Rightarrow> nat" where
  "bit_buffer_get_size_bytes buf = bb_size_bits buf div 8 + (if bb_size_bits buf mod 8 \<noteq> 0 then 1 else 0)"

definition bit_buffer_get_capacity_bytes :: "bit_buffer \<Rightarrow> nat" where
  "bit_buffer_get_capacity_bytes buf = bb_capacity_bytes buf"

definition bit_buffer_get_size :: "bit_buffer \<Rightarrow> nat" where
  "bit_buffer_get_size buf = bb_size_bits buf"

definition bit_buffer_get_data :: "bit_buffer \<Rightarrow> u8 list" where
  "bit_buffer_get_data buf = bb_data buf"

definition bit_buffer_get_parity :: "bit_buffer \<Rightarrow> u8 list" where
  "bit_buffer_get_parity buf = bb_parity buf"

definition bit_buffer_has_partial_byte :: "bit_buffer \<Rightarrow> bool" where
  "bit_buffer_has_partial_byte buf \<longleftrightarrow> bb_size_bits buf mod 8 \<noteq> 0"

definition bit_buffer_starts_with_byte :: "bit_buffer \<Rightarrow> u8 \<Rightarrow> bool res" where
  "bit_buffer_starts_with_byte buf byte =
     (if bit_buffer_get_size_bytes buf \<noteq> 0 then bindr (list_get (bb_data buf) 0) (\<lambda>b. Inr (b = byte)) else Inr False)"

definition bit_buffer_reset :: "bit_buffer \<Rightarrow> bit_buffer res" where
  "bit_buffer_reset buf =
     bindr (mem_copy (bb_data buf) 0 (replicate (bb_capacity_bytes buf) 0) 0 (bb_capacity_bytes buf)) (\<lambda>d.
     let n = parity_buf_size (bb_capacity_bytes buf) in
     bindr (mem_copy (bb_parity buf) 0 (replicate n 0) 0 n) (\<lambda>p.
       Inr (buf\<lparr>bb_data := d, bb_parity := p, bb_size_bits := 0\<rparr>)))"

section \<open>Copying\<close>

text \<open>\<^verbatim>\<open>buf\<close> and \<^verbatim>\<open>other\<close> are different buffers (copying a buffer onto itself does nothing).\<close>

definition bit_buffer_copy :: "bit_buffer \<Rightarrow> bit_buffer \<Rightarrow> bit_buffer res" where
  "bit_buffer_copy buf other =
     bindr (furi_check (sz (bb_capacity_bytes buf * 8) \<ge> bb_size_bits other)) (\<lambda>_.
     bindr (mem_copy (bb_data buf) 0 (bb_data other) 0 (bit_buffer_get_size_bytes other)) (\<lambda>d.
       Inr (buf\<lparr>bb_data := d, bb_size_bits := bb_size_bits other\<rparr>)))"

definition bit_buffer_copy_right :: "bit_buffer \<Rightarrow> bit_buffer \<Rightarrow> nat \<Rightarrow> bit_buffer res" where
  "bit_buffer_copy_right buf other start_index =
     bindr (furi_check (bit_buffer_get_size_bytes other > start_index)) (\<lambda>_.
     bindr (furi_check (bb_capacity_bytes buf \<ge> bit_buffer_get_size_bytes other - start_index)) (\<lambda>_.
     bindr (mem_copy (bb_data buf) 0 (bb_data other) start_index (bit_buffer_get_size_bytes other - start_index)) (\<lambda>d.
       Inr (buf\<lparr>bb_data := d, bb_size_bits := size_sub (bb_size_bits other) (sz (start_index * 8))\<rparr>))))"

definition bit_buffer_copy_left :: "bit_buffer \<Rightarrow> bit_buffer \<Rightarrow> nat \<Rightarrow> bit_buffer res" where
  "bit_buffer_copy_left buf other end_index =
     bindr (furi_check (bit_buffer_get_capacity_bytes buf \<ge> end_index)) (\<lambda>_.
     bindr (furi_check (bit_buffer_get_size_bytes other \<ge> end_index)) (\<lambda>_.
     bindr (mem_copy (bb_data buf) 0 (bb_data other) 0 end_index) (\<lambda>d.
       Inr (buf\<lparr>bb_data := d, bb_size_bits := sz (end_index * 8)\<rparr>))))"

definition bit_buffer_copy_bytes :: "bit_buffer \<Rightarrow> u8 list \<Rightarrow> nat \<Rightarrow> bit_buffer res" where
  "bit_buffer_copy_bytes buf data size_bytes =
     bindr (furi_check (bb_capacity_bytes buf \<ge> size_bytes)) (\<lambda>_.
     bindr (mem_copy (bb_data buf) 0 data 0 size_bytes) (\<lambda>d.
       Inr (buf\<lparr>bb_data := d, bb_size_bits := sz (size_bytes * 8)\<rparr>)))"

definition bit_buffer_copy_bits :: "bit_buffer \<Rightarrow> u8 list \<Rightarrow> nat \<Rightarrow> bit_buffer res" where
  "bit_buffer_copy_bits buf data size_bits =
     bindr (furi_check (sz (bb_capacity_bytes buf * 8) \<ge> size_bits)) (\<lambda>_.
     bindr (mem_copy (bb_data buf) 0 data 0 (sz (size_bits + 7) div 8)) (\<lambda>d.
       Inr (buf\<lparr>bb_data := d, bb_size_bits := size_bits\<rparr>)))"

text \<open>
  The loop of \<^verbatim>\<open>bit_buffer_copy_bytes_with_parity\<close>: each turn takes eight data bits and the
  parity bit behind them; \<open>size_bits\<close> is a multiple of nine.
\<close>

definition unparity_step :: "u8 list \<Rightarrow> nat \<Rightarrow> bit_buffer \<Rightarrow> bit_buffer res" where
  "unparity_step data curr_byte buf =
     (let bits_processed = 9 * curr_byte; q = bits_processed div 8; r = bits_processed mod 8 in
      bindr (list_get data q) (\<lambda>lo.
      bindr (list_set (bb_data buf) curr_byte (drop_bit r lo)) (\<lambda>d1.
      bindr (list_get data (q + 1)) (\<lambda>hi.
      bindr (list_set d1 curr_byte (drop_bit r lo OR push_bit (8 - r) hi)) (\<lambda>d2.
      let b = (drop_bit r hi AND 1 :: u8) in
      bindr (if r = 0
             then list_set (bb_parity buf) (curr_byte div 8) b
             else bindr (list_get (bb_parity buf) (curr_byte div 8)) (\<lambda>p.
                    list_set (bb_parity buf) (curr_byte div 8) (p OR push_bit r b))) (\<lambda>par.
        Inr (buf\<lparr>bb_data := d2, bb_parity := par\<rparr>)))))))"

definition bit_buffer_copy_bytes_with_parity :: "bit_buffer \<Rightarrow> u8 list \<Rightarrow> nat \<Rightarrow> bit_buffer res" where
  "bit_buffer_copy_bytes_with_parity buf data size_bits =
     (if size_bits < 9
      then bindr (list_get data 0) (\<lambda>b. bindr (list_set (bb_data buf) 0 b) (\<lambda>d.
             Inr (buf\<lparr>bb_size_bits := size_bits, bb_data := d\<rparr>)))
      else bindr (furi_check (size_bits mod 9 = 0)) (\<lambda>_.
           bindr (for_each (unparity_step data) [0..<size_bits div 9] buf) (\<lambda>buf.
             Inr (buf\<lparr>bb_size_bits := sz (size_bits div 9 * 8)\<rparr>))))"

definition bit_buffer_write_bytes :: "bit_buffer \<Rightarrow> u8 list \<Rightarrow> nat \<Rightarrow> u8 list res" where
  "bit_buffer_write_bytes buf dest size_bytes =
     bindr (furi_check (bit_buffer_get_size_bytes buf \<le> size_bytes)) (\<lambda>_.
       mem_copy dest 0 (bb_data buf) 0 (bit_buffer_get_size_bytes buf))"

definition bit_buffer_write_bytes_mid :: "bit_buffer \<Rightarrow> u8 list \<Rightarrow> nat \<Rightarrow> nat \<Rightarrow> u8 list res" where
  "bit_buffer_write_bytes_mid buf dest start_index size_bytes =
     bindr (furi_check (sz (start_index + size_bytes) \<le> bit_buffer_get_size_bytes buf)) (\<lambda>_.
       mem_copy dest 0 (bb_data buf) start_index size_bytes)"

text \<open>
  One turn of \<^verbatim>\<open>bit_buffer_write_bytes_with_parity\<close>; \<open>pos\<close> is the \<^verbatim>\<open>uint16_t\<close> position
  in bits.
\<close>

definition parity_step :: "bit_buffer \<Rightarrow> nat \<Rightarrow> u8 list \<times> nat \<Rightarrow> (u8 list \<times> nat) res" where
  "parity_step buf i s =
     (let (out, pos) = s in
      bindr (list_get (bb_parity buf) (i div 8)) (\<lambda>par.
      let next_par_bit = (drop_bit (i mod 8) par AND 1 :: u8) in
      bindr (list_get (bb_data buf) i) (\<lambda>b.
      if pos mod 8 = 0
      then bindr (list_set out (pos div 8) b) (\<lambda>out.
           let pos = (pos + 8) mod 2 ^ 16 in
           bindr (list_set out (pos div 8) next_par_bit) (\<lambda>out. Inr (out, inc16 pos)))
      else bindr (list_get out (pos div 8)) (\<lambda>x.
           bindr (list_set out (pos div 8) (x OR push_bit (pos mod 8) b)) (\<lambda>out.
           let y = drop_bit (8 - pos mod 8) b in
           bindr (list_set out (pos div 8 + 1) (y OR push_bit (pos mod 8) next_par_bit)) (\<lambda>out.
             Inr (out, (pos + 9) mod 2 ^ 16)))))))"

definition bit_buffer_write_bytes_with_parity :: "bit_buffer \<Rightarrow> u8 list \<Rightarrow> nat \<Rightarrow> (u8 list \<times> nat) res" where
  "bit_buffer_write_bytes_with_parity buf dest size_bytes =
     (let buf_size_bytes = bit_buffer_get_size_bytes buf in
      bindr (furi_check (sz (buf_size_bytes * 9 + 8) div 8 \<le> size_bytes)) (\<lambda>_.
        for_each (parity_step buf) [0..<buf_size_bytes] (dest, 0)))"

section \<open>Single bytes and sizes\<close>

definition bit_buffer_get_byte :: "bit_buffer \<Rightarrow> nat \<Rightarrow> u8 res" where
  "bit_buffer_get_byte buf index =
     bindr (furi_check (bb_capacity_bytes buf > index)) (\<lambda>_. list_get (bb_data buf) index)"

definition bit_buffer_get_byte_from_bit :: "bit_buffer \<Rightarrow> nat \<Rightarrow> u8 res" where
  "bit_buffer_get_byte_from_bit buf index_bits =
     bindr (furi_check (sz (bb_capacity_bytes buf * 8) > index_bits)) (\<lambda>_.
     let byte_index = index_bits div 8; bit_offset = index_bits mod 8 in
     bindr (list_get (bb_data buf) byte_index) (\<lambda>x.
     bindr (list_get (bb_data buf) (byte_index + 1)) (\<lambda>y.
       Inr (drop_bit bit_offset x OR push_bit (8 - bit_offset) y))))"

definition bit_buffer_set_byte :: "bit_buffer \<Rightarrow> nat \<Rightarrow> u8 \<Rightarrow> bit_buffer res" where
  "bit_buffer_set_byte buf index byte =
     bindr (furi_check (bit_buffer_get_size_bytes buf > index)) (\<lambda>_.
     bindr (list_set (bb_data buf) index byte) (\<lambda>d. Inr (buf\<lparr>bb_data := d\<rparr>)))"

definition bit_buffer_set_byte_with_parity :: "bit_buffer \<Rightarrow> nat \<Rightarrow> u8 \<Rightarrow> bool \<Rightarrow> bit_buffer res" where
  "bit_buffer_set_byte_with_parity buff index byte parity =
     bindr (furi_check (bb_size_bits buff div 8 > index)) (\<lambda>_.
     bindr (list_set (bb_data buff) index byte) (\<lambda>d.
     bindr (if index mod 8 = 0
            then list_set (bb_parity buff) (index div 8) (of_bool parity)
            else bindr (list_get (bb_parity buff) (index div 8)) (\<lambda>p.
                   list_set (bb_parity buff) (index div 8) (p OR push_bit (index mod 8) (of_bool parity)))) (\<lambda>par.
       Inr (buff\<lparr>bb_data := d, bb_parity := par\<rparr>))))"

definition bit_buffer_set_size :: "bit_buffer \<Rightarrow> nat \<Rightarrow> bit_buffer res" where
  "bit_buffer_set_size buf new_size =
     bindr (furi_check (sz (bb_capacity_bytes buf * 8) \<ge> new_size)) (\<lambda>_. Inr (buf\<lparr>bb_size_bits := new_size\<rparr>))"

definition bit_buffer_set_size_bytes :: "bit_buffer \<Rightarrow> nat \<Rightarrow> bit_buffer res" where
  "bit_buffer_set_size_bytes buf new_size_bytes =
     bindr (furi_check (bb_capacity_bytes buf \<ge> new_size_bytes)) (\<lambda>_.
       Inr (buf\<lparr>bb_size_bits := sz (new_size_bytes * 8)\<rparr>))"

section \<open>Appending\<close>

definition bit_buffer_append_right :: "bit_buffer \<Rightarrow> bit_buffer \<Rightarrow> nat \<Rightarrow> bit_buffer res" where
  "bit_buffer_append_right buf other start_index =
     (let size_bytes = bit_buffer_get_size_bytes buf;
          other_size_bytes = size_sub (bit_buffer_get_size_bytes other) start_index in
      bindr (furi_check (bb_capacity_bytes buf \<ge> sz (size_bytes + other_size_bytes))) (\<lambda>_.
      bindr (mem_copy (bb_data buf) size_bytes (bb_data other) start_index other_size_bytes) (\<lambda>d.
        Inr (buf\<lparr>bb_data := d,
                 bb_size_bits := sz (bb_size_bits buf + size_sub (bb_size_bits other) (sz (start_index * 8)))\<rparr>))))"

definition bit_buffer_append :: "bit_buffer \<Rightarrow> bit_buffer \<Rightarrow> bit_buffer res" where
  "bit_buffer_append buf other = bit_buffer_append_right buf other 0"

definition bit_buffer_append_byte :: "bit_buffer \<Rightarrow> u8 \<Rightarrow> bit_buffer res" where
  "bit_buffer_append_byte buf byte =
     (let data_size_bytes = bit_buffer_get_size_bytes buf; new_data_size_bytes = sz (data_size_bytes + 1) in
      bindr (furi_check (new_data_size_bytes \<le> bb_capacity_bytes buf)) (\<lambda>_.
      bindr (list_set (bb_data buf) data_size_bytes byte) (\<lambda>d.
        Inr (buf\<lparr>bb_data := d, bb_size_bits := sz (new_data_size_bytes * 8)\<rparr>))))"

definition bit_buffer_append_bytes :: "bit_buffer \<Rightarrow> u8 list \<Rightarrow> nat \<Rightarrow> bit_buffer res" where
  "bit_buffer_append_bytes buf data size_bytes =
     (let buf_size_bytes = bit_buffer_get_size_bytes buf in
      bindr (furi_check (bb_capacity_bytes buf \<ge> sz (buf_size_bytes + size_bytes))) (\<lambda>_.
      bindr (mem_copy (bb_data buf) buf_size_bytes data 0 size_bytes) (\<lambda>d.
        Inr (buf\<lparr>bb_data := d, bb_size_bits := sz (bb_size_bits buf + sz (size_bytes * 8))\<rparr>))))"

definition bit_buffer_append_bit :: "bit_buffer \<Rightarrow> bool \<Rightarrow> bit_buffer res" where
  "bit_buffer_append_bit buf b =
     bindr (furi_check (bit_buffer_get_size_bytes buf \<le>
       size_sub (bb_capacity_bytes buf) (if bit_buffer_has_partial_byte buf then 0 else 1))) (\<lambda>_.
     bindr (if b
            then let byte_index = bb_size_bits buf div 8; bit_offset = bb_size_bits buf mod 8 in
                 bindr (list_get (bb_data buf) byte_index) (\<lambda>x.
                   list_set (bb_data buf) byte_index (x OR push_bit bit_offset 1))
            else Inr (bb_data buf)) (\<lambda>d.
       Inr (buf\<lparr>bb_data := d, bb_size_bits := inc32 (bb_size_bits buf)\<rparr>)))"

end
