(* ===== verification/Bit_Buffer_Facts.thy ===== *)
theory Bit_Buffer_Facts
  imports Bit_Buffer
begin

text \<open>
  The invariant of the bit buffer over every sequence of its operations with any arguments: the length is
  in range or has wrapped around. Which operations stay inside the arrays, and which let an access outside through.
\<close>

section \<open>The invariant\<close>

text \<open>The capacity is bounded by the memory of the device, so that its number of bits does not wrap.\<close>

definition bb_shape :: "bit_buffer \<Rightarrow> bool" where
  "bb_shape b \<longleftrightarrow> 0 < bb_capacity_bytes b \<and> bb_capacity_bytes b < 2 ^ 28 \<and> length (bb_data b) = bb_capacity_bytes b \<and>
     length (bb_parity b) = (bb_capacity_bytes b + 7) div 8"

definition bb_in_range :: "bit_buffer \<Rightarrow> bool" where
  "bb_in_range b \<longleftrightarrow> bit_buffer_get_size b \<le> 8 * bit_buffer_get_capacity_bytes b"

definition bb_ok :: "bit_buffer \<Rightarrow> bool" where
  "bb_ok b \<longleftrightarrow> 0 < bb_capacity_bytes b \<and> bb_capacity_bytes b < 2 ^ 28 \<and> length (bb_data b) = bb_capacity_bytes b \<and>
     length (bb_parity b) = (bb_capacity_bytes b + 7) div 8 \<and> bb_size_bits b \<le> 8 * bb_capacity_bytes b"

text \<open>The sizes that \<^verbatim>\<open>bit_buffer_append_right\<close> wraps to.\<close>

definition bb_wrapped :: "bit_buffer \<Rightarrow> bool" where
  "bb_wrapped b \<longleftrightarrow> bb_shape b \<and> 2 ^ 32 - 7 \<le> bb_size_bits b \<and> bb_size_bits b < 2 ^ 32"

lemma in_range_iff: "bb_in_range b \<longleftrightarrow> bb_size_bits b \<le> 8 * bb_capacity_bytes b"
  by (simp add: bb_in_range_def bit_buffer_get_size_def bit_buffer_get_capacity_bytes_def)

lemma ok_iff: "bb_ok b \<longleftrightarrow> bb_shape b \<and> bb_in_range b"
  by (auto simp: bb_ok_def bb_shape_def in_range_iff)

lemma ok_shape: "bb_ok b \<Longrightarrow> bb_shape b"
  by (simp add: ok_iff)

lemma size_bytes_eq: "bit_buffer_get_size_bytes b = (bb_size_bits b + 7) div 8"
proof -
  obtain q r where s: "bb_size_bits b = 8 * q + r" "r < 8"
    by (metis mod_less_divisor mult_div_mod_eq zero_less_numeral)
  then have "(8 * q + r + 7) div 8 = q + (if r = 0 then 0 else 1)" by (auto simp: div_nat_eqI)
  with s show ?thesis by (simp add: bit_buffer_get_size_bytes_def)
qed

lemma size_bytes_bounds:
  "bb_size_bits b \<le> 8 * bit_buffer_get_size_bytes b" "8 * bit_buffer_get_size_bytes b < bb_size_bits b + 8"
  by (simp_all add: size_bytes_eq)

lemma size_bytes_le: "bb_ok b \<Longrightarrow> bit_buffer_get_size_bytes b \<le> bb_capacity_bytes b"
  unfolding size_bytes_eq bb_ok_def by linarith

lemma mem_copy_length: "mem_copy dst off src soff n = Inr d \<Longrightarrow> length d = length dst \<and> off + n \<le> length dst \<and> soff + n \<le> length src"
  by (auto simp: mem_copy_def split: if_splits)

lemma list_set_length: "list_set xs i x = Inr ys \<Longrightarrow> length ys = length xs \<and> i < length xs"
  by (auto simp: list_set_def split: if_splits)

lemma wrapped_bytes: "bb_wrapped b \<Longrightarrow> bit_buffer_get_size_bytes b = 2 ^ 29"
  unfolding size_bytes_eq bb_wrapped_def by (simp add: div_nat_eqI)

lemma wrapped_not_in_range: "bb_wrapped b \<Longrightarrow> \<not> bb_in_range b"
  by (auto simp: bb_wrapped_def bb_shape_def in_range_iff)

lemma alloc_ok: "bit_buffer_alloc n = Inr b \<Longrightarrow> n < 2 ^ 28 \<Longrightarrow> bb_ok b"
  by (auto simp: bit_buffer_alloc_def bindr_eq_Inr bb_ok_def parity_buf_size_def)

lemma mem_clear: "mem_copy d 0 (replicate (length d) x) 0 (length d) = Inr (replicate (length d) x)"
  by (simp add: mem_copy_def)

lemma reset_ok:
  assumes "bb_shape b"
  shows "bit_buffer_reset b = Inr (b\<lparr>bb_data := replicate (bb_capacity_bytes b) 0,
    bb_parity := replicate (length (bb_parity b)) 0, bb_size_bits := 0\<rparr>)"
    and "bit_buffer_reset b = Inr b' \<Longrightarrow> bb_ok b'"
proof -
  have "bb_capacity_bytes b = length (bb_data b)" "parity_buf_size (bb_capacity_bytes b) = length (bb_parity b)"
    using assms by (simp_all add: bb_shape_def parity_buf_size_def)
  then show r: "bit_buffer_reset b = Inr (b\<lparr>bb_data := replicate (bb_capacity_bytes b) 0,
    bb_parity := replicate (length (bb_parity b)) 0, bb_size_bits := 0\<rparr>)"
    by (simp only: bit_buffer_reset_def Let_def mem_clear bindr_Inr)
  show "bit_buffer_reset b = Inr b' \<Longrightarrow> bb_ok b'" using assms by (auto simp: r bb_ok_def bb_shape_def)
qed

lemma copies_ok:
  assumes "bb_shape b" and "bb_shape c"
  shows "bit_buffer_copy b c = Inr b' \<Longrightarrow> bb_ok b'"
    and "bit_buffer_copy_right b c i = Inr b' \<Longrightarrow> bb_ok b'"
    and "bit_buffer_copy_left b c i = Inr b' \<Longrightarrow> bb_ok b'"
    and "bit_buffer_copy_bytes b data i = Inr b' \<Longrightarrow> bb_ok b'"
    and "bit_buffer_copy_bits b data i = Inr b' \<Longrightarrow> bb_ok b'"
proof -
  show "bit_buffer_copy b c = Inr b' \<Longrightarrow> bb_ok b'"
    using assms by (auto simp: bit_buffer_copy_def bindr_eq_Inr bb_ok_def bb_shape_def dest!: mem_copy_length)
  show "bit_buffer_copy_left b c i = Inr b' \<Longrightarrow> bb_ok b'"
    using assms by (auto simp: bit_buffer_copy_left_def bindr_eq_Inr bb_ok_def bb_shape_def bit_buffer_get_capacity_bytes_def dest!: mem_copy_length)
  show "bit_buffer_copy_bytes b data i = Inr b' \<Longrightarrow> bb_ok b'"
    using assms by (auto simp: bit_buffer_copy_bytes_def bindr_eq_Inr bb_ok_def bb_shape_def dest!: mem_copy_length)
  show "bit_buffer_copy_bits b data i = Inr b' \<Longrightarrow> bb_ok b'"
    using assms by (auto simp: bit_buffer_copy_bits_def bindr_eq_Inr bb_ok_def bb_shape_def dest!: mem_copy_length)
next
  assume "bit_buffer_copy_right b c i = Inr b'"
  then obtain d where d: "mem_copy (bb_data b) 0 (bb_data c) i (bit_buffer_get_size_bytes c - i) = Inr d"
    and b': "b' = b\<lparr>bb_data := d, bb_size_bits := size_sub (bb_size_bits c) (sz (i * 8))\<rparr>"
    and i: "i < bit_buffer_get_size_bytes c" "bit_buffer_get_size_bytes c - i \<le> bb_capacity_bytes b"
    by (auto simp: bit_buffer_copy_right_def bindr_eq_Inr)
  have "8 * i \<le> bb_size_bits c" "bb_size_bits c - 8 * i \<le> 8 * bb_capacity_bytes b"
    using i size_bytes_bounds [of c] by linarith+
  moreover have "sz (i * 8) = i * 8" using i(1) mem_copy_length [OF d] assms(2) by (simp add: bb_shape_def)
  ultimately show "bb_ok b'" using assms(1) mem_copy_length [OF d] by (simp add: b' bb_ok_def bb_shape_def)
qed

lemma unparity_step_ok: "bb_shape b \<Longrightarrow> unparity_step data i b = Inr b' \<Longrightarrow>
    bb_shape b' \<and> bb_capacity_bytes b' = bb_capacity_bytes b \<and> i < bb_capacity_bytes b"
  by (auto simp: unparity_step_def Let_def bindr_eq_Inr bb_shape_def dest!: list_set_length split: if_splits)

lemma copy_with_parity_ok:
  assumes b: "bb_shape b" and c: "bit_buffer_copy_bytes_with_parity b data n = Inr b'"
  shows "bb_ok b'"
proof (cases "n < 9")
  case True
  with assms show ?thesis
    by (auto simp: bit_buffer_copy_bytes_with_parity_def bindr_eq_Inr bb_ok_def bb_shape_def dest!: list_set_length)
next
  case False
  let ?k = "n div 9"
  from False c obtain c' where loop: "for_each (unparity_step data) [0..<?k] b = Inr c'"
    and b': "b' = c'\<lparr>bb_size_bits := sz (?k * 8)\<rparr>"
    by (auto simp: bit_buffer_copy_bytes_with_parity_def bindr_eq_Inr)
  have "for_each (unparity_step data) [0..<m] b = Inr c \<Longrightarrow> bb_shape c \<and> bb_capacity_bytes c = bb_capacity_bytes b \<and> m \<le> bb_capacity_bytes b"
    for m c
  proof (induction m arbitrary: c)
    case (Suc m)
    then obtain u where u: "for_each (unparity_step data) [0..<m] b = Inr u" "unparity_step data m u = Inr c"
      by (auto simp: for_each_Suc bindr_eq_Inr simp del: upt_Suc)
    from Suc.IH [OF u(1)] unparity_step_ok [OF _ u(2)] show ?case by auto
  qed (use b in simp)
  from this [OF loop] show ?thesis using b by (auto simp: b' bb_ok_def bb_shape_def)
qed

lemma writes_keep:
  assumes "bb_shape b"
  shows "bit_buffer_set_byte b i x = Inr b' \<Longrightarrow> bb_shape b' \<and> bb_size_bits b' = bb_size_bits b \<and> bb_capacity_bytes b' = bb_capacity_bytes b"
    and "bit_buffer_set_byte_with_parity b i x p = Inr b' \<Longrightarrow>
      bb_shape b' \<and> bb_size_bits b' = bb_size_bits b \<and> bb_capacity_bytes b' = bb_capacity_bytes b"
  using assms by (auto simp: bit_buffer_set_byte_def bit_buffer_set_byte_with_parity_def bindr_eq_Inr bb_shape_def
      dest!: list_set_length split: if_splits)

lemma sizes_ok:
  assumes "bb_shape b"
  shows "bit_buffer_set_size b n = Inr b' \<Longrightarrow> bb_ok b'"
    and "bit_buffer_set_size_bytes b n = Inr b' \<Longrightarrow> bb_ok b'"
  using assms by (auto simp: bit_buffer_set_size_def bit_buffer_set_size_bytes_def bindr_eq_Inr bb_ok_def bb_shape_def)

text \<open>What a wrapped size does: nothing can be appended to the buffer, nothing of it be copied from a byte on.\<close>

lemma wrapped_fails:
  assumes "bb_wrapped b"
  shows "bit_buffer_append_byte b x = Inl FuriCheck" and "bit_buffer_append_bit b p = Inl FuriCheck"
    and "bit_buffer_append_bytes b data n \<noteq> Inr b'" and "bit_buffer_append_right b c i \<noteq> Inr b'"
    and "bit_buffer_append_right c b i \<noteq> Inr b'"
proof -
  have w: "bit_buffer_get_size_bytes b = 2 ^ 29" "bb_capacity_bytes b < 2 ^ 28" "0 < bb_capacity_bytes b" "length (bb_data b) = bb_capacity_bytes b"
    using assms wrapped_bytes by (simp_all add: bb_wrapped_def bb_shape_def)
  then have "\<not> 2 ^ 29 \<le> bb_capacity_bytes b - Suc 0" by simp
  with w show "bit_buffer_append_byte b x = Inl FuriCheck" "bit_buffer_append_bit b p = Inl FuriCheck"
    by (simp_all add: bit_buffer_append_byte_def bit_buffer_append_bit_def furi_check_def bindr_def)
  show "bit_buffer_append_bytes b data n \<noteq> Inr b'" "bit_buffer_append_right b c i \<noteq> Inr b'"
    using w by (auto simp: bit_buffer_append_bytes_def bit_buffer_append_right_def bindr_eq_Inr mem_copy_def)
  show "bit_buffer_append_right c b i \<noteq> Inr b'"
    using w by (auto simp: bit_buffer_append_right_def bindr_eq_Inr mem_copy_def size_sub_def split: if_splits)
qed

lemma append_byte_ok: "bb_ok b \<Longrightarrow> bit_buffer_append_byte b x = Inr b' \<Longrightarrow> bb_ok b'"
  using size_bytes_le [of b] by (auto simp: bit_buffer_append_byte_def Let_def bindr_eq_Inr bb_ok_def dest!: list_set_length)

lemma append_bytes_ok:
  assumes b: "bb_ok b" and a: "bit_buffer_append_bytes b data n = Inr b'"
  shows "bb_ok b'"
proof -
  let ?s = "bit_buffer_get_size_bytes b"
  from a obtain d where d: "mem_copy (bb_data b) ?s data 0 n = Inr d"
    and b': "b' = b\<lparr>bb_data := d, bb_size_bits := sz (bb_size_bits b + sz (n * 8))\<rparr>"
    by (auto simp: bit_buffer_append_bytes_def Let_def bindr_eq_Inr)
  from mem_copy_length [OF d] b have n: "length d = bb_capacity_bytes b" "?s + n \<le> bb_capacity_bytes b"
    by (auto simp: bb_ok_def)
  with size_bytes_bounds(1) [of b] have "bb_size_bits b + n * 8 \<le> 8 * bb_capacity_bytes b" by linarith
  with n b show ?thesis by (simp add: b' bb_ok_def)
qed

text \<open>
  \<^verbatim>\<open>bit_buffer_append_right\<close> with a start in the bits that the last byte of the other buffer does not
  use subtracts these bits from the size, which wraps around when there are not as many.
\<close>

lemma append_right_inv:
  assumes b: "bb_ok b" "bb_ok c" and a: "bit_buffer_append_right b c i = Inr b'"
  shows "if 8 * i \<le> bb_size_bits b + bb_size_bits c then bb_ok b' else bb_wrapped b'"
proof -
  let ?s = "bit_buffer_get_size_bytes b" and ?t = "bit_buffer_get_size_bytes c"
  from a obtain d where d: "mem_copy (bb_data b) ?s (bb_data c) i (size_sub ?t i) = Inr d"
    and b': "b' = b\<lparr>bb_data := d, bb_size_bits := sz (bb_size_bits b + size_sub (bb_size_bits c) (sz (i * 8)))\<rparr>"
    by (auto simp: bit_buffer_append_right_def Let_def bindr_eq_Inr)
  note len = mem_copy_length [OF d]
  have it: "i \<le> ?t"
  proof (rule ccontr)
    assume "\<not> i \<le> ?t"
    then have "i + size_sub ?t i \<ge> 2 ^ 32" by (simp add: size_sub_def)
    with len b(2) show False by (simp add: bb_ok_def)
  qed
  then have i: "sz (i * 8) = 8 * i" "?s + (?t - i) \<le> bb_capacity_bytes b"
    using len b size_bytes_le [OF b(2)] by (simp_all add: bb_ok_def mult.commute)
  have shape: "length d = bb_capacity_bytes b" "bb_capacity_bytes b < 2 ^ 28" "bb_size_bits b \<le> 8 * bb_capacity_bytes b"
    using len b(1) by (simp_all add: bb_ok_def)
  have part: "8 * i \<le> bb_size_bits c + 7" using it size_bytes_bounds(2) [of c] by linarith
  show ?thesis
  proof (cases "8 * i \<le> bb_size_bits c")
    case True
    have "bb_size_bits b + (bb_size_bits c - 8 * i) \<le> 8 * bb_capacity_bytes b"
      using i(2) it size_bytes_bounds(1) [of b] size_bytes_bounds(1) [of c] by linarith
    then show ?thesis using True shape b(1) by (simp add: b' i(1) bb_ok_def)
  next
    case False
    then have sub: "size_sub (bb_size_bits c) (8 * i) = 2 ^ 32 + bb_size_bits c - 8 * i" by (simp add: size_sub_def)
    show ?thesis
    proof (cases "8 * i \<le> bb_size_bits b + bb_size_bits c")
      case True
      have "bb_size_bits b + (2 ^ 32 + bb_size_bits c - 8 * i) = (bb_size_bits b + bb_size_bits c - 8 * i) + 2 ^ 32"
        using True False part by simp
      moreover have "bb_size_bits b + bb_size_bits c - 8 * i \<le> bb_size_bits b" using False by simp
      ultimately have "sz (bb_size_bits b + size_sub (bb_size_bits c) (8 * i)) \<le> bb_size_bits b"
        unfolding sub sz_def using mod_less_eq_dividend [of "bb_size_bits b + bb_size_bits c - 8 * i" "2 ^ 32"] by simp
      then show ?thesis using True shape b(1) by (simp add: b' i(1) bb_ok_def)
    next
      case small: False
      then have "2 ^ 32 - 7 \<le> bb_size_bits b + (2 ^ 32 + bb_size_bits c - 8 * i)" "bb_size_bits b + (2 ^ 32 + bb_size_bits c - 8 * i) < 2 ^ 32"
        using part by simp_all
      then show ?thesis using small shape b(1) unfolding b' i(1) sub by (simp add: bb_wrapped_def bb_shape_def bb_ok_def)
    qed
  qed
qed

lemma append_bit_room:
  assumes b: "bb_ok b" and c: "bit_buffer_get_size_bytes b \<le>
     size_sub (bb_capacity_bytes b) (if bit_buffer_has_partial_byte b then 0 else 1)"
  shows "bb_size_bits b < 8 * bb_capacity_bytes b"
proof (cases "bb_size_bits b mod 8 = 0")
  case True
  then have "8 * bit_buffer_get_size_bytes b = bb_size_bits b" by (auto simp: bit_buffer_get_size_bytes_def)
  moreover have "bit_buffer_get_size_bytes b \<le> bb_capacity_bytes b - 1"
    using c True b by (simp add: bit_buffer_has_partial_byte_def bb_ok_def)
  ultimately show ?thesis using b unfolding bb_ok_def by linarith
next
  case False
  then have "bb_size_bits b \<noteq> 8 * bb_capacity_bytes b" by auto
  with b show ?thesis by (simp add: bb_ok_def)
qed

lemma append_bit_ok:
  assumes b: "bb_ok b" and a: "bit_buffer_append_bit b x = Inr b'"
  shows "bb_ok b'"
proof -
  have "bb_size_bits b < 8 * bb_capacity_bytes b"
    using append_bit_room [OF b] a by (auto simp: bit_buffer_append_bit_def bindr_eq_Inr)
  with assms show ?thesis
    by (auto simp: bit_buffer_append_bit_def bindr_eq_Inr bb_ok_def Let_def dest!: list_set_length split: if_splits)
qed

text \<open>Buffers that the operations can build from allocated ones, with any arguments.\<close>

inductive bb_reachable :: "bit_buffer \<Rightarrow> bool" where
  alloc: "n < 2 ^ 28 \<Longrightarrow> bit_buffer_alloc n = Inr b \<Longrightarrow> bb_reachable b"
| reset: "bb_reachable b \<Longrightarrow> bit_buffer_reset b = Inr b' \<Longrightarrow> bb_reachable b'"
| copy: "bb_reachable b \<Longrightarrow> bb_reachable c \<Longrightarrow> bit_buffer_copy b c = Inr b' \<Longrightarrow> bb_reachable b'"
| copy_right: "bb_reachable b \<Longrightarrow> bb_reachable c \<Longrightarrow> bit_buffer_copy_right b c i = Inr b' \<Longrightarrow> bb_reachable b'"
| copy_left: "bb_reachable b \<Longrightarrow> bb_reachable c \<Longrightarrow> bit_buffer_copy_left b c i = Inr b' \<Longrightarrow> bb_reachable b'"
| copy_bytes: "bb_reachable b \<Longrightarrow> bit_buffer_copy_bytes b data n = Inr b' \<Longrightarrow> bb_reachable b'"
| copy_bits: "bb_reachable b \<Longrightarrow> bit_buffer_copy_bits b data n = Inr b' \<Longrightarrow> bb_reachable b'"
| copy_with_parity: "bb_reachable b \<Longrightarrow> bit_buffer_copy_bytes_with_parity b data n = Inr b' \<Longrightarrow> bb_reachable b'"
| set_byte: "bb_reachable b \<Longrightarrow> bit_buffer_set_byte b i x = Inr b' \<Longrightarrow> bb_reachable b'"
| set_byte_with_parity: "bb_reachable b \<Longrightarrow> bit_buffer_set_byte_with_parity b i x p = Inr b' \<Longrightarrow> bb_reachable b'"
| set_size: "bb_reachable b \<Longrightarrow> bit_buffer_set_size b n = Inr b' \<Longrightarrow> bb_reachable b'"
| set_size_bytes: "bb_reachable b \<Longrightarrow> bit_buffer_set_size_bytes b n = Inr b' \<Longrightarrow> bb_reachable b'"
| append: "bb_reachable b \<Longrightarrow> bb_reachable c \<Longrightarrow> bit_buffer_append b c = Inr b' \<Longrightarrow> bb_reachable b'"
| append_right: "bb_reachable b \<Longrightarrow> bb_reachable c \<Longrightarrow> bit_buffer_append_right b c i = Inr b' \<Longrightarrow> bb_reachable b'"
| append_byte: "bb_reachable b \<Longrightarrow> bit_buffer_append_byte b x = Inr b' \<Longrightarrow> bb_reachable b'"
| append_bytes: "bb_reachable b \<Longrightarrow> bit_buffer_append_bytes b data n = Inr b' \<Longrightarrow> bb_reachable b'"
| append_bit: "bb_reachable b \<Longrightarrow> bit_buffer_append_bit b p = Inr b' \<Longrightarrow> bb_reachable b'"

text \<open>The invariant: the length is in range or wrapped.\<close>

definition bb_inv :: "bit_buffer \<Rightarrow> bool" where
  "bb_inv b \<longleftrightarrow> bb_ok b \<or> bb_wrapped b"

lemma inv_shape: "bb_inv b \<Longrightarrow> bb_shape b"
  by (auto simp: bb_inv_def ok_shape bb_wrapped_def)

lemma ok_inv: "bb_ok b \<Longrightarrow> bb_inv b"
  by (simp add: bb_inv_def)

lemma writes_inv:
  assumes "bb_inv b"
  shows "bit_buffer_set_byte b i x = Inr b' \<Longrightarrow> bb_inv b'" and "bit_buffer_set_byte_with_parity b i x p = Inr b' \<Longrightarrow> bb_inv b'"
  using writes_keep [OF inv_shape [OF assms]] assms by (auto simp: bb_inv_def ok_iff in_range_iff bb_wrapped_def)

lemma append_right_keeps: "bb_inv b \<Longrightarrow> bb_inv c \<Longrightarrow> bit_buffer_append_right b c i = Inr b' \<Longrightarrow> bb_inv b'"
  using append_right_inv [of b c i b'] wrapped_fails(4,5) by (auto simp: bb_inv_def split: if_splits)

lemma appends_keep:
  assumes "bb_inv b"
  shows "bit_buffer_append_byte b x = Inr b' \<Longrightarrow> bb_inv b'" and "bit_buffer_append_bytes b data n = Inr b' \<Longrightarrow> bb_inv b'"
    and "bit_buffer_append_bit b p = Inr b' \<Longrightarrow> bb_inv b'"
  using assms append_byte_ok [of b x b'] append_bytes_ok [of b data n b'] append_bit_ok [of b p b'] wrapped_fails(1,2) [of b] wrapped_fails(3) [of b data n b']
  by (auto simp: bb_inv_def)

lemma reachable_inv: "bb_reachable b \<Longrightarrow> bb_inv b"
proof (induction rule: bb_reachable.induct)
  case (append b c b')
  then show ?case using append_right_keeps [of b c 0] by (simp add: bit_buffer_append_def)
qed (auto intro: ok_inv dest: alloc_ok reset_ok [OF inv_shape] copies_ok [OF inv_shape inv_shape] copies_ok(4,5) [OF inv_shape inv_shape]
    copy_with_parity_ok [OF inv_shape] writes_inv sizes_ok [OF inv_shape] append_right_keeps appends_keep)

lemma reachable_ok: "bb_reachable b \<Longrightarrow> bb_in_range b \<Longrightarrow> bb_ok b"
  using reachable_inv [of b] wrapped_not_in_range [of b] by (auto simp: bb_inv_def)

lemma reachable_fits: "bb_reachable b \<Longrightarrow> bit_buffer_get_size_bytes b < 2 ^ 29 \<Longrightarrow> bb_ok b"
  using reachable_inv [of b] wrapped_bytes [of b] by (auto simp: bb_inv_def)

lemma reachable_cap: "bb_reachable b \<Longrightarrow> bit_buffer_get_capacity_bytes b < 2 ^ 28"
  using inv_shape [OF reachable_inv, of b] by (simp add: bb_shape_def bit_buffer_get_capacity_bytes_def)

lemma reachable_not_in_range: "bb_reachable b \<Longrightarrow> \<not> bb_in_range b \<Longrightarrow> bb_wrapped b"
  using reachable_inv [of b] by (auto simp: bb_inv_def ok_iff)

text \<open>
  C17: the invariant. Whatever sequence of operations built a buffer, with whatever arguments, its arrays
  have the size that its capacity says, and its length in bits is within the capacity or has wrapped
  around to one of the seven greatest values. \<^verbatim>\<open>bit_buffer_append_right\<close> makes such a length of two
  buffers in range exactly if the bits before its start are more than both hold.
\<close>

theorem bit_buffer_invariant:
  assumes "bb_reachable b" and "bb_reachable c"
  shows "0 < bit_buffer_get_capacity_bytes b \<and> length (bit_buffer_get_data b) = bit_buffer_get_capacity_bytes b \<and>
    length (bit_buffer_get_parity b) = (bit_buffer_get_capacity_bytes b + 7) div 8 \<and>
    (bb_in_range b \<and> bit_buffer_get_size_bytes b \<le> bit_buffer_get_capacity_bytes b \<or>
     2 ^ 32 - 7 \<le> bit_buffer_get_size b \<and> bit_buffer_get_size b < 2 ^ 32) \<and>
    (bb_in_range b \<and> bb_in_range c \<and> bit_buffer_append_right b c i = Inr d \<longrightarrow>
     (bb_in_range d \<longleftrightarrow> 8 * i \<le> bit_buffer_get_size b + bit_buffer_get_size c))"
proof -
  have shape: "bb_shape b" using inv_shape [OF reachable_inv [OF assms(1)]] .
  have size: "bb_in_range b \<and> bit_buffer_get_size_bytes b \<le> bb_capacity_bytes b \<or> 2 ^ 32 - 7 \<le> bb_size_bits b \<and> bb_size_bits b < 2 ^ 32"
    using reachable_ok [OF assms(1)] size_bytes_le [of b] reachable_not_in_range [OF assms(1)] by (auto simp: bb_wrapped_def)
  have "bb_in_range d \<longleftrightarrow> 8 * i \<le> bb_size_bits b + bb_size_bits c" if "bb_in_range b" "bb_in_range c" "bit_buffer_append_right b c i = Inr d"
    using append_right_inv [OF reachable_ok [OF assms(1) that(1)] reachable_ok [OF assms(2) that(2)] that(3)] wrapped_not_in_range [of d]
    by (auto simp: ok_iff split: if_splits)
  with shape size show ?thesis
    by (simp add: bb_shape_def bit_buffer_get_capacity_bytes_def bit_buffer_get_data_def bit_buffer_get_parity_def bit_buffer_get_size_def)
qed

text \<open>Appending, from byte 1 on, a buffer of four bits to an empty one.\<close>

lemma wrapped_example:
  assumes "bit_buffer_alloc 1 = Inr a" and "bit_buffer_set_size a 4 = Inr b" and "bit_buffer_append_right a b 1 = Inr c"
  shows "bb_reachable a" "bb_reachable b" "bb_reachable c"
proof -
  show a: "bb_reachable a" by (rule bb_reachable.alloc [OF _ assms(1)]) simp
  show b: "bb_reachable b" by (rule bb_reachable.set_size [OF a assms(2)])
  show "bb_reachable c" by (rule bb_reachable.append_right [OF a b assms(3)])
qed

lemma wrapped_example_runs:
  "\<exists>a b c. bit_buffer_alloc 1 = Inr a \<and> bit_buffer_set_size a 4 = Inr b \<and> bit_buffer_append_right a b 1 = Inr c \<and>
    bit_buffer_get_size a = 0 \<and> bit_buffer_get_size b = 4 \<and> bb_in_range a \<and> bb_in_range b \<and>
    bit_buffer_get_size c = 2 ^ 32 - 4 \<and> bit_buffer_get_capacity_bytes c = 1"
  by (simp add: bit_buffer_alloc_def bit_buffer_set_size_def bit_buffer_append_right_def bit_buffer_get_size_bytes_def parity_buf_size_def
      mem_copy_def size_sub_def sz_def in_range_iff bit_buffer_get_size_def bit_buffer_get_capacity_bytes_def)

theorem bit_buffer_invariant_witness:
  "\<exists>a b c. bit_buffer_alloc 1 = Inr a \<and> bit_buffer_set_size a 4 = Inr b \<and> bit_buffer_append_right a b 1 = Inr c \<and>
    \<not> bb_in_range c \<and> length (bit_buffer_get_data c) = 1"
proof -
  obtain a b c where r: "bit_buffer_alloc 1 = Inr a" "bit_buffer_set_size a 4 = Inr b" "bit_buffer_append_right a b 1 = Inr c"
    and size: "bit_buffer_get_size a = 0" "bit_buffer_get_size b = 4" "bb_in_range a" "bb_in_range b" "bit_buffer_get_capacity_bytes c = 1"
    using wrapped_example_runs by blast
  note reach = wrapped_example [OF r]
  have "\<not> bb_in_range c" using bit_buffer_invariant [OF reach(1,2), of 1 c] r(3) size by simp
  moreover have "length (bit_buffer_get_data c) = 1" using bit_buffer_invariant [OF reach(3,3)] size(5) by simp
  ultimately show ?thesis using r by blast
qed

section \<open>Safety\<close>

text \<open>Operations that a check guards against every access out of bounds.\<close>

definition guarded :: "'a res \<Rightarrow> bool" where
  "guarded r \<longleftrightarrow> r \<noteq> Inl OutOfBounds"

lemma guarded_ok:
  assumes ok: "bb_ok b"
  shows "guarded (bit_buffer_append_byte b x)" and "guarded (bit_buffer_append_bit b p)"
    and "guarded (bit_buffer_set_byte b i x)" and "guarded (bit_buffer_set_byte_with_parity b i x p)"
    and "length data < 2 ^ 28 \<Longrightarrow> guarded (bit_buffer_append_bytes b data (length data))"
    and "bb_ok c \<Longrightarrow> guarded (bit_buffer_append b c)"
proof -
  note s = size_bytes_le [OF ok]
  show "guarded (bit_buffer_append_byte b x)"
    using ok s by (auto simp: guarded_def bit_buffer_append_byte_def bindr_eq_Inl furi_check_def list_set_def Let_def bb_ok_def)
  show "guarded (bit_buffer_append_bit b p)"
    using append_bit_room [OF ok] ok
    by (auto simp: guarded_def bit_buffer_append_bit_def bindr_eq_Inl furi_check_def list_set_def list_get_def Let_def bb_ok_def split: if_splits)
  show "guarded (bit_buffer_set_byte b i x)"
    using ok s by (auto simp: guarded_def bit_buffer_set_byte_def bindr_eq_Inl furi_check_def list_set_def bb_ok_def)
  have "i < bb_capacity_bytes b \<and> i div 8 < length (bb_parity b)" if "bb_size_bits b div 8 > i"
    using that ok unfolding bb_ok_def by linarith
  then show "guarded (bit_buffer_set_byte_with_parity b i x p)"
    using ok by (auto simp: guarded_def bit_buffer_set_byte_with_parity_def bindr_eq_Inl furi_check_def list_set_def list_get_def bb_ok_def split: if_splits)
  show "guarded (bit_buffer_append_bytes b data (length data))" if "length data < 2 ^ 28"
    using ok s that by (auto simp: guarded_def bit_buffer_append_bytes_def
        bindr_eq_Inl furi_check_def mem_copy_def Let_def bb_ok_def split: if_splits)
  show "guarded (bit_buffer_append b c)" if "bb_ok c"
    using ok s that size_bytes_le [OF that]
    by (auto simp: guarded_def bit_buffer_append_def bit_buffer_append_right_def bindr_eq_Inl furi_check_def
        mem_copy_def Let_def bb_ok_def split: if_splits)
qed

text \<open>The operations that do not look at the length of the buffer they change, or read below its capacity.\<close>

lemma guarded_shape:
  assumes b: "bb_shape b"
  shows "guarded (bit_buffer_get_byte b i)" and "guarded (bit_buffer_starts_with_byte b x)"
    and "guarded (bit_buffer_copy_bytes b data (length data))"
    and "guarded (bit_buffer_reset b)" and "guarded (bit_buffer_set_size b n)" and "guarded (bit_buffer_set_size_bytes b n)"
proof -
  show "guarded (bit_buffer_get_byte b i)" "guarded (bit_buffer_starts_with_byte b x)" "guarded (bit_buffer_copy_bytes b data (length data))"
    "guarded (bit_buffer_set_size b n)" "guarded (bit_buffer_set_size_bytes b n)"
    using b by (auto simp: guarded_def bit_buffer_get_byte_def bit_buffer_starts_with_byte_def bit_buffer_copy_bytes_def
        bit_buffer_set_size_def bit_buffer_set_size_bytes_def bindr_eq_Inl furi_check_def list_get_def mem_copy_def bb_shape_def split: if_splits)
  show "guarded (bit_buffer_reset b)" using reset_ok(1) [OF b] by (simp add: guarded_def)
qed

lemma guarded_copy:
  assumes b: "bb_shape b" and c: "bb_inv c"
  shows "guarded (bit_buffer_copy b c)"
proof -
  have small: "bit_buffer_get_size_bytes c \<le> bb_capacity_bytes b" if "bb_size_bits c \<le> 8 * bb_capacity_bytes b"
    using that unfolding size_bytes_eq by linarith
  show ?thesis
  proof (cases "bb_ok c")
    case True
    show ?thesis using small b size_bytes_le [OF True] True
      by (auto simp: guarded_def bit_buffer_copy_def bindr_eq_Inl furi_check_def mem_copy_def bb_ok_def bb_shape_def split: if_splits)
  next
    case False
    then have "bit_buffer_copy b c = Inl FuriCheck"
      using b c by (simp add: bb_inv_def bb_wrapped_def bit_buffer_copy_def furi_check_def bindr_def bb_shape_def)
    then show ?thesis by (simp add: guarded_def)
  qed
qed

lemma guarded_wrapped:
  assumes b: "bb_wrapped b"
  shows "length data < 2 ^ 28 \<Longrightarrow> guarded (bit_buffer_append_bytes b data (length data))"
    and "bb_inv c \<Longrightarrow> guarded (bit_buffer_append b c)" and "bb_inv c \<Longrightarrow> guarded (bit_buffer_append c b)"
    and "guarded (bit_buffer_set_byte b i x) \<longleftrightarrow> i < bb_capacity_bytes b \<or> bit_buffer_get_size_bytes b \<le> i"
    and "guarded (bit_buffer_set_byte_with_parity b i x p) \<longleftrightarrow> i < bb_capacity_bytes b \<or> bb_size_bits b div 8 \<le> i"
proof -
  note s = wrapped_bytes [OF b]
  have shape: "bb_shape b" using b by (simp add: bb_wrapped_def)
  show "guarded (bit_buffer_append_bytes b data (length data))" if "length data < 2 ^ 28"
    using s shape that by (simp add: guarded_def bit_buffer_append_bytes_def furi_check_def bindr_def bb_shape_def)
  have "bit_buffer_get_size_bytes c \<le> 2 ^ 29" if "bb_inv c"
    using that wrapped_bytes [of c] size_bytes_le [of c] by (auto simp: bb_inv_def bb_ok_def)
  then show "guarded (bit_buffer_append b c)" "guarded (bit_buffer_append c b)" if "bb_inv c"
    using that s shape inv_shape [OF that]
    by (simp_all add: guarded_def bit_buffer_append_def bit_buffer_append_right_def furi_check_def bindr_def bb_shape_def Let_def)
  show "guarded (bit_buffer_set_byte b i x) \<longleftrightarrow> i < bb_capacity_bytes b \<or> bit_buffer_get_size_bytes b \<le> i"
    using shape by (auto simp: guarded_def bit_buffer_set_byte_def bindr_eq_Inl furi_check_def list_set_def bb_shape_def)
  have "i div 8 < length (bb_parity b)" if "i < bb_capacity_bytes b"
    using that shape unfolding bb_shape_def by linarith
  then show "guarded (bit_buffer_set_byte_with_parity b i x p) \<longleftrightarrow> i < bb_capacity_bytes b \<or> bb_size_bits b div 8 \<le> i"
    using shape by (auto simp: guarded_def bit_buffer_set_byte_with_parity_def bindr_eq_Inl furi_check_def list_set_def list_get_def bb_shape_def)
qed

text \<open>
  C23: memory safety, for every reachable buffer, also one whose length has wrapped around. Appending,
  copying, clearing and reading bytes and bits either succeed or stop at a check: they never touch memory
  outside the arrays. Setting a byte does so, exactly with a wrapped length and a place behind the
  capacity that the length admits.
\<close>

theorem bit_buffer_memory_safe:
  assumes "bb_reachable b" and "bb_reachable c" and "length data < 2 ^ 28"
  shows "guarded (bit_buffer_append_byte b x) \<and> guarded (bit_buffer_append_bit b p) \<and>
    guarded (bit_buffer_append_bytes b data (length data)) \<and> guarded (bit_buffer_append b c) \<and>
    guarded (bit_buffer_copy b c) \<and> guarded (bit_buffer_copy_bytes b data (length data)) \<and>
    guarded (bit_buffer_get_byte b i) \<and> guarded (bit_buffer_starts_with_byte b x) \<and>
    guarded (bit_buffer_reset b) \<and> guarded (bit_buffer_set_size b n) \<and> guarded (bit_buffer_set_size_bytes b n) \<and>
    (guarded (bit_buffer_set_byte b i x) \<longleftrightarrow>
      bb_in_range b \<or> i < bit_buffer_get_capacity_bytes b \<or> bit_buffer_get_size_bytes b \<le> i) \<and>
    (guarded (bit_buffer_set_byte_with_parity b i x p) \<longleftrightarrow>
      bb_in_range b \<or> i < bit_buffer_get_capacity_bytes b \<or> bit_buffer_get_size b div 8 \<le> i)"
proof -
  from assms have inv: "bb_inv b" "bb_inv c" by (simp_all add: reachable_inv)
  note shape = guarded_shape [OF inv_shape [OF inv(1)]] guarded_copy [OF inv_shape [OF inv(1)] inv(2)]
  note defs = bit_buffer_get_capacity_bytes_def bit_buffer_get_size_def
  show ?thesis
  proof (cases "bb_ok b")
    case True
    have "guarded (bit_buffer_append b c)"
      using guarded_ok(6) [OF True, of c] guarded_wrapped(3) [of c b] inv by (auto simp: bb_inv_def)
    then show ?thesis using True shape guarded_ok(1-5) [OF True] assms(3) by (simp add: ok_iff)
  next
    case False
    with inv have w: "bb_wrapped b" by (simp add: bb_inv_def)
    show ?thesis
      using shape wrapped_fails(1,2) [OF w] guarded_wrapped [OF w] inv(2) assms(3) wrapped_not_in_range [OF w]
      by (simp add: defs guarded_def [of "Inl FuriCheck"])
  qed
qed

theorem bit_buffer_memory_safe_witness:
  "\<exists>a b c. bit_buffer_alloc 1 = Inr a \<and> bit_buffer_set_size a 4 = Inr b \<and> bit_buffer_append_right a b 1 = Inr c \<and>
    bit_buffer_set_byte c 100 0 = Inl OutOfBounds"
proof -
  obtain a b c where r: "bit_buffer_alloc 1 = Inr a" "bit_buffer_set_size a 4 = Inr b" "bit_buffer_append_right a b 1 = Inr c"
    and size: "bit_buffer_get_size c = 2 ^ 32 - 4" "bit_buffer_get_capacity_bytes c = 1"
    using wrapped_example_runs by blast
  note reach = wrapped_example(3) [OF r]
  have "\<not> bb_in_range c" "\<not> bit_buffer_get_size_bytes c \<le> 100"
    using size by (simp_all add: bb_in_range_def bit_buffer_get_size_bytes_def bit_buffer_get_size_def)
  then have "\<not> guarded (bit_buffer_set_byte c 100 0)"
    using bit_buffer_memory_safe [OF reach reach, of "[]" 0 False 100] size by simp
  then show ?thesis using r by (auto simp: guarded_def)
qed

text \<open>
  C35: what the checks miss. \<^verbatim>\<open>bit_buffer_get_byte_from_bit\<close> reads two bytes and checks one: at
  any position in the last byte of the buffer it reads behind the end, also when the bits asked for
  are all there. \<^verbatim>\<open>bit_buffer_append_right\<close> with a start behind the end of the other buffer
  computes a wrapped length that passes the check.
\<close>

theorem bit_buffer_checks_missed:
  assumes "bb_reachable b" and "bb_reachable c" and "bb_in_range b" and "bb_in_range c" and "i div 8 = bit_buffer_get_capacity_bytes b - 1"
    and "bit_buffer_get_size_bytes c < j" and "j < bit_buffer_get_size_bytes c + bit_buffer_get_size_bytes b"
  shows "bit_buffer_get_byte_from_bit b i = Inl OutOfBounds \<and> bit_buffer_append_right b c j = Inl OutOfBounds"
proof -
  from assms have ok: "bb_ok b" "bb_ok c" by (simp_all add: reachable_ok)
  then have "i < 8 * bb_capacity_bytes b" "i div 8 + 1 = length (bb_data b)"
    using assms(5) unfolding bb_ok_def bit_buffer_get_capacity_bytes_def by linarith+
  then have 1: "bit_buffer_get_byte_from_bit b i = Inl OutOfBounds"
    using ok(1) by (simp add: bit_buffer_get_byte_from_bit_def Let_def list_get_def bb_ok_def)
  let ?s = "bit_buffer_get_size_bytes b" and ?t = "bit_buffer_get_size_bytes c"
  have sub: "size_sub ?t j = 2 ^ 32 + ?t - j" using assms(6) by (simp add: size_sub_def)
  have "?s \<le> 2 ^ 28" "?t \<le> 2 ^ 28"
    using size_bytes_le [OF ok(1)] size_bytes_le [OF ok(2)] ok unfolding bb_ok_def by linarith+
  then have "?s + (2 ^ 32 + ?t - j) = 2 ^ 32 + (?s + ?t - j)" using assms(6,7) by simp
  moreover have "?s + ?t - j < 2 ^ 32" using \<open>?s \<le> 2 ^ 28\<close> \<open>?t \<le> 2 ^ 28\<close> by simp
  ultimately have "sz (?s + size_sub ?t j) = ?s + ?t - j" unfolding sub sz_def by simp
  moreover have "?s + ?t - j \<le> bb_capacity_bytes b" using size_bytes_le [OF ok(1)] assms(6) by simp
  moreover have "length (bb_data c) < j + size_sub ?t j"
    using ok(2) assms(6,7) \<open>?s \<le> 2 ^ 28\<close> by (simp add: sub bb_ok_def)
  ultimately have "bit_buffer_append_right b c j = Inl OutOfBounds"
    by (simp add: bit_buffer_append_right_def Let_def mem_copy_def)
  with 1 show ?thesis by simp
qed


theorem bit_buffer_checks_missed_witness:
  "bindr (bit_buffer_alloc 2) (\<lambda>b. bindr (bit_buffer_append_bytes b [1, 2] 2) (\<lambda>b.
     bindr (bit_buffer_alloc 1) (\<lambda>c. bit_buffer_append_right b c 1))) = Inl OutOfBounds"
proof -
  obtain a where a: "bit_buffer_alloc 2 = Inr a" by (simp add: bit_buffer_alloc_def)
  obtain b where b: "bit_buffer_append_bytes a [1, 2] 2 = Inr b"
    and size: "bit_buffer_get_size_bytes b = 2" "bit_buffer_get_capacity_bytes b = 2"
    using a by (auto simp: bit_buffer_alloc_def bit_buffer_append_bytes_def mem_copy_def bit_buffer_get_size_bytes_def
        bit_buffer_get_capacity_bytes_def)
  obtain c where c: "bit_buffer_alloc 1 = Inr c" and size_c: "bit_buffer_get_size_bytes c = 0"
    by (simp add: bit_buffer_alloc_def bit_buffer_get_size_bytes_def)
  have "bb_reachable b" by (rule bb_reachable.append_bytes [OF bb_reachable.alloc [OF _ a] b]) simp
  moreover have "bb_reachable c" by (rule bb_reachable.alloc [OF _ c]) simp
  moreover have "bb_in_range b" "bb_in_range c"
    using a b c by (auto simp: bit_buffer_alloc_def bit_buffer_append_bytes_def mem_copy_def bit_buffer_get_size_bytes_def in_range_iff)
  ultimately have "bit_buffer_append_right b c 1 = Inl OutOfBounds"
    using bit_buffer_checks_missed [of b c 8 1] size size_c by simp
  then show ?thesis unfolding a bindr_Inr b c .
qed

end
