(* ===== verification/Bit_Buffer_Bits.thy ===== *)
theory Bit_Buffer_Bits
  imports Bit_Buffer_Facts
begin

text \<open>
  The contents of a bit buffer as a list of bits, which appending extends and copying replaces, for buffers that
  end with a whole byte or inside one, and the frames with a parity bit behind every byte.
\<close>

section \<open>Contents\<close>

definition bb_bits :: "bit_buffer \<Rightarrow> bool list" where
  "bb_bits b = data_bits (bb_data b) (bb_size_bits b)"

lemma nth_data_bits [simp]: "i < n \<Longrightarrow> data_bits xs n ! i = byte_bit xs i"
  by (simp add: data_bits_def)

lemma byte_bit_append:
  "byte_bit (xs @ ys) i = (if i < 8 * length xs then byte_bit xs i else byte_bit ys (i - 8 * length xs))"
proof (cases "i < 8 * length xs")
  case True
  then have "i div 8 < length xs" by simp
  with True show ?thesis by (simp add: byte_bit_def nth_append)
next
  case False
  define k where "k = i - 8 * length xs"
  have i: "i = 8 * length xs + k" using False by (simp add: k_def)
  show ?thesis unfolding i by (simp add: byte_bit_def nth_append)
qed

lemma byte_bit_update:
  "k < length xs \<Longrightarrow> byte_bit (xs[k := x]) i = (if i div 8 = k then bit x (i mod 8) else byte_bit xs i)"
  by (simp add: byte_bit_def nth_list_update)

lemma byte_bit_at: "j < 8 \<Longrightarrow> byte_bit xs (8 * q + j) = bit (xs ! q) j"
  by (simp add: byte_bit_def)

lemma byte_bit_mem_copy:
  assumes "mem_copy dst off src soff n = Inr d"
  shows "byte_bit d i = (if 8 * off \<le> i \<and> i < 8 * (off + n) then byte_bit src (8 * soff + (i - 8 * off)) else byte_bit dst i)"
proof -
  from assms have len: "off + n \<le> length dst" "soff + n \<le> length src"
    and d: "d = take off dst @ take n (drop soff src) @ drop (off + n) dst"
    by (auto simp: mem_copy_def split: if_splits)
  have part: "byte_bit (take m xs) j = byte_bit xs j" if "j < 8 * m" for m xs and j :: nat
    using that by (simp add: byte_bit_def)
  have rest: "byte_bit (drop m xs) j = byte_bit xs (8 * m + j)" if "m \<le> length xs" for m xs and j :: nat
    using that by (simp add: byte_bit_def)
  show ?thesis
    using len by (auto simp: d byte_bit_append part rest not_less)
qed

lemma byte_position:
  assumes "u < 8"
  shows "(8 * q + u) div 8 = q" and "(8 * q + u) mod 8 = (u :: nat)"
  using assms by simp_all

text \<open>Writing whole bytes behind a whole number of bytes appends their bits.\<close>

lemma data_bits_mem_copy:
  assumes "mem_copy dst off src soff n = Inr d" and "m \<le> 8 * n"
  shows "data_bits d (8 * off + m) = data_bits dst (8 * off) @ map (\<lambda>k. byte_bit src (8 * soff + k)) [0..<m]"
  using assms(2) by (intro nth_equalityI) (auto simp: nth_append byte_bit_mem_copy [OF assms(1)])

lemma size_aligned: "bb_size_bits b mod 8 = 0 \<Longrightarrow> bb_size_bits b = 8 * bit_buffer_get_size_bytes b"
  by (auto simp: bit_buffer_get_size_bytes_def)

lemma append_bit_bits:
  assumes ok: "bb_ok b" and room: "bb_size_bits b < 8 * bb_capacity_bytes b"
  shows "\<exists>b'. bit_buffer_append_bit b p = Inr b' \<and> bb_bits b' = bb_bits b @ [p \<or> byte_bit (bb_data b) (bb_size_bits b)]"
proof -
  let ?s = "bb_size_bits b" and ?d = "bb_data b"
  have check: "bit_buffer_get_size_bytes b \<le> size_sub (bb_capacity_bytes b) (if bit_buffer_has_partial_byte b then 0 else 1)"
    using size_bytes_le [OF ok] room ok by (auto simp: bit_buffer_has_partial_byte_def bb_ok_def bit_buffer_get_size_bytes_def)
  have q: "?s div 8 < length ?d" using room ok by (simp add: bb_ok_def less_mult_imp_div_less mult.commute)
  let ?d' = "if p then ?d[?s div 8 := ?d ! (?s div 8) OR push_bit (?s mod 8) 1] else ?d"
  have "bit_buffer_append_bit b p = Inr (b\<lparr>bb_data := ?d', bb_size_bits := Suc ?s\<rparr>)"
    using check q room ok by (simp add: bit_buffer_append_bit_def Let_def fault_simps bb_ok_def)
  moreover have "byte_bit ?d' i = (byte_bit ?d i \<or> p \<and> i = ?s)" for i
  proof -
    have "bit (x OR push_bit r 1) j \<longleftrightarrow> bit x j \<or> j = r \<and> r < 8" for x :: u8 and r j
      by (auto simp: bit_or_iff bit_push_bit_iff bit_1_iff bit_exp_iff possible_bit_def)
    moreover have "i div 8 = ?s div 8 \<and> i mod 8 = ?s mod 8 \<longleftrightarrow> i = ?s" by (metis div_mult_mod_eq)
    ultimately show ?thesis
      using q by (cases "i div 8 = ?s div 8") (auto simp: byte_bit_update byte_bit_def simp del: push_bit_of_1)
  qed
  then have "data_bits ?d' (Suc ?s) = data_bits ?d ?s @ [p \<or> byte_bit ?d ?s]"
    by (auto simp: data_bits_Suc data_bits_def)
  ultimately show ?thesis by (simp add: bb_bits_def)
qed

lemma append_bytes_bits:
  assumes ok: "bb_ok b" and al: "bb_size_bits b mod 8 = 0" and n: "bit_buffer_get_size_bytes b + n \<le> bb_capacity_bytes b"
    "n \<le> length data"
  shows "\<exists>b'. bit_buffer_append_bytes b data n = Inr b' \<and> bb_bits b' = bb_bits b @ data_bits data (8 * n) \<and>
     bb_capacity_bytes b' = bb_capacity_bytes b \<and> bb_size_bits b' = bb_size_bits b + 8 * n"
proof -
  let ?k = "bit_buffer_get_size_bytes b"
  from n ok obtain d where d: "mem_copy (bb_data b) ?k data 0 n = Inr d" by (simp add: mem_copy_def bb_ok_def)
  have s: "bb_size_bits b = 8 * ?k" by (rule size_aligned [OF al])
  have size: "sz (bb_size_bits b + sz (n * 8)) = bb_size_bits b + 8 * n"
    using n(1) ok unfolding s by (simp add: bb_ok_def)
  have "data_bits d (bb_size_bits b + 8 * n) = data_bits (bb_data b) (bb_size_bits b) @ data_bits data (8 * n)"
    using data_bits_mem_copy [OF d, of "8 * n"] unfolding s by (simp add: data_bits_def)
  moreover have "sz (?k + n) \<le> bb_capacity_bytes b" using n(1) ok by (simp add: bb_ok_def)
  ultimately show ?thesis
    using d size by (simp only: bit_buffer_append_bytes_def Let_def bb_bits_def bindr_Inr furi_check_True bit_buffer.simps)
      (simp add: bb_bits_def)
qed

lemma append_byte_bits:
  assumes ok: "bb_ok b" and al: "bb_size_bits b mod 8 = 0" and n: "bit_buffer_get_size_bytes b < bb_capacity_bytes b"
  shows "\<exists>b'. bit_buffer_append_byte b x = Inr b' \<and> bb_bits b' = bb_bits b @ data_bits [x] 8"
proof -
  let ?k = "bit_buffer_get_size_bytes b"
  have s: "bb_size_bits b = 8 * ?k" by (rule size_aligned [OF al])
  have k: "?k < length (bb_data b)" using n ok by (simp add: bb_ok_def)
  have "data_bits ((bb_data b)[?k := x]) (8 * ?k + 8) = data_bits (bb_data b) (8 * ?k) @ data_bits [x] 8"
  proof (rule nth_equalityI)
    fix i assume "i < length (data_bits ((bb_data b)[?k := x]) (8 * ?k + 8))"
    then have i: "i < 8 * ?k + 8" by simp
    show "data_bits ((bb_data b)[?k := x]) (8 * ?k + 8) ! i = (data_bits (bb_data b) (8 * ?k) @ data_bits [x] 8) ! i"
    proof (cases "i < 8 * ?k")
      case True
      then have "i div 8 \<noteq> ?k" by auto
      with True k i show ?thesis by (simp add: nth_append byte_bit_update)
    next
      case False
      then obtain j where "i = 8 * ?k + j" "j < 8" using i by (intro that [of "i - 8 * ?k"]) auto
      with k show ?thesis by (simp add: nth_append byte_bit_update byte_bit_def)
    qed
  qed simp
  moreover have "sz (?k + 1) = ?k + 1" "sz ((?k + 1) * 8) = 8 * ?k + 8" using n ok by (simp_all add: bb_ok_def)
  ultimately show ?thesis
    using k n s by (simp add: bit_buffer_append_byte_def Let_def bb_bits_def list_set_ok)
qed

lemma append_bits:
  assumes ok: "bb_ok b" "bb_ok c" and al: "bb_size_bits b mod 8 = 0"
    and n: "bit_buffer_get_size_bytes b + bit_buffer_get_size_bytes c \<le> bb_capacity_bytes b"
  shows "\<exists>b'. bit_buffer_append b c = Inr b' \<and> bb_bits b' = bb_bits b @ bb_bits c"
proof -
  let ?k = "bit_buffer_get_size_bytes b" and ?n = "bit_buffer_get_size_bytes c"
  from n ok size_bytes_le [OF ok(2)] obtain d where d: "mem_copy (bb_data b) ?k (bb_data c) 0 ?n = Inr d"
    by (simp add: mem_copy_def bb_ok_def)
  have s: "bb_size_bits b = 8 * ?k" by (rule size_aligned [OF al])
  have "data_bits d (8 * ?k + bb_size_bits c) = data_bits (bb_data b) (8 * ?k) @ data_bits (bb_data c) (bb_size_bits c)"
    using data_bits_mem_copy [OF d size_bytes_bounds(1)] by (simp add: data_bits_def)
  with d n ok s show ?thesis
    by (simp add: bit_buffer_append_def bit_buffer_append_right_def Let_def bb_bits_def bb_ok_def)
qed

lemma copy_bits_eq:
  assumes ok: "bb_ok b" "bb_ok c" and n: "bb_size_bits c \<le> 8 * bb_capacity_bytes b"
  shows "\<exists>b'. bit_buffer_copy b c = Inr b' \<and> bb_bits b' = bb_bits c"
proof -
  let ?n = "bit_buffer_get_size_bytes c"
  have "?n \<le> bb_capacity_bytes b" using n unfolding size_bytes_eq by linarith
  with ok size_bytes_le [OF ok(2)] obtain d where d: "mem_copy (bb_data b) 0 (bb_data c) 0 ?n = Inr d"
    by (simp add: mem_copy_def bb_ok_def)
  have "data_bits d (bb_size_bits c) = data_bits (bb_data c) (bb_size_bits c)"
    using data_bits_mem_copy [OF d size_bytes_bounds(1)] by (simp add: data_bits_def)
  with d n ok show ?thesis by (simp add: bit_buffer_copy_def bb_bits_def bb_ok_def)
qed

section \<open>Refinement\<close>

text \<open>The bits up to the end of the last byte in use: the contents and what the memory holds behind them.\<close>

definition bb_whole :: "bit_buffer \<Rightarrow> bool list" where
  "bb_whole b = data_bits (bb_data b) (8 * bit_buffer_get_size_bytes b)"

lemma take_data_bits: "k \<le> n \<Longrightarrow> take k (data_bits xs n) = data_bits xs k"
  by (simp add: data_bits_def take_map)

lemma data_bits_dropped: "drop k (data_bits xs n) = map (\<lambda>j. byte_bit xs (k + j)) [0..<n - k]"
  by (rule nth_equalityI) (simp_all add: data_bits_def)

lemma whole_bits: "take (bb_size_bits b) (bb_whole b) = bb_bits b" "length (bb_whole b) = 8 * bit_buffer_get_size_bytes b"
  using size_bytes_bounds(1) [of b] by (simp_all add: bb_whole_def bb_bits_def take_data_bits)

lemma whole_aligned: "bb_size_bits b mod 8 = 0 \<Longrightarrow> bb_whole b = bb_bits b"
  using size_aligned [of b] by (simp add: bb_whole_def bb_bits_def)

text \<open>Bytes behind the last one in use, and a size that may leave out some of the last bits.\<close>

lemma data_bits_behind:
  assumes "mem_copy (bb_data b) (bit_buffer_get_size_bytes b) src soff n = Inr d" and "m \<le> 8 * n"
  shows "data_bits d (bb_size_bits b + m) = take (bb_size_bits b + m) (bb_whole b @ map (\<lambda>k. byte_bit src (8 * soff + k)) [0..<m])"
proof -
  have "bb_size_bits b + m \<le> 8 * bit_buffer_get_size_bytes b + m" using size_bytes_bounds(1) [of b] by simp
  from take_data_bits [OF this, of d] show ?thesis
    unfolding data_bits_mem_copy [OF assms] bb_whole_def by simp
qed

lemma data_bits_front:
  assumes "mem_copy dst 0 src soff n = Inr d" and "m \<le> 8 * n"
  shows "data_bits d m = map (\<lambda>k. byte_bit src (8 * soff + k)) [0..<m]"
  using data_bits_mem_copy [OF assms] by (simp add: data_bits_def [of _ 0])

lemma append_bit_spec:
  assumes ok: "bb_ok b"
  shows "map_sum id bb_bits (bit_buffer_append_bit b p) =
    (if bb_size_bits b < 8 * bb_capacity_bytes b then Inr (bb_bits b @ [p \<or> byte_bit (bb_data b) (bb_size_bits b)]) else Inl FuriCheck)"
proof (cases "bb_size_bits b < 8 * bb_capacity_bytes b")
  case True
  with append_bit_bits [OF ok, of p] show ?thesis by auto
next
  case False
  then have "bb_size_bits b = 8 * bb_capacity_bytes b" "0 < bb_capacity_bytes b" using ok by (simp_all add: bb_ok_def)
  then have "bit_buffer_append_bit b p = Inl FuriCheck"
    by (auto simp: bit_buffer_append_bit_def furi_check_def bindr_def bit_buffer_has_partial_byte_def bit_buffer_get_size_bytes_def)
  with False show ?thesis by simp
qed

lemma append_byte_spec:
  assumes ok: "bb_ok b"
  shows "map_sum id bb_bits (bit_buffer_append_byte b x) =
    (if bit_buffer_get_size_bytes b < bb_capacity_bytes b then Inr (bb_whole b @ data_bits [x] 8) else Inl FuriCheck)"
proof (cases "bit_buffer_get_size_bytes b < bb_capacity_bytes b")
  case True
  let ?b = "b\<lparr>bb_size_bits := 8 * bit_buffer_get_size_bytes b\<rparr>"
  have same: "bit_buffer_get_size_bytes ?b = bit_buffer_get_size_bytes b" by (simp add: bit_buffer_get_size_bytes_def [of ?b])
  have ok': "bb_ok ?b" using ok True by (simp add: bb_ok_def)
  have "bit_buffer_append_byte b x = bit_buffer_append_byte ?b x" by (simp add: bit_buffer_append_byte_def same)
  moreover have "bb_bits ?b = bb_whole b" by (simp add: bb_bits_def bb_whole_def)
  ultimately show ?thesis using append_byte_bits [OF ok', of x] True by (auto simp: same)
next
  case False
  then have "bit_buffer_append_byte b x = Inl FuriCheck"
    using size_bytes_le [OF ok] ok by (simp add: bit_buffer_append_byte_def furi_check_def bindr_def bb_ok_def)
  with False show ?thesis by simp
qed

lemma append_bytes_spec:
  assumes ok: "bb_ok b" and len: "length data < 2 ^ 28"
  shows "map_sum id bb_bits (bit_buffer_append_bytes b data (length data)) =
    (if bit_buffer_get_size_bytes b + length data \<le> bb_capacity_bytes b
     then Inr (take (bb_size_bits b + 8 * length data) (bb_whole b @ data_bits data (8 * length data))) else Inl FuriCheck)"
proof -
  let ?k = "bit_buffer_get_size_bytes b" and ?n = "length data"
  have sum: "sz (?k + ?n) = ?k + ?n" using size_bytes_le [OF ok] ok len by (simp add: bb_ok_def)
  show ?thesis
  proof (cases "?k + ?n \<le> bb_capacity_bytes b")
    case True
    with ok obtain d where d: "mem_copy (bb_data b) ?k data 0 ?n = Inr d" by (simp add: mem_copy_def bb_ok_def)
    have "sz (bb_size_bits b + sz (?n * 8)) = bb_size_bits b + 8 * ?n"
      using True ok size_bytes_bounds(1) [of b] len by (simp add: bb_ok_def)
    with True d show ?thesis
      using data_bits_behind [OF d, of "8 * ?n"] by (simp add: bit_buffer_append_bytes_def sum bb_bits_def data_bits_def [of data])
  next
    case False
    then show ?thesis by (simp add: bit_buffer_append_bytes_def sum furi_check_def bindr_def)
  qed
qed

lemma append_right_spec:
  assumes ok: "bb_ok b" "bb_ok c" and i: "8 * i \<le> bb_size_bits c"
  shows "map_sum id bb_bits (bit_buffer_append_right b c i) =
    (if bit_buffer_get_size_bytes b + (bit_buffer_get_size_bytes c - i) \<le> bb_capacity_bytes b
     then Inr (take (bb_size_bits b + (bb_size_bits c - 8 * i)) (bb_whole b @ drop (8 * i) (bb_bits c))) else Inl FuriCheck)"
proof -
  let ?k = "bit_buffer_get_size_bytes b" and ?t = "bit_buffer_get_size_bytes c"
  have it: "i \<le> ?t" using i size_bytes_bounds(1) [of c] by linarith
  have small: "?k < 2 ^ 28" "?t < 2 ^ 28" using size_bytes_le [OF ok(1)] size_bytes_le [OF ok(2)] ok by (simp_all add: bb_ok_def)
  have sum: "sz (?k + (?t - i)) = ?k + (?t - i)" using small by simp
  then have sum': "sz (?k + ?t - i) = ?k + ?t - i" using it by simp
  show ?thesis
  proof (cases "?k + (?t - i) \<le> bb_capacity_bytes b")
    case True
    with ok it size_bytes_le [OF ok(2)] obtain d where d: "mem_copy (bb_data b) ?k (bb_data c) i (?t - i) = Inr d"
      by (simp add: mem_copy_def bb_ok_def)
    have part: "bb_size_bits c - 8 * i \<le> 8 * (?t - i)" using it size_bytes_bounds(1) [of c] by linarith
    have "bb_size_bits b < 2 ^ 31" "bb_size_bits c < 2 ^ 31" using ok by (simp_all add: bb_ok_def)
    then have total: "bb_size_bits b + (bb_size_bits c - 8 * i) < 4294967296" by simp
    have "sz (i * 8) = 8 * i" using it small by simp
    moreover have "sz (bb_size_bits b + (bb_size_bits c - 8 * i)) = bb_size_bits b + (bb_size_bits c - 8 * i)"
      by (rule sz_small [OF total])
    ultimately show ?thesis
      using True d it i data_bits_behind [OF d part]
      by (simp add: bit_buffer_append_right_def Let_def sum' bb_bits_def data_bits_dropped)
  next
    case False
    then show ?thesis using it by (simp add: bit_buffer_append_right_def Let_def sum' furi_check_def bindr_def)
  qed
qed

lemma copies_spec:
  assumes ok: "bb_ok b" "bb_ok c"
  shows "map_sum id bb_bits (bit_buffer_copy b c) =
      (if bb_size_bits c \<le> 8 * bb_capacity_bytes b then Inr (bb_bits c) else Inl FuriCheck)"
    and "map_sum id bb_bits (bit_buffer_copy_right b c j) =
      (if j < bit_buffer_get_size_bytes c \<and> bit_buffer_get_size_bytes c - j \<le> bb_capacity_bytes b
       then Inr (drop (8 * j) (bb_bits c)) else Inl FuriCheck)"
    and "map_sum id bb_bits (bit_buffer_copy_left b c j) =
      (if j \<le> bb_capacity_bytes b \<and> j \<le> bit_buffer_get_size_bytes c then Inr (take (8 * j) (bb_whole c)) else Inl FuriCheck)"
proof -
  let ?t = "bit_buffer_get_size_bytes c"
  have cap: "sz (bb_capacity_bytes b * 8) = 8 * bb_capacity_bytes b" using ok(1) by (simp add: bb_ok_def)
  note tl = size_bytes_le [OF ok(2)]
  show "map_sum id bb_bits (bit_buffer_copy b c) =
      (if bb_size_bits c \<le> 8 * bb_capacity_bytes b then Inr (bb_bits c) else Inl FuriCheck)"
  proof (cases "bb_size_bits c \<le> 8 * bb_capacity_bytes b")
    case True
    with copy_bits_eq [OF ok] show ?thesis by auto
  next
    case False
    then show ?thesis by (simp add: bit_buffer_copy_def cap furi_check_def bindr_def)
  qed
  show "map_sum id bb_bits (bit_buffer_copy_right b c j) =
      (if j < ?t \<and> ?t - j \<le> bb_capacity_bytes b then Inr (drop (8 * j) (bb_bits c)) else Inl FuriCheck)"
  proof (cases "j < ?t \<and> ?t - j \<le> bb_capacity_bytes b")
    case True
    with ok tl obtain d where d: "mem_copy (bb_data b) 0 (bb_data c) j (?t - j) = Inr d" by (auto simp: mem_copy_def bb_ok_def)
    have part: "bb_size_bits c - 8 * j \<le> 8 * (?t - j)" "8 * j \<le> bb_size_bits c"
      using True size_bytes_bounds [of c] by linarith+
    have "sz (j * 8) = 8 * j" using True tl ok(2) by (simp add: bb_ok_def)
    with True d part(2) data_bits_front [OF d part(1)] show ?thesis
      by (simp add: bit_buffer_copy_right_def bb_bits_def data_bits_dropped)
  next
    case False
    then show ?thesis by (auto simp: bit_buffer_copy_right_def furi_check_def bindr_def)
  qed
  show "map_sum id bb_bits (bit_buffer_copy_left b c j) =
      (if j \<le> bb_capacity_bytes b \<and> j \<le> ?t then Inr (take (8 * j) (bb_whole c)) else Inl FuriCheck)"
  proof (cases "j \<le> bb_capacity_bytes b \<and> j \<le> ?t")
    case True
    with ok tl obtain d where d: "mem_copy (bb_data b) 0 (bb_data c) 0 j = Inr d" by (auto simp: mem_copy_def bb_ok_def)
    have "sz (j * 8) = 8 * j" using True ok(1) by (simp add: bb_ok_def)
    moreover have "take (8 * j) (bb_whole c) = data_bits (bb_data c) (8 * j)" using True by (simp add: bb_whole_def take_data_bits)
    ultimately show ?thesis
      using True d data_bits_front [OF d, of "8 * j"]
      by (simp add: bit_buffer_copy_left_def bit_buffer_get_capacity_bytes_def bb_bits_def data_bits_def [of "bb_data c"])
  next
    case False
    then show ?thesis by (auto simp: bit_buffer_copy_left_def bit_buffer_get_capacity_bytes_def furi_check_def bindr_def)
  qed
qed

lemma copy_data_spec:
  assumes ok: "bb_ok b"
  shows "map_sum id bb_bits (bit_buffer_copy_bytes b data (length data)) =
      (if length data \<le> bb_capacity_bytes b then Inr (data_bits data (8 * length data)) else Inl FuriCheck)"
    and "m \<le> 8 * length data \<Longrightarrow> map_sum id bb_bits (bit_buffer_copy_bits b data m) =
      (if m \<le> 8 * bb_capacity_bytes b then Inr (data_bits data m) else Inl FuriCheck)"
proof -
  show "map_sum id bb_bits (bit_buffer_copy_bytes b data (length data)) =
      (if length data \<le> bb_capacity_bytes b then Inr (data_bits data (8 * length data)) else Inl FuriCheck)"
  proof (cases "length data \<le> bb_capacity_bytes b")
    case True
    with ok obtain d where d: "mem_copy (bb_data b) 0 data 0 (length data) = Inr d" by (auto simp: mem_copy_def bb_ok_def)
    have "sz (length data * 8) = 8 * length data" using True ok by (simp add: bb_ok_def)
    with True d data_bits_front [OF d, of "8 * length data"] show ?thesis
      by (simp add: bit_buffer_copy_bytes_def bb_bits_def data_bits_def [of data])
  next
    case False
    then show ?thesis by (simp add: bit_buffer_copy_bytes_def furi_check_def bindr_def)
  qed
  have cap: "sz (bb_capacity_bytes b * 8) = 8 * bb_capacity_bytes b" using ok by (simp add: bb_ok_def)
  show "map_sum id bb_bits (bit_buffer_copy_bits b data m) =
      (if m \<le> 8 * bb_capacity_bytes b then Inr (data_bits data m) else Inl FuriCheck)" if m: "m \<le> 8 * length data"
  proof (cases "m \<le> 8 * bb_capacity_bytes b")
    case True
    have n: "(m + 7) div 8 \<le> bb_capacity_bytes b" "(m + 7) div 8 \<le> length data" "m \<le> 8 * ((m + 7) div 8)"
      using True m by linarith+
    with ok obtain d where d: "mem_copy (bb_data b) 0 data 0 ((m + 7) div 8) = Inr d" by (auto simp: mem_copy_def bb_ok_def)
    have "sz (m + 7) = m + 7" using True ok by (simp add: bb_ok_def)
    with True d data_bits_front [OF d n(3)] show ?thesis
      by (simp add: bit_buffer_copy_bits_def cap bb_bits_def data_bits_def [of data])
  next
    case False
    then show ?thesis by (simp add: bit_buffer_copy_bits_def cap furi_check_def bindr_def)
  qed
qed

text \<open>
  C21: the buffer refines a list of bits, least significant bit first, with the checks of each operation
  exactly. Copying takes over the other contents, a suffix of them or the whole bytes of a prefix;
  shrinking keeps a prefix. Appending puts its bytes behind the last byte in use, with what the memory
  holds in between: a byte counts in full, but of several bytes or another buffer only as many bits
  count in all as there were plus those appended, so that the last ones are cut off unless the buffer
  ended with a whole byte. A single bit is appended as its disjunction with what the memory holds at its place.
\<close>

theorem bit_buffer_refines_bits:
  assumes "bb_reachable b" and "bb_reachable c" and "bb_in_range b" and "bb_in_range c"
    and "length data < 2 ^ 28" and "m \<le> 8 * length data" and "8 * i \<le> bit_buffer_get_size c" and "n \<le> bit_buffer_get_size b"
    and "cap = bit_buffer_get_capacity_bytes b"
  shows "map_sum id bb_bits (bit_buffer_append_bit b p) =
      (if bit_buffer_get_size b < 8 * cap then Inr (bb_bits b @ [p \<or> byte_bit (bit_buffer_get_data b) (bit_buffer_get_size b)])
       else Inl FuriCheck) \<and>
    map_sum id bb_bits (bit_buffer_append_byte b x) =
      (if bit_buffer_get_size_bytes b < cap then Inr (bb_whole b @ data_bits [x] 8) else Inl FuriCheck) \<and>
    map_sum id bb_bits (bit_buffer_append_bytes b data (length data)) =
      (if bit_buffer_get_size_bytes b + length data \<le> cap
       then Inr (take (bit_buffer_get_size b + 8 * length data) (bb_whole b @ data_bits data (8 * length data))) else Inl FuriCheck) \<and>
    map_sum id bb_bits (bit_buffer_append_right b c i) =
      (if bit_buffer_get_size_bytes b + (bit_buffer_get_size_bytes c - i) \<le> cap
       then Inr (take (bit_buffer_get_size b + (bit_buffer_get_size c - 8 * i)) (bb_whole b @ drop (8 * i) (bb_bits c)))
       else Inl FuriCheck) \<and>
    map_sum id bb_bits (bit_buffer_append b c) =
      (if bit_buffer_get_size_bytes b + bit_buffer_get_size_bytes c \<le> cap
       then Inr (take (bit_buffer_get_size b + bit_buffer_get_size c) (bb_whole b @ bb_bits c)) else Inl FuriCheck) \<and>
    map_sum id bb_bits (bit_buffer_copy b c) =
      (if bit_buffer_get_size c \<le> 8 * cap then Inr (bb_bits c) else Inl FuriCheck) \<and>
    map_sum id bb_bits (bit_buffer_copy_right b c j) =
      (if j < bit_buffer_get_size_bytes c \<and> bit_buffer_get_size_bytes c - j \<le> cap then Inr (drop (8 * j) (bb_bits c))
       else Inl FuriCheck) \<and>
    map_sum id bb_bits (bit_buffer_copy_left b c j) =
      (if j \<le> cap \<and> j \<le> bit_buffer_get_size_bytes c then Inr (take (8 * j) (bb_whole c)) else Inl FuriCheck) \<and>
    map_sum id bb_bits (bit_buffer_copy_bytes b data (length data)) =
      (if length data \<le> cap then Inr (data_bits data (8 * length data)) else Inl FuriCheck) \<and>
    map_sum id bb_bits (bit_buffer_copy_bits b data m) =
      (if m \<le> 8 * cap then Inr (data_bits data m) else Inl FuriCheck) \<and>
    map_sum id bb_bits (bit_buffer_set_size b n) = Inr (take n (bb_bits b)) \<and>
    map_sum id bb_bits (bit_buffer_reset b) = Inr []"
proof -
  from assms have ok: "bb_ok b" "bb_ok c" by (simp_all add: reachable_ok)
  note defs = assms(9) bit_buffer_get_size_def bit_buffer_get_capacity_bytes_def bit_buffer_get_data_def
  have n: "n \<le> bb_size_bits b" "8 * i \<le> bb_size_bits c" using assms(7,8) by (simp_all add: bit_buffer_get_size_def)
  have "map_sum id bb_bits (bit_buffer_set_size b n) = Inr (take n (bb_bits b))"
    using n(1) ok(1) by (simp add: bit_buffer_set_size_def bb_bits_def bb_ok_def take_data_bits)
  moreover have "map_sum id bb_bits (bit_buffer_reset b) = Inr []"
    using reset_ok(1) [OF ok_shape [OF ok(1)]] by (simp add: bb_bits_def data_bits_def)
  moreover note append_right_spec [OF ok, of 0, folded bit_buffer_append_def]
  ultimately show ?thesis
    using append_right_spec [OF ok n(2)]
    by (simp add: defs append_bit_spec [OF ok(1)] append_byte_spec [OF ok(1)] append_bytes_spec [OF ok(1) assms(5)]
        copies_spec [OF ok] copy_data_spec [OF ok(1)] assms(6))
qed

text \<open>A byte appended behind a single bit: the padding comes in, the last seven bits are cut off.\<close>

theorem bit_buffer_refines_bits_witness:
  "bindr (bit_buffer_alloc 2) (\<lambda>a. bindr (bit_buffer_append_bit a True) (\<lambda>b.
     map_sum id bb_bits (bit_buffer_append_bytes b [0xFF] 1))) =
   Inr [True, False, False, False, False, False, False, False, True]"
proof -
  obtain a where a: "bit_buffer_alloc 2 = Inr a" and a': "bb_data a = [0, 0]" "bb_size_bits a = 0" "bb_capacity_bytes a = 2"
    by (auto simp: bit_buffer_alloc_def numeral_2_eq_2)
  obtain b where b: "bit_buffer_append_bit a True = Inr b" and b': "bb_data b = [1, 0]" "bb_size_bits b = 1" "bb_capacity_bytes b = 2"
    using a' by (auto simp: bit_buffer_append_bit_def bit_buffer_get_size_bytes_def bit_buffer_has_partial_byte_def list_set_def list_get_def)
  have ra: "bb_reachable a" by (rule bb_reachable.alloc [OF _ a]) simp
  have rb: "bb_reachable b" by (rule bb_reachable.append_bit [OF ra b])
  have range: "bb_in_range a" "bb_in_range b" using a' b' by (simp_all add: in_range_iff)
  have "bit_buffer_get_size_bytes b = 1" using b' by (simp add: bit_buffer_get_size_bytes_def)
  moreover have "bb_whole b = [True, False, False, False, False, False, False, False]"
    using b' by (simp add: bb_whole_def bit_buffer_get_size_bytes_def data_bits_def byte_bit_def upt_rec)
  moreover have "take 1 (data_bits [0xFF] 8) = [True]" by (simp add: data_bits_def upt_rec byte_bit_def)
  moreover have pre: "length [0xFF :: u8] < 2 ^ 28" "0 \<le> 8 * length [0xFF :: u8]" "8 * 0 \<le> bit_buffer_get_size a"
    "0 \<le> bit_buffer_get_size b" "2 = bit_buffer_get_capacity_bytes b"
    using b' by (simp_all add: bit_buffer_get_capacity_bytes_def)
  ultimately have "map_sum id bb_bits (bit_buffer_append_bytes b [0xFF] (length [0xFF :: u8])) = Inr ([True, False, False, False, False, False, False, False] @ [True])"
    using bit_buffer_refines_bits [OF rb ra range(2,1) pre, THEN conjunct2, THEN conjunct2, THEN conjunct1] b'(2)
    by (simp add: bit_buffer_get_size_def del: upt.simps)
  then show ?thesis unfolding a bindr_Inr b by simp
qed

section \<open>Frames with parity\<close>

text \<open>Bit \<open>k\<close> of the frame: eight bits of a byte, then its parity bit.\<close>

definition frame_bit :: "u8 list \<Rightarrow> u8 list \<Rightarrow> nat \<Rightarrow> bool" where
  "frame_bit d p k = (if k mod 9 = 8 then byte_bit p (k div 9) else byte_bit d (8 * (k div 9) + k mod 9))"

lemma frame_bit_at:
  "t < 9 \<Longrightarrow> frame_bit d p (9 * i + t) = (if t = 8 then byte_bit p i else bit (d ! i) t)"
  by (simp add: frame_bit_def byte_bit_def)

text \<open>
  After \<open>i\<close> bytes: the frame so far is in the output, and the rest of the byte that the last parity
  bit went into is clear.
\<close>

definition framed :: "bit_buffer \<Rightarrow> nat \<Rightarrow> nat \<Rightarrow> u8 list \<times> nat \<Rightarrow> bool" where
  "framed b m i s \<longleftrightarrow> (case s of (out, pos) \<Rightarrow> pos = 9 * i \<and> length out = m \<and>
     (\<forall>k < 9 * i. byte_bit out k = frame_bit (bb_data b) (bb_parity b) k) \<and>
     (\<forall>k. 9 * i \<le> k \<and> k < 8 * ((9 * i + 7) div 8) \<longrightarrow> \<not> byte_bit out k))"

lemma two_bytes:
  assumes "q + 1 < length out"
  shows "byte_bit (out[q := x, q + 1 := y]) k =
    (if k div 8 = q then bit x (k mod 8) else if k div 8 = q + 1 then bit y (k mod 8) else byte_bit out k)"
  using assms by (simp add: byte_bit_def nth_list_update)

lemma bit_parity: "bit (drop_bit (i mod 8) (p ! (i div 8)) AND 1 :: u8) j \<longleftrightarrow> j = 0 \<and> byte_bit p i"
  by (auto simp: bit_and_iff bit_drop_bit_eq bit_1_iff byte_bit_def)

lemma parity_step_framed:
  assumes ok: "bb_ok b" and i: "i < bb_capacity_bytes b" and room: "9 * i + 9 \<le> 8 * m" and small: "9 * i + 9 < 2 ^ 16"
    and f: "framed b m i s"
  shows "\<exists>t. parity_step b i s = Inr t \<and> framed b m (Suc i) t"
proof -
  obtain out where s: "s = (out, 9 * i)" and len: "length out = m"
    and old: "\<And>k. k < 9 * i \<Longrightarrow> byte_bit out k = frame_bit (bb_data b) (bb_parity b) k"
    and clear: "\<And>k. 9 * i \<le> k \<Longrightarrow> k < 8 * ((9 * i + 7) div 8) \<Longrightarrow> \<not> byte_bit out k"
    using f by (cases s) (auto simp: framed_def)
  define q r where "q = 9 * i div 8" and "r = 9 * i mod 8"
  have pos: "9 * i = 8 * q + r" and r: "r < 8" by (simp_all add: q_def r_def)
  have q1: "q + 1 < length out" using room len pos by linarith
  define par where "par = drop_bit (i mod 8) (bb_parity b ! (i div 8)) AND 1"
  have bit_par: "bit par j \<longleftrightarrow> j = 0 \<and> byte_bit (bb_parity b) i" for j unfolding par_def by (rule bit_parity)
  let ?x = "bb_data b ! i"
  have gets: "list_get (bb_parity b) (i div 8) = Inr (bb_parity b ! (i div 8))" "list_get (bb_data b) i = Inr ?x"
    using ok i by (auto simp: bb_ok_def list_get_def)
  define lo hi where "lo = (if r = 0 then ?x else out ! q OR push_bit r ?x)"
    and "hi = (if r = 0 then par else drop_bit (8 - r) ?x OR push_bit r par)"
  define out' where "out' = out[q := lo, q + 1 := hi]"
  have step: "parity_step b i s = Inr (out', 9 * i + 9)"
  proof (cases "r = 0")
    case True
    then have "(9 * i + 8) mod 2 ^ 16 = 9 * i + 8" "(9 * i + 8) div 8 = q + 1" "inc16 (9 * i + 8) = 9 * i + 9"
      using pos small by simp_all
    with True q1 gets show ?thesis
      by (simp add: parity_step_def s Let_def r_def [symmetric] q_def [symmetric] list_set_def lo_def hi_def par_def out'_def)
  next
    case False
    have "(9 * i + 9) mod 2 ^ 16 = 9 * i + 9" using small by simp
    with False q1 gets show ?thesis
      by (simp add: parity_step_def s Let_def r_def [symmetric] q_def [symmetric] list_set_def list_get_def lo_def hi_def par_def out'_def)
  qed
  have lo: "bit lo j \<longleftrightarrow> (if j < r then byte_bit out (8 * q + j) else bit ?x (j - r))" if j: "j < 8" for j
  proof (cases "r = 0")
    case False
    have "\<not> byte_bit out (8 * q + j)" if "r \<le> j"
    proof -
      have "(9 * i + 7) div 8 = q + 1" using pos r False by (simp add: div_nat_eqI)
      then show ?thesis using clear [of "8 * q + j"] that j pos by simp
    qed
    then have "\<not> bit (out ! q) j" if "r \<le> j" using that j by (simp add: byte_bit_at)
    with False j show ?thesis by (auto simp: lo_def bit_or_iff bit_push_bit_iff byte_bit_at possible_bit_def)
  qed (simp add: lo_def)
  have hi: "bit hi j \<longleftrightarrow> (if j < r then bit ?x (8 - r + j) else j = r \<and> byte_bit (bb_parity b) i)" if j: "j < 8" for j
    using j r bit_imp_le_length [of ?x "8 - r + j"]
    by (auto simp: hi_def bit_par bit_or_iff bit_push_bit_iff bit_drop_bit_eq possible_bit_def)
  have bits: "byte_bit out' k = (if k div 8 = q then bit lo (k mod 8) else if k div 8 = q + 1 then bit hi (k mod 8) else byte_bit out k)"
    for k unfolding out'_def by (rule two_bytes [OF q1])
  have frame: "byte_bit out' k = frame_bit (bb_data b) (bb_parity b) k" if k: "k < 9 * i + 9" for k
  proof (cases "k < 9 * i")
    case True
    show ?thesis
    proof (cases "k div 8 = q")
      case same: True
      obtain j where j: "k = 8 * q + j" "j < 8" "k mod 8 = j" using same by (metis mod_less_divisor mult_div_mod_eq zero_less_numeral)
      then have "j < r" using True pos by simp
      with same j lo [OF j(2)] old [OF True] show ?thesis by (simp add: bits)
    next
      case False
      moreover have "k div 8 \<noteq> q + 1" using True pos r by auto
      ultimately show ?thesis using old [OF True] by (simp add: bits)
    qed
  next
    case False
    then obtain t where t: "k = 9 * i + t" "t < 9" using k by (intro that [of "k - 9 * i"]) auto
    have k8: "k = 8 * q + (r + t)" using t pos by simp
    show ?thesis
    proof (cases "r + t < 8")
      case True
      then have "k div 8 = q" "k mod 8 = r + t" using k8 by simp_all
      with True t lo [of "r + t"] show ?thesis by (simp add: bits frame_bit_at)
    next
      case far: False
      have k9: "k = 8 * (q + 1) + (r + t - 8)" using k8 far by simp
      have "r + t - 8 < 8" using r t(2) by simp
      note byte_position [OF this, of "q + 1", folded k9]
      moreover have "8 - r + (r + t - 8) = t" using far r by simp
      moreover have "r + t - 8 < r \<longleftrightarrow> t \<noteq> 8" "r + t - 8 = r \<longleftrightarrow> t = 8" using far t(2) r by auto
      ultimately show ?thesis using t hi [OF \<open>r + t - 8 < 8\<close>] by (auto simp: bits frame_bit_at)
    qed
  qed
  have clear': "\<not> byte_bit out' k" if k: "9 * i + 9 \<le> k" "k < 8 * ((9 * i + 9 + 7) div 8)" for k
  proof -
    have "(9 * i + 9 + 7) div 8 = q + 2" using pos r by (simp add: div_nat_eqI)
    with k have b: "8 * (q + 1) + r + 1 \<le> k" "k < 8 * (q + 1) + 8" using pos by simp_all
    then obtain j where j: "k = 8 * (q + 1) + j" "r < j" "j < 8" by (intro that [of "k - 8 * (q + 1)"]) auto
    note byte_position [OF j(3), of "q + 1", folded j(1)]
    with j hi [of j] show ?thesis by (simp add: bits)
  qed
  have "framed b m (Suc i) (out', 9 * i + 9)"
    unfolding framed_def prod.case using frame clear' len by (auto simp: ac_simps out'_def [THEN arg_cong [where f=length]])
  with step show ?thesis by blast
qed

lemma write_with_parity_framed:
  assumes ok: "bb_ok b" and room: "9 * n < 8 * length dest" and small: "9 * n < 2 ^ 16"
    and n: "n = bit_buffer_get_size_bytes b"
  shows "\<exists>out. bit_buffer_write_bytes_with_parity b dest (length dest) = Inr (out, 9 * n) \<and>
    length out = length dest \<and> (\<forall>k < 9 * n. byte_bit out k = frame_bit (bb_data b) (bb_parity b) k)"
proof -
  have "framed b (length dest) 0 (dest, 0)" by (simp add: framed_def)
  then have "\<exists>t. for_each (parity_step b) [0..<n] (dest, 0) = Inr t \<and> framed b (length dest) n t"
    using size_bytes_le [OF ok] n room small by (intro for_each_inv parity_step_framed [OF ok]) auto
  moreover have "sz (n * 9 + 8) div 8 \<le> length dest" using room small by simp
  ultimately show ?thesis
    unfolding bit_buffer_write_bytes_with_parity_def n [symmetric] Let_def by (auto simp: framed_def)
qed

text \<open>The way back: after \<open>i\<close> bytes of the frame.\<close>

definition unframed :: "u8 list \<Rightarrow> nat \<Rightarrow> nat \<Rightarrow> bit_buffer \<Rightarrow> bool" where
  "unframed out cap i c \<longleftrightarrow> bb_shape c \<and> bb_capacity_bytes c = cap \<and>
     (\<forall>j < i. (\<forall>t < 8. bit (bb_data c ! j) t = byte_bit out (9 * j + t)) \<and> byte_bit (bb_parity c) j = byte_bit out (9 * j + 8)) \<and>
     (\<forall>k. i \<le> k \<and> k < 8 * ((i + 7) div 8) \<longrightarrow> \<not> byte_bit (bb_parity c) k)"

lemma unparity_step_unframed:
  assumes c: "unframed out cap i c" and i: "i < cap" and room: "9 * i + 8 < 8 * length out"
  shows "\<exists>c'. unparity_step out i c = Inr c' \<and> unframed out cap (Suc i) c'"
proof -
  from c have ok: "bb_shape c" and cap: "bb_capacity_bytes c = cap"
    and old: "\<And>j t. j < i \<Longrightarrow> t < 8 \<Longrightarrow> bit (bb_data c ! j) t = byte_bit out (9 * j + t)"
      "\<And>j. j < i \<Longrightarrow> byte_bit (bb_parity c) j = byte_bit out (9 * j + 8)"
    and clear: "\<And>k. i \<le> k \<Longrightarrow> k < 8 * ((i + 7) div 8) \<Longrightarrow> \<not> byte_bit (bb_parity c) k"
    by (auto simp: unframed_def)
  define q r where "q = 9 * i div 8" and "r = 9 * i mod 8"
  have pos: "9 * i = 8 * q + r" and r: "r < 8" by (simp_all add: q_def r_def)
  have r_i: "r = i mod 8" unfolding r_def by presburger
  have q1: "q + 1 < length out" using room pos by linarith
  have len: "i < length (bb_data c)" "i div 8 < length (bb_parity c)"
    using ok cap i by (auto simp: bb_shape_def)
  define x where "x = drop_bit r (out ! q) OR push_bit (8 - r) (out ! (q + 1))"
  define b where "b = (drop_bit r (out ! (q + 1)) AND 1 :: u8)"
  define p where "p = (if r = 0 then b else bb_parity c ! (i div 8) OR push_bit r b)"
  let ?c = "c\<lparr>bb_data := (bb_data c)[i := x], bb_parity := (bb_parity c)[i div 8 := p]\<rparr>"
  have step: "unparity_step out i c = Inr ?c"
    using q1 len by (auto simp: unparity_step_def Let_def q_def [symmetric] r_def [symmetric] list_get_def list_set_def x_def b_def p_def)
  have x: "bit x t = byte_bit out (9 * i + t)" if t: "t < 8" for t
  proof (cases "r + t < 8")
    case True
    have e: "9 * i + t = 8 * q + (r + t)" "\<not> 8 - r \<le> t" using pos True by simp_all
    show ?thesis unfolding e(1) byte_bit_at [OF True] using t e(2)
      by (simp add: x_def bit_or_iff bit_drop_bit_eq bit_push_bit_iff)
  next
    case False
    have e: "9 * i + t = 8 * (q + 1) + (t - (8 - r))" "t - (8 - r) < 8" "8 - r \<le> t"
      using pos False t r by simp_all
    have "\<not> bit (out ! q) (r + t)" using False bit_imp_le_length [of "out ! q" "r + t"] by auto
    then show ?thesis unfolding e(1) byte_bit_at [OF e(2)] using t e(3)
      by (simp add: x_def bit_or_iff bit_drop_bit_eq bit_push_bit_iff possible_bit_def)
  qed
  have b: "bit b j \<longleftrightarrow> j = 0 \<and> byte_bit out (9 * i + 8)" for j
  proof -
    have e: "9 * i + 8 = 8 * (q + 1) + r" using pos by simp
    show ?thesis unfolding e byte_bit_at [OF r] by (auto simp: b_def bit_and_iff bit_drop_bit_eq bit_1_iff)
  qed
  have p: "bit p j \<longleftrightarrow> (if j < r then bit (bb_parity c ! (i div 8)) j else j = r \<and> byte_bit out (9 * i + 8))" if j: "j < 8" for j
  proof (cases "r = 0")
    case True
    then show ?thesis using b by (simp add: p_def)
  next
    case False
    have i8: "i = 8 * (i div 8) + r" using r_i by simp
    have "\<not> bit (bb_parity c ! (i div 8)) j" if "r \<le> j"
    proof -
      have "(i + 7) div 8 = i div 8 + 1" using False i8 r by (subst i8) (simp add: div_nat_eqI)
      then have "\<not> byte_bit (bb_parity c) (8 * (i div 8) + j)"
        using clear [of "8 * (i div 8) + j"] that j i8 by simp
      then show ?thesis using byte_bit_at [OF j] by simp
    qed
    with False j show ?thesis by (auto simp: p_def b bit_or_iff bit_push_bit_iff possible_bit_def)
  qed
  have par: "byte_bit ((bb_parity c)[i div 8 := p]) k = (if k div 8 = i div 8 then bit p (k mod 8) else byte_bit (bb_parity c) k)" for k
    using len(2) by (simp add: byte_bit_update)
  have "bit (bb_data ?c ! j) t = byte_bit out (9 * j + t)" if "j < Suc i" "t < 8" for j t
    using that x old(1) len(1) by (cases "j = i") (auto simp: nth_list_update)
  moreover have "byte_bit (bb_parity ?c) j = byte_bit out (9 * j + 8)" if j: "j < Suc i" for j
  proof (cases "j = i")
    case True
    with p [of r] r_i r show ?thesis by (simp add: par)
  next
    case False
    then have "j < i" using j by simp
    show ?thesis
    proof (cases "j div 8 = i div 8")
      case True
      then have "j mod 8 < r" using \<open>j < i\<close> r_i by (metis div_le_mono div_mult_mod_eq linorder_neqE_nat nat_add_left_cancel_less less_irrefl_nat less_trans)
      with True p [of "j mod 8"] old(2) [OF \<open>j < i\<close>] show ?thesis by (simp add: par) (simp add: byte_bit_def)
    next
      case False
      with old(2) [OF \<open>j < i\<close>] show ?thesis by (simp add: par)
    qed
  qed
  moreover have "\<not> byte_bit (bb_parity ?c) k" if k: "Suc i \<le> k" "k < 8 * ((Suc i + 7) div 8)" for k
  proof -
    have i8: "i = 8 * (i div 8) + r" using r_i by simp
    have "(Suc i + 7) div 8 = i div 8 + 1" by simp
    with k i8 obtain j where j: "k = 8 * (i div 8) + j" "r < j" "j < 8"
      by (intro that [of "k - 8 * (i div 8)"]) auto
    note byte_position [OF j(3), of "i div 8", folded j(1)]
    with j p [of j] show ?thesis by (simp add: par)
  qed
  moreover have "bb_shape ?c" using ok by (simp add: bb_shape_def)
  ultimately show ?thesis using step cap by (auto simp: unframed_def)
qed

text \<open>
  C22: a frame with parity. The bytes of a buffer and their parity bits are written as groups of nine
  bits, least significant bit first, and read back from them into another buffer, byte by byte and
  parity bit by parity bit. The frame has to be shorter than \<open>2 ^ 16\<close> bits, the range of the
  position that the writing loop counts with.
\<close>

theorem parity_frame_roundtrip:
  assumes "bb_reachable b" and "bb_reachable c" and "n = bit_buffer_get_size_bytes b" and "0 < n" and "9 * n < 2 ^ 16"
    and "n \<le> bit_buffer_get_capacity_bytes c" and "9 * n < 8 * length dest"
  shows "\<exists>out c'. bit_buffer_write_bytes_with_parity b dest (length dest) = Inr (out, 9 * n) \<and>
    bit_buffer_copy_bytes_with_parity c out (9 * n) = Inr c' \<and> bit_buffer_get_size c' = 8 * n \<and>
    take n (bit_buffer_get_data c') = take n (bit_buffer_get_data b) \<and>
    data_bits (bit_buffer_get_parity c') n = data_bits (bit_buffer_get_parity b) n"
proof -
  have ok: "bb_ok b" "bb_shape c"
    using reachable_fits [OF assms(1)] inv_shape [OF reachable_inv [OF assms(2)]] assms(3,5) by simp_all
  from write_with_parity_framed [OF ok(1) _ assms(5,3), of dest] assms(7) obtain out where
    out: "bit_buffer_write_bytes_with_parity b dest (length dest) = Inr (out, 9 * n)" "length out = length dest"
    and frame: "\<And>k. k < 9 * n \<Longrightarrow> byte_bit out k = frame_bit (bb_data b) (bb_parity b) k" by auto
  let ?cap = "bb_capacity_bytes c"
  have cap: "n \<le> ?cap" using assms(6) by (simp add: bit_buffer_get_capacity_bytes_def)
  have "unframed out ?cap 0 c" using ok(2) by (simp add: unframed_def)
  then have "\<exists>d. for_each (unparity_step out) [0..<n] c = Inr d \<and> unframed out ?cap n d"
    using cap assms(7) out(2) by (intro for_each_inv unparity_step_unframed) auto
  then obtain d where d: "for_each (unparity_step out) [0..<n] c = Inr d" "unframed out ?cap n d" by blast
  let ?d = "d\<lparr>bb_size_bits := 8 * n\<rparr>"
  have "\<not> 9 * n < 9" "sz (9 * n div 9 * 8) = 8 * n" using assms(4,5) by simp_all
  then have copy: "bit_buffer_copy_bytes_with_parity c out (9 * n) = Inr ?d"
    using d(1) by (simp add: bit_buffer_copy_bytes_with_parity_def)
  have len: "n \<le> length (bb_data d)" "n \<le> length (bb_data b)"
    using d(2) cap ok(1) size_bytes_le [OF ok(1)] assms(3) by (auto simp: unframed_def bb_ok_def bb_shape_def)
  have "take n (bb_data d) = take n (bb_data b)"
  proof (rule nth_equalityI)
    fix j assume "j < length (take n (bb_data d))"
    then have j: "j < n" by simp
    have "bb_data d ! j = bb_data b ! j"
    proof (rule bit_word_eqI)
      fix t assume "t < LENGTH(8)"
      then have t: "t < 8" by simp
      then have "bit (bb_data d ! j) t = byte_bit out (9 * j + t)" using d(2) j by (simp add: unframed_def)
      with t j frame [of "9 * j + t"] show "bit (bb_data d ! j) t = bit (bb_data b ! j) t" by (simp add: frame_bit_at)
    qed
    with j show "take n (bb_data d) ! j = take n (bb_data b) ! j" by simp
  qed (use len in simp)
  moreover have "data_bits (bb_parity d) n = data_bits (bb_parity b) n"
    using d(2) frame by (simp add: data_bits_eq_iff unframed_def frame_bit_at)
  ultimately show ?thesis
    using out(1) copy by (auto simp: bit_buffer_get_size_def bit_buffer_get_data_def bit_buffer_get_parity_def)
qed

theorem parity_frame_roundtrip_witness:
  "bindr (bit_buffer_alloc 1) (\<lambda>a. bindr (bit_buffer_append_byte a 5) (\<lambda>b.
     bindr (bit_buffer_write_bytes_with_parity b [0, 0] 2) (\<lambda>(out, n).
     bindr (bit_buffer_copy_bytes_with_parity a out n) (\<lambda>c. Inr (n, take 1 (bit_buffer_get_data c)))))) = Inr (9, [5])"
proof -
  obtain a where a: "bit_buffer_alloc 1 = Inr a" and a': "bb_data a = [0]" "bb_size_bits a = 0" "bb_capacity_bytes a = 1"
    by (auto simp: bit_buffer_alloc_def)
  obtain b where b: "bit_buffer_append_byte a 5 = Inr b" and b': "bb_data b = [5]" "bb_size_bits b = 8" "bb_capacity_bytes b = 1"
    using a' by (auto simp: bit_buffer_append_byte_def bit_buffer_get_size_bytes_def list_set_def)
  have ra: "bb_reachable a" by (rule bb_reachable.alloc [OF _ a]) simp
  have rb: "bb_reachable b" by (rule bb_reachable.append_byte [OF ra b])
  have len: "length [0, 0 :: u8] = 2" by simp
  obtain out c where out: "bit_buffer_write_bytes_with_parity b [0, 0] 2 = Inr (out, 9)"
      and c: "bit_buffer_copy_bytes_with_parity a out 9 = Inr c" "take 1 (bit_buffer_get_data c) = [5]"
    using parity_frame_roundtrip [OF rb ra, of 1 "[0, 0]", unfolded len] a' b'
    by (auto simp: bit_buffer_get_size_bytes_def bit_buffer_get_capacity_bytes_def bit_buffer_get_data_def)
  show ?thesis unfolding a bindr_Inr b out prod.case c(1) using c(2) by simp
qed

end
