(* ===== verification/Crc.thy ===== *)
theory Crc
  imports Bytes
begin

text \<open>
  Cyclic redundancy codes: the shift register that takes a message bit by bit, most significant end
  first, is the reference that every checksum routine of the firmware is compared with. The register
  holds the remainder of the division of the message by the generator polynomial over the field of
  two elements, it can take several bits at once, and it tells apart two messages that differ in a
  burst no longer than itself.
\<close>

section \<open>The reference register\<close>

definition crc_bit :: "'a::len word \<Rightarrow> 'a word \<Rightarrow> bool \<Rightarrow> 'a word" where
  "crc_bit p s b = (if bit s (LENGTH('a) - 1) \<noteq> b then push_bit 1 s XOR p else push_bit 1 s)"

definition crc_ref :: "'a::len word \<Rightarrow> 'a word \<Rightarrow> bool list \<Rightarrow> 'a word" where
  "crc_ref p s bs = foldl (crc_bit p) s bs"

text \<open>Without input: the shift towards the most, and towards the least significant end.\<close>

definition crc_shift :: "'a::len word \<Rightarrow> 'a word \<Rightarrow> 'a word" where
  "crc_shift p s = (if bit s (LENGTH('a) - 1) then push_bit 1 s XOR p else push_bit 1 s)"

definition crc_shift_lsb :: "'a::len word \<Rightarrow> 'a word \<Rightarrow> 'a word" where
  "crc_shift_lsb p s = (if bit s 0 then drop_bit 1 s XOR p else drop_bit 1 s)"

lemma crc_ref_simps [simp]:
  "crc_ref p s [] = s"
  "crc_ref p s (b # bs) = crc_ref p (crc_bit p s b) bs"
  by (simp_all add: crc_ref_def)

lemma crc_ref_append [simp]: "crc_ref p s (xs @ ys) = crc_ref p (crc_ref p s xs) ys"
  by (simp add: crc_ref_def)

lemma bit_push_1: "bit (push_bit (Suc 0) s) j \<longleftrightarrow> j < LENGTH('a) \<and> j \<noteq> 0 \<and> bit s (j - 1)" for s :: "'a::len word"
  unfolding bit_push_bit_iff by (cases j) (auto simp: possible_bit_def)

lemma bit_crc_bit:
  "bit (crc_bit p s b) j \<longleftrightarrow> j < LENGTH('a) \<and> ((j \<noteq> 0 \<and> bit s (j - 1)) \<noteq> ((bit s (LENGTH('a) - 1) \<noteq> b) \<and> bit p j))"
  for p s :: "'a::len word"
  using bit_imp_le_length [of p j] unfolding crc_bit_def One_nat_def by (auto simp: bit_xor_iff bit_push_1 simp del: push_bit_Suc)

lemma bit_crc_shift:
  "bit (crc_shift p s) j \<longleftrightarrow> j < LENGTH('a) \<and> ((j \<noteq> 0 \<and> bit s (j - 1)) \<noteq> (bit s (LENGTH('a) - 1) \<and> bit p j))"
  for p s :: "'a::len word"
  using bit_imp_le_length [of p j] unfolding crc_shift_def One_nat_def by (auto simp: bit_xor_iff bit_push_1 simp del: push_bit_Suc)

lemma bit_crc_shift_lsb: "bit (crc_shift_lsb p s) j \<longleftrightarrow> bit s (Suc j) \<noteq> (bit s 0 \<and> bit p j)" for p s :: "'a::len word"
  unfolding crc_shift_lsb_def by (auto simp: bit_xor_iff bit_drop_bit_eq simp del: drop_bit_Suc)

section \<open>Several bits at once\<close>

text \<open>A run of bits at the most significant end of the register.\<close>

definition aligned :: "bool list \<Rightarrow> 'a::len word" where
  "aligned bs = push_bit (LENGTH('a) - length bs) (word_of_bits bs)"

lemma bit_aligned:
  "length bs \<le> LENGTH('a) \<Longrightarrow>
   bit (aligned bs :: 'a::len word) j \<longleftrightarrow> j < LENGTH('a) \<and> LENGTH('a) - length bs \<le> j \<and> bs ! (LENGTH('a) - 1 - j)"
proof -
  assume n: "length bs \<le> LENGTH('a)"
  have "length bs - 1 - (j - (LENGTH('a) - length bs)) = LENGTH('a) - 1 - j" if "LENGTH('a) - length bs \<le> j" using that n by simp
  then show ?thesis using n unfolding aligned_def by (auto simp: bit_push_bit_iff bit_word_of_bits possible_bit_def)
qed

lemma crc_shift_aligned:
  assumes "Suc (length bs) \<le> LENGTH('a)"
  shows "crc_shift p (s XOR aligned (b # bs)) = crc_bit p s b XOR (aligned bs :: 'a::len word)"
proof (rule bit_word_eqI)
  fix j assume j: "j < LENGTH('a)"
  have n: "length (b # bs) \<le> LENGTH('a)" "length bs \<le> LENGTH('a)" using assms by simp_all
  have "bit (aligned (b # bs) :: 'a word) (LENGTH('a) - 1) = b" using assms unfolding bit_aligned [OF n(1)] by simp
  moreover have "(j \<noteq> 0 \<and> bit (aligned (b # bs) :: 'a word) (j - 1)) = bit (aligned bs :: 'a word) j"
    using j assms unfolding bit_aligned [OF n(1)] bit_aligned [OF n(2)] by (auto simp: nth_Cons')
  ultimately show "bit (crc_shift p (s XOR aligned (b # bs))) j = bit (crc_bit p s b XOR (aligned bs :: 'a word)) j"
    using j by (auto simp: bit_crc_shift bit_crc_bit bit_xor_iff)
qed

lemma crc_ref_shifts:
  "length bs \<le> LENGTH('a) \<Longrightarrow> crc_ref p s bs = (crc_shift p ^^ length bs) (s XOR (aligned bs :: 'a::len word))"
proof (induction bs arbitrary: s)
  case Nil
  then show ?case by (simp add: aligned_def)
next
  case (Cons b bs)
  then show ?case by (simp add: crc_shift_aligned funpow_swap1)
qed

section \<open>Detection of bursts\<close>

text \<open>Two messages that differ, and only within \<open>k\<close> consecutive bits.\<close>

definition burst :: "nat \<Rightarrow> bool list \<Rightarrow> bool list \<Rightarrow> bool" where
  "burst k xs ys \<longleftrightarrow> (\<exists>us vs ws zs. xs = us @ vs @ zs \<and> ys = us @ ws @ zs \<and> length vs = length ws \<and> length vs \<le> k \<and> vs \<noteq> ws)"

lemma burst_length: "burst k xs ys \<Longrightarrow> length xs = length ys"
  by (auto simp: burst_def)

lemma burst_neq: "burst k xs ys \<Longrightarrow> xs \<noteq> ys"
  by (auto simp: burst_def)

lemma crc_shift_inj:
  fixes s t :: "'a::len word"
  assumes p: "bit p 0" and eq: "crc_shift p s = crc_shift p t"
  shows "s = t"
proof (rule bit_word_eqI)
  fix j assume j: "j < LENGTH('a)"
  have b: "bit (crc_shift p s) i = bit (crc_shift p t) i" for i by (simp add: eq)
  have top: "bit s (LENGTH('a) - 1) = bit t (LENGTH('a) - 1)"
    using b [of 0] p by (simp add: bit_crc_shift)
  show "bit s j = bit t j"
  proof (cases "Suc j < LENGTH('a)")
    case True
    then show ?thesis using b [of "Suc j"] top by (auto simp: bit_crc_shift)
  next
    case False
    then have "j = LENGTH('a) - 1" using j by simp
    then show ?thesis using top by simp
  qed
qed

lemma crc_shifts_inj: "bit p 0 \<Longrightarrow> (crc_shift p ^^ n) s = (crc_shift p ^^ n) t \<Longrightarrow> s = t"
  by (induction n) (auto dest: crc_shift_inj)

lemma aligned_inj:
  assumes "length xs = length ys" and "length ys \<le> LENGTH('a)" and "aligned xs = (aligned ys :: 'a::len word)"
  shows "xs = ys"
proof (rule nth_equalityI)
  fix i assume i: "i < length xs"
  then have "bit (aligned xs :: 'a word) (LENGTH('a) - 1 - i) = bit (aligned ys :: 'a word) (LENGTH('a) - 1 - i)"
    using assms(3) by simp
  moreover have "LENGTH('a) - length ys \<le> LENGTH('a) - 1 - i" using i assms(1) by simp
  ultimately show "xs ! i = ys ! i" using i assms(1,2) by (simp add: bit_aligned)
qed (rule assms(1))

lemma crc_bit_inj: "bit p 0 \<Longrightarrow> crc_bit p s b = crc_bit p t b \<Longrightarrow> s = t" for s :: "'a::len word"
proof -
  assume p: "bit p 0" and eq: "crc_bit p s b = crc_bit p t b"
  have "crc_bit p u b = crc_shift p (u XOR aligned [b])" for u :: "'a word"
    using crc_shift_aligned [of "[]" p u b] by (simp add: aligned_def Suc_le_eq)
  with eq have "s XOR aligned [b] = t XOR aligned [b]" using crc_shift_inj [OF p] by metis
  then have "(s XOR aligned [b]) XOR aligned [b] = (t XOR aligned [b]) XOR aligned [b]" by simp
  then show "s = t" by (simp add: xor.assoc)
qed

lemma crc_ref_inj: "bit p 0 \<Longrightarrow> crc_ref p s bs = crc_ref p t bs \<Longrightarrow> s = t"
  by (induction bs arbitrary: s t) (auto dest: crc_bit_inj)

lemma crc_ref_burst:
  fixes p :: "'a::len word"
  assumes p: "bit p 0" and b: "burst LENGTH('a) xs ys"
  shows "crc_ref p s xs \<noteq> crc_ref p s ys"
proof
  assume eq: "crc_ref p s xs = crc_ref p s ys"
  from b obtain us vs ws zs where x: "xs = us @ vs @ zs" "ys = us @ ws @ zs"
    and n: "length vs = length ws" "length vs \<le> LENGTH('a)" and ne: "vs \<noteq> ws" by (auto simp: burst_def)
  define u where "u = crc_ref p s us"
  have "crc_ref p u vs = crc_ref p u ws"
    using eq crc_ref_inj [OF p] unfolding x crc_ref_append u_def by blast
  then have "u XOR aligned vs = (u XOR aligned ws :: 'a word)"
    using n by (auto simp: crc_ref_shifts dest: crc_shifts_inj [OF p])
  then have "u XOR (u XOR aligned vs) = u XOR (u XOR aligned ws :: 'a word)" by simp
  then have "aligned vs = (aligned ws :: 'a word)" by (simp flip: xor.assoc)
  then show False using aligned_inj [OF n(1)] n ne by auto
qed

section \<open>Reflected registers\<close>

lemma word_reverse_xor: "word_reverse (x XOR y) = word_reverse x XOR (word_reverse y :: 'a::len word)"
  by (rule bit_word_eqI) (simp add: bit_word_reverse_iff bit_xor_iff)

lemma word_reverse_not: "word_reverse (NOT x) = NOT (word_reverse x :: 'a::len word)"
  by (rule bit_word_eqI) (auto simp: bit_word_reverse_iff bit_not_iff possible_bit_def)

lemma word_reverse_shift_lsb: "word_reverse (crc_shift_lsb p s) = crc_shift (word_reverse p) (word_reverse s)" for s :: "'a::len word"
proof (rule bit_word_eqI)
  fix j assume j: "j < LENGTH('a)"
  have "bit s (LENGTH('a) - j) \<longleftrightarrow> j \<noteq> 0 \<and> bit s (LENGTH('a) - j)" using bit_imp_le_length [of s "LENGTH('a) - j"] by auto
  moreover have "LENGTH('a) - (j - 1) = Suc (LENGTH('a) - j)" if "j \<noteq> 0" using that j by simp
  ultimately show "bit (word_reverse (crc_shift_lsb p s)) j = bit (crc_shift (word_reverse p) (word_reverse s)) j"
    using j by (auto simp: bit_word_reverse_iff bit_crc_shift_lsb bit_crc_shift Suc_diff_Suc)
qed

lemma word_reverse_shifts_lsb:
  "word_reverse ((crc_shift_lsb p ^^ n) s) = (crc_shift (word_reverse p) ^^ n) (word_reverse s)"
  by (induction n) (simp_all add: word_reverse_shift_lsb)

section \<open>Byte by byte\<close>

lemma aligned_msb_byte:
  "8 \<le> LENGTH('a) \<Longrightarrow> push_bit (LENGTH('a) - 8) (ucast b) = (aligned (msb_bits [b] 0 8) :: 'a::len word)"
proof (rule bit_word_eqI)
  fix j assume n: "8 \<le> LENGTH('a)" and j: "j < LENGTH('a)"
  have "j - (LENGTH('a) - 8) = 7 - (LENGTH('a) - 1 - j)" if "LENGTH('a) - 8 \<le> j" using that n j by simp
  then show "bit (push_bit (LENGTH('a) - 8) (ucast b) :: 'a word) j = bit (aligned (msb_bits [b] 0 8) :: 'a word) j"
    using n j by (auto simp: bit_aligned msb_bit_def bit_push_bit_iff bit_ucast_iff possible_bit_def)
qed

lemma aligned_lsb_byte: "8 \<le> LENGTH('a) \<Longrightarrow> word_reverse (ucast b) = (aligned (data_bits [b] 8) :: 'a::len word)"
proof (rule bit_word_eqI)
  fix j assume n: "8 \<le> LENGTH('a)" and j: "j < LENGTH('a)"
  have "LENGTH('a) - 8 \<le> j" if "bit b (LENGTH('a) - Suc j)" using bit_imp_le_length [OF that] j by simp
  then show "bit (word_reverse (ucast b) :: 'a word) j = bit (aligned (data_bits [b] 8) :: 'a word) j"
    using n j by (auto simp: bit_aligned data_bits_def byte_bit_def bit_word_reverse_iff bit_ucast_iff)
qed

text \<open>A byte is added to the register, which is then shifted eight times.\<close>

lemma crc_msb_byte:
  "8 \<le> LENGTH('a) \<Longrightarrow>
   (crc_shift p ^^ 8) (s XOR push_bit (LENGTH('a) - 8) (ucast b)) = (crc_ref p s (msb_bits [b] 0 8) :: 'a::len word)"
  by (simp add: crc_ref_shifts aligned_msb_byte)

lemma crc_lsb_byte:
  "8 \<le> LENGTH('a) \<Longrightarrow>
   word_reverse ((crc_shift_lsb p ^^ 8) (s XOR ucast b)) = (crc_ref (word_reverse p) (word_reverse s) (data_bits [b] 8) :: 'a::len word)"
  by (simp add: crc_ref_shifts word_reverse_shifts_lsb word_reverse_xor aligned_lsb_byte)

lemma for_each_list:
  "n \<le> length data \<Longrightarrow> for_each (\<lambda>i s. bindr (list_get data i) (\<lambda>b. Inr (f b s))) [0..<n] s = Inr (foldl (\<lambda>s b. f b s) s (take n data))"
  by (induction n) (simp_all add: for_each_Suc list_get_def take_Suc_conv_app_nth del: upt_Suc)

lemma msb_bits_Suc_byte: "msb_bits data 0 (8 * Suc n) = msb_bits data 0 (8 * n) @ msb_bits [data ! n] 0 8"
proof -
  have "msb_bits data (8 * n) 8 = msb_bits [data ! n] 0 8"
    by (rule nth_equalityI) (simp_all add: msb_bit_def)
  moreover have "8 * Suc n = 8 * n + 8" by simp
  ultimately show ?thesis by (simp only: msb_bits_add add_0)
qed

lemma data_bits_Suc_byte: "n < length data \<Longrightarrow> data_bits data (8 * Suc n) = data_bits data (8 * n) @ data_bits [data ! n] 8"
proof (rule nth_equalityI)
  fix i assume n: "n < length data" and "i < length (data_bits data (8 * Suc n))"
  then have i: "i < 8 * n + 8" by simp
  show "data_bits data (8 * Suc n) ! i = (data_bits data (8 * n) @ data_bits [data ! n] 8) ! i"
  proof (cases "i < 8 * n")
    case False
    then obtain j where "i = 8 * n + j" "j < 8" using i by (intro that [of "i - 8 * n"]) auto
    then show ?thesis by (simp add: data_bits_def nth_append byte_bit_def)
  qed (simp add: data_bits_def nth_append)
qed simp

text \<open>The whole message: \<open>n\<close> bytes, each taken in with one of the two orders of its bits.\<close>

lemma fold_msb_bits:
  assumes "\<And>s b. f s b = foldl g s (msb_bits [b] 0 8)" and "n \<le> length data"
  shows "foldl f s (take n data) = foldl g s (msb_bits data 0 (8 * n))"
  using assms(2)
proof (induction n)
  case 0
  then show ?case by (simp add: msb_bits_def)
next
  case (Suc n)
  then show ?case using msb_bits_Suc_byte [of data n] by (simp add: take_Suc_conv_app_nth assms(1))
qed

lemma crc_fold_msb:
  "(\<And>s b. f s b = crc_ref p s (msb_bits [b] 0 8)) \<Longrightarrow> n \<le> length data \<Longrightarrow>
   foldl f s (take n data) = crc_ref p s (msb_bits data 0 (8 * n))"
  unfolding crc_ref_def by (rule fold_msb_bits)

lemma crc_fold_lsb:
  assumes "\<And>s b. g (f s b) = crc_ref p (g s) (data_bits [b] 8)" and "n \<le> length data"
  shows "g (foldl f s (take n data)) = crc_ref p (g s) (data_bits data (8 * n))"
  using assms(2)
proof (induction n)
  case (Suc n)
  then show ?case using data_bits_Suc_byte [of n data] by (simp add: take_Suc_conv_app_nth assms(1))
qed simp

section \<open>Division by the generator polynomial\<close>

text \<open>
  Polynomials over the field of two elements are naturals, bit \<open>i\<close> the coefficient of \<open>x\<^sup>i\<close>: the sum is
  \<open>XOR\<close>, the product is the multiplication without carries.
\<close>

fun clmul :: "nat \<Rightarrow> nat \<Rightarrow> nat" where
  "clmul 0 g = 0"
| "clmul (Suc q) g = (if odd (Suc q) then g else 0) XOR 2 * clmul (Suc q div 2) g"

lemma clmul_step: "clmul (2 * q + of_bool b) g = (if b then g else 0) XOR push_bit (Suc 0) (clmul q g)"
proof (cases "2 * q + of_bool b")
  case 0
  then show ?thesis by (cases b) auto
next
  case (Suc m)
  then have "Suc m div 2 = q" "odd (Suc m) = b" unfolding Suc [symmetric] by (cases b; simp)+
  then show ?thesis unfolding Suc by (auto simp: push_bit_eq_mult mult.commute)
qed

text \<open>The generator of a register of \<open>n\<close> bits: \<open>x\<^sup>n\<close> and the coefficients in \<open>p\<close>.\<close>

definition crc_generator :: "'a::len word \<Rightarrow> nat" where
  "crc_generator p = push_bit LENGTH('a) 1 OR unat p"

definition nat_of_bits :: "bool list \<Rightarrow> nat" where
  "nat_of_bits bs = foldl (\<lambda>n b. 2 * n + of_bool b) 0 bs"

lemma nat_of_bits_snoc: "nat_of_bits (bs @ [b]) = 2 * nat_of_bits bs + of_bool b"
  by (simp add: nat_of_bits_def)

lemma nat_bit_eqI: "(\<And>j. bit m j = bit n j) \<Longrightarrow> m = n" for m n :: nat
  by (simp add: bit_eq_iff)

lemma bit_unat_word: "bit (unat w) j \<longleftrightarrow> bit w j" for w :: "'a::len word"
  by (simp add: bit_unsigned_iff possible_bit_def)

lemma bit_push_nat: "bit (push_bit k n) j \<longleftrightarrow> k \<le> j \<and> bit n (j - k)" for n :: nat
  by (simp add: bit_push_bit_iff possible_bit_def)

lemma bit_snoc_nat: "bit (2 * n + of_bool b) j \<longleftrightarrow> (if j = 0 then b else bit n (j - 1))" for n :: nat
  by (cases j) (auto simp: bit_Suc bit_0)

lemma bit_crc_generator: "bit (crc_generator p) j \<longleftrightarrow> j = LENGTH('a) \<or> bit p j" for p :: "'a::len word"
  unfolding crc_generator_def bit_or_iff bit_push_nat bit_1_iff by (auto simp: bit_unat_word)

text \<open>One bit: what leaves the register at the top is a multiple of the generator.\<close>

lemma crc_bit_division:
  "push_bit (Suc 0) (unat s) XOR push_bit LENGTH('a) (of_bool b) =
   (if bit s (LENGTH('a) - 1) \<noteq> b then crc_generator p else 0) XOR unat (crc_bit p s b)" for p s :: "'a::len word"
proof (rule nat_bit_eqI)
  fix j
  have l: "bit (push_bit (Suc 0) (unat s) XOR push_bit LENGTH('a) (of_bool b)) j \<longleftrightarrow>
      (j \<noteq> 0 \<and> bit s (j - 1)) \<noteq> (j = LENGTH('a) \<and> b)"
    unfolding bit_xor_iff bit_push_nat bit_unat_word by (auto simp: bit_of_bool_iff)
  have r: "bit ((if c then crc_generator p else 0) XOR unat (crc_bit p s b)) j \<longleftrightarrow>
      (c \<and> (j = LENGTH('a) \<or> bit p j)) \<noteq> bit (crc_bit p s b) j" for c
    by (simp add: bit_xor_iff bit_crc_generator bit_unat_word)
  show "bit (push_bit (Suc 0) (unat s) XOR push_bit LENGTH('a) (of_bool b)) j =
      bit ((if bit s (LENGTH('a) - 1) \<noteq> b then crc_generator p else 0) XOR unat (crc_bit p s b)) j"
    unfolding l r bit_crc_bit using bit_imp_le_length [of p j] bit_imp_le_length [of s "j - 1"]
    by (cases "j < LENGTH('a)"; cases "j = LENGTH('a)") auto
qed

lemma crc_ref_division:
  "\<exists>q. push_bit LENGTH('a) (nat_of_bits bs) XOR push_bit (length bs) (unat s) =
     clmul q (crc_generator p) XOR unat (crc_ref p s bs)" for p s :: "'a::len word"
proof (induction bs rule: rev_induct)
  case Nil
  have "push_bit LENGTH('a) (nat_of_bits []) XOR push_bit (length []) (unat s) =
     clmul 0 (crc_generator p) XOR unat (crc_ref p s [])" by (simp add: nat_of_bits_def)
  then show ?case by blast
next
  case (snoc b bs)
  let ?t = "crc_ref p s bs" and ?g = "crc_generator p"
  from snoc obtain q where q: "push_bit LENGTH('a) (nat_of_bits bs) XOR push_bit (length bs) (unat s) = clmul q ?g XOR unat ?t"
    by blast
  define c where "c = (bit ?t (LENGTH('a) - 1) \<noteq> b)"
  have "push_bit LENGTH('a) (nat_of_bits (bs @ [b])) XOR push_bit (length (bs @ [b])) (unat s) =
      push_bit (Suc 0) (push_bit LENGTH('a) (nat_of_bits bs) XOR push_bit (length bs) (unat s)) XOR push_bit LENGTH('a) (of_bool b)"
    by (rule nat_bit_eqI)
      (auto simp: bit_xor_iff bit_push_nat nat_of_bits_snoc bit_snoc_nat bit_of_bool_iff Suc_le_eq simp del: push_bit_Suc)
  also have "\<dots> = push_bit (Suc 0) (clmul q ?g) XOR (push_bit (Suc 0) (unat ?t) XOR push_bit LENGTH('a) (of_bool b))"
    unfolding q by (rule nat_bit_eqI) (auto simp: bit_xor_iff bit_push_nat simp del: push_bit_Suc)
  also have "\<dots> = push_bit (Suc 0) (clmul q ?g) XOR ((if c then ?g else 0) XOR unat (crc_bit p ?t b))"
    unfolding crc_bit_division [of ?t b p] c_def ..
  also have "\<dots> = clmul (2 * q + of_bool c) ?g XOR unat (crc_ref p s (bs @ [b]))"
    unfolding clmul_step by (simp add: ac_simps del: push_bit_Suc)
  finally show ?case by blast
qed

text \<open>The remainder is determined: a multiple of the generator other than zero is not shorter than it.\<close>

lemma clmul_long: "q \<noteq> 0 \<Longrightarrow> \<exists>k \<ge> LENGTH('a). bit (clmul q (crc_generator p)) k" for p :: "'a::len word"
proof (induction q rule: less_induct)
  case (less q)
  define m b where "m = q div 2" and "b = odd q"
  have q: "q = 2 * m + of_bool b" by (simp add: m_def b_def)
  show ?case
  proof (cases "m = 0")
    case True
    then have "clmul q (crc_generator p) = crc_generator p" using less.prems unfolding q by (cases b) auto
    then show ?thesis by (auto simp: bit_crc_generator)
  next
    case False
    with less.IH [of m] obtain k where k: "LENGTH('a) \<le> k" "bit (clmul m (crc_generator p)) k" by (auto simp: m_def)
    then have "bit (clmul q (crc_generator p)) (Suc k)"
      using bit_imp_le_length [of p "Suc k"] unfolding q clmul_step bit_xor_iff bit_push_nat
      by (auto simp: bit_crc_generator)
    then show ?thesis using k(1) by (intro exI [of _ "Suc k"]) simp
  qed
qed

lemma clmul_xor: "clmul q g XOR clmul r g = clmul (q XOR r) g"
proof (induction q arbitrary: r rule: less_induct)
  case (less q)
  show ?case
  proof (cases "q = 0")
    case False
    define m b n c where "m = q div 2" and "b = odd q" and "n = r div 2" and "c = odd r"
    have q: "q = 2 * m + of_bool b" and r: "r = 2 * n + of_bool c" by (simp_all add: m_def b_def n_def c_def)
    have x: "q XOR r = 2 * (m XOR n) + of_bool (b \<noteq> c)"
      unfolding q r by (rule nat_bit_eqI) (auto simp: bit_xor_iff bit_snoc_nat)
    have "m < q" using False by (simp add: m_def)
    then have ih: "clmul m g XOR clmul n g = clmul (m XOR n) g" by (rule less.IH)
    show ?thesis unfolding x unfolding q r clmul_step ih [symmetric]
      by (rule nat_bit_eqI) (auto simp: bit_xor_iff bit_push_nat simp del: push_bit_Suc)
  qed simp
qed

lemma crc_remainder_unique:
  fixes p r r' :: "'a::len word"
  assumes "clmul q (crc_generator p) XOR unat r = clmul q' (crc_generator p) XOR unat r'"
  shows "r = r'"
proof (rule ccontr)
  assume ne: "r \<noteq> r'"
  let ?g = "crc_generator p"
  have e: "clmul (q XOR q') ?g = unat r XOR unat r'"
  proof (rule nat_bit_eqI)
    fix j
    have "bit (clmul q ?g XOR unat r) j = bit (clmul q' ?g XOR unat r') j" using assms by simp
    then show "bit (clmul (q XOR q') ?g) j = bit (unat r XOR unat r') j"
      unfolding clmul_xor [symmetric] by (auto simp: bit_xor_iff)
  qed
  have short: "\<not> bit (unat r XOR unat r') k" if "LENGTH('a) \<le> k" for k
    using that bit_imp_le_length [of r k] bit_imp_le_length [of r' k] by (auto simp: bit_xor_iff bit_unat_word)
  have "q XOR q' = 0" using clmul_long [of "q XOR q'" p] short unfolding e by auto
  then have "unat r XOR unat r' = 0" using e by simp
  then have "bit (unat r) j = bit (unat r') j" for j by (metis bit_0_eq bit_xor_iff bot_apply bot_bool_def)
  then have "r = r'" by (intro bit_word_eqI) (simp add: bit_unat_word)
  with ne show False by blast
qed

end
