(* ===== verification/Checksums.thy ===== *)
theory Checksums
  imports Bit_Buffer
begin

text \<open>
  The checksum routines beside the bit library: the radio blocks' \<^verbatim>\<open>lib/subghz/blocks/math.c\<close>,
  the one-wire \<^verbatim>\<open>lib/one_wire/maxim_crc.c\<close>, and the three 16-bit codes of the NFC stack with
  the operations that append them to a bit buffer, check them and cut them off again
  (\<^verbatim>\<open>lib/nfc/helpers\<close>).
\<close>

section \<open>Radio blocks\<close>

text \<open>\<^verbatim>\<open>bit_read(value, bit)\<close>; shifting a 64-bit key by 64 or more is undefined.\<close>

definition bit_read :: "u64 \<Rightarrow> nat \<Rightarrow> u64 res" where
  "bit_read value b = (if b < 64 then Inr (drop_bit b value AND 1) else Inl UndefinedArith)"

definition subghz_protocol_blocks_reverse_key :: "u64 \<Rightarrow> u8 \<Rightarrow> u64 res" where
  "subghz_protocol_blocks_reverse_key key bit_count =
     for_each (\<lambda>i reverse_key. bindr (bit_read key i) (\<lambda>b. Inr (push_bit 1 reverse_key OR b))) [0..<unat bit_count] 0"

definition subghz_protocol_blocks_get_parity :: "u64 \<Rightarrow> u8 \<Rightarrow> u8 res" where
  "subghz_protocol_blocks_get_parity key bit_count =
     bindr (for_each (\<lambda>i parity. bindr (bit_read key i) (\<lambda>b. Inr (parity + ucast b))) [0..<unat bit_count] 0)
       (\<lambda>parity. Inr (parity AND 1))"

text \<open>The body of the eight shifts in the routines that shift towards the top bit \<open>2 ^ k\<close> and towards bit 0.\<close>

definition shift_msb :: "nat \<Rightarrow> 'a::len word \<Rightarrow> 'a word \<Rightarrow> 'a word" where
  "shift_msb k poly remainder =
     (if remainder AND push_bit k 1 \<noteq> 0 then push_bit 1 remainder XOR poly else push_bit 1 remainder)"

definition shift_lsb :: "'a::len word \<Rightarrow> 'a word \<Rightarrow> 'a word" where
  "shift_lsb poly remainder =
     (if remainder AND 1 \<noteq> 0 then drop_bit 1 remainder XOR poly else drop_bit 1 remainder)"

definition subghz_protocol_blocks_crc4 :: "u8 list \<Rightarrow> nat \<Rightarrow> u8 \<Rightarrow> u8 \<Rightarrow> u8 res" where
  "subghz_protocol_blocks_crc4 message len polynomial init =
     bindr (for_each (\<lambda>i remainder. bindr (list_get message i) (\<lambda>b.
         Inr ((shift_msb 7 (push_bit 4 polynomial) ^^ 8) (remainder XOR b)))) [0..<len] (push_bit 4 init))
       (\<lambda>remainder. Inr (drop_bit 4 remainder AND 0x0F))"

definition subghz_protocol_blocks_crc7 :: "u8 list \<Rightarrow> nat \<Rightarrow> u8 \<Rightarrow> u8 \<Rightarrow> u8 res" where
  "subghz_protocol_blocks_crc7 message len polynomial init =
     bindr (for_each (\<lambda>i remainder. bindr (list_get message i) (\<lambda>b.
         Inr ((shift_msb 7 (push_bit 1 polynomial) ^^ 8) (remainder XOR b)))) [0..<len] (push_bit 1 init))
       (\<lambda>remainder. Inr (drop_bit 1 remainder AND 0x7F))"

definition subghz_protocol_blocks_crc8 :: "u8 list \<Rightarrow> nat \<Rightarrow> u8 \<Rightarrow> u8 \<Rightarrow> u8 res" where
  "subghz_protocol_blocks_crc8 message len polynomial init =
     for_each (\<lambda>i remainder. bindr (list_get message i) (\<lambda>b.
       Inr ((shift_msb 7 polynomial ^^ 8) (remainder XOR b)))) [0..<len] init"

definition subghz_protocol_blocks_crc8le :: "u8 list \<Rightarrow> nat \<Rightarrow> u8 \<Rightarrow> u8 \<Rightarrow> u8 res" where
  "subghz_protocol_blocks_crc8le message len polynomial init =
     bindr (subghz_protocol_blocks_reverse_key (ucast init) 8) (\<lambda>r.
     bindr (subghz_protocol_blocks_reverse_key (ucast polynomial) 8) (\<lambda>p.
     for_each (\<lambda>i remainder. bindr (list_get message i) (\<lambda>b.
       Inr ((shift_lsb (ucast p) ^^ 8) (remainder XOR b)))) [0..<len] (ucast r)))"

definition subghz_protocol_blocks_crc16lsb :: "u8 list \<Rightarrow> nat \<Rightarrow> u16 \<Rightarrow> u16 \<Rightarrow> u16 res" where
  "subghz_protocol_blocks_crc16lsb message len polynomial init =
     for_each (\<lambda>i remainder. bindr (list_get message i) (\<lambda>b.
       Inr ((shift_lsb polynomial ^^ 8) (remainder XOR ucast b)))) [0..<len] init"

definition subghz_protocol_blocks_crc16 :: "u8 list \<Rightarrow> nat \<Rightarrow> u16 \<Rightarrow> u16 \<Rightarrow> u16 res" where
  "subghz_protocol_blocks_crc16 message len polynomial init =
     for_each (\<lambda>i remainder. bindr (list_get message i) (\<lambda>b.
       Inr ((shift_msb 15 polynomial ^^ 8) (remainder XOR push_bit 8 (ucast b))))) [0..<len] init"

text \<open>One bit of the message in the digests: the key goes into the sum, then rolls on.\<close>

definition digest_step :: "('a::len word \<Rightarrow> 'a word) \<Rightarrow> u8 \<Rightarrow> 'a word \<times> 'a word \<Rightarrow> nat \<Rightarrow> 'a word \<times> 'a word" where
  "digest_step roll data s i =
     (let (sum, key) = s; sum = (if drop_bit i data AND 1 \<noteq> 0 then sum XOR key else sum) in (sum, roll key))"

definition subghz_protocol_blocks_lfsr_digest8 :: "u8 list \<Rightarrow> nat \<Rightarrow> u8 \<Rightarrow> u8 \<Rightarrow> u8 res" where
  "subghz_protocol_blocks_lfsr_digest8 message len gen key =
     bindr (for_each (\<lambda>byte s. bindr (list_get message byte) (\<lambda>data.
         Inr (foldl (digest_step (shift_lsb gen) data) s (rev [0..<8])))) [0..<len] (0, key))
       (\<lambda>(sum, key). Inr sum)"

text \<open>The counter of the outer loop is an \<^verbatim>\<open>int\<close> that starts at \<open>size - 1\<close>.\<close>

definition subghz_protocol_blocks_lfsr_digest8_reflect :: "u8 list \<Rightarrow> nat \<Rightarrow> u8 \<Rightarrow> u8 \<Rightarrow> u8 res" where
  "subghz_protocol_blocks_lfsr_digest8_reflect message len gen key =
     (let start = signed_take_bit 31 (int len - 1) in
     bindr (for_each (\<lambda>byte s. bindr (list_get message byte) (\<lambda>data.
         Inr (foldl (digest_step (shift_msb 7 gen) data) s [0..<8]))) (rev [0..<nat (start + 1)]) (0, key))
       (\<lambda>(sum, key). Inr sum))"

definition subghz_protocol_blocks_lfsr_digest16 :: "u8 list \<Rightarrow> nat \<Rightarrow> u16 \<Rightarrow> u16 \<Rightarrow> u16 res" where
  "subghz_protocol_blocks_lfsr_digest16 message len gen key =
     bindr (for_each (\<lambda>byte s. bindr (list_get message byte) (\<lambda>data.
         Inr (foldl (digest_step (shift_lsb gen) data) s (rev [0..<8])))) [0..<len] (0, key))
       (\<lambda>(sum, key). Inr sum)"

definition subghz_protocol_blocks_add_bytes :: "u8 list \<Rightarrow> nat \<Rightarrow> u8 res" where
  "subghz_protocol_blocks_add_bytes message len =
     bindr (for_each (\<lambda>i result. bindr (list_get message i) (\<lambda>b. Inr (result + ucast b))) [0..<len] (0 :: u32))
       (\<lambda>result. Inr (ucast result))"

definition subghz_protocol_blocks_parity8 :: "u8 \<Rightarrow> u8" where
  "subghz_protocol_blocks_parity8 byte =
     (let byte = byte XOR drop_bit 4 byte; byte = byte AND 0x0F in ucast (drop_bit (unat byte) (0x6996 :: u32) AND 1))"

definition subghz_protocol_blocks_parity_bytes :: "u8 list \<Rightarrow> nat \<Rightarrow> u8 res" where
  "subghz_protocol_blocks_parity_bytes message len =
     for_each (\<lambda>i result. bindr (list_get message i) (\<lambda>b. Inr (result XOR subghz_protocol_blocks_parity8 b))) [0..<len] 0"

definition subghz_protocol_blocks_xor_bytes :: "u8 list \<Rightarrow> nat \<Rightarrow> u8 res" where
  "subghz_protocol_blocks_xor_bytes message len =
     for_each (\<lambda>i result. bindr (list_get message i) (\<lambda>b. Inr (result XOR b))) [0..<len] 0"

section \<open>One-wire\<close>

definition maxim_step :: "u8 \<times> u8 \<Rightarrow> u8 \<times> u8" where
  "maxim_step s =
     (let (crc, input_byte) = s; mix = (crc XOR input_byte) AND 1; crc = drop_bit 1 crc in
      (if mix \<noteq> 0 then crc XOR 0x8C else crc, drop_bit 1 input_byte))"

definition maxim_crc8 :: "u8 list \<Rightarrow> u8 \<Rightarrow> u8 \<Rightarrow> u8 res" where
  "maxim_crc8 data data_size crc_init =
     for_each (\<lambda>index crc. bindr (list_get data index) (\<lambda>input_byte.
       Inr (fst ((maxim_step ^^ 8) (crc, input_byte))))) [0..<unat data_size] crc_init"

section \<open>FeliCa\<close>

definition felica_crc_calculate :: "u8 list \<Rightarrow> nat \<Rightarrow> u16 res" where
  "felica_crc_calculate data len =
     bindr (for_each (\<lambda>i crc. bindr (list_get data i) (\<lambda>b.
         Inr ((shift_msb 15 0x1021 ^^ 8) (crc XOR push_bit 8 (ucast b))))) [0..<len] 0)
       (\<lambda>crc. Inr (push_bit 8 crc OR drop_bit 8 crc))"

text \<open>The two bytes of a 16-bit variable in memory, and the variable that two bytes overlay.\<close>

definition u16_bytes :: "u16 \<Rightarrow> u8 list" where
  "u16_bytes w = [ucast w, ucast (drop_bit 8 w)]"

definition bytes_u16 :: "u8 list \<Rightarrow> u16" where
  "bytes_u16 d = ucast (d ! 0) OR push_bit 8 (ucast (d ! 1))"

definition felica_crc_append :: "bit_buffer \<Rightarrow> bit_buffer res" where
  "felica_crc_append buf =
     (let data = bit_buffer_get_data buf; data_size = bit_buffer_get_size_bytes buf in
      bindr (felica_crc_calculate data data_size) (\<lambda>crc. bit_buffer_append_bytes buf (u16_bytes crc) 2))"

definition felica_crc_check :: "bit_buffer \<Rightarrow> bool res" where
  "felica_crc_check buf =
     (let data_size = bit_buffer_get_size_bytes buf in
      if data_size \<le> 2 then Inr False
      else bindr (bit_buffer_write_bytes_mid buf [0, 0] (data_size - 2) 2) (\<lambda>crc_received.
           bindr (felica_crc_calculate (bit_buffer_get_data buf) (data_size - 2)) (\<lambda>crc_calc.
             Inr (crc_calc = bytes_u16 crc_received))))"

definition felica_crc_trim :: "bit_buffer \<Rightarrow> bit_buffer res" where
  "felica_crc_trim buf =
     (let data_size = bit_buffer_get_size_bytes buf in
      bindr (furi_assert (data_size > 2)) (\<lambda>_. bit_buffer_set_size_bytes buf (size_sub data_size 2)))"

section \<open>ISO 13239\<close>

datatype iso13239_crc_type = Iso13239CrcTypeDefault | Iso13239CrcTypePicopass

definition iso13239_crc_calculate :: "iso13239_crc_type \<Rightarrow> u8 list \<Rightarrow> nat \<Rightarrow> u16 res" where
  "iso13239_crc_calculate type data data_size =
     (let crc = (case type of Iso13239CrcTypeDefault \<Rightarrow> 0xFFFF | Iso13239CrcTypePicopass \<Rightarrow> 0xE012) in
      bindr (for_each (\<lambda>i crc. bindr (list_get data i) (\<lambda>b.
         Inr ((shift_lsb 0x8408 ^^ 8) (crc XOR ucast b)))) [0..<data_size] crc)
       (\<lambda>crc. Inr (if type = Iso13239CrcTypePicopass then crc else NOT crc)))"

definition iso13239_crc_append :: "iso13239_crc_type \<Rightarrow> bit_buffer \<Rightarrow> bit_buffer res" where
  "iso13239_crc_append type buf =
     (let data = bit_buffer_get_data buf; data_size = bit_buffer_get_size_bytes buf in
      bindr (iso13239_crc_calculate type data data_size) (\<lambda>crc. bit_buffer_append_bytes buf (u16_bytes crc) 2))"

definition iso13239_crc_check :: "iso13239_crc_type \<Rightarrow> bit_buffer \<Rightarrow> bool res" where
  "iso13239_crc_check type buf =
     (let data_size = bit_buffer_get_size_bytes buf in
      if data_size \<le> 2 then Inr False
      else bindr (bit_buffer_write_bytes_mid buf [0, 0] (data_size - 2) 2) (\<lambda>crc_received.
           bindr (iso13239_crc_calculate type (bit_buffer_get_data buf) (data_size - 2)) (\<lambda>crc_calc.
             Inr (crc_calc = bytes_u16 crc_received))))"

definition iso13239_crc_trim :: "bit_buffer \<Rightarrow> bit_buffer res" where
  "iso13239_crc_trim buf =
     (let data_size = bit_buffer_get_size_bytes buf in
      bindr (furi_assert (data_size > 2)) (\<lambda>_. bit_buffer_set_size_bytes buf (size_sub data_size 2)))"

section \<open>ISO 14443\<close>

datatype iso14443_crc_type = Iso14443CrcTypeA | Iso14443CrcTypeB

text \<open>One byte at once.\<close>

definition iso14443_step :: "u16 \<Rightarrow> u8 \<Rightarrow> u16" where
  "iso14443_step crc b =
     (let byte = b XOR ucast (crc AND 0xFF); byte = byte XOR push_bit 4 byte in
      drop_bit 8 crc XOR push_bit 8 (ucast byte) XOR push_bit 3 (ucast byte) XOR ucast (drop_bit 4 byte))"

definition iso14443_crc_calculate :: "iso14443_crc_type \<Rightarrow> u8 list \<Rightarrow> nat \<Rightarrow> u16 res" where
  "iso14443_crc_calculate type data data_size =
     (let crc = (case type of Iso14443CrcTypeA \<Rightarrow> 0x6363 | Iso14443CrcTypeB \<Rightarrow> 0xFFFF) in
      bindr (for_each (\<lambda>i crc. bindr (list_get data i) (\<lambda>b. Inr (iso14443_step crc b))) [0..<data_size] crc)
       (\<lambda>crc. Inr (if type = Iso14443CrcTypeA then crc else NOT crc)))"

definition iso14443_crc_append :: "iso14443_crc_type \<Rightarrow> bit_buffer \<Rightarrow> bit_buffer res" where
  "iso14443_crc_append type buf =
     (let data = bit_buffer_get_data buf; data_size = bit_buffer_get_size_bytes buf in
      bindr (iso14443_crc_calculate type data data_size) (\<lambda>crc. bit_buffer_append_bytes buf (u16_bytes crc) 2))"

definition iso14443_crc_check :: "iso14443_crc_type \<Rightarrow> bit_buffer \<Rightarrow> bool res" where
  "iso14443_crc_check type buf =
     (let data_size = bit_buffer_get_size_bytes buf in
      if data_size \<le> 2 then Inr False
      else bindr (bit_buffer_write_bytes_mid buf [0, 0] (data_size - 2) 2) (\<lambda>crc_received.
           bindr (iso14443_crc_calculate type (bit_buffer_get_data buf) (data_size - 2)) (\<lambda>crc_calc.
             Inr (crc_calc = bytes_u16 crc_received))))"

definition iso14443_crc_trim :: "bit_buffer \<Rightarrow> bit_buffer res" where
  "iso14443_crc_trim buf =
     (let data_size = bit_buffer_get_size_bytes buf in
      bindr (furi_check (data_size > 2)) (\<lambda>_. bit_buffer_set_size_bytes buf (size_sub data_size 2)))"

end
