(* ===== verification/Checksums_Facts.thy ===== *)
theory Checksums_Facts
  imports Crc Bit_Lib_Facts Checksums
begin

text \<open>
  Every checksum routine computes the reference register of the theory \<open>Crc\<close>, over the bits of the
  message in one of the two orders.
\<close>

section \<open>The shifts of the routines\<close>

lemma and_push_bit_neq: "w AND push_bit k 1 \<noteq> 0 \<longleftrightarrow> bit w k" for w :: "'a::len word"
  by (simp add: and_exp_eq_0_iff_not_bit)

lemma and_one_neq: "w AND 1 \<noteq> 0 \<longleftrightarrow> bit w 0" for w :: "'a::len word"
  using and_push_bit_neq [of w 0] by simp

lemma shift_msb_top: "Suc k = LENGTH('a) \<Longrightarrow> shift_msb k p = (crc_shift p :: 'a::len word \<Rightarrow> 'a word)"
proof -
  assume "Suc k = LENGTH('a)"
  then have "k = LENGTH('a) - 1" by simp
  then show ?thesis unfolding shift_msb_def crc_shift_def and_push_bit_neq by (simp add: fun_eq_iff)
qed

lemma shift_lsb_eq: "shift_lsb = (crc_shift_lsb :: 'a::len word \<Rightarrow> _)"
  unfolding shift_lsb_def crc_shift_lsb_def and_one_neq by (simp add: fun_eq_iff)

lemma crc8_shift_eq: "crc8_shift = crc_shift"
proof -
  have "(0x80 :: u8) = push_bit 7 1" by simp
  then show ?thesis unfolding crc8_shift_def crc_shift_def by (simp only: and_push_bit_neq) (simp add: fun_eq_iff)
qed

lemma crc16_shift_eq: "crc16_shift p b j s = crc_bit p s (bit b (7 - j))"
  unfolding crc16_shift_def crc_bit_def Let_def and_one_neq by (simp add: bit_drop_bit_eq)

lemma crc16_shifts: "foldl (\<lambda>s j. crc16_shift p b j s) s [0..<8] = crc_ref p s (msb_bits [b] 0 8)"
  unfolding crc_ref_def msb_bits_def foldl_map by (simp add: crc16_shift_eq msb_bit_def upt_rec)

text \<open>The polynomials that a routine gives in reflected form.\<close>

lemma reverse_8408: "word_reverse (0x8408 :: u16) = 0x1021"
  and reverse_8C: "word_reverse (0x8C :: u8) = 0x31"
  and reverse_6363: "word_reverse (0x6363 :: u16) = 0xC6C6"
  and reverse_FFFF: "word_reverse (0xFFFF :: u16) = 0xFFFF"
  and reverse_E012: "word_reverse (0xE012 :: u16) = 0x4807"
  by (simp_all add: word_reverse_def upt_rec)

section \<open>The bit library\<close>

definition message_bits :: "bool \<Rightarrow> u8 list \<Rightarrow> nat \<Rightarrow> bool list" where
  "message_bits reflected data n = (if reflected then data_bits data (8 * n) else msb_bits data 0 (8 * n))"

lemma msb_bits_reversed: "msb_bits [word_reverse b] 0 8 = data_bits [b] 8"
  by (rule nth_equalityI) (auto simp: msb_bit_def data_bits_def byte_bit_def bit_word_reverse_iff)

lemma bit_lib_crc8_eq:
  assumes "n \<le> length data"
  shows "bit_lib_crc8 data n p init ref_in ref_out x =
    Inr (ucast ((if ref_out then word_reverse else id) (crc_ref p init (message_bits ref_in data n)) XOR x))"
proof -
  let ?f = "\<lambda>s b. (crc_shift p ^^ 8) (s XOR (if ref_in then word_reverse b else b))"
  have "for_each (\<lambda>i crc. bindr (list_get data i) (\<lambda>byte.
         bindr (if ref_in then bindr (bit_lib_reverse_bits [byte] 0 8) (\<lambda>d. list_get d 0) else Inr byte) (\<lambda>byte.
           Inr ((crc8_shift p ^^ 8) (crc XOR byte))))) [0..<n] init = Inr (foldl ?f init (take n data))"
    using for_each_list [OF assms, of "\<lambda>b s. ?f s b" init]
    by (cases ref_in) (simp_all add: crc8_shift_eq reverse_bits_byte list_get_def)
  moreover have f: "?f s b = crc_ref p s (if ref_in then data_bits [b] 8 else msb_bits [b] 0 8)" for s b
    using crc_msb_byte [of p s b] crc_msb_byte [of p s "word_reverse b"] by (simp add: msb_bits_reversed)
  have "foldl ?f init (take n data) = crc_ref p init (message_bits ref_in data n)"
    using crc_fold_msb [of ?f p, OF _ assms] crc_fold_lsb [of "\<lambda>s. s" ?f p, OF _ assms] f
    by (cases ref_in) (simp_all add: message_bits_def)
  ultimately show ?thesis
    by (simp add: bit_lib_crc8_def reverse_bits_byte list_get_def)
qed

lemma ref_in_byte: "(ucast (drop_bit 8 (word_reverse (ucast b :: u16))) :: u8) = word_reverse b"
proof (rule bit_word_eqI)
  fix j assume "j < LENGTH(8)"
  then show "bit (ucast (drop_bit 8 (word_reverse (ucast b :: u16))) :: u8) j = bit (word_reverse b) j"
    by (auto simp: bit_ucast_iff bit_drop_bit_eq bit_word_reverse_iff)
qed

lemma bit_lib_crc16_eq:
  assumes "n \<le> length data"
  shows "bit_lib_crc16 data n p init ref_in ref_out x =
    Inr ((if ref_out then word_reverse else id) (crc_ref p init (message_bits ref_in data n)) XOR x)"
proof -
  let ?f = "\<lambda>s b. foldl (\<lambda>crc j. crc16_shift p (if ref_in then word_reverse b else b) j crc) s [0..<8]"
  have "for_each (\<lambda>i crc. bindr (list_get data i) (\<lambda>byte.
         let byte = (if ref_in then ucast (drop_bit 8 (bit_lib_reverse_16_fast (ucast byte))) else byte) in
           Inr (foldl (\<lambda>crc j. crc16_shift p byte j crc) crc [0..<8]))) [0..<n] init = Inr (foldl ?f init (take n data))"
    using for_each_list [OF assms, of "\<lambda>b s. ?f s b" init]
    by (cases ref_in) (simp_all add: reverse_16_fast_eq ref_in_byte Let_def del: upt.simps)
  moreover have f: "?f s b = crc_ref p s (if ref_in then data_bits [b] 8 else msb_bits [b] 0 8)" for s b
    unfolding crc16_shifts by (simp add: msb_bits_reversed)
  have "foldl ?f init (take n data) = crc_ref p init (message_bits ref_in data n)"
    using crc_fold_msb [of ?f p, OF _ assms] crc_fold_lsb [of "\<lambda>s. s" ?f p, OF _ assms] f
    by (cases ref_in) (simp_all add: message_bits_def del: upt.simps)
  ultimately show ?thesis
    unfolding bit_lib_crc16_def by (simp add: reverse_16_fast_eq Let_def)
qed

section \<open>The radio blocks\<close>

lemma reverse_key_eq:
  assumes "unat n \<le> 64"
  shows "subghz_protocol_blocks_reverse_key key n = Inr (word_of_bits (map (bit key) [0..<unat n]))"
proof -
  have "k \<le> 64 \<Longrightarrow> for_each (\<lambda>i r. bindr (bit_read key i) (\<lambda>b. Inr (push_bit 1 r OR b))) [0..<k] 0 =
      Inr (word_of_bits (map (bit key) [0..<k]))" for k
  proof (induction k)
    case (Suc k)
    then have "k < 64" by simp
    with Suc.IH show ?case
      unfolding for_each_Suc bit_read_def
      by (simp only: less_imp_le bindr_Inr if_True drop_and_one upt_Suc_append le0 map_append list.map word_of_bits_snoc)
  qed simp
  with assms show ?thesis unfolding subghz_protocol_blocks_reverse_key_def by blast
qed

lemma ucast_up_down: "(ucast (ucast w :: u64) :: u8) = w"
  by (rule bit_word_eqI) (auto simp: bit_ucast_iff)

lemma reverse_key_byte: "subghz_protocol_blocks_reverse_key (ucast (b :: u8)) 8 = Inr (ucast (word_reverse b))"
proof -
  have "word_of_bits (map (bit (ucast b :: u64)) [0..<8]) = (ucast (word_reverse b) :: u64)"
  proof (rule bit_word_eqI)
    fix j
    show "bit (word_of_bits (map (bit (ucast b :: u64)) [0..<8]) :: u64) j = bit (ucast (word_reverse b) :: u64) j"
      by (auto simp: bit_word_of_bits bit_ucast_iff bit_word_reverse_iff)
  qed
  then show ?thesis by (simp add: reverse_key_eq del: upt.simps)
qed

lemma subghz_crc8_eq:
  "n \<le> length data \<Longrightarrow> subghz_protocol_blocks_crc8 data n p init = Inr (crc_ref p init (msb_bits data 0 (8 * n)))"
  unfolding subghz_protocol_blocks_crc8_def
  using for_each_list [of n data "\<lambda>b s. (crc_shift p ^^ 8) (s XOR b)" init]
    crc_fold_msb [of "\<lambda>s b. (crc_shift p ^^ 8) (s XOR b)" p n data init] crc_msb_byte [of p]
  by (simp add: shift_msb_top)

lemma subghz_crc16_eq:
  "n \<le> length data \<Longrightarrow> subghz_protocol_blocks_crc16 data n p init = Inr (crc_ref p init (msb_bits data 0 (8 * n)))"
  unfolding subghz_protocol_blocks_crc16_def
  using for_each_list [of n data "\<lambda>b s. (crc_shift p ^^ 8) (s XOR push_bit 8 (ucast b))" init]
    crc_fold_msb [of "\<lambda>s b. (crc_shift p ^^ 8) (s XOR push_bit 8 (ucast b))" p n data init] crc_msb_byte [of p]
  by (simp add: shift_msb_top)

text \<open>A reflected register, started and left in reflected form.\<close>

lemma crc_lsb_loop:
  fixes init p :: "'a::len word"
  assumes "n \<le> length data" and "8 \<le> LENGTH('a)"
  shows "for_each (\<lambda>i s. bindr (list_get data i) (\<lambda>b. Inr ((crc_shift_lsb p ^^ 8) (s XOR ucast b)))) [0..<n] init =
    Inr (word_reverse (crc_ref (word_reverse p) (word_reverse init) (data_bits data (8 * n))))"
proof -
  let ?f = "\<lambda>s b. (crc_shift_lsb p ^^ 8) (s XOR ucast b)"
  have "word_reverse (foldl ?f init (take n data)) = crc_ref (word_reverse p) (word_reverse init) (data_bits data (8 * n))"
    by (rule crc_fold_lsb [of word_reverse, OF crc_lsb_byte [OF assms(2)] assms(1)])
  then have "foldl ?f init (take n data) = word_reverse (crc_ref (word_reverse p) (word_reverse init) (data_bits data (8 * n)))"
    by (metis word_rev_rev)
  then show ?thesis using for_each_list [OF assms(1), of "\<lambda>b s. ?f s b" init] by simp
qed

lemma subghz_crc8le_eq:
  "n \<le> length data \<Longrightarrow>
   subghz_protocol_blocks_crc8le data n p init = Inr (word_reverse (crc_ref p init (data_bits data (8 * n))))"
  unfolding subghz_protocol_blocks_crc8le_def reverse_key_byte bindr_Inr shift_lsb_eq
  using crc_lsb_loop [of n data "word_reverse p" "word_reverse init"] by (simp add: ucast_up_down)

lemma subghz_crc16lsb_eq:
  "n \<le> length data \<Longrightarrow> subghz_protocol_blocks_crc16lsb data n p init =
     Inr (word_reverse (crc_ref (word_reverse p) (word_reverse init) (data_bits data (8 * n))))"
  unfolding subghz_protocol_blocks_crc16lsb_def shift_lsb_eq using crc_lsb_loop [of n data p init] by simp

text \<open>A short register kept at the top of a longer one.\<close>

definition widen :: "nat \<Rightarrow> 'b::len word \<Rightarrow> 'a::len word" where
  "widen k w = push_bit k (ucast w)"

lemma bit_widen: "bit (widen k (w :: 'b::len word) :: 'a::len word) j \<longleftrightarrow> j < LENGTH('a) \<and> k \<le> j \<and> bit w (j - k)"
  by (auto simp: widen_def bit_push_bit_iff bit_ucast_iff possible_bit_def)

lemma crc_bit_widen:
  assumes "LENGTH('a) = LENGTH('b) + k"
  shows "crc_bit (widen k p) (widen k s) b = (widen k (crc_bit p s b :: 'b::len word) :: 'a::len word)"
proof (rule bit_word_eqI)
  fix j assume j: "j < LENGTH('a)"
  have "LENGTH('a) - 1 - k = LENGTH('b) - 1" using assms by simp
  moreover have "k \<le> LENGTH('a) - 1" using assms len_gt_0 [where 'a='b] by linarith
  ultimately have top: "bit (widen k s :: 'a word) (LENGTH('a) - 1) = bit s (LENGTH('b) - 1)" by (simp add: bit_widen)
  show "bit (crc_bit (widen k p) (widen k s) b :: 'a word) j = bit (widen k (crc_bit p s b) :: 'a word) j"
  proof (cases "k \<le> j")
    case True
    then have "j - k < LENGTH('b)" "j - 1 - k = j - k - 1" using j assms by simp_all
    then show ?thesis using j True unfolding bit_crc_bit top by (auto simp: bit_widen bit_crc_bit)
  next
    case False
    then show ?thesis using j unfolding bit_crc_bit top by (auto simp: bit_widen)
  qed
qed

lemma crc_ref_widen:
  "LENGTH('a) = LENGTH('b) + k \<Longrightarrow> crc_ref (widen k p) (widen k s) bs = (widen k (crc_ref p s bs :: 'b::len word) :: 'a::len word)"
  by (induction bs arbitrary: s) (simp_all add: crc_bit_widen)

lemma widen_low: "LENGTH('a) = LENGTH('b) + k \<Longrightarrow> widen k (ucast (w :: 'a::len word) :: 'b::len word) = push_bit k w"
  by (rule bit_word_eqI) (auto simp: bit_widen bit_ucast_iff bit_push_bit_iff possible_bit_def)

lemma narrow_4: "drop_bit 4 (widen 4 (w :: 4 word) :: u8) AND 0x0F = ucast w"
proof -
  have "drop_bit 4 (widen 4 w :: u8) AND mask 4 = ucast w"
    by (rule bit_word_eqI) (use bit_imp_le_length [of w] in
      \<open>auto simp: bit_widen bit_ucast_iff bit_drop_bit_eq bit_and_iff bit_mask_iff possible_bit_def simp del: drop_bit_Suc\<close>)
  then show ?thesis by (simp add: mask_eq_exp_minus_1)
qed

lemma narrow_7: "drop_bit 1 (widen 1 (w :: 7 word) :: u8) AND 0x7F = ucast w"
proof -
  have "drop_bit 1 (widen 1 w :: u8) AND mask 7 = ucast w"
    by (rule bit_word_eqI) (use bit_imp_le_length [of w] in
      \<open>auto simp: bit_widen bit_ucast_iff bit_drop_bit_eq bit_and_iff bit_mask_iff possible_bit_def simp del: drop_bit_Suc\<close>)
  then show ?thesis by (simp add: mask_eq_exp_minus_1)
qed

lemma subghz_crc4_eq:
  "n \<le> length data \<Longrightarrow> subghz_protocol_blocks_crc4 data n p init =
     Inr (ucast (crc_ref (ucast p :: 4 word) (ucast init) (msb_bits data 0 (8 * n))))"
  using subghz_crc8_eq [of n data "push_bit 4 p" "push_bit 4 init"]
  unfolding subghz_protocol_blocks_crc8_def subghz_protocol_blocks_crc4_def
    widen_low [where 'a=8 and 'b=4 and k=4, symmetric, simplified]
  by (simp add: crc_ref_widen narrow_4)

lemma subghz_crc7_eq:
  "n \<le> length data \<Longrightarrow> subghz_protocol_blocks_crc7 data n p init =
     Inr (ucast (crc_ref (ucast p :: 7 word) (ucast init) (msb_bits data 0 (8 * n))))"
proof -
  have w: "push_bit 1 x = (widen 1 (ucast x :: 7 word) :: u8)" for x :: u8
    using widen_low [where 'a=8 and 'b=7 and k=1, of x] by simp
  assume "n \<le> length data"
  from subghz_crc8_eq [OF this, of "push_bit 1 p" "push_bit 1 init"] show ?thesis
    unfolding subghz_protocol_blocks_crc8_def subghz_protocol_blocks_crc7_def w
    by (simp only: bindr_Inr) (simp add: crc_ref_widen narrow_7 del: One_nat_def)
qed

section \<open>One-wire and NFC\<close>

lemma maxim_step_eq: "maxim_step (c, b) = (d, b') \<Longrightarrow> d XOR b' = crc_shift_lsb 0x8C (c XOR b) \<and> b' = drop_bit 1 b"
  unfolding maxim_step_def Let_def and_one_neq crc_shift_lsb_def One_nat_def
  by (auto simp: drop_bit_xor ac_simps simp del: drop_bit_Suc)

lemma maxim_steps:
  "(maxim_step ^^ n) (c, b) = (d, b') \<Longrightarrow> d XOR b' = (crc_shift_lsb 0x8C ^^ n) (c XOR b) \<and> b' = drop_bit n b"
proof (induction n arbitrary: d b')
  case (Suc n)
  obtain e a where e: "(maxim_step ^^ n) (c, b) = (e, a)" by fastforce
  with Suc have "maxim_step (e, a) = (d, b')" by simp
  note m = maxim_step_eq [OF this] and ih = Suc.IH [OF e]
  from m ih have "d XOR b' = crc_shift_lsb 0x8C ((crc_shift_lsb 0x8C ^^ n) (c XOR b))" by metis
  with m ih show ?case by (simp add: drop_bit_drop_bit del: drop_bit_Suc)
qed simp

lemma maxim_byte: "fst ((maxim_step ^^ 8) (c, b)) = (crc_shift_lsb 0x8C ^^ 8) (c XOR b)"
proof -
  obtain d a where d: "(maxim_step ^^ 8) (c, b) = (d, a)" by fastforce
  have "drop_bit 8 b = 0" by (rule bit_word_eqI) (use bit_imp_le_length [of b] in \<open>auto simp: bit_drop_bit_eq\<close>)
  with maxim_steps [OF d] have "d XOR 0 = (crc_shift_lsb 0x8C ^^ 8) (c XOR b)" by metis
  then show ?thesis unfolding d by simp
qed

lemma maxim_crc8_eq:
  "unat n \<le> length data \<Longrightarrow> maxim_crc8 data n init =
     Inr (word_reverse (crc_ref 0x31 (word_reverse init) (data_bits data (8 * unat n))))"
  unfolding maxim_crc8_def maxim_byte using crc_lsb_loop [of "unat n" data "0x8C :: u8" init] by (simp add: reverse_8C)

definition swap16 :: "u16 \<Rightarrow> u16" where
  "swap16 w = push_bit 8 w OR drop_bit 8 w"

lemma felica_eq:
  "n \<le> length data \<Longrightarrow> felica_crc_calculate data n = Inr (swap16 (crc_ref 0x1021 0 (msb_bits data 0 (8 * n))))"
  using subghz_crc16_eq [of n data "0x1021" 0]
  unfolding felica_crc_calculate_def subghz_protocol_blocks_crc16_def by (simp add: swap16_def)

fun iso13239_init :: "iso13239_crc_type \<Rightarrow> u16" where
  "iso13239_init Iso13239CrcTypeDefault = 0xFFFF"
| "iso13239_init Iso13239CrcTypePicopass = 0xE012"

fun iso14443_init :: "iso14443_crc_type \<Rightarrow> u16" where
  "iso14443_init Iso14443CrcTypeA = 0x6363"
| "iso14443_init Iso14443CrcTypeB = 0xFFFF"

lemma iso13239_eq:
  "n \<le> length data \<Longrightarrow> iso13239_crc_calculate type data n =
     Inr ((if type = Iso13239CrcTypeDefault then NOT else id)
       (word_reverse (crc_ref 0x1021 (word_reverse (iso13239_init type)) (data_bits data (8 * n)))))"
  using crc_lsb_loop [of n data "0x8408 :: u16" "iso13239_init type"]
  by (cases type) (simp_all add: iso13239_crc_calculate_def shift_lsb_eq reverse_8408)

text \<open>The byte at once of ISO 14443 is eight shifts.\<close>

lemma bit_8408: "bit (0x8408 :: u16) j \<longleftrightarrow> j = 3 \<or> j = 10 \<or> j = 15"
proof -
  have "(0x8408 :: u16) = push_bit 15 1 OR push_bit 10 1 OR push_bit 3 1" by simp
  then show ?thesis by (simp only: bit_or_iff bit_push_bit_iff bit_1_iff) (auto simp: possible_bit_def)
qed

lemma below_16: "j < 16 \<Longrightarrow> j \<in> {0,1,2,3,4,5,6,7,8,9,10,11,12,13,14,15}" for j :: nat
  unfolding insert_iff empty_iff by presburger

lemma four_shifts:
  fixes p s :: u16
  assumes p: "\<And>j. bit p j \<longleftrightarrow> j = 3 \<or> j = 10 \<or> j = 15"
  shows "bit ((crc_shift_lsb p ^^ 4) s) j \<longleftrightarrow> ((bit s (j + 4) \<noteq> (12 \<le> j \<and> j < 16 \<and> bit s (j - 12))) \<noteq>
    (7 \<le> j \<and> j < 11 \<and> bit s (j - 7))) \<noteq> (j < 4 \<and> bit s j)"
proof (cases "j < 16")
  case True
  then have j: "j \<in> {0,1,2,3,4,5,6,7,8,9,10,11,12,13,14,15}" by (rule below_16)
  have f: "(crc_shift_lsb p ^^ 4) s = crc_shift_lsb p (crc_shift_lsb p (crc_shift_lsb p (crc_shift_lsb p s)))"
    by (simp add: numeral_eq_Suc)
  have big: "\<not> bit s i" if "16 \<le> i" for i using that bit_imp_le_length [of s i] by auto
  show ?thesis unfolding f using j
    by (elim insertE emptyE; simp add: bit_crc_shift_lsb p big numeral_2_eq_2 [symmetric]; blast?)
next
  case False
  then show ?thesis using bit_imp_le_length [of "(crc_shift_lsb p ^^ 4) s" j] bit_imp_le_length [of s "j + 4"]
      bit_imp_le_length [of s "j - 12"] by auto
qed

lemma iso14443_step_eq: "iso14443_step crc b = (crc_shift_lsb 0x8408 ^^ 8) (crc XOR ucast b)"
proof (rule bit_word_eqI)
  fix j assume "j < LENGTH(16)"
  then have j: "j < 16" by simp
  define x where "x = crc XOR ucast b"
  define lo where "lo = b XOR ucast (crc AND 0xFF)"
  have "(0xFF :: u16) = mask 8" by (simp add: mask_eq_exp_minus_1)
  then have lo: "bit lo i \<longleftrightarrow> i < 8 \<and> bit x i" for i
    unfolding lo_def x_def using bit_imp_le_length [of b i]
    by (simp only: bit_xor_iff bit_ucast_iff bit_and_iff bit_mask_iff) auto
  have hi: "bit crc (8 + i) = bit x (8 + i)" for i
    using bit_imp_le_length [of b "8 + i"] by (auto simp: x_def bit_xor_iff bit_ucast_iff)
  define y where "y = lo XOR push_bit 4 lo"
  have y: "bit y i \<longleftrightarrow> i < 8 \<and> (bit x i \<noteq> (4 \<le> i \<and> bit x (i - 4)))" for i
    unfolding y_def by (auto simp: bit_xor_iff bit_push_bit_iff lo possible_bit_def)
  have l: "bit (iso14443_step crc b) j \<longleftrightarrow> ((bit x (8 + j) \<noteq> (8 \<le> j \<and> bit y (j - 8))) \<noteq> (3 \<le> j \<and> bit y (j - 3))) \<noteq> bit y (4 + j)"
  proof -
    have "bit (drop_bit 8 crc) j = bit x (8 + j)" by (simp add: bit_drop_bit_eq hi)
    moreover have "bit (push_bit k (ucast y) :: u16) j = (k \<le> j \<and> bit y (j - k))" for k
      using j by (auto simp: bit_push_bit_iff bit_ucast_iff possible_bit_def)
    moreover have "bit (ucast (drop_bit 4 y) :: u16) j = bit y (4 + j)"
      using j by (simp add: bit_ucast_iff bit_drop_bit_eq)
    ultimately show ?thesis
      unfolding iso14443_step_def Let_def lo_def [symmetric] y_def [symmetric] bit_xor_iff by blast
  qed
  have "(crc_shift_lsb 0x8408 ^^ 8) x = (crc_shift_lsb 0x8408 ^^ 4) ((crc_shift_lsb 0x8408 ^^ 4) x)"
    using funpow_add [of 4 4 "crc_shift_lsb (0x8408 :: u16)"] by simp
  moreover have "bit ((crc_shift_lsb 0x8408 ^^ 4) ((crc_shift_lsb 0x8408 ^^ 4) x)) j \<longleftrightarrow> bit (iso14443_step crc b) j"
    unfolding l four_shifts [OF bit_8408] using below_16 [OF j] by (elim insertE emptyE; simp add: y; blast?)
  ultimately show "bit (iso14443_step crc b) j = bit ((crc_shift_lsb 0x8408 ^^ 8) (crc XOR ucast b)) j"
    unfolding x_def by simp
qed

lemma iso14443_eq:
  "n \<le> length data \<Longrightarrow> iso14443_crc_calculate type data n =
     Inr ((if type = Iso14443CrcTypeB then NOT else id)
       (word_reverse (crc_ref 0x1021 (word_reverse (iso14443_init type)) (data_bits data (8 * n)))))"
  using crc_lsb_loop [of n data "0x8408 :: u16" "iso14443_init type"]
  by (cases type) (simp_all add: iso14443_crc_calculate_def iso14443_step_eq reverse_8408)

section \<open>Digests and parities\<close>

text \<open>The hash that adds up the states of a register at the places of the set bits.\<close>

fun digest_ref :: "('a::len word \<Rightarrow> 'a word) \<Rightarrow> 'a word \<Rightarrow> bool list \<Rightarrow> 'a word" where
  "digest_ref roll key [] = 0"
| "digest_ref roll key (b # bs) = (if b then key else 0) XOR digest_ref roll (roll key) bs"

lemma digest_step_eq: "digest_step roll data (t, key) i = (t XOR (if bit data i then key else 0), roll key)"
  unfolding digest_step_def Let_def and_one_neq by (simp add: bit_drop_bit_eq)

definition digest_bit :: "('a::len word \<Rightarrow> 'a word) \<Rightarrow> 'a word \<times> 'a word \<Rightarrow> bool \<Rightarrow> 'a word \<times> 'a word" where
  "digest_bit roll s b = (fst s XOR (if b then snd s else 0), roll (snd s))"

lemma digest_bits: "fst (foldl (digest_bit roll) (t, key) bs) = t XOR digest_ref roll key bs"
  by (induction bs arbitrary: t key) (simp_all add: digest_bit_def xor.assoc)

lemma digest_steps: "foldl (digest_step roll data) s is = foldl (digest_bit roll) s (map (bit data) is)"
  by (induction "is" arbitrary: s) (auto simp: digest_step_eq digest_bit_def split_paired_all)

lemma byte_bits_down: "map (bit b) (rev [0..<8]) = msb_bits [b] 0 8"
  by (rule nth_equalityI) (simp_all add: rev_nth msb_bit_def)

lemma digest_byte: "foldl (digest_step roll data) s (rev [0..<8]) = foldl (digest_bit roll) s (msb_bits [data] 0 8)"
  unfolding digest_steps byte_bits_down ..

lemma digest_byte_up: "foldl (digest_step roll data) s [0..<8] = foldl (digest_bit roll) s (rev (msb_bits [data] 0 8))"
  unfolding digest_steps byte_bits_down [symmetric] rev_map rev_rev_ident ..

lemma digest_loop:
  assumes "n \<le> length data"
  shows "bindr (for_each (\<lambda>i s. bindr (list_get data i) (\<lambda>b.
      Inr (foldl (digest_step roll b) s (rev [0..<8])))) [0..<n] (0, key)) (\<lambda>(sum, key). Inr sum) =
    Inr (digest_ref roll key (msb_bits data 0 (8 * n)))"
  unfolding digest_byte for_each_list [OF assms, of "\<lambda>b s. foldl (digest_bit roll) s (msb_bits [b] 0 8)"]
  using fold_msb_bits [OF refl assms, of "digest_bit roll" "(0, key)"] digest_bits [of roll 0 key]
  by (simp add: case_prod_unfold)

lemma for_each_rev_list:
  "n \<le> length data \<Longrightarrow> for_each (\<lambda>i s. bindr (list_get data i) (\<lambda>b. Inr (f b s))) (rev [0..<n]) s =
     Inr (foldl (\<lambda>s b. f b s) s (rev (take n data)))"
  by (induction n arbitrary: s) (simp_all add: list_get_def take_Suc_conv_app_nth)

lemma rev_msb_bits:
  "n \<le> length data \<Longrightarrow> foldl (\<lambda>s b. foldl g s (rev (msb_bits [b] 0 8))) s (rev (take n data)) = foldl g s (rev (msb_bits data 0 (8 * n)))"
proof (induction n arbitrary: s)
  case 0
  then show ?case by (simp add: msb_bits_def)
next
  case (Suc n)
  then show ?case using msb_bits_Suc_byte [of data n] by (simp add: take_Suc_conv_app_nth)
qed

lemma digest8_eq:
  "n \<le> length data \<Longrightarrow> subghz_protocol_blocks_lfsr_digest8 data n gen key =
     Inr (digest_ref (crc_shift_lsb gen) key (msb_bits data 0 (8 * n)))"
  unfolding subghz_protocol_blocks_lfsr_digest8_def shift_lsb_eq by (rule digest_loop)

lemma digest16_eq:
  "n \<le> length data \<Longrightarrow> subghz_protocol_blocks_lfsr_digest16 data n gen key =
     Inr (digest_ref (crc_shift_lsb gen) key (msb_bits data 0 (8 * n)))"
  unfolding subghz_protocol_blocks_lfsr_digest16_def shift_lsb_eq by (rule digest_loop)

lemma digest8_reflect_eq:
  assumes "n \<le> length data" and "n < 2 ^ 31"
  shows "subghz_protocol_blocks_lfsr_digest8_reflect data n gen key =
     Inr (digest_ref (crc_shift gen) key (rev (msb_bits data 0 (8 * n))))"
proof -
  have "signed_take_bit 31 (int n - 1) = int n - 1" using assms(2) by (intro signed_take_bit_int_eq_self) simp_all
  then have n: "nat (signed_take_bit 31 (int n - 1) + 1) = n" by simp
  show ?thesis
    unfolding subghz_protocol_blocks_lfsr_digest8_reflect_def Let_def n digest_byte_up
      for_each_rev_list [OF assms(1), of "\<lambda>b s. foldl (digest_bit (shift_msb 7 gen)) s (rev (msb_bits [b] 0 8))"]
    using rev_msb_bits [OF assms(1), of "digest_bit (shift_msb 7 gen)" "(0, key)"] digest_bits [of "shift_msb 7 gen" 0 key]
    by (simp add: case_prod_unfold shift_msb_top)
qed

lemma parity_nibble: "k < 16 \<Longrightarrow>
  drop_bit k (0x6996 :: u32) AND 1 = of_bool (((bit k 0 \<noteq> bit k 1) \<noteq> bit k 2) \<noteq> bit k (3 :: nat))"
  by (drule below_16) (elim insertE emptyE; simp add: bit_iff_odd)

lemma parity8_eq: "subghz_protocol_blocks_parity8 b = of_bool (parity_of (msb_bits [b] 0 8))"
proof -
  define n where "n = (b XOR drop_bit 4 b) AND 0x0F"
  have "(0x0F :: u8) = mask 4" by (simp add: mask_eq_exp_minus_1)
  then have n: "bit n j \<longleftrightarrow> j < 4 \<and> bit b j \<noteq> bit b (4 + j)" for j
    unfolding n_def by (simp only: bit_and_iff bit_xor_iff bit_mask_iff bit_drop_bit_eq) auto
  have un: "bit (unat n) j = bit n j" for j by (rule bit_unat_word)
  have "unat n < 16"
  proof (rule ccontr)
    assume "\<not> unat n < 16"
    moreover have "take_bit 4 (unat n) = unat n" by (rule nat_bit_eqI) (auto simp: bit_take_bit_iff un n)
    ultimately show False using take_bit_nat_less_exp [of 4 "unat n"] by simp
  qed
  then have "drop_bit (unat n) (0x6996 :: u32) AND 1 = of_bool (((bit n 0 \<noteq> bit n 1) \<noteq> bit n 2) \<noteq> bit n 3)"
    using parity_nibble [of "unat n"] unfolding un by blast
  then have "subghz_protocol_blocks_parity8 b = of_bool (((bit n 0 \<noteq> bit n 1) \<noteq> bit n 2) \<noteq> bit n 3)"
    unfolding subghz_protocol_blocks_parity8_def Let_def n_def [symmetric] by (simp only: of_bool_def split: if_split) simp
  then show ?thesis
    by (simp add: n msb_bits_def upt_rec msb_bit_def parity_of_def)
qed

end
