(* ===== verification/Crc_Codes.thy ===== *)
theory Crc_Codes
  imports Checksums_Facts Bit_Buffer_Bits
begin

text \<open>
  What the checksums are good for: the value is the remainder of a division, the routines that
  share a polynomial agree, a frame to which a 16-bit code is appended passes its check and loses the
  code again, and a frame with an error in at most 16 consecutive bits does not pass.
\<close>

lemma bytes_u16_u16_bytes: "bytes_u16 [ucast w, ucast (drop_bit 8 w)] = w"
  by (rule bit_word_eqI) (auto simp: bytes_u16_def bit_or_iff bit_ucast_iff bit_push_bit_iff bit_drop_bit_eq possible_bit_def not_less)

section \<open>A code behind the data\<close>

text \<open>
  The contract of a 16-bit code that a client appends to a buffer and checks there. The whole frame
  in the order of transmission, \<open>serial\<close>, drives the register to a fixed value exactly when the two
  bytes at its end are the code of the bytes before them.
\<close>

locale crc16_frame =
  fixes calculate :: "u8 list \<Rightarrow> nat \<Rightarrow> u16 res"
    and append :: "bit_buffer \<Rightarrow> bit_buffer res"
    and check :: "bit_buffer \<Rightarrow> bool res"
    and trim :: "bit_buffer \<Rightarrow> bit_buffer res"
    and serial :: "u8 list \<Rightarrow> nat \<Rightarrow> bool list"
    and p init residue :: u16
  assumes p_odd: "bit p 0"
    and calc_total: "n \<le> length d \<Longrightarrow> \<exists>c. calculate d n = Inr c"
    and calc_prefix: "n \<le> length d \<Longrightarrow> n \<le> length d' \<Longrightarrow> take n d = take n d' \<Longrightarrow> calculate d n = calculate d' n"
    and residue: "n + 2 \<le> length d \<Longrightarrow>
      calculate d n = Inr (bytes_u16 [d ! n, d ! (n + 1)]) \<longleftrightarrow> crc_ref p init (serial d (n + 2)) = residue"
    and append_eq: "append b = bindr (calculate (bit_buffer_get_data b) (bit_buffer_get_size_bytes b))
      (\<lambda>c. bit_buffer_append_bytes b (u16_bytes c) 2)"
    and check_eq: "check b = (if bit_buffer_get_size_bytes b \<le> 2 then Inr False else
      bindr (bit_buffer_write_bytes_mid b [0, 0] (bit_buffer_get_size_bytes b - 2) 2) (\<lambda>r.
      bindr (calculate (bit_buffer_get_data b) (bit_buffer_get_size_bytes b - 2)) (\<lambda>c. Inr (c = bytes_u16 r))))"
    and trim_eq: "2 < bit_buffer_get_size_bytes b \<Longrightarrow> trim b = bit_buffer_set_size_bytes b (bit_buffer_get_size_bytes b - 2)"
begin

lemma check_iff:
  assumes ok: "bb_ok b" and n: "bit_buffer_get_size_bytes b = n + 2" "0 < n"
  shows "check b = Inr (crc_ref p init (serial (bb_data b) (n + 2)) = residue)"
proof -
  have len: "n + 2 \<le> length (bb_data b)" using size_bytes_le [OF ok] n(1) ok by (simp add: bb_ok_def)
  obtain c where c: "calculate (bb_data b) n = Inr c" using calc_total [of n "bb_data b"] len by auto
  have r: "mem_copy [0, 0] 0 (bb_data b) n 2 = Inr [bb_data b ! n, bb_data b ! (n + 1)]"
  proof -
    have "take 2 (drop n (bb_data b)) = [bb_data b ! n, bb_data b ! (n + 1)]"
      using len by (intro nth_equalityI) (auto simp: less_Suc_eq numeral_2_eq_2)
    with len show ?thesis by (simp add: mem_copy_def)
  qed
  have small: "n + 2 < 2 ^ 32" using len ok by (simp add: bb_ok_def)
  have "check b = Inr (c = bytes_u16 [bb_data b ! n, bb_data b ! (n + 1)])"
    using n c r small by (simp add: check_eq bit_buffer_write_bytes_mid_def bit_buffer_get_data_def)
  also have "(c = bytes_u16 [bb_data b ! n, bb_data b ! (n + 1)]) = (crc_ref p init (serial (bb_data b) (n + 2)) = residue)"
    using residue [OF len] c by simp
  finally show ?thesis .
qed

lemma append_check:
  assumes ok: "bb_ok b" and al: "bb_size_bits b mod 8 = 0"
    and n: "n = bit_buffer_get_size_bytes b" "0 < n" "n + 2 \<le> bb_capacity_bytes b"
  shows "\<exists>b'. append b = Inr b' \<and> bit_buffer_get_size_bytes b' = n + 2 \<and> check b' = Inr True \<and>
    (\<exists>b''. trim b' = Inr b'' \<and> bb_bits b'' = bb_bits b)"
proof -
  have len: "n + 2 \<le> length (bb_data b)" using n(3) ok by (simp add: bb_ok_def)
  obtain c where c: "calculate (bb_data b) n = Inr c" using calc_total [of n "bb_data b"] len by auto
  from append_bytes_bits [OF ok al, of 2 "u16_bytes c"] n obtain b' where
    b': "bit_buffer_append_bytes b (u16_bytes c) 2 = Inr b'" "bb_bits b' = bb_bits b @ data_bits (u16_bytes c) 16"
      "bb_capacity_bytes b' = bb_capacity_bytes b" "bb_size_bits b' = bb_size_bits b + 16"
    by (auto simp: u16_bytes_def)
  have app: "append b = Inr b'" using c b'(1) by (simp add: append_eq bit_buffer_get_data_def n(1) [symmetric])
  have s: "bb_size_bits b = 8 * n" using size_aligned [OF al] n(1) by simp
  have size: "bit_buffer_get_size_bytes b' = n + 2" using b'(4) s by (simp add: bit_buffer_get_size_bytes_def)
  have ok': "bb_ok b'" using append_bytes_ok [OF ok b'(1)] .
  have bits: "byte_bit (bb_data b') i = (if i < 8 * n then byte_bit (bb_data b) i else byte_bit (u16_bytes c) (i - 8 * n))"
    if i: "i < 8 * n + 16" for i
  proof -
    have "data_bits (bb_data b') (8 * n + 16) = data_bits (bb_data b) (8 * n) @ data_bits (u16_bytes c) 16"
      using b'(2,4) s by (simp add: bb_bits_def)
    from arg_cong [OF this, of "\<lambda>xs. xs ! i"] show ?thesis
      using i by (cases "i < 8 * n") (simp_all add: nth_append)
  qed
  have len': "n + 2 \<le> length (bb_data b')" using ok' b'(3) n(3) by (simp add: bb_ok_def)
  have byte: "bb_data b' ! k = (if k < n then bb_data b ! k else u16_bytes c ! (k - n))" if k: "k < n + 2" for k
  proof (rule bit_word_eqI)
    fix j assume "j < LENGTH(8)"
    then have j: "j < 8" by simp
    have "bit (bb_data b' ! k) j = byte_bit (bb_data b') (8 * k + j)" by (rule byte_bit_at [OF j, symmetric])
    also have "\<dots> = (if k < n then byte_bit (bb_data b) (8 * k + j) else byte_bit (u16_bytes c) (8 * (k - n) + j))"
      using bits [of "8 * k + j"] k j by (auto simp: diff_mult_distrib2)
    finally show "bit (bb_data b' ! k) j = bit (if k < n then bb_data b ! k else u16_bytes c ! (k - n)) j"
      by (simp add: byte_bit_at [OF j])
  qed
  have "take n (bb_data b') = take n (bb_data b)"
    using len len' byte by (intro nth_equalityI) auto
  then have "calculate (bb_data b') n = Inr c" using calc_prefix [of n "bb_data b'" "bb_data b"] len len' c by simp
  moreover have "bytes_u16 [bb_data b' ! n, bb_data b' ! (n + 1)] = c"
    using byte [of n] byte [of "n + 1"] by (simp add: u16_bytes_def bytes_u16_u16_bytes)
  ultimately have "crc_ref p init (serial (bb_data b') (n + 2)) = residue" using residue [OF len'] by simp
  then have chk: "check b' = Inr True" using check_iff [OF ok' size n(2)] by simp
  have "sz (n * 8) = 8 * n" using n(3) ok by (simp add: bb_ok_def mult.commute)
  then have "trim b' = Inr (b'\<lparr>bb_size_bits := 8 * n\<rparr>)"
    using n size b'(3) by (simp add: trim_eq bit_buffer_set_size_bytes_def)
  moreover have "bb_bits (b'\<lparr>bb_size_bits := 8 * n\<rparr>) = bb_bits b"
    using bits s by (simp add: bb_bits_def data_bits_eq_iff)
  ultimately show ?thesis using app size chk by blast
qed

lemma burst_found:
  assumes ok: "bb_ok b" "bb_ok c" and n: "bit_buffer_get_size_bytes b = n" "bit_buffer_get_size_bytes c = n"
    and chk: "check b = Inr True" and burst: "burst 16 (serial (bb_data b) n) (serial (bb_data c) n)"
  shows "check c = Inr False"
proof -
  have "2 < n" using chk n(1) by (simp add: check_eq split: if_splits)
  then obtain m where m: "n = m + 2" "0 < m" by (intro that [of "n - 2"]) simp_all
  have "crc_ref p init (serial (bb_data b) n) = residue"
    using check_iff [OF ok(1) _ m(2)] chk n(1) m(1) by simp
  moreover have "crc_ref p init (serial (bb_data b) n) \<noteq> crc_ref p init (serial (bb_data c) n)"
    using crc_ref_burst [OF p_odd, of "serial (bb_data b) n"] burst by simp
  ultimately have "crc_ref p init (serial (bb_data c) n) \<noteq> residue" by simp
  then show ?thesis using check_iff [OF ok(2) _ m(2)] n(2) m(1) by simp
qed

end

section \<open>The codes of the NFC stack\<close>

lemma poly_1021: "bit (0x1021 :: u16) 0"
  by simp

lemma code_bits_lsb:
  "n + 2 \<le> length d \<Longrightarrow> data_bits d (8 * (n + 2)) = data_bits d (8 * n) @ (data_bits [d ! n] 8 @ data_bits [d ! (n + 1)] 8)"
  using data_bits_Suc_byte [of n d] data_bits_Suc_byte [of "n + 1" d] by simp

lemma code_bits_msb:
  "msb_bits d 0 (8 * (n + 2)) = msb_bits d 0 (8 * n) @ (msb_bits [d ! n] 0 8 @ msb_bits [d ! (n + 1)] 0 8)"
  using msb_bits_Suc_byte [of d n] msb_bits_Suc_byte [of d "n + 1"] by simp

lemma aligned_code_lsb: "word_reverse (bytes_u16 [x, y]) = aligned (data_bits [x] 8 @ data_bits [y] 8)"
proof (rule bit_word_eqI)
  fix j assume "j < LENGTH(16)"
  then show "bit (word_reverse (bytes_u16 [x, y])) j = bit (aligned (data_bits [x] 8 @ data_bits [y] 8) :: u16) j"
    using bit_imp_le_length [of x "15 - j"]
    by (auto simp: bit_aligned bit_word_reverse_iff bytes_u16_def bit_or_iff bit_ucast_iff bit_push_bit_iff possible_bit_def
        nth_append byte_bit_def)
qed

lemma aligned_code_msb: "swap16 (bytes_u16 [x, y]) = aligned (msb_bits [x] 0 8 @ msb_bits [y] 0 8)"
proof (rule bit_word_eqI)
  fix j assume j: "j < LENGTH(16)"
  have "15 - j = 7 - (j - 8)" if "8 \<le> j" "j < 16" using that by simp
  then show "bit (swap16 (bytes_u16 [x, y])) j = bit (aligned (msb_bits [x] 0 8 @ msb_bits [y] 0 8) :: u16) j"
    using j bit_imp_le_length [of x "j - 8"] bit_imp_le_length [of x "8 + j"]
    by (auto simp: bit_aligned swap16_def bytes_u16_def bit_or_iff bit_ucast_iff bit_push_bit_iff bit_drop_bit_eq possible_bit_def
        nth_append msb_bit_def not_less)
qed

text \<open>Sixteen more bits bring the register to the value that shifting \<open>m\<close> gives, exactly when they are \<open>s XOR m\<close>.\<close>

lemma crc_code_iff:
  fixes s m :: u16
  assumes "length bs = 16"
  shows "crc_ref 0x1021 s bs = (crc_shift 0x1021 ^^ 16) m \<longleftrightarrow> aligned bs = s XOR m"
proof -
  have "crc_ref 0x1021 s bs = (crc_shift 0x1021 ^^ 16) (s XOR aligned bs)"
    using assms crc_ref_shifts [of bs "0x1021 :: u16" s] by simp
  then have "crc_ref 0x1021 s bs = (crc_shift 0x1021 ^^ 16) m \<longleftrightarrow> s XOR aligned bs = m"
    using crc_shifts_inj [OF poly_1021] by metis
  also have "\<dots> \<longleftrightarrow> aligned bs = s XOR m" by (metis xor.assoc xor.commute xor.left_neutral xor_self_eq)
  finally show ?thesis .
qed

definition lsb_serial :: "u8 list \<Rightarrow> nat \<Rightarrow> bool list" where
  "lsb_serial d n = data_bits d (8 * n)"

definition msb_serial :: "u8 list \<Rightarrow> nat \<Rightarrow> bool list" where
  "msb_serial d n = msb_bits d 0 (8 * n)"

lemma take_bits:
  assumes "n \<le> length d" "n \<le> length d'" "take n d = take n d'"
  shows "data_bits d (8 * n) = data_bits d' (8 * n)" and "msb_bits d 0 (8 * n) = msb_bits d' 0 (8 * n)"
proof -
  have "d ! (i div 8) = d' ! (i div 8)" if "i < 8 * n" for i
    using that assms nth_take [of "i div 8" n d] nth_take [of "i div 8" n d'] by (simp add: div_less_iff_less_mult)
  then show "data_bits d (8 * n) = data_bits d' (8 * n)" and "msb_bits d 0 (8 * n) = msb_bits d' 0 (8 * n)"
    by (auto simp: data_bits_eq_iff byte_bit_def msb_bits_eq_iff msb_bit_def)
qed

text \<open>The value that a reflected code gives, from the register \<open>s\<close> and the mask \<open>m\<close> it is inverted with.\<close>

lemma reflected_code:
  assumes "n + 2 \<le> length d" and "s = crc_ref 0x1021 init (data_bits d (8 * n))"
  shows "word_reverse s XOR word_reverse m = bytes_u16 [d ! n, d ! (n + 1)] \<longleftrightarrow>
    crc_ref 0x1021 init (lsb_serial d (n + 2)) = (crc_shift 0x1021 ^^ 16) m"
proof -
  have "word_reverse s XOR word_reverse m = bytes_u16 [d ! n, d ! (n + 1)] \<longleftrightarrow>
      s XOR m = word_reverse (bytes_u16 [d ! n, d ! (n + 1)])"
    unfolding word_reverse_xor [symmetric] by (metis word_rev_rev)
  also have "\<dots> \<longleftrightarrow> aligned (data_bits [d ! n] 8 @ data_bits [d ! (n + 1)] 8) = s XOR m"
    unfolding aligned_code_lsb by auto
  also have "\<dots> \<longleftrightarrow> crc_ref 0x1021 init (lsb_serial d (n + 2)) = (crc_shift 0x1021 ^^ 16) m"
    unfolding lsb_serial_def code_bits_lsb [OF assms(1)] crc_ref_append [of _ init] assms(2) [symmetric]
    by (subst crc_code_iff) simp_all
  finally show ?thesis .
qed

lemma not_xor_mask: "NOT w = w XOR word_reverse (- 1 :: u16)"
  by (rule bit_word_eqI) (auto simp: bit_not_iff bit_xor_iff bit_word_reverse_iff possible_bit_def)

lemma word_reverse_zero: "word_reverse (0 :: 'a::len word) = 0"
  by (rule bit_word_eqI) (simp add: bit_word_reverse_iff)

interpretation iso14443: crc16_frame "iso14443_crc_calculate t" "iso14443_crc_append t" "iso14443_crc_check t" iso14443_crc_trim
  lsb_serial "0x1021" "word_reverse (iso14443_init t)" "(crc_shift 0x1021 ^^ 16) (if t = Iso14443CrcTypeB then - 1 else 0)"
  for t
proof unfold_locales
  fix n :: nat and d :: "u8 list"
  assume n: "n + 2 \<le> length d"
  let ?s = "crc_ref 0x1021 (word_reverse (iso14443_init t)) (data_bits d (8 * n))"
  let ?m = "if t = Iso14443CrcTypeB then - 1 else 0 :: u16"
  have "iso14443_crc_calculate t d n = Inr (word_reverse ?s XOR word_reverse ?m)"
    using n by (simp add: iso14443_eq not_xor_mask word_reverse_zero)
  then show "iso14443_crc_calculate t d n = Inr (bytes_u16 [d ! n, d ! (n + 1)]) \<longleftrightarrow>
      crc_ref 0x1021 (word_reverse (iso14443_init t)) (lsb_serial d (n + 2)) = (crc_shift 0x1021 ^^ 16) ?m"
    using reflected_code [OF n refl, of "word_reverse (iso14443_init t)" ?m] by simp
next
  fix n :: nat and d d' :: "u8 list"
  assume a: "n \<le> length d" "n \<le> length d'" "take n d = take n d'"
  show "iso14443_crc_calculate t d n = iso14443_crc_calculate t d' n"
    using a(1,2) by (simp add: iso14443_eq take_bits [OF a])
qed (simp_all add: iso14443_eq iso14443_crc_append_def iso14443_crc_check_def iso14443_crc_trim_def Let_def)

interpretation iso13239: crc16_frame "iso13239_crc_calculate t" "iso13239_crc_append t" "iso13239_crc_check t" iso13239_crc_trim
  lsb_serial "0x1021" "word_reverse (iso13239_init t)" "(crc_shift 0x1021 ^^ 16) (if t = Iso13239CrcTypeDefault then - 1 else 0)"
  for t
proof unfold_locales
  fix n :: nat and d :: "u8 list"
  assume n: "n + 2 \<le> length d"
  let ?s = "crc_ref 0x1021 (word_reverse (iso13239_init t)) (data_bits d (8 * n))"
  let ?m = "if t = Iso13239CrcTypeDefault then - 1 else 0 :: u16"
  have "iso13239_crc_calculate t d n = Inr (word_reverse ?s XOR word_reverse ?m)"
    using n by (simp add: iso13239_eq not_xor_mask word_reverse_zero)
  then show "iso13239_crc_calculate t d n = Inr (bytes_u16 [d ! n, d ! (n + 1)]) \<longleftrightarrow>
      crc_ref 0x1021 (word_reverse (iso13239_init t)) (lsb_serial d (n + 2)) = (crc_shift 0x1021 ^^ 16) ?m"
    using reflected_code [OF n refl, of "word_reverse (iso13239_init t)" ?m] by simp
next
  fix n :: nat and d d' :: "u8 list"
  assume a: "n \<le> length d" "n \<le> length d'" "take n d = take n d'"
  show "iso13239_crc_calculate t d n = iso13239_crc_calculate t d' n"
    using a(1,2) by (simp add: iso13239_eq take_bits [OF a])
qed (simp_all add: iso13239_eq iso13239_crc_append_def iso13239_crc_check_def iso13239_crc_trim_def Let_def)

lemma swap16_swap16: "swap16 (swap16 w) = w"
  by (rule bit_word_eqI)
    (auto simp: swap16_def bit_or_iff bit_push_bit_iff bit_drop_bit_eq possible_bit_def not_less dest: bit_imp_le_length)

interpretation felica: crc16_frame felica_crc_calculate felica_crc_append felica_crc_check felica_crc_trim
  msb_serial "0x1021" 0 0
proof unfold_locales
  fix n :: nat and d :: "u8 list"
  assume n: "n + 2 \<le> length d"
  let ?s = "crc_ref 0x1021 0 (msb_bits d 0 (8 * n)) :: u16"
  have zero: "(crc_shift p ^^ k) 0 = (0 :: u16)" for p k by (induction k) (simp_all add: crc_shift_def)
  have "swap16 ?s = bytes_u16 [d ! n, d ! (n + 1)] \<longleftrightarrow> aligned (msb_bits [d ! n] 0 8 @ msb_bits [d ! (n + 1)] 0 8) = ?s XOR 0"
    unfolding aligned_code_msb [symmetric] by (metis swap16_swap16 xor.right_neutral)
  also have "\<dots> \<longleftrightarrow> crc_ref 0x1021 0 (msb_serial d (n + 2)) = (0 :: u16)"
    unfolding msb_serial_def code_bits_msb crc_ref_append [of _ 0] by (subst crc_code_iff [symmetric]) (simp_all add: zero)
  finally show "felica_crc_calculate d n = Inr (bytes_u16 [d ! n, d ! (n + 1)]) \<longleftrightarrow> crc_ref 0x1021 0 (msb_serial d (n + 2)) = (0 :: u16)"
    using n by (simp add: felica_eq)
next
  fix n :: nat and d d' :: "u8 list"
  assume a: "n \<le> length d" "n \<le> length d'" "take n d = take n d'"
  show "felica_crc_calculate d n = felica_crc_calculate d' n"
    using a(1,2) by (simp add: felica_eq take_bits [OF a])
qed (simp_all add: felica_eq felica_crc_append_def felica_crc_check_def felica_crc_trim_def Let_def)

section \<open>Properties\<close>

text \<open>
  C25: the 16-bit checksum of the bit library is the remainder of a division over the field of two
  elements: the message times \<open>x\<^sup>1\<^sup>6\<close>, its first bits changed by the initial value, is a multiple of the
  generator polynomial plus the checksum, and no other value of 16 bits is such a remainder.
\<close>

theorem crc_division:
  assumes "n \<le> length data"
    and "m = push_bit 16 (nat_of_bits (msb_bits data 0 (8 * n))) XOR push_bit (8 * n) (unat init)"
  shows "\<exists>crc. bit_lib_crc16 data n p init False False 0 = Inr crc \<and>
    (\<exists>q. m = clmul q (crc_generator p) XOR unat crc) \<and>
    (\<forall>q r. m = clmul q (crc_generator p) XOR unat r \<longrightarrow> r = crc)"
proof -
  let ?crc = "crc_ref p init (msb_bits data 0 (8 * n))"
  have "bit_lib_crc16 data n p init False False 0 = Inr ?crc"
    using assms(1) by (simp add: bit_lib_crc16_eq message_bits_def)
  moreover obtain q where q: "m = clmul q (crc_generator p) XOR unat ?crc"
    using crc_ref_division [of "msb_bits data 0 (8 * n)" init p] assms(2) by auto
  ultimately show ?thesis using crc_remainder_unique [of _ p] by blast
qed

theorem crc_division_witness:
  "\<exists>q. push_bit 16 (nat_of_bits (msb_bits [1] 0 8)) = clmul q (crc_generator (0x1021 :: u16)) XOR 0x1021"
proof -
  obtain crc where crc: "bit_lib_crc16 [1] 1 0x1021 0 False False 0 = Inr crc"
      "\<exists>q. push_bit 16 (nat_of_bits (msb_bits [1] 0 8)) = clmul q (crc_generator (0x1021 :: u16)) XOR unat crc"
    using crc_division [of 1 "[1]" _ 0 "0x1021", OF _ refl] by auto
  have "crc = 0x1021" using crc(1) by (simp add: bit_lib_crc16_eq message_bits_def msb_bits_def upt_rec msb_bit_def crc_bit_def)
  with crc(2) show ?thesis by simp
qed

text \<open>
  C24: the cyclic checksums of the bit library, the radio blocks, the one-wire library and the NFC helpers are one
  reference register: the two of the bit library with the bits of each byte in either order and the result in either order, the six of the radio blocks,
  of 4, 7, 8 and 16 bits (the short ones kept at the top of a byte) and reflected, the one-wire checksum,
  whose length is a byte, the byte-at-once code of ISO 14443 with both initial values, and those of
  ISO 13239, also with the value of Picopass, and FeliCa. Not among them are the 32-bit
  code of the toolbox and the codes that a single radio or card protocol computes for itself.
\<close>

theorem checksums_agree:
  assumes "n \<le> length data" and "unat k \<le> length data"
  shows "bit_lib_crc8 data n p8 i8 ref_in ref_out x8 = Inr (ucast ((if ref_out then word_reverse else id)
      (crc_ref p8 i8 (if ref_in then data_bits data (8 * n) else msb_bits data 0 (8 * n))) XOR x8)) \<and>
    bit_lib_crc16 data n p16 i16 ref_in ref_out x16 = Inr ((if ref_out then word_reverse else id)
      (crc_ref p16 i16 (if ref_in then data_bits data (8 * n) else msb_bits data 0 (8 * n))) XOR x16) \<and>
    subghz_protocol_blocks_crc4 data n p8 i8 = Inr (ucast (crc_ref (ucast p8 :: 4 word) (ucast i8) (msb_bits data 0 (8 * n)))) \<and>
    subghz_protocol_blocks_crc7 data n p8 i8 = Inr (ucast (crc_ref (ucast p8 :: 7 word) (ucast i8) (msb_bits data 0 (8 * n)))) \<and>
    subghz_protocol_blocks_crc8 data n p8 i8 = Inr (crc_ref p8 i8 (msb_bits data 0 (8 * n))) \<and>
    subghz_protocol_blocks_crc8le data n p8 i8 = Inr (word_reverse (crc_ref p8 i8 (data_bits data (8 * n)))) \<and>
    subghz_protocol_blocks_crc16 data n p16 i16 = Inr (crc_ref p16 i16 (msb_bits data 0 (8 * n))) \<and>
    subghz_protocol_blocks_crc16lsb data n p16 i16 =
      Inr (word_reverse (crc_ref (word_reverse p16) (word_reverse i16) (data_bits data (8 * n)))) \<and>
    maxim_crc8 data k i8 = Inr (word_reverse (crc_ref 0x31 (word_reverse i8) (data_bits data (8 * unat k)))) \<and>
    iso14443_crc_calculate Iso14443CrcTypeA data n = Inr (word_reverse (crc_ref 0x1021 0xC6C6 (data_bits data (8 * n)))) \<and>
    iso14443_crc_calculate Iso14443CrcTypeB data n = Inr (NOT (word_reverse (crc_ref 0x1021 0xFFFF (data_bits data (8 * n))))) \<and>
    iso13239_crc_calculate Iso13239CrcTypeDefault data n = Inr (NOT (word_reverse (crc_ref 0x1021 0xFFFF (data_bits data (8 * n))))) \<and>
    iso13239_crc_calculate Iso13239CrcTypePicopass data n = Inr (word_reverse (crc_ref 0x1021 0x4807 (data_bits data (8 * n)))) \<and>
    felica_crc_calculate data n = Inr (swap16 (crc_ref 0x1021 0 (msb_bits data 0 (8 * n))))"
  using assms
  by (intro conjI) (simp_all add: bit_lib_crc8_eq bit_lib_crc16_eq message_bits_def subghz_crc4_eq subghz_crc7_eq subghz_crc8_eq
    subghz_crc8le_eq subghz_crc16_eq subghz_crc16lsb_eq maxim_crc8_eq iso14443_eq iso13239_eq felica_eq reverse_6363 reverse_FFFF reverse_E012)

theorem checksums_agree_witness: "maxim_crc8 [1] 1 0 = Inr 0x5E"
proof -
  have "maxim_crc8 [1] 1 0 = Inr (word_reverse (crc_ref 0x31 (word_reverse 0) (data_bits [1] 8)))"
    using checksums_agree [of 1 "[1]" 1 0 0 False False 0 0 0 0] by simp
  then show ?thesis
    by (simp add: word_reverse_zero data_bits_def upt_rec byte_bit_def crc_bit_def word_reverse_def)
qed

text \<open>
  a code appended to a buffer of whole bytes passes its check, and trimming gives the buffer's
  contents back, for both codes of ISO 14443, both of ISO 13239 and that of FeliCa.
\<close>

theorem nfc_crc_roundtrip:
  assumes "bb_reachable b" and "bit_buffer_get_size b mod 8 = 0" and "n = bit_buffer_get_size_bytes b" and "0 < n"
    and "n + 2 \<le> bit_buffer_get_capacity_bytes b"
  shows "(\<exists>b'. iso14443_crc_append t b = Inr b' \<and> iso14443_crc_check t b' = Inr True \<and>
      map_sum id bb_bits (iso14443_crc_trim b') = Inr (bb_bits b)) \<and>
    (\<exists>b'. iso13239_crc_append u b = Inr b' \<and> iso13239_crc_check u b' = Inr True \<and>
      map_sum id bb_bits (iso13239_crc_trim b') = Inr (bb_bits b)) \<and>
    (\<exists>b'. felica_crc_append b = Inr b' \<and> felica_crc_check b' = Inr True \<and>
      map_sum id bb_bits (felica_crc_trim b') = Inr (bb_bits b))"
proof -
  have ok: "bb_ok b" "bb_size_bits b mod 8 = 0" "n + 2 \<le> bb_capacity_bytes b"
    using reachable_fits [OF assms(1)] reachable_cap [OF assms(1)] assms(2,3,5)
    by (simp_all add: bit_buffer_get_size_def bit_buffer_get_capacity_bytes_def)
  show ?thesis
    using iso14443.append_check [OF ok(1,2) assms(3,4) ok(3), of t] iso13239.append_check [OF ok(1,2) assms(3,4) ok(3), of u]
      felica.append_check [OF ok(1,2) assms(3,4) ok(3)]
    by fastforce
qed

theorem nfc_crc_roundtrip_witness:
  "bindr (bit_buffer_alloc 3) (\<lambda>a. bindr (bit_buffer_append_byte a 5) (\<lambda>b.
     bindr (iso14443_crc_append Iso14443CrcTypeA b) (iso14443_crc_check Iso14443CrcTypeA))) = Inr True"
proof -
  obtain a where a: "bit_buffer_alloc 3 = Inr a" and a': "bb_data a = [0, 0, 0]" "bb_size_bits a = 0" "bb_capacity_bytes a = 3"
    by (auto simp: bit_buffer_alloc_def numeral_3_eq_3)
  obtain b where b: "bit_buffer_append_byte a 5 = Inr b" and b': "bb_size_bits b = 8" "bb_capacity_bytes b = 3"
    using a' by (auto simp: bit_buffer_append_byte_def bit_buffer_get_size_bytes_def list_set_def)
  have ra: "bb_reachable a" by (rule bb_reachable.alloc [OF _ a]) simp
  have rb: "bb_reachable b" by (rule bb_reachable.append_byte [OF ra b])
  obtain c where "iso14443_crc_append Iso14443CrcTypeA b = Inr c" "iso14443_crc_check Iso14443CrcTypeA c = Inr True"
    using nfc_crc_roundtrip [OF rb, of 1 Iso14443CrcTypeA] b'
    by (auto simp: bit_buffer_get_size_def bit_buffer_get_size_bytes_def bit_buffer_get_capacity_bytes_def)
  then show ?thesis unfolding a bindr_Inr b by simp
qed

text \<open>
  C26: error detection. A buffer that passes its check and another one of the same length that differs
  from it within 16 consecutive bits of the transmission, the two bytes of the code included: the
  other does not pass.
\<close>

theorem nfc_crc_bursts:
  assumes "bb_reachable b" and "bb_reachable c" and "bb_in_range b"
    and "bit_buffer_get_size_bytes b = n" and "bit_buffer_get_size_bytes c = n"
  shows "(iso14443_crc_check t b = Inr True \<and> burst 16 (data_bits (bb_data b) (8 * n)) (data_bits (bb_data c) (8 * n)) \<longrightarrow>
      iso14443_crc_check t c = Inr False) \<and>
    (iso13239_crc_check u b = Inr True \<and> burst 16 (data_bits (bb_data b) (8 * n)) (data_bits (bb_data c) (8 * n)) \<longrightarrow>
      iso13239_crc_check u c = Inr False) \<and>
    (felica_crc_check b = Inr True \<and> burst 16 (msb_bits (bb_data b) 0 (8 * n)) (msb_bits (bb_data c) 0 (8 * n)) \<longrightarrow>
      felica_crc_check c = Inr False)"
proof -
  have b: "bb_ok b" using assms(1,3) by (rule reachable_ok)
  then have "n < 2 ^ 29" using size_bytes_le [OF b] assms(4) by (simp add: bb_ok_def)
  then have ok: "bb_ok b" "bb_ok c" using b reachable_fits [OF assms(2)] assms(5) by simp_all
  show ?thesis
    using iso14443.burst_found [OF ok assms(4,5), of t] iso13239.burst_found [OF ok assms(4,5), of u]
      felica.burst_found [OF ok assms(4,5)]
    by (simp add: lsb_serial_def msb_serial_def)
qed

theorem nfc_crc_bursts_witness:
  "bindr (bit_buffer_alloc 3) (\<lambda>a. bindr (bit_buffer_copy_bytes a [1, 0, 0] 3) felica_crc_check) = Inr False"
proof -
  obtain a where a: "bit_buffer_alloc 3 = Inr a" and a': "bb_data a = [0, 0, 0]" "bb_size_bits a = 0" "bb_capacity_bytes a = 3"
    by (auto simp: bit_buffer_alloc_def numeral_3_eq_3)
  obtain b where b: "bit_buffer_copy_bytes a [0, 0, 0] 3 = Inr b" and b': "bb_data b = [0, 0, 0]" "bb_size_bits b = 24" "bb_capacity_bytes b = 3"
    using a' by (auto simp: bit_buffer_copy_bytes_def mem_copy_def)
  obtain c where c: "bit_buffer_copy_bytes a [1, 0, 0] 3 = Inr c" and c': "bb_data c = [1, 0, 0]" "bb_size_bits c = 24"
    using a' by (auto simp: bit_buffer_copy_bytes_def mem_copy_def)
  have ra: "bb_reachable a" by (rule bb_reachable.alloc [OF _ a]) simp
  have rb: "bb_reachable b" by (rule bb_reachable.copy_bytes [OF ra b])
  have rc: "bb_reachable c" by (rule bb_reachable.copy_bytes [OF ra c])
  have n: "bit_buffer_get_size_bytes b = 3" "bit_buffer_get_size_bytes c = 3"
    using b' c' by (simp_all add: bit_buffer_get_size_bytes_def)
  have range: "bb_in_range b" using b' by (simp add: in_range_iff)
  have zero: "crc_ref 0x1021 0 (replicate k False) = (0 :: u16)" for k by (induction k) (simp_all add: crc_bit_def)
  have z: "msb_bits [0] 0 8 = replicate 8 False"
    by (rule nth_equalityI) (simp_all add: msb_bit_def)
  have o: "msb_bits [1] 0 8 = replicate 7 False @ [True]"
    by (rule nth_equalityI) (auto simp: msb_bit_def nth_append bit_1_iff)
  have three: "msb_bits [x, y, w] 0 (8 * 3) = msb_bits [x] 0 8 @ msb_bits [y] 0 8 @ msb_bits [w] 0 8" for x y w
    using msb_bits_Suc_byte [of "[x, y, w]" 0] msb_bits_Suc_byte [of "[x, y, w]" 1] msb_bits_Suc_byte [of "[x, y, w]" 2]
    by (simp add: msb_bits_def [of _ _ 0])
  have "crc_ref 0x1021 0 (msb_serial [0, 0, 0] 3) = (0 :: u16)"
    unfolding msb_serial_def three z by (simp add: zero)
  then have "felica_crc_check b = Inr True"
    using felica.check_iff [OF reachable_ok [OF rb range], of 1] n(1) b'(1) by (simp add: numeral_3_eq_3)
  moreover have "msb_bits [0, 0, 0] 0 (8 * 3) = replicate 7 False @ [False] @ replicate 16 False"
    "msb_bits [1, 0, 0] 0 (8 * 3) = replicate 7 False @ [True] @ replicate 16 False"
    unfolding three z o by (simp_all add: replicate_add [symmetric] flip: replicate_Suc)
  then have "burst 16 (msb_bits (bb_data b) 0 (8 * 3)) (msb_bits (bb_data c) 0 (8 * 3))"
    unfolding burst_def b' c'
    by (intro exI [of _ "replicate 7 False"] exI [of _ "[False]"] exI [of _ "[True]"] exI [of _ "replicate 16 False"]) simp
  ultimately have "felica_crc_check c = Inr False"
    using nfc_crc_bursts [OF rb rc range n] by blast
  then show ?thesis unfolding a bindr_Inr c .
qed

end
