(* ===== verification/Keeloq.thy ===== *)
theory Keeloq
  imports Bytes
begin

text \<open>
  The KeeLoq block cipher of the radio protocols and the key derivations built on it
  (\<^verbatim>\<open>lib/subghz/protocols/keeloq_common.c\<close>). Encryption and decryption are the two directions of one
  nonlinear feedback shift register of 32 bits over 528 rounds.
\<close>

section \<open>The cipher\<close>

definition KEELOQ_NLF :: u32 where
  "KEELOQ_NLF = 0x3A5C742E"

text \<open>The macros \<^verbatim>\<open>bit(x, n)\<close> and \<^verbatim>\<open>g5(x, a, b, c, d, e)\<close>.\<close>

definition kbit :: "'a::len word \<Rightarrow> nat \<Rightarrow> u32" where
  "kbit x n = ucast (drop_bit n x AND 1)"

definition g5 :: "u32 \<Rightarrow> nat \<Rightarrow> nat \<Rightarrow> nat \<Rightarrow> nat \<Rightarrow> nat \<Rightarrow> u32" where
  "g5 x a b c d e = kbit x a + kbit x b * 2 + kbit x c * 4 + kbit x d * 8 + kbit x e * 16"

definition encrypt_round :: "u64 \<Rightarrow> nat \<Rightarrow> u32 \<Rightarrow> u32" where
  "encrypt_round key r x =
     drop_bit 1 x XOR push_bit 31 (kbit x 0 XOR kbit x 16 XOR kbit key (r mod 64) XOR
       kbit KEELOQ_NLF (unat (g5 x 1 9 20 26 31)))"

definition subghz_protocol_keeloq_common_encrypt :: "u32 \<Rightarrow> u64 \<Rightarrow> u32" where
  "subghz_protocol_keeloq_common_encrypt data key = fold (encrypt_round key) [0..<528] data"

text \<open>The round counter is unsigned: \<open>(15 - r) & 63\<close> is the difference modulo 64.\<close>

definition decrypt_round :: "u64 \<Rightarrow> nat \<Rightarrow> u32 \<Rightarrow> u32" where
  "decrypt_round key r x =
     push_bit 1 x XOR kbit x 31 XOR kbit x 15 XOR kbit key (unat ((15 - of_nat r :: u32) AND 63)) XOR
       kbit KEELOQ_NLF (unat (g5 x 0 8 19 25 30))"

definition subghz_protocol_keeloq_common_decrypt :: "u32 \<Rightarrow> u64 \<Rightarrow> u32" where
  "subghz_protocol_keeloq_common_decrypt data key = fold (decrypt_round key) [0..<528] data"

section \<open>Derived keys\<close>

definition subghz_protocol_keeloq_common_normal_learning :: "u32 \<Rightarrow> u64 \<Rightarrow> u64" where
  "subghz_protocol_keeloq_common_normal_learning data key =
     (let data = data AND 0x0FFFFFFF; data = data OR 0x20000000;
          k1 = subghz_protocol_keeloq_common_decrypt data key;
          data = data AND 0x0FFFFFFF; data = data OR 0x60000000;
          k2 = subghz_protocol_keeloq_common_decrypt data key
      in push_bit 32 (ucast k2) OR ucast k1)"

definition subghz_protocol_keeloq_common_secure_learning :: "u32 \<Rightarrow> u32 \<Rightarrow> u64 \<Rightarrow> u64" where
  "subghz_protocol_keeloq_common_secure_learning data seed key =
     (let data = data AND 0x0FFFFFFF;
          k1 = subghz_protocol_keeloq_common_decrypt data key;
          k2 = subghz_protocol_keeloq_common_decrypt seed key
      in push_bit 32 (ucast k1) OR ucast k2)"

definition subghz_protocol_keeloq_common_magic_xor_type1_learning :: "u32 \<Rightarrow> u64 \<Rightarrow> u64" where
  "subghz_protocol_keeloq_common_magic_xor_type1_learning data xor_key =
     (let data = data AND 0x0FFFFFFF in (push_bit 32 (ucast data) OR ucast data) XOR xor_key)"

definition subghz_protocol_keeloq_common_faac_learning :: "u32 \<Rightarrow> u64 \<Rightarrow> u64" where
  "subghz_protocol_keeloq_common_faac_learning seed key =
     (let hs = ucast (drop_bit 16 seed) :: u16; ending = 0x544D :: u16;
          lsb = push_bit 16 (ucast hs) OR ucast ending
      in push_bit 32 (ucast (subghz_protocol_keeloq_common_encrypt seed key)) OR
         ucast (subghz_protocol_keeloq_common_encrypt lsb key))"

definition subghz_protocol_keeloq_common_magic_serial_type1_learning :: "u32 \<Rightarrow> u64 \<Rightarrow> u64" where
  "subghz_protocol_keeloq_common_magic_serial_type1_learning data man =
     (man AND 0xFFFFFFFF) OR push_bit 40 (ucast data) OR
     push_bit 32 (ucast (((data AND 0xFF) + (drop_bit 8 data AND 0xFF)) AND 0xFF))"

text \<open>The bytes of the two variables are exchanged through pointers on a little-endian machine.\<close>

definition word_byte :: "nat \<Rightarrow> 'a::len word \<Rightarrow> u8" where
  "word_byte i w = ucast (drop_bit (8 * i) w)"

definition set_byte :: "nat \<Rightarrow> u8 \<Rightarrow> u64 \<Rightarrow> u64" where
  "set_byte i b w = (w AND NOT (push_bit (8 * i) 0xFF)) OR push_bit (8 * i) (ucast b)"

definition subghz_protocol_keeloq_common_magic_serial_type2_learning :: "u32 \<Rightarrow> u64 \<Rightarrow> u64" where
  "subghz_protocol_keeloq_common_magic_serial_type2_learning data man =
     set_byte 4 (word_byte 3 data) (set_byte 5 (word_byte 2 data)
       (set_byte 6 (word_byte 1 data) (set_byte 7 (word_byte 0 data) man)))"

definition subghz_protocol_keeloq_common_magic_serial_type3_learning :: "u32 \<Rightarrow> u64 \<Rightarrow> u64" where
  "subghz_protocol_keeloq_common_magic_serial_type3_learning data man =
     (man AND 0xFFFFFFFFFF000000) OR ucast (data AND 0xFFFFFF)"

section \<open>One round back and forth\<close>

lemma kbit_eq: "kbit x n = of_bool (bit x n)"
  by (cases "bit x n") (simp_all add: kbit_def bit_iff_odd_drop_bit and_one_eq odd_iff_mod_2_eq_one)

lemma bit_kbit: "bit (kbit x n) j \<longleftrightarrow> j = 0 \<and> bit x n"
  unfolding kbit_eq bit_of_bool_iff by blast

text \<open>The feedback of a round, as a function of the seven bits of the register it reads.\<close>

definition feedback :: "bool \<Rightarrow> bool \<Rightarrow> bool \<Rightarrow> bool \<Rightarrow> bool \<Rightarrow> bool" where
  "feedback a b c d e = bit KEELOQ_NLF (unat (of_bool a + of_bool b * 2 + of_bool c * 4 + of_bool d * 8 + of_bool e * 16 :: u32))"

lemma bit_nlf: "bit (kbit KEELOQ_NLF (unat (g5 x a b c d e))) j \<longleftrightarrow>
    j = 0 \<and> feedback (bit x a) (bit x b) (bit x c) (bit x d) (bit x e)"
  unfolding bit_kbit unfolding feedback_def g5_def kbit_eq ..

lemma bit_encrypt_round:
  "bit (encrypt_round key r x) j \<longleftrightarrow>
    (if j = 31 then (((bit x 0 \<noteq> bit x 16) \<noteq> bit key (r mod 64)) \<noteq> feedback (bit x 1) (bit x 9) (bit x 20) (bit x 26) (bit x 31))
     else bit x (Suc j))"
proof -
  have "\<not> bit x (Suc j)" if "31 \<le> j" using bit_imp_le_length [of x "Suc j"] that by auto
  then show ?thesis
    unfolding encrypt_round_def bit_xor_iff bit_push_bit_iff bit_drop_bit_eq bit_nlf unfolding bit_kbit by (auto simp: possible_bit_def)
qed

lemma bit_decrypt_round:
  "bit (decrypt_round key r x) j \<longleftrightarrow> j < 32 \<and>
    (if j = 0 then (((bit x 31 \<noteq> bit x 15) \<noteq> bit key (unat ((15 - of_nat r :: u32) AND 63))) \<noteq>
        feedback (bit x 0) (bit x 8) (bit x 19) (bit x 25) (bit x 30))
     else bit x (j - 1))"
  unfolding decrypt_round_def bit_xor_iff bit_push_bit_iff bit_nlf unfolding bit_kbit by (cases j) (auto simp: possible_bit_def)

text \<open>A round of one direction undoes a round of the other with the same bit of the key.\<close>

lemma round_inverse:
  assumes "r mod 64 = unat ((15 - of_nat q :: u32) AND 63)"
  shows "decrypt_round key q (encrypt_round key r x) = x" and "encrypt_round key r (decrypt_round key q x) = x"
proof -
  show "decrypt_round key q (encrypt_round key r x) = x"
  proof (rule bit_word_eqI)
    fix j assume "j < LENGTH(32)"
    then show "bit (decrypt_round key q (encrypt_round key r x)) j = bit x j"
      using assms by (cases j) (auto simp: bit_decrypt_round bit_encrypt_round)
  qed
  show "encrypt_round key r (decrypt_round key q x) = x"
  proof (rule bit_word_eqI)
    fix j assume "j < LENGTH(32)"
    then show "bit (encrypt_round key r (decrypt_round key q x)) j = bit x j"
      using assms by (cases "j = 31") (auto simp: bit_decrypt_round bit_encrypt_round)
  qed
qed

section \<open>All rounds\<close>

lemma fold_undo:
  assumes "\<And>q x. q < n \<Longrightarrow> d q (e (n - 1 - q) x) = x"
  shows "fold d [0..<n] (fold e [0..<n] x) = x"
proof -
  have "fold d [0..<k] (fold e [0..<n] x) = fold e [0..<n - k] x" if "k \<le> n" for k
    using that
  proof (induction k)
    case (Suc k)
    then have "n - k = Suc (n - 1 - k)" by simp
    then have "fold e [0..<n - k] x = e (n - 1 - k) (fold e [0..<n - 1 - k] x)" by simp
    with Suc show ?case using assms [of k] by simp
  qed simp
  from this [of n] show ?thesis by simp
qed

lemma key_index:
  assumes "q < 528"
  shows "(527 - q) mod 64 = unat ((15 - of_nat q :: u32) AND 63)"
proof -
  have "(63 :: u32) = mask 6" by (simp add: mask_eq_exp_minus_1)
  then have "(15 - of_nat q :: u32) AND 63 = take_bit 6 (of_int (15 - int q))"
    by (simp add: take_bit_eq_mask)
  moreover have "uint (take_bit 6 (of_int k :: u32)) = k mod 64" for k
    by (simp only: unsigned_take_bit_eq uint_word_of_int_eq take_bit_take_bit) (simp add: take_bit_eq_mod)
  moreover have "(15 - int q) mod 64 = (527 - int q) mod 64"
    using mod_mult_self2 [of "15 - int q" 64 8] by (simp add: algebra_simps)
  ultimately have "int (unat ((15 - of_nat q :: u32) AND 63)) = (527 - int q) mod 64"
    by (simp only: uint_nat)
  also have "\<dots> = int ((527 - q) mod 64)" using assms by (simp add: zmod_int of_nat_diff)
  finally show ?thesis by (simp only: of_nat_eq_iff)
qed

lemma decrypt_encrypt: "subghz_protocol_keeloq_common_decrypt (subghz_protocol_keeloq_common_encrypt data key) key = data"
  unfolding subghz_protocol_keeloq_common_encrypt_def subghz_protocol_keeloq_common_decrypt_def
proof (rule fold_undo)
  fix q x assume "q < (528 :: nat)"
  then show "decrypt_round key q (encrypt_round key (528 - 1 - q) x) = x"
    using round_inverse(1) [of "527 - q" q key x] key_index [of q] by simp
qed

lemma encrypt_decrypt: "subghz_protocol_keeloq_common_encrypt (subghz_protocol_keeloq_common_decrypt data key) key = data"
  unfolding subghz_protocol_keeloq_common_encrypt_def subghz_protocol_keeloq_common_decrypt_def
proof (rule fold_undo)
  fix q x assume "q < (528 :: nat)"
  then show "encrypt_round key q (decrypt_round key (528 - 1 - q) x) = x"
    using round_inverse(2) [of q "527 - q" key x] key_index [of "527 - q"] by simp
qed

text \<open>
  C32: the cipher. Decrypting with the same key undoes encrypting and the other way round, for every
  block of 32 bits and every key of 64 bits: both are permutations of the blocks.
\<close>

theorem keeloq_roundtrip:
  "subghz_protocol_keeloq_common_decrypt (subghz_protocol_keeloq_common_encrypt data key) key = data \<and>
   subghz_protocol_keeloq_common_encrypt (subghz_protocol_keeloq_common_decrypt data key) key = data"
  by (simp add: decrypt_encrypt encrypt_decrypt)

section \<open>Derived keys\<close>

lemma halves:
  fixes a b :: u32
  shows "ucast (push_bit 32 (ucast a) OR ucast b :: u64) = b" and "ucast (drop_bit 32 (push_bit 32 (ucast a) OR ucast b :: u64)) = a"
proof -
  show "ucast (push_bit 32 (ucast a) OR ucast b :: u64) = b"
    by (rule bit_word_eqI) (auto simp: bit_ucast_iff bit_or_iff bit_push_bit_iff)
  show "ucast (drop_bit 32 (push_bit 32 (ucast a) OR ucast b :: u64)) = a"
  proof (rule bit_word_eqI)
    fix j assume "j < LENGTH(32)"
    moreover have "\<not> bit b (32 + j)" using bit_imp_le_length [of b "32 + j"] by auto
    ultimately show "bit (ucast (drop_bit 32 (push_bit 32 (ucast a) OR ucast b :: u64)) :: u32) j = bit a j"
      by (auto simp: bit_ucast_iff bit_or_iff bit_push_bit_iff bit_drop_bit_eq possible_bit_def)
  qed
qed

lemma serial_masks:
  "(0x0FFFFFFF :: u32) = mask 28" "(0x20000000 :: u32) = push_bit 29 1" "(0x60000000 :: u32) = push_bit 29 1 OR push_bit 30 1"
  "(0xFFFFFF :: u32) = mask 24"
  by (simp_all add: mask_eq_exp_minus_1)

lemma serial_retagged: "((x AND 0x0FFFFFFF) OR 0x20000000) AND 0x0FFFFFFF = x AND (0x0FFFFFFF :: u32)"
  unfolding serial_masks
  by (rule bit_word_eqI) (simp only: bit_and_iff bit_or_iff bit_mask_iff bit_push_bit_iff bit_1_iff, auto)

lemma normal_learning:
  "subghz_protocol_keeloq_common_encrypt (ucast (subghz_protocol_keeloq_common_normal_learning data key)) key =
     (data AND 0x0FFFFFFF) OR 0x20000000 \<and>
   subghz_protocol_keeloq_common_encrypt (ucast (drop_bit 32 (subghz_protocol_keeloq_common_normal_learning data key))) key =
     (data AND 0x0FFFFFFF) OR 0x60000000"
  unfolding subghz_protocol_keeloq_common_normal_learning_def Let_def serial_retagged halves encrypt_decrypt by simp

lemma secure_learning:
  "subghz_protocol_keeloq_common_encrypt (ucast (drop_bit 32 (subghz_protocol_keeloq_common_secure_learning data seed key))) key =
     data AND 0x0FFFFFFF \<and>
   subghz_protocol_keeloq_common_encrypt (ucast (subghz_protocol_keeloq_common_secure_learning data seed key)) key = seed"
  unfolding subghz_protocol_keeloq_common_secure_learning_def Let_def halves encrypt_decrypt by simp

lemma faac_low: "push_bit 16 (ucast (ucast (drop_bit 16 seed) :: u16)) OR ucast (0x544D :: u16) = push_bit 16 (drop_bit 16 seed) OR (0x544D :: u32)"
  for seed :: u32
proof -
  have "push_bit 16 (ucast (ucast (drop_bit 16 seed) :: u16)) = push_bit 16 (drop_bit 16 seed)"
    by (rule bit_word_eqI) (auto simp: bit_push_bit_iff bit_ucast_iff bit_drop_bit_eq)
  then show ?thesis by simp
qed

lemma faac_learning:
  "subghz_protocol_keeloq_common_decrypt (ucast (drop_bit 32 (subghz_protocol_keeloq_common_faac_learning seed key))) key = seed \<and>
   subghz_protocol_keeloq_common_decrypt (ucast (subghz_protocol_keeloq_common_faac_learning seed key)) key =
     push_bit 16 (drop_bit 16 seed) OR 0x544D"
  unfolding subghz_protocol_keeloq_common_faac_learning_def Let_def faac_low halves decrypt_encrypt by simp

lemma magic_xor_learning:
  "ucast (subghz_protocol_keeloq_common_magic_xor_type1_learning data key XOR key) = data AND 0x0FFFFFFF \<and>
   ucast (drop_bit 32 (subghz_protocol_keeloq_common_magic_xor_type1_learning data key XOR key)) = data AND 0x0FFFFFFF"
proof -
  have "subghz_protocol_keeloq_common_magic_xor_type1_learning data key XOR key =
      push_bit 32 (ucast (data AND 0x0FFFFFFF)) OR ucast (data AND 0x0FFFFFFF)"
    by (simp add: subghz_protocol_keeloq_common_magic_xor_type1_learning_def Let_def xor.assoc)
  then show ?thesis by (simp only: halves simp_thms)
qed

lemma bit_set_byte_of_word: "i < 8 \<Longrightarrow> bit (set_byte i b w) j \<longleftrightarrow> (if 8 * i \<le> j \<and> j < 8 * i + 8 then bit b (j - 8 * i) else bit w j)"
proof -
  assume i: "i < 8"
  have "(0xFF :: u64) = mask 8" by (simp add: mask_eq_exp_minus_1)
  then show ?thesis
    unfolding set_byte_def using i bit_imp_le_length [of w j] bit_imp_le_length [of b "j - 8 * i"]
    by (simp only: bit_or_iff bit_and_iff bit_not_iff bit_push_bit_iff bit_mask_iff bit_ucast_iff) (auto simp: possible_bit_def)
qed

lemma bit_word_byte: "bit (word_byte i w) j \<longleftrightarrow> j < 8 \<and> bit w (8 * i + j)"
  by (auto simp: word_byte_def bit_ucast_iff bit_drop_bit_eq)

lemma magic_serial_type2:
  "ucast (subghz_protocol_keeloq_common_magic_serial_type2_learning data key) = (ucast key :: u32) \<and>
   map (\<lambda>i. word_byte i (subghz_protocol_keeloq_common_magic_serial_type2_learning data key)) [7, 6, 5, 4] =
   map (\<lambda>i. word_byte i data) [0, 1, 2, 3]"
proof
  let ?k = "subghz_protocol_keeloq_common_magic_serial_type2_learning data key"
  show "ucast ?k = (ucast key :: u32)"
    by (rule bit_word_eqI) (simp add: bit_ucast_iff subghz_protocol_keeloq_common_magic_serial_type2_learning_def bit_set_byte_of_word)
  have "word_byte i ?k = word_byte (7 - i) data" if "i \<in> {4, 5, 6, 7}" for i
    by (rule bit_word_eqI)
      (use that in \<open>auto simp: bit_word_byte subghz_protocol_keeloq_common_magic_serial_type2_learning_def bit_set_byte_of_word\<close>)
  then show "map (\<lambda>i. word_byte i ?k) [7, 6, 5, 4] = map (\<lambda>i. word_byte i data) [0, 1, 2, 3]" by simp
qed

lemma magic_serial_type3:
  "ucast (subghz_protocol_keeloq_common_magic_serial_type3_learning data key) AND 0xFFFFFF = data AND (0xFFFFFF :: u32) \<and>
   drop_bit 24 (subghz_protocol_keeloq_common_magic_serial_type3_learning data key) = drop_bit 24 key"
proof -
  have m: "(0xFFFFFFFFFF000000 :: u64) = push_bit 24 (mask 40)" by (simp add: mask_eq_exp_minus_1)
  show ?thesis
    unfolding subghz_protocol_keeloq_common_magic_serial_type3_learning_def m serial_masks
  proof
    show "ucast (key AND push_bit 24 (mask 40) OR ucast (data AND mask 24)) AND mask 24 = data AND (mask 24 :: u32)"
      by (rule bit_word_eqI) (auto simp: bit_and_iff bit_ucast_iff bit_or_iff bit_push_bit_iff bit_mask_iff)
    show "drop_bit 24 (key AND push_bit 24 (mask 40) OR ucast (data AND mask 24)) = drop_bit 24 key"
    proof (rule bit_word_eqI)
      fix j
      show "bit (drop_bit 24 (key AND push_bit 24 (mask 40) OR ucast (data AND mask 24))) j = bit (drop_bit 24 key) j"
        using bit_imp_le_length [of key "24 + j"]
        by (auto simp: bit_and_iff bit_ucast_iff bit_or_iff bit_push_bit_iff bit_mask_iff bit_drop_bit_eq possible_bit_def)
    qed
  qed
qed

text \<open>
  what the derived keys hold. Encrypting the halves of the key of normal learning gives the serial
  number under its two tags, and of secure learning the serial number and the seed; decrypting the
  halves of the FAAC key gives the seed and its upper half under a tag. The three keys that are not
  enciphered hold the serial number itself: doubled under the exclusive or, with its bytes reversed
  above the lower half of the manufacturer's key, and below the upper part of it.
\<close>

theorem keeloq_learning:
  "(let k = subghz_protocol_keeloq_common_normal_learning data key in
      subghz_protocol_keeloq_common_encrypt (ucast k) key = (data AND 0x0FFFFFFF) OR 0x20000000 \<and>
      subghz_protocol_keeloq_common_encrypt (ucast (drop_bit 32 k)) key = (data AND 0x0FFFFFFF) OR 0x60000000) \<and>
   (let k = subghz_protocol_keeloq_common_secure_learning data seed key in
      subghz_protocol_keeloq_common_encrypt (ucast (drop_bit 32 k)) key = data AND 0x0FFFFFFF \<and>
      subghz_protocol_keeloq_common_encrypt (ucast k) key = seed) \<and>
   (let k = subghz_protocol_keeloq_common_faac_learning seed key in
      subghz_protocol_keeloq_common_decrypt (ucast (drop_bit 32 k)) key = seed \<and>
      subghz_protocol_keeloq_common_decrypt (ucast k) key = push_bit 16 (drop_bit 16 seed) OR 0x544D) \<and>
   (let k = subghz_protocol_keeloq_common_magic_xor_type1_learning data key XOR key in
      ucast k = data AND 0x0FFFFFFF \<and> ucast (drop_bit 32 k) = data AND 0x0FFFFFFF) \<and>
   (let k = subghz_protocol_keeloq_common_magic_serial_type2_learning data key in
      ucast k = (ucast key :: u32) \<and> map (\<lambda>i. word_byte i k) [7, 6, 5, 4] = map (\<lambda>i. word_byte i data) [0, 1, 2, 3]) \<and>
   (let k = subghz_protocol_keeloq_common_magic_serial_type3_learning data key in
      ucast k AND 0xFFFFFF = data AND 0xFFFFFF \<and> drop_bit 24 k = drop_bit 24 key)"
  unfolding Let_def
  using normal_learning [of data key] secure_learning [of data seed key] faac_learning [of seed key] magic_xor_learning [of data key]
    magic_serial_type2 [of data key] magic_serial_type3 [of data key]
  by (intro conjI) blast+

end
