(* ===== verification/Level_Duration.thy ===== *)
theory Level_Duration
  imports Bytes
begin

text \<open>
  The pulses of the radio and proximity-card protocols (\<^verbatim>\<open>lib/toolbox/level_duration.h\<close>): a level
  and a duration of 30 bits, or one of two marks. The constructors of the marks leave the duration
  uninitialised, so reading it is undefined.
\<close>

datatype level_duration = LevelReset | LevelWait | Pulse bool nat

definition level_duration_make :: "bool \<Rightarrow> nat \<Rightarrow> level_duration" where
  "level_duration_make level duration = Pulse level (duration mod 2 ^ 30)"

definition level_duration_reset :: level_duration where
  "level_duration_reset = LevelReset"

definition level_duration_wait :: level_duration where
  "level_duration_wait = LevelWait"

definition level_duration_is_reset :: "level_duration \<Rightarrow> bool" where
  "level_duration_is_reset d \<longleftrightarrow> d = LevelReset"

definition level_duration_is_wait :: "level_duration \<Rightarrow> bool" where
  "level_duration_is_wait d \<longleftrightarrow> d = LevelWait"

definition level_duration_get_level :: "level_duration \<Rightarrow> bool" where
  "level_duration_get_level d = (case d of Pulse level _ \<Rightarrow> level | _ \<Rightarrow> False)"

definition level_duration_get_duration :: "level_duration \<Rightarrow> nat res" where
  "level_duration_get_duration d = (case d of Pulse _ duration \<Rightarrow> Inr duration | _ \<Rightarrow> Inl UndefinedArith)"

lemma level_duration_make_small [simp]: "duration < 2 ^ 30 \<Longrightarrow> level_duration_make level duration = Pulse level duration"
  by (simp add: level_duration_make_def)

text \<open>
  The pulses of a sequence of slots of equal length: neighbouring slots of the same level are one
  pulse.
\<close>

fun runs :: "bool list \<Rightarrow> (bool \<times> nat) list" where
  "runs [] = []"
| "runs (b # bs) = (case runs bs of (c, n) # rs \<Rightarrow> if b = c then (c, Suc n) # rs else (b, 1) # (c, n) # rs | [] \<Rightarrow> [(b, 1)])"

definition unrun :: "(bool \<times> nat) list \<Rightarrow> bool list" where
  "unrun rs = concat (map (\<lambda>(b, n). replicate n b) rs)"

lemma runs_Nil_iff [simp]: "runs bs = [] \<longleftrightarrow> bs = []"
  by (cases bs) (auto split: list.splits prod.splits)

lemma runs_level: "runs bs = (b, n) # rs \<Longrightarrow> bs \<noteq> [] \<and> hd bs = b \<and> 0 < n"
  by (induction bs arbitrary: b n rs) (auto split: list.splits prod.splits if_splits)

lemma unrun_runs: "unrun (runs bs) = bs"
proof (induction bs)
  case Nil
  then show ?case by (simp add: unrun_def)
next
  case (Cons b bs)
  then show ?case by (cases "runs bs") (auto simp: unrun_def split: prod.splits)
qed

lemma runs_repeat: "runs (b # bs) = (c, n) # rs \<Longrightarrow> c = b \<and> runs (b # b # bs) = (b, Suc n) # rs"
  using runs_level [of "b # bs"] by (subst runs.simps(2)) auto

lemma runs_change: "b \<noteq> c \<Longrightarrow> runs (b # c # bs) = (b, 1) # runs (c # bs)"
  using runs_level [of "c # bs"] by (cases "runs (c # bs)") (auto split: list.splits prod.splits)

text \<open>
  What is on the line when pulses are sent one after the other: neighbours of the same level are one
  pulse, and a mark ends the transmission.
\<close>

fun merged :: "level_duration list \<Rightarrow> (bool \<times> nat) list" where
  "merged (Pulse l t # ps) =
     (case merged ps of (l', t') # rs \<Rightarrow> if l = l' then (l, t + t') # rs else (l, t) # (l', t') # rs | [] \<Rightarrow> [(l, t)])"
| "merged _ = []"

lemma merged_slots: "merged (map (\<lambda>b. Pulse b u) bs) = map (\<lambda>(b, n). (b, n * u)) (runs bs)"
  by (induction bs) (auto split: list.splits prod.splits)

end
