(* ===== verification/Manchester.thy ===== *)
theory Manchester
  imports Bytes
begin

text \<open>
  The Manchester coder of the toolbox (\<^verbatim>\<open>lib/toolbox/manchester_encoder.c\<close> and
  \<^verbatim>\<open>manchester_decoder.c\<close>), which the radio and the proximity-card protocols share. A one is a low
  half followed by a high half, a zero the reverse. The encoder gives the pulses of the line, halves
  of equal level merged; the decoder follows them with four states and synchronises itself.
\<close>

section \<open>The encoder\<close>

record manchester_encoder_state =
  prev_bit :: bool
  step :: nat

datatype manchester_encoder_result = ResultShortLow | ResultLongLow | ResultLongHigh | ResultShortHigh

text \<open>The enumeration by value: \<^verbatim>\<open>(prev_bit << 1) + curr_bit\<close>.\<close>

definition encoder_result :: "bool \<Rightarrow> bool \<Rightarrow> manchester_encoder_result" where
  "encoder_result prev cur =
     [ResultShortLow, ResultLongLow, ResultLongHigh, ResultShortHigh] ! (2 * of_bool prev + of_bool cur)"

definition manchester_encoder_reset :: "manchester_encoder_state \<Rightarrow> manchester_encoder_state" where
  "manchester_encoder_reset s = s\<lparr>step := 0\<rparr>"

definition manchester_encoder_advance ::
  "manchester_encoder_state \<Rightarrow> bool \<Rightarrow> (bool \<times> manchester_encoder_result \<times> manchester_encoder_state) res" where
  "manchester_encoder_advance s curr_bit =
     (if step s = 0 then
        Inr (True, if curr_bit then ResultShortLow else ResultShortHigh, s\<lparr>prev_bit := curr_bit, step := 1\<rparr>)
      else if step s = 1 then
        let result = encoder_result (prev_bit s) curr_bit in
        if curr_bit = prev_bit s then Inr (False, result, s\<lparr>step := 2\<rparr>)
        else Inr (True, result, s\<lparr>prev_bit := curr_bit\<rparr>)
      else if step s = 2 then
        Inr (True, if curr_bit then ResultShortLow else ResultShortHigh, s\<lparr>prev_bit := curr_bit, step := 1\<rparr>)
      else Inl FuriCrash)"

definition manchester_encoder_finish :: "manchester_encoder_state \<Rightarrow> manchester_encoder_result \<times> manchester_encoder_state" where
  "manchester_encoder_finish s = (encoder_result (prev_bit s) (prev_bit s), s\<lparr>step := 0\<rparr>)"

section \<open>The decoder\<close>

datatype manchester_event = EventShortLow | EventShortHigh | EventLongLow | EventLongHigh | EventReset

fun event_code :: "manchester_event \<Rightarrow> nat" where
  "event_code EventShortLow = 0"
| "event_code EventShortHigh = 2"
| "event_code EventLongLow = 4"
| "event_code EventLongHigh = 6"
| "event_code EventReset = 8"

datatype manchester_state = Start1 | Mid1 | Mid0 | Start0

fun state_code :: "manchester_state \<Rightarrow> nat" where
  "state_code Start1 = 0"
| "state_code Mid1 = 1"
| "state_code Mid0 = 2"
| "state_code Start0 = 3"

definition manchester_transitions :: "u8 list" where
  "manchester_transitions = [0b00000001, 0b10010001, 0b10011011, 0b11111011]"

definition manchester_reset_state :: manchester_state where
  "manchester_reset_state = Mid1"

definition state_of_code :: "nat \<Rightarrow> manchester_state" where
  "state_of_code n = [Start1, Mid1, Mid0, Start0] ! n"

text \<open>The result: the bit that was received, if any, and the next state.\<close>

definition manchester_advance :: "manchester_state \<Rightarrow> manchester_event \<Rightarrow> bool option \<times> manchester_state" where
  "manchester_advance state event =
     (if event = EventReset then (None, manchester_reset_state)
      else let new_state = state_of_code (unat (drop_bit (event_code event) (manchester_transitions ! state_code state) AND 3)) in
        if new_state = state then (None, manchester_reset_state)
        else if new_state = Mid0 then (Some False, new_state)
        else if new_state = Mid1 then (Some True, new_state)
        else (None, new_state))"

text \<open>The table, spelt out.\<close>

lemma manchester_table [simp]:
  "manchester_advance Start1 EventShortLow = (Some True, Mid1)"
  "manchester_advance Start1 EventShortHigh = (None, Mid1)"
  "manchester_advance Start1 EventLongLow = (None, Mid1)"
  "manchester_advance Start1 EventLongHigh = (None, Mid1)"
  "manchester_advance Mid1 EventShortLow = (None, Mid1)"
  "manchester_advance Mid1 EventShortHigh = (None, Start1)"
  "manchester_advance Mid1 EventLongLow = (None, Mid1)"
  "manchester_advance Mid1 EventLongHigh = (Some False, Mid0)"
  "manchester_advance Mid0 EventShortLow = (None, Start0)"
  "manchester_advance Mid0 EventShortHigh = (None, Mid1)"
  "manchester_advance Mid0 EventLongLow = (Some True, Mid1)"
  "manchester_advance Mid0 EventLongHigh = (None, Mid1)"
  "manchester_advance Start0 EventShortLow = (None, Mid1)"
  "manchester_advance Start0 EventShortHigh = (Some False, Mid0)"
  "manchester_advance Start0 EventLongLow = (None, Mid1)"
  "manchester_advance Start0 EventLongHigh = (None, Mid1)"
  "manchester_advance s EventReset = (None, Mid1)"
  by (simp_all add: manchester_advance_def manchester_transitions_def state_of_code_def manchester_reset_state_def)

section \<open>Running the two\<close>

text \<open>
  The clients' loop: a bit is offered until the encoder has taken it, and the half that is left is
  emitted at the end.
\<close>

definition encode_bit :: "bool \<Rightarrow> manchester_encoder_state \<times> manchester_encoder_result list \<Rightarrow>
    (manchester_encoder_state \<times> manchester_encoder_result list) res" where
  "encode_bit b s =
     (let (st, out) = s in
      bindr (manchester_encoder_advance st b) (\<lambda>(taken, r, st).
      if taken then Inr (st, out @ [r])
      else bindr (manchester_encoder_advance st b) (\<lambda>(taken, r', st).
        if taken then Inr (st, out @ [r, r']) else Inl OutOfFuel)))"

definition manchester_encode :: "manchester_encoder_state \<Rightarrow> bool list \<Rightarrow> manchester_encoder_result list res" where
  "manchester_encode st bits =
     bindr (for_each encode_bit bits (manchester_encoder_reset st, [])) (\<lambda>(st, out).
       Inr (out @ [fst (manchester_encoder_finish st)]))"

fun line_event :: "manchester_encoder_result \<Rightarrow> manchester_event" where
  "line_event ResultShortLow = EventShortLow"
| "line_event ResultLongLow = EventLongLow"
| "line_event ResultLongHigh = EventLongHigh"
| "line_event ResultShortHigh = EventShortHigh"

fun manchester_decode :: "manchester_state \<Rightarrow> manchester_event list \<Rightarrow> bool list \<times> manchester_state" where
  "manchester_decode s [] = ([], s)"
| "manchester_decode s (e # es) =
     (let (d, s) = manchester_advance s e; (bs, s) = manchester_decode s es in ((case d of Some b \<Rightarrow> [b] | None \<Rightarrow> []) @ bs, s))"

lemma manchester_decode_append:
  "manchester_decode s (es @ fs) =
     (let (bs, s) = manchester_decode s es; (cs, s) = manchester_decode s fs in (bs @ cs, s))"
  by (induction es arbitrary: s) (auto simp: Let_def split: prod.splits)

section \<open>Pulses of a bit sequence\<close>

text \<open>The pulses after a bit whose first half has been sent, and of a whole sequence.\<close>

fun pulses_from :: "bool \<Rightarrow> bool list \<Rightarrow> manchester_event list" where
  "pulses_from p [] = []"
| "pulses_from p (b # bs) =
     (if p = b then (if p then [EventShortHigh, EventShortLow] else [EventShortLow, EventShortHigh])
      else (if p then [EventLongHigh] else [EventLongLow])) @ pulses_from b bs"

definition first_half :: "bool \<Rightarrow> manchester_event" where
  "first_half b = (if b then EventShortLow else EventShortHigh)"

definition second_half :: "bool \<Rightarrow> manchester_event" where
  "second_half b = (if b then EventShortHigh else EventShortLow)"

lemma encoder_result_table [simp]:
  "encoder_result False False = ResultShortLow" "encoder_result False True = ResultLongLow"
  "encoder_result True False = ResultLongHigh" "encoder_result True True = ResultShortHigh"
  by (simp_all add: encoder_result_def)

text \<open>Within a run the encoder is in step 1, the previous bit being the last one taken.\<close>

lemma encode_bits_pulses:
  "step st = 1 \<Longrightarrow> \<exists>st' out'. for_each encode_bit bs (st, out) = Inr (st', out @ out') \<and>
     map line_event out' = pulses_from (prev_bit st) bs \<and> step st' = 1 \<and> prev_bit st' = last (prev_bit st # bs)"
proof (induction bs arbitrary: st out)
  case (Cons b bs)
  define st1 where "st1 = st\<lparr>prev_bit := b\<rparr>"
  define new where "new = (if b = prev_bit st then [encoder_result b b, if b then ResultShortLow else ResultShortHigh] else [encoder_result (prev_bit st) b])"
  have st1: "step st1 = 1" "prev_bit st1 = b" using Cons.prems by (simp_all add: st1_def)
  have "st\<lparr>prev_bit := b, step := Suc 0\<rparr> = st1" using Cons.prems by (simp add: st1_def)
  then have "encode_bit b (st, out) = Inr (st1, out @ new)"
    using Cons.prems by (auto simp: encode_bit_def manchester_encoder_advance_def new_def Let_def st1_def)
  moreover obtain st' out' where "for_each encode_bit bs (st1, out @ new) = Inr (st', (out @ new) @ out')"
    "map line_event out' = pulses_from b bs" "step st' = 1" "prev_bit st' = last (b # bs)"
    using Cons.IH [OF st1(1), of "out @ new"] unfolding st1(2) by blast
  moreover have "map line_event new = (if prev_bit st = b then (if prev_bit st then [EventShortHigh, EventShortLow]
      else [EventShortLow, EventShortHigh]) else (if prev_bit st then [EventLongHigh] else [EventLongLow]))"
    by (cases b; cases "prev_bit st") (simp_all add: new_def)
  ultimately show ?case by (intro exI [of _ st'] exI [of _ "new @ out'"]) simp
qed simp

lemma finish_pulse: "line_event (fst (manchester_encoder_finish st)) = second_half (prev_bit st)"
  by (cases "prev_bit st") (simp_all add: manchester_encoder_finish_def second_half_def)

lemma manchester_encode_pulses:
  "\<exists>out. manchester_encode st (b # bs) = Inr out \<and>
     map line_event out = first_half b # pulses_from b bs @ [second_half (last (b # bs))]"
proof -
  define st1 where "st1 = st\<lparr>prev_bit := b, step := 1\<rparr>"
  define r where "r = (if b then ResultShortLow else ResultShortHigh)"
  have "encode_bit b (manchester_encoder_reset st, []) = Inr (st1, [r])"
    by (simp add: encode_bit_def manchester_encoder_reset_def manchester_encoder_advance_def st1_def r_def)
  moreover obtain st' out' where run: "for_each encode_bit bs (st1, [r]) = Inr (st', [r] @ out')"
    "map line_event out' = pulses_from b bs" "step st' = 1" "prev_bit st' = last (b # bs)"
    using encode_bits_pulses [of st1 bs "[r]"] by (auto simp: st1_def)
  moreover have r: "line_event r = first_half b" by (simp add: r_def first_half_def)
  ultimately have "manchester_encode st (b # bs) = Inr ([r] @ out' @ [fst (manchester_encoder_finish st')])"
    by (simp add: manchester_encode_def)
  moreover have "map line_event ([r] @ out' @ [fst (manchester_encoder_finish st')]) =
      first_half b # pulses_from b bs @ [second_half (last (b # bs))]"
    unfolding map_append list.map run(2) finish_pulse run(4) r by simp
  ultimately show ?thesis by (intro exI conjI)
qed

text \<open>In the middle of a bit the decoder takes the rest of the pulses bit by bit.\<close>

definition mid :: "bool \<Rightarrow> manchester_state" where
  "mid b = (if b then Mid1 else Mid0)"

lemma decode_pulses: "manchester_decode (mid p) (pulses_from p bs) = (bs, mid (last (p # bs)))"
proof (induction bs arbitrary: p)
  case (Cons b bs)
  define new where "new = (if p = b then (if p then [EventShortHigh, EventShortLow] else [EventShortLow, EventShortHigh])
      else (if p then [EventLongHigh] else [EventLongLow]))"
  have "manchester_decode (mid p) new = ([b], mid b)" by (cases p; cases b) (simp_all add: new_def mid_def)
  moreover have "pulses_from p (b # bs) = new @ pulses_from b bs" by (simp add: new_def)
  ultimately show ?case using Cons.IH [of b] by (simp only: manchester_decode_append) simp
qed simp

lemma decode_second_half: "fst (manchester_decode (mid b) [second_half b]) = []"
  by (cases b) (simp_all add: mid_def second_half_def)

text \<open>A long low pulse synchronises: whatever the state was, the next one is the middle of a one.\<close>

lemma long_low_synchronises: "snd (manchester_advance s EventLongLow) = Mid1"
  by (cases s) simp_all

lemma pulses_append: "pulses_from p (xs @ ys) = pulses_from p xs @ pulses_from (last (p # xs)) ys"
  by (induction xs arbitrary: p) simp_all

section \<open>Properties\<close>

lemma decode_append:
  "fst (manchester_decode s (es @ fs)) = fst (manchester_decode s es) @ fst (manchester_decode (snd (manchester_decode s es)) fs)"
  "snd (manchester_decode s (es @ fs)) = snd (manchester_decode (snd (manchester_decode s es)) fs)"
  by (simp_all add: manchester_decode_append Let_def split: prod.splits)

lemma decode_Cons:
  "fst (manchester_decode s (e # es)) =
     (case fst (manchester_advance s e) of Some b \<Rightarrow> [b] | None \<Rightarrow> []) @ fst (manchester_decode (snd (manchester_advance s e)) es)"
  by (simp add: Let_def split: prod.splits)

text \<open>What follows the synchronising pulse, whatever came before it.\<close>

lemma decode_synchronised:
  "\<exists>junk. fst (manchester_decode s (pre @ EventLongLow # pulses_from True ys @ [second_half (last (True # ys))])) = junk @ ys"
proof -
  have "fst (manchester_decode Mid1 (pulses_from True ys @ [second_half (last (True # ys))])) = ys"
    using decode_pulses [of True ys] decode_second_half [of "last (True # ys)"] unfolding decode_append by (simp add: mid_def)
  note rest = this
  show ?thesis
    unfolding decode_append(1) [of s pre] decode_Cons long_low_synchronises rest
    by (intro exI) (rule append_assoc [symmetric])
qed

text \<open>
  a sequence of bits that begins with a one is encoded and the pulses decoded from the reset state:
  the decoder reports the bits after that one, each once and in order.
\<close>

theorem manchester_transfer:
  "\<exists>out. manchester_encode st (True # bits) = Inr out \<and>
     fst (manchester_decode (snd (manchester_advance s EventReset)) (map line_event out)) = bits"
proof -
  obtain out where out: "manchester_encode st (True # bits) = Inr out"
    "map line_event out = first_half True # pulses_from True bits @ [second_half (last (True # bits))]"
    using manchester_encode_pulses [of st True bits] by (elim exE conjE) (rule that)
  have "fst (manchester_decode Mid1 (first_half True # pulses_from True bits @ [second_half (last (True # bits))])) = bits"
    using decode_pulses [of True bits] decode_second_half [of "last (True # bits)"]
    unfolding decode_Cons decode_append by (simp add: first_half_def mid_def)
  then show ?thesis using out by simp
qed

text \<open>
  C33: synchronisation. Whatever state the decoder is in, once a zero followed by a one has passed it
  reports every bit that comes after them.
\<close>

theorem manchester_synchronises:
  "\<exists>out junk. manchester_encode st (xs @ [False, True] @ ys) = Inr out \<and>
     fst (manchester_decode s (map line_event out)) = junk @ ys"
proof -
  obtain b bs where b: "xs @ [False, True] @ ys = b # bs" by (cases xs) auto
  obtain out where out: "manchester_encode st (b # bs) = Inr out"
    "map line_event out = first_half b # pulses_from b bs @ [second_half (last (b # bs))]"
    using manchester_encode_pulses [of st b bs] by (elim exE conjE) (rule that)
  have "\<exists>pre. first_half b # pulses_from b bs = pre @ EventLongLow # pulses_from True ys"
  proof (cases xs)
    case Nil
    with b show ?thesis by (auto intro: exI [of _ "[first_half False]"])
  next
    case (Cons c zs)
    with b have bs: "bs = (zs @ [False]) @ True # ys" by simp
    show ?thesis
      unfolding bs pulses_append [of b "zs @ [False]"]
      by (intro exI [of _ "first_half b # pulses_from b (zs @ [False])"]) simp
  qed
  moreover have "last (b # bs) = last (True # ys)" unfolding b [symmetric] by simp
  ultimately obtain pre where "map line_event out = pre @ EventLongLow # pulses_from True ys @ [second_half (last (True # ys))]"
    using out(2) by auto
  then show ?thesis using decode_synchronised [of s pre ys] out(1) b by auto
qed

inductive encoder_reachable :: "manchester_encoder_state \<Rightarrow> bool" where
  encoder_reset: "encoder_reachable (manchester_encoder_reset s)"
| encoder_advanced: "encoder_reachable s \<Longrightarrow> manchester_encoder_advance s b = Inr (taken, r, s') \<Longrightarrow> encoder_reachable s'"
| encoder_finished: "encoder_reachable s \<Longrightarrow> manchester_encoder_finish s = (r, s') \<Longrightarrow> encoder_reachable s'"

lemma encoder_step_bound: "encoder_reachable s \<Longrightarrow> step s \<le> 2"
  by (induction rule: encoder_reachable.induct)
    (auto simp: manchester_encoder_reset_def manchester_encoder_finish_def manchester_encoder_advance_def Let_def split: if_splits)

text \<open>
  C34: the state of the encoder is of its type: after a reset it stays within the three steps of its
  switch, whatever is encoded and wherever the encoding is cut short, so that the default branch that
  crashes is never taken; and a bit that is refused is taken when it is offered again.
\<close>

theorem manchester_encoder_steps:
  assumes "encoder_reachable s"
  shows "step s \<le> 2 \<and> (\<exists>taken r s'. manchester_encoder_advance s b = Inr (taken, r, s') \<and> encoder_reachable s' \<and>
    (\<not> taken \<longrightarrow> (\<exists>r' s''. manchester_encoder_advance s' b = Inr (True, r', s''))))"
proof -
  have s: "step s \<le> 2" by (rule encoder_step_bound [OF assms])
  then have "\<exists>taken r s'. manchester_encoder_advance s b = Inr (taken, r, s') \<and>
      (\<not> taken \<longrightarrow> (\<exists>r' s''. manchester_encoder_advance s' b = Inr (True, r', s'')))"
    by (auto simp: manchester_encoder_advance_def Let_def)
  then show ?thesis using s encoder_reachable.encoder_advanced [OF assms] by blast
qed

theorem manchester_encoder_steps_witness:
  "\<exists>taken r s'. manchester_encoder_advance (manchester_encoder_reset \<lparr>prev_bit = True, step = 7\<rparr>) True = Inr (taken, r, s')"
  using manchester_encoder_steps [OF encoder_reachable.encoder_reset, of "\<lparr>prev_bit = True, step = 7\<rparr>" True] by blast

end
