(* ===== verification/Em4100.thy ===== *)
theory Em4100
  imports Level_Duration Manchester
begin

text \<open>
  The proximity card EM4100 (\<^verbatim>\<open>lib/lfrfid/protocols/protocol_em4100.c\<close>): five bytes in a frame of 64
  bits with a header of nine ones, a parity bit per row of four and per column of ten, and a stop bit,
  sent over and over in Manchester code. The decoder keeps the last 128 bits: a frame, and behind it
  the beginning of the next one.
\<close>

section \<open>State\<close>

record protocol_em4100 =
  em_data :: "u8 list"
  encoded_data :: u64
  encoded_epilogue :: u64
  encoded_data_index :: nat
  encoded_polarity :: bool
  decoder_manchester_state :: manchester_state
  clock_per_bit :: nat

definition protocol_em4100_get_time_divisor :: "protocol_em4100 \<Rightarrow> nat" where
  "protocol_em4100_get_time_divisor proto =
     (if clock_per_bit proto = 64 then 1 else if clock_per_bit proto = 32 then 2 else if clock_per_bit proto = 16 then 4 else 1)"

definition protocol_em4100_get_t5577_bitrate :: "protocol_em4100 \<Rightarrow> u32" where
  "protocol_em4100_get_t5577_bitrate proto =
     (if clock_per_bit proto = 64 then 0x00140000 else if clock_per_bit proto = 32 then 0x00080000
      else if clock_per_bit proto = 16 then 0x00040000 else 0x00140000)"

definition EM_READ_SHORT_TIME_BASE :: nat where "EM_READ_SHORT_TIME_BASE = 256"
definition EM_READ_LONG_TIME_BASE :: nat where "EM_READ_LONG_TIME_BASE = 512"
definition EM_READ_JITTER_TIME_BASE :: nat where "EM_READ_JITTER_TIME_BASE = 100"

definition protocol_em4100_get_short_time_low :: "protocol_em4100 \<Rightarrow> nat" where
  "protocol_em4100_get_short_time_low proto =
     EM_READ_SHORT_TIME_BASE div protocol_em4100_get_time_divisor proto - EM_READ_JITTER_TIME_BASE div protocol_em4100_get_time_divisor proto"

definition protocol_em4100_get_short_time_high :: "protocol_em4100 \<Rightarrow> nat" where
  "protocol_em4100_get_short_time_high proto =
     EM_READ_SHORT_TIME_BASE div protocol_em4100_get_time_divisor proto + EM_READ_JITTER_TIME_BASE div protocol_em4100_get_time_divisor proto"

definition protocol_em4100_get_long_time_low :: "protocol_em4100 \<Rightarrow> nat" where
  "protocol_em4100_get_long_time_low proto =
     EM_READ_LONG_TIME_BASE div protocol_em4100_get_time_divisor proto - EM_READ_JITTER_TIME_BASE div protocol_em4100_get_time_divisor proto"

definition protocol_em4100_get_long_time_high :: "protocol_em4100 \<Rightarrow> nat" where
  "protocol_em4100_get_long_time_high proto =
     EM_READ_LONG_TIME_BASE div protocol_em4100_get_time_divisor proto + EM_READ_JITTER_TIME_BASE div protocol_em4100_get_time_divisor proto"

text \<open>The allocator returns zeroed memory; \<open>Start1\<close> is the state with value 0.\<close>

definition em4100_zeroed :: "nat \<Rightarrow> protocol_em4100" where
  "em4100_zeroed clock = \<lparr>em_data = replicate 5 0, encoded_data = 0, encoded_epilogue = 0, encoded_data_index = 0,
     encoded_polarity = False, decoder_manchester_state = Start1, clock_per_bit = clock\<rparr>"

definition protocol_em4100_alloc :: protocol_em4100 where
  "protocol_em4100_alloc = em4100_zeroed 64"

definition protocol_em4100_16_alloc :: protocol_em4100 where
  "protocol_em4100_16_alloc = em4100_zeroed 16"

definition protocol_em4100_32_alloc :: protocol_em4100 where
  "protocol_em4100_32_alloc = em4100_zeroed 32"

definition protocol_em4100_get_data :: "protocol_em4100 \<Rightarrow> u8 list" where
  "protocol_em4100_get_data proto = em_data proto"

section \<open>The frame\<close>

definition EM_HEADER_MASK :: u64 where "EM_HEADER_MASK = push_bit 55 0x1FF"
definition EM_STOP_MASK :: u64 where "EM_STOP_MASK = push_bit 0 1"
definition EM_HEADER_AND_STOP_MASK :: u64 where "EM_HEADER_AND_STOP_MASK = EM_HEADER_MASK OR EM_STOP_MASK"
definition EM_HEADER_AND_STOP_DATA :: u64 where "EM_HEADER_AND_STOP_DATA = EM_HEADER_MASK"
definition EM_ENCODED_DATA_HEADER :: u64 where "EM_ENCODED_DATA_HEADER = 0xFF80000000000000"

text \<open>One bit of a row: the first four go into the nibble.\<close>

definition decode_row_bit :: "u8 \<times> u64 \<Rightarrow> nat \<Rightarrow> u8 \<times> u64" where
  "decode_row_bit s i =
     (let (nibble, card_data) = s;
          nibble = (if i < 4 then push_bit 1 nibble OR (if card_data AND push_bit 63 1 \<noteq> 0 then 1 else 0) else nibble)
      in (nibble, push_bit 1 card_data))"

definition decode_row :: "nat \<Rightarrow> u64 \<times> u8 \<times> u8 list \<times> nat \<Rightarrow> (u64 \<times> u8 \<times> u8 list \<times> nat) res" where
  "decode_row r s =
     (let (card_data, value, decoded_data, decoded_data_index) = s;
          (nibble, card_data) = foldl decode_row_bit (0, card_data) [0..<5];
          value = push_bit 4 value OR nibble
      in if r mod 2 \<noteq> 0
         then bindr (list_get decoded_data decoded_data_index) (\<lambda>x.
              bindr (list_set decoded_data decoded_data_index (x OR value)) (\<lambda>decoded_data.
                Inr (card_data, 0, decoded_data, decoded_data_index + 1)))
         else Inr (card_data, value, decoded_data, decoded_data_index))"

text \<open>The frame is passed as its 64-bit variable, of the size that the function checks.\<close>

definition em4100_decode :: "u64 \<Rightarrow> u8 list \<Rightarrow> u8 list res" where
  "em4100_decode encoded decoded_data =
     bindr (furi_check (length decoded_data \<ge> 5)) (\<lambda>_.
     let decoded_data = replicate (length decoded_data) 0;
         card_data = foldl (\<lambda>c i. push_bit 1 c) encoded [0..<9]
     in bindr (for_each decode_row [0..<10] (card_data, 0, decoded_data, 0)) (\<lambda>(_, _, decoded_data, _). Inr decoded_data))"

definition row_parity_sum :: "u64 \<Rightarrow> nat \<Rightarrow> u8" where
  "row_parity_sum card_data i = foldl (\<lambda>s j. s + ucast (drop_bit (50 - i * 5 + j) card_data AND 1)) 0 [0..<5]"

definition column_parity_sum :: "u64 \<Rightarrow> nat \<Rightarrow> u8" where
  "column_parity_sum card_data i = foldl (\<lambda>s j. s + ucast (drop_bit (4 - i + j * 5) card_data AND 1)) 0 [0..<11]"

definition em4100_can_be_decoded :: "u64 \<Rightarrow> u64 \<Rightarrow> bool" where
  "em4100_can_be_decoded card_data epilogue =
     (if epilogue AND EM_ENCODED_DATA_HEADER \<noteq> EM_ENCODED_DATA_HEADER then False
      else if card_data AND EM_HEADER_AND_STOP_MASK \<noteq> EM_HEADER_AND_STOP_DATA then False
      else if \<exists>i \<in> set [0..<10]. row_parity_sum card_data i mod 2 \<noteq> 0 then False
      else if \<exists>i \<in> set [0..<4]. column_parity_sum card_data i mod 2 \<noteq> 0 then False
      else True)"

section \<open>The decoder\<close>

definition protocol_em4100_decoder_start :: "protocol_em4100 \<Rightarrow> protocol_em4100" where
  "protocol_em4100_decoder_start proto =
     proto\<lparr>em_data := replicate 5 0, encoded_data := 0,
       decoder_manchester_state := snd (manchester_advance (decoder_manchester_state proto) EventReset)\<rparr>"

definition em_event :: "protocol_em4100 \<Rightarrow> bool \<Rightarrow> nat \<Rightarrow> manchester_event" where
  "em_event proto level duration =
     (if duration > protocol_em4100_get_short_time_low proto \<and> duration < protocol_em4100_get_short_time_high proto
      then (if \<not> level then EventShortHigh else EventShortLow)
      else if duration > protocol_em4100_get_long_time_low proto \<and> duration < protocol_em4100_get_long_time_high proto
      then (if \<not> level then EventLongHigh else EventLongLow)
      else EventReset)"

definition protocol_em4100_decoder_feed :: "protocol_em4100 \<Rightarrow> bool \<Rightarrow> nat \<Rightarrow> (bool \<times> protocol_em4100) res" where
  "protocol_em4100_decoder_feed proto level duration =
     (let event = em_event proto level duration in
      if event \<noteq> EventReset
      then let (d, st) = manchester_advance (decoder_manchester_state proto) event;
               proto = proto\<lparr>decoder_manchester_state := st\<rparr>
           in case d of None \<Rightarrow> Inr (False, proto)
              | Some b \<Rightarrow>
                  let carry = drop_bit 63 (encoded_epilogue proto) AND 1;
                      proto = proto\<lparr>encoded_data := push_bit 1 (encoded_data proto) OR carry,
                        encoded_epilogue := push_bit 1 (encoded_epilogue proto) OR of_bool b\<rparr>
                  in if em4100_can_be_decoded (encoded_data proto) (encoded_epilogue proto)
                     then bindr (em4100_decode (encoded_data proto) (em_data proto)) (\<lambda>d. Inr (True, proto\<lparr>em_data := d\<rparr>))
                     else Inr (False, proto)
      else Inr (False, proto))"

section \<open>The encoder\<close>

definition write_nibble_bit :: "u8 \<Rightarrow> u8 \<times> u64 \<Rightarrow> nat \<Rightarrow> u8 \<times> u64" where
  "write_nibble_bit data s i =
     (let (parity_sum, encoded) = s; b = drop_bit i data AND 1 in (parity_sum + b, push_bit 1 encoded OR ucast b))"

definition em4100_write_nibble :: "bool \<Rightarrow> u8 \<Rightarrow> u64 \<Rightarrow> u64" where
  "em4100_write_nibble low_nibble data encoded =
     (let start = (if low_nibble then 0 else 4);
          (parity_sum, encoded) = foldl (write_nibble_bit data) (0, encoded) (rev [start..<start + 4])
      in push_bit 1 encoded OR ucast (parity_sum mod 2 AND 1))"

definition write_column :: "u64 \<Rightarrow> u64" where
  "write_column encoded =
     (let parity_sum = foldl (\<lambda>s i. s + ucast (drop_bit (i * 5 - 1) encoded AND 1)) (0 :: u8) [1..<11]
      in push_bit 1 encoded OR ucast (parity_sum mod 2 AND 1))"

definition protocol_em4100_encoder_start :: "protocol_em4100 \<Rightarrow> (bool \<times> protocol_em4100) res" where
  "protocol_em4100_encoder_start proto =
     bindr (for_each (\<lambda>i e. bindr (list_get (em_data proto) i) (\<lambda>b.
       Inr (em4100_write_nibble True b (em4100_write_nibble False b e)))) [0..<5] 0x1FF) (\<lambda>e.
     let e = (write_column ^^ 4) e; e = push_bit 1 e OR 0
     in Inr (True, proto\<lparr>encoded_data := e, encoded_data_index := 0, encoded_polarity := True\<rparr>))"

definition protocol_em4100_encoder_yield :: "protocol_em4100 \<Rightarrow> level_duration \<times> protocol_em4100" where
  "protocol_em4100_encoder_yield proto =
     (let level = drop_bit (63 - encoded_data_index proto) (encoded_data proto) AND 1 \<noteq> 0;
          duration = clock_per_bit proto div 2
      in if encoded_polarity proto
         then (level_duration_make level duration, proto\<lparr>encoded_polarity := False\<rparr>)
         else let index = inc8 (encoded_data_index proto); index = (if index \<ge> 64 then 0 else index)
              in (level_duration_make (\<not> level) duration, proto\<lparr>encoded_polarity := True, encoded_data_index := index\<rparr>))"

section \<open>Writing to a blank card\<close>

datatype lfrfid_write_type = LFRFIDWriteTypeT5577

record lfrfid_t5577 =
  t5577_block :: "u32 list"
  t5577_blocks_to_write :: u32
  t5577_mask :: u8

record lfrfid_write_request =
  write_type :: lfrfid_write_type
  t5577 :: lfrfid_t5577

text \<open>\<^verbatim>\<open>LFRFID_T5577_MODULATION_MANCHESTER\<close> is \<open>0x00008000\<close>, \<^verbatim>\<open>LFRFID_T5577_MAXBLOCK_SHIFT\<close> is 5.\<close>

definition protocol_em4100_write_data :: "protocol_em4100 \<Rightarrow> lfrfid_write_request \<Rightarrow> (bool \<times> protocol_em4100 \<times> lfrfid_write_request) res" where
  "protocol_em4100_write_data proto request =
     bindr (protocol_em4100_encoder_start proto) (\<lambda>(_, proto).
     bindr (em4100_decode (encoded_data proto) (em_data proto)) (\<lambda>d.
     bindr (protocol_em4100_encoder_start (proto\<lparr>em_data := d\<rparr>)) (\<lambda>(_, proto).
     if write_type request = LFRFIDWriteTypeT5577
     then bindr (list_set (t5577_block (t5577 request)) 0 (0x00008000 OR protocol_em4100_get_t5577_bitrate proto OR push_bit 5 2)) (\<lambda>b.
          bindr (list_set b 1 (ucast (drop_bit 32 (encoded_data proto)))) (\<lambda>b.
          bindr (list_set b 2 (ucast (encoded_data proto))) (\<lambda>b.
            Inr (True, proto, request\<lparr>t5577 := (t5577 request)\<lparr>t5577_block := b, t5577_blocks_to_write := 3\<rparr>\<rparr>))))
     else Inr (False, proto, request))))"

end
