(* ===== verification/Em4100_Facts.thy ===== *)
theory Em4100_Facts
  imports Em4100
begin

text \<open>
  The frame of a card as a list of 64 bits, which the encoder builds and the decoder reads, and the
  checks of the decoder in terms of it.
\<close>

section \<open>The frame as a list of bits\<close>

definition nibble_bit :: "u8 list \<Rightarrow> nat \<Rightarrow> nat \<Rightarrow> bool" where
  "nibble_bit d r c = bit (d ! (r div 2)) ((if even r then 7 else 3) - c)"

definition frame_row :: "u8 list \<Rightarrow> nat \<Rightarrow> bool list" where
  "frame_row d r = map (nibble_bit d r) [0..<4] @ [parity_of (map (nibble_bit d r) [0..<4])]"

definition column_parity :: "u8 list \<Rightarrow> nat \<Rightarrow> bool" where
  "column_parity d c = parity_of (map (\<lambda>r. nibble_bit d r c) [0..<10])"

definition frame_rows :: "u8 list \<Rightarrow> nat \<Rightarrow> bool list" where
  "frame_rows d n = replicate 9 True @ concat (map (frame_row d) [0..<n])"

definition em_frame :: "u8 list \<Rightarrow> bool list" where
  "em_frame d = frame_rows d 10 @ map (column_parity d) [0..<4] @ [False]"

lemma length_frame_row [simp]: "length (frame_row d r) = 5"
  by (simp add: frame_row_def)

lemma length_frame_rows [simp]: "length (frame_rows d n) = 9 + 5 * n"
  by (induction n) (simp_all add: frame_rows_def)

lemma length_em_frame [simp]: "length (em_frame d) = 64"
  by (simp add: em_frame_def)

lemma frame_rows_nth:
  "r < n \<Longrightarrow> c < 5 \<Longrightarrow> frame_rows d n ! (9 + 5 * r + c) = frame_row d r ! c"
proof (induction n)
  case (Suc n)
  have s: "frame_rows d (Suc n) = frame_rows d n @ frame_row d n" by (simp add: frame_rows_def)
  show ?case
  proof (cases "r = n")
    case True
    then show ?thesis unfolding s by (simp add: nth_append)
  next
    case False
    with Suc show ?thesis unfolding s by (simp add: nth_append)
  qed
qed simp

lemma frame_rows_header: "i < 9 \<Longrightarrow> frame_rows d n ! i"
  by (simp add: frame_rows_def nth_append)

section \<open>The encoder\<close>

lemma push_snoc: "push_bit 1 (word_of_bits bs) OR ucast (of_bool b :: u8) = (word_of_bits (bs @ [b]) :: u64)"
  unfolding word_of_bits_snoc by (cases b) simp_all

lemma parity_bit_word: "x mod 2 AND 1 = of_bool (odd x)" for x :: u8
  by (cases "odd x") (simp_all add: odd_iff_mod_2_eq_one even_iff_mod_2_eq_zero)

lemma write_nibble_bits:
  "foldl (write_nibble_bit b) (s, word_of_bits bs) is =
     (foldl (\<lambda>s j. s + ucast (drop_bit j b AND 1)) s is, word_of_bits (bs @ map (bit b) is))"
proof (induction "is" arbitrary: s bs)
  case (Cons i "is")
  have "push_bit 1 (word_of_bits bs) OR ucast (drop_bit i b AND 1) = (word_of_bits (bs @ [bit b i]) :: u64)"
    unfolding drop_and_one push_snoc ..
  then have "write_nibble_bit b (s, word_of_bits bs) i = (s + ucast (drop_bit i b AND 1), word_of_bits (bs @ [bit b i]))"
    by (simp add: write_nibble_bit_def Let_def)
  then show ?case using Cons.IH [of "s + ucast (drop_bit i b AND 1)" "bs @ [bit b i]"] by (simp only: foldl.simps) simp
qed simp

lemma write_nibble_eq:
  assumes "b = d ! (r div 2)" and "low = odd r"
  shows "em4100_write_nibble low b (word_of_bits bs) = word_of_bits (bs @ frame_row d r)"
proof -
  let ?start = "if low then 0 else 4 :: nat"
  let ?is = "rev [?start..<?start + 4]"
  have bits: "map (bit b) ?is = map (nibble_bit d r) [0..<4]"
  proof (rule nth_equalityI)
    fix i assume "i < length (map (bit b) ?is)"
    then have i: "i < 4" by simp
    then have "?is ! i = ?start + 3 - i" by (simp add: rev_nth)
    then show "map (bit b) ?is ! i = map (nibble_bit d r) [0..<4] ! i" using i assms by (simp add: nibble_bit_def)
  qed simp
  have "odd (foldl (\<lambda>s j. s + ucast (drop_bit j b AND 1)) (0 :: u8) ?is) = parity_of (map (bit b) ?is)"
    unfolding parity_sum [of "\<lambda>j. j" b 0 ?is] by (simp only: even_zero simp_thms)
  then have "em4100_write_nibble low b (word_of_bits bs) =
      push_bit 1 (word_of_bits (bs @ map (bit b) ?is)) OR ucast (of_bool (parity_of (map (bit b) ?is)) :: u8)"
    unfolding em4100_write_nibble_def Let_def write_nibble_bits prod.case parity_bit_word by (simp only:)
  also have "\<dots> = word_of_bits (bs @ frame_row d r)"
    unfolding push_snoc bits frame_row_def append_assoc ..
  finally show ?thesis .
qed

lemma write_rows:
  "n \<le> 5 \<Longrightarrow> length d = 5 \<Longrightarrow>
   for_each (\<lambda>i e. bindr (list_get d i) (\<lambda>b. Inr (em4100_write_nibble True b (em4100_write_nibble False b e)))) [0..<n] 0x1FF =
     Inr (word_of_bits (frame_rows d (2 * n)))"
proof (induction n)
  case 0
  have "word_of_bits (replicate 9 True) = (0x1FF :: u64)" by (simp add: word_of_bits_def numeral_eq_Suc)
  then show ?case by (simp add: frame_rows_def)
next
  case (Suc n)
  have "em4100_write_nibble True (d ! n) (em4100_write_nibble False (d ! n) (word_of_bits (frame_rows d (2 * n)))) =
      word_of_bits ((frame_rows d (2 * n) @ frame_row d (2 * n)) @ frame_row d (2 * n + 1))"
    using write_nibble_eq [of "d ! n" d "2 * n" False "frame_rows d (2 * n)"]
      write_nibble_eq [of "d ! n" d "2 * n + 1" True "frame_rows d (2 * n) @ frame_row d (2 * n)"] by simp
  moreover have "frame_rows d (2 * Suc n) = (frame_rows d (2 * n) @ frame_row d (2 * n)) @ frame_row d (2 * n + 1)"
    by (simp add: frame_rows_def)
  ultimately show ?case using Suc by (simp add: for_each_Suc list_get_def del: upt_Suc)
qed

lemma write_column_eq:
  assumes "c < 4"
  shows "write_column (word_of_bits (frame_rows d 10 @ map (column_parity d) [0..<c])) =
    word_of_bits (frame_rows d 10 @ map (column_parity d) [0..<Suc c])"
proof -
  let ?xs = "frame_rows d 10 @ map (column_parity d) [0..<c]"
  have b: "bit (word_of_bits ?xs :: u64) (i * 5 - 1) = nibble_bit d (10 - i) c" if i: "i \<in> set [1..<11]" for i
  proof -
    have "length ?xs - 1 - (i * 5 - 1) = 9 + 5 * (10 - i) + c" using i by auto
    moreover have "9 + 5 * (10 - i) + c < length (frame_rows d 10)" using i assms by auto
    ultimately have "?xs ! (length ?xs - 1 - (i * 5 - 1)) \<longleftrightarrow> frame_row d (10 - i) ! c"
      using frame_rows_nth [of "10 - i" 10 c d] i assms by (simp only: nth_append if_True) simp
    also have "\<dots> \<longleftrightarrow> nibble_bit d (10 - i) c" using assms by (simp add: frame_row_def nth_append)
    finally show ?thesis using i assms unfolding bit_word_of_bits by (simp only:) auto
  qed
  have "map (\<lambda>i. bit (word_of_bits ?xs :: u64) (i * 5 - 1)) [1..<11] = map (\<lambda>i. nibble_bit d (10 - i) c) [1..<11]"
    by (rule map_cong [OF refl b])
  also have "\<dots> = rev (map (\<lambda>r. nibble_bit d r c) [0..<10])"
    by (rule nth_equalityI) (auto simp: rev_nth)
  finally have "parity_of (map (\<lambda>i. bit (word_of_bits ?xs :: u64) (i * 5 - 1)) [1..<11]) = column_parity d c"
    by (simp only: parity_of_rev column_parity_def)
  then have "odd (foldl (\<lambda>s i. s + ucast (drop_bit (i * 5 - 1) (word_of_bits ?xs :: u64) AND 1)) (0 :: u8) [1..<11]) = column_parity d c"
    using parity_sum [of "\<lambda>i. i * 5 - 1" "word_of_bits ?xs :: u64" 0 "[1..<11]"] by simp
  then have "write_column (word_of_bits ?xs) = push_bit 1 (word_of_bits ?xs) OR ucast (of_bool (column_parity d c) :: u8)"
    unfolding write_column_def Let_def parity_bit_word by (simp only:)
  also have "\<dots> = word_of_bits (?xs @ [column_parity d c])" by (rule push_snoc)
  finally show ?thesis by simp
qed

lemma encoder_start_eq:
  assumes "length (em_data proto) = 5"
  shows "protocol_em4100_encoder_start proto =
    Inr (True, proto\<lparr>encoded_data := word_of_bits (em_frame (em_data proto)), encoded_data_index := 0, encoded_polarity := True\<rparr>)"
proof -
  let ?d = "em_data proto"
  have "(write_column ^^ n) (word_of_bits (frame_rows ?d 10)) = word_of_bits (frame_rows ?d 10 @ map (column_parity ?d) [0..<n])"
    if "n \<le> 4" for n using that by (induction n) (simp_all add: write_column_eq del: upt_Suc)
  then have "(write_column ^^ 4) (word_of_bits (frame_rows ?d 10)) = word_of_bits (frame_rows ?d 10 @ map (column_parity ?d) [0..<4])"
    by blast
  moreover have "push_bit 1 (word_of_bits bs) OR 0 = (word_of_bits (bs @ [False]) :: u64)" for bs
    by (simp only: word_of_bits_snoc of_bool_eq)
  ultimately show ?thesis
    using write_rows [of 5 ?d] assms unfolding protocol_em4100_encoder_start_def Let_def em_frame_def by simp
qed

section \<open>Reading the bytes\<close>

text \<open>The nibble in column \<open>c\<close> of row \<open>r\<close> is bit \<open>54 - 5 * r - c\<close> of the frame.\<close>

definition frame_byte :: "u64 \<Rightarrow> nat \<Rightarrow> u8" where
  "frame_byte W k = word_of_bits (map (\<lambda>c. bit W (54 - 10 * k - c)) [0..<4] @ map (\<lambda>c. bit W (49 - 10 * k - c)) [0..<4])"

definition frame_data :: "u64 \<Rightarrow> u8 list" where
  "frame_data W = map (frame_byte W) [0..<5]"

lemma length_frame_data [simp]: "length (frame_data W) = 5"
  by (simp add: frame_data_def)

lemma bit_shifted: "i \<le> 63 \<Longrightarrow> n \<le> i \<Longrightarrow> bit (push_bit n W) i \<longleftrightarrow> bit W (i - n)" for W :: u64
  by (simp add: bit_push_bit_iff)

lemma decode_row_bits:
  "n \<le> 4 \<Longrightarrow> foldl decode_row_bit (0, C) [0..<n] = (word_of_bits (map (\<lambda>c. bit C (63 - c)) [0..<n]), push_bit n C)"
proof (induction n)
  case (Suc n)
  have "push_bit n C AND push_bit 63 1 \<noteq> 0 \<longleftrightarrow> bit C (63 - n)"
    using Suc.prems by (simp only: and_mask_bit) (simp add: bit_shifted)
  then have "decode_row_bit (word_of_bits (map (\<lambda>c. bit C (63 - c)) [0..<n]), push_bit n C) n =
      (push_bit 1 (word_of_bits (map (\<lambda>c. bit C (63 - c)) [0..<n])) OR of_bool (bit C (63 - n)), push_bit 1 (push_bit n C))"
    using Suc.prems unfolding decode_row_bit_def Let_def prod.case of_bool_def by simp
  moreover have "push_bit 1 (push_bit n C) = push_bit (Suc n) C" by (simp only: push_bit_push_bit) simp
  ultimately show ?case using Suc unfolding upt_Suc by (simp only: word_of_bits_snoc [symmetric]) simp
qed simp

lemma decode_row_nibble:
  "foldl decode_row_bit (0, C) [0..<5] = (word_of_bits (map (\<lambda>c. bit C (63 - c)) [0..<4]), push_bit 5 C)"
proof -
  have "[0..<5] = [0..<4] @ [4 :: nat]" by (simp add: upt_rec)
  moreover have "push_bit 1 (push_bit 4 C) = push_bit 5 C" by (simp only: push_bit_push_bit) simp
  ultimately show ?thesis
    using decode_row_bits [of 4 C] unfolding decode_row_bit_def by (simp only: foldl_append foldl.simps Let_def prod.case) simp
qed

lemma push_rows: "push_bit 5 (push_bit n W) = push_bit (n + 5) W" for W :: u64
  by (simp only: push_bit_push_bit add.commute)

lemma decode_rows:
  "n \<le> 5 \<Longrightarrow> for_each decode_row [0..<2 * n] (push_bit 9 W, 0, replicate 5 0, 0) =
     Inr (push_bit (9 + 10 * n) W, 0, take n (frame_data W) @ replicate (5 - n) 0, n)"
proof (induction n)
  case (Suc n)
  let ?C = "push_bit (9 + 10 * n) W" and ?l = "take n (frame_data W) @ replicate (5 - n) (0 :: u8)"
  have hi: "map (\<lambda>c. bit ?C (63 - c)) [0..<4] = map (\<lambda>c. bit W (54 - 10 * n - c)) [0..<4]"
    by (rule map_cong) (use Suc.prems in \<open>auto simp: bit_shifted add.commute\<close>)
  have lo: "map (\<lambda>c. bit (push_bit (9 + 10 * n + 5) W) (63 - c)) [0..<4] = map (\<lambda>c. bit W (49 - 10 * n - c)) [0..<4]"
    by (rule map_cong) (use Suc.prems in \<open>auto simp: bit_shifted add.commute\<close>)
  let ?hi = "word_of_bits (map (\<lambda>c. bit W (54 - 10 * n - c)) [0..<4]) :: u8"
  have first: "decode_row (2 * n) (?C, 0, ?l, n) = Inr (push_bit (9 + 10 * n + 5) W, ?hi, ?l, n)"
    unfolding decode_row_def Let_def prod.case decode_row_nibble hi push_rows by simp
  have "push_bit 4 ?hi OR word_of_bits (map (\<lambda>c. bit W (49 - 10 * n - c)) [0..<4]) = frame_byte W n"
    unfolding frame_byte_def word_of_bits_append by simp
  then have second: "decode_row (2 * n + 1) (push_bit (9 + 10 * n + 5) W, ?hi, ?l, n) =
      Inr (push_bit (9 + 10 * n + 5 + 5) W, 0, ?l[n := frame_byte W n], n + 1)"
    using Suc.prems unfolding decode_row_def Let_def prod.case decode_row_nibble lo push_rows
    by (simp add: list_get_def list_set_def nth_append)
  have l: "?l[n := frame_byte W n] = take (Suc n) (frame_data W) @ replicate (5 - Suc n) 0"
    using Suc.prems by (intro nth_equalityI) (auto simp: nth_append nth_list_update frame_data_def less_Suc_eq)
  have "[0..<2 * Suc n] = [0..<2 * n] @ [2 * n, 2 * n + 1]" by simp
  then show ?case
    using Suc first second l by (simp only: for_each_append) (simp add: algebra_simps)
qed simp

lemma shift_header: "foldl (\<lambda>c i. push_bit 1 c) W [0..<n] = push_bit n W" for W :: u64
  by (induction n) (simp_all only: upt_0 foldl.simps push_bit_0_id id_apply upt_Suc zero_le if_True foldl_append push_bit_push_bit, simp_all)

lemma em4100_decode_eq: "length buf = 5 \<Longrightarrow> em4100_decode W buf = Inr (frame_data W)"
  using decode_rows [of 5 W] unfolding em4100_decode_def Let_def shift_header by simp

section \<open>What is accepted\<close>

definition header_ok :: "u64 \<Rightarrow> bool" where
  "header_ok W \<longleftrightarrow> (\<forall>i. 55 \<le> i \<and> i < 64 \<longrightarrow> bit W i)"

text \<open>The bits of row \<open>r\<close> and of column \<open>c\<close>, the parity bit last.\<close>

definition row_bits :: "u64 \<Rightarrow> nat \<Rightarrow> bool list" where
  "row_bits W r = map (\<lambda>c. bit W (54 - 5 * r - c)) [0..<5]"

definition column_bits :: "u64 \<Rightarrow> nat \<Rightarrow> bool list" where
  "column_bits W c = map (\<lambda>r. bit W (54 - 5 * r - c)) [0..<11]"

lemma header_mask: "EM_HEADER_MASK = push_bit 55 (mask 9)" "EM_ENCODED_DATA_HEADER = push_bit 55 (mask 9)"
  by (simp_all add: EM_HEADER_MASK_def EM_ENCODED_DATA_HEADER_def mask_eq_exp_minus_1)

lemma bit_header_mask: "bit (push_bit 55 (mask 9) :: u64) i \<longleftrightarrow> 55 \<le> i \<and> i < 64"
  by (auto simp: bit_simps)

lemma epilogue_check: "E AND EM_ENCODED_DATA_HEADER = EM_ENCODED_DATA_HEADER \<longleftrightarrow> header_ok E"
  unfolding header_mask header_ok_def
  by (auto simp: bit_eq_iff [where ?'a = "64 word"] possible_bit_def bit_and_iff bit_header_mask)

lemma header_check: "W AND EM_HEADER_AND_STOP_MASK = EM_HEADER_AND_STOP_DATA \<longleftrightarrow> header_ok W \<and> \<not> bit W 0"
proof -
  have stop: "bit (EM_STOP_MASK) i \<longleftrightarrow> i = 0" for i
    by (auto simp: EM_STOP_MASK_def bit_1_iff)
  show ?thesis
    unfolding EM_HEADER_AND_STOP_MASK_def EM_HEADER_AND_STOP_DATA_def header_mask header_ok_def
    by (auto simp: bit_eq_iff [where ?'a = "64 word"] possible_bit_def bit_and_iff bit_or_iff bit_header_mask stop dest: spec [of _ 0])
qed

lemma odd_parity_sum: "x mod 2 \<noteq> 0 \<longleftrightarrow> odd x" for x :: u8
  by (simp add: even_iff_mod_2_eq_zero)

lemma row_parity: "i < 10 \<Longrightarrow> row_parity_sum W i mod 2 \<noteq> 0 \<longleftrightarrow> parity_of (row_bits W i)"
proof -
  assume i: "i < 10"
  have "map (\<lambda>j. bit W (50 - i * 5 + j)) [0..<5] = rev (row_bits W i)"
    by (rule nth_equalityI) (use i in \<open>auto simp: rev_nth row_bits_def algebra_simps intro!: arg_cong [of _ _ "bit W"]\<close>)
  then show ?thesis
    unfolding odd_parity_sum row_parity_sum_def
    using parity_sum [of "\<lambda>j. 50 - i * 5 + j" W "0 :: u8" "[0..<5]"] by (simp add: parity_of_rev)
qed

lemma column_parity_check: "i < 4 \<Longrightarrow> column_parity_sum W i mod 2 \<noteq> 0 \<longleftrightarrow> parity_of (column_bits W i)"
proof -
  assume i: "i < 4"
  have "map (\<lambda>j. bit W (4 - i + j * 5)) [0..<11] = rev (column_bits W i)"
    by (rule nth_equalityI) (use i in \<open>auto simp: rev_nth column_bits_def algebra_simps intro!: arg_cong [of _ _ "bit W"]\<close>)
  then show ?thesis
    unfolding odd_parity_sum column_parity_sum_def
    using parity_sum [of "\<lambda>j. 4 - i + j * 5" W "0 :: u8" "[0..<11]"] by (simp add: parity_of_rev)
qed

lemma can_be_decoded_iff:
  "em4100_can_be_decoded W E \<longleftrightarrow> header_ok E \<and> header_ok W \<and> \<not> bit W 0 \<and>
     (\<forall>r < 10. \<not> parity_of (row_bits W r)) \<and> (\<forall>c < 4. \<not> parity_of (column_bits W c))"
proof -
  have "(\<exists>i \<in> set [0..<10]. row_parity_sum W i mod 2 \<noteq> 0) \<longleftrightarrow> (\<exists>r < 10. parity_of (row_bits W r))"
    using row_parity by (auto simp: Bex_def)
  moreover have "(\<exists>i \<in> set [0..<4]. column_parity_sum W i mod 2 \<noteq> 0) \<longleftrightarrow> (\<exists>c < 4. parity_of (column_bits W c))"
    using column_parity_check by (auto simp: Bex_def)
  ultimately show ?thesis
    unfolding em4100_can_be_decoded_def epilogue_check header_check by auto
qed

section \<open>Frames and words\<close>

lemma em_frame_nth:
  shows em_frame_header: "i < 9 \<Longrightarrow> em_frame d ! i"
    and em_frame_row: "r < 10 \<Longrightarrow> c < 5 \<Longrightarrow> em_frame d ! (9 + 5 * r + c) = frame_row d r ! c"
    and em_frame_column: "c < 4 \<Longrightarrow> em_frame d ! (59 + c) = column_parity d c"
    and em_frame_stop: "\<not> em_frame d ! 63"
  using frame_rows_header [of i d 10] frame_rows_nth [of r 10 c d]
  by (simp_all add: em_frame_def nth_append)

abbreviation frame_word :: "u8 list \<Rightarrow> u64" where
  "frame_word d \<equiv> word_of_bits (em_frame d)"

lemma bit_frame_word: "p < 64 \<Longrightarrow> bit (frame_word d) p \<longleftrightarrow> em_frame d ! (63 - p)"
  by (simp add: bit_word_of_bits)

lemma row_bits_frame: "r < 10 \<Longrightarrow> row_bits (frame_word d) r = frame_row d r"
proof (rule nth_equalityI)
  fix c assume "r < 10" and "c < length (row_bits (frame_word d) r)"
  then have c: "c < 5" and p: "63 - (54 - (5 * r + c)) = 9 + 5 * r + c" by (simp_all add: row_bits_def)
  show "row_bits (frame_word d) r ! c = frame_row d r ! c"
    using em_frame_row [OF \<open>r < 10\<close> c] c by (simp add: row_bits_def bit_frame_word p)
qed (simp add: row_bits_def)

lemma column_bits_frame: "c < 4 \<Longrightarrow> column_bits (frame_word d) c = map (\<lambda>r. nibble_bit d r c) [0..<10] @ [column_parity d c]"
proof -
  assume c: "c < 4"
  have "bit (frame_word d) (54 - 5 * r - c) \<longleftrightarrow> nibble_bit d r c" if r: "r < 10" for r
  proof -
    have p: "63 - (54 - (5 * r + c)) = 9 + 5 * r + c" using r c by simp
    show ?thesis using em_frame_row [OF r, of c d] c by (simp add: bit_frame_word p frame_row_def nth_append)
  qed
  moreover have "bit (frame_word d) (54 - 5 * 10 - c) \<longleftrightarrow> column_parity d c"
  proof -
    have p: "63 - (4 - c) = 59 + c" using c by simp
    show ?thesis using em_frame_column [OF c, of d] by (simp add: bit_frame_word p)
  qed
  moreover have "[0..<11] = [0..<10] @ [10 :: nat]" by (simp add: upt_rec)
  ultimately show ?thesis unfolding column_bits_def by simp
qed

lemma parity_of_row: "\<not> parity_of (frame_row d r)"
  by (simp add: frame_row_def parity_of_append)

lemma frame_word_accepted: "header_ok E \<Longrightarrow> em4100_can_be_decoded (frame_word d) E"
proof -
  assume E: "header_ok E"
  have "em_frame d ! (63 - i)" if "55 \<le> i" for i using that by (intro em_frame_header) linarith
  then have "header_ok (frame_word d)" by (simp add: header_ok_def bit_frame_word)
  moreover have "\<not> bit (frame_word d) 0" using em_frame_stop [of d] by (simp add: bit_frame_word)
  moreover have "\<not> parity_of (column_bits (frame_word d) c)" if "c < 4" for c
    using that by (simp add: column_bits_frame parity_of_append column_parity_def)
  ultimately show ?thesis using E by (simp add: can_be_decoded_iff row_bits_frame parity_of_row)
qed

lemma nibble_frame_data: "r < 10 \<Longrightarrow> c < 4 \<Longrightarrow> nibble_bit (frame_data W) r c \<longleftrightarrow> bit W (54 - 5 * r - c)"
proof -
  assume r: "r < 10" and c: "c < 4"
  have b: "bit (frame_byte W k) j \<longleftrightarrow> (if j < 4 then bit W (49 - 10 * k - (3 - j)) else bit W (54 - 10 * k - (7 - j)))" if "j < 8" for k j
    using that by (auto simp: frame_byte_def bit_word_of_bits nth_append)
  show ?thesis
  proof (cases "even r")
    case True
    then obtain k where k: "r = 2 * k" by blast
    then show ?thesis using r c b [of "7 - c" k] by (simp add: nibble_bit_def frame_data_def)
  next
    case False
    then obtain k where k: "r = 2 * k + 1" using oddE by blast
    have "54 - 5 * r - c = 49 - 10 * k - c" using k by simp
    then show ?thesis using r c k b [of "3 - c" k] by (simp add: nibble_bit_def frame_data_def)
  qed
qed

lemma nibbles_determine:
  assumes "length d = 5" and "length d' = 5" and n: "\<And>r c. r < 10 \<Longrightarrow> c < 4 \<Longrightarrow> nibble_bit d r c = nibble_bit d' r c"
  shows "d = d'"
proof (rule nth_equalityI)
  fix k assume "k < length d"
  then have k: "k < 5" using assms by simp
  show "d ! k = d' ! k"
  proof (rule bit_word_eqI)
    fix j assume "j < LENGTH(8)"
    then have j: "j < 8" by simp
    show "bit (d ! k) j = bit (d' ! k) j"
    proof (cases "j < 4")
      case True
      then show ?thesis using n [of "2 * k + 1" "3 - j"] k by (simp add: nibble_bit_def)
    next
      case False
      then show ?thesis using n [of "2 * k" "7 - j"] k j by (simp add: nibble_bit_def)
    qed
  qed
qed (use assms in simp)

lemma frame_data_frame: "length d = 5 \<Longrightarrow> frame_data (frame_word d) = d"
proof (rule nibbles_determine)
  fix r c :: nat assume r: "r < 10" and c: "c < 4"
  have p: "63 - (54 - (5 * r + c)) = 9 + 5 * r + c" using r c by simp
  show "nibble_bit (frame_data (frame_word d)) r c = nibble_bit d r c"
    using em_frame_row [OF r, of c d] c
    by (simp add: nibble_frame_data [OF r c] bit_frame_word p frame_row_def nth_append)
qed simp_all

lemma accepted_row:
  assumes "\<not> parity_of (row_bits W r)" and r: "r < 10"
  shows "frame_row (frame_data W) r = row_bits W r"
proof -
  have n: "map (nibble_bit (frame_data W) r) [0..<4] = map (\<lambda>c. bit W (54 - 5 * r - c)) [0..<4]"
    using nibble_frame_data [OF r] by simp
  have "[0..<5] = [0..<4] @ [4 :: nat]" by (simp add: upt_rec)
  then show ?thesis
    using assms(1) unfolding row_bits_def frame_row_def n by (simp add: parity_of_append)
qed

lemma accepted_column:
  assumes "\<not> parity_of (column_bits W c)" and c: "c < 4"
  shows "column_parity (frame_data W) c = bit W (4 - c)"
proof -
  have n: "map (\<lambda>r. nibble_bit (frame_data W) r c) [0..<10] = map (\<lambda>r. bit W (54 - 5 * r - c)) [0..<10]"
    using nibble_frame_data [OF _ c] by simp
  have "[0..<11] = [0..<10] @ [10 :: nat]" by (simp add: upt_rec)
  then show ?thesis
    using assms(1) unfolding column_bits_def column_parity_def n by (simp add: parity_of_append)
qed

lemma accepted_canonical:
  assumes "em4100_can_be_decoded W E"
  shows "frame_word (frame_data W) = W"
proof (rule bit_word_eqI)
  fix p assume "p < LENGTH(64)"
  then have p: "p < 64" by simp
  have ok: "header_ok W" "\<not> bit W 0" and row: "\<And>r. r < 10 \<Longrightarrow> \<not> parity_of (row_bits W r)"
    and column: "\<And>c. c < 4 \<Longrightarrow> \<not> parity_of (column_bits W c)"
    using assms by (simp_all add: can_be_decoded_iff)
  consider "55 \<le> p" | "5 \<le> p" "p < 55" | "1 \<le> p" "p < 5" | "p = 0" by linarith
  then show "bit (frame_word (frame_data W)) p = bit W p"
  proof cases
    case 1
    then show ?thesis using ok(1) p em_frame_header [of "63 - p"] by (simp add: bit_frame_word header_ok_def)
  next
    case 2
    let ?r = "(54 - p) div 5" and ?c = "(54 - p) mod 5"
    have r: "?r < 10" and c: "?c < 5" using 2 by simp_all
    have "5 * ?r + ?c = 54 - p" by simp
    then have i: "63 - p = 9 + 5 * ?r + ?c" and i': "54 - 5 * ?r - ?c = p" using 2 by linarith+
    have "bit (frame_word (frame_data W)) p \<longleftrightarrow> frame_row (frame_data W) ?r ! ?c"
      unfolding bit_frame_word [OF p] i by (rule em_frame_row [OF r c])
    also have "\<dots> \<longleftrightarrow> bit W p"
      unfolding accepted_row [OF row [OF r] r] using c by (simp only: row_bits_def nth_map length_upt nth_upt) (use i' in simp)
    finally show ?thesis .
  next
    case 3
    then have c: "4 - p < 4" and i: "63 - p = 59 + (4 - p)" and i': "4 - (4 - p) = p" by linarith+
    show ?thesis
      unfolding bit_frame_word [OF p] i em_frame_column [OF c] accepted_column [OF column [OF c] c] i' ..
  next
    case 4
    then show ?thesis using ok(2) em_frame_stop by (simp add: bit_frame_word)
  qed
qed

section \<open>Errors\<close>

lemma distinct_positions:
  shows distinct_row: "r < 10 \<Longrightarrow> distinct (map (\<lambda>c. 54 - 5 * r - c) [0..<5])"
    and distinct_column: "c < 4 \<Longrightarrow> distinct (map (\<lambda>r. 54 - 5 * r - c) [0..<11])"
  by (auto simp: distinct_map inj_on_def)

lemma parity_of_differ:
  "distinct ps \<Longrightarrow> parity_of (map f ps) \<noteq> parity_of (map g ps) \<longleftrightarrow> odd (card {p \<in> set ps. f p \<noteq> g p})"
proof (induction ps)
  case (Cons p ps)
  have "{q \<in> set (p # ps). f q \<noteq> g q} = (if f p \<noteq> g p then insert p {q \<in> set ps. f q \<noteq> g q} else {q \<in> set ps. f q \<noteq> g q})"
    by auto
  then show ?case using Cons by auto
qed simp

lemma odd_one_out:
  assumes "even (card K)" and "finite K" and "p \<in> K"
  shows "\<exists>q \<in> K. q \<noteq> p"
proof (rule ccontr)
  assume "\<not> (\<exists>q \<in> K. q \<noteq> p)"
  then have "K = {p}" using assms by blast
  then show False using assms by simp
qed

definition differ :: "u64 \<Rightarrow> u64 \<Rightarrow> nat set" where
  "differ V W = {p. p < 64 \<and> bit V p \<noteq> bit W p}"

text \<open>Two accepted frames differ in an even number of positions of every row and every column.\<close>

lemma accepted_differ_row:
  assumes "em4100_can_be_decoded V E" and "em4100_can_be_decoded W E'"
    and p: "p \<in> differ V W" and r: "(54 - p) div 5 = r" "r < 10" "p \<le> 54"
  shows "\<exists>q \<in> differ V W. q \<noteq> p \<and> q \<le> 54 \<and> (54 - q) div 5 = r"
proof -
  let ?ps = "map (\<lambda>c. 54 - 5 * r - c) [0..<5]"
  let ?K = "{q \<in> set ?ps. bit V q \<noteq> bit W q}"
  have "distinct ?ps" by (rule distinct_row [OF r(2)])
  moreover have "parity_of (map (bit V) ?ps) = parity_of (map (bit W) ?ps)"
    using assms(1,2) r by (simp add: can_be_decoded_iff row_bits_def comp_def)
  ultimately have even: "even (card ?K)" using parity_of_differ by blast
  have pK: "p \<in> ?K"
  proof -
    have "p = 54 - 5 * r - (54 - p) mod 5" "(54 - p) mod 5 < 5" using r by auto
    then show ?thesis using p by (auto simp: differ_def)
  qed
  have "finite ?K" by (rule finite_subset [OF Collect_restrict finite_set])
  from odd_one_out [OF even this pK] obtain q where q: "q \<in> ?K" "q \<noteq> p" by (elim bexE) (rule that)
  then have "q \<in> (\<lambda>c. 54 - 5 * r - c) ` set [0..<5]" by simp
  then obtain c where "q = 54 - 5 * r - c" "c \<in> set [0..<5]" by (rule imageE)
  then have q54: "q \<le> 54" "(54 - q) div 5 = r" using r by auto
  moreover have "q \<in> differ V W" using q(1) q54(1) unfolding differ_def by simp
  ultimately show ?thesis using q(2) by (intro bexI conjI)
qed

lemma accepted_differ_column:
  assumes "em4100_can_be_decoded V E" and "em4100_can_be_decoded W E'"
    and p: "p \<in> differ V W" and c: "(54 - p) mod 5 = c" "c < 4" "p \<le> 54"
  shows "\<exists>q \<in> differ V W. q \<noteq> p \<and> q \<le> 54 \<and> (54 - q) mod 5 = c"
proof -
  let ?ps = "map (\<lambda>r. 54 - 5 * r - c) [0..<11]"
  let ?K = "{q \<in> set ?ps. bit V q \<noteq> bit W q}"
  have "distinct ?ps" by (rule distinct_column [OF c(2)])
  moreover have "parity_of (map (bit V) ?ps) = parity_of (map (bit W) ?ps)"
    using assms(1,2) c by (simp add: can_be_decoded_iff column_bits_def comp_def)
  ultimately have even: "even (card ?K)" using parity_of_differ by blast
  have pK: "p \<in> ?K"
  proof -
    have "p = 54 - 5 * ((54 - p) div 5) - c" "(54 - p) div 5 < 11" using c by auto
    then show ?thesis using p by (auto simp: differ_def)
  qed
  have "finite ?K" by (rule finite_subset [OF Collect_restrict finite_set])
  from odd_one_out [OF even this pK] obtain q where q: "q \<in> ?K" "q \<noteq> p" by (elim bexE) (rule that)
  then have "q \<in> (\<lambda>r. 54 - 5 * r - c) ` set [0..<11]" by simp
  then obtain r where "q = 54 - 5 * r - c" "r \<in> set [0..<11]" by (rule imageE)
  then have q54: "q \<le> 54" "(54 - q) mod 5 = c" using c by auto
  moreover have "q \<in> differ V W" using q(1) q54(1) unfolding differ_def by simp
  ultimately show ?thesis using q(2) by (intro bexI conjI)
qed

lemma accepted_distance:
  assumes V: "em4100_can_be_decoded V E" and W: "em4100_can_be_decoded W E'" and few: "card (differ V W) \<le> 2"
  shows "V = W"
proof (rule ccontr)
  assume "V \<noteq> W"
  then obtain p where p: "p \<in> differ V W" by (auto simp: differ_def bit_eq_iff possible_bit_def)
  have unique: "q' = q" if "q \<in> differ V W" "q' \<in> differ V W" "x \<in> differ V W" "q \<noteq> x" "q' \<noteq> x" for q q' x
  proof (rule ccontr)
    assume "q' \<noteq> q"
    then have "card {x, q, q'} = 3" using that by auto
    moreover have "card {x, q, q'} \<le> card (differ V W)" using that by (intro card_mono) (auto simp: differ_def)
    ultimately show False using few by simp
  qed
  have range: "q \<le> 54 \<and> 1 \<le> q" if q: "q \<in> differ V W" for q
  proof -
    have "q < 55" using V W q by (auto simp: differ_def can_be_decoded_iff header_ok_def not_le [symmetric])
    moreover have "q \<noteq> 0" using V W q by (auto simp: differ_def can_be_decoded_iff intro!: gr0I)
    ultimately show ?thesis by simp
  qed
  note row = accepted_differ_row [OF V W _ refl] and column = accepted_differ_column [OF V W _ refl]
  have no_row: False if x: "x \<in> differ V W" and r: "(54 - x) div 5 < 10" for x
  proof -
    obtain q where q: "q \<in> differ V W" "q \<noteq> x" "(54 - q) div 5 = (54 - x) div 5"
      using row [OF x r] range [OF x] by blast
    then have "(54 - q) mod 5 \<noteq> (54 - x) mod 5" using range [OF x] range [OF q(1)]
      by (metis diff_diff_cancel div_mult_mod_eq)
    then consider "(54 - x) mod 5 < 4" | "(54 - q) mod 5 < 4" by linarith
    then show False
    proof cases
      case 1
      then obtain y where "y \<in> differ V W" "y \<noteq> x" "(54 - y) mod 5 = (54 - x) mod 5" using column [OF x] range [OF x] by blast
      then show False using unique [OF q(1) _ x q(2)] \<open>(54 - q) mod 5 \<noteq> (54 - x) mod 5\<close> by blast
    next
      case 2
      then obtain y where "y \<in> differ V W" "y \<noteq> q" "(54 - y) mod 5 = (54 - q) mod 5" using column [OF q(1)] range [OF q(1)] by blast
      then show False using unique [OF x _ q(1) q(2) [symmetric]] \<open>(54 - q) mod 5 \<noteq> (54 - x) mod 5\<close> by metis
    qed
  qed
  then have top: "(54 - x) div 5 = 10" if "x \<in> differ V W" for x using that range [OF that] by fastforce
  have "(54 - p) mod 5 < 4" using top [OF p] range [OF p] by presburger
  then obtain q where q: "q \<in> differ V W" "q \<noteq> p" "(54 - q) mod 5 = (54 - p) mod 5" using column [OF p] range [OF p] by blast
  then show False using top [OF p] top [OF q(1)] range [OF p] range [OF q(1)] by (metis diff_diff_cancel div_mult_mod_eq)
qed

section \<open>Recognising the frame in the stream\<close>

text \<open>The frame repeated, read from its bit \<open>k\<close> on.\<close>

definition cyc :: "u8 list \<Rightarrow> nat \<Rightarrow> nat \<Rightarrow> bool list" where
  "cyc d k n = map (\<lambda>i. em_frame d ! (i mod 64)) [k..<k + n]"

lemma length_cyc [simp]: "length (cyc d k n) = n"
  by (simp add: cyc_def)

lemma cyc_nth: "i < n \<Longrightarrow> cyc d k n ! i = em_frame d ! ((k + i) mod 64)"
  by (simp add: cyc_def)

lemma cyc_append: "cyc d k (m + n) = cyc d k m @ cyc d (k + m) n"
  by (rule nth_equalityI) (auto simp: nth_append cyc_nth)

lemma cyc_whole: "k mod 64 = 0 \<Longrightarrow> cyc d k 64 = em_frame d"
proof (rule nth_equalityI)
  fix i assume "k mod 64 = 0" and "i < length (cyc d k 64)"
  then have "(k + i) mod 64 = i" by (metis add_0 length_cyc mod_add_left_eq mod_less)
  then show "cyc d k 64 ! i = em_frame d ! i" using \<open>i < length (cyc d k 64)\<close> by (simp add: cyc_nth)
qed simp

text \<open>A header of nine ones and a zero at the stop bit are at no other place of the stream.\<close>

lemma frame_found_once:
  assumes header: "\<And>j. j < 9 \<Longrightarrow> em_frame d ! ((k + j) mod 64)" and stop: "\<not> em_frame d ! ((k + 63) mod 64)"
  shows "k mod 64 = 0"
proof (rule ccontr)
  define q where "q = k mod 64"
  assume "k mod 64 \<noteq> 0"
  then have q: "0 < q" "q < 64" by (simp_all add: q_def)
  have at: "(k + j) mod 64 = (q + j) mod 64" for j unfolding q_def by (simp add: mod_add_left_eq)
  have ones: "em_frame d ! i" if "q \<le> i" "i \<le> q + 8" "i < 64" for i
    using header [of "i - q"] that unfolding at by simp
  consider "q \<le> 9" | "9 < q" "q \<le> 54" | "54 < q" by linarith
  then show False
  proof cases
    case 1
    then have "(q + 63) mod 64 = q - 1" using q by (simp add: mod_if)
    moreover have "em_frame d ! (q - 1)" using 1 q by (intro em_frame_header) linarith
    ultimately show False using stop unfolding at by simp
  next
    case 2
    define r where "r = (q - 5) div 5"
    have r: "r < 10" "q \<le> 9 + 5 * r" "13 + 5 * r \<le> q + 8" using 2 unfolding r_def by linarith+
    have "frame_row d r ! c" if c: "c < 5" for c
    proof -
      have "em_frame d ! (9 + 5 * r + c)" using r c by (intro ones) linarith+
      then show ?thesis unfolding em_frame_row [OF r(1) c] .
    qed
    then have "frame_row d r = replicate 5 True" by (intro nth_equalityI) simp_all
    then have "parity_of (frame_row d r)" by (simp add: numeral_eq_Suc)
    then show False using parity_of_row by blast
  next
    case 3
    then show False using ones [of 63] em_frame_stop q by simp
  qed
qed

text \<open>The two registers of the decoder are one shift register of 128 bits.\<close>

definition accepted :: "bool list \<Rightarrow> bool" where
  "accepted R = em4100_can_be_decoded (word_of_bits (take 64 R)) (word_of_bits (drop 64 R))"

lemma header_ok_bits: "length bs = 64 \<Longrightarrow> header_ok (word_of_bits bs) \<longleftrightarrow> (\<forall>j < 9. bs ! j)"
proof -
  assume l: "length bs = 64"
  have "bs ! j" if "header_ok (word_of_bits bs)" "j < 9" for j
  proof -
    have "55 \<le> 63 - j \<and> 63 - j < 64" using that(2) by linarith
    then have "bit (word_of_bits bs :: u64) (63 - j)" using that(1) unfolding header_ok_def by blast
    then show ?thesis using that(2) l by (simp add: bit_word_of_bits)
  qed
  then show ?thesis using l by (auto simp: header_ok_def bit_word_of_bits)
qed

lemma accepted_cyc: "accepted (cyc d k 128) \<longleftrightarrow> k mod 64 = 0"
proof
  have split: "take 64 (cyc d k 128) = cyc d k 64" "drop 64 (cyc d k 128) = cyc d (k + 64) 64"
    using cyc_append [of d k 64 64] by simp_all
  assume "accepted (cyc d k 128)"
  then have h: "header_ok (word_of_bits (cyc d k 64))" and s: "\<not> bit (word_of_bits (cyc d k 64) :: u64) 0"
    unfolding accepted_def split can_be_decoded_iff by simp_all
  show "k mod 64 = 0"
  proof (rule frame_found_once)
    show "em_frame d ! ((k + j) mod 64)" if "j < 9" for j
      using h that by (simp add: header_ok_bits cyc_nth)
    show "\<not> em_frame d ! ((k + 63) mod 64)" using s by (simp add: bit_word_of_bits cyc_nth)
  qed
next
  assume k: "k mod 64 = 0"
  have split: "take 64 (cyc d k 128) = em_frame d" "drop 64 (cyc d k 128) = em_frame d"
    using cyc_append [of d k 64 64] cyc_whole [of k d] cyc_whole [of "k + 64" d] k by simp_all
  have "header_ok (frame_word d)" by (simp add: header_ok_bits em_frame_header)
  then show "accepted (cyc d k 128)" unfolding accepted_def split by (rule frame_word_accepted)
qed

lemma decoded_cyc: "k mod 64 = 0 \<Longrightarrow> length d = 5 \<Longrightarrow> frame_data (word_of_bits (take 64 (cyc d k 128))) = d"
  using cyc_append [of d k 64 64] cyc_whole [of k d] frame_data_frame [of d] by simp

text \<open>The bytes that the decoder reports for a stream of bits, the register holding \<open>R\<close> before.\<close>

fun em_reports :: "bool list \<Rightarrow> bool list \<Rightarrow> u8 list list" where
  "em_reports R [] = []"
| "em_reports R (b # bs) =
     (let R = tl R @ [b] in (if accepted R then [frame_data (word_of_bits (take 64 R))] else []) @ em_reports R bs)"

lemma em_reports_append: "R \<noteq> [] \<Longrightarrow> em_reports R (xs @ ys) = em_reports R xs @ em_reports (drop (length xs) (R @ xs)) ys"
proof (induction xs arbitrary: R)
  case (Cons x xs)
  have "drop (length (x # xs)) (R @ x # xs) = drop (length xs) ((tl R @ [x]) @ xs)"
    using Cons.prems by (cases R) simp_all
  then show ?case using Cons.IH [of "tl R @ [x]"] by (simp add: Let_def)
qed simp

lemma cyc_Suc: "cyc d k (Suc n) = em_frame d ! (k mod 64) # cyc d (k + 1) n"
  using upt_conv_Cons [of k "k + Suc n"] by (simp add: cyc_def)

lemma tl_cyc: "tl (cyc d k 128) @ [em_frame d ! ((k + 128) mod 64)] = cyc d (k + 1) 128"
proof -
  have "cyc d k 128 = em_frame d ! (k mod 64) # cyc d (k + 1) 127" using cyc_Suc [of d k 127] by simp
  moreover have "cyc d (k + 1) 128 = cyc d (k + 1) 127 @ [em_frame d ! ((k + 128) mod 64)]"
    using cyc_append [of d "k + 1" 127 1] cyc_Suc [of d "k + 128" 0] by (simp add: add.commute) (simp add: cyc_def)
  ultimately show ?thesis by simp
qed

lemma em_reports_cyc:
  "length d = 5 \<Longrightarrow> em_reports (cyc d k 128) (cyc d (k + 128) n) = replicate ((k + n) div 64 - k div 64) d"
proof (induction n arbitrary: k)
  case (Suc n)
  have "cyc d (k + 128) (Suc n) = em_frame d ! ((k + 128) mod 64) # cyc d (k + 1 + 128) n"
    using cyc_Suc [of d "k + 128" n] by (simp only: add.assoc add.commute [of 128])
  then have "em_reports (cyc d k 128) (cyc d (k + 128) (Suc n)) =
      (if (k + 1) mod 64 = 0 then [d] else []) @ replicate ((k + 1 + n) div 64 - (k + 1) div 64) d"
    using Suc.IH [of "k + 1"] Suc.prems decoded_cyc [of "k + 1" d]
    by (simp only: em_reports.simps Let_def tl_cyc accepted_cyc) simp
  also have "\<dots> = replicate ((k + Suc n) div 64 - k div 64) d"
  proof (cases "(k + 1) mod 64 = 0")
    case True
    then have "(k + 1) div 64 = Suc (k div 64)" by (simp add: div_Suc)
    moreover have "(k + 1) div 64 \<le> (k + 1 + n) div 64" by (intro div_le_mono) simp
    ultimately have "(k + Suc n) div 64 - k div 64 = Suc ((k + 1 + n) div 64 - (k + 1) div 64)"
      unfolding add_Suc_right add.assoc plus_1_eq_Suc by linarith
    then show ?thesis using True by simp
  next
    case False
    then have "(k + 1) div 64 = k div 64" by (simp add: div_Suc)
    then show ?thesis using False by simp
  qed
  finally show ?case .
qed (simp add: cyc_def)

lemma em_reports_quiet:
  "length R = 128 \<Longrightarrow> length xs \<le> n \<Longrightarrow> n \<le> 127 \<Longrightarrow> (\<And>i. i \<le> n \<Longrightarrow> \<not> R ! i) \<Longrightarrow> em_reports R xs = []"
proof (induction xs arbitrary: R n)
  case (Cons x xs)
  let ?R = "tl R @ [x]"
  have "1 \<le> n" using Cons.prems by simp
  then have "\<not> ?R ! 0" using Cons.prems(1,4) by (simp add: nth_append nth_tl)
  then have "\<not> take 64 ?R ! 0" by (simp only: nth_take zero_less_numeral not_False_eq_True)
  then have "\<not> header_ok (word_of_bits (take 64 ?R))" using Cons.prems(1) by (subst header_ok_bits) (auto intro!: exI [of _ 0])
  then have "\<not> accepted ?R" unfolding accepted_def can_be_decoded_iff by blast
  moreover have "em_reports ?R xs = []"
    using Cons.prems by (intro Cons.IH [of _ "n - 1"]) (auto simp: nth_append nth_tl)
  ultimately show ?case by (simp add: Let_def)
qed simp

text \<open>From an empty register, and from one with anything in it.\<close>

lemma em_reports_fresh:
  "length d = 5 \<Longrightarrow> em_reports (replicate 128 False) (cyc d 1 (128 + n)) = replicate ((1 + n) div 64) d"
proof -
  assume d: "length d = 5"
  have "cyc d 1 (128 + n) = (cyc d 1 127 @ [em_frame d ! 0]) @ cyc d (1 + 128) n"
    using cyc_append [of d 1 128 n] cyc_append [of d 1 127 1] by (simp add: cyc_def)
  moreover have "cyc d 1 127 @ [em_frame d ! 0] = cyc d 1 128" using cyc_append [of d 1 127 1] by (simp add: cyc_def)
  moreover have "em_reports (replicate 128 False) (cyc d 1 127) = []" by (rule em_reports_quiet [of _ _ 127]) auto
  moreover have "em_reports (drop 127 (replicate 128 False @ cyc d 1 127)) [em_frame d ! 0] = []"
    by (simp add: \<open>cyc d 1 127 @ [em_frame d ! 0] = cyc d 1 128\<close> [simplified] accepted_cyc)
  ultimately show ?thesis
    using em_reports_cyc [OF d, of 1 n] by (simp add: em_reports_append accepted_cyc)
qed

lemma em_reports_any:
  assumes "length d = 5" and "length R = 128" and "k mod 64 = 1"
  shows "\<exists>early. em_reports R (junk @ cyc d k (128 + n)) = early @ replicate ((1 + n) div 64) d"
proof -
  have "junk @ cyc d k (128 + n) = (junk @ cyc d k 128) @ cyc d (k + 128) n" by (simp add: cyc_append)
  moreover have "drop (length (junk @ cyc d k 128)) (R @ junk @ cyc d k 128) = cyc d k 128" using assms(2) by simp
  moreover have "(k + n) div 64 - k div 64 = (1 + n) div 64"
  proof -
    have "k = 64 * (k div 64) + 1" using assms(3) by (metis mult_div_mod_eq)
    then show ?thesis by (metis add.assoc diff_add_inverse div_mult_self4 zero_neq_numeral)
  qed
  ultimately have "em_reports R (junk @ cyc d k (128 + n)) = em_reports R (junk @ cyc d k 128) @ replicate ((1 + n) div 64) d"
    using em_reports_cyc [OF assms(1), of k n] assms(2) by (subst \<open>junk @ _ = _\<close>, subst em_reports_append) auto
  then show ?thesis by blast
qed

end
