(* ===== verification/Em4100_Transfer.thy ===== *)
theory Em4100_Transfer
  imports Em4100_Facts
begin

text \<open>
  The card protocol end to end: the decoder refines the shift register of 128 bits behind the
  Manchester decoder, the encoder sends the frame over and over, and the decoder finds the frame in
  what it hears.
\<close>

section \<open>The decoder refines the shift register\<close>

text \<open>The worker's loop: pulses are fed one by one, the bytes read when the decoder reports a frame.\<close>

fun em_feed :: "protocol_em4100 \<Rightarrow> (bool \<times> nat) list \<Rightarrow> (u8 list list \<times> protocol_em4100) res" where
  "em_feed proto [] = Inr ([], proto)"
| "em_feed proto ((level, duration) # ps) =
     bindr (protocol_em4100_decoder_feed proto level duration) (\<lambda>(found, proto).
     bindr (em_feed proto ps) (\<lambda>(reports, proto').
       Inr ((if found then [protocol_em4100_get_data proto] else []) @ reports, proto')))"

definition holds :: "bool list \<Rightarrow> protocol_em4100 \<Rightarrow> bool" where
  "holds R proto \<longleftrightarrow> length R = 128 \<and> encoded_data proto = word_of_bits (take 64 R) \<and>
     encoded_epilogue proto = word_of_bits (drop 64 R) \<and> length (em_data proto) = 5"

text \<open>The event of a pulse, \<open>None\<close> when it is outside both windows: it is then ignored.\<close>

definition pulse_event :: "nat \<Rightarrow> bool \<times> nat \<Rightarrow> manchester_event" where
  "pulse_event clock p = em_event (em4100_zeroed clock) (fst p) (snd p)"

lemma em_event_clock: "em_event proto level duration = pulse_event (clock_per_bit proto) (level, duration)"
  by (simp add: pulse_event_def em_event_def em4100_zeroed_def protocol_em4100_get_time_divisor_def
      protocol_em4100_get_short_time_low_def protocol_em4100_get_short_time_high_def
      protocol_em4100_get_long_time_low_def protocol_em4100_get_long_time_high_def)

lemma word_of_bits_tl: "64 < length bs \<Longrightarrow> (word_of_bits (tl bs) :: u64) = word_of_bits bs"
  by (rule bit_word_eqI) (auto simp: bit_word_of_bits nth_tl Suc_diff_Suc)

lemma shift_registers:
  assumes "length R = 128"
  shows "push_bit 1 (word_of_bits (take 64 R)) OR (drop_bit 63 (word_of_bits (drop 64 R)) AND 1) =
      (word_of_bits (take 64 (tl R @ [b])) :: u64)"
    and "push_bit 1 (word_of_bits (drop 64 R)) OR of_bool b = (word_of_bits (drop 64 (tl R @ [b])) :: u64)"
proof -
  have "bit (word_of_bits (drop 64 R) :: u64) 63 \<longleftrightarrow> R ! 64" using assms by (simp add: bit_word_of_bits)
  then have "push_bit 1 (word_of_bits (take 64 R)) OR (drop_bit 63 (word_of_bits (drop 64 R)) AND 1) =
      (word_of_bits (take 64 R @ [R ! 64]) :: u64)"
    unfolding drop_and_one word_of_bits_snoc by simp
  also have "take 64 R @ [R ! 64] = take 65 R" using assms take_Suc_conv_app_nth [of 64 R] by simp
  also have "(word_of_bits (take 65 R) :: u64) = word_of_bits (tl (take 65 R))" using assms by (subst word_of_bits_tl) auto
  also have "tl (take 65 R) = take 64 (tl R @ [b])" using assms by (simp add: tl_take)
  finally show "push_bit 1 (word_of_bits (take 64 R)) OR (drop_bit 63 (word_of_bits (drop 64 R)) AND 1) =
      (word_of_bits (take 64 (tl R @ [b])) :: u64)" .
  have "push_bit 1 (word_of_bits (drop 64 R)) OR of_bool b = (word_of_bits (drop 64 R @ [b]) :: u64)"
    by (simp only: word_of_bits_snoc)
  also have "\<dots> = word_of_bits (tl (drop 64 R @ [b]))" using assms by (subst word_of_bits_tl) auto
  also have "tl (drop 64 R @ [b]) = drop 64 (tl R @ [b])" using assms by (simp add: tl_append drop_tl split: list.split)
  finally show "push_bit 1 (word_of_bits (drop 64 R)) OR of_bool b = (word_of_bits (drop 64 (tl R @ [b])) :: u64)" .
qed

lemma feed_bit:
  assumes h: "holds R proto" and e: "em_event proto level duration = e" "e \<noteq> EventReset"
    and m: "manchester_advance (decoder_manchester_state proto) e = (Some b, st)"
  shows "\<exists>proto'. protocol_em4100_decoder_feed proto level duration = Inr (accepted (tl R @ [b]), proto') \<and>
    holds (tl R @ [b]) proto' \<and> decoder_manchester_state proto' = st \<and> clock_per_bit proto' = clock_per_bit proto \<and>
    (accepted (tl R @ [b]) \<longrightarrow> em_data proto' = frame_data (word_of_bits (take 64 (tl R @ [b]))))"
proof -
  let ?R = "tl R @ [b]"
  define q where "q = proto\<lparr>decoder_manchester_state := st, encoded_data := word_of_bits (take 64 ?R),
    encoded_epilogue := word_of_bits (drop 64 ?R)\<rparr>"
  have R: "length R = 128" "encoded_data proto = word_of_bits (take 64 R)" "encoded_epilogue proto = word_of_bits (drop 64 R)"
    and d: "length (em_data proto) = 5"
    using h by (simp_all add: holds_def)
  have "protocol_em4100_decoder_feed proto level duration =
      (if accepted ?R then bindr (em4100_decode (word_of_bits (take 64 ?R)) (em_data proto)) (\<lambda>d. Inr (True, q\<lparr>em_data := d\<rparr>))
       else Inr (False, q))"
    using shift_registers [OF R(1), of b] e
    unfolding protocol_em4100_decoder_feed_def Let_def e(1) m prod.case option.case accepted_def q_def
    by (simp add: R(2,3))
  also have "\<dots> = Inr (accepted ?R, if accepted ?R then q\<lparr>em_data := frame_data (word_of_bits (take 64 ?R))\<rparr> else q)"
    by (simp add: em4100_decode_eq [OF d])
  finally have feed: "protocol_em4100_decoder_feed proto level duration =
      Inr (accepted ?R, if accepted ?R then q\<lparr>em_data := frame_data (word_of_bits (take 64 ?R))\<rparr> else q)" .
  show ?thesis
    unfolding feed using R(1) d
    by (intro exI [of _ "if accepted ?R then q\<lparr>em_data := frame_data (word_of_bits (take 64 ?R))\<rparr> else q"] conjI)
      (simp_all add: holds_def q_def)
qed

lemma feed_nothing:
  assumes e: "em_event proto level duration = e"
    and m: "e \<noteq> EventReset \<Longrightarrow> manchester_advance (decoder_manchester_state proto) e = (None, st)"
  shows "protocol_em4100_decoder_feed proto level duration =
    Inr (False, if e = EventReset then proto else proto\<lparr>decoder_manchester_state := st\<rparr>)"
  using m unfolding protocol_em4100_decoder_feed_def Let_def e by simp

definition heard_events :: "nat \<Rightarrow> (bool \<times> nat) list \<Rightarrow> manchester_event list" where
  "heard_events clock ps = filter (\<lambda>e. e \<noteq> EventReset) (map (pulse_event clock) ps)"

lemma em_feed_refines:
  "holds R proto \<Longrightarrow> \<exists>proto'. em_feed proto ps =
     Inr (em_reports R (fst (manchester_decode (decoder_manchester_state proto) (heard_events (clock_per_bit proto) ps))), proto')"
proof (induction ps arbitrary: R proto)
  case (Cons p ps)
  obtain level duration where p: "p = (level, duration)" by force
  define e where "e = em_event proto level duration"
  have clk: "pulse_event (clock_per_bit proto) p = e" unfolding e_def em_event_clock p ..
  obtain d st where m: "manchester_advance (decoder_manchester_state proto) e = (d, st)" by force
  show ?case
  proof (cases "e = EventReset \<or> d = None")
    case True
    define q where "q = (if e = EventReset then proto else proto\<lparr>decoder_manchester_state := st\<rparr>)"
    have "protocol_em4100_decoder_feed proto level duration = Inr (False, q)"
      unfolding q_def by (rule feed_nothing [OF e_def [symmetric]]) (use m True in simp)
    moreover have "holds R q" "clock_per_bit q = clock_per_bit proto" using Cons.prems by (simp_all add: q_def holds_def)
    moreover have "fst (manchester_decode (decoder_manchester_state proto) (heard_events (clock_per_bit proto) (p # ps))) =
        fst (manchester_decode (decoder_manchester_state q) (heard_events (clock_per_bit proto) ps))"
      using True m by (auto simp: heard_events_def clk q_def decode_Cons simp del: manchester_decode.simps)
    ultimately show ?thesis using Cons.IH [of R q] by (auto simp: p)
  next
    case False
    then obtain b where b: "d = Some b" and e: "e \<noteq> EventReset" by blast
    obtain q where q: "protocol_em4100_decoder_feed proto level duration = Inr (accepted (tl R @ [b]), q)"
      "holds (tl R @ [b]) q" "decoder_manchester_state q = st" "clock_per_bit q = clock_per_bit proto"
      "accepted (tl R @ [b]) \<longrightarrow> em_data q = frame_data (word_of_bits (take 64 (tl R @ [b])))"
      using feed_bit [OF Cons.prems e_def [symmetric] e] m unfolding b by blast
    have "fst (manchester_decode (decoder_manchester_state proto) (heard_events (clock_per_bit proto) (p # ps))) =
        b # fst (manchester_decode (decoder_manchester_state q) (heard_events (clock_per_bit q) ps))"
      using e m b q by (simp add: heard_events_def clk decode_Cons del: manchester_decode.simps)
    moreover obtain q' where "em_feed q ps =
        Inr (em_reports (tl R @ [b]) (fst (manchester_decode (decoder_manchester_state q) (heard_events (clock_per_bit q) ps))), q')"
      using Cons.IH [OF q(2)] by (elim exE) (rule that)
    ultimately show ?thesis
      using q(1,5) by (intro exI [of _ q']) (simp add: p protocol_em4100_get_data_def Let_def)
  qed
qed (simp add: heard_events_def)

section \<open>The encoder sends the frame over and over\<close>

definition half_bit :: "u8 list \<Rightarrow> nat \<Rightarrow> bool" where
  "half_bit d j \<longleftrightarrow> em_frame d ! ((j div 2) mod 64) \<noteq> odd j"

definition sending :: "u8 list \<Rightarrow> nat \<Rightarrow> nat \<Rightarrow> protocol_em4100 \<Rightarrow> bool" where
  "sending d clock i e \<longleftrightarrow> encoded_data e = frame_word d \<and> clock_per_bit e = clock \<and>
     encoded_data_index e = (i div 2) mod 64 \<and> encoded_polarity e = even i"

lemma yield_step:
  assumes s: "sending d clock i e" and clock: "clock < 256"
  shows "\<exists>e'. protocol_em4100_encoder_yield e = (Pulse (half_bit d i) (clock div 2), e') \<and> sending d clock (Suc i) e'"
proof -
  let ?k = "(i div 2) mod 64"
  have e: "encoded_data e = frame_word d" "clock_per_bit e = clock" "encoded_data_index e = ?k" "encoded_polarity e = even i"
    using s by (simp_all add: sending_def)
  have "drop_bit (63 - ?k) (encoded_data e) AND 1 \<noteq> 0 \<longleftrightarrow> em_frame d ! ?k"
    unfolding e drop_and_one by (simp add: bit_frame_word)
  moreover have "level_duration_make l (clock div 2) = Pulse l (clock div 2)" for l using clock by simp
  moreover have "(if 64 \<le> inc8 ?k then 0 else inc8 ?k) = (Suc i div 2) mod 64" if "odd i"
  proof -
    have "Suc i div 2 = Suc (i div 2)" using that by simp
    moreover have "?k < 64" by simp
    ultimately show ?thesis by (auto simp: mod_Suc simp del: mod_less_divisor)
  qed
  ultimately show ?thesis
    unfolding protocol_em4100_encoder_yield_def Let_def e
    by (cases "even i") (auto simp: half_bit_def sending_def e)
qed

fun em_yields :: "nat \<Rightarrow> protocol_em4100 \<Rightarrow> level_duration list" where
  "em_yields 0 e = []"
| "em_yields (Suc n) e = (let (p, e) = protocol_em4100_encoder_yield e in p # em_yields n e)"

lemma em_yields_eq:
  "sending d clock i e \<Longrightarrow> clock < 256 \<Longrightarrow> em_yields n e = map (\<lambda>b. Pulse b (clock div 2)) (map (half_bit d) [i..<i + n])"
proof (induction n arbitrary: i e)
  case (Suc n)
  obtain e' where "protocol_em4100_encoder_yield e = (Pulse (half_bit d i) (clock div 2), e')" "sending d clock (Suc i) e'"
    using yield_step [OF Suc.prems] by blast
  moreover have "[i..<i + Suc n] = i # [Suc i..<Suc i + n]" by (simp add: upt_conv_Cons)
  ultimately show ?case using Suc.IH [of "Suc i" e'] Suc.prems(2) by simp
qed simp

lemma encoder_started:
  assumes "protocol_em4100_encoder_start (tx\<lparr>em_data := d\<rparr>) = Inr (ok, e)" and "length d = 5"
  shows "sending d (clock_per_bit tx) 0 e"
  using assms encoder_start_eq [of "tx\<lparr>em_data := d\<rparr>"] by (auto simp: sending_def)

text \<open>The two halves of every bit.\<close>

definition flips :: "bool list \<Rightarrow> bool list" where
  "flips bs = concat (map (\<lambda>b. [b, \<not> b]) bs)"

lemma flips_simps [simp]: "flips [] = []" "flips (b # bs) = b # (\<not> b) # flips bs" "flips (as @ bs) = flips as @ flips bs"
  by (simp_all add: flips_def)

lemma half_bits_flips: "map (half_bit d) [2 * k..<2 * (k + n)] = flips (cyc d k n)"
proof (induction n)
  case (Suc n)
  have "[2 * k..<2 * (k + Suc n)] = [2 * k..<2 * (k + n)] @ [2 * (k + n), 2 * (k + n) + 1]" by simp
  moreover have "cyc d k (Suc n) = cyc d k n @ [em_frame d ! ((k + n) mod 64)]" by (simp add: cyc_def)
  ultimately show ?case using Suc by (simp add: half_bit_def)
qed (simp add: cyc_def)

section \<open>Hearing the pulses\<close>

fun run_event :: "bool \<times> nat \<Rightarrow> manchester_event" where
  "run_event (l, n) = (if n = 1 then if l then EventShortLow else EventShortHigh else if l then EventLongLow else EventLongHigh)"

lemma run_event_half: "run_event (b, 1) = first_half b" "run_event (\<not> b, 1) = second_half b"
  by (simp_all add: first_half_def second_half_def)

lemma runs_flips_Cons:
  "runs ((\<not> p) # flips (b # bs)) = (if p = b then [(\<not> b, 1), (b, 1)] else [(b, 2)]) @ runs ((\<not> b) # flips bs)"
proof -
  have r: "runs (b # (\<not> b) # flips bs) = (b, 1) # runs ((\<not> b) # flips bs)" by (rule runs_change) simp
  show ?thesis
  proof (cases "p = b")
    case True
    then show ?thesis using runs_change [of "\<not> b" b "(\<not> b) # flips bs"] r by simp
  next
    case False
    then have "(\<not> p) = b" by blast
    then show ?thesis using runs_repeat [OF r] False by (simp add: numeral_2_eq_2)
  qed
qed

lemma runs_flips: "map run_event (runs ((\<not> p) # flips bs)) = pulses_from p bs @ [second_half (last (p # bs))]"
proof (induction bs arbitrary: p)
  case (Cons b bs)
  show ?case unfolding runs_flips_Cons map_append Cons [of b] by (cases b; cases p) (simp_all add: second_half_def)
qed (simp add: second_half_def)

lemma runs_flips_short: "\<forall>x \<in> set (runs ((\<not> p) # flips bs)). snd x = 1 \<or> snd x = 2"
proof (induction bs arbitrary: p)
  case (Cons b bs)
  show ?case using Cons [of b] unfolding runs_flips_Cons by (auto simp del: runs.simps)
qed simp

text \<open>
  A pulse of \<open>n\<close> carrier periods of 8 microseconds is heard with a jitter below the tolerance of the
  card's bit rate.
\<close>

definition near :: "nat \<Rightarrow> bool \<times> nat \<Rightarrow> bool \<times> nat \<Rightarrow> bool" where
  "near clock sent heard \<longleftrightarrow> fst heard = fst sent \<and>
     8 * snd sent < snd heard + 100 div (64 div clock) \<and> snd heard < 8 * snd sent + 100 div (64 div clock)"

definition em_heard :: "nat \<Rightarrow> level_duration list \<Rightarrow> (bool \<times> nat) list \<Rightarrow> bool" where
  "em_heard clock sent heard \<longleftrightarrow> list_all2 (near clock) (merged sent) heard"

lemma near_event:
  assumes "clock \<in> {16, 32, 64}" and "snd x = 1 \<or> snd x = 2" and "near clock (fst x, snd x * (clock div 2)) p"
  shows "pulse_event clock p = run_event x"
  using assms
  by (cases x; cases p)
    (auto simp: near_def pulse_event_def em_event_def em4100_zeroed_def protocol_em4100_get_time_divisor_def
      protocol_em4100_get_short_time_low_def protocol_em4100_get_short_time_high_def
      protocol_em4100_get_long_time_low_def protocol_em4100_get_long_time_high_def
      EM_READ_SHORT_TIME_BASE_def EM_READ_LONG_TIME_BASE_def EM_READ_JITTER_TIME_BASE_def)

lemma heard_runs:
  assumes "clock \<in> {16, 32, 64}" and "\<forall>x \<in> set (runs bs). snd x = 1 \<or> snd x = 2"
    and "em_heard clock (map (\<lambda>b. Pulse b (clock div 2)) bs) ps"
  shows "heard_events clock ps = map run_event (runs bs)"
proof -
  have "list_all2 (\<lambda>x. near clock (fst x, snd x * (clock div 2))) (runs bs) ps"
    using assms(3) by (simp add: em_heard_def merged_slots list_all2_map1 case_prod_beta)
  then have "map (pulse_event clock) ps = map run_event (runs bs)"
    using near_event [OF assms(1)] assms(2)
    by (intro nth_equalityI) (auto simp: list_all2_conv_all_nth simp del: run_event.simps)
  moreover have "run_event x \<noteq> EventReset" for x by (cases x) simp
  ultimately show ?thesis by (simp add: heard_events_def comp_def filter_True)
qed

lemma split_pulses:
  "p # bs = xs @ [False, True] @ ys \<Longrightarrow> \<exists>pre. pulses_from p bs = pre @ EventLongLow # pulses_from True ys"
proof (cases xs)
  case (Cons x zs)
  assume "p # bs = xs @ [False, True] @ ys"
  then have bs: "bs = (zs @ [False]) @ True # ys" using Cons by simp
  show ?thesis unfolding bs pulses_append [of p "zs @ [False]"] by (intro exI [of _ "pulses_from p (zs @ [False])"]) simp
qed (auto intro: exI [of _ "[]"])

lemma cyc_boundary:
  assumes "k < 64" and "2 \<le> N"
  shows "cyc d k (64 * N - k) = cyc d k (63 - k) @ [False, True] @ cyc d 65 (64 * N - 65)"
proof -
  have "64 * N - k = (63 - k) + (2 + (64 * N - 65))" "k + (63 - k) = 63" using assms by simp_all
  moreover have "cyc d 63 2 = [False, True]"
    using cyc_Suc [of d 63 1] cyc_Suc [of d 64 0] em_frame_stop [of d] em_frame_header [of 0 d]
    by (simp add: numeral_2_eq_2) (simp add: cyc_def)
  ultimately show ?thesis by (simp only: cyc_append) simp
qed

text \<open>Whatever the phase, what is heard from half-bit \<open>m\<close> on synchronises the Manchester decoder.\<close>

lemma heard_synchronised:
  assumes clock: "clock \<in> {16, 32, 64}" and m: "m < 128" and N: "2 \<le> N"
    and h: "em_heard clock (map (\<lambda>b. Pulse b (clock div 2)) (map (half_bit d) [m..<128 * N])) ps"
  shows "\<exists>junk. fst (manchester_decode s (heard_events clock ps)) = junk @ cyc d 65 (64 * N - 65)"
proof -
  define k where "k = m div 2"
  have k: "k < 64" using m by (simp add: k_def)
  have "length (cyc d k (64 * N - k)) \<noteq> 0" using k N by simp
  then obtain p bs where pbs: "cyc d k (64 * N - k) = p # bs" 
    unfolding length_0_conv neq_Nil_conv by (elim exE) (rule that)
  have half: "map (half_bit d) [2 * k..<128 * N] = p # (\<not> p) # flips bs"
    using half_bits_flips [of d k "64 * N - k"] k N pbs by simp
  have "map (half_bit d) [m..<128 * N] = p # (\<not> p) # flips bs \<or> map (half_bit d) [m..<128 * N] = (\<not> p) # flips bs"
  proof (cases "even m")
    case True
    then show ?thesis using half by (simp add: k_def)
  next
    case False
    then have "[2 * k..<128 * N] = 2 * k # [m..<128 * N]" using m N by (simp add: k_def upt_conv_Cons)
    then show ?thesis using half by simp
  qed
  then have "\<exists>lead. heard_events clock ps = lead @ pulses_from p bs @ [second_half (last (p # bs))]"
  proof
    assume "map (half_bit d) [m..<128 * N] = p # (\<not> p) # flips bs"
    moreover have "runs (p # (\<not> p) # flips bs) = (p, 1) # runs ((\<not> p) # flips bs)" by (rule runs_change) simp
    ultimately have "heard_events clock ps = run_event (p, 1) # map run_event (runs ((\<not> p) # flips bs))"
      using heard_runs [OF clock _ h] runs_flips_short [where p = p and bs = bs] by (simp del: runs.simps run_event.simps)
    then show ?thesis unfolding runs_flips by (intro exI [of _ "[run_event (p, 1)]"]) simp
  next
    assume "map (half_bit d) [m..<128 * N] = (\<not> p) # flips bs"
    then have "heard_events clock ps = map run_event (runs ((\<not> p) # flips bs))"
      using heard_runs [OF clock _ h] runs_flips_short [where p = p and bs = bs] by (simp del: runs.simps run_event.simps)
    then show ?thesis unfolding runs_flips by (intro exI [of _ "[]"]) simp
  qed
  then obtain lead where lead: "heard_events clock ps = lead @ pulses_from p bs @ [second_half (last (p # bs))]"
    by (elim exE) (rule that)
  have split: "p # bs = cyc d k (63 - k) @ [False, True] @ cyc d 65 (64 * N - 65)"
    using pbs cyc_boundary [OF k N, of d] by simp
  then obtain pre where pre: "pulses_from p bs = pre @ EventLongLow # pulses_from True (cyc d 65 (64 * N - 65))"
    using split_pulses [OF split] by (elim exE) (rule that)
  have "last (p # bs) = last (True # cyc d 65 (64 * N - 65))" unfolding split by simp
  then have "heard_events clock ps = (lead @ pre) @ EventLongLow # pulses_from True (cyc d 65 (64 * N - 65)) @
      [second_half (last (True # cyc d 65 (64 * N - 65)))]"
    unfolding lead pre by simp
  then show ?thesis using decode_synchronised [of s "lead @ pre"] by (simp only:)
qed

text \<open>From the first half-bit of a frame on, a fresh decoder misses the first bit only.\<close>

lemma heard_from_start:
  assumes clock: "clock \<in> {16, 32, 64}" and N: "1 \<le> N"
    and h: "em_heard clock (map (\<lambda>b. Pulse b (clock div 2)) (map (half_bit d) [0..<128 * N])) ps"
  shows "fst (manchester_decode Mid1 (heard_events clock ps)) = cyc d 1 (64 * N - 1)"
proof -
  let ?bs = "cyc d 1 (64 * N - 1)"
  have "cyc d 0 (64 * N) = True # ?bs"
    using cyc_Suc [of d 0 "64 * N - 1"] em_frame_header [of 0 d] N by simp
  then have "map (half_bit d) [0..<128 * N] = True # False # flips ?bs"
    using half_bits_flips [of d 0 "64 * N"] by simp
  moreover have "runs (True # False # flips ?bs) = (True, 1) # runs ((\<not> True) # flips ?bs)"
    using runs_change [of True False "flips ?bs"] by (simp del: runs.simps)
  ultimately have "heard_events clock ps = run_event (True, 1) # map run_event (runs ((\<not> True) # flips ?bs))"
    using heard_runs [OF clock _ h] runs_flips_short [where p = True and bs = ?bs] by (simp del: runs.simps run_event.simps)
  then have "heard_events clock ps = EventShortLow # pulses_from True ?bs @ [second_half (last (True # ?bs))]"
    unfolding runs_flips by simp
  then show ?thesis
    using decode_pulses [of True ?bs] decode_second_half [of "last (True # ?bs)"]
    by (simp only: decode_Cons decode_append) (simp add: mid_def)
qed

section \<open>Registers\<close>

lemma word_of_zeros: "word_of_bits (replicate n False) = (0 :: 'a::len word)"
  by (rule bit_word_eqI) (simp add: bit_word_of_bits)

lemma word_has_bits: "\<exists>bs. length bs = 64 \<and> word_of_bits bs = (W :: u64)"
  by (rule exI [of _ "map (\<lambda>i. bit W (63 - i)) [0..<64]"]) (auto simp: bit_word_of_bits intro!: bit_word_eqI)

lemma holds_something: "length (em_data proto) = 5 \<Longrightarrow> \<exists>R. holds R proto"
proof -
  assume d: "length (em_data proto) = 5"
  obtain as where "length as = 64" "word_of_bits as = encoded_data proto" using word_has_bits by blast
  moreover obtain bs where "length bs = 64" "word_of_bits bs = encoded_epilogue proto" using word_has_bits by blast
  ultimately have "holds (as @ bs) proto" using d by (simp add: holds_def)
  then show ?thesis by blast
qed

definition em4100_kinds :: "protocol_em4100 set" where
  "em4100_kinds = {protocol_em4100_alloc, protocol_em4100_16_alloc, protocol_em4100_32_alloc}"

lemma em4100_kinds_clock: "tx \<in> em4100_kinds \<Longrightarrow> clock_per_bit tx \<in> {16, 32, 64}"
  by (auto simp: em4100_kinds_def protocol_em4100_alloc_def protocol_em4100_16_alloc_def protocol_em4100_32_alloc_def em4100_zeroed_def)

lemma fresh_decoder:
  "tx \<in> em4100_kinds \<Longrightarrow> holds (replicate 128 False) (protocol_em4100_decoder_start tx) \<and>
     decoder_manchester_state (protocol_em4100_decoder_start tx) = Mid1 \<and>
     clock_per_bit (protocol_em4100_decoder_start tx) = clock_per_bit tx"
  by (auto simp: em4100_kinds_def protocol_em4100_alloc_def protocol_em4100_16_alloc_def protocol_em4100_32_alloc_def
      em4100_zeroed_def protocol_em4100_decoder_start_def holds_def word_of_zeros)

lemma em_reports_frames:
  assumes "length d = 5" and "1 \<le> N"
  shows "em_reports (replicate 128 False) (cyc d 1 (64 * N - 1)) = replicate (N - 2) d"
proof (cases "N \<le> 2")
  case True
  have "em_reports (replicate 128 False) (cyc d 1 (64 * N - 1)) = []"
  proof (rule em_reports_quiet [of _ _ 127])
    show "length (cyc d 1 (64 * N - 1)) \<le> 127" using True by simp
    show "\<not> replicate 128 False ! i" if "i \<le> 127" for i
    proof -
      have "i < 128" using that by linarith
      then show ?thesis by (simp only: nth_replicate not_False_eq_True)
    qed
  qed simp_all
  moreover have "N - 2 = 0" using True by simp
  ultimately show ?thesis by (simp only: replicate_0)
next
  case False
  have n: "64 * N - 1 = 128 + (64 * N - 129)" "(1 + (64 * N - 129)) div 64 = N - 2" using False by linarith+
  show ?thesis unfolding n(1) em_reports_fresh [OF assms(1)] n(2) ..
qed

lemma started_word:
  "length x = 5 \<Longrightarrow> \<exists>e. protocol_em4100_encoder_start (proto\<lparr>em_data := x\<rparr>) = Inr (True, e) \<and> encoded_data e = frame_word x"
  using encoder_start_eq [of "proto\<lparr>em_data := x\<rparr>"] by simp

section \<open>Properties\<close>

text \<open>
  C14: the frame that the encoder builds is accepted and decodes to the bytes of the card, and a word is
  accepted, behind a header, exactly when it is the frame that the encoder builds of what it decodes
  to: the parity checks, the header and the stop bit leave no other word.
\<close>

theorem em4100_codec:
  assumes "length d = 5" and "length buf = 5"
  shows "(\<exists>e. protocol_em4100_encoder_start (proto\<lparr>em_data := d\<rparr>) = Inr (True, e) \<and>
      em4100_decode (encoded_data e) buf = Inr d \<and> em4100_can_be_decoded (encoded_data e) EM_ENCODED_DATA_HEADER) \<and>
    (em4100_can_be_decoded W E \<longleftrightarrow> E AND EM_ENCODED_DATA_HEADER = EM_ENCODED_DATA_HEADER \<and>
      (\<exists>d' e. em4100_decode W buf = Inr d' \<and> protocol_em4100_encoder_start (proto\<lparr>em_data := d'\<rparr>) = Inr (True, e) \<and>
        encoded_data e = W))"
proof (rule conjI)
  have header: "header_ok EM_ENCODED_DATA_HEADER" unfolding epilogue_check [symmetric] by (rule and.idem)
  have "em4100_decode (frame_word d) buf = Inr d"
    unfolding em4100_decode_eq [OF assms(2)] frame_data_frame [OF assms(1)] ..
  moreover obtain e where "protocol_em4100_encoder_start (proto\<lparr>em_data := d\<rparr>) = Inr (True, e)" "encoded_data e = frame_word d"
    using started_word [OF assms(1), of proto] by (elim exE conjE) (rule that)
  ultimately show "\<exists>e. protocol_em4100_encoder_start (proto\<lparr>em_data := d\<rparr>) = Inr (True, e) \<and>
      em4100_decode (encoded_data e) buf = Inr d \<and> em4100_can_be_decoded (encoded_data e) EM_ENCODED_DATA_HEADER"
    using frame_word_accepted [OF header, of d] by (intro exI [of _ e]) simp
next
  obtain e where e: "protocol_em4100_encoder_start (proto\<lparr>em_data := frame_data W\<rparr>) = Inr (True, e)" "encoded_data e = frame_word (frame_data W)"
    using started_word [OF length_frame_data [of W], of proto] by (elim exE conjE) (rule that)
  have "em4100_can_be_decoded W E \<longleftrightarrow> header_ok E \<and> frame_word (frame_data W) = W"
  proof
    assume w: "em4100_can_be_decoded W E"
    then have "header_ok E" unfolding can_be_decoded_iff by (rule conjunct1)
    then show "header_ok E \<and> frame_word (frame_data W) = W" using accepted_canonical [OF w] by (rule conjI)
  next
    assume "header_ok E \<and> frame_word (frame_data W) = W"
    then show "em4100_can_be_decoded W E" using frame_word_accepted [of E "frame_data W"] by simp
  qed
  also have "frame_word (frame_data W) = W \<longleftrightarrow> (\<exists>d' e. em4100_decode W buf = Inr d' \<and>
      protocol_em4100_encoder_start (proto\<lparr>em_data := d'\<rparr>) = Inr (True, e) \<and> encoded_data e = W)"
    unfolding em4100_decode_eq [OF assms(2)] using e by simp
  finally show "em4100_can_be_decoded W E \<longleftrightarrow> E AND EM_ENCODED_DATA_HEADER = EM_ENCODED_DATA_HEADER \<and>
      (\<exists>d' e. em4100_decode W buf = Inr d' \<and> protocol_em4100_encoder_start (proto\<lparr>em_data := d'\<rparr>) = Inr (True, e) \<and>
        encoded_data e = W)"
    unfolding epilogue_check .
qed

theorem em4100_codec_witness:
  "\<exists>e. protocol_em4100_encoder_start (protocol_em4100_alloc\<lparr>em_data := [0x01, 0x23, 0x45, 0x67, 0x89]\<rparr>) = Inr (True, e) \<and>
     em4100_decode (encoded_data e) [0, 0, 0, 0, 0] = Inr [0x01, 0x23, 0x45, 0x67, 0x89]"
proof -
  have "length [0x01, 0x23, 0x45, 0x67, 0x89 :: u8] = 5" "length [0, 0, 0, 0, 0 :: u8] = 5" by simp_all
  from conjunct1 [OF em4100_codec [OF this, of protocol_em4100_alloc 0 0]] show ?thesis
    by (elim exE conjE) (intro exI conjI)
qed

text \<open>
  C15: two words that are both accepted and differ in at most two bits are the same: the decoder rejects
  a frame in which one or two bits were received wrongly.
\<close>

theorem em4100_detects:
  assumes "em4100_can_be_decoded V E" and "em4100_can_be_decoded W E'" and "card {p. p < 64 \<and> bit V p \<noteq> bit W p} \<le> 2"
  shows "V = W"
  using accepted_distance [OF assms(1,2)] assms(3) by (simp only: differ_def)

theorem em4100_detects_witness:
  "em4100_can_be_decoded 0xFF80000000000000 EM_ENCODED_DATA_HEADER \<and>
   \<not> em4100_can_be_decoded (0xFF80000000000000 OR push_bit 5 1) EM_ENCODED_DATA_HEADER"
proof -
  let ?V = "0xFF80000000000000 :: u64"
  have h: "em4100_can_be_decoded ?V EM_ENCODED_DATA_HEADER" by code_simp
  have "{p. p < 64 \<and> bit W p \<noteq> bit (W OR push_bit 5 1) p} \<subseteq> {5}" for W :: u64
    unfolding bit_or_iff bit_push_bit_iff bit_1_iff by auto
  then have "card {p. p < 64 \<and> bit ?V p \<noteq> bit (?V OR push_bit 5 1) p} \<le> card {5 :: nat}"
    by (intro card_mono) (rule finite.intros | assumption)+
  then have "card {p. p < 64 \<and> bit ?V p \<noteq> bit (?V OR push_bit 5 1) p} \<le> 2" by (rule order_trans) simp
  then have "\<not> em4100_can_be_decoded (?V OR push_bit 5 1) EM_ENCODED_DATA_HEADER"
    using em4100_detects [OF h, of "?V OR push_bit 5 1" EM_ENCODED_DATA_HEADER] by auto
  then show ?thesis using h by blast
qed

text \<open>
  C10: end to end. A card is emulated for \<open>N\<close> frames, from the first half-bit of the encoder on, and heard
  by a fresh decoder of the same bit rate, every pulse with a jitter below the tolerance: the decoder
  reports the bytes of the card at the end of every frame from the third on, and nothing else.
\<close>

theorem em4100_transfer:
  assumes "tx \<in> em4100_kinds" and "length d = 5" and "protocol_em4100_encoder_start (tx\<lparr>em_data := d\<rparr>) = Inr (ok, e)"
    and "1 \<le> N" and "em_heard (clock_per_bit tx) (em_yields (128 * N) e) heard"
  shows "\<exists>rx. em_feed (protocol_em4100_decoder_start tx) heard = Inr (replicate (N - 2) d, rx)"
proof -
  note clock = em4100_kinds_clock [OF assms(1)]
  have "em_yields (128 * N) e = map (\<lambda>b. Pulse b (clock_per_bit tx div 2)) (map (half_bit d) [0..<128 * N])"
    using em_yields_eq [OF encoder_started [OF assms(3,2)], of "128 * N"] clock by auto
  then have "fst (manchester_decode Mid1 (heard_events (clock_per_bit tx) heard)) = cyc d 1 (64 * N - 1)"
    using heard_from_start [OF clock assms(4)] assms(5) by simp
  then show ?thesis
    using em_feed_refines [of "replicate 128 False" "protocol_em4100_decoder_start tx" heard] fresh_decoder [OF assms(1)]
      em_reports_frames [OF assms(2,4)] by simp
qed

lemma nominal_heard:
  "clock \<in> {16, 32, 64} \<Longrightarrow> em_heard clock ys (map (\<lambda>(l, t). (l, 8 * t)) (merged ys))"
  by (auto simp: em_heard_def near_def list_all2_conv_all_nth split: prod.splits)

theorem em4100_transfer_witness:
  "\<exists>e rx. protocol_em4100_encoder_start (protocol_em4100_32_alloc\<lparr>em_data := [0x01, 0x23, 0x45, 0x67, 0x89]\<rparr>) = Inr (True, e) \<and>
     em_feed (protocol_em4100_decoder_start protocol_em4100_32_alloc) (map (\<lambda>(l, t). (l, 8 * t)) (merged (em_yields 640 e))) =
       Inr ([[0x01, 0x23, 0x45, 0x67, 0x89], [0x01, 0x23, 0x45, 0x67, 0x89], [0x01, 0x23, 0x45, 0x67, 0x89]], rx)"
proof -
  let ?d = "[0x01, 0x23, 0x45, 0x67, 0x89] :: u8 list"
  obtain e where e: "protocol_em4100_encoder_start (protocol_em4100_32_alloc\<lparr>em_data := ?d\<rparr>) = Inr (True, e)"
    using encoder_start_eq [of "protocol_em4100_32_alloc\<lparr>em_data := ?d\<rparr>"] by auto
  have k: "protocol_em4100_32_alloc \<in> em4100_kinds" by (simp add: em4100_kinds_def)
  have "em_heard (clock_per_bit protocol_em4100_32_alloc) (em_yields (128 * 5) e) (map (\<lambda>(l, t). (l, 8 * t)) (merged (em_yields (128 * 5) e)))"
    by (rule nominal_heard [OF em4100_kinds_clock [OF k]])
  from em4100_transfer [OF k _ e _ this] e show ?thesis by (simp add: numeral_3_eq_3)
qed

text \<open>
  C13: synchronisation. Whatever a decoder of the same bit rate has received before, and at whatever
  half-bit \<open>m\<close> of a frame it begins to hear the card, it ends with reporting the bytes of the card at
  the end of every frame from the fourth on.
\<close>

theorem em4100_synchronises:
  assumes "tx \<in> em4100_kinds" and "length d = 5" and "protocol_em4100_encoder_start (tx\<lparr>em_data := d\<rparr>) = Inr (ok, e)"
    and "length (em_data rx) = 5" and "clock_per_bit rx = clock_per_bit tx" and "m < 128"
    and "em_heard (clock_per_bit tx) (drop m (em_yields (128 * N) e)) heard"
  shows "\<exists>early rx'. em_feed rx heard = Inr (early @ replicate (N - 3) d, rx')"
proof -
  note clock = em4100_kinds_clock [OF assms(1)]
  obtain R where R: "holds R rx" using holds_something [OF assms(4)] by blast
  show ?thesis
  proof (cases "N \<le> 3")
    case True
    then show ?thesis using em_feed_refines [OF R, of heard] by auto
  next
    case False
    have "em_yields (128 * N) e = map (\<lambda>b. Pulse b (clock_per_bit tx div 2)) (map (half_bit d) [0..<128 * N])"
      using em_yields_eq [OF encoder_started [OF assms(3,2)], of "128 * N"] clock by auto
    then have h: "em_heard (clock_per_bit tx) (map (\<lambda>b. Pulse b (clock_per_bit tx div 2)) (map (half_bit d) [m..<128 * N])) heard"
      using assms(7) by (simp add: drop_map)
    have "2 \<le> N" using False by simp
    from heard_synchronised [OF clock assms(6) this h, where s = "decoder_manchester_state rx"] obtain junk
      where junk: "fst (manchester_decode (decoder_manchester_state rx) (heard_events (clock_per_bit tx) heard)) = junk @ cyc d 65 (64 * N - 65)"
      by (elim exE) (rule that)
    have n: "64 * N - 65 = 128 + (64 * N - 193)" "(1 + (64 * N - 193)) div 64 = N - 3" using False by linarith+
    obtain early where "em_reports R (junk @ cyc d 65 (64 * N - 65)) = early @ replicate (N - 3) d"
      using em_reports_any [OF assms(2), of R 65 junk "64 * N - 193"] R unfolding n holds_def by auto
    then show ?thesis using em_feed_refines [OF R, of heard] assms(5) junk by auto
  qed
qed

theorem em4100_synchronises_witness:
  "\<exists>e early rx'. protocol_em4100_encoder_start (protocol_em4100_16_alloc\<lparr>em_data := [0xFF, 0xFF, 0xFF, 0xFF, 0xFF]\<rparr>) = Inr (True, e) \<and>
     em_feed (protocol_em4100_16_alloc\<lparr>encoded_epilogue := 0xFF80000000000000\<rparr>)
       (map (\<lambda>(l, t). (l, 8 * t)) (merged (drop 77 (em_yields (128 * 5) e)))) = Inr (early @ replicate 2 [0xFF, 0xFF, 0xFF, 0xFF, 0xFF], rx')"
proof -
  let ?d = "[0xFF, 0xFF, 0xFF, 0xFF, 0xFF] :: u8 list"
  let ?rx = "protocol_em4100_16_alloc\<lparr>encoded_epilogue := 0xFF80000000000000\<rparr>"
  obtain e where e: "protocol_em4100_encoder_start (protocol_em4100_16_alloc\<lparr>em_data := ?d\<rparr>) = Inr (True, e)"
    using started_word [of ?d protocol_em4100_16_alloc] by auto
  have k: "protocol_em4100_16_alloc \<in> em4100_kinds" by (simp add: em4100_kinds_def)
  have rx: "length (em_data ?rx) = 5" "clock_per_bit ?rx = clock_per_bit protocol_em4100_16_alloc"
    by (simp_all add: protocol_em4100_16_alloc_def em4100_zeroed_def)
  have "em_heard (clock_per_bit protocol_em4100_16_alloc) (drop 77 (em_yields (128 * 5) e))
      (map (\<lambda>(l, t). (l, 8 * t)) (merged (drop 77 (em_yields (128 * 5) e))))"
    by (rule nominal_heard [OF em4100_kinds_clock [OF k]])
  from em4100_synchronises [OF k _ e rx _ this] e show ?thesis by simp
qed

text \<open>
  writing to a blank card. The two blocks after the configuration hold a frame that decodes to the
  bytes of the card, the configuration asks for two blocks in Manchester code at the card's bit rate,
  and the bytes of the card are kept.
\<close>

theorem em4100_write:
  assumes "length d = 5" and "3 \<le> length (t5577_block (t5577 request))"
  shows "\<exists>proto' b1 b2. protocol_em4100_write_data (proto\<lparr>em_data := d\<rparr>) request =
      Inr (True, proto', request\<lparr>t5577 := (t5577 request)\<lparr>t5577_block := [0x00008040 OR protocol_em4100_get_t5577_bitrate proto, b1, b2] @
        drop 3 (t5577_block (t5577 request)), t5577_blocks_to_write := 3\<rparr>\<rparr>) \<and>
    em4100_decode (push_bit 32 (ucast b1) OR ucast b2) d = Inr d \<and> em_data proto' = d"
proof -
  let ?W = "frame_word d"
  define e where "e = proto\<lparr>em_data := d, encoded_data := ?W, encoded_data_index := 0, encoded_polarity := True\<rparr>"
  have start: "protocol_em4100_encoder_start (proto\<lparr>em_data := d\<rparr>) = Inr (True, e)" "protocol_em4100_encoder_start (e\<lparr>em_data := d\<rparr>) = Inr (True, e)"
    using encoder_start_eq [of "proto\<lparr>em_data := d\<rparr>"] encoder_start_eq [of "e\<lparr>em_data := d\<rparr>"] assms(1) by (simp_all add: e_def)
  have dec: "em4100_decode ?W d = Inr d"
    unfolding em4100_decode_eq [OF assms(1)] frame_data_frame [OF assms(1)] ..
  have e: "em_data e = d" "encoded_data e = ?W" "protocol_em4100_get_t5577_bitrate e = protocol_em4100_get_t5577_bitrate proto"
    by (simp_all add: e_def protocol_em4100_get_t5577_bitrate_def)
  obtain x0 x1 x2 xs where b: "t5577_block (t5577 request) = x0 # x1 # x2 # xs"
    using assms(2) by (metis Suc_le_length_iff numeral_3_eq_3)
  have halves: "push_bit 32 (ucast (ucast (drop_bit 32 ?W) :: u32)) OR ucast (ucast ?W :: u32) = ?W"
    by (rule bit_word_eqI) (auto simp: bit_simps)
  have "protocol_em4100_write_data (proto\<lparr>em_data := d\<rparr>) request =
      Inr (True, e, request\<lparr>t5577 := (t5577 request)\<lparr>t5577_block := [0x00008040 OR protocol_em4100_get_t5577_bitrate proto, ucast (drop_bit 32 ?W), ucast ?W] @ xs,
        t5577_blocks_to_write := 3\<rparr>\<rparr>)"
    unfolding protocol_em4100_write_data_def start bindr_Inr prod.case e dec
    by (cases "write_type request") (simp add: b list_set_def ac_simps)
  then show ?thesis using dec halves e(1) by (intro exI conjI) (assumption | simp add: b)+
qed

theorem em4100_write_witness:
  "\<exists>proto' b1 b2 request'. protocol_em4100_write_data (protocol_em4100_alloc\<lparr>em_data := [1, 2, 3, 4, 5]\<rparr>)
       \<lparr>write_type = LFRFIDWriteTypeT5577, t5577 = \<lparr>t5577_block = replicate 8 0, t5577_blocks_to_write = 0, t5577_mask = 0\<rparr>\<rparr> = Inr (True, proto', request') \<and>
     take 3 (t5577_block (t5577 request')) = [0x00148040, b1, b2] \<and> em4100_decode (push_bit 32 (ucast b1) OR ucast b2) [1, 2, 3, 4, 5] = Inr [1, 2, 3, 4, 5]"
proof -
  let ?r = "\<lparr>write_type = LFRFIDWriteTypeT5577, t5577 = \<lparr>t5577_block = replicate 8 0, t5577_blocks_to_write = 0, t5577_mask = 0\<rparr>\<rparr>"
  have "protocol_em4100_get_t5577_bitrate protocol_em4100_alloc = 0x00140000"
    by (simp add: protocol_em4100_get_t5577_bitrate_def protocol_em4100_alloc_def em4100_zeroed_def)
  then show ?thesis
    using em4100_write [of "[1, 2, 3, 4, 5]" ?r protocol_em4100_alloc] by (elim meta_impE exE conjE) (simp, simp, auto)
qed

text \<open>
  A decoder that is started again still holds the last 64 bits of the card it heard before: when the
  next card begins with a one, the bytes of the previous card are reported in its place.
\<close>

lemma em4100_restarted:
  assumes "holds R proto" and "drop 64 R = em_frame a" and "length a = 5" and "nibble_bit b 0 0"
  shows "holds (replicate 64 False @ em_frame a) (protocol_em4100_decoder_start proto)"
    and "em_reports (replicate 64 False @ em_frame a) (cyc b 1 64) = [a]"
proof -
  show "holds (replicate 64 False @ em_frame a) (protocol_em4100_decoder_start proto)"
    using assms(1,2) by (simp add: holds_def protocol_em4100_decoder_start_def word_of_zeros)
  let ?R = "replicate 64 False @ em_frame a"
  have "cyc b 1 64 ! j" if j: "j < 9" for j
  proof (cases "j < 8")
    case True
    then show ?thesis using em_frame_header [of "1 + j" b] by (simp add: cyc_nth)
  next
    case False
    then have "j = 8" using j by simp
    then show ?thesis using em_frame_row [of 0 0 b] assms(4) by (simp add: cyc_nth frame_row_def nth_append)
  qed
  then have header: "header_ok (word_of_bits (cyc b 1 64))" by (subst header_ok_bits) simp_all
  have split: "cyc b 1 64 = cyc b 1 63 @ [em_frame b ! 0]" using cyc_append [of b 1 63 1] by (simp add: cyc_def)
  have quiet: "em_reports ?R (cyc b 1 63) = []"
    by (rule em_reports_quiet [of _ _ 63]) (auto simp: nth_append)
  have shift: "tl (drop 63 (?R @ cyc b 1 63)) @ [em_frame b ! 0] = em_frame a @ cyc b 1 64"
    unfolding split by (simp add: tl_append drop_Cons' split: list.split)
  have "accepted (em_frame a @ cyc b 1 64)"
    unfolding accepted_def using frame_word_accepted [OF header, of a] by simp
  then show "em_reports ?R (cyc b 1 64) = [a]"
    unfolding split using quiet shift frame_data_frame [OF assms(3)] by (subst em_reports_append) (simp_all add: split)
qed

end
