(* ===== verification/Subghz_Blocks.thy ===== *)
theory Subghz_Blocks
  imports Level_Duration Checksums
begin

text \<open>
  The blocks that the radio protocols share (\<^verbatim>\<open>lib/subghz/blocks\<close>): the collector of received bits with
  its hashes (\<^verbatim>\<open>decoder.c\<close>), the array of bits to be sent and its pulses (\<^verbatim>\<open>encoder.c\<close>), the fields of a
  key and their reading from a file (\<^verbatim>\<open>generic.c\<close>), and the buttons of a remote control
  (\<^verbatim>\<open>custom_btn.c\<close>).
\<close>

section \<open>Received bits\<close>

record subghz_block_decoder =
  parser_step :: nat
  te_last :: nat
  decode_data :: u64
  decode_count_bit :: nat

definition subghz_protocol_blocks_add_bit :: "subghz_block_decoder \<Rightarrow> u8 \<Rightarrow> subghz_block_decoder" where
  "subghz_protocol_blocks_add_bit decoder b =
     decoder\<lparr>decode_data := push_bit 1 (decode_data decoder) OR ucast b, decode_count_bit := inc8 (decode_count_bit decoder)\<rparr>"

definition subghz_protocol_blocks_add_to_128_bit :: "subghz_block_decoder \<Rightarrow> u8 \<Rightarrow> u64 \<Rightarrow> subghz_block_decoder \<times> u64" where
  "subghz_protocol_blocks_add_to_128_bit decoder b head_64_bit =
     (let decoder = decoder\<lparr>decode_count_bit := inc8 (decode_count_bit decoder)\<rparr>;
          head_64_bit = (if decode_count_bit decoder > 64
            then push_bit 1 head_64_bit OR drop_bit 63 (decode_data decoder) else head_64_bit)
      in (decoder\<lparr>decode_data := push_bit 1 (decode_data decoder) OR ucast b\<rparr>, head_64_bit))"

text \<open>The bytes of the 64-bit variable in memory order; an access behind it is out of bounds.\<close>

definition data_byte :: "u64 \<Rightarrow> nat \<Rightarrow> u8 res" where
  "data_byte data i = (if i < 8 then Inr (ucast (drop_bit (8 * i) data)) else Inl OutOfBounds)"

definition subghz_protocol_blocks_get_hash_data :: "subghz_block_decoder \<Rightarrow> nat \<Rightarrow> u8 res" where
  "subghz_protocol_blocks_get_hash_data decoder len =
     for_each (\<lambda>i hash. bindr (data_byte (decode_data decoder) i) (\<lambda>p. Inr (hash XOR p))) [0..<len] 0"

definition subghz_protocol_blocks_get_hash_data_long :: "subghz_block_decoder \<Rightarrow> nat \<Rightarrow> u32 res" where
  "subghz_protocol_blocks_get_hash_data_long decoder len =
     for_each (\<lambda>i hash. bindr (data_byte (decode_data decoder) i) (\<lambda>p.
       Inr (hash XOR push_bit (8 * (i mod 4)) (ucast p)))) [0..<len] 0"

section \<open>Bits to be sent\<close>

text \<open>\<^verbatim>\<open>bit_write\<close> on a byte.\<close>

definition bit_write :: "u8 \<Rightarrow> nat \<Rightarrow> bool \<Rightarrow> u8" where
  "bit_write value b bitvalue = (if bitvalue then value OR push_bit b 1 else value AND NOT (push_bit b 1))"

definition subghz_protocol_blocks_set_bit_array :: "bool \<Rightarrow> u8 list \<Rightarrow> nat \<Rightarrow> nat \<Rightarrow> u8 list res" where
  "subghz_protocol_blocks_set_bit_array bit_value data_array set_index_bit max_size_array =
     bindr (furi_check (set_index_bit < max_size_array * 8)) (\<lambda>_.
     bindr (list_get data_array (set_index_bit div 8)) (\<lambda>x.
       list_set data_array (set_index_bit div 8) (bit_write x (7 - set_index_bit mod 8) bit_value)))"

definition subghz_protocol_blocks_get_bit_array :: "u8 list \<Rightarrow> nat \<Rightarrow> bool res" where
  "subghz_protocol_blocks_get_bit_array data_array read_index_bit =
     bindr (list_get data_array (read_index_bit div 8)) (\<lambda>x. Inr (drop_bit (7 - read_index_bit mod 8) x AND 1 \<noteq> 0))"

datatype subghz_protocol_block_align_bit = SubGhzProtocolBlockAlignBitLeft | SubGhzProtocolBlockAlignBitRight

text \<open>The state of the loop: the position, the current level, its duration, and the pulses so far.\<close>

definition upload_step ::
  "u8 list \<Rightarrow> nat \<Rightarrow> nat \<Rightarrow> nat \<Rightarrow> nat \<times> bool \<times> nat \<times> nat \<times> level_duration list \<Rightarrow>
     (nat \<times> bool \<times> nat \<times> nat \<times> level_duration list) res" where
  "upload_step data_array max_size_upload duration_bit i s =
     (let (index_bit, last_bit, duration, size_upload, upload) = s in
      bindr (subghz_protocol_blocks_get_bit_array data_array index_bit) (\<lambda>b.
      if last_bit = b then Inr (index_bit + 1, last_bit, (duration + duration_bit) mod 2 ^ 32, size_upload, upload)
      else if size_upload > max_size_upload then Inl FuriCrash
      else bindr (subghz_protocol_blocks_get_bit_array data_array (index_bit - 1)) (\<lambda>l.
           bindr (list_set upload size_upload (level_duration_make l duration)) (\<lambda>upload.
             Inr (index_bit + 1, \<not> last_bit, duration_bit, size_upload + 1, upload)))))"

definition subghz_protocol_blocks_get_upload_from_bit_array ::
  "u8 list \<Rightarrow> nat \<Rightarrow> level_duration list \<Rightarrow> nat \<Rightarrow> nat \<Rightarrow> subghz_protocol_block_align_bit \<Rightarrow> (nat \<times> level_duration list) res" where
  "subghz_protocol_blocks_get_upload_from_bit_array data_array count_bit_data_array upload max_size_upload duration_bit align_bit =
     (let bias_bit = (if align_bit = SubGhzProtocolBlockAlignBitRight \<and> count_bit_data_array mod 8 \<noteq> 0
                      then 8 - count_bit_data_array mod 8 else 0) in
      bindr (subghz_protocol_blocks_get_bit_array data_array bias_bit) (\<lambda>last_bit.
      bindr (for_each (upload_step data_array max_size_upload duration_bit) [1 + bias_bit..<count_bit_data_array + bias_bit]
          (bias_bit + 1, last_bit, duration_bit, 0, upload)) (\<lambda>(index_bit, last_bit, duration, size_upload, upload).
      bindr (subghz_protocol_blocks_get_bit_array data_array (index_bit - 1)) (\<lambda>l.
      bindr (list_set upload size_upload (level_duration_make l duration)) (\<lambda>upload.
        Inr (size_upload + 1, upload))))))"

record subghz_protocol_block_encoder =
  is_running :: bool
  repeat :: nat
  front :: nat
  size_upload :: nat
  upload :: "level_duration list"

section \<open>The fields of a key\<close>

record subghz_block_generic =
  protocol_name :: string
  data :: u64
  data_2 :: u64
  serial :: u32
  data_count_bit :: nat
  btn :: u8
  cnt :: u32
  cnt_2 :: u8
  seed :: u32

datatype subghz_protocol_status =
    SubGhzProtocolStatusOk
  | SubGhzProtocolStatusError
  | SubGhzProtocolStatusErrorParserHeader
  | SubGhzProtocolStatusErrorParserFrequency
  | SubGhzProtocolStatusErrorParserPreset
  | SubGhzProtocolStatusErrorParserCustomPreset
  | SubGhzProtocolStatusErrorParserProtocolName
  | SubGhzProtocolStatusErrorParserBitCount
  | SubGhzProtocolStatusErrorParserKey
  | SubGhzProtocolStatusErrorParserTe
  | SubGhzProtocolStatusErrorParserOthers
  | SubGhzProtocolStatusErrorValueBitCount
  | SubGhzProtocolStatusErrorEncoderGetUpload
  | SubGhzProtocolStatusErrorProtocolNotFound
  | SubGhzProtocolStatusErrorParserLatitude
  | SubGhzProtocolStatusErrorParserLongitude
  | SubGhzProtocolStatusReserved

text \<open>
  A key file, by the outcome of the calls that read it: each field is there or not, and rewinding and
  updating the file succeed or not. The hexadecimal field holds eight bytes.
\<close>

record key_file =
  file_rewind :: bool
  file_bit :: "u32 option"
  file_key :: "u8 list option"
  file_te :: "u32 option"
  file_guard_time :: "u32 option"
  file_repeat :: "u32 option"
  file_update :: bool

definition subghz_block_generic_deserialize :: "subghz_block_generic \<Rightarrow> key_file \<Rightarrow> (subghz_protocol_status \<times> subghz_block_generic) res" where
  "subghz_block_generic_deserialize inst file =
     (if \<not> file_rewind file then Inr (SubGhzProtocolStatusErrorParserOthers, inst)
      else case file_bit file of
        None \<Rightarrow> Inr (SubGhzProtocolStatusErrorParserBitCount, inst)
      | Some temp_data \<Rightarrow>
          let inst = inst\<lparr>data_count_bit := unat (ucast temp_data :: u16)\<rparr> in
          case file_key file of
            None \<Rightarrow> Inr (SubGhzProtocolStatusErrorParserKey, inst)
          | Some key_data \<Rightarrow>
              bindr (for_each (\<lambda>i d. bindr (list_get key_data i) (\<lambda>b. Inr (push_bit 8 d OR ucast b))) [0..<8] (data inst)) (\<lambda>d.
                Inr (SubGhzProtocolStatusOk, inst\<lparr>data := d\<rparr>)))"

definition subghz_block_generic_deserialize_check_count_bit ::
  "subghz_block_generic \<Rightarrow> key_file \<Rightarrow> nat \<Rightarrow> (subghz_protocol_status \<times> subghz_block_generic) res" where
  "subghz_block_generic_deserialize_check_count_bit inst file count_bit =
     bindr (subghz_block_generic_deserialize inst file) (\<lambda>(ret, inst).
       if ret \<noteq> SubGhzProtocolStatusOk then Inr (ret, inst)
       else if data_count_bit inst \<noteq> count_bit then Inr (SubGhzProtocolStatusErrorValueBitCount, inst)
       else Inr (ret, inst))"

section \<open>Buttons\<close>

text \<open>The static variables of \<^verbatim>\<open>custom_btn.c\<close>.\<close>

record custom_btn =
  custom_btn_id :: u8
  custom_btn_original :: u8
  custom_btn_max_btns :: u8
  controller_programming_mode :: u8

definition SUBGHZ_CUSTOM_BTN_OK :: u8 where "SUBGHZ_CUSTOM_BTN_OK = 0"
definition SUBGHZ_CUSTOM_BTN_UP :: u8 where "SUBGHZ_CUSTOM_BTN_UP = 1"
definition SUBGHZ_CUSTOM_BTN_DOWN :: u8 where "SUBGHZ_CUSTOM_BTN_DOWN = 2"
definition SUBGHZ_CUSTOM_BTN_LEFT :: u8 where "SUBGHZ_CUSTOM_BTN_LEFT = 3"
definition SUBGHZ_CUSTOM_BTN_RIGHT :: u8 where "SUBGHZ_CUSTOM_BTN_RIGHT = 4"
definition PROG_MODE_OFF :: u8 where "PROG_MODE_OFF = 0"

definition subghz_custom_btn_set :: "u8 \<Rightarrow> custom_btn \<Rightarrow> bool \<times> custom_btn" where
  "subghz_custom_btn_set btn_id s =
     (if btn_id > custom_btn_max_btns s then (False, s\<lparr>custom_btn_id := SUBGHZ_CUSTOM_BTN_OK\<rparr>)
      else (True, s\<lparr>custom_btn_id := btn_id\<rparr>))"

definition subghz_custom_btn_get :: "custom_btn \<Rightarrow> u8" where
  "subghz_custom_btn_get s = custom_btn_id s"

definition subghz_custom_btn_set_original :: "u8 \<Rightarrow> custom_btn \<Rightarrow> custom_btn" where
  "subghz_custom_btn_set_original btn_code s = s\<lparr>custom_btn_original := btn_code\<rparr>"

definition subghz_custom_btn_get_original :: "custom_btn \<Rightarrow> u8" where
  "subghz_custom_btn_get_original s = custom_btn_original s"

definition subghz_custom_btn_set_max :: "u8 \<Rightarrow> custom_btn \<Rightarrow> custom_btn" where
  "subghz_custom_btn_set_max b s = s\<lparr>custom_btn_max_btns := b\<rparr>"

definition subghz_custom_btns_reset :: "custom_btn \<Rightarrow> custom_btn" where
  "subghz_custom_btns_reset s = s\<lparr>custom_btn_original := 0, custom_btn_max_btns := 0,
     controller_programming_mode := PROG_MODE_OFF, custom_btn_id := SUBGHZ_CUSTOM_BTN_OK\<rparr>"

definition subghz_custom_btn_is_allowed :: "custom_btn \<Rightarrow> bool" where
  "subghz_custom_btn_is_allowed s \<longleftrightarrow> custom_btn_max_btns s \<noteq> 0"

definition subghz_custom_btn_set_prog_mode :: "u8 \<Rightarrow> custom_btn \<Rightarrow> custom_btn" where
  "subghz_custom_btn_set_prog_mode prog_mode s = s\<lparr>controller_programming_mode := prog_mode\<rparr>"

definition subghz_custom_btn_get_prog_mode :: "custom_btn \<Rightarrow> u8" where
  "subghz_custom_btn_get_prog_mode s = controller_programming_mode s"

end
