(* ===== verification/Princeton.thy ===== *)
theory Princeton
  imports Complex_Main "HOL-Library.Log_Nat" Subghz_Blocks
begin

text \<open>
  The fixed-code remote controls of the Princeton chips (\<^verbatim>\<open>lib/subghz/protocols/princeton.c\<close>): 24 bits
  of serial number and button, each a long and a short pulse, a stop bit and a guard time, repeated. The
  decoder reports a code when it has been received twice; the encoder rebuilds the code from the
  serial number and the button, which may have been exchanged for another one.
\<close>

section \<open>Single-precision numbers\<close>

text \<open>
  The guard time is a rounded quotient of two floats. The significand has 24 bits, rounding is to the
  nearest with ties to even; the numbers that occur are positive and of normal size.
\<close>

definition round_even :: "rat \<Rightarrow> int" where
  "round_even x =
     (let f = \<lfloor>x\<rfloor>; d = x - of_int f in if d < 1 / 2 then f else if d > 1 / 2 then f + 1 else if even f then f else f + 1)"

text \<open>The scaling that brings a positive number between \<open>2 ^ 23\<close> and \<open>2 ^ 24\<close>.\<close>

definition float_shift :: "rat \<Rightarrow> int" where
  "float_shift x = 64 - int (floorlog 2 (nat \<lfloor>x * 2 ^ 40\<rfloor>))"

definition float32 :: "rat \<Rightarrow> rat" where
  "float32 x =
     (if float_shift x \<ge> 0 then of_int (round_even (x * 2 ^ nat (float_shift x))) / 2 ^ nat (float_shift x)
      else of_int (round_even (x / 2 ^ nat (- float_shift x))) * 2 ^ nat (- float_shift x))"

text \<open>\<^verbatim>\<open>roundf((float)duration / te)\<close> as an unsigned number; dividing by zero or exceeding the range is undefined.\<close>

definition round_quotient :: "nat \<Rightarrow> nat \<Rightarrow> nat res" where
  "round_quotient duration te =
     (if te = 0 then Inl UndefinedArith
      else if duration = 0 then Inr 0
      else let r = nat \<lfloor>float32 (float32 (of_nat duration) / float32 (of_nat te)) + 1 / 2\<rfloor>
           in if r < 2 ^ 32 then Inr r else Inl UndefinedArith)"

section \<open>State\<close>

record subghz_block_const =
  te_long :: nat
  te_short :: nat
  te_delta :: nat
  min_count_bit_for_found :: nat

definition subghz_protocol_princeton_const :: subghz_block_const where
  "subghz_protocol_princeton_const = \<lparr>te_long = 1170, te_short = 390, te_delta = 300, min_count_bit_for_found = 24\<rparr>"

definition PRINCETON_GUARD_TIME_DEFALUT :: nat where "PRINCETON_GUARD_TIME_DEFALUT = 30"

record decoder_princeton =
  decoder :: subghz_block_decoder
  d_generic :: subghz_block_generic
  d_te :: nat
  last_data :: u32
  d_guard_time :: nat

record encoder_princeton =
  encoder :: subghz_protocol_block_encoder
  e_generic :: subghz_block_generic
  e_te :: nat
  e_guard_time :: nat

definition PrincetonDecoderStepReset :: nat where "PrincetonDecoderStepReset = 0"
definition PrincetonDecoderStepSaveDuration :: nat where "PrincetonDecoderStepSaveDuration = 1"
definition PrincetonDecoderStepCheckDuration :: nat where "PrincetonDecoderStepCheckDuration = 2"

text \<open>The allocator zeroes; the pulses of the array are the all-zero mark, which is a reset.\<close>

definition zero_generic :: subghz_block_generic where
  "zero_generic = \<lparr>protocol_name = ''Princeton'', data = 0, data_2 = 0, serial = 0, data_count_bit = 0, btn = 0, cnt = 0, cnt_2 = 0, seed = 0\<rparr>"

definition subghz_protocol_encoder_princeton_alloc :: encoder_princeton where
  "subghz_protocol_encoder_princeton_alloc =
     \<lparr>encoder = \<lparr>is_running = False, repeat = 10, front = 0, size_upload = 52, upload = replicate 52 LevelReset\<rparr>,
      e_generic = zero_generic, e_te = 0, e_guard_time = 0\<rparr>"

definition subghz_protocol_decoder_princeton_alloc :: decoder_princeton where
  "subghz_protocol_decoder_princeton_alloc =
     \<lparr>decoder = \<lparr>parser_step = 0, te_last = 0, decode_data = 0, decode_count_bit = 0\<rparr>,
      d_generic = zero_generic, d_te = 0, last_data = 0, d_guard_time = 0\<rparr>"

definition subghz_protocol_decoder_princeton_reset :: "decoder_princeton \<Rightarrow> decoder_princeton" where
  "subghz_protocol_decoder_princeton_reset inst =
     inst\<lparr>decoder := (decoder inst)\<lparr>parser_step := PrincetonDecoderStepReset\<rparr>, last_data := 0\<rparr>"

section \<open>The encoder\<close>

definition subghz_protocol_princeton_get_btn_code :: "custom_btn \<Rightarrow> u8" where
  "subghz_protocol_princeton_get_btn_code s =
     (let custom_btn_id = subghz_custom_btn_get s;
          original_btn_code = subghz_custom_btn_get_original s;
          pick = (\<lambda>table. case map_of table original_btn_code of Some b \<Rightarrow> b | None \<Rightarrow> original_btn_code)
      in if custom_btn_id = SUBGHZ_CUSTOM_BTN_OK \<and> original_btn_code \<noteq> 0 then original_btn_code
         else if custom_btn_id = SUBGHZ_CUSTOM_BTN_UP
         then pick [(0x1, 0x2), (0x2, 0x1), (0x4, 0x2), (0x8, 0x2), (0xF, 0x2), (0x30, 0xC0), (0xC0, 0x30), (0xF3, 0xC0), (0xFC, 0xC0)]
         else if custom_btn_id = SUBGHZ_CUSTOM_BTN_DOWN
         then pick [(0x1, 0x4), (0x2, 0x4), (0x4, 0x1), (0x8, 0x1), (0xF, 0x1), (0x30, 0xF3), (0xC0, 0xF3), (0xF3, 0x30), (0xFC, 0xF3)]
         else if custom_btn_id = SUBGHZ_CUSTOM_BTN_LEFT
         then pick [(0x1, 0x8), (0x2, 0x8), (0x4, 0x8), (0x8, 0x4), (0xF, 0x4), (0x30, 0xFC), (0xC0, 0xFC), (0xF3, 0xFC), (0xFC, 0x30)]
         else if custom_btn_id = SUBGHZ_CUSTOM_BTN_RIGHT
         then pick [(0x1, 0xF), (0x2, 0xF), (0x4, 0xF), (0x8, 0xF), (0xF, 0x8)]
         else original_btn_code)"

definition princeton_key :: "u32 \<Rightarrow> u8 \<Rightarrow> u64" where
  "princeton_key sn b =
     (if b = 0x30 \<or> b = 0xC0 then push_bit 8 (ucast sn) OR ucast b
      else if b = 0xF3 \<or> b = 0xFC then push_bit 8 (ucast sn) OR ucast (b AND 0xF)
      else push_bit 4 (ucast sn) OR ucast b)"

text \<open>One bit: two pulses written at \<open>index\<close>. The multiplication is in 32 bits.\<close>

definition send_pulse :: "bool \<Rightarrow> nat \<Rightarrow> nat \<times> level_duration list \<Rightarrow> (nat \<times> level_duration list) res" where
  "send_pulse level duration s =
     (let (index, u) = s in
      bindr (list_set u index (level_duration_make level (duration mod 2 ^ 32))) (\<lambda>u. Inr (index + 1, u)))"

definition send_key_bit :: "u64 \<Rightarrow> nat \<Rightarrow> nat \<Rightarrow> nat \<times> level_duration list \<Rightarrow> (nat \<times> level_duration list) res" where
  "send_key_bit key te i s =
     bindr (bit_read key (i - 1)) (\<lambda>b.
       if b \<noteq> 0 then bindr (send_pulse True (te * 3) s) (send_pulse False te)
       else bindr (send_pulse True te s) (send_pulse False (te * 3)))"

definition subghz_protocol_encoder_princeton_get_upload :: "custom_btn \<Rightarrow> encoder_princeton \<Rightarrow> (bool \<times> encoder_princeton) res" where
  "subghz_protocol_encoder_princeton_get_upload s inst =
     (let generic = e_generic inst;
          b = subghz_protocol_princeton_get_btn_code s;
          generic = generic\<lparr>btn := b, data := princeton_key (serial generic) b\<rparr>;
          inst = inst\<lparr>e_generic := generic\<rparr>;
          size = data_count_bit generic * 2 + 2
      in if size > size_upload (encoder inst) then Inr (False, inst)
         else bindr (for_each (send_key_bit (data generic) (e_te inst)) (rev [1..<data_count_bit generic mod 2 ^ 8 + 1]) (0, upload (encoder inst))) (\<lambda>st.
              bindr (send_pulse True (e_te inst) st) (\<lambda>st.
              bindr (send_pulse False (e_te inst * e_guard_time inst) st) (\<lambda>(index, u).
                Inr (True, inst\<lparr>encoder := (encoder inst)\<lparr>size_upload := size, upload := u\<rparr>\<rparr>)))))"

definition subghz_protocol_princeton_check_remote_controller :: "custom_btn \<times> subghz_block_generic \<Rightarrow> custom_btn \<times> subghz_block_generic" where
  "subghz_protocol_princeton_check_remote_controller st =
     (let (s, inst) = st;
          low = data inst AND 0xFF;
          inst =
            (if low = 0x30 \<or> low = 0xC0
             then inst\<lparr>serial := ucast (drop_bit 8 (data inst)), btn := ucast low\<rparr>
             else if low = 0x03 \<or> low = 0x0C
             then inst\<lparr>serial := ucast (drop_bit 8 (data inst)), btn := ucast (low OR 0xF0)\<rparr>
             else inst\<lparr>serial := ucast (drop_bit 4 (data inst)), btn := ucast (data inst AND 0xF)\<rparr>);
          s = (if subghz_custom_btn_get_original s = 0 then subghz_custom_btn_set_original (btn inst) s else s)
      in (subghz_custom_btn_set_max 4 s, inst))"

definition princeton_guard_time :: "nat \<Rightarrow> nat" where
  "princeton_guard_time g = (if g < 15 \<or> g > 72 then PRINCETON_GUARD_TIME_DEFALUT else g)"

text \<open>The key that is written back to the file is part of the result.\<close>

definition key_bytes :: "u64 \<Rightarrow> u8 list" where
  "key_bytes key = map (\<lambda>i. ucast (drop_bit (8 * (7 - i)) key AND 0xFF)) [0..<8]"

definition subghz_protocol_encoder_princeton_deserialize ::
  "custom_btn \<Rightarrow> encoder_princeton \<Rightarrow> key_file \<Rightarrow> (subghz_protocol_status \<times> custom_btn \<times> encoder_princeton \<times> key_file) res" where
  "subghz_protocol_encoder_princeton_deserialize s inst file =
     bindr (subghz_block_generic_deserialize_check_count_bit (e_generic inst) file (min_count_bit_for_found subghz_protocol_princeton_const))
       (\<lambda>(ret, generic).
        let inst = inst\<lparr>e_generic := generic\<rparr> in
        if ret \<noteq> SubGhzProtocolStatusOk then Inr (ret, s, inst, file)
        else if \<not> file_rewind file then Inr (SubGhzProtocolStatusErrorParserOthers, s, inst, file)
        else case file_te file of
          None \<Rightarrow> Inr (SubGhzProtocolStatusErrorParserTe, s, inst, file)
        | Some te \<Rightarrow>
            let guard_time = (case file_guard_time file of None \<Rightarrow> PRINCETON_GUARD_TIME_DEFALUT | Some g \<Rightarrow> princeton_guard_time (unat g));
                times = (case file_repeat file of None \<Rightarrow> repeat (encoder inst) | Some r \<Rightarrow> unat r);
                (s, generic) = subghz_protocol_princeton_check_remote_controller (s, generic);
                inst = inst\<lparr>e_te := unat te, e_guard_time := guard_time, e_generic := generic,
                  encoder := (encoder inst)\<lparr>repeat := times\<rparr>\<rparr>
            in bindr (subghz_protocol_encoder_princeton_get_upload s inst) (\<lambda>(ok, inst).
               if \<not> ok then Inr (SubGhzProtocolStatusErrorEncoderGetUpload, s, inst, file)
               else if \<not> file_rewind file then Inr (ret, s, inst, file)
               else if \<not> file_update file then Inr (ret, s, inst, file)
               else Inr (ret, s, inst\<lparr>encoder := (encoder inst)\<lparr>is_running := True\<rparr>\<rparr>,
                 file\<lparr>file_key := Some (key_bytes (data (e_generic inst)))\<rparr>)))"

definition subghz_protocol_encoder_princeton_stop :: "encoder_princeton \<Rightarrow> encoder_princeton" where
  "subghz_protocol_encoder_princeton_stop inst = inst\<lparr>encoder := (encoder inst)\<lparr>is_running := False\<rparr>\<rparr>"

definition subghz_protocol_encoder_princeton_yield :: "encoder_princeton \<Rightarrow> (level_duration \<times> encoder_princeton) res" where
  "subghz_protocol_encoder_princeton_yield inst =
     (let e = encoder inst in
      if repeat e = 0 \<or> \<not> is_running e then Inr (level_duration_reset, inst\<lparr>encoder := e\<lparr>is_running := False\<rparr>\<rparr>)
      else bindr (list_get (upload e) (front e)) (\<lambda>ret.
           let e = e\<lparr>front := front e + 1\<rparr>;
               e = (if front e = size_upload e then e\<lparr>repeat := repeat e - 1, front := 0\<rparr> else e)
           in Inr (ret, inst\<lparr>encoder := e\<rparr>)))"

section \<open>The decoder\<close>

definition DURATION_DIFF :: "nat \<Rightarrow> nat \<Rightarrow> nat" where
  "DURATION_DIFF x y = (if x < y then y - x else x - y)"

text \<open>The end of a transmission: the code is reported when it is the same as the one before.\<close>

definition princeton_found :: "nat \<Rightarrow> decoder_princeton \<Rightarrow> (bool \<times> decoder_princeton) res" where
  "princeton_found duration i =
     (if ucast (last_data i) = decode_data (decoder i) \<and> last_data i \<noteq> 0
      then let te = d_te i div (decode_count_bit (decoder i) * 4 + 1);
               generic = (d_generic i)\<lparr>data := decode_data (decoder i), data_count_bit := decode_count_bit (decoder i)\<rparr>
           in bindr (round_quotient duration te) (\<lambda>g.
                Inr (True, i\<lparr>d_te := te, d_generic := generic, d_guard_time := princeton_guard_time g\<rparr>))
      else Inr (False, i))"

text \<open>The receiver's callback reads the decoder while it is called; the result is what it reads, if it is called.\<close>

definition subghz_protocol_decoder_princeton_feed :: "decoder_princeton \<Rightarrow> bool \<Rightarrow> nat \<Rightarrow> (decoder_princeton option \<times> decoder_princeton) res" where
  "subghz_protocol_decoder_princeton_feed i level duration =
     (let c = subghz_protocol_princeton_const; d = decoder i; s = parser_step d in
      if s = PrincetonDecoderStepReset then
        if \<not> level \<and> DURATION_DIFF duration (te_short c * 36) < te_delta c * 36
        then Inr (None, i\<lparr>decoder := d\<lparr>parser_step := PrincetonDecoderStepSaveDuration, decode_data := 0, decode_count_bit := 0\<rparr>,
               d_te := 0, d_guard_time := PRINCETON_GUARD_TIME_DEFALUT\<rparr>)
        else Inr (None, i)
      else if s = PrincetonDecoderStepSaveDuration then
        if level
        then Inr (None, i\<lparr>decoder := d\<lparr>te_last := duration, parser_step := PrincetonDecoderStepCheckDuration\<rparr>,
               d_te := (d_te i + duration) mod 2 ^ 32\<rparr>)
        else Inr (None, i)
      else if s = PrincetonDecoderStepCheckDuration then
        if \<not> level then
          if duration \<ge> te_long c * 2 then
            let i = i\<lparr>decoder := d\<lparr>parser_step := PrincetonDecoderStepSaveDuration\<rparr>\<rparr> in
            bindr (if decode_count_bit d = min_count_bit_for_found c
                   then bindr (princeton_found duration i) (\<lambda>(found, i).
                     Inr (if found then Some i else None, i\<lparr>last_data := ucast (decode_data d)\<rparr>))
                   else Inr (None, i)) (\<lambda>(report, i).
              Inr (report, i\<lparr>decoder := (decoder i)\<lparr>decode_data := 0, decode_count_bit := 0\<rparr>, d_te := 0\<rparr>))
          else
            let i = i\<lparr>d_te := (d_te i + duration) mod 2 ^ 32\<rparr> in
            if DURATION_DIFF (te_last d) (te_short c) < te_delta c \<and> DURATION_DIFF duration (te_long c) < te_delta c * 3
            then Inr (None, i\<lparr>decoder := (subghz_protocol_blocks_add_bit d 0)\<lparr>parser_step := PrincetonDecoderStepSaveDuration\<rparr>\<rparr>)
            else if DURATION_DIFF (te_last d) (te_long c) < te_delta c * 3 \<and> DURATION_DIFF duration (te_short c) < te_delta c
            then Inr (None, i\<lparr>decoder := (subghz_protocol_blocks_add_bit d 1)\<lparr>parser_step := PrincetonDecoderStepSaveDuration\<rparr>\<rparr>)
            else Inr (None, i\<lparr>decoder := d\<lparr>parser_step := PrincetonDecoderStepReset\<rparr>\<rparr>)
        else Inr (None, i\<lparr>decoder := d\<lparr>parser_step := PrincetonDecoderStepReset\<rparr>\<rparr>)
      else Inr (None, i))"

definition subghz_protocol_decoder_princeton_get_hash_data :: "decoder_princeton \<Rightarrow> u32 res" where
  "subghz_protocol_decoder_princeton_get_hash_data i =
     subghz_protocol_blocks_get_hash_data_long (decoder i) (decode_count_bit (decoder i) div 8 + 1)"

definition subghz_protocol_decoder_princeton_deserialize :: "decoder_princeton \<Rightarrow> key_file \<Rightarrow> (subghz_protocol_status \<times> decoder_princeton) res" where
  "subghz_protocol_decoder_princeton_deserialize i file =
     bindr (subghz_block_generic_deserialize_check_count_bit (d_generic i) file (min_count_bit_for_found subghz_protocol_princeton_const))
       (\<lambda>(ret, generic).
        let i = i\<lparr>d_generic := generic\<rparr> in
        if ret \<noteq> SubGhzProtocolStatusOk then Inr (ret, i)
        else if \<not> file_rewind file then Inr (SubGhzProtocolStatusErrorParserOthers, i)
        else case file_te file of
          None \<Rightarrow> Inr (SubGhzProtocolStatusErrorParserTe, i)
        | Some te \<Rightarrow>
            Inr (ret, i\<lparr>d_te := unat te, d_guard_time :=
              (case file_guard_time file of None \<Rightarrow> PRINCETON_GUARD_TIME_DEFALUT | Some g \<Rightarrow> princeton_guard_time (unat g))\<rparr>))"

end
