(* ===== verification/Subghz_Blocks_Facts.thy ===== *)
theory Subghz_Blocks_Facts
  imports Subghz_Blocks Bit_Lib_Facts
begin

text \<open>
  The array of bits to be sent is a bit store, and its pulses are the runs of its bits; the collector
  holds the bits that were received.
\<close>

section \<open>Received bits\<close>

lemma add_bit_collects:
  "decode_data d = word_of_bits bs \<Longrightarrow> decode_data (subghz_protocol_blocks_add_bit d (of_bool b)) = word_of_bits (bs @ [b])"
  by (cases b) (simp_all add: subghz_protocol_blocks_add_bit_def word_of_bits_snoc)

lemma hash_data_ok: "len \<le> 8 \<Longrightarrow> \<exists>h. subghz_protocol_blocks_get_hash_data_long d len = Inr h"
proof (induction len)
  case (Suc len)
  then show ?case
    by (auto simp: subghz_protocol_blocks_get_hash_data_long_def for_each_Suc data_byte_def simp del: upt_Suc)
qed (simp add: subghz_protocol_blocks_get_hash_data_long_def)

lemma hash_data_long_9: "subghz_protocol_blocks_get_hash_data_long d 9 = Inl OutOfBounds"
proof -
  obtain h where "subghz_protocol_blocks_get_hash_data_long d 8 = Inr h" using hash_data_ok [of 8 d] by auto
  moreover have "[0..<9] = [0..<8] @ [8 :: nat]" by (simp add: upt_rec)
  ultimately show ?thesis
    unfolding subghz_protocol_blocks_get_hash_data_long_def by (simp only: for_each_append) (simp add: data_byte_def)
qed

section \<open>The array of bits\<close>

lemma get_bit_array_eq: "i < 8 * length xs \<Longrightarrow> subghz_protocol_blocks_get_bit_array xs i = Inr (msb_bit xs i)"
  by (simp add: subghz_protocol_blocks_get_bit_array_def list_get_def msb_bit_def drop_and_one)

text \<open>Writing is the operation of the bit library behind a check.\<close>

lemma set_bit_array_eq:
  "subghz_protocol_blocks_set_bit_array v xs i (length xs) = (if i < 8 * length xs then bit_lib_set_bit xs i v else Inl FuriCheck)"
  by (simp add: subghz_protocol_blocks_set_bit_array_def bit_lib_set_bit_def bit_write_def mult.commute)

interpretation sent: bit_store subghz_protocol_blocks_get_bit_array "\<lambda>xs i v. subghz_protocol_blocks_set_bit_array v xs i (length xs)"
  "\<lambda>xs. 8 * length xs" msb_bit
  by unfold_locales (use set_bit_inside in \<open>fastforce simp: get_bit_array_eq set_bit_array_eq\<close>)+

section \<open>The pulses of a sequence of bits\<close>

lemma runs_snoc:
  "xs \<noteq> [] \<Longrightarrow> runs xs = rs @ [(c, k)] \<Longrightarrow> runs (xs @ [b]) = (if b = c then rs @ [(c, Suc k)] else rs @ [(c, k), (b, 1)])"
proof (induction xs arbitrary: rs c k)
  case (Cons x xs)
  show ?case
  proof (cases "xs = []")
    case True
    then show ?thesis using Cons.prems by auto
  next
    case False
    then obtain c' k' rs' where r: "runs xs = (c', k') # rs'" by (cases "runs xs") auto
    show ?thesis
    proof (cases rs')
      case Nil
      then have "runs (xs @ [b]) = (if b = c' then [(c', Suc k')] else [(c', k'), (b, 1)])"
        using Cons.IH [OF False, of "[]" c' k'] r by simp
      then show ?thesis using Cons.prems r Nil by (auto split: if_splits)
    next
      case (Cons p ps)
      obtain qs where q: "rs' = qs @ [(c, k)]" and rs: "rs = (if x = c' then (c', Suc k') # qs else (x, 1) # (c', k') # qs)"
        using Cons.prems(2) r Cons by (cases "x = c'") (auto simp: Cons_eq_append_conv)
      have "runs (xs @ [b]) = (if b = c then ((c', k') # qs) @ [(c, Suc k)] else ((c', k') # qs) @ [(c, k), (b, 1)])"
        using Cons.IH [OF False, of "(c', k') # qs" c k] r q by simp
      then show ?thesis using rs by auto
    qed
  qed
qed simp

lemma runs_last: "xs \<noteq> [] \<Longrightarrow> \<exists>rs k. runs xs = rs @ [(last xs, k)]"
proof (induction xs rule: rev_induct)
  case (snoc b xs)
  show ?case
  proof (cases "xs = []")
    case False
    then obtain rs k where "runs xs = rs @ [(last xs, k)]" using snoc.IH by blast
    from runs_snoc [OF False this, of b] show ?thesis by (cases "b = last xs") auto
  qed simp
qed simp

lemma runs_alternate: "Suc i < length (runs bs) \<Longrightarrow> fst (runs bs ! Suc i) \<noteq> fst (runs bs ! i)"
  by (induction bs arbitrary: i) (auto split: list.splits prod.splits if_splits nat.splits simp: nth_Cons less_Suc_eq_0_disj)

text \<open>A run as a pulse; the duration is computed in 32 bits and stored in 30.\<close>

definition run_pulse :: "nat \<Rightarrow> bool \<times> nat \<Rightarrow> level_duration" where
  "run_pulse te x = level_duration_make (fst x) ((snd x * te) mod 2 ^ 32)"

text \<open>After \<open>n\<close> bits all runs but the last are in the array, if there was room for them.\<close>

lemma upload_loop:
  assumes "bias + count \<le> 8 * length xs" and "te < 2 ^ 32"
  shows "1 \<le> n \<Longrightarrow> n \<le> count \<Longrightarrow> runs (msb_bits xs bias n) = rs @ [(c, k)] \<Longrightarrow>
    for_each (upload_step xs (length U) te) [1 + bias..<n + bias] (bias + 1, msb_bit xs bias, te, 0, U) =
      (if length rs \<le> length U then Inr (bias + n, c, (k * te) mod 2 ^ 32, length rs, map (run_pulse te) rs @ drop (length rs) U)
       else Inl OutOfBounds)"
proof (induction n arbitrary: rs c k)
  case (Suc n)
  show ?case
  proof (cases "n = 0")
    case True
    then have "rs = [] \<and> c = msb_bit xs bias \<and> k = 1" using Suc.prems by (simp add: msb_bits_def)
    then show ?thesis using True assms(2) by simp
  next
    case False
    define bs where "bs = msb_bits xs bias n"
    have ne: "bs \<noteq> []" using False by (simp add: bs_def msb_bits_def)
    obtain rs' k' where r: "runs bs = rs' @ [(last bs, k')]" using runs_last [OF ne] by blast
    define b where "b = msb_bit xs (bias + n)"
    have "msb_bits xs bias (Suc n) = bs @ [b]" by (simp add: msb_bits_def bs_def b_def)
    then have snoc: "rs @ [(c, k)] = (if b = last bs then rs' @ [(last bs, Suc k')] else rs' @ [(last bs, k'), (b, 1)])"
      using runs_snoc [OF ne r, of b] Suc.prems(3) by simp
    have last: "msb_bit xs (bias + n - 1) = last bs"
      using False by (simp add: bs_def msb_bits_def last_map)
    have read: "subghz_protocol_blocks_get_bit_array xs (bias + n) = Inr b"
      "subghz_protocol_blocks_get_bit_array xs (bias + n - 1) = Inr (last bs)"
      using assms(1) Suc.prems(2) last by (simp_all add: get_bit_array_eq b_def)
    have IH: "for_each (upload_step xs (length U) te) [1 + bias..<n + bias] (bias + 1, msb_bit xs bias, te, 0, U) =
      (if length rs' \<le> length U then Inr (bias + n, last bs, (k' * te) mod 2 ^ 32, length rs', map (run_pulse te) rs' @ drop (length rs') U)
       else Inl OutOfBounds)"
      using False Suc.prems(2) r by (intro Suc.IH) (simp_all add: bs_def)
    have split: "[1 + bias..<Suc n + bias] = [1 + bias..<n + bias] @ [n + bias]" using False by simp
    show ?thesis
    proof (cases "length rs' \<le> length U")
      case False
      then have "\<not> length rs \<le> length U" using snoc by (auto split: if_splits)
      then show ?thesis using IH False unfolding split by (simp only: for_each_append) simp
    next
      case fits: True
      have step: "for_each (upload_step xs (length U) te) [1 + bias..<Suc n + bias] (bias + 1, msb_bit xs bias, te, 0, U) =
          upload_step xs (length U) te (n + bias) (bias + n, last bs, (k' * te) mod 2 ^ 32, length rs', map (run_pulse te) rs' @ drop (length rs') U)"
        using IH fits unfolding split by (simp only: for_each_append if_True bindr_Inr for_each.simps) (cases "upload_step xs (length U) te (n + bias) (bias + n, last bs, (k' * te) mod 2 ^ 32, length rs', map (run_pulse te) rs' @ drop (length rs') U)", simp_all)
      show ?thesis
      proof (cases "b = last bs")
        case True
        then show ?thesis
          using snoc fits read unfolding step unfolding upload_step_def
          by (simp add: Let_def algebra_simps mod_simps)
      next
        case False
        then have s: "rs = rs' @ [(last bs, k')]" "c = b" "k = 1" "b = (\<not> last bs)" using snoc by auto
        have upd: "(map (run_pulse te) rs' @ drop (length rs') U)[length rs' := run_pulse te (last bs, k')] =
            map (run_pulse te) rs @ drop (length rs) U" if "length rs' < length U"
          using that unfolding s(1) by (simp add: list_update_append Cons_nth_drop_Suc [symmetric])
        show ?thesis
          using False read fits upd s assms(2) unfolding step unfolding upload_step_def
          by (simp add: Let_def list_set_def run_pulse_def)
      qed
    qed
  qed
qed simp

lemma get_upload_eq:
  assumes "1 \<le> count" and "te < 2 ^ 32"
    and bias: "bias = (if align = SubGhzProtocolBlockAlignBitRight \<and> count mod 8 \<noteq> 0 then 8 - count mod 8 else 0)"
    and fits: "bias + count \<le> 8 * length xs"
  defines "rs \<equiv> runs (msb_bits xs bias count)"
  shows "subghz_protocol_blocks_get_upload_from_bit_array xs count U (length U) te align =
    (if length rs \<le> length U then Inr (length rs, map (run_pulse te) rs @ drop (length rs) U) else Inl OutOfBounds)"
proof -
  define bs where "bs = msb_bits xs bias count"
  have ne: "bs \<noteq> []" using assms(1) by (simp add: bs_def msb_bits_def)
  obtain rs' k where r: "runs bs = rs' @ [(last bs, k)]" using runs_last [OF ne] by blast
  have last: "msb_bit xs (bias + count - 1) = last bs" using assms(1) by (simp add: bs_def msb_bits_def last_map)
  have read: "subghz_protocol_blocks_get_bit_array xs bias = Inr (msb_bit xs bias)"
    "subghz_protocol_blocks_get_bit_array xs (bias + count - 1) = Inr (last bs)"
    using fits assms(1) last by (simp_all add: get_bit_array_eq)
  have loop: "for_each (upload_step xs (length U) te) [1 + bias..<count + bias] (bias + 1, msb_bit xs bias, te, 0, U) =
      (if length rs' \<le> length U then Inr (bias + count, last bs, (k * te) mod 2 ^ 32, length rs', map (run_pulse te) rs' @ drop (length rs') U)
       else Inl OutOfBounds)"
    by (rule upload_loop [OF fits assms(2) assms(1) order_refl]) (use r in \<open>simp add: bs_def\<close>)
  have rs: "rs = rs' @ [(last bs, k)]" using r by (simp add: rs_def bs_def)
  have upd: "(map (run_pulse te) rs' @ drop (length rs') U)[length rs' := run_pulse te (last bs, k)] =
      map (run_pulse te) rs @ drop (length rs) U" if "length rs' < length U"
    using that unfolding rs by (simp add: list_update_append Cons_nth_drop_Suc [symmetric])
  show ?thesis
    unfolding subghz_protocol_blocks_get_upload_from_bit_array_def bias [symmetric] Let_def read bindr_Inr loop
    using read upd rs by (auto simp: list_set_def run_pulse_def)
qed

section \<open>Properties\<close>

text \<open>
  C37: the pulses of an array of bits. They are the runs of its bits, which give the bits back, each with
  its level and its length times the duration of a bit, when there are at most as many runs as the
  array of pulses holds. Otherwise the routine writes behind the array: the check for an overflow, made
  against the size of the array, lets the first pulse that does not fit pass.
\<close>

theorem subghz_upload:
  assumes "1 \<le> count" and "te < 2 ^ 32"
    and "bias = (if align = SubGhzProtocolBlockAlignBitRight \<and> count mod 8 \<noteq> 0 then 8 - count mod 8 else 0)"
    and "bias + count \<le> 8 * length xs"
  shows "\<exists>rs. unrun rs = msb_bits xs bias count \<and> (\<forall>i. Suc i < length rs \<longrightarrow> fst (rs ! Suc i) \<noteq> fst (rs ! i)) \<and>
    subghz_protocol_blocks_get_upload_from_bit_array xs count U (length U) te align =
      (if length rs \<le> length U
       then Inr (length rs, map (\<lambda>(b, n). level_duration_make b ((n * te) mod 2 ^ 32)) rs @ drop (length rs) U)
       else Inl OutOfBounds)"
proof (intro exI conjI)
  let ?rs = "runs (msb_bits xs bias count)"
  show "unrun ?rs = msb_bits xs bias count" by (rule unrun_runs)
  show "\<forall>i. Suc i < length ?rs \<longrightarrow> fst (?rs ! Suc i) \<noteq> fst (?rs ! i)" using runs_alternate by blast
  have "run_pulse te = (\<lambda>(b, n). level_duration_make b ((n * te) mod 2 ^ 32))" by (auto simp: run_pulse_def)
  then show "subghz_protocol_blocks_get_upload_from_bit_array xs count U (length U) te align =
      (if length ?rs \<le> length U
       then Inr (length ?rs, map (\<lambda>(b, n). level_duration_make b ((n * te) mod 2 ^ 32)) ?rs @ drop (length ?rs) U)
       else Inl OutOfBounds)"
    using get_upload_eq [OF assms, of U] by simp
qed

theorem subghz_upload_witness:
  "\<exists>rs. unrun rs = msb_bits [0x3A] 2 6 \<and>
     subghz_protocol_blocks_get_upload_from_bit_array [0x3A] 6 (replicate 2 LevelReset) (length (replicate 2 LevelReset)) 500 SubGhzProtocolBlockAlignBitRight =
       (if length rs \<le> length (replicate 2 LevelReset)
        then Inr (length rs, map (\<lambda>(b, n). level_duration_make b ((n * 500) mod 2 ^ 32)) rs @ drop (length rs) (replicate 2 LevelReset))
        else Inl OutOfBounds)"
proof -
  have "(1 :: nat) \<le> 6" "(500 :: nat) < 2 ^ 32"
    "2 = (if SubGhzProtocolBlockAlignBitRight = SubGhzProtocolBlockAlignBitRight \<and> (6 :: nat) mod 8 \<noteq> 0 then 8 - 6 mod 8 else (0 :: nat))"
    "2 + 6 \<le> 8 * length [0x3A :: u8]" by simp_all
  from subghz_upload [OF this, of "replicate 2 LevelReset"] show ?thesis by (elim exE conjE) (intro exI conjI)
qed

end
