(* ===== verification/Princeton_Facts.thy ===== *)
theory Princeton_Facts
  imports Princeton Subghz_Blocks_Facts
begin

text \<open>
  A code as a sequence of pairs of a high and a low pulse: what the encoder sends, and what the decoder
  makes of pairs that it hears within its tolerances.
\<close>

section \<open>Single-precision numbers\<close>

lemma round_even_int [simp]: "round_even (of_int n) = n"
  by (simp add: round_even_def)

lemma round_even_le: "of_int (round_even x) \<le> x + 1 / 2"
proof -
  have "of_int \<lfloor>x\<rfloor> \<le> x" by (rule of_int_floor_le)
  then show ?thesis unfolding round_even_def Let_def by (simp split: if_split) linarith
qed

lemma float_shift_nonneg: "x < 2 ^ 24 \<Longrightarrow> 0 \<le> float_shift x"
proof -
  assume "x < 2 ^ 24"
  then have "x * 2 ^ 40 < 2 ^ 24 * 2 ^ 40" by (intro mult_strict_right_mono) simp_all
  then have "x * 2 ^ 40 < of_int (2 ^ 64)" by simp
  then have "\<lfloor>x * 2 ^ 40\<rfloor> < 2 ^ 64" by (simp only: floor_less_iff)
  then have "nat \<lfloor>x * 2 ^ 40\<rfloor> < 2 ^ 64" by (simp only: nat_less_numeral_power_cancel_iff)
  then have "floorlog 2 (nat \<lfloor>x * 2 ^ 40\<rfloor>) \<le> 64" by (intro floorlog_leI) simp_all
  then show ?thesis by (simp add: float_shift_def)
qed

lemma float32_nat: "n < 2 ^ 24 \<Longrightarrow> float32 (of_nat n) = of_nat n"
proof -
  assume n: "n < 2 ^ 24"
  then have "(of_nat n :: rat) < of_nat (2 ^ 24)" by (simp only: of_nat_less_iff)
  then have s: "0 \<le> float_shift (of_nat n)" by (intro float_shift_nonneg) simp
  have "of_nat n * 2 ^ nat (float_shift (of_nat n)) = (of_int (int n * 2 ^ nat (float_shift (of_nat n))) :: rat)" by simp
  then show ?thesis using s unfolding float32_def by (simp only: if_True round_even_int) simp
qed

lemma float32_le: "x < 2 ^ 24 \<Longrightarrow> float32 x \<le> x + 1 / 2"
proof -
  assume x: "x < 2 ^ 24"
  let ?k = "nat (float_shift x)"
  have "of_int (round_even (x * 2 ^ ?k)) / 2 ^ ?k \<le> (x * 2 ^ ?k + 1 / 2) / 2 ^ ?k"
    by (intro divide_right_mono round_even_le) simp
  also have "\<dots> = x + (1 / 2) / 2 ^ ?k" by (simp add: add_divide_distrib)
  also have "(1 / 2 :: rat) / 2 ^ ?k \<le> 1 / 2" by (simp add: field_simps)
  finally show ?thesis using float_shift_nonneg [OF x] by (simp add: float32_def)
qed

lemma round_quotient_exact:
  assumes "0 < te" and "g < 2 ^ 24" and "te * g < 2 ^ 24" and "te < 2 ^ 24"
  shows "round_quotient (te * g) te = Inr g"
proof -
  have "(of_nat (te * g) :: rat) / of_nat te = of_nat g" using assms(1) by simp
  then have q: "float32 (float32 (of_nat (te * g)) / float32 (of_nat te)) = of_nat g"
    unfolding float32_nat [OF assms(3)] float32_nat [OF assms(4)] using float32_nat [OF assms(2)] by simp
  have "\<lfloor>(of_nat g :: rat) + 1 / 2\<rfloor> = int g"
    by (rule floor_unique) (simp_all add: field_simps)
  then show ?thesis using assms unfolding round_quotient_def q by (cases "te * g = 0") simp_all
qed

lemma round_quotient_ok:
  assumes "0 < te" and "te < 2 ^ 24" and "duration < 2 ^ 24"
  shows "\<exists>g. round_quotient duration te = Inr g"
proof -
  let ?q = "(of_nat duration :: rat) / of_nat te"
  have "?q \<le> of_nat duration / 1" using assms(1) by (intro divide_left_mono) simp_all
  moreover have d: "(of_nat duration :: rat) < of_nat (2 ^ 24)" using assms(3) by (simp only: of_nat_less_iff)
  ultimately have "?q < 2 ^ 24" by simp
  then have "float32 ?q \<le> ?q + 1 / 2" by (rule float32_le)
  then have "float32 ?q + 1 / 2 < 2 ^ 25" using \<open>?q < 2 ^ 24\<close> by simp
  then have "float32 ?q + 1 / 2 < of_int (2 ^ 25)" by simp
  then have "\<lfloor>float32 ?q + 1 / 2\<rfloor> < 2 ^ 25" by (simp only: floor_less_iff)
  then have "\<lfloor>float32 ?q + 1 / 2\<rfloor> < 2 ^ 32" by (rule less_trans) simp
  then have "nat \<lfloor>float32 (float32 (of_nat duration) / float32 (of_nat te)) + 1 / 2\<rfloor> < 2 ^ 32"
    unfolding float32_nat [OF assms(2)] float32_nat [OF assms(3)] by (simp only: nat_less_numeral_power_cancel_iff)
  then show ?thesis using assms(1) by (auto simp: round_quotient_def Let_def)
qed

section \<open>Receiving\<close>

text \<open>The receiver's loop, and the pulses of a sequence of pairs.\<close>

fun princeton_feed_all :: "decoder_princeton \<Rightarrow> (bool \<times> nat) list \<Rightarrow> (decoder_princeton list \<times> decoder_princeton) res" where
  "princeton_feed_all i [] = Inr ([], i)"
| "princeton_feed_all i ((level, duration) # ps) =
     bindr (subghz_protocol_decoder_princeton_feed i level duration) (\<lambda>(r, i).
     bindr (princeton_feed_all i ps) (\<lambda>(rs, i). Inr ((case r of None \<Rightarrow> [] | Some x \<Rightarrow> [x]) @ rs, i)))"

lemma princeton_feed_append:
  "princeton_feed_all i (ps @ qs) =
     bindr (princeton_feed_all i ps) (\<lambda>(rs, i). bindr (princeton_feed_all i qs) (\<lambda>(rs', i). Inr (rs @ rs', i)))"
proof (induction ps arbitrary: i)
  case Nil
  show ?case by (cases "princeton_feed_all i qs") auto
next
  case (Cons p ps)
  obtain level duration where p: "p = (level, duration)" by force
  show ?case
    unfolding p append_Cons princeton_feed_all.simps Cons
    by (cases "subghz_protocol_decoder_princeton_feed i level duration") (auto simp: bindr_def split: sum.splits prod.splits)
qed

definition pair_pulses :: "(nat \<times> nat) list \<Rightarrow> (bool \<times> nat) list" where
  "pair_pulses xs = concat (map (\<lambda>(h, l). [(True, h), (False, l)]) xs)"

lemma pair_pulses_simps [simp]:
  "pair_pulses [] = []" "pair_pulses ((h, l) # xs) = (True, h) # (False, l) # pair_pulses xs"
  "pair_pulses (xs @ ys) = pair_pulses xs @ pair_pulses ys"
  by (simp_all add: pair_pulses_def)

text \<open>The pairs that the decoder takes for a bit, and for the stop bit with the guard time.\<close>

definition bit_pair :: "bool \<Rightarrow> nat \<times> nat \<Rightarrow> bool" where
  "bit_pair b p \<longleftrightarrow> (let (h, l) = p in
     if b then 270 < h \<and> h < 2070 \<and> 90 < l \<and> l < 690 \<and> (690 \<le> h \<or> l \<le> 270) else 90 < h \<and> h < 690 \<and> 270 < l \<and> l < 2070)"

definition guard_pair :: "nat \<times> nat \<Rightarrow> bool" where
  "guard_pair p \<longleftrightarrow> (let (h, l) = p in h < 2 ^ 30 \<and> 3240 < l \<and> l < 24840)"

lemma bit_pair_range: "bit_pair b (h, l) \<Longrightarrow> 90 < h \<and> h < 2070 \<and> 90 < l \<and> l < 2070 \<and> 360 < h + l"
  by (cases b) (auto simp: bit_pair_def)

text \<open>The decoder between two pairs: \<open>as\<close> are the bits so far, \<open>T\<close> the sum of their durations.\<close>

definition receiving :: "bool list \<Rightarrow> nat \<Rightarrow> decoder_princeton \<Rightarrow> bool" where
  "receiving as T i \<longleftrightarrow> parser_step (decoder i) = PrincetonDecoderStepSaveDuration \<and>
     decode_data (decoder i) = word_of_bits as \<and> decode_count_bit (decoder i) = length as \<and> d_te i = T"

lemmas step_values = PrincetonDecoderStepReset_def PrincetonDecoderStepSaveDuration_def PrincetonDecoderStepCheckDuration_def

lemma receive_bit:
  assumes r: "receiving as T i" and p: "bit_pair b (h, l)" and few: "length as < 200" "T < 2 ^ 31"
  shows "\<exists>i'. princeton_feed_all i [(True, h), (False, l)] = Inr ([], i') \<and> receiving (as @ [b]) (T + h + l) i' \<and> last_data i' = last_data i"
proof -
  define i1 where "i1 = i\<lparr>decoder := (decoder i)\<lparr>te_last := h, parser_step := PrincetonDecoderStepCheckDuration\<rparr>, d_te := T + h\<rparr>"
  define i2 where "i2 = i1\<lparr>d_te := T + h + l, decoder := (subghz_protocol_blocks_add_bit (decoder i1) (of_bool b))\<lparr>parser_step := PrincetonDecoderStepSaveDuration\<rparr>\<rparr>"
  have range: "h < 2070" "l < 2070" "\<not> 2340 \<le> l" using bit_pair_range [OF p] by auto
  have t: "(T + h) mod 2 ^ 32 = T + h" "(T + h + l) mod 2 ^ 32 = T + h + l" using few range by simp_all
  have "subghz_protocol_decoder_princeton_feed i True h = Inr (None, i1)"
    using r t(1) unfolding subghz_protocol_decoder_princeton_feed_def Let_def receiving_def i1_def by (simp add: step_values)
  moreover have "subghz_protocol_decoder_princeton_feed i1 False l = Inr (None, i2)"
  proof (cases b)
    case True
    then have no: "\<not> (DURATION_DIFF h 390 < 300 \<and> DURATION_DIFF l 1170 < 900)" and yes: "DURATION_DIFF h 1170 < 900 \<and> DURATION_DIFF l 390 < 300"
      using p by (auto simp: bit_pair_def DURATION_DIFF_def)
    have d: "d_te i1 = T + h" "te_last (decoder i1) = h" "parser_step (decoder i1) = PrincetonDecoderStepCheckDuration" by (simp_all add: i1_def)
    show ?thesis
      unfolding subghz_protocol_decoder_princeton_feed_def Let_def d t(2) i2_def subghz_protocol_princeton_const_def
      using no yes range True by (auto simp: step_values)
  next
    case False
    then have yes: "DURATION_DIFF h 390 < 300 \<and> DURATION_DIFF l 1170 < 900"
      using p by (auto simp: bit_pair_def DURATION_DIFF_def)
    have d: "d_te i1 = T + h" "te_last (decoder i1) = h" "parser_step (decoder i1) = PrincetonDecoderStepCheckDuration" by (simp_all add: i1_def)
    show ?thesis
      unfolding subghz_protocol_decoder_princeton_feed_def Let_def d t(2) i2_def subghz_protocol_princeton_const_def
      using yes range False by (simp add: step_values)
  qed
  moreover have "receiving (as @ [b]) (T + h + l) i2" "last_data i2 = last_data i"
    using r few add_bit_collects [of "decoder i1" as b]
    by (simp_all add: receiving_def i2_def i1_def subghz_protocol_blocks_add_bit_def)
  ultimately show ?thesis by (intro exI [of _ i2]) simp
qed

lemma receive_bits:
  "receiving as T i \<Longrightarrow> list_all2 bit_pair bs ps \<Longrightarrow> length as + length bs \<le> 200 \<Longrightarrow> T \<le> 4140 * length as \<Longrightarrow> 360 * length as \<le> T \<Longrightarrow>
   \<exists>i' T'. princeton_feed_all i (pair_pulses ps) = Inr ([], i') \<and> receiving (as @ bs) T' i' \<and> last_data i' = last_data i \<and>
     T' = T + sum_list (map (\<lambda>(h, l). h + l) ps) \<and> T' \<le> 4140 * length (as @ bs) \<and> 360 * length (as @ bs) \<le> T'"
proof (induction bs arbitrary: ps as T i)
  case (Cons b bs)
  obtain h l ps' where ps: "ps = (h, l) # ps'" "bit_pair b (h, l)" "list_all2 bit_pair bs ps'"
    using Cons.prems(2) by (cases ps) auto
  have "T < 2 ^ 31" using Cons.prems(3,4) by simp
  then obtain i1 where i1: "princeton_feed_all i [(True, h), (False, l)] = Inr ([], i1)" "receiving (as @ [b]) (T + h + l) i1" "last_data i1 = last_data i"
    using receive_bit [OF Cons.prems(1) ps(2)] Cons.prems(3) by auto
  have range: "h + l < 4140" "360 < h + l" using bit_pair_range [OF ps(2)] by auto
  have "\<exists>i' T'. princeton_feed_all i1 (pair_pulses ps') = Inr ([], i') \<and> receiving ((as @ [b]) @ bs) T' i' \<and> last_data i' = last_data i1 \<and>
     T' = T + h + l + sum_list (map (\<lambda>(h, l). h + l) ps') \<and> T' \<le> 4140 * length ((as @ [b]) @ bs) \<and> 360 * length ((as @ [b]) @ bs) \<le> T'"
    by (rule Cons.IH [OF i1(2) ps(3)]) (use Cons.prems range in simp_all)
  then obtain i' T' where rest: "princeton_feed_all i1 (pair_pulses ps') = Inr ([], i')" "receiving ((as @ [b]) @ bs) T' i'" "last_data i' = last_data i1"
    "T' = T + h + l + sum_list (map (\<lambda>(h, l). h + l) ps')" "T' \<le> 4140 * length ((as @ [b]) @ bs)" "360 * length ((as @ [b]) @ bs) \<le> T'"
    by (elim exE conjE) (rule that)
  have "princeton_feed_all i (pair_pulses ps) = bindr (princeton_feed_all i1 (pair_pulses ps')) (\<lambda>(rs, i). Inr (rs, i))"
    using princeton_feed_append [of i "[(True, h), (False, l)]" "pair_pulses ps'"] i1(1) by (simp add: ps(1))
  then have "princeton_feed_all i (pair_pulses ps) = Inr ([], i')" unfolding rest(1) by simp
  then show ?case using i1(3) rest by (intro exI [of _ i'] exI [of _ T']) (simp add: ps(1))
qed auto

lemma receive_guard:
  assumes r: "receiving as T i" and n: "length as = 24" and T: "T \<le> 4140 * 24" "360 * 24 \<le> T" and p: "guard_pair (h, l)"
  shows "\<exists>i' rep. princeton_feed_all i [(True, h), (False, l)] =
      Inr (if ucast (last_data i) = (word_of_bits as :: u64) \<and> last_data i \<noteq> 0 then [rep] else [], i') \<and>
    receiving [] 0 i' \<and> last_data i' = ucast (word_of_bits as :: u64) \<and>
    data (d_generic rep) = word_of_bits as \<and> data_count_bit (d_generic rep) = 24 \<and> d_te rep = (T + h) div 97 \<and>
    (\<forall>g. round_quotient l ((T + h) div 97) = Inr g \<longrightarrow> d_guard_time rep = princeton_guard_time g)"
proof -
  define i1 where "i1 = i\<lparr>decoder := (decoder i)\<lparr>te_last := h, parser_step := PrincetonDecoderStepCheckDuration\<rparr>, d_te := T + h\<rparr>"
  define i2 where "i2 = i1\<lparr>decoder := (decoder i1)\<lparr>parser_step := PrincetonDecoderStepSaveDuration\<rparr>\<rparr>"
  have range: "h < 2 ^ 30" "3240 < l" "l < 24840" using p by (simp_all add: guard_pair_def)
  define te where "te = (T + h) div 97"
  have "0 < te" "te < 2 ^ 24" using T range by (simp_all add: te_def div_greater_zero_iff less_mult_imp_div_less)
  then obtain g where g: "round_quotient l te = Inr g" using round_quotient_ok [of te l] range by auto
  define rep where "rep = i2\<lparr>d_te := te, d_generic := (d_generic i)\<lparr>data := word_of_bits as, data_count_bit := 24\<rparr>, d_guard_time := princeton_guard_time g\<rparr>"
  define same where "same \<longleftrightarrow> ucast (last_data i) = (word_of_bits as :: u64) \<and> last_data i \<noteq> 0"
  define i3 where "i3 = (if same then rep else i2)\<lparr>last_data := ucast (word_of_bits as :: u64)\<rparr>"
  define i' where "i' = i3\<lparr>decoder := (decoder i3)\<lparr>decode_data := 0, decode_count_bit := 0\<rparr>, d_te := 0\<rparr>"
  have d: "decode_data (decoder i) = word_of_bits as" "decode_count_bit (decoder i) = 24" "d_te i = T"
    "parser_step (decoder i) = PrincetonDecoderStepSaveDuration"
    using r n by (simp_all add: receiving_def)
  have "(T + h) mod 2 ^ 32 = T + h" using T range by simp
  then have high: "subghz_protocol_decoder_princeton_feed i True h = Inr (None, i1)"
    unfolding subghz_protocol_decoder_princeton_feed_def Let_def d i1_def by (simp add: step_values)
  have found: "princeton_found l i2 = Inr (if same then (True, rep) else (False, i2))"
    using g by (simp add: princeton_found_def i2_def i1_def d same_def rep_def te_def)
  have d2: "parser_step (decoder i1) = PrincetonDecoderStepCheckDuration" "decode_count_bit (decoder i1) = 24" "decode_data (decoder i1) = word_of_bits as"
    by (simp_all add: i1_def d)
  have low: "subghz_protocol_decoder_princeton_feed i1 False l = Inr (if same then Some rep else None, i')"
    using range found
    unfolding subghz_protocol_decoder_princeton_feed_def Let_def d2 subghz_protocol_princeton_const_def i2_def [symmetric]
    by (simp add: step_values i'_def i3_def)
  have "princeton_feed_all i [(True, h), (False, l)] = Inr (if same then [rep] else [], i')"
    using high low by simp
  moreover have "receiving [] 0 i'" "last_data i' = ucast (word_of_bits as :: u64)"
    by (simp_all add: receiving_def i'_def i3_def rep_def i2_def)
  moreover have "data (d_generic rep) = word_of_bits as" "data_count_bit (d_generic rep) = 24" "d_te rep = te" "d_guard_time rep = princeton_guard_time g"
    by (simp_all add: rep_def)
  ultimately show ?thesis using g unfolding same_def [symmetric] te_def [symmetric] by (intro exI [of _ i'] exI [of _ rep]) simp
qed

section \<open>Waiting for the first guard time\<close>

lemma wait_pair:
  assumes "parser_step (decoder i) = PrincetonDecoderStepReset" and "l \<le> 3240"
  shows "princeton_feed_all i [(True, h), (False, l)] = Inr ([], i)"
  using assms by (simp add: subghz_protocol_decoder_princeton_feed_def Let_def subghz_protocol_princeton_const_def DURATION_DIFF_def)

lemma wait_bits:
  "parser_step (decoder i) = PrincetonDecoderStepReset \<Longrightarrow> list_all2 bit_pair bs ps \<Longrightarrow> princeton_feed_all i (pair_pulses ps) = Inr ([], i)"
proof (induction bs arbitrary: ps)
  case (Cons b bs)
  then obtain h l ps' where ps: "ps = (h, l) # ps'" "bit_pair b (h, l)" "list_all2 bit_pair bs ps'" by (cases ps) auto
  then have "princeton_feed_all i [(True, h), (False, l)] = Inr ([], i)"
    using bit_pair_range [OF ps(2)] Cons.prems(1) by (intro wait_pair) auto
  then show ?case
    using princeton_feed_append [of i "[(True, h), (False, l)]" "pair_pulses ps'"] Cons.IH [OF Cons.prems(1) ps(3)] by (simp add: ps(1))
qed simp

lemma wait_guard:
  assumes "parser_step (decoder i) = PrincetonDecoderStepReset" and "guard_pair (h, l)"
  shows "\<exists>i'. princeton_feed_all i [(True, h), (False, l)] = Inr ([], i') \<and> receiving [] 0 i' \<and> last_data i' = last_data i"
  using assms
  by (auto simp: subghz_protocol_decoder_princeton_feed_def Let_def subghz_protocol_princeton_const_def DURATION_DIFF_def guard_pair_def
      receiving_def step_values)

section \<open>Whole codes\<close>

definition key_bits :: "u64 \<Rightarrow> bool list" where
  "key_bits key = map (bit key) (rev [0..<24])"

definition code_heard :: "u64 \<Rightarrow> (nat \<times> nat) list \<Rightarrow> bool" where
  "code_heard key ps \<longleftrightarrow> ps \<noteq> [] \<and> list_all2 bit_pair (key_bits key) (butlast ps) \<and> guard_pair (last ps)"

lemma length_key_bits [simp]: "length (key_bits key) = 24"
  by (simp add: key_bits_def)

lemma word_of_key_bits: "fits 24 key \<Longrightarrow> word_of_bits (key_bits key) = key"
  by (rule bit_word_eqI) (auto simp: bit_word_of_bits key_bits_def rev_nth dest: fits_bit)

lemma word_of_bits_key: "(word_of_bits (key_bits key) :: u64) = take_bit 24 key"
  by (rule bit_word_eqI) (auto simp: bit_word_of_bits key_bits_def rev_nth bit_take_bit_iff)

lemma ucast_key: "fits 24 key \<Longrightarrow> ucast (ucast key :: u32) = key" for key :: u64
  by (rule bit_word_eqI) (auto simp: bit_simps dest: fits_bit)

lemma ucast_back: "ucast (ucast x :: u64) = x" for x :: u32
  by (rule bit_word_eqI) (auto simp: bit_simps)

lemma first_code:
  assumes "parser_step (decoder i) = PrincetonDecoderStepReset" and "code_heard key ps"
  shows "\<exists>i'. princeton_feed_all i (pair_pulses ps) = Inr ([], i') \<and> receiving [] 0 i' \<and> last_data i' = last_data i"
proof -
  obtain h l where last: "last ps = (h, l)" by force
  then have "pair_pulses ps = pair_pulses (butlast ps) @ [(True, h), (False, l)]"
    using assms(2) append_butlast_last_id [of ps] pair_pulses_simps(3) [of "butlast ps" "[last ps]"] by (simp add: code_heard_def)
  moreover have "guard_pair (h, l)" "list_all2 bit_pair (key_bits key) (butlast ps)" using assms(2) last by (simp_all add: code_heard_def)
  ultimately show ?thesis
    using wait_bits [OF assms(1)] wait_guard [OF assms(1), of h l] by (auto simp: princeton_feed_append)
qed

text \<open>What a report says of the pairs that it was made of.\<close>

definition report_of :: "u64 \<Rightarrow> (nat \<times> nat) list \<Rightarrow> decoder_princeton \<Rightarrow> bool" where
  "report_of key ps r \<longleftrightarrow> data (d_generic r) = key \<and> data_count_bit (d_generic r) = 24 \<and>
     (let te = (sum_list (map (\<lambda>(h, l). h + l) (butlast ps)) + fst (last ps)) div 97 in
      d_te r = te \<and> (\<forall>g. round_quotient (snd (last ps)) te = Inr g \<longrightarrow> d_guard_time r = princeton_guard_time g))"

lemma next_code:
  assumes r: "receiving [] 0 i" and h: "code_heard key ps" and k: "fits 24 key"
  shows "\<exists>i' rep. princeton_feed_all i (pair_pulses ps) =
      Inr (if last_data i = ucast key \<and> key \<noteq> 0 then [rep] else [], i') \<and>
    receiving [] 0 i' \<and> last_data i' = ucast key \<and> report_of key ps rep"
proof -
  obtain hi lo where last: "last ps = (hi, lo)" by force
  then have split: "pair_pulses ps = pair_pulses (butlast ps) @ [(True, hi), (False, lo)]"
    using h append_butlast_last_id [of ps] pair_pulses_simps(3) [of "butlast ps" "[last ps]"] by (simp add: code_heard_def)
  have g: "guard_pair (hi, lo)" and b: "list_all2 bit_pair (key_bits key) (butlast ps)" using h last by (simp_all add: code_heard_def)
  obtain i1 T where i1: "princeton_feed_all i (pair_pulses (butlast ps)) = Inr ([], i1)" "receiving (key_bits key) T i1" "last_data i1 = last_data i"
    and T: "T = sum_list (map (\<lambda>(h, l). h + l) (butlast ps))" "T \<le> 4140 * 24" "360 * 24 \<le> T"
    using receive_bits [OF r b] by auto
  obtain i' rep where i': "princeton_feed_all i1 [(True, hi), (False, lo)] =
      Inr (if ucast (last_data i1) = (word_of_bits (key_bits key) :: u64) \<and> last_data i1 \<noteq> 0 then [rep] else [], i')"
    "receiving [] 0 i'" "last_data i' = ucast (word_of_bits (key_bits key) :: u64)"
    "data (d_generic rep) = word_of_bits (key_bits key)" "data_count_bit (d_generic rep) = 24" "d_te rep = (T + hi) div 97"
    "\<forall>g. round_quotient lo ((T + hi) div 97) = Inr g \<longrightarrow> d_guard_time rep = princeton_guard_time g"
    using receive_guard [OF i1(2) length_key_bits T(2,3) g] by (elim exE conjE) (rule that)
  have "ucast (last_data i) = key \<and> last_data i \<noteq> 0 \<longleftrightarrow> last_data i = ucast key \<and> key \<noteq> 0"
    using ucast_key [OF k] ucast_back [of "last_data i"] by (auto simp: unsigned_eq_0_iff)
  then have "princeton_feed_all i (pair_pulses ps) = Inr (if last_data i = ucast key \<and> key \<noteq> 0 then [rep] else [], i')"
    unfolding split princeton_feed_append i1(1) using i'(1) i1(3) by (simp add: word_of_key_bits [OF k])
  moreover have "report_of key ps rep"
    using i' T(1) last by (simp add: report_of_def word_of_key_bits [OF k])
  ultimately show ?thesis using i'(2,3) by (intro exI [of _ i'] exI [of _ rep]) (simp add: word_of_key_bits [OF k])
qed

lemma further_codes:
  assumes k: "fits 24 key" "key \<noteq> 0"
  shows "receiving [] 0 i \<Longrightarrow> last_data i = ucast key \<Longrightarrow> \<forall>f \<in> set fs. code_heard key f \<Longrightarrow>
    \<exists>reports i'. princeton_feed_all i (pair_pulses (concat fs)) = Inr (reports, i') \<and> list_all2 (report_of key) fs reports"
proof (induction fs arbitrary: i)
  case (Cons f fs)
  obtain i1 rep where i1: "princeton_feed_all i (pair_pulses f) = Inr ([rep], i1)" "receiving [] 0 i1" "last_data i1 = ucast key" "report_of key f rep"
    using next_code [OF Cons.prems(1) _ k(1), of f] Cons.prems(2,3) k(2) by auto
  moreover obtain reports i' where "princeton_feed_all i1 (pair_pulses (concat fs)) = Inr (reports, i')" "list_all2 (report_of key) fs reports"
    using Cons.IH [OF i1(2,3)] Cons.prems(3) by auto
  ultimately show ?case by (intro exI [of _ "rep # reports"] exI [of _ i']) (simp add: princeton_feed_append)
qed simp

text \<open>A fresh decoder synchronises with the first code, remembers the second, and reports from the third on.\<close>

lemma fresh_codes:
  assumes k: "fits 24 key" "key \<noteq> 0" and f: "\<forall>f \<in> set fs. code_heard key f"
  shows "\<exists>reports i'. princeton_feed_all subghz_protocol_decoder_princeton_alloc (pair_pulses (concat fs)) = Inr (reports, i') \<and>
    list_all2 (report_of key) (drop 2 fs) reports"
proof -
  let ?i = subghz_protocol_decoder_princeton_alloc
  have i: "parser_step (decoder ?i) = PrincetonDecoderStepReset" "last_data ?i = 0"
    by (simp_all add: subghz_protocol_decoder_princeton_alloc_def step_values)
  show ?thesis
  proof (cases fs)
    case (Cons f1 fs1)
    then obtain i1 where i1: "princeton_feed_all ?i (pair_pulses f1) = Inr ([], i1)" "receiving [] 0 i1" "last_data i1 = 0"
      using first_code [OF i(1), of key f1] f i(2) by auto
    show ?thesis
    proof (cases fs1)
      case Nil
      then show ?thesis using Cons i1 by simp
    next
      case (Cons f2 fs2)
      have "ucast key \<noteq> (0 :: u32)" using ucast_key [OF k(1)] k(2) by auto
      then obtain i2 where i2: "princeton_feed_all i1 (pair_pulses f2) = Inr ([], i2)" "receiving [] 0 i2" "last_data i2 = ucast key"
        using next_code [OF i1(2) _ k(1), of f2] f i1(3) Cons \<open>fs = f1 # fs1\<close> by auto
      then show ?thesis
        using further_codes [OF k i2(2,3), of fs2] f i1(1) Cons \<open>fs = f1 # fs1\<close> by (auto simp: princeton_feed_append)
    qed
  qed simp
qed

section \<open>Sending\<close>

definition pulse_list :: "(nat \<times> nat) list \<Rightarrow> level_duration list" where
  "pulse_list xs = concat (map (\<lambda>(h, l). [Pulse True h, Pulse False l]) xs)"

lemma pulse_list_simps [simp]:
  "pulse_list [] = []" "pulse_list ((h, l) # xs) = Pulse True h # Pulse False l # pulse_list xs"
  "pulse_list (xs @ ys) = pulse_list xs @ pulse_list ys"
  by (simp_all add: pulse_list_def)

lemma length_pulse_list [simp]: "length (pulse_list xs) = 2 * length xs"
  by (induction xs) auto

lemma merged_pulse_list: "merged (pulse_list xs @ [LevelReset]) = pair_pulses xs"
proof (induction xs)
  case (Cons p xs)
  then show ?case by (cases p; cases xs) auto
qed simp

definition nominal_pair :: "nat \<Rightarrow> bool \<Rightarrow> nat \<times> nat" where
  "nominal_pair te b = (if b then (te * 3, te) else (te, te * 3))"

definition nominal_code :: "nat \<Rightarrow> nat \<Rightarrow> u64 \<Rightarrow> (nat \<times> nat) list" where
  "nominal_code te g key = map (nominal_pair te) (key_bits key) @ [(te, te * g)]"

lemma length_nominal_code [simp]: "length (nominal_code te g key) = 25"
  by (simp add: nominal_code_def)

text \<open>The array of pulses, filled up to some point.\<close>

definition filled :: "level_duration list \<Rightarrow> level_duration list \<Rightarrow> nat \<times> level_duration list" where
  "filled U out = (length out, out @ drop (length out) U)"

lemma send_pulse_filled:
  "length out < length U \<Longrightarrow> t < 2 ^ 30 \<Longrightarrow> send_pulse level t (filled U out) = Inr (filled U (out @ [Pulse level t]))"
  by (simp add: send_pulse_def filled_def list_set_def list_update_append Cons_nth_drop_Suc [symmetric])

lemma send_key_bit_filled:
  assumes "length out + 2 \<le> length U" and "te * 3 < 2 ^ 30" and "1 \<le> i" "i \<le> 64"
  shows "send_key_bit key te i (filled U out) = Inr (filled U (out @ pulse_list [nominal_pair te (bit key (i - 1))]))"
proof -
  have r: "bit_read key (i - 1) = Inr (of_bool (bit key (i - 1)))" using assms(3,4) by (simp add: bit_read_def drop_and_one)
  show ?thesis
  proof (cases "bit key (i - 1)")
    case True
    have "send_pulse True (te * 3) (filled U out) = Inr (filled U (out @ [Pulse True (te * 3)]))"
      "send_pulse False te (filled U (out @ [Pulse True (te * 3)])) = Inr (filled U ((out @ [Pulse True (te * 3)]) @ [Pulse False te]))"
      using assms(1,2) by (intro send_pulse_filled; simp)+
    then show ?thesis using True unfolding send_key_bit_def r by (simp add: nominal_pair_def)
  next
    case False
    have "send_pulse True te (filled U out) = Inr (filled U (out @ [Pulse True te]))"
      "send_pulse False (te * 3) (filled U (out @ [Pulse True te])) = Inr (filled U ((out @ [Pulse True te]) @ [Pulse False (te * 3)]))"
      using assms(1,2) by (intro send_pulse_filled; simp)+
    then show ?thesis using False unfolding send_key_bit_def r by (simp add: nominal_pair_def)
  qed
qed

lemma send_key_bits_filled:
  "te * 3 < 2 ^ 30 \<Longrightarrow> length out + 2 * length is \<le> length U \<Longrightarrow> \<forall>i \<in> set is. 1 \<le> i \<and> i \<le> 64 \<Longrightarrow>
   for_each (send_key_bit key te) is (filled U out) = Inr (filled U (out @ pulse_list (map (\<lambda>i. nominal_pair te (bit key (i - 1))) is)))"
proof (induction "is" arbitrary: out)
  case (Cons i "is")
  let ?out = "out @ pulse_list [nominal_pair te (bit key (i - 1))]"
  have "send_key_bit key te i (filled U out) = Inr (filled U ?out)"
    using Cons.prems by (intro send_key_bit_filled) auto
  moreover have "for_each (send_key_bit key te) is (filled U ?out) =
      Inr (filled U (?out @ pulse_list (map (\<lambda>i. nominal_pair te (bit key (i - 1))) is)))"
    using Cons.prems by (intro Cons.IH) auto
  moreover have "?out @ pulse_list xs = out @ pulse_list (nominal_pair te (bit key (i - 1)) # xs)" for xs
    by (simp add: pulse_list_def)
  ultimately show ?case by (simp only: for_each.simps bindr_Inr list.map)
qed (simp add: filled_def)

lemma key_positions: "map (\<lambda>i. nominal_pair te (bit key (i - 1))) (rev [1..<24 mod 2 ^ 8 + 1]) = map (nominal_pair te) (key_bits key)"
proof -
  have "[1..<24 mod 2 ^ 8 + 1] = map Suc [0..<24]" by (simp add: map_Suc_upt)
  then show ?thesis unfolding key_bits_def by (simp only: rev_map [symmetric] map_map) (simp add: comp_def rev_map)
qed

lemma get_upload_nominal:
  assumes key: "princeton_key (serial (e_generic e)) (subghz_protocol_princeton_get_btn_code s) = key"
    and c: "data_count_bit (e_generic e) = 24" "size_upload (encoder e) = 52" "length (upload (encoder e)) = 52"
    and te: "e_te e = te" "e_guard_time e = g" "te * 3 < 2 ^ 30" "te * g < 2 ^ 30"
  shows "\<exists>U generic. subghz_protocol_encoder_princeton_get_upload s e =
      Inr (True, e\<lparr>e_generic := generic, encoder := (encoder e)\<lparr>size_upload := 50, upload := pulse_list (nominal_code te g key) @ U\<rparr>\<rparr>) \<and>
    length U = 2 \<and> data generic = key"
proof -
  define b where "b = subghz_protocol_princeton_get_btn_code s"
  define generic where "generic = (e_generic e)\<lparr>btn := b, data := key\<rparr>"
  define U where "U = upload (encoder e)"
  define bits where "bits = pulse_list (map (nominal_pair te) (key_bits key))"
  have lb: "length bits = 48" by (simp add: bits_def)
  have "for_each (send_key_bit key te) (rev [1..<24 mod 2 ^ 8 + 1]) (filled U []) = Inr (filled U ([] @ bits))"
    unfolding bits_def key_positions [symmetric]
    by (rule send_key_bits_filled) (use te c in \<open>auto simp: U_def\<close>)
  then have loop: "for_each (send_key_bit key te) (rev [1..<24 mod 2 ^ 8 + 1]) (0, U) = Inr (filled U bits)"
    by (simp add: filled_def)
  have stop: "send_pulse True te (filled U bits) = Inr (filled U (bits @ [Pulse True te]))"
    using lb te c by (intro send_pulse_filled) (simp_all add: U_def)
  have guard: "send_pulse False (te * g) (filled U (bits @ [Pulse True te])) = Inr (filled U ((bits @ [Pulse True te]) @ [Pulse False (te * g)]))"
    using lb te c by (intro send_pulse_filled) (simp_all add: U_def)
  have all: "(bits @ [Pulse True te]) @ [Pulse False (te * g)] = pulse_list (nominal_code te g key)"
    by (simp add: bits_def nominal_code_def)
  have f: "filled U (pulse_list (nominal_code te g key)) = (50, pulse_list (nominal_code te g key) @ drop 50 U)"
    by (simp add: filled_def)
  have g: "(e_generic e)\<lparr>btn := b, data := princeton_key (serial (e_generic e)) b\<rparr> = generic"
    using key by (simp add: generic_def b_def)
  have sel: "data_count_bit generic = 24" "data generic = key" "encoder (e\<lparr>e_generic := generic\<rparr>) = encoder e"
    "e_te (e\<lparr>e_generic := generic\<rparr>) = te" "e_guard_time (e\<lparr>e_generic := generic\<rparr>) = g"
    using c te by (simp_all add: generic_def)
  have "subghz_protocol_encoder_princeton_get_upload s e =
      Inr (True, e\<lparr>e_generic := generic, encoder := (encoder e)\<lparr>size_upload := 50, upload := pulse_list (nominal_code te g key) @ drop 50 U\<rparr>\<rparr>)"
    unfolding subghz_protocol_encoder_princeton_get_upload_def Let_def b_def [symmetric] g sel U_def [symmetric] loop bindr_Inr stop guard all f prod.case
    by (simp add: c(2))
  moreover have "length (drop 50 U) = 2" using c by (simp add: U_def)
  moreover have "data generic = key" by (simp add: generic_def)
  ultimately show ?thesis by blast
qed

text \<open>The transmitter's loop.\<close>

fun princeton_yields :: "nat \<Rightarrow> encoder_princeton \<Rightarrow> (level_duration list \<times> encoder_princeton) res" where
  "princeton_yields 0 e = Inr ([], e)"
| "princeton_yields (Suc n) e =
     bindr (subghz_protocol_encoder_princeton_yield e) (\<lambda>(p, e). bindr (princeton_yields n e) (\<lambda>(ps, e). Inr (p # ps, e)))"

lemma princeton_yields_add:
  "princeton_yields (m + n) e = bindr (princeton_yields m e) (\<lambda>(ps, e). bindr (princeton_yields n e) (\<lambda>(qs, e). Inr (ps @ qs, e)))"
proof (induction m arbitrary: e)
  case 0
  show ?case by (cases "princeton_yields n e") auto
next
  case (Suc m)
  show ?case
    unfolding add_Suc princeton_yields.simps Suc
    by (cases "subghz_protocol_encoder_princeton_yield e") (auto simp: bindr_def split: sum.splits prod.splits)
qed

definition sending_at :: "level_duration list \<Rightarrow> nat \<Rightarrow> nat \<Rightarrow> encoder_princeton \<Rightarrow> bool" where
  "sending_at P k r e \<longleftrightarrow> is_running (encoder e) \<and> repeat (encoder e) = r \<and> front (encoder e) = k \<and>
     size_upload (encoder e) = length P \<and> take (length P) (upload (encoder e)) = P"

lemma yield_at:
  assumes "sending_at P k (Suc r) e" and "k < length P"
  shows "\<exists>e'. subghz_protocol_encoder_princeton_yield e = Inr (P ! k, e') \<and>
    sending_at P (if Suc k = length P then 0 else Suc k) (if Suc k = length P then r else Suc r) e'"
proof -
  have "take (length P) (upload (encoder e)) = P" using assms(1) by (simp add: sending_at_def)
  then have "k < length (upload (encoder e))" "upload (encoder e) ! k = P ! k"
    using assms(2) by (metis length_take min_less_iff_conj, metis nth_take)
  then show ?thesis
    using assms unfolding subghz_protocol_encoder_princeton_yield_def Let_def sending_at_def
    by (auto simp: list_get_def)
qed

lemma yields_partial: "sending_at P 0 (Suc r) e \<Longrightarrow> k < length P \<Longrightarrow> \<exists>e'. princeton_yields k e = Inr (take k P, e') \<and> sending_at P k (Suc r) e'"
proof (induction k)
  case (Suc k)
  then obtain e1 where e1: "princeton_yields k e = Inr (take k P, e1)" "sending_at P k (Suc r) e1" by auto
  obtain e2 where e2: "subghz_protocol_encoder_princeton_yield e1 = Inr (P ! k, e2)" "sending_at P (Suc k) (Suc r) e2"
    using yield_at [OF e1(2)] Suc.prems(2) by auto
  have "princeton_yields (k + 1) e = Inr (take k P @ [P ! k], e2)"
    unfolding princeton_yields_add e1(1) using e2(1) by simp
  then show ?case using e2(2) Suc.prems(2) by (auto simp: take_Suc_conv_app_nth)
qed simp

lemma yields_once: "sending_at P 0 (Suc r) e \<Longrightarrow> P \<noteq> [] \<Longrightarrow> \<exists>e'. princeton_yields (length P) e = Inr (P, e') \<and> sending_at P 0 r e'"
proof -
  assume a: "sending_at P 0 (Suc r) e" and ne: "P \<noteq> []"
  let ?k = "length P - 1"
  have k: "?k < length P" "Suc ?k = length P" using ne by simp_all
  obtain e1 where e1: "princeton_yields ?k e = Inr (take ?k P, e1)" "sending_at P ?k (Suc r) e1" using yields_partial [OF a k(1)] by blast
  obtain e2 where e2: "subghz_protocol_encoder_princeton_yield e1 = Inr (P ! ?k, e2)" "sending_at P 0 r e2"
    using yield_at [OF e1(2) k(1)] k(2) by auto
  have "princeton_yields (?k + 1) e = Inr (take ?k P @ [P ! ?k], e2)"
    unfolding princeton_yields_add e1(1) using e2(1) by simp
  moreover have "take ?k P @ [P ! ?k] = P" using take_Suc_conv_app_nth [OF k(1)] k(2) by simp
  moreover have "?k + 1 = length P" using k(2) by simp
  ultimately have "princeton_yields (length P) e = Inr (P, e2)" by (simp only:)
  then show ?thesis using e2(2) by blast
qed

lemma yields_all:
  "sending_at P 0 n e \<Longrightarrow> P \<noteq> [] \<Longrightarrow> \<exists>e'. princeton_yields (n * length P + 1) e = Inr (concat (replicate n P) @ [LevelReset], e')"
proof (induction n arbitrary: e)
  case 0
  then show ?case by (simp add: sending_at_def subghz_protocol_encoder_princeton_yield_def level_duration_reset_def)
next
  case (Suc n)
  obtain e1 where e1: "princeton_yields (length P) e = Inr (P, e1)" "sending_at P 0 n e1" using yields_once [OF Suc.prems] by blast
  obtain e2 where "princeton_yields (n * length P + 1) e1 = Inr (concat (replicate n P) @ [LevelReset], e2)"
    using Suc.IH [OF e1(2) Suc.prems(2)] by blast
  then have "princeton_yields (length P + (n * length P + 1)) e = Inr (concat (replicate (Suc n) P) @ [LevelReset], e2)"
    unfolding princeton_yields_add e1(1) by simp
  then show ?case by (intro exI [of _ e2]) (simp add: add.assoc)
qed

end
