(* ===== verification/Princeton_Transfer.thy ===== *)
theory Princeton_Transfer
  imports Princeton_Facts
begin

text \<open>
  The remote control end to end: a key file is read, the code rebuilt from serial number and button is
  sent, and the decoder hears it.
\<close>

section \<open>Reading a key\<close>

lemma read_key_bytes:
  "n \<le> 8 \<Longrightarrow> for_each (\<lambda>i d. bindr (list_get (key_bytes key) i) (\<lambda>b. Inr (push_bit 8 d OR ucast b))) [0..<n] d =
     Inr (push_bit (8 * n) d OR drop_bit (64 - 8 * n) key)"
proof (induction n)
  case 0
  have "drop_bit 64 key = 0" by (rule bit_word_eqI) (auto simp: bit_simps)
  then show ?case by simp
next
  case (Suc n)
  have b: "list_get (key_bytes key) n = Inr (ucast (drop_bit (8 * (7 - n)) key AND 0xFF))"
    using Suc.prems by (simp add: key_bytes_def list_get_def)
  have m: "(0xFF :: u64) = mask 8" by (simp add: mask_eq_exp_minus_1)
  have "push_bit 8 (push_bit (8 * n) d OR drop_bit (64 - 8 * n) key) OR ucast (ucast (drop_bit (8 * (7 - n)) key AND 0xFF) :: u8) =
      push_bit (8 * Suc n) d OR drop_bit (64 - 8 * Suc n) key"
    unfolding m
  proof (rule bit_word_eqI)
    fix j assume "j < LENGTH(64)"
    then have j: "j < 64" by simp
    have s: "64 - 8 * Suc n + j = 64 - 8 * n + (j - 8)" if "8 \<le> j" using that Suc.prems by simp
    have s': "64 - 8 * Suc n = 8 * (7 - n)" using Suc.prems by simp
    show "bit (push_bit 8 (push_bit (8 * n) d OR drop_bit (64 - 8 * n) key) OR ucast (ucast (drop_bit (8 * (7 - n)) key AND mask 8) :: u8)) j =
        bit (push_bit (8 * Suc n) d OR drop_bit (64 - 8 * Suc n) key) j"
    proof (cases "8 \<le> j")
      case True
      then show ?thesis using j s [OF True] by (auto simp: bit_simps)
    next
      case False
      then show ?thesis using j s' by (auto simp: bit_simps)
    qed
  qed
  then show ?case using Suc b by (simp add: for_each_Suc del: upt_Suc)
qed

lemma read_key: "for_each (\<lambda>i d. bindr (list_get (key_bytes key) i) (\<lambda>b. Inr (push_bit 8 d OR ucast b))) [0..<8] d = Inr key"
proof -
  have "push_bit 64 d = 0" by (rule bit_word_eqI) (auto simp: bit_simps)
  then show ?thesis using read_key_bytes [of 8 key d] by simp
qed

text \<open>Serial number and button give the code back.\<close>

lemma split_key:
  fixes key :: u64
  assumes "fits 32 key" and "n \<le> 8"
  shows "push_bit n (ucast (ucast (drop_bit n key) :: u32)) OR (ucast (ucast (key AND mask n) :: u8) :: u64) = key"
proof (rule bit_word_eqI)
  fix j assume "j < LENGTH(64)"
  then show "bit (push_bit n (ucast (ucast (drop_bit n key) :: u32)) OR (ucast (ucast (key AND mask n) :: u8) :: u64)) j = bit key j"
    using assms(2) fits_bit [OF assms(1), of j] by (auto simp: bit_simps)
qed

definition at_rest :: "custom_btn \<Rightarrow> bool" where
  "at_rest s \<longleftrightarrow> subghz_custom_btn_get s = SUBGHZ_CUSTOM_BTN_OK \<and> subghz_custom_btn_get_original s = 0"

lemma btn_code_original:
  "subghz_custom_btn_get s = SUBGHZ_CUSTOM_BTN_OK \<Longrightarrow> subghz_protocol_princeton_get_btn_code s = subghz_custom_btn_get_original s"
  by (simp add: subghz_protocol_princeton_get_btn_code_def Let_def SUBGHZ_CUSTOM_BTN_OK_def SUBGHZ_CUSTOM_BTN_UP_def
      SUBGHZ_CUSTOM_BTN_DOWN_def SUBGHZ_CUSTOM_BTN_LEFT_def SUBGHZ_CUSTOM_BTN_RIGHT_def)

definition remote :: "u64 \<Rightarrow> u32 \<times> u8" where
  "remote key =
     (let low = key AND 0xFF in
      if low = 0x30 \<or> low = 0xC0 then (ucast (drop_bit 8 key), ucast low)
      else if low = 0x03 \<or> low = 0x0C then (ucast (drop_bit 8 key), ucast (low OR 0xF0))
      else (ucast (drop_bit 4 key), ucast (key AND 0xF)))"

lemma masks: "(0xFF :: u64) = mask 8" "(0xF :: u64) = mask 4"
  by (simp_all add: mask_eq_exp_minus_1)

lemma princeton_key_remote: "fits 32 key \<Longrightarrow> princeton_key (fst (remote key)) (snd (remote key)) = key"
proof -
  assume key: "fits 32 key"
  define low where "low = key AND 0xFF"
  have whole: "push_bit 8 (ucast (ucast (drop_bit 8 key) :: u32)) OR ucast (ucast low :: u8) = key"
    using split_key [OF key, of 8] by (simp add: low_def masks)
  consider "low = 0x30" | "low = 0xC0" | "low = 0x03" | "low = 0x0C" | "low \<notin> {0x30, 0xC0, 0x03, 0x0C}" by auto
  then show ?thesis
  proof cases
    case 5
    let ?b = "ucast (key AND 0xF) :: u8"
    have "?b AND 0xF = ?b"
    proof -
      have m: "(0xF :: u8) = mask 4" by (simp add: mask_eq_exp_minus_1)
      show ?thesis unfolding masks(2) m by (rule bit_word_eqI) (auto simp: bit_simps)
    qed
    then have "?b \<notin> {0x30, 0xC0, 0xF3, 0xFC}" by auto
    then show ?thesis
      using 5 split_key [OF key, of 4] by (simp add: remote_def low_def [symmetric] Let_def princeton_key_def masks(2))
  qed (use whole in \<open>simp_all add: remote_def low_def [symmetric] Let_def princeton_key_def\<close>)
qed

lemma check_remote:
  assumes "at_rest s"
  shows "\<exists>s' generic. subghz_protocol_princeton_check_remote_controller (s, g) = (s', generic) \<and>
    serial generic = fst (remote (data g)) \<and> subghz_protocol_princeton_get_btn_code s' = snd (remote (data g)) \<and>
    data_count_bit generic = data_count_bit g"
proof -
  define low where "low = data g AND 0xFF"
  define generic where "generic = g\<lparr>serial := fst (remote (data g)), btn := snd (remote (data g))\<rparr>"
  define s' where "s' = subghz_custom_btn_set_max 4 (subghz_custom_btn_set_original (btn generic) s)"
  have "subghz_protocol_princeton_check_remote_controller (s, g) = (s', generic)"
    using assms
    by (auto simp: subghz_protocol_princeton_check_remote_controller_def Let_def remote_def generic_def s'_def at_rest_def)
  moreover have "subghz_protocol_princeton_get_btn_code s' = btn generic"
    using assms by (subst btn_code_original)
      (simp_all add: s'_def at_rest_def subghz_custom_btn_get_def subghz_custom_btn_get_original_def subghz_custom_btn_set_max_def
        subghz_custom_btn_set_original_def)
  ultimately show ?thesis by (intro exI [of _ s'] exI [of _ generic]) (simp add: generic_def)
qed

definition file_of :: "u64 \<Rightarrow> u32 \<Rightarrow> u32 \<Rightarrow> u32 \<Rightarrow> key_file" where
  "file_of key te g n = \<lparr>file_rewind = True, file_bit = Some 24, file_key = Some (key_bytes key), file_te = Some te,
     file_guard_time = Some g, file_repeat = Some n, file_update = True\<rparr>"

lemma deserialize_nominal:
  assumes key: "fits 24 key" and s: "at_rest s" and te: "unat te * 3 < 2 ^ 30" "unat te * unat g < 2 ^ 30" and g: "15 \<le> unat g" "unat g \<le> 72"
  shows "\<exists>s' e. subghz_protocol_encoder_princeton_deserialize s subghz_protocol_encoder_princeton_alloc (file_of key te g n) =
      Inr (SubGhzProtocolStatusOk, s', e, file_of key te g n) \<and>
    sending_at (pulse_list (nominal_code (unat te) (unat g) key)) 0 (unat n) e"
proof -
  let ?e0 = subghz_protocol_encoder_princeton_alloc
  define g0 where "g0 = (e_generic ?e0)\<lparr>data_count_bit := 24, data := key\<rparr>"
  have u16: "unat (ucast (24 :: u32) :: u16) = 24" by simp
  have read: "subghz_block_generic_deserialize_check_count_bit (e_generic ?e0) (file_of key te g n) 24 = Inr (SubGhzProtocolStatusOk, g0)"
    unfolding subghz_block_generic_deserialize_check_count_bit_def subghz_block_generic_deserialize_def file_of_def
    by (simp add: read_key u16 g0_def Let_def)
  have "data g0 = key" by (simp add: g0_def)
  obtain s' generic where rc: "subghz_protocol_princeton_check_remote_controller (s, g0) = (s', generic)"
    "serial generic = fst (remote key)" "subghz_protocol_princeton_get_btn_code s' = snd (remote key)" "data_count_bit generic = 24"
    using check_remote [OF s, of g0] unfolding \<open>data g0 = key\<close> by (auto simp: g0_def)
  define e1 where "e1 = ?e0\<lparr>e_te := unat te, e_guard_time := unat g, e_generic := generic,
    encoder := (encoder ?e0)\<lparr>repeat := unat n\<rparr>\<rparr>"
  have "fits 32 key" by (rule fitsI) (use fits_bit [OF key] in fastforce)
  then have k: "princeton_key (serial (e_generic e1)) (subghz_protocol_princeton_get_btn_code s') = key"
    using princeton_key_remote [of key] rc by (simp add: e1_def)
  obtain U generic' where up: "subghz_protocol_encoder_princeton_get_upload s' e1 =
      Inr (True, e1\<lparr>e_generic := generic', encoder := (encoder e1)\<lparr>size_upload := 50, upload := pulse_list (nominal_code (unat te) (unat g) key) @ U\<rparr>\<rparr>)"
    "length U = 2" "data generic' = key"
    using get_upload_nominal [OF k, of "unat te" "unat g"] te rc(4)
    by (auto simp: e1_def subghz_protocol_encoder_princeton_alloc_def)
  define e2 where "e2 = e1\<lparr>e_generic := generic', encoder := (encoder e1)\<lparr>size_upload := 50,
    upload := pulse_list (nominal_code (unat te) (unat g) key) @ U, is_running := True\<rparr>\<rparr>"
  have gt: "princeton_guard_time (unat g) = unat g" using g by (simp add: princeton_guard_time_def)
  have sel: "file_rewind (file_of key te g n)" "file_te (file_of key te g n) = Some te" "file_guard_time (file_of key te g n) = Some g"
    "file_repeat (file_of key te g n) = Some n" "file_update (file_of key te g n)"
    "(file_of key te g n)\<lparr>file_key := Some (key_bytes key)\<rparr> = file_of key te g n"
    by (simp_all add: file_of_def)
  have c: "min_count_bit_for_found subghz_protocol_princeton_const = 24" by (simp add: subghz_protocol_princeton_const_def)
  have "subghz_protocol_encoder_princeton_deserialize s ?e0 (file_of key te g n) = Inr (SubGhzProtocolStatusOk, s', e2, file_of key te g n)"
    unfolding subghz_protocol_encoder_princeton_deserialize_def c read bindr_Inr prod.case Let_def
    using up by (simp add: sel rc(1) gt e1_def [symmetric] e2_def)
  moreover have "sending_at (pulse_list (nominal_code (unat te) (unat g) key)) 0 (unat n) e2"
    by (simp add: sending_at_def e2_def e1_def subghz_protocol_encoder_princeton_alloc_def)
  ultimately show ?thesis by blast
qed

section \<open>Nominal codes are heard\<close>

lemma nominal_code_heard:
  assumes "90 < te" "te < 690" and "3240 < te * g" "te * g < 24840"
  shows "code_heard key (nominal_code te g key)"
proof -
  have "690 \<le> te * 3 \<or> te \<le> 270" by linarith
  then have "bit_pair b (nominal_pair te b)" for b using assms(1,2) by (simp add: bit_pair_def nominal_pair_def)
  then have "list_all2 bit_pair (key_bits key) (map (nominal_pair te) (key_bits key))"
    by (simp add: list_all2_conv_all_nth)
  then show ?thesis using assms by (simp add: code_heard_def nominal_code_def guard_pair_def)
qed

lemma nominal_sum: "sum_list (map (\<lambda>(h, l). h + l) (map (nominal_pair te) bs)) = 4 * te * length bs"
  by (induction bs) (auto simp: nominal_pair_def)

lemma nominal_report:
  assumes "report_of key (nominal_code te g key) r" and "0 < te" "te < 690" and g: "15 \<le> g" "g \<le> 72"
  shows "data (d_generic r) = key \<and> data_count_bit (d_generic r) = 24 \<and> d_te r = te \<and> d_guard_time r = g"
proof -
  have te: "(sum_list (map (\<lambda>(h, l). h + l) (butlast (nominal_code te g key))) + fst (last (nominal_code te g key))) div 97 = te"
    unfolding nominal_code_def butlast_snoc nominal_sum by simp
  have "te * g \<le> 690 * 72" using assms by (intro mult_le_mono) simp_all
  then have "round_quotient (te * g) te = Inr g" using assms by (intro round_quotient_exact) simp_all
  moreover have "snd (last (nominal_code te g key)) = te * g" by (simp add: nominal_code_def)
  moreover have "princeton_guard_time g = g" using g by (simp add: princeton_guard_time_def)
  ultimately show ?thesis using assms(1) unfolding report_of_def te Let_def by simp
qed

section \<open>Properties\<close>

text \<open>
  C12: a code heard through a noisy channel. A fresh decoder hears a 24-bit code \<open>n\<close> times, each bit as a
  pair of pulses within the tolerances of the protocol and the guard time between 3.24 and 24.84
  milliseconds. It never stops at a fault, reports the code once for every time it is heard from the
  third on, and reports nothing else.
\<close>

theorem princeton_receives:
  assumes "fits 24 key" and "key \<noteq> 0" and "\<forall>f \<in> set codes. code_heard key f"
  shows "\<exists>reports i. princeton_feed_all subghz_protocol_decoder_princeton_alloc (pair_pulses (concat codes)) = Inr (reports, i) \<and>
    length reports = length codes - 2 \<and> (\<forall>r \<in> set reports. data (d_generic r) = key \<and> data_count_bit (d_generic r) = 24)"
proof -
  obtain reports i where r: "princeton_feed_all subghz_protocol_decoder_princeton_alloc (pair_pulses (concat codes)) = Inr (reports, i)"
    "list_all2 (report_of key) (drop 2 codes) reports"
    using fresh_codes [OF assms] by blast
  have "data (d_generic x) = key \<and> data_count_bit (d_generic x) = 24" if "x \<in> set reports" for x
    using r(2) that by (auto simp: list_all2_conv_all_nth in_set_conv_nth report_of_def)
  moreover have "length reports = length codes - 2" using r(2) by (auto dest: list_all2_lengthD)
  ultimately show ?thesis using r(1) by blast
qed

theorem princeton_receives_witness:
  "\<exists>reports i. princeton_feed_all subghz_protocol_decoder_princeton_alloc
      (pair_pulses (concat [nominal_code 400 30 0x123456, nominal_code 380 31 0x123456, nominal_code 420 29 0x123456])) = Inr (reports, i) \<and>
    length reports = 1 \<and> (\<forall>r \<in> set reports. data (d_generic r) = 0x123456)"
proof -
  let ?codes = "[nominal_code 400 30 0x123456, nominal_code 380 31 0x123456, nominal_code 420 29 0x123456]"
  have "fits 24 (0x123456 :: u64)" by (simp add: fits_def take_bit_eq_mod)
  moreover have "(0x123456 :: u64) \<noteq> 0" by simp
  moreover have "\<forall>f \<in> set ?codes. code_heard 0x123456 f" by (simp add: nominal_code_heard)
  ultimately obtain reports i where "princeton_feed_all subghz_protocol_decoder_princeton_alloc (pair_pulses (concat ?codes)) = Inr (reports, i)"
    "length reports = length ?codes - 2" "\<forall>r \<in> set reports. data (d_generic r) = 0x123456 \<and> data_count_bit (d_generic r) = 24"
    using princeton_receives [of "0x123456" ?codes] by blast
  then show ?thesis by (intro exI [of _ reports] exI [of _ i]) simp
qed

text \<open>
  C11: replay. A key file with a 24-bit code is loaded into a fresh encoder, no other button being
  chosen: the code is taken apart into serial number and button and rebuilt, the file keeps its key, and
  what is sent, \<open>n\<close> codes and a reset, is heard by a fresh decoder, which reports the code, the
  duration of its short pulse and its guard time exactly: a file made of the report is the file that was
  loaded.
\<close>

theorem princeton_replay:
  assumes "fits 24 key" and "key \<noteq> 0" and "at_rest s" and "90 < unat te" "unat te < 690"
    and "15 \<le> unat g" "unat g \<le> 72" and "3240 < unat te * unat g" "unat te * unat g < 24840"
  shows "\<exists>s' e sent e' reports i.
    subghz_protocol_encoder_princeton_deserialize s subghz_protocol_encoder_princeton_alloc (file_of key te g n) =
      Inr (SubGhzProtocolStatusOk, s', e, file_of key te g n) \<and>
    princeton_yields (unat n * 50 + 1) e = Inr (sent @ [LevelReset], e') \<and>
    princeton_feed_all subghz_protocol_decoder_princeton_alloc (merged (sent @ [LevelReset])) = Inr (reports, i) \<and>
    length reports = unat n - 2 \<and>
    (\<forall>r \<in> set reports. data (d_generic r) = key \<and> data_count_bit (d_generic r) = 24 \<and> d_te r = unat te \<and> d_guard_time r = unat g)"
proof -
  let ?code = "nominal_code (unat te) (unat g) key"
  obtain s' e where e: "subghz_protocol_encoder_princeton_deserialize s subghz_protocol_encoder_princeton_alloc (file_of key te g n) =
      Inr (SubGhzProtocolStatusOk, s', e, file_of key te g n)" "sending_at (pulse_list ?code) 0 (unat n) e"
    using deserialize_nominal [OF assms(1,3), of te g n] assms by auto
  have "length (pulse_list ?code) \<noteq> 0" by simp
  then have ne: "pulse_list ?code \<noteq> []" by (simp only: length_0_conv not_False_eq_True)
  obtain e' where sent: "princeton_yields (unat n * 50 + 1) e = Inr (concat (replicate (unat n) (pulse_list ?code)) @ [LevelReset], e')"
    using yields_all [OF e(2) ne] by auto
  have "concat (replicate m (pulse_list ?code)) = pulse_list (concat (replicate m ?code))" for m
    by (induction m) simp_all
  then have heard: "merged (concat (replicate (unat n) (pulse_list ?code)) @ [LevelReset]) = pair_pulses (concat (replicate (unat n) ?code))"
    by (simp add: merged_pulse_list)
  have "\<forall>f \<in> set (replicate (unat n) ?code). code_heard key f" using nominal_code_heard assms by auto
  then obtain reports i where r: "princeton_feed_all subghz_protocol_decoder_princeton_alloc (pair_pulses (concat (replicate (unat n) ?code))) = Inr (reports, i)"
    "list_all2 (report_of key) (drop 2 (replicate (unat n) ?code)) reports"
    using fresh_codes [OF assms(1,2)] by blast
  have l: "length reports = unat n - 2" using r(2) by (auto dest: list_all2_lengthD)
  have "report_of key ?code x" if "x \<in> set reports" for x
    using r(2) that by (auto simp: list_all2_conv_all_nth in_set_conv_nth)
  then have "\<forall>x \<in> set reports. data (d_generic x) = key \<and> data_count_bit (d_generic x) = 24 \<and> d_te x = unat te \<and> d_guard_time x = unat g"
    using assms by (intro ballI nominal_report) simp_all
  then show ?thesis
    using e(1) sent r(1) l heard
    by (intro exI [of _ s'] exI [of _ e] exI [of _ "concat (replicate (unat n) (pulse_list ?code))"] exI [of _ e'] exI [of _ reports] exI [of _ i]) simp
qed

theorem princeton_replay_witness:
  "\<exists>s' e sent e' reports i.
    subghz_protocol_encoder_princeton_deserialize \<lparr>custom_btn_id = 0, custom_btn_original = 0, custom_btn_max_btns = 0, controller_programming_mode = 0\<rparr>
      subghz_protocol_encoder_princeton_alloc (file_of 0x1234F3 400 31 10) = Inr (SubGhzProtocolStatusOk, s', e, file_of 0x1234F3 400 31 10) \<and>
    princeton_yields 501 e = Inr (sent @ [LevelReset], e') \<and>
    princeton_feed_all subghz_protocol_decoder_princeton_alloc (merged (sent @ [LevelReset])) = Inr (reports, i) \<and> length reports = 8"
proof -
  have "at_rest \<lparr>custom_btn_id = 0, custom_btn_original = 0, custom_btn_max_btns = 0, controller_programming_mode = 0\<rparr>"
    by (simp add: at_rest_def subghz_custom_btn_get_def subghz_custom_btn_get_original_def SUBGHZ_CUSTOM_BTN_OK_def)
  moreover have "fits 24 (0x1234F3 :: u64)" by (simp add: fits_def take_bit_eq_mod)
  ultimately show ?thesis using princeton_replay [of "0x1234F3" _ 400 31 10] by fastforce
qed

end
