(* ===== verification/Dolphin.thy ===== *)
theory Dolphin
  imports Bytes
begin

text \<open>
  The pet of the device (\<^verbatim>\<open>applications/services/dolphin/helpers\<close>): deeds give experience within daily
  limits (\<^verbatim>\<open>dolphin_deed.c\<close>), experience makes levels, and neglect makes it sad (\<^verbatim>\<open>dolphin_state.c\<close>).
\<close>

section \<open>Deeds\<close>

datatype dolphin_app =
  DolphinAppSubGhz | DolphinAppRfid | DolphinAppNfc | DolphinAppIr | DolphinAppIbutton | DolphinAppBadusb |
  DolphinAppPlugin | DolphinAppMAX

datatype dolphin_deed =
  DolphinDeedSubGhzReceiverInfo | DolphinDeedSubGhzSave | DolphinDeedSubGhzRawRec | DolphinDeedSubGhzAddManually |
  DolphinDeedSubGhzSend | DolphinDeedSubGhzFrequencyAnalyzer | DolphinDeedRfidRead | DolphinDeedRfidReadSuccess |
  DolphinDeedRfidSave | DolphinDeedRfidEmulate | DolphinDeedRfidAdd | DolphinDeedNfcRead | DolphinDeedNfcReadSuccess |
  DolphinDeedNfcSave | DolphinDeedNfcDetectReader | DolphinDeedNfcEmulate | DolphinDeedNfcMfcAdd | DolphinDeedNfcAddSave |
  DolphinDeedNfcAddEmulate | DolphinDeedIrSend | DolphinDeedIrLearnSuccess | DolphinDeedIrSave | DolphinDeedIbuttonRead |
  DolphinDeedIbuttonReadSuccess | DolphinDeedIbuttonSave | DolphinDeedIbuttonEmulate | DolphinDeedIbuttonAdd |
  DolphinDeedBadUsbPlayScript | DolphinDeedU2fAuthorized | DolphinDeedGpioUartBridge | DolphinDeedPluginStart |
  DolphinDeedPluginGameStart | DolphinDeedPluginGameWin | DolphinDeedMAX | DolphinDeedTestLeft | DolphinDeedTestRight

text \<open>The enumerations by value.\<close>

definition dolphin_apps :: "dolphin_app list" where
  "dolphin_apps = [DolphinAppSubGhz, DolphinAppRfid, DolphinAppNfc, DolphinAppIr, DolphinAppIbutton, DolphinAppBadusb, DolphinAppPlugin,
     DolphinAppMAX]"

definition dolphin_deeds :: "dolphin_deed list" where
  "dolphin_deeds =
     [DolphinDeedSubGhzReceiverInfo, DolphinDeedSubGhzSave, DolphinDeedSubGhzRawRec, DolphinDeedSubGhzAddManually,
      DolphinDeedSubGhzSend, DolphinDeedSubGhzFrequencyAnalyzer, DolphinDeedRfidRead, DolphinDeedRfidReadSuccess,
      DolphinDeedRfidSave, DolphinDeedRfidEmulate, DolphinDeedRfidAdd, DolphinDeedNfcRead, DolphinDeedNfcReadSuccess,
      DolphinDeedNfcSave, DolphinDeedNfcDetectReader, DolphinDeedNfcEmulate, DolphinDeedNfcMfcAdd, DolphinDeedNfcAddSave,
      DolphinDeedNfcAddEmulate, DolphinDeedIrSend, DolphinDeedIrLearnSuccess, DolphinDeedIrSave, DolphinDeedIbuttonRead,
      DolphinDeedIbuttonReadSuccess, DolphinDeedIbuttonSave, DolphinDeedIbuttonEmulate, DolphinDeedIbuttonAdd,
      DolphinDeedBadUsbPlayScript, DolphinDeedU2fAuthorized, DolphinDeedGpioUartBridge, DolphinDeedPluginStart,
      DolphinDeedPluginGameStart, DolphinDeedPluginGameWin, DolphinDeedMAX, DolphinDeedTestLeft, DolphinDeedTestRight]"

fun position :: "'a \<Rightarrow> 'a list \<Rightarrow> nat" where
  "position x [] = 0"
| "position x (y # ys) = (if x = y then 0 else Suc (position x ys))"

definition app_code :: "dolphin_app \<Rightarrow> nat" where
  "app_code app = position app dolphin_apps"

definition deed_code :: "dolphin_deed \<Rightarrow> nat" where
  "deed_code deed = position deed dolphin_deeds"

definition dolphin_deed_weights :: "(nat \<times> dolphin_app) list" where
  "dolphin_deed_weights =
     [(5, DolphinAppSubGhz), (15, DolphinAppSubGhz), (5, DolphinAppSubGhz), (10, DolphinAppSubGhz), (10, DolphinAppSubGhz),
      (5, DolphinAppSubGhz), (5, DolphinAppRfid), (15, DolphinAppRfid), (15, DolphinAppRfid), (10, DolphinAppRfid),
      (10, DolphinAppRfid), (5, DolphinAppNfc), (15, DolphinAppNfc), (5, DolphinAppNfc), (5, DolphinAppNfc),
      (10, DolphinAppNfc), (10, DolphinAppNfc), (5, DolphinAppNfc), (5, DolphinAppNfc), (5, DolphinAppIr),
      (15, DolphinAppIr), (15, DolphinAppIr), (5, DolphinAppIbutton), (15, DolphinAppIbutton), (15, DolphinAppIbutton),
      (10, DolphinAppIbutton), (10, DolphinAppIbutton), (15, DolphinAppBadusb), (15, DolphinAppPlugin),
      (5, DolphinAppPlugin), (5, DolphinAppPlugin), (5, DolphinAppPlugin), (20, DolphinAppPlugin)]"

definition dolphin_deed_limits :: "nat list" where
  "dolphin_deed_limits = [100, 100, 100, 100, 100, 100, 200]"

definition dolphin_deed_get_weight :: "dolphin_deed \<Rightarrow> nat res" where
  "dolphin_deed_get_weight deed =
     bindr (furi_check (deed_code deed < deed_code DolphinDeedMAX)) (\<lambda>_.
     bindr (list_get dolphin_deed_weights (deed_code deed)) (\<lambda>w. Inr (fst w)))"

definition dolphin_deed_get_app :: "dolphin_deed \<Rightarrow> dolphin_app res" where
  "dolphin_deed_get_app deed =
     bindr (furi_check (deed_code deed < deed_code DolphinDeedMAX)) (\<lambda>_.
     bindr (list_get dolphin_deed_weights (deed_code deed)) (\<lambda>w. Inr (snd w)))"

definition dolphin_deed_get_app_limit :: "dolphin_app \<Rightarrow> nat res" where
  "dolphin_deed_get_app_limit app =
     bindr (furi_check (app_code app < app_code DolphinAppMAX)) (\<lambda>_. list_get dolphin_deed_limits (app_code app))"

section \<open>State\<close>

record dolphin_store_data =
  icounter_daily_limit :: "nat list"
  butthurt_daily_limit :: nat
  flags :: u32
  icounter :: nat
  butthurt :: int
  timestamp :: nat

record dolphin_state =
  pet :: dolphin_store_data
  dirty :: bool

definition BUTTHURT_MAX :: int where "BUTTHURT_MAX = 14"
definition BUTTHURT_MIN :: int where "BUTTHURT_MIN = 0"

definition DOLPHIN_LEVELS :: "nat list" where
  "DOLPHIN_LEVELS =
     [500, 1250, 2250, 3500, 5000, 6750, 8750, 11000, 13500, 16250, 19250, 22500, 26000, 29750, 33750, 38000,
      42500, 47250, 52250, 58250, 65250, 73250, 82250, 92250, 103250, 115250, 128250, 142250, 157250]"

definition DOLPHIN_LEVEL_COUNT :: nat where
  "DOLPHIN_LEVEL_COUNT = length DOLPHIN_LEVELS"

definition dolphin_zeroed :: dolphin_store_data where
  "dolphin_zeroed = \<lparr>icounter_daily_limit = replicate 7 0, butthurt_daily_limit = 0, flags = 0, icounter = 0, butthurt = 0, timestamp = 0\<rparr>"

definition dolphin_state_alloc :: dolphin_state where
  "dolphin_state_alloc = \<lparr>pet = dolphin_zeroed, dirty = False\<rparr>"

definition dolphin_state_max_level :: nat where
  "dolphin_state_max_level = (DOLPHIN_LEVEL_COUNT + 1) mod 2 ^ 8"

text \<open>Whether the file was written, and what was read from it, are the results of the storage calls.\<close>

definition dolphin_state_save :: "bool \<Rightarrow> dolphin_state \<Rightarrow> bool \<times> dolphin_state" where
  "dolphin_state_save written s =
     (if \<not> dirty s then (True, s) else if written then (True, s\<lparr>dirty := False\<rparr>) else (False, s))"

definition dolphin_state_load :: "dolphin_store_data option \<Rightarrow> dolphin_state \<Rightarrow> bool \<times> dolphin_state" where
  "dolphin_state_load stored s =
     (case stored of
        Some d \<Rightarrow> if butthurt d > BUTTHURT_MAX \<or> butthurt d < BUTTHURT_MIN
                  then (False, \<lparr>pet = dolphin_zeroed, dirty = True\<rparr>) else (True, s\<lparr>pet := d\<rparr>)
      | None \<Rightarrow> (False, \<lparr>pet = dolphin_zeroed, dirty = True\<rparr>))"

section \<open>Levels\<close>

definition dolphin_state_is_levelup :: "nat \<Rightarrow> bool" where
  "dolphin_state_is_levelup xp \<longleftrightarrow> (\<exists>i \<in> set [0..<DOLPHIN_LEVEL_COUNT]. xp = DOLPHIN_LEVELS ! i)"

definition dolphin_get_level :: "nat \<Rightarrow> nat" where
  "dolphin_get_level xp =
     (case find (\<lambda>i. xp \<le> DOLPHIN_LEVELS ! i) [0..<DOLPHIN_LEVEL_COUNT] of
        Some i \<Rightarrow> (i + 1) mod 2 ^ 8 | None \<Rightarrow> (DOLPHIN_LEVEL_COUNT + 1) mod 2 ^ 8)"

text \<open>Differences of unsigned numbers wrap around; \<open>xp\<close> is below \<open>2 ^ 32\<close>.\<close>

definition sub32 :: "nat \<Rightarrow> nat \<Rightarrow> nat" where
  "sub32 x y = nat ((int x - int y) mod 2 ^ 32)"

definition dolphin_state_xp_above_last_levelup :: "nat \<Rightarrow> nat" where
  "dolphin_state_xp_above_last_levelup xp =
     (let level_idx = dolphin_get_level xp - 1
      in if level_idx > 0 then sub32 xp (DOLPHIN_LEVELS ! (level_idx - 1)) else xp)"

definition dolphin_state_xp_to_levelup :: "nat \<Rightarrow> nat" where
  "dolphin_state_xp_to_levelup xp =
     (let level_idx = dolphin_get_level xp - 1
      in if level_idx < DOLPHIN_LEVEL_COUNT then sub32 (DOLPHIN_LEVELS ! level_idx) xp else 2 ^ 32 - 1)"

section \<open>Operations\<close>

definition CLAMP :: "int \<Rightarrow> int \<Rightarrow> int \<Rightarrow> int" where
  "CLAMP x upper lower = min upper (max x lower)"

definition int8_of :: "int \<Rightarrow> int" where
  "int8_of x = (if x mod 2 ^ 8 < 2 ^ 7 then x mod 2 ^ 8 else x mod 2 ^ 8 - 2 ^ 8)"

text \<open>The points that a deed is worth today, as an unsigned byte.\<close>

definition deed_points :: "nat \<Rightarrow> nat \<Rightarrow> nat \<Rightarrow> nat" where
  "deed_points weight limit used =
     (let weight_limit = int8_of (int limit - int used) in nat (CLAMP (int weight) weight_limit 0 mod 2 ^ 8))"

definition butthurt_level :: "nat \<Rightarrow> nat" where
  "butthurt_level n = n div 15 + (if n mod 15 = 0 then 0 else 1)"

text \<open>The rest of the handler, after the experience: \<open>points\<close> also cheer the pet up.\<close>

definition cheer_up :: "nat \<Rightarrow> nat \<Rightarrow> dolphin_store_data \<Rightarrow> dolphin_store_data" where
  "cheer_up now points d =
     (let level_old = butthurt_level (butthurt_daily_limit d);
          limit = nat (CLAMP (int (butthurt_daily_limit d) + int points) 46 0);
          level_new = butthurt_level limit;
          new_butthurt = CLAMP (butthurt d - (if level_old \<noteq> level_new then 1 else 0)) BUTTHURT_MAX BUTTHURT_MIN;
          new_butthurt = (if new_butthurt \<ge> 7 then BUTTHURT_MIN else new_butthurt)
      in d\<lparr>butthurt_daily_limit := limit, butthurt := new_butthurt, timestamp := now\<rparr>)"

definition dolphin_state_on_deed :: "nat \<Rightarrow> dolphin_state \<Rightarrow> dolphin_deed \<Rightarrow> dolphin_state res" where
  "dolphin_state_on_deed now s deed =
     (let d = pet s in
      if deed_code deed > deed_code DolphinDeedMAX then
        Inr (if deed = DolphinDeedTestLeft
             then s\<lparr>pet := d\<lparr>butthurt := CLAMP (butthurt d + 1) BUTTHURT_MAX BUTTHURT_MIN,
                    icounter := (if icounter d > 0 then icounter d - 1 else icounter d), timestamp := now\<rparr>, dirty := True\<rparr>
             else if deed = DolphinDeedTestRight
             then s\<lparr>pet := d\<lparr>butthurt := BUTTHURT_MIN,
                    icounter := (if icounter d < 2 ^ 32 - 1 then icounter d + 1 else icounter d), timestamp := now\<rparr>, dirty := True\<rparr>
             else s)
      else
        bindr (dolphin_deed_get_app deed) (\<lambda>app.
        bindr (dolphin_deed_get_app_limit app) (\<lambda>limit.
        bindr (list_get (icounter_daily_limit d) (app_code app)) (\<lambda>used.
        bindr (dolphin_deed_get_weight deed) (\<lambda>weight.
          let points = deed_points weight limit used;
              xp_to_levelup = dolphin_state_xp_to_levelup (icounter d);
              gained = (if xp_to_levelup \<noteq> 0 then min xp_to_levelup points else points)
          in bindr (if xp_to_levelup \<noteq> 0
                    then bindr (list_set (icounter_daily_limit d) (app_code app) ((used + gained) mod 2 ^ 8)) (\<lambda>l.
                      Inr (d\<lparr>icounter := (icounter d + gained) mod 2 ^ 32, icounter_daily_limit := l\<rparr>))
                    else Inr d) (\<lambda>d.
             Inr (s\<lparr>pet := cheer_up now gained d, dirty := True\<rparr>)))))))"

definition dolphin_state_butthurted :: "nat \<Rightarrow> dolphin_state \<Rightarrow> dolphin_state" where
  "dolphin_state_butthurted now s =
     (if butthurt (pet s) < BUTTHURT_MAX
      then s\<lparr>pet := (pet s)\<lparr>butthurt := butthurt (pet s) + 1, timestamp := now\<rparr>, dirty := True\<rparr> else s)"

definition dolphin_state_increase_level :: "dolphin_state \<Rightarrow> dolphin_state res" where
  "dolphin_state_increase_level s =
     bindr (furi_assert (dolphin_state_is_levelup (icounter (pet s)))) (\<lambda>_.
       Inr (s\<lparr>pet := (pet s)\<lparr>icounter := inc32 (icounter (pet s))\<rparr>, dirty := True\<rparr>))"

definition dolphin_state_clear_limits :: "dolphin_state \<Rightarrow> dolphin_state res" where
  "dolphin_state_clear_limits s =
     bindr (for_each (\<lambda>i l. list_set l i 0) [0..<7] (icounter_daily_limit (pet s))) (\<lambda>l.
       Inr (s\<lparr>pet := (pet s)\<lparr>icounter_daily_limit := l, butthurt_daily_limit := 0\<rparr>, dirty := True\<rparr>))"

end
