(* ===== verification/Dolphin_Facts.thy ===== *)
theory Dolphin_Facts
  imports Dolphin
begin

text \<open>
  The pet's invariant, which every operation keeps, also on a pet loaded from any file, and what a deed is worth.
\<close>

section \<open>Tables\<close>

lemma dolphin_max: "deed_code DolphinDeedMAX = 33" "app_code DolphinAppMAX = 7"
  by (simp_all add: deed_code_def app_code_def dolphin_deeds_def dolphin_apps_def)

lemma app_codes [simp]:
  "app_code DolphinAppSubGhz = 0" "app_code DolphinAppRfid = 1" "app_code DolphinAppNfc = 2" "app_code DolphinAppIr = 3"
  "app_code DolphinAppIbutton = 4" "app_code DolphinAppBadusb = 5" "app_code DolphinAppPlugin = 6"
  by (simp_all add: app_code_def dolphin_apps_def)

lemma deed_table:
  assumes "deed_code deed < deed_code DolphinDeedMAX"
  shows "\<exists>app w. dolphin_deed_get_app deed = Inr app \<and> dolphin_deed_get_weight deed = Inr w \<and> app_code app < 7 \<and> w \<le> 20 \<and>
    dolphin_deed_get_app_limit app = Inr (dolphin_deed_limits ! app_code app)"
proof -
  have n: "deed_code deed < length dolphin_deed_weights"
    using assms by (simp add: dolphin_max dolphin_deed_weights_def)
  have "\<forall>x \<in> set dolphin_deed_weights. fst x \<le> 20 \<and> app_code (snd x) < 7"
    by (simp add: dolphin_deed_weights_def)
  then have "fst (dolphin_deed_weights ! deed_code deed) \<le> 20" "app_code (snd (dolphin_deed_weights ! deed_code deed)) < 7"
    using nth_mem [OF n] by blast+
  then show ?thesis
    using assms n
    by (simp add: dolphin_deed_get_app_def dolphin_deed_get_weight_def dolphin_deed_get_app_limit_def list_get_def dolphin_max dolphin_deed_limits_def)
qed

lemma deed_weight_pos:
  assumes "deed_code deed < deed_code DolphinDeedMAX"
  shows "dolphin_deed_get_weight deed \<noteq> Inr 0"
proof -
  have n: "deed_code deed < length dolphin_deed_weights"
    using assms by (simp add: dolphin_max dolphin_deed_weights_def)
  have "\<forall>x \<in> set dolphin_deed_weights. fst x \<noteq> 0" by (simp add: dolphin_deed_weights_def)
  then have "fst (dolphin_deed_weights ! deed_code deed) \<noteq> 0" using nth_mem [OF n] by blast
  then show ?thesis using assms n by (simp add: dolphin_deed_get_weight_def list_get_def)
qed

lemma limits_range: "i < 7 \<Longrightarrow> dolphin_deed_limits ! i \<le> 200"
  and limits_pos: "i < 7 \<Longrightarrow> 0 < dolphin_deed_limits ! i"
proof -
  assume "i < 7"
  then have "dolphin_deed_limits ! i \<in> set dolphin_deed_limits" by (intro nth_mem) (simp add: dolphin_deed_limits_def)
  then show "dolphin_deed_limits ! i \<le> 200" "0 < dolphin_deed_limits ! i" by (auto simp: dolphin_deed_limits_def)
qed

section \<open>Points\<close>

text \<open>
  What is left of the daily limit is computed in 8 bits and read as a signed byte: when it is more than 127 it
  is negative there, and the deed is worth all of it. A counter above its limit, which only a stored file can
  bring, makes the difference wrap around.
\<close>

definition points_left :: "nat \<Rightarrow> nat \<Rightarrow> nat" where
  "points_left limit used = nat ((int limit - int used) mod 2 ^ 8)"

lemma points_left_less: "points_left limit used < 256"
  by (simp add: points_left_def nat_less_iff)

lemma points_left_within: "used \<le> limit \<Longrightarrow> limit < 256 \<Longrightarrow> points_left limit used = limit - used"
  by (simp add: points_left_def mod_pos_pos_trivial)

lemma deed_points_eq:
  assumes "w \<le> 127"
  shows "deed_points w limit used = (if points_left limit used \<le> 127 then min w (points_left limit used) else points_left limit used)"
proof -
  define r where "r = (int limit - int used) mod 256"
  have r: "0 \<le> r" "r < 256" and left: "points_left limit used = nat r" by (simp_all add: r_def points_left_def)
  have points: "deed_points w limit used = nat (CLAMP (int w) (if r < 128 then r else r - 256) 0 mod 256)"
    by (simp add: deed_points_def int8_of_def r_def)
  show ?thesis
  proof (cases "r < 128")
    case True
    have "CLAMP (int w) r 0 = int (min w (nat r))" unfolding CLAMP_def using r by linarith
    moreover have "int (min w (nat r)) mod 256 = int (min w (nat r))" using assms by (intro mod_pos_pos_trivial) auto
    ultimately show ?thesis using True r by (simp add: points left nat_le_iff)
  next
    case False
    have "CLAMP (int w) (r - 256) 0 = r - 256" unfolding CLAMP_def using r by linarith
    moreover have "(r - 256) mod 256 = r" using r minus_mod_self2 [of r 256] by simp
    ultimately show ?thesis using False r by (simp add: points left nat_le_iff)
  qed
qed

section \<open>Levels\<close>

lemma sub32_le: "y \<le> x \<Longrightarrow> x < 2 ^ 32 \<Longrightarrow> sub32 x y = x - y"
  by (simp add: sub32_def flip: of_nat_diff)

lemma find_upt_Some: "find P [0..<n] = Some i \<longleftrightarrow> i < n \<and> P i \<and> (\<forall>j < i. \<not> P j)"
  by (auto simp: find_Some_iff)

definition level_index :: "nat \<Rightarrow> nat option" where
  "level_index xp = find (\<lambda>i. xp \<le> DOLPHIN_LEVELS ! i) [0..<DOLPHIN_LEVEL_COUNT]"

lemma level_count [simp]: "DOLPHIN_LEVEL_COUNT = 29"
  by (simp add: DOLPHIN_LEVEL_COUNT_def DOLPHIN_LEVELS_def)

lemma levels_bound: "i < 29 \<Longrightarrow> DOLPHIN_LEVELS ! i < 2 ^ 18"
proof -
  assume "i < 29"
  then have "DOLPHIN_LEVELS ! i \<in> set DOLPHIN_LEVELS" by (intro nth_mem) (simp add: DOLPHIN_LEVELS_def)
  then show ?thesis by (auto simp: DOLPHIN_LEVELS_def)
qed

lemma levels_small: "i < 29 \<Longrightarrow> DOLPHIN_LEVELS ! i < 2 ^ 32"
  using levels_bound [of i] by simp

lemma levels_sorted: "sorted_wrt (<) DOLPHIN_LEVELS"
  by (simp add: DOLPHIN_LEVELS_def)

lemma levels_less: "i < j \<Longrightarrow> j < 29 \<Longrightarrow> DOLPHIN_LEVELS ! i < DOLPHIN_LEVELS ! j"
  using sorted_wrt_nth_less [OF levels_sorted, of i j] by (simp add: DOLPHIN_LEVELS_def)

lemma level_index_Some: "level_index xp = Some i \<longleftrightarrow> i < 29 \<and> xp \<le> DOLPHIN_LEVELS ! i \<and> (\<forall>j < i. \<not> xp \<le> DOLPHIN_LEVELS ! j)"
  by (simp add: level_index_def find_upt_Some)

lemma level_index_None: "level_index xp = None \<longleftrightarrow> (\<forall>i < 29. \<not> xp \<le> DOLPHIN_LEVELS ! i)"
  by (auto simp: level_index_def find_None_iff)

lemma level_of_index:
  "level_index xp = Some i \<Longrightarrow> dolphin_get_level xp = i + 1"
  "level_index xp = None \<Longrightarrow> dolphin_get_level xp = 30"
  unfolding dolphin_get_level_def level_index_def [symmetric] using level_index_Some [of xp i] by simp_all

lemma xp_to_levelup_eq:
  "dolphin_state_xp_to_levelup xp = (case level_index xp of Some i \<Rightarrow> DOLPHIN_LEVELS ! i - xp | None \<Rightarrow> 2 ^ 32 - 1)"
proof (cases "level_index xp")
  case (Some i)
  then have "i < 29" "xp \<le> DOLPHIN_LEVELS ! i" by (simp_all add: level_index_Some)
  then show ?thesis
    using Some level_of_index(1) [OF Some] sub32_le [of xp "DOLPHIN_LEVELS ! i"] levels_small [of i]
    by (simp add: dolphin_state_xp_to_levelup_def)
next
  case None
  then show ?thesis using level_of_index(2) [OF None] by (simp add: dolphin_state_xp_to_levelup_def)
qed

text \<open>Experience up to the next threshold does not change the level.\<close>

lemma level_kept:
  assumes "gained \<le> dolphin_state_xp_to_levelup xp"
  shows "dolphin_get_level (xp + gained) = dolphin_get_level xp"
proof (cases "level_index xp")
  case (Some i)
  then have i: "i < 29" "xp \<le> DOLPHIN_LEVELS ! i" "\<forall>j < i. \<not> xp \<le> DOLPHIN_LEVELS ! j" by (simp_all add: level_index_Some)
  then have "level_index (xp + gained) = Some i"
    using assms by (simp add: xp_to_levelup_eq Some) (auto simp: level_index_Some)
  then show ?thesis using level_of_index(1) Some by simp
next
  case None
  then have "\<forall>i < 29. \<not> xp \<le> DOLPHIN_LEVELS ! i" by (auto simp: level_index_None)
  then have "level_index (xp + gained) = None" by (auto simp: level_index_None)
  then show ?thesis using level_of_index(2) None by simp
qed

lemma levelup_index: "xp = DOLPHIN_LEVELS ! i \<Longrightarrow> i < 29 \<Longrightarrow> level_index xp = Some i"
  using levels_less [of _ i] by (auto simp: level_index_Some not_le)

lemma levelup_iff: "dolphin_state_is_levelup xp \<longleftrightarrow> dolphin_state_xp_to_levelup xp = 0"
proof
  assume "dolphin_state_is_levelup xp"
  then obtain i where "i < 29" "xp = DOLPHIN_LEVELS ! i" by (auto simp: dolphin_state_is_levelup_def)
  then show "dolphin_state_xp_to_levelup xp = 0" using levelup_index [of xp i] by (simp add: xp_to_levelup_eq)
next
  assume z: "dolphin_state_xp_to_levelup xp = 0"
  show "dolphin_state_is_levelup xp"
  proof (cases "level_index xp")
    case (Some i)
    then have "i < 29" "xp \<le> DOLPHIN_LEVELS ! i" by (simp_all add: level_index_Some)
    moreover have "xp = DOLPHIN_LEVELS ! i" using z Some calculation by (simp add: xp_to_levelup_eq)
    ultimately show ?thesis by (auto simp: dolphin_state_is_levelup_def)
  qed (use z in \<open>simp add: xp_to_levelup_eq\<close>)
qed

lemma level_after: "dolphin_state_is_levelup xp \<Longrightarrow> dolphin_get_level (xp + 1) = dolphin_get_level xp + 1"
proof -
  assume "dolphin_state_is_levelup xp"
  then obtain i where i: "i < 29" "xp = DOLPHIN_LEVELS ! i" by (auto simp: dolphin_state_is_levelup_def)
  have now: "dolphin_get_level xp = i + 1" using level_of_index(1) levelup_index [OF i(2,1)] by blast
  have below: "\<not> xp + 1 \<le> DOLPHIN_LEVELS ! j" if "j \<le> i" for j
    using levels_less [of j i] that i by (cases "j = i") auto
  show ?thesis
  proof (cases "i = 28")
    case True
    then have "level_index (xp + 1) = None" using below by (auto simp: level_index_None)
    then show ?thesis using level_of_index(2) now True by simp
  next
    case False
    then have "xp + 1 \<le> DOLPHIN_LEVELS ! (i + 1)" using levels_less [of i "i + 1"] i by simp
    then have "level_index (xp + 1) = Some (i + 1)" using False i below by (auto simp: level_index_Some less_Suc_eq_le)
    then show ?thesis using level_of_index(1) now by simp
  qed
qed

section \<open>The invariant\<close>

definition dolphin_ok :: "dolphin_store_data \<Rightarrow> bool" where
  "dolphin_ok d \<longleftrightarrow> length (icounter_daily_limit d) = 7 \<and> (\<forall>i < 7. icounter_daily_limit d ! i < 2 ^ 8) \<and>
     butthurt_daily_limit d < 2 ^ 8 \<and> BUTTHURT_MIN \<le> butthurt d \<and> butthurt d \<le> BUTTHURT_MAX \<and> icounter d < 2 ^ 32"

text \<open>The daily counters within their limits.\<close>

definition within_limits :: "dolphin_store_data \<Rightarrow> bool" where
  "within_limits d \<longleftrightarrow> (\<forall>i < 7. icounter_daily_limit d ! i \<le> dolphin_deed_limits ! i) \<and> butthurt_daily_limit d \<le> 46"

lemma cheer_up_ok:
  "dolphin_ok d \<Longrightarrow> dolphin_ok (cheer_up now points d)"
  "within_limits d \<Longrightarrow> within_limits (cheer_up now points d)"
  "icounter (cheer_up now points d) = icounter d" "icounter_daily_limit (cheer_up now points d) = icounter_daily_limit d"
  by (auto simp: dolphin_ok_def within_limits_def cheer_up_def Let_def CLAMP_def BUTTHURT_MIN_def BUTTHURT_MAX_def)

lemma cheer_up_mood:
  "dolphin_ok d \<Longrightarrow> butthurt (cheer_up now points d) \<le> butthurt d"
  "butthurt (cheer_up now points d) < 7" "timestamp (cheer_up now points d) = now"
  by (auto simp: dolphin_ok_def cheer_up_def Let_def CLAMP_def BUTTHURT_MIN_def BUTTHURT_MAX_def)

text \<open>What a deed gains: its points, up to the next threshold of a level.\<close>

definition deed_gain :: "nat \<Rightarrow> nat \<Rightarrow> nat \<Rightarrow> nat" where
  "deed_gain xp w left = min (dolphin_state_xp_to_levelup xp) (if left \<le> 127 then min w left else left)"

lemma on_deed_eq:
  assumes deed: "deed_code deed < deed_code DolphinDeedMAX" and ok: "dolphin_ok (pet s)"
  shows "\<exists>app w d. dolphin_deed_get_app deed = Inr app \<and> dolphin_deed_get_weight deed = Inr w \<and> app_code app < 7 \<and>
    (let used = icounter_daily_limit (pet s) ! app_code app;
         left = points_left (dolphin_deed_limits ! app_code app) used;
         gained = deed_gain (icounter (pet s)) w left
     in gained \<le> left \<and>
        dolphin_state_on_deed now s deed = Inr (s\<lparr>pet := d, dirty := True\<rparr>) \<and> dolphin_ok d \<and>
        (within_limits (pet s) \<longrightarrow> within_limits d) \<and>
        icounter d = (icounter (pet s) + gained) mod 2 ^ 32 \<and>
        icounter_daily_limit d = (icounter_daily_limit (pet s))[app_code app := (used + gained) mod 2 ^ 8] \<and>
        butthurt d \<le> butthurt (pet s) \<and> butthurt d < 7 \<and> timestamp d = now)"
proof -
  obtain app w where t: "dolphin_deed_get_app deed = Inr app" "dolphin_deed_get_weight deed = Inr w" "app_code app < 7" "w \<le> 20"
    "dolphin_deed_get_app_limit app = Inr (dolphin_deed_limits ! app_code app)"
    using deed_table [OF deed] by blast
  define limits where "limits = icounter_daily_limit (pet s)"
  define used where "used = limits ! app_code app"
  define limit where "limit = dolphin_deed_limits ! app_code app"
  define xp where "xp = icounter (pet s)"
  define left where "left = points_left limit used"
  define worth where "worth = (if left \<le> 127 then min w left else left)"
  define gained where "gained = deed_gain xp w left"
  have l: "length limits = 7" "used < 2 ^ 8" "limit \<le> 200" using ok t(3) limits_range [OF t(3)] by (simp_all add: dolphin_ok_def limits_def used_def limit_def)
  have worth: "deed_points w limit used = worth" using deed_points_eq [of w limit used] t(4) by (simp add: worth_def left_def)
  have g: "gained = min (dolphin_state_xp_to_levelup xp) worth" by (simp add: gained_def deed_gain_def worth_def)
  have left: "gained \<le> left" by (auto simp: g worth_def)
  define d1 where "d1 = (pet s)\<lparr>icounter := (xp + gained) mod 2 ^ 32, icounter_daily_limit := limits[app_code app := (used + gained) mod 2 ^ 8]\<rparr>"
  define cheer where "cheer = (if dolphin_state_xp_to_levelup xp \<noteq> 0 then gained else worth)"
  have zero: "d1 = pet s" if "dolphin_state_xp_to_levelup xp = 0"
  proof -
    have "gained = 0" using that by (simp add: g)
    moreover have "xp < 2 ^ 32" using ok by (simp add: dolphin_ok_def xp_def)
    ultimately show ?thesis using l(2) by (simp add: d1_def used_def xp_def limits_def)
  qed
  have "dolphin_state_on_deed now s deed = Inr (s\<lparr>pet := cheer_up now cheer d1, dirty := True\<rparr>)"
  proof (cases "dolphin_state_xp_to_levelup xp = 0")
    case True
    then show ?thesis
      using deed t l worth zero unfolding dolphin_state_on_deed_def Let_def
      by (simp add: list_get_def limits_def [symmetric] used_def [symmetric] limit_def [symmetric] xp_def [symmetric] cheer_def)
  next
    case False
    then show ?thesis
      using deed t l worth g unfolding dolphin_state_on_deed_def Let_def
      by (simp add: list_get_def list_set_def limits_def [symmetric] used_def [symmetric] limit_def [symmetric] xp_def [symmetric] cheer_def d1_def)
  qed
  moreover have "dolphin_ok d1"
    using ok l(1) t(3) by (auto simp: dolphin_ok_def d1_def limits_def [symmetric] nth_list_update)
  moreover have "within_limits d1" if w: "within_limits (pet s)"
  proof -
    have "used \<le> limit" using w t(3) by (simp add: within_limits_def used_def limits_def limit_def)
    then have "used + gained \<le> limit" using left points_left_within [of used limit] l(3) by (simp add: left_def)
    moreover from this have "(used + gained) mod 2 ^ 8 = used + gained" using l(3) by simp
    ultimately show ?thesis
      using w l(1) t(3) by (auto simp: within_limits_def d1_def limits_def [symmetric] nth_list_update limit_def)
  qed
  moreover have "butthurt d1 = butthurt (pet s)" by (simp add: d1_def)
  moreover have "icounter d1 = (xp + gained) mod 2 ^ 32" "icounter_daily_limit d1 = limits[app_code app := (used + gained) mod 2 ^ 8]"
    by (simp_all add: d1_def)
  ultimately show ?thesis
    using t(1-3) left cheer_up_ok(1,2) [of d1 now cheer] cheer_up_ok(3,4) [of now cheer d1] cheer_up_mood(1) [of d1 now cheer] cheer_up_mood(2,3) [of now cheer d1]
    unfolding Let_def limits_def [symmetric] used_def [symmetric] limit_def [symmetric] xp_def [symmetric] left_def [symmetric] gained_def [symmetric]
    by (intro exI [of _ app] exI [of _ w] exI [of _ "cheer_up now cheer d1"])
      (simp add: used_def [symmetric] limit_def [symmetric] left_def [symmetric] gained_def [symmetric])
qed

lemma increase_level_eq:
  assumes "dolphin_state_is_levelup (icounter (pet s))"
  shows "\<exists>t. dolphin_state_increase_level s = Inr t \<and> dolphin_get_level (icounter (pet t)) = dolphin_get_level (icounter (pet s)) + 1"
proof -
  obtain i where "i < 29" "icounter (pet s) = DOLPHIN_LEVELS ! i" using assms by (auto simp: dolphin_state_is_levelup_def)
  then have "icounter (pet s) < 2 ^ 18" using levels_bound by simp
  then show ?thesis using assms level_after [OF assms] by (simp add: dolphin_state_increase_level_def)
qed

lemma clear_limits_eq:
  assumes "length (icounter_daily_limit (pet s)) = 7"
  shows "dolphin_state_clear_limits s = Inr (s\<lparr>pet := (pet s)\<lparr>icounter_daily_limit := replicate 7 0, butthurt_daily_limit := 0\<rparr>, dirty := True\<rparr>)"
proof -
  have "n \<le> 7 \<Longrightarrow> for_each (\<lambda>i l. list_set l i 0) [0..<n] (icounter_daily_limit (pet s)) = Inr (replicate n 0 @ drop n (icounter_daily_limit (pet s)))" for n
  proof (induction n)
    case (Suc n)
    then show ?case
      using assms by (simp add: for_each_Suc list_set_def list_update_append Cons_nth_drop_Suc [symmetric] replicate_append_same [symmetric] del: upt_Suc)
  qed simp
  from this [of 7] show ?thesis using assms by (simp add: dolphin_state_clear_limits_def)
qed

section \<open>Growing\<close>

text \<open>One deed a day, the limits cleared before it; the clock tells the time of each day.\<close>

fun daily_deed :: "(nat \<Rightarrow> nat) \<Rightarrow> nat \<Rightarrow> nat \<Rightarrow> dolphin_deed \<Rightarrow> dolphin_state \<Rightarrow> dolphin_state res" where
  "daily_deed clock day 0 deed s = Inr s"
| "daily_deed clock day (Suc n) deed s =
     bindr (dolphin_state_clear_limits s) (\<lambda>s. bindr (dolphin_state_on_deed (clock day) s deed) (daily_deed clock (day + 1) n deed))"

lemma one_day:
  assumes deed: "deed_code deed < deed_code DolphinDeedMAX" and ok: "dolphin_ok (pet s)"
    and below: "dolphin_get_level (icounter (pet s)) < dolphin_state_max_level" and more: "dolphin_state_xp_to_levelup (icounter (pet s)) \<noteq> 0"
  shows "\<exists>t. bindr (dolphin_state_clear_limits s) (\<lambda>s. dolphin_state_on_deed now s deed) = Inr t \<and> dolphin_ok (pet t) \<and>
    dolphin_get_level (icounter (pet t)) = dolphin_get_level (icounter (pet s)) \<and>
    dolphin_state_xp_to_levelup (icounter (pet t)) < dolphin_state_xp_to_levelup (icounter (pet s))"
proof -
  define s1 where "s1 = s\<lparr>pet := (pet s)\<lparr>icounter_daily_limit := replicate 7 0, butthurt_daily_limit := 0\<rparr>, dirty := True\<rparr>"
  have c: "dolphin_state_clear_limits s = Inr s1" using clear_limits_eq [of s] ok by (simp add: s1_def dolphin_ok_def)
  have ok1: "dolphin_ok (pet s1)" using ok by (simp add: s1_def dolphin_ok_def)
  have xp: "icounter (pet s1) = icounter (pet s)" by (simp add: s1_def)
  have full: "points_left (dolphin_deed_limits ! k) 0 = dolphin_deed_limits ! k" if "k < 7" for k
    using limits_range [OF that] by (simp add: points_left_within)
  obtain app w d gained where t: "app_code app < 7" "dolphin_deed_get_weight deed = Inr w"
    "gained = deed_gain (icounter (pet s)) w (dolphin_deed_limits ! app_code app)"
    "dolphin_state_on_deed now s1 deed = Inr (s1\<lparr>pet := d, dirty := True\<rparr>)" "dolphin_ok d" "icounter d = (icounter (pet s) + gained) mod 2 ^ 32"
    using on_deed_eq [OF deed ok1, of now] by (auto simp: Let_def s1_def full)
  have "w > 0" using t(2) deed_weight_pos [OF deed] by auto
  then have g: "0 < gained" "gained \<le> dolphin_state_xp_to_levelup (icounter (pet s))"
    using more limits_pos [OF t(1)] by (auto simp: t(3) deed_gain_def)
  obtain i where i: "level_index (icounter (pet s)) = Some i"
    using below level_of_index(2) [of "icounter (pet s)"] by (cases "level_index (icounter (pet s))") (auto simp: dolphin_state_max_level_def)
  have small: "icounter (pet s) + gained \<le> DOLPHIN_LEVELS ! i" "i < 29" using g(2) i by (auto simp: xp_to_levelup_eq level_index_Some)
  then have d: "icounter d = icounter (pet s) + gained" using t(6) levels_small [of i] by simp
  have "level_index (icounter (pet s) + gained) = Some i" using i small by (auto simp: level_index_Some)
  then have "dolphin_state_xp_to_levelup (icounter d) < dolphin_state_xp_to_levelup (icounter (pet s))"
    using g i small by (simp add: d xp_to_levelup_eq)
  then show ?thesis using c t level_kept [OF g(2)] d by simp
qed

lemma daily_deed_ends:
  assumes "deed_code deed < deed_code DolphinDeedMAX" and "dolphin_ok (pet s)" and "dolphin_get_level (icounter (pet s)) < dolphin_state_max_level"
  shows "\<exists>days t. daily_deed clock day days deed s = Inr t \<and> dolphin_ok (pet t) \<and>
    dolphin_get_level (icounter (pet t)) = dolphin_get_level (icounter (pet s)) \<and> dolphin_state_xp_to_levelup (icounter (pet t)) = 0"
  using assms
proof (induction "dolphin_state_xp_to_levelup (icounter (pet s))" arbitrary: s day rule: less_induct)
  case (less s day)
  show ?case
  proof (cases "dolphin_state_xp_to_levelup (icounter (pet s)) = 0")
    case True
    then show ?thesis using less.prems by (intro exI [of _ 0]) auto
  next
    case False
    obtain t0 where t0: "bindr (dolphin_state_clear_limits s) (\<lambda>s. dolphin_state_on_deed (clock day) s deed) = Inr t0" "dolphin_ok (pet t0)"
      "dolphin_get_level (icounter (pet t0)) = dolphin_get_level (icounter (pet s))"
      "dolphin_state_xp_to_levelup (icounter (pet t0)) < dolphin_state_xp_to_levelup (icounter (pet s))"
      using one_day [OF less.prems False] by blast
    have first: "daily_deed clock day (Suc n) deed s = daily_deed clock (day + 1) n deed t0" for n
      using t0(1) by (auto simp: bindr_eq_Inr)
    obtain n t where "daily_deed clock (day + 1) n deed t0 = Inr t" "dolphin_ok (pet t)"
      "dolphin_get_level (icounter (pet t)) = dolphin_get_level (icounter (pet t0))" "dolphin_state_xp_to_levelup (icounter (pet t)) = 0"
      using less.hyps [OF t0(4) less.prems(1) t0(2), of "day + 1"] less.prems(3) t0(3) by auto
    then show ?thesis using first [of n] t0(3) by (intro exI [of _ "Suc n"] exI [of _ t]) simp
  qed
qed

text \<open>A stored pet as any file of the right size holds it: the ranges of the types of its fields, and no more.\<close>

definition dolphin_stored :: "dolphin_store_data \<Rightarrow> bool" where
  "dolphin_stored d \<longleftrightarrow> length (icounter_daily_limit d) = 7 \<and> (\<forall>i < 7. icounter_daily_limit d ! i < 2 ^ 8) \<and>
     butthurt_daily_limit d < 2 ^ 8 \<and> icounter d < 2 ^ 32 \<and> - (2 ^ 31) \<le> butthurt d \<and> butthurt d < 2 ^ 31 \<and> timestamp d < 2 ^ 64"

text \<open>The states of a pet that is fed, neglected, raised, saved, and loaded with whatever the file holds.\<close>

inductive dolphin_reachable :: "dolphin_state \<Rightarrow> bool" where
  allocated: "dolphin_reachable dolphin_state_alloc"
| reset: "dolphin_reachable s \<Longrightarrow> dolphin_reachable (snd (dolphin_state_load None s))"
| loaded: "dolphin_reachable s \<Longrightarrow> dolphin_stored d \<Longrightarrow> dolphin_reachable (snd (dolphin_state_load (Some d) s))"
| saved: "dolphin_reachable s \<Longrightarrow> dolphin_reachable (snd (dolphin_state_save written s))"
| deed: "dolphin_reachable s \<Longrightarrow> dolphin_state_on_deed now s deed = Inr t \<Longrightarrow> dolphin_reachable t"
| neglected: "dolphin_reachable s \<Longrightarrow> dolphin_reachable (dolphin_state_butthurted now s)"
| raised: "dolphin_reachable s \<Longrightarrow> dolphin_state_increase_level s = Inr t \<Longrightarrow> dolphin_reachable t"
| next_day: "dolphin_reachable s \<Longrightarrow> dolphin_state_clear_limits s = Inr t \<Longrightarrow> dolphin_reachable t"

lemma zeroed_ok: "dolphin_ok dolphin_zeroed"
  by (auto simp: dolphin_ok_def dolphin_zeroed_def BUTTHURT_MIN_def BUTTHURT_MAX_def)

lemma loaded_ok: "dolphin_stored d \<Longrightarrow> dolphin_ok (pet (snd (dolphin_state_load (Some d) s)))"
  using zeroed_ok by (auto simp: dolphin_state_load_def dolphin_stored_def dolphin_ok_def)

lemma test_deed_within:
  "\<not> deed_code deed < deed_code DolphinDeedMAX \<Longrightarrow> within_limits (pet s) \<Longrightarrow> dolphin_state_on_deed now s deed = Inr t \<Longrightarrow> within_limits (pet t)"
  by (auto simp: dolphin_state_on_deed_def Let_def dolphin_deed_get_app_def within_limits_def split: if_splits)

lemma test_deed_ok:
  "\<not> deed_code deed < deed_code DolphinDeedMAX \<Longrightarrow> dolphin_ok (pet s) \<Longrightarrow> dolphin_state_on_deed now s deed = Inr t \<Longrightarrow> dolphin_ok (pet t)"
  by (auto simp: dolphin_state_on_deed_def Let_def dolphin_deed_get_app_def dolphin_ok_def CLAMP_def BUTTHURT_MIN_def BUTTHURT_MAX_def split: if_splits)

lemma test_deed_Inl:
  "\<not> deed_code deed < deed_code DolphinDeedMAX \<Longrightarrow>
    dolphin_state_on_deed now s deed = Inl e \<longleftrightarrow> deed = DolphinDeedMAX \<and> e = FuriCheck"
  by (cases deed) (auto simp: dolphin_state_on_deed_def Let_def dolphin_deed_get_app_def deed_code_def dolphin_deeds_def)

lemma butthurted_ok: "dolphin_ok (pet s) \<Longrightarrow> dolphin_ok (pet (dolphin_state_butthurted now s))"
  by (auto simp: dolphin_state_butthurted_def dolphin_ok_def BUTTHURT_MIN_def BUTTHURT_MAX_def)

lemma dolphin_reachable_ok: "dolphin_reachable s \<Longrightarrow> dolphin_ok (pet s)"
proof (induction rule: dolphin_reachable.induct)
  case (deed s now deed t)
  show ?case
  proof (cases "deed_code deed < deed_code DolphinDeedMAX")
    case True
    then show ?thesis using on_deed_eq [OF True deed.IH, of now] deed.hyps(2) by (auto simp: Let_def)
  next
    case False
    then show ?thesis using test_deed_ok deed by blast
  qed
next
  case (next_day s t)
  then show ?case using clear_limits_eq [of s] by (auto simp: dolphin_ok_def)
next
  case (raised s t)
  then show ?case by (auto simp: dolphin_state_increase_level_def bindr_eq_Inr dolphin_ok_def inc32_def)
qed (simp_all add: dolphin_state_alloc_def dolphin_state_load_def [of None] dolphin_state_save_def zeroed_ok butthurted_ok loaded_ok)

section \<open>Properties\<close>

text \<open>
  C40: on every pet that can come about, also one loaded from a file with any contents, the mood, the
  experience and the counters stay in their ranges, and every operation stops at a check or succeeds: a deed
  stops only if it is the number of deeds itself, raising the level only if there is no level to raise. The
  table of limits is never left. Clearing the limits brings every counter within its limit, and there deeds
  keep them; only a stored file brings them above.
\<close>

theorem dolphin_invariant:
  assumes "dolphin_reachable s"
  shows "dolphin_ok (pet s) \<and>
    (dolphin_state_on_deed now s deed = Inl e \<longleftrightarrow> deed = DolphinDeedMAX \<and> e = FuriCheck) \<and>
    (dolphin_state_increase_level s = Inl e \<longleftrightarrow> \<not> dolphin_state_is_levelup (icounter (pet s)) \<and> e = FuriAssert) \<and>
    (\<exists>t. dolphin_state_clear_limits s = Inr t \<and> within_limits (pet t) \<and>
       pet t = (pet s)\<lparr>icounter_daily_limit := replicate 7 0, butthurt_daily_limit := 0\<rparr>) \<and>
    (within_limits (pet s) \<and> dolphin_state_on_deed now s deed = Inr u \<longrightarrow> within_limits (pet u))"
proof (intro conjI)
  have ok: "dolphin_ok (pet s)" using dolphin_reachable_ok [OF assms] .
  show "dolphin_ok (pet s)" using ok .
  show "dolphin_state_on_deed now s deed = Inl e \<longleftrightarrow> deed = DolphinDeedMAX \<and> e = FuriCheck"
  proof (cases "deed_code deed < deed_code DolphinDeedMAX")
    case True
    then show ?thesis using on_deed_eq [OF True ok, of now] by (auto simp: Let_def)
  qed (auto simp: test_deed_Inl)
  show "dolphin_state_increase_level s = Inl e \<longleftrightarrow> \<not> dolphin_state_is_levelup (icounter (pet s)) \<and> e = FuriAssert"
    by (auto simp: dolphin_state_increase_level_def bindr_eq_Inl furi_assert_def)
  show "\<exists>t. dolphin_state_clear_limits s = Inr t \<and> within_limits (pet t) \<and>
      pet t = (pet s)\<lparr>icounter_daily_limit := replicate 7 0, butthurt_daily_limit := 0\<rparr>"
    using clear_limits_eq ok by (simp add: dolphin_ok_def within_limits_def)
  show "within_limits (pet s) \<and> dolphin_state_on_deed now s deed = Inr u \<longrightarrow> within_limits (pet u)"
  proof (cases "deed_code deed < deed_code DolphinDeedMAX")
    case True
    then show ?thesis using on_deed_eq [OF True ok, of now] by (auto simp: Let_def)
  qed (use test_deed_within in blast)
qed

text \<open>A file with a counter above its limit: the deed is worth what is left of 8 bits.\<close>

definition dolphin_overfed :: dolphin_store_data where
  "dolphin_overfed = dolphin_zeroed\<lparr>icounter_daily_limit := [0, 0, 0, 101, 0, 0, 0]\<rparr>"

lemma overfed_reachable: "dolphin_reachable (dolphin_state_alloc\<lparr>pet := dolphin_overfed\<rparr>)"
proof -
  have "\<forall>x \<in> set [0, 0, 0, 101, 0, 0, 0]. x < (256 :: nat)" by simp
  then have "\<forall>i < 7. [0, 0, 0, 101, 0, 0, 0] ! i < (256 :: nat)" unfolding all_set_conv_all_nth by simp
  then have "dolphin_stored dolphin_overfed" by (simp add: dolphin_stored_def dolphin_overfed_def dolphin_zeroed_def)
  from dolphin_reachable.loaded [OF dolphin_reachable.allocated this] show ?thesis
    by (simp add: dolphin_state_load_def dolphin_overfed_def dolphin_zeroed_def BUTTHURT_MIN_def BUTTHURT_MAX_def)
qed

theorem dolphin_invariant_witness:
  "dolphin_ok (pet (dolphin_state_alloc\<lparr>pet := dolphin_overfed\<rparr>)) \<and> \<not> within_limits dolphin_overfed"
proof
  show "dolphin_ok (pet (dolphin_state_alloc\<lparr>pet := dolphin_overfed\<rparr>))"
    using dolphin_invariant [OF overfed_reachable] by blast
  have "\<not> icounter_daily_limit dolphin_overfed ! 3 \<le> dolphin_deed_limits ! 3" "(3 :: nat) < 7"
    by (simp_all add: dolphin_overfed_def dolphin_deed_limits_def)
  then show "\<not> within_limits dolphin_overfed" unfolding within_limits_def by blast
qed

text \<open>
  C38: a deed is worth its weight, at most what is left of the daily limit of its application in 8 bits; when more
  than 127 points are left, all of them, so that a counter that a file brought above its limit gives up to 255
  points. It gains at most what the next level needs, so that a deed never raises the
  level (unless the counter of 32 bits wraps around); it never makes the pet sadder, and ends any sadness of
  seven or more.
\<close>

theorem dolphin_deed_worth:
  assumes "dolphin_reachable s" and "deed_code deed < deed_code DolphinDeedMAX"
  shows "\<exists>app w t. dolphin_deed_get_app deed = Inr app \<and> dolphin_deed_get_weight deed = Inr w \<and>
    dolphin_state_on_deed now s deed = Inr t \<and> dirty t \<and>
    (let used = icounter_daily_limit (pet s) ! app_code app;
         left = points_left (dolphin_deed_limits ! app_code app) used;
         worth = (if left \<le> 127 then min w left else left);
         gained = min (dolphin_state_xp_to_levelup (icounter (pet s))) worth
     in icounter (pet t) = (icounter (pet s) + gained) mod 2 ^ 32 \<and>
        icounter_daily_limit (pet t) = (icounter_daily_limit (pet s))[app_code app := (used + gained) mod 2 ^ 8] \<and>
        (icounter (pet s) + gained < 2 ^ 32 \<longrightarrow> dolphin_get_level (icounter (pet t)) = dolphin_get_level (icounter (pet s))) \<and>
        butthurt (pet t) \<le> butthurt (pet s) \<and> butthurt (pet t) < 7 \<and> timestamp (pet t) = now)"
proof -
  obtain app w d where d: "dolphin_deed_get_app deed = Inr app" "dolphin_deed_get_weight deed = Inr w"
    and r: "let used = icounter_daily_limit (pet s) ! app_code app;
         left = points_left (dolphin_deed_limits ! app_code app) used;
         gained = deed_gain (icounter (pet s)) w left
     in dolphin_state_on_deed now s deed = Inr (s\<lparr>pet := d, dirty := True\<rparr>) \<and>
        icounter d = (icounter (pet s) + gained) mod 2 ^ 32 \<and>
        icounter_daily_limit d = (icounter_daily_limit (pet s))[app_code app := (used + gained) mod 2 ^ 8] \<and>
        butthurt d \<le> butthurt (pet s) \<and> butthurt d < 7 \<and> timestamp d = now"
    using on_deed_eq [OF assms(2) dolphin_reachable_ok [OF assms(1)], of now] by (auto simp: Let_def)
  show ?thesis
    using d r level_kept unfolding Let_def deed_gain_def
    by (intro exI [of _ app] exI [of _ w] exI [of _ "s\<lparr>pet := d, dirty := True\<rparr>"]) simp
qed

theorem dolphin_deed_worth_witness:
  "\<exists>t. dolphin_state_on_deed 7 dolphin_state_alloc DolphinDeedPluginStart = Inr t \<and> icounter (pet t) = 200"
proof -
  have weight: "dolphin_deed_get_app DolphinDeedPluginStart = Inr DolphinAppPlugin" "dolphin_deed_get_weight DolphinDeedPluginStart = Inr 5"
    by (simp_all add: dolphin_deed_get_app_def dolphin_deed_get_weight_def dolphin_max deed_code_def dolphin_deeds_def list_get_def
        dolphin_deed_weights_def)
  have deed: "deed_code DolphinDeedPluginStart < deed_code DolphinDeedMAX" by (simp add: deed_code_def dolphin_deeds_def)
  have "level_index 0 = Some 0" by (simp add: level_index_Some DOLPHIN_LEVELS_def)
  then have "dolphin_state_xp_to_levelup 0 = 500" by (simp add: xp_to_levelup_eq DOLPHIN_LEVELS_def)
  then show ?thesis
    using dolphin_deed_worth [OF dolphin_reachable.allocated deed, of 7] weight
    by (auto simp: Let_def dolphin_state_alloc_def dolphin_zeroed_def dolphin_deed_limits_def points_left_within)
qed

text \<open>
  C39: a pet that does one deed of any kind a day, its limits cleared every day, reaches the end of its level in
  finitely many days, unless it is at the last level; then its level can be raised, and is raised by one.
\<close>

theorem dolphin_levels_up:
  assumes "dolphin_reachable s" and "deed_code deed < deed_code DolphinDeedMAX" and "dolphin_get_level (icounter (pet s)) < dolphin_state_max_level"
  shows "\<exists>days t u. daily_deed clock day days deed s = Inr t \<and> dolphin_get_level (icounter (pet t)) = dolphin_get_level (icounter (pet s)) \<and>
    dolphin_state_increase_level t = Inr u \<and> dolphin_get_level (icounter (pet u)) = dolphin_get_level (icounter (pet s)) + 1"
proof -
  have "\<exists>days t. daily_deed clock day days deed s = Inr t \<and> dolphin_ok (pet t) \<and>
    dolphin_get_level (icounter (pet t)) = dolphin_get_level (icounter (pet s)) \<and> dolphin_state_xp_to_levelup (icounter (pet t)) = 0"
    using daily_deed_ends [OF assms(2) dolphin_reachable_ok [OF assms(1)] assms(3)] .
  then obtain days t where t: "daily_deed clock day days deed s = Inr t" "dolphin_get_level (icounter (pet t)) = dolphin_get_level (icounter (pet s))"
    "dolphin_state_is_levelup (icounter (pet t))" by (auto simp: levelup_iff)
  then show ?thesis using increase_level_eq [OF t(3)] by auto
qed

theorem dolphin_levels_up_witness:
  "\<exists>days t u. daily_deed (\<lambda>day. 86400 * day) 1 days DolphinDeedIrSend dolphin_state_alloc = Inr t \<and> dolphin_state_increase_level t = Inr u \<and>
    dolphin_get_level (icounter (pet u)) = 2"
proof -
  have "level_index 0 = Some 0" by (simp add: level_index_Some DOLPHIN_LEVELS_def)
  then have l: "dolphin_get_level (icounter (pet dolphin_state_alloc)) = 1"
    using level_of_index(1) by (simp add: dolphin_state_alloc_def dolphin_zeroed_def)
  have deed: "deed_code DolphinDeedIrSend < deed_code DolphinDeedMAX" by (simp add: deed_code_def dolphin_deeds_def)
  show ?thesis
    using dolphin_levels_up [OF dolphin_reachable.allocated deed, of "\<lambda>day. 86400 * day" 1, unfolded l]
    by (simp add: dolphin_state_max_level_def flip: numeral_2_eq_2) blast
qed

end
