(* ===== verification/Crypto1.thy ===== *)
theory Crypto1
  imports Bit_Lib Bit_Buffer
begin

text \<open>
  The stream cipher of the Mifare Classic cards (\<^verbatim>\<open>lib/nfc/helpers/crypto1.c\<close>) and the parities it uses
  (\<^verbatim>\<open>lib/nfc/helpers/nfc_util.c\<close>). The shift register of 48 bits is kept as its odd and its even bits.
\<close>

section \<open>Parities\<close>

definition nfc_util_odd_byte_parity :: "u8 list" where
  "nfc_util_odd_byte_parity =
     [1, 0, 0, 1, 0, 1, 1, 0, 0, 1, 1, 0, 1, 0, 0, 1, 0, 1, 1, 0, 1, 0, 0, 1, 1, 0, 0, 1, 0, 1, 1, 0,
      0, 1, 1, 0, 1, 0, 0, 1, 1, 0, 0, 1, 0, 1, 1, 0, 1, 0, 0, 1, 0, 1, 1, 0, 0, 1, 1, 0, 1, 0, 0, 1,
      0, 1, 1, 0, 1, 0, 0, 1, 1, 0, 0, 1, 0, 1, 1, 0, 1, 0, 0, 1, 0, 1, 1, 0, 0, 1, 1, 0, 1, 0, 0, 1,
      1, 0, 0, 1, 0, 1, 1, 0, 0, 1, 1, 0, 1, 0, 0, 1, 0, 1, 1, 0, 1, 0, 0, 1, 1, 0, 0, 1, 0, 1, 1, 0,
      0, 1, 1, 0, 1, 0, 0, 1, 1, 0, 0, 1, 0, 1, 1, 0, 1, 0, 0, 1, 0, 1, 1, 0, 0, 1, 1, 0, 1, 0, 0, 1,
      1, 0, 0, 1, 0, 1, 1, 0, 0, 1, 1, 0, 1, 0, 0, 1, 0, 1, 1, 0, 1, 0, 0, 1, 1, 0, 0, 1, 0, 1, 1, 0,
      1, 0, 0, 1, 0, 1, 1, 0, 0, 1, 1, 0, 1, 0, 0, 1, 0, 1, 1, 0, 1, 0, 0, 1, 1, 0, 0, 1, 0, 1, 1, 0,
      0, 1, 1, 0, 1, 0, 0, 1, 1, 0, 0, 1, 0, 1, 1, 0, 1, 0, 0, 1, 0, 1, 1, 0, 0, 1, 1, 0, 1, 0, 0, 1]"

definition nfc_util_odd_parity8 :: "u8 \<Rightarrow> u8" where
  "nfc_util_odd_parity8 data = nfc_util_odd_byte_parity ! unat data"

definition nfc_util_even_parity8 :: "u8 \<Rightarrow> u8" where
  "nfc_util_even_parity8 data = of_bool (nfc_util_odd_byte_parity ! unat data = 0)"

text \<open>\<^verbatim>\<open>__builtin_parity\<close> is the parity of the number of ones.\<close>

definition nfc_util_even_parity32 :: "u32 \<Rightarrow> u8" where
  "nfc_util_even_parity32 data = of_bool (odd (popcount data)) AND 0xFF"

text \<open>The state of the loop: the output, the place of its next byte, the byte and the bit being filled.\<close>

definition odd_parity_step :: "u8 list \<Rightarrow> nat \<Rightarrow> u8 list \<times> nat \<times> u8 \<times> nat \<Rightarrow> (u8 list \<times> nat \<times> u8 \<times> nat) res" where
  "odd_parity_step src i s =
     (let (dst, at, parity, b) = s in
      bindr (list_get src i) (\<lambda>x.
      let parity = parity OR push_bit (7 - b) (nfc_util_odd_parity8 x) in
      if b + 1 = 8 then bindr (list_set dst at parity) (\<lambda>dst. Inr (dst, at + 1, 0, 0)) else Inr (dst, at, parity, b + 1)))"

definition nfc_util_odd_parity :: "u8 list \<Rightarrow> u8 list \<Rightarrow> u8 \<Rightarrow> u8 list res" where
  "nfc_util_odd_parity src dst len =
     bindr (for_each (odd_parity_step src) [0..<unat len] (dst, 0, 0, 0)) (\<lambda>(dst, at, parity, b).
       if b \<noteq> 0 then list_set dst at parity else Inr dst)"

section \<open>The cipher\<close>

definition FURI_BIT :: "'a::len word \<Rightarrow> nat \<Rightarrow> 'a word" where
  "FURI_BIT x n = drop_bit n x AND 1"

definition BEBIT :: "u32 \<Rightarrow> nat \<Rightarrow> u32" where
  "BEBIT x n = FURI_BIT x (n XOR 24)"

definition LF_POLY_ODD :: u32 where "LF_POLY_ODD = 0x29CE5C"
definition LF_POLY_EVEN :: u32 where "LF_POLY_EVEN = 0x870804"

record crypto1 =
  c_odd :: u32
  c_even :: u32

definition crypto1_alloc :: crypto1 where
  "crypto1_alloc = \<lparr>c_odd = 0, c_even = 0\<rparr>"

definition crypto1_reset :: "crypto1 \<Rightarrow> crypto1" where
  "crypto1_reset crypto = crypto\<lparr>c_even := 0, c_odd := 0\<rparr>"

definition crypto1_init :: "crypto1 \<Rightarrow> u64 \<Rightarrow> crypto1" where
  "crypto1_init crypto key =
     foldl (\<lambda>crypto i. crypto\<lparr>c_odd := push_bit 1 (c_odd crypto) OR ucast (FURI_BIT key ((i - 1) XOR 7)),
                              c_even := push_bit 1 (c_even crypto) OR ucast (FURI_BIT key (i XOR 7))\<rparr>)
       (crypto\<lparr>c_even := 0, c_odd := 0\<rparr>) (map (\<lambda>k. 47 - 2 * k) [0..<24])"

definition crypto1_filter :: "u32 \<Rightarrow> u32" where
  "crypto1_filter inp =
     (let out = drop_bit (unat (inp AND 0xf)) (0xf22c0 :: u32) AND 16;
          out = out OR (drop_bit (unat (drop_bit 4 inp AND 0xf)) 0x6c9c0 AND 8);
          out = out OR (drop_bit (unat (drop_bit 8 inp AND 0xf)) 0x3c8b0 AND 4);
          out = out OR (drop_bit (unat (drop_bit 12 inp AND 0xf)) 0x1e458 AND 2);
          out = out OR (drop_bit (unat (drop_bit 16 inp AND 0xf)) 0x0d938 AND 1)
      in FURI_BIT 0xEC57E80A (unat out))"

definition crypto1_bit :: "crypto1 \<Rightarrow> u8 \<Rightarrow> bool \<Rightarrow> u8 \<times> crypto1" where
  "crypto1_bit crypto inp is_encrypted =
     (let out = ucast (crypto1_filter (c_odd crypto)) :: u8;
          feed = ucast (out AND of_bool is_encrypted) :: u32;
          feed = feed XOR of_bool (inp \<noteq> 0);
          feed = feed XOR (LF_POLY_ODD AND c_odd crypto);
          feed = feed XOR (LF_POLY_EVEN AND c_even crypto);
          even_new = push_bit 1 (c_even crypto) OR ucast (nfc_util_even_parity32 feed)
      in (out, crypto\<lparr>c_odd := even_new, c_even := c_odd crypto\<rparr>))"

definition crypto1_byte :: "crypto1 \<Rightarrow> u8 \<Rightarrow> bool \<Rightarrow> u8 \<times> crypto1" where
  "crypto1_byte crypto inp is_encrypted =
     foldl (\<lambda>(out, crypto) i. let (b, crypto) = crypto1_bit crypto (FURI_BIT inp i) is_encrypted in (out OR push_bit i b, crypto))
       (0, crypto) [0..<8]"

definition crypto1_word :: "crypto1 \<Rightarrow> u32 \<Rightarrow> bool \<Rightarrow> u32 \<times> crypto1" where
  "crypto1_word crypto inp is_encrypted =
     foldl (\<lambda>(out, crypto) i. let (b, crypto) = crypto1_bit crypto (ucast (BEBIT inp i)) is_encrypted
                              in (out OR push_bit (24 XOR i) (ucast b), crypto))
       (0, crypto) [0..<32]"

section \<open>The generator of nonces\<close>

definition SWAPENDIAN :: "u32 \<Rightarrow> u32" where
  "SWAPENDIAN x =
     (let x = (drop_bit 8 x AND 0xff00ff) OR push_bit 8 (x AND 0xff00ff) in drop_bit 16 x OR push_bit 16 x)"

definition prng_step :: "u32 \<Rightarrow> u32" where
  "prng_step x = drop_bit 1 x OR push_bit 31 (drop_bit 16 x XOR drop_bit 18 x XOR drop_bit 19 x XOR drop_bit 21 x)"

definition crypto1_prng_successor :: "u32 \<Rightarrow> nat \<Rightarrow> u32" where
  "crypto1_prng_successor x n = SWAPENDIAN ((prng_step ^^ n) (SWAPENDIAN x))"

definition weak_step :: "u16 \<Rightarrow> u16" where
  "weak_step x = drop_bit 1 x OR push_bit 15 (x XOR drop_bit 2 x XOR drop_bit 3 x XOR drop_bit 5 x)"

definition crypto1_is_weak_prng_nonce :: "u32 \<Rightarrow> bool" where
  "crypto1_is_weak_prng_nonce nonce =
     (if nonce = 0 then False
      else let x = ucast (drop_bit 16 nonce) :: u16;
               x = push_bit 8 (x AND 0xff) OR drop_bit 8 x;
               x = (weak_step ^^ 16) x;
               x = push_bit 8 (x AND 0xff) OR drop_bit 8 x
           in (ucast x :: u32) = nonce AND 0xFFFF)"

section \<open>Frames\<close>

definition crypto1_decrypt :: "crypto1 \<Rightarrow> bit_buffer \<Rightarrow> bit_buffer \<Rightarrow> (crypto1 \<times> bit_buffer) res" where
  "crypto1_decrypt crypto buff out =
     (let bits = bit_buffer_get_size buff in
      bindr (bit_buffer_set_size out bits) (\<lambda>out.
      let encrypted_data = bit_buffer_get_data buff in
      if bits < 8
      then bindr (list_get encrypted_data 0) (\<lambda>encrypted_byte.
           let (b0, crypto) = crypto1_bit crypto 0 False; (b1, crypto) = crypto1_bit crypto 0 False;
               (b2, crypto) = crypto1_bit crypto 0 False; (b3, crypto) = crypto1_bit crypto 0 False;
               decrypted_byte = (b0 XOR FURI_BIT encrypted_byte 0) OR push_bit 1 (b1 XOR FURI_BIT encrypted_byte 1) OR
                 push_bit 2 (b2 XOR FURI_BIT encrypted_byte 2) OR push_bit 3 (b3 XOR FURI_BIT encrypted_byte 3)
           in bindr (bit_buffer_set_byte out 0 decrypted_byte) (\<lambda>out. Inr (crypto, out)))
      else for_each (\<lambda>i (crypto, out).
             let (k, crypto) = crypto1_byte crypto 0 False in
             bindr (list_get encrypted_data i) (\<lambda>e.
             bindr (bit_buffer_set_byte out i (k XOR e)) (\<lambda>out. Inr (crypto, out)))) [0..<bits div 8] (crypto, out)))"

definition encrypted_parity :: "crypto1 \<Rightarrow> u8 \<Rightarrow> bool" where
  "encrypted_parity crypto plain = ((crypto1_filter (c_odd crypto) XOR ucast (nfc_util_odd_parity8 plain)) AND 1 \<noteq> 0)"

definition crypto1_encrypt :: "crypto1 \<Rightarrow> u8 list option \<Rightarrow> bit_buffer \<Rightarrow> bit_buffer \<Rightarrow> (crypto1 \<times> bit_buffer) res" where
  "crypto1_encrypt crypto keystream buff out =
     (let bits = bit_buffer_get_size buff in
      bindr (bit_buffer_set_size out bits) (\<lambda>out.
      let plain_data = bit_buffer_get_data buff in
      if bits < 8
      then bindr (for_each (\<lambda>i (encrypted_byte, crypto).
             let (k, crypto) = crypto1_bit crypto 0 False in
             bindr (list_get plain_data 0) (\<lambda>p.
               Inr (encrypted_byte OR push_bit i (k XOR FURI_BIT p i), crypto))) [0..<bits] (0, crypto)) (\<lambda>(encrypted_byte, crypto).
           bindr (bit_buffer_set_byte out 0 encrypted_byte) (\<lambda>out. Inr (crypto, out)))
      else for_each (\<lambda>i (crypto, out).
             bindr (case keystream of Some ks \<Rightarrow> list_get ks i | None \<Rightarrow> Inr 0) (\<lambda>inp.
             let (k, crypto) = crypto1_byte crypto inp False in
             bindr (list_get plain_data i) (\<lambda>p.
             bindr (bit_buffer_set_byte_with_parity out i (k XOR p) (encrypted_parity crypto p)) (\<lambda>out.
               Inr (crypto, out))))) [0..<bits div 8] (crypto, out)))"

section \<open>Authentication\<close>

definition nr_step :: "nat \<Rightarrow> crypto1 \<times> u8 list \<times> bit_buffer \<Rightarrow> (crypto1 \<times> u8 list \<times> bit_buffer) res" where
  "nr_step i s =
     (let (crypto, nr, out) = s in
      bindr (list_get nr i) (\<lambda>x.
      let (k, crypto) = crypto1_byte crypto x False in
      bindr (bit_buffer_set_byte_with_parity out i (k XOR x) (encrypted_parity crypto x)) (\<lambda>out.
      bindr (list_set nr i (k XOR x)) (\<lambda>nr. Inr (crypto, nr, out)))))"

definition ar_step :: "nat \<Rightarrow> crypto1 \<times> u32 \<times> bit_buffer \<Rightarrow> (crypto1 \<times> u32 \<times> bit_buffer) res" where
  "ar_step i s =
     (let (crypto, nt_num, out) = s;
          nt_num = crypto1_prng_successor nt_num 8;
          (k, crypto) = crypto1_byte crypto 0 False in
      bindr (bit_buffer_set_byte_with_parity out i (k XOR ucast nt_num) (encrypted_parity crypto (ucast nt_num))) (\<lambda>out.
        Inr (crypto, nt_num, out)))"

definition crypto1_encrypt_reader_nonce ::
  "crypto1 \<Rightarrow> u64 \<Rightarrow> u32 \<Rightarrow> u8 list \<Rightarrow> u8 list \<Rightarrow> bit_buffer \<Rightarrow> bool \<Rightarrow> (crypto1 \<times> u8 list \<times> bit_buffer) res" where
  "crypto1_encrypt_reader_nonce crypto key cuid nt nr out is_nested =
     bindr (bit_buffer_set_size_bytes out 8) (\<lambda>out.
     bindr (bit_lib_bytes_to_num_be nt 4) (\<lambda>n.
     let nt_num = ucast n :: u32;
         crypto = crypto1_init crypto key;
         (nt_num, crypto) = (if is_nested
           then let (k, crypto) = crypto1_word crypto (nt_num XOR cuid) True in (k XOR nt_num, crypto)
           else (nt_num, snd (crypto1_word crypto (nt_num XOR cuid) False))) in
     bindr (for_each nr_step [0..<4] (crypto, nr, out)) (\<lambda>(crypto, nr, out).
     let nt_num = crypto1_prng_successor nt_num 32 in
     bindr (for_each ar_step [4..<8] (crypto, nt_num, out)) (\<lambda>(crypto, nt_num, out).
       Inr (crypto, nr, out)))))"

section \<open>Recovering the state\<close>

definition lfsr_rollback_bit :: "crypto1 \<Rightarrow> u32 \<Rightarrow> bool \<Rightarrow> u8 \<times> crypto1" where
  "lfsr_rollback_bit crypto inp fb =
     (let t = c_odd crypto AND 0xffffff;
          odd_new = c_even crypto;
          out = t AND 1;
          even_new = drop_bit 1 t;
          out = out XOR (LF_POLY_EVEN AND even_new);
          out = out XOR (LF_POLY_ODD AND odd_new);
          out = out XOR of_bool (inp \<noteq> 0);
          ret = ucast (crypto1_filter odd_new) :: u8;
          out = out XOR ucast (ret AND of_bool fb)
      in (ret, crypto\<lparr>c_odd := odd_new, c_even := even_new OR push_bit 23 (ucast (nfc_util_even_parity32 out))\<rparr>))"

definition crypto1_lfsr_rollback_word :: "crypto1 \<Rightarrow> u32 \<Rightarrow> bool \<Rightarrow> u32 \<times> crypto1" where
  "crypto1_lfsr_rollback_word crypto inp fb =
     foldl (\<lambda>(ret, crypto) i. let (b, crypto) = lfsr_rollback_bit crypto (BEBIT inp i) fb
                              in (ret OR push_bit (24 XOR i) (ucast b), crypto))
       (0, crypto) (rev [0..<32])"

definition crypto1_nonce_matches_encrypted_parity_bits :: "u32 \<Rightarrow> u32 \<Rightarrow> u8 \<Rightarrow> bool" where
  "crypto1_nonce_matches_encrypted_parity_bits nt ks nt_par_enc \<longleftrightarrow>
     ucast (nfc_util_even_parity8 (ucast (drop_bit 24 nt AND 0xFF))) = ucast (drop_bit 3 nt_par_enc AND 1) XOR FURI_BIT ks 16 \<and>
     ucast (nfc_util_even_parity8 (ucast (drop_bit 16 nt AND 0xFF))) = ucast (drop_bit 2 nt_par_enc AND 1) XOR FURI_BIT ks 8 \<and>
     ucast (nfc_util_even_parity8 (ucast (drop_bit 8 nt AND 0xFF))) = ucast (drop_bit 1 nt_par_enc AND 1) XOR FURI_BIT ks 0"

definition crypto1_decrypt_nt_enc :: "u32 \<Rightarrow> u32 \<Rightarrow> u8 list \<Rightarrow> u32 res" where
  "crypto1_decrypt_nt_enc cuid nt_enc known_key =
     bindr (bit_lib_bytes_to_num_be known_key 6) (\<lambda>known_key_int.
     let crypto = crypto1_init crypto1_alloc known_key_int;
         crypto = snd (crypto1_word crypto (nt_enc XOR cuid) True)
     in Inr (nt_enc XOR fst (crypto1_lfsr_rollback_word crypto (nt_enc XOR cuid) True)))"

end
