(* ===== verification/Mf_Classic.thy ===== *)
theory Mf_Classic
  imports Crypto1
begin

text \<open>
  The memory of a Mifare Classic card (\<^verbatim>\<open>lib/nfc/protocols/mf_classic/mf_classic.c\<close>): blocks in sectors, the last
  block of a sector with its keys and access conditions, blocks that hold a value, and what of a card has been
  read. The part of \<^verbatim>\<open>lib/nfc/protocols/iso14443_3a/iso14443_3a.c\<close> that holds the identifier is included.
\<close>

section \<open>The identifier\<close>

record iso14443_3a_data =
  uid :: "u8 list"
  uid_len :: nat
  atqa :: "u8 list"
  sak :: u8

definition iso14443_3a_alloc :: iso14443_3a_data where
  "iso14443_3a_alloc = \<lparr>uid = replicate 10 0, uid_len = 0, atqa = replicate 2 0, sak = 0\<rparr>"

definition iso14443_3a_reset :: "iso14443_3a_data \<Rightarrow> iso14443_3a_data" where
  "iso14443_3a_reset data = \<lparr>uid = replicate 10 0, uid_len = 0, atqa = replicate 2 0, sak = 0\<rparr>"

definition iso14443_3a_is_equal :: "iso14443_3a_data \<Rightarrow> iso14443_3a_data \<Rightarrow> bool" where
  "iso14443_3a_is_equal data other \<longleftrightarrow> data = other"

definition iso14443_3a_get_uid :: "iso14443_3a_data \<Rightarrow> u8 list \<times> nat" where
  "iso14443_3a_get_uid data = (uid data, uid_len data)"

definition iso14443_3a_set_uid :: "iso14443_3a_data \<Rightarrow> u8 list \<Rightarrow> nat \<Rightarrow> (bool \<times> iso14443_3a_data) res" where
  "iso14443_3a_set_uid data uid_new len =
     (if len = 4 \<or> len = 7 \<or> len = 10
      then bindr (mem_copy (uid data) 0 uid_new 0 len) (\<lambda>u. Inr (True, data\<lparr>uid := u, uid_len := len\<rparr>))
      else Inr (False, data))"

definition iso14443_3a_get_cuid :: "iso14443_3a_data \<Rightarrow> u32" where
  "iso14443_3a_get_cuid data =
     (let cuid_start = (if uid_len data = 7 then drop 3 (uid data) else uid data) in
      push_bit 24 (ucast (cuid_start ! 0)) OR push_bit 16 (ucast (cuid_start ! 1)) OR push_bit 8 (ucast (cuid_start ! 2)) OR
      ucast (cuid_start ! 3))"

section \<open>Types\<close>

datatype mf_classic_type = MfClassicTypeMini | MfClassicType1k | MfClassicType4k

datatype mf_classic_action =
  MfClassicActionDataRead | MfClassicActionDataWrite | MfClassicActionDataInc | MfClassicActionDataDec |
  MfClassicActionKeyARead | MfClassicActionKeyAWrite | MfClassicActionKeyBRead | MfClassicActionKeyBWrite |
  MfClassicActionACRead | MfClassicActionACWrite

datatype mf_classic_key_type = MfClassicKeyTypeA | MfClassicKeyTypeB

text \<open>A block is 16 bytes; the trailer of a sector has key A, the access bits and key B in them.\<close>

type_synonym mf_classic_block = "u8 list"

definition sec_tr_key_a :: "mf_classic_block \<Rightarrow> u8 list" where
  "sec_tr_key_a sec_tr = take 6 sec_tr"

definition sec_tr_access_bits :: "mf_classic_block \<Rightarrow> u8 list" where
  "sec_tr_access_bits sec_tr = take 4 (drop 6 sec_tr)"

definition sec_tr_key_b :: "mf_classic_block \<Rightarrow> u8 list" where
  "sec_tr_key_b sec_tr = take 6 (drop 10 sec_tr)"

record mf_classic_data =
  iso14443_3a_data :: iso14443_3a_data
  mf_type :: mf_classic_type
  block_read_mask :: "u32 list"
  key_a_mask :: u64
  key_b_mask :: u64
  mf_block :: "mf_classic_block list"

record mf_classic_features_t =
  sectors_total :: nat
  blocks_total :: nat

fun mf_classic_features :: "mf_classic_type \<Rightarrow> mf_classic_features_t" where
  "mf_classic_features MfClassicTypeMini = \<lparr>sectors_total = 5, blocks_total = 20\<rparr>"
| "mf_classic_features MfClassicType1k = \<lparr>sectors_total = 16, blocks_total = 64\<rparr>"
| "mf_classic_features MfClassicType4k = \<lparr>sectors_total = 40, blocks_total = 256\<rparr>"

definition mf_classic_alloc :: mf_classic_data where
  "mf_classic_alloc = \<lparr>iso14443_3a_data = iso14443_3a_alloc, mf_type = MfClassicTypeMini, block_read_mask = replicate 8 0,
     key_a_mask = 0, key_b_mask = 0, mf_block = replicate 256 (replicate 16 0)\<rparr>"

definition mf_classic_reset :: "mf_classic_data \<Rightarrow> mf_classic_data" where
  "mf_classic_reset data = data\<lparr>iso14443_3a_data := iso14443_3a_reset (iso14443_3a_data data)\<rparr>"

definition mf_classic_copy :: "mf_classic_data \<Rightarrow> mf_classic_data \<Rightarrow> mf_classic_data" where
  "mf_classic_copy data other =
     data\<lparr>iso14443_3a_data := iso14443_3a_data other, mf_block := mf_block other, block_read_mask := block_read_mask other,
          mf_type := mf_type other, key_a_mask := key_a_mask other, key_b_mask := key_b_mask other\<rparr>"

definition mf_classic_is_equal :: "mf_classic_data \<Rightarrow> mf_classic_data \<Rightarrow> bool" where
  "mf_classic_is_equal data other \<longleftrightarrow>
     iso14443_3a_is_equal (iso14443_3a_data data) (iso14443_3a_data other) \<and> mf_type data = mf_type other \<and>
     key_a_mask data = key_a_mask other \<and> key_b_mask data = key_b_mask other \<and>
     block_read_mask data = block_read_mask other \<and> mf_block data = mf_block other"

definition mf_classic_get_uid :: "mf_classic_data \<Rightarrow> u8 list \<times> nat" where
  "mf_classic_get_uid data = iso14443_3a_get_uid (iso14443_3a_data data)"

definition mf_classic_set_uid :: "mf_classic_data \<Rightarrow> u8 list \<Rightarrow> nat \<Rightarrow> (bool \<times> mf_classic_data) res" where
  "mf_classic_set_uid data uid_new len =
     bindr (iso14443_3a_set_uid (iso14443_3a_data data) uid_new len) (\<lambda>(uid_valid, iso).
     if uid_valid
     then bindr (list_get (mf_block data) 0) (\<lambda>b.
          bindr (mem_copy b 0 (uid iso) 0 len) (\<lambda>b.
          bindr (if len = 4 then list_set b 4 (foldl (\<lambda>bcc i. bcc XOR b ! i) 0 [0..<4]) else Inr b) (\<lambda>b.
          bindr (list_set (mf_block data) 0 b) (\<lambda>bs.
            Inr (True, data\<lparr>iso14443_3a_data := iso, mf_block := bs\<rparr>)))))
     else Inr (False, data\<lparr>iso14443_3a_data := iso\<rparr>))"

section \<open>Sectors and blocks\<close>

definition mf_classic_get_total_sectors_num :: "mf_classic_type \<Rightarrow> nat" where
  "mf_classic_get_total_sectors_num t = sectors_total (mf_classic_features t)"

definition mf_classic_get_total_block_num :: "mf_classic_type \<Rightarrow> nat" where
  "mf_classic_get_total_block_num t = blocks_total (mf_classic_features t)"

definition mf_classic_get_sector_trailer_num_by_sector :: "nat \<Rightarrow> nat res" where
  "mf_classic_get_sector_trailer_num_by_sector sector =
     (if sector < 32 then Inr (sector * 4 + 3)
      else if sector < 40 then Inr (32 * 4 + (sector - 32) * 16 + 15) else Inl FuriCrash)"

definition mf_classic_get_sector_trailer_num_by_block :: "nat \<Rightarrow> nat" where
  "mf_classic_get_sector_trailer_num_by_block block_num = (if block_num < 128 then block_num OR 0x03 else block_num OR 0x0f)"

definition mf_classic_get_sector_trailer_by_sector :: "mf_classic_data \<Rightarrow> nat \<Rightarrow> mf_classic_block res" where
  "mf_classic_get_sector_trailer_by_sector data sector_num =
     bindr (mf_classic_get_sector_trailer_num_by_sector sector_num) (list_get (mf_block data))"

definition mf_classic_is_sector_trailer :: "nat \<Rightarrow> bool" where
  "mf_classic_is_sector_trailer block_num \<longleftrightarrow> block_num = mf_classic_get_sector_trailer_num_by_block block_num"

definition mf_classic_get_sector_by_block :: "nat \<Rightarrow> nat" where
  "mf_classic_get_sector_by_block block_num =
     (if block_num < 128 then (block_num OR 0x03) div 4 else 32 + ((block_num OR 0x0f) - 32 * 4) div 16)"

definition mf_classic_get_first_block_num_of_sector :: "nat \<Rightarrow> nat res" where
  "mf_classic_get_first_block_num_of_sector sector =
     bindr (furi_check (sector < 40)) (\<lambda>_. Inr (if sector < 32 then sector * 4 else 32 * 4 + (sector - 32) * 16))"

definition mf_classic_get_blocks_num_in_sector :: "nat \<Rightarrow> nat res" where
  "mf_classic_get_blocks_num_in_sector sector = bindr (furi_check (sector < 40)) (\<lambda>_. Inr (if sector < 32 then 4 else 16))"

section \<open>Values\<close>

definition word_at :: "mf_classic_block \<Rightarrow> nat \<Rightarrow> u32" where
  "word_at b i = ucast (b ! i) OR push_bit 8 (ucast (b ! (i + 1))) OR push_bit 16 (ucast (b ! (i + 2))) OR push_bit 24 (ucast (b ! (i + 3)))"

definition bytes_at :: "u32 \<Rightarrow> u8 list" where
  "bytes_at v = map (\<lambda>i. ucast (drop_bit (8 * i) v)) [0..<4]"

text \<open>Whether the block holds a value, the value, and the address that goes with it.\<close>

definition mf_classic_block_to_value :: "mf_classic_block \<Rightarrow> bool \<times> int \<times> u8" where
  "mf_classic_block_to_value b =
     (let v = word_at b 0; v_inv = word_at b 4; v1 = word_at b 8;
          val_checks = (v = v1 \<and> v = NOT v_inv \<and> b ! 12 = NOT (b ! 13) AND 0xFF \<and> b ! 14 = NOT (b ! 15) AND 0xFF \<and> b ! 12 = b ! 14)
      in (val_checks, sint v, b ! 12))"

text \<open>The 16 bytes are all written.\<close>

definition mf_classic_value_to_block :: "int \<Rightarrow> u8 \<Rightarrow> mf_classic_block" where
  "mf_classic_value_to_block value addr =
     (let v = word_of_int value; v_inv = NOT v
      in bytes_at v @ bytes_at v_inv @ bytes_at v @ [addr, NOT addr AND 0xFF, addr, NOT addr AND 0xFF])"

section \<open>What has been read\<close>

text \<open>A shift by 64 or more is undefined.\<close>

definition mask_bit :: "u64 \<Rightarrow> nat \<Rightarrow> bool res" where
  "mask_bit m n = (if n < 64 then Inr (FURI_BIT m n = 1) else Inl UndefinedArith)"

definition FURI_BIT_SET :: "'a::len word \<Rightarrow> nat \<Rightarrow> 'a word res" where
  "FURI_BIT_SET m n = (if n < LENGTH('a) then Inr (m OR push_bit n 1) else Inl UndefinedArith)"

definition FURI_BIT_CLEAR :: "'a::len word \<Rightarrow> nat \<Rightarrow> 'a word res" where
  "FURI_BIT_CLEAR m n = (if n < LENGTH('a) then Inr (m AND NOT (push_bit n 1)) else Inl UndefinedArith)"

fun mf_classic_is_key_found :: "mf_classic_data \<Rightarrow> nat \<Rightarrow> mf_classic_key_type \<Rightarrow> bool res" where
  "mf_classic_is_key_found data sector_num MfClassicKeyTypeA = mask_bit (key_a_mask data) sector_num"
| "mf_classic_is_key_found data sector_num MfClassicKeyTypeB = mask_bit (key_b_mask data) sector_num"

definition mf_classic_set_key_found :: "mf_classic_data \<Rightarrow> nat \<Rightarrow> mf_classic_key_type \<Rightarrow> u64 \<Rightarrow> mf_classic_data res" where
  "mf_classic_set_key_found data sector_num key_type key =
     bindr (mf_classic_get_sector_trailer_num_by_sector sector_num) (\<lambda>i.
     bindr (list_get (mf_block data) i) (\<lambda>sec_tr.
     bindr (bit_lib_num_to_bytes_be key 6 (replicate 6 0)) (\<lambda>key_arr.
     bindr (mem_copy sec_tr (case key_type of MfClassicKeyTypeA \<Rightarrow> 0 | MfClassicKeyTypeB \<Rightarrow> 10) key_arr 0 6) (\<lambda>sec_tr.
     bindr (list_set (mf_block data) i sec_tr) (\<lambda>bs.
       case key_type of
         MfClassicKeyTypeA \<Rightarrow> bindr (FURI_BIT_SET (key_a_mask data) sector_num) (\<lambda>m. Inr (data\<lparr>mf_block := bs, key_a_mask := m\<rparr>))
       | MfClassicKeyTypeB \<Rightarrow> bindr (FURI_BIT_SET (key_b_mask data) sector_num) (\<lambda>m. Inr (data\<lparr>mf_block := bs, key_b_mask := m\<rparr>)))))))"

fun mf_classic_set_key_not_found :: "mf_classic_data \<Rightarrow> nat \<Rightarrow> mf_classic_key_type \<Rightarrow> mf_classic_data res" where
  "mf_classic_set_key_not_found data sector_num MfClassicKeyTypeA =
     bindr (FURI_BIT_CLEAR (key_a_mask data) sector_num) (\<lambda>m. Inr (data\<lparr>key_a_mask := m\<rparr>))"
| "mf_classic_set_key_not_found data sector_num MfClassicKeyTypeB =
     bindr (FURI_BIT_CLEAR (key_b_mask data) sector_num) (\<lambda>m. Inr (data\<lparr>key_b_mask := m\<rparr>))"

definition mf_classic_get_key :: "mf_classic_data \<Rightarrow> nat \<Rightarrow> mf_classic_key_type \<Rightarrow> u8 list res" where
  "mf_classic_get_key data sector_num key_type =
     bindr (furi_check (sector_num < mf_classic_get_total_sectors_num (mf_type data))) (\<lambda>_.
     bindr (mf_classic_get_sector_trailer_by_sector data sector_num) (\<lambda>sec_tr.
       Inr (case key_type of MfClassicKeyTypeA \<Rightarrow> sec_tr_key_a sec_tr | MfClassicKeyTypeB \<Rightarrow> sec_tr_key_b sec_tr)))"

definition mf_classic_is_block_read :: "mf_classic_data \<Rightarrow> nat \<Rightarrow> bool res" where
  "mf_classic_is_block_read data block_num =
     bindr (list_get (block_read_mask data) (block_num div 32)) (\<lambda>m. Inr (FURI_BIT m (block_num mod 32) = 1))"

definition set_read_bit :: "mf_classic_data \<Rightarrow> nat \<Rightarrow> mf_classic_data res" where
  "set_read_bit data block_num =
     bindr (list_get (block_read_mask data) (block_num div 32)) (\<lambda>m.
     bindr (FURI_BIT_SET m (block_num mod 32)) (\<lambda>m.
     bindr (list_set (block_read_mask data) (block_num div 32) m) (\<lambda>ms. Inr (data\<lparr>block_read_mask := ms\<rparr>))))"

definition mf_classic_set_block_read :: "mf_classic_data \<Rightarrow> nat \<Rightarrow> mf_classic_block \<Rightarrow> mf_classic_data res" where
  "mf_classic_set_block_read data block_num block_data =
     bindr (list_get (mf_block data) block_num) (\<lambda>b.
     bindr (if mf_classic_is_sector_trailer block_num then mem_copy b 6 block_data 6 4 else mem_copy b 0 block_data 0 16) (\<lambda>b.
     bindr (list_set (mf_block data) block_num b) (\<lambda>bs. set_read_bit (data\<lparr>mf_block := bs\<rparr>) block_num)))"

definition mf_classic_set_sector_trailer_read :: "mf_classic_data \<Rightarrow> nat \<Rightarrow> mf_classic_block \<Rightarrow> mf_classic_data res" where
  "mf_classic_set_sector_trailer_read data block_num sec_tr =
     bindr (furi_check (mf_classic_is_sector_trailer block_num)) (\<lambda>_.
     let sector_num = mf_classic_get_sector_by_block block_num in
     bindr (mf_classic_get_sector_trailer_num_by_sector sector_num) (\<lambda>i.
     bindr (list_set (mf_block data) i sec_tr) (\<lambda>bs.
     bindr (set_read_bit (data\<lparr>mf_block := bs\<rparr>) block_num) (\<lambda>data.
     bindr (FURI_BIT_SET (key_a_mask data) sector_num) (\<lambda>ma.
     bindr (FURI_BIT_SET (key_b_mask data) sector_num) (\<lambda>mb.
       Inr (data\<lparr>key_a_mask := ma, key_b_mask := mb\<rparr>)))))))"

fun blocks_read :: "mf_classic_data \<Rightarrow> nat \<Rightarrow> nat \<Rightarrow> bool res" where
  "blocks_read data j 0 = Inr True"
| "blocks_read data j (Suc n) = bindr (mf_classic_is_block_read data j) (\<lambda>r. if r then blocks_read data (j + 1) n else Inr False)"

definition sectors_and_keys_step :: "mf_classic_data \<Rightarrow> nat \<Rightarrow> nat \<times> nat \<Rightarrow> (nat \<times> nat) res" where
  "sectors_and_keys_step data i s =
     (let (sectors_read, keys_found) = s in
      bindr (mf_classic_is_key_found data i MfClassicKeyTypeA) (\<lambda>a.
      bindr (mf_classic_is_key_found data i MfClassicKeyTypeB) (\<lambda>b.
      let keys_found = (if a then inc8 keys_found else keys_found); keys_found = (if b then inc8 keys_found else keys_found) in
      bindr (mf_classic_get_first_block_num_of_sector i) (\<lambda>first_block.
      bindr (mf_classic_get_blocks_num_in_sector i) (\<lambda>total.
      bindr (blocks_read data first_block total) (\<lambda>r.
        Inr (if r then inc8 sectors_read else sectors_read, keys_found)))))))"

definition mf_classic_get_read_sectors_and_keys :: "mf_classic_data \<Rightarrow> (nat \<times> nat) res" where
  "mf_classic_get_read_sectors_and_keys data =
     for_each (sectors_and_keys_step data) [0..<mf_classic_get_total_sectors_num (mf_type data)] (0, 0)"

definition mf_classic_is_card_read :: "mf_classic_data \<Rightarrow> bool res" where
  "mf_classic_is_card_read data =
     (let sectors = mf_classic_get_total_sectors_num (mf_type data) in
      bindr (mf_classic_get_read_sectors_and_keys data) (\<lambda>(sectors_read, keys_found).
        Inr (sectors_read = sectors \<and> keys_found = sectors * 2)))"

definition mf_classic_is_sector_read :: "mf_classic_data \<Rightarrow> nat \<Rightarrow> bool res" where
  "mf_classic_is_sector_read data sector_num =
     bindr (mf_classic_is_key_found data sector_num MfClassicKeyTypeA) (\<lambda>a. if \<not> a then Inr False else
     bindr (mf_classic_is_key_found data sector_num MfClassicKeyTypeB) (\<lambda>b. if \<not> b then Inr False else
     bindr (mf_classic_get_first_block_num_of_sector sector_num) (\<lambda>start_block.
     bindr (mf_classic_get_blocks_num_in_sector sector_num) (\<lambda>total_blocks. blocks_read data start_block total_blocks))))"

section \<open>Access conditions\<close>

definition trailer_AC :: "u8 list \<Rightarrow> u8" where
  "trailer_AC access_bits_arr =
     (drop_bit 5 (access_bits_arr ! 1) AND 0x04) OR (drop_bit 2 (access_bits_arr ! 2) AND 0x02) OR
     (drop_bit 7 (access_bits_arr ! 2) AND 0x01)"

fun trailer_allows :: "u8 \<Rightarrow> mf_classic_key_type \<Rightarrow> mf_classic_action \<Rightarrow> bool" where
  "trailer_allows AC key_type MfClassicActionKeyARead = False"
| "trailer_allows AC key_type MfClassicActionKeyAWrite =
     (key_type = MfClassicKeyTypeA \<and> (AC = 0 \<or> AC = 1) \<or> key_type = MfClassicKeyTypeB \<and> (AC = 0 \<or> AC = 4 \<or> AC = 3 \<or> AC = 1))"
| "trailer_allows AC key_type MfClassicActionKeyBWrite =
     (key_type = MfClassicKeyTypeA \<and> (AC = 0 \<or> AC = 1) \<or> key_type = MfClassicKeyTypeB \<and> (AC = 0 \<or> AC = 4 \<or> AC = 3 \<or> AC = 1))"
| "trailer_allows AC key_type MfClassicActionKeyBRead =
     (key_type = MfClassicKeyTypeA \<and> (AC = 0 \<or> AC = 2 \<or> AC = 1) \<or> key_type = MfClassicKeyTypeB \<and> (AC = 0 \<or> AC = 2 \<or> AC = 1))"
| "trailer_allows AC key_type MfClassicActionACRead = (key_type = MfClassicKeyTypeA \<or> key_type = MfClassicKeyTypeB)"
| "trailer_allows AC key_type MfClassicActionACWrite =
     (key_type = MfClassicKeyTypeA \<and> AC = 1 \<or> key_type = MfClassicKeyTypeB \<and> (AC = 1 \<or> AC = 3 \<or> AC = 5))"
| "trailer_allows AC key_type _ = False"

definition mf_classic_is_allowed_access_sector_trailer ::
  "mf_classic_data \<Rightarrow> nat \<Rightarrow> mf_classic_key_type \<Rightarrow> mf_classic_action \<Rightarrow> bool res" where
  "mf_classic_is_allowed_access_sector_trailer data block_num key_type action =
     bindr (mf_classic_get_sector_trailer_by_sector data (mf_classic_get_sector_by_block block_num)) (\<lambda>sec_tr.
       Inr (trailer_allows (trailer_AC (sec_tr_access_bits sec_tr)) key_type action))"

definition data_AC :: "u8 list \<Rightarrow> nat \<Rightarrow> u8 option" where
  "data_AC access_bits_arr sector_block =
     (if sector_block = 0 then Some ((drop_bit 2 (access_bits_arr ! 1) AND 0x04) OR (push_bit 1 (access_bits_arr ! 2) AND 0x02) OR
        (drop_bit 4 (access_bits_arr ! 2) AND 0x01))
      else if sector_block = 1 then Some ((drop_bit 3 (access_bits_arr ! 1) AND 0x04) OR (drop_bit 0 (access_bits_arr ! 2) AND 0x02) OR
        (drop_bit 5 (access_bits_arr ! 2) AND 0x01))
      else if sector_block = 2 then Some ((drop_bit 4 (access_bits_arr ! 1) AND 0x04) OR (drop_bit 1 (access_bits_arr ! 2) AND 0x02) OR
        (drop_bit 6 (access_bits_arr ! 2) AND 0x01))
      else None)"

fun data_allows :: "u8 \<Rightarrow> mf_classic_key_type \<Rightarrow> mf_classic_action \<Rightarrow> bool" where
  "data_allows AC key_type MfClassicActionDataRead =
     (key_type = MfClassicKeyTypeA \<and> \<not> (AC = 3 \<or> AC = 5 \<or> AC = 7) \<or> key_type = MfClassicKeyTypeB \<and> AC \<noteq> 7)"
| "data_allows AC key_type MfClassicActionDataWrite =
     (key_type = MfClassicKeyTypeA \<and> AC = 0 \<or> key_type = MfClassicKeyTypeB \<and> (AC = 0 \<or> AC = 4 \<or> AC = 6 \<or> AC = 3))"
| "data_allows AC key_type MfClassicActionDataInc =
     (key_type = MfClassicKeyTypeA \<and> AC = 0 \<or> key_type = MfClassicKeyTypeB \<and> (AC = 0 \<or> AC = 6))"
| "data_allows AC key_type MfClassicActionDataDec =
     (key_type = MfClassicKeyTypeA \<and> (AC = 0 \<or> AC = 6 \<or> AC = 1) \<or> key_type = MfClassicKeyTypeB \<and> (AC = 0 \<or> AC = 6 \<or> AC = 1))"
| "data_allows AC key_type _ = False"

definition mf_classic_is_allowed_access_data_block ::
  "mf_classic_block \<Rightarrow> nat \<Rightarrow> mf_classic_key_type \<Rightarrow> mf_classic_action \<Rightarrow> bool" where
  "mf_classic_is_allowed_access_data_block sec_tr block_num key_type action =
     (let access_bits_arr = sec_tr_access_bits sec_tr in
      if block_num = 0 \<and> action = MfClassicActionDataWrite then False
      else let sector_block = (if block_num \<le> 128 then block_num AND 0x03 else (block_num AND 0x0f) div 5) in
           case data_AC access_bits_arr sector_block of None \<Rightarrow> False | Some AC \<Rightarrow> data_allows AC key_type action)"

definition mf_classic_is_allowed_access ::
  "mf_classic_data \<Rightarrow> nat \<Rightarrow> mf_classic_key_type \<Rightarrow> mf_classic_action \<Rightarrow> bool res" where
  "mf_classic_is_allowed_access data block_num key_type action =
     (if mf_classic_is_sector_trailer block_num
      then mf_classic_is_allowed_access_sector_trailer data block_num key_type action
      else bindr (mf_classic_get_sector_trailer_by_sector data (mf_classic_get_sector_by_block block_num)) (\<lambda>sec_tr.
             Inr (mf_classic_is_allowed_access_data_block sec_tr block_num key_type action)))"

definition mf_classic_is_value_block :: "mf_classic_block \<Rightarrow> nat \<Rightarrow> bool" where
  "mf_classic_is_value_block sec_tr block_num \<longleftrightarrow>
     \<not> mf_classic_is_allowed_access_data_block sec_tr block_num MfClassicKeyTypeA MfClassicActionDataWrite \<and>
     (mf_classic_is_allowed_access_data_block sec_tr block_num MfClassicKeyTypeB MfClassicActionDataInc \<or>
      mf_classic_is_allowed_access_data_block sec_tr block_num MfClassicKeyTypeB MfClassicActionDataDec)"

end
