(* ===== verification/Mf_Classic_Listener.thy ===== *)
theory Mf_Classic_Listener
  imports Mf_Classic Checksums
begin

text \<open>
  The emulation of a Mifare Classic card (\<^verbatim>\<open>lib/nfc/protocols/mf_classic/mf_classic_listener.c\<close>): a state machine that
  is fed the frames of a reader. What is sent over the air and what is reported to the application is recorded
  in the state.
\<close>

section \<open>State\<close>

datatype mf_classic_listener_command =
  MfClassicListenerCommandProcessed | MfClassicListenerCommandAck | MfClassicListenerCommandNack |
  MfClassicListenerCommandSilent | MfClassicListenerCommandSleep

datatype mf_classic_listener_state = MfClassicListenerStateIdle | MfClassicListenerStateAuthComplete

datatype mf_classic_listener_comm_state = MfClassicListenerCommStatePlain | MfClassicListenerCommStateEncrypted

datatype mf_classic_value_command =
  MfClassicValueCommandIncrement | MfClassicValueCommandDecrement | MfClassicValueCommandRestore | MfClassicValueCommandInvalid

record mf_classic_auth_context =
  ac_block_num :: nat
  ac_key :: "u8 list"
  ac_key_type :: mf_classic_key_type
  ac_nt :: "u8 list"
  ac_nr :: "u8 list"
  ac_ar :: "u8 list"
  ac_at :: "u8 list"

definition zero_auth_context :: mf_classic_auth_context where
  "zero_auth_context = \<lparr>ac_block_num = 0, ac_key = replicate 6 0, ac_key_type = MfClassicKeyTypeA, ac_nt = replicate 4 0,
     ac_nr = replicate 4 0, ac_ar = replicate 4 0, ac_at = replicate 4 0\<rparr>"

datatype mf_classic_listener_event_type =
  MfClassicListenerEventTypeAuthContextPartCollected | MfClassicListenerEventTypeAuthContextFullCollected

text \<open>A frame goes out with the usual parity or with the parity bits of the buffer.\<close>

datatype sent_frame = Tx bit_buffer | TxCustomParity bit_buffer

record mf_classic_listener =
  l_state :: mf_classic_listener_state
  comm_state :: mf_classic_listener_comm_state
  l_data :: mf_classic_data
  tx_plain_buffer :: bit_buffer
  tx_encrypted_buffer :: bit_buffer
  rx_plain_buffer :: bit_buffer
  crypto :: crypto1
  auth_context :: mf_classic_auth_context
  write_block :: nat
  transfer_value :: int
  transfer_valid :: bool
  value_cmd :: mf_classic_value_command
  callback :: bool
  cmd_in_progress :: bool
  current_cmd_idx :: nat
  current_cmd_handler_idx :: nat
  total_block_num :: nat
  sent :: "sent_frame list"
  reported :: "(mf_classic_listener_event_type \<times> mf_classic_auth_context) list"

definition MF_CLASSIC_CMD_AUTH_KEY_A :: u8 where "MF_CLASSIC_CMD_AUTH_KEY_A = 0x60"
definition MF_CLASSIC_CMD_AUTH_KEY_B :: u8 where "MF_CLASSIC_CMD_AUTH_KEY_B = 0x61"
definition MF_CLASSIC_CMD_READ_BLOCK :: u8 where "MF_CLASSIC_CMD_READ_BLOCK = 0x30"
definition MF_CLASSIC_CMD_WRITE_BLOCK :: u8 where "MF_CLASSIC_CMD_WRITE_BLOCK = 0xA0"
definition MF_CLASSIC_CMD_VALUE_DEC :: u8 where "MF_CLASSIC_CMD_VALUE_DEC = 0xC0"
definition MF_CLASSIC_CMD_VALUE_INC :: u8 where "MF_CLASSIC_CMD_VALUE_INC = 0xC1"
definition MF_CLASSIC_CMD_VALUE_RESTORE :: u8 where "MF_CLASSIC_CMD_VALUE_RESTORE = 0xC2"
definition MF_CLASSIC_CMD_VALUE_TRANSFER :: u8 where "MF_CLASSIC_CMD_VALUE_TRANSFER = 0xB0"
definition MF_CLASSIC_CMD_HALT_MSB :: u8 where "MF_CLASSIC_CMD_HALT_MSB = 0x50"
definition MF_CLASSIC_CMD_HALT_LSB :: u8 where "MF_CLASSIC_CMD_HALT_LSB = 0x00"
definition MF_CLASSIC_CMD_ACK :: u8 where "MF_CLASSIC_CMD_ACK = 0x0A"
definition MF_CLASSIC_CMD_NACK :: u8 where "MF_CLASSIC_CMD_NACK = 0x00"
definition MF_CLASSIC_CMD_NACK_TRANSFER_INVALID :: u8 where "MF_CLASSIC_CMD_NACK_TRANSFER_INVALID = 0x04"

definition mf_classic_listener_reset_state :: "mf_classic_listener \<Rightarrow> mf_classic_listener" where
  "mf_classic_listener_reset_state s =
     s\<lparr>crypto := crypto1_reset (crypto s), auth_context := zero_auth_context, comm_state := MfClassicListenerCommStatePlain,
       l_state := MfClassicListenerStateIdle, cmd_in_progress := False, current_cmd_handler_idx := 0, write_block := 0,
       transfer_value := 0, transfer_valid := False, value_cmd := MfClassicValueCommandInvalid\<rparr>"

definition mf_classic_listener_alloc :: "mf_classic_data \<Rightarrow> mf_classic_listener res" where
  "mf_classic_listener_alloc data =
     bindr (bit_buffer_alloc 64) (\<lambda>b.
       Inr \<lparr>l_state = MfClassicListenerStateIdle, comm_state = MfClassicListenerCommStatePlain, l_data = data, tx_plain_buffer = b,
            tx_encrypted_buffer = b, rx_plain_buffer = b, crypto = crypto1_alloc, auth_context = zero_auth_context, write_block = 0,
            transfer_value = 0, transfer_valid = False, value_cmd = MfClassicValueCommandIncrement, callback = False,
            cmd_in_progress = False, current_cmd_idx = 0, current_cmd_handler_idx = 0,
            total_block_num = mf_classic_get_total_block_num (mf_type data), sent = [], reported = []\<rparr>)"

definition mf_classic_listener_set_callback :: "bool \<Rightarrow> mf_classic_listener \<Rightarrow> mf_classic_listener" where
  "mf_classic_listener_set_callback present s = s\<lparr>callback := present\<rparr>"

definition mf_classic_listener_get_data :: "mf_classic_listener \<Rightarrow> mf_classic_data" where
  "mf_classic_listener_get_data s = l_data s"

definition transmit :: "sent_frame \<Rightarrow> mf_classic_listener \<Rightarrow> mf_classic_listener" where
  "transmit f s = s\<lparr>sent := sent s @ [f]\<rparr>"

definition report :: "mf_classic_listener_event_type \<Rightarrow> mf_classic_listener \<Rightarrow> mf_classic_listener" where
  "report e s = (if callback s then s\<lparr>reported := reported s @ [(e, auth_context s)]\<rparr> else s)"

definition next_handler :: "mf_classic_listener \<Rightarrow> mf_classic_listener" where
  "next_handler s = s\<lparr>cmd_in_progress := True, current_cmd_handler_idx := inc32 (current_cmd_handler_idx s)\<rparr>"

section \<open>Handlers\<close>

text \<open>A handler is given the random bytes that it may ask for, the state, and the frame.\<close>

type_synonym handler = "u8 list \<Rightarrow> mf_classic_listener \<Rightarrow> bit_buffer \<Rightarrow> (mf_classic_listener_command \<times> mf_classic_listener) res"

definition mf_classic_listener_halt_handler :: handler where
  "mf_classic_listener_halt_handler rnd s buff =
     bindr (bit_buffer_get_byte buff 1) (\<lambda>b.
       Inr (if b = MF_CLASSIC_CMD_HALT_LSB then MfClassicListenerCommandSleep else MfClassicListenerCommandNack, s))"

definition mf_classic_listener_auth_first_part_handler ::
  "u8 list \<Rightarrow> mf_classic_listener \<Rightarrow> mf_classic_key_type \<Rightarrow> nat \<Rightarrow> (mf_classic_listener_command \<times> mf_classic_listener) res" where
  "mf_classic_listener_auth_first_part_handler rnd s key_type block_num =
     (let s = s\<lparr>l_state := MfClassicListenerStateIdle\<rparr> in
      if block_num \<ge> total_block_num s then Inr (MfClassicListenerCommandNack, s)
      else
        let sector_num = mf_classic_get_sector_by_block block_num in
        bindr (mf_classic_get_sector_trailer_by_sector (l_data s) sector_num) (\<lambda>sec_tr.
        let key = (if key_type = MfClassicKeyTypeA then sec_tr_key_a sec_tr else sec_tr_key_b sec_tr) in
        bindr (bit_lib_bytes_to_num_be key 6) (\<lambda>key_num.
        let cuid = iso14443_3a_get_cuid (iso14443_3a_data (l_data s));
            s = s\<lparr>auth_context := (auth_context s)\<lparr>ac_key_type := key_type, ac_block_num := block_num, ac_nt := rnd\<rparr>\<rparr> in
        bindr (bit_lib_bytes_to_num_be rnd 4) (\<lambda>n.
        let nt_num = ucast n :: u32; s = s\<lparr>crypto := crypto1_init (crypto s) key_num\<rparr> in
        bindr (if comm_state s = MfClassicListenerCommStatePlain
               then let s = s\<lparr>crypto := snd (crypto1_word (crypto s) (nt_num XOR cuid) False)\<rparr> in
                    bindr (bit_buffer_copy_bytes (tx_encrypted_buffer s) rnd 4) (\<lambda>b.
                      Inr (transmit (Tx b) (s\<lparr>tx_encrypted_buffer := b\<rparr>)))
               else bindr (bit_lib_num_to_bytes_be (ucast (nt_num XOR cuid)) 4 (replicate 4 0)) (\<lambda>key_stream.
                    bindr (bit_buffer_copy_bytes (tx_plain_buffer s) rnd 4) (\<lambda>p.
                    bindr (crypto1_encrypt (crypto s) (Some key_stream) p (tx_encrypted_buffer s)) (\<lambda>(c, b).
                      Inr (transmit (TxCustomParity b) (s\<lparr>tx_plain_buffer := p, crypto := c, tx_encrypted_buffer := b\<rparr>)))))) (\<lambda>s.
          Inr (MfClassicListenerCommandProcessed, next_handler s))))))"

definition mf_classic_listener_auth_key_a_handler :: handler where
  "mf_classic_listener_auth_key_a_handler rnd s buff =
     bindr (bit_buffer_get_byte buff 1) (\<lambda>b. mf_classic_listener_auth_first_part_handler rnd s MfClassicKeyTypeA (unat b))"

definition mf_classic_listener_auth_key_b_handler :: handler where
  "mf_classic_listener_auth_key_b_handler rnd s buff =
     bindr (bit_buffer_get_byte buff 1) (\<lambda>b. mf_classic_listener_auth_first_part_handler rnd s MfClassicKeyTypeB (unat b))"

definition mf_classic_listener_auth_second_part_handler :: handler where
  "mf_classic_listener_auth_second_part_handler rnd s buff =
     (let s = s\<lparr>cmd_in_progress := False\<rparr> in
      if bit_buffer_get_size_bytes buff \<noteq> 8 then Inr (MfClassicListenerCommandSleep, s)
      else
        bindr (bit_buffer_write_bytes_mid buff (ac_nr (auth_context s)) 0 4) (\<lambda>nr.
        bindr (bit_buffer_write_bytes_mid buff (ac_ar (auth_context s)) 4 4) (\<lambda>ar.
        let s = s\<lparr>auth_context := (auth_context s)\<lparr>ac_nr := nr, ac_ar := ar\<rparr>\<rparr>;
            s = report MfClassicListenerEventTypeAuthContextPartCollected s in
        bindr (bit_lib_bytes_to_num_be (ac_nr (auth_context s)) 4) (\<lambda>n.
        bindr (bit_lib_bytes_to_num_be (ac_ar (auth_context s)) 4) (\<lambda>a.
        let nr_num = ucast n :: u32; ar_num = ucast a :: u32;
            s = s\<lparr>crypto := snd (crypto1_word (crypto s) nr_num True)\<rparr> in
        bindr (bit_lib_bytes_to_num_be (ac_nt (auth_context s)) 4) (\<lambda>t.
        let nt_num = ucast t :: u32; (k, c) = crypto1_word (crypto s) 0 False; s = s\<lparr>crypto := c\<rparr>;
            secret_poller = ar_num XOR k in
        if secret_poller \<noteq> crypto1_prng_successor nt_num 64 then Inr (MfClassicListenerCommandSleep, s)
        else
          let at_num = crypto1_prng_successor nt_num 96 in
          bindr (bit_lib_num_to_bytes_be (ucast at_num) 4 (ac_at (auth_context s))) (\<lambda>at.
          let s = s\<lparr>auth_context := (auth_context s)\<lparr>ac_at := at\<rparr>\<rparr> in
          bindr (bit_buffer_copy_bytes (tx_plain_buffer s) at 4) (\<lambda>p.
          bindr (crypto1_encrypt (crypto s) None p (tx_encrypted_buffer s)) (\<lambda>(c, b).
          let s = transmit (TxCustomParity b) (s\<lparr>tx_plain_buffer := p, crypto := c, tx_encrypted_buffer := b\<rparr>);
              s = s\<lparr>l_state := MfClassicListenerStateAuthComplete, comm_state := MfClassicListenerCommStateEncrypted\<rparr> in
          Inr (MfClassicListenerCommandProcessed, report MfClassicListenerEventTypeAuthContextFullCollected s))))))))))"

text \<open>What a reader sees of the trailer of a sector.\<close>

definition clear_field :: "bool \<Rightarrow> nat \<Rightarrow> nat \<Rightarrow> mf_classic_block \<Rightarrow> mf_classic_block res" where
  "clear_field allowed off n b = (if allowed then Inr b else mem_copy b off (replicate n 0) 0 n)"

definition mf_classic_listener_read_block_handler :: handler where
  "mf_classic_listener_read_block_handler rnd s buff =
     (if l_state s \<noteq> MfClassicListenerStateAuthComplete then Inr (MfClassicListenerCommandNack, s)
      else
        bindr (bit_buffer_get_byte buff 1) (\<lambda>b.
        let block_num = unat b; key_type = ac_key_type (auth_context s);
            sector_num = mf_classic_get_sector_by_block block_num;
            auth_sector_num = mf_classic_get_sector_by_block (ac_block_num (auth_context s)) in
        if sector_num \<noteq> auth_sector_num then Inr (MfClassicListenerCommandNack, s)
        else
          bindr (list_get (mf_block (l_data s)) block_num) (\<lambda>access_block.
          bindr (if mf_classic_is_sector_trailer block_num
                 then bindr (mf_classic_is_allowed_access (l_data s) block_num key_type MfClassicActionKeyARead) (\<lambda>a.
                      bindr (clear_field a 0 6 access_block) (\<lambda>access_block.
                      bindr (mf_classic_is_allowed_access (l_data s) block_num key_type MfClassicActionKeyBRead) (\<lambda>a.
                      bindr (clear_field a 10 6 access_block) (\<lambda>access_block.
                      bindr (mf_classic_is_allowed_access (l_data s) block_num key_type MfClassicActionACRead) (\<lambda>a.
                      bindr (clear_field a 6 4 access_block) (\<lambda>access_block. Inr (True, access_block)))))))
                 else bindr (mf_classic_is_allowed_access (l_data s) block_num key_type MfClassicActionDataRead) (\<lambda>a.
                      Inr (a, access_block))) (\<lambda>(go_on, access_block).
          if \<not> go_on then Inr (MfClassicListenerCommandNack, s)
          else
            bindr (bit_buffer_copy_bytes (tx_plain_buffer s) access_block 16) (\<lambda>p.
            bindr (iso14443_crc_append Iso14443CrcTypeA p) (\<lambda>p.
            bindr (crypto1_encrypt (crypto s) None p (tx_encrypted_buffer s)) (\<lambda>(c, b).
              Inr (MfClassicListenerCommandProcessed,
                   transmit (TxCustomParity b) (s\<lparr>tx_plain_buffer := p, crypto := c, tx_encrypted_buffer := b\<rparr>)))))))))"

definition mf_classic_listener_write_block_first_part_handler :: handler where
  "mf_classic_listener_write_block_first_part_handler rnd s buff =
     (if l_state s \<noteq> MfClassicListenerStateAuthComplete then Inr (MfClassicListenerCommandNack, s)
      else
        bindr (bit_buffer_get_byte buff 1) (\<lambda>b.
        let block_num = unat b in
        if block_num \<ge> total_block_num s then Inr (MfClassicListenerCommandNack, s)
        else if block_num = 0 then Inr (MfClassicListenerCommandNack, s)
        else if mf_classic_get_sector_by_block block_num \<noteq> mf_classic_get_sector_by_block (ac_block_num (auth_context s))
        then Inr (MfClassicListenerCommandNack, s)
        else Inr (MfClassicListenerCommandAck, next_handler (s\<lparr>write_block := block_num\<rparr>))))"

text \<open>\<open>write_field\<close>: \<open>n\<close> bytes at \<open>off\<close> of the frame go to the same place of the block.\<close>

definition write_field :: "bool \<Rightarrow> bit_buffer \<Rightarrow> nat \<Rightarrow> nat \<Rightarrow> mf_classic_block \<Rightarrow> mf_classic_block res" where
  "write_field allowed buff off n b =
     (if allowed then bindr (bit_buffer_write_bytes_mid buff (take n (drop off b)) off n) (\<lambda>d. mem_copy b off d 0 n) else Inr b)"

definition mf_classic_listener_write_block_second_part_handler :: handler where
  "mf_classic_listener_write_block_second_part_handler rnd s buff =
     (let s = s\<lparr>cmd_in_progress := False\<rparr> in
      if bit_buffer_get_size_bytes buff \<noteq> 16 then Inr (MfClassicListenerCommandNack, s)
      else
        let block_num = write_block s; key_type = ac_key_type (auth_context s);
            allowed = mf_classic_is_allowed_access (l_data s) block_num key_type in
        bindr (list_get (mf_block (l_data s)) block_num) (\<lambda>b.
        bindr (if mf_classic_is_sector_trailer block_num
               then bindr (allowed MfClassicActionKeyAWrite) (\<lambda>a.
                    bindr (if a then Inr True else allowed MfClassicActionKeyBWrite) (\<lambda>a.
                    bindr (if a then Inr True else allowed MfClassicActionACWrite) (\<lambda>a.
                    if \<not> a then Inr (False, b)
                    else
                      bindr (allowed MfClassicActionKeyAWrite) (\<lambda>a.
                      bindr (write_field a buff 0 6 b) (\<lambda>b.
                      bindr (allowed MfClassicActionKeyBWrite) (\<lambda>a.
                      bindr (write_field a buff 10 6 b) (\<lambda>b.
                      bindr (allowed MfClassicActionACWrite) (\<lambda>a.
                      bindr (write_field a buff 6 4 b) (\<lambda>b. Inr (True, b))))))))))
               else bindr (allowed MfClassicActionDataWrite) (\<lambda>a.
                    bindr (write_field a buff 0 16 b) (\<lambda>b. Inr (a, b)))) (\<lambda>(go_on, b).
        if \<not> go_on then Inr (MfClassicListenerCommandNack, s)
        else bindr (list_set (mf_block (l_data s)) block_num b) (\<lambda>bs.
               Inr (MfClassicListenerCommandAck, s\<lparr>l_data := (l_data s)\<lparr>mf_block := bs\<rparr>\<rparr>)))))"

definition value_command :: "u8 \<Rightarrow> (mf_classic_value_command \<times> mf_classic_action) option" where
  "value_command cmd =
     (if cmd = MF_CLASSIC_CMD_VALUE_DEC then Some (MfClassicValueCommandDecrement, MfClassicActionDataDec)
      else if cmd = MF_CLASSIC_CMD_VALUE_INC then Some (MfClassicValueCommandIncrement, MfClassicActionDataInc)
      else if cmd = MF_CLASSIC_CMD_VALUE_RESTORE then Some (MfClassicValueCommandRestore, MfClassicActionDataDec)
      else None)"

definition mf_classic_listener_value_cmd_handler :: handler where
  "mf_classic_listener_value_cmd_handler rnd s buff =
     (if l_state s \<noteq> MfClassicListenerStateAuthComplete then Inr (MfClassicListenerCommandNack, s)
      else
        bindr (bit_buffer_get_byte buff 1) (\<lambda>b.
        let block_num = unat b in
        if block_num \<ge> total_block_num s then Inr (MfClassicListenerCommandNack, s)
        else if mf_classic_get_sector_by_block block_num \<noteq> mf_classic_get_sector_by_block (ac_block_num (auth_context s))
        then Inr (MfClassicListenerCommandNack, s)
        else
          bindr (bit_buffer_get_byte buff 0) (\<lambda>cmd.
          case value_command cmd of
            None \<Rightarrow> Inr (MfClassicListenerCommandNack, s)
          | Some (v, action) \<Rightarrow>
              let s = s\<lparr>value_cmd := v\<rparr> in
              bindr (mf_classic_is_allowed_access (l_data s) block_num (ac_key_type (auth_context s)) action) (\<lambda>a.
              if \<not> a then Inr (MfClassicListenerCommandNack, s)
              else
                bindr (list_get (mf_block (l_data s)) block_num) (\<lambda>b.
                let (is_value, value, addr) = mf_classic_block_to_value b; s = s\<lparr>transfer_value := value\<rparr> in
                if \<not> is_value then Inr (MfClassicListenerCommandNack, s)
                else Inr (MfClassicListenerCommandAck, next_handler (s\<lparr>transfer_valid := True\<rparr>)))))))"

definition mf_classic_listener_value_dec_handler :: handler where
  "mf_classic_listener_value_dec_handler rnd s buff = mf_classic_listener_value_cmd_handler rnd s buff"

definition mf_classic_listener_value_inc_handler :: handler where
  "mf_classic_listener_value_inc_handler rnd s buff = mf_classic_listener_value_cmd_handler rnd s buff"

definition mf_classic_listener_value_restore_handler :: handler where
  "mf_classic_listener_value_restore_handler rnd s buff = mf_classic_listener_value_cmd_handler rnd s buff"

text \<open>Arithmetic on \<^verbatim>\<open>int32_t\<close> is undefined where it leaves its range.\<close>

definition int32 :: "int \<Rightarrow> int res" where
  "int32 x = (if - (2 ^ 31) \<le> x \<and> x < 2 ^ 31 then Inr x else Inl UndefinedArith)"

definition mf_classic_listener_value_data_receive_handler :: handler where
  "mf_classic_listener_value_data_receive_handler rnd s buff =
     (if bit_buffer_get_size_bytes buff \<noteq> 4 then Inr (MfClassicListenerCommandNack, s)
      else
        bindr (bit_buffer_write_bytes_mid buff (replicate 4 0) 0 4) (\<lambda>d.
        let data = sint (word_at d 0) in
        bindr (if data < 0 then int32 (- data) else Inr data) (\<lambda>data.
        bindr (if value_cmd s = MfClassicValueCommandDecrement then int32 (- data)
               else Inr (if value_cmd s = MfClassicValueCommandRestore then 0 else data)) (\<lambda>data.
        bindr (int32 (transfer_value s + data)) (\<lambda>v.
          Inr (MfClassicListenerCommandSilent, next_handler (s\<lparr>transfer_value := v, transfer_valid := True\<rparr>)))))))"

definition mf_classic_listener_value_transfer_handler :: handler where
  "mf_classic_listener_value_transfer_handler rnd s buff =
     (let s = s\<lparr>cmd_in_progress := False\<rparr> in
      if bit_buffer_get_size_bytes buff \<noteq> 2 then Inr (MfClassicListenerCommandNack, s)
      else
        bindr (bit_buffer_get_byte buff 0) (\<lambda>cmd.
        if cmd \<noteq> MF_CLASSIC_CMD_VALUE_TRANSFER then Inr (MfClassicListenerCommandNack, s)
        else
          bindr (bit_buffer_get_byte buff 1) (\<lambda>b.
          let block_num = unat b in
          bindr (mf_classic_is_allowed_access (l_data s) block_num (ac_key_type (auth_context s)) MfClassicActionDataDec) (\<lambda>a.
          if \<not> a then Inr (MfClassicListenerCommandNack, s)
          else
            bindr (list_set (mf_block (l_data s)) block_num (mf_classic_value_to_block (transfer_value s) b)) (\<lambda>bs.
              Inr (MfClassicListenerCommandAck,
                   s\<lparr>l_data := (l_data s)\<lparr>mf_block := bs\<rparr>, transfer_value := 0, transfer_valid := False\<rparr>))))))"

section \<open>Dispatch\<close>

record mf_classic_listener_cmd =
  cmd_start_byte :: u8
  cmd_len_bits :: nat
  cmd_handler :: "handler list"

definition mf_classic_listener_cmd_handlers :: "mf_classic_listener_cmd list" where
  "mf_classic_listener_cmd_handlers =
     [\<lparr>cmd_start_byte = MF_CLASSIC_CMD_HALT_MSB, cmd_len_bits = 2 * 8, cmd_handler = [mf_classic_listener_halt_handler]\<rparr>,
      \<lparr>cmd_start_byte = MF_CLASSIC_CMD_HALT_MSB, cmd_len_bits = 15, cmd_handler = [mf_classic_listener_halt_handler]\<rparr>,
      \<lparr>cmd_start_byte = MF_CLASSIC_CMD_AUTH_KEY_A, cmd_len_bits = 2 * 8,
       cmd_handler = [mf_classic_listener_auth_key_a_handler, mf_classic_listener_auth_second_part_handler]\<rparr>,
      \<lparr>cmd_start_byte = MF_CLASSIC_CMD_AUTH_KEY_B, cmd_len_bits = 2 * 8,
       cmd_handler = [mf_classic_listener_auth_key_b_handler, mf_classic_listener_auth_second_part_handler]\<rparr>,
      \<lparr>cmd_start_byte = MF_CLASSIC_CMD_READ_BLOCK, cmd_len_bits = 2 * 8, cmd_handler = [mf_classic_listener_read_block_handler]\<rparr>,
      \<lparr>cmd_start_byte = MF_CLASSIC_CMD_WRITE_BLOCK, cmd_len_bits = 2 * 8,
       cmd_handler = [mf_classic_listener_write_block_first_part_handler, mf_classic_listener_write_block_second_part_handler]\<rparr>,
      \<lparr>cmd_start_byte = MF_CLASSIC_CMD_VALUE_DEC, cmd_len_bits = 2 * 8,
       cmd_handler = [mf_classic_listener_value_dec_handler, mf_classic_listener_value_data_receive_handler,
         mf_classic_listener_value_transfer_handler]\<rparr>,
      \<lparr>cmd_start_byte = MF_CLASSIC_CMD_VALUE_INC, cmd_len_bits = 2 * 8,
       cmd_handler = [mf_classic_listener_value_inc_handler, mf_classic_listener_value_data_receive_handler,
         mf_classic_listener_value_transfer_handler]\<rparr>,
      \<lparr>cmd_start_byte = MF_CLASSIC_CMD_VALUE_RESTORE, cmd_len_bits = 2 * 8,
       cmd_handler = [mf_classic_listener_value_restore_handler, mf_classic_listener_value_data_receive_handler,
         mf_classic_listener_value_transfer_handler]\<rparr>]"

definition mf_classic_listener_send_short_frame :: "mf_classic_listener \<Rightarrow> u8 \<Rightarrow> mf_classic_listener res" where
  "mf_classic_listener_send_short_frame s data =
     bindr (bit_buffer_set_size (tx_plain_buffer s) 4) (\<lambda>p.
     bindr (bit_buffer_set_byte p 0 data) (\<lambda>p.
     let s = s\<lparr>tx_plain_buffer := p\<rparr> in
     if comm_state s = MfClassicListenerCommStateEncrypted
     then bindr (crypto1_encrypt (crypto s) None p (tx_encrypted_buffer s)) (\<lambda>(c, b).
            Inr (transmit (TxCustomParity b) (s\<lparr>crypto := c, tx_encrypted_buffer := b\<rparr>)))
     else Inr (transmit (TxCustomParity p) s)))"

datatype iso14443_3a_listener_event =
  Iso14443_3aListenerEventTypeFieldOff | Iso14443_3aListenerEventTypeHalted |
  Iso14443_3aListenerEventTypeReceivedStandardFrame bit_buffer | Iso14443_3aListenerEventTypeReceivedData bit_buffer

datatype nfc_command = NfcCommandContinue | NfcCommandReset | NfcCommandStop | NfcCommandSleep

fun find_command :: "mf_classic_listener_cmd list \<Rightarrow> nat \<Rightarrow> bit_buffer \<Rightarrow> nat option res" where
  "find_command [] i rx = Inr None"
| "find_command (c # cs) i rx =
     (if bit_buffer_get_size rx \<noteq> cmd_len_bits c then find_command cs (i + 1) rx
      else bindr (bit_buffer_get_byte rx 0) (\<lambda>b. if b \<noteq> cmd_start_byte c then find_command cs (i + 1) rx else Inr (Some i)))"

definition receive_plain :: "mf_classic_listener \<Rightarrow> bit_buffer \<Rightarrow> (mf_classic_listener \<times> bit_buffer) res" where
  "receive_plain s buffer =
     (if comm_state s = MfClassicListenerCommStateEncrypted \<and> l_state s = MfClassicListenerStateAuthComplete
      then bindr (crypto1_decrypt (crypto s) buffer (rx_plain_buffer s)) (\<lambda>(c, p).
           bindr (iso14443_crc_check Iso14443CrcTypeA p) (\<lambda>ok.
           bindr (if ok then iso14443_crc_trim p else Inr p) (\<lambda>p.
             Inr (s\<lparr>crypto := c, rx_plain_buffer := p\<rparr>, p))))
      else Inr (s, buffer))"

definition handle_command :: handler where
  "handle_command rnd s rx =
     (if cmd_in_progress s
      then bindr (list_get mf_classic_listener_cmd_handlers (current_cmd_idx s)) (\<lambda>c.
           bindr (list_get (cmd_handler c) (current_cmd_handler_idx s)) (\<lambda>h. h rnd s rx))
      else bindr (find_command mf_classic_listener_cmd_handlers 0 rx) (\<lambda>found.
           case found of
             None \<Rightarrow> Inr (MfClassicListenerCommandNack, s)
           | Some i \<Rightarrow>
               bindr (list_get mf_classic_listener_cmd_handlers i) (\<lambda>c.
               bindr (list_get (cmd_handler c) 0) (\<lambda>h. h rnd (s\<lparr>current_cmd_idx := i, current_cmd_handler_idx := 0\<rparr>) rx))))"

fun answer_command :: "mf_classic_listener_command \<Rightarrow> mf_classic_listener \<Rightarrow> (nfc_command \<times> mf_classic_listener) res" where
  "answer_command MfClassicListenerCommandAck s =
     bindr (mf_classic_listener_send_short_frame s MF_CLASSIC_CMD_ACK) (\<lambda>s. Inr (NfcCommandContinue, s))"
| "answer_command MfClassicListenerCommandNack s =
     (let nack = (if transfer_valid s then MF_CLASSIC_CMD_NACK else MF_CLASSIC_CMD_NACK + MF_CLASSIC_CMD_NACK_TRANSFER_INVALID) in
      bindr (mf_classic_listener_send_short_frame s nack) (\<lambda>s. Inr (NfcCommandSleep, mf_classic_listener_reset_state s)))"
| "answer_command MfClassicListenerCommandSilent s = Inr (NfcCommandReset, s)"
| "answer_command MfClassicListenerCommandSleep s = Inr (NfcCommandSleep, mf_classic_listener_reset_state s)"
| "answer_command MfClassicListenerCommandProcessed s = Inr (NfcCommandContinue, s)"

definition receive_frame :: "u8 list \<Rightarrow> mf_classic_listener \<Rightarrow> bit_buffer \<Rightarrow> (nfc_command \<times> mf_classic_listener) res" where
  "receive_frame rnd s buffer =
     bindr (receive_plain s buffer) (\<lambda>(s, rx). bindr (handle_command rnd s rx) (\<lambda>(cmd, s). answer_command cmd s))"

fun mf_classic_listener_run ::
  "u8 list \<Rightarrow> mf_classic_listener \<Rightarrow> iso14443_3a_listener_event \<Rightarrow> (nfc_command \<times> mf_classic_listener) res" where
  "mf_classic_listener_run rnd s Iso14443_3aListenerEventTypeFieldOff = Inr (NfcCommandSleep, mf_classic_listener_reset_state s)"
| "mf_classic_listener_run rnd s (Iso14443_3aListenerEventTypeReceivedData buffer) = receive_frame rnd s buffer"
| "mf_classic_listener_run rnd s (Iso14443_3aListenerEventTypeReceivedStandardFrame buffer) = receive_frame rnd s buffer"
| "mf_classic_listener_run rnd s Iso14443_3aListenerEventTypeHalted = Inr (NfcCommandContinue, mf_classic_listener_reset_state s)"

end
