(* ===== verification/Mf_Classic_Facts.thy ===== *)
theory Mf_Classic_Facts
  imports Mf_Classic Bit_Lib_Codes
begin

text \<open>
  How blocks lie in sectors, the two ways of a value and its block, and when a card counts as read.
\<close>

section \<open>Sectors\<close>

lemma or_low: "b OR mask k = b div 2 ^ k * 2 ^ k + mask k" for b :: nat
proof -
  have "b OR mask k = push_bit k (drop_bit k b) OR mask k"
    by (rule bit_eqI) (auto simp: bit_or_iff bit_mask_iff bit_push_bit_iff bit_drop_bit_eq)
  also have "\<dots> = push_bit k (drop_bit k b) + mask k"
    by (rule disjunctive_add_eq_or [symmetric]) (rule bit_eqI, auto simp: bit_and_iff bit_mask_iff bit_push_bit_iff)
  finally show ?thesis by (simp add: push_bit_eq_mult drop_bit_eq_div)
qed

lemma or_3: "b OR 3 = b div 4 * 4 + (3 :: nat)" and or_15: "b OR 15 = b div 16 * 16 + (15 :: nat)"
  using or_low [of b 2] or_low [of b 4] by (simp_all add: mask_eq_exp_minus_1)

lemma sector_by_block: "mf_classic_get_sector_by_block b = (if b < 128 then b div 4 else 24 + b div 16)"
proof (cases "b < 128")
  case False
  then have "8 \<le> b div 16" by linarith
  then obtain q where "b div 16 = 8 + q" by (auto simp: le_iff_add)
  then show ?thesis using False by (simp add: mf_classic_get_sector_by_block_def or_15)
qed (simp add: mf_classic_get_sector_by_block_def or_3)

lemma trailer_by_block: "mf_classic_get_sector_trailer_num_by_block b = (if b < 128 then b div 4 * 4 + 3 else b div 16 * 16 + 15)"
  by (simp add: mf_classic_get_sector_trailer_num_by_block_def or_3 or_15)

lemma block_in_sector:
  assumes "b < 256"
  shows "mf_classic_get_sector_by_block b < 40"
    and "mf_classic_get_sector_trailer_num_by_sector (mf_classic_get_sector_by_block b) = Inr (mf_classic_get_sector_trailer_num_by_block b)"
    and "mf_classic_get_sector_trailer_num_by_block b < 256"
proof -
  consider "b < 128" "b div 4 < 32" | "\<not> b < 128" "8 \<le> b div 16" "b div 16 < 16" using assms by linarith
  then show "mf_classic_get_sector_by_block b < 40" "mf_classic_get_sector_trailer_num_by_block b < 256"
    "mf_classic_get_sector_trailer_num_by_sector (mf_classic_get_sector_by_block b) = Inr (mf_classic_get_sector_trailer_num_by_block b)"
    by (cases; simp add: sector_by_block trailer_by_block mf_classic_get_sector_trailer_num_by_sector_def)+
qed

text \<open>The memory of every card has 256 blocks of 16 bytes, whether it has all of them or not.\<close>

definition card_ok :: "mf_classic_data \<Rightarrow> bool" where
  "card_ok d \<longleftrightarrow> length (mf_block d) = 256 \<and> (\<forall>b \<in> set (mf_block d). length b = 16) \<and>
     length (block_read_mask d) = 8 \<and> length (uid (iso14443_3a_data d)) = 10"

lemma card_block: "card_ok d \<Longrightarrow> i < 256 \<Longrightarrow> list_get (mf_block d) i = Inr (mf_block d ! i) \<and> length (mf_block d ! i) = 16"
  by (auto simp: card_ok_def list_get_def)

lemma card_put: "card_ok d \<Longrightarrow> i < 256 \<Longrightarrow> length b = 16 \<Longrightarrow> list_set (mf_block d) i b = Inr ((mf_block d)[i := b]) \<and> card_ok (d\<lparr>mf_block := (mf_block d)[i := b]\<rparr>)"
  by (auto simp: card_ok_def list_set_def dest: subsetD [OF set_update_subset_insert])

definition trailer_of :: "mf_classic_data \<Rightarrow> nat \<Rightarrow> mf_classic_block" where
  "trailer_of d b = mf_block d ! mf_classic_get_sector_trailer_num_by_block b"

lemma sector_trailer_of:
  "card_ok d \<Longrightarrow> b < 256 \<Longrightarrow> mf_classic_get_sector_trailer_by_sector d (mf_classic_get_sector_by_block b) = Inr (trailer_of d b)"
  by (simp add: mf_classic_get_sector_trailer_by_sector_def block_in_sector card_block trailer_of_def)

lemma length_trailer_of: "card_ok d \<Longrightarrow> b < 256 \<Longrightarrow> length (trailer_of d b) = 16"
  by (simp add: trailer_of_def card_block block_in_sector)

text \<open>What the access conditions say, without the detour over the sector.\<close>

definition allows :: "mf_classic_data \<Rightarrow> nat \<Rightarrow> mf_classic_key_type \<Rightarrow> mf_classic_action \<Rightarrow> bool" where
  "allows d b key_type action =
     (if mf_classic_is_sector_trailer b then trailer_allows (trailer_AC (sec_tr_access_bits (trailer_of d b))) key_type action
      else mf_classic_is_allowed_access_data_block (trailer_of d b) b key_type action)"

lemma allowed_access: "card_ok d \<Longrightarrow> b < 256 \<Longrightarrow> mf_classic_is_allowed_access d b key_type action = Inr (allows d b key_type action)"
  by (simp add: mf_classic_is_allowed_access_def mf_classic_is_allowed_access_sector_trailer_def sector_trailer_of allows_def)

lemma allows_data_dec: "allows d b k MfClassicActionDataDec \<Longrightarrow> \<not> mf_classic_is_sector_trailer b"
  by (auto simp: allows_def)

section \<open>Values\<close>

lemma bit_word_at:
  "i < 32 \<Longrightarrow> bit (word_at b k) i = bit (b ! (k + i div 8)) (i mod 8)"
proof -
  assume i: "i < 32"
  define q m where "q = i div 8" and "m = i mod 8"
  have "i = 8 * q + m" "m < 8" "q < 4" using i by (auto simp: q_def m_def)
  then consider "q = 0" "i = m" "m < 8" | "q = 1" "i = 8 + m" "m < 8" | "q = 2" "i = 16 + m" "m < 8" | "q = 3" "i = 24 + m" "m < 8" by force
  then show ?thesis unfolding q_def [symmetric] m_def [symmetric]
    by cases (auto simp: word_at_def bit_or_iff bit_push_bit_iff bit_ucast_iff add.commute dest: bit_imp_le_length)
qed

lemma nth_bytes_at: "i < 4 \<Longrightarrow> bytes_at v ! i = ucast (drop_bit (8 * i) v)"
  by (simp add: bytes_at_def)

lemma length_bytes_at [simp]: "length (bytes_at v) = 4"
  by (simp add: bytes_at_def)

lemma word_at_bytes:
  assumes "\<And>i. i < 4 \<Longrightarrow> b ! (k + i) = bytes_at v ! i"
  shows "word_at b k = v"
proof (rule bit_word_eqI)
  fix i :: nat assume "i < LENGTH(32)"
  then have i: "i < 32" by simp
  then have "i div 8 < 4" by simp
  then show "bit (word_at b k) i = bit v i"
    using assms [of "i div 8"] i by (simp add: bit_word_at nth_bytes_at bit_ucast_iff bit_drop_bit_eq)
qed

lemma bytes_at_word:
  assumes "k + 4 \<le> length b"
  shows "bytes_at (word_at b k) = take 4 (drop k b)"
proof (rule nth_equalityI)
  fix i assume "i < length (bytes_at (word_at b k))"
  then have i: "i < 4" by simp
  show "bytes_at (word_at b k) ! i = take 4 (drop k b) ! i"
  proof (rule bit_word_eqI)
    fix j :: nat assume j: "j < LENGTH(8)"
    then have "8 * i + j < 32" "(8 * i + j) div 8 = i" "(8 * i + j) mod 8 = j" using i by auto
    then show "bit (bytes_at (word_at b k) ! i) j = bit (take 4 (drop k b) ! i) j"
      using i j assms by (simp add: nth_bytes_at bit_ucast_iff bit_drop_bit_eq bit_word_at)
  qed
qed (use assms in simp)

lemma whole_byte: "x AND 0xFF = x" for x :: u8
proof -
  have "(0xFF :: u8) = - 1" by code_simp
  then show ?thesis by (simp only: and.right_neutral)
qed

lemma value_block:
  "mf_classic_value_to_block v a = bytes_at (word_of_int v) @ bytes_at (NOT (word_of_int v)) @ bytes_at (word_of_int v) @ [a, NOT a, a, NOT a]"
  by (simp only: mf_classic_value_to_block_def Let_def whole_byte)

lemma length_value_block [simp]: "length (mf_classic_value_to_block v a) = 16"
  by (simp add: value_block)

lemma value_block_nth:
  "i < 4 \<Longrightarrow> mf_classic_value_to_block v a ! i = bytes_at (word_of_int v) ! i"
  "i < 4 \<Longrightarrow> mf_classic_value_to_block v a ! (4 + i) = bytes_at (NOT (word_of_int v)) ! i"
  "i < 4 \<Longrightarrow> mf_classic_value_to_block v a ! (8 + i) = bytes_at (word_of_int v) ! i"
  "mf_classic_value_to_block v a ! 12 = a" "mf_classic_value_to_block v a ! 13 = NOT a"
  "mf_classic_value_to_block v a ! 14 = a" "mf_classic_value_to_block v a ! 15 = NOT a"
  by (simp_all add: value_block nth_append)

lemma value_of_block:
  assumes "- (2 ^ 31) \<le> v" and "v < 2 ^ 31"
  shows "mf_classic_block_to_value (mf_classic_value_to_block v a) = (True, v, a)"
proof -
  have w: "word_at (mf_classic_value_to_block v a) 0 = word_of_int v" "word_at (mf_classic_value_to_block v a) 4 = NOT (word_of_int v)"
    "word_at (mf_classic_value_to_block v a) 8 = word_of_int v"
    using value_block_nth(1-3) by (intro word_at_bytes; simp)+
  have "sint (word_of_int v :: u32) = v" using assms by (simp add: sint_sbintrunc' signed_take_bit_int_eq_self)
  then show ?thesis
    by (simp add: mf_classic_block_to_value_def Let_def w value_block_nth(4-7) whole_byte)
qed

lemma block_of_value:
  assumes "length b = 16" and "mf_classic_block_to_value b = (True, v, a)"
  shows "mf_classic_value_to_block v a = b"
proof -
  have c: "word_at b 0 = word_at b 8" "word_at b 0 = NOT (word_at b 4)" "b ! 12 = NOT (b ! 13)" "b ! 14 = NOT (b ! 15)" "b ! 12 = b ! 14"
    "v = sint (word_at b 0)" "a = b ! 12"
    using assms(2) unfolding mf_classic_block_to_value_def Let_def whole_byte by auto
  have v: "word_of_int v = word_at b 0" by (simp add: c(6))
  have n: "NOT (word_at b 0) = word_at b 4" using c(2) by (metis bit.double_compl)
  have t: "bytes_at (word_at b 0) = take 4 b" "bytes_at (word_at b 4) = take 4 (drop 4 b)" "bytes_at (word_at b 8) = take 4 (drop 8 b)"
    using bytes_at_word [of 0 b] bytes_at_word [of 4 b] bytes_at_word [of 8 b] assms(1) by simp_all
  have l: "[a, NOT a, a, NOT a] = drop 12 b"
  proof -
    have "drop 12 b = [b ! 12, b ! 13, b ! 14, b ! 15]"
      using assms(1) by (intro nth_equalityI) (auto simp: nth_Cons split: nat.split)
    then show ?thesis using c by (metis bit.double_compl)
  qed
  have "mf_classic_value_to_block v a = take 4 b @ take 4 (drop 4 b) @ take 4 (drop 8 b) @ drop 12 b"
    unfolding value_block v n l by (metis c(1) t)
  also have "\<dots> = b"
    using append_take_drop_id [of 4 "drop 8 b"] append_take_drop_id [of 4 "drop 4 b"] append_take_drop_id [of 4 b] by simp
  finally show ?thesis .
qed

end
