(* ===== verification/Crypto1_Facts.thy ===== *)
theory Crypto1_Facts
  imports Crypto1 Bit_Buffer_Facts
begin

text \<open>
  The cipher as a machine on bits: what it makes of a stream of input bits, forwards and backwards. Bytes and
  words are streams of eight and of 32 bits; frames are streams of bytes.
\<close>

section \<open>Parity\<close>

lemma odd_length_filter: "odd (length (filter P xs)) = parity_of (map P xs)"
  by (induction xs) auto

lemma parity_of_map_differ: "parity_of (map (\<lambda>i. f i \<noteq> g i) xs) = (parity_of (map f xs) \<noteq> parity_of (map g xs))"
  by (induction xs) auto

definition par :: "u32 \<Rightarrow> bool" where
  "par w = odd (popcount w)"

lemma par_xor [simp]: "par (v XOR w) = (par v \<noteq> par w)"
  unfolding par_def popcount_def odd_length_filter bit_xor_iff by (rule parity_of_map_differ)

lemma par_of_bool: "par (push_bit n (of_bool b)) = (b \<and> n < 32)"
proof (cases "b \<and> n < 32")
  case True
  then have "{j. bit (push_bit n 1 :: u32) j} \<inter> {0..<32} = {n}" by (auto simp: bit_simps)
  then show ?thesis using True by (simp add: par_def popcount_def distinct_length_filter)
next
  case False
  then have "push_bit n (of_bool b) = (0 :: u32)" by (auto intro: bit_word_eqI simp: bit_simps)
  then show ?thesis using False by (auto simp: par_def popcount_def)
qed

lemma even_parity32: "nfc_util_even_parity32 w = of_bool (par w)"
  by (simp add: nfc_util_even_parity32_def par_def)

lemma parity_table: "list_all2 (\<lambda>i x. x = of_bool (even (popcount (word_of_nat i :: u8)))) [0..<256] nfc_util_odd_byte_parity"
  by code_simp

lemma odd_parity8: "nfc_util_odd_parity8 x = of_bool (even (popcount x))"
proof -
  have "unat x < 256" using unsigned_less [of x] by simp
  then show ?thesis using list_all2_nthD [OF parity_table, of "unat x"] by (simp add: nfc_util_odd_parity8_def)
qed

lemma even_parity8: "nfc_util_even_parity8 x = of_bool (odd (popcount x))"
  using odd_parity8 [of x] by (auto simp: nfc_util_odd_parity8_def nfc_util_even_parity8_def split: if_splits)

section \<open>The machine\<close>

lemma FURI_BIT_bit: "FURI_BIT x n = of_bool (bit x n)"
  by (simp add: FURI_BIT_def drop_and_one)

definition filt :: "crypto1 \<Rightarrow> bool" where
  "filt c = (crypto1_filter (c_odd c) \<noteq> 0)"

lemma filter_bool: "crypto1_filter (c_odd c) = of_bool (filt c)"
  by (auto simp: filt_def crypto1_filter_def Let_def FURI_BIT_bit)

definition shifted :: "crypto1 \<Rightarrow> bool \<Rightarrow> crypto1" where
  "shifted c b = c\<lparr>c_odd := push_bit 1 (c_even c) OR of_bool (b \<noteq> (par (LF_POLY_ODD AND c_odd c) \<noteq> par (LF_POLY_EVEN AND c_even c))),
                   c_even := c_odd c\<rparr>"

definition forwards :: "bool \<Rightarrow> crypto1 \<Rightarrow> bool \<Rightarrow> bool \<times> crypto1" where
  "forwards e c b = (filt c, shifted c (b \<noteq> (e \<and> filt c)))"

lemma par_simps [simp]: "par 0 = False" "par 1 = True" "par (of_bool b) = b"
  using par_of_bool [of 0 b] par_of_bool [of 0 True] by (auto simp: par_def popcount_def)

lemma crypto1_bit_eq: "crypto1_bit c inp e = (case forwards e c (inp \<noteq> 0) of (k, c') \<Rightarrow> (of_bool k, c'))"
proof -
  have e: "ucast ((of_bool (filt c) :: u8) AND of_bool e) = (of_bool (e \<and> filt c) :: u32)" by simp
  show ?thesis
    by (auto simp: crypto1_bit_def forwards_def shifted_def Let_def filter_bool even_parity32 e)
qed

text \<open>A stream of inputs through a machine.\<close>

fun stream :: "('c \<Rightarrow> bool \<Rightarrow> bool \<times> 'c) \<Rightarrow> 'c \<Rightarrow> bool list \<Rightarrow> bool list \<times> 'c" where
  "stream f c [] = ([], c)"
| "stream f c (b # bs) = (let (k, c) = f c b; (ks, c) = stream f c bs in (k # ks, c))"

lemma stream_append:
  "stream f c (xs @ ys) = (let (ks, c) = stream f c xs; (ls, c) = stream f c ys in (ks @ ls, c))"
  by (induction xs arbitrary: c) (auto simp: Let_def split: prod.splits)

lemma length_stream [simp]: "length (fst (stream f c bs)) = length bs"
  by (induction bs arbitrary: c) (simp_all add: Let_def case_prod_beta)

text \<open>The loops collect the output bits at their places.\<close>

lemma collect_bits:
  fixes F :: "'a::len word \<times> 'c \<Rightarrow> 'i \<Rightarrow> 'a word \<times> 'c"
  assumes F: "\<And>out c i. F (out, c) i = (out OR push_bit (g i) (of_bool (fst (f c (x i)))), snd (f c (x i)))"
  shows "snd (foldl F (out, c) js) = snd (stream f c (map x js)) \<and>
    (\<forall>j < LENGTH('a). bit (fst (foldl F (out, c) js)) j \<longleftrightarrow>
       bit out j \<or> (\<exists>m < length js. g (js ! m) = j \<and> fst (stream f c (map x js)) ! m))"
proof (induction js arbitrary: out c)
  case (Cons i js)
  have "(\<exists>m < Suc (length js). g ((i # js) ! m) = j \<and> (k # ks) ! m) \<longleftrightarrow> (g i = j \<and> k) \<or> (\<exists>m < length js. g (js ! m) = j \<and> ks ! m)" for j k ks
    by (auto simp: less_Suc_eq_0_disj)
  then show ?case
    using Cons [of "out OR push_bit (g i) (of_bool (fst (f c (x i))))" "snd (f c (x i))"]
    by (auto simp: F Let_def bit_simps split: prod.splits)
qed simp

definition le_bits :: "'a::len word \<Rightarrow> bool list" where
  "le_bits w = map (bit w) [0..<LENGTH('a)]"

definition be_bits :: "u32 \<Rightarrow> bool list" where
  "be_bits w = map (\<lambda>i. bit w (i XOR 24)) [0..<32]"

lemma length_bits [simp]: "length (le_bits (w :: 'a::len word)) = LENGTH('a)" "length (be_bits v) = 32"
  by (simp_all add: le_bits_def be_bits_def)

lemma le_bits_inject: "le_bits v = le_bits w \<longleftrightarrow> v = w"
  by (auto simp: le_bits_def intro: bit_word_eqI)

lemma crypto1_bit_step: "crypto1_bit c inp e = (of_bool (fst (forwards e c (inp \<noteq> 0))), snd (forwards e c (inp \<noteq> 0)))"
  by (simp add: crypto1_bit_eq split: prod.split)

lemma crypto1_byte_stream:
  "le_bits (fst (crypto1_byte c inp e)) = fst (stream (forwards e) c (le_bits inp))"
  "snd (crypto1_byte c inp e) = snd (stream (forwards e) c (le_bits inp))"
proof -
  define F where "F = (\<lambda>(out :: u8, crypto) i. let (b, crypto) = crypto1_bit crypto (FURI_BIT inp i) e in (out OR push_bit i b, crypto))"
  have "F (out, c) i = (out OR push_bit i (of_bool (fst (forwards e c (bit inp i)))), snd (forwards e c (bit inp i)))" for out c i
    by (simp add: F_def crypto1_bit_step FURI_BIT_bit)
  note l = collect_bits [of F "\<lambda>i. i" "forwards e" "bit inp", OF this, of 0 c "[0..<8]"]
  have F: "crypto1_byte c inp e = foldl F (0, c) [0..<8]" by (simp add: crypto1_byte_def F_def)
  show "snd (crypto1_byte c inp e) = snd (stream (forwards e) c (le_bits inp))"
    using l by (simp add: F le_bits_def)
  show "le_bits (fst (crypto1_byte c inp e)) = fst (stream (forwards e) c (le_bits inp))"
    using l by (intro nth_equalityI) (auto simp: F le_bits_def)
qed

text \<open>A word is read byte by byte from the first, each byte from its lowest bit: place \<open>i\<close> is bit \<open>i XOR 24\<close>.\<close>

lemma xor24: "\<forall>i < 32. i XOR 24 < (32 :: nat) \<and> (i XOR 24) XOR 24 = i \<and> 24 XOR i = i XOR 24"
  by code_simp

lemma xor24_inject: "i < 32 \<Longrightarrow> j < 32 \<Longrightarrow> i XOR 24 = j XOR 24 \<longleftrightarrow> i = (j :: nat)"
  using xor24 by metis

lemma nth_be_bits: "i < 32 \<Longrightarrow> be_bits w ! i = bit w (i XOR 24)"
  by (simp add: be_bits_def)

lemma be_bits_inject: "be_bits v = be_bits w \<longleftrightarrow> v = w"
proof
  assume e: "be_bits v = be_bits w"
  show "v = w"
  proof (rule bit_word_eqI)
    fix j :: nat assume "j < LENGTH(32)"
    then have "j XOR 24 < 32" "(j XOR 24) XOR 24 = j" using xor24 by simp_all
    then show "bit v j = bit w j" using e nth_be_bits [of "j XOR 24"] by metis
  qed
qed simp

lemma word_collect:
  assumes "snd (foldl F (0, c) js) = snd (stream f c (map x js)) \<and>
    (\<forall>j < LENGTH(32). bit (fst (foldl F (0 :: u32, c) js)) j \<longleftrightarrow>
       bit (0 :: u32) j \<or> (\<exists>m < length js. 24 XOR (js ! m) = j \<and> fst (stream f c (map x js)) ! m))"
    and "js = [0..<32]"
  shows "be_bits (fst (foldl F (0, c) js)) = fst (stream f c (map x js))" "snd (foldl F (0, c) js) = snd (stream f c (map x js))"
proof -
  show "be_bits (fst (foldl F (0, c) js)) = fst (stream f c (map x js))"
  proof (rule nth_equalityI)
    fix i assume "i < length (be_bits (fst (foldl F (0, c) js)))"
    then have i: "i < 32" by simp
    then have "i XOR 24 < 32" using xor24 by blast
    then have "bit (fst (foldl F (0, c) js)) (i XOR 24) \<longleftrightarrow> (\<exists>m < 32. 24 XOR m = i XOR 24 \<and> fst (stream f c (map x js)) ! m)"
      using assms by (simp cong: conj_cong)
    also have "\<dots> \<longleftrightarrow> fst (stream f c (map x js)) ! i"
      using i xor24 xor24_inject by metis
    finally show "be_bits (fst (foldl F (0, c) js)) ! i = fst (stream f c (map x js)) ! i" using i by (simp add: nth_be_bits)
  qed (simp add: assms(2))
qed (use assms in blast)

lemma crypto1_word_stream:
  "be_bits (fst (crypto1_word c inp e)) = fst (stream (forwards e) c (be_bits inp))"
  "snd (crypto1_word c inp e) = snd (stream (forwards e) c (be_bits inp))"
proof -
  define F where "F = (\<lambda>(out :: u32, crypto) i. let (b, crypto) = crypto1_bit crypto (ucast (BEBIT inp i)) e in (out OR push_bit (24 XOR i) (ucast b), crypto))"
  have "F (out, c) i = (out OR push_bit (24 XOR i) (of_bool (fst (forwards e c (bit inp (i XOR 24))))), snd (forwards e c (bit inp (i XOR 24))))" for out c i
    by (simp add: F_def crypto1_bit_step FURI_BIT_bit BEBIT_def)
  note l = collect_bits [of F "\<lambda>i. 24 XOR i" "forwards e" "\<lambda>i. bit inp (i XOR 24)", OF this, of 0 c "[0..<32]"]
  have F: "crypto1_word c inp e = foldl F (0, c) [0..<32]" by (simp add: crypto1_word_def F_def)
  show "be_bits (fst (crypto1_word c inp e)) = fst (stream (forwards e) c (be_bits inp))"
    "snd (crypto1_word c inp e) = snd (stream (forwards e) c (be_bits inp))"
    using word_collect [OF l] by (simp_all add: F be_bits_def)
qed

section \<open>Backwards\<close>

text \<open>Only 24 bits of each half belong to the register; the rest has been shifted out of it.\<close>

definition register :: "crypto1 \<Rightarrow> crypto1" where
  "register c = c\<lparr>c_odd := c_odd c AND mask 24, c_even := c_even c AND mask 24\<rparr>"

definition backwards :: "bool \<Rightarrow> crypto1 \<Rightarrow> bool \<Rightarrow> bool \<times> crypto1" where
  "backwards e c b = (let d = c\<lparr>c_odd := c_even c, c_even := drop_bit 1 (c_odd c AND mask 24)\<rparr> in
     (filt d, d\<lparr>c_even := c_even d OR push_bit 23 (of_bool (bit (c_odd c) 0 \<noteq> (b \<noteq> ((e \<and> filt d) \<noteq>
        (par (LF_POLY_ODD AND c_odd d) \<noteq> par (LF_POLY_EVEN AND c_even d))))))\<rparr>))"

lemma of_bool_ucast: "ucast (of_bool b :: 'a::len word) = (of_bool b :: 'b::len word)"
  by simp

lemma rollback_bit_step: "lfsr_rollback_bit c inp e = (of_bool (fst (backwards e c (inp \<noteq> 0))), snd (backwards e c (inp \<noteq> 0)))"
proof -
  have m: "(0xffffff :: u32) = mask 24" by (simp add: mask_eq_exp_minus_1)
  have b: "(c_odd c AND mask 24) AND 1 = of_bool (bit (c_odd c) 0)"
    by (rule bit_word_eqI) (auto simp: bit_simps bit_1_iff)
  have f: "crypto1_filter (c_even c) = of_bool (filt (c\<lparr>c_odd := c_even c, c_even := x\<rparr>))" for x
    using filter_bool [of "c\<lparr>c_odd := c_even c, c_even := x\<rparr>"] by simp
  have e: "ucast ((of_bool x :: u8) AND of_bool e) = (of_bool (e \<and> x) :: u32)" for x by simp
  have p: "par ((((of_bool x XOR (LF_POLY_EVEN AND ev)) XOR (LF_POLY_ODD AND od)) XOR of_bool y) XOR of_bool z) =
     (x \<noteq> (y \<noteq> (z \<noteq> (par (LF_POLY_ODD AND od) \<noteq> par (LF_POLY_EVEN AND ev)))))" for x y z ev od
    by (simp only: par_xor par_simps) blast
  show ?thesis
    unfolding lfsr_rollback_bit_def backwards_def Let_def m even_parity32 b f [of "drop_bit 1 (c_odd c AND mask 24)"]
    by (simp only: of_bool_ucast e p) simp
qed

lemma filter_low: "crypto1_filter (w AND mask 24) = crypto1_filter w"
proof -
  have k: "drop_bit n (w AND mask 24) AND mask k = drop_bit n w AND mask k" if "n + k \<le> 24" for n k
    using that by (auto intro!: bit_word_eqI simp: bit_simps)
  have "drop_bit n (w AND mask 24) AND 0xf = drop_bit n w AND 0xf" if "n \<le> 20" for n
  proof -
    have m: "(0xf :: u32) = mask 4" by (simp add: mask_eq_exp_minus_1)
    have "n + 4 \<le> 24" using that by simp
    then show ?thesis unfolding m by (rule k)
  qed
  from this [of 0] this [of 4] this [of 8] this [of 12] this [of 16] show ?thesis by (simp add: crypto1_filter_def)
qed

lemma filt_register [simp]: "filt (register c) = filt c"
  by (simp add: filt_def register_def filter_low)

lemma poly_mask: "LF_POLY_ODD AND mask 24 = LF_POLY_ODD" "LF_POLY_EVEN AND mask 24 = LF_POLY_EVEN"
  by (simp_all add: LF_POLY_ODD_def LF_POLY_EVEN_def mask_eq_exp_minus_1)

lemma poly_low: "LF_POLY_ODD AND (w AND mask 24) = LF_POLY_ODD AND w" "LF_POLY_EVEN AND (w AND mask 24) = LF_POLY_EVEN AND w"
proof -
  have "p AND (w AND mask 24) = (p AND mask 24) AND w" for p by (rule bit_word_eqI) (auto simp: bit_and_iff)
  then show "LF_POLY_ODD AND (w AND mask 24) = LF_POLY_ODD AND w" "LF_POLY_EVEN AND (w AND mask 24) = LF_POLY_EVEN AND w"
    by (simp_all only: poly_mask)
qed

text \<open>A step back sees of its state only the register.\<close>

lemma backwards_register:
  "fst (backwards e (register c) b) = fst (backwards e c b) \<and> register (snd (backwards e (register c) b)) = register (snd (backwards e c b))"
proof -
  have "filt (register c\<lparr>c_odd := c_even c AND mask 24, c_even := x\<rparr>) = filt (c\<lparr>c_odd := c_even c, c_even := x\<rparr>)" for x
    by (simp add: filt_def filter_low register_def)
  moreover have "bit (c_odd c AND mask 24) 0 = bit (c_odd c) 0" by (simp add: bit_simps)
  ultimately show ?thesis
    by (simp add: backwards_def Let_def register_def poly_low filt_def filter_low)
qed

lemma backwards_cong:
  "register c = register d \<Longrightarrow> fst (backwards e c b) = fst (backwards e d b) \<and> register (snd (backwards e c b)) = register (snd (backwards e d b))"
  using backwards_register [of e c b] backwards_register [of e d b] by metis

lemma even_high: "par (LF_POLY_EVEN AND w) = (par (LF_POLY_EVEN AND (w AND mask 23)) \<noteq> bit w 23)"
proof -
  define p where "p = LF_POLY_EVEN"
  have h: "bit p 23" by (simp add: p_def LF_POLY_EVEN_def)
  have "p AND mask 24 = p" by (simp add: p_def poly_mask)
  then have l: "bit p n \<Longrightarrow> n < 24" for n by (metis bit_and_iff bit_mask_iff)
  have "p AND w = (p AND (w AND mask 23)) XOR push_bit 23 (of_bool (bit w 23))"
  proof (rule bit_word_eqI)
    fix n :: nat assume n: "n < LENGTH(32)"
    consider "n < 23" | "n = 23" | "n > 23" by linarith
    then show "bit (p AND w) n = bit ((p AND (w AND mask 23)) XOR push_bit 23 (of_bool (bit w 23))) n"
      using n h l [of n] by cases (auto simp: bit_simps)
  qed
  then show ?thesis by (simp add: par_of_bool flip: p_def)
qed

lemma differ_chain: "(((b \<noteq> g) \<noteq> (x \<noteq> (q \<noteq> t))) \<noteq> (b \<noteq> (g \<noteq> (x \<noteq> q)))) = t"
  by (cases b; cases g; cases x; cases q; simp)

lemma shift_back: "drop_bit 1 ((push_bit 1 x OR of_bool v) AND mask 24) = x AND mask 23" for x :: u32
proof (rule bit_word_eqI)
  fix n :: nat assume "n < LENGTH(32)"
  then show "bit (drop_bit 1 ((push_bit 1 x OR of_bool v) AND mask 24)) n = bit (x AND mask 23) n"
    using bit_shift_in [of x v "1 + n"] by (simp only: bit_drop_bit_eq bit_and_iff bit_mask_iff o_apply) auto
qed

lemma high_bit: "(x AND mask 23 OR push_bit 23 (of_bool (bit x 23))) AND mask 24 = x AND mask 24" for x :: u32
proof (rule bit_word_eqI)
  fix n :: nat assume "n < LENGTH(32)"
  then show "bit ((x AND mask 23 OR push_bit 23 (of_bool (bit x 23))) AND mask 24) n = bit (x AND mask 24) n"
    by (cases "n = 23") (auto simp: bit_simps)
qed

lemma backwards_forwards:
  "fst (backwards e (snd (forwards e c b)) b) = fst (forwards e c b) \<and> register (snd (backwards e (snd (forwards e c b)) b)) = register c"
proof -
  obtain od ev where c: "c = \<lparr>c_odd = od, c_even = ev\<rparr>" by (cases c)
  define v where "v = ((b \<noteq> (e \<and> filt c)) \<noteq> (par (LF_POLY_ODD AND od) \<noteq> par (LF_POLY_EVEN AND ev)))"
  define w where "w = push_bit 1 ev OR of_bool v"
  have w: "bit w 0 = v" "drop_bit 1 (w AND mask 24) = ev AND mask 23"
    using bit_shift_in [of ev v 0] shift_back [of ev v] by (simp_all only: w_def) simp
  have s: "snd (forwards e c b) = \<lparr>c_odd = w, c_even = od\<rparr>" "fst (forwards e c b) = filt c"
    by (simp_all add: forwards_def shifted_def w_def v_def c)
  have f: "filt \<lparr>c_odd = od, c_even = x\<rparr> = filt c" for x by (simp add: filt_def c)
  have p: "(v \<noteq> (b \<noteq> ((e \<and> filt c) \<noteq> (par (LF_POLY_ODD AND od) \<noteq> par (LF_POLY_EVEN AND (ev AND mask 23)))))) = bit ev 23"
    unfolding v_def even_high [of ev] by (rule differ_chain)
  have "backwards e \<lparr>c_odd = w, c_even = od\<rparr> b = (filt c, \<lparr>c_odd = od, c_even = ev AND mask 23 OR push_bit 23 (of_bool (bit ev 23))\<rparr>)"
    by (simp only: backwards_def Let_def crypto1.simps w f p)
  then show ?thesis by (simp only: s fst_conv snd_conv register_def crypto1.simps high_bit) (simp add: c)
qed

lemma stream_back:
  assumes "register d = register (snd (stream (forwards e) c bs))"
  shows "fst (stream (backwards e) d (rev bs)) = rev (fst (stream (forwards e) c bs)) \<and>
    register (snd (stream (backwards e) d (rev bs))) = register c"
  using assms
proof (induction bs arbitrary: c d)
  case (Cons b bs)
  define c1 where "c1 = snd (forwards e c b)"
  define d1 where "d1 = snd (stream (backwards e) d (rev bs))"
  have n: "snd (stream (forwards e) c (b # bs)) = snd (stream (forwards e) c1 bs)"
    "fst (stream (forwards e) c (b # bs)) = fst (forwards e c b) # fst (stream (forwards e) c1 bs)"
    by (simp_all add: c1_def Let_def case_prod_beta)
  have IH: "fst (stream (backwards e) d (rev bs)) = rev (fst (stream (forwards e) c1 bs))" "register d1 = register c1"
    using Cons.IH [of d c1] Cons.prems n by (simp_all add: d1_def)
  have "fst (backwards e d1 b) = fst (forwards e c b) \<and> register (snd (backwards e d1 b)) = register c"
    using backwards_cong [OF IH(2)] backwards_forwards [of e c b] by (simp add: c1_def)
  then show ?case
    using IH n by (simp add: stream_append Let_def case_prod_beta flip: d1_def)
qed simp

lemma rollback_word_stream:
  "be_bits (fst (crypto1_lfsr_rollback_word c inp e)) = rev (fst (stream (backwards e) c (rev (be_bits inp))))"
  "snd (crypto1_lfsr_rollback_word c inp e) = snd (stream (backwards e) c (rev (be_bits inp)))"
proof -
  define F where "F = (\<lambda>(out :: u32, crypto) i. let (b, crypto) = lfsr_rollback_bit crypto (BEBIT inp i) e in (out OR push_bit (24 XOR i) (ucast b), crypto))"
  have "F (out, c) i = (out OR push_bit (24 XOR i) (of_bool (fst (backwards e c (bit inp (i XOR 24))))), snd (backwards e c (bit inp (i XOR 24))))" for out c i
    by (simp add: F_def rollback_bit_step FURI_BIT_bit BEBIT_def)
  note l = collect_bits [of F "\<lambda>i. 24 XOR i" "backwards e" "\<lambda>i. bit inp (i XOR 24)", OF this, of 0 c "rev [0..<32]"]
  have F: "crypto1_lfsr_rollback_word c inp e = foldl F (0, c) (rev [0..<32])" by (simp add: crypto1_lfsr_rollback_word_def F_def)
  have m: "map (\<lambda>i. bit inp (i XOR 24)) (rev [0..<32]) = rev (be_bits inp)" by (simp add: be_bits_def rev_map)
  show "snd (crypto1_lfsr_rollback_word c inp e) = snd (stream (backwards e) c (rev (be_bits inp)))"
    using l by (simp add: F flip: m)
  define ks where "ks = fst (stream (backwards e) c (rev (be_bits inp)))"
  show "be_bits (fst (crypto1_lfsr_rollback_word c inp e)) = rev (fst (stream (backwards e) c (rev (be_bits inp))))"
    unfolding ks_def [symmetric]
  proof (rule nth_equalityI)
    fix i assume "i < length (be_bits (fst (crypto1_lfsr_rollback_word c inp e)))"
    then have i: "i < 32" by simp
    then have i24: "i XOR 24 < 32" using xor24 by blast
    have "bit (fst (foldl F (0, c) (rev [0..<32]))) (i XOR 24) \<longleftrightarrow>
        (\<exists>m < 32. 24 XOR (rev [0..<32] ! m) = i XOR 24 \<and> ks ! m)"
      using l i24 unfolding m ks_def [symmetric] by simp
    also have "\<dots> \<longleftrightarrow> (\<exists>m < 32. 24 XOR (31 - m) = i XOR 24 \<and> ks ! m)" by (auto simp: rev_nth)
    also have "\<dots> \<longleftrightarrow> ks ! (31 - i)"
    proof
      assume "\<exists>m < 32. 24 XOR (31 - m) = i XOR 24 \<and> ks ! m"
      then obtain m where m: "m < 32" "24 XOR (31 - m) = i XOR 24" "ks ! m" by blast
      have "31 - m < 32" by simp
      then have "31 - m = i" using m(2) i xor24 xor24_inject by metis
      then show "ks ! (31 - i)" using m by auto
    next
      assume "ks ! (31 - i)"
      then show "\<exists>m < 32. 24 XOR (31 - m) = i XOR 24 \<and> ks ! m"
        using i xor24 by (intro exI [of _ "31 - i"]) auto
    qed
    finally show "be_bits (fst (crypto1_lfsr_rollback_word c inp e)) ! i = rev ks ! i"
      using i by (simp add: nth_be_bits F rev_nth ks_def)
  qed (simp add: ks_def)
qed

end
