(* ===== verification/Crypto1_Nonces.thy ===== *)
theory Crypto1_Nonces
  imports Crypto1_Facts Bit_Lib_Codes
begin

text \<open>
  Nonces: what their generator makes of its state, which words can be nonces, and how the reader takes the
  cipher back to find the nonce that a card has sent encrypted.
\<close>

section \<open>Bytes in the other order\<close>

lemma xor24_if: "\<forall>i < 32. i XOR 24 = (if i < 8 then i + 24 else if i < 16 then i + 8 else if i < 24 then i - 8 else i - (24 :: nat))"
  by code_simp

lemma bit_every_other_byte: "n < 32 \<Longrightarrow> bit (0xff00ff :: u32) n \<longleftrightarrow> n < 8 \<or> 16 \<le> n \<and> n < 24"
proof -
  have e: "(0xff00ff :: u32) = mask 8 OR push_bit 16 (mask 8)" by (simp add: mask_eq_exp_minus_1)
  show "n < 32 \<Longrightarrow> bit (0xff00ff :: u32) n \<longleftrightarrow> n < 8 \<or> 16 \<le> n \<and> n < 24"
    unfolding e bit_or_iff bit_push_bit_iff bit_mask_iff by auto
qed

lemma bit_SWAPENDIAN: "i < 32 \<Longrightarrow> bit (SWAPENDIAN x) i = bit x (i XOR 24)"
proof -
  assume i: "i < 32"
  define y where "y = (drop_bit 8 x AND 0xff00ff) OR push_bit 8 (x AND 0xff00ff)"
  have y: "bit y n = (if n < 8 \<or> 16 \<le> n \<and> n < 24 then bit x (n + 8) else bit x (n - 8))" if "n < 32" for n
  proof -
    have "bit (drop_bit 8 x AND 0xff00ff) n = (bit x (n + 8) \<and> (n < 8 \<or> 16 \<le> n \<and> n < 24))"
      using bit_every_other_byte [OF that] by (auto simp: bit_simps ac_simps)
    moreover have "bit (push_bit 8 (x AND 0xff00ff)) n = (8 \<le> n \<and> bit x (n - 8) \<and> (n < 16 \<or> 24 \<le> n))"
      unfolding bit_push_bit_iff bit_and_iff using bit_every_other_byte [of "n - 8"] that by auto
    ultimately show ?thesis by (auto simp: y_def bit_simps)
  qed
  have "SWAPENDIAN x = drop_bit 16 y OR push_bit 16 y" by (simp only: SWAPENDIAN_def Let_def y_def)
  then have "bit (SWAPENDIAN x) i = (if i < 16 then bit y (i + 16) else bit y (i - 16))"
    using i by (auto simp: bit_simps ac_simps dest: bit_imp_le_length)
  moreover have "i XOR 24 = (if i < 8 then i + 24 else if i < 16 then i + 8 else if i < 24 then i - 8 else i - 24)"
    using xor24_if i by blast
  moreover have "\<not> i < 16 \<Longrightarrow> i - 16 < 32 \<and> (i - 16 < 8 \<longleftrightarrow> i < 24) \<and> i - 16 + 8 = i - 8 \<and> i - 16 - 8 = i - 24 \<and> \<not> 16 \<le> i - 16"
    using i by auto
  ultimately show ?thesis using y [of "i + 16"] y [of "i - 16"] i by (cases "i < 16") (simp_all add: add.commute)
qed

lemma le_bits_SWAPENDIAN: "le_bits (SWAPENDIAN x) = be_bits x"
  by (auto simp: le_bits_def be_bits_def bit_SWAPENDIAN)

lemma SWAPENDIAN_twice [simp]: "SWAPENDIAN (SWAPENDIAN x) = x"
proof (rule bit_word_eqI)
  fix n :: nat assume "n < LENGTH(32)"
  then show "bit (SWAPENDIAN (SWAPENDIAN x)) n = bit x n"
    using xor24 by (simp add: bit_SWAPENDIAN)
qed

section \<open>The generator\<close>

lemma prng_successor_add: "crypto1_prng_successor (crypto1_prng_successor x m) n = crypto1_prng_successor x (m + n)"
  unfolding crypto1_prng_successor_def SWAPENDIAN_twice by (metis add.commute comp_apply funpow_add)

lemma bit_prng_step:
  "i < 32 \<Longrightarrow> bit (prng_step x) i = (if i < 31 then bit x (i + 1) else ((bit x 16 \<noteq> bit x 18) \<noteq> bit x 19) \<noteq> bit x 21)"
  by (cases "i = 31") (auto simp: prng_step_def bit_simps dest: bit_imp_le_length)

lemma bit_weak_step:
  "i < 16 \<Longrightarrow> bit (weak_step x) i = (if i < 15 then bit x (i + 1) else ((bit x 0 \<noteq> bit x 2) \<noteq> bit x 3) \<noteq> bit x 5)"
  by (cases "i = 15") (auto simp: weak_step_def bit_simps dest: bit_imp_le_length)

definition upper :: "u32 \<Rightarrow> u16" where
  "upper x = ucast (drop_bit 16 x)"

lemma bit_upper: "bit (upper x) i \<longleftrightarrow> i < 16 \<and> bit x (i + 16)"
  by (auto simp: upper_def bit_simps ac_simps)

lemma upper_step: "upper (prng_step x) = weak_step (upper x)"
proof (rule bit_word_eqI)
  fix i :: nat assume "i < LENGTH(16)"
  then show "bit (upper (prng_step x)) i = bit (weak_step (upper x)) i"
    by (auto simp: bit_upper bit_prng_step bit_weak_step)
qed

lemma upper_steps: "upper ((prng_step ^^ n) x) = (weak_step ^^ n) (upper x)"
  by (induction n) (simp_all add: upper_step)

lemma bit_steps: "i + n < 32 \<Longrightarrow> bit ((prng_step ^^ n) x) i = bit x (i + n)"
proof (induction n arbitrary: i)
  case (Suc n)
  then show ?case using Suc.IH [of "i + 1"] by (simp add: bit_prng_step)
qed simp

lemma lower_16: "ucast ((prng_step ^^ 16) x) = upper x"
proof (rule bit_word_eqI)
  fix i :: nat assume "i < LENGTH(16)"
  then show "bit (ucast ((prng_step ^^ 16) x) :: u16) i = bit (upper x) i"
    by (simp add: bit_upper bit_steps bit_simps)
qed

text \<open>A word is what 16 steps make of some state if its upper half is what they make of its lower half.\<close>

lemma after_16: "(\<exists>x. y = (prng_step ^^ 16) x) \<longleftrightarrow> upper y = (weak_step ^^ 16) (ucast y)"
proof
  assume "upper y = (weak_step ^^ 16) (ucast y)"
  moreover define x :: u32 where "x = push_bit 16 (ucast (ucast y :: u16))"
  have "upper x = ucast y" by (rule bit_word_eqI) (auto simp: bit_upper x_def bit_simps)
  then have "upper ((prng_step ^^ 16) x) = (weak_step ^^ 16) (ucast y)" "(ucast ((prng_step ^^ 16) x) :: u16) = ucast y"
    by (simp_all add: upper_steps lower_16)
  ultimately have u: "upper ((prng_step ^^ 16) x) = upper y" and l: "(ucast ((prng_step ^^ 16) x) :: u16) = ucast y" by simp_all
  have "y = (prng_step ^^ 16) x"
  proof (rule bit_word_eqI)
    fix i :: nat assume "i < LENGTH(32)"
    then have "i < 32" by simp
    then have "i < 16 \<or> (\<exists>k. i = k + 16 \<and> k < 16)" by presburger
    then show "bit y i = bit ((prng_step ^^ 16) x) i"
    proof (elim disjE exE conjE)
      assume "i < 16"
      then show ?thesis using arg_cong [OF l, of "\<lambda>w. bit w i"] by (simp add: bit_simps)
    next
      fix k assume "i = k + 16" "k < 16"
      then show ?thesis using arg_cong [OF u, of "\<lambda>w. bit w k"] by (simp add: bit_upper)
    qed
  qed
  then show "\<exists>x. y = (prng_step ^^ 16) x" by blast
qed (auto simp: upper_steps lower_16)

definition swap16 :: "u16 \<Rightarrow> u16" where
  "swap16 v = push_bit 8 (v AND 0xff) OR drop_bit 8 v"

lemma bit_swap16: "i < 16 \<Longrightarrow> bit (swap16 v) i = (if i < 8 then bit v (i + 8) else bit v (i - 8))"
proof -
  have m: "(0xff :: u16) = mask 8" by (simp add: mask_eq_exp_minus_1)
  show "i < 16 \<Longrightarrow> bit (swap16 v) i = (if i < 8 then bit v (i + 8) else bit v (i - 8))"
    unfolding swap16_def m bit_or_iff bit_push_bit_iff bit_and_iff bit_mask_iff bit_drop_bit_eq o_apply
    by (auto simp: ac_simps dest: bit_imp_le_length)
qed

lemma swap16_twice [simp]: "swap16 (swap16 v) = v"
proof (rule bit_word_eqI)
  fix i :: nat assume "i < LENGTH(16)"
  then have "i < 16" "\<not> i < 8 \<Longrightarrow> i - 8 < 8 \<and> i - 8 + 8 = i" by auto
  then show "bit (swap16 (swap16 v)) i = bit v i" by (cases "i < 8") (simp_all add: bit_swap16)
qed

lemma bit_SWAPENDIAN_if:
  "i < 32 \<Longrightarrow> bit (SWAPENDIAN x) i = bit x (if i < 8 then i + 24 else if i < 16 then i + 8 else if i < 24 then i - 8 else i - 24)"
  by (simp only: bit_SWAPENDIAN xor24_if [rule_format])

lemma swap16_halves: "swap16 (ucast (drop_bit 16 n)) = ucast (SWAPENDIAN n)" "swap16 (ucast n) = upper (SWAPENDIAN n)"
proof -
  show "swap16 (ucast (drop_bit 16 n)) = ucast (SWAPENDIAN n)"
  proof (rule bit_word_eqI)
    fix i :: nat assume i: "i < LENGTH(16)"
    have "bit (ucast (drop_bit 16 n) :: u16) j = bit n (j + 16)" if "j < 16" for j
      using that by (simp add: bit_ucast_iff bit_drop_bit_eq add.commute)
    then show "bit (swap16 (ucast (drop_bit 16 n))) i = bit (ucast (SWAPENDIAN n) :: u16) i"
      using i by (cases "i < 8") (simp_all add: bit_swap16 bit_ucast_iff bit_SWAPENDIAN_if add.commute less_imp_diff_less)
  qed
  show "swap16 (ucast n) = upper (SWAPENDIAN n)"
  proof (rule bit_word_eqI)
    fix i :: nat assume i: "i < LENGTH(16)"
    then show "bit (swap16 (ucast n)) i = bit (upper (SWAPENDIAN n)) i"
      by (simp add: bit_swap16 bit_ucast_iff bit_upper bit_SWAPENDIAN_if less_imp_diff_less add.commute)
  qed
qed

lemma lower_half: "(ucast v :: u32) = n AND 0xFFFF \<longleftrightarrow> v = ucast n" for v :: u16
proof -
  have m: "(0xFFFF :: u32) = mask 16" by (simp add: mask_eq_exp_minus_1)
  show ?thesis
    unfolding m
  proof
    assume e: "ucast v = n AND mask 16"
    show "v = ucast n"
    proof (rule bit_word_eqI)
      fix i :: nat assume "i < LENGTH(16)"
      then show "bit v i = bit (ucast n :: u16) i"
        using arg_cong [OF e, of "\<lambda>w. bit w i"] by (simp add: bit_ucast_iff bit_and_iff bit_mask_iff)
    qed
  next
    assume v: "v = ucast n"
    show "ucast v = n AND mask 16"
    proof (rule bit_word_eqI)
      fix i :: nat assume "i < LENGTH(32)"
      then show "bit (ucast v :: u32) i = bit (n AND mask 16) i" by (auto simp: v bit_ucast_iff bit_and_iff bit_mask_iff)
    qed
  qed
qed

lemma if_False_conj: "(if b then False else c) = (\<not> b \<and> c)"
  by simp

lemma weak_nonce_eq: "crypto1_is_weak_prng_nonce n \<longleftrightarrow> n \<noteq> 0 \<and> upper (SWAPENDIAN n) = (weak_step ^^ 16) (ucast (SWAPENDIAN n))"
proof -
  have "crypto1_is_weak_prng_nonce n \<longleftrightarrow> n \<noteq> 0 \<and> swap16 ((weak_step ^^ 16) (swap16 (ucast (drop_bit 16 n)))) = ucast n"
    unfolding crypto1_is_weak_prng_nonce_def Let_def swap16_def [symmetric] lower_half by (simp only: if_False_conj)
  also have "\<dots> \<longleftrightarrow> n \<noteq> 0 \<and> (weak_step ^^ 16) (swap16 (ucast (drop_bit 16 n))) = swap16 (ucast n)"
    by (metis swap16_twice)
  finally show ?thesis unfolding swap16_halves(1) [of n] swap16_halves(2) [of n] by auto
qed

section \<open>The cipher taken back\<close>

text \<open>Feeding the own output back undoes it: the register then takes the input that was encrypted.\<close>

lemma stream_feedback:
  "stream (forwards True) c (map2 (\<noteq>) bs (fst (stream (forwards False) c bs))) = stream (forwards False) c bs"
proof (induction bs arbitrary: c)
  case (Cons b bs)
  have "forwards True c (b \<noteq> fst (forwards False c b)) = forwards False c b"
    by (simp add: forwards_def) (cases "filt c"; simp)
  then show ?case using Cons [of "snd (forwards False c b)"] by (simp add: Let_def case_prod_beta)
qed simp

lemma be_bits_xor: "be_bits (v XOR w) = map2 (\<noteq>) (be_bits v) (be_bits w)"
  by (rule nth_equalityI) (auto simp: nth_be_bits bit_xor_iff)

lemma word_feedback: "crypto1_word c (x XOR fst (crypto1_word c x False)) True = crypto1_word c x False"
proof -
  have "be_bits (fst (crypto1_word c (x XOR fst (crypto1_word c x False)) True)) = be_bits (fst (crypto1_word c x False))"
    "snd (crypto1_word c (x XOR fst (crypto1_word c x False)) True) = snd (crypto1_word c x False)"
    using stream_feedback [of c "be_bits x"] by (simp_all add: crypto1_word_stream be_bits_xor)
  then show ?thesis by (simp add: be_bits_inject prod_eq_iff)
qed

lemma rollback_word:
  assumes "register d = register (snd (crypto1_word c inp e))"
  shows "fst (crypto1_lfsr_rollback_word d inp e) = fst (crypto1_word c inp e)"
    and "register (snd (crypto1_lfsr_rollback_word d inp e)) = register c"
proof -
  have "register d = register (snd (stream (forwards e) c (be_bits inp)))" using assms by (simp add: crypto1_word_stream)
  from stream_back [OF this] have
    "be_bits (fst (crypto1_lfsr_rollback_word d inp e)) = be_bits (fst (crypto1_word c inp e))"
    "register (snd (crypto1_lfsr_rollback_word d inp e)) = register c"
    by (simp_all add: rollback_word_stream crypto1_word_stream)
  then show "fst (crypto1_lfsr_rollback_word d inp e) = fst (crypto1_word c inp e)"
    "register (snd (crypto1_lfsr_rollback_word d inp e)) = register c"
    by (simp_all add: be_bits_inject)
qed

text \<open>What a card sends as its nonce when it answers inside an encrypted session, and what the reader makes of it.\<close>

definition nested_nonce :: "crypto1 \<Rightarrow> u32 \<Rightarrow> u32 \<Rightarrow> u32" where
  "nested_nonce c cuid nt = nt XOR fst (crypto1_word c (nt XOR cuid) False)"

lemma xor_swap: "nested_nonce c cuid nt XOR cuid = (nt XOR cuid) XOR fst (crypto1_word c (nt XOR cuid) False)"
  by (simp add: nested_nonce_def xor.assoc xor.commute xor.left_commute)

lemma nested_word: "crypto1_word c (nested_nonce c cuid nt XOR cuid) True = crypto1_word c (nt XOR cuid) False"
  unfolding xor_swap by (rule word_feedback)

lemma decrypt_nested:
  assumes "length key = 6"
  shows "crypto1_decrypt_nt_enc cuid (nested_nonce (crypto1_init crypto1_alloc (word_of_bits (msb_bits key 0 48))) cuid nt) key = Inr nt"
proof -
  let ?c = "crypto1_init crypto1_alloc (word_of_bits (msb_bits key 0 48))"
  have "fst (crypto1_lfsr_rollback_word (snd (crypto1_word ?c (nested_nonce ?c cuid nt XOR cuid) True)) (nested_nonce ?c cuid nt XOR cuid) True)
      = fst (crypto1_word ?c (nt XOR cuid) False)"
    using rollback_word(1) [OF refl, of ?c "nested_nonce ?c cuid nt XOR cuid" True] by (simp add: nested_word)
  then show ?thesis
    using bytes_to_num_be_eq [of 6 key] assms
    by (simp add: crypto1_decrypt_nt_enc_def Let_def) (simp add: nested_nonce_def xor.assoc)
qed

section \<open>Properties\<close>

text \<open>
  C19: \<open>crypto1_lfsr_rollback_word\<close> undoes \<open>crypto1_word\<close> with the same input and mode: it gives the same output and the same 48
  bits of the register as before, so that the state at the beginning of a session is found from a later one.
\<close>

theorem crypto1_rolls_back:
  "fst (crypto1_lfsr_rollback_word (snd (crypto1_word c inp e)) inp e) = fst (crypto1_word c inp e) \<and>
   register (snd (crypto1_lfsr_rollback_word (snd (crypto1_word c inp e)) inp e)) = register c"
  using rollback_word [OF refl] by blast

text \<open>
  C20: \<open>crypto1_is_weak_prng_nonce\<close> accepts exactly the words, other than zero, that the generator of the cards makes of
  some state in 16 steps; so it accepts every nonce of such a card, however many steps it is from the last.
\<close>

theorem crypto1_weak_nonces:
  "(crypto1_is_weak_prng_nonce n \<longleftrightarrow> n \<noteq> 0 \<and> (\<exists>x. n = crypto1_prng_successor x 16)) \<and>
   (crypto1_is_weak_prng_nonce (crypto1_prng_successor y (k + 16)) \<longleftrightarrow> crypto1_prng_successor y (k + 16) \<noteq> 0)"
proof -
  have weak: "crypto1_is_weak_prng_nonce n \<longleftrightarrow> n \<noteq> 0 \<and> (\<exists>x. n = crypto1_prng_successor x 16)" for n
  proof -
    have "(\<exists>x. n = crypto1_prng_successor x 16) \<longleftrightarrow> (\<exists>x. SWAPENDIAN n = (prng_step ^^ 16) x)"
      unfolding crypto1_prng_successor_def by (metis SWAPENDIAN_twice)
    then show ?thesis unfolding weak_nonce_eq after_16 by blast
  qed
  then show ?thesis using prng_successor_add [of y k 16] by metis
qed

end
