(* ===== verification/Crypto1_Frames.thy ===== *)
theory Crypto1_Frames
  imports Crypto1_Nonces
begin

text \<open>
  Whole frames: bytes and words as streams of bytes, what is sent encrypted and with which parity bits, and what
  the other side reads.
\<close>

section \<open>Streams of bytes\<close>

fun keystream :: "crypto1 \<Rightarrow> u8 list \<Rightarrow> u8 list \<times> crypto1" where
  "keystream c [] = ([], c)"
| "keystream c (x # xs) = (let (k, c) = crypto1_byte c x False; (ks, c) = keystream c xs in (k # ks, c))"

lemma length_keystream [simp]: "length (fst (keystream c xs)) = length xs"
  by (induction xs arbitrary: c) (simp_all add: Let_def case_prod_beta)

lemma keystream_append:
  "keystream c (xs @ ys) = (fst (keystream c xs) @ fst (keystream (snd (keystream c xs)) ys), snd (keystream (snd (keystream c xs)) ys))"
  by (induction xs arbitrary: c) (simp_all add: Let_def case_prod_beta)

lemma keystream_stream:
  "concat (map le_bits (fst (keystream c xs))) = fst (stream (forwards False) c (concat (map le_bits xs)))"
  "snd (keystream c xs) = snd (stream (forwards False) c (concat (map le_bits xs)))"
  by (induction xs arbitrary: c) (simp_all add: Let_def case_prod_beta stream_append crypto1_byte_stream)

text \<open>A word is its four bytes, the most significant first.\<close>

definition word_be :: "u8 list \<Rightarrow> u32" where
  "word_be xs = word_of_bits (msb_bits xs 0 32)"

lemma be_bits_word:
  assumes "length xs = 4"
  shows "be_bits (word_be xs) = concat (map le_bits xs)"
proof -
  have l: "concat (map le_bits xs) ! i = bit (xs ! (i div 8)) (i mod 8)" if "i < 32" for i
  proof -
    obtain a b c d where xs: "xs = [a, b, c, d]" using assms by (auto simp: length_Suc_conv numeral_eq_Suc)
    define q m where "q = i div 8" and "m = i mod 8"
    have i: "i = 8 * q + m" "m < 8" "q < 4" using that by (auto simp: q_def m_def)
    then consider "q = 0" | "q = 1" | "q = 2" | "q = 3" by linarith
    then show ?thesis using i(1,2) unfolding q_def [symmetric] m_def [symmetric] by cases (auto simp: xs nth_append le_bits_def)
  qed
  have n: "length (concat (map le_bits xs)) = 32" using assms by (auto simp: length_concat length_Suc_conv numeral_eq_Suc)
  have x: "\<forall>i < 32. (31 - (i XOR 24)) div 8 = i div 8 \<and> 7 - (31 - (i XOR 24)) mod 8 = i mod (8 :: nat)" by code_simp
  show ?thesis
  proof (rule nth_equalityI)
    fix i assume "i < length (be_bits (word_be xs))"
    then have i: "i < 32" by simp
    then have "be_bits (word_be xs) ! i = msb_bit xs (31 - (i XOR 24))"
      using xor24 by (simp add: nth_be_bits word_be_def bit_word_of_bits)
    also have "\<dots> = bit (xs ! (i div 8)) (i mod 8)" using x i by (simp add: msb_bit_def)
    finally show "be_bits (word_be xs) ! i = concat (map le_bits xs) ! i" using l [OF i] by simp
  qed (simp add: n)
qed

lemma word_be_inject: "length xs = 4 \<Longrightarrow> length ys = 4 \<Longrightarrow> word_be xs = word_be ys \<longleftrightarrow> xs = ys"
proof
  assume l: "length xs = 4" "length ys = 4" and e: "word_be xs = word_be ys"
  have "concat (map le_bits xs) = concat (map le_bits ys)" using be_bits_word l e by metis
  then have "map le_bits xs = map le_bits ys"
    using l by (intro concat_injective) (auto simp: in_set_zip)
  moreover have "inj (le_bits :: u8 \<Rightarrow> bool list)" by (rule injI) (simp add: le_bits_inject)
  ultimately show "xs = ys" by (simp add: inj_map_eq_map)
qed simp

lemma keystream_word:
  assumes "length xs = 4"
  shows "crypto1_word c (word_be xs) False = (word_be (fst (keystream c xs)), snd (keystream c xs))"
proof -
  have "be_bits (fst (crypto1_word c (word_be xs) False)) = be_bits (word_be (fst (keystream c xs)))"
    "snd (crypto1_word c (word_be xs) False) = snd (keystream c xs)"
    using assms by (simp_all add: crypto1_word_stream be_bits_word keystream_stream)
  then show ?thesis by (simp add: be_bits_inject prod_eq_iff)
qed

lemma xor_le_bits: "le_bits (v XOR w) = map2 (\<noteq>) (le_bits v) (le_bits w)"
  by (rule nth_equalityI) (auto simp: le_bits_def bit_xor_iff)

lemma word_be_xor: "length xs = 4 \<Longrightarrow> length ys = 4 \<Longrightarrow> word_be (map2 (XOR) xs ys) = word_be xs XOR word_be ys"
proof -
  assume l: "length xs = 4" "length ys = 4"
  then obtain a b c d a' b' c' d' where x: "xs = [a, b, c, d]" "ys = [a', b', c', d']" by (auto simp: length_Suc_conv numeral_eq_Suc)
  have "be_bits (word_be (map2 (XOR) xs ys)) = be_bits (word_be xs XOR word_be ys)"
    unfolding be_bits_xor using l by (simp add: be_bits_word x xor_le_bits)
  then show ?thesis by (simp add: be_bits_inject)
qed

lemma bytes_word: "length xs = 4 \<Longrightarrow> bindr (bit_lib_bytes_to_num_be xs 4) (\<lambda>n. Inr (ucast n :: u32)) = Inr (word_be xs)"
  using bytes_to_num_be_eq [of 4 xs] ucast_word_of_bits [of "msb_bits xs 0 32", where ?'b = 64 and ?'a = 32] by (simp add: word_be_def)

section \<open>Encrypted frames\<close>

text \<open>The whole bytes in a buffer, and its parity bits.\<close>

definition frame_of :: "bit_buffer \<Rightarrow> u8 list" where
  "frame_of b = take (bb_size_bits b div 8) (bb_data b)"

definition parity_bit_of :: "bit_buffer \<Rightarrow> nat \<Rightarrow> bool" where
  "parity_bit_of b i = bit (bb_parity b ! (i div 8)) (i mod 8)"

lemma set_byte_with_parity_eq:
  assumes "bb_ok b" and "i < bb_size_bits b div 8"
    and "i mod 8 \<noteq> 0 \<Longrightarrow> \<forall>j < 8. i mod 8 \<le> j \<longrightarrow> \<not> bit (bb_parity b ! (i div 8)) j"
  shows "\<exists>b'. bit_buffer_set_byte_with_parity b i x p = Inr b' \<and> bb_ok b' \<and> bb_size_bits b' = bb_size_bits b \<and>
    bb_data b' = (bb_data b)[i := x] \<and> bb_capacity_bytes b' = bb_capacity_bytes b \<and> parity_bit_of b' i = p \<and>
    (\<forall>j < i. parity_bit_of b' j = parity_bit_of b j) \<and>
    (i mod 8 \<noteq> 7 \<longrightarrow> (\<forall>j < 8. i mod 8 < j \<longrightarrow> \<not> bit (bb_parity b' ! (i div 8)) j))"
proof -
  let ?q = "i div 8" and ?r = "i mod 8"
  define old where "old = (if ?r = 0 then 0 else bb_parity b ! ?q)"
  define new where "new = old OR push_bit ?r (of_bool p)"
  have l: "i < length (bb_data b)" "?q < length (bb_parity b)" using assms(1,2) by (auto simp: bb_ok_def)
  define b' where "b' = b\<lparr>bb_data := (bb_data b)[i := x], bb_parity := (bb_parity b)[?q := new]\<rparr>"
  have "bit_buffer_set_byte_with_parity b i x p = Inr b'"
    using assms(2) l by (simp add: bit_buffer_set_byte_with_parity_def list_set_def list_get_def b'_def new_def old_def)
  moreover have "bb_ok b'" using assms(1) by (simp add: bb_ok_def b'_def)
  moreover have free: "\<not> bit old j" if "j < 8" "?r \<le> j" for j using assms(3) that by (auto simp: old_def)
  have new: "bit new j = (if j = ?r then p else bit old j)" if "j < 8" for j
    using that free [of ?r] by (cases "j = ?r") (auto simp: new_def bit_simps)
  have "parity_bit_of b' i = p" using new [of ?r] l by (simp add: parity_bit_of_def b'_def)
  moreover have "parity_bit_of b' j = parity_bit_of b j" if "j < i" for j
  proof (cases "j div 8 = ?q")
    case True
    then have "j mod 8 < ?r" using that by (metis div_mult_mod_eq nat_add_left_cancel_less)
    moreover have "j mod 8 < 8" by simp
    ultimately show ?thesis using new [of "j mod 8"] True l by (simp add: parity_bit_of_def b'_def old_def)
  qed (simp add: parity_bit_of_def b'_def)
  moreover have "\<not> bit (bb_parity b' ! ?q) j" if "j < 8" "?r < j" for j
    using new [of j] free [of j] that l by (simp add: b'_def)
  ultimately show ?thesis by (intro exI [of _ b']) (simp add: b'_def)
qed

lemma next_byte:
  assumes "length ks = i" and "i < length xs"
  shows "(ks @ drop i xs)[i := k] = (ks @ [k]) @ drop (Suc i) xs"
  using assms by (simp add: list_update_append Cons_nth_drop_Suc [symmetric])

definition free_parity :: "bit_buffer \<Rightarrow> nat \<Rightarrow> bool" where
  "free_parity b i \<longleftrightarrow> (i mod 8 \<noteq> 0 \<longrightarrow> (\<forall>j < 8. i mod 8 \<le> j \<longrightarrow> \<not> bit (bb_parity b ! (i div 8)) j))"

lemma free_parity_next:
  assumes "i mod 8 \<noteq> 7 \<longrightarrow> (\<forall>j < 8. i mod 8 < j \<longrightarrow> \<not> bit (bb_parity b ! (i div 8)) j)"
  shows "free_parity b (Suc i)"
proof (cases "i mod 8 = 7")
  case True
  then have "Suc i mod 8 = 0" by presburger
  then show ?thesis by (simp add: free_parity_def)
next
  case False
  then have "Suc i mod 8 = Suc (i mod 8)" "Suc i div 8 = i div 8" by presburger+
  then show ?thesis using assms False by (simp add: free_parity_def Suc_le_eq)
qed

text \<open>
  Whole bytes: each is added to the byte of the keystream, and goes with the parity of the plain byte, itself
  encrypted with the bit of the keystream that comes next.
\<close>

lemma encrypt_bytes:
  assumes "bb_ok buff" and "bb_ok out" and n: "bb_size_bits buff = 8 * n" "0 < n" "n \<le> bb_capacity_bytes out"
    and ins: "case ks of Some l \<Rightarrow> n \<le> length l \<and> take n l = ins | None \<Rightarrow> ins = replicate n 0"
  shows "\<exists>e. crypto1_encrypt c ks buff out = Inr (snd (keystream c ins), e) \<and> bb_ok e \<and> bb_size_bits e = 8 * n \<and>
    bb_capacity_bytes e = bb_capacity_bytes out \<and>
    frame_of e = map2 (XOR) (fst (keystream c ins)) (frame_of buff) \<and>
    (\<forall>i < n. parity_bit_of e i = encrypted_parity (snd (keystream c (take (Suc i) ins))) (frame_of buff ! i))"
proof -
  have b: "n \<le> length (bb_data buff)" "length (frame_of buff) = n" "n \<le> length (bb_data out)"
    using assms(1,2) n by (auto simp: bb_ok_def frame_of_def)
  have li: "length ins = n" using ins by (auto split: option.splits)
  define fr where "fr = frame_of buff"
  define out0 where "out0 = out\<lparr>bb_size_bits := 8 * n\<rparr>"
  have cap: "sz (bb_capacity_bytes out * 8) = bb_capacity_bytes out * 8" using assms(2) by (auto simp: bb_ok_def)
  have s: "bit_buffer_set_size out (8 * n) = Inr out0"
    using n(3) by (simp add: bit_buffer_set_size_def cap out0_def)
  have ok0: "bb_ok out0" using assms(2) n(3) by (auto simp: bb_ok_def out0_def)
  define body where "body = (\<lambda>i (crypto, out).
             bindr (case ks of Some ks \<Rightarrow> list_get ks i | None \<Rightarrow> Inr 0) (\<lambda>inp.
             let (k, crypto) = crypto1_byte crypto inp False in
             bindr (list_get (bb_data buff) i) (\<lambda>p.
             bindr (bit_buffer_set_byte_with_parity out i (k XOR p) (encrypted_parity crypto p)) (\<lambda>out.
               Inr (crypto, out)))))"
  define I where "I i s \<longleftrightarrow> (\<exists>e. s = (snd (keystream c (take i ins)), e) \<and> bb_ok e \<and> bb_size_bits e = 8 * n \<and>
      bb_capacity_bytes e = bb_capacity_bytes out \<and>
      bb_data e = map2 (XOR) (fst (keystream c (take i ins))) (take i fr) @ drop i (bb_data out) \<and> free_parity e i \<and>
      (\<forall>j < i. parity_bit_of e j = encrypted_parity (snd (keystream c (take (Suc j) ins))) (fr ! j)))" for i and s :: "crypto1 \<times> bit_buffer"
  have "\<exists>t. for_each body [0..<n] (c, out0) = Inr t \<and> I n t"
  proof (rule for_each_inv)
    show "I 0 (c, out0)" using ok0 by (auto simp: I_def out0_def free_parity_def)
  next
    fix i s assume i: "i < n" and "I i s"
    then obtain e where e: "s = (snd (keystream c (take i ins)), e)" "bb_ok e" "bb_size_bits e = 8 * n"
      "bb_capacity_bytes e = bb_capacity_bytes out"
      "bb_data e = map2 (XOR) (fst (keystream c (take i ins))) (take i fr) @ drop i (bb_data out)" "free_parity e i"
      "\<forall>j < i. parity_bit_of e j = encrypted_parity (snd (keystream c (take (Suc j) ins))) (fr ! j)"
      by (auto simp: I_def)
    define st where "st = snd (keystream c (take i ins))"
    define k c' where "k = fst (crypto1_byte st (ins ! i) False)" and "c' = snd (crypto1_byte st (ins ! i) False)"
    have kc: "crypto1_byte st (ins ! i) False = (k, c')" by (simp add: k_def c'_def)
    have step: "take (Suc i) ins = take i ins @ [ins ! i]" using i li by (simp add: take_Suc_conv_app_nth)
    have ks: "keystream c (take (Suc i) ins) = (fst (keystream c (take i ins)) @ [k], c')"
      by (simp add: step keystream_append kc flip: st_def)
    have inp: "(case ks of Some ks \<Rightarrow> list_get ks i | None \<Rightarrow> Inr 0) = Inr (ins ! i)"
      using ins i by (auto simp: list_get_def split: option.splits)
    have fri: "fr ! i = bb_data buff ! i" using i n by (simp add: fr_def frame_of_def)
    obtain e' where e': "bit_buffer_set_byte_with_parity e i (k XOR fr ! i) (encrypted_parity c' (fr ! i)) = Inr e'" "bb_ok e'"
      "bb_size_bits e' = bb_size_bits e" "bb_data e' = (bb_data e)[i := k XOR fr ! i]" "bb_capacity_bytes e' = bb_capacity_bytes e"
      "parity_bit_of e' i = encrypted_parity c' (fr ! i)" "\<forall>j < i. parity_bit_of e' j = parity_bit_of e j"
      "i mod 8 \<noteq> 7 \<longrightarrow> (\<forall>j < 8. i mod 8 < j \<longrightarrow> \<not> bit (bb_parity e' ! (i div 8)) j)"
      using set_byte_with_parity_eq [OF e(2), of i "k XOR fr ! i" "encrypted_parity c' (fr ! i)"] e(3,6) i
      by (auto simp: free_parity_def)
    have "body i s = Inr (c', e')"
      using i b by (simp add: body_def e(1) inp list_get_def kc e'(1) fri [symmetric] flip: st_def)
    moreover have "bb_data e' = map2 (XOR) (fst (keystream c (take (Suc i) ins))) (take (Suc i) fr) @ drop (Suc i) (bb_data out)"
    proof -
      have t: "take (Suc i) fr = take i fr @ [fr ! i]" using i b by (simp add: take_Suc_conv_app_nth fr_def)
      have lz: "length (map2 (XOR) (fst (keystream c (take i ins))) (take i fr)) = i" using i li b by (simp add: fr_def)
      have "length (fst (keystream c (take i ins))) = length (take i fr)" using i li b by (simp add: fr_def)
      then have "map2 (XOR) (fst (keystream c (take (Suc i) ins))) (take (Suc i) fr) =
          map2 (XOR) (fst (keystream c (take i ins))) (take i fr) @ [k XOR fr ! i]" by (simp add: ks t)
      then show ?thesis using next_byte [OF lz, of "bb_data out" "k XOR fr ! i"] i b by (simp add: e'(4) e(5))
    qed
    moreover have "\<forall>j < Suc i. parity_bit_of e' j = encrypted_parity (snd (keystream c (take (Suc j) ins))) (fr ! j)"
      using e'(6,7) e(7) ks by (auto simp: less_Suc_eq)
    ultimately show "\<exists>t. body i s = Inr t \<and> I (Suc i) t"
      using e e' free_parity_next [OF e'(8)] by (auto simp: I_def ks)
  qed
  then obtain e where e: "for_each body [0..<n] (c, out0) = Inr (snd (keystream c ins), e)" "bb_ok e" "bb_size_bits e = 8 * n"
      "bb_capacity_bytes e = bb_capacity_bytes out" "bb_data e = map2 (XOR) (fst (keystream c ins)) fr @ drop n (bb_data out)"
      "\<forall>j < n. parity_bit_of e j = encrypted_parity (snd (keystream c (take (Suc j) ins))) (fr ! j)"
    using li b by (auto simp: I_def fr_def)
  have "\<not> 8 * n < 8" using n by simp
  then have "crypto1_encrypt c ks buff out = Inr (snd (keystream c ins), e)"
    unfolding crypto1_encrypt_def Let_def bit_buffer_get_size_def bit_buffer_get_data_def n(1) s
    using e(1) by (simp add: body_def)
  moreover have "frame_of e = map2 (XOR) (fst (keystream c ins)) fr" using e(3,5) li b by (simp add: frame_of_def fr_def)
  ultimately show ?thesis using e by (auto simp: fr_def)
qed

lemma set_size_eq:
  assumes "bb_ok out" and "m \<le> 8 * bb_capacity_bytes out"
  shows "bit_buffer_set_size out m = Inr (out\<lparr>bb_size_bits := m\<rparr>)" "bb_ok (out\<lparr>bb_size_bits := m\<rparr>)"
proof -
  have "sz (bb_capacity_bytes out * 8) = bb_capacity_bytes out * 8" using assms(1) by (auto simp: bb_ok_def)
  then show "bit_buffer_set_size out m = Inr (out\<lparr>bb_size_bits := m\<rparr>)" "bb_ok (out\<lparr>bb_size_bits := m\<rparr>)"
    using assms by (auto simp: bit_buffer_set_size_def bb_ok_def)
qed

lemma decrypt_bytes:
  assumes "bb_ok buff" and "bb_ok out" and n: "bb_size_bits buff = 8 * n + r" "r < 8" "0 < n" "8 * n + r \<le> 8 * bb_capacity_bytes out"
  shows "\<exists>d. crypto1_decrypt c buff out = Inr (snd (keystream c (replicate n 0)), d) \<and> bb_ok d \<and> bb_size_bits d = 8 * n + r \<and>
    bb_capacity_bytes d = bb_capacity_bytes out \<and>
    frame_of d = map2 (XOR) (fst (keystream c (replicate n 0))) (frame_of buff)"
proof -
  define ins where "ins = replicate n (0 :: u8)"
  have li: "length ins = n" by (simp add: ins_def)
  have b: "n \<le> length (bb_data buff)" "length (frame_of buff) = n" "n \<le> length (bb_data out)"
    using assms(1,2) n by (auto simp: bb_ok_def frame_of_def)
  define fr where "fr = frame_of buff"
  define out0 where "out0 = out\<lparr>bb_size_bits := 8 * n + r\<rparr>"
  have s: "bit_buffer_set_size out (8 * n + r) = Inr out0" "bb_ok out0"
    using set_size_eq [OF assms(2) n(4)] by (simp_all add: out0_def)
  define body where "body = (\<lambda>i (crypto, out).
             let (k, crypto) = crypto1_byte crypto 0 False in
             bindr (list_get (bb_data buff) i) (\<lambda>e.
             bindr (bit_buffer_set_byte out i (k XOR e)) (\<lambda>out. Inr (crypto, out))))"
  define I where "I i s \<longleftrightarrow> (\<exists>d. s = (snd (keystream c (take i ins)), d) \<and> bb_ok d \<and> bb_size_bits d = 8 * n + r \<and>
      bb_capacity_bytes d = bb_capacity_bytes out \<and>
      bb_data d = map2 (XOR) (fst (keystream c (take i ins))) (take i fr) @ drop i (bb_data out))" for i and s :: "crypto1 \<times> bit_buffer"
  have "\<exists>t. for_each body [0..<n] (c, out0) = Inr t \<and> I n t"
  proof (rule for_each_inv)
    show "I 0 (c, out0)" using s by (auto simp: I_def out0_def)
  next
    fix i s assume i: "i < n" and "I i s"
    then obtain e where e: "s = (snd (keystream c (take i ins)), e)" "bb_ok e" "bb_size_bits e = 8 * n + r"
      "bb_capacity_bytes e = bb_capacity_bytes out"
      "bb_data e = map2 (XOR) (fst (keystream c (take i ins))) (take i fr) @ drop i (bb_data out)"
      by (auto simp: I_def)
    define st where "st = snd (keystream c (take i ins))"
    define k c' where "k = fst (crypto1_byte st 0 False)" and "c' = snd (crypto1_byte st 0 False)"
    have kc: "crypto1_byte st 0 False = (k, c')" by (simp add: k_def c'_def)
    have step: "take (Suc i) ins = take i ins @ [0]" using i by (simp add: ins_def replicate_append_same)
    have ks: "keystream c (take (Suc i) ins) = (fst (keystream c (take i ins)) @ [k], c')"
      by (simp add: step keystream_append kc flip: st_def)
    have fri: "fr ! i = bb_data buff ! i" using i n by (simp add: fr_def frame_of_def)
    define e' where "e' = e\<lparr>bb_data := (bb_data e)[i := k XOR fr ! i]\<rparr>"
    have "i < length (bb_data e)" using e(2,4) b(3) i assms(2) by (auto simp: bb_ok_def)
    moreover have "i < bit_buffer_get_size_bytes e" using e(3) i by (simp add: size_bytes_eq)
    ultimately have "body i s = Inr (c', e')"
      using i b by (simp add: body_def e(1) list_get_def list_set_def bit_buffer_set_byte_def kc e'_def fri [symmetric] flip: st_def)
    moreover have "bb_data e' = map2 (XOR) (fst (keystream c (take (Suc i) ins))) (take (Suc i) fr) @ drop (Suc i) (bb_data out)"
    proof -
      have t: "take (Suc i) fr = take i fr @ [fr ! i]" using i b by (simp add: take_Suc_conv_app_nth fr_def)
      have lz: "length (map2 (XOR) (fst (keystream c (take i ins))) (take i fr)) = i" using i li b by (simp add: fr_def)
      have "length (fst (keystream c (take i ins))) = length (take i fr)" using i li b by (simp add: fr_def)
      then have "map2 (XOR) (fst (keystream c (take (Suc i) ins))) (take (Suc i) fr) =
          map2 (XOR) (fst (keystream c (take i ins))) (take i fr) @ [k XOR fr ! i]" by (simp add: ks t)
      then show ?thesis using next_byte [OF lz, of "bb_data out" "k XOR fr ! i"] i b by (simp add: e'_def e(5))
    qed
    moreover have "bb_ok e'" using e(2) by (simp add: e'_def bb_ok_def)
    ultimately show "\<exists>t. body i s = Inr t \<and> I (Suc i) t"
      using e by (auto simp: I_def ks e'_def)
  qed
  then obtain d where d: "for_each body [0..<n] (c, out0) = Inr (snd (keystream c ins), d)" "bb_ok d" "bb_size_bits d = 8 * n + r"
      "bb_capacity_bytes d = bb_capacity_bytes out" "bb_data d = map2 (XOR) (fst (keystream c ins)) fr @ drop n (bb_data out)"
    using li b by (auto simp: I_def fr_def)
  have "\<not> 8 * n + r < 8" "(8 * n + r) div 8 = n" using n by simp_all
  then have "crypto1_decrypt c buff out = Inr (snd (keystream c ins), d)"
    unfolding crypto1_decrypt_def Let_def bit_buffer_get_size_def bit_buffer_get_data_def n(1) s
    using d(1) by (simp add: body_def)
  moreover have "frame_of d = map2 (XOR) (fst (keystream c ins)) fr" using d(3,5) li b \<open>(8 * n + r) div 8 = n\<close> by (simp add: frame_of_def fr_def)
  ultimately show ?thesis using d by (auto simp: fr_def ins_def)
qed

text \<open>Four bits, the answers of a card.\<close>

definition nibble :: "bool list \<Rightarrow> u8" where
  "nibble ks = of_bool (ks ! 0) OR push_bit 1 (of_bool (ks ! 1)) OR push_bit 2 (of_bool (ks ! 2)) OR push_bit 3 (of_bool (ks ! 3))"

lemma nibble_bits: "bit (nibble ks) i \<longleftrightarrow> i < 4 \<and> ks ! i"
proof -
  consider "i = 0" | "i = 1" | "i = 2" | "i = 3" | "i \<ge> 4" by linarith
  then show ?thesis by cases (auto simp: nibble_def bit_simps)
qed

lemma four_bits:
  assumes "forwards False c False = (k0, c1)" "forwards False c1 False = (k1, c2)" "forwards False c2 False = (k2, c3)" "forwards False c3 False = (k3, c4)"
  shows "stream (forwards False) c (replicate 4 False) = ([k0, k1, k2, k3], c4)"
    and "crypto1_bit c 0 False = (of_bool k0, c1)" "crypto1_bit c1 0 False = (of_bool k1, c2)"
      "crypto1_bit c2 0 False = (of_bool k2, c3)" "crypto1_bit c3 0 False = (of_bool k3, c4)"
  using assms by (simp_all add: crypto1_bit_step numeral_eq_Suc)

lemma of_bool_xor: "of_bool a XOR of_bool b = (of_bool (a \<noteq> b) :: 'a::len word)"
  by (cases a; cases b) simp_all

lemma crypt_nibble:
  assumes "bb_ok buff" and "bb_ok out" and "bb_size_bits buff = 4"
  shows "\<exists>e. crypto1_encrypt c None buff out = Inr (snd (stream (forwards False) c (replicate 4 False)), e) \<and>
      bb_ok e \<and> bb_size_bits e = 4 \<and> bb_capacity_bytes e = bb_capacity_bytes out \<and>
      bb_data e ! 0 = nibble (map2 (\<noteq>) (fst (stream (forwards False) c (replicate 4 False))) (le_bits (bb_data buff ! 0)))"
    and "\<exists>d. crypto1_decrypt c buff out = Inr (snd (stream (forwards False) c (replicate 4 False)), d) \<and>
      bb_ok d \<and> bb_size_bits d = 4 \<and> bb_capacity_bytes d = bb_capacity_bytes out \<and>
      bb_data d ! 0 = nibble (map2 (\<noteq>) (fst (stream (forwards False) c (replicate 4 False))) (le_bits (bb_data buff ! 0)))"
proof -
  obtain k0 c1 k1 c2 k2 c3 k3 c4 where k: "forwards False c False = (k0, c1)" "forwards False c1 False = (k1, c2)"
    "forwards False c2 False = (k2, c3)" "forwards False c3 False = (k3, c4)" by (meson surj_pair)
  note f = four_bits [OF k]
  define p where "p = bb_data buff ! 0"
  define x where "x = nibble (map2 (\<noteq>) [k0, k1, k2, k3] (le_bits p))"
  define out0 where "out0 = out\<lparr>bb_size_bits := 4\<rparr>"
  define e where "e = out0\<lparr>bb_data := (bb_data out)[0 := x]\<rparr>"
  have cap: "0 < length (bb_data buff)" "0 < length (bb_data out)" "0 < bb_capacity_bytes out" using assms by (auto simp: bb_ok_def)
  have s: "bit_buffer_set_size out 4 = Inr out0" "bb_ok out0" using set_size_eq [OF assms(2), of 4] cap by (simp_all add: out0_def)
  have put: "bit_buffer_set_byte out0 0 x = Inr e"
    using cap by (simp add: bit_buffer_set_byte_def size_bytes_eq out0_def list_set_def e_def)
  have le: "le_bits p = [bit p 0, bit p 1, bit p 2, bit p 3, bit p 4, bit p 5, bit p 6, bit p 7]" by (simp add: le_bits_def upt_rec numeral_eq_Suc)
  define t0 t1 t2 t3 :: u8 where "t0 = of_bool (k0 \<noteq> bit p 0)" and "t1 = of_bool (k1 \<noteq> bit p 1)"
    and "t2 = of_bool (k2 \<noteq> bit p 2)" and "t3 = of_bool (k3 \<noteq> bit p 3)"
  have x: "x = t0 OR push_bit 1 t1 OR push_bit 2 t2 OR push_bit 3 t3"
    by (simp add: x_def nibble_def le t0_def t1_def t2_def t3_def)
  define u0 u1 u2 u3 :: u8 where "u0 = of_bool k0" and "u1 = of_bool k1" and "u2 = of_bool k2" and "u3 = of_bool k3"
  have t: "u0 XOR FURI_BIT p 0 = t0" "u1 XOR FURI_BIT p 1 = t1" "u1 XOR FURI_BIT p (Suc 0) = t1" "u2 XOR FURI_BIT p 2 = t2" "u3 XOR FURI_BIT p 3 = t3"
    by (simp_all only: FURI_BIT_bit of_bool_xor t0_def t1_def t2_def t3_def u0_def u1_def u2_def u3_def One_nat_def)
  note g = f(2-5) [folded u0_def u1_def u2_def u3_def]
  have u: "[0..<4] = [0, 1, 2, 3 :: nat]" by (simp add: upt_rec numeral_eq_Suc)
  have "crypto1_encrypt c None buff out = Inr (c4, e)"
    unfolding crypto1_encrypt_def Let_def bit_buffer_get_size_def bit_buffer_get_data_def assms(3) s
    using cap put by (simp add: u g list_get_def t x or.assoc del: push_bit_xor flip: p_def)
  moreover have "crypto1_decrypt c buff out = Inr (c4, e)"
    unfolding crypto1_decrypt_def Let_def bit_buffer_get_size_def bit_buffer_get_data_def assms(3) s
    using cap put by (simp add: g list_get_def t x or.assoc del: push_bit_xor flip: p_def)
  moreover have "bb_ok e" using s(2) by (simp add: e_def bb_ok_def out0_def)
  moreover have "bb_data e ! 0 = x" using cap by (simp add: e_def)
  ultimately show "\<exists>e. crypto1_encrypt c None buff out = Inr (snd (stream (forwards False) c (replicate 4 False)), e) \<and>
      bb_ok e \<and> bb_size_bits e = 4 \<and> bb_capacity_bytes e = bb_capacity_bytes out \<and>
      bb_data e ! 0 = nibble (map2 (\<noteq>) (fst (stream (forwards False) c (replicate 4 False))) (le_bits (bb_data buff ! 0)))"
    "\<exists>d. crypto1_decrypt c buff out = Inr (snd (stream (forwards False) c (replicate 4 False)), d) \<and>
      bb_ok d \<and> bb_size_bits d = 4 \<and> bb_capacity_bytes d = bb_capacity_bytes out \<and>
      bb_data d ! 0 = nibble (map2 (\<noteq>) (fst (stream (forwards False) c (replicate 4 False))) (le_bits (bb_data buff ! 0)))"
    by (simp_all add: f(1) p_def x_def e_def out0_def)
qed

lemma xor_back: "length ks = length xs \<Longrightarrow> map2 (XOR) ks (map2 (XOR) ks xs) = (xs :: u8 list)"
  by (induction ks xs rule: list_induct2) (simp_all add: xor.assoc [symmetric])

section \<open>Properties\<close>

text \<open>
  C18: what one side encrypts the other side, its cipher in the same state, decrypts to the same: frames of whole bytes
  and the four bits of an answer; and the ciphers stay in the same state. No operation on the buffers faults.
\<close>

theorem crypto1_transfer:
  assumes "bb_reachable plain" and "bb_reachable out" and "bb_reachable out'" and "bb_in_range out" and "bb_in_range out'"
    and "bb_size_bits plain = 4 \<or> 0 < bb_size_bits plain \<and> 8 dvd bb_size_bits plain"
    and "bb_size_bits plain \<le> 8 * bb_capacity_bytes out" and "bb_size_bits plain \<le> 8 * bb_capacity_bytes out'"
  shows "\<exists>c' e d. crypto1_encrypt c None plain out = Inr (c', e) \<and> crypto1_decrypt c e out' = Inr (c', d) \<and>
    bb_size_bits d = bb_size_bits plain \<and> frame_of d = frame_of plain \<and>
    (bb_size_bits plain = 4 \<longrightarrow> bb_data d ! 0 = bb_data plain ! 0 AND 0xF)"
proof -
  have out: "bb_ok out" "bb_ok out'" using assms(2-5) by (simp_all add: reachable_ok)
  have "8 * bit_buffer_get_size_bytes plain < 8 * 2 ^ 29"
    using size_bytes_bounds(2) [of plain] assms(7) out(1) by (simp add: bb_ok_def)
  then have ok: "bb_ok plain" "bb_ok out" "bb_ok out'" using out reachable_fits [OF assms(1)] by simp_all
  show ?thesis
  proof (cases "bb_size_bits plain = 4")
    case True
    define ks where "ks = fst (stream (forwards False) c (replicate 4 False))"
    obtain e where e: "crypto1_encrypt c None plain out = Inr (snd (stream (forwards False) c (replicate 4 False)), e)"
      "bb_ok e" "bb_size_bits e = 4" "bb_data e ! 0 = nibble (map2 (\<noteq>) ks (le_bits (bb_data plain ! 0)))"
      using crypt_nibble(1) [OF ok(1,2) True] by (auto simp: ks_def)
    obtain d where d: "crypto1_decrypt c e out' = Inr (snd (stream (forwards False) c (replicate 4 False)), d)" "bb_size_bits d = 4"
      "bb_data d ! 0 = nibble (map2 (\<noteq>) ks (le_bits (bb_data e ! 0)))"
      using crypt_nibble(2) [OF e(2) ok(3) e(3)] by (auto simp: ks_def)
    have l: "length ks = 4" by (simp add: ks_def)
    have "bb_data d ! 0 = bb_data plain ! 0 AND 0xF"
    proof (rule bit_word_eqI)
      fix i :: nat assume i: "i < LENGTH(8)"
      have m: "(0xF :: u8) = mask 4" by (simp add: mask_eq_exp_minus_1)
      show "bit (bb_data d ! 0) i = bit (bb_data plain ! 0 AND 0xF) i"
        using i l by (cases "i < 4") (auto simp: d(3) e(4) m nibble_bits bit_and_iff bit_mask_iff le_bits_def)
    qed
    then show ?thesis using e(1) d(1,2) True by (auto simp: frame_of_def)
  next
    case False
    then obtain n where n: "bb_size_bits plain = 8 * n" "0 < n" using assms(6) by auto
    obtain e where e: "crypto1_encrypt c None plain out = Inr (snd (keystream c (replicate n 0)), e)" "bb_ok e" "bb_size_bits e = 8 * n"
      "frame_of e = map2 (XOR) (fst (keystream c (replicate n 0))) (frame_of plain)"
      using encrypt_bytes [OF ok(1,2) n, where ks = None and ins = "replicate n 0" and c = c] assms(7) n by auto
    obtain d where d: "crypto1_decrypt c e out' = Inr (snd (keystream c (replicate n 0)), d)" "bb_size_bits d = 8 * n"
      "frame_of d = map2 (XOR) (fst (keystream c (replicate n 0))) (frame_of e)"
      using decrypt_bytes [OF e(2) ok(3), where n = n and r = 0 and c = c] e(3) assms(8) n by auto
    have "length (frame_of plain) = n" using ok(1) n by (auto simp: frame_of_def bb_ok_def)
    then have "frame_of d = frame_of plain" by (simp add: d(3) e(4) xor_back)
    then show ?thesis using e(1) d(1,2) n False by simp
  qed
qed

theorem crypto1_transfer_witness:
  "bindr (bit_buffer_alloc 2) (\<lambda>b. bindr (bit_buffer_append_bytes b [7, 9] 2) (\<lambda>plain.
     bindr (crypto1_encrypt crypto1_alloc None plain b) (\<lambda>(c', e). bindr (crypto1_decrypt crypto1_alloc e b) (\<lambda>(c'', d).
       Inr (frame_of d))))) = Inr [7, 9]"
proof -
  define b where "b = \<lparr>bb_data = [0, 0], bb_parity = [0], bb_capacity_bytes = 2, bb_size_bits = 0\<rparr>"
  define plain where "plain = \<lparr>bb_data = [7, 9], bb_parity = [0], bb_capacity_bytes = 2, bb_size_bits = 16\<rparr>"
  have b: "bit_buffer_alloc 2 = Inr b" by (simp add: bit_buffer_alloc_def parity_buf_size_def b_def numeral_2_eq_2)
  have rb: "bb_reachable b" using bb_reachable.alloc [OF _ b] by simp
  have p: "bit_buffer_append_bytes b [7, 9] 2 = Inr plain"
    by (simp add: bit_buffer_append_bytes_def size_bytes_eq mem_copy_def b_def plain_def)
  have range: "bb_in_range b" by (simp add: in_range_iff b_def)
  have rp: "bb_reachable plain" using bb_reachable.append_bytes [OF rb p] .
  obtain c' e d where r: "crypto1_encrypt crypto1_alloc None plain b = Inr (c', e)" "crypto1_decrypt crypto1_alloc e b = Inr (c', d)"
    "frame_of d = frame_of plain"
    using crypto1_transfer [OF rp rb rb range range, of crypto1_alloc] by (auto simp: plain_def b_def)
  have "frame_of plain = [7, 9]" by (simp add: plain_def frame_of_def)
  then show ?thesis by (simp only: b p r bindr_Inr case_prod_conv)
qed

end
