(* ===== verification/Mf_Classic_Frames.thy ===== *)
theory Mf_Classic_Frames
  imports Mf_Classic_Listener Mf_Classic_Facts Crypto1_Frames Crc_Codes
begin

text \<open>
  What the buffers and the cipher of the Mifare Classic listener do with a frame of any size: the faults of the
  decryption, and a block that goes out encrypted behind its checksum.
\<close>

section \<open>Buffers\<close>

lemma get_byte_eq: "bb_ok b \<Longrightarrow> i < bb_capacity_bytes b \<Longrightarrow> bit_buffer_get_byte b i = Inr (bb_data b ! i)"
  by (simp add: bit_buffer_get_byte_def list_get_def bb_ok_def)

lemma copy_bytes_eq:
  assumes "bb_ok b" and "length xs = n" and "n \<le> bb_capacity_bytes b"
  shows "bit_buffer_copy_bytes b xs n = Inr (b\<lparr>bb_data := xs @ drop n (bb_data b), bb_size_bits := 8 * n\<rparr>)"
    and "bb_ok (b\<lparr>bb_data := xs @ drop n (bb_data b), bb_size_bits := 8 * n\<rparr>)"
  using assms by (auto simp: bit_buffer_copy_bytes_def mem_copy_def bb_ok_def mult.commute)

lemma write_mid_eq:
  assumes "bb_ok b" and "length xs = n" and "off + n \<le> bit_buffer_get_size_bytes b"
  shows "bit_buffer_write_bytes_mid b xs off n = Inr (take n (drop off (bb_data b)))"
  using assms size_bytes_le [OF assms(1)] by (auto simp: bit_buffer_write_bytes_mid_def mem_copy_def bb_ok_def)

lemma frame_of_bits:
  assumes "bb_ok b" and "bb_ok c" and "bb_bits b = bb_bits c"
  shows "frame_of b = frame_of c"
proof -
  have s: "bb_size_bits b = bb_size_bits c" using arg_cong [OF assms(3), of length] by (simp add: bb_bits_def)
  show ?thesis
  proof (rule nth_equalityI)
    show "length (frame_of b) = length (frame_of c)" using assms(1,2) s by (auto simp: frame_of_def bb_ok_def)
  next
    fix k assume "k < length (frame_of b)"
    then have k: "k < bb_size_bits b div 8" by (simp add: frame_of_def)
    show "frame_of b ! k = frame_of c ! k"
    proof (rule bit_word_eqI)
      fix j :: nat assume "j < LENGTH(8)"
      then have j: "j < 8" "8 * k + j < bb_size_bits b" using k by auto
      have "byte_bit (bb_data b) (8 * k + j) = byte_bit (bb_data c) (8 * k + j)"
        using arg_cong [OF assms(3), of "\<lambda>l. l ! (8 * k + j)"] j s by (simp add: bb_bits_def)
      then show "bit (frame_of b ! k) j = bit (frame_of c ! k) j" using k j s by (simp add: frame_of_def byte_bit_at)
    qed
  qed
qed

section \<open>The cipher\<close>

lemma decrypt_total:
  assumes "bb_ok b" and "bb_ok out" and "0 < bb_size_bits b" and "bb_size_bits b \<le> 8 * bb_capacity_bytes out"
  shows "\<exists>c' d. crypto1_decrypt c b out = Inr (c', d) \<and> bb_ok d \<and> bb_size_bits d = bb_size_bits b \<and>
    bb_capacity_bytes d = bb_capacity_bytes out"
proof (cases "bb_size_bits b < 8")
  case True
  define out0 where "out0 = out\<lparr>bb_size_bits := bb_size_bits b\<rparr>"
  have s: "bit_buffer_set_size out (bb_size_bits b) = Inr out0" "bb_ok out0"
    using set_size_eq [OF assms(2,4)] by (simp_all add: out0_def)
  have l: "0 < length (bb_data b)" "0 < length (bb_data out)" using assms(1,2) by (auto simp: bb_ok_def)
  have "0 < (bb_size_bits b + 7) div 8" using assms(3) by linarith
  then have "bit_buffer_set_byte out0 0 x = Inr (out0\<lparr>bb_data := (bb_data out)[0 := x]\<rparr>)" for x
    using l by (simp add: bit_buffer_set_byte_def size_bytes_eq out0_def list_set_def)
  moreover have "bb_ok (out0\<lparr>bb_data := (bb_data out)[0 := x]\<rparr>)" for x using s(2) by (simp add: bb_ok_def out0_def)
  ultimately show ?thesis using True l
    by (simp add: crypto1_decrypt_def Let_def bit_buffer_get_size_def bit_buffer_get_data_def s list_get_def case_prod_beta)
       (simp add: out0_def)
next
  case False
  then have "bb_size_bits b = 8 * (bb_size_bits b div 8) + bb_size_bits b mod 8" "0 < bb_size_bits b div 8" by (simp_all add: div_greater_zero_iff)
  then show ?thesis using decrypt_bytes [OF assms(1,2), where n = "bb_size_bits b div 8" and r = "bb_size_bits b mod 8" and c = c] assms(4) by auto
qed

lemma decrypt_fails:
  assumes "bb_ok b" and "bb_ok out" and "bb_size_bits b = 0 \<or> 8 * bb_capacity_bytes out < bb_size_bits b"
  shows "crypto1_decrypt c b out = Inl FuriCheck"
proof (cases "bb_size_bits b = 0")
  case True
  have l: "0 < length (bb_data b)" using assms(1) by (auto simp: bb_ok_def)
  have "bit_buffer_set_byte (out\<lparr>bb_size_bits := 0\<rparr>) 0 x = Inl FuriCheck" for x
    by (simp add: bit_buffer_set_byte_def size_bytes_eq)
  then show ?thesis using True l set_size_eq(1) [OF assms(2), of 0]
    by (simp add: crypto1_decrypt_def Let_def bit_buffer_get_size_def bit_buffer_get_data_def list_get_def case_prod_beta)
next
  case False
  have "sz (bb_capacity_bytes out * 8) = 8 * bb_capacity_bytes out" using assms(2) by (auto simp: bb_ok_def)
  then have "bit_buffer_set_size out (bb_size_bits b) = Inl FuriCheck" using False assms(3) by (simp add: bit_buffer_set_size_def)
  then show ?thesis by (simp add: crypto1_decrypt_def Let_def bit_buffer_get_size_def)
qed

text \<open>A block with its checksum goes out encrypted.\<close>

lemma encrypt_with_crc:
  assumes "bb_ok p" and "bb_ok out" and "length xs = n" and "0 < n" and "n + 2 \<le> bb_capacity_bytes p" and "n + 2 \<le> bb_capacity_bytes out"
  shows "\<exists>p1 p2 e. bit_buffer_copy_bytes p xs n = Inr p1 \<and> iso14443_crc_append Iso14443CrcTypeA p1 = Inr p2 \<and>
    crypto1_encrypt c None p2 out = Inr (snd (keystream c (replicate (n + 2) 0)), e) \<and>
    bb_ok p2 \<and> bb_capacity_bytes p2 = bb_capacity_bytes p \<and> bb_ok e \<and> bb_capacity_bytes e = bb_capacity_bytes out \<and>
    bb_size_bits e = 8 * (n + 2) \<and> take n (frame_of p2) = xs \<and> iso14443_crc_check Iso14443CrcTypeA p2 = Inr True \<and>
    bb_size_bits p2 = 8 * (n + 2) \<and> frame_of e = map2 (XOR) (fst (keystream c (replicate (n + 2) 0))) (frame_of p2)"
proof -
  define p1 where "p1 = p\<lparr>bb_data := xs @ drop n (bb_data p), bb_size_bits := 8 * n\<rparr>"
  have p1: "bit_buffer_copy_bytes p xs n = Inr p1" "bb_ok p1"
    using copy_bytes_eq [OF assms(1,3)] assms(5) by (simp_all add: p1_def)
  have s: "bb_size_bits p1 mod 8 = 0" "n = bit_buffer_get_size_bytes p1" "n + 2 \<le> bb_capacity_bytes p1"
    using assms(5) by (simp_all add: p1_def size_bytes_eq)
  obtain p2 p3 where p2: "iso14443_crc_append Iso14443CrcTypeA p1 = Inr p2" "bit_buffer_get_size_bytes p2 = n + 2"
    "iso14443_crc_check Iso14443CrcTypeA p2 = Inr True" "iso14443_crc_trim p2 = Inr p3" "bb_bits p3 = bb_bits p1"
    using iso14443.append_check [OF p1(2) s(1,2) assms(4) s(3), of Iso14443CrcTypeA] by blast
  obtain code where code: "bit_buffer_append_bytes p1 code 2 = Inr p2"
    using p2(1) by (auto simp: iso14443_crc_append_def Let_def bindr_eq_Inr)
  have ok2: "bb_ok p2" using append_bytes_ok [OF p1(2) code] .
  have z: "bb_size_bits p2 = 8 * (n + 2)" "bb_capacity_bytes p2 = bb_capacity_bytes p"
    using code assms(5,1) by (auto simp: bit_buffer_append_bytes_def Let_def bindr_eq_Inr p1_def bb_ok_def)
  have c8: "8 * n \<le> 8 * bb_capacity_bytes p2" using z assms(5) by simp
  have "p3 = p2\<lparr>bb_size_bits := 8 * n\<rparr>"
    using p2(2,4) z assms(1,5) by (auto simp: iso14443_crc_trim_def Let_def bit_buffer_set_size_bytes_def bindr_eq_Inr bb_ok_def mult.commute)
  then have "frame_of (p2\<lparr>bb_size_bits := 8 * n\<rparr>) = frame_of p1" using set_size_eq(2) [OF ok2 c8] p1(2) p2(5) by (intro frame_of_bits) auto
  then have xs: "take n (bb_data p2) = xs" using assms(3) by (simp add: frame_of_def p1_def)
  have "0 < n + 2" by simp
  from encrypt_bytes [OF ok2 assms(2) z(1) this assms(6), where ks = None and ins = "replicate (n + 2) 0" and c = c]
  obtain e where "crypto1_encrypt c None p2 out = Inr (snd (keystream c (replicate (n + 2) 0)), e)" "bb_ok e"
    "bb_size_bits e = 8 * (n + 2)" "bb_capacity_bytes e = bb_capacity_bytes out"
    "frame_of e = map2 (XOR) (fst (keystream c (replicate (n + 2) 0))) (frame_of p2)" by auto
  moreover have "take n (frame_of p2) = xs" using xs z by (simp add: frame_of_def)
  ultimately show ?thesis using p1 p2 ok2 z by blast
qed

end
