(* ===== verification/Mf_Listener_Facts.thy ===== *)
theory Mf_Listener_Facts
  imports Mf_Classic_Frames
begin

text \<open>
  The listener of Mifare Classic: the session key and the state of its cipher, the invariant of its state, and what
  every handler does on a state that has it.
\<close>

section \<open>Keys and nonces\<close>

lemma word_bytes:
  assumes "length d = 4"
  shows "\<exists>xs. bit_lib_num_to_bytes_be (ucast (w :: u32)) 4 d = Inr xs \<and> length xs = 4 \<and> word_be xs = w"
proof -
  have n: "bindr (bit_lib_num_to_bytes_be (ucast w) 4 d) (\<lambda>d. bit_lib_bytes_to_num_be d 4) = Inr (take_bit (8 * 4) (ucast w))"
    using num_bytes_roundtrip [of 4 d "ucast w"] assms by simp
  obtain xs where xs: "bit_lib_num_to_bytes_be (ucast w) 4 d = Inr xs" "length xs = 4"
    using num_to_bytes_eq(1) [of 4 d "ucast w"] assms by simp
  have "ucast (take_bit 32 (ucast w :: u64)) = w" by (rule bit_word_eqI) (simp add: bit_ucast_iff bit_take_bit_iff)
  then show ?thesis using xs n bytes_word [of xs] by simp
qed

lemma bit_lib_bytes_to_num_be_word:
  "length xs = 4 \<Longrightarrow> bindr (bit_lib_bytes_to_num_be xs 4) f = f (ucast (word_be xs))"
  using bytes_to_num_be_eq [of 4 xs] by (simp add: word_be_def) (rule arg_cong [of _ _ f], rule bit_word_eqI, auto simp: bit_ucast_iff bit_word_of_bits)

lemma ucast_u64_back: "ucast (ucast (w :: u32) :: u64) = w"
  by (rule bit_word_eqI) (simp add: bit_ucast_iff)

lemma key_bytes: "length xs = 6 \<Longrightarrow> bit_lib_bytes_to_num_be xs 6 = Inr (word_of_bits (msb_bits xs 0 48))"
  using bytes_to_num_be_eq [of 6 xs] by simp

lemma crypto1_init_any: "crypto1_init c key = crypto1_init crypto1_alloc key"
proof -
  have "c\<lparr>c_even := 0, c_odd := 0\<rparr> = crypto1_alloc\<lparr>c_even := 0, c_odd := 0\<rparr>" by simp
  then show ?thesis by (simp only: crypto1_init_def)
qed

text \<open>The key of a sector as the cipher takes it, and the cipher after the nonce of the card went in.\<close>

definition session_key :: "mf_classic_data \<Rightarrow> mf_classic_key_type \<Rightarrow> nat \<Rightarrow> u64" where
  "session_key d kt b = word_of_bits (msb_bits
     (if kt = MfClassicKeyTypeA then sec_tr_key_a (trailer_of d b) else sec_tr_key_b (trailer_of d b)) 0 48)"

definition card_cuid :: "mf_classic_data \<Rightarrow> u32" where
  "card_cuid d = iso14443_3a_get_cuid (iso14443_3a_data d)"

definition challenged :: "mf_classic_data \<Rightarrow> mf_classic_key_type \<Rightarrow> nat \<Rightarrow> u8 list \<Rightarrow> crypto1" where
  "challenged d kt b nt = snd (crypto1_word (crypto1_init crypto1_alloc (session_key d kt b)) (word_be nt XOR card_cuid d) False)"

lemma challenged_keystream:
  assumes "length xs = 4" and "word_be xs = word_be nt XOR card_cuid d"
  shows "snd (keystream (crypto1_init crypto1_alloc (session_key d kt b)) xs) = challenged d kt b nt"
  using keystream_word [OF assms(1), of "crypto1_init crypto1_alloc (session_key d kt b)"] assms(2) by (simp add: challenged_def)

section \<open>The invariant\<close>

definition total_blocks :: "mf_classic_listener \<Rightarrow> nat" where
  "total_blocks s = mf_classic_get_total_block_num (mf_type (l_data s))"

lemma total_blocks_256: "total_blocks s \<le> 256"
  by (cases "mf_type (l_data s)") (simp_all add: total_blocks_def mf_classic_get_total_block_num_def)

definition same_sector :: "nat \<Rightarrow> nat \<Rightarrow> bool" where
  "same_sector a b \<longleftrightarrow> mf_classic_get_sector_by_block a = mf_classic_get_sector_by_block b"

definition logged_in :: "mf_classic_listener \<Rightarrow> bool" where
  "logged_in s \<longleftrightarrow> l_state s = MfClassicListenerStateAuthComplete"

text \<open>What is under way: an authentication, a write, or a change of a value.\<close>

definition pending :: "mf_classic_listener \<Rightarrow> bool" where
  "pending s \<longleftrightarrow>
     current_cmd_idx s \<in> {2, 3} \<and> current_cmd_handler_idx s = 1 \<and> \<not> logged_in s \<and> ac_block_num (auth_context s) < total_blocks s \<and>
       crypto s = challenged (l_data s) (ac_key_type (auth_context s)) (ac_block_num (auth_context s)) (ac_nt (auth_context s)) \<or>
     current_cmd_idx s = 5 \<and> current_cmd_handler_idx s = 1 \<and> logged_in s \<and> 0 < write_block s \<and> write_block s < total_blocks s \<and>
       same_sector (write_block s) (ac_block_num (auth_context s)) \<or>
     current_cmd_idx s \<in> {6, 7, 8} \<and> current_cmd_handler_idx s \<in> {1, 2} \<and> logged_in s"

definition is_int32 :: "int \<Rightarrow> bool" where
  "is_int32 x \<longleftrightarrow> - (2 ^ 31) \<le> x \<and> x < 2 ^ 31"

definition buffer_64 :: "bit_buffer \<Rightarrow> bool" where
  "buffer_64 b \<longleftrightarrow> bb_ok b \<and> bb_capacity_bytes b = 64"

definition auth_ok :: "mf_classic_auth_context \<Rightarrow> bool" where
  "auth_ok c \<longleftrightarrow> length (ac_nt c) = 4 \<and> length (ac_nr c) = 4 \<and> length (ac_ar c) = 4 \<and> length (ac_at c) = 4"

definition listener_ok :: "mf_classic_listener \<Rightarrow> bool" where
  "listener_ok s \<longleftrightarrow> card_ok (l_data s) \<and> buffer_64 (tx_plain_buffer s) \<and> buffer_64 (tx_encrypted_buffer s) \<and>
     buffer_64 (rx_plain_buffer s) \<and> auth_ok (auth_context s) \<and> total_block_num s = total_blocks s \<and> is_int32 (transfer_value s) \<and>
     (logged_in s \<longrightarrow> comm_state s = MfClassicListenerCommStateEncrypted \<and> ac_block_num (auth_context s) < total_blocks s) \<and>
     (cmd_in_progress s \<longrightarrow> pending s)"

lemma listener_reset_ok [intro]: "listener_ok s \<Longrightarrow> listener_ok (mf_classic_listener_reset_state s)"
  by (simp add: listener_ok_def mf_classic_listener_reset_state_def logged_in_def total_blocks_def auth_ok_def zero_auth_context_def
      is_int32_def)

lemma listener_alloc_ok: "card_ok d \<Longrightarrow> \<exists>s. mf_classic_listener_alloc d = Inr s \<and> listener_ok s \<and> l_data s = d"
  by (auto simp: mf_classic_listener_alloc_def bit_buffer_alloc_def listener_ok_def logged_in_def total_blocks_def auth_ok_def
      zero_auth_context_def is_int32_def buffer_64_def bb_ok_def parity_buf_size_def)

section \<open>Authentication\<close>

lemma buffer_64_copy:
  assumes "buffer_64 b" and "length xs = n" and "n \<le> 64"
  shows "\<exists>b'. bit_buffer_copy_bytes b xs n = Inr b' \<and> buffer_64 b' \<and> bb_size_bits b' = 8 * n \<and> frame_of b' = xs"
  using copy_bytes_eq [of b xs n] assms by (auto simp: buffer_64_def frame_of_def)

lemma buffer_64_encrypt:
  assumes "buffer_64 p" and "buffer_64 out" and "bb_size_bits p = 8 * n" and "0 < n" and "n \<le> 64"
    and "case ks of Some l \<Rightarrow> l = ins \<and> length l = n | None \<Rightarrow> ins = replicate n 0"
  shows "\<exists>e. crypto1_encrypt c ks p out = Inr (snd (keystream c ins), e) \<and> buffer_64 e \<and> bb_size_bits e = 8 * n \<and>
    frame_of e = map2 (XOR) (fst (keystream c ins)) (frame_of p)"
  using encrypt_bytes [of p out n, where ks = ks and ins = ins and c = c] assms by (auto simp: buffer_64_def split: option.splits)

lemma length_trailer_keys:
  "card_ok d \<Longrightarrow> b < 256 \<Longrightarrow> length (sec_tr_key_a (trailer_of d b)) = 6"
  "card_ok d \<Longrightarrow> b < 256 \<Longrightarrow> length (sec_tr_key_b (trailer_of d b)) = 6"
  by (simp_all add: sec_tr_key_a_def sec_tr_key_b_def length_trailer_of)

lemma key_number:
  assumes "card_ok d" and "b < 256"
  shows "bit_lib_bytes_to_num_be (if kt = MfClassicKeyTypeA then sec_tr_key_a (trailer_of d b) else sec_tr_key_b (trailer_of d b)) 6 =
    Inr (session_key d kt b)"
  using length_trailer_keys [OF assms] by (auto simp: session_key_def key_bytes)

lemma auth_first_rejects:
  "listener_ok s \<Longrightarrow> total_blocks s \<le> b \<Longrightarrow>
   mf_classic_listener_auth_first_part_handler rnd s kt b = Inr (MfClassicListenerCommandNack, s\<lparr>l_state := MfClassicListenerStateIdle\<rparr>)"
  by (simp add: mf_classic_listener_auth_first_part_handler_def listener_ok_def)

definition challenge_sent :: "mf_classic_listener \<Rightarrow> mf_classic_key_type \<Rightarrow> nat \<Rightarrow> u8 list \<Rightarrow> sent_frame \<Rightarrow> bool" where
  "challenge_sent s kt b nt f \<longleftrightarrow> (\<exists>e. bb_size_bits e = 32 \<and>
     (if comm_state s = MfClassicListenerCommStatePlain then f = Tx e \<and> frame_of e = nt
      else f = TxCustomParity e \<and> length (frame_of e) = 4 \<and> word_be (frame_of e) =
        nested_nonce (crypto1_init crypto1_alloc (session_key (l_data s) kt b)) (card_cuid (l_data s)) (word_be nt)))"

lemma auth_first:
  assumes ok: "listener_ok s" and rnd: "length rnd = 4" and b: "b < total_blocks s"
  shows "\<exists>p e f. mf_classic_listener_auth_first_part_handler rnd s kt b = Inr (MfClassicListenerCommandProcessed,
      next_handler (transmit f (s\<lparr>l_state := MfClassicListenerStateIdle, tx_plain_buffer := p, tx_encrypted_buffer := e,
        crypto := challenged (l_data s) kt b rnd,
        auth_context := (auth_context s)\<lparr>ac_key_type := kt, ac_block_num := b, ac_nt := rnd\<rparr>\<rparr>))) \<and>
    buffer_64 p \<and> buffer_64 e \<and> challenge_sent s kt b rnd f"
proof -
  define c0 where "c0 = crypto1_init crypto1_alloc (session_key (l_data s) kt b)"
  have b': "b < 256" "\<not> total_block_num s \<le> b" using b total_blocks_256 [of s] ok by (auto simp: listener_ok_def)
  have card: "card_ok (l_data s)" and buf: "buffer_64 (tx_plain_buffer s)" "buffer_64 (tx_encrypted_buffer s)"
    using ok by (simp_all add: listener_ok_def)
  note eqs = mf_classic_listener_auth_first_part_handler_def Let_def sector_trailer_of [OF card b'(1)] key_number [OF card b'(1)]
    crypto1_init_any [of "crypto s"] bit_lib_bytes_to_num_be_word [OF rnd] ucast_u64_back
  show ?thesis
  proof (cases "comm_state s = MfClassicListenerCommStatePlain")
    case True
    obtain e where e: "bit_buffer_copy_bytes (tx_encrypted_buffer s) rnd 4 = Inr e" "buffer_64 e" "bb_size_bits e = 32" "frame_of e = rnd"
      using buffer_64_copy [OF buf(2) rnd] by auto
    show ?thesis using e buf(1) b'(2) True
      by (intro exI [of _ "tx_plain_buffer s"] exI [of _ e] exI [of _ "Tx e"])
         (auto simp: eqs challenge_sent_def challenged_def card_cuid_def transmit_def next_handler_def
          intro!: mf_classic_listener.equality)
  next
    case False
    obtain xs where xs: "bit_lib_num_to_bytes_be (ucast (word_be rnd XOR card_cuid (l_data s))) 4 (replicate 4 0) = Inr xs"
      "length xs = 4" "word_be xs = word_be rnd XOR card_cuid (l_data s)"
      using word_bytes [of "replicate 4 0" "word_be rnd XOR card_cuid (l_data s)"] by auto
    obtain p where p: "bit_buffer_copy_bytes (tx_plain_buffer s) rnd 4 = Inr p" "buffer_64 p" "bb_size_bits p = 32" "frame_of p = rnd"
      using buffer_64_copy [OF buf(1) rnd] by auto
    obtain e where e: "crypto1_encrypt c0 (Some xs) p (tx_encrypted_buffer s) = Inr (snd (keystream c0 xs), e)" "buffer_64 e"
      "bb_size_bits e = 32" "frame_of e = map2 (XOR) (fst (keystream c0 xs)) rnd"
      using buffer_64_encrypt [OF p(2) buf(2), where n = 4 and ks = "Some xs" and ins = xs and c = c0] p(3,4) xs(2) by auto
    have "word_be (frame_of e) = nested_nonce c0 (card_cuid (l_data s)) (word_be rnd)"
      using keystream_word [OF xs(2), of c0] xs(2,3) rnd by (simp add: e(4) word_be_xor nested_nonce_def xor.commute)
    moreover have "length (frame_of e) = 4" using xs(2) rnd by (simp add: e(4))
    moreover have "snd (keystream c0 xs) = challenged (l_data s) kt b rnd" using challenged_keystream [OF xs(2,3)] by (simp add: c0_def)
    ultimately show ?thesis using e p b'(2) False xs(1)
      by (intro exI [of _ p] exI [of _ e] exI [of _ "TxCustomParity e"])
         (simp add: eqs challenge_sent_def card_cuid_def transmit_def next_handler_def flip: c0_def)
  qed
qed

text \<open>
  The second half: the reader's nonce \<open>take 4 fr\<close> went into its cipher encrypted, and the other four bytes decrypt to what the
  generator makes of the nonce of the card.
\<close>

definition after_nr :: "crypto1 \<Rightarrow> u8 list \<Rightarrow> crypto1" where
  "after_nr c fr = snd (crypto1_word c (word_be (take 4 fr)) True)"

definition answers_challenge :: "crypto1 \<Rightarrow> u8 list \<Rightarrow> u8 list \<Rightarrow> bool" where
  "answers_challenge c nt fr \<longleftrightarrow>
     word_be (take 4 (drop 4 fr)) XOR fst (crypto1_word (after_nr c fr) 0 False) = crypto1_prng_successor (word_be nt) 64"

definition answered_context :: "mf_classic_auth_context \<Rightarrow> u8 list \<Rightarrow> mf_classic_auth_context" where
  "answered_context a fr = a\<lparr>ac_nr := take 4 fr, ac_ar := take 4 (drop 4 fr)\<rparr>"

lemma auth_second_size:
  "bit_buffer_get_size_bytes rx \<noteq> 8 \<Longrightarrow> mf_classic_listener_auth_second_part_handler rnd s rx =
     Inr (MfClassicListenerCommandSleep, s\<lparr>cmd_in_progress := False\<rparr>)"
  by (simp add: mf_classic_listener_auth_second_part_handler_def)

lemma auth_second:
  fixes s rx
  defines "fr \<equiv> take 8 (bb_data rx)"
  defines "c \<equiv> snd (crypto1_word (after_nr (crypto s) fr) 0 False)"
  assumes ok: "listener_ok s" and rx: "bb_ok rx" "bit_buffer_get_size_bytes rx = 8"
  shows "\<not> answers_challenge (crypto s) (ac_nt (auth_context s)) fr \<Longrightarrow>
      \<exists>r. mf_classic_listener_auth_second_part_handler rnd s rx = Inr (MfClassicListenerCommandSleep,
        s\<lparr>cmd_in_progress := False, auth_context := answered_context (auth_context s) fr, crypto := c, reported := r\<rparr>)"
    and "answers_challenge (crypto s) (ac_nt (auth_context s)) fr \<Longrightarrow>
      \<exists>r p e at. mf_classic_listener_auth_second_part_handler rnd s rx = Inr (MfClassicListenerCommandProcessed,
        transmit (TxCustomParity e) (s\<lparr>cmd_in_progress := False, auth_context := (answered_context (auth_context s) fr)\<lparr>ac_at := at\<rparr>,
          crypto := snd (keystream c (replicate 4 0)), reported := r, tx_plain_buffer := p, tx_encrypted_buffer := e,
          l_state := MfClassicListenerStateAuthComplete, comm_state := MfClassicListenerCommStateEncrypted\<rparr>)) \<and>
        buffer_64 p \<and> buffer_64 e \<and> bb_size_bits e = 32 \<and> length at = 4 \<and>
        word_be at = crypto1_prng_successor (word_be (ac_nt (auth_context s))) 96 \<and>
        frame_of e = map2 (XOR) (fst (keystream c (replicate 4 0))) at"
proof -
  have a: "auth_ok (auth_context s)" and buf: "buffer_64 (tx_plain_buffer s)" "buffer_64 (tx_encrypted_buffer s)"
    using ok by (simp_all add: listener_ok_def)
  have fr: "take 4 (bb_data rx) = take 4 fr" "take 4 (drop 4 (bb_data rx)) = take 4 (drop 4 fr)"
    by (simp_all add: fr_def drop_take)
  have len: "8 \<le> length (bb_data rx)" using size_bytes_le [OF rx(1)] rx by (simp add: bb_ok_def)
  then have l4: "length (take 4 fr) = 4" "length (take 4 (drop 4 fr)) = 4" by (simp_all add: fr_def)
  have w: "bit_buffer_write_bytes_mid rx (ac_nr (auth_context s)) 0 4 = Inr (take 4 fr)"
    "bit_buffer_write_bytes_mid rx (ac_ar (auth_context s)) 4 4 = Inr (take 4 (drop 4 fr))"
    using write_mid_eq [OF rx(1), where n = 4] a rx(2) by (simp_all add: auth_ok_def fr)
  have nt: "length (ac_nt (auth_context s)) = 4" using a by (simp add: auth_ok_def)
  note eqs = mf_classic_listener_auth_second_part_handler_def Let_def rx(2) w bit_lib_bytes_to_num_be_word [OF l4(1)] bit_lib_bytes_to_num_be_word [OF l4(2)]
    bit_lib_bytes_to_num_be_word [OF nt] ucast_u64_back
    case_prod_beta after_nr_def answers_challenge_def answered_context_def report_def transmit_def
  show "\<exists>r. mf_classic_listener_auth_second_part_handler rnd s rx = Inr (MfClassicListenerCommandSleep,
        s\<lparr>cmd_in_progress := False, auth_context := answered_context (auth_context s) fr, crypto := c, reported := r\<rparr>)"
    if "\<not> answers_challenge (crypto s) (ac_nt (auth_context s)) fr"
    using that by (intro exI [of _ "if callback s then reported s @ [(MfClassicListenerEventTypeAuthContextPartCollected,
        answered_context (auth_context s) fr)] else reported s"])
      (auto simp: eqs c_def intro!: mf_classic_listener.equality)
  obtain at where at: "bit_lib_num_to_bytes_be (ucast (crypto1_prng_successor (word_be (ac_nt (auth_context s))) 96)) 4
      (ac_at (auth_context s)) = Inr at" "length at = 4" "word_be at = crypto1_prng_successor (word_be (ac_nt (auth_context s))) 96"
    using word_bytes [of "ac_at (auth_context s)"] a by (auto simp: auth_ok_def)
  obtain p where p: "bit_buffer_copy_bytes (tx_plain_buffer s) at 4 = Inr p" "buffer_64 p" "bb_size_bits p = 32" "frame_of p = at"
    using buffer_64_copy [OF buf(1) at(2)] by auto
  obtain e where e: "crypto1_encrypt c None p (tx_encrypted_buffer s) = Inr (snd (keystream c (replicate 4 0)), e)" "buffer_64 e"
    "bb_size_bits e = 32" "frame_of e = map2 (XOR) (fst (keystream c (replicate 4 0))) at"
    using buffer_64_encrypt [OF p(2) buf(2), where n = 4 and ks = None and ins = "replicate 4 0" and c = c] p(3,4) by auto
  show "\<exists>r p e at. mf_classic_listener_auth_second_part_handler rnd s rx = Inr (MfClassicListenerCommandProcessed,
        transmit (TxCustomParity e) (s\<lparr>cmd_in_progress := False, auth_context := (answered_context (auth_context s) fr)\<lparr>ac_at := at\<rparr>,
          crypto := snd (keystream c (replicate 4 0)), reported := r, tx_plain_buffer := p, tx_encrypted_buffer := e,
          l_state := MfClassicListenerStateAuthComplete, comm_state := MfClassicListenerCommStateEncrypted\<rparr>)) \<and>
        buffer_64 p \<and> buffer_64 e \<and> bb_size_bits e = 32 \<and> length at = 4 \<and>
        word_be at = crypto1_prng_successor (word_be (ac_nt (auth_context s))) 96 \<and>
        frame_of e = map2 (XOR) (fst (keystream c (replicate 4 0))) at"
    if "answers_challenge (crypto s) (ac_nt (auth_context s)) fr"
    using that at p e by (intro exI [of _ "if callback s then reported s @ [(MfClassicListenerEventTypeAuthContextPartCollected,
        answered_context (auth_context s) fr), (MfClassicListenerEventTypeAuthContextFullCollected,
        (answered_context (auth_context s) fr)\<lparr>ac_at := at\<rparr>)] else reported s"] exI [of _ p] exI [of _ e] exI [of _ at])
      (auto simp: eqs c_def intro!: mf_classic_listener.equality)
qed

end
