(* ===== verification/Mf_Listener_Memory.thy ===== *)
theory Mf_Listener_Memory
  imports Mf_Listener_Facts
begin

text \<open>
  What the handlers of the listener do that read and write the memory of the card, on a state that has the invariant.
\<close>

section \<open>Reading\<close>

text \<open>What a reader with a key of this type sees of a block.\<close>

definition visible :: "mf_classic_data \<Rightarrow> nat \<Rightarrow> mf_classic_key_type \<Rightarrow> mf_classic_block" where
  "visible d b kt =
     (if mf_classic_is_sector_trailer b
      then replicate 6 0 @ take 4 (drop 6 (mf_block d ! b)) @
           (if allows d b kt MfClassicActionKeyBRead then drop 10 (mf_block d ! b) else replicate 6 0)
      else mf_block d ! b)"

definition may_read :: "mf_classic_listener \<Rightarrow> nat \<Rightarrow> bool" where
  "may_read s b \<longleftrightarrow> logged_in s \<and> same_sector b (ac_block_num (auth_context s)) \<and>
     (mf_classic_is_sector_trailer b \<or> allows (l_data s) b (ac_key_type (auth_context s)) MfClassicActionDataRead)"

lemma trailer_actions:
  "mf_classic_is_sector_trailer b \<Longrightarrow> \<not> allows d b kt MfClassicActionKeyARead"
  "mf_classic_is_sector_trailer b \<Longrightarrow> allows d b kt MfClassicActionACRead"
  by (cases kt; simp add: allows_def)+

lemma length_visible: "card_ok d \<Longrightarrow> b < 256 \<Longrightarrow> length (visible d b kt) = 16"
  using card_block [of d b] by (simp add: visible_def)

lemma byte_256: "unat (x :: u8) < 256"
  using unsigned_less [of x] by simp

lemma read_rejects:
  assumes ok: "listener_ok s" and rx: "bb_ok rx" "2 \<le> bb_capacity_bytes rx" and no: "\<not> may_read s (unat (bb_data rx ! 1))"
  shows "mf_classic_listener_read_block_handler rnd s rx = Inr (MfClassicListenerCommandNack, s)"
proof -
  have card: "card_ok (l_data s)" using ok by (simp add: listener_ok_def)
  show ?thesis
    using no rx card_block [OF card byte_256 [of "bb_data rx ! 1"]]
    by (auto simp: mf_classic_listener_read_block_handler_def Let_def get_byte_eq may_read_def logged_in_def same_sector_def
        allowed_access [OF card byte_256])
qed

lemma read_answers:
  fixes s rx
  defines "b \<equiv> unat (bb_data rx ! 1)"
  assumes ok: "listener_ok s" and rx: "bb_ok rx" "2 \<le> bb_capacity_bytes rx" and yes: "may_read s b"
  shows "\<exists>p e. mf_classic_listener_read_block_handler rnd s rx = Inr (MfClassicListenerCommandProcessed,
      transmit (TxCustomParity e) (s\<lparr>tx_plain_buffer := p, crypto := snd (keystream (crypto s) (replicate 18 0)), tx_encrypted_buffer := e\<rparr>)) \<and>
    buffer_64 p \<and> buffer_64 e \<and> bb_size_bits p = 144 \<and> bb_size_bits e = 144 \<and>
    take 16 (frame_of p) = visible (l_data s) b (ac_key_type (auth_context s)) \<and> iso14443_crc_check Iso14443CrcTypeA p = Inr True \<and>
    frame_of e = map2 (XOR) (fst (keystream (crypto s) (replicate 18 0))) (frame_of p)"
proof -
  have card: "card_ok (l_data s)" and buf: "buffer_64 (tx_plain_buffer s)" "buffer_64 (tx_encrypted_buffer s)"
    using ok by (simp_all add: listener_ok_def)
  have b: "b < 256" using byte_256 by (simp add: b_def)
  define kt where "kt = ac_key_type (auth_context s)"
  define old where "old = mf_block (l_data s) ! b"
  have old: "list_get (mf_block (l_data s)) b = Inr old" "length old = 16" using card_block [OF card b] by (simp_all add: old_def)
  define v where "v = visible (l_data s) b kt"
  have v: "length v = 16" using length_visible [OF card b] by (simp add: v_def)
  have "bb_ok (tx_plain_buffer s)" "bb_ok (tx_encrypted_buffer s)" "16 + 2 \<le> bb_capacity_bytes (tx_plain_buffer s)"
    "16 + 2 \<le> bb_capacity_bytes (tx_encrypted_buffer s)" using buf by (simp_all add: buffer_64_def)
  from encrypt_with_crc [OF this(1,2) v _ this(3,4), where c = "crypto s"]
  obtain p1 p2 e where p: "bit_buffer_copy_bytes (tx_plain_buffer s) v 16 = Inr p1" "iso14443_crc_append Iso14443CrcTypeA p1 = Inr p2"
    "crypto1_encrypt (crypto s) None p2 (tx_encrypted_buffer s) = Inr (snd (keystream (crypto s) (replicate 18 0)), e)"
    "buffer_64 p2" "buffer_64 e" "bb_size_bits e = 144" "bb_size_bits p2 = 144" "take 16 (frame_of p2) = v"
    "iso14443_crc_check Iso14443CrcTypeA p2 = Inr True" "frame_of e = map2 (XOR) (fst (keystream (crypto s) (replicate 18 0))) (frame_of p2)"
    using buf by (auto simp: buffer_64_def)
  have x: "unat (bb_data rx ! Suc 0) = b" by (simp add: b_def)
  have clear: "mem_copy old 0 (replicate 6 0) 0 6 = Inr (replicate 6 0 @ drop 6 old)"
    "mem_copy (replicate 6 0 @ drop 6 old) 10 (replicate 6 0) 0 6 = Inr (replicate 6 0 @ take 4 (drop 6 old) @ replicate 6 0)"
    using old(2) by (simp_all add: mem_copy_def)
  have keep: "replicate 6 0 @ drop 6 old = replicate 6 0 @ take 4 (drop 6 old) @ drop 10 old"
    using append_take_drop_id [of 4 "drop 6 old"] by simp
  have "mf_classic_listener_read_block_handler rnd s rx = Inr (MfClassicListenerCommandProcessed,
      transmit (TxCustomParity e) (s\<lparr>tx_plain_buffer := p2, crypto := snd (keystream (crypto s) (replicate 18 0)), tx_encrypted_buffer := e\<rparr>))"
  proof (cases "mf_classic_is_sector_trailer b")
    case True
    have "v = (if allows (l_data s) b kt MfClassicActionKeyBRead then replicate 6 0 @ drop 6 old
        else replicate 6 0 @ take 4 (drop 6 old) @ replicate 6 0)" using True keep by (simp add: v_def visible_def old_def)
    then show ?thesis
      using yes rx p(1-3) clear old(1) True trailer_actions [OF True, of "l_data s" kt]
      by (cases "allows (l_data s) b kt MfClassicActionKeyBRead")
         (simp_all add: mf_classic_listener_read_block_handler_def Let_def get_byte_eq may_read_def logged_in_def same_sector_def
          allowed_access [OF card b] clear_field_def x flip: kt_def)
  next
    case False
    then have "v = old" by (simp add: v_def visible_def old_def)
    then show ?thesis
      using yes rx p(1-3) old(1) False
      by (simp add: mf_classic_listener_read_block_handler_def Let_def get_byte_eq may_read_def logged_in_def same_sector_def
          allowed_access [OF card b] x flip: kt_def)
  qed
  then show ?thesis using p by (auto simp: v_def kt_def)
qed

section \<open>Writing\<close>

definition may_write :: "mf_classic_data \<Rightarrow> nat \<Rightarrow> mf_classic_key_type \<Rightarrow> bool" where
  "may_write d b kt \<longleftrightarrow>
     (if mf_classic_is_sector_trailer b
      then allows d b kt MfClassicActionKeyAWrite \<or> allows d b kt MfClassicActionKeyBWrite \<or> allows d b kt MfClassicActionACWrite
      else allows d b kt MfClassicActionDataWrite)"

text \<open>The block after a write of the 16 bytes \<open>x\<close>: of a trailer, only the parts that may be written_block.\<close>

definition written_block :: "mf_classic_data \<Rightarrow> nat \<Rightarrow> mf_classic_key_type \<Rightarrow> u8 list \<Rightarrow> mf_classic_block" where
  "written_block d b kt x =
     (let old = mf_block d ! b in
      if mf_classic_is_sector_trailer b
      then sec_tr_key_a (if allows d b kt MfClassicActionKeyAWrite then x else old) @
           sec_tr_access_bits (if allows d b kt MfClassicActionACWrite then x else old) @
           sec_tr_key_b (if allows d b kt MfClassicActionKeyBWrite then x else old)
      else x)"

definition store :: "mf_classic_data \<Rightarrow> nat \<Rightarrow> mf_classic_block \<Rightarrow> mf_classic_data" where
  "store d b v = d\<lparr>mf_block := (mf_block d)[b := v]\<rparr>"

lemma store_ok: "card_ok d \<Longrightarrow> length v = 16 \<Longrightarrow> card_ok (store d b v)"
  by (auto simp: card_ok_def store_def dest: subsetD [OF set_update_subset_insert])

lemma store_type [simp]: "mf_type (store d b v) = mf_type d" "iso14443_3a_data (store d b v) = iso14443_3a_data d"
  by (simp_all add: store_def)

lemma write_field_eq:
  assumes "bb_ok rx" and "bit_buffer_get_size_bytes rx = 16" and "length b = 16" and "off + n \<le> 16"
  shows "write_field allowed rx off n b =
    Inr (if allowed then take off b @ take n (drop off (bb_data rx)) @ drop (off + n) b else b)"
proof -
  have "16 \<le> length (bb_data rx)" using size_bytes_le [OF assms(1)] assms(1,2) by (simp add: bb_ok_def)
  then show ?thesis using assms write_mid_eq [OF assms(1), of "take n (drop off b)" n off]
    by (simp add: write_field_def mem_copy_def)
qed

lemma write_second:
  fixes s rx
  defines "b \<equiv> write_block s" and "kt \<equiv> ac_key_type (auth_context s)" and "x \<equiv> take 16 (bb_data rx)"
  assumes ok: "listener_ok s" and rx: "bb_ok rx" and b: "b < 256"
  shows "mf_classic_listener_write_block_second_part_handler rnd s rx =
    (if bit_buffer_get_size_bytes rx = 16 \<and> may_write (l_data s) b kt
     then Inr (MfClassicListenerCommandAck, s\<lparr>cmd_in_progress := False, l_data := store (l_data s) b (written_block (l_data s) b kt x)\<rparr>)
     else Inr (MfClassicListenerCommandNack, s\<lparr>cmd_in_progress := False\<rparr>))"
proof (cases "bit_buffer_get_size_bytes rx = 16")
  case True
  have card: "card_ok (l_data s)" using ok by (simp add: listener_ok_def)
  define old where "old = mf_block (l_data s) ! b"
  have old: "list_get (mf_block (l_data s)) b = Inr old" "length old = 16" using card_block [OF card b] by (simp_all add: old_def)
  have lx: "length x = 16" using size_bytes_le [OF rx] rx True by (simp add: bb_ok_def x_def)
  have put: "list_set (mf_block (l_data s)) b v = Inr ((mf_block (l_data s))[b := v])" for v
    using card b by (simp add: card_ok_def list_set_def)
  have pieces: "take 6 (bb_data rx) = take 6 x" "take 6 (drop 10 (bb_data rx)) = drop 10 x" "take 4 (drop 6 (bb_data rx)) = take 4 (drop 6 x)"
    by (simp_all add: x_def drop_take)
  have w: "write_field a rx 0 6 y = Inr (take 6 (if a then x else y) @ drop 6 y)"
    "write_field a rx 10 6 y = Inr (take 10 y @ drop 10 (if a then x else y))"
    "write_field a rx 6 4 y = Inr (take 6 y @ take 4 (drop 6 (if a then x else y)) @ drop 10 y)"
    "write_field a rx 0 16 y = Inr (if a then x else y)" if "length y = 16" for a y
    using write_field_eq [OF rx True that, of 0 6 a] write_field_eq [OF rx True that, of 10 6 a]
      write_field_eq [OF rx True that, of 6 4 a] write_field_eq [OF rx True that, of 0 16 a] that pieces
      append_take_drop_id [of 4 "drop 6 y"] by (auto simp: x_def)
  show ?thesis
  proof (cases "mf_classic_is_sector_trailer b")
    case False
    show ?thesis using True False old put w
      by (cases "allows (l_data s) b kt MfClassicActionDataWrite")
         (simp_all add: mf_classic_listener_write_block_second_part_handler_def Let_def may_write_def written_block_def store_def
          allowed_access [OF card b] flip: b_def kt_def)
  next
    case trailer: True
    define a1 a2 a3 where "a1 = allows (l_data s) b kt MfClassicActionKeyAWrite" and "a2 = allows (l_data s) b kt MfClassicActionKeyBWrite"
      and "a3 = allows (l_data s) b kt MfClassicActionACWrite"
    have "written_block (l_data s) b kt x = take 6 (if a1 then x else old) @ take 4 (drop 6 (if a3 then x else old)) @ drop 10 (if a2 then x else old)"
      using trailer lx old(2) by (simp add: written_block_def Let_def a1_def a2_def a3_def sec_tr_key_a_def sec_tr_access_bits_def sec_tr_key_b_def flip: old_def)
    moreover have "bindr (write_field a1 rx 0 6 old) (\<lambda>b. bindr (write_field a2 rx 10 6 b) (\<lambda>b. bindr (write_field a3 rx 6 4 b) f)) =
        f (take 6 (if a1 then x else old) @ take 4 (drop 6 (if a3 then x else old)) @ drop 10 (if a2 then x else old))" for f
      using w(1) [OF old(2)] w(2,3) lx old(2) by (cases a1; cases a2; cases a3) (simp_all add: drop_take)
    ultimately show ?thesis using True trailer old put
      by (cases a1; cases a2; cases a3) (simp_all add: mf_classic_listener_write_block_second_part_handler_def Let_def may_write_def
          store_def bindr_assoc allowed_access [OF card b] flip: b_def kt_def a1_def a2_def a3_def)
  qed
qed (simp add: mf_classic_listener_write_block_second_part_handler_def)

end
