(* ===== verification/Mf_Listener_Run.thy ===== *)
theory Mf_Listener_Run
  imports Mf_Listener_Memory
begin

text \<open>
  The handlers of the listener that are left, the dispatch of a frame to a handler, and the listener over any sequence of
  frames: the invariant, the faults, the changes of the memory and the way into a session.
\<close>

section \<open>Values\<close>

lemma is_int32_sint: "is_int32 (sint (w :: u32))"
  using sint_greater_eq [of w] sint_less [of w] by (simp add: is_int32_def)

lemma int32_eq: "int32 x = (if is_int32 x then Inr x else Inl UndefinedArith)"
  by (simp add: int32_def is_int32_def)

lemma write_first:
  fixes s rx
  defines "b \<equiv> unat (bb_data rx ! 1)"
  assumes ok: "listener_ok s" and rx: "bb_ok rx" "2 \<le> bb_capacity_bytes rx"
  shows "mf_classic_listener_write_block_first_part_handler rnd s rx =
    (if logged_in s \<and> 0 < b \<and> b < total_blocks s \<and> same_sector b (ac_block_num (auth_context s))
     then Inr (MfClassicListenerCommandAck, next_handler (s\<lparr>write_block := b\<rparr>)) else Inr (MfClassicListenerCommandNack, s))"
  using assms by (auto simp: mf_classic_listener_write_block_first_part_handler_def Let_def get_byte_eq logged_in_def same_sector_def listener_ok_def)

definition value_ready :: "mf_classic_listener \<Rightarrow> u8 \<Rightarrow> nat \<Rightarrow> mf_classic_value_command \<Rightarrow> int \<Rightarrow> bool" where
  "value_ready s cmd b v t \<longleftrightarrow> logged_in s \<and> b < total_blocks s \<and> same_sector b (ac_block_num (auth_context s)) \<and>
     (\<exists>action addr. value_command cmd = Some (v, action) \<and> allows (l_data s) b (ac_key_type (auth_context s)) action \<and>
       mf_classic_block_to_value (mf_block (l_data s) ! b) = (True, t, addr))"

lemma value_cmd:
  fixes s rx
  defines "b \<equiv> unat (bb_data rx ! 1)"
  assumes ok: "listener_ok s" and rx: "bb_ok rx" "2 \<le> bb_capacity_bytes rx"
  shows "(\<exists>v t. value_ready s (bb_data rx ! 0) b v t \<and> mf_classic_listener_value_cmd_handler rnd s rx =
        Inr (MfClassicListenerCommandAck, next_handler (s\<lparr>value_cmd := v, transfer_value := t, transfer_valid := True\<rparr>))) \<or>
    (\<exists>v t. is_int32 t \<and> (\<nexists>v t. value_ready s (bb_data rx ! 0) b v t) \<and> mf_classic_listener_value_cmd_handler rnd s rx =
        Inr (MfClassicListenerCommandNack, s\<lparr>value_cmd := v, transfer_value := t\<rparr>))"
proof -
  have card: "card_ok (l_data s)" and t: "is_int32 (transfer_value s)" "total_block_num s = total_blocks s" using ok by (simp_all add: listener_ok_def)
  have b: "b < 256" using byte_256 by (simp add: b_def)
  have x: "unat (bb_data rx ! Suc 0) = b" by (simp add: b_def)
  have nochange: "s = s\<lparr>value_cmd := value_cmd s, transfer_value := transfer_value s\<rparr>" by simp
  define old where "old = mf_block (l_data s) ! b"
  have old: "list_get (mf_block (l_data s)) b = Inr old" using card_block [OF card b] by (simp add: old_def)
  obtain q a and w :: u32 where val: "mf_classic_block_to_value old = (q, sint w, a)"
    using that [where w = "word_at old 0"] by (simp add: mf_classic_block_to_value_def Let_def)
  note eqs = mf_classic_listener_value_cmd_handler_def get_byte_eq [OF rx(1)] x value_ready_def logged_in_def same_sector_def t(2)
    allowed_access [OF card b]
  show ?thesis
  proof (cases "logged_in s \<and> b < total_blocks s \<and> same_sector b (ac_block_num (auth_context s)) \<and> value_command (bb_data rx ! 0) \<noteq> None")
    case True
    then obtain v action where v: "value_command (bb_data rx ! 0) = Some (v, action)" by auto
    define c where "c = allows (l_data s) b (ac_key_type (auth_context s)) action"
    define u where "u = (if c then sint w else transfer_value s)"
    have u: "is_int32 u" using t(1) is_int32_sint [of w] by (simp add: u_def)
    have "mf_classic_listener_value_cmd_handler rnd s rx =
      (if c \<and> q then Inr (MfClassicListenerCommandAck, next_handler (s\<lparr>value_cmd := v, transfer_value := sint w, transfer_valid := True\<rparr>))
       else Inr (MfClassicListenerCommandNack, s\<lparr>value_cmd := v, transfer_value := u\<rparr>))"
      using True v val old rx(2) by (cases c; cases q) (auto simp: eqs Let_def c_def u_def intro!: mf_classic_listener.equality)
    moreover have "value_ready s (bb_data rx ! 0) b v' t' \<longleftrightarrow> c \<and> q \<and> v' = v \<and> t' = sint w" for v' t'
      using True v val by (auto simp: value_ready_def c_def old_def)
    ultimately show ?thesis using u by (cases "c \<and> q") (simp, simp only: if_False, blast)
  next
    case False
    then have "mf_classic_listener_value_cmd_handler rnd s rx = Inr (MfClassicListenerCommandNack, s)"
      using rx(2) by (auto simp: eqs Let_def split: option.splits)
    moreover have "\<not> value_ready s (bb_data rx ! 0) b v t" for v t using False by (auto simp: value_ready_def)
    ultimately show ?thesis using t(1) nochange by metis
  qed
qed

text \<open>What a value changes by.\<close>

definition delta :: "mf_classic_value_command \<Rightarrow> int \<Rightarrow> int" where
  "delta v x = (if v = MfClassicValueCommandDecrement then - \<bar>x\<bar> else if v = MfClassicValueCommandRestore then 0 else \<bar>x\<bar>)"

definition operand :: "bit_buffer \<Rightarrow> int" where
  "operand rx = sint (word_at (take 4 (bb_data rx)) 0)"

definition overflows :: "mf_classic_listener \<Rightarrow> bit_buffer \<Rightarrow> bool" where
  "overflows s rx \<longleftrightarrow> operand rx = - (2 ^ 31) \<or> \<not> is_int32 (transfer_value s + delta (value_cmd s) (operand rx))"

lemma data_receive:
  assumes "bb_ok rx"
  shows "mf_classic_listener_value_data_receive_handler rnd s rx =
    (if bit_buffer_get_size_bytes rx \<noteq> 4 then Inr (MfClassicListenerCommandNack, s)
     else if overflows s rx then Inl UndefinedArith
     else Inr (MfClassicListenerCommandSilent, next_handler (s\<lparr>transfer_value := transfer_value s + delta (value_cmd s) (operand rx), transfer_valid := True\<rparr>)))"
proof (cases "bit_buffer_get_size_bytes rx = 4")
  case True
  then have "bit_buffer_write_bytes_mid rx (replicate 4 0) 0 4 = Inr (take 4 (bb_data rx))"
    using write_mid_eq [OF assms, of "replicate 4 0" 4 0] by simp
  moreover have "is_int32 (operand rx)" using is_int32_sint by (simp add: operand_def)
  ultimately show ?thesis using True
    by (auto simp: mf_classic_listener_value_data_receive_handler_def Let_def int32_eq overflows_def delta_def is_int32_def
        simp flip: operand_def)
qed (simp add: mf_classic_listener_value_data_receive_handler_def)

definition may_transfer :: "mf_classic_listener \<Rightarrow> bit_buffer \<Rightarrow> bool" where
  "may_transfer s rx \<longleftrightarrow> bit_buffer_get_size_bytes rx = 2 \<and> bb_data rx ! 0 = MF_CLASSIC_CMD_VALUE_TRANSFER \<and>
     allows (l_data s) (unat (bb_data rx ! 1)) (ac_key_type (auth_context s)) MfClassicActionDataDec"

lemma transfer_handler:
  assumes ok: "listener_ok s" and rx: "bb_ok rx"
  shows "mf_classic_listener_value_transfer_handler rnd s rx =
    (if may_transfer s rx
     then Inr (MfClassicListenerCommandAck, s\<lparr>cmd_in_progress := False, transfer_value := 0, transfer_valid := False,
       l_data := store (l_data s) (unat (bb_data rx ! 1)) (mf_classic_value_to_block (transfer_value s) (bb_data rx ! 1))\<rparr>)
     else Inr (MfClassicListenerCommandNack, s\<lparr>cmd_in_progress := False\<rparr>))"
proof (cases "bit_buffer_get_size_bytes rx = 2")
  case True
  have card: "card_ok (l_data s)" using ok by (simp add: listener_ok_def)
  have cap: "1 < bb_capacity_bytes rx" using size_bytes_le [OF rx] True by simp
  have put: "list_set (mf_block (l_data s)) (unat (x :: u8)) v = Inr ((mf_block (l_data s))[unat x := v])" for x v
    using card byte_256 [of x] by (simp add: card_ok_def list_set_def)
  show ?thesis using True cap
    by (simp add: mf_classic_listener_value_transfer_handler_def Let_def get_byte_eq [OF rx] may_transfer_def
        allowed_access [OF card byte_256] put store_def)
qed (simp add: mf_classic_listener_value_transfer_handler_def may_transfer_def)

end
