(* ===== verification/Mf_Listener_Steps.thy ===== *)
theory Mf_Listener_Steps
  imports Mf_Listener_Run
begin

text \<open>
  The listener over any sequence of frames: the handler a frame goes to, the invariant, the faults, the changes of the
  memory and the way into a session.
\<close>

section \<open>Dispatch\<close>

definition command_of :: "nat \<Rightarrow> u8 \<Rightarrow> nat option" where
  "command_of n b =
     (if n = 15 then (if b = 0x50 then Some 1 else None)
      else if n = 16 then
        (if b = 0x50 then Some 0 else if b = 0x60 then Some 2 else if b = 0x61 then Some 3 else if b = 0x30 then Some 4
         else if b = 0xA0 then Some 5 else if b = 0xC0 then Some 6 else if b = 0xC1 then Some 7 else if b = 0xC2 then Some 8 else None)
      else None)"

lemmas command_bytes = MF_CLASSIC_CMD_AUTH_KEY_A_def MF_CLASSIC_CMD_AUTH_KEY_B_def MF_CLASSIC_CMD_READ_BLOCK_def
  MF_CLASSIC_CMD_WRITE_BLOCK_def MF_CLASSIC_CMD_VALUE_DEC_def MF_CLASSIC_CMD_VALUE_INC_def MF_CLASSIC_CMD_VALUE_RESTORE_def
  MF_CLASSIC_CMD_HALT_MSB_def MF_CLASSIC_CMD_HALT_LSB_def

lemma find_command_eq:
  assumes "bb_ok rx"
  shows "find_command mf_classic_listener_cmd_handlers 0 rx = Inr (command_of (bb_size_bits rx) (bb_data rx ! 0))"
proof -
  have g: "bit_buffer_get_byte rx 0 = Inr (bb_data rx ! 0)" if "15 \<le> bb_size_bits rx"
    using get_byte_eq [OF assms, of 0] assms that by (simp add: bb_ok_def)
  consider "bb_size_bits rx = 15" | "bb_size_bits rx = 16" | "bb_size_bits rx \<noteq> 15" "bb_size_bits rx \<noteq> 16" by blast
  then show ?thesis
    by cases (simp_all add: mf_classic_listener_cmd_handlers_def command_of_def bit_buffer_get_size_def g command_bytes)
qed

definition starters :: "handler list" where
  "starters = [mf_classic_listener_halt_handler, mf_classic_listener_halt_handler, mf_classic_listener_auth_key_a_handler,
     mf_classic_listener_auth_key_b_handler, mf_classic_listener_read_block_handler, mf_classic_listener_write_block_first_part_handler,
     mf_classic_listener_value_cmd_handler, mf_classic_listener_value_cmd_handler, mf_classic_listener_value_cmd_handler]"

lemma value_handlers:
  "mf_classic_listener_value_dec_handler = mf_classic_listener_value_cmd_handler"
  "mf_classic_listener_value_inc_handler = mf_classic_listener_value_cmd_handler"
  "mf_classic_listener_value_restore_handler = mf_classic_listener_value_cmd_handler"
  by (intro ext; simp add: mf_classic_listener_value_dec_handler_def mf_classic_listener_value_inc_handler_def
      mf_classic_listener_value_restore_handler_def)+

lemma command_of_less: "command_of n b = Some i \<Longrightarrow> i < 9 \<and> (n = 15 \<or> n = 16)"
  by (auto simp: command_of_def split: if_splits)

lemma handle_first:
  assumes "bb_ok rx" and "\<not> cmd_in_progress s"
  shows "handle_command rnd s rx = (case command_of (bb_size_bits rx) (bb_data rx ! 0) of
    None \<Rightarrow> Inr (MfClassicListenerCommandNack, s)
  | Some i \<Rightarrow> (starters ! i) rnd (s\<lparr>current_cmd_idx := i, current_cmd_handler_idx := 0\<rparr>) rx)"
proof (cases "command_of (bb_size_bits rx) (bb_data rx ! 0)")
  case (Some i)
  then have "i \<in> {0, 1, 2, 3, 4, 5, 6, 7, 8}" using command_of_less [OF Some] by auto
  then show ?thesis using Some assms(2) find_command_eq [OF assms(1)]
    by (auto simp: handle_command_def mf_classic_listener_cmd_handlers_def starters_def list_get_def value_handlers)
qed (use assms find_command_eq [OF assms(1)] in \<open>simp add: handle_command_def\<close>)

lemma handle_pending:
  assumes "cmd_in_progress s" and "pending s"
  shows "(\<not> logged_in s \<and> handle_command rnd s rx = mf_classic_listener_auth_second_part_handler rnd s rx) \<or>
    (logged_in s \<and> current_cmd_idx s = 5 \<and> handle_command rnd s rx = mf_classic_listener_write_block_second_part_handler rnd s rx) \<or>
    (logged_in s \<and> current_cmd_idx s \<in> {6, 7, 8} \<and> current_cmd_handler_idx s = 1 \<and>
       handle_command rnd s rx = mf_classic_listener_value_data_receive_handler rnd s rx) \<or>
    (logged_in s \<and> current_cmd_idx s \<in> {6, 7, 8} \<and> current_cmd_handler_idx s = 2 \<and>
       handle_command rnd s rx = mf_classic_listener_value_transfer_handler rnd s rx)"
  using assms by (auto simp: pending_def handle_command_def mf_classic_listener_cmd_handlers_def list_get_def)

section \<open>One command\<close>

definition login :: "mf_classic_listener \<Rightarrow> bit_buffer \<Rightarrow> bool" where
  "login s x \<longleftrightarrow> cmd_in_progress s \<and> \<not> logged_in s \<and> bit_buffer_get_size_bytes x = 8 \<and>
     (let a = auth_context s in
      answers_challenge (challenged (l_data s) (ac_key_type a) (ac_block_num a) (ac_nt a)) (ac_nt a) (take 8 (bb_data x)))"

text \<open>The two ways to change the memory: a write, and the transfer of a value.\<close>

definition writes :: "mf_classic_listener \<Rightarrow> bit_buffer \<Rightarrow> nat \<Rightarrow> mf_classic_block \<Rightarrow> bool" where
  "writes s x b v \<longleftrightarrow> logged_in s \<and> 0 < b \<and> b < total_blocks s \<and> same_sector b (ac_block_num (auth_context s)) \<and>
     bit_buffer_get_size_bytes x = 16 \<and> may_write (l_data s) b (ac_key_type (auth_context s)) \<and>
     v = written_block (l_data s) b (ac_key_type (auth_context s)) (take 16 (bb_data x))"

definition transfers :: "mf_classic_listener \<Rightarrow> bit_buffer \<Rightarrow> nat \<Rightarrow> mf_classic_block \<Rightarrow> bool" where
  "transfers s x b v \<longleftrightarrow> logged_in s \<and> current_cmd_idx s \<in> {6, 7, 8} \<and> current_cmd_handler_idx s = 2 \<and>
     may_transfer s x \<and> b = unat (bb_data x ! 1) \<and> v = mf_classic_value_to_block (transfer_value s) (bb_data x ! 1)"

definition memory_step :: "mf_classic_listener \<Rightarrow> bit_buffer \<Rightarrow> mf_classic_data \<Rightarrow> bool" where
  "memory_step s x d \<longleftrightarrow> d = l_data s \<or>
     (\<exists>b v. d = store (l_data s) b v \<and> cmd_in_progress s \<and> (writes s x b v \<or> transfers s x b v))"

definition good_step :: "mf_classic_listener \<Rightarrow> bit_buffer \<Rightarrow> mf_classic_listener_command \<Rightarrow> mf_classic_listener \<Rightarrow> bool" where
  "good_step s x cmd s' \<longleftrightarrow> listener_ok s' \<and> memory_step s x (l_data s') \<and> (logged_in s' \<longrightarrow> logged_in s \<or> login s x) \<and>
     (cmd = MfClassicListenerCommandAck \<longrightarrow> logged_in s')"

lemma length_written_block: "card_ok d \<Longrightarrow> b < 256 \<Longrightarrow> length x = 16 \<Longrightarrow> length (written_block d b kt x) = 16"
  using card_block [of d b] by (simp add: written_block_def Let_def sec_tr_key_a_def sec_tr_access_bits_def sec_tr_key_b_def)

lemmas listener_simps = good_step_def memory_step_def listener_ok_def next_handler_def transmit_def total_blocks_def logged_in_def pending_def

lemma begun_ok: "listener_ok s \<Longrightarrow> \<not> cmd_in_progress s \<Longrightarrow> listener_ok (s\<lparr>current_cmd_idx := i, current_cmd_handler_idx := 0\<rparr>)"
  by (simp add: listener_simps)

lemma same_good:
  "listener_ok s \<Longrightarrow> \<not> cmd_in_progress s \<Longrightarrow> c \<noteq> MfClassicListenerCommandAck \<Longrightarrow> good_step s x c (s\<lparr>current_cmd_idx := i, current_cmd_handler_idx := 0\<rparr>)"
  by (simp add: listener_simps)

lemma auth_good:
  assumes ok: "listener_ok s" and rnd: "length rnd = 4" and i: "current_cmd_idx s \<in> {2, 3}" "current_cmd_handler_idx s = 0" "\<not> cmd_in_progress s"
  shows "\<exists>cmd s'. mf_classic_listener_auth_first_part_handler rnd s kt b = Inr (cmd, s') \<and> good_step s x cmd s'"
proof (cases "b < total_blocks s")
  case True
  obtain p e f where "mf_classic_listener_auth_first_part_handler rnd s kt b = Inr (MfClassicListenerCommandProcessed,
      next_handler (transmit f (s\<lparr>l_state := MfClassicListenerStateIdle, tx_plain_buffer := p, tx_encrypted_buffer := e,
        crypto := challenged (l_data s) kt b rnd,
        auth_context := (auth_context s)\<lparr>ac_key_type := kt, ac_block_num := b, ac_nt := rnd\<rparr>\<rparr>)))" "buffer_64 p" "buffer_64 e"
    using auth_first [OF ok rnd True] by blast
  then show ?thesis using ok rnd i True by (auto simp: listener_simps auth_ok_def)
next
  case False
  then show ?thesis using auth_first_rejects [OF ok] ok i by (auto simp: listener_simps)
qed

lemma auth_second_good:
  assumes ok: "listener_ok s" and p: "cmd_in_progress s" "\<not> logged_in s" and x: "bb_ok x"
  shows "\<exists>cmd s'. mf_classic_listener_auth_second_part_handler rnd s x = Inr (cmd, s') \<and> good_step s x cmd s'"
proof -
  have pend: "ac_block_num (auth_context s) < total_blocks s"
    "crypto s = challenged (l_data s) (ac_key_type (auth_context s)) (ac_block_num (auth_context s)) (ac_nt (auth_context s))"
    using ok p by (auto simp: listener_ok_def pending_def)
  have l: "length (take 4 (take 8 (bb_data x))) = 4 \<and> length (take 4 (drop 4 (take 8 (bb_data x)))) = 4" if "bit_buffer_get_size_bytes x = 8"
    using size_bytes_le [OF x] x that by (simp add: bb_ok_def)
  show ?thesis
  proof (cases "bit_buffer_get_size_bytes x = 8")
    case False
    then show ?thesis using auth_second_size [OF False] ok by (auto simp: listener_simps)
  next
    case True
    show ?thesis
    proof (cases "answers_challenge (crypto s) (ac_nt (auth_context s)) (take 8 (bb_data x))")
      case no: False
      from auth_second(1) [OF ok x True no, of rnd] obtain r s' where r:
        "mf_classic_listener_auth_second_part_handler rnd s x = Inr (MfClassicListenerCommandSleep, s')"
        "s' = s\<lparr>cmd_in_progress := False, auth_context := answered_context (auth_context s) (take 8 (bb_data x)),
           crypto := snd (crypto1_word (after_nr (crypto s) (take 8 (bb_data x))) 0 False), reported := r\<rparr>" by blast
      have "good_step s x MfClassicListenerCommandSleep s'"
        using ok p l [OF True] by (simp add: r(2) listener_simps answered_context_def auth_ok_def)
      then show ?thesis using r(1) by blast
    next
      case yes: True
      then have "login s x" using True p pend by (simp add: login_def Let_def)
      moreover from auth_second(2) [OF ok x True yes, of rnd] obtain r p e at s' where r:
        "mf_classic_listener_auth_second_part_handler rnd s x = Inr (MfClassicListenerCommandProcessed, transmit (TxCustomParity e) s')"
        "s' = s\<lparr>cmd_in_progress := False, auth_context := (answered_context (auth_context s) (take 8 (bb_data x)))\<lparr>ac_at := at\<rparr>,
          crypto := snd (keystream (snd (crypto1_word (after_nr (crypto s) (take 8 (bb_data x))) 0 False)) (replicate 4 0)), reported := r,
          tx_plain_buffer := p, tx_encrypted_buffer := e,
          l_state := MfClassicListenerStateAuthComplete, comm_state := MfClassicListenerCommStateEncrypted\<rparr>"
        "buffer_64 p" "buffer_64 e" "length at = 4" by blast
      ultimately have "good_step s x MfClassicListenerCommandProcessed (transmit (TxCustomParity e) s')"
        using ok l [OF True] pend(1) by (simp add: r(2) listener_simps answered_context_def auth_ok_def)
      then show ?thesis using r(1) by blast
    qed
  qed
qed

lemma halt_good:
  assumes ok: "listener_ok s" "\<not> cmd_in_progress s" and x: "bb_ok x" "2 \<le> bb_capacity_bytes x"
  shows "\<exists>cmd s'. mf_classic_listener_halt_handler rnd s x = Inr (cmd, s') \<and> good_step s x cmd s'"
  using assms by (auto simp: mf_classic_listener_halt_handler_def get_byte_eq listener_simps)

lemma read_good:
  assumes ok: "listener_ok s" "\<not> cmd_in_progress s" and x: "bb_ok x" "2 \<le> bb_capacity_bytes x"
  shows "\<exists>cmd s'. mf_classic_listener_read_block_handler rnd s x = Inr (cmd, s') \<and> good_step s x cmd s'"
proof (cases "may_read s (unat (bb_data x ! 1))")
  case True
  from read_answers [OF ok(1) x True, of rnd] obtain p e where
    "mf_classic_listener_read_block_handler rnd s x = Inr (MfClassicListenerCommandProcessed,
      transmit (TxCustomParity e) (s\<lparr>tx_plain_buffer := p, crypto := snd (keystream (crypto s) (replicate 18 0)), tx_encrypted_buffer := e\<rparr>))"
    "buffer_64 p" "buffer_64 e" by blast
  then show ?thesis using ok by (auto simp: listener_simps)
next
  case False
  then show ?thesis using read_rejects [OF ok(1) x False] ok by (auto simp: listener_simps)
qed

lemma write_first_good:
  assumes ok: "listener_ok s" "\<not> cmd_in_progress s" and x: "bb_ok x" "2 \<le> bb_capacity_bytes x"
    and i: "current_cmd_idx s = 5" "current_cmd_handler_idx s = 0"
  shows "\<exists>cmd s'. mf_classic_listener_write_block_first_part_handler rnd s x = Inr (cmd, s') \<and> good_step s x cmd s'"
  using assms by (auto simp: write_first listener_simps)

lemma value_good:
  assumes ok: "listener_ok s" "\<not> cmd_in_progress s" and x: "bb_ok x" "2 \<le> bb_capacity_bytes x"
    and i: "current_cmd_idx s \<in> {6, 7, 8}" "current_cmd_handler_idx s = 0"
  shows "\<exists>cmd s'. mf_classic_listener_value_cmd_handler rnd s x = Inr (cmd, s') \<and> good_step s x cmd s'"
proof -
  let ?b = "unat (bb_data x ! 1)"
  have value32: "is_int32 t" if "value_ready s (bb_data x ! 0) ?b v t" for v t
    using that is_int32_sint by (auto simp: value_ready_def mf_classic_block_to_value_def Let_def)
  from value_cmd [OF ok(1) x, of rnd] show ?thesis
  proof (elim disjE exE conjE)
    fix v t assume r: "value_ready s (bb_data x ! 0) ?b v t"
      and "mf_classic_listener_value_cmd_handler rnd s x =
        Inr (MfClassicListenerCommandAck, next_handler (s\<lparr>value_cmd := v, transfer_value := t, transfer_valid := True\<rparr>))"
    then show ?thesis using ok i value32 [OF r] by (auto simp: listener_simps value_ready_def)
  qed (use ok in \<open>auto simp: listener_simps\<close>)
qed

lemma handle_first_good:
  assumes ok: "listener_ok s" "\<not> cmd_in_progress s" and x: "bb_ok x" and rnd: "length rnd = 4"
  shows "\<exists>cmd s'. handle_command rnd s x = Inr (cmd, s') \<and> good_step s x cmd s'"
proof (cases "command_of (bb_size_bits x) (bb_data x ! 0)")
  case None
  then show ?thesis using handle_first [OF x ok(2), of rnd] ok by (auto simp: listener_simps)
next
  case (Some i)
  define s0 where "s0 = s\<lparr>current_cmd_idx := i, current_cmd_handler_idx := 0\<rparr>"
  have i: "i \<in> {0, 1, 2, 3, 4, 5, 6, 7, 8}" and cap: "2 \<le> bb_capacity_bytes x"
    using command_of_less [OF Some] x by (auto simp: bb_ok_def)
  have ok0: "listener_ok s0" "\<not> cmd_in_progress s0" "current_cmd_idx s0 = i" "current_cmd_handler_idx s0 = 0"
    using begun_ok [OF ok] ok(2) by (simp_all add: s0_def)
  have h: "handle_command rnd s x = (starters ! i) rnd s0 x" using handle_first [OF x ok(2), of rnd] Some by (simp add: s0_def)
  have good: "good_step s0 x cmd s' \<Longrightarrow> good_step s x cmd s'" for cmd s'
    using ok(2) by (simp add: good_step_def memory_step_def logged_in_def login_def s0_def)
  have "\<exists>cmd s'. (starters ! i) rnd s0 x = Inr (cmd, s') \<and> good_step s0 x cmd s'"
    using i halt_good [OF ok0(1,2) x cap, of rnd] read_good [OF ok0(1,2) x cap, of rnd] write_first_good [OF ok0(1,2) x cap _ ok0(4), of rnd]
      value_good [OF ok0(1,2) x cap _ ok0(4), of rnd] auth_good [OF ok0(1) rnd _ ok0(4,2)] get_byte_eq [OF x, of 1] cap ok0(3)
    by (elim insertE emptyE; simp add: starters_def mf_classic_listener_auth_key_a_handler_def mf_classic_listener_auth_key_b_handler_def)
  then show ?thesis using h good by metis
qed

lemma write_second_good:
  assumes ok: "listener_ok s" and p: "cmd_in_progress s" "logged_in s" "current_cmd_idx s = 5" and x: "bb_ok x"
  shows "\<exists>cmd s'. mf_classic_listener_write_block_second_part_handler rnd s x = Inr (cmd, s') \<and> good_step s x cmd s'"
proof -
  let ?v = "written_block (l_data s) (write_block s) (ac_key_type (auth_context s)) (take 16 (bb_data x))"
  have w: "0 < write_block s" "write_block s < total_blocks s" "same_sector (write_block s) (ac_block_num (auth_context s))"
    and card: "card_ok (l_data s)"
    using ok p by (auto simp: listener_ok_def pending_def)
  have b: "write_block s < 256" using w(2) total_blocks_256 [of s] by simp
  have v: "length ?v = 16" if "bit_buffer_get_size_bytes x = 16"
    using length_written_block [OF card b] size_bytes_le [OF x] x that by (simp add: bb_ok_def)
  show ?thesis
  proof (cases "bit_buffer_get_size_bytes x = 16 \<and> may_write (l_data s) (write_block s) (ac_key_type (auth_context s))")
    case True
    define s' where "s' = s\<lparr>cmd_in_progress := False, l_data := store (l_data s) (write_block s) ?v\<rparr>"
    have "writes s x (write_block s) ?v" using True p w by (simp add: writes_def)
    then have "memory_step s x (l_data s')" using p(1) unfolding memory_step_def s'_def by auto
    moreover have "listener_ok s'" using ok store_ok [OF card v] True by (simp add: listener_ok_def s'_def total_blocks_def logged_in_def)
    ultimately have "good_step s x MfClassicListenerCommandAck s'" using p(2) by (simp add: good_step_def s'_def logged_in_def)
    then show ?thesis using write_second [OF ok x b, of rnd] True by (simp add: s'_def)
  next
    case False
    then show ?thesis using write_second [OF ok x b, of rnd] ok p(2) by (auto simp: listener_simps)
  qed
qed

lemma transfer_good:
  assumes ok: "listener_ok s" and p: "cmd_in_progress s" "logged_in s" "current_cmd_idx s \<in> {6, 7, 8}" "current_cmd_handler_idx s = 2"
    and x: "bb_ok x"
  shows "\<exists>cmd s'. mf_classic_listener_value_transfer_handler rnd s x = Inr (cmd, s') \<and> good_step s x cmd s'"
proof (cases "may_transfer s x")
  case True
  let ?v = "mf_classic_value_to_block (transfer_value s) (bb_data x ! 1)"
  define s' where "s' = s\<lparr>cmd_in_progress := False, transfer_value := 0, transfer_valid := False,
      l_data := store (l_data s) (unat (bb_data x ! 1)) ?v\<rparr>"
  have "transfers s x (unat (bb_data x ! 1)) ?v" using True p by (simp add: transfers_def)
  then have "memory_step s x (l_data s')" using p(1) unfolding memory_step_def s'_def by auto
  moreover have "listener_ok s'"
    using ok store_ok [of "l_data s" ?v] by (simp add: listener_ok_def s'_def total_blocks_def logged_in_def is_int32_def)
  ultimately have "good_step s x MfClassicListenerCommandAck s'" using p(2) by (simp add: good_step_def s'_def logged_in_def)
  then show ?thesis using transfer_handler [OF ok x, of rnd] True by (simp add: s'_def)
next
  case False
  then show ?thesis using transfer_handler [OF ok x, of rnd] ok p(2) by (auto simp: listener_simps)
qed

lemma data_receive_good:
  assumes ok: "listener_ok s" and p: "cmd_in_progress s" "logged_in s" "current_cmd_idx s \<in> {6, 7, 8}" "current_cmd_handler_idx s = 1"
    and x: "bb_ok x" and v: "\<not> (bit_buffer_get_size_bytes x = 4 \<and> overflows s x)"
  shows "\<exists>cmd s'. mf_classic_listener_value_data_receive_handler rnd s x = Inr (cmd, s') \<and> good_step s x cmd s'"
  using assms data_receive [OF x, of rnd s] by (auto simp: listener_simps overflows_def)

text \<open>The one fault of a handler: the arithmetic of a value.\<close>

definition value_fault :: "mf_classic_listener \<Rightarrow> bit_buffer \<Rightarrow> bool" where
  "value_fault s x \<longleftrightarrow> cmd_in_progress s \<and> logged_in s \<and> current_cmd_idx s \<in> {6, 7, 8} \<and> current_cmd_handler_idx s = 1 \<and>
     bit_buffer_get_size_bytes x = 4 \<and> overflows s x"

lemma handle_command_good:
  assumes ok: "listener_ok s" and x: "bb_ok x" and rnd: "length rnd = 4"
  shows "if value_fault s x then handle_command rnd s x = Inl UndefinedArith
    else \<exists>cmd s'. handle_command rnd s x = Inr (cmd, s') \<and> good_step s x cmd s'"
proof (cases "cmd_in_progress s")
  case True
  then have "pending s" using ok by (simp add: listener_ok_def)
  from handle_pending [OF True this, of rnd x] show ?thesis
    using auth_second_good [OF ok True _ x, of rnd] write_second_good [OF ok True _ _ x, of rnd] transfer_good [OF ok True _ _ _ x, of rnd]
      data_receive_good [OF ok True _ _ _ x, of rnd] data_receive [OF x, of rnd s] True
    by (elim disjE conjE) (simp_all add: value_fault_def)
next
  case False
  then show ?thesis using handle_first_good [OF ok False x rnd] by (simp add: value_fault_def)
qed

end
