(* ===== verification/Mf_Listener_Sessions.thy ===== *)
theory Mf_Listener_Sessions
  imports Mf_Listener_Steps
begin

text \<open>
  The listener over any sequence of events: the frame a handler is given, the invariant of every reachable state, and the
  properties of the emulated card.
\<close>

section \<open>A frame\<close>

lemma crc_checked:
  assumes "bb_ok d"
  shows "\<exists>ok. iso14443_crc_check Iso14443CrcTypeA d = Inr ok \<and> (ok \<longrightarrow> (\<exists>x. iso14443_crc_trim d = Inr x \<and> bb_ok x \<and>
    bb_data x = bb_data d \<and> bb_capacity_bytes x = bb_capacity_bytes d \<and> bb_size_bits x = 8 * (bit_buffer_get_size_bytes d - 2)))"
proof (cases "bit_buffer_get_size_bytes d \<le> 2")
  case True
  then show ?thesis by (intro exI [of _ False]) (simp add: iso14443_crc_check_def)
next
  case False
  then have n: "bit_buffer_get_size_bytes d = (bit_buffer_get_size_bytes d - 2) + 2" "0 < bit_buffer_get_size_bytes d - 2" by simp_all
  let ?x = "d\<lparr>bb_size_bits := 8 * (bit_buffer_get_size_bytes d - 2)\<rparr>"
  have "bit_buffer_get_size_bytes d - 2 \<le> bb_capacity_bytes d" using size_bytes_le [OF assms] by simp
  then have "iso14443_crc_trim d = Inr ?x" "bb_ok ?x"
    using False size_bytes_le [OF assms] assms
    by (auto simp: iso14443_crc_trim_def Let_def bit_buffer_set_size_bytes_def bb_ok_def mult.commute)
  then show ?thesis using iso14443.check_iff [OF assms n] by auto
qed

text \<open>The frames that the decryption cannot take: none at all, and one of more than 64 bytes.\<close>

definition frame_fault :: "mf_classic_listener \<Rightarrow> bit_buffer \<Rightarrow> bool" where
  "frame_fault s b \<longleftrightarrow> logged_in s \<and> (bb_size_bits b = 0 \<or> 512 < bb_size_bits b)"

lemma receive_plain_good:
  assumes ok: "listener_ok s" and b: "bb_ok b"
  shows "if frame_fault s b then receive_plain s b = Inl FuriCheck
    else \<exists>c r x. receive_plain s b = Inr (s\<lparr>crypto := c, rx_plain_buffer := r\<rparr>, x) \<and> buffer_64 r \<and> bb_ok x \<and>
      (if logged_in s then x = r \<and> (\<exists>d. crypto1_decrypt (crypto s) b (rx_plain_buffer s) = Inr (c, d) \<and> bb_data x = bb_data d)
       else x = b \<and> c = crypto s)"
proof (cases "logged_in s")
  case False
  then have "receive_plain s b = Inr (s\<lparr>crypto := crypto s, rx_plain_buffer := rx_plain_buffer s\<rparr>, b)"
    by (simp add: receive_plain_def logged_in_def)
  moreover have "buffer_64 (rx_plain_buffer s)" "\<not> frame_fault s b" using ok False by (simp_all add: listener_ok_def frame_fault_def)
  ultimately have "receive_plain s b = Inr (s\<lparr>crypto := crypto s, rx_plain_buffer := rx_plain_buffer s\<rparr>, b) \<and>
      buffer_64 (rx_plain_buffer s) \<and> bb_ok b \<and> \<not> frame_fault s b" using b by blast
  then show ?thesis using False by (simp only: if_False) blast
next
  case True
  then have l: "l_state s = MfClassicListenerStateAuthComplete" "comm_state s = MfClassicListenerCommStateEncrypted"
    and r: "bb_ok (rx_plain_buffer s)" "bb_capacity_bytes (rx_plain_buffer s) = 64"
    using ok by (simp_all add: listener_ok_def logged_in_def buffer_64_def)
  show ?thesis
  proof (cases "frame_fault s b")
    case bad: True
    then show ?thesis using decrypt_fails [OF b r(1), of "crypto s"] r(2) l by (auto simp: frame_fault_def receive_plain_def)
  next
    case False
    then have "0 < bb_size_bits b" "bb_size_bits b \<le> 8 * bb_capacity_bytes (rx_plain_buffer s)" using True r(2) by (auto simp: frame_fault_def)
    from decrypt_total [OF b r(1) this, of "crypto s"] r(2)
    obtain c d where d: "crypto1_decrypt (crypto s) b (rx_plain_buffer s) = Inr (c, d)" "bb_ok d" "bb_capacity_bytes d = 64" by auto
    obtain q where q: "iso14443_crc_check Iso14443CrcTypeA d = Inr q" "q \<longrightarrow> (\<exists>x. iso14443_crc_trim d = Inr x \<and> bb_ok x \<and>
      bb_data x = bb_data d \<and> bb_capacity_bytes x = bb_capacity_bytes d)" using crc_checked [OF d(2)] by blast
    obtain x where x: "(if q then iso14443_crc_trim d else Inr d) = Inr x" "bb_ok x" "bb_data x = bb_data d" "bb_capacity_bytes x = 64"
      using q(2) d(2,3) by (cases q) auto
    have "receive_plain s b = Inr (s\<lparr>crypto := c, rx_plain_buffer := x\<rparr>, x)" using l d(1) q(1) x(1) by (simp add: receive_plain_def)
    then show ?thesis using False True d(1) x by (auto simp: buffer_64_def)
  qed
qed

text \<open>The cipher takes no part in what a handler does to the memory and to the session.\<close>

lemma plain_steps:
  "memory_step (s\<lparr>crypto := c, rx_plain_buffer := r\<rparr>) x d = memory_step s x d"
  "login (s\<lparr>crypto := c, rx_plain_buffer := r\<rparr>) x = login s x"
  "logged_in (s\<lparr>crypto := c, rx_plain_buffer := r\<rparr>) = logged_in s"
  "value_fault (s\<lparr>crypto := c, rx_plain_buffer := r\<rparr>) x = value_fault s x"
  by (simp_all add: memory_step_def writes_def transfers_def may_transfer_def total_blocks_def login_def logged_in_def value_fault_def overflows_def)

lemma plain_ok:
  assumes "listener_ok s" and "buffer_64 r" and "\<not> logged_in s \<longrightarrow> c = crypto s"
  shows "listener_ok (s\<lparr>crypto := c, rx_plain_buffer := r\<rparr>)"
  using assms by (auto simp: listener_ok_def logged_in_def total_blocks_def pending_def)

section \<open>The answer\<close>

lemma short_frame:
  assumes ok: "listener_ok s"
  shows "\<exists>p c e f. mf_classic_listener_send_short_frame s v =
      Inr (transmit (TxCustomParity f) (s\<lparr>tx_plain_buffer := p, crypto := c, tx_encrypted_buffer := e\<rparr>)) \<and> buffer_64 p \<and> buffer_64 e \<and>
    bb_size_bits f = 4"
proof -
  have buf: "bb_ok (tx_plain_buffer s)" "bb_capacity_bytes (tx_plain_buffer s) = 64" "bb_ok (tx_encrypted_buffer s)"
    "bb_capacity_bytes (tx_encrypted_buffer s) = 64" "buffer_64 (tx_encrypted_buffer s)"
    using ok by (simp_all add: listener_ok_def buffer_64_def)
  define p0 where "p0 = (tx_plain_buffer s)\<lparr>bb_size_bits := 4\<rparr>"
  define p where "p = p0\<lparr>bb_data := (bb_data (tx_plain_buffer s))[0 := v]\<rparr>"
  have p0: "bit_buffer_set_size (tx_plain_buffer s) 4 = Inr p0" "bb_ok p0" using set_size_eq [OF buf(1), of 4] buf(2) by (simp_all add: p0_def)
  have len: "bb_data (tx_plain_buffer s) \<noteq> []" using buf(1,2) by (auto simp: bb_ok_def)
  have p: "bit_buffer_set_byte p0 0 v = Inr p" "bb_ok p" "bb_size_bits p = 4" "bb_capacity_bytes p = 64"
    using p0(2) len buf(2) by (simp_all add: bit_buffer_set_byte_def p_def p0_def size_bytes_eq list_set_def bb_ok_def)
  obtain c e where e: "crypto1_encrypt (crypto s) None p (tx_encrypted_buffer s) = Inr (c, e)" "bb_ok e" "bb_capacity_bytes e = 64" "bb_size_bits e = 4"
    using crypt_nibble(1) [OF p(2) buf(3) p(3), of "crypto s"] buf(4) by auto
  show ?thesis
  proof (cases "comm_state s = MfClassicListenerCommStateEncrypted")
    case True
    then show ?thesis using p0(1) p e
      by (intro exI [of _ p] exI [of _ c] exI [of _ e] exI [of _ e])
         (simp add: mf_classic_listener_send_short_frame_def Let_def buffer_64_def transmit_def)
  next
    case False
    then show ?thesis using p0(1) p buf(5)
      by (intro exI [of _ p] exI [of _ "crypto s"] exI [of _ "tx_encrypted_buffer s"] exI [of _ p])
         (auto simp: mf_classic_listener_send_short_frame_def Let_def buffer_64_def transmit_def intro!: mf_classic_listener.equality)
  qed
qed

lemma answer_good:
  assumes ok: "listener_ok s" and ack: "cmd = MfClassicListenerCommandAck \<longrightarrow> logged_in s"
  shows "\<exists>n s'. answer_command cmd s = Inr (n, s') \<and> listener_ok s' \<and> l_data s' = l_data s \<and> (logged_in s' \<longrightarrow> logged_in s)"
proof -
  have reset: "l_data (mf_classic_listener_reset_state t) = l_data t" "\<not> logged_in (mf_classic_listener_reset_state t)" for t
    by (simp_all add: mf_classic_listener_reset_state_def logged_in_def)
  have cleared: "listener_ok (mf_classic_listener_reset_state (transmit f (s\<lparr>tx_plain_buffer := p, crypto := c, tx_encrypted_buffer := e\<rparr>)))"
    if "buffer_64 p" "buffer_64 e" for p c e f
    using ok that by (simp add: listener_ok_def mf_classic_listener_reset_state_def transmit_def logged_in_def total_blocks_def auth_ok_def
        zero_auth_context_def is_int32_def)
  show ?thesis
  proof (cases cmd)
    case MfClassicListenerCommandAck
    obtain p c e f where r: "mf_classic_listener_send_short_frame s MF_CLASSIC_CMD_ACK =
      Inr (transmit f (s\<lparr>tx_plain_buffer := p, crypto := c, tx_encrypted_buffer := e\<rparr>))" "buffer_64 p" "buffer_64 e"
      using short_frame [OF ok] by blast
    have "listener_ok (transmit f (s\<lparr>tx_plain_buffer := p, crypto := c, tx_encrypted_buffer := e\<rparr>))"
      using ok r(2,3) ack MfClassicListenerCommandAck by (auto simp: listener_simps)
    then show ?thesis using r(1) MfClassicListenerCommandAck by (simp add: transmit_def logged_in_def)
  next
    case MfClassicListenerCommandNack
    define v where "v = (if transfer_valid s then MF_CLASSIC_CMD_NACK else MF_CLASSIC_CMD_NACK + MF_CLASSIC_CMD_NACK_TRANSFER_INVALID)"
    obtain p c e f where r: "mf_classic_listener_send_short_frame s v =
      Inr (transmit f (s\<lparr>tx_plain_buffer := p, crypto := c, tx_encrypted_buffer := e\<rparr>))" "buffer_64 p" "buffer_64 e"
      using short_frame [OF ok] by blast
    define s2 where "s2 = mf_classic_listener_reset_state (transmit f (s\<lparr>tx_plain_buffer := p, crypto := c, tx_encrypted_buffer := e\<rparr>))"
    have "answer_command cmd s = Inr (NfcCommandSleep, s2)"
      unfolding MfClassicListenerCommandNack answer_command.simps Let_def v_def [symmetric] r(1) s2_def by simp
    moreover have "l_data s2 = l_data s" "\<not> logged_in s2" by (simp_all add: s2_def reset transmit_def)
    ultimately show ?thesis using cleared [OF r(2,3)] by (simp add: s2_def)
  qed (use ok reset listener_reset_ok [OF ok] in auto)
qed

lemma receive_frame_good:
  assumes ok: "listener_ok s" and b: "bb_ok b" and rnd: "length rnd = 4"
  shows "if frame_fault s b then receive_frame rnd s b = Inl FuriCheck
    else \<exists>s1 x. receive_plain s b = Inr (s1, x) \<and>
      (if value_fault s x then receive_frame rnd s b = Inl UndefinedArith
       else \<exists>n s'. receive_frame rnd s b = Inr (n, s') \<and> listener_ok s' \<and> memory_step s x (l_data s') \<and>
         (logged_in s' \<longrightarrow> logged_in s \<or> login s x))"
proof (cases "frame_fault s b")
  case True
  then show ?thesis using receive_plain_good [OF ok b] by (simp add: receive_frame_def)
next
  case False
  then obtain c r x where x: "receive_plain s b = Inr (s\<lparr>crypto := c, rx_plain_buffer := r\<rparr>, x)" "buffer_64 r" "bb_ok x"
    "\<not> logged_in s \<longrightarrow> c = crypto s" using receive_plain_good [OF ok b] by (auto split: if_splits)
  define s1 where "s1 = s\<lparr>crypto := c, rx_plain_buffer := r\<rparr>"
  have ok1: "listener_ok s1" using plain_ok [OF ok x(2,4)] by (simp add: s1_def)
  note steps = plain_steps [where s = s and c = c and r = r, folded s1_def]
  show ?thesis
  proof (cases "value_fault s x")
    case bad: True
    then have "handle_command rnd s1 x = Inl UndefinedArith" using handle_command_good [OF ok1 x(3) rnd] by (simp add: steps)
    then show ?thesis using False x(1) bad by (simp add: receive_frame_def s1_def)
  next
    case fine: False
    then obtain cmd s2 where h: "handle_command rnd s1 x = Inr (cmd, s2)" "good_step s1 x cmd s2"
      using handle_command_good [OF ok1 x(3) rnd] by (auto simp: steps)
    obtain n s' where a: "answer_command cmd s2 = Inr (n, s')" "listener_ok s'" "l_data s' = l_data s2" "logged_in s' \<longrightarrow> logged_in s2"
      using answer_good [of s2 cmd] h(2) by (auto simp: good_step_def)
    have "receive_frame rnd s b = Inr (n, s')" using x(1) h(1) a(1) by (simp add: receive_frame_def s1_def)
    moreover have "memory_step s x (l_data s')" "logged_in s' \<longrightarrow> logged_in s \<or> login s x"
      using h(2) a(3,4) by (auto simp: good_step_def steps)
    ultimately show ?thesis using False x(1) fine a(2) by auto
  qed
qed

end
