(* ===== verification/Mf_Listener_Auth.thy ===== *)
theory Mf_Listener_Auth
  imports Mf_Listener_Sessions
begin

text \<open>
  A reader that has the key of a sector, and the listener: what \<^verbatim>\<open>crypto1_encrypt_reader_nonce\<close> sends is the answer
  that the listener asks for, in the first authentication and in one inside a session.
\<close>

section \<open>What the reader sends\<close>

lemma word_be_zero: "word_be (replicate 4 0) = 0"
proof -
  have "be_bits (word_be (replicate 4 0)) = be_bits 0"
    by (simp add: be_bits_word) (rule nth_equalityI, auto simp: be_bits_def le_bits_def numeral_eq_Suc upt_rec)
  then show ?thesis by (simp add: be_bits_inject)
qed

lemma keystream_zeros: "crypto1_word c 0 False = (word_be (fst (keystream c (replicate 4 0))), snd (keystream c (replicate 4 0)))"
  using keystream_word [of "replicate 4 0" c] by (simp add: word_be_zero)

lemma nth_le_bits: "r < 8 \<Longrightarrow> le_bits (x :: u8) ! r = bit x r"
  by (simp add: le_bits_def)

lemma nth_four_bytes:
  assumes "length xs = 4" and "q < 4" and "r < 8"
  shows "concat (map le_bits xs) ! (8 * q + r) = bit (xs ! q :: u8) r"
proof -
  obtain a b c d where xs: "xs = [a, b, c, d]" using assms(1) by (auto simp: length_Suc_conv numeral_eq_Suc)
  have l: "length (le_bits (x :: u8)) = 8" for x by (simp add: le_bits_def)
  consider "q = 0" | "q = 1" | "q = 2" | "q = 3" using assms(2) by linarith
  then show ?thesis using assms(3) by cases (simp_all add: xs nth_append l nth_le_bits)
qed

text \<open>The four bytes that the reader takes from the generator are the word that the listener compares with.\<close>

definition answer_bytes :: "u32 \<Rightarrow> u8 list" where
  "answer_bytes nt = map (\<lambda>i. ucast (crypto1_prng_successor nt (40 + 8 * i))) [0..<4]"

lemma word_be_answer: "word_be (answer_bytes nt) = crypto1_prng_successor nt 64"
proof -
  define st where "st n = (prng_step ^^ n) (SWAPENDIAN nt)" for n
  have succ: "bit (crypto1_prng_successor nt n) i = bit (st n) (i XOR 24)" if "i < 32" for n i
    using that by (simp add: crypto1_prng_successor_def st_def bit_SWAPENDIAN)
  have shift: "bit (st (m + n)) i = bit (st n) (i + m)" if "i + m < 32" for m n i
    using bit_steps [OF that, of "st n"] by (simp add: st_def funpow_add)
  have "be_bits (word_be (answer_bytes nt)) = be_bits (crypto1_prng_successor nt 64)"
  proof (rule nth_equalityI)
    fix i assume "i < length (be_bits (word_be (answer_bytes nt)))"
    then have i: "i < 32" by simp
    define q r where "q = i div 8" and "r = i mod 8"
    have qr: "i = 8 * q + r" "q < 4" "r < 8" using i by (auto simp: q_def r_def)
    have "be_bits (word_be (answer_bytes nt)) ! i = concat (map le_bits (answer_bytes nt)) ! i"
      by (simp add: be_bits_word answer_bytes_def)
    also have "\<dots> = bit (answer_bytes nt ! q) r"
      using nth_four_bytes [of "answer_bytes nt" q r] qr by (simp add: answer_bytes_def)
    also have "\<dots> = bit (crypto1_prng_successor nt (40 + 8 * q)) r" using qr by (simp add: answer_bytes_def bit_ucast_iff)
    also have "\<dots> = bit (st (40 + 8 * q)) (24 + r)" using qr succ [of r "40 + 8 * q"] xor24_if by (auto simp: add.commute)
    also have "\<dots> = bit (st 64) i"
    proof -
      have "st 64 = st ((24 - 8 * q) + (40 + 8 * q))" using qr(2) by simp
      then show ?thesis using shift [of i "24 - 8 * q" "40 + 8 * q"] qr by (simp add: add.commute)
    qed
    also have "\<dots> = be_bits (crypto1_prng_successor nt 64) ! i"
    proof -
      have "i XOR 24 < 32" "(i XOR 24) XOR 24 = i" using i xor24_if by auto
      then show ?thesis using succ [of "i XOR 24" 64] i by (simp add: nth_be_bits)
    qed
    finally show "be_bits (word_be (answer_bytes nt)) ! i = be_bits (crypto1_prng_successor nt 64) ! i" .
  qed simp
  then show ?thesis by (simp add: be_bits_inject)
qed

lemma for_each_map: "for_each f (map g xs) s = for_each (\<lambda>x. f (g x)) xs s"
  by (induction xs arbitrary: s) (auto simp: bindr_def split: sum.split)

text \<open>A frame of eight bytes under way: the first \<open>i\<close> bytes are \<open>xs\<close>.\<close>

definition under_way :: "nat \<Rightarrow> nat \<Rightarrow> u8 list \<Rightarrow> bit_buffer \<Rightarrow> bool" where
  "under_way cap i xs d \<longleftrightarrow> bb_ok d \<and> bb_size_bits d = 64 \<and> bb_capacity_bytes d = cap \<and> free_parity d i \<and> take i (bb_data d) = xs"

lemma send_byte:
  assumes "under_way cap i xs d" and "i < 8"
  shows "\<exists>d'. bit_buffer_set_byte_with_parity d i x p = Inr d' \<and> under_way cap (Suc i) (xs @ [x]) d'"
proof -
  have d: "bb_ok d" "bb_size_bits d = 64" "bb_capacity_bytes d = cap" "free_parity d i" "take i (bb_data d) = xs"
    using assms(1) by (simp_all add: under_way_def)
  have "i mod 8 \<noteq> 0 \<Longrightarrow> \<forall>j < 8. i mod 8 \<le> j \<longrightarrow> \<not> bit (bb_parity d ! (i div 8)) j" using d(4) by (simp add: free_parity_def)
  from set_byte_with_parity_eq [OF d(1) _ this, of x p] assms(2) d(2) obtain d' where d':
    "bit_buffer_set_byte_with_parity d i x p = Inr d'" "bb_ok d'" "bb_size_bits d' = 64" "bb_data d' = (bb_data d)[i := x]"
    "bb_capacity_bytes d' = bb_capacity_bytes d" "i mod 8 \<noteq> 7 \<longrightarrow> (\<forall>j < 8. i mod 8 < j \<longrightarrow> \<not> bit (bb_parity d' ! (i div 8)) j)" by auto
  have "i < length (bb_data d)" using d(1,2) assms(2) by (auto simp: bb_ok_def)
  then have "take (Suc i) (bb_data d') = xs @ [x]" using d(5) by (simp add: d'(4) take_Suc_conv_app_nth)
  then show ?thesis using d' d(3) free_parity_next [OF d'(6)] by (simp add: under_way_def)
qed

lemma keystream_Suc:
  assumes "i < length xs" and "crypto1_byte (snd (keystream c (take i xs))) (xs ! i) False = (k, c')"
  shows "keystream c (take (Suc i) xs) = (fst (keystream c (take i xs)) @ [k], c')"
  using assms by (simp add: take_Suc_conv_app_nth keystream_append)

lemma nr_loop:
  assumes nr: "length nr = 4" and d: "under_way cap 0 [] d"
  shows "\<exists>nr' d'. for_each nr_step [0..<4] (c, nr, d) = Inr (snd (keystream c nr), nr', d') \<and>
    under_way cap 4 (map2 (XOR) (fst (keystream c nr)) nr) d'"
proof -
  define I where "I i s \<longleftrightarrow> (\<exists>e nr'. s = (snd (keystream c (take i nr)), nr', e) \<and> length nr' = 4 \<and> drop i nr' = drop i nr \<and>
      under_way cap i (map2 (XOR) (fst (keystream c (take i nr))) (take i nr)) e)" for i and s :: "crypto1 \<times> u8 list \<times> bit_buffer"
  have "\<exists>t. for_each nr_step [0..<4] (c, nr, d) = Inr t \<and> I 4 t"
  proof (rule for_each_inv)
    show "I 0 (c, nr, d)" using nr d by (simp add: I_def)
  next
    fix i s assume i: "i < 4" and "I i s"
    then obtain e nr' where e: "s = (snd (keystream c (take i nr)), nr', e)" "length nr' = 4" "drop i nr' = drop i nr"
      "under_way cap i (map2 (XOR) (fst (keystream c (take i nr))) (take i nr)) e" by (auto simp: I_def)
    obtain k c' where k: "crypto1_byte (snd (keystream c (take i nr))) (nr ! i) False = (k, c')" by (metis surj_pair)
    have x: "nr' ! i = nr ! i" using e(2,3) i nr by (metis hd_drop_conv_nth)
    obtain e' where e': "bit_buffer_set_byte_with_parity e i (k XOR nr ! i) (encrypted_parity c' (nr ! i)) = Inr e'"
      "under_way cap (Suc i) (map2 (XOR) (fst (keystream c (take i nr))) (take i nr) @ [k XOR nr ! i]) e'"
      using send_byte [OF e(4)] i by fastforce
    have "nr_step i s = Inr (c', nr'[i := k XOR nr ! i], e')"
      using e(2) i k e'(1) by (simp add: nr_step_def e(1) list_get_def list_set_def x)
    moreover have "drop (Suc i) (nr'[i := k XOR nr ! i]) = drop (Suc i) nr" using e(3) by (metis drop_update_cancel drop_Suc tl_drop lessI)
    moreover have "map2 (XOR) (fst (keystream c (take (Suc i) nr))) (take (Suc i) nr) =
        map2 (XOR) (fst (keystream c (take i nr))) (take i nr) @ [k XOR nr ! i]"
      using i nr keystream_Suc [OF _ k] by (simp add: take_Suc_conv_app_nth)
    ultimately show "\<exists>t. nr_step i s = Inr t \<and> I (Suc i) t"
      using e(2) e'(2) keystream_Suc [OF _ k] i nr by (auto simp: I_def)
  qed
  then show ?thesis using nr by (auto simp: I_def)
qed

lemma ar_loop:
  assumes d: "under_way cap 4 xs d"
  shows "\<exists>nt' d'. for_each ar_step [4..<8] (c, nt, d) = Inr (snd (keystream c (replicate 4 0)), nt', d') \<and>
    under_way cap 8 (xs @ map2 (XOR) (fst (keystream c (replicate 4 0))) (map (\<lambda>i. ucast (crypto1_prng_successor nt (8 + 8 * i))) [0..<4])) d'"
proof -
  define ys where "ys = map (\<lambda>i. ucast (crypto1_prng_successor nt (8 + 8 * i)) :: u8) [0..<4]"
  define zs where "zs = replicate 4 (0 :: u8)"
  have l: "length ys = 4" "length zs = 4" by (simp_all add: ys_def zs_def)
  have st: "crypto1_prng_successor (crypto1_prng_successor nt (8 * i)) 8 = crypto1_prng_successor nt (8 * Suc i)" for i
    by (simp add: prng_successor_add add.commute)
  have start: "crypto1_prng_successor nt 0 = nt" by (simp add: crypto1_prng_successor_def)
  define I where "I i s \<longleftrightarrow> (\<exists>e. s = (snd (keystream c (take i zs)), crypto1_prng_successor nt (8 * i), e) \<and>
      under_way cap (4 + i) (xs @ map2 (XOR) (fst (keystream c (take i zs))) (take i ys)) e)" for i and s :: "crypto1 \<times> u32 \<times> bit_buffer"
  have "\<exists>t. for_each (\<lambda>i. ar_step (4 + i)) [0..<4] (c, nt, d) = Inr t \<and> I 4 t"
  proof (rule for_each_inv)
    show "I 0 (c, nt, d)" using d by (simp add: I_def start)
  next
    fix i s assume i: "i < 4" and "I i s"
    then obtain e where e: "s = (snd (keystream c (take i zs)), crypto1_prng_successor nt (8 * i), e)"
      "under_way cap (4 + i) (xs @ map2 (XOR) (fst (keystream c (take i zs))) (take i ys)) e" by (auto simp: I_def)
    have z: "zs ! i = 0" using i by (simp add: zs_def)
    obtain k c' where k: "crypto1_byte (snd (keystream c (take i zs))) (zs ! i) False = (k, c')" by (metis surj_pair)
    have y: "ys ! i = ucast (crypto1_prng_successor nt (8 * Suc i))" using i by (simp add: ys_def)
    obtain e' where e': "bit_buffer_set_byte_with_parity e (4 + i) (k XOR ys ! i) (encrypted_parity c' (ys ! i)) = Inr e'"
      "under_way cap (Suc (4 + i)) ((xs @ map2 (XOR) (fst (keystream c (take i zs))) (take i ys)) @ [k XOR ys ! i]) e'"
      using send_byte [OF e(2)] i by fastforce
    have "ar_step (4 + i) s = Inr (c', crypto1_prng_successor nt (8 * Suc i), e')"
      using k e'(1) by (simp add: ar_step_def e(1) st z y)
    moreover have "map2 (XOR) (fst (keystream c (take (Suc i) zs))) (take (Suc i) ys) =
        map2 (XOR) (fst (keystream c (take i zs))) (take i ys) @ [k XOR ys ! i]"
      using i l keystream_Suc [OF _ k] by (simp add: take_Suc_conv_app_nth)
    ultimately show "\<exists>t. ar_step (4 + i) s = Inr t \<and> I (Suc i) t"
      using e'(2) keystream_Suc [OF _ k] i l by (auto simp: I_def)
  qed
  moreover have "[4..<8] = map (\<lambda>i. 4 + i) [0..<4 :: nat]" by (simp add: upt_rec numeral_eq_Suc)
  ultimately show ?thesis using l by (auto simp: for_each_map I_def ys_def zs_def)
qed

text \<open>The cipher of the reader once the nonce of the card is in, and the frame it answers with.\<close>

definition answer_frame :: "crypto1 \<Rightarrow> u8 list \<Rightarrow> u8 list \<Rightarrow> u8 list" where
  "answer_frame c nr nt = map2 (XOR) (fst (keystream c nr)) nr @
     map2 (XOR) (fst (keystream (snd (keystream c nr)) (replicate 4 0))) (answer_bytes (word_be nt))"

lemma reader_nonce:
  fixes key cuid
  defines "k0 \<equiv> crypto1_init crypto1_alloc key"
  defines "c \<equiv> \<lambda>nt. snd (crypto1_word k0 (word_be nt XOR cuid) False)"
  assumes out: "bb_ok out" "8 \<le> bb_capacity_bytes out" and len: "length n = 4" "length nt = 4" "length nr = 4"
    and sent: "if nested then word_be n = nested_nonce k0 cuid (word_be nt) else n = nt"
  shows "\<exists>nr' fr. crypto1_encrypt_reader_nonce c0 key cuid n nr out nested =
      Inr (snd (keystream (snd (keystream (c nt) nr)) (replicate 4 0)), nr', fr) \<and>
    bb_ok fr \<and> bb_size_bits fr = 64 \<and> take 8 (bb_data fr) = answer_frame (c nt) nr nt"
proof -
  define out0 where "out0 = out\<lparr>bb_size_bits := 64\<rparr>"
  have out0: "bit_buffer_set_size_bytes out 8 = Inr out0" "under_way (bb_capacity_bytes out) 0 [] out0"
    using out by (auto simp: bit_buffer_set_size_bytes_def out0_def under_way_def bb_ok_def free_parity_def)
  have k0: "crypto1_init c0 key = k0" using crypto1_init_any [of c0 key] by (simp add: k0_def)
  have start: "(if nested then let (k, c) = crypto1_word k0 (word_be n XOR cuid) True in (k XOR word_be n, c)
      else (word_be n, snd (crypto1_word k0 (word_be n XOR cuid) False))) = (word_be nt, c nt)"
  proof (cases nested)
    case True
    then have n: "word_be n = nested_nonce k0 cuid (word_be nt)" using sent by simp
    then have "crypto1_word k0 (word_be n XOR cuid) True = crypto1_word k0 (word_be nt XOR cuid) False" by (simp add: nested_word)
    moreover have "fst (crypto1_word k0 (word_be nt XOR cuid) False) XOR word_be n = word_be nt"
      by (simp add: n nested_nonce_def xor.left_commute)
    ultimately show ?thesis using True by (simp add: c_def case_prod_beta)
  next
    case False
    then show ?thesis using sent by (simp add: c_def)
  qed
  obtain nr' d1 where nr': "for_each nr_step [0..<4] (c nt, nr, out0) = Inr (snd (keystream (c nt) nr), nr', d1)"
    "under_way (bb_capacity_bytes out) 4 (map2 (XOR) (fst (keystream (c nt) nr)) nr) d1"
    using nr_loop [OF len(3) out0(2)] by blast
  have a: "map (\<lambda>i. ucast (crypto1_prng_successor (crypto1_prng_successor (word_be nt) 32) (8 + 8 * i))) [0..<4] = answer_bytes (word_be nt)"
    by (simp add: answer_bytes_def prng_successor_add)
  obtain nt' d2 where ar: "for_each ar_step [4..<8] (snd (keystream (c nt) nr), crypto1_prng_successor (word_be nt) 32, d1) =
      Inr (snd (keystream (snd (keystream (c nt) nr)) (replicate 4 0)), nt', d2)"
    "under_way (bb_capacity_bytes out) 8 (answer_frame (c nt) nr nt) d2"
    using ar_loop [OF nr'(2), of "snd (keystream (c nt) nr)" "crypto1_prng_successor (word_be nt) 32"] unfolding a answer_frame_def by blast
  have "crypto1_encrypt_reader_nonce c0 key cuid n nr out nested =
      Inr (snd (keystream (snd (keystream (c nt) nr)) (replicate 4 0)), nr', d2)"
    unfolding crypto1_encrypt_reader_nonce_def out0(1) bindr_Inr bit_lib_bytes_to_num_be_word [OF len(1)] ucast_u64_back k0 Let_def
    unfolding start [unfolded Let_def] by (simp only: nr'(1) ar(1) bindr_Inr prod.case)
  then show ?thesis using ar(2) by (auto simp: under_way_def)
qed

lemma reader_answers:
  assumes "length nr = 4" and "length nt = 4"
  shows "answers_challenge c nt (answer_frame c nr nt)"
    and "snd (crypto1_word (after_nr c (answer_frame c nr nt)) 0 False) = snd (keystream (snd (keystream c nr)) (replicate 4 0))"
proof -
  let ?c1 = "snd (keystream c nr)" and ?ks = "fst (keystream (snd (keystream c nr)) (replicate 4 0))"
  have l: "length (answer_bytes (word_be nt)) = 4" by (simp add: answer_bytes_def)
  have parts: "take 4 (answer_frame c nr nt) = map2 (XOR) (fst (keystream c nr)) nr"
    "take 4 (drop 4 (answer_frame c nr nt)) = map2 (XOR) ?ks (answer_bytes (word_be nt))"
    using assms(1) l by (simp_all add: answer_frame_def)
  have "word_be (map2 (XOR) (fst (keystream c nr)) nr) = word_be nr XOR fst (crypto1_word c (word_be nr) False)"
    using keystream_word [OF assms(1), of c] assms(1) by (simp add: word_be_xor xor.commute)
  then have after: "after_nr c (answer_frame c nr nt) = ?c1"
    using word_feedback [of c "word_be nr"] keystream_word [OF assms(1), of c] by (simp add: after_nr_def parts)
  show "snd (crypto1_word (after_nr c (answer_frame c nr nt)) 0 False) = snd (keystream ?c1 (replicate 4 0))"
    by (simp add: after keystream_zeros)
  have "word_be (map2 (XOR) ?ks (answer_bytes (word_be nt))) = word_be ?ks XOR crypto1_prng_successor (word_be nt) 64"
    using l by (simp add: word_be_xor word_be_answer)
  then show "answers_challenge c nt (answer_frame c nr nt)"
    by (simp add: answers_challenge_def parts after keystream_zeros xor.commute xor.left_commute)
qed

end
