(* ===== verification/Mf_Classic_Emulation.thy ===== *)
theory Mf_Classic_Emulation
  imports Mf_Listener_Auth
begin

text \<open>
  The emulated card over any sequence of events: the reachable states of the listener, their invariant, the only faults, the
  only ways into a session and to the memory, and what a reader with the key of a sector can do.
\<close>

section \<open>Reachable states\<close>

fun event_ok :: "iso14443_3a_listener_event \<Rightarrow> bool" where
  "event_ok (Iso14443_3aListenerEventTypeReceivedStandardFrame b) = bb_ok b"
| "event_ok (Iso14443_3aListenerEventTypeReceivedData b) = bb_ok b"
| "event_ok _ = True"

inductive listener_reachable :: "mf_classic_listener \<Rightarrow> bool" where
  alloc: "card_ok d \<Longrightarrow> mf_classic_listener_alloc d = Inr s \<Longrightarrow> listener_reachable s"
| set_callback: "listener_reachable s \<Longrightarrow> listener_reachable (mf_classic_listener_set_callback p s)"
| run: "listener_reachable s \<Longrightarrow> length rnd = 4 \<Longrightarrow> event_ok ev \<Longrightarrow> mf_classic_listener_run rnd s ev = Inr (n, s') \<Longrightarrow> listener_reachable s'"

lemma callback_ok: "listener_ok (mf_classic_listener_set_callback p s) \<longleftrightarrow> listener_ok s"
  by (simp add: mf_classic_listener_set_callback_def listener_ok_def total_blocks_def logged_in_def pending_def)

lemma receive_frame_ok:
  "listener_ok s \<Longrightarrow> bb_ok b \<Longrightarrow> length rnd = 4 \<Longrightarrow> receive_frame rnd s b = Inr (n, s') \<Longrightarrow> listener_ok s'"
  using receive_frame_good [of s b rnd] by (auto split: if_splits)

lemma run_ok:
  "listener_ok s \<Longrightarrow> event_ok ev \<Longrightarrow> length rnd = 4 \<Longrightarrow> mf_classic_listener_run rnd s ev = Inr (n, s') \<Longrightarrow> listener_ok s'"
  by (cases ev) (auto dest: receive_frame_ok)

lemma listener_reachable_ok: "listener_reachable s \<Longrightarrow> listener_ok s"
proof (induction rule: listener_reachable.induct)
  case (alloc d s)
  then show ?case using listener_alloc_ok [of d] by auto
qed (auto simp: callback_ok intro: run_ok)

lemma reset_session: "l_data (mf_classic_listener_reset_state s) = l_data s" "\<not> logged_in (mf_classic_listener_reset_state s)"
  by (simp_all add: mf_classic_listener_reset_state_def logged_in_def)

definition frame_event :: "bool \<Rightarrow> bit_buffer \<Rightarrow> iso14443_3a_listener_event" where
  "frame_event standard b =
     (if standard then Iso14443_3aListenerEventTypeReceivedStandardFrame b else Iso14443_3aListenerEventTypeReceivedData b)"

lemma run_frame: "mf_classic_listener_run rnd s (frame_event standard b) = receive_frame rnd s b" "event_ok (frame_event standard b) = bb_ok b"
  by (simp_all add: frame_event_def)

text \<open>A card and a frame for the examples: an empty card with the value 5 in block 4, and the first frame of a login there.\<close>

definition example_card :: mf_classic_data where
  "example_card = store mf_classic_alloc 4 (mf_classic_value_to_block 5 4)"

lemma example_card_ok: "card_ok example_card"
proof -
  have "card_ok mf_classic_alloc" by (simp add: card_ok_def mf_classic_alloc_def iso14443_3a_alloc_def)
  then show ?thesis by (simp add: example_card_def store_ok)
qed

definition frame_with :: "u8 list \<Rightarrow> bit_buffer" where
  "frame_with xs = \<lparr>bb_data = xs, bb_parity = replicate ((length xs + 7) div 8) 0, bb_capacity_bytes = length xs, bb_size_bits = 8 * length xs\<rparr>"

lemma frame_with_ok: "0 < length xs \<Longrightarrow> length xs < 2 ^ 28 \<Longrightarrow> bb_ok (frame_with xs)"
  by (simp add: bb_ok_def frame_with_def)

lemma frame_with_simps [simp]:
  "bb_size_bits (frame_with xs) = 8 * length xs" "bb_data (frame_with xs) = xs" "bb_capacity_bytes (frame_with xs) = length xs"
  "bit_buffer_get_size_bytes (frame_with xs) = length xs" "frame_of (frame_with xs) = xs"
  by (simp_all add: frame_with_def bit_buffer_get_size_bytes_def frame_of_def)

definition fresh_card :: "mf_classic_listener \<Rightarrow> bool" where
  "fresh_card s \<longleftrightarrow> mf_classic_listener_alloc example_card = Inr s"

lemma fresh_card_exists: "\<exists>s. fresh_card s"
  using listener_alloc_ok [OF example_card_ok] by (auto simp: fresh_card_def)

lemma fresh_card_facts:
  assumes "fresh_card s"
  shows "listener_reachable s" "listener_ok s" "l_data s = example_card" "\<not> logged_in s" "\<not> cmd_in_progress s"
    "comm_state s = MfClassicListenerCommStatePlain" "sent s = []"
proof -
  show r: "listener_reachable s" using assms example_card_ok by (auto simp: fresh_card_def intro: listener_reachable.alloc)
  show "listener_ok s" by (rule listener_reachable_ok [OF r])
  show "l_data s = example_card" "\<not> logged_in s" "\<not> cmd_in_progress s" "comm_state s = MfClassicListenerCommStatePlain" "sent s = []"
    using assms by (auto simp: fresh_card_def mf_classic_listener_alloc_def bindr_eq_Inr logged_in_def)
qed

section \<open>Properties\<close>

text \<open>
  C9: the invariant of the listener. In every state that events reach, the buffers and the memory have their sizes, an
  authenticated reader talks encrypted and to a block of the card, the value under way is a 32-bit number, and a command that is under way is an
  authentication whose cipher has taken in the key of the sector, the identifier and the nonce, or a write to a block
  other than 0 of the authenticated sector, or a change of a value.
\<close>

theorem listener_invariant:
  assumes "listener_reachable s"
  shows "listener_ok s"
  by (rule listener_reachable_ok [OF assms])

theorem listener_invariant_witness: "\<exists>s. mf_classic_listener_alloc example_card = Inr s \<and> listener_ok s"
proof -
  obtain s where "fresh_card s" using fresh_card_exists by blast
  then show ?thesis using listener_invariant [OF fresh_card_facts(1)] by (auto simp: fresh_card_def)
qed

text \<open>
  C7: the faults of the listener, exactly. In a reachable state a frame makes it fault in two cases only: inside a session the
  frame is empty or longer than the 64 bytes of the buffer that it is decrypted to, and the check of the buffer halts the
  device; or the operand of a value command is the least 32-bit number or leads out of the range of the value, and the
  arithmetic is undefined.
\<close>

theorem listener_faults:
  assumes "listener_reachable s" and "bb_ok b" and "length rnd = 4"
  shows "mf_classic_listener_run rnd s (frame_event standard b) = Inl e \<longleftrightarrow>
    (if logged_in s \<and> (bb_size_bits b = 0 \<or> 512 < bb_size_bits b) then e = FuriCheck
     else e = UndefinedArith \<and> (\<exists>s1 x. receive_plain s b = Inr (s1, x) \<and> cmd_in_progress s \<and> logged_in s \<and>
       current_cmd_idx s \<in> {6, 7, 8} \<and> current_cmd_handler_idx s = 1 \<and> bit_buffer_get_size_bytes x = 4 \<and>
       (operand x = - (2 ^ 31) \<or> \<not> is_int32 (transfer_value s + delta (value_cmd s) (operand x)))))"
proof -
  have "mf_classic_listener_run rnd s (frame_event standard b) = Inl e \<longleftrightarrow>
    (if frame_fault s b then e = FuriCheck else e = UndefinedArith \<and> (\<exists>s1 x. receive_plain s b = Inr (s1, x) \<and> value_fault s x))"
    unfolding run_frame using receive_frame_good [OF listener_reachable_ok [OF assms(1)] assms(2,3)] by (auto split: if_splits)
  then show ?thesis by (simp only: frame_fault_def value_fault_def overflows_def)
qed

theorem listener_faults_witness:
  "\<exists>s. mf_classic_listener_alloc example_card = Inr s \<and>
     (\<forall>e. mf_classic_listener_run [1, 2, 3, 4] s (frame_event True (frame_with [0x60, 4])) \<noteq> Inl e)"
proof -
  obtain s where s: "fresh_card s" using fresh_card_exists by blast
  have "mf_classic_listener_run [1, 2, 3, 4] s (frame_event True (frame_with [0x60, 4])) \<noteq> Inl e" for e
    using listener_faults [OF fresh_card_facts(1) [OF s] frame_with_ok, of "[0x60, 4]" "[1, 2, 3, 4]" True e] fresh_card_facts(4) [OF s] by simp
  then show ?thesis using s by (auto simp: fresh_card_def)
qed

text \<open>
  C4: the memory of the card changes in two ways only. Inside a session, the second frame of a write changes one block,
  not block 0, of the authenticated sector, if the access conditions allow it, and of a trailer only the parts that they
  allow; and the transfer of a value puts a value into a block whose access conditions allow it, whatever sector it is in.
  Everything else leaves the memory as it was.
\<close>

theorem listener_memory:
  assumes "listener_reachable s" and "bb_ok b" and "length rnd = 4"
    and "mf_classic_listener_run rnd s (frame_event standard b) = Inr (n, s')"
  shows "l_data s' = l_data s \<or> (\<exists>s1 x blk v. receive_plain s b = Inr (s1, x) \<and> logged_in s \<and> cmd_in_progress s \<and>
    l_data s' = store (l_data s) blk v \<and> length v = 16 \<and>
    (0 < blk \<and> blk < total_blocks s \<and> same_sector blk (ac_block_num (auth_context s)) \<and> bit_buffer_get_size_bytes x = 16 \<and>
       may_write (l_data s) blk (ac_key_type (auth_context s)) \<and>
       v = written_block (l_data s) blk (ac_key_type (auth_context s)) (take 16 (bb_data x)) \<or>
     current_cmd_handler_idx s = 2 \<and> blk = unat (bb_data x ! 1) \<and> \<not> mf_classic_is_sector_trailer blk \<and>
       allows (l_data s) blk (ac_key_type (auth_context s)) MfClassicActionDataDec \<and>
       v = mf_classic_value_to_block (transfer_value s) (bb_data x ! 1)))"
proof -
  have ok: "listener_ok s" by (rule listener_reachable_ok [OF assms(1)])
  have card: "card_ok (l_data s)" using ok by (simp add: listener_ok_def)
  obtain s1 x where x: "receive_plain s b = Inr (s1, x)" "memory_step s x (l_data s')"
    using receive_frame_good [OF ok assms(2,3)] assms(4) by (auto simp: run_frame split: if_splits)
  have okx: "bb_ok x" using receive_plain_good [OF ok assms(2)] x(1) by (auto split: if_splits)
  from x(2) consider "l_data s' = l_data s"
    | blk v where "l_data s' = store (l_data s) blk v" "cmd_in_progress s" "writes s x blk v \<or> transfers s x blk v"
    unfolding memory_step_def by blast
  then show ?thesis
  proof cases
    case 2
    have "length v = 16"
      using 2(3) length_written_block [OF card, of blk] total_blocks_256 [of s] size_bytes_le [OF okx] okx
      by (auto simp: writes_def transfers_def bb_ok_def)
    then show ?thesis using 2 x(1) allows_data_dec unfolding writes_def transfers_def may_transfer_def by blast
  qed simp
qed

theorem listener_memory_witness:
  "\<exists>s s' n. mf_classic_listener_alloc example_card = Inr s \<and>
     mf_classic_listener_run [1, 2, 3, 4] s (frame_event True (frame_with [0x60, 4])) = Inr (n, s') \<and> l_data s' = example_card"
proof -
  obtain s where s: "fresh_card s" using fresh_card_exists by blast
  note f = fresh_card_facts [OF s]
  have b: "bb_ok (frame_with [0x60, 4])" by (rule frame_with_ok) simp_all
  obtain n s' where r: "mf_classic_listener_run [1, 2, 3, 4] s (frame_event True (frame_with [0x60, 4])) = Inr (n, s')"
    using receive_frame_good [OF f(2) b, of "[1, 2, 3, 4]"] f(4,5) by (auto simp: run_frame frame_fault_def value_fault_def)
  have "l_data s' = example_card" using listener_memory [OF f(1) b _ r] f(3,4) by auto
  then show ?thesis using s r by (auto simp: fresh_card_def)
qed

end
