(* ===== verification/Mf_Classic_Sessions.thy ===== *)
theory Mf_Classic_Sessions
  imports Mf_Classic_Emulation
begin

text \<open>
  A reader and the emulated card in a session: the login of a reader that has the key, a block that is read, and what a
  reader can do to blocks of other sectors.
\<close>

section \<open>Login\<close>

text \<open>One frame that is taken, handled and answered.\<close>

lemma run_handled:
  assumes "receive_plain s b = Inr (s1, x)" and "handle_command rnd s1 x = Inr (cmd, s2)" and "answer_command cmd s2 = Inr (n, s')"
  shows "mf_classic_listener_run rnd s (frame_event standard b) = Inr (n, s')"
  using assms by (simp add: run_frame receive_frame_def)

lemma handled_ok:
  "listener_ok s \<Longrightarrow> bb_ok x \<Longrightarrow> length rnd = 4 \<Longrightarrow> handle_command rnd s x = Inr (cmd, s') \<Longrightarrow> good_step s x cmd s'"
  using handle_command_good [of s x rnd] by (auto split: if_splits)

lemma receive_plain_state:
  assumes "listener_ok s" and "bb_ok b" and "receive_plain s b = Inr (s1, x)"
  shows "bb_ok x \<and> listener_ok s1 \<and> (\<exists>c r. s1 = s\<lparr>crypto := c, rx_plain_buffer := r\<rparr>)"
proof -
  obtain c r where r: "s1 = s\<lparr>crypto := c, rx_plain_buffer := r\<rparr>" "buffer_64 r" "bb_ok x" "\<not> logged_in s \<longrightarrow> c = crypto s"
    using receive_plain_good [OF assms(1,2)] assms(3) by (auto split: if_splits)
  then show ?thesis using plain_ok [OF assms(1) r(2,4)] by auto
qed

lemma receive_raw: "\<not> logged_in s \<Longrightarrow> receive_plain s b = Inr (s, b)"
  by (simp add: receive_plain_def logged_in_def)

fun auth_byte :: "mf_classic_key_type \<Rightarrow> u8" where
  "auth_byte MfClassicKeyTypeA = 0x60" | "auth_byte MfClassicKeyTypeB = 0x61"

lemma login_begins:
  assumes ok: "listener_ok s" and idle: "\<not> cmd_in_progress s" and nt: "length nt = 4"
    and blk: "blk < total_blocks s" and b: "bb_ok b"
    and x: "receive_plain s b = Inr (s0, x)" "bb_size_bits x = 16" "bb_data x ! 0 = auth_byte kt" "bb_data x ! 1 = of_nat blk"
  shows "\<exists>s1 f. mf_classic_listener_run nt s (frame_event standard b) = Inr (NfcCommandContinue, s1) \<and> sent s1 = sent s @ [f] \<and>
    challenge_sent s kt blk nt f \<and> listener_ok s1 \<and> l_data s1 = l_data s \<and> cmd_in_progress s1 \<and> \<not> logged_in s1 \<and>
    crypto s1 = challenged (l_data s) kt blk nt \<and> ac_nt (auth_context s1) = nt \<and> ac_key_type (auth_context s1) = kt \<and>
    ac_block_num (auth_context s1) = blk"
proof -
  obtain c r where s0: "s0 = s\<lparr>crypto := c, rx_plain_buffer := r\<rparr>" and ok0: "listener_ok s0" "bb_ok x"
    using receive_plain_state [OF ok b x(1)] by blast
  define i :: nat where "i = (case kt of MfClassicKeyTypeA \<Rightarrow> 2 | MfClassicKeyTypeB \<Rightarrow> 3)"
  define s0' where "s0' = s0\<lparr>current_cmd_idx := i, current_cmd_handler_idx := 0\<rparr>"
  have idle0: "\<not> cmd_in_progress s0" using idle by (simp add: s0)
  have ok0': "listener_ok s0'" using begun_ok [OF ok0(1) idle0] by (simp add: s0'_def)
  have cmd: "command_of (bb_size_bits x) (bb_data x ! 0) = Some i" using x(2,3) by (cases kt) (simp_all add: command_of_def i_def)
  have cap: "1 < bb_capacity_bytes x" using ok0(2) x(2) by (simp add: bb_ok_def)
  have blk8: "unat (bb_data x ! 1) = blk" using blk total_blocks_256 [of s] unfolding x(4) by (simp add: unat_of_nat)
  have blk0: "blk < total_blocks s0'" using blk by (simp add: s0'_def s0 total_blocks_def)
  obtain p e f where h: "mf_classic_listener_auth_first_part_handler nt s0' kt blk = Inr (MfClassicListenerCommandProcessed,
      next_handler (transmit f (s0'\<lparr>l_state := MfClassicListenerStateIdle, tx_plain_buffer := p, tx_encrypted_buffer := e,
        crypto := challenged (l_data s0') kt blk nt,
        auth_context := (auth_context s0')\<lparr>ac_key_type := kt, ac_block_num := blk, ac_nt := nt\<rparr>\<rparr>)))" "challenge_sent s0' kt blk nt f"
    using auth_first [OF ok0' nt blk0, of kt] by blast
  define s1 where "s1 = next_handler (transmit f (s0'\<lparr>l_state := MfClassicListenerStateIdle, tx_plain_buffer := p, tx_encrypted_buffer := e,
        crypto := challenged (l_data s0') kt blk nt,
        auth_context := (auth_context s0')\<lparr>ac_key_type := kt, ac_block_num := blk, ac_nt := nt\<rparr>\<rparr>))"
  have "(starters ! i) nt s0' x = Inr (MfClassicListenerCommandProcessed, s1)"
    using h(1) blk8 get_byte_eq [OF ok0(2) cap]
    by (cases kt) (simp_all add: starters_def i_def mf_classic_listener_auth_key_a_handler_def mf_classic_listener_auth_key_b_handler_def s1_def)
  then have hc: "handle_command nt s0 x = Inr (MfClassicListenerCommandProcessed, s1)"
    using handle_first [OF ok0(2) idle0, of nt] cmd by (simp add: s0'_def)
  have "mf_classic_listener_run nt s (frame_event standard b) = Inr (NfcCommandContinue, s1)"
    by (rule run_handled [OF x(1) hc]) simp
  moreover have "listener_ok s1" using handled_ok [OF ok0 nt hc] by (simp add: good_step_def)
  moreover have "l_data s0' = l_data s" "comm_state s0' = comm_state s" by (simp_all add: s0'_def s0)
  then have "challenge_sent s kt blk nt f" using h(2) by (simp only: challenge_sent_def)
  ultimately show ?thesis
    by (intro exI [of _ s1] exI [of _ f]) (simp add: s1_def next_handler_def transmit_def s0'_def s0 logged_in_def)
qed

lemma challenge_frame:
  assumes "challenge_sent s kt blk nt g" and "length nt = 4"
  shows "\<exists>e. g = (if comm_state s = MfClassicListenerCommStatePlain then Tx e else TxCustomParity e) \<and> length (frame_of e) = 4 \<and>
    (if comm_state s \<noteq> MfClassicListenerCommStatePlain
     then word_be (frame_of e) = nested_nonce (crypto1_init crypto1_alloc (session_key (l_data s) kt blk)) (card_cuid (l_data s)) (word_be nt)
     else frame_of e = nt)"
proof -
  obtain e where e: "if comm_state s = MfClassicListenerCommStatePlain then g = Tx e \<and> frame_of e = nt
      else g = TxCustomParity e \<and> length (frame_of e) = 4 \<and> word_be (frame_of e) =
        nested_nonce (crypto1_init crypto1_alloc (session_key (l_data s) kt blk)) (card_cuid (l_data s)) (word_be nt)"
    using assms(1) unfolding challenge_sent_def by blast
  then show ?thesis using assms(2) by (intro exI [of _ e]) (cases "comm_state s = MfClassicListenerCommStatePlain"; simp)
qed

lemma login_ends:
  assumes ok: "listener_ok s" and p: "cmd_in_progress s" "\<not> logged_in s" and rnd: "length rnd = 4"
    and fr: "bb_ok fr" "bb_size_bits fr = 64" "take 8 (bb_data fr) = answer_frame (crypto s) nr (ac_nt (auth_context s))" and nr: "length nr = 4"
  shows "\<exists>s' e. mf_classic_listener_run rnd s (frame_event standard fr) = Inr (NfcCommandContinue, s') \<and> sent s' = sent s @ [TxCustomParity e] \<and>
    listener_ok s' \<and> logged_in s' \<and> \<not> cmd_in_progress s' \<and> l_data s' = l_data s \<and>
    ac_key_type (auth_context s') = ac_key_type (auth_context s) \<and> ac_block_num (auth_context s') = ac_block_num (auth_context s) \<and>
    buffer_64 e \<and> bb_size_bits e = 32 \<and>
    (\<exists>c at. c = snd (keystream (snd (keystream (crypto s) nr)) (replicate 4 0)) \<and> length at = 4 \<and>
       word_be at = crypto1_prng_successor (word_be (ac_nt (auth_context s))) 96 \<and>
       crypto s' = snd (keystream c (replicate 4 0)) \<and> frame_of e = map2 (XOR) (fst (keystream c (replicate 4 0))) at)"
proof -
  have size: "bit_buffer_get_size_bytes fr = 8" using fr(2) by (simp add: size_bytes_eq)
  have nt: "length (ac_nt (auth_context s)) = 4" using ok by (simp add: listener_ok_def auth_ok_def)
  note ans = reader_answers [OF nr nt, of "crypto s"]
  have "answers_challenge (crypto s) (ac_nt (auth_context s)) (take 8 (bb_data fr))" using ans(1) by (simp only: fr(3))
  from auth_second(2) [OF ok fr(1) size this, of rnd] obtain r p e at where
    h: "mf_classic_listener_auth_second_part_handler rnd s fr = Inr (MfClassicListenerCommandProcessed,
        transmit (TxCustomParity e) (s\<lparr>cmd_in_progress := False,
          auth_context := (answered_context (auth_context s) (take 8 (bb_data fr)))\<lparr>ac_at := at\<rparr>,
          crypto := snd (keystream (snd (keystream (snd (keystream (crypto s) nr)) (replicate 4 0))) (replicate 4 0)), reported := r,
          tx_plain_buffer := p, tx_encrypted_buffer := e,
          l_state := MfClassicListenerStateAuthComplete, comm_state := MfClassicListenerCommStateEncrypted\<rparr>))"
      "buffer_64 p" "buffer_64 e" "bb_size_bits e = 32" "length at = 4" "word_be at = crypto1_prng_successor (word_be (ac_nt (auth_context s))) 96"
      "frame_of e = map2 (XOR) (fst (keystream (snd (keystream (snd (keystream (crypto s) nr)) (replicate 4 0))) (replicate 4 0))) at"
    unfolding fr(3) ans(2) by blast
  define s' where "s' = transmit (TxCustomParity e) (s\<lparr>cmd_in_progress := False,
          auth_context := (answered_context (auth_context s) (take 8 (bb_data fr)))\<lparr>ac_at := at\<rparr>,
          crypto := snd (keystream (snd (keystream (snd (keystream (crypto s) nr)) (replicate 4 0))) (replicate 4 0)), reported := r,
          tx_plain_buffer := p, tx_encrypted_buffer := e,
          l_state := MfClassicListenerStateAuthComplete, comm_state := MfClassicListenerCommStateEncrypted\<rparr>)"
  have "pending s" using ok p(1) by (simp add: listener_ok_def)
  then have hc: "handle_command rnd s fr = Inr (MfClassicListenerCommandProcessed, s')"
    using handle_pending [OF p(1), of rnd fr] p(2) h(1) by (simp add: s'_def)
  have "mf_classic_listener_run rnd s (frame_event standard fr) = Inr (NfcCommandContinue, s')"
    by (rule run_handled [OF receive_raw [OF p(2)] hc]) simp
  moreover have "listener_ok s'" using handled_ok [OF ok fr(1) rnd hc] by (simp add: good_step_def)
  ultimately show ?thesis using h(3-7)
    by (intro exI [of _ s'] exI [of _ e] conjI exI [of _ at] exI [of _ "snd (keystream (snd (keystream (crypto s) nr)) (replicate 4 0))"])
       (simp_all add: s'_def transmit_def logged_in_def answered_context_def)
qed

section \<open>Commands in a session\<close>

lemma crc_same:
  assumes "bb_ok p" and "bb_ok d" and "bb_size_bits p = 8 * (n + 2)" and "bb_size_bits d = 8 * (n + 2)" and "0 < n"
    and "frame_of d = frame_of p" and "iso14443_crc_check Iso14443CrcTypeA p = Inr True"
  shows "iso14443_crc_check Iso14443CrcTypeA d = Inr True"
proof -
  have n: "bit_buffer_get_size_bytes p = n + 2" "bit_buffer_get_size_bytes d = n + 2" using assms(3,4) by (simp_all add: size_bytes_eq)
  have len: "n + 2 \<le> length (bb_data p)" "n + 2 \<le> length (bb_data d)" using assms(1-4) by (simp_all add: bb_ok_def)
  have "take (n + 2) (bb_data d) = take (n + 2) (bb_data p)" using assms(3,4,6) by (simp add: frame_of_def)
  then have "data_bits (bb_data d) (8 * (n + 2)) = data_bits (bb_data p) (8 * (n + 2))" using take_bits [OF len(2,1)] by simp
  then show ?thesis
    using iso14443.check_iff [OF assms(1) n(1) assms(5), of Iso14443CrcTypeA] iso14443.check_iff [OF assms(2) n(2) assms(5), of Iso14443CrcTypeA] assms(7)
    by (simp add: lsb_serial_def)
qed

text \<open>What a reader sends with its checksum, encrypted with a cipher in the state of the listener's, arrives.\<close>

lemma sealed:
  assumes ok: "listener_ok s" and l: "logged_in s" and n: "length xs = n" "0 < n" "n \<le> 62"
  shows "\<exists>b s1 x. bb_ok b \<and> receive_plain s b = Inr (s1, x) \<and> bb_size_bits x = 8 * n \<and> take n (bb_data x) = xs"
proof -
  have blank: "bb_ok (frame_with (replicate 64 0))" by (rule frame_with_ok) simp_all
  have cap: "n + 2 \<le> bb_capacity_bytes (frame_with (replicate 64 0))" using n(3) by simp
  obtain p e where e: "crypto1_encrypt (crypto s) None p (frame_with (replicate 64 0)) = Inr (snd (keystream (crypto s) (replicate (n + 2) 0)), e)"
    "bb_ok p" "bb_ok e" "bb_size_bits e = 8 * (n + 2)" "take n (frame_of p) = xs" "iso14443_crc_check Iso14443CrcTypeA p = Inr True"
    "bb_size_bits p = 8 * (n + 2)" "frame_of e = map2 (XOR) (fst (keystream (crypto s) (replicate (n + 2) 0))) (frame_of p)"
    using encrypt_with_crc [OF blank blank n(1,2) cap cap, of "crypto s"] by blast
  have r: "bb_ok (rx_plain_buffer s)" "bb_capacity_bytes (rx_plain_buffer s) = 64" using ok by (simp_all add: listener_ok_def buffer_64_def)
  obtain d where d: "crypto1_decrypt (crypto s) e (rx_plain_buffer s) = Inr (snd (keystream (crypto s) (replicate (n + 2) 0)), d)" "bb_ok d"
    "bb_size_bits d = 8 * (n + 2)" "frame_of d = map2 (XOR) (fst (keystream (crypto s) (replicate (n + 2) 0))) (frame_of e)"
    using decrypt_bytes [OF e(3) r(1), where n = "n + 2" and r = 0 and c = "crypto s"] e(4) r(2) n by auto
  have "length (frame_of p) = n + 2" using e(2,7) by (simp add: frame_of_def bb_ok_def)
  then have f: "frame_of d = frame_of p" unfolding d(4) e(8) by (intro xor_back) (simp only: length_keystream length_replicate)
  have chk: "iso14443_crc_check Iso14443CrcTypeA d = Inr True" using crc_same [OF e(2) d(2) e(7) d(3) n(2) f e(6)] .
  then obtain x where x: "iso14443_crc_trim d = Inr x" "bb_data x = bb_data d" "bb_size_bits x = 8 * (bit_buffer_get_size_bytes d - 2)"
    using crc_checked [OF d(2)] by auto
  have size: "bb_size_bits x = 8 * n" using x(3) d(3) by (simp add: size_bytes_eq)
  have "take n (bb_data x) = take n (frame_of d)" using d(3) by (simp add: x(2) frame_of_def)
  then have "take n (bb_data x) = xs" using f e(5) by simp
  moreover have "receive_plain s e = Inr (s\<lparr>crypto := snd (keystream (crypto s) (replicate (n + 2) 0)), rx_plain_buffer := x\<rparr>, x)"
    using l ok d(1) chk x(1) by (simp add: receive_plain_def logged_in_def listener_ok_def)
  ultimately show ?thesis using e(3) size by blast
qed

lemma take_pair: "take 2 ys = [a, b] \<Longrightarrow> ys ! 0 = a \<and> ys ! 1 = b"
  by (cases ys; cases "tl ys") auto

text \<open>The answer to a command that is acknowledged.\<close>

lemma acknowledged:
  assumes "listener_ok s" and "logged_in s"
  shows "\<exists>s'. answer_command MfClassicListenerCommandAck s = Inr (NfcCommandContinue, s') \<and> listener_ok s' \<and> logged_in s' \<and>
    l_data s' = l_data s \<and> cmd_in_progress s' = cmd_in_progress s \<and> current_cmd_idx s' = current_cmd_idx s \<and>
    current_cmd_handler_idx s' = current_cmd_handler_idx s \<and> auth_context s' = auth_context s \<and> transfer_value s' = transfer_value s \<and>
    value_cmd s' = value_cmd s"
proof -
  obtain p c e f where r: "mf_classic_listener_send_short_frame s MF_CLASSIC_CMD_ACK =
      Inr (transmit f (s\<lparr>tx_plain_buffer := p, crypto := c, tx_encrypted_buffer := e\<rparr>))" "buffer_64 p" "buffer_64 e"
    using short_frame [OF assms(1)] by blast
  define s' where "s' = transmit f (s\<lparr>tx_plain_buffer := p, crypto := c, tx_encrypted_buffer := e\<rparr>)"
  have "listener_ok s'" using assms r(2,3) by (auto simp: s'_def listener_simps)
  moreover have "answer_command MfClassicListenerCommandAck s = Inr (NfcCommandContinue, s')" using r(1) by (simp add: s'_def)
  moreover have "logged_in s'" using assms(2) by (simp add: s'_def transmit_def logged_in_def)
  ultimately show ?thesis by (intro exI [of _ s']) (simp add: s'_def transmit_def)
qed

lemma refused:
  assumes "listener_ok s"
  shows "\<exists>s' f. answer_command MfClassicListenerCommandNack s = Inr (NfcCommandSleep, s') \<and> \<not> logged_in s' \<and> l_data s' = l_data s \<and>
    sent s' = sent s @ [TxCustomParity f] \<and> bb_size_bits f = 4"
proof -
  define v where "v = (if transfer_valid s then MF_CLASSIC_CMD_NACK else MF_CLASSIC_CMD_NACK + MF_CLASSIC_CMD_NACK_TRANSFER_INVALID)"
  obtain p c e f where r: "mf_classic_listener_send_short_frame s v =
    Inr (transmit (TxCustomParity f) (s\<lparr>tx_plain_buffer := p, crypto := c, tx_encrypted_buffer := e\<rparr>))" "bb_size_bits f = 4"
    using short_frame [OF assms] by blast
  show ?thesis unfolding answer_command.simps Let_def v_def [symmetric] r(1) bindr_Inr
    using r(2) by (simp add: mf_classic_listener_reset_state_def transmit_def logged_in_def)
qed

lemma command_begins:
  assumes ok: "listener_ok s" "\<not> cmd_in_progress s" "bb_ok b" and x: "receive_plain s b = Inr (s0, x)" "bb_size_bits x = 16"
    "command_of 16 (bb_data x ! 0) = Some i"
  shows "handle_command rnd s0 x = (starters ! i) rnd (s0\<lparr>current_cmd_idx := i, current_cmd_handler_idx := 0\<rparr>) x"
    and "listener_ok (s0\<lparr>current_cmd_idx := i, current_cmd_handler_idx := 0\<rparr>)" and "bb_ok x" and "2 \<le> bb_capacity_bytes x"
proof -
  obtain c r where s0: "s0 = s\<lparr>crypto := c, rx_plain_buffer := r\<rparr>" and o: "listener_ok s0" "bb_ok x"
    using receive_plain_state [OF ok(1,3) x(1)] by blast
  have idle: "\<not> cmd_in_progress s0" using ok(2) by (simp add: s0)
  show "bb_ok x" "2 \<le> bb_capacity_bytes x" using o(2) x(2) by (simp_all add: bb_ok_def)
  show "listener_ok (s0\<lparr>current_cmd_idx := i, current_cmd_handler_idx := 0\<rparr>)" by (rule begun_ok [OF o(1) idle])
  show "handle_command rnd s0 x = (starters ! i) rnd (s0\<lparr>current_cmd_idx := i, current_cmd_handler_idx := 0\<rparr>) x"
    using handle_first [OF o(2) idle, of rnd] x(2,3) by simp
qed

text \<open>What a reader gets that has the cipher in the state of the listener's.\<close>

definition reads_back :: "crypto1 \<Rightarrow> bit_buffer \<Rightarrow> crypto1 \<Rightarrow> mf_classic_block \<Rightarrow> bool" where
  "reads_back c e c' v \<longleftrightarrow> (\<forall>out. bb_ok out \<and> 18 \<le> bb_capacity_bytes out \<longrightarrow>
     (\<exists>d. crypto1_decrypt c e out = Inr (c', d) \<and> bb_size_bits d = 144 \<and> take 16 (bb_data d) = v \<and>
       iso14443_crc_check Iso14443CrcTypeA d = Inr True))"

lemma block_read:
  assumes ok: "listener_ok s" "\<not> cmd_in_progress s" and b: "bb_ok b"
    and x: "receive_plain s b = Inr (s0, x)" "bb_size_bits x = 16" "bb_data x ! 0 = MF_CLASSIC_CMD_READ_BLOCK" "bb_data x ! 1 = of_nat blk" "blk < 256"
  shows "may_read s blk \<Longrightarrow> \<exists>s' e. mf_classic_listener_run rnd s (frame_event standard b) = Inr (NfcCommandContinue, s') \<and>
      sent s' = sent s @ [TxCustomParity e] \<and> l_data s' = l_data s \<and> logged_in s' \<and>
      reads_back (crypto s0) e (crypto s') (visible (l_data s) blk (ac_key_type (auth_context s)))"
    and "\<not> may_read s blk \<Longrightarrow> \<exists>s' f. mf_classic_listener_run rnd s (frame_event standard b) = Inr (NfcCommandSleep, s') \<and>
      sent s' = sent s @ [TxCustomParity f] \<and> bb_size_bits f = 4 \<and> l_data s' = l_data s \<and> \<not> logged_in s'"
proof -
  obtain c r where s0: "s0 = s\<lparr>crypto := c, rx_plain_buffer := r\<rparr>" using receive_plain_state [OF ok(1) b x(1)] by blast
  define t where "t = s0\<lparr>current_cmd_idx := 4, current_cmd_handler_idx := 0\<rparr>"
  have cmd: "command_of 16 (bb_data x ! 0) = Some 4" unfolding x(3) by (simp add: command_of_def MF_CLASSIC_CMD_READ_BLOCK_def)
  note first = command_begins [OF ok b x(1,2) cmd, folded t_def]
  have h: "handle_command rnd s0 x = mf_classic_listener_read_block_handler rnd t x" using first(1) by (simp add: starters_def)
  have blk: "unat (bb_data x ! 1) = blk" using x(5) unfolding x(4) by (simp add: unat_of_nat)
  have t: "l_data t = l_data s" "auth_context t = auth_context s" "crypto t = crypto s0" "sent t = sent s" "logged_in t = logged_in s" "may_read t blk = may_read s blk"
    by (simp_all add: t_def s0 logged_in_def may_read_def)
  show "\<exists>s' e. mf_classic_listener_run rnd s (frame_event standard b) = Inr (NfcCommandContinue, s') \<and>
      sent s' = sent s @ [TxCustomParity e] \<and> l_data s' = l_data s \<and> logged_in s' \<and>
      reads_back (crypto s0) e (crypto s') (visible (l_data s) blk (ac_key_type (auth_context s)))" if yes: "may_read s blk"
  proof -
    have "may_read t (unat (bb_data x ! 1))" using yes by (simp only: blk t)
    from read_answers [OF first(2-4) this, of rnd] obtain p e where
      r: "mf_classic_listener_read_block_handler rnd t x = Inr (MfClassicListenerCommandProcessed,
        transmit (TxCustomParity e) (t\<lparr>tx_plain_buffer := p, crypto := snd (keystream (crypto s0) (replicate 18 0)), tx_encrypted_buffer := e\<rparr>))"
      "buffer_64 p" "buffer_64 e" "bb_size_bits p = 144" "bb_size_bits e = 144"
      "take 16 (frame_of p) = visible (l_data s) blk (ac_key_type (auth_context s))" "iso14443_crc_check Iso14443CrcTypeA p = Inr True"
      "frame_of e = map2 (XOR) (fst (keystream (crypto s0) (replicate 18 0))) (frame_of p)" unfolding blk t by blast
    define s' where "s' = transmit (TxCustomParity e) (t\<lparr>tx_plain_buffer := p, crypto := snd (keystream (crypto s0) (replicate 18 0)), tx_encrypted_buffer := e\<rparr>)"
    have hc: "handle_command rnd s0 x = Inr (MfClassicListenerCommandProcessed, s')" unfolding h r(1) s'_def ..
    have run: "mf_classic_listener_run rnd s (frame_event standard b) = Inr (NfcCommandContinue, s')"
      by (rule run_handled [OF x(1) hc]) simp
    have "reads_back (crypto s0) e (snd (keystream (crypto s0) (replicate 18 0))) (visible (l_data s) blk (ac_key_type (auth_context s)))"
      unfolding reads_back_def
    proof (intro allI impI)
      fix out assume out: "bb_ok out \<and> 18 \<le> bb_capacity_bytes out"
      have oks: "bb_ok e" "bb_ok p" using r(2,3) by (simp_all add: buffer_64_def)
      obtain d where d: "crypto1_decrypt (crypto s0) e out = Inr (snd (keystream (crypto s0) (replicate 18 0)), d)" "bb_ok d" "bb_size_bits d = 144"
        "frame_of d = map2 (XOR) (fst (keystream (crypto s0) (replicate 18 0))) (frame_of e)"
        using decrypt_bytes [OF oks(1), of out 18 0 "crypto s0"] out r(5) by auto
      have "length (frame_of p) = 18" using oks(2) r(4) by (simp add: frame_of_def bb_ok_def)
      then have f: "frame_of d = frame_of p" unfolding d(4) r(8) by (intro xor_back) (simp only: length_keystream length_replicate)
      have "iso14443_crc_check Iso14443CrcTypeA d = Inr True" using crc_same [OF oks(2) d(2), of 16] r(4,7) d(3) f by simp
      moreover have "take 16 (bb_data d) = take 16 (frame_of d)" using d(3) by (simp add: frame_of_def)
      then have "take 16 (bb_data d) = visible (l_data s) blk (ac_key_type (auth_context s))" unfolding f r(6) .
      ultimately show "\<exists>d. crypto1_decrypt (crypto s0) e out = Inr (snd (keystream (crypto s0) (replicate 18 0)), d) \<and> bb_size_bits d = 144 \<and>
          take 16 (bb_data d) = visible (l_data s) blk (ac_key_type (auth_context s)) \<and> iso14443_crc_check Iso14443CrcTypeA d = Inr True"
        using d(1,3) by blast
    qed
    moreover have "logged_in s'" using yes t(5) by (simp add: s'_def transmit_def logged_in_def may_read_def)
    moreover have "sent s' = sent s @ [TxCustomParity e]" "l_data s' = l_data s" "crypto s' = snd (keystream (crypto s0) (replicate 18 0))"
      using t(1,4) by (simp_all add: s'_def transmit_def)
    ultimately show ?thesis using run by auto
  qed
  show "\<exists>s' f. mf_classic_listener_run rnd s (frame_event standard b) = Inr (NfcCommandSleep, s') \<and>
      sent s' = sent s @ [TxCustomParity f] \<and> bb_size_bits f = 4 \<and> l_data s' = l_data s \<and> \<not> logged_in s'" if no: "\<not> may_read s blk"
  proof -
    have "\<not> may_read t (unat (bb_data x ! 1))" using no by (simp only: blk t not_False_eq_True)
    then have hc: "handle_command rnd s0 x = Inr (MfClassicListenerCommandNack, t)" using read_rejects [OF first(2-4)] h by simp
    obtain s' f where "answer_command MfClassicListenerCommandNack t = Inr (NfcCommandSleep, s')" "\<not> logged_in s'" "l_data s' = l_data s"
      "sent s' = sent s @ [TxCustomParity f]" "bb_size_bits f = 4" using refused [OF first(2)] t by auto
    then show ?thesis using run_handled [OF x(1) hc] by blast
  qed
qed

lemma length_answer: "length nr = 4 \<Longrightarrow> length (answer_frame c nr nt) = 8"
  by (simp add: answer_frame_def answer_bytes_def)

text \<open>A login from the start, as the reader and the listener go through it.\<close>

lemma first_login:
  assumes s: "fresh_card s" and blk: "blk < 20"
  shows "\<exists>s1 fr s'. listener_reachable s1 \<and> \<not> logged_in s1 \<and> l_data s1 = example_card \<and> ac_key_type (auth_context s1) = MfClassicKeyTypeA \<and>
    ac_block_num (auth_context s1) = blk \<and> ac_nt (auth_context s1) = [1, 2, 3, 4] \<and> bb_ok fr \<and>
    mf_classic_listener_run [1, 2, 3, 4] s1 (frame_event True fr) = Inr (NfcCommandContinue, s') \<and>
    listener_reachable s' \<and> logged_in s' \<and> \<not> cmd_in_progress s' \<and> l_data s' = example_card \<and>
    ac_key_type (auth_context s') = MfClassicKeyTypeA \<and> ac_block_num (auth_context s') = blk"
proof -
  note f = fresh_card_facts [OF s]
  let ?nt = "[1, 2, 3, 4] :: u8 list" and ?nr = "[5, 6, 7, 8] :: u8 list"
  have b: "bb_ok (frame_with [0x60, of_nat blk])" by (rule frame_with_ok) simp_all
  have blk': "blk < total_blocks s"
    using blk by (simp add: total_blocks_def f(3) example_card_def mf_classic_alloc_def mf_classic_get_total_block_num_def)
  have "\<exists>s1 g. mf_classic_listener_run ?nt s (frame_event True (frame_with [0x60, of_nat blk])) = Inr (NfcCommandContinue, s1) \<and> sent s1 = sent s @ [g] \<and>
    challenge_sent s MfClassicKeyTypeA blk ?nt g \<and> listener_ok s1 \<and> l_data s1 = l_data s \<and> cmd_in_progress s1 \<and> \<not> logged_in s1 \<and>
    crypto s1 = challenged (l_data s) MfClassicKeyTypeA blk ?nt \<and> ac_nt (auth_context s1) = ?nt \<and> ac_key_type (auth_context s1) = MfClassicKeyTypeA \<and>
    ac_block_num (auth_context s1) = blk"
    by (rule login_begins [OF f(2,5) _ blk' b receive_raw [OF f(4)]]) simp_all
  then obtain s1 where s1: "mf_classic_listener_run ?nt s (frame_event True (frame_with [0x60, of_nat blk])) = Inr (NfcCommandContinue, s1)"
    "listener_ok s1" "l_data s1 = example_card" "cmd_in_progress s1" "\<not> logged_in s1" "ac_nt (auth_context s1) = ?nt"
    "ac_key_type (auth_context s1) = MfClassicKeyTypeA" "ac_block_num (auth_context s1) = blk" using f(3) by auto
  have r1: "listener_reachable s1" by (rule listener_reachable.run [OF f(1) _ _ s1(1)]) (simp_all add: run_frame b)
  define fr where "fr = frame_with (answer_frame (crypto s1) ?nr ?nt)"
  have l: "length (answer_frame (crypto s1) ?nr ?nt) = 8" by (rule length_answer) simp
  have fr: "bb_ok fr" "bb_size_bits fr = 64" "take 8 (bb_data fr) = answer_frame (crypto s1) ?nr (ac_nt (auth_context s1))"
    using l frame_with_ok [of "answer_frame (crypto s1) ?nr ?nt"] by (simp_all add: fr_def s1(6))
  have "length ?nt = 4" "length ?nr = 4" by simp_all
  then obtain s2 where s2: "mf_classic_listener_run ?nt s1 (frame_event True fr) = Inr (NfcCommandContinue, s2)" "logged_in s2" "\<not> cmd_in_progress s2"
    "l_data s2 = l_data s1" "ac_key_type (auth_context s2) = ac_key_type (auth_context s1)" "ac_block_num (auth_context s2) = ac_block_num (auth_context s1)"
    using login_ends [OF s1(2,4,5) _ fr, of ?nt True] by blast
  have "listener_reachable s2" by (rule listener_reachable.run [OF r1 _ _ s2(1)]) (simp_all add: run_frame fr(1))
  then show ?thesis using s2 s1(3,5-8) r1 fr(1) by (intro exI [of _ s1] exI [of _ fr] exI [of _ s2]) simp
qed

section \<open>Values in a session\<close>

lemma example_access:
  "allows example_card 4 MfClassicKeyTypeA MfClassicActionDataDec" "allows example_card 0 MfClassicKeyTypeA MfClassicActionDataDec"
  "allows example_card 4 MfClassicKeyTypeA MfClassicActionDataRead"
proof -
  have t: "trailer_of example_card b = replicate 16 0" if "b < 8" for b
    using that by (simp add: trailer_of_def example_card_def store_def mf_classic_alloc_def trailer_by_block nth_list_update)
  have n: "\<not> mf_classic_is_sector_trailer 4" "\<not> mf_classic_is_sector_trailer 0" by (simp_all add: mf_classic_is_sector_trailer_def trailer_by_block)
  have "mf_classic_is_allowed_access_data_block (replicate 16 0) 4 MfClassicKeyTypeA MfClassicActionDataDec"
    "mf_classic_is_allowed_access_data_block (replicate 16 0) 0 MfClassicKeyTypeA MfClassicActionDataDec"
    "mf_classic_is_allowed_access_data_block (replicate 16 0) 4 MfClassicKeyTypeA MfClassicActionDataRead" by code_simp+
  then show "allows example_card 4 MfClassicKeyTypeA MfClassicActionDataDec" "allows example_card 0 MfClassicKeyTypeA MfClassicActionDataDec"
    "allows example_card 4 MfClassicKeyTypeA MfClassicActionDataRead"
    by (simp_all add: allows_def n t)
qed

lemma example_block_4: "mf_classic_block_to_value (mf_block example_card ! 4) = (True, 5, 4)"
proof -
  have "mf_block example_card ! 4 = mf_classic_value_to_block 5 4"
    unfolding example_card_def store_def mf_classic_alloc_def by simp
  then show ?thesis using value_of_block [of 5 4] by simp
qed

lemma operand_one: "take 4 (bb_data x) = [1, 0, 0, 0] \<Longrightarrow> operand x = 1"
proof -
  have "sint (word_at [1, 0, 0, 0] 0) = 1" by code_simp
  then show "take 4 (bb_data x) = [1, 0, 0, 0] \<Longrightarrow> operand x = 1" by (simp add: operand_def)
qed

lemma value_session:
  assumes s: "listener_reachable s" "logged_in s" "\<not> cmd_in_progress s" "l_data s = example_card"
    "ac_key_type (auth_context s) = MfClassicKeyTypeA" "ac_block_num (auth_context s) = 4"
  shows "\<exists>s'. listener_reachable s' \<and> logged_in s' \<and> cmd_in_progress s' \<and> current_cmd_idx s' \<in> {6, 7, 8} \<and> current_cmd_handler_idx s' = 2 \<and>
    l_data s' = example_card \<and> ac_key_type (auth_context s') = MfClassicKeyTypeA \<and> ac_block_num (auth_context s') = 4 \<and> transfer_value s' = 4"
proof -
  let ?rnd = "[1, 2, 3, 4] :: u8 list"
  have rnd: "length ?rnd = 4" by simp
  have ok: "listener_ok s" by (rule listener_reachable_ok [OF s(1)])
  obtain b s0 x where b: "bb_ok b" "receive_plain s b = Inr (s0, x)" "bb_size_bits x = 16" "take 2 (bb_data x) = [0xC0, 4]"
    using sealed [OF ok s(2), of "[0xC0, 4]" 2] by auto
  have d: "bb_data x ! 0 = 0xC0" "bb_data x ! 1 = 4" using take_pair [OF b(4)] by simp_all
  obtain c r where s0: "s0 = s\<lparr>crypto := c, rx_plain_buffer := r\<rparr>" and ok0: "listener_ok s0" "bb_ok x"
    using receive_plain_state [OF ok b(1,2)] by blast
  define t where "t = s0\<lparr>current_cmd_idx := 6, current_cmd_handler_idx := 0\<rparr>"
  have "command_of 16 (bb_data x ! 0) = Some 6" unfolding d(1) by (simp add: command_of_def)
  note first = command_begins [OF ok s(3) b(1,2,3) this, folded t_def]
  have h: "handle_command ?rnd s0 x = mf_classic_listener_value_cmd_handler ?rnd t x" using first(1) by (simp add: starters_def)
  have blk: "unat (bb_data x ! 1) = 4" unfolding d(2) by simp
  have ready: "value_ready t (bb_data x ! 0) 4 v n \<longleftrightarrow> v = MfClassicValueCommandDecrement \<and> n = 5" for v n
    unfolding d(1) using s example_access(1) example_block_4
    by (auto simp: value_ready_def t_def s0 logged_in_def total_blocks_def value_command_def command_bytes same_sector_def
        example_card_def mf_classic_alloc_def mf_classic_get_total_block_num_def)
  define u where "u = next_handler (t\<lparr>value_cmd := MfClassicValueCommandDecrement, transfer_value := 5, transfer_valid := True\<rparr>)"
  have hc: "handle_command ?rnd s0 x = Inr (MfClassicListenerCommandAck, u)"
    using value_cmd [OF first(2-4), of ?rnd] unfolding blk ready h by (auto simp: u_def)
  have "good_step s0 x MfClassicListenerCommandAck u" by (rule handled_ok [OF ok0 rnd hc])
  then have oku: "listener_ok u" "logged_in u" by (simp_all add: good_step_def)
  obtain s1 where s1: "answer_command MfClassicListenerCommandAck u = Inr (NfcCommandContinue, s1)" "listener_ok s1" "logged_in s1"
    "l_data s1 = l_data u" "cmd_in_progress s1 = cmd_in_progress u" "current_cmd_idx s1 = current_cmd_idx u"
    "current_cmd_handler_idx s1 = current_cmd_handler_idx u" "auth_context s1 = auth_context u" "transfer_value s1 = transfer_value u"
    "value_cmd s1 = value_cmd u" using acknowledged [OF oku] by blast
  note u = u_def t_def s0 next_handler_def
  have reach1: "listener_reachable s1"
    by (rule listener_reachable.run [OF s(1) rnd _ run_handled [OF b(2) hc s1(1), of True]]) (simp add: run_frame b(1))
  obtain b' s0' x' where b': "bb_ok b'" "receive_plain s1 b' = Inr (s0', x')" "bb_size_bits x' = 32" "take 4 (bb_data x') = [1, 0, 0, 0]"
    using sealed [OF s1(2,3), of "[1, 0, 0, 0]" 4] by auto
  obtain c' r' where s0': "s0' = s1\<lparr>crypto := c', rx_plain_buffer := r'\<rparr>" and ok0': "listener_ok s0'" "bb_ok x'"
    using receive_plain_state [OF s1(2) b'(1,2)] by blast
  have p: "cmd_in_progress s0'" "logged_in s0'" "current_cmd_idx s0' = 6" "current_cmd_handler_idx s0' = 1" "transfer_value s0' = 5"
    "value_cmd s0' = MfClassicValueCommandDecrement" using s1 by (simp_all add: s0' u logged_in_def)
  have "pending s0'" using ok0'(1) p(1) by (simp add: listener_ok_def)
  then have h': "handle_command ?rnd s0' x' = mf_classic_listener_value_data_receive_handler ?rnd s0' x'"
    using handle_pending [OF p(1), of ?rnd x'] p by auto
  have "\<not> overflows s0' x'" using operand_one [OF b'(4)] p by (simp add: overflows_def delta_def is_int32_def)
  then have hc': "handle_command ?rnd s0' x' = Inr (MfClassicListenerCommandSilent, next_handler (s0'\<lparr>transfer_value := 4, transfer_valid := True\<rparr>))"
    using data_receive [OF ok0'(2), of ?rnd s0'] b'(3) operand_one [OF b'(4)] p by (simp add: h' size_bytes_eq delta_def)
  define s2 where "s2 = next_handler (s0'\<lparr>transfer_value := 4, transfer_valid := True\<rparr>)"
  have "answer_command MfClassicListenerCommandSilent s2 = Inr (NfcCommandReset, s2)" by simp
  note run2 = run_handled [OF b'(2) hc' [folded s2_def] this, of True]
  have "listener_reachable s2" by (rule listener_reachable.run [OF reach1 rnd _ run2]) (simp add: run_frame b'(1))
  moreover have "logged_in s2" "cmd_in_progress s2" "current_cmd_idx s2 = 6" "current_cmd_handler_idx s2 = 2" "l_data s2 = example_card"
    "auth_context s2 = auth_context s" "transfer_value s2 = 4"
    using p s1 s(4) by (simp_all add: s2_def next_handler_def s0' u logged_in_def)
  ultimately show ?thesis using s(5,6) by auto
qed

section \<open>Properties\<close>

text \<open>
  C5: nobody gets into a session without the key. When a frame takes the listener into a session, it is the second frame of an
  authentication: eight bytes, of which the last four decrypt, with the cipher that has taken in the key of the sector, the
  identifier, the nonce of the card and the nonce of the reader, to the 64th successor of the nonce of the card.
\<close>

theorem listener_login:
  assumes "listener_reachable s" and "bb_ok b" and "length rnd = 4"
    and "mf_classic_listener_run rnd s (frame_event standard b) = Inr (n, s')" and "logged_in s'"
  shows "logged_in s \<or> cmd_in_progress s \<and> bit_buffer_get_size_bytes b = 8 \<and>
    (let a = auth_context s in
     answers_challenge (challenged (l_data s) (ac_key_type a) (ac_block_num a) (ac_nt a)) (ac_nt a) (take 8 (bb_data b)))"
proof (cases "logged_in s")
  case False
  have "login s b" using receive_frame_good [OF listener_reachable_ok [OF assms(1)] assms(2,3)] assms(4,5) False receive_raw [OF False, of b]
    by (auto simp: run_frame split: if_splits)
  then show ?thesis by (simp add: login_def)
qed simp

theorem listener_login_witness:
  "\<exists>s b. listener_reachable s \<and> \<not> logged_in s \<and> bit_buffer_get_size_bytes b = 8 \<and>
     answers_challenge (challenged example_card MfClassicKeyTypeA 4 [1, 2, 3, 4]) [1, 2, 3, 4] (take 8 (bb_data b))"
proof -
  obtain s where s: "fresh_card s" using fresh_card_exists by blast
  obtain s1 fr s2 where p: "listener_reachable s1" "\<not> logged_in s1" "l_data s1 = example_card" "ac_key_type (auth_context s1) = MfClassicKeyTypeA"
    "ac_block_num (auth_context s1) = 4" "ac_nt (auth_context s1) = [1, 2, 3, 4]" "bb_ok fr"
    "mf_classic_listener_run [1, 2, 3, 4] s1 (frame_event True fr) = Inr (NfcCommandContinue, s2)" "logged_in s2"
    using first_login [OF s, of 4] by auto
  have "length ([1, 2, 3, 4] :: u8 list) = 4" by simp
  from listener_login [OF p(1,7) this p(8,9)] p show ?thesis by (auto simp: Let_def)
qed

text \<open>
  C3: a reader with the key of the sector gets in, in a first authentication and in one inside a session. It asks for the block; the card
  sends its nonce, plain the first time and encrypted inside a session; from that and the key
  \<^verbatim>\<open>crypto1_encrypt_reader_nonce\<close> makes an answer that the listener accepts; and the reader decrypts the last frame to the
  96th successor of the nonce, after which both ciphers are in the same state.
\<close>

theorem reader_logs_in:
  assumes "listener_reachable s" and "\<not> cmd_in_progress s" and "blk < total_blocks s"
    and "length nt = 4" and "length nr = 4" and "length rnd = 4"
    and "bb_ok b" and "receive_plain s b = Inr (s0, x)" and "bb_size_bits x = 16"
    and "bb_data x ! 0 = auth_byte kt" and "bb_data x ! 1 = of_nat blk"
    and "bb_ok out" and "8 \<le> bb_capacity_bytes out" and "bb_ok out'" and "4 \<le> bb_capacity_bytes out'"
  shows "\<exists>s1 s2 e e2 c nr' fr c' d.
    mf_classic_listener_run nt s (frame_event standard b) = Inr (NfcCommandContinue, s1) \<and>
    sent s1 = sent s @ [if comm_state s = MfClassicListenerCommStatePlain then Tx e else TxCustomParity e] \<and>
    crypto1_encrypt_reader_nonce c0 (session_key (l_data s) kt blk) (card_cuid (l_data s)) (frame_of e) nr out
      (comm_state s \<noteq> MfClassicListenerCommStatePlain) = Inr (c, nr', fr) \<and>
    mf_classic_listener_run rnd s1 (frame_event standard fr) = Inr (NfcCommandContinue, s2) \<and>
    logged_in s2 \<and> l_data s2 = l_data s \<and> ac_key_type (auth_context s2) = kt \<and> ac_block_num (auth_context s2) = blk \<and>
    sent s2 = sent s1 @ [TxCustomParity e2] \<and> crypto1_decrypt c e2 out' = Inr (c', d) \<and>
    word_be (frame_of d) = crypto1_prng_successor (word_be nt) 96 \<and> crypto s2 = c'"
proof -
  note ok = listener_reachable_ok [OF assms(1)]
  let ?nested = "comm_state s \<noteq> MfClassicListenerCommStatePlain"
  define ch where "ch = challenged (l_data s) kt blk nt"
  obtain s1 g where s1: "mf_classic_listener_run nt s (frame_event standard b) = Inr (NfcCommandContinue, s1)" "sent s1 = sent s @ [g]"
    "challenge_sent s kt blk nt g" "listener_ok s1" "l_data s1 = l_data s" "cmd_in_progress s1" "\<not> logged_in s1" "crypto s1 = ch"
    "ac_nt (auth_context s1) = nt" "ac_key_type (auth_context s1) = kt" "ac_block_num (auth_context s1) = blk"
    using login_begins [OF ok assms(2,4,3,7-11), of standard] unfolding ch_def by blast
  obtain e where g: "g = (if comm_state s = MfClassicListenerCommStatePlain then Tx e else TxCustomParity e)" and e: "length (frame_of e) = 4"
    "if ?nested then word_be (frame_of e) = nested_nonce (crypto1_init crypto1_alloc (session_key (l_data s) kt blk)) (card_cuid (l_data s)) (word_be nt)
     else frame_of e = nt"
    using challenge_frame [OF s1(3) assms(4)] by blast
  obtain nr' fr where fr: "crypto1_encrypt_reader_nonce c0 (session_key (l_data s) kt blk) (card_cuid (l_data s)) (frame_of e) nr out ?nested =
      Inr (snd (keystream (snd (keystream ch nr)) (replicate 4 0)), nr', fr)" "bb_ok fr" "bb_size_bits fr = 64" "take 8 (bb_data fr) = answer_frame ch nr nt"
    using reader_nonce [OF assms(12,13) e(1) assms(4,5) e(2), of c0] unfolding ch_def challenged_def by blast
  have "take 8 (bb_data fr) = answer_frame (crypto s1) nr (ac_nt (auth_context s1))" by (simp only: fr(4) s1(8,9))
  from login_ends [OF s1(4,6,7) assms(6) fr(2,3) this assms(5), of standard] obtain s2 e2 c at where
    s2: "mf_classic_listener_run rnd s1 (frame_event standard fr) = Inr (NfcCommandContinue, s2)" "sent s2 = sent s1 @ [TxCustomParity e2]"
    "logged_in s2" "l_data s2 = l_data s1" "ac_key_type (auth_context s2) = kt" "ac_block_num (auth_context s2) = blk" "buffer_64 e2" "bb_size_bits e2 = 32"
    "c = snd (keystream (snd (keystream ch nr)) (replicate 4 0))" "length at = 4" "word_be at = crypto1_prng_successor (word_be nt) 96"
    "crypto s2 = snd (keystream c (replicate 4 0))" "frame_of e2 = map2 (XOR) (fst (keystream c (replicate 4 0))) at"
    unfolding s1(8-11) by blast
  have "bb_ok e2" using s2(7) by (simp add: buffer_64_def)
  from decrypt_bytes [OF this assms(14), of 4 0 c] s2(8) assms(15) obtain d where
    d: "crypto1_decrypt c e2 out' = Inr (snd (keystream c (replicate 4 0)), d)" "frame_of d = map2 (XOR) (fst (keystream c (replicate 4 0))) (frame_of e2)"
    by auto
  have "frame_of d = at" unfolding d(2) s2(13) by (rule xor_back) (simp only: length_keystream length_replicate s2(10))
  then have w: "word_be (frame_of d) = crypto1_prng_successor (word_be nt) 96" by (simp only: s2(11))
  have dec: "crypto1_decrypt c e2 out' = Inr (crypto s2, d)" by (simp only: d(1) s2(12))
  have sent1: "sent s1 = sent s @ [if comm_state s = MfClassicListenerCommStatePlain then Tx e else TxCustomParity e]" by (simp only: s1(2) g)
  have enc: "crypto1_encrypt_reader_nonce c0 (session_key (l_data s) kt blk) (card_cuid (l_data s)) (frame_of e) nr out ?nested = Inr (c, nr', fr)"
    unfolding s2(9) by (rule fr(1))
  have data: "l_data s2 = l_data s" by (simp only: s2(4) s1(5))
  show ?thesis
    by (intro exI [of _ s1] exI [of _ s2] exI [of _ e] exI [of _ e2] exI [of _ c] exI [of _ nr'] exI [of _ fr] exI [of _ "crypto s2"] exI [of _ d] conjI)
       (fact s1(1) sent1 enc s2(1) s2(3) data s2(5) s2(6) s2(2) dec w refl)+
qed

theorem reader_logs_in_witness:
  "\<exists>s s1 s2 e e2 c nr' fr. mf_classic_listener_alloc example_card = Inr s \<and>
     mf_classic_listener_run [1, 2, 3, 4] s (frame_event True (frame_with [0x60, 4])) = Inr (NfcCommandContinue, s1) \<and> sent s1 = [Tx e] \<and>
     crypto1_encrypt_reader_nonce crypto1_alloc (session_key example_card MfClassicKeyTypeA 4) (card_cuid example_card) (frame_of e) [5, 6, 7, 8]
       (frame_with (replicate 8 0)) False = Inr (c, nr', fr) \<and>
     mf_classic_listener_run [1, 2, 3, 4] s1 (frame_event True fr) = Inr (NfcCommandContinue, s2) \<and> logged_in s2 \<and>
     sent s2 = sent s1 @ [TxCustomParity e2]"
proof -
  obtain s where s: "fresh_card s" using fresh_card_exists by blast
  note f = fresh_card_facts [OF s]
  have b: "bb_ok (frame_with [0x60, 4])" "bb_ok (frame_with (replicate 8 0))" by (rule frame_with_ok; simp)+
  have blk: "4 < total_blocks s" by (simp add: total_blocks_def f(3) example_card_def mf_classic_alloc_def mf_classic_get_total_block_num_def)
  have len: "length ([1, 2, 3, 4] :: u8 list) = 4" "length ([5, 6, 7, 8] :: u8 list) = 4" by simp_all
  have x: "bb_size_bits (frame_with [0x60, 4]) = 16" "bb_data (frame_with [0x60, 4]) ! 0 = auth_byte MfClassicKeyTypeA"
    "bb_data (frame_with [0x60, 4]) ! 1 = of_nat 4" "8 \<le> bb_capacity_bytes (frame_with (replicate 8 0))"
    "4 \<le> bb_capacity_bytes (frame_with (replicate 8 0))" by simp_all
  show ?thesis
    using reader_logs_in [OF f(1,5) blk len(1,2,1) b(1) receive_raw [OF f(4)] x(1-3) b(2) x(4) b(2) x(5), of True crypto1_alloc] s f(3,6,7)
    unfolding fresh_card_def by (simp del: replicate.simps) blast
qed

text \<open>
  C6: a block that is read inside a session. A reader in step with the listener gets, encrypted and with a correct checksum, the block if its
  sector is the authenticated one and the access conditions let the key read it; of a trailer the key A is never sent, and
  the key B only where the access conditions say so, zeros are sent instead. In every other case nothing but four bits is sent, the session is over,
  and the card is not changed.
\<close>

theorem reader_reads:
  assumes "listener_reachable s" and "\<not> cmd_in_progress s" and "bb_ok b"
    and "receive_plain s b = Inr (s0, x)" and "bb_size_bits x = 16" and "bb_data x ! 0 = MF_CLASSIC_CMD_READ_BLOCK"
    and "bb_data x ! 1 = of_nat blk" and "blk < 256"
  shows "if may_read s blk
    then \<exists>s' e. mf_classic_listener_run rnd s (frame_event standard b) = Inr (NfcCommandContinue, s') \<and>
      sent s' = sent s @ [TxCustomParity e] \<and> l_data s' = l_data s \<and> logged_in s' \<and>
      reads_back (crypto s0) e (crypto s') (visible (l_data s) blk (ac_key_type (auth_context s)))
    else \<exists>s' f. mf_classic_listener_run rnd s (frame_event standard b) = Inr (NfcCommandSleep, s') \<and>
      sent s' = sent s @ [TxCustomParity f] \<and> bb_size_bits f = 4 \<and> l_data s' = l_data s \<and> \<not> logged_in s'"
  using block_read [OF listener_reachable_ok [OF assms(1)] assms(2-8)] by (cases "may_read s blk") simp_all

theorem reader_reads_witness:
  "\<exists>s b s' s0 x e. listener_reachable s \<and> logged_in s \<and> bb_ok b \<and> receive_plain s b = Inr (s0, x) \<and>
     mf_classic_listener_run [1, 2, 3, 4] s (frame_event True b) = Inr (NfcCommandContinue, s') \<and>
     reads_back (crypto s0) e (crypto s') (mf_classic_value_to_block 5 4)"
proof -
  obtain f where "fresh_card f" using fresh_card_exists by blast
  from first_login [OF this, of 4] obtain s where s: "listener_reachable s" "logged_in s" "\<not> cmd_in_progress s" "l_data s = example_card"
    "ac_key_type (auth_context s) = MfClassicKeyTypeA" "ac_block_num (auth_context s) = 4" by auto
  obtain b s0 x where b: "bb_ok b" "receive_plain s b = Inr (s0, x)" "bb_size_bits x = 16" "take 2 (bb_data x) = [0x30, 4]"
    using sealed [OF listener_reachable_ok [OF s(1)] s(2), of "[0x30, 4]" 2] by auto
  have d: "bb_data x ! 0 = MF_CLASSIC_CMD_READ_BLOCK" "bb_data x ! 1 = of_nat 4"
    using take_pair [OF b(4)] by (simp_all add: MF_CLASSIC_CMD_READ_BLOCK_def)
  have blk: "(4 :: nat) < 256" by simp
  have "may_read s 4" using s(2,4-6) example_access(3) by (simp add: may_read_def same_sector_def)
  moreover have "visible example_card 4 MfClassicKeyTypeA = mf_classic_value_to_block 5 4"
  proof -
    have "mf_block example_card ! 4 = mf_classic_value_to_block 5 4" unfolding example_card_def store_def mf_classic_alloc_def by simp
    then show ?thesis by (simp add: visible_def mf_classic_is_sector_trailer_def trailer_by_block)
  qed
  ultimately show ?thesis using reader_reads [OF s(1,3) b(1-3) d blk, of "[1, 2, 3, 4]" True] s b by fastforce
qed

text \<open>
  C8: a session with one sector can write to another. There is a reachable state of the listener, authenticated for block 4 in sector 1 of an
  empty card, in which the transfer of a value overwrites block 0, the block of the manufacturer, in sector 0: the handler
  checks neither that the block is in the authenticated sector nor that it is not block 0, as the handler of the write does.
\<close>

theorem transfer_overwrites_block_0:
  "\<exists>s b n s'. listener_reachable s \<and> bb_ok b \<and> ac_block_num (auth_context s) = 4 \<and> \<not> same_sector 0 4 \<and>
     mf_classic_listener_run [1, 2, 3, 4] s (frame_event True b) = Inr (n, s') \<and>
     mf_block (l_data s) ! 0 = replicate 16 0 \<and> mf_block (l_data s') ! 0 = mf_classic_value_to_block 4 0"
proof -
  let ?rnd = "[1, 2, 3, 4] :: u8 list"
  obtain s where "fresh_card s" using fresh_card_exists by blast
  from first_login [OF this, of 4] obtain sa where "listener_reachable sa" "logged_in sa" "\<not> cmd_in_progress sa" "l_data sa = example_card"
    "ac_key_type (auth_context sa) = MfClassicKeyTypeA" "ac_block_num (auth_context sa) = 4" by auto
  from value_session [OF this] obtain t where t: "listener_reachable t" "logged_in t" "cmd_in_progress t" "current_cmd_idx t \<in> {6, 7, 8}"
    "current_cmd_handler_idx t = 2" "l_data t = example_card" "ac_key_type (auth_context t) = MfClassicKeyTypeA" "ac_block_num (auth_context t) = 4"
    "transfer_value t = 4" by blast
  have ok: "listener_ok t" by (rule listener_reachable_ok [OF t(1)])
  obtain b t0 x where b: "bb_ok b" "receive_plain t b = Inr (t0, x)" "bb_size_bits x = 16" "take 2 (bb_data x) = [0xB0, 0]"
    using sealed [OF ok t(2), of "[0xB0, 0]" 2] by auto
  have d: "bb_data x ! 0 = 0xB0" "bb_data x ! 1 = 0" using take_pair [OF b(4)] by simp_all
  obtain c r where t0: "t0 = t\<lparr>crypto := c, rx_plain_buffer := r\<rparr>" and ok0: "listener_ok t0" "bb_ok x"
    using receive_plain_state [OF ok b(1,2)] by blast
  have p: "cmd_in_progress t0" "logged_in t0" "current_cmd_handler_idx t0 = 2" using t by (simp_all add: t0 logged_in_def)
  have "pending t0" using ok0(1) p(1) by (simp add: listener_ok_def)
  then have h: "handle_command ?rnd t0 x = mf_classic_listener_value_transfer_handler ?rnd t0 x"
    using handle_pending [OF p(1), of ?rnd x] p t(4) by (auto simp: t0)
  have "may_transfer t0 x"
    unfolding may_transfer_def d using b(3) t(6,7) example_access(2) by (simp add: size_bytes_eq t0 MF_CLASSIC_CMD_VALUE_TRANSFER_def)
  then have hc: "handle_command ?rnd t0 x = Inr (MfClassicListenerCommandAck, t0\<lparr>cmd_in_progress := False, transfer_value := 0,
      transfer_valid := False, l_data := store (l_data t0) 0 (mf_classic_value_to_block (transfer_value t0) 0)\<rparr>)"
    using transfer_handler [OF ok0, of ?rnd] unfolding h d by simp
  define u where "u = t0\<lparr>cmd_in_progress := False, transfer_value := 0,
      transfer_valid := False, l_data := store (l_data t0) 0 (mf_classic_value_to_block (transfer_value t0) 0)\<rparr>"
  have rnd: "length ?rnd = 4" by simp
  have "good_step t0 x MfClassicListenerCommandAck u" using handled_ok [OF ok0 rnd hc] by (simp add: u_def)
  then obtain s' where s': "answer_command MfClassicListenerCommandAck u = Inr (NfcCommandContinue, s')" "l_data s' = l_data u"
    using acknowledged [of u] by (auto simp: good_step_def)
  have "mf_classic_listener_run ?rnd t (frame_event True b) = Inr (NfcCommandContinue, s')"
    by (rule run_handled [OF b(2) hc [folded u_def] s'(1)])
  moreover have "mf_block (l_data s') ! 0 = mf_classic_value_to_block 4 0"
    using t(6,9) by (simp add: s'(2) u_def t0 store_def example_card_def mf_classic_alloc_def)
  moreover have "mf_block (l_data t) ! 0 = replicate 16 0" using t(6) by (simp add: example_card_def store_def mf_classic_alloc_def)
  moreover have "\<not> same_sector 0 4" by (simp add: same_sector_def sector_by_block)
  ultimately show ?thesis using t(1,8) b(1) by blast
qed

end
