(* ===== verification/Spec2Isabelle.thy ===== *)
theory Spec2Isabelle
  imports Infrared_Facade Bit_Lib_Parity Bit_Lib_Codes Bit_Buffer_Bits Crc_Codes Keeloq Em4100_Transfer Princeton_Transfer Dolphin_Facts Mf_Classic_Sessions
begin

text \<open>
  Verification library of the protocol codecs of the firmware: what the device sends over infrared, as
  a proximity card and as a radio remote control, what it makes of the signals it hears, the bit
  buffers, checksums and ciphers that these protocols use, and the pet that rewards their use.

  \<^bold>\<open>The program.\<close> The firmware (\<^verbatim>\<open>src/\<close>) runs applications on a small kernel. Its own logic lies in the
  libraries under \<^verbatim>\<open>src/lib\<close>: a worker takes edges from a timer, a protocol's decoder turns them into a
  message, an encoder turns a message into edges again. Encoders are stepped: the transmitter asks
  for one pulse after the other (\<^verbatim>\<open>encode\<close>, \<^verbatim>\<open>yield\<close>). Decoders are state machines that are fed one
  edge at a time and say when they have something (\<^verbatim>\<open>decode\<close>, \<^verbatim>\<open>feed\<close>).

  \<^bold>\<open>Conventions.\<close> A \<^verbatim>\<open>struct\<close> is a record, an enumeration a datatype, with the names of the source. Words
  that are shifted and masked have their width (\<^verbatim>\<open>uint64_t\<close> is \<open>u64\<close>), and so have lengths that the source
  passes as \<^verbatim>\<open>uint8_t\<close>; other counters, sizes and durations are
  naturals, with the wrap-around of their C type written out (\<open>inc8\<close>, \<open>mod 2 ^ 32\<close>). A failing check,
  assertion or \<^verbatim>\<open>furi_crash\<close>, an access outside an array, and undefined arithmetic are values of
  \<open>furi_fault\<close>; \<open>'a res\<close> is a fault or a result, \<open>bindr\<close> goes on after a result, \<open>for_each\<close> is a counted
  loop that may stop at a fault. Absence of a fault is part of every theorem that states a result.
  Null pointers, freeing, and logging are not modelled; memory is never short.

  \<^bold>\<open>Theories.\<close>

  \<^item> \<open>Prelude\<close>, \<open>Bytes\<close>: faults, checked arrays, wrapping counters; buffers as sequences of bits, words
    collected bit by bit (\<open>word_of_bits\<close>), parity of a list of bits; the contract \<open>bit_store\<close> of a store
    of bits, with runs of writes and reads proved from single ones.

  \<^item> \<open>Bit_Lib\<close>: every function of \<^verbatim>\<open>lib/bit_lib/bit_lib.c\<close>. \<open>Bit_Lib_Facts\<close> has their effect on the bits of
    a buffer (an interpretation of \<open>bit_store\<close>), \<open>Bit_Lib_Codes\<close> the conversions between numbers and
    bytes, \<open>Bit_Lib_Parity\<close> adding, testing and removing parity bits, and the outcome of adding them for all lengths.

  \<^item> \<open>Bit_Buffer\<close>: every function of \<^verbatim>\<open>lib/toolbox/bit_buffer.c\<close>. \<open>Bit_Buffer_Facts\<close> has the invariant of
    every buffer that can be built (\<open>bb_reachable\<close>: any operations, any arguments): its length is within the
    capacity (\<open>bb_in_range\<close>) or, after an \<open>append_right\<close> that starts too far, has wrapped around; and which operations
    stay inside the arrays in either case. \<open>Bit_Buffer_Bits\<close> has the refinement of lists of bits, for buffers in range, and
    the frames with a parity bit behind every byte.

  \<^item> \<open>Crc\<close>: the shift register as the reference of all checksums, which is the remainder of a polynomial
    division and detects bursts. \<open>Checksums\<close>: \<^verbatim>\<open>lib/subghz/blocks/math.c\<close>, \<^verbatim>\<open>lib/one_wire/maxim_crc.c\<close>,
    \<^verbatim>\<open>lib/nfc/helpers/felica_crc.c\<close>, \<^verbatim>\<open>iso13239_crc.c\<close>, \<^verbatim>\<open>iso14443_crc.c\<close>. \<open>Checksums_Facts\<close> proves each
    routine equal to the register; \<open>Crc_Codes\<close> has the division, the agreement of the routines, and the
    contract \<open>crc16_frame\<close> of a code that is appended to a buffer, interpreted for the three NFC codes.

  \<^item> \<open>Infrared_Common\<close>: the table-driven decoder and encoder of
    \<^verbatim>\<open>lib/infrared/encoder_decoder/common\<close>, whose record \<open>infrared_common_protocol_spec\<close> holds the functions
    and timings of a protocol. \<open>Infrared_Safety\<close> has the invariant of the decoder and the conditions
    under which it never faults (\<open>infrared_protocol_ops\<close>, \<open>infrared_protocol_safe\<close>). \<open>Infrared_Codec\<close>
    drives encoder and decoder (\<open>infrared_codec\<close>, \<open>infrared_repeat_code\<close>); \<open>Infrared_Pdwm\<close> and
    \<open>Infrared_Manchester\<close> do the two modulations (\<open>pdwm_codec\<close>, \<open>manchester_encoder\<close>, \<open>toggle_codec\<close>).
    \<open>Infrared_Nec\<close>, \<open>_Samsung\<close>, \<open>_Rca\<close>, \<open>_Kaseikyo\<close>, \<open>_Sirc\<close>, \<open>_Pioneer\<close>, \<open>_Rc5\<close>, \<open>_Rc6\<close> are the protocols, each
    interpreting the contracts of its modulation. \<open>Infrared\<close> is the facade \<^verbatim>\<open>infrared.c\<close> with its table
    of protocols; \<open>Infrared_Quiet\<close> and \<open>Infrared_Facade\<close> send messages through it with all decoders
    listening.

  \<^item> \<open>Manchester\<close>: the coder of \<^verbatim>\<open>lib/toolbox/manchester_encoder.c\<close> and \<^verbatim>\<open>manchester_decoder.c\<close>.
    \<open>Level_Duration\<close>: the pulses of \<^verbatim>\<open>lib/toolbox/level_duration.h\<close> and what they merge to on a line.

  \<^item> \<open>Em4100\<close>: \<^verbatim>\<open>lib/lfrfid/protocols/protocol_em4100.c\<close>. \<open>Em4100_Facts\<close> has the frame of 64 bits: what
    builds it, what accepts it, how far two frames are apart, and that a stream of frames has one
    alignment. \<open>Em4100_Transfer\<close> has the decoder as a shift register of 128 bits behind a Manchester
    decoder, and card and reader together.

  \<^item> \<open>Subghz_Blocks\<close>: \<^verbatim>\<open>decoder.c\<close>, \<^verbatim>\<open>encoder.c\<close>, \<^verbatim>\<open>generic.c\<close>, \<^verbatim>\<open>custom_btn.c\<close> of \<^verbatim>\<open>lib/subghz/blocks\<close>;
    \<open>Subghz_Blocks_Facts\<close> has the pulses of an array of bits as its runs. \<open>Princeton\<close>:
    \<^verbatim>\<open>lib/subghz/protocols/princeton.c\<close>; \<open>Princeton_Facts\<close> has its encoder and decoder on pairs of pulses,
    \<open>Princeton_Transfer\<close> both together. \<open>Keeloq\<close>: the cipher and the key derivations of
    \<^verbatim>\<open>lib/subghz/protocols/keeloq_common.c\<close>.

  \<^item> \<open>Crypto1\<close>: the cipher of the Mifare Classic cards, \<^verbatim>\<open>lib/nfc/helpers/crypto1.c\<close> with the parities of
    \<^verbatim>\<open>nfc_util.c\<close>. \<open>Crypto1_Facts\<close> has it as a machine on streams of bits, forwards and backwards;
    \<open>Crypto1_Nonces\<close> the generator of nonces and the way back from a later state; \<open>Crypto1_Frames\<close> bytes,
    words and whole frames.

  \<^item> \<open>Mf_Classic\<close>: the memory of a Mifare Classic card, \<^verbatim>\<open>lib/nfc/protocols/mf_classic/mf_classic.c\<close>; \<open>Mf_Classic_Facts\<close> has
    the sectors, the access conditions without the detour over the sector, and the blocks that hold a value. \<open>Mf_Classic_Listener\<close>:
    the emulation of such a card, \<^verbatim>\<open>mf_classic_listener.c\<close>, a state machine that is fed frames; \<open>sent\<close> and \<open>reported\<close> in its
    state record what it transmits and tells the application. \<open>Mf_Classic_Frames\<close> has frames of any size through the
    cipher, \<open>Mf_Listener_Facts\<close> the invariant \<open>listener_ok\<close> and the authentication, \<open>Mf_Listener_Memory\<close> reading and writing,
    \<open>Mf_Listener_Run\<close> the values, \<open>Mf_Listener_Steps\<close> the dispatch of a frame and what one command may do,
    \<open>Mf_Listener_Sessions\<close> a frame from its reception to the answer, \<open>Mf_Listener_Auth\<close> the reader's side of the
    authentication. \<open>Mf_Classic_Emulation\<close> and \<open>Mf_Classic_Sessions\<close> have the reachable states (\<open>listener_reachable\<close>), the
    properties of all of them, and whole sessions of a reader with the card.

  \<^item> \<open>Dolphin\<close>, \<open>Dolphin_Facts\<close>: the pet, \<^verbatim>\<open>dolphin_state.c\<close> and \<^verbatim>\<open>dolphin_deed.c\<close> of
    \<^verbatim>\<open>applications/services/dolphin/helpers\<close>.

  \<^bold>\<open>What is shown.\<close> Encoders and decoders fit together: for every protocol a message that fits its fields
  comes back, over the facade with all decoders listening (\<open>facade_transfer\<close>), with repeat codes and
  toggle bits over whole sessions (with the NEC messages whose repeats are not heard, \<open>nec_repeats\<close>), with jitter where the tolerances allow it (\<open>nec_jitter\<close>,
  \<open>em4100_transfer\<close>, \<open>princeton_receives\<close>), and when the receiver starts anywhere in the signal
  (\<open>manchester_synchronises\<close>, \<open>em4100_synchronises\<close>). Decoders are safe on every input, except the one
  that is not, and it is shown where (\<open>infrared_faults_only_in_pioneer\<close>, \<open>pioneer_overflow\<close>). Checks
  detect what they are there for: bursts (\<open>nfc_crc_bursts\<close>), two wrong bits (\<open>em4100_detects\<close>). The
  buffers keep their invariant and refine lists of bits (\<open>bit_buffer_invariant\<close>, \<open>bit_buffer_refines_bits\<close>), and where their
  checks let an access outside through is known (\<open>bit_buffer_memory_safe\<close>, \<open>bit_buffer_checks_missed\<close>). Routines equal their
  references (\<open>checksums_agree\<close> for the checksums of the bit library, the radio blocks, one-wire and NFC, \<open>em4100_codec\<close>). The cipher's directions are inverse (\<open>keeloq_roundtrip\<close>). The emulated
  card keeps its invariant over every sequence of events (\<open>listener_invariant\<close>); a reader gets into a session exactly
  with the key (\<open>listener_login\<close>, \<open>reader_logs_in\<close>) and sees of a block what the access conditions allow (\<open>reader_reads\<close>); the memory
  changes only where it may (\<open>listener_memory\<close>), except that the transfer of a value reaches other sectors
  (\<open>transfer_overwrites_block_0\<close>); and the frames that halt the device are known (\<open>listener_faults\<close>). The pet
  keeps its ranges whatever file it was loaded from, its deeds are worth what is left of the day, and it reaches the end of every
  level but the last (\<open>dolphin_invariant\<close>, \<open>dolphin_deed_worth\<close>, \<open>dolphin_levels_up\<close>).

  \<^bold>\<open>Loops and fuel.\<close> Counted loops are \<open>for_each\<close> over their range. Where the source loops while something
  holds: \<open>ir_frame_fuel = 128\<close> calls of an encoder for a frame of at most 48 bits, two pulses each, with its preamble and stop mark;
  \<open>decode_loop_fuel = 16\<close> turns of the common decoder for one edge, each of which changes its state or
  consumes one of the six timings that it stores; \<open>8 * length dest + 2\<close> groups in \<open>bit_lib_add_parity\<close>, each of which writes a
  bit, so that a call whose loop does not advance ends as what it is, a write behind the destination
  (\<open>add_parity_outcome\<close>). That the fuel is not used up is part of the theorems: \<open>OutOfFuel\<close> is a fault like the others.

  \<^bold>\<open>Parameters.\<close> What the real-time clock and the storage calls return are arguments of the operations
  that use them: the outcome of reading a key file (\<open>key_file\<close>), of saving and loading the pet, and its
  timestamps. So are the random bytes that the emulated card takes for its nonce. The theorems hold for every such outcome, or name the one they are about (\<open>file_of\<close>). The
  noise between encoder and decoder is a relation between sent and heard pulses (\<open>em_heard\<close>,
  \<open>code_heard\<close>).

  \<^bold>\<open>Not modelled.\<close> The kernel services (\<^verbatim>\<open>furi/core\<close>) wrap FreeRTOS and mlib; the hardware layer
  (\<^verbatim>\<open>targets\<close>) writes registers; GUI, storage, RPC, CLI and the applications are glue between them. Text for the
  display and the writing of files is left out where a protocol has it, and for the card memory the reading of files too. Of the NFC library, the worker over the
  hardware and the pollers are left out, and of the cards other than Mifare Classic everything but the checksums. The other card and radio
  protocols follow the schemes of EM4100 and Princeton, and the workers (\<^verbatim>\<open>infrared_worker.c\<close>) move edges
  between queues and these codecs; they are left out, and so are the variable-length integers and the 32-bit checksum of the toolbox.
\<close>

end
